(* ===== verification/Prelude.thy ===== *)
theory Prelude
  imports Main "HOL-Library.Word"
begin

text \<open>
  Shared vocabulary of the development: the C integer types of the program, the theorem
  collections the component theories extend, and generic facts on words and maps.

  Pointers are addresses of the flat address space of the target (natural numbers, 0 is the
  null pointer).  Objects live in typed stores, one function from addresses to objects per
  C type, so a cast between pointer types is the identity, as it is on the target.
\<close>

unbundle bit_operations_syntax

type_synonym INT8U = "8 word"
type_synonym INT16U = "16 word"
type_synonym INT32U = "32 word"
type_synonym ptr = nat

named_theorems os_defs "definitions of the kernel's state transformers, for unfolding"
named_theorems os_frame "which parts of the state a transformer leaves unchanged"
named_theorems os_pres "preservation of the kernel invariant"

subsection \<open>Bits of small words\<close>

lemma bit_word8_unat: "bit (w::8 word) k = bit (unat w) k"
  by (auto simp: bit_unsigned_iff dest: bit_imp_le_length)

lemma bit_exp_word8 [simp]: "bit (2 ^ n :: 8 word) k \<longleftrightarrow> k = n \<and> n < 8"
  by (auto simp: bit_exp_iff possible_bit_word)

lemma word_neq_0_bit: "(w::8 word) \<noteq> 0 \<longleftrightarrow> (\<exists>k. bit w k)"
  by (metis bit_eqI bit_0_eq bot_apply bot_bool_def)

lemma bit_word8_less: "bit (w::8 word) k \<Longrightarrow> k < 8"
  by (drule bit_imp_le_length) simp

lemma and_not_exp: "bit (w AND NOT (2 ^ n :: 8 word)) k \<longleftrightarrow> bit w k \<and> k \<noteq> n"
  by (auto simp: bit_and_iff bit_not_iff possible_bit_word dest: bit_word8_less)

lemma or_exp: "n < 8 \<Longrightarrow> bit (w OR (2 ^ n :: 8 word)) k \<longleftrightarrow> bit w k \<or> k = n"
  by (auto simp: bit_or_iff)

lemma and_exp_neq_0: "w AND (2 ^ n :: 8 word) \<noteq> 0 \<longleftrightarrow> bit w n"
  by (auto simp: word_neq_0_bit bit_and_iff dest: bit_word8_less)

lemma unat_less_256: "unat (w::8 word) < 256"
  using unsigned_less [of w, where 'a = nat] by simp

lemma divmod8_eq: "(p::nat) div 8 = q div 8 \<Longrightarrow> p mod 8 = q mod 8 \<Longrightarrow> p = q"
  by (metis div_mult_mod_eq)

subsection \<open>Counters\<close>

lemma unat_word_succ: "(c::'a::len word) \<noteq> - 1 \<Longrightarrow> unat (c + 1) = unat c + 1"
  by (metis Suc_eq_plus1 add.commute add.right_inverse add_eq_0_iff2 unatSuc)

lemma unat_word_pred: "(c::'a::len word) \<noteq> 0 \<Longrightarrow> unat (c - 1) = unat c - 1"
  by (simp add: unat_minus_one)

end
