(* ===== verification/Prio_Bitmap.thy ===== *)
theory Prio_Bitmap
  imports Prelude
begin

text \<open>
  The two-level priority bitmap of the kernel (\<open>os_core.c\<close>): a group byte and a table of
  eight bytes, used for the list of ready tasks (\<open>OSRdyGrp\<close>, \<open>OSRdyTbl\<close>) and for the list
  of tasks waiting on an event (\<open>OSEventGrp\<close>, \<open>OSEventTbl\<close>).  The interface \<open>prio_set\<close>
  states what its clients rely on: it is a set of priorities below 64 whose least element,
  the highest priority, is found by two lookups in \<open>OSUnMapTbl\<close>.
\<close>

subsection \<open>The lookup table\<close>

definition OSUnMapTbl :: "nat list" where
  "OSUnMapTbl = [
    0, 0, 1, 0, 2, 0, 1, 0, 3, 0, 1, 0, 2, 0, 1, 0,
    4, 0, 1, 0, 2, 0, 1, 0, 3, 0, 1, 0, 2, 0, 1, 0,
    5, 0, 1, 0, 2, 0, 1, 0, 3, 0, 1, 0, 2, 0, 1, 0,
    4, 0, 1, 0, 2, 0, 1, 0, 3, 0, 1, 0, 2, 0, 1, 0,
    6, 0, 1, 0, 2, 0, 1, 0, 3, 0, 1, 0, 2, 0, 1, 0,
    4, 0, 1, 0, 2, 0, 1, 0, 3, 0, 1, 0, 2, 0, 1, 0,
    5, 0, 1, 0, 2, 0, 1, 0, 3, 0, 1, 0, 2, 0, 1, 0,
    4, 0, 1, 0, 2, 0, 1, 0, 3, 0, 1, 0, 2, 0, 1, 0,
    7, 0, 1, 0, 2, 0, 1, 0, 3, 0, 1, 0, 2, 0, 1, 0,
    4, 0, 1, 0, 2, 0, 1, 0, 3, 0, 1, 0, 2, 0, 1, 0,
    5, 0, 1, 0, 2, 0, 1, 0, 3, 0, 1, 0, 2, 0, 1, 0,
    4, 0, 1, 0, 2, 0, 1, 0, 3, 0, 1, 0, 2, 0, 1, 0,
    6, 0, 1, 0, 2, 0, 1, 0, 3, 0, 1, 0, 2, 0, 1, 0,
    4, 0, 1, 0, 2, 0, 1, 0, 3, 0, 1, 0, 2, 0, 1, 0,
    5, 0, 1, 0, 2, 0, 1, 0, 3, 0, 1, 0, 2, 0, 1, 0,
    4, 0, 1, 0, 2, 0, 1, 0, 3, 0, 1, 0, 2, 0, 1, 0 ]"

definition unmap :: "8 word \<Rightarrow> nat" where
  "unmap w = OSUnMapTbl ! unat w"

text \<open>The table is checked entry by entry: the entry of a nonzero byte is its lowest set bit.\<close>

definition unmap_entry_ok :: "nat \<Rightarrow> nat \<Rightarrow> bool" where
  "unmap_entry_ok n k \<longleftrightarrow> k < 8 \<and> n mod 2 ^ k = 0 \<and> (n = 0 \<or> n div 2 ^ k mod 2 = 1)"

primrec unmap_table_ok :: "nat \<Rightarrow> nat list \<Rightarrow> bool" where
  "unmap_table_ok n [] = True"
| "unmap_table_ok n (k # ks) = (unmap_entry_ok n k \<and> unmap_table_ok (n + 1) ks)"

lemma unmap_table_ok_nth: "unmap_table_ok n ks \<Longrightarrow> i < length ks \<Longrightarrow> unmap_entry_ok (n + i) (ks ! i)"
proof (induction ks arbitrary: n i)
  case (Cons k ks)
  then show ?case
    using Cons.IH [of "n + 1" "i - 1"] by (cases i) auto
qed simp

lemma OSUnMapTbl_ok: "unmap_table_ok 0 OSUnMapTbl"
  by (simp add: OSUnMapTbl_def unmap_entry_ok_def)

lemma unmap_entry: "n < 256 \<Longrightarrow> unmap_entry_ok n (OSUnMapTbl ! n)"
  using unmap_table_ok_nth [OF OSUnMapTbl_ok, of n] by (simp add: OSUnMapTbl_def)

lemma unmap_less_8 [simp]: "unmap w < 8"
  using unmap_entry [of "unat w"] unat_less_256 [of w] by (simp add: unmap_def unmap_entry_ok_def)

lemma unmap_bit: "w \<noteq> 0 \<Longrightarrow> bit w (unmap w)"
  using unmap_entry [of "unat w"] unat_less_256 [of w]
  by (auto simp: unmap_def unmap_entry_ok_def bit_word8_unat bit_iff_odd odd_iff_mod_2_eq_one unat_eq_zero)

lemma unmap_least: "bit w k \<Longrightarrow> unmap w \<le> k"
proof (rule ccontr)
  let ?u = "unmap w"
  assume k: "bit w k" and "\<not> ?u \<le> k"
  then have "k < ?u" by simp
  have "unat w mod 2 ^ ?u = 0"
    using unmap_entry [of "unat w"] unat_less_256 [of w] by (auto simp: unmap_def unmap_entry_ok_def)
  then have "take_bit ?u (unat w) = 0" by (simp add: take_bit_eq_mod)
  then have "\<not> bit (take_bit ?u (unat w)) k" by simp
  with \<open>k < ?u\<close> have "\<not> bit (unat w) k" by (simp add: bit_take_bit_iff)
  with k show False by (simp add: bit_word8_unat)
qed

subsection \<open>The interface\<close>

locale prio_set =
  fixes mem :: "'s \<Rightarrow> nat \<Rightarrow> bool"
    and ins :: "nat \<Rightarrow> 's \<Rightarrow> 's"
    and del :: "nat \<Rightarrow> 's \<Rightarrow> 's"
    and some_in :: "'s \<Rightarrow> bool"
    and high :: "'s \<Rightarrow> nat"
    and inv :: "'s \<Rightarrow> bool"
  assumes mem_less: "inv s \<Longrightarrow> mem s p \<Longrightarrow> p < 64"
    and inv_ins: "inv s \<Longrightarrow> p < 64 \<Longrightarrow> inv (ins p s)"
    and inv_del: "inv s \<Longrightarrow> p < 64 \<Longrightarrow> inv (del p s)"
    and mem_ins: "inv s \<Longrightarrow> p < 64 \<Longrightarrow> mem (ins p s) q \<longleftrightarrow> q = p \<or> mem s q"
    and mem_del: "inv s \<Longrightarrow> p < 64 \<Longrightarrow> mem (del p s) q \<longleftrightarrow> q \<noteq> p \<and> mem s q"
    and some_in_iff: "inv s \<Longrightarrow> some_in s \<longleftrightarrow> (\<exists>p. mem s p)"
    and high_mem: "inv s \<Longrightarrow> some_in s \<Longrightarrow> mem s (high s)"
    and high_le: "inv s \<Longrightarrow> mem s p \<Longrightarrow> high s \<le> p"
begin

lemma high_less: "inv s \<Longrightarrow> some_in s \<Longrightarrow> high s < 64"
  by (rule mem_less [OF _ high_mem])

lemma high_eqI: "inv s \<Longrightarrow> mem s p \<Longrightarrow> (\<And>q. mem s q \<Longrightarrow> p \<le> q) \<Longrightarrow> high s = p"
  using some_in_iff high_mem high_le by (metis order_antisym)

lemma high_ins:
  assumes "inv s" and "p < 64" and "some_in s"
  shows "high (ins p s) = min p (high s)"
  using assms by (intro high_eqI)
    (auto simp: inv_ins mem_ins min_def high_mem dest: high_le)

lemma high_del_other:
  assumes "inv s" and "some_in s" and "p < 64" and "p \<noteq> high s"
  shows "high (del p s) = high s"
  using assms by (intro high_eqI) (auto simp: inv_del mem_del high_mem intro: high_le)

lemma high_del_self_greater:
  assumes "inv s" and "some_in s" and "some_in (del (high s) s)"
  shows "high s < high (del (high s) s)"
proof -
  note hl = high_less [OF assms(1,2)]
  have "mem (del (high s) s) (high (del (high s) s))"
    using assms hl by (intro high_mem inv_del)
  with assms hl show ?thesis
    by (metis mem_del high_le order_le_imp_less_or_eq)
qed

lemma finite_mem: "inv s \<Longrightarrow> finite {p. mem s p}"
  by (rule finite_subset [of _ "{..<64}"]) (auto dest: mem_less)

lemma card_del_high:
  assumes "inv s" and "some_in s"
  shows "card {p. mem (del (high s) s) p} < card {p. mem s p}"
proof (rule psubset_card_mono [OF finite_mem])
  note hl = high_less [OF assms]
  show "{p. mem (del (high s) s) p} \<subset> {p. mem s p}"
    using assms hl high_mem [OF assms] by (auto simp: mem_del)
qed (fact assms(1))

end

subsection \<open>The bitmap\<close>

type_synonym prio_map = "8 word \<times> (nat \<Rightarrow> 8 word)"

text \<open>
  \<open>grp |= bity; tbl[y] |= bitx\<close> and
  \<open>tbl[y] &= ~bitx; if (tbl[y] == 0) grp &= ~bity\<close>, the two code patterns that
  every kernel service inlines.
\<close>

definition bm_set :: "nat \<Rightarrow> 8 word \<Rightarrow> 8 word \<Rightarrow> prio_map \<Rightarrow> prio_map" where
  "bm_set y bitx bity b = (fst b OR bity, (snd b)(y := snd b y OR bitx))"

definition bm_clr :: "nat \<Rightarrow> 8 word \<Rightarrow> 8 word \<Rightarrow> prio_map \<Rightarrow> prio_map" where
  "bm_clr y bitx bity b =
     (let tbl = (snd b)(y := snd b y AND NOT bitx)
      in (if tbl y = 0 then fst b AND NOT bity else fst b, tbl))"

definition bm_high :: "prio_map \<Rightarrow> nat" where
  "bm_high b = (let y = unmap (fst b) in 8 * y + unmap (snd b y))"

definition bm_mem :: "prio_map \<Rightarrow> nat \<Rightarrow> bool" where
  "bm_mem b p \<longleftrightarrow> bit (snd b (p div 8)) (p mod 8)"

definition bm_ok :: "prio_map \<Rightarrow> bool" where
  "bm_ok b \<longleftrightarrow> (\<forall>y. bit (fst b) y \<longleftrightarrow> snd b y \<noteq> 0)"

text \<open>The masks a task control block keeps for its priority.\<close>

definition prio_bitx :: "nat \<Rightarrow> 8 word" where
  "prio_bitx p = 2 ^ (p mod 8)"

definition prio_bity :: "nat \<Rightarrow> 8 word" where
  "prio_bity p = 2 ^ (p div 8)"

definition bm_ins :: "nat \<Rightarrow> prio_map \<Rightarrow> prio_map" where
  "bm_ins p = bm_set (p div 8) (prio_bitx p) (prio_bity p)"

definition bm_del :: "nat \<Rightarrow> prio_map \<Rightarrow> prio_map" where
  "bm_del p = bm_clr (p div 8) (prio_bitx p) (prio_bity p)"

definition bm_empty :: prio_map where
  "bm_empty = (0, \<lambda>_. 0)"

lemma bm_ok_empty [simp]: "bm_ok bm_empty"
  by (simp add: bm_ok_def bm_empty_def)

lemma bm_mem_empty [simp]: "\<not> bm_mem bm_empty p"
  by (simp add: bm_mem_def bm_empty_def)

lemma bm_mem_bity: "bm_ok b \<Longrightarrow> bm_mem b p \<Longrightarrow> bit (fst b) (p div 8)"
  unfolding bm_ok_def bm_mem_def by (metis bit_0_eq bot_apply bot_bool_def)

lemma bm_mem_less: "bm_ok b \<Longrightarrow> bm_mem b p \<Longrightarrow> p < 64"
  by (drule (1) bm_mem_bity, drule bit_imp_le_length) simp

lemma bm_some_iff: "bm_ok b \<Longrightarrow> fst b \<noteq> 0 \<longleftrightarrow> (\<exists>p. bm_mem b p)"
proof
  assume ok: "bm_ok b" and "fst b \<noteq> 0"
  then obtain y where "bit (fst b) y" by (auto simp: word_neq_0_bit)
  with ok have "snd b y \<noteq> 0" by (simp add: bm_ok_def)
  then obtain x where x: "bit (snd b y) x" by (auto simp: word_neq_0_bit)
  with bit_word8_less [OF x] have "bm_mem b (8 * y + x)" by (simp add: bm_mem_def)
  then show "\<exists>p. bm_mem b p" ..
next
  assume "bm_ok b" and "\<exists>p. bm_mem b p"
  then show "fst b \<noteq> 0" by (auto dest: bm_mem_bity)
qed

lemma bm_mem_ins: "p < 64 \<Longrightarrow> bm_mem (bm_ins p b) q \<longleftrightarrow> q = p \<or> bm_mem b q"
  by (auto simp: bm_mem_def bm_ins_def bm_set_def prio_bitx_def or_exp dest: divmod8_eq)

lemma bm_mem_del: "p < 64 \<Longrightarrow> bm_mem (bm_del p b) q \<longleftrightarrow> q \<noteq> p \<and> bm_mem b q"
  by (auto simp: bm_mem_def bm_del_def bm_clr_def Let_def prio_bitx_def and_not_exp
      dest: divmod8_eq)

lemma bm_ok_ins: "bm_ok b \<Longrightarrow> p < 64 \<Longrightarrow> bm_ok (bm_ins p b)"
  by (auto simp: bm_ok_def bm_ins_def bm_set_def prio_bity_def prio_bitx_def or_exp word_neq_0_bit)

lemma bm_ok_del:
  assumes "bm_ok b" and "p < 64"
  shows "bm_ok (bm_del p b)"
  unfolding bm_ok_def
proof
  fix y
  have ok: "bit (fst b) y \<longleftrightarrow> snd b y \<noteq> 0"
    using assms(1) by (simp add: bm_ok_def)
  show "bit (fst (bm_del p b)) y \<longleftrightarrow> snd (bm_del p b) y \<noteq> 0"
  proof (cases "y = p div 8")
    case True
    have "bit (fst b) y" if "snd b y AND NOT (prio_bitx p) \<noteq> 0"
      using that ok by auto
    with True show ?thesis
      by (simp add: bm_del_def bm_clr_def Let_def prio_bity_def and_not_exp)
  next
    case False
    with ok show ?thesis
      by (simp add: bm_del_def bm_clr_def Let_def prio_bity_def and_not_exp)
  qed
qed

lemma bm_high_mem: "bm_ok b \<Longrightarrow> fst b \<noteq> 0 \<Longrightarrow> bm_mem b (bm_high b)"
  by (simp add: bm_mem_def bm_high_def Let_def)
    (metis bm_ok_def unmap_bit)

lemma bm_high_le:
  assumes "bm_ok b" and "bm_mem b p"
  shows "bm_high b \<le> p"
proof -
  let ?y = "unmap (fst b)"
  have "?y \<le> p div 8"
    using assms by (intro unmap_least bm_mem_bity)
  show ?thesis
  proof (cases "?y = p div 8")
    case True
    then have "unmap (snd b ?y) \<le> p mod 8"
      using assms(2) by (simp add: unmap_least bm_mem_def)
    then have "8 * (p div 8) + unmap (snd b ?y) \<le> p"
      using mult_div_mod_eq [of 8 p] by linarith
    with True show ?thesis by (simp add: bm_high_def Let_def)
  next
    case False
    with \<open>?y \<le> p div 8\<close> have "8 * ?y + 8 \<le> p" by simp
    moreover have "unmap (snd b ?y) < 8" by simp
    ultimately have "8 * ?y + unmap (snd b ?y) \<le> p" by linarith
    then show ?thesis by (simp add: bm_high_def Let_def)
  qed
qed

interpretation bm: prio_set bm_mem bm_ins bm_del "\<lambda>b. fst b \<noteq> 0" bm_high bm_ok
  by unfold_locales
    (auto simp: bm_mem_less bm_ok_ins bm_ok_del bm_mem_ins bm_mem_del bm_some_iff bm_high_mem bm_high_le)

end
