(* ===== verification/OS_State.thy ===== *)
theory OS_State
  imports Prio_Bitmap
begin

text \<open>
  The data of the kernel (\<open>uCOS_II.H\<close>, configured by \<open>os_cfg.h\<close>): the control blocks as
  records with the source's field names and the global variables as one record.

  A pointer to a control block is an address in the store of its type.  Task control blocks:
  0 is the null pointer, 1 is \<open>OS_TCB_RESERVED\<close>, \<open>&OSTCBTbl[i]\<close> is \<open>i + 2\<close>.  Event control
  blocks, queues, memory partitions, flag groups and timers: \<open>&Tbl[i]\<close> is \<open>i + 1\<close>.  The message
  cells of the queues and the words of the task stacks are addressed by cell number, the links
  inside the blocks of a memory partition by byte address.  A null-terminated vector of events
  (\<open>OS_EVENT **\<close>) is the list of its entries, \<open>None\<close> when the pointer is null.  Priorities and
  table indices are natural numbers (they are compared and split into octets, never wrapped);
  bit masks and counters are words of their width.
\<close>

subsection \<open>Constants\<close>

abbreviation (input) OS_LOWEST_PRIO :: nat where "OS_LOWEST_PRIO \<equiv> 63"
abbreviation (input) OS_TASK_IDLE_PRIO :: nat where "OS_TASK_IDLE_PRIO \<equiv> 63"
abbreviation (input) OS_TASK_STAT_PRIO :: nat where "OS_TASK_STAT_PRIO \<equiv> 62"
abbreviation (input) OS_TASK_TMR_PRIO :: nat where "OS_TASK_TMR_PRIO \<equiv> 0"
abbreviation (input) OS_PRIO_SELF :: nat where "OS_PRIO_SELF \<equiv> 255"
abbreviation (input) OS_PRIO_MUTEX_CEIL_DIS :: nat where "OS_PRIO_MUTEX_CEIL_DIS \<equiv> 255"
abbreviation (input) OS_TICKS_PER_SEC :: INT32U where "OS_TICKS_PER_SEC \<equiv> 100"
abbreviation (input) OS_MAX_EVENTS :: nat where "OS_MAX_EVENTS \<equiv> 10"
abbreviation (input) OS_MAX_FLAGS :: nat where "OS_MAX_FLAGS \<equiv> 5"
abbreviation (input) OS_MAX_MEM_PART :: nat where "OS_MAX_MEM_PART \<equiv> 5"
abbreviation (input) OS_MAX_QS :: nat where "OS_MAX_QS \<equiv> 4"
abbreviation (input) OS_N_TCBS :: nat where "OS_N_TCBS \<equiv> 22"
abbreviation (input) OS_TMR_CFG_MAX :: nat where "OS_TMR_CFG_MAX \<equiv> 16"
abbreviation (input) OS_TMR_CFG_WHEEL_SIZE :: INT32U where "OS_TMR_CFG_WHEEL_SIZE \<equiv> 8"

abbreviation (input) NULL :: ptr where "NULL \<equiv> 0"
abbreviation (input) OS_TCB_RESERVED :: ptr where "OS_TCB_RESERVED \<equiv> 1"

abbreviation (input) OS_STAT_RDY :: INT8U where "OS_STAT_RDY \<equiv> 0x00"
abbreviation (input) OS_STAT_SEM :: INT8U where "OS_STAT_SEM \<equiv> 0x01"
abbreviation (input) OS_STAT_MBOX :: INT8U where "OS_STAT_MBOX \<equiv> 0x02"
abbreviation (input) OS_STAT_Q :: INT8U where "OS_STAT_Q \<equiv> 0x04"
abbreviation (input) OS_STAT_SUSPEND :: INT8U where "OS_STAT_SUSPEND \<equiv> 0x08"
abbreviation (input) OS_STAT_MUTEX :: INT8U where "OS_STAT_MUTEX \<equiv> 0x10"
abbreviation (input) OS_STAT_FLAG :: INT8U where "OS_STAT_FLAG \<equiv> 0x20"
abbreviation (input) OS_STAT_MULTI :: INT8U where "OS_STAT_MULTI \<equiv> 0x80"
abbreviation (input) OS_STAT_PEND_ANY :: INT8U where "OS_STAT_PEND_ANY \<equiv> 0x37"

abbreviation (input) OS_STAT_PEND_OK :: INT8U where "OS_STAT_PEND_OK \<equiv> 0"
abbreviation (input) OS_STAT_PEND_TO :: INT8U where "OS_STAT_PEND_TO \<equiv> 1"
abbreviation (input) OS_STAT_PEND_ABORT :: INT8U where "OS_STAT_PEND_ABORT \<equiv> 2"

abbreviation (input) OS_EVENT_TYPE_UNUSED :: INT8U where "OS_EVENT_TYPE_UNUSED \<equiv> 0"
abbreviation (input) OS_EVENT_TYPE_MBOX :: INT8U where "OS_EVENT_TYPE_MBOX \<equiv> 1"
abbreviation (input) OS_EVENT_TYPE_Q :: INT8U where "OS_EVENT_TYPE_Q \<equiv> 2"
abbreviation (input) OS_EVENT_TYPE_SEM :: INT8U where "OS_EVENT_TYPE_SEM \<equiv> 3"
abbreviation (input) OS_EVENT_TYPE_MUTEX :: INT8U where "OS_EVENT_TYPE_MUTEX \<equiv> 4"
abbreviation (input) OS_EVENT_TYPE_FLAG :: INT8U where "OS_EVENT_TYPE_FLAG \<equiv> 5"

abbreviation (input) OS_TICK_STEP_DIS :: INT8U where "OS_TICK_STEP_DIS \<equiv> 0"
abbreviation (input) OS_TICK_STEP_WAIT :: INT8U where "OS_TICK_STEP_WAIT \<equiv> 1"
abbreviation (input) OS_TICK_STEP_ONCE :: INT8U where "OS_TICK_STEP_ONCE \<equiv> 2"

abbreviation (input) OS_DEL_NO_PEND :: INT8U where "OS_DEL_NO_PEND \<equiv> 0"
abbreviation (input) OS_DEL_ALWAYS :: INT8U where "OS_DEL_ALWAYS \<equiv> 1"
abbreviation (input) OS_PEND_OPT_NONE :: INT8U where "OS_PEND_OPT_NONE \<equiv> 0"
abbreviation (input) OS_PEND_OPT_BROADCAST :: INT8U where "OS_PEND_OPT_BROADCAST \<equiv> 1"
abbreviation (input) OS_POST_OPT_BROADCAST :: INT8U where "OS_POST_OPT_BROADCAST \<equiv> 1"
abbreviation (input) OS_POST_OPT_FRONT :: INT8U where "OS_POST_OPT_FRONT \<equiv> 2"
abbreviation (input) OS_POST_OPT_NO_SCHED :: INT8U where "OS_POST_OPT_NO_SCHED \<equiv> 4"
abbreviation (input) OS_TASK_OPT_STK_CHK :: INT16U where "OS_TASK_OPT_STK_CHK \<equiv> 1"
abbreviation (input) OS_TASK_OPT_STK_CLR :: INT16U where "OS_TASK_OPT_STK_CLR \<equiv> 2"

abbreviation (input) OS_FLAG_WAIT_CLR_ALL :: INT8U where "OS_FLAG_WAIT_CLR_ALL \<equiv> 0"
abbreviation (input) OS_FLAG_WAIT_CLR_ANY :: INT8U where "OS_FLAG_WAIT_CLR_ANY \<equiv> 1"
abbreviation (input) OS_FLAG_WAIT_SET_ALL :: INT8U where "OS_FLAG_WAIT_SET_ALL \<equiv> 2"
abbreviation (input) OS_FLAG_WAIT_SET_ANY :: INT8U where "OS_FLAG_WAIT_SET_ANY \<equiv> 3"
abbreviation (input) OS_FLAG_CONSUME :: INT8U where "OS_FLAG_CONSUME \<equiv> 0x80"
abbreviation (input) OS_FLAG_CLR :: INT8U where "OS_FLAG_CLR \<equiv> 0"
abbreviation (input) OS_FLAG_SET :: INT8U where "OS_FLAG_SET \<equiv> 1"

abbreviation (input) OS_TMR_TYPE :: INT8U where "OS_TMR_TYPE \<equiv> 100"
abbreviation (input) OS_TMR_OPT_NONE :: INT8U where "OS_TMR_OPT_NONE \<equiv> 0"
abbreviation (input) OS_TMR_OPT_ONE_SHOT :: INT8U where "OS_TMR_OPT_ONE_SHOT \<equiv> 1"
abbreviation (input) OS_TMR_OPT_PERIODIC :: INT8U where "OS_TMR_OPT_PERIODIC \<equiv> 2"
abbreviation (input) OS_TMR_OPT_CALLBACK :: INT8U where "OS_TMR_OPT_CALLBACK \<equiv> 3"
abbreviation (input) OS_TMR_OPT_CALLBACK_ARG :: INT8U where "OS_TMR_OPT_CALLBACK_ARG \<equiv> 4"
abbreviation (input) OS_TMR_STATE_UNUSED :: INT8U where "OS_TMR_STATE_UNUSED \<equiv> 0"
abbreviation (input) OS_TMR_STATE_STOPPED :: INT8U where "OS_TMR_STATE_STOPPED \<equiv> 1"
abbreviation (input) OS_TMR_STATE_COMPLETED :: INT8U where "OS_TMR_STATE_COMPLETED \<equiv> 2"
abbreviation (input) OS_TMR_STATE_RUNNING :: INT8U where "OS_TMR_STATE_RUNNING \<equiv> 3"

subsection \<open>Error codes\<close>

abbreviation (input) OS_ERR_NONE :: INT8U where "OS_ERR_NONE \<equiv> 0"
abbreviation (input) OS_ERR_EVENT_TYPE :: INT8U where "OS_ERR_EVENT_TYPE \<equiv> 1"
abbreviation (input) OS_ERR_PEND_ISR :: INT8U where "OS_ERR_PEND_ISR \<equiv> 2"
abbreviation (input) OS_ERR_POST_NULL_PTR :: INT8U where "OS_ERR_POST_NULL_PTR \<equiv> 3"
abbreviation (input) OS_ERR_PEVENT_NULL :: INT8U where "OS_ERR_PEVENT_NULL \<equiv> 4"
abbreviation (input) OS_ERR_POST_ISR :: INT8U where "OS_ERR_POST_ISR \<equiv> 5"
abbreviation (input) OS_ERR_QUERY_ISR :: INT8U where "OS_ERR_QUERY_ISR \<equiv> 6"
abbreviation (input) OS_ERR_INVALID_OPT :: INT8U where "OS_ERR_INVALID_OPT \<equiv> 7"
abbreviation (input) OS_ERR_ID_INVALID :: INT8U where "OS_ERR_ID_INVALID \<equiv> 8"
abbreviation (input) OS_ERR_PDATA_NULL :: INT8U where "OS_ERR_PDATA_NULL \<equiv> 9"
abbreviation (input) OS_ERR_TIMEOUT :: INT8U where "OS_ERR_TIMEOUT \<equiv> 10"
abbreviation (input) OS_ERR_EVENT_NAME_TOO_LONG :: INT8U where "OS_ERR_EVENT_NAME_TOO_LONG \<equiv> 11"
abbreviation (input) OS_ERR_PNAME_NULL :: INT8U where "OS_ERR_PNAME_NULL \<equiv> 12"
abbreviation (input) OS_ERR_PEND_LOCKED :: INT8U where "OS_ERR_PEND_LOCKED \<equiv> 13"
abbreviation (input) OS_ERR_PEND_ABORT :: INT8U where "OS_ERR_PEND_ABORT \<equiv> 14"
abbreviation (input) OS_ERR_DEL_ISR :: INT8U where "OS_ERR_DEL_ISR \<equiv> 15"
abbreviation (input) OS_ERR_CREATE_ISR :: INT8U where "OS_ERR_CREATE_ISR \<equiv> 16"
abbreviation (input) OS_ERR_NAME_GET_ISR :: INT8U where "OS_ERR_NAME_GET_ISR \<equiv> 17"
abbreviation (input) OS_ERR_NAME_SET_ISR :: INT8U where "OS_ERR_NAME_SET_ISR \<equiv> 18"
abbreviation (input) OS_ERR_ILLEGAL_CREATE_RUN_TIME :: INT8U where "OS_ERR_ILLEGAL_CREATE_RUN_TIME \<equiv> 19"
abbreviation (input) OS_ERR_MBOX_FULL :: INT8U where "OS_ERR_MBOX_FULL \<equiv> 20"
abbreviation (input) OS_ERR_Q_FULL :: INT8U where "OS_ERR_Q_FULL \<equiv> 30"
abbreviation (input) OS_ERR_Q_EMPTY :: INT8U where "OS_ERR_Q_EMPTY \<equiv> 31"
abbreviation (input) OS_ERR_PRIO_EXIST :: INT8U where "OS_ERR_PRIO_EXIST \<equiv> 40"
abbreviation (input) OS_ERR_PRIO :: INT8U where "OS_ERR_PRIO \<equiv> 41"
abbreviation (input) OS_ERR_PRIO_INVALID :: INT8U where "OS_ERR_PRIO_INVALID \<equiv> 42"
abbreviation (input) OS_ERR_SCHED_LOCKED :: INT8U where "OS_ERR_SCHED_LOCKED \<equiv> 50"
abbreviation (input) OS_ERR_SEM_OVF :: INT8U where "OS_ERR_SEM_OVF \<equiv> 51"
abbreviation (input) OS_ERR_TASK_CREATE_ISR :: INT8U where "OS_ERR_TASK_CREATE_ISR \<equiv> 60"
abbreviation (input) OS_ERR_TASK_DEL :: INT8U where "OS_ERR_TASK_DEL \<equiv> 61"
abbreviation (input) OS_ERR_TASK_DEL_IDLE :: INT8U where "OS_ERR_TASK_DEL_IDLE \<equiv> 62"
abbreviation (input) OS_ERR_TASK_DEL_REQ :: INT8U where "OS_ERR_TASK_DEL_REQ \<equiv> 63"
abbreviation (input) OS_ERR_TASK_DEL_ISR :: INT8U where "OS_ERR_TASK_DEL_ISR \<equiv> 64"
abbreviation (input) OS_ERR_TASK_NAME_TOO_LONG :: INT8U where "OS_ERR_TASK_NAME_TOO_LONG \<equiv> 65"
abbreviation (input) OS_ERR_TASK_NO_MORE_TCB :: INT8U where "OS_ERR_TASK_NO_MORE_TCB \<equiv> 66"
abbreviation (input) OS_ERR_TASK_NOT_EXIST :: INT8U where "OS_ERR_TASK_NOT_EXIST \<equiv> 67"
abbreviation (input) OS_ERR_TASK_NOT_SUSPENDED :: INT8U where "OS_ERR_TASK_NOT_SUSPENDED \<equiv> 68"
abbreviation (input) OS_ERR_TASK_OPT :: INT8U where "OS_ERR_TASK_OPT \<equiv> 69"
abbreviation (input) OS_ERR_TASK_RESUME_PRIO :: INT8U where "OS_ERR_TASK_RESUME_PRIO \<equiv> 70"
abbreviation (input) OS_ERR_TASK_SUSPEND_IDLE :: INT8U where "OS_ERR_TASK_SUSPEND_IDLE \<equiv> 71"
abbreviation (input) OS_ERR_TASK_SUSPEND_PRIO :: INT8U where "OS_ERR_TASK_SUSPEND_PRIO \<equiv> 72"
abbreviation (input) OS_ERR_TASK_WAITING :: INT8U where "OS_ERR_TASK_WAITING \<equiv> 73"
abbreviation (input) OS_ERR_TIME_NOT_DLY :: INT8U where "OS_ERR_TIME_NOT_DLY \<equiv> 80"
abbreviation (input) OS_ERR_TIME_INVALID_MINUTES :: INT8U where "OS_ERR_TIME_INVALID_MINUTES \<equiv> 81"
abbreviation (input) OS_ERR_TIME_INVALID_SECONDS :: INT8U where "OS_ERR_TIME_INVALID_SECONDS \<equiv> 82"
abbreviation (input) OS_ERR_TIME_INVALID_MS :: INT8U where "OS_ERR_TIME_INVALID_MS \<equiv> 83"
abbreviation (input) OS_ERR_TIME_ZERO_DLY :: INT8U where "OS_ERR_TIME_ZERO_DLY \<equiv> 84"
abbreviation (input) OS_ERR_TIME_DLY_ISR :: INT8U where "OS_ERR_TIME_DLY_ISR \<equiv> 85"
abbreviation (input) OS_ERR_MEM_INVALID_PART :: INT8U where "OS_ERR_MEM_INVALID_PART \<equiv> 90"
abbreviation (input) OS_ERR_MEM_INVALID_BLKS :: INT8U where "OS_ERR_MEM_INVALID_BLKS \<equiv> 91"
abbreviation (input) OS_ERR_MEM_INVALID_SIZE :: INT8U where "OS_ERR_MEM_INVALID_SIZE \<equiv> 92"
abbreviation (input) OS_ERR_MEM_NO_FREE_BLKS :: INT8U where "OS_ERR_MEM_NO_FREE_BLKS \<equiv> 93"
abbreviation (input) OS_ERR_MEM_FULL :: INT8U where "OS_ERR_MEM_FULL \<equiv> 94"
abbreviation (input) OS_ERR_MEM_INVALID_PBLK :: INT8U where "OS_ERR_MEM_INVALID_PBLK \<equiv> 95"
abbreviation (input) OS_ERR_MEM_INVALID_PMEM :: INT8U where "OS_ERR_MEM_INVALID_PMEM \<equiv> 96"
abbreviation (input) OS_ERR_MEM_INVALID_PDATA :: INT8U where "OS_ERR_MEM_INVALID_PDATA \<equiv> 97"
abbreviation (input) OS_ERR_MEM_INVALID_ADDR :: INT8U where "OS_ERR_MEM_INVALID_ADDR \<equiv> 98"
abbreviation (input) OS_ERR_MEM_NAME_TOO_LONG :: INT8U where "OS_ERR_MEM_NAME_TOO_LONG \<equiv> 99"
abbreviation (input) OS_ERR_NOT_MUTEX_OWNER :: INT8U where "OS_ERR_NOT_MUTEX_OWNER \<equiv> 100"
abbreviation (input) OS_ERR_FLAG_INVALID_PGRP :: INT8U where "OS_ERR_FLAG_INVALID_PGRP \<equiv> 110"
abbreviation (input) OS_ERR_FLAG_WAIT_TYPE :: INT8U where "OS_ERR_FLAG_WAIT_TYPE \<equiv> 111"
abbreviation (input) OS_ERR_FLAG_NOT_RDY :: INT8U where "OS_ERR_FLAG_NOT_RDY \<equiv> 112"
abbreviation (input) OS_ERR_FLAG_INVALID_OPT :: INT8U where "OS_ERR_FLAG_INVALID_OPT \<equiv> 113"
abbreviation (input) OS_ERR_FLAG_GRP_DEPLETED :: INT8U where "OS_ERR_FLAG_GRP_DEPLETED \<equiv> 114"
abbreviation (input) OS_ERR_FLAG_NAME_TOO_LONG :: INT8U where "OS_ERR_FLAG_NAME_TOO_LONG \<equiv> 115"
abbreviation (input) OS_ERR_PCP_LOWER :: INT8U where "OS_ERR_PCP_LOWER \<equiv> 120"
abbreviation (input) OS_ERR_TMR_INVALID_DLY :: INT8U where "OS_ERR_TMR_INVALID_DLY \<equiv> 130"
abbreviation (input) OS_ERR_TMR_INVALID_PERIOD :: INT8U where "OS_ERR_TMR_INVALID_PERIOD \<equiv> 131"
abbreviation (input) OS_ERR_TMR_INVALID_OPT :: INT8U where "OS_ERR_TMR_INVALID_OPT \<equiv> 132"
abbreviation (input) OS_ERR_TMR_INVALID_NAME :: INT8U where "OS_ERR_TMR_INVALID_NAME \<equiv> 133"
abbreviation (input) OS_ERR_TMR_NON_AVAIL :: INT8U where "OS_ERR_TMR_NON_AVAIL \<equiv> 134"
abbreviation (input) OS_ERR_TMR_INACTIVE :: INT8U where "OS_ERR_TMR_INACTIVE \<equiv> 135"
abbreviation (input) OS_ERR_TMR_INVALID_DEST :: INT8U where "OS_ERR_TMR_INVALID_DEST \<equiv> 136"
abbreviation (input) OS_ERR_TMR_INVALID_TYPE :: INT8U where "OS_ERR_TMR_INVALID_TYPE \<equiv> 137"
abbreviation (input) OS_ERR_TMR_INVALID :: INT8U where "OS_ERR_TMR_INVALID \<equiv> 138"
abbreviation (input) OS_ERR_TMR_ISR :: INT8U where "OS_ERR_TMR_ISR \<equiv> 139"
abbreviation (input) OS_ERR_TMR_NAME_TOO_LONG :: INT8U where "OS_ERR_TMR_NAME_TOO_LONG \<equiv> 140"
abbreviation (input) OS_ERR_TMR_INVALID_STATE :: INT8U where "OS_ERR_TMR_INVALID_STATE \<equiv> 141"
abbreviation (input) OS_ERR_TMR_STOPPED :: INT8U where "OS_ERR_TMR_STOPPED \<equiv> 142"
abbreviation (input) OS_ERR_TMR_NO_CALLBACK :: INT8U where "OS_ERR_TMR_NO_CALLBACK \<equiv> 143"

subsection \<open>Control blocks\<close>

record OS_EVENT =
  OSEventType :: INT8U
  OSEventPtr :: ptr
  OSEventCnt :: INT16U
  OSEventGrp :: "8 word"
  OSEventTbl :: "nat \<Rightarrow> 8 word"
  OSEventName :: string

record OS_FLAG_GRP =
  OSFlagType :: INT8U
  OSFlagWaitList :: ptr
  OSFlagFlags :: INT16U
  OSFlagName :: string

record OS_FLAG_NODE =
  OSFlagNodeNext :: ptr
  OSFlagNodePrev :: ptr
  OSFlagNodeTCB :: ptr
  OSFlagNodeFlagGrp :: ptr
  OSFlagNodeFlags :: INT16U
  OSFlagNodeWaitType :: INT8U

record OS_MEM =
  OSMemAddr :: ptr
  OSMemFreeList :: ptr
  OSMemBlkSize :: INT32U
  OSMemNBlks :: INT32U
  OSMemNFree :: INT32U
  OSMemName :: string

record OS_Q =
  OSQPtr :: ptr
  OSQStart :: ptr
  OSQEnd :: ptr
  OSQIn :: ptr
  OSQOut :: ptr
  OSQSize :: INT16U
  OSQEntries :: INT16U

record OS_TCB =
  OSTCBStkPtr :: ptr
  OSTCBExtPtr :: ptr
  OSTCBStkBottom :: ptr
  OSTCBStkSize :: INT32U
  OSTCBOpt :: INT16U
  OSTCBId :: INT16U
  OSTCBNext :: ptr
  OSTCBPrev :: ptr
  OSTCBEventPtr :: ptr
  OSTCBEventMultiPtr :: "ptr list option"
  OSTCBMsg :: ptr
  OSTCBFlagNode :: ptr
  OSTCBFlagsRdy :: INT16U
  OSTCBDly :: INT32U
  OSTCBStat :: INT8U
  OSTCBStatPend :: INT8U
  OSTCBPrio :: nat
  OSTCBX :: nat
  OSTCBY :: nat
  OSTCBBitX :: "8 word"
  OSTCBBitY :: "8 word"
  OSTCBDelReq :: INT8U
  OSTCBCtxSwCtr :: INT32U
  OSTCBCyclesTot :: INT32U
  OSTCBCyclesStart :: INT32U
  OSTCBStkBase :: ptr
  OSTCBStkUsed :: INT32U
  OSTCBTaskName :: string
  OSTCBRegTbl :: "nat \<Rightarrow> INT32U"

record OS_TMR =
  OSTmrType :: INT8U
  OSTmrCallback :: ptr
  OSTmrCallbackArg :: ptr
  OSTmrNext :: ptr
  OSTmrPrev :: ptr
  OSTmrMatch :: INT32U
  OSTmrDly :: INT32U
  OSTmrPeriod :: INT32U
  OSTmrName :: string
  OSTmrOpt :: INT8U
  OSTmrState :: INT8U

record OS_TMR_WHEEL =
  OSTmrFirst :: ptr
  OSTmrEntries :: INT16U

subsection \<open>The global variables\<close>

record os_state =
  OSCtxSwCtr :: INT32U
  OSEventFreeList :: ptr
  OSEvents :: "ptr \<Rightarrow> OS_EVENT"
  OSFlagTbl :: "ptr \<Rightarrow> OS_FLAG_GRP"
  OSFlagFreeList :: ptr
  OSFlagNodes :: "ptr \<Rightarrow> OS_FLAG_NODE"
  OSCPUUsage :: INT8U
  OSIdleCtrMax :: INT32U
  OSIdleCtrRun :: INT32U
  OSStatRdy :: bool
  OSIntNesting :: INT8U
  OSLockNesting :: INT8U
  OSPrioCur :: nat
  OSPrioHighRdy :: nat
  OSRdyGrp :: "8 word"
  OSRdyTbl :: "nat \<Rightarrow> 8 word"
  OSRunning :: bool
  OSTaskCtr :: INT8U
  OSIdleCtr :: INT32U
  OSTCBCur :: ptr
  OSTCBFreeList :: ptr
  OSTCBHighRdy :: ptr
  OSTCBList :: ptr
  OSTCBPrioTbl :: "nat \<Rightarrow> ptr"
  OSTCBTbl :: "ptr \<Rightarrow> OS_TCB"
  OSTickStepState :: INT8U
  OSMemFreeParts :: ptr
  OSMemTbl :: "ptr \<Rightarrow> OS_MEM"
  OSQFreeList :: ptr
  OSQTbl :: "ptr \<Rightarrow> OS_Q"
  OSTime :: INT32U
  OSTmrFree :: INT16U
  OSTmrUsed :: INT16U
  OSTmrTime :: INT32U
  OSTmrSem :: ptr
  OSTmrSemSignal :: ptr
  OSTmrTbl :: "ptr \<Rightarrow> OS_TMR"
  OSTmrFreeList :: ptr
  OSTmrWheelTbl :: "nat \<Rightarrow> OS_TMR_WHEEL"
  OSTmrCtr :: INT16U
  msg_cells :: "ptr \<Rightarrow> ptr"
  blk_links :: "ptr \<Rightarrow> ptr"
  stk_words :: "ptr \<Rightarrow> INT32U"

subsection \<open>Store access\<close>

definition upd_tcb :: "ptr \<Rightarrow> (OS_TCB \<Rightarrow> OS_TCB) \<Rightarrow> os_state \<Rightarrow> os_state" where
  "upd_tcb t f s = s\<lparr>OSTCBTbl := (OSTCBTbl s)(t := f (OSTCBTbl s t))\<rparr>"

definition upd_event :: "ptr \<Rightarrow> (OS_EVENT \<Rightarrow> OS_EVENT) \<Rightarrow> os_state \<Rightarrow> os_state" where
  "upd_event e f s = s\<lparr>OSEvents := (OSEvents s)(e := f (OSEvents s e))\<rparr>"

text \<open>The bitmaps of the state: the ready list and the wait list of an event.\<close>

definition rdy_map :: "os_state \<Rightarrow> prio_map" where
  "rdy_map s = (OSRdyGrp s, OSRdyTbl s)"

definition set_rdy_map :: "prio_map \<Rightarrow> os_state \<Rightarrow> os_state" where
  "set_rdy_map b s = s\<lparr>OSRdyGrp := fst b, OSRdyTbl := snd b\<rparr>"

definition event_map :: "OS_EVENT \<Rightarrow> prio_map" where
  "event_map ev = (OSEventGrp ev, OSEventTbl ev)"

definition set_event_map :: "prio_map \<Rightarrow> OS_EVENT \<Rightarrow> OS_EVENT" where
  "set_event_map b ev = ev\<lparr>OSEventGrp := fst b, OSEventTbl := snd b\<rparr>"

lemma rdy_map_set [simp]: "rdy_map (set_rdy_map b s) = b"
  by (simp add: rdy_map_def set_rdy_map_def)

lemma event_map_set [simp]: "event_map (set_event_map b ev) = b"
  by (simp add: event_map_def set_event_map_def)

lemma fst_rdy_map [simp]: "fst (rdy_map s) = OSRdyGrp s"
  by (simp add: rdy_map_def)

lemma fst_event_map [simp]: "fst (event_map ev) = OSEventGrp ev"
  by (simp add: event_map_def)

text \<open>Each of these writes only its own fields.\<close>

lemma upd_tcb_frame [simp]:
  "OSCtxSwCtr (upd_tcb t f s) = OSCtxSwCtr s"
  "OSEventFreeList (upd_tcb t f s) = OSEventFreeList s"
  "OSEvents (upd_tcb t f s) = OSEvents s"
  "OSFlagTbl (upd_tcb t f s) = OSFlagTbl s"
  "OSFlagFreeList (upd_tcb t f s) = OSFlagFreeList s"
  "OSFlagNodes (upd_tcb t f s) = OSFlagNodes s"
  "OSCPUUsage (upd_tcb t f s) = OSCPUUsage s"
  "OSIdleCtrMax (upd_tcb t f s) = OSIdleCtrMax s"
  "OSIdleCtrRun (upd_tcb t f s) = OSIdleCtrRun s"
  "OSStatRdy (upd_tcb t f s) = OSStatRdy s"
  "OSIntNesting (upd_tcb t f s) = OSIntNesting s"
  "OSLockNesting (upd_tcb t f s) = OSLockNesting s"
  "OSPrioCur (upd_tcb t f s) = OSPrioCur s"
  "OSPrioHighRdy (upd_tcb t f s) = OSPrioHighRdy s"
  "OSRdyGrp (upd_tcb t f s) = OSRdyGrp s"
  "OSRdyTbl (upd_tcb t f s) = OSRdyTbl s"
  "OSRunning (upd_tcb t f s) = OSRunning s"
  "OSTaskCtr (upd_tcb t f s) = OSTaskCtr s"
  "OSIdleCtr (upd_tcb t f s) = OSIdleCtr s"
  "OSTCBCur (upd_tcb t f s) = OSTCBCur s"
  "OSTCBFreeList (upd_tcb t f s) = OSTCBFreeList s"
  "OSTCBHighRdy (upd_tcb t f s) = OSTCBHighRdy s"
  "OSTCBList (upd_tcb t f s) = OSTCBList s"
  "OSTCBPrioTbl (upd_tcb t f s) = OSTCBPrioTbl s"
  "OSTickStepState (upd_tcb t f s) = OSTickStepState s"
  "OSMemFreeParts (upd_tcb t f s) = OSMemFreeParts s"
  "OSMemTbl (upd_tcb t f s) = OSMemTbl s"
  "OSQFreeList (upd_tcb t f s) = OSQFreeList s"
  "OSQTbl (upd_tcb t f s) = OSQTbl s"
  "OSTime (upd_tcb t f s) = OSTime s"
  "OSTmrFree (upd_tcb t f s) = OSTmrFree s"
  "OSTmrUsed (upd_tcb t f s) = OSTmrUsed s"
  "OSTmrTime (upd_tcb t f s) = OSTmrTime s"
  "OSTmrSem (upd_tcb t f s) = OSTmrSem s"
  "OSTmrSemSignal (upd_tcb t f s) = OSTmrSemSignal s"
  "OSTmrTbl (upd_tcb t f s) = OSTmrTbl s"
  "OSTmrFreeList (upd_tcb t f s) = OSTmrFreeList s"
  "OSTmrWheelTbl (upd_tcb t f s) = OSTmrWheelTbl s"
  "OSTmrCtr (upd_tcb t f s) = OSTmrCtr s"
  "msg_cells (upd_tcb t f s) = msg_cells s"
  "blk_links (upd_tcb t f s) = blk_links s"
  "stk_words (upd_tcb t f s) = stk_words s"
  by (simp_all add: upd_tcb_def)

lemma upd_event_frame [simp]:
  "OSCtxSwCtr (upd_event e g s) = OSCtxSwCtr s"
  "OSEventFreeList (upd_event e g s) = OSEventFreeList s"
  "OSFlagTbl (upd_event e g s) = OSFlagTbl s"
  "OSFlagFreeList (upd_event e g s) = OSFlagFreeList s"
  "OSFlagNodes (upd_event e g s) = OSFlagNodes s"
  "OSCPUUsage (upd_event e g s) = OSCPUUsage s"
  "OSIdleCtrMax (upd_event e g s) = OSIdleCtrMax s"
  "OSIdleCtrRun (upd_event e g s) = OSIdleCtrRun s"
  "OSStatRdy (upd_event e g s) = OSStatRdy s"
  "OSIntNesting (upd_event e g s) = OSIntNesting s"
  "OSLockNesting (upd_event e g s) = OSLockNesting s"
  "OSPrioCur (upd_event e g s) = OSPrioCur s"
  "OSPrioHighRdy (upd_event e g s) = OSPrioHighRdy s"
  "OSRdyGrp (upd_event e g s) = OSRdyGrp s"
  "OSRdyTbl (upd_event e g s) = OSRdyTbl s"
  "OSRunning (upd_event e g s) = OSRunning s"
  "OSTaskCtr (upd_event e g s) = OSTaskCtr s"
  "OSIdleCtr (upd_event e g s) = OSIdleCtr s"
  "OSTCBCur (upd_event e g s) = OSTCBCur s"
  "OSTCBFreeList (upd_event e g s) = OSTCBFreeList s"
  "OSTCBHighRdy (upd_event e g s) = OSTCBHighRdy s"
  "OSTCBList (upd_event e g s) = OSTCBList s"
  "OSTCBPrioTbl (upd_event e g s) = OSTCBPrioTbl s"
  "OSTCBTbl (upd_event e g s) = OSTCBTbl s"
  "OSTickStepState (upd_event e g s) = OSTickStepState s"
  "OSMemFreeParts (upd_event e g s) = OSMemFreeParts s"
  "OSMemTbl (upd_event e g s) = OSMemTbl s"
  "OSQFreeList (upd_event e g s) = OSQFreeList s"
  "OSQTbl (upd_event e g s) = OSQTbl s"
  "OSTime (upd_event e g s) = OSTime s"
  "OSTmrFree (upd_event e g s) = OSTmrFree s"
  "OSTmrUsed (upd_event e g s) = OSTmrUsed s"
  "OSTmrTime (upd_event e g s) = OSTmrTime s"
  "OSTmrSem (upd_event e g s) = OSTmrSem s"
  "OSTmrSemSignal (upd_event e g s) = OSTmrSemSignal s"
  "OSTmrTbl (upd_event e g s) = OSTmrTbl s"
  "OSTmrFreeList (upd_event e g s) = OSTmrFreeList s"
  "OSTmrWheelTbl (upd_event e g s) = OSTmrWheelTbl s"
  "OSTmrCtr (upd_event e g s) = OSTmrCtr s"
  "msg_cells (upd_event e g s) = msg_cells s"
  "blk_links (upd_event e g s) = blk_links s"
  "stk_words (upd_event e g s) = stk_words s"
  by (simp_all add: upd_event_def)

lemma set_rdy_map_frame [simp]:
  "OSCtxSwCtr (set_rdy_map b s) = OSCtxSwCtr s"
  "OSEventFreeList (set_rdy_map b s) = OSEventFreeList s"
  "OSEvents (set_rdy_map b s) = OSEvents s"
  "OSFlagTbl (set_rdy_map b s) = OSFlagTbl s"
  "OSFlagFreeList (set_rdy_map b s) = OSFlagFreeList s"
  "OSFlagNodes (set_rdy_map b s) = OSFlagNodes s"
  "OSCPUUsage (set_rdy_map b s) = OSCPUUsage s"
  "OSIdleCtrMax (set_rdy_map b s) = OSIdleCtrMax s"
  "OSIdleCtrRun (set_rdy_map b s) = OSIdleCtrRun s"
  "OSStatRdy (set_rdy_map b s) = OSStatRdy s"
  "OSIntNesting (set_rdy_map b s) = OSIntNesting s"
  "OSLockNesting (set_rdy_map b s) = OSLockNesting s"
  "OSPrioCur (set_rdy_map b s) = OSPrioCur s"
  "OSPrioHighRdy (set_rdy_map b s) = OSPrioHighRdy s"
  "OSRunning (set_rdy_map b s) = OSRunning s"
  "OSTaskCtr (set_rdy_map b s) = OSTaskCtr s"
  "OSIdleCtr (set_rdy_map b s) = OSIdleCtr s"
  "OSTCBCur (set_rdy_map b s) = OSTCBCur s"
  "OSTCBFreeList (set_rdy_map b s) = OSTCBFreeList s"
  "OSTCBHighRdy (set_rdy_map b s) = OSTCBHighRdy s"
  "OSTCBList (set_rdy_map b s) = OSTCBList s"
  "OSTCBPrioTbl (set_rdy_map b s) = OSTCBPrioTbl s"
  "OSTCBTbl (set_rdy_map b s) = OSTCBTbl s"
  "OSTickStepState (set_rdy_map b s) = OSTickStepState s"
  "OSMemFreeParts (set_rdy_map b s) = OSMemFreeParts s"
  "OSMemTbl (set_rdy_map b s) = OSMemTbl s"
  "OSQFreeList (set_rdy_map b s) = OSQFreeList s"
  "OSQTbl (set_rdy_map b s) = OSQTbl s"
  "OSTime (set_rdy_map b s) = OSTime s"
  "OSTmrFree (set_rdy_map b s) = OSTmrFree s"
  "OSTmrUsed (set_rdy_map b s) = OSTmrUsed s"
  "OSTmrTime (set_rdy_map b s) = OSTmrTime s"
  "OSTmrSem (set_rdy_map b s) = OSTmrSem s"
  "OSTmrSemSignal (set_rdy_map b s) = OSTmrSemSignal s"
  "OSTmrTbl (set_rdy_map b s) = OSTmrTbl s"
  "OSTmrFreeList (set_rdy_map b s) = OSTmrFreeList s"
  "OSTmrWheelTbl (set_rdy_map b s) = OSTmrWheelTbl s"
  "OSTmrCtr (set_rdy_map b s) = OSTmrCtr s"
  "msg_cells (set_rdy_map b s) = msg_cells s"
  "blk_links (set_rdy_map b s) = blk_links s"
  "stk_words (set_rdy_map b s) = stk_words s"
  by (simp_all add: set_rdy_map_def)

lemma upd_tcb_tbl [simp]: "OSTCBTbl (upd_tcb t f s) = (OSTCBTbl s)(t := f (OSTCBTbl s t))"
  by (simp add: upd_tcb_def)

lemma upd_event_tbl [simp]: "OSEvents (upd_event e g s) = (OSEvents s)(e := g (OSEvents s e))"
  by (simp add: upd_event_def)

lemma set_event_map_frame [simp]:
  "OSEventType (set_event_map b ev) = OSEventType ev"
  "OSEventPtr (set_event_map b ev) = OSEventPtr ev"
  "OSEventCnt (set_event_map b ev) = OSEventCnt ev"
  "OSEventName (set_event_map b ev) = OSEventName ev"
  "OSEventGrp (set_event_map b ev) = fst b"
  "OSEventTbl (set_event_map b ev) = snd b"
  by (simp_all add: set_event_map_def)

lemma event_map_upd [simp]:
  "event_map (ev\<lparr>OSEventType := a\<rparr>) = event_map ev"
  "event_map (ev\<lparr>OSEventPtr := p\<rparr>) = event_map ev"
  "event_map (ev\<lparr>OSEventCnt := c\<rparr>) = event_map ev"
  "event_map (ev\<lparr>OSEventName := n\<rparr>) = event_map ev"
  by (simp_all add: event_map_def)

lemma rdy_map_upd [simp]:
  "rdy_map (upd_tcb t f s) = rdy_map s"
  "rdy_map (upd_event e g s) = rdy_map s"
  by (simp_all add: rdy_map_def)

text \<open>Writes to different stores commute.\<close>

lemma upd_commute:
  "upd_event e g (upd_tcb t f s) = upd_tcb t f (upd_event e g s)"
  "set_rdy_map b (upd_tcb t f s) = upd_tcb t f (set_rdy_map b s)"
  "set_rdy_map b (upd_event e g s) = upd_event e g (set_rdy_map b s)"
  by (simp_all add: upd_tcb_def upd_event_def set_rdy_map_def)

end
