(* ===== verification/OS_Core.thy ===== *)
theory OS_Core
  imports OS_State
begin

text \<open>
  The kernel core (\<open>os_core.c\<close>): choosing the task to run, interrupt nesting, the scheduler
  lock, and moving tasks between the ready list and the wait lists of events.

  A context switch (\<open>OS_TASK_SW\<close>, \<open>OSIntCtxSw\<close>) ends in the \<open>PendSV\<close> handler of the port,
  which makes the task in \<open>OSTCBHighRdy\<close> the current one.  A service that blocks its caller is
  modelled in two parts, the code up to the call of \<open>OS_Sched\<close> and the code after it, which runs
  when the caller is the current task again.
\<close>

subsection \<open>Ready list and scheduling\<close>

definition tcb_rdy :: "ptr \<Rightarrow> os_state \<Rightarrow> os_state" where
  "tcb_rdy t s =
     set_rdy_map (bm_set (OSTCBY (OSTCBTbl s t)) (OSTCBBitX (OSTCBTbl s t))
       (OSTCBBitY (OSTCBTbl s t)) (rdy_map s)) s"

definition tcb_unrdy :: "ptr \<Rightarrow> os_state \<Rightarrow> os_state" where
  "tcb_unrdy t s =
     set_rdy_map (bm_clr (OSTCBY (OSTCBTbl s t)) (OSTCBBitX (OSTCBTbl s t))
       (OSTCBBitY (OSTCBTbl s t)) (rdy_map s)) s"

definition OS_SchedNew :: "os_state \<Rightarrow> os_state" where
  "OS_SchedNew s = s\<lparr>OSPrioHighRdy := bm_high (rdy_map s)\<rparr>"

definition PendSV_Handler :: "os_state \<Rightarrow> os_state" where
  "PendSV_Handler s = s\<lparr>OSPrioCur := OSPrioHighRdy s, OSTCBCur := OSTCBHighRdy s\<rparr>"

definition OS_Sched :: "os_state \<Rightarrow> os_state" where
  "OS_Sched s =
     (if OSIntNesting s = 0 then
        if OSLockNesting s = 0 then
          (let s1 = OS_SchedNew s;
               s2 = s1\<lparr>OSTCBHighRdy := OSTCBPrioTbl s1 (OSPrioHighRdy s1)\<rparr>
           in if OSPrioHighRdy s2 \<noteq> OSPrioCur s2
              then (let s3 = upd_tcb (OSTCBHighRdy s2) (\<lambda>t. t\<lparr>OSTCBCtxSwCtr := OSTCBCtxSwCtr t + 1\<rparr>) s2;
                        s4 = s3\<lparr>OSCtxSwCtr := OSCtxSwCtr s3 + 1\<rparr>
                    in PendSV_Handler s4)
              else s2)
        else s
      else s)"

definition OSIntEnter :: "os_state \<Rightarrow> os_state" where
  "OSIntEnter s =
     (if OSRunning s then
        if OSIntNesting s < 255 then s\<lparr>OSIntNesting := OSIntNesting s + 1\<rparr> else s
      else s)"

definition OSIntExit :: "os_state \<Rightarrow> os_state" where
  "OSIntExit s =
     (if OSRunning s then
        (let s0 = (if OSIntNesting s > 0 then s\<lparr>OSIntNesting := OSIntNesting s - 1\<rparr> else s)
         in if OSIntNesting s0 = 0 then
              if OSLockNesting s0 = 0 then
                (let s1 = OS_SchedNew s0;
                     s2 = s1\<lparr>OSTCBHighRdy := OSTCBPrioTbl s1 (OSPrioHighRdy s1)\<rparr>
                 in if OSPrioHighRdy s2 \<noteq> OSPrioCur s2
                    then (let s3 = upd_tcb (OSTCBHighRdy s2) (\<lambda>t. t\<lparr>OSTCBCtxSwCtr := OSTCBCtxSwCtr t + 1\<rparr>) s2;
                              s4 = s3\<lparr>OSCtxSwCtr := OSCtxSwCtr s3 + 1\<rparr>
                          in PendSV_Handler s4)
                    else s2)
              else s0
            else s0)
      else s)"

definition OSSchedLock :: "os_state \<Rightarrow> os_state" where
  "OSSchedLock s =
     (if OSRunning s then
        if OSIntNesting s = 0 then
          if OSLockNesting s < 255 then s\<lparr>OSLockNesting := OSLockNesting s + 1\<rparr> else s
        else s
      else s)"

definition OSSchedUnlock :: "os_state \<Rightarrow> os_state" where
  "OSSchedUnlock s =
     (if OSRunning s then
        if OSIntNesting s = 0 then
          if OSLockNesting s > 0 then
            (let s1 = s\<lparr>OSLockNesting := OSLockNesting s - 1\<rparr>
             in if OSLockNesting s1 = 0 then OS_Sched s1 else s1)
          else s
        else s
      else s)"

definition OSStartHighRdy :: "os_state \<Rightarrow> os_state" where
  "OSStartHighRdy s = PendSV_Handler (s\<lparr>OSRunning := True\<rparr>)"

definition OSStart :: "os_state \<Rightarrow> os_state" where
  "OSStart s =
     (if \<not> OSRunning s then
        (let s1 = OS_SchedNew s;
             s2 = s1\<lparr>OSPrioCur := OSPrioHighRdy s1\<rparr>;
             s3 = s2\<lparr>OSTCBHighRdy := OSTCBPrioTbl s2 (OSPrioHighRdy s2)\<rparr>;
             s4 = s3\<lparr>OSTCBCur := OSTCBHighRdy s3\<rparr>
         in OSStartHighRdy s4)
      else s)"

subsection \<open>Wait lists of events\<close>

definition event_wait_set :: "ptr \<Rightarrow> nat \<Rightarrow> 8 word \<Rightarrow> 8 word \<Rightarrow> os_state \<Rightarrow> os_state" where
  "event_wait_set e y bitx bity s =
     upd_event e (\<lambda>ev. set_event_map (bm_set y bitx bity (event_map ev)) ev) s"

definition event_wait_clr :: "ptr \<Rightarrow> nat \<Rightarrow> 8 word \<Rightarrow> 8 word \<Rightarrow> os_state \<Rightarrow> os_state" where
  "event_wait_clr e y bitx bity s =
     upd_event e (\<lambda>ev. set_event_map (bm_clr y bitx bity (event_map ev)) ev) s"

definition OS_EventTaskWait :: "ptr \<Rightarrow> os_state \<Rightarrow> os_state" where
  "OS_EventTaskWait pevent s =
     (let cur = OSTCBCur s;
          s1 = upd_tcb cur (\<lambda>t. t\<lparr>OSTCBEventPtr := pevent\<rparr>) s;
          s2 = event_wait_set pevent (OSTCBY (OSTCBTbl s1 cur)) (OSTCBBitX (OSTCBTbl s1 cur))
                 (OSTCBBitY (OSTCBTbl s1 cur)) s1
      in tcb_unrdy cur s2)"

primrec event_wait_set_multi :: "nat \<Rightarrow> 8 word \<Rightarrow> 8 word \<Rightarrow> ptr list \<Rightarrow> os_state \<Rightarrow> os_state" where
  "event_wait_set_multi y bitx bity [] s = s"
| "event_wait_set_multi y bitx bity (e # es) s =
     event_wait_set_multi y bitx bity es (event_wait_set e y bitx bity s)"

primrec event_wait_clr_multi :: "nat \<Rightarrow> 8 word \<Rightarrow> 8 word \<Rightarrow> ptr list \<Rightarrow> os_state \<Rightarrow> os_state" where
  "event_wait_clr_multi y bitx bity [] s = s"
| "event_wait_clr_multi y bitx bity (e # es) s =
     event_wait_clr_multi y bitx bity es (event_wait_clr e y bitx bity s)"

definition OS_EventTaskWaitMulti :: "ptr list \<Rightarrow> os_state \<Rightarrow> os_state" where
  "OS_EventTaskWaitMulti pevents_wait s =
     (let cur = OSTCBCur s;
          s1 = upd_tcb cur (\<lambda>t. t\<lparr>OSTCBEventPtr := NULL, OSTCBEventMultiPtr := Some pevents_wait\<rparr>) s;
          s2 = event_wait_set_multi (OSTCBY (OSTCBTbl s1 cur)) (OSTCBBitX (OSTCBTbl s1 cur))
                 (OSTCBBitY (OSTCBTbl s1 cur)) pevents_wait s1
      in tcb_unrdy cur s2)"

definition OS_EventTaskRemove :: "ptr \<Rightarrow> ptr \<Rightarrow> os_state \<Rightarrow> os_state" where
  "OS_EventTaskRemove ptcb pevent s =
     event_wait_clr pevent (OSTCBY (OSTCBTbl s ptcb)) (OSTCBBitX (OSTCBTbl s ptcb))
       (OSTCBBitY (OSTCBTbl s ptcb)) s"

definition OS_EventTaskRemoveMulti :: "ptr \<Rightarrow> ptr list \<Rightarrow> os_state \<Rightarrow> os_state" where
  "OS_EventTaskRemoveMulti ptcb pevents_multi s =
     event_wait_clr_multi (OSTCBY (OSTCBTbl s ptcb)) (OSTCBBitX (OSTCBTbl s ptcb))
       (OSTCBBitY (OSTCBTbl s ptcb)) pevents_multi s"

definition OS_EventWaitListInit :: "ptr \<Rightarrow> os_state \<Rightarrow> os_state" where
  "OS_EventWaitListInit pevent s = upd_event pevent (\<lambda>ev. set_event_map bm_empty ev) s"

definition OS_EventTaskRdy :: "ptr \<Rightarrow> ptr \<Rightarrow> INT8U \<Rightarrow> INT8U \<Rightarrow> os_state \<Rightarrow> nat \<times> os_state" where
  "OS_EventTaskRdy pevent pmsg msk pend_stat s =
     (let y = unmap (OSEventGrp (OSEvents s pevent));
          x = unmap (OSEventTbl (OSEvents s pevent) y);
          prio = 8 * y + x;
          ptcb = OSTCBPrioTbl s prio;
          s1 = upd_tcb ptcb (\<lambda>t. t\<lparr>OSTCBDly := 0, OSTCBMsg := pmsg,
                 OSTCBStat := OSTCBStat t AND NOT msk, OSTCBStatPend := pend_stat\<rparr>) s;
          s2 = (if OSTCBStat (OSTCBTbl s1 ptcb) AND OS_STAT_SUSPEND = OS_STAT_RDY
                then set_rdy_map (bm_set y (OSTCBBitX (OSTCBTbl s1 ptcb))
                       (OSTCBBitY (OSTCBTbl s1 ptcb)) (rdy_map s1)) s1
                else s1);
          s3 = OS_EventTaskRemove ptcb pevent s2;
          s4 = (case OSTCBEventMultiPtr (OSTCBTbl s3 ptcb) of
                  None \<Rightarrow> s3
                | Some es \<Rightarrow> upd_tcb ptcb (\<lambda>t. t\<lparr>OSTCBEventPtr := pevent\<rparr>)
                               (OS_EventTaskRemoveMulti ptcb es s3))
      in (prio, s4))"

text \<open>
  \<open>while (pevent->OSEventGrp != 0u) { OS_EventTaskRdy(...); nbr_tasks++; }\<close>, the loop of every
  delete and broadcast service, with the eight-bit counter of the abort services.  \<open>None\<close> is
  a loop that does not end.
\<close>

partial_function (option) OS_EventTaskRdyAll ::
  "ptr \<Rightarrow> ptr \<Rightarrow> INT8U \<Rightarrow> INT8U \<Rightarrow> INT8U \<Rightarrow> os_state \<Rightarrow> (INT8U \<times> os_state) option" where
  "OS_EventTaskRdyAll pevent pmsg msk pend_stat nbr_tasks s =
     (if OSEventGrp (OSEvents s pevent) \<noteq> 0
      then OS_EventTaskRdyAll pevent pmsg msk pend_stat (nbr_tasks + 1)
             (snd (OS_EventTaskRdy pevent pmsg msk pend_stat s))
      else Some (nbr_tasks, s))"

subsection \<open>Names\<close>

primrec OS_StrLen_loop :: "INT8U \<Rightarrow> string \<Rightarrow> INT8U" where
  "OS_StrLen_loop len [] = len"
| "OS_StrLen_loop len (c # cs) = (if c = CHR 0x00 then len else OS_StrLen_loop (len + 1) cs)"

definition OS_StrLen :: "string option \<Rightarrow> INT8U" where
  "OS_StrLen psrc = (case psrc of None \<Rightarrow> 0 | Some cs \<Rightarrow> OS_StrLen_loop 0 cs)"

definition event_has_name :: "OS_EVENT \<Rightarrow> bool" where
  "event_has_name ev \<longleftrightarrow> OSEventType ev \<in>
     {OS_EVENT_TYPE_SEM, OS_EVENT_TYPE_MUTEX, OS_EVENT_TYPE_MBOX, OS_EVENT_TYPE_Q}"

definition OSEventNameGet :: "ptr \<Rightarrow> ptr \<Rightarrow> os_state \<Rightarrow> INT8U \<times> string option \<times> INT8U" where
  "OSEventNameGet pevent pname s =
     (if pevent = NULL then (0, None, OS_ERR_PEVENT_NULL)
      else if pname = NULL then (0, None, OS_ERR_PNAME_NULL)
      else if OSIntNesting s > 0 then (0, None, OS_ERR_NAME_GET_ISR)
      else if \<not> event_has_name (OSEvents s pevent) then (0, None, OS_ERR_EVENT_TYPE)
      else (let nm = OSEventName (OSEvents s pevent)
            in (OS_StrLen (Some nm), Some nm, OS_ERR_NONE)))"

definition OSEventNameSet :: "ptr \<Rightarrow> string option \<Rightarrow> os_state \<Rightarrow> INT8U \<times> os_state" where
  "OSEventNameSet pevent pname s =
     (if pevent = NULL then (OS_ERR_PEVENT_NULL, s)
      else (case pname of
              None \<Rightarrow> (OS_ERR_PNAME_NULL, s)
            | Some nm \<Rightarrow>
                if OSIntNesting s > 0 then (OS_ERR_NAME_SET_ISR, s)
                else if \<not> event_has_name (OSEvents s pevent) then (OS_ERR_EVENT_TYPE, s)
                else (OS_ERR_NONE, upd_event pevent (\<lambda>ev. ev\<lparr>OSEventName := nm\<rparr>) s)))"

subsection \<open>Event control block free list\<close>

text \<open>
  The free list is threaded through \<open>OSEventPtr\<close>.  \<open>event_alloc\<close> is the critical section that
  every create service starts with, \<open>event_free\<close> the block that every delete service ends with.
\<close>

definition event_alloc :: "os_state \<Rightarrow> ptr \<times> os_state" where
  "event_alloc s =
     (let pevent = OSEventFreeList s
      in (pevent,
          if OSEventFreeList s \<noteq> NULL
          then s\<lparr>OSEventFreeList := OSEventPtr (OSEvents s (OSEventFreeList s))\<rparr> else s))"

definition event_free :: "ptr \<Rightarrow> os_state \<Rightarrow> os_state" where
  "event_free pevent s =
     (let s1 = upd_event pevent (\<lambda>ev. ev\<lparr>OSEventName := ''?'', OSEventType := OS_EVENT_TYPE_UNUSED,
                 OSEventPtr := OSEventFreeList s, OSEventCnt := 0\<rparr>) s
      in s1\<lparr>OSEventFreeList := pevent\<rparr>)"

end
