(* ===== verification/Free_List.thy ===== *)
theory Free_List
  imports Prelude
begin

text \<open>
  Singly linked lists threaded through a store: the kernel keeps its unused control blocks (events,
  tasks, queues, memory partitions, flag groups, timers) and the free blocks of a partition in
  such lists.  \<open>path next p xs\<close> says that following \<open>next\<close> from \<open>p\<close> visits the nonnull addresses
  \<open>xs\<close> and ends in the null pointer.  The interface \<open>free_list\<close> is what the create and delete
  services rely on: a stack of distinct unused objects, which may have a bound (\<open>room\<close>).
\<close>

primrec path :: "(ptr \<Rightarrow> ptr) \<Rightarrow> ptr \<Rightarrow> ptr list \<Rightarrow> bool" where
  "path next p [] \<longleftrightarrow> p = 0"
| "path next p (x # xs) \<longleftrightarrow> p = x \<and> x \<noteq> 0 \<and> path next (next x) xs"

lemma path_null [simp]: "path next 0 xs \<longleftrightarrow> xs = []"
  by (cases xs) auto

lemma path_nonnull: "p \<noteq> 0 \<Longrightarrow> path next p xs \<longleftrightarrow> (\<exists>ys. xs = p # ys \<and> path next (next p) ys)"
  by (cases xs) auto

lemma path_cong: "(\<And>x. x \<in> set xs \<Longrightarrow> next x = next' x) \<Longrightarrow> path next p xs = path next' p xs"
  by (induction xs arbitrary: p) auto

lemma path_upd: "x \<notin> set xs \<Longrightarrow> path (next(x := y)) p xs = path next p xs"
  by (rule path_cong) auto

lemma path_unique: "path next p xs \<Longrightarrow> path next p ys \<Longrightarrow> xs = ys"
  by (induction xs arbitrary: p ys) (auto simp: path_nonnull)

lemma path_nonzero: "path next p xs \<Longrightarrow> 0 \<notin> set xs"
  by (induction xs arbitrary: p) auto

lemma path_append:
  "path next p (xs @ y # ys) \<Longrightarrow> path next y (y # ys)"
  by (induction xs arbitrary: p) auto

text \<open>A list built by an initialisation loop: block \<open>i\<close> links to block \<open>i + 1\<close>, the last to null.\<close>

lemma path_upt:
  assumes "i \<le> n" and "0 < i" and "\<And>k. i \<le> k \<Longrightarrow> k < n \<Longrightarrow> next k = k + 1" and "next n = 0"
  shows "path next i [i..<Suc n]"
  using assms
proof (induction "n - i" arbitrary: i)
  case 0
  then show ?case by auto
next
  case (Suc d)
  then have "path next (Suc i) [Suc i..<Suc n]" by (intro Suc.hyps) auto
  with Suc show ?case by (simp add: upt_conv_Cons del: upt_Suc)
qed

locale free_list =
  fixes abs :: "'s \<Rightarrow> ptr list \<Rightarrow> bool"
    and alloc :: "'s \<Rightarrow> ptr \<times> 's"
    and free :: "ptr \<Rightarrow> 's \<Rightarrow> 's"
    and room :: "'s \<Rightarrow> bool"
  assumes abs_unique: "abs s xs \<Longrightarrow> abs s ys \<Longrightarrow> xs = ys"
    and abs_distinct: "abs s xs \<Longrightarrow> distinct xs"
    and abs_nonnull: "abs s xs \<Longrightarrow> 0 \<notin> set xs"
    and alloc_empty: "abs s [] \<Longrightarrow> alloc s = (0, s)"
    and alloc_cons: "abs s (x # xs) \<Longrightarrow> fst (alloc s) = x \<and> abs (snd (alloc s)) xs"
    and free_push: "abs s xs \<Longrightarrow> room s \<Longrightarrow> x \<noteq> 0 \<Longrightarrow> x \<notin> set xs \<Longrightarrow> abs (free x s) (x # xs)"
begin

lemma alloc_tl: "abs s xs \<Longrightarrow> abs (snd (alloc s)) (tl xs)"
  using alloc_empty [of s] alloc_cons [of s] by (cases xs) auto

lemma alloc_hd: "abs s xs \<Longrightarrow> fst (alloc s) = (if xs = [] then 0 else hd xs)"
  using alloc_empty [of s] alloc_cons [of s] by (cases xs) auto

lemma alloc_null_iff: "abs s xs \<Longrightarrow> fst (alloc s) = 0 \<longleftrightarrow> xs = []"
  using alloc_hd [of s xs] abs_nonnull [of s xs] by (cases xs) auto

lemma alloc_fresh:
  assumes "abs s xs" and "fst (alloc s) \<noteq> 0"
  shows "fst (alloc s) \<in> set xs \<and> fst (alloc s) \<notin> set (tl xs)"
  using assms alloc_hd [OF assms(1)] abs_distinct [OF assms(1)] by (cases xs) auto

lemma alloc_free_lifo:
  "abs s xs \<Longrightarrow> room s \<Longrightarrow> x \<noteq> 0 \<Longrightarrow> x \<notin> set xs \<Longrightarrow>
     fst (alloc (free x s)) = x \<and> abs (snd (alloc (free x s))) xs"
  by (blast dest: free_push alloc_cons)

end

end
