(* ===== verification/OS_Inv.thy ===== *)
theory OS_Inv
  imports OS_Core Free_List
begin

text \<open>
  The kernel invariant.  It ties the ready list, the wait lists of the events, the table of tasks
  by priority and the fields of the task control blocks to each other; every service keeps it.
  The two lemma groups \<open>os_frame\<close> and \<open>os_pres\<close> say what the core's state transformers leave
  alone and that they keep the invariant.
\<close>

subsection \<open>Status bytes\<close>

lemma word8_eq_iff: "(a::8 word) = b \<longleftrightarrow> (\<forall>n<8. bit a n \<longleftrightarrow> bit b n)"
  by (auto intro: bit_word_eqI)

lemma all_less_8: "(\<forall>n<8. P n) \<longleftrightarrow> P 0 \<and> P 1 \<and> P 2 \<and> P 3 \<and> P 4 \<and> P 5 \<and> P 6 \<and> P (7::nat)"
  by (auto simp: numeral_eq_Suc All_less_Suc)

lemmas word8_cases = word8_eq_iff all_less_8 bit_and_iff bit_or_iff bit_not_iff bit_1_iff

text \<open>What keeps a task off the ready list: a wait, a suspension, or a running delay.\<close>

definition tcb_runnable :: "OS_TCB \<Rightarrow> bool" where
  "tcb_runnable t \<longleftrightarrow>
     OSTCBStat t AND (OS_STAT_PEND_ANY OR OS_STAT_SUSPEND) = 0 \<and> OSTCBDly t = 0"

text \<open>The status bit of the tasks that wait on an event of a type.\<close>

definition event_stat :: "INT8U \<Rightarrow> INT8U" where
  "event_stat ty =
     (if ty = OS_EVENT_TYPE_SEM then OS_STAT_SEM
      else if ty = OS_EVENT_TYPE_MBOX then OS_STAT_MBOX
      else if ty = OS_EVENT_TYPE_Q then OS_STAT_Q
      else if ty = OS_EVENT_TYPE_MUTEX then OS_STAT_MUTEX
      else 0)"

lemma event_stat_simps [simp]:
  "event_stat OS_EVENT_TYPE_UNUSED = 0"
  "event_stat OS_EVENT_TYPE_SEM = OS_STAT_SEM"
  "event_stat OS_EVENT_TYPE_MBOX = OS_STAT_MBOX"
  "event_stat OS_EVENT_TYPE_Q = OS_STAT_Q"
  "event_stat OS_EVENT_TYPE_MUTEX = OS_STAT_MUTEX"
  by (simp_all add: event_stat_def)

text \<open>
  A task in the wait list of an event either waits there still or has been timed out and has not
  run since: it leaves the list by itself when it runs.
\<close>

definition wait_stat_ok :: "OS_TCB \<Rightarrow> INT8U \<Rightarrow> bool" where
  "wait_stat_ok t st \<longleftrightarrow> OSTCBStat t AND OS_STAT_PEND_ANY = st
     \<or> OSTCBStat t AND OS_STAT_PEND_ANY = 0 \<and> OSTCBStatPend t = OS_STAT_PEND_TO \<and> OSTCBDly t = 0"

subsection \<open>The invariant\<close>

definition is_task :: "os_state \<Rightarrow> nat \<Rightarrow> bool" where
  "is_task s p \<longleftrightarrow> OSTCBPrioTbl s p \<noteq> NULL \<and> OSTCBPrioTbl s p \<noteq> OS_TCB_RESERVED"

definition task_at :: "os_state \<Rightarrow> nat \<Rightarrow> OS_TCB" where
  "task_at s p = OSTCBTbl s (OSTCBPrioTbl s p)"

definition rdy :: "os_state \<Rightarrow> nat \<Rightarrow> bool" where
  "rdy s p \<longleftrightarrow> bm_mem (rdy_map s) p"

definition waits :: "os_state \<Rightarrow> ptr \<Rightarrow> nat \<Rightarrow> bool" where
  "waits s e p \<longleftrightarrow> bm_mem (event_map (OSEvents s e)) p"

definition tcb_prio_ok :: "nat \<Rightarrow> OS_TCB \<Rightarrow> bool" where
  "tcb_prio_ok p t \<longleftrightarrow> OSTCBPrio t = p \<and> OSTCBY t = p div 8 \<and> OSTCBX t = p mod 8
     \<and> OSTCBBitX t = prio_bitx p \<and> OSTCBBitY t = prio_bity p"

definition tcbs_ok :: "os_state \<Rightarrow> bool" where
  "tcbs_ok s \<longleftrightarrow> (\<forall>p. is_task s p \<longrightarrow>
     p < 64 \<and> tcb_prio_ok p (task_at s p) \<and> OSTCBEventMultiPtr (task_at s p) = None
     \<and> OSTCBStat (task_at s p) AND NOT (OS_STAT_PEND_ANY OR OS_STAT_SUSPEND) = 0)"

definition rdy_ok :: "os_state \<Rightarrow> bool" where
  "rdy_ok s \<longleftrightarrow> bm_ok (rdy_map s) \<and>
     (\<forall>p. rdy s p \<longleftrightarrow> is_task s p \<and> tcb_runnable (task_at s p))"

definition wait_ok :: "os_state \<Rightarrow> bool" where
  "wait_ok s \<longleftrightarrow> (\<forall>e. bm_ok (event_map (OSEvents s e)) \<and>
     (\<forall>p. waits s e p \<longrightarrow> e \<noteq> NULL \<and> is_task s p \<and> OSTCBEventPtr (task_at s p) = e
        \<and> event_stat (OSEventType (OSEvents s e)) \<noteq> 0
        \<and> wait_stat_ok (task_at s p) (event_stat (OSEventType (OSEvents s e)))))"

text \<open>A task whose status says that it waits on an event is in the wait list of that event.\<close>

definition blocked_ok :: "os_state \<Rightarrow> bool" where
  "blocked_ok s \<longleftrightarrow> (\<forall>p. is_task s p \<longrightarrow>
     OSTCBStat (task_at s p) AND (OS_STAT_PEND_ANY AND NOT OS_STAT_FLAG) \<noteq> 0 \<longrightarrow>
     waits s (OSTCBEventPtr (task_at s p)) p)"

definition cur_ok :: "os_state \<Rightarrow> bool" where
  "cur_ok s \<longleftrightarrow> OSTCBCur s = OSTCBPrioTbl s (OSPrioCur s) \<and> is_task s (OSPrioCur s)"

definition kinv :: "os_state \<Rightarrow> bool" where
  "kinv s \<longleftrightarrow> tcbs_ok s \<and> rdy_ok s \<and> wait_ok s \<and> blocked_ok s \<and> rdy s OS_TASK_IDLE_PRIO"

text \<open>
  The promise of a preemptive priority scheduler: outside interrupts and with the scheduler
  unlocked, the task that runs is the ready task with the highest priority.
\<close>

definition sched_ok :: "os_state \<Rightarrow> bool" where
  "sched_ok s \<longleftrightarrow> (OSIntNesting s = 0 \<and> OSLockNesting s = 0 \<longrightarrow>
     cur_ok s \<and> rdy s (OSPrioCur s) \<and> (\<forall>p. rdy s p \<longrightarrow> OSPrioCur s \<le> p))"

subsection \<open>Consequences of the invariant\<close>

lemma kinv_tcbs [dest]: "kinv s \<Longrightarrow> tcbs_ok s"
  and kinv_rdy [dest]: "kinv s \<Longrightarrow> rdy_ok s"
  and kinv_wait [dest]: "kinv s \<Longrightarrow> wait_ok s"
  and kinv_blocked [dest]: "kinv s \<Longrightarrow> blocked_ok s"
  by (simp_all add: kinv_def)

text \<open>
  The fields of a task control block that the invariant reads.  Services that write the others only
  (messages, counters, stack and name fields) keep the invariant by congruence.
\<close>

definition tcb_same :: "OS_TCB \<Rightarrow> OS_TCB \<Rightarrow> bool" where
  "tcb_same t t' \<longleftrightarrow> OSTCBPrio t = OSTCBPrio t' \<and> OSTCBY t = OSTCBY t' \<and> OSTCBX t = OSTCBX t'
     \<and> OSTCBBitX t = OSTCBBitX t' \<and> OSTCBBitY t = OSTCBBitY t'
     \<and> OSTCBEventMultiPtr t = OSTCBEventMultiPtr t' \<and> OSTCBEventPtr t = OSTCBEventPtr t'
     \<and> OSTCBStat t = OSTCBStat t' \<and> OSTCBStatPend t = OSTCBStatPend t' \<and> OSTCBDly t = OSTCBDly t'"

lemma tcb_same_refl [simp]: "tcb_same t t"
  by (simp add: tcb_same_def)

lemma tcb_same_sym: "tcb_same t t' \<Longrightarrow> tcb_same t' t"
  by (simp add: tcb_same_def)

lemma tcb_same_trans: "tcb_same t t' \<Longrightarrow> tcb_same t' t'' \<Longrightarrow> tcb_same t t''"
  by (simp add: tcb_same_def)

lemma tcb_same_simps:
  assumes "tcb_same t t'"
  shows "tcb_prio_ok p t = tcb_prio_ok p t'" and "OSTCBEventMultiPtr t = OSTCBEventMultiPtr t'"
    and "OSTCBEventPtr t = OSTCBEventPtr t'" and "OSTCBStat t = OSTCBStat t'"
    and "tcb_runnable t = tcb_runnable t'" and "wait_stat_ok t st = wait_stat_ok t' st"
  using assms by (auto simp: tcb_same_def tcb_prio_ok_def tcb_runnable_def wait_stat_ok_def)

definition kernel_same :: "os_state \<Rightarrow> os_state \<Rightarrow> bool" where
  "kernel_same s' s \<longleftrightarrow> OSTCBPrioTbl s' = OSTCBPrioTbl s \<and> rdy_map s' = rdy_map s
     \<and> (\<forall>t. tcb_same (OSTCBTbl s' t) (OSTCBTbl s t))
     \<and> (\<forall>e. event_map (OSEvents s' e) = event_map (OSEvents s e)
          \<and> OSEventType (OSEvents s' e) = OSEventType (OSEvents s e))"

lemma kernel_same_refl [simp]: "kernel_same s s"
  by (simp add: kernel_same_def)

lemma kernel_same_trans: "kernel_same s s' \<Longrightarrow> kernel_same s' s'' \<Longrightarrow> kernel_same s s''"
  by (auto simp: kernel_same_def intro: tcb_same_trans)

lemma kernel_same_simps:
  assumes "kernel_same s' s"
  shows "is_task s' p = is_task s p" and "rdy s' p = rdy s p" and "waits s' e p = waits s e p"
    and "tcb_same (task_at s' p) (task_at s p)" and "rdy_map s' = rdy_map s"
  using assms by (simp_all add: kernel_same_def is_task_def rdy_def waits_def task_at_def)

lemma kinv_cong:
  assumes "kernel_same s' s"
  shows "kinv s' = kinv s"
proof -
  note same = kernel_same_simps [OF assms] tcb_same_simps [OF kernel_same_simps(4) [OF assms]]
  have ev: "event_map (OSEvents s' e) = event_map (OSEvents s e)"
    and ty: "OSEventType (OSEvents s' e) = OSEventType (OSEvents s e)" for e
    using assms by (simp_all add: kernel_same_def)
  show ?thesis
    unfolding kinv_def tcbs_ok_def rdy_ok_def wait_ok_def blocked_ok_def same ev ty ..
qed

lemma task_prio_ok: "kinv s \<Longrightarrow> is_task s p \<Longrightarrow> p < 64 \<and> tcb_prio_ok p (task_at s p)"
  by (auto simp: kinv_def tcbs_ok_def)

lemma task_prio: "kinv s \<Longrightarrow> is_task s p \<Longrightarrow> OSTCBPrio (task_at s p) = p"
  by (auto dest: task_prio_ok simp: tcb_prio_ok_def)

lemma task_inj: "kinv s \<Longrightarrow> is_task s p \<Longrightarrow> is_task s q \<Longrightarrow>
    OSTCBPrioTbl s p = OSTCBPrioTbl s q \<longleftrightarrow> p = q"
  using task_prio [of s p] task_prio [of s q] unfolding task_at_def by metis

lemma rdy_task: "kinv s \<Longrightarrow> rdy s p \<Longrightarrow> is_task s p"
  by (auto simp: kinv_def rdy_ok_def)

lemma rdy_less: "kinv s \<Longrightarrow> rdy s p \<Longrightarrow> p < 64"
  by (auto simp: kinv_def rdy_ok_def rdy_def dest: bm_mem_less)

lemma rdy_iff: "kinv s \<Longrightarrow> rdy s p \<longleftrightarrow> is_task s p \<and> tcb_runnable (task_at s p)"
  by (simp add: kinv_def rdy_ok_def)

lemma waitsD:
  assumes "kinv s" and "waits s e p"
  shows "is_task s p" and "OSTCBEventPtr (task_at s p) = e" and "p < 64" and "e \<noteq> NULL"
    and "event_stat (OSEventType (OSEvents s e)) \<noteq> 0"
    and "wait_stat_ok (task_at s p) (event_stat (OSEventType (OSEvents s e)))"
  using assms by (auto simp: kinv_def wait_ok_def waits_def dest: bm_mem_less)

text \<open>A task waits on one event at most.\<close>

lemma waits_unique: "kinv s \<Longrightarrow> waits s e p \<Longrightarrow> waits s e' p \<Longrightarrow> e = e'"
  by (metis waitsD(2))

lemma bm_ok_rdy: "kinv s \<Longrightarrow> bm_ok (rdy_map s)"
  by (simp add: kinv_def rdy_ok_def)

lemma bm_ok_event: "kinv s \<Longrightarrow> bm_ok (event_map (OSEvents s e))"
  by (simp add: kinv_def wait_ok_def)

text \<open>The highest-priority waiter of an event whose group byte is not zero.\<close>

lemma waits_high:
  assumes "kinv s" and "OSEventGrp (OSEvents s e) \<noteq> 0"
  shows "waits s e (bm_high (event_map (OSEvents s e)))"
    and "\<And>q. waits s e q \<Longrightarrow> bm_high (event_map (OSEvents s e)) \<le> q"
  using bm.high_mem [OF bm_ok_event [OF assms(1)], of e] bm.high_le [OF bm_ok_event [OF assms(1)], of e]
    assms(2)
  by (auto simp: waits_def)

lemma event_grp_iff: "kinv s \<Longrightarrow> OSEventGrp (OSEvents s e) \<noteq> 0 \<longleftrightarrow> (\<exists>p. waits s e p)"
  using bm_some_iff [OF bm_ok_event, of s e] by (simp add: waits_def)

text \<open>The idle task is always ready, so the ready list is never empty.\<close>

lemma rdy_grp_nonzero: "kinv s \<Longrightarrow> OSRdyGrp s \<noteq> 0"
  using bm_some_iff [OF bm_ok_rdy, of s] by (auto simp: kinv_def rdy_def)

lemma rdy_high:
  assumes "kinv s"
  shows "rdy s (bm_high (rdy_map s))" and "\<And>q. rdy s q \<Longrightarrow> bm_high (rdy_map s) \<le> q"
  using bm.high_mem [OF bm_ok_rdy [OF assms]] bm.high_le [OF bm_ok_rdy [OF assms]] rdy_grp_nonzero [OF assms]
  by (auto simp: rdy_def)

subsection \<open>The transformers through the invariant\<close>

lemma tcb_rdy_eq:
  "tcb_prio_ok p (OSTCBTbl s t) \<Longrightarrow> tcb_rdy t s = set_rdy_map (bm_ins p (rdy_map s)) s"
  by (simp add: tcb_rdy_def tcb_prio_ok_def bm_ins_def)

lemma tcb_unrdy_eq:
  "tcb_prio_ok p (OSTCBTbl s t) \<Longrightarrow> tcb_unrdy t s = set_rdy_map (bm_del p (rdy_map s)) s"
  by (simp add: tcb_unrdy_def tcb_prio_ok_def bm_del_def)

lemma OS_EventTaskRemove_eq:
  "tcb_prio_ok p (OSTCBTbl s t) \<Longrightarrow>
     OS_EventTaskRemove t e s = upd_event e (\<lambda>ev. set_event_map (bm_del p (event_map ev)) ev) s"
  by (simp add: OS_EventTaskRemove_def event_wait_clr_def tcb_prio_ok_def bm_del_def)

lemma OS_EventTaskRdy_eq:
  assumes inv: "kinv s" and grp: "OSEventGrp (OSEvents s e) \<noteq> 0"
    and p: "p = bm_high (event_map (OSEvents s e))"
  shows "OS_EventTaskRdy e m msk st s =
    (p, upd_tcb (OSTCBPrioTbl s p)
          (\<lambda>t. t\<lparr>OSTCBDly := 0, OSTCBMsg := m, OSTCBStat := OSTCBStat t AND NOT msk, OSTCBStatPend := st\<rparr>)
        (upd_event e (\<lambda>ev. set_event_map (bm_del p (event_map ev)) ev)
        (if (OSTCBStat (task_at s p) AND NOT msk) AND OS_STAT_SUSPEND = 0
         then set_rdy_map (bm_ins p (rdy_map s)) s else s)))"
proof -
  let ?y = "unmap (OSEventGrp (OSEvents s e))"
  let ?x = "unmap (OSEventTbl (OSEvents s e) ?y)"
  have pe: "p = 8 * ?y + ?x" by (simp add: p bm_high_def event_map_def Let_def)
  have y: "?y = p div 8" and "?x = p mod 8"
    using unmap_less_8 [of "OSEventTbl (OSEvents s e) ?y"] by (simp_all add: pe)
  then have x: "unmap (OSEventTbl (OSEvents s e) (p div 8)) = p mod 8" by simp
  have task: "is_task s p" using waits_high(1) [OF inv grp] waitsD(1) [OF inv] p by simp
  then have ok: "tcb_prio_ok p (OSTCBTbl s (OSTCBPrioTbl s p))"
    using task_prio_ok [OF inv] by (simp add: task_at_def)
  have multi: "OSTCBEventMultiPtr (OSTCBTbl s (OSTCBPrioTbl s p)) = None"
    using inv task by (simp add: kinv_def tcbs_ok_def task_at_def)
  show ?thesis
    unfolding OS_EventTaskRdy_def Let_def y x mult_div_mod_eq
    using ok multi
    by (simp add: OS_EventTaskRemove_def event_wait_clr_def tcb_prio_ok_def
        task_at_def bm_ins_def bm_del_def upd_commute)
qed

subsection \<open>Preservation\<close>

text \<open>
  Every service changes one task at a time.  The workhorse: a state that differs from \<open>s\<close> in the
  control block of the task with priority \<open>p\<close>, in the ready bit of \<open>p\<close> and in the wait bits of
  \<open>p\<close> satisfies the invariant when these agree again.
\<close>

lemma kinv_task_update:
  assumes inv: "kinv s" and p: "is_task s p"
    and prios: "OSTCBPrioTbl s' = OSTCBPrioTbl s"
    and tbl: "OSTCBTbl s' = (OSTCBTbl s)(OSTCBPrioTbl s p := T)"
    and types: "\<And>e. OSEventType (OSEvents s' e) = OSEventType (OSEvents s e)"
    and bmr: "bm_ok (rdy_map s')" and bme: "\<And>e. bm_ok (event_map (OSEvents s' e))"
    and rdy': "\<And>q. rdy s' q \<longleftrightarrow> (if q = p then tcb_runnable T else rdy s q)"
    and waits': "\<And>e q. q \<noteq> p \<Longrightarrow> waits s' e q = waits s e q"
    and T: "tcb_prio_ok p T" "OSTCBEventMultiPtr T = None"
      "OSTCBStat T AND NOT (OS_STAT_PEND_ANY OR OS_STAT_SUSPEND) = 0"
    and wp: "\<And>e. waits s' e p \<Longrightarrow> e \<noteq> NULL \<and> OSTCBEventPtr T = e
        \<and> event_stat (OSEventType (OSEvents s e)) \<noteq> 0
        \<and> wait_stat_ok T (event_stat (OSEventType (OSEvents s e)))"
    and bl: "OSTCBStat T AND (OS_STAT_PEND_ANY AND NOT OS_STAT_FLAG) \<noteq> 0 \<Longrightarrow> waits s' (OSTCBEventPtr T) p"
    and idle: "p = OS_TASK_IDLE_PRIO \<Longrightarrow> tcb_runnable T"
  shows "kinv s'"
proof -
  have task: "is_task s' q \<longleftrightarrow> is_task s q" for q
    by (simp add: is_task_def prios)
  have at_p: "task_at s' p = T"
    by (simp add: task_at_def prios tbl)
  have at_q: "task_at s' q = task_at s q" if "is_task s q" "q \<noteq> p" for q
    using that task_inj [OF inv p that(1)] by (simp add: task_at_def prios tbl)
  have "tcbs_ok s'"
    unfolding tcbs_ok_def task
  proof (intro allI impI)
    fix q assume q: "is_task s q"
    show "q < 64 \<and> tcb_prio_ok q (task_at s' q) \<and> OSTCBEventMultiPtr (task_at s' q) = None \<and>
       OSTCBStat (task_at s' q) AND NOT (OS_STAT_PEND_ANY OR OS_STAT_SUSPEND) = 0"
    proof (cases "q = p")
      case True
      with T at_p task_prio_ok [OF inv p] show ?thesis by simp
    next
      case False
      with inv q show ?thesis unfolding at_q [OF q False] by (simp add: kinv_def tcbs_ok_def)
    qed
  qed
  moreover have "rdy_ok s'"
    unfolding rdy_ok_def task
  proof (intro conjI allI bmr)
    fix q
    show "rdy s' q \<longleftrightarrow> is_task s q \<and> tcb_runnable (task_at s' q)"
    proof (cases "q = p")
      case True
      with p at_p rdy' show ?thesis by simp
    next
      case False
      with rdy' rdy_iff [OF inv, of q] at_q [of q] show ?thesis by auto
    qed
  qed
  moreover have "wait_ok s'"
    unfolding wait_ok_def task types
  proof (intro allI conjI impI)
    fix e show "bm_ok (event_map (OSEvents s' e))" by (rule bme)
  next
    fix e q assume w: "waits s' e q"
    have *: "is_task s q \<and> OSTCBEventPtr (task_at s' q) = e \<and> e \<noteq> NULL \<and>
      event_stat (OSEventType (OSEvents s e)) \<noteq> 0 \<and>
      wait_stat_ok (task_at s' q) (event_stat (OSEventType (OSEvents s e)))"
    proof (cases "q = p")
      case True
      with wp w p at_p show ?thesis by simp
    next
      case False
      with w waits' have w': "waits s e q" by simp
      show ?thesis
        using waitsD [OF inv w'] unfolding at_q [OF waitsD(1) [OF inv w'] False] by blast
    qed
    from * show "e \<noteq> NULL" and "is_task s q" and "OSTCBEventPtr (task_at s' q) = e"
      and "event_stat (OSEventType (OSEvents s e)) \<noteq> 0"
      and "wait_stat_ok (task_at s' q) (event_stat (OSEventType (OSEvents s e)))"
      by blast+
  qed
  moreover have "blocked_ok s'"
    unfolding blocked_ok_def task
  proof (intro allI impI)
    fix q assume q: "is_task s q"
      and st: "OSTCBStat (task_at s' q) AND (OS_STAT_PEND_ANY AND NOT OS_STAT_FLAG) \<noteq> 0"
    show "waits s' (OSTCBEventPtr (task_at s' q)) q"
    proof (cases "q = p")
      case True
      with bl st at_p show ?thesis by simp
    next
      case False
      with inv q st show ?thesis
        unfolding at_q [OF q False] waits' [OF False] by (auto simp: kinv_def blocked_ok_def)
    qed
  qed
  moreover have "rdy s' OS_TASK_IDLE_PRIO"
    using idle inv by (simp add: rdy' kinv_def)
  ultimately show ?thesis by (simp add: kinv_def)
qed

lemma stat_mask_clear: "x AND k = 0 \<Longrightarrow> (x AND NOT m) AND k = (0::8 word)"
  by (metis and.assoc and.commute and_zero_eq)

lemma stat_mask_sub: "x AND k = 0 \<Longrightarrow> x AND (k AND m) = (0::8 word)"
  by (metis and.assoc zero_and_eq)

lemma stat_mask_susp: "x AND (k OR l) = 0 \<Longrightarrow> (x AND NOT m) AND l = (0::8 word)"
  by (metis stat_mask_clear bit.conj_disj_distrib or_eq_0_iff)

lemma stat_mask_or_zero: "x AND (k OR l) = 0 \<Longrightarrow> x AND k = (0::8 word)"
  by (simp add: bit.conj_disj_distrib or_eq_0_iff)

lemma stat_no_event:
  assumes "x AND OS_STAT_PEND_ANY \<in> {0, OS_STAT_FLAG}"
  shows "x AND (OS_STAT_PEND_ANY AND NOT OS_STAT_FLAG) = 0"
proof -
  have "x AND (OS_STAT_PEND_ANY AND NOT OS_STAT_FLAG) = (x AND OS_STAT_PEND_ANY) AND NOT OS_STAT_FLAG"
    by (rule and.assoc [symmetric])
  with assms show ?thesis by auto
qed

lemma stat_mask_or: "x AND k = 0 \<Longrightarrow> x AND (k OR l) = x AND (l::8 word)"
  by (simp add: bit.conj_disj_distrib)

lemma kinv_EventTaskRdy [os_pres]:
  assumes inv: "kinv s" and grp: "OSEventGrp (OSEvents s e) \<noteq> 0"
    and msk: "msk = event_stat (OSEventType (OSEvents s e))"
  shows "kinv (snd (OS_EventTaskRdy e m msk st s))"
proof -
  define p where "p = bm_high (event_map (OSEvents s e))"
  have w: "waits s e p" using waits_high(1) [OF inv grp] by (simp add: p_def)
  note wD = waitsD [OF inv w]
  let ?old = "task_at s p"
  let ?T = "?old\<lparr>OSTCBDly := 0, OSTCBMsg := m, OSTCBStat := OSTCBStat ?old AND NOT msk, OSTCBStatPend := st\<rparr>"
  let ?susp = "(OSTCBStat ?old AND NOT msk) AND OS_STAT_SUSPEND = 0"
  let ?s' = "snd (OS_EventTaskRdy e m msk st s)"
  note eq = OS_EventTaskRdy_eq [OF inv grp p_def, of m msk st]
  have st0: "OSTCBStat ?old AND NOT (OS_STAT_PEND_ANY OR OS_STAT_SUSPEND) = 0"
    using inv wD(1) by (simp add: kinv_def tcbs_ok_def)
  have pend: "(OSTCBStat ?old AND NOT msk) AND OS_STAT_PEND_ANY = 0"
  proof -
    have "(OSTCBStat ?old AND NOT msk) AND OS_STAT_PEND_ANY = (OSTCBStat ?old AND OS_STAT_PEND_ANY) AND NOT msk"
      by (simp only: ac_simps)
    then show ?thesis using wD(6) msk by (auto simp: wait_stat_ok_def)
  qed
  have statT: "OSTCBStat ?T = OSTCBStat ?old AND NOT msk" by simp
  have run: "tcb_runnable ?T \<longleftrightarrow> ?susp"
    unfolding tcb_runnable_def statT stat_mask_or [OF pend] by simp
  have nrdy: "?susp" if "rdy s p"
    using that rdy_iff [OF inv, of p] stat_mask_susp unfolding tcb_runnable_def by blast
  show ?thesis
  proof (rule kinv_task_update [OF inv wD(1), where T = ?T])
    show "OSTCBPrioTbl ?s' = OSTCBPrioTbl s" by (simp add: eq)
    show "OSTCBTbl ?s' = (OSTCBTbl s)(OSTCBPrioTbl s p := ?T)" by (simp add: eq task_at_def)
    show "OSEventType (OSEvents ?s' e') = OSEventType (OSEvents s e')" for e' by (simp add: eq)
    show "bm_ok (rdy_map ?s')" using bm_ok_rdy [OF inv] wD(3) by (simp add: eq bm_ok_ins)
    show "bm_ok (event_map (OSEvents ?s' e'))" for e'
      using bm_ok_event [OF inv] wD(3) by (simp add: eq bm_ok_del)
    show "rdy ?s' q \<longleftrightarrow> (if q = p then tcb_runnable ?T else rdy s q)" for q
      unfolding run using wD(3) nrdy by (auto simp: eq rdy_def bm_mem_ins)
    show "waits ?s' e' q = waits s e' q" if "q \<noteq> p" for e' q
      using wD(3) that by (simp add: eq waits_def bm_mem_del)
    show "tcb_prio_ok p ?T" using task_prio_ok [OF inv wD(1)] by (simp add: tcb_prio_ok_def)
    show "OSTCBEventMultiPtr ?T = None" using inv wD(1) by (simp add: kinv_def tcbs_ok_def)
    show "OSTCBStat ?T AND NOT (OS_STAT_PEND_ANY OR OS_STAT_SUSPEND) = 0"
      unfolding statT by (rule stat_mask_clear [OF st0])
    show "e' \<noteq> NULL \<and> OSTCBEventPtr ?T = e' \<and> event_stat (OSEventType (OSEvents s e')) \<noteq> 0 \<and>
        wait_stat_ok ?T (event_stat (OSEventType (OSEvents s e')))"
      if w': "waits ?s' e' p" for e'
    proof (cases "e' = e")
      case True
      with w' wD(3) show ?thesis by (simp add: eq waits_def bm_mem_del)
    next
      case False
      with w' have "waits s e' p" by (simp add: eq waits_def split: if_splits)
      with waits_unique [OF inv w] False show ?thesis by blast
    qed
    show "waits ?s' (OSTCBEventPtr ?T) p"
      if "OSTCBStat ?T AND (OS_STAT_PEND_ANY AND NOT OS_STAT_FLAG) \<noteq> 0"
      using that stat_mask_sub [OF pend] unfolding statT by blast
    show "tcb_runnable ?T" if "p = OS_TASK_IDLE_PRIO"
      unfolding run using that nrdy inv by (simp add: kinv_def)
  qed
qed

text \<open>A task changes its status, and nothing happens to the wait lists.\<close>

lemma kinv_task_status:
  assumes inv: "kinv s" and p: "is_task s p"
    and prios: "OSTCBPrioTbl s' = OSTCBPrioTbl s"
    and tbl: "OSTCBTbl s' = (OSTCBTbl s)(OSTCBPrioTbl s p := T)"
    and ev: "OSEvents s' = OSEvents s"
    and rm: "rdy_map s' = rdy_map s \<or> rdy_map s' = bm_ins p (rdy_map s) \<or> rdy_map s' = bm_del p (rdy_map s)"
    and rdyp: "rdy s' p \<longleftrightarrow> tcb_runnable T"
    and T: "tcb_prio_ok p T" "OSTCBEventMultiPtr T = None"
      "OSTCBStat T AND NOT (OS_STAT_PEND_ANY OR OS_STAT_SUSPEND) = 0"
    and ep: "OSTCBEventPtr T = OSTCBEventPtr (task_at s p)"
    and pend: "OSTCBStat T AND OS_STAT_PEND_ANY \<in> {0, OS_STAT_FLAG, OSTCBStat (task_at s p) AND OS_STAT_PEND_ANY}"
    and wst: "\<And>e. waits s e p \<Longrightarrow> wait_stat_ok (task_at s p) (event_stat (OSEventType (OSEvents s e)))
      \<Longrightarrow> wait_stat_ok T (event_stat (OSEventType (OSEvents s e)))"
    and idle: "p = OS_TASK_IDLE_PRIO \<Longrightarrow> tcb_runnable T"
  shows "kinv s'"
proof (rule kinv_task_update [OF inv p prios tbl _ _ _ _ _ T _ _ idle])
  note p64 = task_prio_ok [OF inv p, THEN conjunct1]
  have waits': "waits s' e q = waits s e q" for e q by (simp add: waits_def ev)
  show "OSEventType (OSEvents s' e) = OSEventType (OSEvents s e)"
    and "bm_ok (event_map (OSEvents s' e))" and "waits s' e q = waits s e q" for e q
    using bm_ok_event [OF inv] by (simp_all add: ev waits_def)
  show "bm_ok (rdy_map s')" using rm bm_ok_rdy [OF inv] p64 bm_ok_ins bm_ok_del by metis
  show "rdy s' q = (if q = p then tcb_runnable T else rdy s q)" for q
    using rm rdyp p64 by (auto simp: rdy_def bm_mem_ins bm_mem_del)
  show "e \<noteq> NULL \<and> OSTCBEventPtr T = e \<and> event_stat (OSEventType (OSEvents s e)) \<noteq> 0 \<and>
      wait_stat_ok T (event_stat (OSEventType (OSEvents s e)))" if "waits s' e p" for e
    using waitsD [OF inv that [unfolded waits']] wst [OF that [unfolded waits']] unfolding ep by blast
  show "waits s' (OSTCBEventPtr T) p"
    if nz: "OSTCBStat T AND (OS_STAT_PEND_ANY AND NOT OS_STAT_FLAG) \<noteq> 0"
  proof -
    have "OSTCBStat T AND OS_STAT_PEND_ANY = OSTCBStat (task_at s p) AND OS_STAT_PEND_ANY"
      using pend nz stat_no_event by blast
    then have "OSTCBStat (task_at s p) AND (OS_STAT_PEND_ANY AND NOT OS_STAT_FLAG) \<noteq> 0"
      using nz by (metis and.assoc)
    then show ?thesis using inv p unfolding waits' ep by (simp add: kinv_def blocked_ok_def)
  qed
qed

text \<open>The running task starts to wait on an event.\<close>

lemma kinv_task_block:
  assumes inv: "kinv s" and p: "is_task s p"
    and prios: "OSTCBPrioTbl s' = OSTCBPrioTbl s"
    and tbl: "OSTCBTbl s' = (OSTCBTbl s)(OSTCBPrioTbl s p := T)"
    and ev: "OSEvents s' = (OSEvents s)(e := set_event_map (bm_ins p (event_map (OSEvents s e))) (OSEvents s e))"
    and rm: "rdy_map s' = bm_del p (rdy_map s)"
    and T: "tcb_prio_ok p T" "OSTCBEventMultiPtr T = None"
      "OSTCBStat T AND NOT (OS_STAT_PEND_ANY OR OS_STAT_SUSPEND) = 0"
    and ep: "OSTCBEventPtr T = e" "e \<noteq> NULL" "event_stat (OSEventType (OSEvents s e)) \<noteq> 0"
    and st: "OSTCBStat T AND OS_STAT_PEND_ANY = event_stat (OSEventType (OSEvents s e))"
    and nw: "\<And>e. \<not> waits s e p"
    and idle: "p \<noteq> OS_TASK_IDLE_PRIO"
  shows "kinv s'"
proof (rule kinv_task_update [OF inv p prios tbl _ _ _ _ _ T])
  note p64 = task_prio_ok [OF inv p, THEN conjunct1]
  have w: "waits s' e' q \<longleftrightarrow> waits s e' q \<or> (e' = e \<and> q = p)" for e' q
    using p64 by (auto simp: waits_def ev bm_mem_ins)
  show "OSEventType (OSEvents s' e') = OSEventType (OSEvents s e')"
    and "bm_ok (event_map (OSEvents s' e'))" for e'
    using bm_ok_event [OF inv] p64 by (simp_all add: ev bm_ok_ins)
  show "waits s' e' q = waits s e' q" if "q \<noteq> p" for e' q using w that by simp
  show "bm_ok (rdy_map s')" using bm_ok_rdy [OF inv] p64 by (simp add: rm bm_ok_del)
  have "\<not> tcb_runnable T" using st ep(3) stat_mask_or_zero unfolding tcb_runnable_def by metis
  then show "rdy s' q = (if q = p then tcb_runnable T else rdy s q)" for q
    using p64 by (simp add: rdy_def rm bm_mem_del)
  show "e' \<noteq> NULL \<and> OSTCBEventPtr T = e' \<and> event_stat (OSEventType (OSEvents s e')) \<noteq> 0 \<and>
      wait_stat_ok T (event_stat (OSEventType (OSEvents s e')))" if "waits s' e' p" for e'
    using that w nw ep st by (auto simp: wait_stat_ok_def)
  show "waits s' (OSTCBEventPtr T) p" using w ep(1) by simp
  show "tcb_runnable T" if "p = OS_TASK_IDLE_PRIO" using idle that by simp
qed

text \<open>A task that no longer waits leaves the wait list it may still be in.\<close>

lemma kinv_task_unwait:
  assumes inv: "kinv s" and p: "is_task s p"
    and prios: "OSTCBPrioTbl s' = OSTCBPrioTbl s"
    and tbl: "OSTCBTbl s' = (OSTCBTbl s)(OSTCBPrioTbl s p := T)"
    and types: "\<And>e. OSEventType (OSEvents s' e) = OSEventType (OSEvents s e)"
    and maps: "\<And>e. event_map (OSEvents s' e) = event_map (OSEvents s e) \<or>
      event_map (OSEvents s' e) = bm_del p (event_map (OSEvents s e))"
    and gone: "\<And>e. \<not> waits s' e p"
    and rm: "rdy_map s' = rdy_map s"
    and T: "tcb_prio_ok p T" "OSTCBEventMultiPtr T = None"
      "OSTCBStat T AND NOT (OS_STAT_PEND_ANY OR OS_STAT_SUSPEND) = 0"
    and st: "OSTCBStat T AND OS_STAT_PEND_ANY = 0" and run: "rdy s p = tcb_runnable T"
  shows "kinv s'"
proof (rule kinv_task_update [OF inv p prios tbl types _ _ _ _ T])
  note p64 = task_prio_ok [OF inv p, THEN conjunct1]
  show "bm_ok (event_map (OSEvents s' e))" for e
    using maps [of e] bm_ok_event [OF inv, of e] bm_ok_del [OF _ p64] by metis
  show "waits s' e q = waits s e q" if "q \<noteq> p" for e q
    using maps [of e] that p64 by (auto simp: waits_def bm_mem_del)
  show "bm_ok (rdy_map s')" using bm_ok_rdy [OF inv] by (simp add: rm)
  show "rdy s' q = (if q = p then tcb_runnable T else rdy s q)" for q
    using run by (simp add: rdy_def rm)
  show "e \<noteq> NULL \<and> OSTCBEventPtr T = e \<and> event_stat (OSEventType (OSEvents s e)) \<noteq> 0 \<and>
      wait_stat_ok T (event_stat (OSEventType (OSEvents s e)))" if "waits s' e p" for e
    using that gone by blast
  show "waits s' (OSTCBEventPtr T) p"
    if "OSTCBStat T AND (OS_STAT_PEND_ANY AND NOT OS_STAT_FLAG) \<noteq> 0"
    using that stat_mask_sub [OF st] by blast
  show "tcb_runnable T" if "p = OS_TASK_IDLE_PRIO" using that inv run by (simp add: kinv_def)
qed

end
