(* ===== verification/Scheduler.thy ===== *)
theory Scheduler
  imports OS_Inv
begin

text \<open>
  The scheduler keeps the kernel invariant and its promise: after \<open>OS_Sched\<close> or \<open>OSIntExit\<close>, with
  the scheduler unlocked and outside interrupts, the current task is the ready task with the
  highest priority.
\<close>

lemma OSIntExit_eq:
  "OSIntExit s = (if OSRunning s
     then OS_Sched (if OSIntNesting s > 0 then s\<lparr>OSIntNesting := OSIntNesting s - 1\<rparr> else s) else s)"
  by (simp add: OSIntExit_def OS_Sched_def Let_def)

lemma OS_Sched_off: "OSIntNesting s \<noteq> 0 \<or> OSLockNesting s \<noteq> 0 \<Longrightarrow> OS_Sched s = s"
  by (auto simp: OS_Sched_def)

lemma OS_Sched_frame [simp, os_frame]:
  "OSEvents (OS_Sched s) = OSEvents s"
  "OSEventFreeList (OS_Sched s) = OSEventFreeList s"
  "OSFlagTbl (OS_Sched s) = OSFlagTbl s"
  "OSFlagFreeList (OS_Sched s) = OSFlagFreeList s"
  "OSFlagNodes (OS_Sched s) = OSFlagNodes s"
  "OSIntNesting (OS_Sched s) = OSIntNesting s"
  "OSLockNesting (OS_Sched s) = OSLockNesting s"
  "OSRdyGrp (OS_Sched s) = OSRdyGrp s"
  "OSRdyTbl (OS_Sched s) = OSRdyTbl s"
  "OSRunning (OS_Sched s) = OSRunning s"
  "OSTaskCtr (OS_Sched s) = OSTaskCtr s"
  "OSIdleCtr (OS_Sched s) = OSIdleCtr s"
  "OSTCBFreeList (OS_Sched s) = OSTCBFreeList s"
  "OSTCBList (OS_Sched s) = OSTCBList s"
  "OSTCBPrioTbl (OS_Sched s) = OSTCBPrioTbl s"
  "OSMemFreeParts (OS_Sched s) = OSMemFreeParts s"
  "OSMemTbl (OS_Sched s) = OSMemTbl s"
  "OSQFreeList (OS_Sched s) = OSQFreeList s"
  "OSQTbl (OS_Sched s) = OSQTbl s"
  "OSTime (OS_Sched s) = OSTime s"
  "msg_cells (OS_Sched s) = msg_cells s"
  "blk_links (OS_Sched s) = blk_links s"
  "stk_words (OS_Sched s) = stk_words s"
  "rdy_map (OS_Sched s) = rdy_map s"
  by (simp_all add: OS_Sched_def OS_SchedNew_def PendSV_Handler_def Let_def rdy_map_def)

lemma OS_Sched_tcb: "OSTCBTbl (OS_Sched s) t = OSTCBTbl s t
    \<or> OSTCBTbl (OS_Sched s) t = OSTCBTbl s t\<lparr>OSTCBCtxSwCtr := OSTCBCtxSwCtr (OSTCBTbl s t) + 1\<rparr>"
  by (auto simp: OS_Sched_def OS_SchedNew_def PendSV_Handler_def Let_def)

lemma OS_Sched_same [simp]: "kernel_same (OS_Sched s) s"
proof -
  have "tcb_same (OSTCBTbl (OS_Sched s) t) (OSTCBTbl s t)" for t
    using OS_Sched_tcb [of s t] by (auto simp: tcb_same_def)
  then show ?thesis by (simp add: kernel_same_def)
qed

lemma kinv_Sched [simp]: "kinv (OS_Sched s) = kinv s"
  by (rule kinv_cong) simp

lemma OS_Sched_prio:
  "OSPrioCur (OS_Sched s) = (if OSIntNesting s = 0 \<and> OSLockNesting s = 0
     then bm_high (rdy_map s) else OSPrioCur s)"
  by (simp add: OS_Sched_def OS_SchedNew_def PendSV_Handler_def Let_def)

lemma cur_ok_Sched:
  assumes "kinv s" and "cur_ok s"
  shows "cur_ok (OS_Sched s)"
proof -
  have "is_task s (bm_high (rdy_map s))" using rdy_task [OF assms(1) rdy_high(1) [OF assms(1)]] .
  then have "is_task (OS_Sched s) (OSPrioCur (OS_Sched s))"
    using assms(2) by (simp add: OS_Sched_prio is_task_def cur_ok_def)
  moreover have "OSTCBCur (OS_Sched s) = OSTCBPrioTbl s (OSPrioCur (OS_Sched s))"
    using assms(2) by (simp add: cur_ok_def OS_Sched_def OS_SchedNew_def PendSV_Handler_def Let_def)
  ultimately show ?thesis by (simp add: cur_ok_def)
qed

lemma sched_ok_Sched:
  assumes "kinv s" and "cur_ok s"
  shows "sched_ok (OS_Sched s)"
  unfolding sched_ok_def
proof (intro impI conjI allI)
  assume "OSIntNesting (OS_Sched s) = 0 \<and> OSLockNesting (OS_Sched s) = 0"
  then have on: "OSPrioCur (OS_Sched s) = bm_high (rdy_map s)" by (simp add: OS_Sched_prio)
  show "cur_ok (OS_Sched s)" using assms by (rule cur_ok_Sched)
  show "rdy (OS_Sched s) (OSPrioCur (OS_Sched s))"
    unfolding kernel_same_simps [OF OS_Sched_same] on by (rule rdy_high(1) [OF assms(1)])
  fix p assume "rdy (OS_Sched s) p"
  then show "OSPrioCur (OS_Sched s) \<le> p"
    unfolding kernel_same_simps [OF OS_Sched_same] on by (rule rdy_high(2) [OF assms(1)])
qed

lemma kernel_same_upd [simp]:
  "kernel_same (s\<lparr>OSIntNesting := n\<rparr>) s"
  "kernel_same (s\<lparr>OSLockNesting := n\<rparr>) s"
  "kernel_same (s\<lparr>OSTime := t\<rparr>) s"
  by (simp_all add: kernel_same_def rdy_map_def)

end
