(* ===== verification/Linked_List.thy ===== *)
theory Linked_List
  imports Prelude
begin

text \<open>
  Doubly linked lists, null at both ends: the list of task control blocks, the wait lists of event
  flag groups and the spokes of the timer wheel.  The links of a list are two functions from
  addresses to addresses, whatever record they are fields of; the kernel's two operations are
  unlinking a node and linking a node in front.
\<close>

primrec dll :: "(ptr \<Rightarrow> ptr) \<Rightarrow> (ptr \<Rightarrow> ptr) \<Rightarrow> ptr \<Rightarrow> ptr \<Rightarrow> ptr list \<Rightarrow> bool" where
  "dll nx pv pr p [] \<longleftrightarrow> p = 0"
| "dll nx pv pr p (n # ns) \<longleftrightarrow> p = n \<and> n \<noteq> 0 \<and> pv n = pr \<and> dll nx pv n (nx n) ns"

lemma dll_cong:
  "(\<And>x. x \<in> set ns \<Longrightarrow> nx x = nx' x \<and> pv x = pv' x) \<Longrightarrow> dll nx pv pr p ns = dll nx' pv' pr p ns"
  by (induction ns arbitrary: pr p) auto

lemma dll_nonzero: "dll nx pv pr p ns \<Longrightarrow> 0 \<notin> set ns"
  by (induction ns arbitrary: pr p) auto

lemma dll_hd: "dll nx pv pr p ns \<Longrightarrow> p = (if ns = [] then 0 else hd ns)"
  by (cases ns) auto

lemma dll_null [simp]: "dll nx pv pr 0 ns \<longleftrightarrow> ns = []"
  by (cases ns) auto

text \<open>The links around a node in the list.\<close>

lemma dll_links:
  "dll nx pv pr p (as @ n # bs) \<Longrightarrow> pv n = (if as = [] then pr else last as)
     \<and> nx n = (if bs = [] then 0 else hd bs) \<and> n \<noteq> 0"
proof (induction as arbitrary: pr p)
  case Nil
  then show ?case using dll_hd [of nx pv n _ bs] by auto
next
  case (Cons a as)
  then show ?case using Cons.IH [of a "nx a"] by auto
qed

lemma dll_suffix: "dll nx pv pr p (as @ n # bs) \<Longrightarrow> dll nx pv n (nx n) bs"
  by (induction as arbitrary: pr p) auto

subsection \<open>Unlinking\<close>

definition next_unlink :: "(ptr \<Rightarrow> ptr) \<Rightarrow> (ptr \<Rightarrow> ptr) \<Rightarrow> ptr \<Rightarrow> (ptr \<Rightarrow> ptr)" where
  "next_unlink nx pv n = (if pv n = 0 then nx else nx(pv n := nx n))"

definition prev_unlink :: "(ptr \<Rightarrow> ptr) \<Rightarrow> (ptr \<Rightarrow> ptr) \<Rightarrow> ptr \<Rightarrow> (ptr \<Rightarrow> ptr)" where
  "prev_unlink nx pv n = (if nx n = 0 then pv else pv(nx n := pv n))"

lemma unlink_front:
  assumes "dll nx pv pr p (n # bs)" and "distinct (n # bs)" and "pr \<notin> set (n # bs)"
  shows "dll (next_unlink nx pv n) (prev_unlink nx pv n) pr (nx n) bs"
proof (cases bs)
  case Nil
  with assms(1) show ?thesis by simp
next
  case (Cons b bs')
  have nx: "nx n = b" and b: "b \<noteq> 0" and prn: "pv n = pr"
    using assms(1) by (auto simp: Cons)
  have "dll nx pv b (nx b) bs'" using assms(1) by (auto simp: Cons)
  moreover have "dll (next_unlink nx pv n) (prev_unlink nx pv n) b (nx b) bs' = dll nx pv b (nx b) bs'"
    using assms(2,3) by (intro dll_cong) (auto simp: next_unlink_def prev_unlink_def nx prn Cons)
  moreover have "prev_unlink nx pv n b = pr" "next_unlink nx pv n b = nx b"
    using assms(3) b by (auto simp: next_unlink_def prev_unlink_def nx prn Cons)
  ultimately show ?thesis using nx b by (simp add: Cons)
qed

lemma unlink_inner:
  assumes "dll nx pv pr p (as @ n # bs)" and "distinct (as @ n # bs)" and "pr \<notin> set (as @ n # bs)" and "as \<noteq> []"
  shows "dll (next_unlink nx pv n) (prev_unlink nx pv n) pr p (as @ bs)"
  using assms
proof (induction as arbitrary: pr p)
  case (Cons a as)
  have a: "p = a" "a \<noteq> 0" "pv a = pr" and d: "dll nx pv a (nx a) (as @ n # bs)"
    using Cons.prems(1) by auto
  note L = dll_links [OF d]
  show ?case
  proof (cases "as = []")
    case True
    have nx: "nx a = n" and prn: "pv n = a" using d True by auto
    have "dll (next_unlink nx pv n) (prev_unlink nx pv n) a (nx n) bs"
      using d Cons.prems(2) True by (intro unlink_front) auto
    moreover have "next_unlink nx pv n a = nx n" and "prev_unlink nx pv n a = pr"
      using Cons.prems(2) a L prn by (auto simp: next_unlink_def prev_unlink_def True split: if_splits)
    ultimately show ?thesis using a True by simp
  next
    case False
    have "dll (next_unlink nx pv n) (prev_unlink nx pv n) a (nx a) (as @ bs)"
      using Cons.prems(2) False d by (intro Cons.IH) auto
    moreover have "next_unlink nx pv n a = nx a" "prev_unlink nx pv n a = pv a"
      using Cons.prems(2) a L False by (auto simp: next_unlink_def prev_unlink_def split: if_splits)
    ultimately show ?thesis using a False by simp
  qed
qed simp

text \<open>Unlinking a node leaves the list without it; the head moves when the node was the head.\<close>

lemma dll_unlink:
  assumes dl: "dll nx pv 0 p (as @ n # bs)" and dist: "distinct (as @ n # bs)"
  shows "dll (next_unlink nx pv n) (prev_unlink nx pv n) 0 (if pv n = 0 then nx n else p) (as @ bs)"
proof -
  note L = dll_links [OF dl]
  have nz: "0 \<notin> set (as @ n # bs)" by (rule dll_nonzero [OF dl])
  show ?thesis
  proof (cases "as = []")
    case True
    then show ?thesis using unlink_front [of nx pv 0 _ n bs] dl dist nz L by simp
  next
    case False
    then have "last as \<noteq> 0" using nz by (metis UnCI last_in_set set_append)
    then show ?thesis using unlink_inner [OF dl dist nz False] L False by simp
  qed
qed

lemma unlink_self:
  assumes "dll nx pv 0 p (as @ n # bs)" and "distinct (as @ n # bs)"
  shows "pv n \<noteq> n" and "nx n \<noteq> n"
proof -
  note L = dll_links [OF assms(1)]
  show "pv n \<noteq> n" using L assms(2) by (cases as rule: rev_cases) auto
  show "nx n \<noteq> n" using L assms(2) by (cases bs) auto
qed

subsection \<open>Linking in front\<close>

lemma dll_push:
  assumes "dll nx pv 0 p ns" and "n \<noteq> 0" and "n \<notin> set ns" and "distinct ns"
    and "nx' n = p" and "pv' n = 0" and "\<And>x. x \<in> set ns \<Longrightarrow> nx' x = nx x"
    and "\<And>x. x \<in> set ns \<Longrightarrow> pv' x = (if x = p then n else pv x)"
  shows "dll nx' pv' 0 n (n # ns)"
proof (cases ns)
  case Nil
  then show ?thesis using assms by simp
next
  case (Cons m ms)
  then have m: "p = m" "m \<noteq> 0" "m \<noteq> n" "m \<notin> set ms" using assms by auto
  have "dll nx pv m (nx m) ms" using assms(1) Cons by simp
  moreover have "dll nx' pv' m (nx m) ms = dll nx pv m (nx m) ms"
    using m assms(7,8) Cons by (intro dll_cong) auto
  ultimately show ?thesis using m assms Cons by simp
qed

end
