(* ===== verification/Event_Wait.thy ===== *)
theory Event_Wait
  imports Scheduler
begin

text \<open>
  What semaphores, mailboxes, queues and mutexes share: the code that blocks the running task on
  an event and the code it runs when it is scheduled again, waking one or all waiters, taking an
  event control block from the free list and giving it back.
\<close>

subsection \<open>Blocking and resuming\<close>

text \<open>
  The block every pend service has before its call of \<open>OS_Sched\<close>, with the status bit of the
  event's type, and the block it ends with.
\<close>

definition event_block :: "INT8U \<Rightarrow> ptr \<Rightarrow> INT32U \<Rightarrow> os_state \<Rightarrow> os_state" where
  "event_block stat pevent timeout s =
     (let s1 = upd_tcb (OSTCBCur s) (\<lambda>t. t\<lparr>OSTCBStat := OSTCBStat t OR stat,
                 OSTCBStatPend := OS_STAT_PEND_OK, OSTCBDly := timeout\<rparr>) s
      in OS_EventTaskWait pevent s1)"

definition event_unblock :: "os_state \<Rightarrow> os_state" where
  "event_unblock s =
     upd_tcb (OSTCBCur s) (\<lambda>t. t\<lparr>OSTCBStat := OS_STAT_RDY, OSTCBStatPend := OS_STAT_PEND_OK,
       OSTCBEventPtr := NULL, OSTCBEventMultiPtr := None\<rparr>) s"

lemma event_block_eq:
  assumes "tcb_prio_ok p (OSTCBTbl s (OSTCBCur s))"
  shows "event_block b e timeout s =
    set_rdy_map (bm_del p (rdy_map s))
      (upd_event e (\<lambda>ev. set_event_map (bm_ins p (event_map ev)) ev)
      (upd_tcb (OSTCBCur s) (\<lambda>t. t\<lparr>OSTCBStat := OSTCBStat t OR b,
         OSTCBStatPend := OS_STAT_PEND_OK, OSTCBDly := timeout, OSTCBEventPtr := e\<rparr>) s))"
  using assms
  by (simp add: event_block_def OS_EventTaskWait_def event_wait_set_def tcb_unrdy_def Let_def
      tcb_prio_ok_def bm_ins_def bm_del_def upd_tcb_def upd_event_def set_rdy_map_def rdy_map_def)

lemma stat_or_mask:
  "x AND NOT k = 0 \<Longrightarrow> y AND NOT k = 0 \<Longrightarrow> (x OR y) AND NOT k = (0::8 word)"
  by (simp add: bit.conj_disj_distrib2)

lemma event_stat_mask: "event_stat ty AND NOT (OS_STAT_PEND_ANY OR OS_STAT_SUSPEND) = 0"
  and event_stat_pend: "event_stat ty AND OS_STAT_PEND_ANY = event_stat ty"
  by (simp_all add: event_stat_def)

lemma kinv_event_block:
  assumes inv: "kinv s" and cur: "cur_ok s" and ready: "rdy s (OSPrioCur s)"
    and ty: "event_stat (OSEventType (OSEvents s e)) = b" "b \<noteq> 0" and e: "e \<noteq> NULL"
    and nw: "\<And>e. \<not> waits s e (OSPrioCur s)" and idle: "OSPrioCur s \<noteq> OS_TASK_IDLE_PRIO"
  shows "kinv (event_block b e timeout s)"
proof -
  let ?p = "OSPrioCur s"
  have task: "is_task s ?p" and cp: "OSTCBCur s = OSTCBPrioTbl s ?p"
    using cur by (auto simp: cur_ok_def)
  note ok = task_prio_ok [OF inv task, unfolded task_at_def, folded cp, THEN conjunct2]
  note eq = event_block_eq [OF ok]
  let ?T = "(task_at s ?p)\<lparr>OSTCBStat := OSTCBStat (task_at s ?p) OR b,
         OSTCBStatPend := OS_STAT_PEND_OK, OSTCBDly := timeout, OSTCBEventPtr := e\<rparr>"
  have st: "OSTCBStat (task_at s ?p) AND (OS_STAT_PEND_ANY OR OS_STAT_SUSPEND) = 0"
    using ready rdy_iff [OF inv] by (simp add: tcb_runnable_def)
  have mask: "OSTCBStat (task_at s ?p) AND NOT (OS_STAT_PEND_ANY OR OS_STAT_SUSPEND) = 0"
    and multi: "OSTCBEventMultiPtr (task_at s ?p) = None"
    using inv task by (simp_all add: kinv_def tcbs_ok_def)
  show ?thesis
  proof (rule kinv_task_block [OF inv task, where T = ?T and e = e])
    show "OSTCBStat ?T AND NOT (OS_STAT_PEND_ANY OR OS_STAT_SUSPEND) = 0"
      using stat_or_mask [OF mask event_stat_mask, of "OSEventType (OSEvents s e)"] ty(1) by simp
    have "(OSTCBStat (task_at s ?p) OR b) AND OS_STAT_PEND_ANY
        = OSTCBStat (task_at s ?p) AND OS_STAT_PEND_ANY OR b AND OS_STAT_PEND_ANY"
      by (rule bit.conj_disj_distrib2)
    also have "\<dots> = b" using stat_mask_or_zero [OF st] ty(1) event_stat_pend by auto
    finally show "OSTCBStat ?T AND OS_STAT_PEND_ANY = event_stat (OSEventType (OSEvents s e))"
      using ty(1) by simp
    show "tcb_prio_ok ?p ?T" using task_prio_ok [OF inv task] by (simp add: tcb_prio_ok_def)
  qed (use ty e nw idle multi in \<open>simp_all add: eq cp task_at_def\<close>)
qed

lemma kinv_event_unblock:
  assumes inv: "kinv s" and cur: "cur_ok s" and ready: "rdy s (OSPrioCur s)"
    and nw: "\<And>e. \<not> waits s e (OSPrioCur s)"
  shows "kinv (event_unblock s)"
proof -
  let ?p = "OSPrioCur s"
  have task: "is_task s ?p" and cp: "OSTCBCur s = OSTCBPrioTbl s ?p"
    using cur by (auto simp: cur_ok_def)
  have "OSTCBDly (task_at s ?p) = 0"
    using ready rdy_iff [OF inv] by (simp add: tcb_runnable_def)
  with ready task_prio_ok [OF inv task] nw show ?thesis
    by (intro kinv_task_unwait [OF inv task, where T = "(task_at s ?p)\<lparr>OSTCBStat := OS_STAT_RDY,
          OSTCBStatPend := OS_STAT_PEND_OK, OSTCBEventPtr := NULL, OSTCBEventMultiPtr := None\<rparr>"])
      (simp_all add: event_unblock_def cp task_at_def tcb_prio_ok_def tcb_runnable_def waits_def)
qed

lemma kinv_EventTaskRemove:
  assumes inv: "kinv s" and p: "is_task s p"
    and to: "OSTCBStat (task_at s p) AND OS_STAT_PEND_ANY = 0"
  shows "kinv (OS_EventTaskRemove (OSTCBPrioTbl s p) e s)"
    and "waits (OS_EventTaskRemove (OSTCBPrioTbl s p) e s) e' q \<longleftrightarrow> waits s e' q \<and> (e' = e \<longrightarrow> q \<noteq> p)"
proof -
  note p64 = task_prio_ok [OF inv p, THEN conjunct1]
  have eq: "OS_EventTaskRemove (OSTCBPrioTbl s p) e s
      = upd_event e (\<lambda>ev. set_event_map (bm_del p (event_map ev)) ev) s"
    using task_prio_ok [OF inv p] by (intro OS_EventTaskRemove_eq) (simp add: task_at_def)
  show w: "waits (OS_EventTaskRemove (OSTCBPrioTbl s p) e s) e' q \<longleftrightarrow> waits s e' q \<and> (e' = e \<longrightarrow> q \<noteq> p)"
    for e' q using p64 by (auto simp: eq waits_def bm_mem_del)
  have T: "tcb_prio_ok p (task_at s p)" "OSTCBEventMultiPtr (task_at s p) = None"
    "OSTCBStat (task_at s p) AND NOT (OS_STAT_PEND_ANY OR OS_STAT_SUSPEND) = 0"
    using inv p by (simp_all add: kinv_def tcbs_ok_def)
  show "kinv (OS_EventTaskRemove (OSTCBPrioTbl s p) e s)"
  proof (rule kinv_task_update [OF inv p _ _ _ _ _ _ _ T])
    show "e' \<noteq> NULL \<and> OSTCBEventPtr (task_at s p) = e' \<and> event_stat (OSEventType (OSEvents s e')) \<noteq> 0 \<and>
        wait_stat_ok (task_at s p) (event_stat (OSEventType (OSEvents s e')))"
      if "waits (OS_EventTaskRemove (OSTCBPrioTbl s p) e s) e' p" for e'
    proof -
      have "waits s e' p" using that unfolding w by (rule conjunct1)
      from waitsD [OF inv this] show ?thesis by blast
    qed
    show "waits (OS_EventTaskRemove (OSTCBPrioTbl s p) e s) (OSTCBEventPtr (task_at s p)) p"
      if "OSTCBStat (task_at s p) AND (OS_STAT_PEND_ANY AND NOT OS_STAT_FLAG) \<noteq> 0"
      using that stat_mask_sub [OF to] by blast
    show "tcb_runnable (task_at s p)" if "p = OS_TASK_IDLE_PRIO"
      using that inv rdy_iff [OF inv, of p] by (simp add: kinv_def)
    show "waits (OS_EventTaskRemove (OSTCBPrioTbl s p) e s) e' q = waits s e' q" if "q \<noteq> p" for e' q
      using that w by simp
    show "rdy (OS_EventTaskRemove (OSTCBPrioTbl s p) e s) q
        = (if q = p then tcb_runnable (task_at s p) else rdy s q)" for q
      using rdy_iff [OF inv, of p] p by (simp add: eq rdy_def)
    show "bm_ok (event_map (OSEvents (OS_EventTaskRemove (OSTCBPrioTbl s p) e s) e'))" for e'
      using bm_ok_event [OF inv] p64 by (simp add: eq bm_ok_del)
    show "bm_ok (rdy_map (OS_EventTaskRemove (OSTCBPrioTbl s p) e s))"
      using bm_ok_rdy [OF inv] by (simp add: eq)
  qed (simp_all add: eq task_at_def)
qed

subsection \<open>Waking every waiter\<close>

definition wake :: "ptr \<Rightarrow> INT8U \<Rightarrow> INT8U \<Rightarrow> OS_TCB \<Rightarrow> OS_TCB" where
  "wake m msk st t = t\<lparr>OSTCBDly := 0, OSTCBMsg := m, OSTCBStat := OSTCBStat t AND NOT msk, OSTCBStatPend := st\<rparr>"

definition waiters :: "os_state \<Rightarrow> ptr \<Rightarrow> nat set" where
  "waiters s e = {p. waits s e p}"

lemma finite_waiters: "kinv s \<Longrightarrow> finite (waiters s e)"
  using bm.finite_mem [OF bm_ok_event] by (simp add: waiters_def waits_def)

lemma event_map_no_waiters:
  assumes "kinv s" and "waiters s e = {}"
  shows "event_map (OSEvents s e) = bm_empty"
proof -
  have ok: "bm_ok (event_map (OSEvents s e))" by (rule bm_ok_event [OF assms(1)])
  have "snd (event_map (OSEvents s e)) y = 0" for y
  proof (rule ccontr)
    assume "snd (event_map (OSEvents s e)) y \<noteq> 0"
    then obtain x where x: "bit (snd (event_map (OSEvents s e)) y) x"
      unfolding word_neq_0_bit by blast
    with bit_word8_less [OF x] have "waits s e (8 * y + x)" by (simp add: waits_def bm_mem_def)
    with assms(2) show False by (auto simp: waiters_def)
  qed
  then have 1: "snd (event_map (OSEvents s e)) = (\<lambda>_. 0)" by auto
  have "fst (event_map (OSEvents s e)) = 0"
    using assms event_grp_iff [OF assms(1), of e] by (simp add: waiters_def)
  with 1 show ?thesis by (simp add: bm_empty_def prod_eq_iff)
qed

lemma waiters_EventTaskRdy:
  assumes inv: "kinv s" and grp: "OSEventGrp (OSEvents s e) \<noteq> 0"
  shows "waiters (snd (OS_EventTaskRdy e m msk st s)) e
       = waiters s e - {bm_high (event_map (OSEvents s e))}"
    and "bm_high (event_map (OSEvents s e)) \<in> waiters s e"
proof -
  have w: "waits s e (bm_high (event_map (OSEvents s e)))" by (rule waits_high(1) [OF inv grp])
  then show "bm_high (event_map (OSEvents s e)) \<in> waiters s e" by (simp add: waiters_def)
  show "waiters (snd (OS_EventTaskRdy e m msk st s)) e
       = waiters s e - {bm_high (event_map (OSEvents s e))}"
    using waitsD(3) [OF inv w]
    by (auto simp: OS_EventTaskRdy_eq [OF inv grp refl] waiters_def waits_def bm_mem_del)
qed

definition wake_all :: "ptr \<Rightarrow> ptr \<Rightarrow> INT8U \<Rightarrow> INT8U \<Rightarrow> prio_map \<Rightarrow> os_state \<Rightarrow> os_state" where
  "wake_all e m msk st r s =
     s\<lparr>OSTCBTbl := (\<lambda>t. if t \<in> OSTCBPrioTbl s ` waiters s e then wake m msk st (OSTCBTbl s t) else OSTCBTbl s t),
       OSEvents := (OSEvents s)(e := set_event_map bm_empty (OSEvents s e)),
       OSRdyGrp := fst r, OSRdyTbl := snd r\<rparr>"

lemma wake_all_none:
  assumes "kinv s" and "waiters s e = {}"
  shows "wake_all e m msk st (rdy_map s) s = s"
proof -
  have "set_event_map bm_empty (OSEvents s e) = OSEvents s e"
    using event_map_no_waiters [OF assms] by (simp add: set_event_map_def event_map_def bm_empty_def)
  with assms(2) show ?thesis by (simp add: wake_all_def rdy_map_def)
qed

lemma wake_all_step:
  assumes inv: "kinv s" and grp: "OSEventGrp (OSEvents s e) \<noteq> 0"
  shows "wake_all e m msk st r (snd (OS_EventTaskRdy e m msk st s)) = wake_all e m msk st r s"
proof -
  let ?h = "bm_high (event_map (OSEvents s e))"
  let ?s1 = "snd (OS_EventTaskRdy e m msk st s)"
  note eq = OS_EventTaskRdy_eq [OF inv grp refl]
  note W = waiters_EventTaskRdy(1) [OF inv grp, where m = m and msk = msk and st = st] waiters_EventTaskRdy(2) [OF inv grp]
  have prios: "OSTCBPrioTbl ?s1 = OSTCBPrioTbl s" by (simp add: eq)
  have tbl: "OSTCBTbl ?s1 t = (if t = OSTCBPrioTbl s ?h then wake m msk st (OSTCBTbl s t) else OSTCBTbl s t)" for t
    by (simp add: eq wake_def)
  have "is_task s q" if "q \<in> waiters s e" for q
    using waitsD(1) [OF inv] that by (simp add: waiters_def)
  then have h: "OSTCBPrioTbl s ?h \<notin> OSTCBPrioTbl s ` waiters ?s1 e"
    using task_inj [OF inv] W(2) unfolding W(1) by blast
  have "OSTCBPrioTbl s ` waiters s e = insert (OSTCBPrioTbl s ?h) (OSTCBPrioTbl s ` waiters ?s1 e)"
    using W(2) unfolding W(1) by blast
  then have "(if t \<in> OSTCBPrioTbl ?s1 ` waiters ?s1 e then wake m msk st (OSTCBTbl ?s1 t) else OSTCBTbl ?s1 t)
      = (if t \<in> OSTCBPrioTbl s ` waiters s e then wake m msk st (OSTCBTbl s t) else OSTCBTbl s t)" for t
    using h by (cases "t = OSTCBPrioTbl s ?h") (simp_all add: prios tbl)
  moreover have "(OSEvents ?s1)(e := set_event_map bm_empty (OSEvents ?s1 e))
      = (OSEvents s)(e := set_event_map bm_empty (OSEvents s e))"
    by (simp add: eq set_event_map_def)
  ultimately show ?thesis
    unfolding wake_all_def
    by (simp add: eq upd_tcb_def upd_event_def set_rdy_map_def)
qed

lemma OS_EventTaskRdyAll_spec:
  assumes "kinv s" and "msk = event_stat (OSEventType (OSEvents s e))"
  shows "\<exists>r. OS_EventTaskRdyAll e m msk st n s = Some (n + of_nat (card (waiters s e)), wake_all e m msk st r s)
      \<and> kinv (wake_all e m msk st r s)"
  using assms
proof (induction "card (waiters s e)" arbitrary: s n)
  case 0
  then have W: "waiters s e = {}" using finite_waiters by simp
  then have "OSEventGrp (OSEvents s e) = 0"
    using event_grp_iff [OF 0(2), of e] by (simp add: waiters_def)
  with 0 W show ?case
    by (intro exI [of _ "rdy_map s"]) (simp add: OS_EventTaskRdyAll.simps wake_all_none)
next
  case (Suc k)
  let ?s1 = "snd (OS_EventTaskRdy e m msk st s)"
  have grp: "OSEventGrp (OSEvents s e) \<noteq> 0"
    using event_grp_iff [OF Suc(3), of e] Suc(2) by (auto simp: waiters_def)
  note W = waiters_EventTaskRdy(1) [OF Suc(3) grp, where m = m and msk = msk and st = st] waiters_EventTaskRdy(2) [OF Suc(3) grp]
  have k: "k = card (waiters ?s1 e)"
    using Suc(2) W finite_waiters [OF Suc(3), of e] by (simp add: card_Diff_singleton)
  have "kinv ?s1" by (rule kinv_EventTaskRdy [OF Suc(3) grp Suc(4)])
  moreover have "msk = event_stat (OSEventType (OSEvents ?s1 e))"
    using Suc(4) by (simp add: OS_EventTaskRdy_eq [OF Suc(3) grp refl])
  ultimately obtain r where
    "OS_EventTaskRdyAll e m msk st (n + 1) ?s1
       = Some (n + 1 + of_nat (card (waiters ?s1 e)), wake_all e m msk st r ?s1)"
    and "kinv (wake_all e m msk st r ?s1)"
    using Suc(1) [OF k] by blast
  then show ?case
    using grp Suc(2) k unfolding wake_all_step [OF Suc(3) grp]
    by (intro exI [of _ r]) (simp add: OS_EventTaskRdyAll.simps flip: Suc(2))
qed

subsection \<open>Event control blocks\<close>

lemma kinv_event_change:
  assumes inv: "kinv s" and W: "waiters s e = {}"
    and prios: "OSTCBPrioTbl s' = OSTCBPrioTbl s" and rm: "rdy_map s' = rdy_map s"
    and tcbs: "OSTCBTbl s' = OSTCBTbl s"
    and other: "\<And>e'. e' \<noteq> e \<Longrightarrow> OSEvents s' e' = OSEvents s e'"
    and emp': "event_map (OSEvents s' e) = bm_empty"
  shows "kinv s'"
proof -
  have 1: "is_task s' p = is_task s p" "task_at s' p = task_at s p" "rdy s' p = rdy s p" for p
    by (simp_all add: is_task_def task_at_def rdy_def prios tcbs rm)
  have emp: "event_map (OSEvents s e) = bm_empty" by (rule event_map_no_waiters [OF inv W])
  have m: "event_map (OSEvents s' e') = event_map (OSEvents s e')" for e'
    using other [of e'] emp' emp by (cases "e' = e") simp_all
  have w: "waits s' e' p = waits s e' p" for e' p by (simp add: waits_def m)
  have "wait_ok s'"
    unfolding wait_ok_def w 1
  proof (intro allI conjI impI)
    fix e' p
    show "bm_ok (event_map (OSEvents s' e'))" unfolding m by (rule bm_ok_event [OF inv])
    assume wp: "waits s e' p"
    then have "e' \<noteq> e" using W by (auto simp: waiters_def)
    note * = waitsD [OF inv wp] other [OF this]
    then show "e' \<noteq> NULL" and "is_task s p" and "OSTCBEventPtr (task_at s p) = e'"
      and "event_stat (OSEventType (OSEvents s' e')) \<noteq> 0"
      and "wait_stat_ok (task_at s p) (event_stat (OSEventType (OSEvents s' e')))"
      by simp_all
  qed
  with inv show ?thesis
    unfolding kinv_def tcbs_ok_def rdy_ok_def blocked_ok_def w 1 rm by blast
qed

definition free_events :: "os_state \<Rightarrow> ptr list \<Rightarrow> bool" where
  "free_events s xs \<longleftrightarrow> path (\<lambda>e. OSEventPtr (OSEvents s e)) (OSEventFreeList s) xs \<and> distinct xs
     \<and> (\<forall>e\<in>set xs. OSEventType (OSEvents s e) = OS_EVENT_TYPE_UNUSED)"

interpretation evfree: free_list free_events event_alloc event_free "\<lambda>_. True"
proof (unfold_locales, goal_cases)
  case (1 s xs ys)
  then show ?case by (auto simp: free_events_def dest: path_unique)
next
  case (2 s xs)
  then show ?case by (simp add: free_events_def)
next
  case (3 s xs)
  then show ?case by (auto simp: free_events_def dest: path_nonzero)
next
  case (4 s)
  then show ?case by (simp add: free_events_def event_alloc_def)
next
  case (5 s x xs)
  then show ?case by (auto simp: free_events_def event_alloc_def Let_def)
next
  case (6 s xs x)
  then have "path (\<lambda>e. OSEventPtr (OSEvents (event_free x s) e)) (OSEventFreeList s) xs
      = path (\<lambda>e. OSEventPtr (OSEvents s e)) (OSEventFreeList s) xs"
    by (intro path_cong) (auto simp: event_free_def)
  with 6 show ?case by (auto simp: free_events_def event_free_def)
qed

definition events_ok :: "os_state \<Rightarrow> bool" where
  "events_ok s \<longleftrightarrow> (\<exists>xs. free_events s xs)"

text \<open>Writes to the events in use leave the free list alone.\<close>

lemma free_events_cong:
  assumes "OSEventFreeList s' = OSEventFreeList s"
    and "\<And>e. OSEventType (OSEvents s e) = OS_EVENT_TYPE_UNUSED \<Longrightarrow>
      OSEventPtr (OSEvents s' e) = OSEventPtr (OSEvents s e) \<and> OSEventType (OSEvents s' e) = OS_EVENT_TYPE_UNUSED"
    and "free_events s xs"
  shows "free_events s' xs"
proof -
  have "path (\<lambda>e. OSEventPtr (OSEvents s' e)) (OSEventFreeList s) xs
      = path (\<lambda>e. OSEventPtr (OSEvents s e)) (OSEventFreeList s) xs"
    using assms by (intro path_cong) (auto simp: free_events_def)
  with assms show ?thesis by (simp add: free_events_def)
qed

lemma events_ok_cong:
  assumes "OSEventFreeList s' = OSEventFreeList s"
    and "\<And>e. OSEventType (OSEvents s e) = OS_EVENT_TYPE_UNUSED \<Longrightarrow>
      OSEventPtr (OSEvents s' e) = OSEventPtr (OSEvents s e) \<and> OSEventType (OSEvents s' e) = OS_EVENT_TYPE_UNUSED"
    and "events_ok s"
  shows "events_ok s'"
  using assms free_events_cong unfolding events_ok_def by blast

subsection \<open>The kernel between two services\<close>

text \<open>
  The invariant of the running kernel: data structures, current task and free events; and, when no
  service is in the middle of its work, the scheduler's promise.
\<close>

definition data_ok :: "os_state \<Rightarrow> bool" where
  "data_ok s \<longleftrightarrow> kinv s \<and> cur_ok s \<and> events_ok s"

definition kernel_ok :: "os_state \<Rightarrow> bool" where
  "kernel_ok s \<longleftrightarrow> data_ok s \<and> sched_ok s"

lemma data_okD:
  assumes "data_ok s"
  shows "kinv s" and "cur_ok s" and "events_ok s"
  using assms by (simp_all add: data_ok_def)

lemma kernel_okD:
  assumes "kernel_ok s"
  shows "data_ok s" and "kinv s" and "cur_ok s" and "sched_ok s" and "events_ok s"
  using assms by (simp_all add: kernel_ok_def data_ok_def)

lemma events_ok_Sched [simp]: "events_ok (OS_Sched s) = events_ok s"
  by (simp add: events_ok_def free_events_def)

lemma kernel_ok_Sched: "data_ok s \<Longrightarrow> kernel_ok (OS_Sched s)"
  by (simp add: kernel_ok_def data_ok_def cur_ok_Sched sched_ok_Sched)

lemma cur_ok_cong:
  "OSTCBCur s' = OSTCBCur s \<Longrightarrow> OSPrioCur s' = OSPrioCur s \<Longrightarrow> OSTCBPrioTbl s' = OSTCBPrioTbl s
     \<Longrightarrow> cur_ok s' = cur_ok s"
  by (simp add: cur_ok_def is_task_def)

lemma data_ok_cong:
  assumes "data_ok s" and "kernel_same s' s" and "events_ok s'"
    and "OSTCBCur s' = OSTCBCur s" and "OSPrioCur s' = OSPrioCur s"
  shows "data_ok s'"
proof -
  have "OSTCBPrioTbl s' = OSTCBPrioTbl s" using assms(2) by (simp add: kernel_same_def)
  then show ?thesis
    using assms cur_ok_cong [of s' s] kinv_cong [OF assms(2)] by (simp add: data_ok_def)
qed

lemma sched_ok_cong:
  assumes "OSTCBPrioTbl s' = OSTCBPrioTbl s" and "rdy_map s' = rdy_map s"
    and "OSTCBCur s' = OSTCBCur s" and "OSPrioCur s' = OSPrioCur s"
    and "OSIntNesting s' = OSIntNesting s" and "OSLockNesting s' = OSLockNesting s"
  shows "sched_ok s' = sched_ok s"
proof -
  have "cur_ok s' = cur_ok s" using assms by (intro cur_ok_cong)
  then show ?thesis
    unfolding sched_ok_def rdy_def assms by simp
qed

lemma kernel_ok_cong:
  assumes "kernel_ok s" and "kernel_same s' s" and "events_ok s'"
    and "OSTCBCur s' = OSTCBCur s" and "OSPrioCur s' = OSPrioCur s"
    and "OSIntNesting s' = OSIntNesting s" and "OSLockNesting s' = OSLockNesting s"
  shows "kernel_ok s'"
  using assms data_ok_cong [of s s'] sched_ok_cong [of s' s]
  by (simp add: kernel_ok_def kernel_same_def)

text \<open>Changing the contents of an event in use (its count, pointer or name).\<close>

lemma kernel_ok_upd_event:
  assumes "kernel_ok s" and "OSEventType (OSEvents s e) \<noteq> OS_EVENT_TYPE_UNUSED"
    and "event_map (f (OSEvents s e)) = event_map (OSEvents s e)"
    and "OSEventType (f (OSEvents s e)) = OSEventType (OSEvents s e)"
  shows "kernel_ok (upd_event e f s)"
proof (rule kernel_ok_cong [OF assms(1)])
  show "kernel_same (upd_event e f s) s" using assms(3,4) by (simp add: kernel_same_def)
  show "events_ok (upd_event e f s)"
    using assms by (intro events_ok_cong [OF _ _ kernel_okD(5)]) auto
qed simp_all

lemma data_ok_EventTaskRdy:
  assumes "data_ok s" and "OSEventGrp (OSEvents s e) \<noteq> 0"
    and "msk = event_stat (OSEventType (OSEvents s e))"
  shows "data_ok (snd (OS_EventTaskRdy e m msk st s))"
proof -
  note inv = data_okD(1) [OF assms(1)]
  note eq = OS_EventTaskRdy_eq [OF inv assms(2) refl]
  have "events_ok (snd (OS_EventTaskRdy e m msk st s))"
    by (rule events_ok_cong [OF _ _ data_okD(3) [OF assms(1)]]) (auto simp: eq)
  moreover have "cur_ok (snd (OS_EventTaskRdy e m msk st s)) = cur_ok s"
    by (rule cur_ok_cong) (simp_all add: eq)
  ultimately show ?thesis
    using data_okD [OF assms(1)] kinv_EventTaskRdy [OF inv assms(2,3)] by (simp add: data_ok_def)
qed

lemma data_ok_RdyAll:
  assumes "data_ok s" and "msk = event_stat (OSEventType (OSEvents s e))"
  shows "\<exists>r. OS_EventTaskRdyAll e m msk st n s = Some (n + of_nat (card (waiters s e)), wake_all e m msk st r s)
      \<and> data_ok (wake_all e m msk st r s)"
proof -
  obtain r where r: "OS_EventTaskRdyAll e m msk st n s
      = Some (n + of_nat (card (waiters s e)), wake_all e m msk st r s)"
    and inv: "kinv (wake_all e m msk st r s)"
    using OS_EventTaskRdyAll_spec [OF data_okD(1) [OF assms(1)] assms(2), of m st n] by blast
  have "events_ok (wake_all e m msk st r s)"
    by (rule events_ok_cong [OF _ _ data_okD(3) [OF assms(1)]]) (auto simp: wake_all_def)
  moreover have "cur_ok (wake_all e m msk st r s) = cur_ok s"
    by (rule cur_ok_cong) (simp_all add: wake_all_def)
  ultimately have "data_ok (wake_all e m msk st r s)"
    using data_okD [OF assms(1)] inv by (simp add: data_ok_def)
  with r show ?thesis by blast
qed

lemma data_ok_event_free:
  assumes "data_ok s" and W: "waiters s e = {}" and e: "e \<noteq> NULL"
    and used: "OSEventType (OSEvents s e) \<noteq> OS_EVENT_TYPE_UNUSED"
  shows "data_ok (event_free e s)"
proof -
  note inv = data_okD(1) [OF assms(1)]
  have "kinv (event_free e s)"
    using event_map_no_waiters [OF inv W]
    by (intro kinv_event_change [OF inv W]) (simp_all add: event_free_def Let_def rdy_map_def event_map_def)
  moreover obtain xs where xs: "free_events s xs"
    using data_okD(3) [OF assms(1)] by (auto simp: events_ok_def)
  then have "e \<notin> set xs" using used by (auto simp: free_events_def)
  with xs e have "events_ok (event_free e s)"
    unfolding events_ok_def by (blast intro: evfree.free_push)
  moreover have "cur_ok (event_free e s) = cur_ok s"
    by (rule cur_ok_cong) (simp_all add: event_free_def Let_def)
  ultimately show ?thesis using data_okD [OF assms(1)] by (simp add: data_ok_def)
qed

text \<open>A new event: taken from the free list, then filled in with an empty wait list.\<close>

lemma kernel_ok_event_new:
  assumes ok: "kernel_ok s" and al: "event_alloc s = (e, s1)" and e: "e \<noteq> NULL"
  shows "OSEventType (OSEvents s e) = OS_EVENT_TYPE_UNUSED" and "waiters s e = {}"
    and "ty \<noteq> OS_EVENT_TYPE_UNUSED \<Longrightarrow> kernel_ok (upd_event e (\<lambda>ev. set_event_map bm_empty
      (ev\<lparr>OSEventType := ty, OSEventCnt := c, OSEventPtr := m, OSEventName := nm\<rparr>)) s1)"
proof -
  obtain xs where xs: "free_events s xs"
    using kernel_okD(5) [OF ok] by (auto simp: events_ok_def)
  have ein: "e \<in> set xs" and enot: "e \<notin> set (tl xs)"
    using evfree.alloc_fresh [OF xs] al e by simp_all
  have xs1: "free_events s1 (tl xs)" using evfree.alloc_tl [OF xs] al by simp
  show ty: "OSEventType (OSEvents s e) = OS_EVENT_TYPE_UNUSED"
    using xs ein by (simp add: free_events_def)
  show W: "waiters s e = {}"
    using waitsD(5) [OF kernel_okD(2) [OF ok], of e] ty by (auto simp: waiters_def event_stat_def)
  let ?s' = "upd_event e (\<lambda>ev. set_event_map bm_empty
      (ev\<lparr>OSEventType := ty, OSEventCnt := c, OSEventPtr := m, OSEventName := nm\<rparr>)) s1"
  have s1: "s1 = s\<lparr>OSEventFreeList := OSEventPtr (OSEvents s e)\<rparr>"
    using al e by (auto simp: event_alloc_def Let_def split: if_splits)
  have cur: "cur_ok ?s' = cur_ok s" by (rule cur_ok_cong) (simp_all add: s1)
  have inv: "kinv ?s'"
    by (rule kinv_event_change [OF kernel_okD(2) [OF ok] W]) (simp_all add: s1 rdy_map_def)
  have rdy: "rdy ?s' p = rdy s p" for p by (simp add: rdy_def s1 rdy_map_def)
  have sch: "sched_ok ?s' = sched_ok s" unfolding sched_ok_def cur rdy by (simp add: s1)
  have "path (\<lambda>x. OSEventPtr (OSEvents ?s' x)) (OSEventFreeList ?s') (tl xs)
      = path (\<lambda>x. OSEventPtr (OSEvents s1 x)) (OSEventFreeList ?s') (tl xs)"
    using enot by (intro path_cong) auto
  then have "free_events ?s' (tl xs)"
    using xs1 enot by (simp add: free_events_def)
  then show "kernel_ok ?s'"
    using inv cur sch kernel_okD [OF ok] by (auto simp: kernel_ok_def data_ok_def events_ok_def)
qed

text \<open>The running task is ready when interrupts are done and the scheduler is not locked.\<close>

lemma kernel_ok_cur_ready:
  "kernel_ok s \<Longrightarrow> OSIntNesting s = 0 \<Longrightarrow> OSLockNesting s = 0 \<Longrightarrow> rdy s (OSPrioCur s)"
  by (auto simp: kernel_ok_def sched_ok_def)

lemma data_ok_block:
  assumes "data_ok s" and "rdy s (OSPrioCur s)"
    and "event_stat (OSEventType (OSEvents s e)) = b" "b \<noteq> 0" and "e \<noteq> NULL"
    and "\<And>e. \<not> waits s e (OSPrioCur s)" and "OSPrioCur s \<noteq> OS_TASK_IDLE_PRIO"
  shows "data_ok (event_block b e timeout s)"
proof -
  have task: "is_task s (OSPrioCur s)" and cp: "OSTCBCur s = OSTCBPrioTbl s (OSPrioCur s)"
    using data_okD(2) [OF assms(1)] by (auto simp: cur_ok_def)
  note ok = task_prio_ok [OF data_okD(1) [OF assms(1)] task, unfolded task_at_def, folded cp, THEN conjunct2]
  have "events_ok (event_block b e timeout s)"
    by (rule events_ok_cong [OF _ _ data_okD(3) [OF assms(1)]]) (auto simp: event_block_eq [OF ok])
  moreover have "cur_ok (event_block b e timeout s) = cur_ok s"
    by (rule cur_ok_cong) (simp_all add: event_block_eq [OF ok])
  moreover have "kinv (event_block b e timeout s)"
    using assms data_okD [OF assms(1)] by (intro kinv_event_block)
  ultimately show ?thesis using data_okD [OF assms(1)] by (simp add: data_ok_def)
qed

end
