(* ===== verification/Event_Services.thy ===== *)
theory Event_Services
  imports Event_Wait
begin

text \<open>
  The bodies of the delete and abort services, which are the same text for semaphores, mailboxes and
  queues up to the status bit, and the two halves of the pend services in terms of the waiters.
\<close>

definition event_del :: "INT8U \<Rightarrow> ptr \<Rightarrow> INT8U \<Rightarrow> os_state \<Rightarrow> (ptr \<times> INT8U \<times> os_state) option" where
  "event_del stat pevent opt s =
     (let tasks_waiting = (OSEventGrp (OSEvents s pevent) \<noteq> 0)
      in if opt = OS_DEL_NO_PEND then
           if \<not> tasks_waiting then Some (NULL, OS_ERR_NONE, event_free pevent s)
           else Some (pevent, OS_ERR_TASK_WAITING, s)
         else if opt = OS_DEL_ALWAYS then
           (case OS_EventTaskRdyAll pevent NULL stat OS_STAT_PEND_OK 0 s of
              None \<Rightarrow> None
            | Some (n, s1) \<Rightarrow>
                (let s2 = event_free pevent s1
                 in Some (NULL, OS_ERR_NONE, if tasks_waiting then OS_Sched s2 else s2)))
         else Some (pevent, OS_ERR_INVALID_OPT, s))"

definition event_pend_abort :: "INT8U \<Rightarrow> ptr \<Rightarrow> INT8U \<Rightarrow> os_state \<Rightarrow> (INT8U \<times> INT8U \<times> os_state) option" where
  "event_pend_abort stat pevent opt s =
     (if OSEventGrp (OSEvents s pevent) \<noteq> 0 then
        if opt = OS_PEND_OPT_BROADCAST then
          (case OS_EventTaskRdyAll pevent NULL stat OS_STAT_PEND_ABORT 0 s of
             None \<Rightarrow> None
           | Some (nbr_tasks, s1) \<Rightarrow> Some (nbr_tasks, OS_ERR_PEND_ABORT, OS_Sched s1))
        else Some (1, OS_ERR_PEND_ABORT,
               OS_Sched (snd (OS_EventTaskRdy pevent NULL stat OS_STAT_PEND_ABORT s)))
      else Some (0, OS_ERR_NONE, s))"

lemma waiters_grp: "kinv s \<Longrightarrow> OSEventGrp (OSEvents s e) \<noteq> 0 \<longleftrightarrow> waiters s e \<noteq> {}"
  by (auto simp: event_grp_iff waiters_def)

lemma wake_all_waiters [simp]: "waiters (wake_all e m msk st r s) e = {}"
  by (simp add: waiters_def waits_def wake_all_def)

lemma wake_all_type [simp]: "OSEventType (OSEvents (wake_all e m msk st r s) e') = OSEventType (OSEvents s e')"
  by (simp add: wake_all_def)

lemma event_del_ok:
  assumes ok: "kernel_ok s" and st: "stat = event_stat (OSEventType (OSEvents s e))" "stat \<noteq> 0"
    and e: "e \<noteq> NULL"
  shows "\<exists>r perr s'. event_del stat e opt s = Some (r, perr, s') \<and> kernel_ok s'
      \<and> (perr = OS_ERR_NONE \<longrightarrow> r = NULL \<and> OSEventType (OSEvents s' e) = OS_EVENT_TYPE_UNUSED
           \<and> OSEventFreeList s' = e)
      \<and> (perr \<noteq> OS_ERR_NONE \<longrightarrow> r = e \<and> s' = s)
      \<and> (opt = OS_DEL_ALWAYS \<longrightarrow> perr = OS_ERR_NONE)
      \<and> (opt = OS_DEL_NO_PEND \<longrightarrow> (perr = OS_ERR_NONE \<longleftrightarrow> waiters s e = {}))"
proof -
  note inv = kernel_okD(2) [OF ok]
  have ty: "OSEventType (OSEvents s e) \<noteq> OS_EVENT_TYPE_UNUSED" using st by (auto simp: event_stat_def)
  obtain r where r: "OS_EventTaskRdyAll e NULL stat OS_STAT_PEND_OK 0 s
      = Some (of_nat (card (waiters s e)), wake_all e NULL stat OS_STAT_PEND_OK r s)"
    and rok: "data_ok (wake_all e NULL stat OS_STAT_PEND_OK r s)"
    using data_ok_RdyAll [OF kernel_okD(1) [OF ok] st(1), of NULL OS_STAT_PEND_OK 0] by auto
  have free: "kernel_ok (event_free e s)" if W: "waiters s e = {}"
  proof -
    have "sched_ok (event_free e s) = sched_ok s"
      by (rule sched_ok_cong) (simp_all add: event_free_def Let_def rdy_map_def)
    then show ?thesis
      using data_ok_event_free [OF kernel_okD(1) [OF ok] W e ty] kernel_okD [OF ok] by (simp add: kernel_ok_def)
  qed
  have free': "kernel_ok (OS_Sched (event_free e (wake_all e NULL stat OS_STAT_PEND_OK r s)))"
    using rok e ty by (intro kernel_ok_Sched data_ok_event_free) simp_all
  have W0: "waiters s e = {} \<Longrightarrow> OS_EventTaskRdyAll e NULL stat OS_STAT_PEND_OK 0 s = Some (0, s)"
    using waiters_grp [OF inv, of e] by (simp add: OS_EventTaskRdyAll.simps)
  show ?thesis
  proof (cases "waiters s e = {}")
    case True
    then show ?thesis using waiters_grp [OF inv, of e] W0 free ok e
      by (auto simp: event_del_def event_free_def Let_def)
  next
    case False
    then show ?thesis using waiters_grp [OF inv, of e] r free' ok e
      by (auto simp: event_del_def event_free_def Let_def)
  qed
qed

lemma event_pend_abort_ok:
  assumes ok: "kernel_ok s" and st: "stat = event_stat (OSEventType (OSEvents s e))"
  shows "\<exists>n perr s'. event_pend_abort stat e opt s = Some (n, perr, s') \<and> kernel_ok s'
      \<and> n = (if opt = OS_PEND_OPT_BROADCAST then of_nat (card (waiters s e))
              else if waiters s e = {} then 0 else 1)
      \<and> perr = (if waiters s e = {} then OS_ERR_NONE else OS_ERR_PEND_ABORT)
      \<and> (waiters s e = {} \<longrightarrow> s' = s)"
proof -
  note inv = kernel_okD(2) [OF ok]
  obtain r where r: "OS_EventTaskRdyAll e NULL stat OS_STAT_PEND_ABORT 0 s
      = Some (of_nat (card (waiters s e)), wake_all e NULL stat OS_STAT_PEND_ABORT r s)"
    and rok: "data_ok (wake_all e NULL stat OS_STAT_PEND_ABORT r s)"
    using data_ok_RdyAll [OF kernel_okD(1) [OF ok] st(1), of NULL OS_STAT_PEND_ABORT 0] by auto
  show ?thesis
  proof (cases "waiters s e = {}")
    case True
    then show ?thesis using waiters_grp [OF inv, of e] ok by (simp add: event_pend_abort_def)
  next
    case False
    then have grp: "OSEventGrp (OSEvents s e) \<noteq> 0" using waiters_grp [OF inv, of e] by simp
    show ?thesis
      using False grp r kernel_ok_Sched [OF rok]
        kernel_ok_Sched [OF data_ok_EventTaskRdy [OF kernel_okD(1) [OF ok] grp st]]
      by (simp add: event_pend_abort_def)
  qed
qed

subsection \<open>The two halves of a pend service\<close>

text \<open>
  What a pend service does when its caller runs again: it reads why it was woken, leaves the wait
  list after a timeout, and resets its status.
\<close>

definition event_pend_end :: "ptr \<Rightarrow> os_state \<Rightarrow> INT8U \<times> os_state" where
  "event_pend_end pevent s =
     (let sp = OSTCBStatPend (OSTCBTbl s (OSTCBCur s))
      in if sp = OS_STAT_PEND_OK then (OS_ERR_NONE, event_unblock s)
         else if sp = OS_STAT_PEND_ABORT then (OS_ERR_PEND_ABORT, event_unblock s)
         else (OS_ERR_TIMEOUT, event_unblock (OS_EventTaskRemove (OSTCBCur s) pevent s)))"

text \<open>A service may be called by the running task: user code, not interrupted, in no wait list.\<close>

definition user_code :: "os_state \<Rightarrow> bool" where
  "user_code s \<longleftrightarrow> OSIntNesting s = 0 \<and> OSPrioCur s \<noteq> OS_TASK_IDLE_PRIO
     \<and> (\<forall>e. \<not> waits s e (OSPrioCur s))"

lemma event_block_data:
  assumes ok: "data_ok s" and ready: "rdy s (OSPrioCur s)" and uc: "user_code s" and lock: "OSLockNesting s = 0"
    and st: "event_stat (OSEventType (OSEvents s e)) = b" "b \<noteq> 0" and e: "e \<noteq> NULL"
    and s'_def: "s' = OS_Sched (event_block b e timeout s)"
  shows "kernel_ok s'" and "waiters s' e = insert (OSPrioCur s) (waiters s e)"
    and "e' \<noteq> e \<Longrightarrow> OSEvents s' e' = OSEvents s e'"
    and "OSEventCnt (OSEvents s' e) = OSEventCnt (OSEvents s e)"
    and "OSEventPtr (OSEvents s' e) = OSEventPtr (OSEvents s e)"
    and "\<not> rdy s' (OSPrioCur s)" and "OSPrioCur s' \<noteq> OSPrioCur s"
proof -
  let ?p = "OSPrioCur s"
  have nest: "OSIntNesting s = 0" and idle: "?p \<noteq> OS_TASK_IDLE_PRIO" and nw: "\<And>e. \<not> waits s e ?p"
    using uc by (auto simp: user_code_def)
  note inv = data_okD(1) [OF ok]
  have task: "is_task s ?p" and cp: "OSTCBCur s = OSTCBPrioTbl s ?p"
    using data_okD(2) [OF ok] by (auto simp: cur_ok_def)
  note p64 = task_prio_ok [OF inv task, THEN conjunct1]
  note tok = task_prio_ok [OF inv task, unfolded task_at_def, folded cp, THEN conjunct2]
  note eq = event_block_eq [OF tok, of b e timeout]
  show ok': "kernel_ok s'" unfolding s'_def
    by (intro kernel_ok_Sched data_ok_block ok ready st e nw idle)
  show "waiters s' e = insert ?p (waiters s e)"
    using p64 by (auto simp: s'_def waiters_def waits_def eq bm_mem_ins)
  show "e' \<noteq> e \<Longrightarrow> OSEvents s' e' = OSEvents s e'"
    and "OSEventCnt (OSEvents s' e) = OSEventCnt (OSEvents s e)"
    and "OSEventPtr (OSEvents s' e) = OSEventPtr (OSEvents s e)"
    by (simp_all add: s'_def eq)
  show nr: "\<not> rdy s' ?p" using p64 by (simp add: s'_def rdy_def eq bm_mem_del)
  have "OSIntNesting s' = 0" "OSLockNesting s' = 0" using nest lock by (simp_all add: s'_def eq)
  then have "rdy s' (OSPrioCur s')" by (rule kernel_ok_cur_ready [OF ok'])
  with nr show "OSPrioCur s' \<noteq> ?p" by metis
qed

lemma event_block_ok:
  assumes ok: "kernel_ok s" and uc: "user_code s" and lock: "OSLockNesting s = 0"
    and st: "event_stat (OSEventType (OSEvents s e)) = b" "b \<noteq> 0" and e: "e \<noteq> NULL"
    and s'_def: "s' = OS_Sched (event_block b e timeout s)"
  shows "kernel_ok s'" and "waiters s' e = insert (OSPrioCur s) (waiters s e)"
    and "e' \<noteq> e \<Longrightarrow> OSEvents s' e' = OSEvents s e'"
    and "OSEventCnt (OSEvents s' e) = OSEventCnt (OSEvents s e)"
    and "OSEventPtr (OSEvents s' e) = OSEventPtr (OSEvents s e)"
    and "\<not> rdy s' (OSPrioCur s)" and "OSPrioCur s' \<noteq> OSPrioCur s"
proof -
  have "rdy s (OSPrioCur s)" by (rule kernel_ok_cur_ready [OF ok _ lock]) (use uc in \<open>simp add: user_code_def\<close>)
  note B = event_block_data [OF kernel_okD(1) [OF ok] this uc lock st e s'_def]
  show "kernel_ok s'" and "waiters s' e = insert (OSPrioCur s) (waiters s e)"
    and "e' \<noteq> e \<Longrightarrow> OSEvents s' e' = OSEvents s e'"
    and "OSEventCnt (OSEvents s' e) = OSEventCnt (OSEvents s e)"
    and "OSEventPtr (OSEvents s' e) = OSEventPtr (OSEvents s e)"
    and "\<not> rdy s' (OSPrioCur s)" and "OSPrioCur s' \<noteq> OSPrioCur s"
    by (fact B)+
qed

lemma event_pend_end_ok:
  assumes ok: "kernel_ok s" and nest: "OSIntNesting s = 0" and lock: "OSLockNesting s = 0"
    and ep: "OSTCBEventPtr (task_at s (OSPrioCur s)) = e"
    and en: "event_pend_end e s = (perr, s')"
  shows "kernel_ok s'" and "\<not> waits s' e' (OSPrioCur s)"
    and "perr = (if OSTCBStatPend (task_at s (OSPrioCur s)) = OS_STAT_PEND_OK then OS_ERR_NONE
                 else if OSTCBStatPend (task_at s (OSPrioCur s)) = OS_STAT_PEND_ABORT then OS_ERR_PEND_ABORT
                 else OS_ERR_TIMEOUT)"
    and "OSTCBStat (task_at s' (OSPrioCur s)) = OS_STAT_RDY"
    and "OSEventCnt (OSEvents s' e') = OSEventCnt (OSEvents s e')"
    and "waiters s' e' = waiters s e' - {OSPrioCur s}"
    and "OSPrioCur s' = OSPrioCur s"
proof -
  let ?p = "OSPrioCur s"
  note inv = kernel_okD(2) [OF ok] and cur = kernel_okD(3) [OF ok]
  have task: "is_task s ?p" and cp: "OSTCBCur s = OSTCBPrioTbl s ?p"
    using cur by (auto simp: cur_ok_def)
  note p64 = task_prio_ok [OF inv task, THEN conjunct1]
  have ready: "rdy s ?p" by (rule kernel_ok_cur_ready [OF ok nest lock])
  then have st: "OSTCBStat (task_at s ?p) AND OS_STAT_PEND_ANY = 0"
    using rdy_iff [OF inv] stat_mask_or_zero unfolding tcb_runnable_def by blast
  let ?to = "OSTCBStatPend (task_at s ?p) \<noteq> OS_STAT_PEND_OK \<and> OSTCBStatPend (task_at s ?p) \<noteq> OS_STAT_PEND_ABORT"
  let ?s1 = "if ?to then OS_EventTaskRemove (OSTCBPrioTbl s ?p) e s else s"
  have s': "s' = event_unblock ?s1"
    using en by (auto simp: event_pend_end_def cp task_at_def Let_def split: if_splits)
  note rem = kinv_EventTaskRemove [OF inv task st]
  have in_wait: "e'' = e \<and> OSTCBStatPend (task_at s ?p) = OS_STAT_PEND_TO" if w: "waits s e'' ?p" for e''
  proof -
    note * = waitsD [OF inv w]
    with ep st show ?thesis by (simp add: wait_stat_ok_def)
  qed
  have same: "OSPrioCur ?s1 = ?p" "OSTCBCur ?s1 = OSTCBCur s" "OSTCBPrioTbl ?s1 = OSTCBPrioTbl s"
    "OSTCBTbl ?s1 = OSTCBTbl s" "rdy_map ?s1 = rdy_map s" "OSIntNesting ?s1 = 0" "OSLockNesting ?s1 = 0"
    "OSEventFreeList ?s1 = OSEventFreeList s"
    "OSEventType (OSEvents ?s1 e'') = OSEventType (OSEvents s e'')"
    "OSEventPtr (OSEvents ?s1 e'') = OSEventPtr (OSEvents s e'')"
    "OSEventCnt (OSEvents ?s1 e'') = OSEventCnt (OSEvents s e'')" for e''
    using nest lock by (simp_all add: OS_EventTaskRemove_def event_wait_clr_def)
  have inv1: "kinv ?s1" using rem(1) inv by simp
  have nw1: "\<not> waits ?s1 e'' ?p" for e''
    using rem(2) in_wait by auto
  have w1: "waits ?s1 e'' q \<longleftrightarrow> waits s e'' q \<and> q \<noteq> ?p" for e'' q
    using rem(2) in_wait by auto
  have cur1: "cur_ok ?s1" using cur cur_ok_cong [OF same(2,1,3)] by simp
  have rdy1: "rdy ?s1 (OSPrioCur ?s1)" using ready same by (simp add: rdy_def)
  have inv': "kinv s'" unfolding s'
    by (rule kinv_event_unblock [OF inv1 cur1 rdy1]) (use nw1 same in simp)
  have fr: "OSPrioCur s' = ?p" "OSTCBCur s' = OSTCBCur s" "OSTCBPrioTbl s' = OSTCBPrioTbl s"
    "rdy_map s' = rdy_map s" "OSIntNesting s' = OSIntNesting s" "OSLockNesting s' = OSLockNesting s"
    "OSEventFreeList s' = OSEventFreeList s" "OSEvents s' = OSEvents ?s1"
    "OSTCBTbl s' (OSTCBCur s) = (OSTCBTbl s (OSTCBCur s))\<lparr>OSTCBStat := OS_STAT_RDY,
       OSTCBStatPend := OS_STAT_PEND_OK, OSTCBEventPtr := NULL, OSTCBEventMultiPtr := None\<rparr>"
    using same nest lock unfolding s' event_unblock_def by (simp_all del: if_split)
  have "cur_ok s'" using cur cur_ok_cong [OF fr(2,1,3)] by simp
  moreover have "sched_ok s'"
    using kernel_okD(4) [OF ok] sched_ok_cong [OF fr(3,4,2,1,5,6)] by simp
  moreover have "events_ok s'"
    by (rule events_ok_cong [OF fr(7) _ kernel_okD(5) [OF ok]]) (simp add: fr(8) same(9,10) del: if_split)
  ultimately show "kernel_ok s'" using inv' by (simp add: kernel_ok_def data_ok_def)
  show "\<not> waits s' e' ?p" using nw1 [of e'] by (simp only: waits_def fr(8) not_False_eq_True)
  show "perr = (if OSTCBStatPend (task_at s ?p) = OS_STAT_PEND_OK then OS_ERR_NONE
                 else if OSTCBStatPend (task_at s ?p) = OS_STAT_PEND_ABORT then OS_ERR_PEND_ABORT
                 else OS_ERR_TIMEOUT)"
    using en by (auto simp: event_pend_end_def cp task_at_def Let_def split: if_splits)
  show "OSTCBStat (task_at s' ?p) = OS_STAT_RDY"
    using fr(9) by (simp add: task_at_def fr(3) cp)
  show "OSEventCnt (OSEvents s' e') = OSEventCnt (OSEvents s e')" unfolding fr(8) by (rule same(11))
  have "waits s' e' q = waits ?s1 e' q" for q by (simp only: waits_def fr(8))
  then show "waiters s' e' = waiters s e' - {?p}" unfolding waiters_def w1 by blast
  show "OSPrioCur s' = ?p" by (rule fr(1))
qed

subsection \<open>Handing over to the first waiter\<close>

lemma waiters_high:
  assumes "kinv s" and "waiters s e \<noteq> {}"
  shows "bm_high (event_map (OSEvents s e)) = Min (waiters s e)"
proof -
  have grp: "OSEventGrp (OSEvents s e) \<noteq> 0" using waiters_grp assms by simp
  show ?thesis
    using waits_high [OF assms(1) grp] finite_waiters [OF assms(1), of e]
    by (intro Min_eqI [symmetric]) (auto simp: waiters_def)
qed

text \<open>
  A post or abort with tasks waiting: the waiter with the highest priority leaves the list with the
  message and the reason, and runs again as soon as it is the ready task with the highest priority,
  unless it is suspended.
\<close>

lemma event_rdy_ok:
  assumes ok: "data_ok s" and W: "waiters s e \<noteq> {}"
    and msk: "msk = event_stat (OSEventType (OSEvents s e))"
    and s1: "s1 = snd (OS_EventTaskRdy e m msk st s)" and h: "h = Min (waiters s e)"
  shows "data_ok s1" and "fst (OS_EventTaskRdy e m msk st s) = h" and "waiters s1 e = waiters s e - {h}"
    and "OSTCBMsg (task_at s1 h) = m" and "OSTCBStatPend (task_at s1 h) = st"
    and "OSTCBDly (task_at s1 h) = 0"
    and "rdy s1 h \<longleftrightarrow> OSTCBStat (task_at s h) AND OS_STAT_SUSPEND = 0"
    and "OSEventPtr (OSEvents s1 e') = OSEventPtr (OSEvents s e')"
    and "OSEventCnt (OSEvents s1 e') = OSEventCnt (OSEvents s e')"
    and "OSEventType (OSEvents s1 e') = OSEventType (OSEvents s e')"
    and "e' \<noteq> e \<Longrightarrow> waiters s1 e' = waiters s e'"
proof -
  note inv = data_okD(1) [OF ok]
  have grp: "OSEventGrp (OSEvents s e) \<noteq> 0" using waiters_grp [OF inv] W by simp
  have hh: "h = bm_high (event_map (OSEvents s e))" using waiters_high [OF inv W] h by simp
  have w: "waits s e h" using waits_high(1) [OF inv grp] hh by simp
  note wD = waitsD [OF inv w]
  note eq = OS_EventTaskRdy_eq [OF inv grp hh]
  show ok1: "data_ok s1" unfolding s1 by (rule data_ok_EventTaskRdy [OF ok grp msk])
  show "fst (OS_EventTaskRdy e m msk st s) = h" by (simp add: eq)
  show "waiters s1 e = waiters s e - {h}"
    unfolding s1 hh by (rule waiters_EventTaskRdy(1) [OF inv grp])
  show "OSTCBMsg (task_at s1 h) = m" and "OSTCBStatPend (task_at s1 h) = st"
    and "OSTCBDly (task_at s1 h) = 0"
    and "OSEventPtr (OSEvents s1 e') = OSEventPtr (OSEvents s e')"
    and "OSEventCnt (OSEvents s1 e') = OSEventCnt (OSEvents s e')"
    and "OSEventType (OSEvents s1 e') = OSEventType (OSEvents s e')"
    by (simp_all add: s1 eq task_at_def)
  show "e' \<noteq> e \<Longrightarrow> waiters s1 e' = waiters s e'"
    by (simp add: s1 eq waiters_def waits_def)
  have x: "x AND NOT msk AND OS_STAT_SUSPEND = x AND OS_STAT_SUSPEND" for x
  proof -
    have "NOT msk AND OS_STAT_SUSPEND = OS_STAT_SUSPEND" unfolding msk by (simp add: event_stat_def)
    then show ?thesis by simp
  qed
  have "rdy s1 h \<longleftrightarrow> OSTCBStat (task_at s h) AND OS_STAT_SUSPEND = 0 \<or> rdy s h"
    using wD(3) x by (auto simp: s1 eq rdy_def bm_mem_ins and.assoc)
  then show "rdy s1 h \<longleftrightarrow> OSTCBStat (task_at s h) AND OS_STAT_SUSPEND = 0"
    using rdy_iff [OF inv, of h] stat_mask_or_zero [of "OSTCBStat (task_at s h)" OS_STAT_SUSPEND OS_STAT_PEND_ANY]
    by (auto simp: tcb_runnable_def or.commute)
qed

lemma task_at_Sched:
  "OSTCBMsg (task_at (OS_Sched s) p) = OSTCBMsg (task_at s p)"
  "OSTCBStatPend (task_at (OS_Sched s) p) = OSTCBStatPend (task_at s p)"
  "OSTCBDly (task_at (OS_Sched s) p) = OSTCBDly (task_at s p)"
  "OSTCBStat (task_at (OS_Sched s) p) = OSTCBStat (task_at s p)"
  "OSTCBPrio (task_at (OS_Sched s) p) = OSTCBPrio (task_at s p)"
  using OS_Sched_tcb [of s "OSTCBPrioTbl s p"] by (auto simp: task_at_def)

lemma waiters_Sched [simp]: "waiters (OS_Sched s) e = waiters s e"
  by (simp add: waiters_def waits_def)

lemma rdy_Sched [simp]: "rdy (OS_Sched s) p = rdy s p"
  by (simp add: rdy_def)

text \<open>Waking a task leaves the others as they are.\<close>

lemma event_rdy_other:
  assumes "kinv s" and "waiters s e \<noteq> {}" and "q \<noteq> Min (waiters s e)"
  shows "rdy (snd (OS_EventTaskRdy e m msk st s)) q = rdy s q"
proof -
  have grp: "OSEventGrp (OSEvents s e) \<noteq> 0" using waiters_grp assms(1,2) by simp
  define h where "h = bm_high (event_map (OSEvents s e))"
  have "waits s e h" using waits_high(1) [OF assms(1) grp] by (simp add: h_def)
  then have "h < 64" using task_prio_ok [OF assms(1)] waitsD(1) [OF assms(1)] by blast
  moreover have "q \<noteq> h" using waiters_high [OF assms(1,2)] assms(3) by (simp add: h_def)
  ultimately show ?thesis unfolding h_def
    by (simp add: OS_EventTaskRdy_eq [OF assms(1) grp refl] rdy_def bm_mem_ins)
qed

end
