(* ===== verification/Example_System.thy ===== *)
theory Example_System
  imports Event_Services
begin

text \<open>
  A small running system on which the theorems of the components are instantiated: three tasks, the
  idle task (priority 63, block 2), the running task (priority 4, block 3) and a task of priority 10
  (block 4) that waits on the semaphore 1, for five more
  ticks.  Event 2 is a mailbox, 3 a queue, 4 a semaphore with
  two tokens; the event blocks 5 and 6 and the task
  blocks 5 and 6 are free.  The argument is the \<open>OSTCBEventPtr\<close> of the running task.
\<close>

definition ex_tcb :: OS_TCB where
  "ex_tcb = \<lparr>OSTCBStkPtr = 0, OSTCBExtPtr = 0, OSTCBStkBottom = 0, OSTCBStkSize = 0, OSTCBOpt = 0,
     OSTCBId = 0, OSTCBNext = 0, OSTCBPrev = 0, OSTCBEventPtr = 0, OSTCBEventMultiPtr = None,
     OSTCBMsg = 0, OSTCBFlagNode = 0, OSTCBFlagsRdy = 0, OSTCBDly = 0, OSTCBStat = 0, OSTCBStatPend = 0,
     OSTCBPrio = 0, OSTCBX = 0, OSTCBY = 0, OSTCBBitX = 0, OSTCBBitY = 0, OSTCBDelReq = 0,
     OSTCBCtxSwCtr = 0, OSTCBCyclesTot = 0, OSTCBCyclesStart = 0, OSTCBStkBase = 0, OSTCBStkUsed = 0,
     OSTCBTaskName = ''?'', OSTCBRegTbl = (\<lambda>_. 0)\<rparr>"

definition ex_task :: "nat \<Rightarrow> OS_TCB" where
  "ex_task p = ex_tcb\<lparr>OSTCBPrio := p, OSTCBX := p mod 8, OSTCBY := p div 8,
     OSTCBBitX := prio_bitx p, OSTCBBitY := prio_bity p\<rparr>"

definition ex_event :: OS_EVENT where
  "ex_event = \<lparr>OSEventType = 0, OSEventPtr = 0, OSEventCnt = 0, OSEventGrp = 0, OSEventTbl = (\<lambda>_. 0),
     OSEventName = ''?''\<rparr>"

definition ex_state0 :: os_state where
  "ex_state0 = \<lparr>OSCtxSwCtr = 0, OSEventFreeList = 0, OSEvents = (\<lambda>_. ex_event),
     OSFlagTbl = (\<lambda>_. \<lparr>OSFlagType = 0, OSFlagWaitList = 0, OSFlagFlags = 0, OSFlagName = ''?''\<rparr>),
     OSFlagFreeList = 0,
     OSFlagNodes = (\<lambda>_. \<lparr>OSFlagNodeNext = 0, OSFlagNodePrev = 0, OSFlagNodeTCB = 0,
       OSFlagNodeFlagGrp = 0, OSFlagNodeFlags = 0, OSFlagNodeWaitType = 0\<rparr>),
     OSCPUUsage = 0, OSIdleCtrMax = 0, OSIdleCtrRun = 0, OSStatRdy = False, OSIntNesting = 0,
     OSLockNesting = 0, OSPrioCur = 0, OSPrioHighRdy = 0, OSRdyGrp = 0, OSRdyTbl = (\<lambda>_. 0),
     OSRunning = False, OSTaskCtr = 0, OSIdleCtr = 0, OSTCBCur = 0, OSTCBFreeList = 0,
     OSTCBHighRdy = 0, OSTCBList = 0, OSTCBPrioTbl = (\<lambda>_. 0), OSTCBTbl = (\<lambda>_. ex_tcb),
     OSTickStepState = 0, OSMemFreeParts = 0,
     OSMemTbl = (\<lambda>_. \<lparr>OSMemAddr = 0, OSMemFreeList = 0, OSMemBlkSize = 0, OSMemNBlks = 0,
       OSMemNFree = 0, OSMemName = ''?''\<rparr>),
     OSQFreeList = 0,
     OSQTbl = (\<lambda>_. \<lparr>OSQPtr = 0, OSQStart = 0, OSQEnd = 0, OSQIn = 0, OSQOut = 0, OSQSize = 0, OSQEntries = 0\<rparr>),
     OSTime = 0, OSTmrFree = 0, OSTmrUsed = 0, OSTmrTime = 0, OSTmrSem = 0, OSTmrSemSignal = 0,
     OSTmrTbl = (\<lambda>_. \<lparr>OSTmrType = 0, OSTmrCallback = 0, OSTmrCallbackArg = 0, OSTmrNext = 0,
       OSTmrPrev = 0, OSTmrMatch = 0, OSTmrDly = 0, OSTmrPeriod = 0, OSTmrName = ''?'', OSTmrOpt = 0,
       OSTmrState = 0\<rparr>),
     OSTmrFreeList = 0, OSTmrWheelTbl = (\<lambda>_. \<lparr>OSTmrFirst = 0, OSTmrEntries = 0\<rparr>), OSTmrCtr = 0,
     msg_cells = (\<lambda>_. 0), blk_links = (\<lambda>_. 0), stk_words = (\<lambda>_. 0)\<rparr>"

definition ex_state :: "ptr \<Rightarrow> os_state" where
  "ex_state ep = set_rdy_map (bm_ins 4 (bm_ins 63 bm_empty)) (ex_state0\<lparr>
     OSEventFreeList := 5,
     OSEvents := (OSEvents ex_state0)(
       1 := set_event_map (bm_ins 10 bm_empty) (ex_event\<lparr>OSEventType := OS_EVENT_TYPE_SEM\<rparr>),
       2 := ex_event\<lparr>OSEventType := OS_EVENT_TYPE_MBOX\<rparr>,
       3 := ex_event\<lparr>OSEventType := OS_EVENT_TYPE_Q, OSEventPtr := 1\<rparr>,
       4 := ex_event\<lparr>OSEventType := OS_EVENT_TYPE_SEM, OSEventCnt := 2\<rparr>,
       5 := ex_event\<lparr>OSEventPtr := 6\<rparr>),
     OSTCBList := 3, OSTCBFreeList := 5, OSTaskCtr := 3,
     OSRunning := True, OSPrioCur := 4, OSPrioHighRdy := 4, OSTCBCur := 3, OSTCBHighRdy := 3,
     OSTCBPrioTbl := (\<lambda>_. 0)(4 := 3, 10 := 4, 63 := 2),
     OSTCBTbl := (OSTCBTbl ex_state0)(
       2 := (ex_task 63)\<lparr>OSTCBPrev := 4\<rparr>,
       3 := (ex_task 4)\<lparr>OSTCBNext := 4, OSTCBEventPtr := ep\<rparr>,
       4 := (ex_task 10)\<lparr>OSTCBNext := 2, OSTCBPrev := 3, OSTCBDly := 5, OSTCBStat := OS_STAT_SEM, OSTCBEventPtr := 1\<rparr>,
       5 := ex_tcb\<lparr>OSTCBNext := 6\<rparr>)\<rparr>)"

lemma ex_tasks: "is_task (ex_state ep) p \<longleftrightarrow> p \<in> {4, 10, 63}"
  by (auto simp: is_task_def ex_state_def)

lemma ex_rdy: "rdy (ex_state ep) p \<longleftrightarrow> p \<in> {4, 63}"
  by (auto simp: rdy_def ex_state_def bm_mem_ins)

lemma ex_waits: "waits (ex_state ep) e p \<longleftrightarrow> e = 1 \<and> p = 10"
proof -
  have "event_map (ex_event\<lparr>OSEventType := a\<rparr>) = bm_empty" for a
    by (simp add: ex_event_def event_map_def bm_empty_def)
  moreover have "event_map ex_event = bm_empty" by (simp add: ex_event_def event_map_def bm_empty_def)
  ultimately show ?thesis by (auto simp: waits_def ex_state_def ex_state0_def bm_mem_ins)
qed

lemma ex_at:
  "task_at (ex_state ep) 4 = (ex_task 4)\<lparr>OSTCBNext := 4, OSTCBEventPtr := ep\<rparr>"
  "task_at (ex_state ep) 10 = (ex_task 10)\<lparr>OSTCBNext := 2, OSTCBPrev := 3, OSTCBDly := 5,
     OSTCBStat := OS_STAT_SEM, OSTCBEventPtr := 1\<rparr>"
  "task_at (ex_state ep) 63 = (ex_task 63)\<lparr>OSTCBPrev := 4\<rparr>"
  by (simp_all add: task_at_def ex_state_def)

lemma ex_kernel_ok: "kernel_ok (ex_state ep)"
proof -
  have maps: "bm_ok (event_map (OSEvents (ex_state ep) e))" for e
  proof -
    have "event_map (ex_event\<lparr>OSEventType := a\<rparr>) = bm_empty" for a
      by (simp add: ex_event_def event_map_def bm_empty_def)
    moreover have "event_map ex_event = bm_empty" by (simp add: ex_event_def event_map_def bm_empty_def)
    ultimately show ?thesis by (auto simp: ex_state_def ex_state0_def bm_ok_ins)
  qed
  have prio: "tcb_prio_ok p (ex_task p)" for p by (simp add: tcb_prio_ok_def ex_task_def)
  have "tcbs_ok (ex_state ep)"
    unfolding tcbs_ok_def ex_tasks
    by (auto simp: ex_at tcb_prio_ok_def ex_task_def ex_tcb_def)
  moreover have "bm_ok (rdy_map (ex_state ep))"
    by (simp add: ex_state_def bm_ok_ins)
  then have "rdy_ok (ex_state ep)"
    unfolding rdy_ok_def ex_tasks ex_rdy
    by (auto simp: ex_at tcb_runnable_def ex_task_def ex_tcb_def)
  moreover have "wait_ok (ex_state ep)"
    unfolding wait_ok_def ex_tasks ex_waits using maps
    by (auto simp: ex_at wait_stat_ok_def ex_task_def ex_tcb_def event_stat_def)
      (simp_all add: ex_state_def)
  moreover have "blocked_ok (ex_state ep)"
    unfolding blocked_ok_def ex_tasks ex_waits
    by (auto simp: ex_at ex_task_def ex_tcb_def)
  moreover have "cur_ok (ex_state ep)"
    unfolding cur_ok_def ex_tasks by (simp add: ex_state_def)
  moreover have "sched_ok (ex_state ep)"
    using calculation unfolding sched_ok_def ex_rdy by (auto simp: ex_state_def)
  moreover have "free_events (ex_state ep) [5, 6]"
    by (simp add: free_events_def ex_state_def ex_state0_def ex_event_def)
  ultimately show ?thesis
    unfolding kernel_ok_def data_ok_def kinv_def events_ok_def by (auto simp: ex_rdy)
qed

lemma ex_user_code: "user_code (ex_state ep)"
  unfolding user_code_def ex_waits by (simp add: ex_state_def ex_state0_def)

lemma ex_waiters: "waiters (ex_state ep) e = (if e = 1 then {10} else {})"
  by (auto simp: waiters_def ex_waits)

lemmas ex_state_simps = ex_state_def ex_state0_def ex_event_def ex_task_def ex_tcb_def

end
