(* ===== verification/OS_Sem.thy ===== *)
theory OS_Sem
  imports Event_Services Example_System
begin

text \<open>
  Semaphores (\<open>os_sem.c\<close>).  The abstract semaphore is its count and the set of the priorities that
  wait for it; each service is shown to act on it as the specification functions below say.
  A pend is \<open>OSSemPend\<close> up to the call of \<open>OS_Sched\<close> (the result \<open>None\<close>: the caller is
  blocked) and \<open>OSSemPend_resume\<close> from there.
\<close>

record OS_SEM_DATA =
  OSCnt :: INT16U
  OSSemEventTbl :: "8 word list"
  OSSemEventGrp :: "8 word"

definition OSSemAccept :: "ptr \<Rightarrow> os_state \<Rightarrow> INT16U \<times> os_state" where
  "OSSemAccept pevent s =
     (if pevent = NULL then (0, s)
      else if OSEventType (OSEvents s pevent) \<noteq> OS_EVENT_TYPE_SEM then (0, s)
      else (let cnt = OSEventCnt (OSEvents s pevent)
            in (cnt, if cnt > 0 then upd_event pevent (\<lambda>ev. ev\<lparr>OSEventCnt := OSEventCnt ev - 1\<rparr>) s
                     else s)))"

definition OSSemCreate :: "INT16U \<Rightarrow> os_state \<Rightarrow> ptr \<times> os_state" where
  "OSSemCreate cnt s =
     (if OSIntNesting s > 0 then (NULL, s)
      else (let (pevent, s1) = event_alloc s
            in (pevent,
                if pevent \<noteq> NULL
                then OS_EventWaitListInit pevent
                       (upd_event pevent (\<lambda>ev. ev\<lparr>OSEventType := OS_EVENT_TYPE_SEM, OSEventCnt := cnt,
                          OSEventPtr := NULL, OSEventName := ''?''\<rparr>) s1)
                else s1)))"

definition OSSemDel :: "ptr \<Rightarrow> INT8U \<Rightarrow> os_state \<Rightarrow> (ptr \<times> INT8U \<times> os_state) option" where
  "OSSemDel pevent opt s =
     (if pevent = NULL then Some (pevent, OS_ERR_PEVENT_NULL, s)
      else if OSEventType (OSEvents s pevent) \<noteq> OS_EVENT_TYPE_SEM then Some (pevent, OS_ERR_EVENT_TYPE, s)
      else if OSIntNesting s > 0 then Some (pevent, OS_ERR_DEL_ISR, s)
      else event_del OS_STAT_SEM pevent opt s)"

definition OSSemPend :: "ptr \<Rightarrow> INT32U \<Rightarrow> os_state \<Rightarrow> INT8U option \<times> os_state" where
  "OSSemPend pevent timeout s =
     (if pevent = NULL then (Some OS_ERR_PEVENT_NULL, s)
      else if OSEventType (OSEvents s pevent) \<noteq> OS_EVENT_TYPE_SEM then (Some OS_ERR_EVENT_TYPE, s)
      else if OSIntNesting s > 0 then (Some OS_ERR_PEND_ISR, s)
      else if OSLockNesting s > 0 then (Some OS_ERR_PEND_LOCKED, s)
      else if OSEventCnt (OSEvents s pevent) > 0
      then (Some OS_ERR_NONE, upd_event pevent (\<lambda>ev. ev\<lparr>OSEventCnt := OSEventCnt ev - 1\<rparr>) s)
      else (None, OS_Sched (event_block OS_STAT_SEM pevent timeout s)))"

definition OSSemPend_resume :: "ptr \<Rightarrow> os_state \<Rightarrow> INT8U \<times> os_state" where
  "OSSemPend_resume pevent s = event_pend_end pevent s"

definition OSSemPendAbort :: "ptr \<Rightarrow> INT8U \<Rightarrow> os_state \<Rightarrow> (INT8U \<times> INT8U \<times> os_state) option" where
  "OSSemPendAbort pevent opt s =
     (if pevent = NULL then Some (0, OS_ERR_PEVENT_NULL, s)
      else if OSEventType (OSEvents s pevent) \<noteq> OS_EVENT_TYPE_SEM then Some (0, OS_ERR_EVENT_TYPE, s)
      else event_pend_abort OS_STAT_SEM pevent opt s)"

definition OSSemPost :: "ptr \<Rightarrow> os_state \<Rightarrow> INT8U \<times> os_state" where
  "OSSemPost pevent s =
     (if pevent = NULL then (OS_ERR_PEVENT_NULL, s)
      else if OSEventType (OSEvents s pevent) \<noteq> OS_EVENT_TYPE_SEM then (OS_ERR_EVENT_TYPE, s)
      else if OSEventGrp (OSEvents s pevent) \<noteq> 0
      then (OS_ERR_NONE, OS_Sched (snd (OS_EventTaskRdy pevent NULL OS_STAT_SEM OS_STAT_PEND_OK s)))
      else if OSEventCnt (OSEvents s pevent) < 65535
      then (OS_ERR_NONE, upd_event pevent (\<lambda>ev. ev\<lparr>OSEventCnt := OSEventCnt ev + 1\<rparr>) s)
      else (OS_ERR_SEM_OVF, s))"

definition OSSemQuery :: "ptr \<Rightarrow> ptr \<Rightarrow> os_state \<Rightarrow> INT8U \<times> OS_SEM_DATA option" where
  "OSSemQuery pevent p_sem_data s =
     (if pevent = NULL then (OS_ERR_PEVENT_NULL, None)
      else if p_sem_data = NULL then (OS_ERR_PDATA_NULL, None)
      else if OSEventType (OSEvents s pevent) \<noteq> OS_EVENT_TYPE_SEM then (OS_ERR_EVENT_TYPE, None)
      else (OS_ERR_NONE, Some \<lparr>OSCnt = OSEventCnt (OSEvents s pevent),
              OSSemEventTbl = map (OSEventTbl (OSEvents s pevent)) [0..<8],
              OSSemEventGrp = OSEventGrp (OSEvents s pevent)\<rparr>))"

definition OSSemSet :: "ptr \<Rightarrow> INT16U \<Rightarrow> os_state \<Rightarrow> INT8U \<times> os_state" where
  "OSSemSet pevent cnt s =
     (if pevent = NULL then (OS_ERR_PEVENT_NULL, s)
      else if OSEventType (OSEvents s pevent) \<noteq> OS_EVENT_TYPE_SEM then (OS_ERR_EVENT_TYPE, s)
      else if OSEventCnt (OSEvents s pevent) > 0
      then (OS_ERR_NONE, upd_event pevent (\<lambda>ev. ev\<lparr>OSEventCnt := cnt\<rparr>) s)
      else if OSEventGrp (OSEvents s pevent) = 0
      then (OS_ERR_NONE, upd_event pevent (\<lambda>ev. ev\<lparr>OSEventCnt := cnt\<rparr>) s)
      else (OS_ERR_TASK_WAITING, s))"

subsection \<open>The abstract semaphore\<close>

type_synonym sem = "nat \<times> nat set"

definition sem_abs :: "os_state \<Rightarrow> ptr \<Rightarrow> sem" where
  "sem_abs s e = (unat (OSEventCnt (OSEvents s e)), waiters s e)"

text \<open>No task waits while the count is positive.\<close>

definition sem_inv :: "sem \<Rightarrow> bool" where
  "sem_inv x \<longleftrightarrow> fst x < 65536 \<and> (fst x > 0 \<longrightarrow> snd x = {})"

definition sem_post :: "sem \<Rightarrow> sem" where
  "sem_post x = (if snd x \<noteq> {} then (fst x, snd x - {Min (snd x)})
                 else if fst x < 65535 then (fst x + 1, snd x) else x)"

definition sem_pend :: "nat \<Rightarrow> sem \<Rightarrow> sem" where
  "sem_pend p x = (if fst x > 0 then (fst x - 1, snd x) else (fst x, insert p (snd x)))"

lemma sem_post_inv: "sem_inv x \<Longrightarrow> sem_inv (sem_post x)"
  by (auto simp: sem_inv_def sem_post_def)

lemma sem_pend_inv: "sem_inv x \<Longrightarrow> sem_inv (sem_pend p x)"
  by (auto simp: sem_inv_def sem_pend_def)

definition is_sem :: "os_state \<Rightarrow> ptr \<Rightarrow> bool" where
  "is_sem s e \<longleftrightarrow> e \<noteq> NULL \<and> OSEventType (OSEvents s e) = OS_EVENT_TYPE_SEM"

lemma sem_upd_cnt:
  assumes "is_sem s e" and "kernel_ok s"
  shows "kernel_ok (upd_event e (\<lambda>ev. ev\<lparr>OSEventCnt := f ev\<rparr>) s)"
  using assms by (intro kernel_ok_upd_event) (auto simp: is_sem_def)

lemma sem_abs_upd_cnt:
  "sem_abs (upd_event e (\<lambda>ev. ev\<lparr>OSEventCnt := f ev\<rparr>) s) e = (unat (f (OSEvents s e)), waiters s e)"
  by (simp add: sem_abs_def waiters_def waits_def)

lemma minus_1_eq_65535: "- 1 = (65535::16 word)"
  by simp

lemma unat_less_65535: "(c::16 word) < 65535 \<Longrightarrow> unat (c + 1) = unat c + 1 \<and> unat c < 65535"
  by (simp add: word_less_nat_alt unat_word_ariths)

lemma sem_post_refines:
  assumes ok: "kernel_ok s" and sem: "is_sem s e"
  shows "kernel_ok (snd (OSSemPost e s))"
    and "sem_abs (snd (OSSemPost e s)) e = sem_post (sem_abs s e)"
    and "fst (OSSemPost e s) = (if waiters s e = {} \<and> OSEventCnt (OSEvents s e) = 65535
           then OS_ERR_SEM_OVF else OS_ERR_NONE)"
proof -
  note inv = kernel_okD(2) [OF ok]
  have e: "e \<noteq> NULL" and ty: "OSEventType (OSEvents s e) = OS_EVENT_TYPE_SEM"
    using sem by (auto simp: is_sem_def)
  have bit: "OS_STAT_SEM = event_stat (OSEventType (OSEvents s e))" by (simp add: ty event_stat_def)
  have top: "\<not> c < 65535 \<longleftrightarrow> c = (65535 :: 16 word)" for c
    unfolding minus_1_eq_65535 [symmetric] using word_order.not_eq_extremum [of c] by blast
  show "fst (OSSemPost e s) = (if waiters s e = {} \<and> OSEventCnt (OSEvents s e) = 65535
           then OS_ERR_SEM_OVF else OS_ERR_NONE)"
    using waiters_grp [OF inv, of e] top e ty by (auto simp: OSSemPost_def)
  show "kernel_ok (snd (OSSemPost e s))"
    using kernel_ok_Sched [OF data_ok_EventTaskRdy [OF kernel_okD(1) [OF ok] _ bit]]
      sem_upd_cnt [OF sem ok] ok
    by (auto simp: OSSemPost_def)
  show "sem_abs (snd (OSSemPost e s)) e = sem_post (sem_abs s e)"
  proof (cases "waiters s e = {}")
    case True
    then show ?thesis using waiters_grp [OF inv, of e] e ty unat_less_65535 top
      by (auto simp: OSSemPost_def sem_post_def sem_abs_upd_cnt) (auto simp: sem_abs_def)
  next
    case False
    then have grp: "OSEventGrp (OSEvents s e) \<noteq> 0" using waiters_grp [OF inv] by simp
    show ?thesis
      using False grp e ty waiters_EventTaskRdy(1) [OF inv grp, of NULL OS_STAT_SEM OS_STAT_PEND_OK]
        waiters_high [OF inv False]
      by (simp add: OSSemPost_def sem_post_def sem_abs_def waiters_def waits_def
          OS_EventTaskRdy_eq [OF inv grp refl])
  qed
qed

subsection \<open>Correctness of the services\<close>

lemma is_semD: "is_sem s e \<Longrightarrow> e \<noteq> NULL \<and> OSEventType (OSEvents s e) = OS_EVENT_TYPE_SEM
    \<and> OS_STAT_SEM = event_stat (OSEventType (OSEvents s e))"
  by (simp add: is_sem_def event_stat_def)

lemma sem_pend_refines:
  assumes ok: "kernel_ok s" and uc: "user_code s" and lock: "OSLockNesting s = 0" and sem: "is_sem s e"
    and pd: "OSSemPend e timeout s = (res, s')"
  shows "kernel_ok s'" and "sem_abs s' e = sem_pend (OSPrioCur s) (sem_abs s e)"
    and "res = (if OSEventCnt (OSEvents s e) > 0 then Some OS_ERR_NONE else None)"
    and "res = None \<Longrightarrow> \<not> rdy s' (OSPrioCur s) \<and> OSPrioCur s' \<noteq> OSPrioCur s"
proof -
  have nest: "OSIntNesting s = 0" using uc by (simp add: user_code_def)
  note sD = is_semD [OF sem]
  have eq: "(res, s') = (if OSEventCnt (OSEvents s e) > 0
     then (Some OS_ERR_NONE, upd_event e (\<lambda>ev. ev\<lparr>OSEventCnt := OSEventCnt ev - 1\<rparr>) s)
     else (None, OS_Sched (event_block OS_STAT_SEM e timeout s)))"
    using pd sD nest lock by (simp add: OSSemPend_def)
  note blk = event_block_ok [OF ok uc lock _ _ _ refl, where e = e and b = OS_STAT_SEM and timeout = timeout]
  have "kernel_ok s' \<and> sem_abs s' e = sem_pend (OSPrioCur s) (sem_abs s e)
    \<and> res = (if OSEventCnt (OSEvents s e) > 0 then Some OS_ERR_NONE else None)
    \<and> (res = None \<longrightarrow> \<not> rdy s' (OSPrioCur s) \<and> OSPrioCur s' \<noteq> OSPrioCur s)"
  proof (cases "OSEventCnt (OSEvents s e) > 0")
    case True
    then have "unat (OSEventCnt (OSEvents s e)) > 0" by (simp add: word_less_nat_alt)
    with True eq sem_upd_cnt [OF sem ok] show ?thesis
      by (simp add: sem_abs_upd_cnt sem_pend_def unat_word_pred)
        (simp add: sem_abs_def)
  next
    case False
    then have "unat (OSEventCnt (OSEvents s e)) = 0" by (simp add: word_less_nat_alt)
    with False eq blk sD show ?thesis
      by (simp add: sem_abs_def sem_pend_def)
  qed
  then show "kernel_ok s'" and "sem_abs s' e = sem_pend (OSPrioCur s) (sem_abs s e)"
    and "res = (if OSEventCnt (OSEvents s e) > 0 then Some OS_ERR_NONE else None)"
    and "res = None \<Longrightarrow> \<not> rdy s' (OSPrioCur s) \<and> OSPrioCur s' \<noteq> OSPrioCur s"
    by blast+
qed

text \<open>
  C3 A post acts on the abstract semaphore as specified: it wakes the waiter with the highest
  priority, else adds a token, else (65535 tokens) reports the overflow; and it keeps the kernel
  invariant, the scheduling promise included.
\<close>

theorem OSSemPost_correct:
  assumes "kernel_ok s" and "is_sem s e"
  shows "kernel_ok (snd (OSSemPost e s)) \<and> sem_abs (snd (OSSemPost e s)) e = sem_post (sem_abs s e)
    \<and> fst (OSSemPost e s) = (if sem_abs s e = (65535, {}) then OS_ERR_SEM_OVF else OS_ERR_NONE)"
proof -
  have "OSEventCnt (OSEvents s e) = 65535 \<longleftrightarrow> unat (OSEventCnt (OSEvents s e)) = 65535"
    by (simp add: word_unat_eq_iff)
  with sem_post_refines [OF assms] show ?thesis by (auto simp: sem_abs_def)
qed

lemma ex_is_sem: "is_sem (ex_state ep) 1" "is_sem (ex_state ep) 4"
  by (simp_all add: is_sem_def ex_state_def)

theorem OSSemPost_correct_witness:
  "sem_abs (snd (OSSemPost 1 (ex_state 0))) 1 = (0, {}) \<and> kernel_ok (snd (OSSemPost 1 (ex_state 0)))"
  using OSSemPost_correct [OF ex_kernel_ok ex_is_sem(1), of 0]
  by (simp add: sem_abs_def sem_post_def ex_waiters) (simp add: ex_state_simps)

text \<open>
  C4 A pend by the running task takes a token when there is one; otherwise the task joins the
  waiters, is no longer ready, and another task runs.  The kernel invariant is kept.
\<close>

theorem OSSemPend_correct:
  assumes "kernel_ok s" and "user_code s" and "OSLockNesting s = 0" and "is_sem s e"
    and "OSSemPend e timeout s = (res, s')"
  shows "kernel_ok s' \<and> sem_abs s' e = sem_pend (OSPrioCur s) (sem_abs s e)
    \<and> res = (if fst (sem_abs s e) > 0 then Some OS_ERR_NONE else None)
    \<and> (res = None \<longrightarrow> \<not> rdy s' (OSPrioCur s) \<and> OSPrioCur s' \<noteq> OSPrioCur s)"
  using sem_pend_refines [OF assms] by (auto simp: sem_abs_def word_less_nat_alt)

theorem OSSemPend_correct_witness:
  "fst (OSSemPend 4 7 (ex_state 0)) = Some OS_ERR_NONE \<and> fst (OSSemPend 1 7 (ex_state 0)) = None
    \<and> sem_abs (snd (OSSemPend 1 7 (ex_state 0))) 1 = (0, {4, 10})"
proof -
  have lock: "OSLockNesting (ex_state 0) = 0" by (simp add: ex_state_simps)
  note c = OSSemPend_correct [OF ex_kernel_ok ex_user_code lock _ surjective_pairing]
  have "sem_abs (ex_state 0) 4 = (2, {})" "sem_abs (ex_state 0) 1 = (0, {10})" "OSPrioCur (ex_state 0) = 4"
    by (simp_all add: sem_abs_def ex_waiters) (simp_all add: ex_state_simps)
  then show ?thesis
    using c [OF ex_is_sem(2), of 7] c [OF ex_is_sem(1), of 7] by (auto simp: sem_pend_def)
qed

lemma OSSemPend_resume_ok:
  assumes "kernel_ok s" and "OSIntNesting s = 0" and "OSLockNesting s = 0"
    and "OSTCBEventPtr (task_at s (OSPrioCur s)) = e"
    and "OSSemPend_resume e s = (perr, s')"
  shows "kernel_ok s' \<and> OSPrioCur s' = OSPrioCur s \<and> (\<forall>e'. \<not> waits s' e' (OSPrioCur s))
    \<and> OSTCBStat (task_at s' (OSPrioCur s)) = OS_STAT_RDY
    \<and> sem_abs s' e = (fst (sem_abs s e), snd (sem_abs s e) - {OSPrioCur s})
    \<and> perr = (if OSTCBStatPend (task_at s (OSPrioCur s)) = OS_STAT_PEND_OK then OS_ERR_NONE
              else if OSTCBStatPend (task_at s (OSPrioCur s)) = OS_STAT_PEND_ABORT then OS_ERR_PEND_ABORT
              else OS_ERR_TIMEOUT)"
  using event_pend_end_ok [OF assms(1-4) assms(5) [unfolded OSSemPend_resume_def]]
  by (simp add: sem_abs_def)

lemma OSSemAccept_ok:
  assumes "kernel_ok s" and "is_sem s e"
  shows "kernel_ok (snd (OSSemAccept e s))"
    and "sem_abs (snd (OSSemAccept e s)) e = (fst (sem_abs s e) - 1, waiters s e)"
    and "unat (fst (OSSemAccept e s)) = fst (sem_abs s e)"
  using assms sem_upd_cnt [OF assms(2,1)] is_semD [OF assms(2)]
  by (auto simp: OSSemAccept_def Let_def sem_abs_upd_cnt unat_word_pred)
    (auto simp: sem_abs_def Let_def word_less_nat_alt)

lemma OSSemSet_ok:
  assumes "kernel_ok s" and "is_sem s e"
  shows "kernel_ok (snd (OSSemSet e cnt s))"
    and "fst (OSSemSet e cnt s) = (if fst (sem_abs s e) = 0 \<and> snd (sem_abs s e) \<noteq> {}
           then OS_ERR_TASK_WAITING else OS_ERR_NONE)"
    and "fst (OSSemSet e cnt s) = OS_ERR_NONE \<Longrightarrow> sem_abs (snd (OSSemSet e cnt s)) e = (unat cnt, waiters s e)"
    and "fst (OSSemSet e cnt s) \<noteq> OS_ERR_NONE \<Longrightarrow> snd (OSSemSet e cnt s) = s"
proof -
  note W = waiters_grp [OF kernel_okD(2) [OF assms(1)], of e]
  show "kernel_ok (snd (OSSemSet e cnt s))"
    using assms sem_upd_cnt [OF assms(2,1)] by (auto simp: OSSemSet_def)
  show "fst (OSSemSet e cnt s) = (if fst (sem_abs s e) = 0 \<and> snd (sem_abs s e) \<noteq> {}
           then OS_ERR_TASK_WAITING else OS_ERR_NONE)"
    using W is_semD [OF assms(2)] by (auto simp: OSSemSet_def sem_abs_def word_less_nat_alt)
  show "fst (OSSemSet e cnt s) = OS_ERR_NONE \<Longrightarrow> sem_abs (snd (OSSemSet e cnt s)) e = (unat cnt, waiters s e)"
    using is_semD [OF assms(2)] by (auto simp: OSSemSet_def sem_abs_upd_cnt split: if_splits)
  show "fst (OSSemSet e cnt s) \<noteq> OS_ERR_NONE \<Longrightarrow> snd (OSSemSet e cnt s) = s"
    using is_semD [OF assms(2)] by (auto simp: OSSemSet_def split: if_splits)
qed

text \<open>No operation on a semaphore lets tasks wait while tokens are left.\<close>

lemma sem_inv_post: "kernel_ok s \<Longrightarrow> is_sem s e \<Longrightarrow> sem_inv (sem_abs s e) \<Longrightarrow> sem_inv (sem_abs (snd (OSSemPost e s)) e)"
  by (simp add: sem_post_refines sem_post_inv)

lemma sem_inv_set:
  assumes "kernel_ok s" and "is_sem s e" and "sem_inv (sem_abs s e)"
  shows "sem_inv (sem_abs (snd (OSSemSet e cnt s)) e)"
proof (cases "fst (OSSemSet e cnt s) = OS_ERR_NONE")
  case True
  then have "\<not> (fst (sem_abs s e) = 0 \<and> snd (sem_abs s e) \<noteq> {})"
    using OSSemSet_ok(2) [OF assms(1,2), of cnt] by (simp split: if_splits)
  with assms(3) have "waiters s e = {}" by (auto simp: sem_inv_def sem_abs_def)
  with True show ?thesis
    using OSSemSet_ok(3) [OF assms(1,2) True] unsigned_less [of cnt, where 'a = nat]
    by (simp add: sem_inv_def)
next
  case False
  with OSSemSet_ok(4) [OF assms(1,2) False] assms(3) show ?thesis by simp
qed

lemma OSSemCreate_ok:
  assumes ok: "kernel_ok s" and cr: "OSSemCreate cnt s = (e, s')"
  shows "kernel_ok s'" and "e \<noteq> NULL \<Longrightarrow> is_sem s' e \<and> sem_abs s' e = (unat cnt, {})"
    and "e \<noteq> NULL \<Longrightarrow> OSEventType (OSEvents s e) = OS_EVENT_TYPE_UNUSED \<and> (\<forall>e'. e' \<noteq> e \<longrightarrow> OSEvents s' e' = OSEvents s e')"
    and "e = NULL \<Longrightarrow> s' = s \<and> (OSIntNesting s > 0 \<or> OSEventFreeList s = NULL)"
proof -
  obtain e1 s1 where al: "event_alloc s = (e1, s1)" by (cases "event_alloc s")
  have eq: "OSIntNesting s = 0 \<Longrightarrow> e = e1 \<and> (e \<noteq> NULL \<longrightarrow> s' = upd_event e (\<lambda>ev. set_event_map bm_empty
      (ev\<lparr>OSEventType := OS_EVENT_TYPE_SEM, OSEventCnt := cnt, OSEventPtr := NULL, OSEventName := ''?''\<rparr>)) s1)"
    using cr by (auto simp: OSSemCreate_def al OS_EventWaitListInit_def upd_event_def split: if_splits)
  have null: "e = NULL \<longrightarrow> s' = s \<and> (OSIntNesting s > 0 \<or> OSEventFreeList s = NULL)"
    and isr: "OSIntNesting s \<noteq> 0 \<longrightarrow> e = NULL"
    using cr al by (auto simp: OSSemCreate_def event_alloc_def Let_def word_neq_0_conv split: if_splits)
  show "s' = s \<and> (OSIntNesting s > 0 \<or> OSEventFreeList s = NULL)" if "e = NULL"
    using null that by simp
  note new = kernel_ok_event_new [OF ok al]
  have s1: "OSEvents s1 = OSEvents s" using al by (auto simp: event_alloc_def Let_def split: if_splits)
  show "kernel_ok s'"
    using null isr eq new(3) [of OS_EVENT_TYPE_SEM] ok by (cases "e = NULL") auto
  show "is_sem s' e \<and> sem_abs s' e = (unat cnt, {})" if "e \<noteq> NULL"
    using that isr eq by (auto simp: is_sem_def sem_abs_def waiters_def waits_def)
  show "OSEventType (OSEvents s e) = OS_EVENT_TYPE_UNUSED \<and> (\<forall>e'. e' \<noteq> e \<longrightarrow> OSEvents s' e' = OSEvents s e')"
    if "e \<noteq> NULL"
    using that isr eq new(1) s1 by auto
qed

text \<open>
  Deleting a semaphore ends for every option.  It gives the block back to the free list, wakes
  every waiter first when asked to (\<open>OS_DEL_ALWAYS\<close>), refuses when tasks wait (\<open>OS_DEL_NO_PEND\<close>),
  and leaves the state alone when it reports an error.
\<close>

lemma OSSemDel_correct:
  assumes "kernel_ok s" and "is_sem s e" and "OSIntNesting s = 0"
  shows "\<exists>r perr s'. OSSemDel e opt s = Some (r, perr, s') \<and> kernel_ok s'
      \<and> (perr = OS_ERR_NONE \<longrightarrow> r = NULL \<and> OSEventType (OSEvents s' e) = OS_EVENT_TYPE_UNUSED
           \<and> OSEventFreeList s' = e)
      \<and> (perr \<noteq> OS_ERR_NONE \<longrightarrow> r = e \<and> s' = s)
      \<and> (opt = OS_DEL_ALWAYS \<longrightarrow> perr = OS_ERR_NONE)
      \<and> (opt = OS_DEL_NO_PEND \<longrightarrow> (perr = OS_ERR_NONE \<longleftrightarrow> waiters s e = {}))"
  using event_del_ok [OF assms(1), of OS_STAT_SEM e opt] is_semD [OF assms(2)] assms(3)
  by (simp add: OSSemDel_def)

lemma OSSemDel_correct_example:
  "\<exists>r s'. OSSemDel 1 OS_DEL_ALWAYS (ex_state 0) = Some (r, OS_ERR_NONE, s') \<and> kernel_ok s'"
proof -
  have "OSIntNesting (ex_state 0) = 0" by (simp add: ex_state_simps)
  from OSSemDel_correct [OF ex_kernel_ok ex_is_sem(1) this, of OS_DEL_ALWAYS] show ?thesis by auto
qed

lemma OSSemPendAbort_ok:
  assumes "kernel_ok s" and "is_sem s e"
  shows "\<exists>n perr s'. OSSemPendAbort e opt s = Some (n, perr, s') \<and> kernel_ok s'
      \<and> n = (if opt = OS_PEND_OPT_BROADCAST then of_nat (card (waiters s e))
              else if waiters s e = {} then 0 else 1)
      \<and> perr = (if waiters s e = {} then OS_ERR_NONE else OS_ERR_PEND_ABORT)
      \<and> (waiters s e = {} \<longrightarrow> s' = s)"
  using event_pend_abort_ok [OF assms(1), of OS_STAT_SEM e opt] is_semD [OF assms(2)]
  by (simp add: OSSemPendAbort_def)

end
