(* ===== verification/OS_Tmr.thy ===== *)
theory OS_Tmr
  imports Scheduler Linked_List Free_List OS_Sem
begin

text \<open>
  Software timers (\<open>os_tmr.c\<close>): sixteen timers, a list of the unused ones and a wheel of eight
  doubly linked lists; a running timer is in the spoke of the time at which it expires.  The timer
  task, woken by every timer tick, examines one spoke and calls the callback of each timer that
  expires.  Callbacks are functions of the application: an argument of the model, from the address
  of the function, the timer and the argument to a change of the kernel's state and of the
  application's own (of any type).  \<open>None\<close> stands for the dereference of a null pointer and
  for a callback or a loop that does not return.
\<close>

type_synonym 'w tmr_callback = "ptr \<Rightarrow> ptr \<Rightarrow> ptr \<Rightarrow> os_state \<times> 'w \<Rightarrow> (os_state \<times> 'w) option"

abbreviation (input) OS_TMR_LINK_DLY :: INT8U where "OS_TMR_LINK_DLY \<equiv> 0"
abbreviation (input) OS_TMR_LINK_PERIODIC :: INT8U where "OS_TMR_LINK_PERIODIC \<equiv> 1"

definition upd_tmr :: "ptr \<Rightarrow> (OS_TMR \<Rightarrow> OS_TMR) \<Rightarrow> os_state \<Rightarrow> os_state" where
  "upd_tmr t f s = s\<lparr>OSTmrTbl := (OSTmrTbl s)(t := f (OSTmrTbl s t))\<rparr>"

definition upd_wheel :: "nat \<Rightarrow> (OS_TMR_WHEEL \<Rightarrow> OS_TMR_WHEEL) \<Rightarrow> os_state \<Rightarrow> os_state" where
  "upd_wheel k f s = s\<lparr>OSTmrWheelTbl := (OSTmrWheelTbl s)(k := f (OSTmrWheelTbl s k))\<rparr>"

definition tmr_spoke :: "INT32U \<Rightarrow> nat" where
  "tmr_spoke m = unat (m mod OS_TMR_CFG_WHEEL_SIZE)"

subsection \<open>The free list and the wheel\<close>

definition OSTmr_Alloc :: "os_state \<Rightarrow> ptr \<times> os_state" where
  "OSTmr_Alloc s =
     (if OSTmrFreeList s = NULL then (NULL, s)
      else (let ptmr = OSTmrFreeList s;
                s1 = s\<lparr>OSTmrFreeList := OSTmrNext (OSTmrTbl s ptmr)\<rparr>;
                s2 = upd_tmr ptmr (\<lambda>t. t\<lparr>OSTmrNext := NULL, OSTmrPrev := NULL\<rparr>) s1
            in (ptmr, s2\<lparr>OSTmrUsed := OSTmrUsed s2 + 1, OSTmrFree := OSTmrFree s2 - 1\<rparr>)))"

definition OSTmr_Free :: "ptr \<Rightarrow> os_state \<Rightarrow> os_state" where
  "OSTmr_Free ptmr s =
     (let s1 = upd_tmr ptmr (\<lambda>t. t\<lparr>OSTmrState := OS_TMR_STATE_UNUSED, OSTmrOpt := OS_TMR_OPT_NONE,
                 OSTmrPeriod := 0, OSTmrMatch := 0, OSTmrCallback := NULL, OSTmrCallbackArg := NULL,
                 OSTmrName := ''?'', OSTmrPrev := NULL, OSTmrNext := OSTmrFreeList s\<rparr>) s
      in s1\<lparr>OSTmrFreeList := ptmr, OSTmrUsed := OSTmrUsed s1 - 1, OSTmrFree := OSTmrFree s1 + 1\<rparr>)"

definition OSTmr_Link :: "ptr \<Rightarrow> INT8U \<Rightarrow> os_state \<Rightarrow> os_state" where
  "OSTmr_Link ptmr type s =
     (let s1 = upd_tmr ptmr (\<lambda>t. t\<lparr>OSTmrState := OS_TMR_STATE_RUNNING\<rparr>) s;
          s2 = (if type = OS_TMR_LINK_PERIODIC
                then upd_tmr ptmr (\<lambda>t. t\<lparr>OSTmrMatch := OSTmrPeriod t + OSTmrTime s1\<rparr>) s1
                else if OSTmrDly (OSTmrTbl s1 ptmr) = 0
                then upd_tmr ptmr (\<lambda>t. t\<lparr>OSTmrMatch := OSTmrPeriod t + OSTmrTime s1\<rparr>) s1
                else upd_tmr ptmr (\<lambda>t. t\<lparr>OSTmrMatch := OSTmrDly t + OSTmrTime s1\<rparr>) s1);
          spoke = tmr_spoke (OSTmrMatch (OSTmrTbl s2 ptmr));
          s3 = (if OSTmrFirst (OSTmrWheelTbl s2 spoke) = NULL
                then upd_wheel spoke (\<lambda>w. w\<lparr>OSTmrEntries := 1\<rparr>)
                       (upd_tmr ptmr (\<lambda>t. t\<lparr>OSTmrNext := NULL\<rparr>)
                         (upd_wheel spoke (\<lambda>w. w\<lparr>OSTmrFirst := ptmr\<rparr>) s2))
                else (let ptmr1 = OSTmrFirst (OSTmrWheelTbl s2 spoke)
                      in upd_wheel spoke (\<lambda>w. w\<lparr>OSTmrEntries := OSTmrEntries w + 1\<rparr>)
                           (upd_tmr ptmr1 (\<lambda>t. t\<lparr>OSTmrPrev := ptmr\<rparr>)
                             (upd_tmr ptmr (\<lambda>t. t\<lparr>OSTmrNext := ptmr1\<rparr>)
                               (upd_wheel spoke (\<lambda>w. w\<lparr>OSTmrFirst := ptmr\<rparr>) s2)))))
      in upd_tmr ptmr (\<lambda>t. t\<lparr>OSTmrPrev := NULL\<rparr>) s3)"

definition OSTmr_Unlink :: "ptr \<Rightarrow> os_state \<Rightarrow> os_state option" where
  "OSTmr_Unlink ptmr s =
     (let spoke = tmr_spoke (OSTmrMatch (OSTmrTbl s ptmr));
          linked = (if OSTmrFirst (OSTmrWheelTbl s spoke) = ptmr
            then (let ptmr1 = OSTmrNext (OSTmrTbl s ptmr);
                      s1 = upd_wheel spoke (\<lambda>w. w\<lparr>OSTmrFirst := ptmr1\<rparr>) s
                  in Some (if ptmr1 \<noteq> NULL then upd_tmr ptmr1 (\<lambda>t. t\<lparr>OSTmrPrev := NULL\<rparr>) s1 else s1))
            else (let ptmr1 = OSTmrPrev (OSTmrTbl s ptmr);
                      ptmr2 = OSTmrNext (OSTmrTbl s ptmr)
                  in if ptmr1 = NULL then None
                     else (let s1 = upd_tmr ptmr1 (\<lambda>t. t\<lparr>OSTmrNext := ptmr2\<rparr>) s
                           in Some (if ptmr2 \<noteq> NULL
                                    then upd_tmr ptmr2 (\<lambda>t. t\<lparr>OSTmrPrev := ptmr1\<rparr>) s1 else s1))))
      in map_option (\<lambda>s2. upd_wheel spoke (\<lambda>w. w\<lparr>OSTmrEntries := OSTmrEntries w - 1\<rparr>)
           (upd_tmr ptmr (\<lambda>t. t\<lparr>OSTmrState := OS_TMR_STATE_STOPPED, OSTmrNext := NULL, OSTmrPrev := NULL\<rparr>) s2))
           linked)"

subsection \<open>The services\<close>

definition OSTmrCreate ::
  "INT32U \<Rightarrow> INT32U \<Rightarrow> INT8U \<Rightarrow> ptr \<Rightarrow> ptr \<Rightarrow> string option \<Rightarrow> os_state \<Rightarrow> ptr \<times> INT8U \<times> os_state" where
  "OSTmrCreate dly period opt callback callback_arg pname s =
     (if opt = OS_TMR_OPT_PERIODIC \<and> period = 0 then (NULL, OS_ERR_TMR_INVALID_PERIOD, s)
      else if opt = OS_TMR_OPT_ONE_SHOT \<and> dly = 0 then (NULL, OS_ERR_TMR_INVALID_DLY, s)
      else if opt \<noteq> OS_TMR_OPT_PERIODIC \<and> opt \<noteq> OS_TMR_OPT_ONE_SHOT then (NULL, OS_ERR_TMR_INVALID_OPT, s)
      else if OSIntNesting s > 0 then (NULL, OS_ERR_TMR_ISR, s)
      else (let (ptmr, s1) = OSTmr_Alloc (OSSchedLock s)
            in if ptmr = NULL then (NULL, OS_ERR_TMR_NON_AVAIL, OSSchedUnlock s1)
               else (let s2 = upd_tmr ptmr (\<lambda>t. t\<lparr>OSTmrState := OS_TMR_STATE_STOPPED, OSTmrDly := dly,
                           OSTmrPeriod := period, OSTmrOpt := opt, OSTmrCallback := callback,
                           OSTmrCallbackArg := callback_arg,
                           OSTmrName := (case pname of None \<Rightarrow> ''?'' | Some nm \<Rightarrow> nm)\<rparr>) s1
                     in (ptmr, OS_ERR_NONE, OSSchedUnlock s2))))"

definition OSTmrDel :: "ptr \<Rightarrow> os_state \<Rightarrow> (bool \<times> INT8U \<times> os_state) option" where
  "OSTmrDel ptmr s =
     (if ptmr = NULL then Some (False, OS_ERR_TMR_INVALID, s)
      else if OSTmrType (OSTmrTbl s ptmr) \<noteq> OS_TMR_TYPE then Some (False, OS_ERR_TMR_INVALID_TYPE, s)
      else if OSIntNesting s > 0 then Some (False, OS_ERR_TMR_ISR, s)
      else (let s1 = OSSchedLock s; state = OSTmrState (OSTmrTbl s1 ptmr)
            in if state = OS_TMR_STATE_RUNNING
               then map_option (\<lambda>s2. (True, OS_ERR_NONE, OSSchedUnlock (OSTmr_Free ptmr s2))) (OSTmr_Unlink ptmr s1)
               else if state = OS_TMR_STATE_STOPPED \<or> state = OS_TMR_STATE_COMPLETED
               then Some (True, OS_ERR_NONE, OSSchedUnlock (OSTmr_Free ptmr s1))
               else if state = OS_TMR_STATE_UNUSED then Some (False, OS_ERR_TMR_INACTIVE, OSSchedUnlock s1)
               else Some (False, OS_ERR_TMR_INVALID_STATE, OSSchedUnlock s1)))"

definition OSTmrNameGet :: "ptr \<Rightarrow> ptr \<Rightarrow> os_state \<Rightarrow> INT8U \<times> string option \<times> INT8U \<times> os_state" where
  "OSTmrNameGet ptmr pdest s =
     (if pdest = NULL then (0, None, OS_ERR_TMR_INVALID_DEST, s)
      else if ptmr = NULL then (0, None, OS_ERR_TMR_INVALID, s)
      else if OSTmrType (OSTmrTbl s ptmr) \<noteq> OS_TMR_TYPE then (0, None, OS_ERR_TMR_INVALID_TYPE, s)
      else if OSIntNesting s > 0 then (0, None, OS_ERR_NAME_GET_ISR, s)
      else (let s1 = OSSchedLock s; state = OSTmrState (OSTmrTbl s1 ptmr)
            in if state = OS_TMR_STATE_RUNNING \<or> state = OS_TMR_STATE_STOPPED \<or> state = OS_TMR_STATE_COMPLETED
               then (let nm = OSTmrName (OSTmrTbl s1 ptmr)
                     in (OS_StrLen (Some nm), Some nm, OS_ERR_NONE, OSSchedUnlock s1))
               else if state = OS_TMR_STATE_UNUSED then (0, None, OS_ERR_TMR_INACTIVE, OSSchedUnlock s1)
               else (0, None, OS_ERR_TMR_INVALID_STATE, OSSchedUnlock s1)))"

definition OSTmrRemainGet :: "ptr \<Rightarrow> os_state \<Rightarrow> INT32U \<times> INT8U \<times> os_state" where
  "OSTmrRemainGet ptmr s =
     (if ptmr = NULL then (0, OS_ERR_TMR_INVALID, s)
      else if OSTmrType (OSTmrTbl s ptmr) \<noteq> OS_TMR_TYPE then (0, OS_ERR_TMR_INVALID_TYPE, s)
      else if OSIntNesting s > 0 then (0, OS_ERR_TMR_ISR, s)
      else (let s1 = OSSchedLock s; t = OSTmrTbl s1 ptmr
            in if OSTmrState t = OS_TMR_STATE_RUNNING
               then (OSTmrMatch t - OSTmrTime s1, OS_ERR_NONE, OSSchedUnlock s1)
               else if OSTmrState t = OS_TMR_STATE_STOPPED
               then (if OSTmrOpt t = OS_TMR_OPT_PERIODIC \<and> OSTmrDly t = 0 then OSTmrPeriod t else OSTmrDly t,
                     OS_ERR_NONE, OSSchedUnlock s1)
               else if OSTmrState t = OS_TMR_STATE_COMPLETED then (0, OS_ERR_NONE, OSSchedUnlock s1)
               else if OSTmrState t = OS_TMR_STATE_UNUSED then (0, OS_ERR_TMR_INACTIVE, OSSchedUnlock s1)
               else (0, OS_ERR_TMR_INVALID_STATE, OSSchedUnlock s1)))"

definition OSTmrStateGet :: "ptr \<Rightarrow> os_state \<Rightarrow> INT8U \<times> INT8U \<times> os_state" where
  "OSTmrStateGet ptmr s =
     (if ptmr = NULL then (0, OS_ERR_TMR_INVALID, s)
      else if OSTmrType (OSTmrTbl s ptmr) \<noteq> OS_TMR_TYPE then (0, OS_ERR_TMR_INVALID_TYPE, s)
      else if OSIntNesting s > 0 then (0, OS_ERR_TMR_ISR, s)
      else (let s1 = OSSchedLock s; state = OSTmrState (OSTmrTbl s1 ptmr)
            in (state,
                if state \<in> {OS_TMR_STATE_UNUSED, OS_TMR_STATE_STOPPED, OS_TMR_STATE_COMPLETED, OS_TMR_STATE_RUNNING}
                then OS_ERR_NONE else OS_ERR_TMR_INVALID_STATE, OSSchedUnlock s1)))"

definition OSTmrStart :: "ptr \<Rightarrow> os_state \<Rightarrow> (bool \<times> INT8U \<times> os_state) option" where
  "OSTmrStart ptmr s =
     (if ptmr = NULL then Some (False, OS_ERR_TMR_INVALID, s)
      else if OSTmrType (OSTmrTbl s ptmr) \<noteq> OS_TMR_TYPE then Some (False, OS_ERR_TMR_INVALID_TYPE, s)
      else if OSIntNesting s > 0 then Some (False, OS_ERR_TMR_ISR, s)
      else (let s1 = OSSchedLock s; state = OSTmrState (OSTmrTbl s1 ptmr)
            in if state = OS_TMR_STATE_RUNNING
               then map_option (\<lambda>s2. (True, OS_ERR_NONE, OSSchedUnlock (OSTmr_Link ptmr OS_TMR_LINK_DLY s2)))
                      (OSTmr_Unlink ptmr s1)
               else if state = OS_TMR_STATE_STOPPED \<or> state = OS_TMR_STATE_COMPLETED
               then Some (True, OS_ERR_NONE, OSSchedUnlock (OSTmr_Link ptmr OS_TMR_LINK_DLY s1))
               else if state = OS_TMR_STATE_UNUSED then Some (False, OS_ERR_TMR_INACTIVE, OSSchedUnlock s1)
               else Some (False, OS_ERR_TMR_INVALID_STATE, OSSchedUnlock s1)))"

definition tmr_call :: "'w tmr_callback \<Rightarrow> ptr \<Rightarrow> ptr \<Rightarrow> os_state \<times> 'w \<Rightarrow> (bool \<times> os_state \<times> 'w) option" where
  "tmr_call cb ptmr arg sw =
     (let pfnct = OSTmrCallback (OSTmrTbl (fst sw) ptmr)
      in if pfnct \<noteq> NULL then map_option (\<lambda>sw'. (True, sw')) (cb pfnct ptmr arg sw) else Some (False, sw))"

definition OSTmrStop ::
  "'w tmr_callback \<Rightarrow> ptr \<Rightarrow> INT8U \<Rightarrow> ptr \<Rightarrow> os_state \<times> 'w \<Rightarrow> (bool \<times> INT8U \<times> os_state \<times> 'w) option" where
  "OSTmrStop cb ptmr opt callback_arg sw =
     (let s = fst sw; w = snd sw
      in if ptmr = NULL then Some (False, OS_ERR_TMR_INVALID, s, w)
         else if OSTmrType (OSTmrTbl s ptmr) \<noteq> OS_TMR_TYPE then Some (False, OS_ERR_TMR_INVALID_TYPE, s, w)
         else if OSIntNesting s > 0 then Some (False, OS_ERR_TMR_ISR, s, w)
         else (let s1 = OSSchedLock s; state = OSTmrState (OSTmrTbl s1 ptmr)
               in if state = OS_TMR_STATE_RUNNING
                  then (case OSTmr_Unlink ptmr s1 of
                          None \<Rightarrow> None
                        | Some s2 \<Rightarrow>
                            if opt = OS_TMR_OPT_CALLBACK \<or> opt = OS_TMR_OPT_CALLBACK_ARG
                            then map_option (\<lambda>(called, s3, w3).
                                   (True, if called then OS_ERR_NONE else OS_ERR_TMR_NO_CALLBACK, OSSchedUnlock s3, w3))
                                   (tmr_call cb ptmr (if opt = OS_TMR_OPT_CALLBACK
                                      then OSTmrCallbackArg (OSTmrTbl s2 ptmr) else callback_arg) (s2, w))
                            else Some (True, if opt = OS_TMR_OPT_NONE then OS_ERR_NONE else OS_ERR_TMR_INVALID_OPT,
                                       OSSchedUnlock s2, w))
                  else if state = OS_TMR_STATE_COMPLETED \<or> state = OS_TMR_STATE_STOPPED
                  then Some (True, OS_ERR_TMR_STOPPED, OSSchedUnlock s1, w)
                  else if state = OS_TMR_STATE_UNUSED then Some (False, OS_ERR_TMR_INACTIVE, OSSchedUnlock s1, w)
                  else Some (False, OS_ERR_TMR_INVALID_STATE, OSSchedUnlock s1, w)))"

subsection \<open>The timer task\<close>

text \<open>The body of the loop over a spoke, and the loop.\<close>

definition tmr_visit :: "'w tmr_callback \<Rightarrow> ptr \<Rightarrow> os_state \<times> 'w \<Rightarrow> (os_state \<times> 'w) option" where
  "tmr_visit cb ptmr sw =
     (let s = fst sw; w = snd sw
      in if OSTmrTime s = OSTmrMatch (OSTmrTbl s ptmr)
         then (case OSTmr_Unlink ptmr s of
                 None \<Rightarrow> None
               | Some s1 \<Rightarrow>
                   (let s2 = (if OSTmrOpt (OSTmrTbl s1 ptmr) = OS_TMR_OPT_PERIODIC
                              then OSTmr_Link ptmr OS_TMR_LINK_PERIODIC s1
                              else upd_tmr ptmr (\<lambda>t. t\<lparr>OSTmrState := OS_TMR_STATE_COMPLETED\<rparr>) s1)
                    in map_option snd (tmr_call cb ptmr (OSTmrCallbackArg (OSTmrTbl s2 ptmr)) (s2, w))))
         else Some sw)"

partial_function (option) tmr_scan :: "'w tmr_callback \<Rightarrow> ptr \<Rightarrow> os_state \<times> 'w \<Rightarrow> (os_state \<times> 'w) option" where
  "tmr_scan cb ptmr sw =
     (if ptmr \<noteq> NULL
      then (let ptmr_next = OSTmrNext (OSTmrTbl (fst sw) ptmr)
            in case tmr_visit cb ptmr sw of None \<Rightarrow> None | Some sw' \<Rightarrow> tmr_scan cb ptmr_next sw')
      else Some sw)"

text \<open>
  One iteration of \<open>OSTmr_Task\<close> after \<open>OSSemPend(OSTmrSemSignal, 0u, &err)\<close> has returned; the pend
  itself is \<open>OSTmr_Task_wait\<close>.
\<close>

definition OSTmr_Task_wait :: "os_state \<Rightarrow> INT8U option \<times> os_state" where
  "OSTmr_Task_wait s = OSSemPend (OSTmrSemSignal s) 0 s"

definition OSTmr_Task :: "'w tmr_callback \<Rightarrow> os_state \<times> 'w \<Rightarrow> (os_state \<times> 'w) option" where
  "OSTmr_Task cb sw =
     (let s1 = OSSchedLock (fst sw);
          s2 = s1\<lparr>OSTmrTime := OSTmrTime s1 + 1\<rparr>;
          spoke = tmr_spoke (OSTmrTime s2)
      in map_option (\<lambda>sw'. (OSSchedUnlock (fst sw'), snd sw'))
           (tmr_scan cb (OSTmrFirst (OSTmrWheelTbl s2 spoke)) (s2, snd sw)))"

subsection \<open>The wheel invariant\<close>

text \<open>
  \<open>tmr_inv s fl sp\<close>: the free list holds the unused timers \<open>fl\<close>, spoke \<open>k\<close> the timers \<open>sp k\<close>; a timer
  is in a spoke exactly when it runs, and then in the spoke of its expiry time.  \<open>tmr_view\<close> is a
  timer without its links, the state the services are specified on.
\<close>

definition tmr_strip :: "OS_TMR \<Rightarrow> OS_TMR" where
  "tmr_strip r = r\<lparr>OSTmrNext := 0, OSTmrPrev := 0\<rparr>"

definition tmr_view :: "os_state \<Rightarrow> ptr \<Rightarrow> OS_TMR" where
  "tmr_view s t = tmr_strip (OSTmrTbl s t)"

definition tmr_ok :: "OS_TMR \<Rightarrow> bool" where
  "tmr_ok r \<longleftrightarrow> OSTmrType r = OS_TMR_TYPE
     \<and> OSTmrState r \<in> {OS_TMR_STATE_UNUSED, OS_TMR_STATE_STOPPED, OS_TMR_STATE_COMPLETED, OS_TMR_STATE_RUNNING}
     \<and> (OSTmrState r \<noteq> OS_TMR_STATE_UNUSED \<longrightarrow>
          (OSTmrOpt r = OS_TMR_OPT_PERIODIC \<and> OSTmrPeriod r \<noteq> 0) \<or> (OSTmrOpt r = OS_TMR_OPT_ONE_SHOT \<and> OSTmrDly r \<noteq> 0))"

definition tmr_in :: "os_state \<Rightarrow> nat \<Rightarrow> ptr \<Rightarrow> bool" where
  "tmr_in s k t \<longleftrightarrow> 1 \<le> t \<and> t \<le> OS_TMR_CFG_MAX \<and> OSTmrState (OSTmrTbl s t) = OS_TMR_STATE_RUNNING
     \<and> tmr_spoke (OSTmrMatch (OSTmrTbl s t)) = k"

definition tmr_list :: "os_state \<Rightarrow> nat \<Rightarrow> ptr list \<Rightarrow> bool" where
  "tmr_list s k ts \<longleftrightarrow>
     dll (\<lambda>t. OSTmrNext (OSTmrTbl s t)) (\<lambda>t. OSTmrPrev (OSTmrTbl s t)) 0 (OSTmrFirst (OSTmrWheelTbl s k)) ts
     \<and> distinct ts \<and> OSTmrEntries (OSTmrWheelTbl s k) = of_nat (length ts)"

definition tmr_free :: "os_state \<Rightarrow> ptr list \<Rightarrow> bool" where
  "tmr_free s fl \<longleftrightarrow> path (\<lambda>t. OSTmrNext (OSTmrTbl s t)) (OSTmrFreeList s) fl \<and> distinct fl
     \<and> set fl \<subseteq> {1..OS_TMR_CFG_MAX} \<and> OSTmrFree s = of_nat (length fl)
     \<and> OSTmrUsed s = of_nat OS_TMR_CFG_MAX - of_nat (length fl)"

definition tmr_inv :: "os_state \<Rightarrow> ptr list \<Rightarrow> (nat \<Rightarrow> ptr list) \<Rightarrow> bool" where
  "tmr_inv s fl sp \<longleftrightarrow> tmr_free s fl
     \<and> (\<forall>k<8. tmr_list s k (sp k) \<and> (\<forall>t\<in>set (sp k). tmr_in s k t))
     \<and> (\<forall>t. 1 \<le> t \<and> t \<le> OS_TMR_CFG_MAX \<longrightarrow> tmr_ok (OSTmrTbl s t)
          \<and> (OSTmrState (OSTmrTbl s t) = OS_TMR_STATE_UNUSED \<longleftrightarrow> t \<in> set fl)
          \<and> (OSTmrState (OSTmrTbl s t) = OS_TMR_STATE_RUNNING \<longrightarrow>
               t \<in> set (sp (tmr_spoke (OSTmrMatch (OSTmrTbl s t))))))"

text \<open>The parts of the state the timers live in.\<close>

definition tmr_same :: "os_state \<Rightarrow> os_state \<Rightarrow> bool" where
  "tmr_same s s' \<longleftrightarrow> OSTmrTbl s = OSTmrTbl s' \<and> OSTmrWheelTbl s = OSTmrWheelTbl s'
     \<and> OSTmrFreeList s = OSTmrFreeList s' \<and> OSTmrUsed s = OSTmrUsed s' \<and> OSTmrFree s = OSTmrFree s'
     \<and> OSTmrTime s = OSTmrTime s'"

lemma tmr_same_refl [simp]: "tmr_same s s"
  by (simp add: tmr_same_def)

lemma tmr_same_Lock [simp]: "tmr_same (OSSchedLock s) s"
  by (simp add: tmr_same_def OSSchedLock_def)

lemma tmr_same_Sched: "tmr_same (OS_Sched s) s"
  by (simp add: tmr_same_def OS_Sched_def OS_SchedNew_def PendSV_Handler_def Let_def)

lemma tmr_same_trans: "tmr_same s s' \<Longrightarrow> tmr_same s' s'' \<Longrightarrow> tmr_same s s''"
  by (simp add: tmr_same_def)

lemma tmr_same_Unlock [simp]: "tmr_same (OSSchedUnlock s) s"
proof -
  have "tmr_same (s\<lparr>OSLockNesting := n\<rparr>) s" for n by (simp add: tmr_same_def)
  then have "tmr_same (OS_Sched (s\<lparr>OSLockNesting := n\<rparr>)) s" for n
    using tmr_same_trans [OF tmr_same_Sched] by blast
  then show ?thesis by (simp add: OSSchedUnlock_def Let_def tmr_same_def)
qed

lemma tmr_inv_cong: "tmr_same s s' \<Longrightarrow> tmr_inv s fl sp = tmr_inv s' fl sp"
  by (simp add: tmr_same_def tmr_inv_def tmr_free_def tmr_list_def tmr_in_def)

lemma tmr_same_view: "tmr_same s s' \<Longrightarrow> tmr_view s = tmr_view s'"
  by (simp add: tmr_same_def tmr_view_def fun_eq_iff)

lemma tmr_same_simps:
  assumes "tmr_same s s'"
  shows "OSTmrTbl s = OSTmrTbl s'" and "OSTmrTime s = OSTmrTime s'"
  using assms by (simp_all add: tmr_same_def)

lemma tmr_view_sel [simp]:
  "OSTmrState (tmr_view s t) = OSTmrState (OSTmrTbl s t)"
  "OSTmrMatch (tmr_view s t) = OSTmrMatch (OSTmrTbl s t)"
  "OSTmrOpt (tmr_view s t) = OSTmrOpt (OSTmrTbl s t)"
  "OSTmrType (tmr_view s t) = OSTmrType (OSTmrTbl s t)"
  "OSTmrDly (tmr_view s t) = OSTmrDly (OSTmrTbl s t)"
  "OSTmrPeriod (tmr_view s t) = OSTmrPeriod (OSTmrTbl s t)"
  "OSTmrCallback (tmr_view s t) = OSTmrCallback (OSTmrTbl s t)"
  "OSTmrCallbackArg (tmr_view s t) = OSTmrCallbackArg (OSTmrTbl s t)"
  "OSTmrName (tmr_view s t) = OSTmrName (OSTmrTbl s t)"
  by (simp_all add: tmr_view_def tmr_strip_def)

lemma tmr_spoke_less [simp]: "tmr_spoke m < 8"
  by (simp add: tmr_spoke_def unat_mod)

lemma tmr_inv_list: "tmr_inv s fl sp \<Longrightarrow> k < 8 \<Longrightarrow> tmr_list s k (sp k)"
  by (simp add: tmr_inv_def)

lemma tmr_inv_in: "tmr_inv s fl sp \<Longrightarrow> k < 8 \<Longrightarrow> t \<in> set (sp k) \<Longrightarrow> tmr_in s k t"
  by (simp add: tmr_inv_def)

lemma tmr_inv_disj:
  assumes "tmr_inv s fl sp" and "k < 8" and "t \<in> set (sp k)"
  shows "j < 8 \<Longrightarrow> t \<in> set (sp j) \<Longrightarrow> j = k" and "t \<notin> set fl"
proof -
  show "t \<in> set (sp j) \<Longrightarrow> j = k" if "j < 8"
    using tmr_inv_in [OF assms(1)] assms(2,3) that by (auto simp: tmr_in_def)
  have "tmr_in s k t" using assms by (rule tmr_inv_in)
  then have "OSTmrState (OSTmrTbl s t) \<noteq> OS_TMR_STATE_UNUSED" "1 \<le> t" "t \<le> OS_TMR_CFG_MAX"
    by (simp_all add: tmr_in_def)
  then show "t \<notin> set fl" using assms(1) by (auto simp: tmr_inv_def)
qed

lemma tmr_inv_pool:
  assumes "tmr_inv s fl sp" and "1 \<le> t" and "t \<le> OS_TMR_CFG_MAX"
  shows "tmr_ok (OSTmrTbl s t)" and "OSTmrState (OSTmrTbl s t) = OS_TMR_STATE_UNUSED \<longleftrightarrow> t \<in> set fl"
    and "OSTmrState (OSTmrTbl s t) = OS_TMR_STATE_RUNNING \<Longrightarrow>
      t \<in> set (sp (tmr_spoke (OSTmrMatch (OSTmrTbl s t))))"
  using assms by (simp_all add: tmr_inv_def)

lemma tmr_invI:
  assumes "tmr_free s fl" and "\<And>k. k < 8 \<Longrightarrow> tmr_list s k (sp k)"
    and "\<And>k t. k < 8 \<Longrightarrow> t \<in> set (sp k) \<Longrightarrow> tmr_in s k t"
    and "\<And>t. 1 \<le> t \<Longrightarrow> t \<le> OS_TMR_CFG_MAX \<Longrightarrow> tmr_ok (OSTmrTbl s t)
      \<and> (OSTmrState (OSTmrTbl s t) = OS_TMR_STATE_UNUSED \<longleftrightarrow> t \<in> set fl)
      \<and> (OSTmrState (OSTmrTbl s t) = OS_TMR_STATE_RUNNING \<longrightarrow> t \<in> set (sp (tmr_spoke (OSTmrMatch (OSTmrTbl s t)))))"
  shows "tmr_inv s fl sp"
  using assms by (simp add: tmr_inv_def)

subsection \<open>Unlinking and linking keep the wheel\<close>

text \<open>\<open>relink\<close> is a store of timers with new links and otherwise unchanged.\<close>

definition relink :: "(ptr \<Rightarrow> ptr) \<Rightarrow> (ptr \<Rightarrow> ptr) \<Rightarrow> (ptr \<Rightarrow> OS_TMR) \<Rightarrow> ptr \<Rightarrow> OS_TMR" where
  "relink nx pv tbl t = (tbl t)\<lparr>OSTmrNext := nx t, OSTmrPrev := pv t\<rparr>"

lemma OSTmr_Unlink_eq:
  fixes s t
  defines "nx \<equiv> \<lambda>t. OSTmrNext (OSTmrTbl s t)" and "pv \<equiv> \<lambda>t. OSTmrPrev (OSTmrTbl s t)"
    and "k \<equiv> tmr_spoke (OSTmrMatch (OSTmrTbl s t))"
  assumes l: "tmr_list s k (as @ t # bs)"
  shows "OSTmr_Unlink t s = Some (s\<lparr>
      OSTmrTbl := relink ((next_unlink nx pv t)(t := 0)) ((prev_unlink nx pv t)(t := 0))
        ((OSTmrTbl s)(t := (OSTmrTbl s t)\<lparr>OSTmrState := OS_TMR_STATE_STOPPED\<rparr>)),
      OSTmrWheelTbl := (OSTmrWheelTbl s)(k := \<lparr>OSTmrFirst = (if pv t = 0 then nx t else OSTmrFirst (OSTmrWheelTbl s k)),
        OSTmrEntries = OSTmrEntries (OSTmrWheelTbl s k) - 1\<rparr>)\<rparr>)"
proof -
  have d: "dll nx pv 0 (OSTmrFirst (OSTmrWheelTbl s k)) (as @ t # bs)" and dist: "distinct (as @ t # bs)"
    using l by (simp_all add: tmr_list_def nx_def pv_def)
  note L = dll_links [OF d]
  have first: "OSTmrFirst (OSTmrWheelTbl s k) = t \<longleftrightarrow> pv t = 0"
  proof (cases "as = []")
    case True
    then show ?thesis using dll_hd [OF d] L by simp
  next
    case False
    then have "last as \<in> set as" "hd as \<in> set as" by simp_all
    then have "last as \<noteq> 0" "hd as \<noteq> t" using dll_nonzero [OF d] dist by auto
    then show ?thesis using False dll_hd [OF d] L by simp
  qed
  have self: "pv t \<noteq> t" "nx t \<noteq> t" using unlink_self [OF d dist] .
  have "relink ((next_unlink nx pv t)(t := 0)) ((prev_unlink nx pv t)(t := 0))
          ((OSTmrTbl s)(t := (OSTmrTbl s t)\<lparr>OSTmrState := OS_TMR_STATE_STOPPED\<rparr>))
      = (\<lambda>u. if u = t then (OSTmrTbl s t)\<lparr>OSTmrState := OS_TMR_STATE_STOPPED, OSTmrNext := 0, OSTmrPrev := 0\<rparr>
             else (OSTmrTbl s u)\<lparr>OSTmrNext := (if pv t \<noteq> 0 \<and> u = pv t then nx t else nx u),
                    OSTmrPrev := (if nx t \<noteq> 0 \<and> u = nx t then pv t else pv u)\<rparr>)"
    by (auto simp: relink_def next_unlink_def prev_unlink_def fun_eq_iff)
  with self first show ?thesis
    unfolding OSTmr_Unlink_def Let_def k_def [symmetric]
    by (auto simp: upd_tmr_def upd_wheel_def nx_def pv_def fun_eq_iff)
qed


lemma tmr_view_relink [simp]:
  "tmr_view (s\<lparr>OSTmrTbl := relink nx pv tbl, OSTmrWheelTbl := wh\<rparr>) = (\<lambda>t. tmr_strip (tbl t))"
  by (simp add: tmr_view_def relink_def tmr_strip_def fun_eq_iff)

lemma tmr_strip_upd [simp]:
  "tmr_strip (r\<lparr>OSTmrState := x\<rparr>) = (tmr_strip r)\<lparr>OSTmrState := x\<rparr>"
  "tmr_strip (r\<lparr>OSTmrMatch := m\<rparr>) = (tmr_strip r)\<lparr>OSTmrMatch := m\<rparr>"
  by (simp_all add: tmr_strip_def)

lemma tmr_relink_sel [simp]:
  "OSTmrNext (relink nx pv tbl t) = nx t" "OSTmrPrev (relink nx pv tbl t) = pv t"
  "OSTmrState (relink nx pv tbl t) = OSTmrState (tbl t)" "OSTmrMatch (relink nx pv tbl t) = OSTmrMatch (tbl t)"
  "tmr_ok (relink nx pv tbl t) = tmr_ok (tbl t)"
  by (simp_all add: relink_def tmr_ok_def)

definition stopped :: "OS_TMR \<Rightarrow> OS_TMR" where
  "stopped r = r\<lparr>OSTmrState := OS_TMR_STATE_STOPPED\<rparr>"

lemma tmr_ok_stopped: "tmr_ok r \<Longrightarrow> OSTmrState r = OS_TMR_STATE_RUNNING \<Longrightarrow> tmr_ok (stopped r)"
  by (simp add: tmr_ok_def stopped_def)

text \<open>The lists away from the changed nodes are the same lists.\<close>

lemma tmr_list_cong:
  assumes "\<And>u. u \<in> set us \<Longrightarrow> OSTmrNext (OSTmrTbl s' u) = OSTmrNext (OSTmrTbl s u)
      \<and> OSTmrPrev (OSTmrTbl s' u) = OSTmrPrev (OSTmrTbl s u)"
    and "OSTmrWheelTbl s' j = OSTmrWheelTbl s j"
  shows "tmr_list s' j us = tmr_list s j us"
  unfolding tmr_list_def assms(2) using assms(1) dll_cong [of us] by (metis (no_types, lifting))

lemma tmr_free_cong:
  assumes "\<And>u. u \<in> set fl \<Longrightarrow> OSTmrNext (OSTmrTbl s' u) = OSTmrNext (OSTmrTbl s u)"
    and "OSTmrFreeList s' = OSTmrFreeList s" "OSTmrUsed s' = OSTmrUsed s" "OSTmrFree s' = OSTmrFree s"
  shows "tmr_free s' fl = tmr_free s fl"
  unfolding tmr_free_def assms(2-4) using assms(1) path_cong [of fl] by (metis (no_types, lifting))

lemma tmr_unlink:
  assumes inv: "tmr_inv s fl sp" and k: "k < 8" and sp: "sp k = as @ t # bs"
  obtains tbl wh s' where "OSTmr_Unlink t s = Some s'" and "s' = s\<lparr>OSTmrTbl := tbl, OSTmrWheelTbl := wh\<rparr>"
    and "tmr_inv s' fl (sp(k := as @ bs))" and "tmr_view s' = (tmr_view s)(t := stopped (tmr_view s t))"
    and "OSTmrPrev (OSTmrTbl s' t) = NULL"
proof -
  let ?nx = "\<lambda>t. OSTmrNext (OSTmrTbl s t)" and ?pv = "\<lambda>t. OSTmrPrev (OSTmrTbl s t)"
  let ?nx' = "(next_unlink ?nx ?pv t)(t := 0)" and ?pv' = "(prev_unlink ?nx ?pv t)(t := 0)"
  let ?tbl = "relink ?nx' ?pv' ((OSTmrTbl s)(t := stopped (OSTmrTbl s t)))"
  let ?w = "OSTmrWheelTbl s k"
  let ?wh = "(OSTmrWheelTbl s)(k := \<lparr>OSTmrFirst = (if ?pv t = 0 then ?nx t else OSTmrFirst ?w), OSTmrEntries = OSTmrEntries ?w - 1\<rparr>)"
  let ?s = "s\<lparr>OSTmrTbl := ?tbl, OSTmrWheelTbl := ?wh\<rparr>"
  have l: "tmr_list s k (as @ t # bs)" using tmr_inv_list [OF inv k] sp by simp
  have t: "tmr_in s k t" using tmr_inv_in [OF inv k] sp by simp
  then have mk: "tmr_spoke (OSTmrMatch (OSTmrTbl s t)) = k" by (simp add: tmr_in_def)
  have u: "OSTmr_Unlink t s = Some ?s"
    using OSTmr_Unlink_eq [of s t as bs] l unfolding mk stopped_def by simp
  have d: "dll ?nx ?pv 0 (OSTmrFirst ?w) (as @ t # bs)" and dist: "distinct (as @ t # bs)"
    and en: "OSTmrEntries ?w = of_nat (length (as @ t # bs))"
    using l by (simp_all add: tmr_list_def)
  have near: "?pv t \<noteq> 0 \<Longrightarrow> ?pv t \<in> set (sp k)" "?nx t \<noteq> 0 \<Longrightarrow> ?nx t \<in> set (sp k)"
    using dll_links [OF d] by (auto simp: sp split: if_splits)
  have far: "?nx' u = ?nx u \<and> ?pv' u = ?pv u" if "u \<notin> set (sp k)" for u
    using that near by (auto simp: sp next_unlink_def prev_unlink_def)
  have other: "u \<notin> set (sp k)" if "u \<in> set (sp j)" "j < 8" "j \<noteq> k" for u j
    using tmr_inv_disj(1) [OF inv k] that by blast
  have fr: "u \<notin> set (sp k)" if "u \<in> set fl" for u using tmr_inv_disj(2) [OF inv k] that by blast
  have "dll ?nx' ?pv' 0 (if ?pv t = 0 then ?nx t else OSTmrFirst ?w) (as @ bs)"
    using dll_unlink [OF d dist] dist by (subst dll_cong [where nx' = "next_unlink ?nx ?pv t"
        and pv' = "prev_unlink ?nx ?pv t"]) auto
  moreover have "(\<lambda>u. OSTmrNext (OSTmrTbl ?s u)) = ?nx'" and "(\<lambda>u. OSTmrPrev (OSTmrTbl ?s u)) = ?pv'"
    by (simp_all add: fun_eq_iff)
  moreover have "OSTmrFirst (OSTmrWheelTbl ?s k) = (if ?pv t = 0 then ?nx t else OSTmrFirst ?w)"
    and "OSTmrEntries (OSTmrWheelTbl ?s k) = of_nat (length (as @ bs))"
    using en by simp_all
  ultimately have lk: "tmr_list ?s k (as @ bs)"
    using dist unfolding tmr_list_def by (simp only: distinct_append distinct.simps) simp
  have lj: "tmr_list ?s j (sp j)" if "j < 8" "j \<noteq> k" for j
    using that tmr_inv_list [OF inv] other far by (subst tmr_list_cong [of _ _ s]) auto
  have ff: "tmr_free ?s fl"
    using inv fr far by (subst tmr_free_cong [of _ _ s]) (auto simp: tmr_inv_def)
  have ins: "tmr_in ?s j u" if "j < 8" "u \<in> set ((sp(k := as @ bs)) j)" for j u
  proof -
    have "u \<noteq> t" "u \<in> set (sp j)" using that dist other [of t j] by (auto simp: sp split: if_splits)
    then show ?thesis using tmr_inv_in [OF inv that(1)] by (simp add: tmr_in_def)
  qed
  have pool: "tmr_ok (?tbl u) \<and> (OSTmrState (?tbl u) = OS_TMR_STATE_UNUSED \<longleftrightarrow> u \<in> set fl)
      \<and> (OSTmrState (?tbl u) = OS_TMR_STATE_RUNNING \<longrightarrow> u \<in> set ((sp(k := as @ bs)) (tmr_spoke (OSTmrMatch (?tbl u)))))"
    if "1 \<le> u" "u \<le> OS_TMR_CFG_MAX" for u
  proof (cases "u = t")
    case True
    then show ?thesis using t tmr_inv_pool [OF inv that] tmr_ok_stopped fr [of t] sp
      by (auto simp: tmr_in_def stopped_def)
  next
    case False
    then show ?thesis using tmr_inv_pool [OF inv that] sp by auto
  qed
  have "tmr_inv ?s fl (sp(k := as @ bs))"
  proof (rule tmr_invI [OF ff _ ins])
    fix j :: nat
    assume j: "j < 8"
    show "tmr_list ?s j ((sp(k := as @ bs)) j)"
    proof (cases "j = k")
      case True
      then show ?thesis using lk by (simp only: fun_upd_same [of sp])
    next
      case False
      then show ?thesis using lj [OF j] by (simp only: fun_upd_other [OF False, of sp] not_False_eq_True)
    qed
  next
    fix u :: ptr
    assume "1 \<le> u" and "u \<le> OS_TMR_CFG_MAX"
    then show "tmr_ok (OSTmrTbl ?s u)
      \<and> (OSTmrState (OSTmrTbl ?s u) = OS_TMR_STATE_UNUSED \<longleftrightarrow> u \<in> set fl)
      \<and> (OSTmrState (OSTmrTbl ?s u) = OS_TMR_STATE_RUNNING \<longrightarrow>
           u \<in> set ((sp(k := as @ bs)) (tmr_spoke (OSTmrMatch (OSTmrTbl ?s u)))))"
      using pool [of u] by simp
  qed
  moreover have "tmr_view ?s = (tmr_view s)(t := stopped (tmr_view s t))"
    by (auto simp: tmr_view_def stopped_def)
  moreover have "OSTmrPrev (OSTmrTbl ?s t) = NULL" by simp
  ultimately show ?thesis using that u by blast
qed

definition link_match :: "INT8U \<Rightarrow> INT32U \<Rightarrow> OS_TMR \<Rightarrow> INT32U" where
  "link_match type now r =
     (if type \<noteq> OS_TMR_LINK_PERIODIC \<and> OSTmrDly r \<noteq> 0 then OSTmrDly r else OSTmrPeriod r) + now"

definition started :: "INT8U \<Rightarrow> INT32U \<Rightarrow> OS_TMR \<Rightarrow> OS_TMR" where
  "started type now r = r\<lparr>OSTmrState := OS_TMR_STATE_RUNNING, OSTmrMatch := link_match type now r\<rparr>"

lemma started_sel [simp]:
  "OSTmrState (started ty now r) = OS_TMR_STATE_RUNNING"
  "OSTmrMatch (started ty now r) = link_match ty now r"
  "OSTmrOpt (started ty now r) = OSTmrOpt r"
  "OSTmrDly (started ty now r) = OSTmrDly r"
  "OSTmrPeriod (started ty now r) = OSTmrPeriod r"
  "OSTmrType (started ty now r) = OSTmrType r"
  "OSTmrCallback (started ty now r) = OSTmrCallback r"
  "OSTmrCallbackArg (started ty now r) = OSTmrCallbackArg r"
  "tmr_strip (started ty now r) = started ty now (tmr_strip r)"
  by (simp_all add: started_def tmr_strip_def link_match_def)

lemma OSTmr_Link_eq:
  fixes s t ty
  defines "nx \<equiv> \<lambda>t. OSTmrNext (OSTmrTbl s t)" and "pv \<equiv> \<lambda>t. OSTmrPrev (OSTmrTbl s t)"
    and "k \<equiv> tmr_spoke (link_match ty (OSTmrTime s) (OSTmrTbl s t))"
  assumes l: "tmr_list s k ts" and t: "t \<notin> set ts"
  shows "OSTmr_Link t ty s = s\<lparr>
      OSTmrTbl := relink (nx(t := OSTmrFirst (OSTmrWheelTbl s k)))
        ((if ts = [] then pv else pv(hd ts := t))(t := 0))
        ((OSTmrTbl s)(t := started ty (OSTmrTime s) (OSTmrTbl s t))),
      OSTmrWheelTbl := (OSTmrWheelTbl s)(k := \<lparr>OSTmrFirst = t, OSTmrEntries = OSTmrEntries (OSTmrWheelTbl s k) + 1\<rparr>)\<rparr>"
proof -
  let ?r = "started ty (OSTmrTime s) (OSTmrTbl s t)" and ?w = "OSTmrWheelTbl s k"
  have first: "OSTmrFirst ?w = (if ts = [] then 0 else hd ts)"
    using l dll_hd unfolding tmr_list_def by fast
  have nz: "OSTmrFirst ?w \<noteq> 0" "OSTmrFirst ?w \<noteq> t" if "ts \<noteq> []"
  proof -
    have "0 \<notin> set ts" using l dll_nonzero unfolding tmr_list_def by blast
    with that t have "hd ts \<noteq> 0" "hd ts \<noteq> t" by (cases ts; auto)+
    then show "OSTmrFirst ?w \<noteq> 0" "OSTmrFirst ?w \<noteq> t" using that first by simp_all
  qed
  have en: "OSTmrEntries ?w = 0" if "ts = []" using l that by (simp add: tmr_list_def)
  define s2 where "s2 = upd_tmr t (started ty (OSTmrTime s)) s"
  have e: "(if ty = OS_TMR_LINK_PERIODIC
      then upd_tmr t (\<lambda>u. u\<lparr>OSTmrMatch := OSTmrPeriod u + OSTmrTime (upd_tmr t (\<lambda>t. t\<lparr>OSTmrState := OS_TMR_STATE_RUNNING\<rparr>) s)\<rparr>)
             (upd_tmr t (\<lambda>t. t\<lparr>OSTmrState := OS_TMR_STATE_RUNNING\<rparr>) s)
      else if OSTmrDly (OSTmrTbl (upd_tmr t (\<lambda>t. t\<lparr>OSTmrState := OS_TMR_STATE_RUNNING\<rparr>) s) t) = 0
      then upd_tmr t (\<lambda>u. u\<lparr>OSTmrMatch := OSTmrPeriod u + OSTmrTime (upd_tmr t (\<lambda>t. t\<lparr>OSTmrState := OS_TMR_STATE_RUNNING\<rparr>) s)\<rparr>)
             (upd_tmr t (\<lambda>t. t\<lparr>OSTmrState := OS_TMR_STATE_RUNNING\<rparr>) s)
      else upd_tmr t (\<lambda>u. u\<lparr>OSTmrMatch := OSTmrDly u + OSTmrTime (upd_tmr t (\<lambda>t. t\<lparr>OSTmrState := OS_TMR_STATE_RUNNING\<rparr>) s)\<rparr>)
             (upd_tmr t (\<lambda>t. t\<lparr>OSTmrState := OS_TMR_STATE_RUNNING\<rparr>) s)) = s2"
    by (simp add: s2_def upd_tmr_def started_def link_match_def)
  have m: "OSTmrMatch (OSTmrTbl s2 t) = link_match ty (OSTmrTime s) (OSTmrTbl s t)"
    by (simp add: s2_def upd_tmr_def)
  have "OSTmr_Link t ty s = upd_tmr t (\<lambda>t. t\<lparr>OSTmrPrev := NULL\<rparr>)
      (if OSTmrFirst (OSTmrWheelTbl s2 k) = NULL
       then upd_wheel k (\<lambda>w. w\<lparr>OSTmrEntries := 1\<rparr>)
              (upd_tmr t (\<lambda>t. t\<lparr>OSTmrNext := NULL\<rparr>)
                (upd_wheel k (\<lambda>w. w\<lparr>OSTmrFirst := t\<rparr>) s2))
       else (let ptmr1 = OSTmrFirst (OSTmrWheelTbl s2 k)
             in upd_wheel k (\<lambda>w. w\<lparr>OSTmrEntries := OSTmrEntries w + 1\<rparr>)
                  (upd_tmr ptmr1 (\<lambda>u. u\<lparr>OSTmrPrev := t\<rparr>)
                    (upd_tmr t (\<lambda>t. t\<lparr>OSTmrNext := ptmr1\<rparr>)
                      (upd_wheel k (\<lambda>w. w\<lparr>OSTmrFirst := t\<rparr>) s2)))))"
    by (simp only: OSTmr_Link_def Let_def e m k_def)
  also have "\<dots> = s\<lparr>OSTmrTbl := relink (nx(t := OSTmrFirst ?w)) ((if ts = [] then pv else pv(hd ts := t))(t := 0))
        ((OSTmrTbl s)(t := ?r)),
      OSTmrWheelTbl := (OSTmrWheelTbl s)(k := \<lparr>OSTmrFirst = t, OSTmrEntries = OSTmrEntries ?w + 1\<rparr>)\<rparr>"
  proof (cases "ts = []")
    case True
    then show ?thesis using first en
      by (auto simp: s2_def upd_tmr_def upd_wheel_def relink_def nx_def pv_def fun_eq_iff)
  next
    case False
    then show ?thesis using first nz
      by (auto simp: s2_def Let_def upd_tmr_def upd_wheel_def relink_def nx_def pv_def fun_eq_iff)
  qed
  finally show ?thesis .
qed

lemma tmr_link:
  fixes s t ty
  defines "k \<equiv> tmr_spoke (link_match ty (OSTmrTime s) (OSTmrTbl s t))"
  assumes inv: "tmr_inv s fl sp" and t: "1 \<le> t" "t \<le> OS_TMR_CFG_MAX"
    and st: "OSTmrState (OSTmrTbl s t) \<in> {OS_TMR_STATE_STOPPED, OS_TMR_STATE_COMPLETED}"
  obtains tbl wh s' where "OSTmr_Link t ty s = s'" and "s' = s\<lparr>OSTmrTbl := tbl, OSTmrWheelTbl := wh\<rparr>"
    and "tmr_inv s' fl (sp(k := t # sp k))"
    and "tmr_view s' = (tmr_view s)(t := started ty (OSTmrTime s) (tmr_view s t))"
proof -
  have k: "k < 8" by (simp add: k_def)
  let ?nx = "\<lambda>t. OSTmrNext (OSTmrTbl s t)" and ?pv = "\<lambda>t. OSTmrPrev (OSTmrTbl s t)"
  let ?w = "OSTmrWheelTbl s k"
  let ?nx' = "?nx(t := OSTmrFirst ?w)" and ?pv' = "(if sp k = [] then ?pv else ?pv(hd (sp k) := t))(t := 0)"
  let ?r = "started ty (OSTmrTime s) (OSTmrTbl s t)"
  let ?tbl = "relink ?nx' ?pv' ((OSTmrTbl s)(t := ?r))"
  let ?wh = "(OSTmrWheelTbl s)(k := \<lparr>OSTmrFirst = t, OSTmrEntries = OSTmrEntries ?w + 1\<rparr>)"
  let ?s = "s\<lparr>OSTmrTbl := ?tbl, OSTmrWheelTbl := ?wh\<rparr>"
  have out: "t \<notin> set (sp j)" if "j < 8" for j
    using tmr_inv_in [OF inv that, of t] st by (auto simp: tmr_in_def)
  have tfl: "t \<notin> set fl" using tmr_inv_pool(2) [OF inv t] st by auto
  have l: "tmr_list s k (sp k)" using tmr_inv_list [OF inv k] .
  have u: "OSTmr_Link t ty s = ?s"
    using OSTmr_Link_eq [of s ty t "sp k"] l out [OF k] unfolding k_def by simp
  have d: "dll ?nx ?pv 0 (OSTmrFirst ?w) (sp k)" and dist: "distinct (sp k)"
    and en: "OSTmrEntries ?w = of_nat (length (sp k))"
    using l by (simp_all add: tmr_list_def)
  note h = dll_hd [OF d]
  have hd: "hd (sp k) \<in> set (sp k)" if "sp k \<noteq> []" using that by simp
  have other: "v \<notin> set (sp k)" if "v \<in> set (sp j)" "j < 8" "j \<noteq> k" for v j
    using tmr_inv_disj(1) [OF inv k] that by blast
  have fr: "v \<notin> set (sp k)" if "v \<in> set fl" for v using tmr_inv_disj(2) [OF inv k] that by blast
  have "dll ?nx' ?pv' 0 t (t # sp k)"
    by (rule dll_push [OF d _ out [OF k] dist]) (use t h hd out [OF k] in auto)
  moreover have "(\<lambda>v. OSTmrNext (OSTmrTbl ?s v)) = ?nx'" and "(\<lambda>v. OSTmrPrev (OSTmrTbl ?s v)) = ?pv'"
    by (simp_all add: fun_eq_iff)
  moreover have "OSTmrFirst (OSTmrWheelTbl ?s k) = t"
    and "OSTmrEntries (OSTmrWheelTbl ?s k) = of_nat (length (t # sp k))"
    using en by simp_all
  ultimately have lk: "tmr_list ?s k (t # sp k)"
    using dist out [OF k] unfolding tmr_list_def by (simp only: distinct.simps) simp
  have lj: "tmr_list ?s j (sp j)" if "j < 8" "j \<noteq> k" for j
  proof -
    have "v \<noteq> t \<and> (sp k \<noteq> [] \<longrightarrow> v \<noteq> hd (sp k))" if "v \<in> set (sp j)" for v
      using other [OF that \<open>j < 8\<close> \<open>j \<noteq> k\<close>] out [OF \<open>j < 8\<close>] hd that by auto
    then show ?thesis
      using that tmr_inv_list [OF inv that(1)] by (subst tmr_list_cong [of _ _ s]) auto
  qed
  have ff: "tmr_free ?s fl"
    using inv fr tfl by (subst tmr_free_cong [of _ _ s]) (auto simp: tmr_inv_def)
  have rs: "tmr_ok ?r" using tmr_inv_pool(1) [OF inv t] st by (auto simp: tmr_ok_def)
  have "tmr_inv ?s fl (sp(k := t # sp k))"
  proof (rule tmr_invI [OF ff])
    fix j :: nat
    assume j: "j < 8"
    show "tmr_list ?s j ((sp(k := t # sp k)) j)"
    proof (cases "j = k")
      case True
      then show ?thesis using lk by (simp only: fun_upd_same [of sp])
    next
      case False
      then show ?thesis using lj [OF j] by (simp only: fun_upd_other [OF False, of sp] not_False_eq_True)
    qed
  next
    fix j :: nat and v
    assume j: "j < 8" and v: "v \<in> set ((sp(k := t # sp k)) j)"
    show "tmr_in ?s j v"
    proof (cases "v = t")
      case True
      then have "j = k" using v out [OF j] by (auto split: if_splits)
      then show ?thesis using True t by (simp add: tmr_in_def k_def)
    next
      case False
      then have "v \<in> set (sp j)" using v by (auto split: if_splits)
      then show ?thesis using False tmr_inv_in [OF inv j] by (simp add: tmr_in_def)
    qed
  next
    fix v :: ptr
    assume v: "1 \<le> v" "v \<le> OS_TMR_CFG_MAX"
    show "tmr_ok (OSTmrTbl ?s v)
      \<and> (OSTmrState (OSTmrTbl ?s v) = OS_TMR_STATE_UNUSED \<longleftrightarrow> v \<in> set fl)
      \<and> (OSTmrState (OSTmrTbl ?s v) = OS_TMR_STATE_RUNNING \<longrightarrow>
           v \<in> set ((sp(k := t # sp k)) (tmr_spoke (OSTmrMatch (OSTmrTbl ?s v)))))"
    proof (cases "v = t")
      case True
      then show ?thesis using rs tfl by (simp add: k_def)
    next
      case False
      then show ?thesis using tmr_inv_pool [OF inv v] by auto
    qed
  qed
  moreover have "tmr_view ?s = (tmr_view s)(t := started ty (OSTmrTime s) (tmr_view s t))"
    by (auto simp: tmr_view_def)
  ultimately show ?thesis using that u by blast
qed

text \<open>A change of one timer that is in no spoke, before and after, keeps the wheel.\<close>

lemma tmr_idle_update:
  assumes inv: "tmr_inv s fl sp" and t: "1 \<le> t" "t \<le> OS_TMR_CFG_MAX"
    and st: "OSTmrState (OSTmrTbl s t) \<noteq> OS_TMR_STATE_RUNNING"
    and tbl: "OSTmrTbl s' = (OSTmrTbl s)(t := r)" and wh: "OSTmrWheelTbl s' = OSTmrWheelTbl s"
    and free: "tmr_free s' fl'" and r: "tmr_ok r" "OSTmrState r \<noteq> OS_TMR_STATE_RUNNING"
    and unused: "OSTmrState r = OS_TMR_STATE_UNUSED \<longleftrightarrow> t \<in> set fl'" and fl: "set fl' - {t} = set fl - {t}"
  shows "tmr_inv s' fl' sp"
proof (rule tmr_invI [OF free])
  have out: "t \<notin> set (sp j)" if "j < 8" for j
    using tmr_inv_in [OF inv that, of t] st by (auto simp: tmr_in_def)
  show "tmr_list s' j (sp j)" if j: "j < 8" for j
    using tmr_inv_list [OF inv j] out [OF j] by (subst tmr_list_cong [of _ _ s]) (auto simp: tbl wh)
  show "tmr_in s' j v" if j: "j < 8" "v \<in> set (sp j)" for j v
    using tmr_inv_in [OF inv j] out [of j] j by (auto simp: tmr_in_def tbl)
  show "tmr_ok (OSTmrTbl s' v)
      \<and> (OSTmrState (OSTmrTbl s' v) = OS_TMR_STATE_UNUSED \<longleftrightarrow> v \<in> set fl')
      \<and> (OSTmrState (OSTmrTbl s' v) = OS_TMR_STATE_RUNNING \<longrightarrow> v \<in> set (sp (tmr_spoke (OSTmrMatch (OSTmrTbl s' v)))))"
    if v: "1 \<le> v" "v \<le> OS_TMR_CFG_MAX" for v
    using tmr_inv_pool [OF inv v] r unused fl by (cases "v = t") (auto simp: tbl)
qed

lemma tmr_complete:
  assumes inv: "tmr_inv s fl sp" and t: "1 \<le> t" "t \<le> OS_TMR_CFG_MAX"
    and st: "OSTmrState (OSTmrTbl s t) = OS_TMR_STATE_STOPPED"
  shows "tmr_inv (upd_tmr t (\<lambda>r. r\<lparr>OSTmrState := OS_TMR_STATE_COMPLETED\<rparr>) s) fl sp"
    and "tmr_view (upd_tmr t (\<lambda>r. r\<lparr>OSTmrState := OS_TMR_STATE_COMPLETED\<rparr>) s)
      = (tmr_view s)(t := (tmr_view s t)\<lparr>OSTmrState := OS_TMR_STATE_COMPLETED\<rparr>)"
proof -
  let ?s = "upd_tmr t (\<lambda>r. r\<lparr>OSTmrState := OS_TMR_STATE_COMPLETED\<rparr>) s"
  show "tmr_view ?s = (tmr_view s)(t := (tmr_view s t)\<lparr>OSTmrState := OS_TMR_STATE_COMPLETED\<rparr>)"
    by (auto simp: tmr_view_def upd_tmr_def)
  have "tmr_free ?s fl"
    using inv by (subst tmr_free_cong [of _ _ s]) (auto simp: tmr_inv_def upd_tmr_def)
  then show "tmr_inv ?s fl sp"
    using tmr_inv_pool [OF inv t] st
    by (intro tmr_idle_update [OF inv t, where r = "(OSTmrTbl s t)\<lparr>OSTmrState := OS_TMR_STATE_COMPLETED\<rparr>"])
       (auto simp: upd_tmr_def tmr_ok_def)
qed

subsection \<open>One tick of the timer task\<close>

definition expire :: "INT32U \<Rightarrow> OS_TMR \<Rightarrow> OS_TMR" where
  "expire now r = (if OSTmrOpt r = OS_TMR_OPT_PERIODIC
     then r\<lparr>OSTmrState := OS_TMR_STATE_RUNNING, OSTmrMatch := OSTmrPeriod r + now\<rparr>
     else r\<lparr>OSTmrState := OS_TMR_STATE_COMPLETED\<rparr>)"

text \<open>
  The callbacks of the specification: they return, they may call any kernel service that leaves the
  timers alone, and what they do to the application's state is \<open>g\<close>.
\<close>

definition callbacks :: "'w tmr_callback \<Rightarrow> (ptr \<Rightarrow> ptr \<Rightarrow> ptr \<Rightarrow> 'w \<Rightarrow> 'w) \<Rightarrow> bool" where
  "callbacks cb g \<longleftrightarrow> (\<forall>f t a s w. \<exists>s'. cb f t a (s, w) = Some (s', g f t a w) \<and> tmr_same s' s)"

definition call_w :: "(ptr \<Rightarrow> ptr \<Rightarrow> ptr \<Rightarrow> 'w \<Rightarrow> 'w) \<Rightarrow> OS_TMR \<Rightarrow> ptr \<Rightarrow> 'w \<Rightarrow> 'w" where
  "call_w g r t w = (if OSTmrCallback r \<noteq> NULL then g (OSTmrCallback r) t (OSTmrCallbackArg r) w else w)"

lemma tmr_call_ok:
  assumes "callbacks cb g"
  obtains s' called where "tmr_call cb t (OSTmrCallbackArg (OSTmrTbl s t)) (s, w)
      = Some (called, s', call_w g (tmr_view s t) t w)" and "tmr_same s' s"
proof (cases "OSTmrCallback (OSTmrTbl s t) = NULL")
  case True
  then have "tmr_call cb t (OSTmrCallbackArg (OSTmrTbl s t)) (s, w)
      = Some (False, s, call_w g (tmr_view s t) t w)" by (simp add: tmr_call_def call_w_def)
  then show ?thesis by (rule that) simp
next
  case False
  let ?f = "OSTmrCallback (OSTmrTbl s t)" and ?a = "OSTmrCallbackArg (OSTmrTbl s t)"
  obtain s' where "cb ?f t ?a (s, w) = Some (s', g ?f t ?a w)" and sm: "tmr_same s' s"
    using assms unfolding callbacks_def by blast
  with False have "tmr_call cb t ?a (s, w) = Some (True, s', call_w g (tmr_view s t) t w)"
    by (simp add: tmr_call_def call_w_def)
  then show ?thesis using sm by (rule that)
qed

text \<open>A timer that is due leaves the wheel, or moves to its next expiry time, and then its callback is called.\<close>

lemma tmr_visit_fire:
  assumes inv: "tmr_inv s fl sp" and k: "k < 8" and sp: "sp k = as @ t # bs"
    and hit: "OSTmrTime s = OSTmrMatch (OSTmrTbl s t)"
  obtains s2 sp2 as2 where
    "tmr_visit cb t (s, w) = map_option snd (tmr_call cb t (OSTmrCallbackArg (OSTmrTbl s2 t)) (s2, w))"
    and "tmr_inv s2 fl sp2" and "sp2 k = as2 @ bs" and "OSTmrTime s2 = OSTmrTime s" and "OSIntNesting s2 = OSIntNesting s"
    and "tmr_view s2 = (tmr_view s)(t := expire (OSTmrTime s) (tmr_view s t))"
proof -
  obtain tbl1 wh1 s1 where u: "OSTmr_Unlink t s = Some s1" and s1: "s1 = s\<lparr>OSTmrTbl := tbl1, OSTmrWheelTbl := wh1\<rparr>"
    and inv1: "tmr_inv s1 fl (sp(k := as @ bs))" and v1: "tmr_view s1 = (tmr_view s)(t := stopped (tmr_view s t))"
    by (rule tmr_unlink [OF inv k sp])
  have now1: "OSTmrTime s1 = OSTmrTime s" "OSIntNesting s1 = OSIntNesting s" by (simp_all add: s1)
  have t: "1 \<le> t" "t \<le> OS_TMR_CFG_MAX" using tmr_inv_in [OF inv k, of t] sp by (simp_all add: tmr_in_def)
  have r1: "tmr_view s1 t = stopped (tmr_view s t)" by (simp add: v1)
  have st1: "OSTmrState (OSTmrTbl s1 t) = OS_TMR_STATE_STOPPED" and opt1: "OSTmrOpt (OSTmrTbl s1 t) = OSTmrOpt (tmr_view s t)"
    using arg_cong [OF r1, of OSTmrState] arg_cong [OF r1, of OSTmrOpt] by (simp_all add: stopped_def)
  define s2 where "s2 = (if OSTmrOpt (OSTmrTbl s1 t) = OS_TMR_OPT_PERIODIC
      then OSTmr_Link t OS_TMR_LINK_PERIODIC s1
      else upd_tmr t (\<lambda>t. t\<lparr>OSTmrState := OS_TMR_STATE_COMPLETED\<rparr>) s1)"
  have "\<exists>sp2 as2. tmr_inv s2 fl sp2 \<and> sp2 k = as2 @ bs \<and> OSTmrTime s2 = OSTmrTime s \<and> OSIntNesting s2 = OSIntNesting s
      \<and> tmr_view s2 = (tmr_view s)(t := expire (OSTmrTime s) (tmr_view s t))"
  proof (cases "OSTmrOpt (OSTmrTbl s1 t) = OS_TMR_OPT_PERIODIC")
    case True
    let ?k = "tmr_spoke (link_match OS_TMR_LINK_PERIODIC (OSTmrTime s1) (OSTmrTbl s1 t))"
    have "OSTmrState (OSTmrTbl s1 t) \<in> {OS_TMR_STATE_STOPPED, OS_TMR_STATE_COMPLETED}" using st1 by simp
    then obtain tbl2 wh2 s2' where "OSTmr_Link t OS_TMR_LINK_PERIODIC s1 = s2'"
      and s2': "s2' = s1\<lparr>OSTmrTbl := tbl2, OSTmrWheelTbl := wh2\<rparr>"
      and inv2: "tmr_inv s2' fl ((sp(k := as @ bs))(?k := t # (sp(k := as @ bs)) ?k))"
      and v2: "tmr_view s2' = (tmr_view s1)(t := started OS_TMR_LINK_PERIODIC (OSTmrTime s1) (tmr_view s1 t))"
      by (rule tmr_link [OF inv1 t])
    then have s2: "s2 = s2'" using True by (simp add: s2_def)
    have "OSTmrTime s2' = OSTmrTime s" "OSIntNesting s2' = OSIntNesting s" using s2' now1 by simp_all
    moreover have "started OS_TMR_LINK_PERIODIC (OSTmrTime s) (stopped (tmr_view s t)) = expire (OSTmrTime s) (tmr_view s t)"
      using True by (simp add: started_def stopped_def expire_def link_match_def opt1)
    moreover have "\<exists>as2. ((sp(k := as @ bs))(?k := t # (sp(k := as @ bs)) ?k)) k = as2 @ bs"
      by (cases "k = ?k") (auto intro: exI [of _ "t # as"])
    ultimately show ?thesis using inv2 v2 unfolding s2 v1 now1 by (metis fun_upd_same fun_upd_upd)
  next
    case False
    then have s2: "s2 = upd_tmr t (\<lambda>t. t\<lparr>OSTmrState := OS_TMR_STATE_COMPLETED\<rparr>) s1" by (simp add: s2_def)
    have "expire (OSTmrTime s) (tmr_view s t) = (stopped (tmr_view s t))\<lparr>OSTmrState := OS_TMR_STATE_COMPLETED\<rparr>"
      using False opt1 by (simp add: expire_def stopped_def)
    moreover have "OSTmrTime s2 = OSTmrTime s" "OSIntNesting s2 = OSIntNesting s" using now1 by (simp_all add: s2 upd_tmr_def)
    ultimately show ?thesis
      using tmr_complete [OF inv1 t st1] v1 unfolding s2 [symmetric]
      by (intro exI [of _ "sp(k := as @ bs)"] exI [of _ as]) simp
  qed
  moreover have "tmr_visit cb t (s, w) = map_option snd (tmr_call cb t (OSTmrCallbackArg (OSTmrTbl s2 t)) (s2, w))"
    using hit u by (simp add: tmr_visit_def s2_def [symmetric])
  ultimately show ?thesis using that by blast
qed

lemma tmr_visit_ok:
  assumes cb: "callbacks cb g" and inv: "tmr_inv s fl sp" and k: "k < 8" and sp: "sp k = as @ t # bs"
  defines "hit \<equiv> OSTmrTime s = OSTmrMatch (OSTmrTbl s t)"
  obtains s' sp' as' where
    "tmr_visit cb t (s, w) = Some (s', if hit then call_w g (tmr_view s t) t w else w)"
    and "tmr_inv s' fl sp'" and "sp' k = as' @ bs" and "OSTmrTime s' = OSTmrTime s"
    and "tmr_view s' = (if hit then (tmr_view s)(t := expire (OSTmrTime s) (tmr_view s t)) else tmr_view s)"
proof (cases hit)
  case False
  then show ?thesis using that [of s sp "as @ [t]"] inv sp by (simp add: tmr_visit_def hit_def)
next
  case True
  then have hit: "OSTmrTime s = OSTmrMatch (OSTmrTbl s t)" by (simp add: hit_def)
  obtain s2 sp2 as2 where vis: "tmr_visit cb t (s, w) = map_option snd (tmr_call cb t (OSTmrCallbackArg (OSTmrTbl s2 t)) (s2, w))"
    and inv2: "tmr_inv s2 fl sp2" and sp2: "sp2 k = as2 @ bs" and now2: "OSTmrTime s2 = OSTmrTime s"
    and v2: "tmr_view s2 = (tmr_view s)(t := expire (OSTmrTime s) (tmr_view s t))"
    by (rule tmr_visit_fire [OF inv k sp hit])
  obtain s' called where c: "tmr_call cb t (OSTmrCallbackArg (OSTmrTbl s2 t)) (s2, w)
      = Some (called, s', call_w g (tmr_view s2 t) t w)" and sm: "tmr_same s' s2"
    by (rule tmr_call_ok [OF cb])
  have "call_w g (tmr_view s2 t) t w = call_w g (tmr_view s t) t w"
    by (simp add: v2 expire_def call_w_def)
  with c vis have "tmr_visit cb t (s, w) = Some (s', call_w g (tmr_view s t) t w)" by simp
  then show ?thesis
    using that [of s' sp2 as2] True inv2 sp2 now2 v2 tmr_inv_cong [OF sm] tmr_same_view [OF sm] tmr_same_simps(2) [OF sm]
    by simp
qed

text \<open>The loop over the spoke handles exactly the timers that are due, in the order of the spoke.\<close>

lemma tmr_scan_ok:
  assumes "callbacks cb g" and "tmr_inv s fl sp" and "k < 8" and "sp k = as @ rest"
  shows "\<exists>s' sp'. tmr_scan cb (if rest = [] then NULL else hd rest) (s, w) = Some (s',
        fold (\<lambda>t. call_w g (tmr_view s t) t) (filter (\<lambda>t. OSTmrMatch (tmr_view s t) = OSTmrTime s) rest) w)
      \<and> tmr_inv s' fl sp' \<and> OSTmrTime s' = OSTmrTime s
      \<and> tmr_view s' = (\<lambda>t. if t \<in> set rest \<and> OSTmrMatch (tmr_view s t) = OSTmrTime s
          then expire (OSTmrTime s) (tmr_view s t) else tmr_view s t)"
  using assms(2,4)
proof (induction rest arbitrary: s sp as w)
  case Nil
  then show ?case by (auto simp: tmr_scan.simps)
next
  case (Cons t rest)
  have l: "tmr_list s k (as @ t # rest)" using tmr_inv_list [OF Cons.prems(1) assms(3)] Cons.prems(2) by simp
  then have d: "dll (\<lambda>t. OSTmrNext (OSTmrTbl s t)) (\<lambda>t. OSTmrPrev (OSTmrTbl s t)) 0
      (OSTmrFirst (OSTmrWheelTbl s k)) (as @ t # rest)" and dist: "t \<notin> set rest"
    by (auto simp: tmr_list_def)
  have nxt: "OSTmrNext (OSTmrTbl s t) = (if rest = [] then NULL else hd rest)" and t0: "t \<noteq> NULL"
    using dll_links [OF d] by simp_all
  let ?hit = "OSTmrTime s = OSTmrMatch (OSTmrTbl s t)"
  let ?w1 = "if ?hit then call_w g (tmr_view s t) t w else w"
  obtain s1 sp1 as1 where v: "tmr_visit cb t (s, w) = Some (s1, ?w1)"
    and inv1: "tmr_inv s1 fl sp1" and sp1: "sp1 k = as1 @ rest" and now1: "OSTmrTime s1 = OSTmrTime s"
    and view1: "tmr_view s1 = (if ?hit then (tmr_view s)(t := expire (OSTmrTime s) (tmr_view s t)) else tmr_view s)"
    by (rule tmr_visit_ok [OF assms(1) Cons.prems(1) assms(3) Cons.prems(2)])
  have same: "tmr_view s1 u = tmr_view s u" if "u \<in> set rest" for u
    using that dist by (auto simp: view1)
  have due: "filter (\<lambda>u. OSTmrMatch (tmr_view s1 u) = OSTmrTime s) rest
      = filter (\<lambda>u. OSTmrMatch (tmr_view s u) = OSTmrTime s) rest"
    by (rule filter_cong [OF refl]) (simp only: same)
  have calls: "fold (\<lambda>u. call_w g (tmr_view s1 u) u) (filter (\<lambda>u. OSTmrMatch (tmr_view s u) = OSTmrTime s) rest) ?w1
      = fold (\<lambda>u. call_w g (tmr_view s u) u) (filter (\<lambda>u. OSTmrMatch (tmr_view s u) = OSTmrTime s) rest) ?w1"
    by (rule fold_cong [OF refl refl]) (simp add: same)
  obtain s' sp' where "tmr_scan cb (if rest = [] then NULL else hd rest) (s1, ?w1) = Some (s',
        fold (\<lambda>u. call_w g (tmr_view s u) u) (filter (\<lambda>u. OSTmrMatch (tmr_view s u) = OSTmrTime s) rest) ?w1)"
    and inv': "tmr_inv s' fl sp'" and now': "OSTmrTime s' = OSTmrTime s"
    and view': "tmr_view s' = (\<lambda>u. if u \<in> set rest \<and> OSTmrMatch (tmr_view s1 u) = OSTmrTime s
          then expire (OSTmrTime s) (tmr_view s1 u) else tmr_view s1 u)"
    using Cons.IH [OF inv1 sp1, of ?w1] unfolding now1 unfolding due unfolding calls by blast
  then have "tmr_scan cb t (s, w) = Some (s',
      fold (\<lambda>u. call_w g (tmr_view s u) u) (filter (\<lambda>u. OSTmrMatch (tmr_view s u) = OSTmrTime s) (t # rest)) w)"
    using t0 nxt v by (subst tmr_scan.simps) (auto simp: Let_def)
  moreover have "tmr_view s' = (\<lambda>u. if u \<in> set (t # rest) \<and> OSTmrMatch (tmr_view s u) = OSTmrTime s
          then expire (OSTmrTime s) (tmr_view s u) else tmr_view s u)"
    unfolding view' using same dist by (auto simp: view1 fun_eq_iff)
  ultimately show ?case using inv' now' by auto
qed

definition tmr_due :: "os_state \<Rightarrow> ptr \<Rightarrow> bool" where
  "tmr_due s t \<longleftrightarrow> 1 \<le> t \<and> t \<le> OS_TMR_CFG_MAX \<and> OSTmrState (OSTmrTbl s t) = OS_TMR_STATE_RUNNING
     \<and> OSTmrMatch (OSTmrTbl s t) = OSTmrTime s + 1"

lemma OSTmr_Task_ok:
  assumes cb: "callbacks cb g" and inv: "tmr_inv s fl sp"
  obtains s' sp' due where "OSTmr_Task cb (s, w) = Some (s', fold (\<lambda>t. call_w g (tmr_view s t) t) due w)"
    and "distinct due" and "set due = {t. tmr_due s t}" and "tmr_inv s' fl sp'" and "OSTmrTime s' = OSTmrTime s + 1"
    and "tmr_view s' = (\<lambda>t. if tmr_due s t then expire (OSTmrTime s + 1) (tmr_view s t) else tmr_view s t)"
proof -
  let ?s = "(OSSchedLock s)\<lparr>OSTmrTime := OSTmrTime s + 1\<rparr>"
  let ?k = "tmr_spoke (OSTmrTime s + 1)"
  have lock: "OSTmrTbl ?s = OSTmrTbl s" "OSTmrWheelTbl ?s = OSTmrWheelTbl s" "OSTmrFreeList ?s = OSTmrFreeList s"
    "OSTmrUsed ?s = OSTmrUsed s" "OSTmrFree ?s = OSTmrFree s" "OSTmrTime (OSSchedLock s) = OSTmrTime s"
    using tmr_same_Lock [of s] by (simp_all add: tmr_same_def)
  then have inv0: "tmr_inv ?s fl sp"
    using inv by (simp add: tmr_inv_def tmr_free_def tmr_list_def tmr_in_def)
  have now0: "OSTmrTime ?s = OSTmrTime s + 1" by simp
  have v0: "tmr_view ?s = tmr_view s" using lock by (simp add: tmr_view_def fun_eq_iff)
  have l: "tmr_list s ?k (sp ?k)" using tmr_inv_list [OF inv] by simp
  then have first: "OSTmrFirst (OSTmrWheelTbl s ?k) = (if sp ?k = [] then NULL else hd (sp ?k))"
    using dll_hd unfolding tmr_list_def by fast
  let ?due = "filter (\<lambda>t. OSTmrMatch (tmr_view s t) = OSTmrTime s + 1) (sp ?k)"
  have due: "t \<in> set (sp ?k) \<and> OSTmrMatch (tmr_view s t) = OSTmrTime s + 1 \<longleftrightarrow> tmr_due s t" for t
  proof
    assume "t \<in> set (sp ?k) \<and> OSTmrMatch (tmr_view s t) = OSTmrTime s + 1"
    then show "tmr_due s t" using tmr_inv_in [OF inv, of ?k t] by (simp add: tmr_in_def tmr_due_def)
  next
    assume "tmr_due s t"
    then show "t \<in> set (sp ?k) \<and> OSTmrMatch (tmr_view s t) = OSTmrTime s + 1"
      using tmr_inv_pool(3) [OF inv, of t] by (simp add: tmr_due_def)
  qed
  obtain s1 sp1 where sc: "tmr_scan cb (OSTmrFirst (OSTmrWheelTbl s ?k)) (?s, w)
        = Some (s1, fold (\<lambda>t. call_w g (tmr_view s t) t) ?due w)"
    and inv1: "tmr_inv s1 fl sp1" and now1: "OSTmrTime s1 = OSTmrTime s + 1"
    and v1: "tmr_view s1 = (\<lambda>t. if t \<in> set (sp ?k) \<and> OSTmrMatch (tmr_view s t) = OSTmrTime s + 1
          then expire (OSTmrTime s + 1) (tmr_view s t) else tmr_view s t)"
    using tmr_scan_ok [OF cb inv0 tmr_spoke_less append_Nil [symmetric], where w = w] unfolding first v0 now0 by blast
  show ?thesis
  proof (rule that)
    show "OSTmr_Task cb (s, w) = Some (OSSchedUnlock s1, fold (\<lambda>t. call_w g (tmr_view s t) t) ?due w)"
      using sc lock by (simp add: OSTmr_Task_def Let_def)
    show "distinct ?due" using l by (simp add: tmr_list_def)
    show "set ?due = {t. tmr_due s t}" using due by auto
    show "tmr_inv (OSSchedUnlock s1) fl sp1" using inv1 tmr_inv_cong [OF tmr_same_Unlock] by blast
    show "OSTmrTime (OSSchedUnlock s1) = OSTmrTime s + 1" using now1 tmr_same_simps(2) [OF tmr_same_Unlock] by simp
    show "tmr_view (OSSchedUnlock s1) = (\<lambda>t. if tmr_due s t then expire (OSTmrTime s + 1) (tmr_view s t) else tmr_view s t)"
      unfolding tmr_same_view [OF tmr_same_Unlock] v1 due ..
  qed
qed

subsection \<open>The services keep the wheel\<close>

lemma tmr_free_Cons:
  assumes "tmr_free s (x # fl)"
  shows "OSTmrFreeList s = x" "x \<noteq> 0" "x \<notin> set fl" "1 \<le> x" "x \<le> OS_TMR_CFG_MAX"
    "path (\<lambda>t. OSTmrNext (OSTmrTbl s t)) (OSTmrNext (OSTmrTbl s x)) fl" "distinct fl"
  using assms by (auto simp: tmr_free_def)

lemma OSTmrCreate_ok:
  fixes dly period opt callback arg nm
  assumes inv: "tmr_inv s (x # fl) sp" and isr: "OSIntNesting s = 0"
    and opt: "(opt = OS_TMR_OPT_PERIODIC \<and> period \<noteq> 0) \<or> (opt = OS_TMR_OPT_ONE_SHOT \<and> dly \<noteq> 0)"
  obtains s' where "OSTmrCreate dly period opt callback arg nm s = (x, OS_ERR_NONE, s')" and "tmr_inv s' fl sp"
    and "OSTmrTime s' = OSTmrTime s"
    and "tmr_view s' = (tmr_view s)(x := (tmr_view s x)\<lparr>OSTmrState := OS_TMR_STATE_STOPPED, OSTmrDly := dly,
           OSTmrPeriod := period, OSTmrOpt := opt, OSTmrCallback := callback, OSTmrCallbackArg := arg,
           OSTmrName := (case nm of None \<Rightarrow> ''?'' | Some n \<Rightarrow> n)\<rparr>)"
proof -
  let ?l = "OSSchedLock s"
  have inv0: "tmr_inv ?l (x # fl) sp" using inv tmr_inv_cong [OF tmr_same_Lock] by blast
  have f0: "tmr_free ?l (x # fl)" using inv0 by (simp add: tmr_inv_def)
  note C = tmr_free_Cons [OF f0]
  have cnt: "OSTmrFree ?l - 1 = of_nat (length fl)" "OSTmrUsed ?l + 1 = of_nat OS_TMR_CFG_MAX - of_nat (length fl)"
    using f0 by (simp_all add: tmr_free_def)
  let ?r = "(OSTmrTbl s x)\<lparr>OSTmrNext := NULL, OSTmrPrev := NULL, OSTmrState := OS_TMR_STATE_STOPPED, OSTmrDly := dly,
           OSTmrPeriod := period, OSTmrOpt := opt, OSTmrCallback := callback, OSTmrCallbackArg := arg,
           OSTmrName := (case nm of None \<Rightarrow> ''?'' | Some n \<Rightarrow> n)\<rparr>"
  let ?s = "?l\<lparr>OSTmrFreeList := OSTmrNext (OSTmrTbl ?l x), OSTmrUsed := OSTmrUsed ?l + 1,
      OSTmrFree := OSTmrFree ?l - 1, OSTmrTbl := (OSTmrTbl s)(x := ?r)\<rparr>"
  have lk: "OSTmrTbl ?l = OSTmrTbl s" using tmr_same_simps(1) [OF tmr_same_Lock] .
  have cr: "OSTmrCreate dly period opt callback arg nm s = (x, OS_ERR_NONE, OSSchedUnlock ?s)"
    using C isr opt by (auto simp: OSTmrCreate_def OSTmr_Alloc_def upd_tmr_def Let_def lk)
  have st: "OSTmrState (OSTmrTbl s x) = OS_TMR_STATE_UNUSED" "OSTmrType (OSTmrTbl s x) = OS_TMR_TYPE"
    using tmr_inv_pool(1,2) [OF inv C(4,5)] by (simp_all add: tmr_ok_def)
  have "path (\<lambda>t. OSTmrNext (OSTmrTbl ?s t)) (OSTmrFreeList ?s) fl
      = path (\<lambda>t. OSTmrNext (OSTmrTbl s t)) (OSTmrFreeList ?s) fl"
    by (rule path_cong) (use C(3) in auto)
  then have "path (\<lambda>t. OSTmrNext (OSTmrTbl ?s t)) (OSTmrFreeList ?s) fl" using C(6) lk by simp
  then have "tmr_free ?s fl" using f0 C cnt by (simp add: tmr_free_def)
  then have "tmr_inv ?s fl sp"
    using st opt C(3) by (intro tmr_idle_update [OF inv0 C(4,5), where r = ?r]) (auto simp: lk tmr_ok_def)
  then have "tmr_inv (OSSchedUnlock ?s) fl sp" using tmr_inv_cong [OF tmr_same_Unlock] by blast
  moreover have "tmr_view ?s = (tmr_view s)(x := (tmr_view s x)\<lparr>OSTmrState := OS_TMR_STATE_STOPPED, OSTmrDly := dly,
           OSTmrPeriod := period, OSTmrOpt := opt, OSTmrCallback := callback, OSTmrCallbackArg := arg,
           OSTmrName := (case nm of None \<Rightarrow> ''?'' | Some n \<Rightarrow> n)\<rparr>)"
    by (auto simp: tmr_view_def tmr_strip_def)
  moreover have "OSTmrTime (OSSchedUnlock ?s) = OSTmrTime s"
    using tmr_same_simps(2) [OF tmr_same_Unlock [of ?s]] tmr_same_simps(2) [OF tmr_same_Lock [of s]] by simp
  ultimately show ?thesis using that [OF cr] tmr_same_view [OF tmr_same_Unlock [of ?s]] by simp
qed

lemma OSTmr_Free_ok:
  assumes inv: "tmr_inv s fl sp" and t: "1 \<le> t" "t \<le> OS_TMR_CFG_MAX"
    and st: "OSTmrState (OSTmrTbl s t) \<in> {OS_TMR_STATE_STOPPED, OS_TMR_STATE_COMPLETED}"
  shows "tmr_inv (OSTmr_Free t s) (t # fl) sp"
proof -
  let ?r = "(OSTmrTbl s t)\<lparr>OSTmrState := OS_TMR_STATE_UNUSED, OSTmrOpt := OS_TMR_OPT_NONE,
     OSTmrPeriod := 0, OSTmrMatch := 0, OSTmrCallback := NULL, OSTmrCallbackArg := NULL,
     OSTmrName := ''?'', OSTmrPrev := NULL, OSTmrNext := OSTmrFreeList s\<rparr>"
  have f: "tmr_free s fl" using inv by (simp add: tmr_inv_def)
  have tfl: "t \<notin> set fl" using tmr_inv_pool(2) [OF inv t] st by auto
  have tbl: "OSTmrTbl (OSTmr_Free t s) = (OSTmrTbl s)(t := ?r)" by (simp add: OSTmr_Free_def Let_def upd_tmr_def)
  have "path (\<lambda>u. OSTmrNext (OSTmrTbl (OSTmr_Free t s) u)) (OSTmrFreeList s) fl
      = path (\<lambda>u. OSTmrNext (OSTmrTbl s u)) (OSTmrFreeList s) fl"
    by (rule path_cong) (use tfl in \<open>auto simp: tbl\<close>)
  then have "path (\<lambda>u. OSTmrNext (OSTmrTbl (OSTmr_Free t s) u)) (OSTmrFreeList s) fl"
    using f by (simp add: tmr_free_def)
  then have "tmr_free (OSTmr_Free t s) (t # fl)"
    using f tfl t unfolding tmr_free_def tbl by (simp add: OSTmr_Free_def Let_def upd_tmr_def)
  then show ?thesis
    using st tbl tmr_inv_pool(1) [OF inv t]
    by (intro tmr_idle_update [OF inv t, where r = ?r]) (auto simp: OSTmr_Free_def Let_def upd_tmr_def tmr_ok_def)
qed

lemma OSTmrStart_ok:
  assumes inv: "tmr_inv s fl sp" and t: "1 \<le> t" "t \<le> OS_TMR_CFG_MAX" and isr: "OSIntNesting s = 0"
    and st: "OSTmrState (OSTmrTbl s t) \<noteq> OS_TMR_STATE_UNUSED"
  obtains s' sp' where "OSTmrStart t s = Some (True, OS_ERR_NONE, s')" and "tmr_inv s' fl sp'"
    and "OSTmrTime s' = OSTmrTime s"
    and "tmr_view s' = (tmr_view s)(t := started OS_TMR_LINK_DLY (OSTmrTime s) (tmr_view s t))"
proof -
  let ?l = "OSSchedLock s"
  have inv0: "tmr_inv ?l fl sp" using inv tmr_inv_cong [OF tmr_same_Lock] by blast
  note L = tmr_same_simps [OF tmr_same_Lock [of s]] tmr_same_view [OF tmr_same_Lock [of s]]
  have ty: "OSTmrType (OSTmrTbl s t) = OS_TMR_TYPE" and
    cases: "OSTmrState (OSTmrTbl s t) \<in> {OS_TMR_STATE_STOPPED, OS_TMR_STATE_COMPLETED, OS_TMR_STATE_RUNNING}"
    using tmr_inv_pool(1) [OF inv t] st by (auto simp: tmr_ok_def)
  note result = that
  have linked: thesis if inv1: "tmr_inv s1 fl sp1" and st1: "OSTmrState (OSTmrTbl s1 t) \<in> {OS_TMR_STATE_STOPPED, OS_TMR_STATE_COMPLETED}"
    and v1: "started OS_TMR_LINK_DLY (OSTmrTime s) (tmr_view s1 t) = started OS_TMR_LINK_DLY (OSTmrTime s) (tmr_view s t)"
      "\<And>u. u \<noteq> t \<Longrightarrow> tmr_view s1 u = tmr_view s u" "OSTmrTime s1 = OSTmrTime s"
    and res: "OSTmrStart t s = Some (True, OS_ERR_NONE, OSSchedUnlock (OSTmr_Link t OS_TMR_LINK_DLY s1))" for s1 sp1
  proof (rule tmr_link [OF inv1 t st1, of OS_TMR_LINK_DLY])
    fix tbl wh s'
    let ?k = "tmr_spoke (link_match OS_TMR_LINK_DLY (OSTmrTime s1) (OSTmrTbl s1 t))"
    assume l: "OSTmr_Link t OS_TMR_LINK_DLY s1 = s'" and s': "s' = s1\<lparr>OSTmrTbl := tbl, OSTmrWheelTbl := wh\<rparr>"
      and i: "tmr_inv s' fl (sp1(?k := t # sp1 ?k))"
      and v: "tmr_view s' = (tmr_view s1)(t := started OS_TMR_LINK_DLY (OSTmrTime s1) (tmr_view s1 t))"
    have "tmr_inv (OSSchedUnlock s') fl (sp1(?k := t # sp1 ?k))" using i tmr_inv_cong [OF tmr_same_Unlock] by blast
    moreover have "OSTmrTime (OSSchedUnlock s') = OSTmrTime s"
      using tmr_same_simps(2) [OF tmr_same_Unlock [of s']] s' v1(3) by simp
    moreover have "tmr_view (OSSchedUnlock s') = (tmr_view s)(t := started OS_TMR_LINK_DLY (OSTmrTime s) (tmr_view s t))"
      using tmr_same_view [OF tmr_same_Unlock [of s']] v v1 by (auto simp: fun_eq_iff)
    ultimately show thesis using result res l by simp
  qed
  show thesis
  proof (cases "OSTmrState (OSTmrTbl s t) = OS_TMR_STATE_RUNNING")
    case True
    let ?k = "tmr_spoke (OSTmrMatch (OSTmrTbl s t))"
    have "t \<in> set (sp ?k)" using tmr_inv_pool(3) [OF inv t True] .
    then obtain as bs where sp: "sp ?k = as @ t # bs" by (metis split_list)
    obtain tbl1 wh1 s1 where u: "OSTmr_Unlink t ?l = Some s1" and s1: "s1 = ?l\<lparr>OSTmrTbl := tbl1, OSTmrWheelTbl := wh1\<rparr>"
      and inv1: "tmr_inv s1 fl (sp(?k := as @ bs))" and v1: "tmr_view s1 = (tmr_view ?l)(t := stopped (tmr_view ?l t))"
      by (rule tmr_unlink [OF inv0 tmr_spoke_less sp])
    have "tmr_view s1 t = stopped (tmr_view s t)" by (simp add: v1 L)
    from arg_cong [OF this, of OSTmrState] have "OSTmrState (OSTmrTbl s1 t) = OS_TMR_STATE_STOPPED" by (simp add: stopped_def)
    moreover have "OSTmrTime s1 = OSTmrTime s" using s1 L(2) by simp
    moreover have "OSTmrStart t s = Some (True, OS_ERR_NONE, OSSchedUnlock (OSTmr_Link t OS_TMR_LINK_DLY s1))"
      using True ty isr t u by (simp add: OSTmrStart_def Let_def L)
    ultimately show ?thesis
      by (intro linked [OF inv1]) (simp_all add: v1 L stopped_def started_def link_match_def)
  next
    case False
    then have "OSTmrStart t s = Some (True, OS_ERR_NONE, OSSchedUnlock (OSTmr_Link t OS_TMR_LINK_DLY ?l))"
      using cases ty isr t by (auto simp: OSTmrStart_def Let_def L)
    then show ?thesis using False cases by (intro linked [OF inv0]) (auto simp: L)
  qed
qed

text \<open>Taking a running timer off the wheel, the first step of the delete and stop services.\<close>

lemma tmr_take_off:
  assumes inv: "tmr_inv s fl sp" and t: "1 \<le> t" "t \<le> OS_TMR_CFG_MAX"
    and st: "OSTmrState (OSTmrTbl s t) = OS_TMR_STATE_RUNNING"
  obtains s' sp' where "OSTmr_Unlink t s = Some s'" and "tmr_inv s' fl sp'" and "OSIntNesting s' = OSIntNesting s"
    and "tmr_view s' = (tmr_view s)(t := stopped (tmr_view s t))"
    and "OSTmrState (OSTmrTbl s' t) = OS_TMR_STATE_STOPPED" and "OSTmrTime s' = OSTmrTime s"
    and "OSTmrPrev (OSTmrTbl s' t) = NULL"
proof -
  let ?k = "tmr_spoke (OSTmrMatch (OSTmrTbl s t))"
  have "t \<in> set (sp ?k)" using tmr_inv_pool(3) [OF inv t st] .
  then obtain as bs where sp: "sp ?k = as @ t # bs" by (metis split_list)
  obtain tbl1 wh1 s1 where u: "OSTmr_Unlink t s = Some s1" and s1: "s1 = s\<lparr>OSTmrTbl := tbl1, OSTmrWheelTbl := wh1\<rparr>"
    and inv1: "tmr_inv s1 fl (sp(?k := as @ bs))" and v1: "tmr_view s1 = (tmr_view s)(t := stopped (tmr_view s t))"
    and p1: "OSTmrPrev (OSTmrTbl s1 t) = NULL"
    by (rule tmr_unlink [OF inv tmr_spoke_less sp])
  have "tmr_view s1 t = stopped (tmr_view s t)" by (simp add: v1)
  from arg_cong [OF this, of OSTmrState] have "OSTmrState (OSTmrTbl s1 t) = OS_TMR_STATE_STOPPED" by (simp add: stopped_def)
  then show ?thesis using that [OF u inv1 _ v1] s1 p1 by simp
qed

lemma OSTmrDel_ok:
  assumes inv: "tmr_inv s fl sp" and t: "1 \<le> t" "t \<le> OS_TMR_CFG_MAX" and isr: "OSIntNesting s = 0"
    and st: "OSTmrState (OSTmrTbl s t) \<noteq> OS_TMR_STATE_UNUSED"
  obtains s' sp' where "OSTmrDel t s = Some (True, OS_ERR_NONE, s')" and "tmr_inv s' (t # fl) sp'"
proof -
  let ?l = "OSSchedLock s"
  have inv0: "tmr_inv ?l fl sp" using inv tmr_inv_cong [OF tmr_same_Lock] by blast
  note L = tmr_same_simps [OF tmr_same_Lock [of s]] tmr_same_view [OF tmr_same_Lock [of s]]
  have ty: "OSTmrType (OSTmrTbl s t) = OS_TMR_TYPE" and
    cases: "OSTmrState (OSTmrTbl s t) \<in> {OS_TMR_STATE_STOPPED, OS_TMR_STATE_COMPLETED, OS_TMR_STATE_RUNNING}"
    using tmr_inv_pool(1) [OF inv t] st by (auto simp: tmr_ok_def)
  show ?thesis
  proof (cases "OSTmrState (OSTmrTbl s t) = OS_TMR_STATE_RUNNING")
    case True
    then have run: "OSTmrState (OSTmrTbl ?l t) = OS_TMR_STATE_RUNNING" by (simp add: L)
    obtain s1 sp1 where u: "OSTmr_Unlink t ?l = Some s1" and inv1: "tmr_inv s1 fl sp1"
      and st1: "OSTmrState (OSTmrTbl s1 t) = OS_TMR_STATE_STOPPED"
      by (rule tmr_take_off [OF inv0 t run])
    have "tmr_inv (OSTmr_Free t s1) (t # fl) sp1" using st1 by (intro OSTmr_Free_ok [OF inv1 t]) simp
    then show ?thesis using that [of _ sp1] u ty isr t True tmr_inv_cong [OF tmr_same_Unlock]
      by (simp add: OSTmrDel_def Let_def L)
  next
    case False
    then have "tmr_inv (OSTmr_Free t ?l) (t # fl) sp" using cases by (intro OSTmr_Free_ok [OF inv0 t]) (auto simp: L)
    moreover have "OSTmrDel t s = Some (True, OS_ERR_NONE, OSSchedUnlock (OSTmr_Free t ?l))"
      using False cases ty isr t by (auto simp: OSTmrDel_def Let_def L)
    ultimately show ?thesis using that tmr_inv_cong [OF tmr_same_Unlock] by blast
  qed
qed

lemma OSTmrStop_ok:
  assumes cb: "callbacks cb g" and inv: "tmr_inv s fl sp" and t: "1 \<le> t" "t \<le> OS_TMR_CFG_MAX" and isr: "OSIntNesting s = 0"
    and st: "OSTmrState (OSTmrTbl s t) = OS_TMR_STATE_RUNNING"
  obtains err s' sp' where "OSTmrStop cb t opt arg (s, w) = Some (True, err, s',
      if OSTmrCallback (OSTmrTbl s t) \<noteq> NULL \<and> opt = OS_TMR_OPT_CALLBACK
      then g (OSTmrCallback (OSTmrTbl s t)) t (OSTmrCallbackArg (OSTmrTbl s t)) w
      else if OSTmrCallback (OSTmrTbl s t) \<noteq> NULL \<and> opt = OS_TMR_OPT_CALLBACK_ARG
      then g (OSTmrCallback (OSTmrTbl s t)) t arg w else w)"
    and "tmr_inv s' fl sp'" and "tmr_view s' = (tmr_view s)(t := stopped (tmr_view s t))"
    and "OSTmrPrev (OSTmrTbl s' t) = NULL" and "OSTmrTime s' = OSTmrTime s"
proof -
  let ?l = "OSSchedLock s"
  have inv0: "tmr_inv ?l fl sp" using inv tmr_inv_cong [OF tmr_same_Lock] by blast
  note L = tmr_same_simps [OF tmr_same_Lock [of s]] tmr_same_view [OF tmr_same_Lock [of s]]
  have ty: "OSTmrType (OSTmrTbl s t) = OS_TMR_TYPE" using tmr_inv_pool(1) [OF inv t] by (simp add: tmr_ok_def)
  have run: "OSTmrState (OSTmrTbl ?l t) = OS_TMR_STATE_RUNNING" using st by (simp add: L)
  obtain s1 sp1 where u: "OSTmr_Unlink t ?l = Some s1" and inv1: "tmr_inv s1 fl sp1"
    and v1: "tmr_view s1 = (tmr_view ?l)(t := stopped (tmr_view ?l t))" and now1: "OSTmrTime s1 = OSTmrTime ?l"
    and p1: "OSTmrPrev (OSTmrTbl s1 t) = NULL"
    by (rule tmr_take_off [OF inv0 t run])
  have r1: "tmr_view s1 t = stopped (tmr_view s t)" by (simp add: v1 L)
  have c1: "OSTmrCallback (OSTmrTbl s1 t) = OSTmrCallback (OSTmrTbl s t)" "OSTmrCallbackArg (OSTmrTbl s1 t) = OSTmrCallbackArg (OSTmrTbl s t)"
    using arg_cong [OF r1, of OSTmrCallback] arg_cong [OF r1, of OSTmrCallbackArg] by (simp_all add: stopped_def)
  note result = that
  have fin: thesis if "OSTmrStop cb t opt arg (s, w) = Some (True, err, OSSchedUnlock s2,
      if OSTmrCallback (OSTmrTbl s t) \<noteq> NULL \<and> opt = OS_TMR_OPT_CALLBACK
      then g (OSTmrCallback (OSTmrTbl s t)) t (OSTmrCallbackArg (OSTmrTbl s t)) w
      else if OSTmrCallback (OSTmrTbl s t) \<noteq> NULL \<and> opt = OS_TMR_OPT_CALLBACK_ARG
      then g (OSTmrCallback (OSTmrTbl s t)) t arg w else w)" and "tmr_same s2 s1" for err s2
    using result [OF that(1), of sp1] inv1 v1 p1 now1 L tmr_same_simps [OF tmr_same_trans [OF tmr_same_Unlock that(2)]]
      tmr_inv_cong [OF tmr_same_trans [OF tmr_same_Unlock that(2)]] tmr_same_view [OF tmr_same_trans [OF tmr_same_Unlock that(2)]]
    by simp
  show thesis
  proof (cases "(opt = OS_TMR_OPT_CALLBACK \<or> opt = OS_TMR_OPT_CALLBACK_ARG) \<and> OSTmrCallback (OSTmrTbl s t) \<noteq> NULL")
    case False
    show ?thesis
      by (rule fin [of "if opt = OS_TMR_OPT_CALLBACK \<or> opt = OS_TMR_OPT_CALLBACK_ARG then OS_ERR_TMR_NO_CALLBACK
            else if opt = OS_TMR_OPT_NONE then OS_ERR_NONE else OS_ERR_TMR_INVALID_OPT" s1])
         (use False u ty isr t st c1 in \<open>auto simp: OSTmrStop_def Let_def L tmr_call_def\<close>)
  next
    case True
    let ?a = "if opt = OS_TMR_OPT_CALLBACK then OSTmrCallbackArg (OSTmrTbl s t) else arg"
    obtain s2 where c: "cb (OSTmrCallback (OSTmrTbl s t)) t ?a (s1, w) = Some (s2, g (OSTmrCallback (OSTmrTbl s t)) t ?a w)"
      and sm: "tmr_same s2 s1" using cb unfolding callbacks_def by blast
    have "OSTmrStop cb t opt arg (s, w) = map_option (\<lambda>(called, s3, w3).
         (True, if called then OS_ERR_NONE else OS_ERR_TMR_NO_CALLBACK, OSSchedUnlock s3, w3)) (tmr_call cb t ?a (s1, w))"
      using True u ty isr t st c1 by (simp add: OSTmrStop_def Let_def L)
    also have "tmr_call cb t ?a (s1, w) = Some (True, s2, g (OSTmrCallback (OSTmrTbl s t)) t ?a w)"
      using True c c1 by (simp add: tmr_call_def)
    finally show ?thesis
      by (intro fin [of OS_ERR_NONE, OF _ sm]) (use True in \<open>cases "opt = OS_TMR_OPT_CALLBACK"; simp\<close>)
  qed
qed

subsection \<open>Initialisation\<close>

definition OS_TMR_clr :: OS_TMR where
  "OS_TMR_clr = \<lparr>OSTmrType = 0, OSTmrCallback = NULL, OSTmrCallbackArg = NULL, OSTmrNext = NULL, OSTmrPrev = NULL,
     OSTmrMatch = 0, OSTmrDly = 0, OSTmrPeriod = 0, OSTmrName = [], OSTmrOpt = 0, OSTmrState = 0\<rparr>"

primrec tmr_init_link :: "nat \<Rightarrow> (ptr \<Rightarrow> OS_TMR) \<Rightarrow> (ptr \<Rightarrow> OS_TMR)" where
  "tmr_init_link 0 tbl = tbl"
| "tmr_init_link (Suc ix) tbl =
     (let tbl1 = tmr_init_link ix tbl
      in tbl1(ix + 1 := (tbl1 (ix + 1))\<lparr>OSTmrType := OS_TMR_TYPE, OSTmrState := OS_TMR_STATE_UNUSED,
           OSTmrNext := ix + 2, OSTmrName := ''?''\<rparr>))"

text \<open>The timer pool and the wheel of \<open>OSTmr_Init\<close>, before it creates its semaphores and its task.\<close>

definition OSTmr_InitPool :: "os_state \<Rightarrow> os_state" where
  "OSTmr_InitPool s =
     (let tbl1 = (\<lambda>a. if 1 \<le> a \<and> a \<le> OS_TMR_CFG_MAX then OS_TMR_clr else OSTmrTbl s a);
          tbl2 = tmr_init_link (OS_TMR_CFG_MAX - 1) tbl1
      in s\<lparr>OSTmrTbl := tbl2(OS_TMR_CFG_MAX := (tbl2 OS_TMR_CFG_MAX)\<lparr>OSTmrType := OS_TMR_TYPE,
             OSTmrState := OS_TMR_STATE_UNUSED, OSTmrNext := NULL, OSTmrName := ''?''\<rparr>),
           OSTmrWheelTbl := (\<lambda>k. if k < 8 then \<lparr>OSTmrFirst = NULL, OSTmrEntries = 0\<rparr> else OSTmrWheelTbl s k),
           OSTmrTime := 0, OSTmrUsed := 0, OSTmrFree := of_nat OS_TMR_CFG_MAX, OSTmrFreeList := 1\<rparr>)"

lemma tmr_init_link_at:
  "tmr_init_link n tbl a = (if 1 \<le> a \<and> a \<le> n
     then (tbl a)\<lparr>OSTmrType := OS_TMR_TYPE, OSTmrState := OS_TMR_STATE_UNUSED, OSTmrNext := a + 1, OSTmrName := ''?''\<rparr>
     else tbl a)"
  by (induction n) (auto simp: Let_def le_Suc_eq)

lemma OSTmr_InitPool_tbl:
  assumes "1 \<le> a" and "a \<le> OS_TMR_CFG_MAX"
  shows "OSTmrTbl (OSTmr_InitPool s) a = OS_TMR_clr\<lparr>OSTmrType := OS_TMR_TYPE, OSTmrState := OS_TMR_STATE_UNUSED,
           OSTmrNext := (if a = OS_TMR_CFG_MAX then NULL else a + 1), OSTmrName := ''?''\<rparr>"
  using assms by (auto simp: OSTmr_InitPool_def Let_def tmr_init_link_at)

lemma OSTmr_InitPool_inv: "tmr_inv (OSTmr_InitPool s) [1..<17] (\<lambda>_. [])"
proof (rule tmr_invI)
  have len: "length [1..<17::nat] = 16" by simp
  have "path (\<lambda>t. OSTmrNext (OSTmrTbl (OSTmr_InitPool s) t)) 1 [1..<Suc 16]"
    by (rule path_upt) (simp_all add: OSTmr_InitPool_tbl)
  then have "path (\<lambda>t. OSTmrNext (OSTmrTbl (OSTmr_InitPool s) t)) 1 [1..<17]" by simp
  then show "tmr_free (OSTmr_InitPool s) [1..<17]"
    unfolding tmr_free_def len by (auto simp: OSTmr_InitPool_def Let_def)
  show "tmr_list (OSTmr_InitPool s) k []" if "k < 8" for k
    using that by (simp add: tmr_list_def OSTmr_InitPool_def Let_def)
  show "tmr_ok (OSTmrTbl (OSTmr_InitPool s) t)
      \<and> (OSTmrState (OSTmrTbl (OSTmr_InitPool s) t) = OS_TMR_STATE_UNUSED \<longleftrightarrow> t \<in> set [1..<17])
      \<and> (OSTmrState (OSTmrTbl (OSTmr_InitPool s) t) = OS_TMR_STATE_RUNNING \<longrightarrow> t \<in> set [])"
    if "1 \<le> t" "t \<le> OS_TMR_CFG_MAX" for t
    unfolding OSTmr_InitPool_tbl [OF that] using that by (simp add: tmr_ok_def OS_TMR_clr_def)
qed simp

subsection \<open>The timer system\<close>

text \<open>
  Everything that can happen to the timers after initialisation, in any order: calls of the
  services with a timer of the table or the null pointer, iterations of the timer task, and steps
  of the rest of the program, which do not touch the timers.
\<close>

inductive tmr_reach :: "'w tmr_callback \<Rightarrow> os_state \<times> 'w \<Rightarrow> bool" for cb where
  init: "tmr_reach cb (OSTmr_InitPool s, w)"
| create: "tmr_reach cb (s, w) \<Longrightarrow> OSTmrCreate dly period opt callback arg nm s = (t, err, s') \<Longrightarrow> tmr_reach cb (s', w)"
| del: "tmr_reach cb (s, w) \<Longrightarrow> t \<le> OS_TMR_CFG_MAX \<Longrightarrow> OSTmrDel t s = Some (ok, err, s') \<Longrightarrow> tmr_reach cb (s', w)"
| start: "tmr_reach cb (s, w) \<Longrightarrow> t \<le> OS_TMR_CFG_MAX \<Longrightarrow> OSTmrStart t s = Some (ok, err, s') \<Longrightarrow> tmr_reach cb (s', w)"
| stop: "tmr_reach cb (s, w) \<Longrightarrow> t \<le> OS_TMR_CFG_MAX \<Longrightarrow> OSTmrStop cb t opt arg (s, w) = Some (ok, err, s', w')
    \<Longrightarrow> tmr_reach cb (s', w')"
| task: "tmr_reach cb (s, w) \<Longrightarrow> OSTmr_Task cb (s, w) = Some (s', w') \<Longrightarrow> tmr_reach cb (s', w')"
| other: "tmr_reach cb (s, w) \<Longrightarrow> tmr_same s' s \<Longrightarrow> tmr_reach cb (s', w')"

definition tmrs_ok :: "os_state \<Rightarrow> bool" where
  "tmrs_ok s \<longleftrightarrow> (\<exists>fl sp. tmr_inv s fl sp)"

lemma tmrs_ok_same: "tmrs_ok s \<Longrightarrow> tmr_same s' s \<Longrightarrow> tmrs_ok s'"
  using tmr_inv_cong unfolding tmrs_ok_def by blast

lemma tmrs_ok_Unlock_Lock: "tmrs_ok s \<Longrightarrow> tmrs_ok (OSSchedUnlock (OSSchedLock s))"
  by (erule tmrs_ok_same) (rule tmr_same_trans [OF tmr_same_Unlock tmr_same_Lock])

lemma tmrs_ok_states:
  assumes "tmrs_ok s" and "1 \<le> t" and "t \<le> OS_TMR_CFG_MAX"
  shows "OSTmrState (OSTmrTbl s t) \<in> {OS_TMR_STATE_UNUSED, OS_TMR_STATE_STOPPED, OS_TMR_STATE_COMPLETED, OS_TMR_STATE_RUNNING}"
    and "OSTmrType (OSTmrTbl s t) = OS_TMR_TYPE"
  using assms tmr_inv_pool(1) by (auto simp: tmrs_ok_def tmr_ok_def) 

lemma tmrs_ok_Create:
  assumes "tmrs_ok s" and "OSTmrCreate dly period opt callback arg nm s = (t, err, s')"
  shows "tmrs_ok s'"
proof -
  obtain fl sp where inv: "tmr_inv s fl sp" using assms(1) by (auto simp: tmrs_ok_def)
  show ?thesis
  proof (cases "OSIntNesting s = 0 \<and> ((opt = OS_TMR_OPT_PERIODIC \<and> period \<noteq> 0) \<or> (opt = OS_TMR_OPT_ONE_SHOT \<and> dly \<noteq> 0))")
    case False
    then have "s' = s" using assms(2) by (auto simp: OSTmrCreate_def word_gt_0 split: if_splits)
    then show ?thesis using assms(1) by simp
  next
    case True
    show ?thesis
    proof (cases fl)
      case Nil
      then have "OSTmrFreeList s = 0" using inv by (simp add: tmr_inv_def tmr_free_def)
      then have "OSTmrFreeList (OSSchedLock s) = 0" using tmr_same_Lock [of s] by (simp add: tmr_same_def)
      then have "s' = OSSchedUnlock (OSSchedLock s)"
        using True assms(2) by (auto simp: OSTmrCreate_def OSTmr_Alloc_def)
      then show ?thesis using assms(1) tmrs_ok_Unlock_Lock by simp
    next
      case (Cons x fl')
      obtain s1 where "OSTmrCreate dly period opt callback arg nm s = (x, OS_ERR_NONE, s1)" and "tmr_inv s1 fl' sp"
        using True OSTmrCreate_ok [OF inv [unfolded Cons]] by metis
      then show ?thesis using assms(2) by (auto simp: tmrs_ok_def)
    qed
  qed
qed

lemma tmrs_ok_Del:
  assumes "tmrs_ok s" and "t \<le> OS_TMR_CFG_MAX"
  obtains ok err s' where "OSTmrDel t s = Some (ok, err, s')" and "tmrs_ok s'"
proof -
  obtain fl sp where inv: "tmr_inv s fl sp" using assms(1) by (auto simp: tmrs_ok_def)
  consider (idle) "t = NULL" | (isr) "1 \<le> t" "OSIntNesting s > 0" | (unused) "1 \<le> t" "OSIntNesting s = 0" "OSTmrState (OSTmrTbl s t) = OS_TMR_STATE_UNUSED"
    | (used) "1 \<le> t" "OSIntNesting s = 0" "OSTmrState (OSTmrTbl s t) \<noteq> OS_TMR_STATE_UNUSED"
    by (cases "OSIntNesting s = 0"; cases "t = NULL") (auto simp: word_gt_0)
  then show ?thesis
  proof cases
    case idle
    then show ?thesis using that [of False] assms(1) by (simp add: OSTmrDel_def)
  next
    case isr
    then show ?thesis
      using that [of False] assms(1) tmrs_ok_states(2) [OF assms(1) isr(1) assms(2)] by (simp add: OSTmrDel_def)
  next
    case unused
    then show ?thesis
      using that [of False] tmrs_ok_Unlock_Lock [OF assms(1)] tmrs_ok_states(2) [OF assms(1) unused(1) assms(2)]
      by (simp add: OSTmrDel_def Let_def tmr_same_simps [OF tmr_same_Lock])
  next
    case used
    then show ?thesis using OSTmrDel_ok [OF inv used(1) assms(2)] that by (metis tmrs_ok_def)
  qed
qed

lemma tmrs_ok_Start:
  assumes "tmrs_ok s" and "t \<le> OS_TMR_CFG_MAX"
  obtains ok err s' where "OSTmrStart t s = Some (ok, err, s')" and "tmrs_ok s'"
proof -
  obtain fl sp where inv: "tmr_inv s fl sp" using assms(1) by (auto simp: tmrs_ok_def)
  consider (idle) "t = NULL" | (isr) "1 \<le> t" "OSIntNesting s > 0" | (unused) "1 \<le> t" "OSIntNesting s = 0" "OSTmrState (OSTmrTbl s t) = OS_TMR_STATE_UNUSED"
    | (used) "1 \<le> t" "OSIntNesting s = 0" "OSTmrState (OSTmrTbl s t) \<noteq> OS_TMR_STATE_UNUSED"
    by (cases "OSIntNesting s = 0"; cases "t = NULL") (auto simp: word_gt_0)
  then show ?thesis
  proof cases
    case idle
    then show ?thesis using that [of False] assms(1) by (simp add: OSTmrStart_def)
  next
    case isr
    then show ?thesis
      using that [of False] assms(1) tmrs_ok_states(2) [OF assms(1) isr(1) assms(2)] by (simp add: OSTmrStart_def)
  next
    case unused
    then show ?thesis
      using that [of False] tmrs_ok_Unlock_Lock [OF assms(1)] tmrs_ok_states(2) [OF assms(1) unused(1) assms(2)]
      by (simp add: OSTmrStart_def Let_def tmr_same_simps [OF tmr_same_Lock])
  next
    case used
    then show ?thesis using OSTmrStart_ok [OF inv used(1) assms(2)] that by (metis tmrs_ok_def)
  qed
qed

lemma tmrs_ok_Stop:
  assumes "callbacks cb g" and "tmrs_ok s" and "t \<le> OS_TMR_CFG_MAX"
  obtains ok err s' w' where "OSTmrStop cb t opt arg (s, w) = Some (ok, err, s', w')" and "tmrs_ok s'"
proof -
  obtain fl sp where inv: "tmr_inv s fl sp" using assms(2) by (auto simp: tmrs_ok_def)
  consider (idle) "t = NULL" | (isr) "1 \<le> t" "OSIntNesting s > 0" | (off) "1 \<le> t" "OSIntNesting s = 0" "OSTmrState (OSTmrTbl s t) \<noteq> OS_TMR_STATE_RUNNING"
    | (on) "1 \<le> t" "OSIntNesting s = 0" "OSTmrState (OSTmrTbl s t) = OS_TMR_STATE_RUNNING"
    by (cases "OSIntNesting s = 0"; cases "t = NULL") (auto simp: word_gt_0)
  then show ?thesis
  proof cases
    case idle
    then show ?thesis using that [of False] assms(2) by (simp add: OSTmrStop_def)
  next
    case isr
    then show ?thesis
      using that [of False] assms(2) tmrs_ok_states(2) [OF assms(2) isr(1) assms(3)] by (simp add: OSTmrStop_def)
  next
    case off
    then show ?thesis
      using that [of False] that [of True] tmrs_ok_Unlock_Lock [OF assms(2)] tmrs_ok_states [OF assms(2) off(1) assms(3)]
      by (auto simp: OSTmrStop_def Let_def tmr_same_simps [OF tmr_same_Lock])
  next
    case on
    then show ?thesis using OSTmrStop_ok [OF assms(1) inv on(1) assms(3)] that by (metis tmrs_ok_def)
  qed
qed

lemma tmrs_ok_Task:
  assumes "callbacks cb g" and "tmrs_ok s"
  obtains s' w' where "OSTmr_Task cb (s, w) = Some (s', w')" and "tmrs_ok s'"
proof -
  obtain fl sp where inv: "tmr_inv s fl sp" using assms(2) by (auto simp: tmrs_ok_def)
  show ?thesis by (rule OSTmr_Task_ok [OF assms(1) inv, of w]) (use that in \<open>auto simp: tmrs_ok_def\<close>)
qed

text \<open>
  C14 Whatever the program does with its timers after initialisation - creating, deleting, starting and
  stopping them in any order, at any time between iterations of the timer task - the wheel stays
  well formed: each timer is unused and in the free list, or it runs and is in the spoke of its expiry
  time, exactly once, or it is in neither; the free count is the length of the free list; and no
  service nor the timer task then dereferences a null pointer or fails to return.
\<close>

theorem tmr_reach_safe:
  assumes "tmr_reach cb (s, w)" and cb: "callbacks cb g"
  shows "(\<exists>fl sp. tmr_inv s fl sp) \<and> OSTmr_Task cb (s, w) \<noteq> None
    \<and> (\<forall>t\<le>OS_TMR_CFG_MAX. OSTmrDel t s \<noteq> None \<and> OSTmrStart t s \<noteq> None
         \<and> (\<forall>opt arg. OSTmrStop cb t opt arg (s, w) \<noteq> None))"
proof -
  have ok: "tmrs_ok (fst sw)" if "tmr_reach cb sw" for sw
    using that
  proof induction
    case (init s w)
    then show ?case using OSTmr_InitPool_inv by (auto simp: tmrs_ok_def)
  next
    case create
    then show ?case using tmrs_ok_Create by simp
  next
    case (del s w t ok err s')
    then show ?case using tmrs_ok_Del [of s t] by fastforce
  next
    case (start s w t ok err s')
    then show ?case using tmrs_ok_Start [of s t] by fastforce
  next
    case (stop s w t opt arg ok err s' w')
    then show ?case using tmrs_ok_Stop [OF cb, of s t opt arg w] by fastforce
  next
    case (task s w s' w')
    then show ?case using tmrs_ok_Task [OF cb, of s w] by fastforce
  next
    case other
    then show ?case using tmrs_ok_same by simp
  qed
  then have ok: "tmrs_ok s" using assms(1) by fastforce
  show ?thesis
  proof (intro conjI allI impI)
    show "\<exists>fl sp. tmr_inv s fl sp" using ok by (simp add: tmrs_ok_def)
    show "OSTmr_Task cb (s, w) \<noteq> None" by (rule tmrs_ok_Task [OF cb ok, of w]) simp
    fix t assume t: "t \<le> OS_TMR_CFG_MAX"
    show "OSTmrDel t s \<noteq> None" by (rule tmrs_ok_Del [OF ok t]) simp
    show "OSTmrStart t s \<noteq> None" by (rule tmrs_ok_Start [OF ok t]) simp
    fix opt arg
    show "OSTmrStop cb t opt arg (s, w) \<noteq> None" by (rule tmrs_ok_Stop [OF cb ok t, of opt arg w]) simp
  qed
qed

text \<open>The callbacks of the witnesses only record their calls.\<close>

definition log_cb :: "(ptr \<times> ptr \<times> ptr) list tmr_callback" where
  "log_cb f t a sw = Some (fst sw, snd sw @ [(f, t, a)])"

lemma callbacks_log: "callbacks log_cb (\<lambda>f t a log. log @ [(f, t, a)])"
  by (simp add: callbacks_def log_cb_def)

definition ex_timer :: os_state where
  "ex_timer = snd (snd (OSTmrCreate 5 0 OS_TMR_OPT_ONE_SHOT 77 0 None (OSTmr_InitPool (ex_state 0))))"

theorem tmr_reach_safe_witness: "(\<exists>fl sp. tmr_inv ex_timer fl sp) \<and> OSTmrStart 1 ex_timer \<noteq> None"
proof -
  have "tmr_reach log_cb (ex_timer, [])"
    unfolding ex_timer_def
    by (rule tmr_reach.create [OF tmr_reach.init, of 5 0 OS_TMR_OPT_ONE_SHOT 77 0 None "ex_state 0"
          "fst (OSTmrCreate 5 0 OS_TMR_OPT_ONE_SHOT 77 0 None (OSTmr_InitPool (ex_state 0)))"
          "fst (snd (OSTmrCreate 5 0 OS_TMR_OPT_ONE_SHOT 77 0 None (OSTmr_InitPool (ex_state 0))))"]) simp
  from tmr_reach_safe [OF this callbacks_log] show ?thesis by simp
qed

subsection \<open>When a timer expires\<close>

primrec tmr_ticks :: "'w tmr_callback \<Rightarrow> nat \<Rightarrow> os_state \<times> 'w \<Rightarrow> (os_state \<times> 'w) option" where
  "tmr_ticks cb 0 sw = Some sw"
| "tmr_ticks cb (Suc n) sw = (case tmr_ticks cb n sw of None \<Rightarrow> None | Some sw' \<Rightarrow> OSTmr_Task cb sw')"

definition calls_of :: "ptr \<Rightarrow> (ptr \<times> ptr \<times> ptr) list \<Rightarrow> (ptr \<times> ptr \<times> ptr) list" where
  "calls_of t log = filter (\<lambda>(f, u, a). u = t) log"

lemma calls_of_fold:
  "distinct us \<Longrightarrow> calls_of t (fold (\<lambda>u. call_w (\<lambda>f t a log. log @ [(f, t, a)]) (v u) u) us log)
    = calls_of t log @ (if t \<in> set us \<and> OSTmrCallback (v t) \<noteq> NULL then [(OSTmrCallback (v t), t, OSTmrCallbackArg (v t))] else [])"
  by (induction us arbitrary: log) (auto simp: calls_of_def call_w_def)

lemma tmr_tick_one:
  assumes cb: "callbacks cb (\<lambda>f t a log. log @ [(f, t, a)])" and inv: "tmr_inv s fl sp"
  obtains s' sp' log' where "OSTmr_Task cb (s, log) = Some (s', log')" and "tmr_inv s' fl sp'"
    and "OSTmrTime s' = OSTmrTime s + 1"
    and "tmr_view s' t = (if tmr_due s t then expire (OSTmrTime s + 1) (tmr_view s t) else tmr_view s t)"
    and "calls_of t log' = calls_of t log @ (if tmr_due s t \<and> OSTmrCallback (tmr_view s t) \<noteq> NULL
           then [(OSTmrCallback (tmr_view s t), t, OSTmrCallbackArg (tmr_view s t))] else [])"
proof (rule OSTmr_Task_ok [OF cb inv, of log])
  fix s' sp' due
  assume r: "OSTmr_Task cb (s, log) = Some (s', fold (\<lambda>t. call_w (\<lambda>f t a log. log @ [(f, t, a)]) (tmr_view s t) t) due log)"
    and due: "distinct due" "set due = {t. tmr_due s t}" and inv': "tmr_inv s' fl sp'" and now: "OSTmrTime s' = OSTmrTime s + 1"
    and v: "tmr_view s' = (\<lambda>t. if tmr_due s t then expire (OSTmrTime s + 1) (tmr_view s t) else tmr_view s t)"
  show thesis
    by (rule that [OF r inv' now]) (simp_all only: v calls_of_fold [OF due(1)] due(2) mem_Collect_eq)
qed

lemma tmr_ticks_before:
  assumes cb: "callbacks cb (\<lambda>f t a log. log @ [(f, t, a)])" and inv: "tmr_inv s fl sp"
    and m: "OSTmrMatch (tmr_view s t) = OSTmrTime s + d" and n: "n < unat d"
  shows "\<exists>s' sp' log. tmr_ticks cb n (s, []) = Some (s', log) \<and> tmr_inv s' fl sp' \<and> OSTmrTime s' = OSTmrTime s + of_nat n
    \<and> tmr_view s' t = tmr_view s t \<and> calls_of t log = []"
  using n
proof (induction n)
  case 0
  then show ?case using inv by (auto simp: calls_of_def)
next
  case (Suc n)
  then obtain s1 sp1 log1 where t1: "tmr_ticks cb n (s, []) = Some (s1, log1)" and inv1: "tmr_inv s1 fl sp1"
    and now1: "OSTmrTime s1 = OSTmrTime s + of_nat n" and v1: "tmr_view s1 t = tmr_view s t" and c1: "calls_of t log1 = []"
    by auto
  have "of_nat (Suc n) \<noteq> d"
  proof
    assume "of_nat (Suc n) = d"
    then have "unat (of_nat (Suc n) :: 32 word) = unat d" by simp
    moreover have "Suc n < 2 ^ 32" using Suc.prems unsigned_less [of d, where 'a = nat] by simp
    then have "unat (of_nat (Suc n) :: 32 word) = Suc n"
      by (simp add: unat_of_nat take_bit_nat_eq_self del: of_nat_Suc)
    ultimately show False using Suc.prems by simp
  qed
  then have "d \<noteq> of_nat n + 1" by (simp add: add.commute)
  then have "OSTmrMatch (tmr_view s1 t) \<noteq> OSTmrTime s1 + 1" unfolding v1 m now1 by (simp add: add.assoc)
  then have "\<not> tmr_due s1 t" by (simp add: tmr_due_def)
  note idle = this
  show ?case
  proof (rule tmr_tick_one [OF cb inv1, of log1 t])
    fix s' sp' log'
    assume "OSTmr_Task cb (s1, log1) = Some (s', log')" and "tmr_inv s' fl sp'" and "OSTmrTime s' = OSTmrTime s1 + 1"
      and "tmr_view s' t = (if tmr_due s1 t then expire (OSTmrTime s1 + 1) (tmr_view s1 t) else tmr_view s1 t)"
      and "calls_of t log' = calls_of t log1 @ (if tmr_due s1 t \<and> OSTmrCallback (tmr_view s1 t) \<noteq> NULL
           then [(OSTmrCallback (tmr_view s1 t), t, OSTmrCallbackArg (tmr_view s1 t))] else [])"
    with now1 v1 c1 t1 idle show ?thesis by (simp add: add.commute add.left_commute) blast
  qed
qed

text \<open>
  C9 A timer that is started (or restarted) with a delay of \<open>d\<close> ticks - its delay, or its period when
  the delay is zero - expires exactly in the \<open>d\<close>-th following iteration of the timer task: until
  then it runs, with \<open>d\<close> minus the iterations so far as the remaining time, and its callback is
  not called; then its callback is called once, with the timer and the stored argument, and a
  one-shot timer is completed while a periodic one runs again, for its period.
\<close>

theorem OSTmrStart_expires:
  assumes cb: "callbacks cb (\<lambda>f t a log. log @ [(f, t, a)])" and inv: "tmr_inv s fl sp" and isr: "OSIntNesting s = 0"
    and t: "1 \<le> t" "t \<le> OS_TMR_CFG_MAX" and st: "OSTmrState (OSTmrTbl s t) \<noteq> OS_TMR_STATE_UNUSED"
    and f: "OSTmrCallback (OSTmrTbl s t) = f" "f \<noteq> NULL" and a: "OSTmrCallbackArg (OSTmrTbl s t) = a"
    and d: "d = (if OSTmrDly (OSTmrTbl s t) = 0 then OSTmrPeriod (OSTmrTbl s t) else OSTmrDly (OSTmrTbl s t))"
  shows "\<exists>s0. OSTmrStart t s = Some (True, OS_ERR_NONE, s0)
    \<and> (\<forall>n<unat d. \<exists>s' log. tmr_ticks cb n (s0, []) = Some (s', log) \<and> calls_of t log = []
         \<and> OSTmrState (OSTmrTbl s' t) = OS_TMR_STATE_RUNNING \<and> OSTmrMatch (OSTmrTbl s' t) - OSTmrTime s' = d - of_nat n)
    \<and> (\<exists>s' log. tmr_ticks cb (unat d) (s0, []) = Some (s', log) \<and> calls_of t log = [(f, t, a)]
         \<and> (if OSTmrOpt (OSTmrTbl s t) = OS_TMR_OPT_PERIODIC
            then OSTmrState (OSTmrTbl s' t) = OS_TMR_STATE_RUNNING
              \<and> OSTmrMatch (OSTmrTbl s' t) - OSTmrTime s' = OSTmrPeriod (OSTmrTbl s t)
            else OSTmrState (OSTmrTbl s' t) = OS_TMR_STATE_COMPLETED))"
proof (rule OSTmrStart_ok [OF inv t isr st])
  fix s0 sp0
  assume r: "OSTmrStart t s = Some (True, OS_ERR_NONE, s0)" and inv0: "tmr_inv s0 fl sp0" and now0: "OSTmrTime s0 = OSTmrTime s"
    and "tmr_view s0 = (tmr_view s)(t := started OS_TMR_LINK_DLY (OSTmrTime s) (tmr_view s t))"
  then have v0: "tmr_view s0 t = started OS_TMR_LINK_DLY (OSTmrTime s) (tmr_view s t)" by simp
  have m0: "OSTmrMatch (tmr_view s0 t) = OSTmrTime s0 + d" unfolding v0 by (simp add: link_match_def d now0)
  have run0: "OSTmrState (tmr_view s0 t) = OS_TMR_STATE_RUNNING" unfolding v0 by simp
  have "d \<noteq> 0" using tmr_inv_pool(1) [OF inv t] st by (auto simp: tmr_ok_def d)
  then obtain n where n: "unat d = Suc n" by (metis not0_implies_Suc unat_eq_zero)
  have wait: "\<exists>s' log. tmr_ticks cb n (s0, []) = Some (s', log) \<and> calls_of t log = []
      \<and> OSTmrState (OSTmrTbl s' t) = OS_TMR_STATE_RUNNING \<and> OSTmrMatch (OSTmrTbl s' t) - OSTmrTime s' = d - of_nat n"
    if lt: "n < unat d" for n
  proof -
    obtain s1 sp1 log1 where "tmr_ticks cb n (s0, []) = Some (s1, log1)" "calls_of t log1 = []"
      and now1: "OSTmrTime s1 = OSTmrTime s0 + of_nat n" and v1: "tmr_view s1 t = tmr_view s0 t"
      using tmr_ticks_before [OF cb inv0 m0 lt] by blast
    moreover have "OSTmrState (OSTmrTbl s1 t) = OS_TMR_STATE_RUNNING" using arg_cong [OF v1, of OSTmrState] run0 by simp
    moreover have "OSTmrMatch (OSTmrTbl s1 t) - OSTmrTime s1 = d - of_nat n"
      using arg_cong [OF v1, of OSTmrMatch] m0 now1 by simp
    ultimately show ?thesis by blast
  qed
  obtain s1 sp1 log1 where t1: "tmr_ticks cb n (s0, []) = Some (s1, log1)" and c1: "calls_of t log1 = []"
    and inv1: "tmr_inv s1 fl sp1" and now1: "OSTmrTime s1 = OSTmrTime s0 + of_nat n" and v1: "tmr_view s1 t = tmr_view s0 t"
    using tmr_ticks_before [OF cb inv0 m0, of n] n by auto
  have "of_nat n + 1 = d" using arg_cong [OF n, of "of_nat :: nat \<Rightarrow> 32 word"] by (simp add: add.commute)
  then have "OSTmrMatch (tmr_view s1 t) = OSTmrTime s1 + 1" unfolding v1 m0 now1 by (simp add: add.assoc)
  moreover have "OSTmrState (tmr_view s1 t) = OS_TMR_STATE_RUNNING" unfolding v1 run0 ..
  ultimately have due: "tmr_due s1 t" using t by (simp add: tmr_due_def)
  obtain s2 sp2 log2 where t2: "OSTmr_Task cb (s1, log1) = Some (s2, log2)" and now2: "OSTmrTime s2 = OSTmrTime s1 + 1"
    and v2: "tmr_view s2 t = (if tmr_due s1 t then expire (OSTmrTime s1 + 1) (tmr_view s1 t) else tmr_view s1 t)"
    and c2: "calls_of t log2 = calls_of t log1 @ (if tmr_due s1 t \<and> OSTmrCallback (tmr_view s1 t) \<noteq> NULL
           then [(OSTmrCallback (tmr_view s1 t), t, OSTmrCallbackArg (tmr_view s1 t))] else [])"
    by (rule tmr_tick_one [OF cb inv1, of log1 t])
  have "tmr_ticks cb (unat d) (s0, []) = Some (s2, log2)" using n t1 t2 by simp
  moreover have "calls_of t log2 = [(f, t, a)]" using c2 due c1 f a unfolding v1 v0 by simp
  moreover have "if OSTmrOpt (OSTmrTbl s t) = OS_TMR_OPT_PERIODIC
      then OSTmrState (OSTmrTbl s2 t) = OS_TMR_STATE_RUNNING
        \<and> OSTmrMatch (OSTmrTbl s2 t) - OSTmrTime s2 = OSTmrPeriod (OSTmrTbl s t)
      else OSTmrState (OSTmrTbl s2 t) = OS_TMR_STATE_COMPLETED"
  proof -
    have v2': "tmr_view s2 t = expire (OSTmrTime s2) (started OS_TMR_LINK_DLY (OSTmrTime s) (tmr_view s t))"
      using v2 due now2 unfolding v1 v0 by simp
    show ?thesis
      using arg_cong [OF v2', of OSTmrState] arg_cong [OF v2', of OSTmrMatch] by (simp add: expire_def)
  qed
  ultimately show ?thesis using r wait by blast
qed

theorem OSTmrStart_expires_witness:
  "\<exists>s0 s' log. OSTmrStart 1 ex_timer = Some (True, OS_ERR_NONE, s0) \<and> tmr_ticks log_cb 5 (s0, []) = Some (s', log)
     \<and> calls_of 1 log = [(77, 1, 0)] \<and> OSTmrState (OSTmrTbl s' 1) = OS_TMR_STATE_COMPLETED"
proof -
  have fl: "[1..<17::nat] = 1 # [2..<17]" by (simp add: upt_rec)
  obtain s where c: "OSTmrCreate 5 0 OS_TMR_OPT_ONE_SHOT 77 0 None (OSTmr_InitPool (ex_state 0)) = (1, OS_ERR_NONE, s)"
    and inv: "tmr_inv s [2..<17] (\<lambda>_. [])"
    and v: "tmr_view s = (tmr_view (OSTmr_InitPool (ex_state 0)))(1 := (tmr_view (OSTmr_InitPool (ex_state 0)) 1)
        \<lparr>OSTmrState := OS_TMR_STATE_STOPPED, OSTmrDly := 5, OSTmrPeriod := 0, OSTmrOpt := OS_TMR_OPT_ONE_SHOT,
         OSTmrCallback := 77, OSTmrCallbackArg := 0, OSTmrName := ''?''\<rparr>)"
    using OSTmrCreate_ok [OF OSTmr_InitPool_inv [unfolded fl], of "ex_state 0" OS_TMR_OPT_ONE_SHOT 0 5 77 0 None]
    by (auto simp: OSTmr_InitPool_def ex_state_simps set_rdy_map_def Let_def)
  have s: "s = ex_timer" using c by (simp add: ex_timer_def)
  have isr: "OSIntNesting s = 0"
    unfolding s ex_timer_def
    by (simp add: OSTmrCreate_def OSTmr_Alloc_def OSTmr_InitPool_def ex_state_simps set_rdy_map_def Let_def upd_tmr_def
        OSSchedLock_def OSSchedUnlock_def split: if_splits)
  have v1: "tmr_view s 1 = (tmr_view (OSTmr_InitPool (ex_state 0)) 1)
        \<lparr>OSTmrState := OS_TMR_STATE_STOPPED, OSTmrDly := 5, OSTmrPeriod := 0, OSTmrOpt := OS_TMR_OPT_ONE_SHOT,
         OSTmrCallback := 77, OSTmrCallbackArg := 0, OSTmrName := ''?''\<rparr>" by (simp add: v)
  note r = arg_cong [OF v1, of OSTmrState] arg_cong [OF v1, of OSTmrDly] arg_cong [OF v1, of OSTmrOpt]
    arg_cong [OF v1, of OSTmrCallback] arg_cong [OF v1, of OSTmrCallbackArg]
  have n: "unat (5 :: 32 word) = 5" by simp
  show ?thesis
    using OSTmrStart_expires [OF callbacks_log inv isr, of 1 77 0 5] r unfolding s n by auto
qed

subsection \<open>A callback that stops another timer\<close>

text \<open>
  \<open>stop_cb\<close> is the callback that stops the timer its argument points to, without calling that
  timer's own callback: \<open>OSTmrStop(arg, OS_TMR_OPT_NONE, 0, &err)\<close>.
\<close>

definition stop_cb :: "'w tmr_callback" where
  "stop_cb f t a sw = map_option (\<lambda>(ok, err, sw'). sw') (OSTmrStop (\<lambda>_ _ _ sw. Some sw) a OS_TMR_OPT_NONE NULL sw)"

lemma unlink_off_wheel:
  assumes "tmr_inv s fl sp" and "1 \<le> t" and "OSTmrState (OSTmrTbl s t) \<noteq> OS_TMR_STATE_RUNNING"
    and "OSTmrPrev (OSTmrTbl s t) = NULL"
  shows "OSTmr_Unlink t s = None"
proof -
  let ?k = "tmr_spoke (OSTmrMatch (OSTmrTbl s t))"
  have "t \<notin> set (sp ?k)" using tmr_inv_in [OF assms(1) tmr_spoke_less] assms(3) by (auto simp: tmr_in_def)
  moreover have "OSTmrFirst (OSTmrWheelTbl s ?k) = (if sp ?k = [] then NULL else hd (sp ?k))"
    using tmr_inv_list [OF assms(1) tmr_spoke_less] dll_hd unfolding tmr_list_def by fast
  ultimately have "OSTmrFirst (OSTmrWheelTbl s ?k) \<noteq> t" using assms(2) by (cases "sp ?k") auto
  then show ?thesis using assms(4) by (simp add: OSTmr_Unlink_def)
qed

text \<open>
  C40 A timer callback must not stop another timer that expires in the same tick: when the first timer
  of the spoke expires and its callback stops the second one, which is due as well, the timer task
  dereferences a null pointer - it has read the second timer as the next one to examine, finds that its
  expiry time matches and unlinks it a second time, through its null previous pointer.
\<close>

theorem tmr_stop_next_crashes:
  assumes inv: "tmr_inv s fl sp" and sp: "sp (tmr_spoke (OSTmrTime s + 1)) = t # u # bs"
    and due: "tmr_due s t" "tmr_due s u" and isr: "OSIntNesting s = 0"
    and f: "OSTmrCallback (OSTmrTbl s t) \<noteq> NULL" and a: "OSTmrCallbackArg (OSTmrTbl s t) = u"
  shows "OSTmr_Task stop_cb (s, w) = None"
proof -
  let ?s = "(OSSchedLock s)\<lparr>OSTmrTime := OSTmrTime s + 1\<rparr>"
  let ?k = "tmr_spoke (OSTmrTime s + 1)"
  have lock: "OSTmrTbl ?s = OSTmrTbl s" "OSTmrWheelTbl ?s = OSTmrWheelTbl s" "OSTmrFreeList ?s = OSTmrFreeList s"
    "OSTmrUsed ?s = OSTmrUsed s" "OSTmrFree ?s = OSTmrFree s" "OSTmrTime (OSSchedLock s) = OSTmrTime s"
    using tmr_same_Lock [of s] by (simp_all add: tmr_same_def)
  have inv0: "tmr_inv ?s fl sp" using inv lock by (simp add: tmr_inv_def tmr_free_def tmr_list_def tmr_in_def)
  have v0: "tmr_view ?s = tmr_view s" using lock by (simp add: tmr_view_def fun_eq_iff)
  have isr0: "OSIntNesting ?s = 0" using isr by (simp add: OSSchedLock_def)
  have l: "tmr_list s ?k (t # u # bs)" using tmr_inv_list [OF inv, of ?k] sp by simp
  then have d: "dll (\<lambda>t. OSTmrNext (OSTmrTbl s t)) (\<lambda>t. OSTmrPrev (OSTmrTbl s t)) 0 (OSTmrFirst (OSTmrWheelTbl s ?k)) ([] @ t # u # bs)"
    and tu: "u \<noteq> t" by (auto simp: tmr_list_def)
  have first: "OSTmrFirst (OSTmrWheelTbl s ?k) = t" and nxt: "OSTmrNext (OSTmrTbl ?s t) = u" and t0: "t \<noteq> NULL"
    using dll_links [OF d] dll_hd [OF d] lock(1) by simp_all
  have hit: "OSTmrTime ?s = OSTmrMatch (OSTmrTbl ?s t)" using due(1) lock by (simp add: tmr_due_def)
  have sp0: "sp ?k = [] @ t # u # bs" using sp by simp
  obtain s2 sp2 as2 where vis: "tmr_visit stop_cb t (?s, w) = map_option snd (tmr_call stop_cb t (OSTmrCallbackArg (OSTmrTbl s2 t)) (s2, w))"
    and inv2: "tmr_inv s2 fl sp2" and now2: "OSTmrTime s2 = OSTmrTime ?s" and isr2: "OSIntNesting s2 = OSIntNesting ?s"
    and v2: "tmr_view s2 = (tmr_view ?s)(t := expire (OSTmrTime ?s) (tmr_view ?s t))"
    by (rule tmr_visit_fire [OF inv0 tmr_spoke_less sp0 hit])
  have v2t: "tmr_view s2 t = expire (OSTmrTime ?s) (tmr_view s t)" and v2u: "tmr_view s2 u = tmr_view s u"
    using tu by (simp_all add: v2 v0)
  have cb: "OSTmrCallback (OSTmrTbl s2 t) \<noteq> NULL" "OSTmrCallbackArg (OSTmrTbl s2 t) = u"
    using arg_cong [OF v2t, of OSTmrCallback] arg_cong [OF v2t, of OSTmrCallbackArg] f a by (simp_all add: expire_def)
  have u: "1 \<le> u" "u \<le> OS_TMR_CFG_MAX" using due(2) by (simp_all add: tmr_due_def)
  have run: "OSTmrState (OSTmrTbl s2 u) = OS_TMR_STATE_RUNNING" and mu: "OSTmrMatch (OSTmrTbl s2 u) = OSTmrTime s + 1"
    using arg_cong [OF v2u, of OSTmrState] arg_cong [OF v2u, of OSTmrMatch] due(2) by (simp_all add: tmr_due_def)
  have triv: "callbacks (\<lambda>_ _ _ sw. Some sw) (\<lambda>_ _ _ w. w)" by (simp add: callbacks_def)
  have isr2': "OSIntNesting s2 = 0" using isr2 isr0 by simp
  obtain err s3 sp3 where stop: "OSTmrStop (\<lambda>_ _ _ sw. Some sw) u OS_TMR_OPT_NONE NULL (s2, w) = Some (True, err, s3, w)"
    and inv3: "tmr_inv s3 fl sp3" and v3: "tmr_view s3 = (tmr_view s2)(u := stopped (tmr_view s2 u))"
    and p3: "OSTmrPrev (OSTmrTbl s3 u) = NULL" and now3: "OSTmrTime s3 = OSTmrTime s2"
    using OSTmrStop_ok [OF triv inv2 u isr2' run, of OS_TMR_OPT_NONE NULL w] by auto
  have v3u: "tmr_view s3 u = stopped (tmr_view s2 u)" by (simp add: v3)
  have "OSTmrState (OSTmrTbl s3 u) = OS_TMR_STATE_STOPPED" and m3: "OSTmrMatch (OSTmrTbl s3 u) = OSTmrTime s3"
    using arg_cong [OF v3u, of OSTmrState] arg_cong [OF v3u, of OSTmrMatch] mu now2 now3 by (simp_all add: stopped_def)
  then have none: "OSTmr_Unlink u s3 = None" using u(1) p3 by (intro unlink_off_wheel [OF inv3]) simp_all
  have "tmr_call stop_cb t u (s2, w) = Some (True, s3, w)"
    using stop cb(1) by (simp add: tmr_call_def stop_cb_def)
  then have "tmr_visit stop_cb t (?s, w) = Some (s3, w)" using vis cb(2) by simp
  moreover have "tmr_visit stop_cb u (s3, w) = None" using none m3 by (simp add: tmr_visit_def)
  then have "tmr_scan stop_cb u (s3, w) = None" using u(1) by (subst tmr_scan.simps) simp
  ultimately have "tmr_scan stop_cb t (?s, w) = None" using t0 nxt by (subst tmr_scan.simps) (simp add: Let_def)
  then show ?thesis using first lock by (simp add: OSTmr_Task_def Let_def)
qed

text \<open>
  The witness: the timers 1 and 2 run and expire in the next tick; the callback of timer 1 is
  \<open>stop_cb\<close> on timer 2.
\<close>

definition ex_two :: os_state where
  "ex_two =
     (let s = OSTmr_InitPool (ex_state 0);
          r = OS_TMR_clr\<lparr>OSTmrType := OS_TMR_TYPE, OSTmrState := OS_TMR_STATE_RUNNING, OSTmrMatch := 1, OSTmrDly := 1,
                OSTmrOpt := OS_TMR_OPT_ONE_SHOT, OSTmrCallback := 77, OSTmrName := ''?''\<rparr>
      in s\<lparr>OSTmrTbl := (OSTmrTbl s)(1 := r\<lparr>OSTmrNext := 2, OSTmrCallbackArg := 2\<rparr>, 2 := r\<lparr>OSTmrPrev := 1\<rparr>),
           OSTmrWheelTbl := (OSTmrWheelTbl s)(1 := \<lparr>OSTmrFirst = 1, OSTmrEntries = 2\<rparr>),
           OSTmrFreeList := 3, OSTmrFree := 14, OSTmrUsed := 2\<rparr>)"

definition ex_spokes :: "nat \<Rightarrow> ptr list" where
  "ex_spokes k = (if k = 1 then [1, 2] else [])"

lemma ex_two_inv: "tmr_inv ex_two [3..<17] ex_spokes"
proof (rule tmr_invI)
  let ?p = "OSTmr_InitPool (ex_state 0)"
  have tbl: "OSTmrTbl ex_two t = OSTmrTbl ?p t" if "3 \<le> t" for t using that by (simp add: ex_two_def Let_def)
  have "path (\<lambda>t. OSTmrNext (OSTmrTbl ex_two t)) 3 [3..<Suc 16]"
    by (rule path_upt) (simp_all add: tbl OSTmr_InitPool_tbl)
  moreover have "length [3..<17::nat] = 14" by simp
  ultimately show "tmr_free ex_two [3..<17]" unfolding tmr_free_def by (auto simp: ex_two_def Let_def)
  have wheel: "OSTmrWheelTbl ?p k = \<lparr>OSTmrFirst = NULL, OSTmrEntries = 0\<rparr>" if "k < 8" for k
    using that by (simp add: OSTmr_InitPool_def Let_def)
  show "tmr_list ex_two k (ex_spokes k)" if "k < 8" for k
    using wheel [OF that] by (simp add: tmr_list_def ex_two_def ex_spokes_def Let_def OS_TMR_clr_def)
  have spoke: "tmr_spoke 1 = 1" by (simp add: tmr_spoke_def)
  show "tmr_in ex_two k t" if "k < 8" "t \<in> set (ex_spokes k)" for k t
    using that spoke by (auto simp: tmr_in_def ex_two_def ex_spokes_def Let_def OS_TMR_clr_def split: if_splits)
  show "tmr_ok (OSTmrTbl ex_two t)
      \<and> (OSTmrState (OSTmrTbl ex_two t) = OS_TMR_STATE_UNUSED \<longleftrightarrow> t \<in> set [3..<17])
      \<and> (OSTmrState (OSTmrTbl ex_two t) = OS_TMR_STATE_RUNNING \<longrightarrow> t \<in> set (ex_spokes (tmr_spoke (OSTmrMatch (OSTmrTbl ex_two t)))))"
    if "1 \<le> t" "t \<le> OS_TMR_CFG_MAX" for t
  proof (cases "t \<le> 2")
    case True
    then have "t = 1 \<or> t = 2" using that by auto
    then show ?thesis using spoke by (auto simp: ex_two_def Let_def tmr_ok_def OS_TMR_clr_def ex_spokes_def)
  next
    case False
    then have t: "3 \<le> t" by simp
    then have "t \<in> set [3..<17]" unfolding set_upt using that by simp
    then show ?thesis unfolding tbl [OF t] OSTmr_InitPool_tbl [OF that] by (simp add: tmr_ok_def OS_TMR_clr_def)
  qed
qed

theorem tmr_stop_next_crashes_witness: "OSTmr_Task stop_cb (ex_two, ()) = None"
proof (rule tmr_stop_next_crashes [OF ex_two_inv])
  have "OSTmrTime ex_two = 0" by (simp add: ex_two_def OSTmr_InitPool_def Let_def)
  then show "ex_spokes (tmr_spoke (OSTmrTime ex_two + 1)) = 1 # 2 # []"
    and "tmr_due ex_two 1" and "tmr_due ex_two 2"
    by (simp_all add: ex_spokes_def tmr_spoke_def tmr_due_def ex_two_def Let_def OS_TMR_clr_def)
  show "OSIntNesting ex_two = 0" by (simp add: ex_two_def OSTmr_InitPool_def Let_def ex_state_simps set_rdy_map_def)
  show "OSTmrCallback (OSTmrTbl ex_two 1) \<noteq> NULL" and "OSTmrCallbackArg (OSTmrTbl ex_two 1) = 2"
    by (simp_all add: ex_two_def Let_def)
qed

end
