(* ===== verification/Ring_Buffer.thy ===== *)
theory Ring_Buffer
  imports OS_State
begin

text \<open>
  The circular buffer inside a message queue (\<open>os_q.c\<close>): the control block \<open>OS_Q\<close> and the
  message cells it points into.  The interface is a bounded sequence with insertion at both ends
  and removal at the front; what clients need to know of first-in-first-out order is proved from it.
\<close>

subsection \<open>The interface\<close>

locale bounded_fifo =
  fixes items :: "'q \<Rightarrow> 'm list"
    and cap :: "'q \<Rightarrow> nat"
    and ok :: "'q \<Rightarrow> bool"
    and put :: "'m \<Rightarrow> 'q \<Rightarrow> 'q"
    and push :: "'m \<Rightarrow> 'q \<Rightarrow> 'q"
    and get :: "'q \<Rightarrow> 'm \<times> 'q"
    and clear :: "'q \<Rightarrow> 'q"
  assumes items_le: "ok q \<Longrightarrow> length (items q) \<le> cap q"
    and put_ok: "ok q \<Longrightarrow> length (items q) < cap q \<Longrightarrow>
      ok (put m q) \<and> items (put m q) = items q @ [m] \<and> cap (put m q) = cap q"
    and push_ok: "ok q \<Longrightarrow> length (items q) < cap q \<Longrightarrow>
      ok (push m q) \<and> items (push m q) = m # items q \<and> cap (push m q) = cap q"
    and get_ok: "ok q \<Longrightarrow> items q \<noteq> [] \<Longrightarrow>
      fst (get q) = hd (items q) \<and> ok (snd (get q)) \<and> items (snd (get q)) = tl (items q)
      \<and> cap (snd (get q)) = cap q"
    and clear_ok: "ok q \<Longrightarrow> ok (clear q) \<and> items (clear q) = [] \<and> cap (clear q) = cap q"
begin

primrec get_n :: "nat \<Rightarrow> 'q \<Rightarrow> 'm list \<times> 'q" where
  "get_n 0 q = ([], q)"
| "get_n (Suc n) q = (let (m, q1) = get q; (ms, q2) = get_n n q1 in (m # ms, q2))"

lemma put_list:
  "ok q \<Longrightarrow> length (items q) + length ms \<le> cap q \<Longrightarrow>
     ok (fold put ms q) \<and> items (fold put ms q) = items q @ ms \<and> cap (fold put ms q) = cap q"
proof (induction ms arbitrary: q)
  case (Cons m ms)
  then show ?case using put_ok [of q m] Cons.IH [of "put m q"] by simp
qed simp

lemma get_list:
  "ok q \<Longrightarrow> n \<le> length (items q) \<Longrightarrow>
     fst (get_n n q) = take n (items q) \<and> ok (snd (get_n n q)) \<and> items (snd (get_n n q)) = drop n (items q)"
proof (induction n arbitrary: q)
  case (Suc n)
  then have ne: "items q \<noteq> []" by auto
  note g = get_ok [OF Suc.prems(1) ne]
  then have "n \<le> length (items (snd (get q)))" using Suc.prems(2) by simp
  note IH = Suc.IH [OF _ this]
  show ?case using g IH ne
    by (cases "items q") (auto simp: Let_def split: prod.splits)
qed simp

text \<open>Messages come out in the order in which they went in.\<close>

lemma fifo:
  assumes "ok q" and "items q = []" and "length ms \<le> cap q"
  shows "fst (get_n (length ms) (fold put ms q)) = ms"
  using put_list [of q ms] get_list [of "fold put ms q" "length ms"] assms by simp

text \<open>A message that was put in front comes out first.\<close>

lemma lifo: "ok q \<Longrightarrow> length (items q) < cap q \<Longrightarrow> fst (get (push m q)) = m
    \<and> items (snd (get (push m q))) = items q"
  using push_ok [of q m] get_ok [of "push m q"] by simp

end

subsection \<open>The operations of the buffer\<close>

type_synonym ring = "OS_Q \<times> (ptr \<Rightarrow> ptr)"

text \<open>\<open>pmsg = *pq->OSQOut++; pq->OSQEntries--; if (pq->OSQOut == pq->OSQEnd) ...\<close>\<close>

definition q_get :: "ring \<Rightarrow> ptr \<times> ring" where
  "q_get r =
     (let (pq, cells) = r;
          pmsg = cells (OSQOut pq);
          pq1 = pq\<lparr>OSQOut := OSQOut pq + 1, OSQEntries := OSQEntries pq - 1\<rparr>;
          pq2 = (if OSQOut pq1 = OSQEnd pq1 then pq1\<lparr>OSQOut := OSQStart pq1\<rparr> else pq1)
      in (pmsg, (pq2, cells)))"

definition q_put :: "ptr \<Rightarrow> ring \<Rightarrow> ring" where
  "q_put pmsg r =
     (let (pq, cells) = r;
          cells1 = cells(OSQIn pq := pmsg);
          pq1 = pq\<lparr>OSQIn := OSQIn pq + 1, OSQEntries := OSQEntries pq + 1\<rparr>;
          pq2 = (if OSQIn pq1 = OSQEnd pq1 then pq1\<lparr>OSQIn := OSQStart pq1\<rparr> else pq1)
      in (pq2, cells1))"

definition q_push :: "ptr \<Rightarrow> ring \<Rightarrow> ring" where
  "q_push pmsg r =
     (let (pq, cells) = r;
          pq1 = (if OSQOut pq = OSQStart pq then pq\<lparr>OSQOut := OSQEnd pq\<rparr> else pq);
          pq2 = pq1\<lparr>OSQOut := OSQOut pq1 - 1\<rparr>;
          cells1 = cells(OSQOut pq2 := pmsg)
      in (pq2\<lparr>OSQEntries := OSQEntries pq2 + 1\<rparr>, cells1))"

definition q_clear :: "ring \<Rightarrow> ring" where
  "q_clear r =
     (let (pq, cells) = r
      in (pq\<lparr>OSQIn := OSQStart pq, OSQOut := OSQStart pq, OSQEntries := 0\<rparr>, cells))"

subsection \<open>The invariant\<close>

definition q_size :: "ring \<Rightarrow> nat" where
  "q_size r = unat (OSQSize (fst r))"

text \<open>The cell of the \<open>i\<close>-th message, counted from the oldest.\<close>

definition q_cell :: "OS_Q \<Rightarrow> nat \<Rightarrow> ptr" where
  "q_cell pq i = OSQStart pq + (OSQOut pq - OSQStart pq + i) mod unat (OSQSize pq)"

definition q_items :: "ring \<Rightarrow> ptr list" where
  "q_items r = map (\<lambda>i. snd r (q_cell (fst r) i)) [0..<unat (OSQEntries (fst r))]"

definition ring_ok :: "ring \<Rightarrow> bool" where
  "ring_ok r \<longleftrightarrow> (let pq = fst r in OSQSize pq \<noteq> 0
     \<and> OSQEnd pq = OSQStart pq + unat (OSQSize pq)
     \<and> OSQStart pq \<le> OSQOut pq \<and> OSQOut pq < OSQEnd pq
     \<and> unat (OSQEntries pq) \<le> unat (OSQSize pq)
     \<and> OSQIn pq = q_cell pq (unat (OSQEntries pq)))"

lemma q_cell_range: "ring_ok r \<Longrightarrow> OSQStart (fst r) \<le> q_cell (fst r) i \<and> q_cell (fst r) i < OSQEnd (fst r)"
  by (auto simp: ring_ok_def q_cell_def Let_def unat_gt_0)

lemma mod_add_inj:
  assumes "(a + i) mod n = (a + j) mod n" and "i < n" and "j < (n::nat)"
  shows "i = j"
proof (cases i j rule: linorder_cases)
  case less
  then have "n dvd j - i" using assms(1) mod_eq_dvd_iff_nat [of "a + i" "a + j" n] by simp
  with less assms(3) show ?thesis by (auto dest: dvd_imp_le)
next
  case greater
  then have "n dvd i - j" using assms(1) mod_eq_dvd_iff_nat [of "a + j" "a + i" n] by simp
  with greater assms(2) show ?thesis by (auto dest: dvd_imp_le)
qed

lemma q_cell_inj:
  assumes "i < unat (OSQSize pq)" and "j < unat (OSQSize pq)"
  shows "q_cell pq i = q_cell pq j \<longleftrightarrow> i = j"
  using assms mod_add_inj unfolding q_cell_def by (metis add_left_cancel)

text \<open>The wrap-around of an index by comparison with the end is addition modulo the size.\<close>

lemma wrap_succ: "(x::nat) < n \<Longrightarrow> (if b + x + 1 = b + n then b else b + x + 1) = b + (x + 1) mod n"
  by (auto simp: mod_if)

lemma mod_succ_cell:
  assumes "n > 0"
  shows "(if b + (x + k) mod n + 1 = b + n then b else b + (x + k) mod n + 1) = b + (x + (k + 1)) mod (n::nat)"
  using wrap_succ [of "(x + k) mod n" n b] assms by (simp add: mod_Suc_eq add.assoc)

lemma mod_pred_cell:
  assumes "x < (n::nat)"
  shows "((if x = 0 then n else x) - 1 + Suc i) mod n = (x + i) mod n"
  using assms by (cases x) auto

lemma q_items_length: "length (q_items r) = unat (OSQEntries (fst r))"
  by (simp add: q_items_def)

lemma unat_le_succ: "unat (a::'a::len word) < unat (b::'a word) \<Longrightarrow> unat (a + 1) = unat a + 1"
proof (rule unat_word_succ)
  assume "unat a < unat b"
  moreover have "unat b \<le> unat (- 1 :: 'a word)"
    using word_order.extremum [of b] unfolding word_le_nat_alt .
  ultimately show "a \<noteq> - 1" by auto
qed

lemma q_put_ok:
  assumes ok: "ring_ok r" and room: "length (q_items r) < q_size r"
  shows "ring_ok (q_put m r) \<and> q_items (q_put m r) = q_items r @ [m] \<and> q_size (q_put m r) = q_size r"
proof -
  obtain pq c where r: "r = (pq, c)" by (cases r)
  let ?n = "unat (OSQSize pq)" and ?k = "unat (OSQEntries pq)"
  let ?x = "OSQOut pq - OSQStart pq"
  have n: "?n > 0" and en: "OSQEnd pq = OSQStart pq + ?n" and k: "?k < ?n"
    and inx: "OSQIn pq = q_cell pq ?k"
    using ok room by (auto simp: ring_ok_def r q_items_length q_size_def Let_def unat_gt_0)
  have k1: "unat (OSQEntries pq + 1) = ?k + 1" by (rule unat_le_succ [OF k])
  have in': "OSQIn (fst (q_put m r)) = q_cell pq (?k + 1)"
    using mod_succ_cell [OF n, of "OSQStart pq" ?x ?k] en inx
    by (auto simp: q_put_def r q_cell_def Let_def)
  have cell: "q_cell (fst (q_put m r)) i = q_cell pq i" for i
    by (simp add: q_put_def r q_cell_def Let_def)
  have "q_items (q_put m r) = map (\<lambda>i. (c(q_cell pq ?k := m)) (q_cell pq i)) [0..<?k + 1]"
    unfolding q_items_def cell by (simp add: q_put_def r Let_def k1 inx)
  also have "\<dots> = map (\<lambda>i. c (q_cell pq i)) [0..<?k] @ [m]"
    using k by (auto simp: q_cell_inj)
  finally have items: "q_items (q_put m r) = q_items r @ [m]" by (simp add: q_items_def r)
  have "ring_ok (q_put m r)"
    using ok k k1 in' cell unfolding ring_ok_def Let_def
    by (simp add: q_put_def r Let_def)
  moreover have "q_size (q_put m r) = q_size r" by (simp add: q_size_def q_put_def r Let_def)
  ultimately show ?thesis using items by simp
qed

lemma q_get_ok:
  assumes ok: "ring_ok r" and ne: "q_items r \<noteq> []"
  shows "fst (q_get r) = hd (q_items r) \<and> ring_ok (snd (q_get r)) \<and> q_items (snd (q_get r)) = tl (q_items r)
    \<and> q_size (snd (q_get r)) = q_size r"
proof -
  obtain pq c where r: "r = (pq, c)" by (cases r)
  let ?n = "unat (OSQSize pq)" and ?k = "unat (OSQEntries pq)"
  let ?x = "OSQOut pq - OSQStart pq"
  have n: "?n > 0" and en: "OSQEnd pq = OSQStart pq + ?n" and k: "?k \<le> ?n" "?k \<noteq> 0"
    and inx: "OSQIn pq = q_cell pq ?k" and out: "OSQStart pq \<le> OSQOut pq" "OSQOut pq < OSQEnd pq"
    using ok ne by (auto simp: ring_ok_def r q_items_def Let_def unat_gt_0)
  have k1: "unat (OSQEntries pq - 1) = ?k - 1"
    by (rule unat_word_pred) (use k(2) in auto)
  have x: "?x < ?n" using out en by auto
  have out': "OSQOut (fst (snd (q_get r))) = OSQStart pq + (?x + 1) mod ?n"
    using wrap_succ [OF x, of "OSQStart pq"] out en
    by (auto simp: q_get_def r Let_def split: if_splits)
  have st: "OSQStart (fst (snd (q_get r))) = OSQStart pq" and sz: "OSQSize (fst (snd (q_get r))) = OSQSize pq"
    by (simp_all add: q_get_def r Let_def)
  have cell: "q_cell (fst (snd (q_get r))) i = q_cell pq (i + 1)" for i
  proof -
    have "((?x + 1) mod ?n + i) mod ?n = (?x + (i + 1)) mod ?n"
      by (simp only: mod_add_left_eq add.assoc add.commute [of 1 i])
    then show ?thesis unfolding q_cell_def out' st sz by simp
  qed
  have c0: "q_cell pq 0 = OSQOut pq" using x out by (simp add: q_cell_def)
  have upt: "[0..<?k] = 0 # map (\<lambda>i. i + 1) [0..<?k - 1]"
    using k(2) by (simp add: upt_conv_Cons map_Suc_upt flip: Suc_eq_plus1)
  have items: "q_items r = c (OSQOut pq) # map (\<lambda>i. c (q_cell pq (i + 1))) [0..<?k - 1]"
    unfolding q_items_def r fst_conv snd_conv upt by (simp add: c0)
  have "q_items (snd (q_get r)) = map (\<lambda>i. c (q_cell pq (i + 1))) [0..<?k - 1]"
    unfolding q_items_def cell by (simp add: q_get_def r Let_def k1)
  moreover have "fst (q_get r) = c (OSQOut pq)" by (simp add: q_get_def r Let_def)
  moreover have "ring_ok (snd (q_get r))"
  proof -
    have "OSQIn (fst (snd (q_get r))) = q_cell (fst (snd (q_get r))) (?k - 1)"
      unfolding cell using inx k(2) by (simp add: q_get_def r Let_def)
    moreover have "(?x + 1) mod ?n < ?n" using n by simp
    ultimately show ?thesis
      using ok k k1 en unfolding ring_ok_def Let_def out' st sz
      by (simp add: q_get_def r Let_def)
  qed
  moreover have "q_size (snd (q_get r)) = q_size r" by (simp add: q_size_def sz) (simp add: r)
  ultimately show ?thesis using items by simp
qed

lemma q_push_ok:
  assumes ok: "ring_ok r" and room: "length (q_items r) < q_size r"
  shows "ring_ok (q_push m r) \<and> q_items (q_push m r) = m # q_items r \<and> q_size (q_push m r) = q_size r"
proof -
  obtain pq c where r: "r = (pq, c)" by (cases r)
  let ?n = "unat (OSQSize pq)" and ?k = "unat (OSQEntries pq)"
  let ?x = "OSQOut pq - OSQStart pq"
  let ?q = "fst (q_push m r)"
  have n: "?n > 0" and en: "OSQEnd pq = OSQStart pq + ?n" and k: "?k < ?n"
    and inx: "OSQIn pq = q_cell pq ?k" and out: "OSQStart pq \<le> OSQOut pq" "OSQOut pq < OSQEnd pq"
    using ok room by (auto simp: ring_ok_def r q_items_length q_size_def Let_def unat_gt_0)
  have k1: "unat (OSQEntries pq + 1) = ?k + 1" by (rule unat_le_succ [OF k])
  have x: "?x < ?n" using out en by auto
  have st: "OSQStart ?q = OSQStart pq" and sz: "OSQSize ?q = OSQSize pq" and endd: "OSQEnd ?q = OSQEnd pq"
    and inn: "OSQIn ?q = OSQIn pq" and ent: "OSQEntries ?q = OSQEntries pq + 1"
    by (simp_all add: q_push_def r Let_def)
  have out': "OSQOut ?q - OSQStart ?q = (if ?x = 0 then ?n else ?x) - 1" and ge: "OSQStart pq \<le> OSQOut ?q"
    using out en n by (auto simp: q_push_def r Let_def)
  have cell: "q_cell ?q (Suc i) = q_cell pq i" for i
  proof -
    have "q_cell ?q (Suc i) = OSQStart ?q + ((if ?x = 0 then ?n else ?x) - 1 + Suc i) mod ?n"
      unfolding q_cell_def out' sz ..
    then show ?thesis unfolding mod_pred_cell [OF x] st by (simp add: q_cell_def)
  qed
  have lt: "(if ?x = 0 then ?n else ?x) - 1 < ?n" using x n by auto
  have c0: "q_cell ?q 0 = OSQOut ?q"
    using lt ge out' unfolding q_cell_def st sz by simp
  have cells: "snd (q_push m r) = c(q_cell ?q 0 := m)"
    unfolding c0 by (simp add: q_push_def r Let_def)
  have upt: "[0..<?k + 1] = 0 # map Suc [0..<?k]" by (simp add: upt_conv_Cons map_Suc_upt)
  have "q_cell ?q (Suc i) \<noteq> q_cell ?q 0" if "i < ?k" for i
    using that k q_cell_inj [of "Suc i" ?q 0] sz by simp
  then have "q_items (q_push m r) = m # map (\<lambda>i. c (q_cell pq i)) [0..<?k]"
    unfolding q_items_def cells ent k1 upt by (simp add: cell)
  then have items: "q_items (q_push m r) = m # q_items r" by (simp add: q_items_def r)
  have "OSQOut ?q < OSQStart pq + ?n" using lt ge unfolding out' [symmetric] st by linarith
  moreover have "OSQIn ?q = q_cell ?q (?k + 1)" unfolding inn inx using cell [of ?k] by simp
  ultimately have "ring_ok (q_push m r)"
    using ok k ge unfolding ring_ok_def Let_def sz ent k1 st endd
    by (simp add: r)
  moreover have "q_size (q_push m r) = q_size r" by (simp add: q_size_def sz) (simp add: r)
  ultimately show ?thesis using items by simp
qed

lemma q_clear_ok: "ring_ok r \<Longrightarrow> ring_ok (q_clear r) \<and> q_items (q_clear r) = [] \<and> q_size (q_clear r) = q_size r"
  by (cases r) (simp add: ring_ok_def q_clear_def q_items_def q_size_def q_cell_def Let_def)

interpretation q: bounded_fifo q_items q_size ring_ok q_put q_push q_get q_clear
proof unfold_locales
  show "ring_ok q \<Longrightarrow> length (q_items q) \<le> q_size q" for q
    by (simp add: ring_ok_def q_items_length q_size_def Let_def)
qed (use q_put_ok q_push_ok q_get_ok q_clear_ok in \<open>simp_all\<close>)

text \<open>A queue writes inside its own cells.\<close>

lemma q_put_cells: "ring_ok r \<Longrightarrow> \<not> (OSQStart (fst r) \<le> a \<and> a < OSQEnd (fst r)) \<Longrightarrow> snd (q_put m r) a = snd r a"
  using q_cell_range [of r "unat (OSQEntries (fst r))"]
  by (cases r) (auto simp: q_put_def Let_def ring_ok_def)

lemma q_push_cells: "ring_ok r \<Longrightarrow> \<not> (OSQStart (fst r) \<le> a \<and> a < OSQEnd (fst r)) \<Longrightarrow> snd (q_push m r) a = snd r a"
proof -
  assume ok: "ring_ok r" and out: "\<not> (OSQStart (fst r) \<le> a \<and> a < OSQEnd (fst r))"
  obtain pq c where r: "r = (pq, c)" by (cases r)
  have "unat (OSQSize pq) > 0" using ok by (simp add: ring_ok_def r unat_gt_0)
  with ok out show ?thesis by (auto simp: r q_push_def Let_def ring_ok_def)
qed

end
