(* ===== verification/OS_Queue.thy ===== *)
theory OS_Queue
  imports Event_Services Example_System Ring_Buffer
begin

text \<open>
  Message queues (\<open>os_q.c\<close>): an event whose \<open>OSEventPtr\<close> leads to an \<open>OS_Q\<close> control block
  with a circular buffer of message pointers, and the free list of these control blocks.  The
  abstract queue is the list of messages, oldest first, the capacity, and the set of waiters.
\<close>

record OS_Q_DATA =
  OSQMsg :: ptr
  OSNMsgs :: INT16U
  OSQDataSize :: INT16U
  OSQEventTbl :: "8 word list"
  OSQEventGrp :: "8 word"

definition queue_of :: "os_state \<Rightarrow> ptr \<Rightarrow> ring" where
  "queue_of s pevent = (OSQTbl s (OSEventPtr (OSEvents s pevent)), msg_cells s)"

definition set_queue :: "ptr \<Rightarrow> ring \<Rightarrow> os_state \<Rightarrow> os_state" where
  "set_queue pevent r s =
     s\<lparr>OSQTbl := (OSQTbl s)(OSEventPtr (OSEvents s pevent) := fst r), msg_cells := snd r\<rparr>"

definition queue_full :: "ring \<Rightarrow> bool" where
  "queue_full r \<longleftrightarrow> OSQEntries (fst r) \<ge> OSQSize (fst r)"

definition OSQAccept :: "ptr \<Rightarrow> os_state \<Rightarrow> ptr \<times> INT8U \<times> os_state" where
  "OSQAccept pevent s =
     (if pevent = NULL then (NULL, OS_ERR_PEVENT_NULL, s)
      else if OSEventType (OSEvents s pevent) \<noteq> OS_EVENT_TYPE_Q then (NULL, OS_ERR_EVENT_TYPE, s)
      else if OSQEntries (fst (queue_of s pevent)) > 0
      then (let (pmsg, r) = q_get (queue_of s pevent) in (pmsg, OS_ERR_NONE, set_queue pevent r s))
      else (NULL, OS_ERR_Q_EMPTY, s))"

text \<open>The free list of queue control blocks.\<close>

definition q_alloc :: "os_state \<Rightarrow> ptr \<times> os_state" where
  "q_alloc s = (let pq = OSQFreeList s
                in (pq, if pq \<noteq> NULL then s\<lparr>OSQFreeList := OSQPtr (OSQTbl s (OSQFreeList s))\<rparr> else s))"

definition q_free :: "ptr \<Rightarrow> os_state \<Rightarrow> os_state" where
  "q_free pq s = s\<lparr>OSQTbl := (OSQTbl s)(pq := (OSQTbl s pq)\<lparr>OSQPtr := OSQFreeList s\<rparr>), OSQFreeList := pq\<rparr>"

definition OSQCreate :: "ptr \<Rightarrow> INT16U \<Rightarrow> os_state \<Rightarrow> ptr \<times> os_state" where
  "OSQCreate start sz s =
     (if OSIntNesting s > 0 then (NULL, s)
      else (let (pevent, s1) = event_alloc s
            in if pevent \<noteq> NULL then
                 (let (pq, s2) = q_alloc s1
                  in if pq \<noteq> NULL then
                       (let s3 = s2\<lparr>OSQTbl := (OSQTbl s2)(pq := (OSQTbl s2 pq)\<lparr>OSQStart := start,
                                    OSQEnd := start + unat sz, OSQIn := start, OSQOut := start,
                                    OSQSize := sz, OSQEntries := 0\<rparr>)\<rparr>;
                            s4 = upd_event pevent (\<lambda>ev. ev\<lparr>OSEventType := OS_EVENT_TYPE_Q, OSEventCnt := 0,
                                   OSEventPtr := pq, OSEventName := ''?''\<rparr>) s3
                        in (pevent, OS_EventWaitListInit pevent s4))
                     else
                       (let s3 = upd_event pevent (\<lambda>ev. ev\<lparr>OSEventPtr := OSEventFreeList s2\<rparr>) s2
                        in (NULL, s3\<lparr>OSEventFreeList := pevent\<rparr>)))
               else (pevent, s1)))"

definition queue_free :: "ptr \<Rightarrow> os_state \<Rightarrow> os_state" where
  "queue_free pevent s = event_free pevent (q_free (OSEventPtr (OSEvents s pevent)) s)"

definition OSQDel :: "ptr \<Rightarrow> INT8U \<Rightarrow> os_state \<Rightarrow> (ptr \<times> INT8U \<times> os_state) option" where
  "OSQDel pevent opt s =
     (if pevent = NULL then Some (pevent, OS_ERR_PEVENT_NULL, s)
      else if OSEventType (OSEvents s pevent) \<noteq> OS_EVENT_TYPE_Q then Some (pevent, OS_ERR_EVENT_TYPE, s)
      else if OSIntNesting s > 0 then Some (pevent, OS_ERR_DEL_ISR, s)
      else (let tasks_waiting = (OSEventGrp (OSEvents s pevent) \<noteq> 0)
            in if opt = OS_DEL_NO_PEND then
                 if \<not> tasks_waiting then Some (NULL, OS_ERR_NONE, queue_free pevent s)
                 else Some (pevent, OS_ERR_TASK_WAITING, s)
               else if opt = OS_DEL_ALWAYS then
                 (case OS_EventTaskRdyAll pevent NULL OS_STAT_Q OS_STAT_PEND_OK 0 s of
                    None \<Rightarrow> None
                  | Some (n, s1) \<Rightarrow>
                      (let s2 = queue_free pevent s1
                       in Some (NULL, OS_ERR_NONE, if tasks_waiting then OS_Sched s2 else s2)))
               else Some (pevent, OS_ERR_INVALID_OPT, s)))"

definition OSQFlush :: "ptr \<Rightarrow> os_state \<Rightarrow> INT8U \<times> os_state" where
  "OSQFlush pevent s =
     (if pevent = NULL then (OS_ERR_PEVENT_NULL, s)
      else if OSEventType (OSEvents s pevent) \<noteq> OS_EVENT_TYPE_Q then (OS_ERR_EVENT_TYPE, s)
      else (OS_ERR_NONE, set_queue pevent (q_clear (queue_of s pevent)) s))"

definition OSQPend :: "ptr \<Rightarrow> INT32U \<Rightarrow> os_state \<Rightarrow> (ptr \<times> INT8U) option \<times> os_state" where
  "OSQPend pevent timeout s =
     (if pevent = NULL then (Some (NULL, OS_ERR_PEVENT_NULL), s)
      else if OSEventType (OSEvents s pevent) \<noteq> OS_EVENT_TYPE_Q then (Some (NULL, OS_ERR_EVENT_TYPE), s)
      else if OSIntNesting s > 0 then (Some (NULL, OS_ERR_PEND_ISR), s)
      else if OSLockNesting s > 0 then (Some (NULL, OS_ERR_PEND_LOCKED), s)
      else if OSQEntries (fst (queue_of s pevent)) > 0
      then (let (pmsg, r) = q_get (queue_of s pevent)
            in (Some (pmsg, OS_ERR_NONE), set_queue pevent r s))
      else (None, OS_Sched (event_block OS_STAT_Q pevent timeout s)))"

definition OSQPend_resume :: "ptr \<Rightarrow> os_state \<Rightarrow> ptr \<times> INT8U \<times> os_state" where
  "OSQPend_resume pevent s =
     (let msg = OSTCBMsg (OSTCBTbl s (OSTCBCur s));
          (perr, s1) = event_pend_end pevent s
      in (if perr = OS_ERR_NONE then msg else NULL, perr,
          upd_tcb (OSTCBCur s1) (\<lambda>t. t\<lparr>OSTCBMsg := NULL\<rparr>) s1))"

definition OSQPendAbort :: "ptr \<Rightarrow> INT8U \<Rightarrow> os_state \<Rightarrow> (INT8U \<times> INT8U \<times> os_state) option" where
  "OSQPendAbort pevent opt s =
     (if pevent = NULL then Some (0, OS_ERR_PEVENT_NULL, s)
      else if OSEventType (OSEvents s pevent) \<noteq> OS_EVENT_TYPE_Q then Some (0, OS_ERR_EVENT_TYPE, s)
      else event_pend_abort OS_STAT_Q pevent opt s)"

definition OSQPost :: "ptr \<Rightarrow> ptr \<Rightarrow> os_state \<Rightarrow> INT8U \<times> os_state" where
  "OSQPost pevent pmsg s =
     (if pevent = NULL then (OS_ERR_PEVENT_NULL, s)
      else if OSEventType (OSEvents s pevent) \<noteq> OS_EVENT_TYPE_Q then (OS_ERR_EVENT_TYPE, s)
      else if OSEventGrp (OSEvents s pevent) \<noteq> 0
      then (OS_ERR_NONE, OS_Sched (snd (OS_EventTaskRdy pevent pmsg OS_STAT_Q OS_STAT_PEND_OK s)))
      else if queue_full (queue_of s pevent) then (OS_ERR_Q_FULL, s)
      else (OS_ERR_NONE, set_queue pevent (q_put pmsg (queue_of s pevent)) s))"

definition OSQPostFront :: "ptr \<Rightarrow> ptr \<Rightarrow> os_state \<Rightarrow> INT8U \<times> os_state" where
  "OSQPostFront pevent pmsg s =
     (if pevent = NULL then (OS_ERR_PEVENT_NULL, s)
      else if OSEventType (OSEvents s pevent) \<noteq> OS_EVENT_TYPE_Q then (OS_ERR_EVENT_TYPE, s)
      else if OSEventGrp (OSEvents s pevent) \<noteq> 0
      then (OS_ERR_NONE, OS_Sched (snd (OS_EventTaskRdy pevent pmsg OS_STAT_Q OS_STAT_PEND_OK s)))
      else if queue_full (queue_of s pevent) then (OS_ERR_Q_FULL, s)
      else (OS_ERR_NONE, set_queue pevent (q_push pmsg (queue_of s pevent)) s))"

definition OSQPostOpt :: "ptr \<Rightarrow> ptr \<Rightarrow> INT8U \<Rightarrow> os_state \<Rightarrow> (INT8U \<times> os_state) option" where
  "OSQPostOpt pevent pmsg opt s =
     (if pevent = NULL then Some (OS_ERR_PEVENT_NULL, s)
      else if OSEventType (OSEvents s pevent) \<noteq> OS_EVENT_TYPE_Q then Some (OS_ERR_EVENT_TYPE, s)
      else if OSEventGrp (OSEvents s pevent) \<noteq> 0
      then (case if opt AND OS_POST_OPT_BROADCAST \<noteq> 0
                 then OS_EventTaskRdyAll pevent pmsg OS_STAT_Q OS_STAT_PEND_OK 0 s
                 else Some (0, snd (OS_EventTaskRdy pevent pmsg OS_STAT_Q OS_STAT_PEND_OK s)) of
              None \<Rightarrow> None
            | Some (n, s1) \<Rightarrow>
                Some (OS_ERR_NONE, if opt AND OS_POST_OPT_NO_SCHED = 0 then OS_Sched s1 else s1))
      else if queue_full (queue_of s pevent) then Some (OS_ERR_Q_FULL, s)
      else Some (OS_ERR_NONE,
             set_queue pevent (if opt AND OS_POST_OPT_FRONT \<noteq> 0 then q_push pmsg (queue_of s pevent)
                               else q_put pmsg (queue_of s pevent)) s))"

definition OSQQuery :: "ptr \<Rightarrow> ptr \<Rightarrow> os_state \<Rightarrow> INT8U \<times> OS_Q_DATA option" where
  "OSQQuery pevent p_q_data s =
     (if pevent = NULL then (OS_ERR_PEVENT_NULL, None)
      else if p_q_data = NULL then (OS_ERR_PDATA_NULL, None)
      else if OSEventType (OSEvents s pevent) \<noteq> OS_EVENT_TYPE_Q then (OS_ERR_EVENT_TYPE, None)
      else (let (pq, cells) = queue_of s pevent
            in (OS_ERR_NONE, Some \<lparr>OSQMsg = (if OSQEntries pq > 0 then cells (OSQOut pq) else NULL),
                  OSNMsgs = OSQEntries pq, OSQDataSize = OSQSize pq,
                  OSQEventTbl = map (OSEventTbl (OSEvents s pevent)) [0..<8],
                  OSQEventGrp = OSEventGrp (OSEvents s pevent)\<rparr>)))"

text \<open>\<open>OS_QInit\<close>: the loop that links the control blocks.\<close>

primrec q_link :: "nat \<Rightarrow> (ptr \<Rightarrow> OS_Q) \<Rightarrow> (ptr \<Rightarrow> OS_Q)" where
  "q_link 0 tbl = tbl"
| "q_link (Suc ix) tbl = (let tbl1 = q_link ix tbl in tbl1(ix + 1 := (tbl1 (ix + 1))\<lparr>OSQPtr := ix + 2\<rparr>))"

definition OS_Q_clr :: OS_Q where
  "OS_Q_clr = \<lparr>OSQPtr = NULL, OSQStart = NULL, OSQEnd = NULL, OSQIn = NULL, OSQOut = NULL, OSQSize = 0, OSQEntries = 0\<rparr>"

definition OS_QInit :: "os_state \<Rightarrow> os_state" where
  "OS_QInit s =
     (let tbl1 = (\<lambda>a. if 1 \<le> a \<and> a \<le> OS_MAX_QS then OS_Q_clr else OSQTbl s a);
          tbl2 = q_link (OS_MAX_QS - 1) tbl1
      in s\<lparr>OSQTbl := tbl2(OS_MAX_QS := (tbl2 OS_MAX_QS)\<lparr>OSQPtr := NULL\<rparr>), OSQFreeList := 1\<rparr>)"

subsection \<open>Queue control blocks\<close>

definition free_queues :: "os_state \<Rightarrow> ptr list \<Rightarrow> bool" where
  "free_queues s xs \<longleftrightarrow> path (\<lambda>q. OSQPtr (OSQTbl s q)) (OSQFreeList s) xs \<and> distinct xs"

interpretation qfree: free_list free_queues q_alloc q_free "\<lambda>_. True"
proof (unfold_locales, goal_cases)
  case (1 s xs ys)
  then show ?case by (auto simp: free_queues_def dest: path_unique)
next
  case (2 s xs)
  then show ?case by (simp add: free_queues_def)
next
  case (3 s xs)
  then show ?case by (auto simp: free_queues_def dest: path_nonzero)
next
  case (4 s)
  then show ?case by (simp add: free_queues_def q_alloc_def)
next
  case (5 s x xs)
  then show ?case by (auto simp: free_queues_def q_alloc_def Let_def)
next
  case (6 s xs x)
  then have "path (\<lambda>q. OSQPtr (OSQTbl (q_free x s) q)) (OSQFreeList s) xs
      = path (\<lambda>q. OSQPtr (OSQTbl s q)) (OSQFreeList s) xs"
    by (intro path_cong) (auto simp: q_free_def)
  with 6 show ?case by (auto simp: free_queues_def q_free_def)
qed

lemma OS_QInit_free: "free_queues (OS_QInit s) [1, 2, 3, 4]"
  by (simp add: free_queues_def OS_QInit_def numeral_eq_Suc Let_def)

subsection \<open>The abstract queue\<close>

definition is_queue :: "os_state \<Rightarrow> ptr \<Rightarrow> bool" where
  "is_queue s e \<longleftrightarrow> e \<noteq> NULL \<and> OSEventType (OSEvents s e) = OS_EVENT_TYPE_Q \<and> ring_ok (queue_of s e)"

definition q_msgs :: "os_state \<Rightarrow> ptr \<Rightarrow> ptr list" where
  "q_msgs s e = q_items (queue_of s e)"

definition q_room :: "os_state \<Rightarrow> ptr \<Rightarrow> nat" where
  "q_room s e = q_size (queue_of s e) - length (q_msgs s e)"

lemma is_queueD: "is_queue s e \<Longrightarrow> e \<noteq> NULL \<and> OSEventType (OSEvents s e) = OS_EVENT_TYPE_Q
    \<and> event_stat (OSEventType (OSEvents s e)) = OS_STAT_Q \<and> ring_ok (queue_of s e)"
  by (simp add: is_queue_def)

lemma queue_full_iff: "ring_ok r \<Longrightarrow> queue_full r \<longleftrightarrow> length (q_items r) = q_size r"
  using q.items_le [of r]
  by (auto simp: queue_full_def q_items_length q_size_def word_le_nat_alt)

lemma queue_some_iff: "OSQEntries (fst r) > 0 \<longleftrightarrow> q_items r \<noteq> []"
  by (simp add: q_items_def word_less_nat_alt)

lemma queue_of_set [simp]: "queue_of (set_queue e r s) e = r"
  by (simp add: queue_of_def set_queue_def)

lemma kernel_ok_set_queue: "kernel_ok s \<Longrightarrow> kernel_ok (set_queue e r s)"
  by (rule kernel_ok_cong [of s])
    (auto simp: set_queue_def kernel_same_def rdy_map_def intro: events_ok_cong [OF _ _ kernel_okD(5)])

lemma waiters_set_queue [simp]: "waiters (set_queue e r s) e' = waiters s e'"
  by (simp add: waiters_def waits_def set_queue_def)

subsection \<open>Correctness of the services\<close>

text \<open>
  C8 A post to a queue hands the message to the waiter with the highest priority; when nobody waits
  it goes to the end of the queue, or is refused when the queue is full.  The kernel invariant and the
  well-formedness of the queue are kept.
\<close>

theorem OSQPost_correct:
  assumes ok: "kernel_ok s" and q: "is_queue s e" and post: "OSQPost e m s = (err, s')"
  shows "kernel_ok s' \<and> is_queue s' e
    \<and> (waiters s e \<noteq> {} \<longrightarrow> err = OS_ERR_NONE \<and> OSTCBMsg (task_at s' (Min (waiters s e))) = m
         \<and> waiters s' e = waiters s e - {Min (waiters s e)} \<and> q_msgs s' e = q_msgs s e)
    \<and> (waiters s e = {} \<and> q_room s e = 0 \<longrightarrow> err = OS_ERR_Q_FULL \<and> s' = s)
    \<and> (waiters s e = {} \<and> q_room s e > 0 \<longrightarrow> err = OS_ERR_NONE \<and> q_msgs s' e = q_msgs s e @ [m])"
proof -
  note D = is_queueD [OF q]
  have room: "q_room s e = 0 \<longleftrightarrow> queue_full (queue_of s e)"
    using queue_full_iff [of "queue_of s e"] q.items_le [of "queue_of s e"] D by (auto simp: q_room_def q_msgs_def)
  show ?thesis
  proof (cases "waiters s e = {}")
    case True
    have grp: "OSEventGrp (OSEvents s e) = 0" using waiters_grp [OF kernel_okD(2) [OF ok], of e] True by simp
    have eq: "(err, s') = (if queue_full (queue_of s e) then (OS_ERR_Q_FULL, s)
        else (OS_ERR_NONE, set_queue e (q_put m (queue_of s e)) s))"
      using post D grp by (simp add: OSQPost_def)
    show ?thesis
    proof (cases "queue_full (queue_of s e)")
      case full: True
      with eq room True ok q show ?thesis by simp
    next
      case False
      with room have "length (q_items (queue_of s e)) < q_size (queue_of s e)"
        by (simp add: q_room_def q_msgs_def)
      then have put: "ring_ok (q_put m (queue_of s e))"
        "q_items (q_put m (queue_of s e)) = q_items (queue_of s e) @ [m]"
        using q.put_ok [of "queue_of s e" m] D by simp_all
      have s': "s' = set_queue e (q_put m (queue_of s e)) s" and err: "err = OS_ERR_NONE"
        using eq False by simp_all
      have "is_queue s' e"
        unfolding is_queue_def s' using D put by simp (simp add: set_queue_def)
      moreover have "kernel_ok s'" unfolding s' by (rule kernel_ok_set_queue [OF ok])
      moreover have "q_msgs s' e = q_msgs s e @ [m]"
        unfolding q_msgs_def s' queue_of_set by (rule put(2))
      ultimately show ?thesis using True room False err by simp
    qed
  next
    case False
    have grp: "OSEventGrp (OSEvents s e) \<noteq> 0" using waiters_grp [OF kernel_okD(2) [OF ok], of e] False by simp
    note R = event_rdy_ok [OF kernel_okD(1) [OF ok] False _ refl refl, where msk = OS_STAT_Q and m = m
        and st = OS_STAT_PEND_OK]
    let ?s1 = "snd (OS_EventTaskRdy e m OS_STAT_Q OS_STAT_PEND_OK s)"
    have s': "s' = OS_Sched ?s1" and err: "err = OS_ERR_NONE"
      using post D grp by (simp_all add: OSQPost_def)
    have "OSQTbl ?s1 = OSQTbl s" "msg_cells ?s1 = msg_cells s"
      by (simp_all add: OS_EventTaskRdy_eq [OF kernel_okD(2) [OF ok] grp refl])
    then have qq: "queue_of s' e = queue_of s e"
      using R(8) [of e] D by (simp add: s' queue_of_def)
    have "is_queue s' e"
      unfolding is_queue_def qq using D R(10) [of e] by (simp add: s')
    moreover have "kernel_ok s'" unfolding s' by (rule kernel_ok_Sched [OF R(1)]) (use D in simp)
    moreover have "q_msgs s' e = q_msgs s e" by (simp add: q_msgs_def qq)
    ultimately show ?thesis using False err R(3,4) D by (simp add: s' task_at_Sched)
  qed
qed

definition ex_queue_state :: os_state where
  "ex_queue_state = (ex_state 3)\<lparr>OSQTbl := (OSQTbl (ex_state 3))(1 := \<lparr>OSQPtr = 0, OSQStart = 10, OSQEnd = 13,
     OSQIn = 12, OSQOut = 11, OSQSize = 3, OSQEntries = 1\<rparr>),
     msg_cells := (\<lambda>_. 0)(11 := 70)\<rparr>"

lemma ex_queue_ok: "kernel_ok ex_queue_state"
  by (rule kernel_ok_cong [OF ex_kernel_ok [of 3]])
    (auto simp: ex_queue_state_def kernel_same_def rdy_map_def
      intro: events_ok_cong [OF _ _ kernel_okD(5) [OF ex_kernel_ok [of 3]]])

lemma ex_is_queue: "is_queue ex_queue_state 3"
  by (simp add: is_queue_def queue_of_def ring_ok_def q_cell_def ex_queue_state_def ex_state_simps)

lemma ex_queue_waiters: "waiters ex_queue_state e = (if e = 1 then {10} else {})"
proof -
  have "waiters ex_queue_state e = waiters (ex_state 3) e"
    by (simp add: waiters_def waits_def ex_queue_state_def)
  then show ?thesis by (simp add: ex_waiters)
qed

lemma ex_q_msgs: "q_msgs ex_queue_state 3 = [70]" "q_room ex_queue_state 3 = 2"
  by (simp_all add: q_msgs_def q_room_def q_items_def q_cell_def q_size_def queue_of_def ex_queue_state_def ex_state_simps)

theorem OSQPost_correct_witness:
  "q_msgs (snd (OSQPost 3 71 ex_queue_state)) 3 = [70, 71]"
  using OSQPost_correct [OF ex_queue_ok ex_is_queue surjective_pairing, of 71]
  by (simp add: ex_queue_waiters ex_q_msgs)

text \<open>
  A post to the front puts the message before all others (when nobody waits and there is room),
  so that it is the next one delivered.
\<close>

lemma OSQPostFront_correct:
  assumes ok: "kernel_ok s" and q: "is_queue s e" and W: "waiters s e = {}" and room: "q_room s e > 0"
    and post: "OSQPostFront e m s = (err, s')"
  shows "kernel_ok s' \<and> is_queue s' e \<and> err = OS_ERR_NONE \<and> q_msgs s' e = m # q_msgs s e
    \<and> (\<exists>s''. OSQAccept e s' = (m, OS_ERR_NONE, s'') \<and> q_msgs s'' e = q_msgs s e)"
proof -
  note D = is_queueD [OF q]
  have lt: "length (q_items (queue_of s e)) < q_size (queue_of s e)"
    using room by (simp add: q_room_def q_msgs_def)
  have nf: "\<not> queue_full (queue_of s e)" using queue_full_iff [of "queue_of s e"] D lt by simp
  have grp: "OSEventGrp (OSEvents s e) = 0" using waiters_grp [OF kernel_okD(2) [OF ok], of e] W by simp
  have push: "ring_ok (q_push m (queue_of s e))" "q_items (q_push m (queue_of s e)) = m # q_items (queue_of s e)"
    using q.push_ok [of "queue_of s e" m] D lt by simp_all
  have s': "s' = set_queue e (q_push m (queue_of s e)) s" and err: "err = OS_ERR_NONE"
    using post D grp nf by (simp_all add: OSQPostFront_def)
  have q': "is_queue s' e"
    unfolding is_queue_def s' using D push by simp (simp add: set_queue_def)
  have msgs: "q_msgs s' e = m # q_msgs s e"
    unfolding q_msgs_def s' queue_of_set by (rule push(2))
  note D' = is_queueD [OF q']
  have ne: "q_items (queue_of s' e) \<noteq> []" using msgs by (simp add: q_msgs_def)
  note g = q.get_ok [OF _ ne]
  have "OSQAccept e s' = (m, OS_ERR_NONE, set_queue e (snd (q_get (queue_of s' e))) s')"
    using D' ne g msgs by (simp add: OSQAccept_def queue_some_iff q_msgs_def case_prod_beta)
  moreover have "q_msgs (set_queue e (snd (q_get (queue_of s' e))) s') e = q_msgs s e"
    using g D' msgs by (simp add: q_msgs_def)
  moreover have "kernel_ok s'" unfolding s' by (rule kernel_ok_set_queue [OF ok])
  ultimately show ?thesis using q' err msgs by blast
qed

lemma OSQPostFront_correct_example:
  "q_msgs (snd (OSQPostFront 3 71 ex_queue_state)) 3 = [71, 70]"
  using OSQPostFront_correct [OF ex_queue_ok ex_is_queue _ _ surjective_pairing, of 71]
  by (simp add: ex_queue_waiters ex_q_msgs)

text \<open>
  C18 A pend on a queue takes the oldest message when there is one; otherwise the caller joins the
  waiters and another task runs.
\<close>

theorem OSQPend_correct:
  assumes ok: "kernel_ok s" and uc: "user_code s" and lock: "OSLockNesting s = 0" and q: "is_queue s e"
    and pd: "OSQPend e timeout s = (res, s')"
  shows "kernel_ok s'
    \<and> (q_msgs s e \<noteq> [] \<longrightarrow> res = Some (hd (q_msgs s e), OS_ERR_NONE) \<and> q_msgs s' e = tl (q_msgs s e)
         \<and> is_queue s' e \<and> waiters s' e = waiters s e)
    \<and> (q_msgs s e = [] \<longrightarrow> res = None \<and> waiters s' e = insert (OSPrioCur s) (waiters s e)
         \<and> q_msgs s' e = [] \<and> OSPrioCur s' \<noteq> OSPrioCur s)"
proof -
  have nest: "OSIntNesting s = 0" using uc by (simp add: user_code_def)
  note D = is_queueD [OF q]
  show ?thesis
  proof (cases "q_msgs s e = []")
    case True
    then have "\<not> OSQEntries (fst (queue_of s e)) > 0" by (simp add: queue_some_iff q_msgs_def)
    then have res: "res = None" and s': "s' = OS_Sched (event_block OS_STAT_Q e timeout s)"
      using pd D nest lock by (simp_all add: OSQPend_def)
    have ty: "event_stat (OSEventType (OSEvents s e)) = OS_STAT_Q" using D by simp
    have e: "e \<noteq> NULL" using D by simp
    note blk = event_block_ok [OF ok uc lock ty _ e s']
    have "OSQTbl s' = OSQTbl s" "msg_cells s' = msg_cells s"
      by (simp_all add: s' event_block_def OS_EventTaskWait_def event_wait_set_def tcb_unrdy_def Let_def)
    then have "q_msgs s' e = q_msgs s e"
      using blk(5) by (simp add: q_msgs_def queue_of_def)
    then show ?thesis using blk(1,2,7) res True by simp
  next
    case False
    then have ne: "q_items (queue_of s e) \<noteq> []" by (simp add: q_msgs_def)
    note g = q.get_ok [OF _ ne]
    have res: "res = Some (fst (q_get (queue_of s e)), OS_ERR_NONE)"
      and s': "s' = set_queue e (snd (q_get (queue_of s e))) s"
      using pd D nest lock ne by (simp_all add: OSQPend_def queue_some_iff split: prod.splits)
    have "is_queue s' e"
      unfolding is_queue_def s' using D g by simp (simp add: set_queue_def)
    then show ?thesis
      using kernel_ok_set_queue [OF ok, of e "snd (q_get (queue_of s e))"] False g D
      by (simp add: res s' q_msgs_def)
  qed
qed

theorem OSQPend_correct_witness:
  "fst (OSQPend 3 9 ex_queue_state) = Some (70, OS_ERR_NONE) \<and> q_msgs (snd (OSQPend 3 9 ex_queue_state)) 3 = []"
proof -
  have lock: "OSLockNesting ex_queue_state = 0" by (simp add: ex_queue_state_def ex_state_simps)
  have uc: "user_code ex_queue_state"
    using ex_user_code [of 3] by (simp add: user_code_def ex_queue_state_def waits_def)
  show ?thesis
    using OSQPend_correct [OF ex_queue_ok uc lock ex_is_queue surjective_pairing, of 9]
    by (simp add: ex_q_msgs)
qed

lemma OSQFlush_ok:
  assumes "kernel_ok s" and "is_queue s e"
  shows "kernel_ok (snd (OSQFlush e s))" and "is_queue (snd (OSQFlush e s)) e"
    and "q_msgs (snd (OSQFlush e s)) e = []"
proof -
  note D = is_queueD [OF assms(2)]
  have s': "snd (OSQFlush e s) = set_queue e (q_clear (queue_of s e)) s" using D by (simp add: OSQFlush_def)
  note c = q.clear_ok [of "queue_of s e"]
  show "kernel_ok (snd (OSQFlush e s))" unfolding s' by (rule kernel_ok_set_queue [OF assms(1)])
  show "is_queue (snd (OSQFlush e s)) e"
    unfolding is_queue_def s' using D c by simp (simp add: set_queue_def)
  show "q_msgs (snd (OSQFlush e s)) e = []" unfolding s' q_msgs_def using D c by simp
qed

end
