(* ===== verification/OS_Mem.thy ===== *)
theory OS_Mem
  imports OS_Core Free_List
begin

text \<open>
  Memory partitions (\<open>os_mem.c\<close>): a partition is a stack of equally sized blocks, linked through
  their first word (\<open>blk_links\<close>).  Addresses are byte addresses; a pointer has four bytes.  The
  control blocks themselves are kept in a free list threaded through \<open>OSMemFreeList\<close>; the kernel
  has no service that deletes a partition.
\<close>

record OS_MEM_DATA =
  OSAddr :: ptr
  OSFreeList :: ptr
  OSBlkSize :: INT32U
  OSNBlks :: INT32U
  OSNFree :: INT32U
  OSNUsed :: INT32U

abbreviation (input) ptr_size :: nat where "ptr_size \<equiv> 4"

subsection \<open>Creating a partition\<close>

text \<open>The loop \<open>for (i = 0u; i < loops; i++) { pblk += blksize; *plink = pblk; plink = pblk; }\<close>.\<close>

primrec mem_link :: "nat \<Rightarrow> nat \<Rightarrow> ptr \<Rightarrow> (ptr \<Rightarrow> ptr) \<Rightarrow> ptr \<times> (ptr \<Rightarrow> ptr)" where
  "mem_link 0 blksize plink links = (plink, links)"
| "mem_link (Suc i) blksize plink links =
     mem_link i blksize (plink + blksize) (links(plink := plink + blksize))"

definition mem_alloc :: "os_state \<Rightarrow> ptr \<times> os_state" where
  "mem_alloc s =
     (let pmem = OSMemFreeParts s
      in (pmem, if pmem \<noteq> NULL then s\<lparr>OSMemFreeParts := OSMemFreeList (OSMemTbl s pmem)\<rparr> else s))"

definition OSMemCreate :: "ptr \<Rightarrow> INT32U \<Rightarrow> INT32U \<Rightarrow> os_state \<Rightarrow> ptr \<times> INT8U \<times> os_state" where
  "OSMemCreate addr nblks blksize s =
     (if addr = NULL then (NULL, OS_ERR_MEM_INVALID_ADDR, s)
      else if addr mod ptr_size \<noteq> 0 then (NULL, OS_ERR_MEM_INVALID_ADDR, s)
      else if nblks < 2 then (NULL, OS_ERR_MEM_INVALID_BLKS, s)
      else if blksize < 4 then (NULL, OS_ERR_MEM_INVALID_SIZE, s)
      else (let (pmem, s1) = mem_alloc s
            in if pmem = NULL then (NULL, OS_ERR_MEM_INVALID_PART, s1)
               else (let (plink, links) = mem_link (unat (nblks - 1)) (unat blksize) addr (blk_links s1)
                     in (pmem, OS_ERR_NONE,
                         s1\<lparr>blk_links := links(plink := NULL),
                            OSMemTbl := (OSMemTbl s1)(pmem := (OSMemTbl s1 pmem)\<lparr>OSMemAddr := addr,
                              OSMemFreeList := addr, OSMemNFree := nblks, OSMemNBlks := nblks,
                              OSMemBlkSize := blksize\<rparr>)\<rparr>))))"

subsection \<open>Taking and returning blocks\<close>

type_synonym partition = "OS_MEM \<times> (ptr \<Rightarrow> ptr)"

definition blk_get :: "partition \<Rightarrow> ptr \<times> partition" where
  "blk_get pt =
     (let (m, links) = pt
      in if OSMemNFree m > 0
         then (OSMemFreeList m, (m\<lparr>OSMemFreeList := links (OSMemFreeList m), OSMemNFree := OSMemNFree m - 1\<rparr>, links))
         else (NULL, pt))"

definition blk_put :: "ptr \<Rightarrow> partition \<Rightarrow> partition" where
  "blk_put pblk pt =
     (let (m, links) = pt
      in (m\<lparr>OSMemFreeList := pblk, OSMemNFree := OSMemNFree m + 1\<rparr>, links(pblk := OSMemFreeList m)))"

definition part_of :: "os_state \<Rightarrow> ptr \<Rightarrow> partition" where
  "part_of s pmem = (OSMemTbl s pmem, blk_links s)"

definition set_part :: "ptr \<Rightarrow> partition \<Rightarrow> os_state \<Rightarrow> os_state" where
  "set_part pmem pt s = s\<lparr>OSMemTbl := (OSMemTbl s)(pmem := fst pt), blk_links := snd pt\<rparr>"

definition OSMemGet :: "ptr \<Rightarrow> os_state \<Rightarrow> ptr \<times> INT8U \<times> os_state" where
  "OSMemGet pmem s =
     (if pmem = NULL then (NULL, OS_ERR_MEM_INVALID_PMEM, s)
      else if OSMemNFree (OSMemTbl s pmem) > 0
      then (let (pblk, pt) = blk_get (part_of s pmem) in (pblk, OS_ERR_NONE, set_part pmem pt s))
      else (NULL, OS_ERR_MEM_NO_FREE_BLKS, s))"

definition OSMemPut :: "ptr \<Rightarrow> ptr \<Rightarrow> os_state \<Rightarrow> INT8U \<times> os_state" where
  "OSMemPut pmem pblk s =
     (if pmem = NULL then (OS_ERR_MEM_INVALID_PMEM, s)
      else if pblk = NULL then (OS_ERR_MEM_INVALID_PBLK, s)
      else if OSMemNFree (OSMemTbl s pmem) \<ge> OSMemNBlks (OSMemTbl s pmem) then (OS_ERR_MEM_FULL, s)
      else (OS_ERR_NONE, set_part pmem (blk_put pblk (part_of s pmem)) s))"

definition OSMemNameGet :: "ptr \<Rightarrow> ptr \<Rightarrow> os_state \<Rightarrow> INT8U \<times> string option \<times> INT8U" where
  "OSMemNameGet pmem pname s =
     (if pmem = NULL then (0, None, OS_ERR_MEM_INVALID_PMEM)
      else if pname = NULL then (0, None, OS_ERR_PNAME_NULL)
      else if OSIntNesting s > 0 then (0, None, OS_ERR_NAME_GET_ISR)
      else (let nm = OSMemName (OSMemTbl s pmem) in (OS_StrLen (Some nm), Some nm, OS_ERR_NONE)))"

definition OSMemNameSet :: "ptr \<Rightarrow> string option \<Rightarrow> os_state \<Rightarrow> INT8U \<times> os_state" where
  "OSMemNameSet pmem pname s =
     (if pmem = NULL then (OS_ERR_MEM_INVALID_PMEM, s)
      else (case pname of
              None \<Rightarrow> (OS_ERR_PNAME_NULL, s)
            | Some nm \<Rightarrow>
                if OSIntNesting s > 0 then (OS_ERR_NAME_SET_ISR, s)
                else (OS_ERR_NONE, s\<lparr>OSMemTbl := (OSMemTbl s)(pmem := (OSMemTbl s pmem)\<lparr>OSMemName := nm\<rparr>)\<rparr>)))"

definition OSMemQuery :: "ptr \<Rightarrow> ptr \<Rightarrow> os_state \<Rightarrow> INT8U \<times> OS_MEM_DATA option" where
  "OSMemQuery pmem p_mem_data s =
     (if pmem = NULL then (OS_ERR_MEM_INVALID_PMEM, None)
      else if p_mem_data = NULL then (OS_ERR_MEM_INVALID_PDATA, None)
      else (let m = OSMemTbl s pmem
            in (OS_ERR_NONE, Some \<lparr>OSAddr = OSMemAddr m, OSFreeList = OSMemFreeList m,
                  OSBlkSize = OSMemBlkSize m, OSNBlks = OSMemNBlks m, OSNFree = OSMemNFree m,
                  OSNUsed = OSMemNBlks m - OSMemNFree m\<rparr>)))"

definition OS_MEM_clr :: OS_MEM where
  "OS_MEM_clr = \<lparr>OSMemAddr = NULL, OSMemFreeList = NULL, OSMemBlkSize = 0, OSMemNBlks = 0, OSMemNFree = 0, OSMemName = []\<rparr>"

primrec mem_init_link :: "nat \<Rightarrow> (ptr \<Rightarrow> OS_MEM) \<Rightarrow> (ptr \<Rightarrow> OS_MEM)" where
  "mem_init_link 0 tbl = tbl"
| "mem_init_link (Suc i) tbl =
     (let tbl1 = mem_init_link i tbl
      in tbl1(i + 1 := (tbl1 (i + 1))\<lparr>OSMemFreeList := i + 2, OSMemName := ''?''\<rparr>))"

definition OS_MemInit :: "os_state \<Rightarrow> os_state" where
  "OS_MemInit s =
     (let tbl1 = (\<lambda>a. if 1 \<le> a \<and> a \<le> OS_MAX_MEM_PART then OS_MEM_clr else OSMemTbl s a);
          tbl2 = mem_init_link (OS_MAX_MEM_PART - 1) tbl1
      in s\<lparr>OSMemTbl := tbl2(OS_MAX_MEM_PART := (tbl2 OS_MAX_MEM_PART)\<lparr>OSMemFreeList := NULL, OSMemName := ''?''\<rparr>),
           OSMemFreeParts := 1\<rparr>)"

subsection \<open>The free blocks of a partition\<close>

definition part_free :: "partition \<Rightarrow> ptr list \<Rightarrow> bool" where
  "part_free pt xs \<longleftrightarrow> path (snd pt) (OSMemFreeList (fst pt)) xs \<and> distinct xs
     \<and> unat (OSMemNFree (fst pt)) = length xs \<and> length xs \<le> unat (OSMemNBlks (fst pt))"

definition part_room :: "partition \<Rightarrow> bool" where
  "part_room pt \<longleftrightarrow> OSMemNFree (fst pt) < OSMemNBlks (fst pt)"

lemma path_cons_end: "path next p xs \<Longrightarrow> x \<noteq> 0 \<Longrightarrow> x \<notin> set xs \<Longrightarrow> path (next(x := p)) x (x # xs)"
  using path_upd [of x xs "next" p p] by simp

interpretation blocks: free_list part_free blk_get blk_put part_room
proof (unfold_locales, goal_cases)
  case (1 s xs ys)
  then show ?case by (auto simp: part_free_def dest: path_unique)
next
  case (2 s xs)
  then show ?case by (simp add: part_free_def)
next
  case (3 s xs)
  then show ?case by (auto simp: part_free_def dest: path_nonzero)
next
  case (4 s)
  then show ?case by (auto simp: part_free_def blk_get_def word_less_nat_alt split: prod.splits)
next
  case (5 s x xs)
  then have "OSMemNFree (fst s) \<noteq> 0" by (auto simp: part_free_def)
  with 5 show ?case
    by (auto simp: part_free_def blk_get_def unat_word_pred word_neq_0_conv split: prod.splits)
next
  case (6 s xs x)
  obtain m l where s: "s = (m, l)" by (cases s)
  have lt: "unat (OSMemNFree m) < unat (OSMemNBlks m)"
    using 6(2) by (simp add: s part_room_def word_less_nat_alt)
  have "unat (OSMemNFree m + 1) = unat (OSMemNFree m) + 1"
  proof (rule unat_word_succ)
    have "unat (OSMemNBlks m) \<le> unat (- 1 :: 32 word)"
      using word_order.extremum [of "OSMemNBlks m"] unfolding word_le_nat_alt .
    with lt show "OSMemNFree m \<noteq> - 1" by auto
  qed
  with 6 lt path_cons_end [of l "OSMemFreeList m" xs x] show ?case
    by (simp add: s part_free_def blk_put_def)
qed

subsection \<open>Partition control blocks\<close>

definition free_parts :: "os_state \<Rightarrow> ptr list \<Rightarrow> bool" where
  "free_parts s xs \<longleftrightarrow> path (\<lambda>m. OSMemFreeList (OSMemTbl s m)) (OSMemFreeParts s) xs \<and> distinct xs"

lemma OS_MemInit_free: "free_parts (OS_MemInit s) [1, 2, 3, 4, 5]"
  by (simp add: free_parts_def OS_MemInit_def numeral_eq_Suc Let_def)

lemma mem_alloc_ok:
  assumes "free_parts s (x # xs)"
  shows "mem_alloc s = (x, s\<lparr>OSMemFreeParts := OSMemFreeList (OSMemTbl s x)\<rparr>)" and "x \<noteq> 0"
    and "free_parts (snd (mem_alloc s)) xs"
  using assms by (auto simp: free_parts_def mem_alloc_def Let_def)

text \<open>The link loop builds the list of all blocks, in order of their addresses.\<close>

definition blocks_of :: "ptr \<Rightarrow> nat \<Rightarrow> nat \<Rightarrow> ptr list" where
  "blocks_of addr n bs = map (\<lambda>i. addr + i * bs) [0..<n]"

lemma blocks_of_Suc: "blocks_of addr (Suc n) bs = addr # blocks_of (addr + bs) n bs"
proof -
  have "[0..<Suc n] = 0 # map Suc [0..<n]" by (simp add: upt_conv_Cons map_Suc_upt del: upt_Suc)
  then show ?thesis by (simp add: blocks_of_def del: upt_Suc) 
qed

lemma blocks_of_distinct: "bs > 0 \<Longrightarrow> distinct (blocks_of addr n bs)"
  by (auto simp: blocks_of_def distinct_map inj_on_def)

lemma blocks_of_greater: "bs > 0 \<Longrightarrow> x \<in> set (blocks_of (addr + bs) n bs) \<Longrightarrow> addr < x"
  by (auto simp: blocks_of_def)

lemma mem_link_other: "x < p \<Longrightarrow> snd (mem_link i bs p l) x = l x \<and> x < fst (mem_link i bs p l)"
proof (induction i arbitrary: p l)
  case (Suc i)
  then show ?case using Suc.IH [of "p + bs" "l(p := p + bs)"] by simp
qed simp

lemma mem_link_path:
  assumes "bs > 0" and "p > 0"
  shows "path ((snd (mem_link i bs p l))(fst (mem_link i bs p l) := 0)) p (blocks_of p (Suc i) bs)"
  using assms(2)
proof (induction i arbitrary: p l)
  case 0
  then show ?case by (simp add: blocks_of_def)
next
  case (Suc i)
  let ?l = "mem_link i bs (p + bs) (l(p := p + bs))"
  define f where "f = (snd ?l)(fst ?l := 0)"
  have "path f (p + bs) (blocks_of (p + bs) (Suc i) bs)"
    unfolding f_def by (rule Suc.IH) (use assms Suc.prems in simp)
  moreover have "f p = p + bs"
    using mem_link_other [of p "p + bs" i bs "l(p := p + bs)"] assms(1) by (simp add: f_def)
  ultimately have "path f p (blocks_of p (Suc (Suc i)) bs)"
    using Suc.prems unfolding blocks_of_Suc [of p "Suc i"] by simp
  then show ?case by (simp only: f_def mem_link.simps)
qed

text \<open>
  A created partition has all its blocks free: they start at the given address, one block size
  apart, \<open>nblks\<close> of them.
\<close>

lemma OSMemCreate_correct:
  assumes parts: "free_parts s (x # xs)" and addr: "addr \<noteq> NULL" "addr mod 4 = 0"
    and n: "nblks \<ge> 2" and sz: "blksize \<ge> 4"
  shows "\<exists>s'. OSMemCreate addr nblks blksize s = (x, OS_ERR_NONE, s') \<and> free_parts s' xs
      \<and> part_free (part_of s' x) (blocks_of addr (unat nblks) (unat blksize))"
proof -
  let ?l = "mem_link (unat (nblks - 1)) (unat blksize) addr (blk_links s)"
  have bs: "unat blksize > 0" using sz by (auto simp: word_le_nat_alt)
  have "nblks \<noteq> 0" using n by (auto simp: word_le_nat_alt)
  then have n1: "Suc (unat (nblks - 1)) = unat nblks"
    using unat_word_pred [of nblks] by (metis Suc_pred' unat_gt_0)
  note al = mem_alloc_ok [OF parts]
  let ?s1 = "s\<lparr>OSMemFreeParts := OSMemFreeList (OSMemTbl s x)\<rparr>"
  let ?s' = "?s1\<lparr>blk_links := (snd ?l)(fst ?l := NULL),
     OSMemTbl := (OSMemTbl s)(x := (OSMemTbl s x)\<lparr>OSMemAddr := addr, OSMemFreeList := addr,
       OSMemNFree := nblks, OSMemNBlks := nblks, OSMemBlkSize := blksize\<rparr>)\<rparr>"
  have "OSMemCreate addr nblks blksize s = (x, OS_ERR_NONE, ?s')"
    using addr n sz al(2)
    by (simp add: OSMemCreate_def al(1) not_less [symmetric] case_prod_beta)
  moreover have "free_parts ?s' xs"
  proof -
    have nx: "x \<notin> set xs" using parts by (simp add: free_parts_def)
    have "path (\<lambda>m. OSMemFreeList (OSMemTbl ?s' m)) (OSMemFreeParts ?s') xs
        = path (\<lambda>m. OSMemFreeList (OSMemTbl s m)) (OSMemFreeParts ?s') xs"
      using nx by (intro path_cong) auto
    with parts show ?thesis by (simp add: free_parts_def)
  qed
  moreover have "part_free (part_of ?s' x) (blocks_of addr (unat nblks) (unat blksize))"
    using mem_link_path [OF bs, of addr "unat (nblks - 1)" "blk_links s"] addr blocks_of_distinct [OF bs]
    unfolding n1 part_free_def by (simp add: part_of_def blocks_of_def)
  ultimately show ?thesis by blast
qed


lemma OSMemCreate_hyps: "(1000::nat) \<noteq> 0" "1000 mod 4 = (0::nat)" "(3::32 word) \<ge> 2" "(16::32 word) \<ge> 4"
  by simp_all

lemma OSMemCreate_correct_example:
  "\<forall>s. \<exists>s'. OSMemCreate 1000 3 16 (OS_MemInit s) = (1, OS_ERR_NONE, s')
     \<and> part_free (part_of s' 1) [1000, 1016, 1032]"
proof
  fix s
  have "blocks_of 1000 (unat (3::32 word)) (unat (16::32 word)) = [1000, 1016, 1032]"
    by (simp add: blocks_of_def upt_rec)
  with OSMemCreate_correct [OF OS_MemInit_free, of 1000 3 16 s]
  show "\<exists>s'. OSMemCreate 1000 3 16 (OS_MemInit s) = (1, OS_ERR_NONE, s')
     \<and> part_free (part_of s' 1) [1000, 1016, 1032]"
    by (metis (no_types, lifting) OSMemCreate_hyps)
qed

text \<open>
  C20 A partition is a bounded stack of blocks: \<open>OSMemGet\<close> hands out the block on top and fails
  exactly when none is left; \<open>OSMemPut\<close> puts a block back on top unless all blocks are free
  already; a returned block is the next one handed out.
\<close>

theorem OSMem_stack:
  assumes pm: "pm \<noteq> NULL" and free: "part_free (part_of s pm) xs"
  shows "(xs = [] \<longrightarrow> OSMemGet pm s = (NULL, OS_ERR_MEM_NO_FREE_BLKS, s))
    \<and> (\<forall>y ys. xs = y # ys \<longrightarrow> (\<exists>s'. OSMemGet pm s = (y, OS_ERR_NONE, s') \<and> part_free (part_of s' pm) ys))
    \<and> (\<forall>b. b \<noteq> NULL \<and> b \<notin> set xs \<and> length xs < unat (OSMemNBlks (OSMemTbl s pm)) \<longrightarrow>
         (\<exists>s'. OSMemPut pm b s = (OS_ERR_NONE, s') \<and> part_free (part_of s' pm) (b # xs)
            \<and> fst (OSMemGet pm s') = b))
    \<and> (\<forall>b. b \<noteq> NULL \<and> length xs = unat (OSMemNBlks (OSMemTbl s pm)) \<longrightarrow>
         OSMemPut pm b s = (OS_ERR_MEM_FULL, s))"
proof -
  have nf: "unat (OSMemNFree (OSMemTbl s pm)) = length xs"
    using free by (simp add: part_free_def part_of_def)
  have part_set: "part_of (set_part pm pt s) pm = pt" for pt by (simp add: part_of_def set_part_def)
  have get: "OSMemGet pm s0 = (fst (blk_get (part_of s0 pm)), OS_ERR_NONE, set_part pm (snd (blk_get (part_of s0 pm))) s0)"
    if "OSMemNFree (OSMemTbl s0 pm) > 0" for s0
    using that pm by (simp add: OSMemGet_def case_prod_beta)
  show ?thesis
  proof (intro conjI impI allI)
    assume "xs = []"
    then show "OSMemGet pm s = (NULL, OS_ERR_MEM_NO_FREE_BLKS, s)"
      using pm nf by (simp add: OSMemGet_def word_less_nat_alt)
  next
    fix y ys assume xs: "xs = y # ys"
    then have pos: "OSMemNFree (OSMemTbl s pm) > 0" using nf by (simp add: word_less_nat_alt)
    have c: "fst (blk_get (part_of s pm)) = y \<and> part_free (snd (blk_get (part_of s pm))) ys"
      using blocks.alloc_cons free xs by blast
    then show "\<exists>s'. OSMemGet pm s = (y, OS_ERR_NONE, s') \<and> part_free (part_of s' pm) ys"
      using get [OF pos] part_set by auto
  next
    fix b assume b: "b \<noteq> NULL \<and> b \<notin> set xs \<and> length xs < unat (OSMemNBlks (OSMemTbl s pm))"
    then have room: "part_room (part_of s pm)" using nf by (simp add: part_room_def part_of_def word_less_nat_alt)
    let ?s' = "set_part pm (blk_put b (part_of s pm)) s"
    have put: "OSMemPut pm b s = (OS_ERR_NONE, ?s')"
      using b pm room by (simp add: OSMemPut_def part_room_def part_of_def)
    have free': "part_free (part_of ?s' pm) (b # xs)"
      unfolding part_set using blocks.free_push [OF free room] b by blast
    then have "OSMemNFree (OSMemTbl ?s' pm) > 0"
      by (simp add: part_free_def part_of_def word_less_nat_alt)
    then have "fst (OSMemGet pm ?s') = b"
      using get blocks.alloc_cons [OF free'] by simp
    with put free' show "\<exists>s'. OSMemPut pm b s = (OS_ERR_NONE, s') \<and> part_free (part_of s' pm) (b # xs)
        \<and> fst (OSMemGet pm s') = b" by blast
  next
    fix b assume b: "b \<noteq> NULL \<and> length xs = unat (OSMemNBlks (OSMemTbl s pm))"
    then show "OSMemPut pm b s = (OS_ERR_MEM_FULL, s)"
      using pm nf by (simp add: OSMemPut_def word_le_nat_alt)
  qed
qed

definition ex_part_state :: "os_state \<Rightarrow> os_state" where
  "ex_part_state s = s\<lparr>OSMemTbl := (OSMemTbl s)(1 := \<lparr>OSMemAddr = 1000, OSMemFreeList = 1016, OSMemBlkSize = 16,
      OSMemNBlks = 3, OSMemNFree = 2, OSMemName = ''?''\<rparr>),
     blk_links := (\<lambda>_. 0)(1016 := 1032)\<rparr>"

theorem OSMem_stack_witness:
  "\<forall>s. fst (OSMemGet 1 (ex_part_state s)) = 1016
     \<and> fst (OSMemGet 1 (snd (OSMemPut 1 1000 (ex_part_state s)))) = 1000"
proof
  fix s
  have f: "part_free (part_of (ex_part_state s) 1) [1016, 1032]"
    by (simp add: part_free_def part_of_def ex_part_state_def)
  have n: "OSMemNBlks (OSMemTbl (ex_part_state s) 1) = 3" by (simp add: ex_part_state_def)
  have m: "(1::nat) \<noteq> 0" by simp
  note st = OSMem_stack [OF m f, unfolded n]
  obtain s1 where "OSMemGet 1 (ex_part_state s) = (1016, OS_ERR_NONE, s1)" using st by blast
  moreover obtain s2 where "OSMemPut 1 1000 (ex_part_state s) = (OS_ERR_NONE, s2)"
    and "fst (OSMemGet 1 s2) = 1000"
    using st [THEN conjunct2, THEN conjunct2, THEN conjunct1, THEN spec, of 1000] by auto
  ultimately show "fst (OSMemGet 1 (ex_part_state s)) = 1016
     \<and> fst (OSMemGet 1 (snd (OSMemPut 1 1000 (ex_part_state s)))) = 1000" by simp
qed

end
