(* ===== verification/OS_Flag.thy ===== *)
theory OS_Flag
  imports Event_Services Linked_List Example_System
begin

text \<open>
  Event flags (\<open>os_flag.c\<close>): a group of sixteen flags and a doubly linked list of wait nodes.  A
  node is a local variable of the pend service, on the stack of the waiting task; its address is an
  argument of the model.  The four wait types appear in three services with the same code: it is
  \<open>flag_test\<close> (the flags that satisfy the wait, and whether the wait is over) and
  \<open>flag_consume\<close>.
\<close>

subsection \<open>Conditions\<close>

definition flag_test :: "INT8U \<Rightarrow> INT16U \<Rightarrow> INT16U \<Rightarrow> (bool \<times> INT16U) option" where
  "flag_test wait_type cur flags =
     (if wait_type = OS_FLAG_WAIT_SET_ALL then
        (let flags_rdy = cur AND flags in Some (flags_rdy = flags, flags_rdy))
      else if wait_type = OS_FLAG_WAIT_SET_ANY then
        (let flags_rdy = cur AND flags in Some (flags_rdy \<noteq> 0, flags_rdy))
      else if wait_type = OS_FLAG_WAIT_CLR_ALL then
        (let flags_rdy = NOT cur AND flags in Some (flags_rdy = flags, flags_rdy))
      else if wait_type = OS_FLAG_WAIT_CLR_ANY then
        (let flags_rdy = NOT cur AND flags in Some (flags_rdy \<noteq> 0, flags_rdy))
      else None)"

definition upd_flag :: "ptr \<Rightarrow> (OS_FLAG_GRP \<Rightarrow> OS_FLAG_GRP) \<Rightarrow> os_state \<Rightarrow> os_state" where
  "upd_flag g f s = s\<lparr>OSFlagTbl := (OSFlagTbl s)(g := f (OSFlagTbl s g))\<rparr>"

definition upd_node :: "ptr \<Rightarrow> (OS_FLAG_NODE \<Rightarrow> OS_FLAG_NODE) \<Rightarrow> os_state \<Rightarrow> os_state" where
  "upd_node n f s = s\<lparr>OSFlagNodes := (OSFlagNodes s)(n := f (OSFlagNodes s n))\<rparr>"

definition flag_consume :: "INT8U \<Rightarrow> ptr \<Rightarrow> INT16U \<Rightarrow> os_state \<Rightarrow> os_state" where
  "flag_consume wait_type pgrp flags_rdy s =
     upd_flag pgrp (\<lambda>g. g\<lparr>OSFlagFlags :=
       (if wait_type = OS_FLAG_WAIT_SET_ALL \<or> wait_type = OS_FLAG_WAIT_SET_ANY
        then OSFlagFlags g AND NOT flags_rdy else OSFlagFlags g OR flags_rdy)\<rparr>) s"

text \<open>\<open>wait_type\<close> without the consume option, and whether it has it.\<close>

definition flag_type :: "INT8U \<Rightarrow> INT8U \<times> bool" where
  "flag_type wait_type =
     (if wait_type AND OS_FLAG_CONSUME \<noteq> 0 then (wait_type AND NOT OS_FLAG_CONSUME, True)
      else (wait_type, False))"

subsection \<open>The wait list\<close>

definition OS_FlagUnlink :: "ptr \<Rightarrow> os_state \<Rightarrow> os_state" where
  "OS_FlagUnlink pnode s =
     (let pnode_prev = OSFlagNodePrev (OSFlagNodes s pnode);
          pnode_next = OSFlagNodeNext (OSFlagNodes s pnode);
          s1 = (if pnode_prev = NULL
                then (let s2 = upd_flag (OSFlagNodeFlagGrp (OSFlagNodes s pnode))
                                 (\<lambda>g. g\<lparr>OSFlagWaitList := pnode_next\<rparr>) s
                      in if pnode_next \<noteq> NULL
                         then upd_node pnode_next (\<lambda>n. n\<lparr>OSFlagNodePrev := NULL\<rparr>) s2 else s2)
                else (let s2 = upd_node pnode_prev (\<lambda>n. n\<lparr>OSFlagNodeNext := pnode_next\<rparr>) s
                      in if pnode_next \<noteq> NULL
                         then upd_node pnode_next (\<lambda>n. n\<lparr>OSFlagNodePrev := pnode_prev\<rparr>) s2 else s2))
      in upd_tcb (OSFlagNodeTCB (OSFlagNodes s1 pnode)) (\<lambda>t. t\<lparr>OSTCBFlagNode := NULL\<rparr>) s1)"

definition OS_FlagTaskRdy :: "ptr \<Rightarrow> INT16U \<Rightarrow> os_state \<Rightarrow> bool \<times> os_state" where
  "OS_FlagTaskRdy pnode flags_rdy s =
     (let ptcb = OSFlagNodeTCB (OSFlagNodes s pnode);
          s1 = upd_tcb ptcb (\<lambda>t. t\<lparr>OSTCBDly := 0, OSTCBFlagsRdy := flags_rdy,
                 OSTCBStat := OSTCBStat t AND NOT OS_STAT_FLAG, OSTCBStatPend := OS_STAT_PEND_OK\<rparr>) s;
          (sched, s2) = (if OSTCBStat (OSTCBTbl s1 ptcb) = OS_STAT_RDY then (True, tcb_rdy ptcb s1)
                         else (False, s1))
      in (sched, OS_FlagUnlink pnode s2))"

definition OS_FlagBlock :: "ptr \<Rightarrow> ptr \<Rightarrow> INT16U \<Rightarrow> INT8U \<Rightarrow> INT32U \<Rightarrow> os_state \<Rightarrow> os_state" where
  "OS_FlagBlock pgrp pnode flags wait_type timeout s =
     (let cur = OSTCBCur s;
          s1 = upd_tcb cur (\<lambda>t. t\<lparr>OSTCBStat := OSTCBStat t OR OS_STAT_FLAG,
                 OSTCBStatPend := OS_STAT_PEND_OK, OSTCBDly := timeout, OSTCBFlagNode := pnode\<rparr>) s;
          s2 = upd_node pnode (\<lambda>n. n\<lparr>OSFlagNodeFlags := flags, OSFlagNodeWaitType := wait_type,
                 OSFlagNodeTCB := cur, OSFlagNodeNext := OSFlagWaitList (OSFlagTbl s pgrp),
                 OSFlagNodePrev := NULL, OSFlagNodeFlagGrp := pgrp\<rparr>) s1;
          pnode_next = OSFlagWaitList (OSFlagTbl s2 pgrp);
          s3 = (if pnode_next \<noteq> NULL then upd_node pnode_next (\<lambda>n. n\<lparr>OSFlagNodePrev := pnode\<rparr>) s2 else s2);
          s4 = upd_flag pgrp (\<lambda>g. g\<lparr>OSFlagWaitList := pnode\<rparr>) s3
      in tcb_unrdy cur s4)"

subsection \<open>Services\<close>

definition OSFlagAccept :: "ptr \<Rightarrow> INT16U \<Rightarrow> INT8U \<Rightarrow> os_state \<Rightarrow> INT16U \<times> INT8U \<times> os_state" where
  "OSFlagAccept pgrp flags wait_type s =
     (if pgrp = NULL then (0, OS_ERR_FLAG_INVALID_PGRP, s)
      else if OSFlagType (OSFlagTbl s pgrp) \<noteq> OS_EVENT_TYPE_FLAG then (0, OS_ERR_EVENT_TYPE, s)
      else (let (wt, consume) = flag_type wait_type
            in case flag_test wt (OSFlagFlags (OSFlagTbl s pgrp)) flags of
                 None \<Rightarrow> (0, OS_ERR_FLAG_WAIT_TYPE, s)
               | Some (ready, flags_rdy) \<Rightarrow>
                   if ready then (flags_rdy, OS_ERR_NONE, if consume then flag_consume wt pgrp flags_rdy s else s)
                   else (flags_rdy, OS_ERR_FLAG_NOT_RDY, s)))"

definition flag_alloc :: "os_state \<Rightarrow> ptr \<times> os_state" where
  "flag_alloc s =
     (let pgrp = OSFlagFreeList s
      in (pgrp, if pgrp \<noteq> NULL then s\<lparr>OSFlagFreeList := OSFlagWaitList (OSFlagTbl s pgrp)\<rparr> else s))"

definition flag_free :: "ptr \<Rightarrow> os_state \<Rightarrow> os_state" where
  "flag_free pgrp s =
     (let s1 = upd_flag pgrp (\<lambda>g. g\<lparr>OSFlagName := ''?'', OSFlagType := OS_EVENT_TYPE_UNUSED,
                 OSFlagWaitList := OSFlagFreeList s, OSFlagFlags := 0\<rparr>) s
      in s1\<lparr>OSFlagFreeList := pgrp\<rparr>)"

definition OSFlagCreate :: "INT16U \<Rightarrow> os_state \<Rightarrow> ptr \<times> INT8U \<times> os_state" where
  "OSFlagCreate flags s =
     (if OSIntNesting s > 0 then (NULL, OS_ERR_CREATE_ISR, s)
      else (let (pgrp, s1) = flag_alloc s
            in if pgrp \<noteq> NULL
               then (pgrp, OS_ERR_NONE, upd_flag pgrp (\<lambda>g. g\<lparr>OSFlagType := OS_EVENT_TYPE_FLAG,
                       OSFlagFlags := flags, OSFlagWaitList := NULL, OSFlagName := ''?''\<rparr>) s1)
               else (pgrp, OS_ERR_FLAG_GRP_DEPLETED, s1)))"

partial_function (option) flag_del_loop :: "ptr \<Rightarrow> os_state \<Rightarrow> os_state option" where
  "flag_del_loop pnode s =
     (if pnode \<noteq> NULL
      then flag_del_loop (OSFlagNodeNext (OSFlagNodes (snd (OS_FlagTaskRdy pnode 0 s)) pnode))
             (snd (OS_FlagTaskRdy pnode 0 s))
      else Some s)"

definition OSFlagDel :: "ptr \<Rightarrow> INT8U \<Rightarrow> os_state \<Rightarrow> (ptr \<times> INT8U \<times> os_state) option" where
  "OSFlagDel pgrp opt s =
     (if pgrp = NULL then Some (pgrp, OS_ERR_FLAG_INVALID_PGRP, s)
      else if OSIntNesting s > 0 then Some (pgrp, OS_ERR_DEL_ISR, s)
      else if OSFlagType (OSFlagTbl s pgrp) \<noteq> OS_EVENT_TYPE_FLAG then Some (pgrp, OS_ERR_EVENT_TYPE, s)
      else (let tasks_waiting = (OSFlagWaitList (OSFlagTbl s pgrp) \<noteq> NULL)
            in if opt = OS_DEL_NO_PEND then
                 if \<not> tasks_waiting then Some (NULL, OS_ERR_NONE, flag_free pgrp s)
                 else Some (pgrp, OS_ERR_TASK_WAITING, s)
               else if opt = OS_DEL_ALWAYS then
                 (case flag_del_loop (OSFlagWaitList (OSFlagTbl s pgrp)) s of
                    None \<Rightarrow> None
                  | Some s1 \<Rightarrow>
                      (let s2 = flag_free pgrp s1
                       in Some (NULL, OS_ERR_NONE, if tasks_waiting then OS_Sched s2 else s2)))
               else Some (pgrp, OS_ERR_INVALID_OPT, s)))"

definition OSFlagNameGet :: "ptr \<Rightarrow> ptr \<Rightarrow> os_state \<Rightarrow> INT8U \<times> string option \<times> INT8U" where
  "OSFlagNameGet pgrp pname s =
     (if pgrp = NULL then (0, None, OS_ERR_FLAG_INVALID_PGRP)
      else if pname = NULL then (0, None, OS_ERR_PNAME_NULL)
      else if OSIntNesting s > 0 then (0, None, OS_ERR_NAME_GET_ISR)
      else if OSFlagType (OSFlagTbl s pgrp) \<noteq> OS_EVENT_TYPE_FLAG then (0, None, OS_ERR_EVENT_TYPE)
      else (let nm = OSFlagName (OSFlagTbl s pgrp) in (OS_StrLen (Some nm), Some nm, OS_ERR_NONE)))"

definition OSFlagNameSet :: "ptr \<Rightarrow> string option \<Rightarrow> os_state \<Rightarrow> INT8U \<times> os_state" where
  "OSFlagNameSet pgrp pname s =
     (if pgrp = NULL then (OS_ERR_FLAG_INVALID_PGRP, s)
      else (case pname of
              None \<Rightarrow> (OS_ERR_PNAME_NULL, s)
            | Some nm \<Rightarrow>
                if OSIntNesting s > 0 then (OS_ERR_NAME_SET_ISR, s)
                else if OSFlagType (OSFlagTbl s pgrp) \<noteq> OS_EVENT_TYPE_FLAG then (OS_ERR_EVENT_TYPE, s)
                else (OS_ERR_NONE, upd_flag pgrp (\<lambda>g. g\<lparr>OSFlagName := nm\<rparr>) s)))"

text \<open>\<open>OSFlagPend\<close> up to \<open>OS_Sched\<close> (\<open>None\<close>: the caller is blocked), and from there.\<close>

definition OSFlagPend :: "ptr \<Rightarrow> INT16U \<Rightarrow> INT8U \<Rightarrow> INT32U \<Rightarrow> ptr \<Rightarrow> os_state \<Rightarrow> (INT16U \<times> INT8U) option \<times> os_state" where
  "OSFlagPend pgrp flags wait_type timeout node s =
     (if pgrp = NULL then (Some (0, OS_ERR_FLAG_INVALID_PGRP), s)
      else if OSIntNesting s > 0 then (Some (0, OS_ERR_PEND_ISR), s)
      else if OSLockNesting s > 0 then (Some (0, OS_ERR_PEND_LOCKED), s)
      else if OSFlagType (OSFlagTbl s pgrp) \<noteq> OS_EVENT_TYPE_FLAG then (Some (0, OS_ERR_EVENT_TYPE), s)
      else (let (wt, consume) = flag_type wait_type
            in case flag_test wt (OSFlagFlags (OSFlagTbl s pgrp)) flags of
                 None \<Rightarrow> (Some (0, OS_ERR_FLAG_WAIT_TYPE), s)
               | Some (ready, flags_rdy) \<Rightarrow>
                   if ready
                   then (let s1 = (if consume then flag_consume wt pgrp flags_rdy s else s);
                             s2 = upd_tcb (OSTCBCur s1) (\<lambda>t. t\<lparr>OSTCBFlagsRdy := flags_rdy\<rparr>) s1
                         in (Some (flags_rdy, OS_ERR_NONE), s2))
                   else (None, OS_Sched (OS_FlagBlock pgrp node flags wt timeout s))))"

definition OSFlagPend_resume :: "ptr \<Rightarrow> INT8U \<Rightarrow> ptr \<Rightarrow> os_state \<Rightarrow> INT16U \<times> INT8U \<times> os_state" where
  "OSFlagPend_resume pgrp wait_type node s =
     (let (wt, consume) = flag_type wait_type;
          cur = OSTCBCur s;
          pend_stat = OSTCBStatPend (OSTCBTbl s cur)
      in if pend_stat \<noteq> OS_STAT_PEND_OK
         then (let s1 = upd_tcb cur (\<lambda>t. t\<lparr>OSTCBStatPend := OS_STAT_PEND_OK\<rparr>) s;
                   s2 = OS_FlagUnlink node s1;
                   s3 = upd_tcb cur (\<lambda>t. t\<lparr>OSTCBStat := OS_STAT_RDY\<rparr>) s2
               in (0, if pend_stat = OS_STAT_PEND_ABORT then OS_ERR_PEND_ABORT else OS_ERR_TIMEOUT, s3))
         else (let flags_rdy = OSTCBFlagsRdy (OSTCBTbl s cur)
               in if consume
                  then if wt \<in> {OS_FLAG_WAIT_SET_ALL, OS_FLAG_WAIT_SET_ANY, OS_FLAG_WAIT_CLR_ALL, OS_FLAG_WAIT_CLR_ANY}
                       then (flags_rdy, OS_ERR_NONE, flag_consume wt pgrp flags_rdy s)
                       else (0, OS_ERR_FLAG_WAIT_TYPE, s)
                  else (flags_rdy, OS_ERR_NONE, s)))"

definition OSFlagPendGetFlagsRdy :: "os_state \<Rightarrow> INT16U" where
  "OSFlagPendGetFlagsRdy s = OSTCBFlagsRdy (OSTCBTbl s (OSTCBCur s))"

text \<open>The walk over the wait list in \<open>OSFlagPost\<close>: the error, whether to schedule, the state.\<close>

partial_function (option) flag_post_loop :: "ptr \<Rightarrow> ptr \<Rightarrow> bool \<Rightarrow> os_state \<Rightarrow> (INT8U \<times> bool \<times> os_state) option" where
  "flag_post_loop pgrp pnode sched s =
     (if pnode \<noteq> NULL
      then (case flag_test (OSFlagNodeWaitType (OSFlagNodes s pnode)) (OSFlagFlags (OSFlagTbl s pgrp))
                   (OSFlagNodeFlags (OSFlagNodes s pnode)) of
              None \<Rightarrow> Some (OS_ERR_FLAG_WAIT_TYPE, sched, s)
            | Some (ready, flags_rdy) \<Rightarrow>
                (if ready
                 then flag_post_loop pgrp
                        (OSFlagNodeNext (OSFlagNodes (snd (OS_FlagTaskRdy pnode flags_rdy s)) pnode))
                        (sched \<or> fst (OS_FlagTaskRdy pnode flags_rdy s))
                        (snd (OS_FlagTaskRdy pnode flags_rdy s))
                 else flag_post_loop pgrp (OSFlagNodeNext (OSFlagNodes s pnode)) sched s))
      else Some (OS_ERR_NONE, sched, s))"

text \<open>
  \<open>OSFlagPost\<close> up to and including its call of \<open>OS_Sched\<close>; the value \<open>None\<close> means that it goes on
  with \<open>OSFlagPost_resume\<close>, at once or when its caller runs again: the flags are read then.
\<close>

definition OSFlagPost :: "ptr \<Rightarrow> INT16U \<Rightarrow> INT8U \<Rightarrow> os_state \<Rightarrow> ((INT16U \<times> INT8U) option \<times> os_state) option" where
  "OSFlagPost pgrp flags opt s =
     (if pgrp = NULL then Some (Some (0, OS_ERR_FLAG_INVALID_PGRP), s)
      else if OSFlagType (OSFlagTbl s pgrp) \<noteq> OS_EVENT_TYPE_FLAG then Some (Some (0, OS_ERR_EVENT_TYPE), s)
      else if opt \<noteq> OS_FLAG_CLR \<and> opt \<noteq> OS_FLAG_SET then Some (Some (0, OS_ERR_FLAG_INVALID_OPT), s)
      else (let s1 = upd_flag pgrp (\<lambda>g. g\<lparr>OSFlagFlags :=
                       (if opt = OS_FLAG_CLR then OSFlagFlags g AND NOT flags else OSFlagFlags g OR flags)\<rparr>) s
            in case flag_post_loop pgrp (OSFlagWaitList (OSFlagTbl s1 pgrp)) False s1 of
                 None \<Rightarrow> None
               | Some (err, sched, s2) \<Rightarrow>
                   if err \<noteq> OS_ERR_NONE then Some (Some (0, err), s2)
                   else Some (None, if sched then OS_Sched s2 else s2)))"

definition OSFlagPost_resume :: "ptr \<Rightarrow> os_state \<Rightarrow> INT16U \<times> INT8U" where
  "OSFlagPost_resume pgrp s = (OSFlagFlags (OSFlagTbl s pgrp), OS_ERR_NONE)"

definition OSFlagQuery :: "ptr \<Rightarrow> os_state \<Rightarrow> INT16U \<times> INT8U" where
  "OSFlagQuery pgrp s =
     (if pgrp = NULL then (0, OS_ERR_FLAG_INVALID_PGRP)
      else if OSFlagType (OSFlagTbl s pgrp) \<noteq> OS_EVENT_TYPE_FLAG then (0, OS_ERR_EVENT_TYPE)
      else (OSFlagFlags (OSFlagTbl s pgrp), OS_ERR_NONE))"

definition OS_FLAG_GRP_clr :: OS_FLAG_GRP where
  "OS_FLAG_GRP_clr = \<lparr>OSFlagType = 0, OSFlagWaitList = NULL, OSFlagFlags = 0, OSFlagName = []\<rparr>"

primrec flag_init_link :: "nat \<Rightarrow> (ptr \<Rightarrow> OS_FLAG_GRP) \<Rightarrow> (ptr \<Rightarrow> OS_FLAG_GRP)" where
  "flag_init_link 0 tbl = tbl"
| "flag_init_link (Suc ix) tbl =
     (let tbl1 = flag_init_link ix tbl
      in tbl1(ix + 1 := (tbl1 (ix + 1))\<lparr>OSFlagType := OS_EVENT_TYPE_UNUSED, OSFlagWaitList := ix + 2,
                          OSFlagName := ''?''\<rparr>))"

definition OS_FlagInit :: "os_state \<Rightarrow> os_state" where
  "OS_FlagInit s =
     (let tbl1 = (\<lambda>a. if 1 \<le> a \<and> a \<le> OS_MAX_FLAGS then OS_FLAG_GRP_clr else OSFlagTbl s a);
          tbl2 = flag_init_link (OS_MAX_FLAGS - 1) tbl1
      in s\<lparr>OSFlagTbl := tbl2(OS_MAX_FLAGS := (tbl2 OS_MAX_FLAGS)\<lparr>OSFlagType := OS_EVENT_TYPE_UNUSED,
             OSFlagWaitList := NULL, OSFlagName := ''?''\<rparr>), OSFlagFreeList := 1\<rparr>)"

subsection \<open>Flag group control blocks\<close>

definition free_flags :: "os_state \<Rightarrow> ptr list \<Rightarrow> bool" where
  "free_flags s xs \<longleftrightarrow> path (\<lambda>g. OSFlagWaitList (OSFlagTbl s g)) (OSFlagFreeList s) xs \<and> distinct xs"

interpretation flagfree: free_list free_flags flag_alloc flag_free "\<lambda>_. True"
proof (unfold_locales, goal_cases)
  case (1 s xs ys)
  then show ?case by (auto simp: free_flags_def dest: path_unique)
next
  case (2 s xs)
  then show ?case by (simp add: free_flags_def)
next
  case (3 s xs)
  then show ?case by (auto simp: free_flags_def dest: path_nonzero)
next
  case (4 s)
  then show ?case by (simp add: free_flags_def flag_alloc_def)
next
  case (5 s x xs)
  then show ?case by (auto simp: free_flags_def flag_alloc_def Let_def)
next
  case (6 s xs x)
  then have "path (\<lambda>g. OSFlagWaitList (OSFlagTbl (flag_free x s) g)) (OSFlagFreeList s) xs
      = path (\<lambda>g. OSFlagWaitList (OSFlagTbl s g)) (OSFlagFreeList s) xs"
    by (intro path_cong) (auto simp: flag_free_def upd_flag_def)
  with 6 show ?case by (auto simp: free_flags_def flag_free_def upd_flag_def)
qed

lemma OS_FlagInit_free: "free_flags (OS_FlagInit s) [1, 2, 3, 4, 5]"
  by (simp add: free_flags_def OS_FlagInit_def numeral_eq_Suc Let_def)

subsection \<open>Lists of nodes\<close>

abbreviation node_next :: "(ptr \<Rightarrow> OS_FLAG_NODE) \<Rightarrow> ptr \<Rightarrow> ptr" where
  "node_next N \<equiv> \<lambda>n. OSFlagNodeNext (N n)"

abbreviation node_prev :: "(ptr \<Rightarrow> OS_FLAG_NODE) \<Rightarrow> ptr \<Rightarrow> ptr" where
  "node_prev N \<equiv> \<lambda>n. OSFlagNodePrev (N n)"

definition unlink_nodes :: "ptr \<Rightarrow> (ptr \<Rightarrow> OS_FLAG_NODE) \<Rightarrow> (ptr \<Rightarrow> OS_FLAG_NODE)" where
  "unlink_nodes n N =
     (let pr = OSFlagNodePrev (N n); nx = OSFlagNodeNext (N n);
          N1 = (if pr = 0 then N else N(pr := (N pr)\<lparr>OSFlagNodeNext := nx\<rparr>))
      in if nx = 0 then N1 else N1(nx := (N1 nx)\<lparr>OSFlagNodePrev := pr\<rparr>))"

lemma unlink_nodes_links:
  "node_next (unlink_nodes n N) = next_unlink (node_next N) (node_prev N) n"
  "node_prev (unlink_nodes n N) = prev_unlink (node_next N) (node_prev N) n"
  by (auto simp: unlink_nodes_def next_unlink_def prev_unlink_def Let_def)

lemma unlink_data:
  "OSFlagNodeTCB (unlink_nodes n N x) = OSFlagNodeTCB (N x)"
  "OSFlagNodeFlagGrp (unlink_nodes n N x) = OSFlagNodeFlagGrp (N x)"
  "OSFlagNodeFlags (unlink_nodes n N x) = OSFlagNodeFlags (N x)"
  "OSFlagNodeWaitType (unlink_nodes n N x) = OSFlagNodeWaitType (N x)"
  by (simp_all add: unlink_nodes_def Let_def)

lemma unlink_nodes_self:
  assumes "dll (node_next N) (node_prev N) 0 p (as @ n # bs)" and "distinct (as @ n # bs)"
  shows "unlink_nodes n N n = N n"
  using unlink_self [OF assms, symmetric] by (simp add: unlink_nodes_def Let_def)

subsection \<open>The wait list of a group\<close>

text \<open>What holds of each node: its task exists, waits on no event, and has a valid wait type.\<close>

definition node_ok :: "os_state \<Rightarrow> ptr \<Rightarrow> ptr \<Rightarrow> bool" where
  "node_ok s g n \<longleftrightarrow> OSFlagNodeFlagGrp (OSFlagNodes s n) = g \<and> OSFlagNodeWaitType (OSFlagNodes s n) \<le> 3
     \<and> (\<exists>p. is_task s p \<and> p \<noteq> OS_TASK_IDLE_PRIO \<and> OSFlagNodeTCB (OSFlagNodes s n) = OSTCBPrioTbl s p
          \<and> OSTCBStat (task_at s p) AND OS_STAT_PEND_ANY \<in> {0, OS_STAT_FLAG} \<and> (\<forall>e. \<not> waits s e p))"

definition flag_list :: "os_state \<Rightarrow> ptr \<Rightarrow> ptr list \<Rightarrow> bool" where
  "flag_list s g ns \<longleftrightarrow> dll (node_next (OSFlagNodes s)) (node_prev (OSFlagNodes s)) 0 (OSFlagWaitList (OSFlagTbl s g)) ns
     \<and> distinct (map (\<lambda>n. OSFlagNodeTCB (OSFlagNodes s n)) ns) \<and> (\<forall>n\<in>set ns. node_ok s g n)"

definition flag_wake :: "INT16U \<Rightarrow> OS_TCB \<Rightarrow> OS_TCB" where
  "flag_wake flags_rdy t = t\<lparr>OSTCBDly := 0, OSTCBFlagsRdy := flags_rdy,
     OSTCBStat := OSTCBStat t AND NOT OS_STAT_FLAG, OSTCBStatPend := OS_STAT_PEND_OK, OSTCBFlagNode := NULL\<rparr>"

text \<open>What the wake-up of a waiter leaves alone.\<close>

definition flag_frame :: "os_state \<Rightarrow> os_state \<Rightarrow> bool" where
  "flag_frame s' s \<longleftrightarrow> OSTCBPrioTbl s' = OSTCBPrioTbl s \<and> OSEvents s' = OSEvents s
     \<and> OSEventFreeList s' = OSEventFreeList s \<and> OSTCBCur s' = OSTCBCur s \<and> OSPrioCur s' = OSPrioCur s
     \<and> OSIntNesting s' = OSIntNesting s \<and> OSLockNesting s' = OSLockNesting s
     \<and> (\<forall>g. OSFlagFlags (OSFlagTbl s' g) = OSFlagFlags (OSFlagTbl s g)
           \<and> OSFlagType (OSFlagTbl s' g) = OSFlagType (OSFlagTbl s g))
     \<and> (\<forall>n. OSFlagNodeTCB (OSFlagNodes s' n) = OSFlagNodeTCB (OSFlagNodes s n)
           \<and> OSFlagNodeFlagGrp (OSFlagNodes s' n) = OSFlagNodeFlagGrp (OSFlagNodes s n)
           \<and> OSFlagNodeFlags (OSFlagNodes s' n) = OSFlagNodeFlags (OSFlagNodes s n)
           \<and> OSFlagNodeWaitType (OSFlagNodes s' n) = OSFlagNodeWaitType (OSFlagNodes s n))"

lemma flag_frame_refl [simp]: "flag_frame s s"
  by (simp add: flag_frame_def)

lemma flag_frame_trans: "flag_frame s' s \<Longrightarrow> flag_frame s'' s' \<Longrightarrow> flag_frame s'' s"
  by (simp add: flag_frame_def)

lemma OS_FlagUnlink_eq:
  "OS_FlagUnlink n s = upd_tcb (OSFlagNodeTCB (OSFlagNodes s n)) (\<lambda>t. t\<lparr>OSTCBFlagNode := NULL\<rparr>)
     (s\<lparr>OSFlagNodes := unlink_nodes n (OSFlagNodes s),
        OSFlagTbl := (if OSFlagNodePrev (OSFlagNodes s n) = NULL
          then (OSFlagTbl s)(OSFlagNodeFlagGrp (OSFlagNodes s n) :=
                 (OSFlagTbl s (OSFlagNodeFlagGrp (OSFlagNodes s n)))\<lparr>OSFlagWaitList := OSFlagNodeNext (OSFlagNodes s n)\<rparr>)
          else OSFlagTbl s)\<rparr>)"
  by (simp add: OS_FlagUnlink_def unlink_nodes_def upd_node_def upd_flag_def Let_def)

lemma tcb_rdy_frame:
  "OSFlagNodes (tcb_rdy t s) = OSFlagNodes s" "OSFlagTbl (tcb_rdy t s) = OSFlagTbl s"
  "OSTCBTbl (tcb_rdy t s) = OSTCBTbl s" "OSTCBPrioTbl (tcb_rdy t s) = OSTCBPrioTbl s"
  "OSEvents (tcb_rdy t s) = OSEvents s" "OSEventFreeList (tcb_rdy t s) = OSEventFreeList s"
  "OSTCBCur (tcb_rdy t s) = OSTCBCur s" "OSPrioCur (tcb_rdy t s) = OSPrioCur s"
  "OSIntNesting (tcb_rdy t s) = OSIntNesting s" "OSLockNesting (tcb_rdy t s) = OSLockNesting s"
  by (simp_all add: tcb_rdy_def)

lemma stat_within:
  assumes "x AND NOT k = 0"
  shows "x AND k = (x :: 8 word)"
proof -
  have "x = x AND (k OR NOT k)" by simp
  also have "\<dots> = x AND k OR x AND NOT k" by (rule bit.conj_disj_distrib)
  finally show ?thesis using assms by simp
qed

lemma flag_task_rdy_ok:
  assumes ok: "data_ok s" and fl: "flag_list s g (as @ n # bs)" and r: "OS_FlagTaskRdy n bits s = (r, s1)"
  shows "data_ok s1" and "flag_list s1 g (as @ bs)" and "flag_frame s1 s"
    and "OSTCBTbl s1 = (OSTCBTbl s)(OSFlagNodeTCB (OSFlagNodes s n) := flag_wake bits (OSTCBTbl s (OSFlagNodeTCB (OSFlagNodes s n))))"
    and "\<not> r \<Longrightarrow> rdy_map s1 = rdy_map s" and "OSFlagNodes s1 n = OSFlagNodes s n"
proof -
  note inv = data_okD(1) [OF ok]
  let ?N = "OSFlagNodes s" and ?t = "OSFlagNodeTCB (OSFlagNodes s n)"
  have nok: "node_ok s g n" and dl: "dll (node_next ?N) (node_prev ?N) 0 (OSFlagWaitList (OSFlagTbl s g)) (as @ n # bs)"
    and dtcb: "distinct (map (\<lambda>n. OSFlagNodeTCB (?N n)) (as @ n # bs))"
    and all: "\<forall>m\<in>set (as @ n # bs). node_ok s g m"
    using fl by (auto simp: flag_list_def)
  have dist: "distinct (as @ n # bs)" using dtcb by (simp only: distinct_map)
  have grp: "OSFlagNodeFlagGrp (?N n) = g" using nok by (simp add: node_ok_def)
  obtain p where p: "is_task s p" "p \<noteq> OS_TASK_IDLE_PRIO" "?t = OSTCBPrioTbl s p"
    "OSTCBStat (task_at s p) AND OS_STAT_PEND_ANY \<in> {0, OS_STAT_FLAG}" "\<And>e. \<not> waits s e p"
    using nok by (auto simp: node_ok_def)
  note p64 = task_prio_ok [OF inv p(1)]
  have pok: "tcb_prio_ok p (OSTCBTbl s ?t)" using p64 by (simp add: task_at_def p(3))
  let ?T = "flag_wake bits (task_at s p)"
  have stT: "OSTCBStat ?T = OSTCBStat (task_at s p) AND NOT OS_STAT_FLAG" by (simp add: flag_wake_def)
  have r_iff: "r \<longleftrightarrow> OSTCBStat ?T = 0"
    and rm: "rdy_map s1 = (if OSTCBStat ?T = 0 then bm_ins p (rdy_map s) else rdy_map s)"
    and tbl: "OSTCBTbl s1 = (OSTCBTbl s)(?t := flag_wake bits (OSTCBTbl s ?t))"
    and fr: "flag_frame s1 s"
    and nodes: "OSFlagNodes s1 = unlink_nodes n ?N"
    and head: "OSFlagWaitList (OSFlagTbl s1 g) = (if OSFlagNodePrev (?N n) = NULL then OSFlagNodeNext (?N n)
        else OSFlagWaitList (OSFlagTbl s g))"
  proof -
    define s2 where "s2 = upd_tcb ?t (\<lambda>t. t\<lparr>OSTCBDly := 0, OSTCBFlagsRdy := bits,
                 OSTCBStat := OSTCBStat t AND NOT OS_STAT_FLAG, OSTCBStatPend := OS_STAT_PEND_OK\<rparr>) s"
    define s3 where "s3 = (if OSTCBStat ?T = 0 then set_rdy_map (bm_ins p (rdy_map s)) s2 else s2)"
    have c: "OSTCBStat (OSTCBTbl s2 ?t) = OSTCBStat ?T" by (simp add: s2_def flag_wake_def task_at_def p(3))
    have rd: "tcb_rdy ?t s2 = set_rdy_map (bm_ins p (rdy_map s)) s2"
      unfolding s2_def using pok by (subst tcb_rdy_eq [of p]) (simp_all add: tcb_prio_ok_def)
    have eq: "r = (OSTCBStat ?T = 0)" "s1 = OS_FlagUnlink n s3"
      using r unfolding OS_FlagTaskRdy_def Let_def s2_def [symmetric] c rd s3_def
      by (simp_all split: if_splits)
    have f3: "OSFlagNodes s3 = ?N" "OSFlagTbl s3 = OSFlagTbl s" "OSTCBPrioTbl s3 = OSTCBPrioTbl s"
      "OSEvents s3 = OSEvents s" "OSEventFreeList s3 = OSEventFreeList s" "OSTCBCur s3 = OSTCBCur s"
      "OSPrioCur s3 = OSPrioCur s" "OSIntNesting s3 = OSIntNesting s" "OSLockNesting s3 = OSLockNesting s"
      "rdy_map s3 = (if OSTCBStat ?T = 0 then bm_ins p (rdy_map s) else rdy_map s)"
      "OSTCBTbl s3 = OSTCBTbl s2"
      by (simp_all add: s3_def s2_def)
    note u = OS_FlagUnlink_eq [of n s3, unfolded f3(1,2)]
    show "r \<longleftrightarrow> OSTCBStat ?T = 0" by (simp only: eq)
    show "rdy_map s1 = (if OSTCBStat ?T = 0 then bm_ins p (rdy_map s) else rdy_map s)"
    proof -
      have "rdy_map s1 = rdy_map s3" by (simp add: eq(2) u rdy_map_def)
      then show ?thesis by (simp only: f3(10))
    qed
    show "OSTCBTbl s1 = (OSTCBTbl s)(?t := flag_wake bits (OSTCBTbl s ?t))"
      by (simp add: eq(2) u f3(11)) (simp add: s2_def flag_wake_def)
    show "flag_frame s1 s"
      by (simp add: eq(2) u flag_frame_def unlink_data f3)
    show "OSFlagNodes s1 = unlink_nodes n ?N" by (simp add: eq(2) u)
    show "OSFlagWaitList (OSFlagTbl s1 g) = (if OSFlagNodePrev (?N n) = NULL then OSFlagNodeNext (?N n)
        else OSFlagWaitList (OSFlagTbl s g))"
      by (simp add: eq(2) u grp)
  qed
  show "flag_frame s1 s" by (rule fr)
  show "OSTCBTbl s1 = (OSTCBTbl s)(?t := flag_wake bits (OSTCBTbl s ?t))" by (rule tbl)
  show "OSFlagNodes s1 n = OSFlagNodes s n" unfolding nodes by (rule unlink_nodes_self [OF dl dist])
  show "\<not> r \<Longrightarrow> rdy_map s1 = rdy_map s" using rm r_iff by simp
  have mask: "OSTCBStat (task_at s p) AND NOT (OS_STAT_PEND_ANY OR OS_STAT_SUSPEND) = 0"
    and multi: "OSTCBEventMultiPtr (task_at s p) = None"
    using inv p(1) by (simp_all add: kinv_def tcbs_ok_def)
  have maskT: "OSTCBStat ?T AND NOT (OS_STAT_PEND_ANY OR OS_STAT_SUSPEND) = 0"
    unfolding stT by (rule stat_mask_clear [OF mask])
  have pendT: "OSTCBStat ?T AND OS_STAT_PEND_ANY = 0"
  proof -
    have "OSTCBStat ?T AND OS_STAT_PEND_ANY = (OSTCBStat (task_at s p) AND OS_STAT_PEND_ANY) AND NOT OS_STAT_FLAG"
      unfolding stT by (simp only: ac_simps)
    then show ?thesis using p(4) by auto
  qed
  have x: "x = 0 \<longleftrightarrow> x AND k = 0" if "x AND NOT k = 0" for x k :: "8 word"
    using stat_within [OF that] by simp
  have runT: "tcb_runnable ?T \<longleftrightarrow> OSTCBStat ?T = 0"
    using x [OF maskT] by (simp add: tcb_runnable_def flag_wake_def)
  have suspT: "OSTCBStat ?T AND OS_STAT_SUSPEND = OSTCBStat (task_at s p) AND OS_STAT_SUSPEND"
    unfolding stT by (simp add: and.assoc)
  have kin: "kinv s1"
  proof (rule kinv_task_status [OF inv p(1), where T = ?T])
    show "OSTCBPrioTbl s1 = OSTCBPrioTbl s" and "OSEvents s1 = OSEvents s"
      using fr by (simp_all add: flag_frame_def)
    show "OSTCBTbl s1 = (OSTCBTbl s)(OSTCBPrioTbl s p := ?T)" using tbl by (simp add: p(3) task_at_def)
    show "rdy_map s1 = rdy_map s \<or> rdy_map s1 = bm_ins p (rdy_map s) \<or> rdy_map s1 = bm_del p (rdy_map s)"
      using rm by simp
    show "rdy s1 p = tcb_runnable ?T"
    proof (cases "OSTCBStat ?T = 0")
      case True
      then show ?thesis using p64 runT by (simp add: rdy_def rm bm_mem_ins)
    next
      case False
      have "OSTCBStat ?T AND OS_STAT_SUSPEND \<noteq> 0"
        using False stat_within [OF maskT] unfolding stat_mask_or [OF pendT] by metis
      then have "\<not> rdy s p"
        using rdy_iff [OF inv, of p] suspT stat_mask_or_zero [of "OSTCBStat (task_at s p)" OS_STAT_SUSPEND OS_STAT_PEND_ANY]
        by (auto simp: tcb_runnable_def or.commute)
      then show ?thesis using False runT by (simp add: rdy_def rm)
    qed
    show "OSTCBStat ?T AND OS_STAT_PEND_ANY \<in> {0, OS_STAT_FLAG, OSTCBStat (task_at s p) AND OS_STAT_PEND_ANY}"
      using pendT by simp
    show "tcb_prio_ok p ?T" using p64 by (simp add: tcb_prio_ok_def flag_wake_def)
    show "wait_stat_ok ?T (event_stat (OSEventType (OSEvents s e)))" if "waits s e p" for e
      using that p(5) by blast
    show "tcb_runnable ?T" if "p = OS_TASK_IDLE_PRIO" using that p(2) by simp
  qed (use maskT multi in \<open>simp_all add: flag_wake_def\<close>)
  have "cur_ok s1 = cur_ok s" using fr by (intro cur_ok_cong) (simp_all add: flag_frame_def)
  moreover have "events_ok s1" using fr by (intro events_ok_cong [OF _ _ data_okD(3) [OF ok]]) (simp_all add: flag_frame_def)
  ultimately show "data_ok s1" using kin data_okD [OF ok] by (simp add: data_ok_def)
  have dl': "dll (node_next (OSFlagNodes s1)) (node_prev (OSFlagNodes s1)) 0 (OSFlagWaitList (OSFlagTbl s1 g)) (as @ bs)"
    unfolding nodes head unlink_nodes_links by (rule dll_unlink [OF dl dist])
  have "node_ok s1 g m" if m: "m \<in> set (as @ bs)" for m
  proof -
    have mok: "node_ok s g m" using all m by auto
    obtain q where q: "is_task s q" "q \<noteq> OS_TASK_IDLE_PRIO" "OSFlagNodeTCB (?N m) = OSTCBPrioTbl s q"
      "OSTCBStat (task_at s q) AND OS_STAT_PEND_ANY \<in> {0, OS_STAT_FLAG}" "\<And>e. \<not> waits s e q"
      using mok by (auto simp: node_ok_def)
    have "OSFlagNodeTCB (?N m) \<noteq> ?t" using dtcb m by (auto simp: image_iff)
    then have "task_at s1 q = task_at s q" using tbl fr q(3) by (simp add: task_at_def flag_frame_def)
    moreover have "is_task s1 q = is_task s q" "waits s1 e q = waits s e q" for e
      using fr by (simp_all add: is_task_def waits_def flag_frame_def)
    ultimately show ?thesis
      using mok q fr unfolding node_ok_def flag_frame_def by auto
  qed
  moreover have "distinct (map (\<lambda>n. OSFlagNodeTCB (OSFlagNodes s1 n)) (as @ bs))"
    using dtcb fr by (simp add: flag_frame_def)
  ultimately show "flag_list s1 g (as @ bs)" using dl' by (simp add: flag_list_def)
qed

subsection \<open>The walk over the waiters\<close>

text \<open>Whether the wait of a node is over, and the flags it is over with.\<close>

definition flag_sat :: "os_state \<Rightarrow> ptr \<Rightarrow> ptr \<Rightarrow> bool" where
  "flag_sat s g n \<longleftrightarrow> fst (the (flag_test (OSFlagNodeWaitType (OSFlagNodes s n)) (OSFlagFlags (OSFlagTbl s g))
     (OSFlagNodeFlags (OSFlagNodes s n))))"

definition flag_bits :: "os_state \<Rightarrow> ptr \<Rightarrow> ptr \<Rightarrow> INT16U" where
  "flag_bits s g n = snd (the (flag_test (OSFlagNodeWaitType (OSFlagNodes s n)) (OSFlagFlags (OSFlagTbl s g))
     (OSFlagNodeFlags (OSFlagNodes s n))))"

text \<open>The control blocks after the waiters of the nodes \<open>ns\<close> that are satisfied were woken.\<close>

definition flag_woken :: "os_state \<Rightarrow> ptr \<Rightarrow> ptr list \<Rightarrow> (ptr \<Rightarrow> OS_TCB) \<Rightarrow> bool" where
  "flag_woken s g ns tcbs \<longleftrightarrow>
     (\<forall>n\<in>set ns. flag_sat s g n \<longrightarrow>
        tcbs (OSFlagNodeTCB (OSFlagNodes s n)) = flag_wake (flag_bits s g n) (OSTCBTbl s (OSFlagNodeTCB (OSFlagNodes s n))))
     \<and> (\<forall>t. (\<forall>n\<in>set ns. flag_sat s g n \<longrightarrow> OSFlagNodeTCB (OSFlagNodes s n) \<noteq> t) \<longrightarrow> tcbs t = OSTCBTbl s t)"

lemma flag_test_le_3:
  "wt \<le> 3 \<Longrightarrow> \<exists>r b. flag_test wt cur flags = Some (r, b)"
proof -
  assume "wt \<le> 3"
  then have "unat wt \<le> 3" by (simp add: word_le_nat_alt)
  then have "unat wt = 0 \<or> unat wt = 1 \<or> unat wt = 2 \<or> unat wt = 3" by linarith
  then have "wt = word_of_nat 0 \<or> wt = word_of_nat 1 \<or> wt = word_of_nat 2 \<or> wt = word_of_nat 3"
    by (metis of_nat_unat ucast_id)
  then have "wt = 0 \<or> wt = 1 \<or> wt = 2 \<or> wt = 3" by simp
  then show ?thesis by (auto simp: flag_test_def Let_def)
qed

lemma flag_frame_sat:
  assumes "flag_frame s' s"
  shows "flag_sat s' g n = flag_sat s g n" and "flag_bits s' g n = flag_bits s g n"
  using assms by (simp_all add: flag_sat_def flag_bits_def flag_frame_def)

lemma flag_post_loop_ok:
  assumes "data_ok s" and "flag_list s g (as @ bs)" and "pn = (if bs = [] then NULL else hd bs)"
  obtains s' sched' where "flag_post_loop g pn sched s = Some (OS_ERR_NONE, sched', s')"
    and "data_ok s'" and "flag_list s' g (as @ filter (\<lambda>n. \<not> flag_sat s g n) bs)" and "flag_frame s' s"
    and "flag_woken s g bs (OSTCBTbl s')" and "\<not> sched' \<Longrightarrow> \<not> sched \<and> rdy_map s' = rdy_map s"
  using assms
proof (induction bs arbitrary: as s pn sched thesis)
  case Nil
  from Nil.prems show ?case by (intro Nil.prems(1) [where s' = s and sched' = sched]) (simp_all add: flag_post_loop.simps flag_woken_def)
next
  case (Cons n bs)
  have fl: "flag_list s g (as @ n # bs)" and ok: "data_ok s" and pn: "pn = n" using Cons.prems by simp_all
  have dl: "dll (node_next (OSFlagNodes s)) (node_prev (OSFlagNodes s)) 0 (OSFlagWaitList (OSFlagTbl s g)) (as @ n # bs)"
    and nok: "node_ok s g n"
    and dtcb: "distinct (map (\<lambda>n. OSFlagNodeTCB (OSFlagNodes s n)) (n # bs))"
    using fl by (auto simp: flag_list_def)
  note L = dll_links [OF dl]
  obtain r b where t: "flag_test (OSFlagNodeWaitType (OSFlagNodes s n)) (OSFlagFlags (OSFlagTbl s g))
      (OSFlagNodeFlags (OSFlagNodes s n)) = Some (r, b)"
    using flag_test_le_3 nok unfolding node_ok_def by metis
  have sat: "flag_sat s g n = r" "flag_bits s g n = b" by (simp_all add: flag_sat_def flag_bits_def t)
  have nz: "n \<noteq> NULL" using L by simp
  show ?case
  proof (cases r)
    case False
    obtain s' sched' where IH: "flag_post_loop g (OSFlagNodeNext (OSFlagNodes s n)) sched s = Some (OS_ERR_NONE, sched', s')"
      "data_ok s'" "flag_list s' g ((as @ [n]) @ filter (\<lambda>n. \<not> flag_sat s g n) bs)" "flag_frame s' s"
      "flag_woken s g bs (OSTCBTbl s')" "\<not> sched' \<Longrightarrow> \<not> sched \<and> rdy_map s' = rdy_map s"
      using Cons.IH [where s = s and as = "as @ [n]" and pn = "OSFlagNodeNext (OSFlagNodes s n)" and sched = sched] fl ok L
      by auto
    show ?thesis
    proof (rule Cons.prems(1) [where s' = s' and sched' = sched'])
      show "flag_post_loop g pn sched s = Some (OS_ERR_NONE, sched', s')"
        using nz IH(1) False by (simp add: pn flag_post_loop.simps [of g n] t)
      show "flag_list s' g (as @ filter (\<lambda>n. \<not> flag_sat s g n) (n # bs))" using IH(3) sat(1) False by simp
      show "flag_woken s g (n # bs) (OSTCBTbl s')"
        using IH(5) sat(1) False unfolding flag_woken_def by auto
    qed (use IH in simp_all)
  next
    case True
    obtain r1 s1 where rd: "OS_FlagTaskRdy n b s = (r1, s1)" by (cases "OS_FlagTaskRdy n b s") simp
    note R = flag_task_rdy_ok [OF ok fl rd]
    note F = flag_frame_sat [OF R(3)]
    have N1: "OSFlagNodeTCB (OSFlagNodes s1 m) = OSFlagNodeTCB (OSFlagNodes s m)" for m
      using R(3) by (simp add: flag_frame_def)
    have nx: "OSFlagNodeNext (OSFlagNodes s1 n) = (if bs = [] then NULL else hd bs)" using L by (simp add: R(6))
    obtain s' sched' where IH: "flag_post_loop g (OSFlagNodeNext (OSFlagNodes s1 n)) (sched \<or> r1) s1 = Some (OS_ERR_NONE, sched', s')"
      "data_ok s'" "flag_list s' g (as @ filter (\<lambda>n. \<not> flag_sat s g n) bs)" "flag_frame s' s1"
      "flag_woken s1 g bs (OSTCBTbl s')" "\<not> sched' \<Longrightarrow> \<not> (sched \<or> r1) \<and> rdy_map s' = rdy_map s1"
      using Cons.IH [OF _ R(1,2) nx, where sched = "sched \<or> r1"] unfolding F by blast
    show ?thesis
    proof (rule Cons.prems(1) [where s' = s' and sched' = sched'])
      show "flag_post_loop g pn sched s = Some (OS_ERR_NONE, sched', s')"
        using nz IH(1) True rd by (simp add: pn flag_post_loop.simps [of g n] t)
      show "flag_list s' g (as @ filter (\<lambda>n. \<not> flag_sat s g n) (n # bs))" using IH(3) sat(1) True by simp
      show "flag_frame s' s" by (rule flag_frame_trans [OF R(3) IH(4)])
      have "OSTCBTbl s1 t = OSTCBTbl s t" if "t \<noteq> OSFlagNodeTCB (OSFlagNodes s n)" for t using that R(4) by simp
      moreover have "OSTCBTbl s1 (OSFlagNodeTCB (OSFlagNodes s n)) = flag_wake b (OSTCBTbl s (OSFlagNodeTCB (OSFlagNodes s n)))"
        using R(4) by simp
      moreover have ne: "OSFlagNodeTCB (OSFlagNodes s m) \<noteq> OSFlagNodeTCB (OSFlagNodes s n)" if "m \<in> set bs" for m
        using that dtcb by (auto simp: image_iff)
      ultimately show "flag_woken s g (n # bs) (OSTCBTbl s')"
        using IH(5) sat True unfolding flag_woken_def F N1 by auto
      show "\<not> sched' \<Longrightarrow> \<not> sched \<and> rdy_map s' = rdy_map s" using IH(6) R(5) by simp
    qed (use IH in simp_all)
  qed
qed

lemma flag_del_loop_ok:
  assumes "data_ok s" and "flag_list s g ns" and "pn = (if ns = [] then NULL else hd ns)"
  obtains s' where "flag_del_loop pn s = Some s'" and "data_ok s'" and "flag_list s' g []" and "flag_frame s' s"
    and "\<And>n. n \<in> set ns \<Longrightarrow> OSTCBTbl s' (OSFlagNodeTCB (OSFlagNodes s n))
      = flag_wake 0 (OSTCBTbl s (OSFlagNodeTCB (OSFlagNodes s n)))"
    and "\<And>t. (\<And>n. n \<in> set ns \<Longrightarrow> OSFlagNodeTCB (OSFlagNodes s n) \<noteq> t) \<Longrightarrow> OSTCBTbl s' t = OSTCBTbl s t"
    and "ns = [] \<Longrightarrow> s' = s"
  using assms
proof (induction ns arbitrary: s pn thesis)
  case Nil
  from Nil.prems show ?case by (intro Nil.prems(1) [of s]) (simp_all add: flag_del_loop.simps)
next
  case (Cons n ns)
  have fl: "flag_list s g ([] @ n # ns)" and ok: "data_ok s" and pn: "pn = n" using Cons.prems by simp_all
  have dl: "dll (node_next (OSFlagNodes s)) (node_prev (OSFlagNodes s)) 0 (OSFlagWaitList (OSFlagTbl s g)) ([] @ n # ns)"
    and dtcb: "distinct (map (\<lambda>n. OSFlagNodeTCB (OSFlagNodes s n)) (n # ns))"
    using fl by (auto simp: flag_list_def)
  note L = dll_links [OF dl]
  obtain r1 s1 where rd: "OS_FlagTaskRdy n 0 s = (r1, s1)" by (cases "OS_FlagTaskRdy n 0 s") simp
  note R = flag_task_rdy_ok [OF ok fl rd]
  have N1: "OSFlagNodeTCB (OSFlagNodes s1 m) = OSFlagNodeTCB (OSFlagNodes s m)" for m
    using R(3) by (simp add: flag_frame_def)
  have nx: "OSFlagNodeNext (OSFlagNodes s1 n) = (if ns = [] then NULL else hd ns)" using L by (simp add: R(6))
  have fl1: "flag_list s1 g ns" using R(2) by simp
  obtain s' where IH: "flag_del_loop (OSFlagNodeNext (OSFlagNodes s1 n)) s1 = Some s'" "data_ok s'" "flag_list s' g []"
    "flag_frame s' s1"
    "\<And>n. n \<in> set ns \<Longrightarrow> OSTCBTbl s' (OSFlagNodeTCB (OSFlagNodes s1 n)) = flag_wake 0 (OSTCBTbl s1 (OSFlagNodeTCB (OSFlagNodes s1 n)))"
    "\<And>t. (\<And>n. n \<in> set ns \<Longrightarrow> OSFlagNodeTCB (OSFlagNodes s1 n) \<noteq> t) \<Longrightarrow> OSTCBTbl s' t = OSTCBTbl s1 t"
    using Cons.IH [OF _ R(1) fl1 nx] by metis
  have ne: "OSFlagNodeTCB (OSFlagNodes s m) \<noteq> OSFlagNodeTCB (OSFlagNodes s n)" if "m \<in> set ns" for m
    using that dtcb by (auto simp: image_iff)
  show ?case
  proof (rule Cons.prems(1) [of s'])
    show "flag_del_loop pn s = Some s'" using L IH(1) rd by (simp add: pn flag_del_loop.simps [of n])
    show "flag_frame s' s" by (rule flag_frame_trans [OF R(3) IH(4)])
    show "OSTCBTbl s' (OSFlagNodeTCB (OSFlagNodes s m)) = flag_wake 0 (OSTCBTbl s (OSFlagNodeTCB (OSFlagNodes s m)))"
      if "m \<in> set (n # ns)" for m
    proof (cases "m \<in> set ns")
      case True
      then show ?thesis using IH(5) ne [of m] unfolding N1 by (simp add: R(4))
    next
      case False
      then have "m = n" using that by simp
      moreover have "OSTCBTbl s' (OSFlagNodeTCB (OSFlagNodes s n)) = OSTCBTbl s1 (OSFlagNodeTCB (OSFlagNodes s n))"
        using ne by (intro IH(6)) (simp add: N1)
      ultimately show ?thesis by (simp add: R(4))
    qed
    show "OSTCBTbl s' t = OSTCBTbl s t" if "\<And>m. m \<in> set (n # ns) \<Longrightarrow> OSFlagNodeTCB (OSFlagNodes s m) \<noteq> t" for t
    proof -
      have "OSTCBTbl s' t = OSTCBTbl s1 t" using that by (intro IH(6)) (simp add: N1)
      then show ?thesis using that [of n] by (simp add: R(4))
    qed
  qed (use IH in simp_all)
qed

subsection \<open>Properties\<close>

text \<open>
  The four wait conditions, bit by bit: a set-all wait is over when every requested flag is set, a
  set-any wait when one of them is, the clear waits likewise on the flags that are not set; the flags
  reported are the requested ones in the awaited position.
\<close>

lemma flag_test_correct:
  "flag_test OS_FLAG_WAIT_SET_ALL cur flags =
     Some (\<forall>i<16. bit flags i \<longrightarrow> bit cur i, cur AND flags)
   \<and> flag_test OS_FLAG_WAIT_SET_ANY cur flags =
     Some (\<exists>i<16. bit flags i \<and> bit cur i, cur AND flags)
   \<and> flag_test OS_FLAG_WAIT_CLR_ALL cur flags =
     Some (\<forall>i<16. bit flags i \<longrightarrow> \<not> bit cur i, flags AND NOT cur)
   \<and> flag_test OS_FLAG_WAIT_CLR_ANY cur flags =
     Some (\<exists>i<16. bit flags i \<and> \<not> bit cur i, flags AND NOT cur)
   \<and> (\<exists>r. flag_test t cur flags = Some r) = (t \<in> {0, 1, 2, 3})"
proof -
  have all: "x AND flags = flags \<longleftrightarrow> (\<forall>i<16. bit flags i \<longrightarrow> bit x i)" for x :: "16 word"
    by (auto simp: bit_eq_iff bit_and_iff dest: bit_imp_le_length)
  have any: "x AND flags \<noteq> 0 \<longleftrightarrow> (\<exists>i<16. bit flags i \<and> bit x i)" for x :: "16 word"
    by (auto simp: bit_eq_iff bit_and_iff)
  have "bit (NOT cur) i \<longleftrightarrow> \<not> bit cur i" if "i < 16" for i using that by (simp add: bit_not_iff)
  then show ?thesis
    using all [of cur] any [of cur] all [of "NOT cur"] any [of "NOT cur"]
    by (auto simp: flag_test_def Let_def and.commute)
qed

lemma flag_test_correct_example:
  "flag_test OS_FLAG_WAIT_SET_ALL 7 5 = Some (True, 5) \<and> flag_test OS_FLAG_WAIT_CLR_ALL 8 5 = Some (True, 5)"
proof -
  have "7 AND 5 = (5::16 word)" "5 AND NOT 8 = (5::16 word)" by simp_all
  then have "bit (5::16 word) i \<Longrightarrow> bit (7::16 word) i" "bit (5::16 word) i \<Longrightarrow> \<not> bit (8::16 word) i" for i
    by (metis bit_and_iff, metis bit_and_iff bit_not_iff)
  then show ?thesis using flag_test_correct [of 7 5] flag_test_correct [of 8 5] by simp
qed

definition flag_result :: "OS_TCB \<Rightarrow> INT8U \<times> INT8U \<times> INT32U \<times> INT16U" where
  "flag_result t = (OSTCBStat t, OSTCBStatPend t, OSTCBDly t, OSTCBFlagsRdy t)"

lemma flag_result_Sched [simp]: "flag_result (OSTCBTbl (OS_Sched s) t) = flag_result (OSTCBTbl s t)"
  using OS_Sched_tcb [of s t] by (auto simp: flag_result_def)

definition flag_posted :: "ptr \<Rightarrow> INT16U \<Rightarrow> INT8U \<Rightarrow> os_state \<Rightarrow> os_state" where
  "flag_posted g flags opt s = upd_flag g (\<lambda>gr. gr\<lparr>OSFlagFlags :=
     (if opt = OS_FLAG_CLR then OSFlagFlags gr AND NOT flags else OSFlagFlags gr OR flags)\<rparr>) s"

lemma upd_flag_ok:
  assumes "kernel_ok s"
  shows "kernel_ok (upd_flag g f s)"
proof (rule kernel_ok_cong [OF assms])
  show "kernel_same (upd_flag g f s) s" by (simp add: kernel_same_def upd_flag_def rdy_map_def)
  show "events_ok (upd_flag g f s)"
    by (rule events_ok_cong [OF _ _ kernel_okD(5) [OF assms]]) (simp_all add: upd_flag_def)
qed (simp_all add: upd_flag_def)

text \<open>The list survives a change of the group and of the ready list.\<close>

lemma flag_list_cong:
  assumes "OSFlagNodes s' = OSFlagNodes s"
    and "OSFlagWaitList (OSFlagTbl s' g) = OSFlagWaitList (OSFlagTbl s g)" and "kernel_same s' s"
  shows "flag_list s' g ns = flag_list s g ns"
proof -
  have "OSTCBPrioTbl s' = OSTCBPrioTbl s" using assms(3) by (simp add: kernel_same_def)
  then have "node_ok s' g n = node_ok s g n" for n
    using kernel_same_simps [OF assms(3)] by (simp add: node_ok_def assms(1) tcb_same_def)
  then show ?thesis by (simp add: flag_list_def assms)
qed

text \<open>
  C6 A post sets or clears the flags and then wakes exactly the waiters whose condition now holds:
  each gets the flags it was waiting for and is no longer in the wait list, which keeps the others
  in their order; the walk over the list ends, and the highest ready task runs.
\<close>

theorem OSFlagPost_correct:
  assumes ok: "kernel_ok s" and fl: "flag_list s g ns" and g: "g \<noteq> NULL"
    and ty: "OSFlagType (OSFlagTbl s g) = OS_EVENT_TYPE_FLAG" and opt: "opt = OS_FLAG_SET \<or> opt = OS_FLAG_CLR"
    and s1: "s1 = flag_posted g flags opt s"
  shows "\<exists>s'. OSFlagPost g flags opt s = Some (None, s') \<and> kernel_ok s'
    \<and> OSFlagFlags (OSFlagTbl s' g) = (if opt = OS_FLAG_SET then OSFlagFlags (OSFlagTbl s g) OR flags
          else OSFlagFlags (OSFlagTbl s g) AND NOT flags)
    \<and> flag_list s' g (filter (\<lambda>n. \<not> flag_sat s1 g n) ns)
    \<and> (\<forall>n\<in>set ns. flag_sat s1 g n \<longrightarrow> flag_result (OSTCBTbl s' (OSFlagNodeTCB (OSFlagNodes s n)))
          = (OSTCBStat (OSTCBTbl s (OSFlagNodeTCB (OSFlagNodes s n))) AND NOT OS_STAT_FLAG, OS_STAT_PEND_OK, 0, flag_bits s1 g n))
    \<and> (\<forall>t. (\<forall>n\<in>set ns. flag_sat s1 g n \<longrightarrow> OSFlagNodeTCB (OSFlagNodes s n) \<noteq> t)
          \<longrightarrow> flag_result (OSTCBTbl s' t) = flag_result (OSTCBTbl s t))"
proof -
  have k1: "kernel_ok s1" unfolding s1 flag_posted_def by (rule upd_flag_ok [OF ok])
  have f1: "OSFlagNodes s1 = OSFlagNodes s" "OSTCBTbl s1 = OSTCBTbl s" "OSFlagType (OSFlagTbl s1 g) = OS_EVENT_TYPE_FLAG"
    "OSFlagWaitList (OSFlagTbl s1 g) = OSFlagWaitList (OSFlagTbl s g)"
    "OSFlagFlags (OSFlagTbl s1 g) = (if opt = OS_FLAG_SET then OSFlagFlags (OSFlagTbl s g) OR flags
          else OSFlagFlags (OSFlagTbl s g) AND NOT flags)"
    using ty opt by (auto simp: s1 flag_posted_def upd_flag_def)
  have same: "kernel_same s1 s" by (simp add: s1 flag_posted_def kernel_same_def upd_flag_def rdy_map_def)
  have fl1: "flag_list s1 g ([] @ ns)" using fl flag_list_cong [OF f1(1,4) same] by simp
  have hd: "OSFlagWaitList (OSFlagTbl s1 g) = (if ns = [] then NULL else hd ns)"
    using fl1 dll_hd [of "node_next (OSFlagNodes s1)" "node_prev (OSFlagNodes s1)" 0 _ ns] by (simp add: flag_list_def)
  obtain s2 sched where L: "flag_post_loop g (OSFlagWaitList (OSFlagTbl s1 g)) False s1 = Some (OS_ERR_NONE, sched, s2)"
    "data_ok s2" "flag_list s2 g ([] @ filter (\<lambda>n. \<not> flag_sat s1 g n) ns)" "flag_frame s2 s1"
    "flag_woken s1 g ns (OSTCBTbl s2)" "\<not> sched \<Longrightarrow> rdy_map s2 = rdy_map s1"
    by (rule flag_post_loop_ok [OF kernel_okD(1) [OF k1] fl1 hd, of False]) blast
  define s' where "s' = (if sched then OS_Sched s2 else s2)"
  have post: "OSFlagPost g flags opt s = Some (None, s')"
    using g ty opt L(1) unfolding OSFlagPost_def s'_def Let_def flag_posted_def [symmetric] s1 [symmetric]
    by (simp add: g disj_commute)
  have k': "kernel_ok s'"
  proof (cases sched)
    case True
    then show ?thesis using kernel_ok_Sched [OF L(2)] by (simp add: s'_def)
  next
    case False
    have "sched_ok s2 = sched_ok s1" using L(4,6) False by (intro sched_ok_cong) (simp_all add: flag_frame_def)
    then show ?thesis using L(2) kernel_okD(4) [OF k1] False by (simp add: s'_def kernel_ok_def)
  qed
  have nodes: "OSFlagNodes s' = OSFlagNodes s2" "OSFlagTbl s' = OSFlagTbl s2" "kernel_same s' s2"
    and res: "flag_result (OSTCBTbl s' t) = flag_result (OSTCBTbl s2 t)" for t
    by (simp_all add: s'_def)
  have fl': "flag_list s' g (filter (\<lambda>n. \<not> flag_sat s1 g n) ns)"
    using L(3) flag_list_cong [OF nodes(1) _ nodes(3)] nodes(2) by simp
  have flags: "OSFlagFlags (OSFlagTbl s' g) = OSFlagFlags (OSFlagTbl s1 g)"
    using L(4) by (simp add: nodes(2) flag_frame_def)
  have woken: "flag_result (OSTCBTbl s' (OSFlagNodeTCB (OSFlagNodes s n)))
      = (OSTCBStat (OSTCBTbl s (OSFlagNodeTCB (OSFlagNodes s n))) AND NOT OS_STAT_FLAG, OS_STAT_PEND_OK, 0, flag_bits s1 g n)"
    if "n \<in> set ns" "flag_sat s1 g n" for n
  proof -
    have "OSTCBTbl s2 (OSFlagNodeTCB (OSFlagNodes s n)) = flag_wake (flag_bits s1 g n) (OSTCBTbl s (OSFlagNodeTCB (OSFlagNodes s n)))"
      using L(5) that unfolding flag_woken_def f1(1,2) by blast
    then show ?thesis unfolding res by (simp add: flag_result_def flag_wake_def)
  qed
  have others: "flag_result (OSTCBTbl s' t) = flag_result (OSTCBTbl s t)"
    if "\<forall>n\<in>set ns. flag_sat s1 g n \<longrightarrow> OSFlagNodeTCB (OSFlagNodes s n) \<noteq> t" for t
  proof -
    have "OSTCBTbl s2 t = OSTCBTbl s t" using L(5) that unfolding flag_woken_def f1(1,2) by blast
    then show ?thesis by (simp add: res)
  qed
  show ?thesis
    by (rule exI [of _ s'])
      (intro conjI ballI allI impI post k' fl' flags [unfolded f1(5)] woken others; blast)
qed

text \<open>
  Deleting a group with the always option ends the wait of every waiter at once, whatever flags it asked
  for, with no flags and the status of a successful wait, and returns the block to the free list.
\<close>

lemma OSFlagDel_correct:
  assumes ok: "kernel_ok s" and fl: "flag_list s g ns" and g: "g \<noteq> NULL" and nest: "OSIntNesting s = 0"
    and ty: "OSFlagType (OSFlagTbl s g) = OS_EVENT_TYPE_FLAG"
  shows "\<exists>s'. OSFlagDel g OS_DEL_ALWAYS s = Some (NULL, OS_ERR_NONE, s') \<and> kernel_ok s'
    \<and> OSFlagType (OSFlagTbl s' g) = OS_EVENT_TYPE_UNUSED \<and> OSFlagFreeList s' = g
    \<and> (\<forall>n\<in>set ns. flag_result (OSTCBTbl s' (OSFlagNodeTCB (OSFlagNodes s n)))
          = (OSTCBStat (OSTCBTbl s (OSFlagNodeTCB (OSFlagNodes s n))) AND NOT OS_STAT_FLAG, OS_STAT_PEND_OK, 0, 0))
    \<and> (\<forall>t. (\<forall>n\<in>set ns. OSFlagNodeTCB (OSFlagNodes s n) \<noteq> t)
          \<longrightarrow> flag_result (OSTCBTbl s' t) = flag_result (OSTCBTbl s t))"
proof -
  have hd: "OSFlagWaitList (OSFlagTbl s g) = (if ns = [] then NULL else hd ns)"
    using fl dll_hd [of "node_next (OSFlagNodes s)" "node_prev (OSFlagNodes s)" 0 _ ns] by (simp add: flag_list_def)
  have "0 \<notin> set ns" using fl by (auto simp: flag_list_def dest: dll_nonzero)
  then have some: "OSFlagWaitList (OSFlagTbl s g) \<noteq> NULL \<longleftrightarrow> ns \<noteq> []"
    using hd by (cases ns) auto
  obtain s1 where L: "flag_del_loop (OSFlagWaitList (OSFlagTbl s g)) s = Some s1" "data_ok s1" "flag_list s1 g []"
    "flag_frame s1 s"
    "\<And>n. n \<in> set ns \<Longrightarrow> OSTCBTbl s1 (OSFlagNodeTCB (OSFlagNodes s n))
      = flag_wake 0 (OSTCBTbl s (OSFlagNodeTCB (OSFlagNodes s n)))"
    "\<And>t. (\<And>n. n \<in> set ns \<Longrightarrow> OSFlagNodeTCB (OSFlagNodes s n) \<noteq> t) \<Longrightarrow> OSTCBTbl s1 t = OSTCBTbl s t"
    "ns = [] \<Longrightarrow> s1 = s"
    using flag_del_loop_ok [OF kernel_okD(1) [OF ok] fl hd] by metis
  define s2 where "s2 = flag_free g s1"
  define s' where "s' = (if ns = [] then s2 else OS_Sched s2)"
  have del: "OSFlagDel g OS_DEL_ALWAYS s = Some (NULL, OS_ERR_NONE, s')"
    using g ty nest L(1) some unfolding OSFlagDel_def s'_def s2_def by (simp add: Let_def)
  have s2f: "OSTCBTbl s2 = OSTCBTbl s1" "OSFlagType (OSFlagTbl s2 g) = OS_EVENT_TYPE_UNUSED" "OSFlagFreeList s2 = g"
    by (simp_all add: s2_def flag_free_def upd_flag_def)
  have same: "kernel_same s2 s1" by (simp add: s2_def flag_free_def kernel_same_def upd_flag_def rdy_map_def)
  have "events_ok s2" by (rule events_ok_cong [OF _ _ data_okD(3) [OF L(2)]]) (simp_all add: s2_def flag_free_def upd_flag_def)
  then have d2: "data_ok s2" by (rule data_ok_cong [OF L(2) same]) (simp_all add: s2_def flag_free_def upd_flag_def)
  have k': "kernel_ok s'"
  proof (cases "ns = []")
    case True
    have "sched_ok s2 = sched_ok s"
      unfolding s2_def L(7) [OF True] by (rule sched_ok_cong) (simp_all add: flag_free_def upd_flag_def rdy_map_def)
    then show ?thesis using d2 kernel_okD(4) [OF ok] True by (simp add: s'_def kernel_ok_def)
  qed (simp add: s'_def kernel_ok_Sched [OF d2])
  have res: "flag_result (OSTCBTbl s' t) = flag_result (OSTCBTbl s1 t)" for t by (simp add: s'_def s2f)
  have "OSFlagType (OSFlagTbl s' g) = OS_EVENT_TYPE_UNUSED \<and> OSFlagFreeList s' = g" by (simp add: s'_def s2f)
  moreover have "flag_result (OSTCBTbl s' (OSFlagNodeTCB (OSFlagNodes s n)))
      = (OSTCBStat (OSTCBTbl s (OSFlagNodeTCB (OSFlagNodes s n))) AND NOT OS_STAT_FLAG, OS_STAT_PEND_OK, 0, 0)"
    if "n \<in> set ns" for n unfolding res L(5) [OF that] by (simp add: flag_result_def flag_wake_def)
  moreover have "flag_result (OSTCBTbl s' t) = flag_result (OSTCBTbl s t)"
    if "\<forall>n\<in>set ns. OSFlagNodeTCB (OSFlagNodes s n) \<noteq> t" for t
    unfolding res using L(6) [of t] that by simp
  ultimately show ?thesis using del k' by blast
qed

text \<open>The caller blocks: its node becomes the head of the wait list.\<close>

lemma OS_FlagBlock_ok:
  assumes ok: "kernel_ok s" and uc: "user_code s" and lock: "OSLockNesting s = 0" and fl: "flag_list s g ns"
    and node: "n \<noteq> NULL" "n \<notin> set ns" and cur: "\<forall>m\<in>set ns. OSFlagNodeTCB (OSFlagNodes s m) \<noteq> OSTCBCur s"
    and wt: "wt \<le> 3" and s1: "s1 = OS_FlagBlock g n flags wt timeout s"
  shows "data_ok s1" and "flag_list s1 g (n # ns)" and "\<not> rdy s1 (OSPrioCur s)"
    and "OSFlagNodeTCB (OSFlagNodes s1 n) = OSTCBCur s" and "OSPrioCur s1 = OSPrioCur s"
    and "OSIntNesting s1 = 0" and "OSLockNesting s1 = 0"
proof -
  let ?p = "OSPrioCur s" and ?c = "OSTCBCur s"
  have nest: "OSIntNesting s = 0" and idle: "?p \<noteq> OS_TASK_IDLE_PRIO" and nw: "\<And>e. \<not> waits s e ?p"
    using uc by (auto simp: user_code_def)
  note inv = kernel_okD(2) [OF ok]
  have task: "is_task s ?p" and cp: "?c = OSTCBPrioTbl s ?p"
    using kernel_okD(3) [OF ok] by (auto simp: cur_ok_def)
  note p64 = task_prio_ok [OF inv task]
  have ready: "rdy s ?p" by (rule kernel_ok_cur_ready [OF ok nest lock])
  then have stat: "OSTCBStat (task_at s ?p) AND (OS_STAT_PEND_ANY OR OS_STAT_SUSPEND) = 0"
    using rdy_iff [OF inv] by (simp add: tcb_runnable_def)
  have mask: "OSTCBStat (task_at s ?p) AND NOT (OS_STAT_PEND_ANY OR OS_STAT_SUSPEND) = 0"
    and multi: "OSTCBEventMultiPtr (task_at s ?p) = None"
    using inv task by (simp_all add: kinv_def tcbs_ok_def)
  have st0: "OSTCBStat (task_at s ?p) = 0" using stat stat_within [OF mask] by simp
  define T where "T = (task_at s ?p)\<lparr>OSTCBStat := OS_STAT_FLAG, OSTCBStatPend := OS_STAT_PEND_OK,
     OSTCBDly := timeout, OSTCBFlagNode := n\<rparr>"
  let ?h = "OSFlagWaitList (OSFlagTbl s g)"
  define N where "N = (OSFlagNodes s)(n := (OSFlagNodes s n)\<lparr>OSFlagNodeFlags := flags, OSFlagNodeWaitType := wt,
     OSFlagNodeTCB := ?c, OSFlagNodeNext := ?h, OSFlagNodePrev := NULL, OSFlagNodeFlagGrp := g\<rparr>)"
  have st0': "OSTCBStat (OSTCBTbl s ?c) = 0" using st0 by (simp add: task_at_def cp)
  have s1f: "OSTCBTbl s1 = (OSTCBTbl s)(OSTCBPrioTbl s ?p := T)" "rdy_map s1 = bm_del ?p (rdy_map s)"
    "OSFlagNodes s1 = (if ?h = NULL then N else N(?h := (N ?h)\<lparr>OSFlagNodePrev := n\<rparr>))"
    "OSFlagWaitList (OSFlagTbl s1 g) = n"
    "OSTCBPrioTbl s1 = OSTCBPrioTbl s" "OSEvents s1 = OSEvents s" "OSEventFreeList s1 = OSEventFreeList s"
    "OSTCBCur s1 = ?c" "OSPrioCur s1 = ?p" "OSIntNesting s1 = 0" "OSLockNesting s1 = 0"
  proof -
    define s2 where "s2 = s\<lparr>OSTCBTbl := (OSTCBTbl s)(?c := T),
      OSFlagNodes := (if ?h = NULL then N else N(?h := (N ?h)\<lparr>OSFlagNodePrev := n\<rparr>)),
      OSFlagTbl := (OSFlagTbl s)(g := (OSFlagTbl s g)\<lparr>OSFlagWaitList := n\<rparr>)\<rparr>"
    have "s1 = tcb_unrdy ?c s2"
      by (simp add: s1 OS_FlagBlock_def s2_def N_def T_def Let_def upd_node_def upd_flag_def upd_tcb_def
          st0' task_at_def cp [symmetric])
    moreover have "tcb_unrdy ?c s2 = set_rdy_map (bm_del ?p (rdy_map s2)) s2"
      using p64 by (intro tcb_unrdy_eq) (simp add: s2_def T_def tcb_prio_ok_def)
    ultimately have e: "s1 = set_rdy_map (bm_del ?p (rdy_map s2)) s2" by simp
    have rs: "rdy_map s2 = rdy_map s" by (simp add: s2_def rdy_map_def)
    show "OSTCBTbl s1 = (OSTCBTbl s)(OSTCBPrioTbl s ?p := T)" "rdy_map s1 = bm_del ?p (rdy_map s)"
      "OSFlagNodes s1 = (if ?h = NULL then N else N(?h := (N ?h)\<lparr>OSFlagNodePrev := n\<rparr>))"
      "OSFlagWaitList (OSFlagTbl s1 g) = n"
      "OSTCBPrioTbl s1 = OSTCBPrioTbl s" "OSEvents s1 = OSEvents s" "OSEventFreeList s1 = OSEventFreeList s"
      "OSTCBCur s1 = ?c" "OSPrioCur s1 = ?p" "OSIntNesting s1 = 0" "OSLockNesting s1 = 0"
      using nest lock by (simp_all add: e rs cp) (simp_all add: s2_def cp)
  qed
  show nr: "\<not> rdy s1 ?p" using p64 by (simp add: rdy_def s1f bm_mem_del)
  have "kinv s1"
  proof (rule kinv_task_status [OF inv task s1f(5,1,6)])
    show "rdy s1 ?p = tcb_runnable T" using nr by (simp add: T_def tcb_runnable_def)
    show "tcb_prio_ok ?p T" "OSTCBEventMultiPtr T = None" "OSTCBEventPtr T = OSTCBEventPtr (task_at s ?p)"
      using p64 multi by (simp_all add: T_def tcb_prio_ok_def)
  qed (use s1f(2) nw idle in \<open>simp_all add: T_def\<close>)
  moreover have "cur_ok s1 = cur_ok s" by (rule cur_ok_cong) (simp_all add: s1f)
  moreover have "events_ok s1" by (rule events_ok_cong [OF _ _ kernel_okD(5) [OF ok]]) (simp_all add: s1f)
  ultimately show "data_ok s1" using kernel_okD [OF ok] by (simp add: data_ok_def)
  have dl: "dll (node_next (OSFlagNodes s)) (node_prev (OSFlagNodes s)) 0 ?h ns" and dtcb: "distinct (map (\<lambda>n. OSFlagNodeTCB (OSFlagNodes s n)) ns)"
    and all: "\<And>m. m \<in> set ns \<Longrightarrow> node_ok s g m"
    using fl by (auto simp: flag_list_def)
  have dist: "distinct ns" using dtcb by (simp add: distinct_map)
  have h: "?h = (if ns = [] then 0 else hd ns)" by (rule dll_hd [OF dl])
  have hn: "?h \<noteq> n" using h node by (cases ns) auto
  have data: "OSFlagNodeTCB (OSFlagNodes s1 m) = OSFlagNodeTCB (N m)" "OSFlagNodeFlagGrp (OSFlagNodes s1 m) = OSFlagNodeFlagGrp (N m)"
    "OSFlagNodeWaitType (OSFlagNodes s1 m) = OSFlagNodeWaitType (N m)" "OSFlagNodeNext (OSFlagNodes s1 m) = OSFlagNodeNext (N m)" for m
    by (simp_all add: s1f(3))
  show "OSFlagNodeTCB (OSFlagNodes s1 n) = ?c" by (simp add: data N_def)
  show "OSPrioCur s1 = OSPrioCur s" "OSIntNesting s1 = 0" "OSLockNesting s1 = 0" by (simp_all add: s1f)
  have dl': "dll (node_next (OSFlagNodes s1)) (node_prev (OSFlagNodes s1)) 0 (OSFlagWaitList (OSFlagTbl s1 g)) (n # ns)"
    unfolding s1f(4)
  proof (rule dll_push [OF dl node dist])
    show "OSFlagNodeNext (OSFlagNodes s1 n) = ?h" "OSFlagNodePrev (OSFlagNodes s1 n) = 0"
      using hn by (simp_all add: s1f(3) N_def)
    fix x assume "x \<in> set ns"
    moreover have "0 \<notin> set ns" by (rule dll_nonzero [OF dl])
    ultimately have "x \<noteq> n" "x \<noteq> 0" using node by metis+
    then show "OSFlagNodeNext (OSFlagNodes s1 x) = OSFlagNodeNext (OSFlagNodes s x)"
      "OSFlagNodePrev (OSFlagNodes s1 x) = (if x = ?h then n else OSFlagNodePrev (OSFlagNodes s x))"
      by (auto simp: s1f(3) N_def)
  qed
  have Nm: "N m = OSFlagNodes s m" if "m \<in> set ns" for m using that node by (auto simp: N_def)
  have tasks: "is_task s1 q = is_task s q" "waits s1 e q = waits s e q" for e q
    by (simp_all add: is_task_def waits_def s1f)
  have "node_ok s1 g m" if m: "m \<in> set ns" for m
  proof -
    obtain q where q: "is_task s q" "q \<noteq> OS_TASK_IDLE_PRIO" "OSFlagNodeTCB (OSFlagNodes s m) = OSTCBPrioTbl s q"
      "OSTCBStat (task_at s q) AND OS_STAT_PEND_ANY \<in> {0, OS_STAT_FLAG}" "\<And>e. \<not> waits s e q"
      using all [OF m] by (auto simp: node_ok_def)
    have "OSTCBPrioTbl s q \<noteq> OSTCBPrioTbl s ?p" using cur m q(3) by (auto simp: cp)
    then have "task_at s1 q = task_at s q" by (simp add: task_at_def s1f)
    then show ?thesis using all [OF m] q unfolding node_ok_def data Nm [OF m] tasks s1f(5) by auto
  qed
  moreover have "node_ok s1 g n"
    unfolding node_ok_def data tasks s1f(5)
    using task idle nw wt by (auto simp: N_def cp task_at_def s1f T_def intro!: exI [of _ ?p])
  moreover have "distinct (map (\<lambda>m. OSFlagNodeTCB (OSFlagNodes s1 m)) (n # ns))"
  proof -
    have eq: "OSFlagNodeTCB (OSFlagNodes s1 m) = OSFlagNodeTCB (OSFlagNodes s m)" if "m \<in> set ns" for m
      using that by (simp add: data Nm)
    have m: "map (\<lambda>m. OSFlagNodeTCB (OSFlagNodes s1 m)) ns = map (\<lambda>m. OSFlagNodeTCB (OSFlagNodes s m)) ns"
      by (rule map_cong [OF refl eq])
    have "OSFlagNodeTCB (OSFlagNodes s1 n) = ?c" by (simp add: data N_def)
    then show ?thesis unfolding list.map distinct.simps m using dtcb cur by auto
  qed
  ultimately show "flag_list s1 g (n # ns)" using dl' by (simp add: flag_list_def)
qed


lemma flag_wait_type_le: "flag_test wt cur flags = Some r \<Longrightarrow> wt \<le> 3"
  by (auto simp: flag_test_def split: if_splits)

lemma OSFlagPend_ok:
  assumes ok: "kernel_ok s" and uc: "user_code s" and lock: "OSLockNesting s = 0"
    and fl: "flag_list s g ns" and g: "g \<noteq> NULL" and ty: "OSFlagType (OSFlagTbl s g) = OS_EVENT_TYPE_FLAG"
    and node: "n \<noteq> NULL" "n \<notin> set ns" and cur: "\<forall>m\<in>set ns. OSFlagNodeTCB (OSFlagNodes s m) \<noteq> OSTCBCur s"
    and nr: "flag_test (fst (flag_type wait_type)) (OSFlagFlags (OSFlagTbl s g)) flags = Some (False, b)"
    and r: "OSFlagPend g flags wait_type timeout n s = (r, s')"
  shows "r = None" and "kernel_ok s'" and "flag_list s' g (n # ns)"
    and "\<not> rdy s' (OSPrioCur s)" and "OSPrioCur s' \<noteq> OSPrioCur s" and "OSFlagTbl s' = OSFlagTbl (OS_FlagBlock g n flags (fst (flag_type wait_type)) timeout s)"
proof -
  obtain wt c where wc: "flag_type wait_type = (wt, c)" by fastforce
  have wt: "wt \<le> 3" using flag_wait_type_le nr wc by fastforce
  let ?s1 = "OS_FlagBlock g n flags wt timeout s"
  note B = OS_FlagBlock_ok [OF ok uc lock fl node cur wt refl]
  have e: "r = None" "s' = OS_Sched ?s1"
    using r g ty lock uc nr by (simp_all add: OSFlagPend_def user_code_def wc)
  have k: "kernel_ok s'" unfolding e by (rule kernel_ok_Sched [OF B(1)])
  have nr': "\<not> rdy s' (OSPrioCur s)" unfolding e using B(3) by simp
  have "rdy s' (OSPrioCur s')" by (rule kernel_ok_cur_ready [OF k]) (simp_all add: e B)
  then show "OSPrioCur s' \<noteq> OSPrioCur s" using nr' by metis
  show "flag_list s' g (n # ns)" using B(2) flag_list_cong [of s' ?s1 g "n # ns"] by (simp add: e)
  show "r = None" "kernel_ok s'" "\<not> rdy s' (OSPrioCur s)" by (fact e k nr')+
  show "OSFlagTbl s' = OSFlagTbl (OS_FlagBlock g n flags (fst (flag_type wait_type)) timeout s)" by (simp add: e wc)
qed

lemma OS_FlagBlock_flags: "OSFlagFlags (OSFlagTbl (OS_FlagBlock g n flags wt timeout s) h) = OSFlagFlags (OSFlagTbl s h)"
  "OSFlagType (OSFlagTbl (OS_FlagBlock g n flags wt timeout s) h) = OSFlagType (OSFlagTbl s h)"
  by (simp_all add: OS_FlagBlock_def Let_def upd_flag_def upd_node_def tcb_unrdy_def)

text \<open>
  C17 A wait whose condition does not hold blocks the caller: its node becomes the first of the list, in
  front of the nodes that were there, the flags stay as they are, and another task runs.
\<close>

theorem OSFlagPend_correct:
  assumes "kernel_ok s" and "user_code s" and "OSLockNesting s = 0" and "flag_list s g ns" and "g \<noteq> NULL"
    and "OSFlagType (OSFlagTbl s g) = OS_EVENT_TYPE_FLAG" and "n \<noteq> NULL" and "n \<notin> set ns"
    and "\<forall>m\<in>set ns. OSFlagNodeTCB (OSFlagNodes s m) \<noteq> OSTCBCur s"
    and "flag_test (fst (flag_type wait_type)) (OSFlagFlags (OSFlagTbl s g)) flags = Some (False, b)"
  shows "\<exists>s'. OSFlagPend g flags wait_type timeout n s = (None, s') \<and> kernel_ok s' \<and> flag_list s' g (n # ns)
    \<and> OSFlagFlags (OSFlagTbl s' g) = OSFlagFlags (OSFlagTbl s g)
    \<and> \<not> rdy s' (OSPrioCur s) \<and> OSPrioCur s' \<noteq> OSPrioCur s"
proof -
  obtain r s' where r: "OSFlagPend g flags wait_type timeout n s = (r, s')" by fastforce
  note P = OSFlagPend_ok [OF assms r]
  show ?thesis using P r by (auto simp: OS_FlagBlock_flags)
qed

text \<open>
  A waiter that runs again after its timeout (or after an abort) takes its node out of the list,
  wherever it is, and gets the error; the other waiters keep their places.
\<close>

lemma OSFlagPend_resume_correct:
  assumes ok: "kernel_ok s" and nest: "OSIntNesting s = 0" and lock: "OSLockNesting s = 0"
    and fl: "flag_list s g (as @ n # bs)" and cur: "OSFlagNodeTCB (OSFlagNodes s n) = OSTCBCur s"
    and st: "OSTCBStatPend (OSTCBTbl s (OSTCBCur s)) \<noteq> OS_STAT_PEND_OK"
  shows "\<exists>s'. OSFlagPend_resume g wait_type n s = (0,
      if OSTCBStatPend (OSTCBTbl s (OSTCBCur s)) = OS_STAT_PEND_ABORT then OS_ERR_PEND_ABORT else OS_ERR_TIMEOUT, s')
    \<and> kernel_ok s' \<and> flag_list s' g (as @ bs) \<and> OSFlagFlags (OSFlagTbl s' g) = OSFlagFlags (OSFlagTbl s g)
    \<and> OSTCBStatPend (OSTCBTbl s' (OSTCBCur s)) = OS_STAT_PEND_OK"
proof -
  let ?p = "OSPrioCur s" and ?c = "OSTCBCur s" and ?N = "OSFlagNodes s"
  note inv = kernel_okD(2) [OF ok]
  have task: "is_task s ?p" and cp: "?c = OSTCBPrioTbl s ?p"
    using kernel_okD(3) [OF ok] by (auto simp: cur_ok_def)
  note p64 = task_prio_ok [OF inv task]
  have ready: "rdy s ?p" by (rule kernel_ok_cur_ready [OF ok nest lock])
  then have stat: "OSTCBStat (task_at s ?p) AND (OS_STAT_PEND_ANY OR OS_STAT_SUSPEND) = 0"
    and run: "tcb_runnable (task_at s ?p)"
    using rdy_iff [OF inv] by (simp_all add: tcb_runnable_def)
  have mask: "OSTCBStat (task_at s ?p) AND NOT (OS_STAT_PEND_ANY OR OS_STAT_SUSPEND) = 0"
    and multi: "OSTCBEventMultiPtr (task_at s ?p) = None"
    using inv task by (simp_all add: kinv_def tcbs_ok_def)
  have st0: "OSTCBStat (task_at s ?p) = 0" using stat stat_within [OF mask] by simp
  have dl: "dll (node_next ?N) (node_prev ?N) 0 (OSFlagWaitList (OSFlagTbl s g)) (as @ n # bs)"
    and dtcb: "distinct (map (\<lambda>n. OSFlagNodeTCB (?N n)) (as @ n # bs))"
    and all: "\<And>m. m \<in> set (as @ n # bs) \<Longrightarrow> node_ok s g m"
    using fl by (auto simp: flag_list_def)
  have grp: "OSFlagNodeFlagGrp (?N n) = g" and nw: "\<And>e. \<not> waits s e ?p" and idle: "?p \<noteq> OS_TASK_IDLE_PRIO"
    using all [of n] cur cp task task_inj [OF inv] unfolding node_ok_def by auto
  define T where "T = (task_at s ?p)\<lparr>OSTCBStatPend := OS_STAT_PEND_OK, OSTCBFlagNode := NULL, OSTCBStat := OS_STAT_RDY\<rparr>"
  obtain e s' where r: "OSFlagPend_resume g wait_type n s = (0, e, s')" "e =
      (if OSTCBStatPend (OSTCBTbl s ?c) = OS_STAT_PEND_ABORT then OS_ERR_PEND_ABORT else OS_ERR_TIMEOUT)"
    and s': "s' = upd_tcb ?c (\<lambda>t. t\<lparr>OSTCBStat := OS_STAT_RDY\<rparr>) (OS_FlagUnlink n (upd_tcb ?c (\<lambda>t. t\<lparr>OSTCBStatPend := OS_STAT_PEND_OK\<rparr>) s))"
    using st by (auto simp: OSFlagPend_resume_def Let_def split: prod.splits)
  have f: "OSTCBTbl s' = (OSTCBTbl s)(OSTCBPrioTbl s ?p := T)" "rdy_map s' = rdy_map s"
    "OSTCBPrioTbl s' = OSTCBPrioTbl s" "OSEvents s' = OSEvents s" "OSEventFreeList s' = OSEventFreeList s"
    "OSTCBCur s' = ?c" "OSPrioCur s' = ?p" "OSIntNesting s' = OSIntNesting s" "OSLockNesting s' = OSLockNesting s"
    "OSFlagNodes s' = unlink_nodes n ?N" "OSFlagFlags (OSFlagTbl s' g) = OSFlagFlags (OSFlagTbl s g)"
    "OSFlagWaitList (OSFlagTbl s' g) = (if OSFlagNodePrev (?N n) = NULL then OSFlagNodeNext (?N n)
        else OSFlagWaitList (OSFlagTbl s g))"
    by (simp_all add: s' OS_FlagUnlink_eq cur grp rdy_map_def)
      (simp_all add: T_def upd_tcb_def task_at_def cp [symmetric])
  have rdyp: "rdy s' q = rdy s q" "is_task s' q = is_task s q" "waits s' e q = waits s e q" for q e
    by (simp_all add: rdy_def is_task_def waits_def f)
  have "kinv s'"
  proof (rule kinv_task_status [OF inv task f(3,1,4)])
    show "rdy s' ?p = tcb_runnable T" using ready run st0 by (simp add: rdyp T_def tcb_runnable_def)
    show "tcb_prio_ok ?p T" "OSTCBEventMultiPtr T = None" "OSTCBEventPtr T = OSTCBEventPtr (task_at s ?p)"
      using p64 multi by (simp_all add: T_def tcb_prio_ok_def)
  qed (use f(2) nw idle in \<open>simp_all add: T_def\<close>)
  moreover have "cur_ok s' = cur_ok s" by (rule cur_ok_cong) (simp_all add: f)
  moreover have "events_ok s'" by (rule events_ok_cong [OF _ _ kernel_okD(5) [OF ok]]) (simp_all add: f)
  moreover have "sched_ok s' = sched_ok s" by (rule sched_ok_cong) (simp_all add: f)
  ultimately have k: "kernel_ok s'" using kernel_okD [OF ok] by (simp add: kernel_ok_def data_ok_def)
  have node: "node_ok s' g m" if m: "m \<in> set (as @ bs)" for m
  proof -
    have mok: "node_ok s g m" using all m by simp
    obtain q where q: "is_task s q" "q \<noteq> OS_TASK_IDLE_PRIO" "OSFlagNodeTCB (?N m) = OSTCBPrioTbl s q"
      "OSTCBStat (task_at s q) AND OS_STAT_PEND_ANY \<in> {0, OS_STAT_FLAG}" "\<And>e. \<not> waits s e q"
      using mok by (auto simp: node_ok_def)
    have "OSTCBPrioTbl s q \<noteq> OSTCBPrioTbl s ?p" using dtcb m cur q(3) by (auto simp: cp image_iff)
    then have "task_at s' q = task_at s q" by (simp add: task_at_def f)
    then show ?thesis using mok q unfolding node_ok_def rdyp f(3,10) unlink_data by auto
  qed
  have "distinct (as @ n # bs)" using dtcb by (simp only: distinct_map)
  note dll' = dll_unlink [OF dl this]
  have "flag_list s' g (as @ bs)"
    unfolding flag_list_def f(10,12) unlink_data unlink_nodes_links using dll' dtcb node by simp
  moreover have "OSTCBStatPend (OSTCBTbl s' ?c) = OS_STAT_PEND_OK" by (simp add: f T_def cp)
  ultimately show ?thesis using r k f(11) by simp
qed


text \<open>A group with no flag set, on which task 4 waits for the flags 0 and 1 with the node 7.\<close>

definition ex_flag_state :: os_state where
  "ex_flag_state = upd_flag 2 (\<lambda>g. g\<lparr>OSFlagType := OS_EVENT_TYPE_FLAG\<rparr>) (ex_state 0)"

definition ex_flag_wait :: os_state where
  "ex_flag_wait = snd (OSFlagPend 2 3 OS_FLAG_WAIT_SET_ALL 20 7 ex_flag_state)"

lemma ex_flag_ok: "kernel_ok ex_flag_state" "user_code ex_flag_state" "OSLockNesting ex_flag_state = 0"
    "OSIntNesting ex_flag_state = 0" "OSPrioCur ex_flag_state = 4" "OSTCBCur ex_flag_state = 3"
    "flag_list ex_flag_state 2 []" "OSFlagType (OSFlagTbl ex_flag_state 2) = OS_EVENT_TYPE_FLAG"
    "OSFlagFlags (OSFlagTbl ex_flag_state 2) = 0"
proof -
  show "kernel_ok ex_flag_state" unfolding ex_flag_state_def by (rule upd_flag_ok [OF ex_kernel_ok])
  have "user_code ex_flag_state = user_code (ex_state 0)"
    by (simp add: ex_flag_state_def upd_flag_def user_code_def waits_def)
  then show "user_code ex_flag_state" using ex_user_code by simp
qed (simp_all add: ex_flag_state_def upd_flag_def ex_state_simps flag_list_def)

lemma ex_flag_test: "flag_test (fst (flag_type OS_FLAG_WAIT_SET_ALL)) (OSFlagFlags (OSFlagTbl ex_flag_state 2)) 3 = Some (False, 0)"
  by (simp add: ex_flag_ok flag_type_def flag_test_def)

lemma ex_flag_wait_ok:
  "kernel_ok ex_flag_wait" "flag_list ex_flag_wait 2 [7]" "\<not> rdy ex_flag_wait 4"
  "OSFlagType (OSFlagTbl ex_flag_wait 2) = OS_EVENT_TYPE_FLAG" "OSFlagFlags (OSFlagTbl ex_flag_wait 2) = 0"
proof -
  obtain r s' where r: "OSFlagPend 2 3 OS_FLAG_WAIT_SET_ALL 20 7 ex_flag_state = (r, s')" by fastforce
  have w: "ex_flag_wait = s'" by (simp add: ex_flag_wait_def r)
  note P = OSFlagPend_ok [OF ex_flag_ok(1,2,3,7) _ ex_flag_ok(8) _ _ _ ex_flag_test r]
  show "kernel_ok ex_flag_wait" "flag_list ex_flag_wait 2 [7]" "\<not> rdy ex_flag_wait 4"
    using P(2,3,4) by (simp_all add: w ex_flag_ok)
  have t: "OSFlagTbl ex_flag_wait = OSFlagTbl (OS_FlagBlock 2 7 3 (fst (flag_type OS_FLAG_WAIT_SET_ALL)) 20 ex_flag_state)"
    using P(6) by (simp add: w ex_flag_ok)
  show "OSFlagType (OSFlagTbl ex_flag_wait 2) = OS_EVENT_TYPE_FLAG" "OSFlagFlags (OSFlagTbl ex_flag_wait 2) = 0"
    unfolding t OS_FlagBlock_flags ex_flag_ok by simp_all
qed

lemma ex_flag_wait_node:
  "OSFlagNodeWaitType (OSFlagNodes ex_flag_wait 7) = OS_FLAG_WAIT_SET_ALL"
  "OSFlagNodeFlags (OSFlagNodes ex_flag_wait 7) = 3" "OSFlagNodeTCB (OSFlagNodes ex_flag_wait 7) = 3"
  "OSIntNesting ex_flag_wait = 0"
  by (simp_all add: ex_flag_wait_def OSFlagPend_def ex_flag_ok flag_type_def flag_test_def OS_FlagBlock_def Let_def
      upd_node_def upd_flag_def tcb_unrdy_def)

theorem OSFlagPend_correct_witness:
  "\<exists>s'. OSFlagPend 2 3 OS_FLAG_WAIT_SET_ALL 20 7 ex_flag_state = (None, s') \<and> flag_list s' 2 [7] \<and> \<not> rdy s' 4"
  using OSFlagPend_correct [OF ex_flag_ok(1,2,3,7) _ ex_flag_ok(8) _ _ _ ex_flag_test, of 7 20] ex_flag_ok(5)
  by auto

theorem OSFlagPost_correct_witness:
  "\<exists>s'. OSFlagPost 2 3 OS_FLAG_SET ex_flag_wait = Some (None, s') \<and> flag_list s' 2 [] \<and> kernel_ok s'
     \<and> OSTCBFlagsRdy (OSTCBTbl s' 3) = 3"
proof -
  have sat: "flag_sat (flag_posted 2 3 OS_FLAG_SET ex_flag_wait) 2 7" "flag_bits (flag_posted 2 3 OS_FLAG_SET ex_flag_wait) 2 7 = 3"
    by (simp_all add: flag_sat_def flag_bits_def flag_posted_def upd_flag_def flag_test_def ex_flag_wait_node ex_flag_wait_ok)
  then show ?thesis
    using OSFlagPost_correct [OF ex_flag_wait_ok(1,2) _ ex_flag_wait_ok(4), of OS_FLAG_SET _ 3, OF _ _ refl]
    by (auto simp: ex_flag_wait_node flag_result_def)
qed

lemma OSFlagDel_correct_example:
  "\<exists>s'. OSFlagDel 2 OS_DEL_ALWAYS ex_flag_wait = Some (NULL, OS_ERR_NONE, s') \<and> kernel_ok s'
     \<and> OSTCBStatPend (OSTCBTbl s' 3) = OS_STAT_PEND_OK"
  using OSFlagDel_correct [OF ex_flag_wait_ok(1,2) _ ex_flag_wait_node(4) ex_flag_wait_ok(4)]
  by (auto simp: ex_flag_wait_node flag_result_def)


text \<open>The status of a pend is not read by the invariant unless the task is in a wait list.\<close>

lemma kernel_ok_statpend:
  assumes ok: "kernel_ok s" and task: "is_task s p" and nw: "\<And>e. \<not> waits s e p"
  shows "kernel_ok (upd_tcb (OSTCBPrioTbl s p) (\<lambda>t. t\<lparr>OSTCBStatPend := v\<rparr>) s)" (is "kernel_ok ?s'")
proof -
  note inv = kernel_okD(2) [OF ok]
  note p64 = task_prio_ok [OF inv task]
  have t: "OSTCBEventMultiPtr (task_at s p) = None" "OSTCBStat (task_at s p) AND NOT (OS_STAT_PEND_ANY OR OS_STAT_SUSPEND) = 0"
    using inv task by (simp_all add: kinv_def tcbs_ok_def)
  have run: "tcb_runnable ((task_at s p)\<lparr>OSTCBStatPend := v\<rparr>) = tcb_runnable (task_at s p)"
    by (simp add: tcb_runnable_def)
  have rm: "rdy_map ?s' = rdy_map s" by simp
  have "kinv ?s'"
  proof (rule kinv_task_status [OF inv task, where T = "(task_at s p)\<lparr>OSTCBStatPend := v\<rparr>"])
    show "rdy ?s' p = tcb_runnable ((task_at s p)\<lparr>OSTCBStatPend := v\<rparr>)"
      unfolding run rdy_def rm using rdy_iff [OF inv, of p] task by (simp add: rdy_def)
    show "tcb_runnable ((task_at s p)\<lparr>OSTCBStatPend := v\<rparr>)" if "p = OS_TASK_IDLE_PRIO"
      unfolding run using rdy_iff [OF inv, of p] inv that by (simp add: kinv_def)
  qed (use p64 t nw rm in \<open>simp_all add: upd_tcb_def task_at_def tcb_prio_ok_def\<close>)
  moreover have "cur_ok ?s' = cur_ok s" by (rule cur_ok_cong) simp_all
  moreover have "events_ok ?s'" by (rule events_ok_cong [OF _ _ kernel_okD(5) [OF ok]]) simp_all
  moreover have "sched_ok ?s' = sched_ok s" by (rule sched_ok_cong) simp_all
  ultimately show ?thesis using kernel_okD [OF ok] by (simp add: kernel_ok_def data_ok_def)
qed

lemma OSFlagPend_resume_correct_example:
  "\<exists>s s'. OSFlagPend_resume 2 OS_FLAG_WAIT_SET_ALL 7 s = (0, OS_ERR_TIMEOUT, s') \<and> kernel_ok s' \<and> flag_list s' 2 []"
proof -
  define s0 where "s0 = upd_tcb (OSTCBPrioTbl (ex_state 0) 4) (\<lambda>t. t\<lparr>OSTCBStatPend := OS_STAT_PEND_TO\<rparr>) (ex_state 0)"
  define s1 where "s1 = s0\<lparr>OSFlagNodes := (OSFlagNodes s0)(7 := (OSFlagNodes s0 7)\<lparr>OSFlagNodeTCB := 3, OSFlagNodeFlagGrp := 2\<rparr>)\<rparr>"
  define s where "s = upd_flag 2 (\<lambda>g. g\<lparr>OSFlagType := OS_EVENT_TYPE_FLAG, OSFlagWaitList := 7\<rparr>) s1"
  have k0: "kernel_ok s0"
    unfolding s0_def by (rule kernel_ok_statpend [OF ex_kernel_ok]) (simp_all add: ex_tasks ex_waits)
  have "kernel_same s1 s0" by (simp add: s1_def kernel_same_def rdy_map_def)
  moreover have "events_ok s1" by (rule events_ok_cong [OF _ _ kernel_okD(5) [OF k0]]) (simp_all add: s1_def)
  ultimately have "kernel_ok s1" by (rule kernel_ok_cong [OF k0]) (simp_all add: s1_def)
  then have k: "kernel_ok s" unfolding s_def by (rule upd_flag_ok)
  have f: "OSIntNesting s = 0" "OSLockNesting s = 0" "OSTCBCur s = 3" "OSFlagNodeTCB (OSFlagNodes s 7) = 3"
    "OSTCBStatPend (OSTCBTbl s 3) = OS_STAT_PEND_TO" "OSTCBPrioTbl s 4 = 3" "OSTCBStat (OSTCBTbl s 3) = 0"
    by (simp_all add: s_def s1_def s0_def upd_flag_def ex_state_simps)
  have "is_task s 4 = is_task (ex_state 0) 4" "waits s e 4 = waits (ex_state 0) e 4" for e
    by (simp_all add: s_def s1_def s0_def upd_flag_def is_task_def waits_def)
  then have w: "is_task s 4" "\<not> waits s e 4" for e by (simp_all add: ex_tasks ex_waits)
  have "node_ok s 2 7"
    unfolding node_ok_def using w f by (auto simp: task_at_def intro!: exI [of _ 4])
      (simp_all add: s_def s1_def s0_def upd_flag_def ex_state_simps)
  then have "flag_list s 2 ([] @ 7 # [])"
    by (simp add: flag_list_def) (simp add: s_def s1_def s0_def upd_flag_def ex_state_simps)
  then show ?thesis using OSFlagPend_resume_correct [OF k f(1,2)] f by fastforce
qed

end
