(* ===== verification/OS_Time.thy ===== *)
theory OS_Time
  imports OS_Sem
begin

text \<open>
  Time (\<open>os_time.c\<close>, \<open>OSTimeTick\<close> of \<open>os_core.c\<close>, and the tick hook and the \<open>SysTick\<close> handler
  of the port).  The tick walks the list of task control blocks up to the idle task; it is
  modelled as a loop that may not end (\<open>None\<close>), and shown to end when the list is well formed.
\<close>

subsection \<open>Delays\<close>

definition OSTimeDly :: "INT32U \<Rightarrow> os_state \<Rightarrow> os_state" where
  "OSTimeDly ticks s =
     (if OSIntNesting s > 0 then s
      else if OSLockNesting s > 0 then s
      else if ticks > 0
      then (let s1 = tcb_unrdy (OSTCBCur s) s;
                s2 = upd_tcb (OSTCBCur s) (\<lambda>t. t\<lparr>OSTCBDly := ticks\<rparr>) s1
            in OS_Sched s2)
      else s)"

definition hmsm_ticks :: "INT8U \<Rightarrow> INT8U \<Rightarrow> INT8U \<Rightarrow> INT16U \<Rightarrow> INT32U" where
  "hmsm_ticks hours minutes seconds ms =
     (ucast hours * 3600 + ucast minutes * 60 + ucast seconds) * OS_TICKS_PER_SEC
       + OS_TICKS_PER_SEC * (ucast ms + 500 div OS_TICKS_PER_SEC) div 1000"

definition OSTimeDlyHMSM :: "INT8U \<Rightarrow> INT8U \<Rightarrow> INT8U \<Rightarrow> INT16U \<Rightarrow> os_state \<Rightarrow> INT8U \<times> os_state" where
  "OSTimeDlyHMSM hours minutes seconds ms s =
     (if OSIntNesting s > 0 then (OS_ERR_TIME_DLY_ISR, s)
      else if OSLockNesting s > 0 then (OS_ERR_SCHED_LOCKED, s)
      else if hours = 0 \<and> minutes = 0 \<and> seconds = 0 \<and> ms = 0 then (OS_ERR_TIME_ZERO_DLY, s)
      else if minutes > 59 then (OS_ERR_TIME_INVALID_MINUTES, s)
      else if seconds > 59 then (OS_ERR_TIME_INVALID_SECONDS, s)
      else if ms > 999 then (OS_ERR_TIME_INVALID_MS, s)
      else (OS_ERR_NONE, OSTimeDly (hmsm_ticks hours minutes seconds ms) s))"

text \<open>The end of a delay: a pending wait times out; a task that is not suspended becomes ready.\<close>

definition dly_expire :: "ptr \<Rightarrow> os_state \<Rightarrow> os_state" where
  "dly_expire ptcb s =
     (let s1 = (if OSTCBStat (OSTCBTbl s ptcb) AND OS_STAT_PEND_ANY \<noteq> OS_STAT_RDY
                then upd_tcb ptcb (\<lambda>t. t\<lparr>OSTCBStat := OSTCBStat t AND NOT OS_STAT_PEND_ANY,
                       OSTCBStatPend := OS_STAT_PEND_TO\<rparr>) s
                else upd_tcb ptcb (\<lambda>t. t\<lparr>OSTCBStatPend := OS_STAT_PEND_OK\<rparr>) s)
      in if OSTCBStat (OSTCBTbl s1 ptcb) AND OS_STAT_SUSPEND = OS_STAT_RDY then tcb_rdy ptcb s1 else s1)"

definition OSTimeDlyResume :: "nat \<Rightarrow> os_state \<Rightarrow> INT8U \<times> os_state" where
  "OSTimeDlyResume prio s =
     (if prio \<ge> OS_LOWEST_PRIO then (OS_ERR_PRIO_INVALID, s)
      else (let ptcb = OSTCBPrioTbl s prio
            in if ptcb = NULL then (OS_ERR_TASK_NOT_EXIST, s)
               else if ptcb = OS_TCB_RESERVED then (OS_ERR_TASK_NOT_EXIST, s)
               else if OSTCBDly (OSTCBTbl s ptcb) = 0 then (OS_ERR_TIME_NOT_DLY, s)
               else (let s1 = dly_expire ptcb (upd_tcb ptcb (\<lambda>t. t\<lparr>OSTCBDly := 0\<rparr>) s)
                     in (OS_ERR_NONE,
                         if OSTCBStat (OSTCBTbl s1 ptcb) AND OS_STAT_SUSPEND = OS_STAT_RDY
                         then OS_Sched s1 else s1))))"

definition OSTimeGet :: "os_state \<Rightarrow> INT32U" where
  "OSTimeGet s = OSTime s"

definition OSTimeSet :: "INT32U \<Rightarrow> os_state \<Rightarrow> os_state" where
  "OSTimeSet ticks s = s\<lparr>OSTime := ticks\<rparr>"

subsection \<open>The tick\<close>

definition OSTmrSignal :: "os_state \<Rightarrow> INT8U \<times> os_state" where
  "OSTmrSignal s = OSSemPost (OSTmrSemSignal s) s"

abbreviation (input) OS_TMR_CFG_TICKS_PER_SEC :: INT16U where "OS_TMR_CFG_TICKS_PER_SEC \<equiv> 100"

definition OSTimeTickHook :: "os_state \<Rightarrow> os_state" where
  "OSTimeTickHook s =
     (let s1 = s\<lparr>OSTmrCtr := OSTmrCtr s + 1\<rparr>
      in if OSTmrCtr s1 \<ge> 100 div OS_TMR_CFG_TICKS_PER_SEC
         then snd (OSTmrSignal (s1\<lparr>OSTmrCtr := 0\<rparr>)) else s1)"

definition tick_tcb :: "ptr \<Rightarrow> os_state \<Rightarrow> os_state" where
  "tick_tcb ptcb s =
     (if OSTCBDly (OSTCBTbl s ptcb) \<noteq> 0
      then (let s1 = upd_tcb ptcb (\<lambda>t. t\<lparr>OSTCBDly := OSTCBDly t - 1\<rparr>) s
            in if OSTCBDly (OSTCBTbl s1 ptcb) = 0 then dly_expire ptcb s1 else s1)
      else s)"

partial_function (option) tick_loop :: "ptr \<Rightarrow> os_state \<Rightarrow> os_state option" where
  "tick_loop ptcb s =
     (if OSTCBPrio (OSTCBTbl s ptcb) \<noteq> OS_TASK_IDLE_PRIO
      then tick_loop (OSTCBNext (OSTCBTbl (tick_tcb ptcb s) ptcb)) (tick_tcb ptcb s)
      else Some s)"

definition OSTimeTick :: "os_state \<Rightarrow> os_state option" where
  "OSTimeTick s =
     (let s1 = OSTimeTickHook s;
          s2 = s1\<lparr>OSTime := OSTime s1 + 1\<rparr>
      in if OSRunning s2 then
           (let (step, s3) =
                  (if OSTickStepState s2 = OS_TICK_STEP_DIS then (True, s2)
                   else if OSTickStepState s2 = OS_TICK_STEP_WAIT then (False, s2)
                   else if OSTickStepState s2 = OS_TICK_STEP_ONCE
                   then (True, s2\<lparr>OSTickStepState := OS_TICK_STEP_WAIT\<rparr>)
                   else (True, s2\<lparr>OSTickStepState := OS_TICK_STEP_DIS\<rparr>))
            in if \<not> step then Some s3 else tick_loop (OSTCBList s3) s3)
         else Some s2)"

definition SysTick_Handler :: "os_state \<Rightarrow> os_state option" where
  "SysTick_Handler s =
     (case OSTimeTick (OSIntEnter s) of None \<Rightarrow> None | Some s1 \<Rightarrow> Some (OSIntExit s1))"

subsection \<open>One task and one tick\<close>

definition tcb_expire :: "OS_TCB \<Rightarrow> OS_TCB" where
  "tcb_expire t = (if OSTCBStat t AND OS_STAT_PEND_ANY \<noteq> 0
     then t\<lparr>OSTCBDly := 0, OSTCBStat := OSTCBStat t AND NOT OS_STAT_PEND_ANY, OSTCBStatPend := OS_STAT_PEND_TO\<rparr>
     else t\<lparr>OSTCBDly := 0, OSTCBStatPend := OS_STAT_PEND_OK\<rparr>)"

definition tcb_tick :: "OS_TCB \<Rightarrow> OS_TCB" where
  "tcb_tick t = (if OSTCBDly t = 0 then t else if OSTCBDly t = 1 then tcb_expire t
     else t\<lparr>OSTCBDly := OSTCBDly t - 1\<rparr>)"

lemma tcb_expire_simps [simp]:
  "OSTCBPrio (tcb_expire t) = OSTCBPrio t" "OSTCBNext (tcb_expire t) = OSTCBNext t"
  "OSTCBEventPtr (tcb_expire t) = OSTCBEventPtr t" "OSTCBEventMultiPtr (tcb_expire t) = OSTCBEventMultiPtr t"
  "tcb_prio_ok p (tcb_expire t) = tcb_prio_ok p t" "OSTCBDly (tcb_expire t) = 0"
  by (simp_all add: tcb_expire_def tcb_prio_ok_def)

lemma tcb_tick_simps [simp]:
  "OSTCBPrio (tcb_tick t) = OSTCBPrio t" "OSTCBNext (tcb_tick t) = OSTCBNext t"
  "OSTCBEventPtr (tcb_tick t) = OSTCBEventPtr t" "OSTCBEventMultiPtr (tcb_tick t) = OSTCBEventMultiPtr t"
  "tcb_prio_ok p (tcb_tick t) = tcb_prio_ok p t"
  by (simp_all add: tcb_tick_def tcb_prio_ok_def tcb_expire_def)

lemma tcb_expire_stat:
  "OSTCBStat (tcb_expire t) = OSTCBStat t AND NOT OS_STAT_PEND_ANY"
proof -
  have "x AND k = 0 \<Longrightarrow> x AND NOT k = x" for x k :: "8 word"
    by (metis and.right_neutral bit.conj_disj_distrib bit.disj_cancel_right or.left_neutral)
  from this [of "OSTCBStat t" OS_STAT_PEND_ANY] show ?thesis by (simp add: tcb_expire_def)
qed

lemma tcb_expire_delay_0:
  "OSTCBDly t = 0 \<Longrightarrow> tcb_expire t = (if OSTCBStat t AND OS_STAT_PEND_ANY \<noteq> OS_STAT_RDY
     then t\<lparr>OSTCBStat := OSTCBStat t AND NOT OS_STAT_PEND_ANY, OSTCBStatPend := OS_STAT_PEND_TO\<rparr>
     else t\<lparr>OSTCBStatPend := OS_STAT_PEND_OK\<rparr>)"
  by (cases t) (simp add: tcb_expire_def)

lemma tcb_expire_runnable:
  "tcb_runnable (tcb_expire t) \<longleftrightarrow> OSTCBStat t AND OS_STAT_SUSPEND = 0"
proof -
  have 1: "(OSTCBStat t AND NOT OS_STAT_PEND_ANY) AND OS_STAT_PEND_ANY = 0"
    by (metis and.assoc and.commute and_zero_eq bit.conj_cancel_right)
  have 2: "(OSTCBStat t AND NOT OS_STAT_PEND_ANY) AND OS_STAT_SUSPEND = OSTCBStat t AND OS_STAT_SUSPEND"
    by (simp add: and.assoc)
  show ?thesis unfolding tcb_runnable_def tcb_expire_stat stat_mask_or [OF 1] 2 by simp
qed

lemma dly_expire_eq:
  assumes "tcb_prio_ok p (OSTCBTbl s t)" and "OSTCBDly (OSTCBTbl s t) = 0"
  shows "dly_expire t s =
    set_rdy_map (if OSTCBStat (OSTCBTbl s t) AND OS_STAT_SUSPEND = 0 then bm_ins p (rdy_map s) else rdy_map s)
      (upd_tcb t tcb_expire s)"
proof -
  let ?s1 = "if OSTCBStat (OSTCBTbl s t) AND OS_STAT_PEND_ANY \<noteq> OS_STAT_RDY
                then upd_tcb t (\<lambda>t. t\<lparr>OSTCBStat := OSTCBStat t AND NOT OS_STAT_PEND_ANY,
                       OSTCBStatPend := OS_STAT_PEND_TO\<rparr>) s
                else upd_tcb t (\<lambda>t. t\<lparr>OSTCBStatPend := OS_STAT_PEND_OK\<rparr>) s"
  have s1: "?s1 = upd_tcb t tcb_expire s"
    by (simp add: upd_tcb_def tcb_expire_delay_0 [OF assms(2)])
  have susp: "OSTCBStat (tcb_expire (OSTCBTbl s t)) AND OS_STAT_SUSPEND = OSTCBStat (OSTCBTbl s t) AND OS_STAT_SUSPEND"
    unfolding tcb_expire_stat by (simp add: and.assoc)
  have id: "set_rdy_map (rdy_map s) (upd_tcb t tcb_expire s) = upd_tcb t tcb_expire s"
    by (simp add: set_rdy_map_def rdy_map_def upd_tcb_def)
  have "tcb_rdy t (upd_tcb t tcb_expire s) = set_rdy_map (bm_ins p (rdy_map s)) (upd_tcb t tcb_expire s)"
    using assms(1) by (subst tcb_rdy_eq [of p]) simp_all
  then show ?thesis
    unfolding dly_expire_def s1 Let_def using susp id by simp
qed

lemma tick_tcb_eq:
  assumes "tcb_prio_ok p (OSTCBTbl s t)"
  shows "tick_tcb t s =
    set_rdy_map (if OSTCBDly (OSTCBTbl s t) = 1 \<and> OSTCBStat (OSTCBTbl s t) AND OS_STAT_SUSPEND = 0
       then bm_ins p (rdy_map s) else rdy_map s) (upd_tcb t tcb_tick s)"
proof -
  have id: "set_rdy_map (rdy_map s) (upd_tcb t f s) = upd_tcb t f s" for f
    by (simp add: set_rdy_map_def rdy_map_def upd_tcb_def)
  have triv: "upd_tcb t tcb_tick s = s" if "OSTCBDly (OSTCBTbl s t) = 0"
    using that by (simp add: upd_tcb_def tcb_tick_def)
  show ?thesis
  proof (cases "OSTCBDly (OSTCBTbl s t) = 1")
    case True
    let ?s1 = "upd_tcb t (\<lambda>t. t\<lparr>OSTCBDly := OSTCBDly t - 1\<rparr>) s"
    have "dly_expire t ?s1 = set_rdy_map (if OSTCBStat (OSTCBTbl ?s1 t) AND OS_STAT_SUSPEND = 0
        then bm_ins p (rdy_map ?s1) else rdy_map ?s1) (upd_tcb t tcb_expire ?s1)"
      using assms True by (intro dly_expire_eq) (simp_all add: tcb_prio_ok_def)
    moreover have "upd_tcb t tcb_expire ?s1 = upd_tcb t tcb_tick s"
      using True by (simp add: upd_tcb_def tcb_tick_def tcb_expire_def)
    ultimately show ?thesis using True by (simp add: tick_tcb_def)
  next
    case False
    then have s': "tick_tcb t s = upd_tcb t tcb_tick s"
      using triv by (cases "OSTCBDly (OSTCBTbl s t) = 0") (simp_all add: tick_tcb_def upd_tcb_def tcb_tick_def)
    show ?thesis unfolding s' using False id by simp
  qed
qed

lemma kinv_expire:
  assumes inv: "kinv s" and p: "is_task s p" and np: "p \<noteq> OS_TASK_IDLE_PRIO"
    and dly: "OSTCBDly (task_at s p) \<noteq> 0"
  shows "kinv (set_rdy_map (if OSTCBStat (task_at s p) AND OS_STAT_SUSPEND = 0 then bm_ins p (rdy_map s) else rdy_map s)
      (upd_tcb (OSTCBPrioTbl s p) tcb_expire s))" (is "kinv ?s'")
proof (rule kinv_task_status [OF inv p, where T = "tcb_expire (task_at s p)"])
  note p64 = task_prio_ok [OF inv p]
  have nr: "\<not> rdy s p" using dly rdy_iff [OF inv] by (simp add: tcb_runnable_def)
  show "rdy ?s' p = tcb_runnable (tcb_expire (task_at s p))"
    using nr p64 by (auto simp: rdy_def bm_mem_ins tcb_expire_runnable)
  have st: "OSTCBStat (task_at s p) AND NOT (OS_STAT_PEND_ANY OR OS_STAT_SUSPEND) = 0"
    and mu: "OSTCBEventMultiPtr (task_at s p) = None"
    using inv p by (simp_all add: kinv_def tcbs_ok_def)
  show "OSTCBStat (tcb_expire (task_at s p)) AND NOT (OS_STAT_PEND_ANY OR OS_STAT_SUSPEND) = 0"
    unfolding tcb_expire_stat by (rule stat_mask_clear [OF st])
  have pend0: "OSTCBStat (tcb_expire (task_at s p)) AND OS_STAT_PEND_ANY = 0"
    unfolding tcb_expire_stat by (metis and.assoc and.commute and_zero_eq bit.conj_cancel_right)
  then show "OSTCBStat (tcb_expire (task_at s p)) AND OS_STAT_PEND_ANY
      \<in> {0, OS_STAT_FLAG, OSTCBStat (task_at s p) AND OS_STAT_PEND_ANY}" by simp
  show "wait_stat_ok (tcb_expire (task_at s p)) (event_stat (OSEventType (OSEvents s e)))"
    if w: "waits s e p" and wst: "wait_stat_ok (task_at s p) (event_stat (OSEventType (OSEvents s e)))" for e
  proof -
    have "OSTCBStat (task_at s p) AND OS_STAT_PEND_ANY \<noteq> 0"
      using wst dly waitsD(5) [OF inv w] by (auto simp: wait_stat_ok_def)
    then have "OSTCBStatPend (tcb_expire (task_at s p)) = OS_STAT_PEND_TO" by (simp add: tcb_expire_def)
    with pend0 show ?thesis by (simp add: wait_stat_ok_def)
  qed
  show "tcb_prio_ok p (tcb_expire (task_at s p))" using p64 by simp
  show "OSTCBEventMultiPtr (tcb_expire (task_at s p)) = None" using mu by simp
  show "tcb_runnable (tcb_expire (task_at s p))" if "p = OS_TASK_IDLE_PRIO" using that np by simp
qed (simp_all add: task_at_def)

lemma kinv_tick:
  assumes inv: "kinv s" and p: "is_task s p" and np: "p \<noteq> OS_TASK_IDLE_PRIO"
  shows "kinv (tick_tcb (OSTCBPrioTbl s p) s)"
proof -
  note p64 = task_prio_ok [OF inv p]
  have eq: "tick_tcb (OSTCBPrioTbl s p) s =
    set_rdy_map (if OSTCBDly (task_at s p) = 1 \<and> OSTCBStat (task_at s p) AND OS_STAT_SUSPEND = 0
       then bm_ins p (rdy_map s) else rdy_map s) (upd_tcb (OSTCBPrioTbl s p) tcb_tick s)"
    using p64 unfolding task_at_def by (intro tick_tcb_eq) simp
  consider "OSTCBDly (task_at s p) = 0" | "OSTCBDly (task_at s p) = 1"
    | "OSTCBDly (task_at s p) \<noteq> 0" "OSTCBDly (task_at s p) \<noteq> 1" by blast
  then show ?thesis
  proof cases
    case 1
    then have "tick_tcb (OSTCBPrioTbl s p) s = s" by (simp add: tick_tcb_def task_at_def)
    with inv show ?thesis by simp
  next
    case 2
    then have "upd_tcb (OSTCBPrioTbl s p) tcb_tick s = upd_tcb (OSTCBPrioTbl s p) tcb_expire s"
      by (simp add: upd_tcb_def tcb_tick_def task_at_def)
    then show ?thesis unfolding eq using kinv_expire [OF inv p np] 2 by simp
  next
    case 3
    let ?T = "(task_at s p)\<lparr>OSTCBDly := OSTCBDly (task_at s p) - 1\<rparr>"
    have T: "tcb_tick (task_at s p) = ?T" using 3 by (simp add: tcb_tick_def)
    have d: "OSTCBDly (task_at s p) - 1 \<noteq> 0" using 3 by (simp add: diff_eq_eq)
    have st: "OSTCBStat (task_at s p) AND NOT (OS_STAT_PEND_ANY OR OS_STAT_SUSPEND) = 0"
      and mu: "OSTCBEventMultiPtr (task_at s p) = None"
      using inv p by (simp_all add: kinv_def tcbs_ok_def)
    have nr: "\<not> rdy s p" using 3 rdy_iff [OF inv] by (simp add: tcb_runnable_def)
    have s': "tick_tcb (OSTCBPrioTbl s p) s = set_rdy_map (rdy_map s) (upd_tcb (OSTCBPrioTbl s p) tcb_tick s)"
      unfolding eq using 3 by simp
    show ?thesis unfolding s'
    proof (rule kinv_task_status [OF inv p, where T = ?T])
      show "OSTCBStat ?T AND NOT (OS_STAT_PEND_ANY OR OS_STAT_SUSPEND) = 0" using st by simp
      show "wait_stat_ok ?T (event_stat (OSEventType (OSEvents s e)))"
        if "waits s e p" "wait_stat_ok (task_at s p) (event_stat (OSEventType (OSEvents s e)))" for e
        using that(2) 3 by (auto simp: wait_stat_ok_def)
    qed (use p64 mu nr d np T in \<open>auto simp: task_at_def rdy_def tcb_runnable_def tcb_prio_ok_def\<close>)
  qed
qed

subsection \<open>The list of tasks and the tick loop\<close>

text \<open>
  \<open>tcb_chain s ps\<close>: the list of task control blocks visits the tasks with the priorities \<open>ps\<close>, each
  task once, and ends with the idle task, which \<open>OSInit\<close> creates first.
\<close>

definition tcb_chain :: "os_state \<Rightarrow> nat list \<Rightarrow> bool" where
  "tcb_chain s ps \<longleftrightarrow> path (\<lambda>t. OSTCBNext (OSTCBTbl s t)) (OSTCBList s) (map (OSTCBPrioTbl s) (ps @ [OS_TASK_IDLE_PRIO]))
     \<and> distinct (ps @ [OS_TASK_IDLE_PRIO]) \<and> set (ps @ [OS_TASK_IDLE_PRIO]) = {p. is_task s p}"

definition ticked :: "nat set \<Rightarrow> prio_map \<Rightarrow> os_state \<Rightarrow> os_state" where
  "ticked P r s = s\<lparr>OSTCBTbl := (\<lambda>t. if t \<in> OSTCBPrioTbl s ` P then tcb_tick (OSTCBTbl s t) else OSTCBTbl s t),
     OSRdyGrp := fst r, OSRdyTbl := snd r\<rparr>"

lemma ticked_simps [simp]:
  "OSTCBPrioTbl (ticked P r s) = OSTCBPrioTbl s" "OSEvents (ticked P r s) = OSEvents s"
  "OSTCBList (ticked P r s) = OSTCBList s" "OSTCBCur (ticked P r s) = OSTCBCur s"
  "OSPrioCur (ticked P r s) = OSPrioCur s" "OSEventFreeList (ticked P r s) = OSEventFreeList s"
  "OSIntNesting (ticked P r s) = OSIntNesting s" "OSLockNesting (ticked P r s) = OSLockNesting s"
  "OSRunning (ticked P r s) = OSRunning s" "OSTime (ticked P r s) = OSTime s"
  "OSTCBNext (OSTCBTbl (ticked P r s) t) = OSTCBNext (OSTCBTbl s t)"
  by (simp_all add: ticked_def)

lemma tick_loop_spec:
  assumes "kinv s" and "path (\<lambda>t. OSTCBNext (OSTCBTbl s t)) ptcb (map (OSTCBPrioTbl s) (ps @ [OS_TASK_IDLE_PRIO]))"
    and "distinct ps" and "\<forall>p\<in>set ps. is_task s p \<and> p \<noteq> OS_TASK_IDLE_PRIO"
  shows "\<exists>r. tick_loop ptcb s = Some (ticked (set ps) r s) \<and> kinv (ticked (set ps) r s)"
  using assms
proof (induction ps arbitrary: ptcb s)
  case Nil
  have "OSTCBPrio (OSTCBTbl s ptcb) = OS_TASK_IDLE_PRIO"
    using Nil task_prio [OF Nil(1) rdy_task [OF Nil(1)], of OS_TASK_IDLE_PRIO] by (simp add: kinv_def task_at_def)
  moreover have "ticked {} (rdy_map s) s = s" by (simp add: ticked_def rdy_map_def)
  ultimately show ?case using Nil(1) by (intro exI [of _ "rdy_map s"]) (simp add: tick_loop.simps)
next
  case (Cons p ps)
  note inv = Cons.prems(1)
  have p: "is_task s p" and np: "p \<noteq> OS_TASK_IDLE_PRIO" and pt: "ptcb = OSTCBPrioTbl s p"
    using Cons.prems by auto
  let ?s1 = "tick_tcb ptcb s"
  have ok: "tcb_prio_ok p (OSTCBTbl s ptcb)" using task_prio_ok [OF inv p] by (simp add: task_at_def pt)
  note eq = tick_tcb_eq [OF ok]
  have fr: "OSTCBPrioTbl ?s1 = OSTCBPrioTbl s" "OSTCBTbl ?s1 = (OSTCBTbl s)(ptcb := tcb_tick (OSTCBTbl s ptcb))"
    "OSTCBNext (OSTCBTbl ?s1 t) = OSTCBNext (OSTCBTbl s t)" for t
    by (simp_all add: eq)
  have task: "is_task ?s1 q = is_task s q" for q by (simp add: is_task_def fr)
  have inv1: "kinv ?s1" unfolding pt by (rule kinv_tick [OF inv p np])
  have "\<exists>r. tick_loop (OSTCBNext (OSTCBTbl s ptcb)) ?s1 = Some (ticked (set ps) r ?s1) \<and> kinv (ticked (set ps) r ?s1)"
  proof (rule Cons.IH [OF inv1])
    show "path (\<lambda>t. OSTCBNext (OSTCBTbl ?s1 t)) (OSTCBNext (OSTCBTbl s ptcb)) (map (OSTCBPrioTbl ?s1) (ps @ [OS_TASK_IDLE_PRIO]))"
      unfolding fr(1,3) using Cons.prems(2) pt by simp
  qed (use Cons.prems task in auto)
  then obtain r where r: "tick_loop (OSTCBNext (OSTCBTbl s ptcb)) ?s1 = Some (ticked (set ps) r ?s1)"
    and ri: "kinv (ticked (set ps) r ?s1)" by blast
  have pn: "ptcb \<notin> OSTCBPrioTbl s ` set ps"
    using Cons.prems(3,4) task_inj [OF inv p] unfolding pt by auto
  have "(if t \<in> OSTCBPrioTbl ?s1 ` set ps then tcb_tick (OSTCBTbl ?s1 t) else OSTCBTbl ?s1 t)
      = (if t \<in> OSTCBPrioTbl s ` set (p # ps) then tcb_tick (OSTCBTbl s t) else OSTCBTbl s t)" for t
    using pn unfolding fr(1,2) by (cases "t = ptcb") (auto simp: pt)
  then have "ticked (set ps) r ?s1 = ticked (set (p # ps)) r s"
    unfolding ticked_def by (simp add: eq upd_tcb_def set_rdy_map_def)
  moreover have "OSTCBPrio (OSTCBTbl s ptcb) \<noteq> OS_TASK_IDLE_PRIO"
    using task_prio [OF inv p] np by (simp add: task_at_def pt)
  then have "tick_loop ptcb s = tick_loop (OSTCBNext (OSTCBTbl ?s1 ptcb)) ?s1"
    by (simp add: tick_loop.simps [of ptcb])
  then have "tick_loop ptcb s = Some (ticked (set ps) r ?s1)"
    using r unfolding fr(3) by simp
  ultimately show ?case using ri by metis
qed

lemma kernel_ok_SemPost:
  assumes ok: "kernel_ok s"
  shows "kernel_ok (snd (OSSemPost e s))"
proof (cases "is_sem s e")
  case True
  then show ?thesis by (rule sem_post_refines(1) [OF ok])
next
  case False
  then have "snd (OSSemPost e s) = s" by (auto simp: OSSemPost_def is_sem_def)
  with ok show ?thesis by simp
qed

lemma OSSemPost_frame:
  assumes inv: "kinv s"
  shows "OSRunning (snd (OSSemPost e s)) = OSRunning s" and "OSTCBList (snd (OSSemPost e s)) = OSTCBList s"
    and "OSTCBPrioTbl (snd (OSSemPost e s)) = OSTCBPrioTbl s"
    and "OSTCBNext (OSTCBTbl (snd (OSSemPost e s)) t) = OSTCBNext (OSTCBTbl s t)"
    and "OSTickStepState (snd (OSSemPost e s)) = OSTickStepState s"
    and "OSTime (snd (OSSemPost e s)) = OSTime s"
    and "OSIntNesting (snd (OSSemPost e s)) = OSIntNesting s"
proof -
  let ?s1 = "snd (OS_EventTaskRdy e NULL OS_STAT_SEM OS_STAT_PEND_OK s)"
  have n: "OSTCBNext (OSTCBTbl (OS_Sched s0) t) = OSTCBNext (OSTCBTbl s0 t)" for s0
    using OS_Sched_tcb [of s0 t] by auto
  have ts: "OSTickStepState (OS_Sched s0) = OSTickStepState s0" for s0
    by (simp add: OS_Sched_def OS_SchedNew_def PendSV_Handler_def Let_def)
  have rdy: "OSEventGrp (OSEvents s e) \<noteq> 0 \<Longrightarrow> OSRunning ?s1 = OSRunning s \<and> OSTCBList ?s1 = OSTCBList s
      \<and> OSTCBPrioTbl ?s1 = OSTCBPrioTbl s \<and> OSTCBNext (OSTCBTbl ?s1 t) = OSTCBNext (OSTCBTbl s t)
      \<and> OSTickStepState ?s1 = OSTickStepState s \<and> OSTime ?s1 = OSTime s \<and> OSIntNesting ?s1 = OSIntNesting s"
    by (simp add: OS_EventTaskRdy_eq [OF inv _ refl])
  show "OSRunning (snd (OSSemPost e s)) = OSRunning s" and "OSTCBList (snd (OSSemPost e s)) = OSTCBList s"
    and "OSTCBPrioTbl (snd (OSSemPost e s)) = OSTCBPrioTbl s"
    and "OSTCBNext (OSTCBTbl (snd (OSSemPost e s)) t) = OSTCBNext (OSTCBTbl s t)"
    and "OSTickStepState (snd (OSSemPost e s)) = OSTickStepState s"
    and "OSTime (snd (OSSemPost e s)) = OSTime s"
    and "OSIntNesting (snd (OSSemPost e s)) = OSIntNesting s"
    using rdy by (simp_all add: OSSemPost_def n ts)
qed

lemma kernel_ok_TickHook:
  assumes ok: "kernel_ok s"
  shows "kernel_ok (OSTimeTickHook s)"
proof -
  have k: "kernel_ok (s\<lparr>OSTmrCtr := c\<rparr>)" for c
    by (rule kernel_ok_cong [OF ok])
      (auto simp: kernel_same_def rdy_map_def intro: events_ok_cong [OF _ _ kernel_okD(5) [OF ok]])
  show ?thesis
    unfolding OSTimeTickHook_def OSTmrSignal_def Let_def
    using k [of 0] k [of "OSTmrCtr s + 1"] kernel_ok_SemPost by (simp split: if_split)
qed

lemma TickHook_frame:
  assumes inv: "kinv s"
  shows "OSRunning (OSTimeTickHook s) = OSRunning s" and "OSTCBList (OSTimeTickHook s) = OSTCBList s"
    and "OSTCBPrioTbl (OSTimeTickHook s) = OSTCBPrioTbl s"
    and "OSTCBNext (OSTCBTbl (OSTimeTickHook s) t) = OSTCBNext (OSTCBTbl s t)"
    and "OSTickStepState (OSTimeTickHook s) = OSTickStepState s" and "OSTime (OSTimeTickHook s) = OSTime s"
    and "OSIntNesting (OSTimeTickHook s) = OSIntNesting s"
proof -
  let ?s0 = "s\<lparr>OSTmrCtr := 0\<rparr>"
  have "kernel_same ?s0 s" by (simp add: kernel_same_def rdy_map_def)
  then have inv0: "kinv ?s0" using kinv_cong inv by simp
  note fr = OSSemPost_frame [OF inv0, of "OSTmrSemSignal s"]
  show "OSRunning (OSTimeTickHook s) = OSRunning s" and "OSTCBList (OSTimeTickHook s) = OSTCBList s"
    and "OSTCBPrioTbl (OSTimeTickHook s) = OSTCBPrioTbl s"
    and "OSTCBNext (OSTCBTbl (OSTimeTickHook s) t) = OSTCBNext (OSTCBTbl s t)"
    and "OSTickStepState (OSTimeTickHook s) = OSTickStepState s" and "OSTime (OSTimeTickHook s) = OSTime s"
    and "OSIntNesting (OSTimeTickHook s) = OSIntNesting s"
    using fr by (simp_all add: OSTimeTickHook_def OSTmrSignal_def Let_def)
qed

lemma tcb_chain_cong:
  assumes "OSTCBList s' = OSTCBList s" and "OSTCBPrioTbl s' = OSTCBPrioTbl s"
    and "\<And>t. OSTCBNext (OSTCBTbl s' t) = OSTCBNext (OSTCBTbl s t)"
  shows "tcb_chain s' ps = tcb_chain s ps"
  unfolding tcb_chain_def is_task_def assms ..

lemma OSTimeTick_ok:
  assumes ok: "data_ok s" and ch: "tcb_chain s ps" and isr: "OSIntNesting s \<noteq> 0" and run: "OSRunning s"
    and step: "OSTickStepState s = OS_TICK_STEP_DIS"
  shows "\<exists>s'. OSTimeTick s = Some s' \<and> data_ok s' \<and> tcb_chain s' ps \<and> OSTime s' = OSTime s + 1
      \<and> OSIntNesting s' = OSIntNesting s \<and> OSRunning s'
      \<and> (\<forall>p\<in>set ps. task_at s' p = tcb_tick (task_at (OSTimeTickHook s) p)
           \<and> (rdy s' p \<longleftrightarrow> tcb_runnable (task_at s' p)))
      \<and> task_at s' OS_TASK_IDLE_PRIO = task_at (OSTimeTickHook s) OS_TASK_IDLE_PRIO"
proof -
  have "sched_ok s" using isr by (simp add: sched_ok_def)
  with ok have kok: "kernel_ok s" by (simp add: kernel_ok_def)
  note hook = TickHook_frame [OF kernel_okD(2) [OF kok]]
  let ?s1 = "OSTimeTickHook s"
  let ?s2 = "?s1\<lparr>OSTime := OSTime ?s1 + 1\<rparr>"
  have k1: "kernel_ok ?s1" by (rule kernel_ok_TickHook [OF kok])
  have k2: "kernel_ok ?s2"
    by (rule kernel_ok_cong [OF k1])
      (auto simp: kernel_same_def rdy_map_def intro: events_ok_cong [OF _ _ kernel_okD(5) [OF k1]])
  have ch2: "tcb_chain ?s2 ps" using ch tcb_chain_cong [of ?s2 s ps] hook by simp
  have task: "is_task ?s2 p" if "p \<in> set ps" for p using ch2 that by (auto simp: tcb_chain_def)
  have idle: "is_task ?s2 OS_TASK_IDLE_PRIO" using ch2 by (auto simp: tcb_chain_def)
  have ps: "\<forall>p\<in>set ps. is_task ?s2 p \<and> p \<noteq> OS_TASK_IDLE_PRIO" and dps: "distinct ps"
    and path: "path (\<lambda>t. OSTCBNext (OSTCBTbl ?s2 t)) (OSTCBList ?s2) (map (OSTCBPrioTbl ?s2) (ps @ [OS_TASK_IDLE_PRIO]))"
    using ch2 by (auto simp: tcb_chain_def)
  obtain r where r: "tick_loop (OSTCBList ?s2) ?s2 = Some (ticked (set ps) r ?s2)" and inv: "kinv (ticked (set ps) r ?s2)"
    using tick_loop_spec [OF kernel_okD(2) [OF k2] path dps ps] by blast
  let ?s' = "ticked (set ps) r ?s2"
  have res: "OSTimeTick s = Some ?s'"
    using r run step by (simp add: OSTimeTick_def hook Let_def)
  have cur: "cur_ok ?s'" using kernel_okD(3) [OF k2] cur_ok_cong [of ?s' ?s2] by simp
  have ev: "events_ok ?s'" by (rule events_ok_cong [OF _ _ kernel_okD(5) [OF k2]]) simp_all
  have at: "task_at ?s' p = (if p \<in> set ps then tcb_tick (task_at ?s1 p) else task_at ?s1 p)"
    if "is_task ?s2 p" for p
  proof -
    have "OSTCBPrioTbl ?s2 p \<in> OSTCBPrioTbl ?s2 ` set ps \<longleftrightarrow> p \<in> set ps"
      using task_inj [OF kernel_okD(2) [OF k2] that] task by blast
    then show ?thesis by (simp add: task_at_def ticked_def)
  qed
  have rd: "rdy ?s' p \<longleftrightarrow> tcb_runnable (task_at ?s' p)" if "p \<in> set ps" for p
    using rdy_iff [OF inv, of p] task [OF that] by (simp add: is_task_def)
  have "tcb_chain ?s' ps" using ch2 tcb_chain_cong [of ?s' ?s2 ps] by simp
  moreover have "\<forall>p\<in>set ps. task_at ?s' p = tcb_tick (task_at ?s1 p)" using at task by simp
  moreover have "task_at ?s' OS_TASK_IDLE_PRIO = task_at ?s1 OS_TASK_IDLE_PRIO" using at [OF idle] ps by auto
  ultimately show ?thesis
    using res inv cur ev rd run hook(1,6,7) by (auto simp: data_ok_def)
qed

text \<open>
  C5 A clock tick ends, adds one to the system time, and (when ticks are not being single-stepped)
  gives each task except the idle task exactly one tick: delays count down, an expired delay makes
  the task ready unless it is suspended, and an expired wait times out.
\<close>

theorem OSTimeTick_correct:
  assumes ok: "data_ok s" and ch: "tcb_chain s ps" and isr: "OSIntNesting s \<noteq> 0" and run: "OSRunning s"
    and step: "OSTickStepState s = OS_TICK_STEP_DIS"
  shows "\<exists>s'. OSTimeTick s = Some s' \<and> data_ok s' \<and> tcb_chain s' ps \<and> OSTime s' = OSTime s + 1
      \<and> OSIntNesting s' = OSIntNesting s \<and> OSRunning s'
      \<and> (\<forall>p\<in>set ps. task_at s' p = tcb_tick (task_at (OSTimeTickHook s) p)
           \<and> (rdy s' p \<longleftrightarrow> tcb_runnable (task_at s' p)))
      \<and> task_at s' OS_TASK_IDLE_PRIO = task_at (OSTimeTickHook s) OS_TASK_IDLE_PRIO"
  by (rule OSTimeTick_ok [OF assms])

lemma ex_chain: "tcb_chain (ex_state ep) [4, 10]"
  unfolding tcb_chain_def ex_tasks by (auto simp: ex_state_simps)

theorem OSTimeTick_correct_witness:
  "\<exists>s'. OSTimeTick ((ex_state 0)\<lparr>OSIntNesting := 1\<rparr>) = Some s' \<and> OSTCBDly (task_at s' 10) = 4"
proof -
  let ?s = "(ex_state 0)\<lparr>OSIntNesting := 1\<rparr>"
  have d: "data_ok ?s"
    by (rule data_ok_cong [OF kernel_okD(1) [OF ex_kernel_ok [of 0]]])
      (auto simp: kernel_same_def rdy_map_def intro: events_ok_cong [OF _ _ kernel_okD(5) [OF ex_kernel_ok [of 0]]])
  have ch: "tcb_chain ?s [4, 10]" using ex_chain [of 0] tcb_chain_cong [of ?s "ex_state 0"] by simp
  have "OSTimeTickHook ?s = ?s\<lparr>OSTmrCtr := 0\<rparr>"
    by (simp add: OSTimeTickHook_def OSTmrSignal_def OSSemPost_def ex_state_simps set_rdy_map_def)
  then have "task_at (OSTimeTickHook ?s) 10 = task_at (ex_state 0) 10" by (simp add: task_at_def)
  then have tk: "tcb_tick (task_at (OSTimeTickHook ?s) 10) = (task_at (ex_state 0) 10)\<lparr>OSTCBDly := 4\<rparr>"
    by (simp add: ex_at tcb_tick_def)
  have "OSIntNesting ?s \<noteq> 0" "OSRunning ?s" "OSTickStepState ?s = OS_TICK_STEP_DIS"
    by (simp_all add: ex_state_simps)
  from OSTimeTick_correct [OF d ch this] obtain s' where "OSTimeTick ?s = Some s'"
    and "task_at s' 10 = tcb_tick (task_at (OSTimeTickHook ?s) 10)" by auto
  then show ?thesis unfolding tk by (intro exI [of _ s']) simp
qed

subsection \<open>The tick interrupt\<close>

lemma data_ok_upd_nest: "data_ok s \<Longrightarrow> data_ok (s\<lparr>OSIntNesting := n\<rparr>)"
  by (rule data_ok_cong) (auto intro: events_ok_cong [OF _ _ data_okD(3)])

lemma OSIntExit_ok:
  assumes "data_ok s" and "OSRunning s"
  shows "kernel_ok (OSIntExit s)"
  using assms kernel_ok_Sched [of s] kernel_ok_Sched [OF data_ok_upd_nest [of s "OSIntNesting s - 1"]]
  by (simp add: OSIntExit_eq)

text \<open>
  The tick interrupt as a whole keeps the kernel invariant: when it returns to task level with the
  scheduler unlocked, the ready task with the highest priority runs, among them the tasks that the
  tick has just made ready.
\<close>

lemma SysTick_Handler_ok:
  assumes ok: "kernel_ok s" and ch: "tcb_chain s ps" and nest: "OSIntNesting s < 255" and run: "OSRunning s"
    and step: "OSTickStepState s = OS_TICK_STEP_DIS"
  shows "\<exists>s'. SysTick_Handler s = Some s' \<and> kernel_ok s' \<and> tcb_chain s' ps \<and> OSTime s' = OSTime s + 1
      \<and> OSIntNesting s' = OSIntNesting s"
proof -
  let ?s1 = "s\<lparr>OSIntNesting := OSIntNesting s + 1\<rparr>"
  have ent: "OSIntEnter s = ?s1" using run nest by (simp add: OSIntEnter_def)
  have nz: "OSIntNesting s + 1 \<noteq> 0"
    using nest by (auto simp: add_eq_0_iff2)
  have d1: "data_ok ?s1" by (rule data_ok_upd_nest [OF kernel_okD(1) [OF ok]])
  have ch1: "tcb_chain ?s1 ps" using ch tcb_chain_cong [of ?s1 s] by simp
  obtain s2 where s2: "OSTimeTick ?s1 = Some s2" "data_ok s2" "tcb_chain s2 ps" "OSTime s2 = OSTime s + 1"
    "OSIntNesting s2 = OSIntNesting s + 1" "OSRunning s2"
    using OSTimeTick_ok [OF d1 ch1] nz run step by auto
  have "OSTCBNext (OSTCBTbl (OSIntExit s2) t) = OSTCBNext (OSTCBTbl s2 t)" for t
    using OS_Sched_tcb [of "s2\<lparr>OSIntNesting := OSIntNesting s2 - 1\<rparr>" t] OS_Sched_tcb [of s2 t]
    by (auto simp: OSIntExit_eq)
  then have "tcb_chain (OSIntExit s2) ps"
    using s2(3) tcb_chain_cong [of "OSIntExit s2" s2] by (simp add: OSIntExit_eq)
  moreover have "OSIntNesting (OSIntExit s2) = OSIntNesting s"
    using s2(5,6) nz by (simp add: OSIntExit_eq word_neq_0_conv)
  ultimately show ?thesis
    using s2 OSIntExit_ok [OF s2(2,6)] by (simp add: SysTick_Handler_def ent) (simp add: OSIntExit_eq)
qed

lemma SysTick_Handler_example:
  "\<exists>s'. SysTick_Handler (ex_state 0) = Some s' \<and> kernel_ok s' \<and> OSTime s' = 1"
proof -
  have "OSIntNesting (ex_state 0) < 255" "OSRunning (ex_state 0)" "OSTickStepState (ex_state 0) = OS_TICK_STEP_DIS"
    "OSTime (ex_state 0) = 0"
    by (simp_all add: ex_state_simps)
  with SysTick_Handler_ok [OF ex_kernel_ok ex_chain this(1-3)] show ?thesis by auto
qed

subsection \<open>Correctness of the delay services\<close>

text \<open>
  The running task leaves the ready list with a running delay (\<open>OSTimeDly\<close>) or a suspension.
\<close>

lemma data_ok_unready_cur:
  assumes ok: "data_ok s" and uc: "user_code s" and ready: "rdy s (OSPrioCur s)"
    and s': "s' = upd_tcb (OSTCBCur s) f (tcb_unrdy (OSTCBCur s) s)"
    and T: "T = f (task_at s (OSPrioCur s))" "tcb_prio_ok (OSPrioCur s) T" "OSTCBEventMultiPtr T = None"
      "OSTCBStat T AND NOT (OS_STAT_PEND_ANY OR OS_STAT_SUSPEND) = 0"
      "OSTCBStat T AND OS_STAT_PEND_ANY = 0" "OSTCBEventPtr T = OSTCBEventPtr (task_at s (OSPrioCur s))"
      "\<not> tcb_runnable T"
  shows "data_ok s'" and "\<not> rdy s' (OSPrioCur s)"
proof -
  let ?p = "OSPrioCur s"
  note inv = data_okD(1) [OF ok]
  have task: "is_task s ?p" and cp: "OSTCBCur s = OSTCBPrioTbl s ?p"
    using data_okD(2) [OF ok] by (auto simp: cur_ok_def)
  note p64 = task_prio_ok [OF inv task]
  have un: "tcb_unrdy (OSTCBCur s) s = set_rdy_map (bm_del ?p (rdy_map s)) s"
    using p64 unfolding task_at_def cp by (intro tcb_unrdy_eq) simp
  have nr: "\<not> rdy s' ?p" using p64 by (simp add: s' un rdy_def bm_mem_del)
  then show "\<not> rdy s' ?p" .
  have nw: "\<not> waits s e ?p" and idle: "?p \<noteq> OS_TASK_IDLE_PRIO" for e
    using uc by (auto simp: user_code_def)
  have "kinv s'"
    by (rule kinv_task_status [OF inv task, where T = T])
      (use T nr nw idle in \<open>simp_all add: s' un [unfolded cp] cp task_at_def\<close>)
  moreover have "cur_ok s' = cur_ok s" by (rule cur_ok_cong) (simp_all add: s' un)
  moreover have "events_ok s'" by (rule events_ok_cong [OF _ _ data_okD(3) [OF ok]]) (simp_all add: s' un)
  ultimately show "data_ok s'" using data_okD [OF ok] by (simp add: data_ok_def)
qed

lemma OSTimeDly_ok:
  assumes ok: "kernel_ok s" and uc: "user_code s" and lock: "OSLockNesting s = 0" and tk: "ticks > 0"
  shows "kernel_ok (OSTimeDly ticks s) \<and> \<not> rdy (OSTimeDly ticks s) (OSPrioCur s)
    \<and> OSTCBDly (task_at (OSTimeDly ticks s) (OSPrioCur s)) = ticks
    \<and> OSPrioCur (OSTimeDly ticks s) \<noteq> OSPrioCur s"
proof -
  let ?p = "OSPrioCur s" and ?t = "task_at s (OSPrioCur s)"
  have nest: "OSIntNesting s = 0" using uc by (simp add: user_code_def)
  note inv = kernel_okD(2) [OF ok]
  have task: "is_task s ?p" and cp: "OSTCBCur s = OSTCBPrioTbl s ?p"
    using kernel_okD(3) [OF ok] by (auto simp: cur_ok_def)
  have ready: "rdy s ?p" by (rule kernel_ok_cur_ready [OF ok nest lock])
  then have st: "OSTCBStat ?t AND (OS_STAT_PEND_ANY OR OS_STAT_SUSPEND) = 0"
    using rdy_iff [OF inv] by (simp add: tcb_runnable_def)
  have mask: "OSTCBStat ?t AND NOT (OS_STAT_PEND_ANY OR OS_STAT_SUSPEND) = 0"
    and multi: "OSTCBEventMultiPtr ?t = None"
    using inv task by (simp_all add: kinv_def tcbs_ok_def)
  let ?s1 = "upd_tcb (OSTCBCur s) (\<lambda>t. t\<lparr>OSTCBDly := ticks\<rparr>) (tcb_unrdy (OSTCBCur s) s)"
  have s': "OSTimeDly ticks s = OS_Sched ?s1" using nest lock tk by (simp add: OSTimeDly_def Let_def)
  have "data_ok ?s1" and nr: "\<not> rdy ?s1 ?p"
    using data_ok_unready_cur [OF kernel_okD(1) [OF ok] uc ready refl refl, of "\<lambda>t. t\<lparr>OSTCBDly := ticks\<rparr>"]
      task_prio_ok [OF inv task] mask multi stat_mask_or_zero [OF st] tk [unfolded word_neq_0_conv [symmetric]]
    by (simp_all add: tcb_prio_ok_def tcb_runnable_def)
  then have k: "kernel_ok (OSTimeDly ticks s)" unfolding s' by (intro kernel_ok_Sched)
  have n0: "OSIntNesting (OSTimeDly ticks s) = 0" "OSLockNesting (OSTimeDly ticks s) = 0"
    using nest lock by (simp_all add: s' tcb_unrdy_def)
  have "OSTCBDly (task_at (OSTimeDly ticks s) ?p) = ticks"
    unfolding s' task_at_Sched by (simp add: task_at_def cp tcb_unrdy_def)
  moreover have "OSPrioCur (OSTimeDly ticks s) \<noteq> ?p"
    using kernel_ok_cur_ready [OF k n0] nr unfolding s' rdy_Sched by metis
  ultimately show ?thesis using k nr unfolding s' rdy_Sched by blast
qed

text \<open>
  A delay of at least one tick takes the caller off the ready list for that many ticks, and the
  next task in priority runs.
\<close>

lemma OSTimeDly_correct:
  assumes ok: "kernel_ok s" and uc: "user_code s" and lock: "OSLockNesting s = 0" and tk: "ticks > 0"
  shows "kernel_ok (OSTimeDly ticks s) \<and> \<not> rdy (OSTimeDly ticks s) (OSPrioCur s)
    \<and> OSTCBDly (task_at (OSTimeDly ticks s) (OSPrioCur s)) = ticks
    \<and> OSPrioCur (OSTimeDly ticks s) \<noteq> OSPrioCur s"
  by (rule OSTimeDly_ok [OF assms])

lemma OSTimeDly_correct_example:
  "\<not> rdy (OSTimeDly 20 (ex_state 0)) 4 \<and> OSTCBDly (task_at (OSTimeDly 20 (ex_state 0)) 4) = 20"
proof -
  have "OSLockNesting (ex_state 0) = 0" "OSPrioCur (ex_state 0) = 4" by (simp_all add: ex_state_simps)
  with OSTimeDly_correct [OF ex_kernel_ok ex_user_code this(1), of 20] show ?thesis by simp
qed

text \<open>
  The delay in hours, minutes, seconds and milliseconds does not overflow its 32 bits and is rounded to
  the nearest tick of ten milliseconds, halves up: four milliseconds are no delay at all, five
  and ten are one tick.
\<close>

lemma hmsm_ticks_rounds:
  assumes "minutes \<le> 59" and "seconds \<le> 59" and "ms \<le> 999"
  shows "unat (hmsm_ticks hours minutes seconds ms)
    = (((unat hours * 60 + unat minutes) * 60 + unat seconds) * 1000 + unat ms + 5) div 10"
proof -
  have b: "unat hours < 256" "unat minutes \<le> 59" "unat seconds \<le> 59" "unat ms \<le> 999"
    using assms unat_less_256 [of hours] by (simp_all add: word_le_nat_alt)
  let ?s = "(unat hours * 3600 + unat minutes * 60 + unat seconds) * 100"
  have "ucast hours = (of_nat (unat hours) :: INT32U)" "ucast minutes = (of_nat (unat minutes) :: INT32U)"
    "ucast seconds = (of_nat (unat seconds) :: INT32U)" "ucast ms = (of_nat (unat ms) :: INT32U)"
    by simp_all
  then have "hmsm_ticks hours minutes seconds ms = of_nat ?s + (of_nat (100 * (unat ms + 5)) :: INT32U) div of_nat 1000"
    unfolding hmsm_ticks_def by simp
  also have "unat \<dots> = ?s + (100 * (unat ms + 5)) div 1000"
  proof -
    have s: "?s < 2 ^ 30" and m: "100 * (unat ms + 5) < 2 ^ 30" using b by simp_all
    have us: "unat (of_nat ?s :: INT32U) = ?s" using s by (subst unat_of_nat) simp
    have um: "unat (of_nat (100 * (unat ms + 5)) :: INT32U) = 100 * (unat ms + 5)"
      using m by (subst unat_of_nat) simp
    have u1: "unat (of_nat 1000 :: INT32U) = 1000" by simp
    have ud: "unat ((of_nat (100 * (unat ms + 5)) :: INT32U) div of_nat 1000) = (100 * (unat ms + 5)) div 1000"
      unfolding unat_div um u1 ..
    have "(100 * (unat ms + 5)) div 1000 < 2 ^ 30" using m by (rule order_le_less_trans [OF div_le_dividend])
    with s show ?thesis unfolding unat_word_ariths(1) us ud by simp
  qed
  also have "\<dots> = (((unat hours * 60 + unat minutes) * 60 + unat seconds) * 1000 + unat ms + 5) div 10"
    by simp
  finally show ?thesis .
qed

lemma hmsm_ticks_rounds_example:
  "unat (hmsm_ticks 0 0 0 5) = 1 \<and> unat (hmsm_ticks 0 0 0 10) = 1 \<and> unat (hmsm_ticks 0 0 0 4) = 0"
  using hmsm_ticks_rounds [of 0 0 5 0] hmsm_ticks_rounds [of 0 0 10 0] hmsm_ticks_rounds [of 0 0 4 0] by simp

text \<open>
  Resuming a delayed task ends its delay at once: it is ready again unless it is suspended, a
  pending wait ends with a timeout, and the kernel invariant is kept; a task without a delay is refused.
\<close>

lemma OSTimeDlyResume_correct:
  assumes ok: "kernel_ok s" and p: "is_task s p" and np: "p \<noteq> OS_TASK_IDLE_PRIO"
  shows "kernel_ok (snd (OSTimeDlyResume p s))
    \<and> (OSTCBDly (task_at s p) = 0 \<longrightarrow> OSTimeDlyResume p s = (OS_ERR_TIME_NOT_DLY, s))
    \<and> (OSTCBDly (task_at s p) \<noteq> 0 \<longrightarrow> fst (OSTimeDlyResume p s) = OS_ERR_NONE
         \<and> OSTCBDly (task_at (snd (OSTimeDlyResume p s)) p) = 0
         \<and> (rdy (snd (OSTimeDlyResume p s)) p \<longleftrightarrow> OSTCBStat (task_at s p) AND OS_STAT_SUSPEND = 0)
         \<and> OSTCBStatPend (task_at (snd (OSTimeDlyResume p s)) p) =
             (if OSTCBStat (task_at s p) AND OS_STAT_PEND_ANY \<noteq> 0 then OS_STAT_PEND_TO else OS_STAT_PEND_OK))"
proof (cases "OSTCBDly (task_at s p) = 0")
  case True
  note inv = kernel_okD(2) [OF ok]
  have "p < 63" using task_prio_ok [OF inv p] np by simp
  then have "OSTimeDlyResume p s = (OS_ERR_TIME_NOT_DLY, s)"
    using True p by (simp add: OSTimeDlyResume_def is_task_def task_at_def Let_def)
  with True ok show ?thesis by simp
next
  case False
  note inv = kernel_okD(2) [OF ok]
  let ?t = "OSTCBPrioTbl s p"
  have "p < 63" using task_prio_ok [OF inv p] np by simp
  have pok: "tcb_prio_ok p (OSTCBTbl s ?t)" using task_prio_ok [OF inv p] by (simp add: task_at_def)
  let ?s0 = "upd_tcb ?t (\<lambda>t. t\<lparr>OSTCBDly := 0\<rparr>) s"
  let ?r = "if OSTCBStat (task_at s p) AND OS_STAT_SUSPEND = 0 then bm_ins p (rdy_map s) else rdy_map s"
  let ?s1 = "set_rdy_map ?r (upd_tcb ?t tcb_expire s)"
  have "tcb_expire (t\<lparr>OSTCBDly := 0\<rparr>) = tcb_expire t" for t by (simp add: tcb_expire_def)
  then have "upd_tcb ?t tcb_expire ?s0 = upd_tcb ?t tcb_expire s" by (simp add: upd_tcb_def)
  then have eq: "dly_expire ?t ?s0 = ?s1"
    using dly_expire_eq [of p ?s0 ?t] pok by (simp add: tcb_prio_ok_def task_at_def)
  have res: "OSTimeDlyResume p s = (OS_ERR_NONE,
      if OSTCBStat (OSTCBTbl ?s1 ?t) AND OS_STAT_SUSPEND = OS_STAT_RDY then OS_Sched ?s1 else ?s1)"
    using False p \<open>p < 63\<close> unfolding OSTimeDlyResume_def Let_def eq
    by (simp add: is_task_def task_at_def)
  have kin: "kinv ?s1" by (rule kinv_expire [OF inv p np False])
  have "cur_ok ?s1 = cur_ok s" by (rule cur_ok_cong) simp_all
  moreover have "events_ok ?s1" by (rule events_ok_cong [OF _ _ kernel_okD(5) [OF ok]]) simp_all
  ultimately have d1: "data_ok ?s1" using kin kernel_okD(3) [OF ok] by (simp add: data_ok_def)
  have susp: "OSTCBStat (OSTCBTbl ?s1 ?t) AND OS_STAT_SUSPEND = OSTCBStat (task_at s p) AND OS_STAT_SUSPEND"
    by (simp add: tcb_expire_stat and.assoc task_at_def)
  have k: "kernel_ok (if OSTCBStat (OSTCBTbl ?s1 ?t) AND OS_STAT_SUSPEND = OS_STAT_RDY then OS_Sched ?s1 else ?s1)"
  proof (cases "OSTCBStat (task_at s p) AND OS_STAT_SUSPEND = 0")
    case True
    then show ?thesis using kernel_ok_Sched [OF d1] susp by simp
  next
    case ns: False
    have "sched_ok ?s1 = sched_ok s" by (rule sched_ok_cong) (use ns in simp_all)
    with d1 ns susp kernel_okD(4) [OF ok] show ?thesis by (simp add: kernel_ok_def)
  qed
  have at: "task_at ?s1 p = tcb_expire (task_at s p)" by (simp add: task_at_def)
  have rd: "rdy ?s1 p \<longleftrightarrow> OSTCBStat (task_at s p) AND OS_STAT_SUSPEND = 0"
    using rdy_iff [OF kin, of p] p unfolding at tcb_expire_runnable by (simp add: is_task_def)
  have sp: "OSTCBStatPend (tcb_expire (task_at s p)) =
      (if OSTCBStat (task_at s p) AND OS_STAT_PEND_ANY \<noteq> 0 then OS_STAT_PEND_TO else OS_STAT_PEND_OK)"
    by (simp add: tcb_expire_def)
  define s2 where "s2 = (if OSTCBStat (OSTCBTbl ?s1 ?t) AND OS_STAT_SUSPEND = OS_STAT_RDY then OS_Sched ?s1 else ?s1)"
  have "s2 = OS_Sched ?s1 \<or> s2 = ?s1" by (simp add: s2_def)
  then have "OSTCBDly (task_at s2 p) = 0"
    "OSTCBStatPend (task_at s2 p) = OSTCBStatPend (tcb_expire (task_at s p))" "rdy s2 p = rdy ?s1 p"
    using task_at_Sched [of ?s1 p] rdy_Sched [of ?s1 p] tcb_expire_simps(6) at by metis+
  with False k rd sp show ?thesis unfolding res s2_def [symmetric] by simp
qed

lemma OSTimeDlyResume_correct_example:
  "rdy (snd (OSTimeDlyResume 10 (ex_state 0))) 10
    \<and> OSTCBStatPend (task_at (snd (OSTimeDlyResume 10 (ex_state 0))) 10) = OS_STAT_PEND_TO"
proof -
  have "is_task (ex_state 0) 10" by (simp add: ex_tasks)
  from OSTimeDlyResume_correct [OF ex_kernel_ok this] show ?thesis
    by (simp add: ex_at)
qed

end
