(* ===== verification/OS_Task.thy ===== *)
theory OS_Task
  imports OS_Flag OS_Time
begin

text \<open>
  Task management (\<open>os_task.c\<close>, with \<open>OS_TCBInit\<close> of \<open>os_core.c\<close> and \<open>OSTaskStkInit\<close> of the port).
  A stack is a range of words of the store \<open>stk_words\<close>, addressed in bytes and growing down.  The
  addresses of the task function and of \<open>OS_TaskReturn\<close>, which the initial stack frame holds, are
  arguments.  The kernel's hooks are empty functions in this port.
\<close>

record OS_STK_DATA =
  OSFree :: INT32U
  OSUsed :: INT32U

subsection \<open>Stacks\<close>

text \<open>\<open>*(--stk) = w\<close> for the words \<open>ws\<close> in turn.\<close>

primrec stk_push :: "INT32U list \<Rightarrow> ptr \<Rightarrow> os_state \<Rightarrow> ptr \<times> os_state" where
  "stk_push [] stk s = (stk, s)"
| "stk_push (w # ws) stk s = stk_push ws (stk - 4) (s\<lparr>stk_words := (stk_words s)(stk - 4 := w)\<rparr>)"

definition OSTaskStkInit :: "INT32U \<Rightarrow> INT32U \<Rightarrow> INT32U \<Rightarrow> ptr \<Rightarrow> os_state \<Rightarrow> ptr \<times> os_state" where
  "OSTaskStkInit task_return task p_arg ptos s =
     stk_push [task, task_return, 0x12121212, 0x03030303, 0x02020202, 0x01010101, p_arg,
               0x11111111, 0x10101010, 0x09090909, 0x08080808, 0x07070707, 0x06060606, 0x05050505, 0x04040404]
       ptos (s\<lparr>stk_words := (stk_words s)(ptos := 0x01000000)\<rparr>)"

primrec stk_clear :: "nat \<Rightarrow> ptr \<Rightarrow> os_state \<Rightarrow> os_state" where
  "stk_clear 0 pbos s = s"
| "stk_clear (Suc n) pbos s = stk_clear n (pbos + 4) (s\<lparr>stk_words := (stk_words s)(pbos := 0)\<rparr>)"

definition OS_TaskStkClr :: "ptr \<Rightarrow> INT32U \<Rightarrow> INT16U \<Rightarrow> os_state \<Rightarrow> os_state" where
  "OS_TaskStkClr pbos stk_size opt s =
     (if opt AND OS_TASK_OPT_STK_CHK \<noteq> 0
      then if opt AND OS_TASK_OPT_STK_CLR \<noteq> 0 then stk_clear (unat stk_size) pbos s else s
      else s)"

text \<open>The words of a stack that were never written, from its bottom up.\<close>

partial_function (option) stk_free :: "ptr \<Rightarrow> INT32U \<Rightarrow> os_state \<Rightarrow> INT32U option" where
  "stk_free pchk nfree s =
     (if stk_words s pchk = 0 then stk_free (pchk + 4) (nfree + 1) s else Some nfree)"

subsection \<open>Creating tasks\<close>

definition tcb_alloc :: "os_state \<Rightarrow> ptr \<times> os_state" where
  "tcb_alloc s =
     (let ptcb = OSTCBFreeList s
      in (ptcb, if ptcb \<noteq> NULL then s\<lparr>OSTCBFreeList := OSTCBNext (OSTCBTbl s ptcb)\<rparr> else s))"

definition tcb_free :: "ptr \<Rightarrow> os_state \<Rightarrow> os_state" where
  "tcb_free ptcb s =
     (upd_tcb ptcb (\<lambda>t. t\<lparr>OSTCBNext := OSTCBFreeList s\<rparr>) s)\<lparr>OSTCBFreeList := ptcb\<rparr>"

definition OS_TCBInit :: "nat \<Rightarrow> ptr \<Rightarrow> ptr \<Rightarrow> INT16U \<Rightarrow> INT32U \<Rightarrow> ptr \<Rightarrow> INT16U \<Rightarrow> os_state \<Rightarrow> INT8U \<times> os_state" where
  "OS_TCBInit prio ptos pbos ident stk_size pext opt s =
     (let (ptcb, s1) = tcb_alloc s
      in if ptcb \<noteq> NULL
         then (let s2 = upd_tcb ptcb (\<lambda>t. t\<lparr>OSTCBStkPtr := ptos, OSTCBPrio := prio, OSTCBStat := OS_STAT_RDY,
                          OSTCBStatPend := OS_STAT_PEND_OK, OSTCBDly := 0, OSTCBExtPtr := pext,
                          OSTCBStkSize := stk_size, OSTCBStkBottom := pbos, OSTCBOpt := opt, OSTCBId := ident,
                          OSTCBDelReq := OS_ERR_NONE, OSTCBY := prio div 8, OSTCBX := prio mod 8,
                          OSTCBBitY := 2 ^ (prio div 8), OSTCBBitX := 2 ^ (prio mod 8),
                          OSTCBEventPtr := NULL, OSTCBEventMultiPtr := None, OSTCBFlagNode := NULL,
                          OSTCBMsg := NULL, OSTCBCtxSwCtr := 0, OSTCBCyclesStart := 0, OSTCBCyclesTot := 0,
                          OSTCBStkBase := NULL, OSTCBStkUsed := 0, OSTCBTaskName := ''?'',
                          OSTCBRegTbl := (OSTCBRegTbl t)(0 := 0)\<rparr>) s1;
                   s3 = s2\<lparr>OSTCBPrioTbl := (OSTCBPrioTbl s2)(prio := ptcb)\<rparr>;
                   s4 = upd_tcb ptcb (\<lambda>t. t\<lparr>OSTCBNext := OSTCBList s3, OSTCBPrev := NULL\<rparr>) s3;
                   s5 = (if OSTCBList s4 \<noteq> NULL
                         then upd_tcb (OSTCBList s4) (\<lambda>t. t\<lparr>OSTCBPrev := ptcb\<rparr>) s4 else s4);
                   s6 = s5\<lparr>OSTCBList := ptcb\<rparr>;
                   s7 = tcb_rdy ptcb s6
               in (OS_ERR_NONE, s7\<lparr>OSTaskCtr := OSTaskCtr s7 + 1\<rparr>))
         else (OS_ERR_TASK_NO_MORE_TCB, s1))"

definition OSTaskCreate :: "INT32U \<Rightarrow> INT32U \<Rightarrow> INT32U \<Rightarrow> ptr \<Rightarrow> nat \<Rightarrow> os_state \<Rightarrow> INT8U \<times> os_state" where
  "OSTaskCreate task_return task p_arg ptos prio s =
     (if prio > OS_LOWEST_PRIO then (OS_ERR_PRIO_INVALID, s)
      else if OSIntNesting s > 0 then (OS_ERR_TASK_CREATE_ISR, s)
      else if OSTCBPrioTbl s prio = NULL
      then (let s1 = s\<lparr>OSTCBPrioTbl := (OSTCBPrioTbl s)(prio := OS_TCB_RESERVED)\<rparr>;
                (psp, s2) = OSTaskStkInit task_return task p_arg ptos s1;
                (err, s3) = OS_TCBInit prio psp NULL 0 0 NULL 0 s2
            in if err = OS_ERR_NONE then (err, if OSRunning s3 then OS_Sched s3 else s3)
               else (err, s3\<lparr>OSTCBPrioTbl := (OSTCBPrioTbl s3)(prio := NULL)\<rparr>))
      else (OS_ERR_PRIO_EXIST, s))"

definition OSTaskCreateExt :: "INT32U \<Rightarrow> INT32U \<Rightarrow> INT32U \<Rightarrow> ptr \<Rightarrow> nat \<Rightarrow> INT16U \<Rightarrow> ptr \<Rightarrow> INT32U \<Rightarrow> ptr \<Rightarrow> INT16U
    \<Rightarrow> os_state \<Rightarrow> INT8U \<times> os_state" where
  "OSTaskCreateExt task_return task p_arg ptos prio ident pbos stk_size pext opt s =
     (if prio > OS_LOWEST_PRIO then (OS_ERR_PRIO_INVALID, s)
      else if OSIntNesting s > 0 then (OS_ERR_TASK_CREATE_ISR, s)
      else if OSTCBPrioTbl s prio = NULL
      then (let s1 = s\<lparr>OSTCBPrioTbl := (OSTCBPrioTbl s)(prio := OS_TCB_RESERVED)\<rparr>;
                s1a = OS_TaskStkClr pbos stk_size opt s1;
                (psp, s2) = OSTaskStkInit task_return task p_arg ptos s1a;
                (err, s3) = OS_TCBInit prio psp pbos ident stk_size pext opt s2
            in if err = OS_ERR_NONE then (err, if OSRunning s3 then OS_Sched s3 else s3)
               else (err, s3\<lparr>OSTCBPrioTbl := (OSTCBPrioTbl s3)(prio := NULL)\<rparr>))
      else (OS_ERR_PRIO_EXIST, s))"

subsection \<open>Changing the priority\<close>

text \<open>The bit of a task moves in the ready list and in a wait list.\<close>

definition rdy_move :: "ptr \<Rightarrow> nat \<Rightarrow> os_state \<Rightarrow> os_state" where
  "rdy_move ptcb newprio s =
     (let t = OSTCBTbl s ptcb
      in if OSRdyTbl s (OSTCBY t) AND OSTCBBitX t \<noteq> 0
         then set_rdy_map (bm_set (newprio div 8) (2 ^ (newprio mod 8)) (2 ^ (newprio div 8))
                (bm_clr (OSTCBY t) (OSTCBBitX t) (OSTCBBitY t) (rdy_map s))) s
         else s)"

definition event_move :: "ptr \<Rightarrow> nat \<Rightarrow> ptr \<Rightarrow> os_state \<Rightarrow> os_state" where
  "event_move ptcb newprio pevent s =
     (let t = OSTCBTbl s ptcb
      in event_wait_set pevent (newprio div 8) (2 ^ (newprio mod 8)) (2 ^ (newprio div 8))
           (event_wait_clr pevent (OSTCBY t) (OSTCBBitX t) (OSTCBBitY t) s))"

definition OSTaskChangePrio :: "nat \<Rightarrow> nat \<Rightarrow> os_state \<Rightarrow> INT8U \<times> os_state" where
  "OSTaskChangePrio oldprio newprio s =
     (if oldprio \<ge> OS_LOWEST_PRIO \<and> oldprio \<noteq> OS_PRIO_SELF then (OS_ERR_PRIO_INVALID, s)
      else if newprio \<ge> OS_LOWEST_PRIO then (OS_ERR_PRIO_INVALID, s)
      else if OSTCBPrioTbl s newprio \<noteq> NULL then (OS_ERR_PRIO_EXIST, s)
      else (let oldprio = (if oldprio = OS_PRIO_SELF then OSTCBPrio (OSTCBTbl s (OSTCBCur s)) else oldprio);
                ptcb = OSTCBPrioTbl s oldprio
            in if ptcb = NULL then (OS_ERR_PRIO, s)
               else if ptcb = OS_TCB_RESERVED then (OS_ERR_TASK_NOT_EXIST, s)
               else (let s1 = s\<lparr>OSTCBPrioTbl := (OSTCBPrioTbl s)(oldprio := NULL, newprio := ptcb)\<rparr>;
                         s2 = rdy_move ptcb newprio s1;
                         pevent = OSTCBEventPtr (OSTCBTbl s2 ptcb);
                         s3 = (if pevent \<noteq> NULL then event_move ptcb newprio pevent s2 else s2);
                         s4 = (case OSTCBEventMultiPtr (OSTCBTbl s3 ptcb) of None \<Rightarrow> s3
                               | Some pevents \<Rightarrow> fold (event_move ptcb newprio) pevents s3);
                         s5 = upd_tcb ptcb (\<lambda>t. t\<lparr>OSTCBPrio := newprio, OSTCBY := newprio div 8,
                                OSTCBX := newprio mod 8, OSTCBBitY := 2 ^ (newprio div 8),
                                OSTCBBitX := 2 ^ (newprio mod 8)\<rparr>) s4
                     in (OS_ERR_NONE, if OSRunning s5 then OS_Sched s5 else s5))))"

subsection \<open>Deleting tasks\<close>

text \<open>The two critical sections of \<open>OSTaskDel\<close>; interrupts are enabled for a moment between them.\<close>

definition task_del_wait :: "ptr \<Rightarrow> os_state \<Rightarrow> os_state" where
  "task_del_wait ptcb s =
     (let s1 = tcb_unrdy ptcb s;
          s2 = (if OSTCBEventPtr (OSTCBTbl s1 ptcb) \<noteq> NULL
                then OS_EventTaskRemove ptcb (OSTCBEventPtr (OSTCBTbl s1 ptcb)) s1 else s1);
          s3 = (case OSTCBEventMultiPtr (OSTCBTbl s2 ptcb) of None \<Rightarrow> s2
                | Some pevents \<Rightarrow> OS_EventTaskRemoveMulti ptcb pevents s2);
          s4 = (if OSTCBFlagNode (OSTCBTbl s3 ptcb) \<noteq> NULL
                then OS_FlagUnlink (OSTCBFlagNode (OSTCBTbl s3 ptcb)) s3 else s3);
          s5 = upd_tcb ptcb (\<lambda>t. t\<lparr>OSTCBDly := 0, OSTCBStat := OS_STAT_RDY, OSTCBStatPend := OS_STAT_PEND_OK\<rparr>) s4
      in if OSLockNesting s5 < 255 then s5\<lparr>OSLockNesting := OSLockNesting s5 + 1\<rparr> else s5)"

definition task_del_free :: "nat \<Rightarrow> ptr \<Rightarrow> os_state \<Rightarrow> os_state" where
  "task_del_free prio ptcb s =
     (let s1 = (if OSLockNesting s > 0 then s\<lparr>OSLockNesting := OSLockNesting s - 1\<rparr> else s);
          s2 = s1\<lparr>OSTaskCtr := OSTaskCtr s1 - 1, OSTCBPrioTbl := (OSTCBPrioTbl s1)(prio := NULL)\<rparr>;
          pnext = OSTCBNext (OSTCBTbl s2 ptcb); pprev = OSTCBPrev (OSTCBTbl s2 ptcb);
          s3 = (if pprev = NULL
                then (upd_tcb pnext (\<lambda>t. t\<lparr>OSTCBPrev := NULL\<rparr>) s2)\<lparr>OSTCBList := pnext\<rparr>
                else upd_tcb pnext (\<lambda>t. t\<lparr>OSTCBPrev := pprev\<rparr>) (upd_tcb pprev (\<lambda>t. t\<lparr>OSTCBNext := pnext\<rparr>) s2));
          s4 = tcb_free ptcb s3
      in upd_tcb ptcb (\<lambda>t. t\<lparr>OSTCBTaskName := ''?''\<rparr>) s4)"

definition OSTaskDel :: "nat \<Rightarrow> os_state \<Rightarrow> INT8U \<times> os_state" where
  "OSTaskDel prio s =
     (if OSIntNesting s > 0 then (OS_ERR_TASK_DEL_ISR, s)
      else if prio = OS_TASK_IDLE_PRIO then (OS_ERR_TASK_DEL_IDLE, s)
      else if prio \<ge> OS_LOWEST_PRIO \<and> prio \<noteq> OS_PRIO_SELF then (OS_ERR_PRIO_INVALID, s)
      else (let prio = (if prio = OS_PRIO_SELF then OSTCBPrio (OSTCBTbl s (OSTCBCur s)) else prio);
                ptcb = OSTCBPrioTbl s prio
            in if ptcb = NULL then (OS_ERR_TASK_NOT_EXIST, s)
               else if ptcb = OS_TCB_RESERVED then (OS_ERR_TASK_DEL, s)
               else (let s1 = task_del_free prio ptcb (task_del_wait ptcb s)
                     in (OS_ERR_NONE, if OSRunning s1 then OS_Sched s1 else s1))))"

definition OS_TaskReturn :: "os_state \<Rightarrow> os_state" where
  "OS_TaskReturn s = snd (OSTaskDel OS_PRIO_SELF s)"

definition OSTaskDelReq :: "nat \<Rightarrow> os_state \<Rightarrow> INT8U \<times> os_state" where
  "OSTaskDelReq prio s =
     (if prio = OS_TASK_IDLE_PRIO then (OS_ERR_TASK_DEL_IDLE, s)
      else if prio \<ge> OS_LOWEST_PRIO \<and> prio \<noteq> OS_PRIO_SELF then (OS_ERR_PRIO_INVALID, s)
      else if prio = OS_PRIO_SELF then (OSTCBDelReq (OSTCBTbl s (OSTCBCur s)), s)
      else (let ptcb = OSTCBPrioTbl s prio
            in if ptcb = NULL then (OS_ERR_TASK_NOT_EXIST, s)
               else if ptcb = OS_TCB_RESERVED then (OS_ERR_TASK_DEL, s)
               else (OS_ERR_NONE, upd_tcb ptcb (\<lambda>t. t\<lparr>OSTCBDelReq := OS_ERR_TASK_DEL_REQ\<rparr>) s)))"

subsection \<open>Suspending and resuming\<close>

definition OSTaskSuspend :: "nat \<Rightarrow> os_state \<Rightarrow> INT8U \<times> os_state" where
  "OSTaskSuspend prio s =
     (if prio = OS_TASK_IDLE_PRIO then (OS_ERR_TASK_SUSPEND_IDLE, s)
      else if prio \<ge> OS_LOWEST_PRIO \<and> prio \<noteq> OS_PRIO_SELF then (OS_ERR_PRIO_INVALID, s)
      else (let curprio = OSTCBPrio (OSTCBTbl s (OSTCBCur s));
                (prio, self) = (if prio = OS_PRIO_SELF then (curprio, True)
                                else if prio = curprio then (prio, True) else (prio, False));
                ptcb = OSTCBPrioTbl s prio
            in if ptcb = NULL then (OS_ERR_TASK_SUSPEND_PRIO, s)
               else if ptcb = OS_TCB_RESERVED then (OS_ERR_TASK_NOT_EXIST, s)
               else (let s1 = upd_tcb ptcb (\<lambda>t. t\<lparr>OSTCBStat := OSTCBStat t OR OS_STAT_SUSPEND\<rparr>) (tcb_unrdy ptcb s)
                     in (OS_ERR_NONE, if self then OS_Sched s1 else s1))))"

definition OSTaskResume :: "nat \<Rightarrow> os_state \<Rightarrow> INT8U \<times> os_state" where
  "OSTaskResume prio s =
     (if prio \<ge> OS_LOWEST_PRIO then (OS_ERR_PRIO_INVALID, s)
      else (let ptcb = OSTCBPrioTbl s prio
            in if ptcb = NULL then (OS_ERR_TASK_RESUME_PRIO, s)
               else if ptcb = OS_TCB_RESERVED then (OS_ERR_TASK_NOT_EXIST, s)
               else if OSTCBStat (OSTCBTbl s ptcb) AND OS_STAT_SUSPEND \<noteq> OS_STAT_RDY
               then (let s1 = upd_tcb ptcb (\<lambda>t. t\<lparr>OSTCBStat := OSTCBStat t AND NOT OS_STAT_SUSPEND\<rparr>) s
                     in (OS_ERR_NONE,
                         if OSTCBStat (OSTCBTbl s1 ptcb) = OS_STAT_RDY
                         then if OSTCBDly (OSTCBTbl s1 ptcb) = 0
                              then (let s2 = tcb_rdy ptcb s1 in if OSRunning s2 then OS_Sched s2 else s2)
                              else s1
                         else s1))
               else (OS_ERR_TASK_NOT_SUSPENDED, s)))"

subsection \<open>Names, stack check, query, registers\<close>

definition self_prio :: "nat \<Rightarrow> os_state \<Rightarrow> nat" where
  "self_prio prio s = (if prio = OS_PRIO_SELF then OSTCBPrio (OSTCBTbl s (OSTCBCur s)) else prio)"

definition OSTaskNameGet :: "nat \<Rightarrow> ptr \<Rightarrow> os_state \<Rightarrow> INT8U \<times> string option \<times> INT8U" where
  "OSTaskNameGet prio pname s =
     (if prio > OS_LOWEST_PRIO \<and> prio \<noteq> OS_PRIO_SELF then (0, None, OS_ERR_PRIO_INVALID)
      else if pname = NULL then (0, None, OS_ERR_PNAME_NULL)
      else if OSIntNesting s > 0 then (0, None, OS_ERR_NAME_GET_ISR)
      else (let ptcb = OSTCBPrioTbl s (self_prio prio s)
            in if ptcb = NULL then (0, None, OS_ERR_TASK_NOT_EXIST)
               else if ptcb = OS_TCB_RESERVED then (0, None, OS_ERR_TASK_NOT_EXIST)
               else (let nm = OSTCBTaskName (OSTCBTbl s ptcb)
                     in (OS_StrLen (Some nm), Some nm, OS_ERR_NONE))))"

definition OSTaskNameSet :: "nat \<Rightarrow> string option \<Rightarrow> os_state \<Rightarrow> INT8U \<times> os_state" where
  "OSTaskNameSet prio pname s =
     (if prio > OS_LOWEST_PRIO \<and> prio \<noteq> OS_PRIO_SELF then (OS_ERR_PRIO_INVALID, s)
      else (case pname of
              None \<Rightarrow> (OS_ERR_PNAME_NULL, s)
            | Some nm \<Rightarrow>
                if OSIntNesting s > 0 then (OS_ERR_NAME_SET_ISR, s)
                else (let ptcb = OSTCBPrioTbl s (self_prio prio s)
                      in if ptcb = NULL then (OS_ERR_TASK_NOT_EXIST, s)
                         else if ptcb = OS_TCB_RESERVED then (OS_ERR_TASK_NOT_EXIST, s)
                         else (OS_ERR_NONE, upd_tcb ptcb (\<lambda>t. t\<lparr>OSTCBTaskName := nm\<rparr>) s))))"

definition OSTaskStkChk :: "nat \<Rightarrow> ptr \<Rightarrow> os_state \<Rightarrow> (INT8U \<times> OS_STK_DATA option) option" where
  "OSTaskStkChk prio p_stk_data s =
     (if prio > OS_LOWEST_PRIO \<and> prio \<noteq> OS_PRIO_SELF then Some (OS_ERR_PRIO_INVALID, None)
      else if p_stk_data = NULL then Some (OS_ERR_PDATA_NULL, None)
      else (let zero = \<lparr>OSFree = 0, OSUsed = 0\<rparr>;
                ptcb = OSTCBPrioTbl s (self_prio prio s)
            in if ptcb = NULL then Some (OS_ERR_TASK_NOT_EXIST, Some zero)
               else if ptcb = OS_TCB_RESERVED then Some (OS_ERR_TASK_NOT_EXIST, Some zero)
               else if OSTCBOpt (OSTCBTbl s ptcb) AND OS_TASK_OPT_STK_CHK = 0 then Some (OS_ERR_TASK_OPT, Some zero)
               else (case stk_free (OSTCBStkBottom (OSTCBTbl s ptcb)) 0 s of
                       None \<Rightarrow> None
                     | Some nfree \<Rightarrow>
                         Some (OS_ERR_NONE, Some \<lparr>OSFree = nfree, OSUsed = OSTCBStkSize (OSTCBTbl s ptcb) - nfree\<rparr>))))"

definition OSTaskQuery :: "nat \<Rightarrow> ptr \<Rightarrow> os_state \<Rightarrow> INT8U \<times> OS_TCB option" where
  "OSTaskQuery prio p_task_data s =
     (if prio > OS_LOWEST_PRIO \<and> prio \<noteq> OS_PRIO_SELF then (OS_ERR_PRIO_INVALID, None)
      else if p_task_data = NULL then (OS_ERR_PDATA_NULL, None)
      else (let ptcb = OSTCBPrioTbl s (self_prio prio s)
            in if ptcb = NULL then (OS_ERR_PRIO, None)
               else if ptcb = OS_TCB_RESERVED then (OS_ERR_TASK_NOT_EXIST, None)
               else (OS_ERR_NONE, Some (OSTCBTbl s ptcb))))"

text \<open>
  The register services do not check that the task exists: for a free priority they access whatever
  is at the null pointer (or at \<open>OS_TCB_RESERVED\<close>), here the store at that address.
\<close>

abbreviation (input) OS_TASK_REG_TBL_SIZE :: INT8U where "OS_TASK_REG_TBL_SIZE \<equiv> 1"

definition OSTaskRegGet :: "nat \<Rightarrow> INT8U \<Rightarrow> os_state \<Rightarrow> INT32U \<times> INT8U" where
  "OSTaskRegGet prio ident s =
     (if prio \<ge> OS_LOWEST_PRIO \<and> prio \<noteq> OS_PRIO_SELF then (0, OS_ERR_PRIO_INVALID)
      else if ident \<ge> OS_TASK_REG_TBL_SIZE then (0, OS_ERR_ID_INVALID)
      else (let ptcb = (if prio = OS_PRIO_SELF then OSTCBCur s else OSTCBPrioTbl s prio)
            in (OSTCBRegTbl (OSTCBTbl s ptcb) (unat ident), OS_ERR_NONE)))"

definition OSTaskRegSet :: "nat \<Rightarrow> INT8U \<Rightarrow> INT32U \<Rightarrow> os_state \<Rightarrow> INT8U \<times> os_state" where
  "OSTaskRegSet prio ident val s =
     (if prio \<ge> OS_LOWEST_PRIO \<and> prio \<noteq> OS_PRIO_SELF then (OS_ERR_PRIO_INVALID, s)
      else if ident \<ge> OS_TASK_REG_TBL_SIZE then (OS_ERR_ID_INVALID, s)
      else (let ptcb = (if prio = OS_PRIO_SELF then OSTCBCur s else OSTCBPrioTbl s prio)
            in (OS_ERR_NONE, upd_tcb ptcb (\<lambda>t. t\<lparr>OSTCBRegTbl := (OSTCBRegTbl t)(unat ident := val)\<rparr>) s)))"

subsection \<open>Task control blocks\<close>

definition tcb_pool :: "os_state \<Rightarrow> ptr list \<Rightarrow> bool" where
  "tcb_pool s xs \<longleftrightarrow> path (\<lambda>t. OSTCBNext (OSTCBTbl s t)) (OSTCBFreeList s) xs \<and> distinct xs"

interpretation tcbpool: free_list tcb_pool tcb_alloc tcb_free "\<lambda>_. True"
proof (unfold_locales, goal_cases)
  case (1 s xs ys)
  then show ?case by (auto simp: tcb_pool_def dest: path_unique)
next
  case (2 s xs)
  then show ?case by (simp add: tcb_pool_def)
next
  case (3 s xs)
  then show ?case by (auto simp: tcb_pool_def dest: path_nonzero)
next
  case (4 s)
  then show ?case by (simp add: tcb_pool_def tcb_alloc_def)
next
  case (5 s x xs)
  then show ?case by (auto simp: tcb_pool_def tcb_alloc_def Let_def)
next
  case (6 s xs x)
  then have "path (\<lambda>t. OSTCBNext (OSTCBTbl (tcb_free x s) t)) (OSTCBFreeList s) xs
      = path (\<lambda>t. OSTCBNext (OSTCBTbl s t)) (OSTCBFreeList s) xs"
    by (intro path_cong) (auto simp: tcb_free_def)
  with 6 show ?case by (auto simp: tcb_pool_def tcb_free_def)
qed

end
