(* ===== verification/Task_Life.thy ===== *)
theory Task_Life
  imports OS_Task
begin

text \<open>
  What the task services promise: suspending and resuming, the life of a task from creation to
  deletion, and the change of a priority.  These services change the set of tasks, so the kernel
  invariant is restated priority by priority (\<open>prio_inv\<close>): an operation has to be looked at for the
  priorities it affects only.
\<close>

subsection \<open>The invariant, one priority at a time\<close>

definition prio_inv :: "os_state \<Rightarrow> nat \<Rightarrow> bool" where
  "prio_inv s q \<longleftrightarrow>
     (is_task s q \<longrightarrow> q < 64 \<and> tcb_prio_ok q (task_at s q) \<and> OSTCBEventMultiPtr (task_at s q) = None
        \<and> OSTCBStat (task_at s q) AND NOT (OS_STAT_PEND_ANY OR OS_STAT_SUSPEND) = 0
        \<and> (OSTCBStat (task_at s q) AND (OS_STAT_PEND_ANY AND NOT OS_STAT_FLAG) \<noteq> 0
            \<longrightarrow> waits s (OSTCBEventPtr (task_at s q)) q))
     \<and> (rdy s q \<longleftrightarrow> is_task s q \<and> tcb_runnable (task_at s q))
     \<and> (\<forall>e. waits s e q \<longrightarrow> is_task s q \<and> OSTCBEventPtr (task_at s q) = e \<and> e \<noteq> NULL
          \<and> event_stat (OSEventType (OSEvents s e)) \<noteq> 0
          \<and> wait_stat_ok (task_at s q) (event_stat (OSEventType (OSEvents s e))))"

lemma kinv_local:
  "kinv s \<longleftrightarrow> bm_ok (rdy_map s) \<and> (\<forall>e. bm_ok (event_map (OSEvents s e)))
     \<and> (\<forall>q. prio_inv s q) \<and> rdy s OS_TASK_IDLE_PRIO"
  unfolding kinv_def tcbs_ok_def rdy_ok_def wait_ok_def blocked_ok_def prio_inv_def
  by (rule iffI; intro conjI allI impI; blast)

lemma prio_inv_cong:
  assumes "is_task s' q = is_task s q" and "is_task s q \<Longrightarrow> tcb_same (task_at s' q) (task_at s q)"
    and "rdy s' q = rdy s q" and "\<And>e. waits s' e q = waits s e q"
    and "\<And>e. OSEventType (OSEvents s' e) = OSEventType (OSEvents s e)"
  shows "prio_inv s' q = prio_inv s q"
proof (cases "is_task s q")
  case True
  show ?thesis unfolding prio_inv_def assms(1,3-) tcb_same_simps [OF assms(2) [OF True]] ..
qed (simp add: prio_inv_def assms)

lemma prio_inv_none: "\<not> is_task s q \<Longrightarrow> \<not> rdy s q \<Longrightarrow> (\<And>e. \<not> waits s e q) \<Longrightarrow> prio_inv s q"
  by (simp add: prio_inv_def)

subsection \<open>Suspending and resuming\<close>

lemma OSTaskSuspend_ok:
  assumes ok: "kernel_ok s" and task: "is_task s p" and p: "p < OS_LOWEST_PRIO"
    and r: "OSTaskSuspend p s = (err, s')"
  shows "err = OS_ERR_NONE \<and> kernel_ok s' \<and> \<not> rdy s' p \<and> (\<forall>q. q \<noteq> p \<longrightarrow> rdy s' q = rdy s q)
    \<and> OSTCBStat (task_at s' p) = OSTCBStat (task_at s p) OR OS_STAT_SUSPEND
    \<and> OSTCBDly (task_at s' p) = OSTCBDly (task_at s p) \<and> OSEvents s' = OSEvents s
    \<and> (p = OSPrioCur s \<and> OSIntNesting s = 0 \<and> OSLockNesting s = 0 \<longrightarrow> OSPrioCur s' \<noteq> p)"
proof -
  note inv = kernel_okD(2) [OF ok]
  note p64 = task_prio_ok [OF inv task]
  have cp: "OSTCBPrio (OSTCBTbl s (OSTCBCur s)) = OSPrioCur s"
    using kernel_okD(3) [OF ok] task_prio [OF inv, of "OSPrioCur s"] by (auto simp: cur_ok_def task_at_def)
  let ?t = "OSTCBPrioTbl s p"
  define T where "T = (task_at s p)\<lparr>OSTCBStat := OSTCBStat (task_at s p) OR OS_STAT_SUSPEND\<rparr>"
  define s1 where "s1 = upd_tcb ?t (\<lambda>t. t\<lparr>OSTCBStat := OSTCBStat t OR OS_STAT_SUSPEND\<rparr>) (tcb_unrdy ?t s)"
  have e: "err = OS_ERR_NONE" "s' = (if p = OSPrioCur s then OS_Sched s1 else s1)"
    using r task p unfolding OSTaskSuspend_def Let_def cp is_task_def s1_def
    by (cases "p = OSPrioCur s"; simp)+
  have un: "tcb_unrdy ?t s = set_rdy_map (bm_del p (rdy_map s)) s"
    using p64 unfolding task_at_def by (intro tcb_unrdy_eq) simp
  have f: "OSTCBPrioTbl s1 = OSTCBPrioTbl s" "OSEvents s1 = OSEvents s" "OSEventFreeList s1 = OSEventFreeList s"
    "OSTCBCur s1 = OSTCBCur s" "OSPrioCur s1 = OSPrioCur s" "OSIntNesting s1 = OSIntNesting s"
    "OSLockNesting s1 = OSLockNesting s" "rdy_map s1 = bm_del p (rdy_map s)" "OSTCBTbl s1 = (OSTCBTbl s)(?t := T)"
    by (simp_all add: s1_def un) (simp add: T_def task_at_def)
  have rdy1: "rdy s1 q \<longleftrightarrow> q \<noteq> p \<and> rdy s q" for q using p64 by (simp add: rdy_def f bm_mem_del)
  have mask: "OSTCBStat (task_at s p) AND NOT (OS_STAT_PEND_ANY OR OS_STAT_SUSPEND) = 0"
    and multi: "OSTCBEventMultiPtr (task_at s p) = None"
    using inv task by (simp_all add: kinv_def tcbs_ok_def)
  have pend: "(x OR OS_STAT_SUSPEND) AND OS_STAT_PEND_ANY = x AND OS_STAT_PEND_ANY" for x
    by (simp add: bit.conj_disj_distrib2)
  have susp: "(x OR OS_STAT_SUSPEND) AND (OS_STAT_PEND_ANY OR OS_STAT_SUSPEND) \<noteq> 0" for x :: "8 word"
  proof
    assume "(x OR OS_STAT_SUSPEND) AND (OS_STAT_PEND_ANY OR OS_STAT_SUSPEND) = 0"
    then have "bit ((x OR OS_STAT_SUSPEND) AND (OS_STAT_PEND_ANY OR OS_STAT_SUSPEND)) 3 = False" by simp
    then show False by (simp add: bit_and_iff bit_or_iff)
  qed
  have kin: "kinv s1"
  proof (rule kinv_task_status [OF inv task f(1,9,2)])
    show "rdy s1 p = tcb_runnable T" using rdy1 susp by (simp add: tcb_runnable_def T_def)
    show "OSTCBStat T AND NOT (OS_STAT_PEND_ANY OR OS_STAT_SUSPEND) = 0"
      unfolding T_def using mask by (simp add: bit.conj_disj_distrib2)
    show "OSTCBStat T AND OS_STAT_PEND_ANY \<in> {0, OS_STAT_FLAG, OSTCBStat (task_at s p) AND OS_STAT_PEND_ANY}"
      by (simp add: T_def pend)
    show "wait_stat_ok T st" if "wait_stat_ok (task_at s p) st" for st
      using that by (simp add: wait_stat_ok_def T_def pend)
  qed (use p64 p multi f(8) in \<open>simp_all add: T_def tcb_prio_ok_def\<close>)
  moreover have "cur_ok s1 = cur_ok s" by (rule cur_ok_cong) (simp_all add: f)
  moreover have "events_ok s1" by (rule events_ok_cong [OF _ _ kernel_okD(5) [OF ok]]) (simp_all add: f)
  ultimately have d: "data_ok s1" using kernel_okD [OF ok] by (simp add: data_ok_def)
  have k: "kernel_ok s'"
  proof (cases "p = OSPrioCur s")
    case True
    then show ?thesis using kernel_ok_Sched [OF d] e by simp
  next
    case False
    then have "sched_ok s1"
      using kernel_okD(4) [OF ok] rdy1 \<open>cur_ok s1 = cur_ok s\<close> unfolding sched_ok_def f by auto
    then show ?thesis using d e False by (simp add: kernel_ok_def)
  qed
  have "task_at s1 p = T" by (simp add: task_at_def f)
  moreover have "\<not> rdy s' p" "\<And>q. q \<noteq> p \<Longrightarrow> rdy s' q = rdy s q" using rdy1 by (simp_all add: e)
  moreover have "OSPrioCur s' \<noteq> p" if "p = OSPrioCur s" "OSIntNesting s = 0" "OSLockNesting s = 0"
    using kernel_ok_cur_ready [OF k] that \<open>\<not> rdy s' p\<close> e f by (metis OS_Sched_frame)
  ultimately show ?thesis
    using k e(1) by (auto simp: e(2) task_at_Sched f T_def)
qed

text \<open>
  Suspending a task takes it off the ready list and marks it, whatever else it waits for; its place
  in a wait list, its delay and the other tasks are not touched, and a task that suspends itself
  stops running.
\<close>

lemma OSTaskSuspend_correct:
  assumes ok: "kernel_ok s" and task: "is_task s p" and p: "p < OS_LOWEST_PRIO"
    and r: "OSTaskSuspend p s = (err, s')"
  shows "err = OS_ERR_NONE \<and> kernel_ok s' \<and> \<not> rdy s' p \<and> (\<forall>q. q \<noteq> p \<longrightarrow> rdy s' q = rdy s q)
    \<and> OSTCBStat (task_at s' p) = OSTCBStat (task_at s p) OR OS_STAT_SUSPEND
    \<and> OSTCBDly (task_at s' p) = OSTCBDly (task_at s p) \<and> OSEvents s' = OSEvents s
    \<and> (p = OSPrioCur s \<and> OSIntNesting s = 0 \<and> OSLockNesting s = 0 \<longrightarrow> OSPrioCur s' \<noteq> p)"
  using assms by (rule OSTaskSuspend_ok)


lemma OSTaskSuspend_correct_example:
  "OSTCBStat (task_at (snd (OSTaskSuspend 10 (ex_state 0))) 10) = OS_STAT_SEM OR OS_STAT_SUSPEND
     \<and> waits (snd (OSTaskSuspend 10 (ex_state 0))) 1 10
     \<and> OSPrioCur (snd (OSTaskSuspend 4 (ex_state 0))) \<noteq> 4"
proof -
  have st: "OSPrioCur (ex_state 0) = 4" "OSIntNesting (ex_state 0) = 0" "OSLockNesting (ex_state 0) = 0"
    "OSTCBStat (task_at (ex_state 0) 10) = OS_STAT_SEM"
    by (simp_all add: ex_at) (simp_all add: ex_state_simps)
  have e10: "OSEvents (snd (OSTaskSuspend 10 (ex_state 0))) = OSEvents (ex_state 0)"
    "OSTCBStat (task_at (snd (OSTaskSuspend 10 (ex_state 0))) 10) = OS_STAT_SEM OR OS_STAT_SUSPEND"
    using OSTaskSuspend_correct [OF ex_kernel_ok _ _ surjective_pairing, of 0 10] st by (simp_all add: ex_tasks)
  have "OSPrioCur (snd (OSTaskSuspend 4 (ex_state 0))) \<noteq> 4"
    using OSTaskSuspend_correct [OF ex_kernel_ok _ _ surjective_pairing, of 0 4] st by (simp add: ex_tasks)
  then show ?thesis using e10 ex_waits [of 0 1 10] by (simp add: waits_def)
qed

lemma OSTaskResume_ok:
  assumes ok: "kernel_ok s" and task: "is_task s p" and p: "p < OS_LOWEST_PRIO" and run: "OSRunning s"
    and r: "OSTaskResume p s = (err, s')"
  shows "(OSTCBStat (task_at s p) AND OS_STAT_SUSPEND = 0 \<longrightarrow> err = OS_ERR_TASK_NOT_SUSPENDED \<and> s' = s)
    \<and> (OSTCBStat (task_at s p) AND OS_STAT_SUSPEND \<noteq> 0 \<longrightarrow> err = OS_ERR_NONE \<and> kernel_ok s'
        \<and> OSTCBStat (task_at s' p) = OSTCBStat (task_at s p) AND NOT OS_STAT_SUSPEND
        \<and> (rdy s' p \<longleftrightarrow> OSTCBStat (task_at s' p) = OS_STAT_RDY \<and> OSTCBDly (task_at s p) = 0)
        \<and> (\<forall>q. q \<noteq> p \<longrightarrow> rdy s' q = rdy s q) \<and> OSEvents s' = OSEvents s)"
proof (cases "OSTCBStat (task_at s p) AND OS_STAT_SUSPEND = 0")
  case True
  then show ?thesis using r task p by (simp add: OSTaskResume_def is_task_def task_at_def)
next
  case susp: False
  note inv = kernel_okD(2) [OF ok]
  note p64 = task_prio_ok [OF inv task]
  let ?t = "OSTCBPrioTbl s p"
  define st where "st = OSTCBStat (task_at s p) AND NOT OS_STAT_SUSPEND"
  define T where "T = (task_at s p)\<lparr>OSTCBStat := st\<rparr>"
  define s1 where "s1 = upd_tcb ?t (\<lambda>t. t\<lparr>OSTCBStat := OSTCBStat t AND NOT OS_STAT_SUSPEND\<rparr>) s"
  let ?go = "st = 0 \<and> OSTCBDly (task_at s p) = 0"
  define s2 where "s2 = (if ?go then set_rdy_map (bm_ins p (rdy_map s)) s1 else s1)"
  have t1: "OSTCBTbl s1 ?t = T" "OSRunning s1" "rdy_map s1 = rdy_map s"
    using run by (simp_all add: s1_def T_def st_def task_at_def)
  have rd: "tcb_rdy ?t s1 = set_rdy_map (bm_ins p (rdy_map s)) s1"
    using p64 t1 by (subst tcb_rdy_eq [of p]) (simp_all add: tcb_prio_ok_def T_def)
  have "OSTaskResume p s = (OS_ERR_NONE, if ?go then OS_Sched s2 else s2)"
    using p task susp t1(1,2) unfolding OSTaskResume_def Let_def s1_def [symmetric] rd s2_def
    by (simp add: is_task_def task_at_def T_def)
  then have e: "err = OS_ERR_NONE" "s' = (if ?go then OS_Sched s2 else s2)" using r by simp_all
  have f: "OSTCBPrioTbl s2 = OSTCBPrioTbl s" "OSEvents s2 = OSEvents s" "OSEventFreeList s2 = OSEventFreeList s"
    "OSTCBCur s2 = OSTCBCur s" "OSPrioCur s2 = OSPrioCur s" "OSIntNesting s2 = OSIntNesting s"
    "OSLockNesting s2 = OSLockNesting s" "rdy_map s2 = (if ?go then bm_ins p (rdy_map s) else rdy_map s)"
    "OSTCBTbl s2 = (OSTCBTbl s)(?t := T)"
    by (simp_all add: s2_def s1_def) (simp add: T_def task_at_def st_def)
  have mask: "OSTCBStat (task_at s p) AND NOT (OS_STAT_PEND_ANY OR OS_STAT_SUSPEND) = 0"
    and multi: "OSTCBEventMultiPtr (task_at s p) = None"
    using inv task by (simp_all add: kinv_def tcbs_ok_def)
  have maskT: "st AND NOT (OS_STAT_PEND_ANY OR OS_STAT_SUSPEND) = 0" unfolding st_def by (rule stat_mask_clear [OF mask])
  have runT: "tcb_runnable T \<longleftrightarrow> ?go"
    using stat_within [OF maskT] by (simp add: tcb_runnable_def T_def)
  have nrdy: "\<not> rdy s p"
    using rdy_iff [OF inv, of p] susp stat_mask_or_zero [of "OSTCBStat (task_at s p)" OS_STAT_SUSPEND OS_STAT_PEND_ANY]
    by (auto simp: tcb_runnable_def or.commute)
  have rdy2: "rdy s2 q \<longleftrightarrow> (if q = p then ?go else rdy s q)" for q
    using p64 nrdy by (auto simp: rdy_def f bm_mem_ins)
  have pend: "st AND OS_STAT_PEND_ANY = OSTCBStat (task_at s p) AND OS_STAT_PEND_ANY"
    by (simp add: st_def and.assoc)
  have "kinv s2"
  proof (rule kinv_task_status [OF inv task f(1,9,2)])
    show "rdy s2 p = tcb_runnable T" by (simp add: rdy2 runT)
    show "wait_stat_ok T w" if "wait_stat_ok (task_at s p) w" for w
      using that by (simp add: wait_stat_ok_def T_def pend)
    show "OSTCBStat T AND OS_STAT_PEND_ANY \<in> {0, OS_STAT_FLAG, OSTCBStat (task_at s p) AND OS_STAT_PEND_ANY}"
      by (simp add: T_def pend)
  qed (use p64 p multi maskT f(8) in \<open>simp_all add: T_def tcb_prio_ok_def\<close>)
  moreover have cur: "cur_ok s2 = cur_ok s" by (rule cur_ok_cong) (simp_all add: f)
  moreover have "events_ok s2" by (rule events_ok_cong [OF _ _ kernel_okD(5) [OF ok]]) (simp_all add: f)
  ultimately have d: "data_ok s2" using kernel_okD [OF ok] by (simp add: data_ok_def)
  have k: "kernel_ok s'"
  proof (cases ?go)
    case True
    then show ?thesis using kernel_ok_Sched [OF d] e by simp
  next
    case False
    then have "sched_ok s2 = sched_ok s" by (intro sched_ok_cong) (auto simp: f)
    then show ?thesis using d e False kernel_okD(4) [OF ok] by (auto simp: kernel_ok_def)
  qed
  have "OSTCBStat (task_at s' p) = st"
    by (simp add: e(2) task_at_Sched) (simp add: task_at_def f T_def)
  moreover have "rdy s' q \<longleftrightarrow> (if q = p then ?go else rdy s q)" "OSEvents s' = OSEvents s" for q
    by (simp_all add: e(2) rdy2 f)
  ultimately show ?thesis using susp k e(1) by (simp add: st_def)
qed

text \<open>
  Resuming undoes a suspension: the task becomes ready exactly when it neither waits nor is delayed,
  and the highest ready task runs; a task that is not suspended is reported and nothing changes.
\<close>

lemma OSTaskResume_correct:
  assumes ok: "kernel_ok s" and task: "is_task s p" and p: "p < OS_LOWEST_PRIO" and run: "OSRunning s"
    and r: "OSTaskResume p s = (err, s')"
  shows "(OSTCBStat (task_at s p) AND OS_STAT_SUSPEND = 0 \<longrightarrow> err = OS_ERR_TASK_NOT_SUSPENDED \<and> s' = s)
    \<and> (OSTCBStat (task_at s p) AND OS_STAT_SUSPEND \<noteq> 0 \<longrightarrow> err = OS_ERR_NONE \<and> kernel_ok s'
        \<and> OSTCBStat (task_at s' p) = OSTCBStat (task_at s p) AND NOT OS_STAT_SUSPEND
        \<and> (rdy s' p \<longleftrightarrow> OSTCBStat (task_at s' p) = OS_STAT_RDY \<and> OSTCBDly (task_at s p) = 0)
        \<and> (\<forall>q. q \<noteq> p \<longrightarrow> rdy s' q = rdy s q) \<and> OSEvents s' = OSEvents s)"
  using assms by (rule OSTaskResume_ok)

lemma OSTaskResume_correct_example:
  "fst (OSTaskResume 4 (ex_state 0)) = OS_ERR_TASK_NOT_SUSPENDED
     \<and> (\<exists>s. rdy s 4 = False \<and> kernel_ok (snd (OSTaskResume 4 s)) \<and> rdy (snd (OSTaskResume 4 s)) 4)"
proof -
  have run: "OSRunning (ex_state 0)" by (simp add: ex_state_simps)
  define s where "s = set_rdy_map (bm_ins 63 bm_empty) ((ex_state 0)\<lparr>
    OSTCBTbl := (OSTCBTbl (ex_state 0))(3 := (OSTCBTbl (ex_state 0) 3)\<lparr>OSTCBStat := OS_STAT_SUSPEND\<rparr>),
    OSTCBCur := 2, OSPrioCur := 63\<rparr>)"
  have t: "is_task s q = is_task (ex_state 0) q" "waits s e q = waits (ex_state 0) e q" "OSEvents s = OSEvents (ex_state 0)"
    "task_at s 4 = (task_at (ex_state 0) 4)\<lparr>OSTCBStat := OS_STAT_SUSPEND\<rparr>"
    "task_at s 10 = task_at (ex_state 0) 10" "task_at s 63 = task_at (ex_state 0) 63" for q e
    by (simp_all add: s_def is_task_def waits_def task_at_def) (simp_all add: ex_state_def)
  have r: "rdy s q \<longleftrightarrow> q = 63" for q by (simp add: s_def rdy_def bm_mem_ins)
  note inv = kernel_okD(2) [OF ex_kernel_ok [of 0], unfolded kinv_local]
  have old: "prio_inv (ex_state 0) q" for q using inv by blast
  have "prio_inv s q" for q
  proof (cases "q = 4")
    case True
    show ?thesis using old [of 4] by (simp add: True prio_inv_def t r ex_waits ex_at ex_tasks tcb_prio_ok_def)
        (simp add: tcb_runnable_def)
  next
    case False
    then show ?thesis using old [of q]
      by (subst prio_inv_cong [of s q "ex_state 0"]) (auto simp: t r ex_tasks ex_rdy)
  qed
  moreover have "bm_ok (rdy_map s)" by (simp add: s_def bm_ok_ins)
  ultimately have kin: "kinv s" using inv unfolding kinv_local t r by blast
  moreover have "cur_ok s" unfolding cur_ok_def t ex_tasks by (simp add: s_def) (simp add: ex_state_simps)
  moreover have "events_ok s"
    by (rule events_ok_cong [OF _ _ kernel_okD(5) [OF ex_kernel_ok [of 0]]]) (simp_all add: s_def)
  moreover have "sched_ok s" using \<open>cur_ok s\<close> by (simp add: sched_ok_def r) (simp add: s_def)
  ultimately have k: "kernel_ok s" by (simp add: kernel_ok_def data_ok_def)
  have "OSRunning s" using run by (simp add: s_def)
  have "OSTCBStat (task_at s 4) = OS_STAT_SUSPEND" "OSTCBDly (task_at s 4) = 0"
    by (simp_all add: t ex_at) (simp add: ex_state_simps)
  then have "kernel_ok (snd (OSTaskResume 4 s)) \<and> rdy (snd (OSTaskResume 4 s)) 4"
    using OSTaskResume_correct [OF k _ _ \<open>OSRunning s\<close> surjective_pairing, of 4] by (simp add: t ex_tasks)
  moreover have "OSTCBStat (task_at (ex_state 0) 4) = 0" by (simp add: ex_at) (simp add: ex_state_simps)
  then have "fst (OSTaskResume 4 (ex_state 0)) = OS_ERR_TASK_NOT_SUSPENDED"
    using OSTaskResume_correct [OF ex_kernel_ok _ _ run surjective_pairing, of 4] by (simp add: ex_tasks)
  ultimately show ?thesis using r [of 4] by auto
qed


subsection \<open>The list of tasks and the pool of blocks\<close>

abbreviation tcb_next :: "os_state \<Rightarrow> ptr \<Rightarrow> ptr" where
  "tcb_next s \<equiv> \<lambda>t. OSTCBNext (OSTCBTbl s t)"

abbreviation tcb_prev :: "os_state \<Rightarrow> ptr \<Rightarrow> ptr" where
  "tcb_prev s \<equiv> \<lambda>t. OSTCBPrev (OSTCBTbl s t)"

text \<open>The list of tasks, doubly linked; the idle task is the last.\<close>

definition tcb_list :: "os_state \<Rightarrow> nat list \<Rightarrow> bool" where
  "tcb_list s ps \<longleftrightarrow>
     dll (tcb_next s) (tcb_prev s) 0 (OSTCBList s) (map (OSTCBPrioTbl s) (ps @ [OS_TASK_IDLE_PRIO]))
     \<and> distinct (ps @ [OS_TASK_IDLE_PRIO]) \<and> set (ps @ [OS_TASK_IDLE_PRIO]) = {p. is_task s p}"

definition free_tcbs :: "os_state \<Rightarrow> ptr list \<Rightarrow> bool" where
  "free_tcbs s xs \<longleftrightarrow> tcb_pool s xs
     \<and> (\<forall>x\<in>set xs. x \<noteq> OS_TCB_RESERVED \<and> (\<forall>p. is_task s p \<longrightarrow> OSTCBPrioTbl s p \<noteq> x))"

lemma dll_path: "dll nx pv pr p ns \<Longrightarrow> path nx p ns"
  by (induction ns arbitrary: pr p) auto

lemma tcb_list_chain: "tcb_list s ps \<Longrightarrow> tcb_chain s ps"
  by (auto simp: tcb_list_def tcb_chain_def dest: dll_path)

lemma tcb_list_distinct:
  assumes inv: "kinv s" and tl: "tcb_list s ps"
  shows "distinct (map (OSTCBPrioTbl s) (ps @ [OS_TASK_IDLE_PRIO]))"
proof -
  have "inj_on (OSTCBPrioTbl s) (set (ps @ [OS_TASK_IDLE_PRIO]))"
    using tl task_inj [OF inv] unfolding tcb_list_def by (intro inj_onI) auto
  then show ?thesis using tl unfolding tcb_list_def by (simp only: distinct_map)
qed

lemma tcb_list_cong:
  assumes "OSTCBList s' = OSTCBList s" and "\<And>p. is_task s p \<Longrightarrow> OSTCBPrioTbl s' p = OSTCBPrioTbl s p"
    and "\<And>p. is_task s' p = is_task s p"
    and "\<And>p. is_task s p \<Longrightarrow> tcb_next s' (OSTCBPrioTbl s p) = tcb_next s (OSTCBPrioTbl s p)
      \<and> tcb_prev s' (OSTCBPrioTbl s p) = tcb_prev s (OSTCBPrioTbl s p)"
  shows "tcb_list s' ps = tcb_list s ps"
proof (cases "set (ps @ [OS_TASK_IDLE_PRIO]) = {p. is_task s p}")
  case True
  then have t: "is_task s q" if "q \<in> set (ps @ [OS_TASK_IDLE_PRIO])" for q using that by blast
  have m: "map (OSTCBPrioTbl s') (ps @ [OS_TASK_IDLE_PRIO]) = map (OSTCBPrioTbl s) (ps @ [OS_TASK_IDLE_PRIO])"
    using t assms(2) by (intro map_cong) auto
  have "dll (tcb_next s') (tcb_prev s') 0 (OSTCBList s) (map (OSTCBPrioTbl s) (ps @ [OS_TASK_IDLE_PRIO]))
      = dll (tcb_next s) (tcb_prev s) 0 (OSTCBList s) (map (OSTCBPrioTbl s) (ps @ [OS_TASK_IDLE_PRIO]))"
    using t assms(4) by (intro dll_cong) auto
  then show ?thesis unfolding tcb_list_def assms(1,3) m by simp
next
  case False
  then show ?thesis by (simp add: tcb_list_def assms(3))
qed

lemma tcb_links_Sched:
  "OSTCBNext (OSTCBTbl (OS_Sched s) t) = OSTCBNext (OSTCBTbl s t)"
  "OSTCBPrev (OSTCBTbl (OS_Sched s) t) = OSTCBPrev (OSTCBTbl s t)"
  "OSTCBStkPtr (OSTCBTbl (OS_Sched s) t) = OSTCBStkPtr (OSTCBTbl s t)"
  using OS_Sched_tcb [of s t] by auto

subsection \<open>Creation\<close>

lemma stk_push_words: "\<exists>w. snd (stk_push ws stk s) = s\<lparr>stk_words := w\<rparr>"
proof (induction ws arbitrary: stk s)
  case Nil
  have "s = s\<lparr>stk_words := stk_words s\<rparr>" by simp
  then show ?case by (metis stk_push.simps(1) snd_conv)
next
  case (Cons w ws)
  obtain w' where "snd (stk_push ws (stk - 4) (s\<lparr>stk_words := (stk_words s)(stk - 4 := w)\<rparr>))
      = (s\<lparr>stk_words := (stk_words s)(stk - 4 := w)\<rparr>)\<lparr>stk_words := w'\<rparr>"
    using Cons by blast
  then show ?case by auto
qed

lemma OSTaskStkInit_words: "\<exists>w. snd (OSTaskStkInit ret task arg ptos s) = s\<lparr>stk_words := w\<rparr>"
proof -
  obtain w where "snd (OSTaskStkInit ret task arg ptos s) = (s\<lparr>stk_words := (stk_words s)(ptos := 0x01000000)\<rparr>)\<lparr>stk_words := w\<rparr>"
    unfolding OSTaskStkInit_def using stk_push_words by blast
  then show ?thesis by auto
qed

lemma kinv_PrioTbl_cong:
  assumes "\<And>p. is_task s' p = is_task s p" and "\<And>p. is_task s p \<Longrightarrow> OSTCBPrioTbl s' p = OSTCBPrioTbl s p"
    and "OSTCBTbl s' = OSTCBTbl s" and "OSEvents s' = OSEvents s" and "rdy_map s' = rdy_map s"
  shows "kinv s' = kinv s"
proof -
  have "prio_inv s' q = prio_inv s q" for q
    by (rule prio_inv_cong) (simp_all add: assms task_at_def rdy_def waits_def)
  then show ?thesis unfolding kinv_local assms(4,5) rdy_def by blast
qed

lemma OS_TCBInit_ok:
  assumes inv: "kinv s" and nt: "\<not> is_task s p" and p: "p < OS_LOWEST_PRIO"
    and tl: "tcb_list s ps" and fr: "free_tcbs s (x # xs)"
    and r: "OS_TCBInit p ptos pbos ident sz pext opt s = (err, s')"
  shows "err = OS_ERR_NONE" and "kinv s'" and "tcb_list s' (p # ps)" and "free_tcbs s' xs"
    and "\<And>q. is_task s' q \<longleftrightarrow> q = p \<or> is_task s q" and "\<And>q. rdy s' q \<longleftrightarrow> q = p \<or> rdy s q"
    and "\<And>q. q \<noteq> p \<Longrightarrow> OSTCBPrioTbl s' q = OSTCBPrioTbl s q" and "OSEvents s' = OSEvents s"
    and "OSTCBStkPtr (task_at s' p) = ptos" and "OSTCBStkBottom (task_at s' p) = pbos"
    and "OSTCBStkSize (task_at s' p) = sz" and "OSTCBOpt (task_at s' p) = opt"
    and "OSEventFreeList s' = OSEventFreeList s" and "OSTCBCur s' = OSTCBCur s" and "OSPrioCur s' = OSPrioCur s"
    and "OSIntNesting s' = OSIntNesting s" and "OSLockNesting s' = OSLockNesting s" and "OSRunning s' = OSRunning s"
    and "OSTaskCtr s' = OSTaskCtr s + 1"
proof -
  have pool: "tcb_pool s (x # xs)" and xr: "x \<noteq> OS_TCB_RESERVED"
    and xt: "\<And>q. is_task s q \<Longrightarrow> OSTCBPrioTbl s q \<noteq> x"
    and xst: "\<And>y q. y \<in> set xs \<Longrightarrow> is_task s q \<Longrightarrow> OSTCBPrioTbl s q \<noteq> y"
    using fr by (auto simp: free_tcbs_def)
  have x: "OSTCBFreeList s = x" "x \<noteq> 0" "x \<notin> set xs" and px: "path (tcb_next s) (tcb_next s x) xs"
    using pool by (auto simp: tcb_pool_def)
  let ?h = "OSTCBList s"
  have hns: "?h = hd (map (OSTCBPrioTbl s) (ps @ [OS_TASK_IDLE_PRIO]))"
    using tl dll_hd unfolding tcb_list_def by fastforce
  have htask: "\<exists>q. is_task s q \<and> OSTCBPrioTbl s q = ?h"
  proof (cases ps)
    case Nil
    then show ?thesis using tl hns by (auto simp: tcb_list_def)
  next
    case (Cons a as)
    then show ?thesis using tl hns by (auto simp: tcb_list_def)
  qed
  then have h: "?h \<noteq> 0" "?h \<noteq> x" "?h \<notin> set xs" using xt xst by (auto simp: is_task_def)
  define T where "T = (OSTCBTbl s x)\<lparr>OSTCBStkPtr := ptos, OSTCBPrio := p, OSTCBStat := OS_STAT_RDY,
                          OSTCBStatPend := OS_STAT_PEND_OK, OSTCBDly := 0, OSTCBExtPtr := pext,
                          OSTCBStkSize := sz, OSTCBStkBottom := pbos, OSTCBOpt := opt, OSTCBId := ident,
                          OSTCBDelReq := OS_ERR_NONE, OSTCBY := p div 8, OSTCBX := p mod 8,
                          OSTCBBitY := 2 ^ (p div 8), OSTCBBitX := 2 ^ (p mod 8),
                          OSTCBEventPtr := NULL, OSTCBEventMultiPtr := None, OSTCBFlagNode := NULL,
                          OSTCBMsg := NULL, OSTCBCtxSwCtr := 0, OSTCBCyclesStart := 0, OSTCBCyclesTot := 0,
                          OSTCBStkBase := NULL, OSTCBStkUsed := 0, OSTCBTaskName := ''?'',
                          OSTCBRegTbl := (OSTCBRegTbl (OSTCBTbl s x))(0 := 0), OSTCBNext := ?h, OSTCBPrev := NULL\<rparr>"
  have tprio: "tcb_prio_ok p T" by (simp add: T_def tcb_prio_ok_def prio_bitx_def prio_bity_def)
  define s6 where "s6 = s\<lparr>OSTCBFreeList := tcb_next s x, OSTCBPrioTbl := (OSTCBPrioTbl s)(p := x),
    OSTCBTbl := (OSTCBTbl s)(x := T, ?h := (OSTCBTbl s ?h)\<lparr>OSTCBPrev := x\<rparr>), OSTCBList := x\<rparr>"
  have e: "err = OS_ERR_NONE" "s' = (tcb_rdy x s6)\<lparr>OSTaskCtr := OSTaskCtr (tcb_rdy x s6) + 1\<rparr>"
    using r x(1,2) h(1,2) unfolding OS_TCBInit_def tcb_alloc_def s6_def T_def
    by (simp_all add: Let_def upd_tcb_def)
  have "tcb_rdy x s6 = set_rdy_map (bm_ins p (rdy_map s6)) s6"
    using tprio h(2) by (intro tcb_rdy_eq) (simp add: s6_def)
  moreover have "rdy_map s6 = rdy_map s" by (simp add: s6_def rdy_map_def)
  ultimately have rd: "tcb_rdy x s6 = set_rdy_map (bm_ins p (rdy_map s)) s6" by simp
  have f: "OSTCBTbl s' = (OSTCBTbl s)(x := T, ?h := (OSTCBTbl s ?h)\<lparr>OSTCBPrev := x\<rparr>)"
    "OSTCBPrioTbl s' = (OSTCBPrioTbl s)(p := x)" "rdy_map s' = bm_ins p (rdy_map s)"
    "OSTCBFreeList s' = tcb_next s x" "OSTCBList s' = x" "OSEvents s' = OSEvents s"
    by (simp_all add: e rd rdy_map_def) (simp_all add: s6_def set_rdy_map_def rdy_map_def)
  show "err = OS_ERR_NONE" "OSEvents s' = OSEvents s" by (fact e f)+
  show "OSEventFreeList s' = OSEventFreeList s" "OSTCBCur s' = OSTCBCur s" "OSPrioCur s' = OSPrioCur s"
    "OSIntNesting s' = OSIntNesting s" "OSLockNesting s' = OSLockNesting s" "OSRunning s' = OSRunning s"
    "OSTaskCtr s' = OSTaskCtr s + 1"
    by (simp_all add: e rd) (simp_all add: s6_def)
  show tasks: "is_task s' q \<longleftrightarrow> q = p \<or> is_task s q" for q
    using x(2) xr by (auto simp: is_task_def f)
  show rdys: "rdy s' q \<longleftrightarrow> q = p \<or> rdy s q" for q
    using p by (simp add: rdy_def f bm_mem_ins)
  show pt: "OSTCBPrioTbl s' q = OSTCBPrioTbl s q" if "q \<noteq> p" for q using that by (simp add: f)
  have at_p: "task_at s' p = T" using h by (simp add: task_at_def f)
  show "OSTCBStkPtr (task_at s' p) = ptos" "OSTCBStkBottom (task_at s' p) = pbos"
    "OSTCBStkSize (task_at s' p) = sz" "OSTCBOpt (task_at s' p) = opt"
    by (simp_all add: at_p T_def)
  have old: "prio_inv s q" for q using inv by (simp add: kinv_local)
  have nw: "\<not> waits s e p" for e using nt waitsD(1) [OF inv] by blast
  have "prio_inv s' q" for q
  proof (cases "q = p")
    case True
    then show ?thesis using p tprio nw unfolding prio_inv_def True tasks rdys at_p
      by (simp add: waits_def f T_def tcb_runnable_def)
  next
    case False
    have "tcb_same (task_at s' q) (task_at s q)" if "is_task s q"
      using xt [OF that] False by (simp add: task_at_def f tcb_same_def)
    then have "prio_inv s' q = prio_inv s q"
      by (intro prio_inv_cong) (simp_all add: tasks rdys False waits_def f)
    then show ?thesis using old by simp
  qed
  moreover have "bm_ok (rdy_map s')" using p bm_ok_rdy [OF inv] by (simp add: f bm_ok_ins)
  ultimately show "kinv s'" using inv unfolding kinv_local rdys f(6) by blast
  have pps: "p \<notin> set (ps @ [OS_TASK_IDLE_PRIO])" using tl nt by (auto simp: tcb_list_def)
  then have m: "map (OSTCBPrioTbl s') (ps @ [OS_TASK_IDLE_PRIO]) = map (OSTCBPrioTbl s) (ps @ [OS_TASK_IDLE_PRIO])"
    by (intro map_cong) (auto simp: f)
  have xns: "x \<notin> set (map (OSTCBPrioTbl s) (ps @ [OS_TASK_IDLE_PRIO]))"
    using tl xt unfolding tcb_list_def by auto
  have "dll (tcb_next s') (tcb_prev s') 0 x (x # map (OSTCBPrioTbl s) (ps @ [OS_TASK_IDLE_PRIO]))"
  proof (rule dll_push [of "tcb_next s" "tcb_prev s" ?h])
    show "dll (tcb_next s) (tcb_prev s) 0 ?h (map (OSTCBPrioTbl s) (ps @ [OS_TASK_IDLE_PRIO]))"
      using tl by (simp only: tcb_list_def)
    show "tcb_next s' x = ?h" "tcb_prev s' x = 0" using h by (simp_all add: f T_def)
    fix y assume "y \<in> set (map (OSTCBPrioTbl s) (ps @ [OS_TASK_IDLE_PRIO]))"
    then have "y \<noteq> x" using xns by blast
    then show "tcb_next s' y = tcb_next s y" "tcb_prev s' y = (if y = ?h then x else tcb_prev s y)"
      by (simp_all add: f)
  qed (use x xns tcb_list_distinct [OF inv tl] in blast)+
  moreover have "OSTCBPrioTbl s' p = x" by (simp add: f)
  ultimately have "dll (tcb_next s') (tcb_prev s') 0 (OSTCBList s') (map (OSTCBPrioTbl s') ((p # ps) @ [OS_TASK_IDLE_PRIO]))"
    by (simp only: f(5) append_Cons list.map m)
  moreover have "distinct ((p # ps) @ [OS_TASK_IDLE_PRIO])" using tl pps by (simp add: tcb_list_def)
  moreover have "set ((p # ps) @ [OS_TASK_IDLE_PRIO]) = {q. is_task s' q}"
    unfolding tasks using tl by (auto simp: tcb_list_def)
  ultimately show "tcb_list s' (p # ps)" unfolding tcb_list_def by blast
  have "path (tcb_next s') (tcb_next s x) xs = path (tcb_next s) (tcb_next s x) xs"
    using x h by (intro path_cong) (auto simp: f)
  then have "tcb_pool s' xs" using pool px by (simp add: tcb_pool_def f(4))
  moreover have "y \<noteq> OS_TCB_RESERVED" if "y \<in> set xs" for y using fr that by (simp add: free_tcbs_def)
  moreover have "OSTCBPrioTbl s' q \<noteq> y" if "y \<in> set xs" "is_task s' q" for y q
    using xst [OF that(1)] that x(3) unfolding tasks by (cases "q = p") (auto simp: f(2))
  ultimately show "free_tcbs s' xs" unfolding free_tcbs_def by blast
qed


lemma OSTaskCreate_ok:
  assumes ok: "kernel_ok s" and tl: "tcb_list s ps" and fr: "free_tcbs s (x # xs)" and run: "OSRunning s"
    and p: "p < OS_LOWEST_PRIO" "OSTCBPrioTbl s p = NULL" and nest: "OSIntNesting s = 0"
    and r: "OSTaskCreate ret task arg ptos p s = (err, s')"
  shows "err = OS_ERR_NONE \<and> kernel_ok s' \<and> tcb_list s' (p # ps) \<and> free_tcbs s' xs
    \<and> (\<forall>q. rdy s' q \<longleftrightarrow> q = p \<or> rdy s q) \<and> OSTCBPrioTbl s' p = x
    \<and> OSTCBStkPtr (task_at s' p) = ptos - 60 \<and> OSTaskCtr s' = OSTaskCtr s + 1
    \<and> (OSLockNesting s = 0 \<longrightarrow> OSPrioCur s' = min p (OSPrioCur s))"
proof -
  note inv = kernel_okD(2) [OF ok] and cur = kernel_okD(3) [OF ok]
  have nt: "\<not> is_task s p" using p(2) by (simp add: is_task_def)
  define s1 where "s1 = s\<lparr>OSTCBPrioTbl := (OSTCBPrioTbl s)(p := OS_TCB_RESERVED)\<rparr>"
  obtain psp s2 where i: "OSTaskStkInit ret task arg ptos s1 = (psp, s2)" by fastforce
  have psp: "psp = ptos - 60" using i unfolding OSTaskStkInit_def by auto
  obtain w where "s2 = s1\<lparr>stk_words := w\<rparr>" using OSTaskStkInit_words [of ret task arg ptos s1] i by auto
  then have f2: "OSTCBPrioTbl s2 = (OSTCBPrioTbl s)(p := OS_TCB_RESERVED)" "OSTCBTbl s2 = OSTCBTbl s" "OSEvents s2 = OSEvents s"
    "rdy_map s2 = rdy_map s" "OSEventFreeList s2 = OSEventFreeList s" "OSTCBCur s2 = OSTCBCur s" "OSPrioCur s2 = OSPrioCur s"
    "OSIntNesting s2 = OSIntNesting s" "OSLockNesting s2 = OSLockNesting s" "OSRunning s2 = OSRunning s" "OSTaskCtr s2 = OSTaskCtr s"
    "OSTCBList s2 = OSTCBList s" "OSTCBFreeList s2 = OSTCBFreeList s"
    by (simp_all add: s1_def rdy_map_def)
  have tasks2: "is_task s2 q = is_task s q" for q using p(2) by (simp add: is_task_def f2)
  have pt2: "OSTCBPrioTbl s2 q = OSTCBPrioTbl s q" if "is_task s q" for q using that nt by (auto simp: f2)
  have inv2: "kinv s2" using inv kinv_PrioTbl_cong [OF tasks2 pt2 f2(2,3,4)] by simp
  have tl2: "tcb_list s2 ps"
    using tl tcb_list_cong [OF f2(12) pt2 tasks2] by (simp add: f2)
  have fr2: "free_tcbs s2 (x # xs)"
    using fr pt2 unfolding free_tcbs_def tasks2 tcb_pool_def f2 by (auto simp: f2)
  have nt2: "\<not> is_task s2 p" using nt tasks2 by simp
  obtain e3 s3 where t: "OS_TCBInit p psp NULL 0 0 NULL 0 s2 = (e3, s3)" by fastforce
  note I = OS_TCBInit_ok [OF inv2 nt2 p(1) tl2 fr2 t]
  have e: "err = OS_ERR_NONE" "s' = OS_Sched s3"
    using r p nest i t I(1,18) run f2(10) unfolding OSTaskCreate_def by (simp_all add: Let_def s1_def)
  have "is_task s (OSPrioCur s)" "OSTCBCur s = OSTCBPrioTbl s (OSPrioCur s)" using cur by (simp_all add: cur_ok_def)
  then have "cur_ok s3" using I(5,7,14,15) nt pt2 [of "OSPrioCur s"]
    unfolding cur_ok_def f2(6,7) tasks2 by (metis (full_types))
  moreover have "events_ok s3" by (rule events_ok_cong [OF _ _ kernel_okD(5) [OF ok]]) (simp_all add: I f2)
  ultimately have d: "data_ok s3" using I(2) by (simp add: data_ok_def)
  then have k: "kernel_ok s'" unfolding e by (rule kernel_ok_Sched)
  have rd: "rdy s' q \<longleftrightarrow> q = p \<or> rdy s q" for q by (simp add: e I(6)) (simp add: rdy_def f2)
  have "OSPrioCur s' = min p (OSPrioCur s)" if lock: "OSLockNesting s = 0"
  proof -
    have n0: "OSIntNesting s' = 0" "OSLockNesting s' = 0" using nest lock by (simp_all add: e I f2)
    have "rdy s' (OSPrioCur s')" "\<And>q. rdy s' q \<Longrightarrow> OSPrioCur s' \<le> q"
      using kernel_okD(4) [OF k] n0 by (auto simp: sched_ok_def)
    moreover have "rdy s (OSPrioCur s)" "\<And>q. rdy s q \<Longrightarrow> OSPrioCur s \<le> q"
      using kernel_okD(4) [OF ok] nest lock by (auto simp: sched_ok_def)
    ultimately show ?thesis unfolding rd by (metis antisym min.commute min_def nat_le_linear)
  qed
  moreover have "OSTCBPrioTbl s3 p = x" "OSTCBPrioTbl s' = OSTCBPrioTbl s3"
  proof -
    have "tcb_list s3 (p # ps)" by (rule I(3))
    then have "OSTCBList s3 = OSTCBPrioTbl s3 p" by (simp add: tcb_list_def)
    moreover have "OSTCBFreeList s2 = x" "x \<noteq> 0" using fr2 by (auto simp: free_tcbs_def tcb_pool_def)
    then have "OSTCBList s3 = x"
      using t by (auto simp: OS_TCBInit_def tcb_alloc_def Let_def tcb_rdy_def upd_tcb_def set_rdy_map_def split: if_splits)
    ultimately show "OSTCBPrioTbl s3 p = x" by simp
    show "OSTCBPrioTbl s' = OSTCBPrioTbl s3" by (simp add: e)
  qed
  moreover have "tcb_list s' (p # ps) = tcb_list s3 (p # ps)"
    by (rule tcb_list_cong) (simp_all add: e is_task_def tcb_links_Sched)
  moreover have "free_tcbs s' xs = free_tcbs s3 xs"
    by (simp add: free_tcbs_def tcb_pool_def e tcb_links_Sched is_task_def)
  moreover have "OSTCBStkPtr (task_at s' p) = ptos - 60" "OSTaskCtr s' = OSTaskCtr s + 1"
    using I(9) psp by (simp_all add: e I f2 task_at_def tcb_links_Sched)
  ultimately show ?thesis using e(1) k rd I(3,4) by simp
qed

text \<open>
  C12 Creating a task for a free priority takes a control block from the pool, puts the task in front
  of the task list, ready, with the stack pointer 15 words below the given top of stack, and lets it run at once
  when its priority is higher than the caller's.
\<close>

theorem OSTaskCreate_correct:
  assumes ok: "kernel_ok s" and tl: "tcb_list s ps" and fr: "free_tcbs s (x # xs)" and run: "OSRunning s"
    and p: "p < OS_LOWEST_PRIO" "OSTCBPrioTbl s p = NULL" and nest: "OSIntNesting s = 0"
    and r: "OSTaskCreate ret task arg ptos p s = (err, s')"
  shows "err = OS_ERR_NONE \<and> kernel_ok s' \<and> tcb_list s' (p # ps) \<and> free_tcbs s' xs
    \<and> (\<forall>q. rdy s' q \<longleftrightarrow> q = p \<or> rdy s q) \<and> OSTCBPrioTbl s' p = x
    \<and> OSTCBStkPtr (task_at s' p) = ptos - 60 \<and> OSTaskCtr s' = OSTaskCtr s + 1
    \<and> (OSLockNesting s = 0 \<longrightarrow> OSPrioCur s' = min p (OSPrioCur s))"
  using assms by (rule OSTaskCreate_ok)


lemma ex_tcb_list: "tcb_list (ex_state ep) [4, 10]"
  unfolding tcb_list_def ex_tasks by (auto simp: ex_state_simps)

lemma ex_free_tcbs: "free_tcbs (ex_state ep) [5, 6]"
  unfolding free_tcbs_def ex_tasks tcb_pool_def by (auto simp: ex_state_simps)

theorem OSTaskCreate_correct_witness:
  "kernel_ok (snd (OSTaskCreate 9 8 7 4000 2 (ex_state 0))) \<and> OSPrioCur (snd (OSTaskCreate 9 8 7 4000 2 (ex_state 0))) = 2
     \<and> tcb_list (snd (OSTaskCreate 9 8 7 4000 2 (ex_state 0))) [2, 4, 10]"
proof -
  have "OSRunning (ex_state 0)" "OSTCBPrioTbl (ex_state 0) 2 = NULL" "OSIntNesting (ex_state 0) = 0"
    "OSLockNesting (ex_state 0) = 0" "OSPrioCur (ex_state 0) = 4"
    by (simp_all add: ex_state_simps)
  then show ?thesis
    using OSTaskCreate_correct [OF ex_kernel_ok ex_tcb_list ex_free_tcbs _ _ _ _ surjective_pairing, of 0 2 9 8 7 4000]
    by simp
qed

subsection \<open>Deletion\<close>

text \<open>The scheduler leaves a task that is no longer ready, whether or not it still exists.\<close>

lemma kernel_ok_switch:
  assumes inv: "kinv s" and ev: "events_ok s" and gone: "\<not> rdy s (OSPrioCur s)"
    and nest: "OSIntNesting s = 0" "OSLockNesting s = 0"
  shows "kernel_ok (OS_Sched s)"
proof -
  have high: "rdy s (bm_high (rdy_map s))" by (rule rdy_high(1) [OF inv])
  then have ne: "bm_high (rdy_map s) \<noteq> OSPrioCur s" using gone by auto
  have cur: "OSPrioCur (OS_Sched s) = bm_high (rdy_map s)" using nest by (simp add: OS_Sched_prio)
  have "OSTCBCur (OS_Sched s) = OSTCBPrioTbl s (bm_high (rdy_map s))"
    using nest ne by (simp add: OS_Sched_def OS_SchedNew_def PendSV_Handler_def Let_def)
  then have c: "cur_ok (OS_Sched s)"
    using rdy_task [OF inv high] by (simp add: cur_ok_def cur is_task_def)
  have "sched_ok (OS_Sched s)"
    using c high rdy_high(2) [OF inv] by (simp add: sched_ok_def cur)
  moreover have "events_ok (OS_Sched s)" by (rule events_ok_cong [OF _ _ ev]) simp_all
  ultimately show ?thesis using c inv by (simp add: kernel_ok_def data_ok_def)
qed

text \<open>Two control blocks that agree on what the invariant and the task list read.\<close>

definition tcb_keep :: "OS_TCB \<Rightarrow> OS_TCB \<Rightarrow> bool" where
  "tcb_keep t' t \<longleftrightarrow> tcb_same t' t \<and> OSTCBNext t' = OSTCBNext t \<and> OSTCBPrev t' = OSTCBPrev t"

lemma task_del_wait_ok:
  assumes inv: "kinv s" and task: "is_task s p" and lock: "OSLockNesting s = 0"
    and s1: "s1 = task_del_wait (OSTCBPrioTbl s p) s"
  shows "OSTCBPrioTbl s1 = OSTCBPrioTbl s" and "rdy_map s1 = bm_del p (rdy_map s)"
    and "\<And>t. t \<noteq> OSTCBPrioTbl s p \<Longrightarrow> tcb_keep (OSTCBTbl s1 t) (OSTCBTbl s t)"
    and "OSTCBNext (OSTCBTbl s1 (OSTCBPrioTbl s p)) = OSTCBNext (OSTCBTbl s (OSTCBPrioTbl s p))"
    and "OSTCBPrev (OSTCBTbl s1 (OSTCBPrioTbl s p)) = OSTCBPrev (OSTCBTbl s (OSTCBPrioTbl s p))"
    and "\<And>e. event_map (OSEvents s1 e) =
      (if e \<noteq> NULL \<and> OSTCBEventPtr (task_at s p) = e then bm_del p (event_map (OSEvents s e)) else event_map (OSEvents s e))"
    and "\<And>e. OSEventType (OSEvents s1 e) = OSEventType (OSEvents s e)"
    and "\<And>e. OSEventPtr (OSEvents s1 e) = OSEventPtr (OSEvents s e)"
    and "OSEventFreeList s1 = OSEventFreeList s" and "OSTCBCur s1 = OSTCBCur s" and "OSPrioCur s1 = OSPrioCur s"
    and "OSIntNesting s1 = OSIntNesting s" and "OSLockNesting s1 = 1" and "OSRunning s1 = OSRunning s"
    and "OSTCBList s1 = OSTCBList s" and "OSTCBFreeList s1 = OSTCBFreeList s"
proof -
  let ?t = "OSTCBPrioTbl s p"
  note p64 = task_prio_ok [OF inv task]
  have tp: "tcb_prio_ok p (OSTCBTbl s ?t)" using p64 by (simp add: task_at_def)
  have multi: "OSTCBEventMultiPtr (OSTCBTbl s ?t) = None"
    using inv task by (simp add: kinv_def tcbs_ok_def task_at_def)
  let ?e = "OSTCBEventPtr (OSTCBTbl s ?t)"
  define a where "a = (if ?e \<noteq> NULL then upd_event ?e (\<lambda>ev. set_event_map (bm_del p (event_map ev)) ev) s else s)"
  define b where "b = set_rdy_map (bm_del p (rdy_map s)) a"
  have a_f: "OSTCBTbl a = OSTCBTbl s" by (simp add: a_def)
  let ?n = "OSTCBFlagNode (OSTCBTbl s ?t)"
  define c where "c = (if ?n \<noteq> NULL then OS_FlagUnlink ?n b else b)"
  have un: "tcb_unrdy ?t s = set_rdy_map (bm_del p (rdy_map s)) s" using tp by (rule tcb_unrdy_eq)
  have b_eq: "b = (if ?e \<noteq> NULL then OS_EventTaskRemove ?t ?e (tcb_unrdy ?t s) else tcb_unrdy ?t s)"
    unfolding b_def a_def un using tp
    by (simp add: OS_EventTaskRemove_def event_wait_clr_def tcb_prio_ok_def bm_del_def upd_event_def set_rdy_map_def)
  have bt: "OSTCBTbl b = OSTCBTbl s" by (simp add: b_def a_f)
  define d where "d = upd_tcb ?t (\<lambda>t. t\<lparr>OSTCBDly := 0, OSTCBStat := OS_STAT_RDY, OSTCBStatPend := OS_STAT_PEND_OK\<rparr>) c"
  have ut: "OSTCBTbl (tcb_unrdy ?t s) = OSTCBTbl s" by (simp add: un)
  have "s1 = (if OSLockNesting d < 255 then d\<lparr>OSLockNesting := OSLockNesting d + 1\<rparr> else d)"
    unfolding s1 task_del_wait_def Let_def ut b_eq [symmetric] bt multi option.case c_def [symmetric] d_def [symmetric] ..
  moreover have "OSLockNesting d = 0" using lock by (simp add: d_def c_def b_def a_def OS_FlagUnlink_eq)
  ultimately have s1d: "s1 = d\<lparr>OSLockNesting := 1\<rparr>" by simp
  have ct: "OSTCBTbl c t = OSTCBTbl s t \<or> OSTCBTbl c t = (OSTCBTbl s t)\<lparr>OSTCBFlagNode := NULL\<rparr>" for t
    by (simp add: c_def OS_FlagUnlink_eq bt)
  show "tcb_keep (OSTCBTbl s1 t) (OSTCBTbl s t)" if "t \<noteq> ?t" for t
    using ct [of t] that by (auto simp: s1d d_def tcb_keep_def tcb_same_def)
  show "OSTCBNext (OSTCBTbl s1 ?t) = OSTCBNext (OSTCBTbl s ?t)" "OSTCBPrev (OSTCBTbl s1 ?t) = OSTCBPrev (OSTCBTbl s ?t)"
    using ct [of ?t] by (auto simp: s1d d_def)
  have ev: "OSEvents s1 = OSEvents a" by (simp add: s1d d_def c_def OS_FlagUnlink_eq b_def)
  show "event_map (OSEvents s1 e) =
      (if e \<noteq> NULL \<and> OSTCBEventPtr (task_at s p) = e then bm_del p (event_map (OSEvents s e)) else event_map (OSEvents s e))" for e
    by (auto simp: ev a_def task_at_def)
  show "OSEventType (OSEvents s1 e) = OSEventType (OSEvents s e)" "OSEventPtr (OSEvents s1 e) = OSEventPtr (OSEvents s e)" for e
    by (simp_all add: ev a_def upd_event_def)
  have rm: "rdy_map s1 = rdy_map b" by (simp add: s1d d_def c_def OS_FlagUnlink_eq rdy_map_def)
  then show "rdy_map s1 = bm_del p (rdy_map s)" by (simp add: b_def)
  show "OSTCBPrioTbl s1 = OSTCBPrioTbl s" "OSEventFreeList s1 = OSEventFreeList s" "OSTCBCur s1 = OSTCBCur s"
    "OSPrioCur s1 = OSPrioCur s" "OSIntNesting s1 = OSIntNesting s" "OSLockNesting s1 = 1" "OSRunning s1 = OSRunning s"
    "OSTCBList s1 = OSTCBList s" "OSTCBFreeList s1 = OSTCBFreeList s"
    by (simp_all add: s1d d_def c_def OS_FlagUnlink_eq b_def a_def)
qed


lemma task_del_free_ok:
  assumes nxt: "OSTCBNext (OSTCBTbl s t) \<noteq> NULL" "OSTCBNext (OSTCBTbl s t) \<noteq> t" "OSTCBPrev (OSTCBTbl s t) \<noteq> t"
    and lock: "OSLockNesting s = 1" and s': "s' = task_del_free p t s"
  shows "tcb_next s' = (next_unlink (tcb_next s) (tcb_prev s) t)(t := OSTCBFreeList s)"
    and "tcb_prev s' = prev_unlink (tcb_next s) (tcb_prev s) t"
    and "OSTCBList s' = (if OSTCBPrev (OSTCBTbl s t) = 0 then OSTCBNext (OSTCBTbl s t) else OSTCBList s)"
    and "\<And>u. tcb_same (OSTCBTbl s' u) (OSTCBTbl s u)"
    and "OSTCBPrioTbl s' = (OSTCBPrioTbl s)(p := NULL)" and "rdy_map s' = rdy_map s" and "OSEvents s' = OSEvents s"
    and "OSEventFreeList s' = OSEventFreeList s" and "OSTCBCur s' = OSTCBCur s" and "OSPrioCur s' = OSPrioCur s"
    and "OSIntNesting s' = OSIntNesting s" and "OSLockNesting s' = 0" and "OSRunning s' = OSRunning s"
    and "OSTCBFreeList s' = t"
  using nxt lock
  by (auto simp: s' task_del_free_def Let_def upd_tcb_def tcb_free_def next_unlink_def prev_unlink_def fun_eq_iff
      tcb_same_def rdy_map_def)

lemma OSTaskDel_ok:
  assumes ok: "kernel_ok s" and tl: "tcb_list s (as @ p # bs)" and fr: "free_tcbs s xs" and run: "OSRunning s"
    and nest: "OSIntNesting s = 0" and lock: "OSLockNesting s = 0"
    and r: "OSTaskDel p s = (err, s')"
  shows "err = OS_ERR_NONE \<and> kernel_ok s' \<and> tcb_list s' (as @ bs) \<and> free_tcbs s' (OSTCBPrioTbl s p # xs)
    \<and> OSTCBPrioTbl s' p = NULL
    \<and> (\<forall>q. (rdy s' q \<longleftrightarrow> q \<noteq> p \<and> rdy s q) \<and> (\<forall>e. waits s' e q \<longleftrightarrow> q \<noteq> p \<and> waits s e q))
    \<and> (\<forall>q. q \<noteq> p \<and> is_task s q \<longrightarrow> is_task s' q \<and> tcb_same (task_at s' q) (task_at s q))
    \<and> (p \<noteq> OSPrioCur s \<longrightarrow> OSPrioCur s' = OSPrioCur s)"
proof -
  note inv = kernel_okD(2) [OF ok] and cur = kernel_okD(3) [OF ok]
  let ?t = "OSTCBPrioTbl s p" and ?ns = "map (OSTCBPrioTbl s)"
  have task: "is_task s p" and pi: "p \<noteq> OS_TASK_IDLE_PRIO" using tl by (auto simp: tcb_list_def)
  have p64: "p < 64" using task_prio_ok [OF inv task] by simp
  have dl: "dll (tcb_next s) (tcb_prev s) 0 (OSTCBList s) (?ns as @ ?t # ?ns (bs @ [OS_TASK_IDLE_PRIO]))"
    using tl by (simp add: tcb_list_def)
  have dist: "distinct (?ns as @ ?t # ?ns (bs @ [OS_TASK_IDLE_PRIO]))"
    using tcb_list_distinct [OF inv tl] by simp
  note L = dll_links [OF dl] and self = unlink_self [OF dl dist]
  have nx: "OSTCBNext (OSTCBTbl s ?t) \<noteq> 0"
    using L dll_nonzero [OF dl] by (cases bs) auto
  define s1 where "s1 = task_del_wait ?t s"
  note W = task_del_wait_ok [OF inv task lock s1_def]
  define s2 where "s2 = task_del_free p ?t s1"
  have n1: "OSTCBNext (OSTCBTbl s1 ?t) \<noteq> NULL" "OSTCBNext (OSTCBTbl s1 ?t) \<noteq> ?t" "OSTCBPrev (OSTCBTbl s1 ?t) \<noteq> ?t"
    using nx self by (simp_all add: W)
  note F = task_del_free_ok [OF n1 W(13) s2_def]
  have e: "err = OS_ERR_NONE" "s' = OS_Sched s2"
  proof -
    have "OSTaskDel p s = (OS_ERR_NONE, if OSRunning s2 then OS_Sched s2 else s2)"
      using task p64 pi nest unfolding is_task_def s2_def s1_def by (simp add: OSTaskDel_def Let_def)
    then show "err = OS_ERR_NONE" "s' = OS_Sched s2" using r run F(13) W(14) by simp_all
  qed
  have links: "tcb_next s1 = tcb_next s" "tcb_prev s1 = tcb_prev s"
    using W(3,4,5) unfolding tcb_keep_def fun_eq_iff by metis+
  have same: "tcb_same (OSTCBTbl s2 u) (OSTCBTbl s u)" if "u \<noteq> ?t" for u
    using W(3) [OF that] F(4) [of u] tcb_same_trans unfolding tcb_keep_def by blast
  have tasks: "is_task s2 q \<longleftrightarrow> q \<noteq> p \<and> is_task s q" for q by (simp add: is_task_def F W)
  have rdys: "rdy s2 q \<longleftrightarrow> q \<noteq> p \<and> rdy s q" for q using p64 by (simp add: rdy_def F W bm_mem_del)
  have waits2: "waits s2 e q \<longleftrightarrow> q \<noteq> p \<and> waits s e q" for e q
  proof (cases "waits s e p")
    case True
    then show ?thesis using waitsD(2,4) [OF inv True] p64 by (auto simp: waits_def F W bm_mem_del)
  next
    case False
    then show ?thesis using p64 by (auto simp: waits_def F W bm_mem_del)
  qed
  have at_q: "tcb_same (task_at s2 q) (task_at s q)" if "is_task s q" "q \<noteq> p" for q
    using same [of "OSTCBPrioTbl s q"] task_inj [OF inv that(1) task] that(2) by (simp add: task_at_def F W)
  have "prio_inv s2 q" for q
  proof (cases "q = p")
    case True
    then show ?thesis by (intro prio_inv_none) (simp_all add: tasks rdys waits2)
  next
    case False
    have "prio_inv s2 q = prio_inv s q"
      using False at_q by (intro prio_inv_cong) (simp_all add: tasks rdys waits2 F W)
    then show ?thesis using inv by (simp add: kinv_local)
  qed
  moreover have "bm_ok (rdy_map s2)" using bm_ok_rdy [OF inv] p64 by (simp add: F W bm_ok_del)
  moreover have "bm_ok (event_map (OSEvents s2 e))" for e
    using bm_ok_event [OF inv] p64 by (simp add: F W bm_ok_del)
  ultimately have kin: "kinv s2" using inv pi unfolding kinv_local rdys by metis
  have ev: "events_ok s2" by (rule events_ok_cong [OF _ _ kernel_okD(5) [OF ok]]) (simp_all add: F W)
  have n0: "OSIntNesting s2 = 0" "OSLockNesting s2 = 0" using nest by (simp_all add: F W)
  have k: "kernel_ok s'"
  proof (cases "p = OSPrioCur s")
    case True
    then show ?thesis unfolding e by (intro kernel_ok_switch kin ev n0) (simp add: rdys F W)
  next
    case False
    have "cur_ok s2" using cur False unfolding cur_ok_def by (simp add: tasks F W)
    then show ?thesis unfolding e using kin ev by (intro kernel_ok_Sched) (simp add: data_ok_def)
  qed
  have curp: "OSPrioCur s' = OSPrioCur s" if "p \<noteq> OSPrioCur s"
  proof -
    have "rdy s' (OSPrioCur s')" "\<And>q. rdy s' q \<Longrightarrow> OSPrioCur s' \<le> q"
      using kernel_okD(4) [OF k] n0 by (auto simp: sched_ok_def e)
    moreover have "rdy s (OSPrioCur s)" "\<And>q. rdy s q \<Longrightarrow> OSPrioCur s \<le> q"
      using kernel_okD(4) [OF ok] nest lock by (auto simp: sched_ok_def)
    ultimately show ?thesis using that by (simp add: e rdys antisym)
  qed
  have nt: "?t \<notin> set (?ns as @ ?ns (bs @ [OS_TASK_IDLE_PRIO]))" using dist by simp
  have l2: "tcb_next s2 y = next_unlink (tcb_next s) (tcb_prev s) ?t y \<and> tcb_prev s2 y = prev_unlink (tcb_next s) (tcb_prev s) ?t y"
    if "y \<noteq> ?t" for y
    using fun_cong [OF F(1), of y] fun_cong [OF F(2), of y] that by (simp add: links)
  have dl2: "dll (tcb_next s2) (tcb_prev s2) 0 (OSTCBList s2) (?ns as @ ?ns (bs @ [OS_TASK_IDLE_PRIO]))"
  proof -
    have "dll (tcb_next s2) (tcb_prev s2) 0 (OSTCBList s2) (?ns as @ ?ns (bs @ [OS_TASK_IDLE_PRIO]))
      = dll (next_unlink (tcb_next s) (tcb_prev s) ?t) (prev_unlink (tcb_next s) (tcb_prev s) ?t) 0 (OSTCBList s2)
          (?ns as @ ?ns (bs @ [OS_TASK_IDLE_PRIO]))"
    proof (rule dll_cong)
      fix x assume "x \<in> set (?ns as @ ?ns (bs @ [OS_TASK_IDLE_PRIO]))"
      then have "x \<noteq> ?t" using nt by metis
      then show "tcb_next s2 x = next_unlink (tcb_next s) (tcb_prev s) ?t x
          \<and> tcb_prev s2 x = prev_unlink (tcb_next s) (tcb_prev s) ?t x" by (rule l2)
    qed
    moreover have "OSTCBList s2 = (if tcb_prev s ?t = 0 then tcb_next s ?t else OSTCBList s)" by (simp add: F W)
    ultimately show ?thesis using dll_unlink [OF dl dist] by simp
  qed
  have "p \<notin> set (as @ bs @ [OS_TASK_IDLE_PRIO])" using tl by (auto simp: tcb_list_def)
  then have m: "map (OSTCBPrioTbl s2) ((as @ bs) @ [OS_TASK_IDLE_PRIO]) = ?ns as @ ?ns (bs @ [OS_TASK_IDLE_PRIO])"
    by (auto simp: F W)
  have "distinct ((as @ bs) @ [OS_TASK_IDLE_PRIO])" "set ((as @ bs) @ [OS_TASK_IDLE_PRIO]) = {q. is_task s2 q}"
    using tl unfolding tcb_list_def tasks by auto
  then have tl2: "tcb_list s2 (as @ bs)" using dl2 unfolding tcb_list_def m by blast
  have pool: "tcb_pool s xs" and xs: "\<And>y. y \<in> set xs \<Longrightarrow> y \<noteq> OS_TCB_RESERVED"
    "\<And>y q. y \<in> set xs \<Longrightarrow> is_task s q \<Longrightarrow> OSTCBPrioTbl s q \<noteq> y"
    using fr by (auto simp: free_tcbs_def)
  have txs: "?t \<notin> set xs" using xs(2) task by blast
  have "path (tcb_next s2) (OSTCBFreeList s) xs = path (tcb_next s) (OSTCBFreeList s) xs"
  proof (rule path_cong)
    fix y assume y: "y \<in> set xs"
    have "tcb_prev s ?t = 0 \<or> (\<exists>q. is_task s q \<and> tcb_prev s ?t = OSTCBPrioTbl s q)"
    proof (cases "as = []")
      case False
      then have "last as \<in> set as" by simp
      then show ?thesis using L tl False unfolding tcb_list_def by (auto simp: last_map)
    qed (use L in simp)
    then have "y \<noteq> tcb_prev s ?t \<or> tcb_prev s ?t = 0" using xs(2) [OF y] by metis
    moreover have "y \<noteq> ?t" using y txs by blast
    ultimately show "tcb_next s2 y = tcb_next s y" using l2 [of y] by (auto simp: next_unlink_def)
  qed
  then have "tcb_pool s2 (?t # xs)"
    using pool txs task by (simp add: tcb_pool_def F W is_task_def)
  then have fr2: "free_tcbs s2 (?t # xs)"
    using xs task task_inj [OF inv _ task] unfolding free_tcbs_def tasks
    by (auto simp: F(5) W(1) is_task_def)
  have tl': "tcb_list s' (as @ bs) = tcb_list s2 (as @ bs)"
    by (rule tcb_list_cong) (simp_all add: e is_task_def tcb_links_Sched)
  have fr': "free_tcbs s' (?t # xs) = free_tcbs s2 (?t # xs)"
    by (simp add: free_tcbs_def tcb_pool_def e tcb_links_Sched is_task_def)
  have same': "is_task s' q \<and> tcb_same (task_at s' q) (task_at s q)" if "q \<noteq> p" "is_task s q" for q
  proof -
    have "tcb_same (task_at s' q) (task_at s2 q)" unfolding e by (rule kernel_same_simps(4) [OF OS_Sched_same])
    then show ?thesis using at_q [OF that(2,1)] tcb_same_trans that by (auto simp: e is_task_def F W)
  qed
  have "OSTCBPrioTbl s' p = NULL" by (simp add: e F)
  moreover have "rdy s' q \<longleftrightarrow> q \<noteq> p \<and> rdy s q" "waits s' e q \<longleftrightarrow> q \<noteq> p \<and> waits s e q" for q e
    using waits2 [of e q] by (simp_all add: e(2) rdys waits_def)
  ultimately show ?thesis using e(1) k tl2 fr2 tl' fr' curp same' by blast
qed

text \<open>
  C10 Deleting a task (another one or itself, while the scheduler is not locked) removes it from the ready list, from
  the wait list it is in and from the task list, returns its control block to the pool, frees its
  priority, and touches no other task; the highest of the remaining ready tasks runs.
\<close>

theorem OSTaskDel_correct:
  assumes ok: "kernel_ok s" and tl: "tcb_list s (as @ p # bs)" and fr: "free_tcbs s xs" and run: "OSRunning s"
    and nest: "OSIntNesting s = 0" and lock: "OSLockNesting s = 0"
    and r: "OSTaskDel p s = (err, s')"
  shows "err = OS_ERR_NONE \<and> kernel_ok s' \<and> tcb_list s' (as @ bs) \<and> free_tcbs s' (OSTCBPrioTbl s p # xs)
    \<and> OSTCBPrioTbl s' p = NULL
    \<and> (\<forall>q. (rdy s' q \<longleftrightarrow> q \<noteq> p \<and> rdy s q) \<and> (\<forall>e. waits s' e q \<longleftrightarrow> q \<noteq> p \<and> waits s e q))
    \<and> (\<forall>q. q \<noteq> p \<and> is_task s q \<longrightarrow> is_task s' q \<and> tcb_same (task_at s' q) (task_at s q))
    \<and> (p \<noteq> OSPrioCur s \<longrightarrow> OSPrioCur s' = OSPrioCur s)"
  using assms by (rule OSTaskDel_ok)


theorem OSTaskDel_correct_witness:
  "kernel_ok (snd (OSTaskDel 4 (ex_state 0))) \<and> tcb_list (snd (OSTaskDel 4 (ex_state 0))) [10]
     \<and> free_tcbs (snd (OSTaskDel 4 (ex_state 0))) [3, 5, 6]
     \<and> waiters (snd (OSTaskDel 10 (ex_state 0))) 1 = {}"
proof -
  have st: "OSRunning (ex_state 0)" "OSIntNesting (ex_state 0) = 0" "OSLockNesting (ex_state 0) = 0"
    "OSTCBPrioTbl (ex_state 0) 4 = 3"
    by (simp_all add: ex_state_simps)
  have "tcb_list (ex_state 0) ([] @ 4 # [10])" "tcb_list (ex_state 0) ([4] @ 10 # [])" using ex_tcb_list by simp_all
  note D = OSTaskDel_correct [OF ex_kernel_ok this(1) ex_free_tcbs st(1,2,3) surjective_pairing]
    OSTaskDel_correct [OF ex_kernel_ok this(2) ex_free_tcbs st(1,2,3) surjective_pairing]
  have "waits (snd (OSTaskDel 10 (ex_state 0))) 1 q \<longleftrightarrow> q \<noteq> 10 \<and> waits (ex_state 0) 1 q" for q
    using D(2) by blast
  then have "waiters (snd (OSTaskDel 10 (ex_state 0))) 1 = {}" by (auto simp: waiters_def ex_waits)
  then show ?thesis using D(1) st(4) by simp
qed

end
