(* ===== verification/OS_Init.thy ===== *)
theory OS_Init
  imports OS_Tmr OS_Queue OS_Mem OS_Flag Task_Life
begin

text \<open>
  Initialisation of the kernel (\<open>OSInit\<close> and the \<open>OS_Init*\<close> functions of \<open>os_core.c\<close>, the
  initialisation hook of \<open>os_cpu_c.c\<close>, \<open>OSTmr_Init\<close>), up to the start of multitasking.  The
  store of a type holds the objects of its table and no others, so a loop that clears a table, or
  \<open>OS_MemClr\<close> on it, clears the store.  The addresses that the linker chooses - of the task
  functions and of the stacks of the system tasks - are an argument.
\<close>

record boot_env =
  ret_fn :: INT32U
  idle_fn :: INT32U
  stat_fn :: INT32U
  tmr_fn :: INT32U
  idle_stk :: ptr
  stat_stk :: ptr
  tmr_stk :: ptr
  except_stk :: ptr

abbreviation (input) OS_TASK_IDLE_STK_SIZE :: nat where "OS_TASK_IDLE_STK_SIZE \<equiv> 128"
abbreviation (input) OS_TASK_STAT_STK_SIZE :: nat where "OS_TASK_STAT_STK_SIZE \<equiv> 128"
abbreviation (input) OS_TASK_TMR_STK_SIZE :: nat where "OS_TASK_TMR_STK_SIZE \<equiv> 128"
abbreviation (input) OS_CPU_EXCEPT_STK_SIZE :: nat where "OS_CPU_EXCEPT_STK_SIZE \<equiv> 128"
abbreviation (input) OS_TASK_IDLE_ID :: INT16U where "OS_TASK_IDLE_ID \<equiv> 65535"
abbreviation (input) OS_TASK_STAT_ID :: INT16U where "OS_TASK_STAT_ID \<equiv> 65534"
abbreviation (input) OS_TASK_TMR_ID :: INT16U where "OS_TASK_TMR_ID \<equiv> 65533"

subsection \<open>Tables and variables\<close>

definition OSInitHookBegin :: "boot_env \<Rightarrow> os_state \<Rightarrow> os_state" where
  "OSInitHookBegin env s = (stk_clear OS_CPU_EXCEPT_STK_SIZE (except_stk env) s)\<lparr>OSTmrCtr := 0\<rparr>"

definition OS_InitMisc :: "os_state \<Rightarrow> os_state" where
  "OS_InitMisc s = s\<lparr>OSTime := 0, OSIntNesting := 0, OSLockNesting := 0, OSTaskCtr := 0, OSRunning := False,
     OSCtxSwCtr := 0, OSIdleCtr := 0, OSIdleCtrRun := 0, OSIdleCtrMax := 0, OSStatRdy := False\<rparr>"

definition OS_InitRdyList :: "os_state \<Rightarrow> os_state" where
  "OS_InitRdyList s = s\<lparr>OSRdyGrp := 0, OSRdyTbl := (\<lambda>_. 0), OSPrioCur := 0, OSPrioHighRdy := 0,
     OSTCBHighRdy := NULL, OSTCBCur := NULL\<rparr>"

definition OS_TCB_clr :: OS_TCB where
  "OS_TCB_clr = \<lparr>OSTCBStkPtr = NULL, OSTCBExtPtr = NULL, OSTCBStkBottom = NULL, OSTCBStkSize = 0, OSTCBOpt = 0,
     OSTCBId = 0, OSTCBNext = NULL, OSTCBPrev = NULL, OSTCBEventPtr = NULL, OSTCBEventMultiPtr = None,
     OSTCBMsg = NULL, OSTCBFlagNode = NULL, OSTCBFlagsRdy = 0, OSTCBDly = 0, OSTCBStat = 0, OSTCBStatPend = 0,
     OSTCBPrio = 0, OSTCBX = 0, OSTCBY = 0, OSTCBBitX = 0, OSTCBBitY = 0, OSTCBDelReq = 0,
     OSTCBCtxSwCtr = 0, OSTCBCyclesTot = 0, OSTCBCyclesStart = 0, OSTCBStkBase = NULL, OSTCBStkUsed = 0,
     OSTCBTaskName = [], OSTCBRegTbl = (\<lambda>_. 0)\<rparr>"

primrec tcb_init_link :: "nat \<Rightarrow> (ptr \<Rightarrow> OS_TCB) \<Rightarrow> (ptr \<Rightarrow> OS_TCB)" where
  "tcb_init_link 0 tbl = tbl"
| "tcb_init_link (Suc ix) tbl =
     (let tbl1 = tcb_init_link ix tbl
      in tbl1(ix + 2 := (tbl1 (ix + 2))\<lparr>OSTCBNext := ix + 3, OSTCBTaskName := ''?''\<rparr>))"

text \<open>\<open>&OSTCBTbl[ix]\<close> is \<open>ix + 2\<close>; the last block is \<open>OS_N_TCBS + 1\<close>.\<close>

definition OS_InitTCBList :: "os_state \<Rightarrow> os_state" where
  "OS_InitTCBList s =
     (let tbl = tcb_init_link (OS_N_TCBS - 1) (\<lambda>_. OS_TCB_clr)
      in s\<lparr>OSTCBTbl := tbl(OS_N_TCBS + 1 := (tbl (OS_N_TCBS + 1))\<lparr>OSTCBNext := NULL, OSTCBTaskName := ''?''\<rparr>),
           OSTCBPrioTbl := (\<lambda>_. NULL), OSTCBList := NULL, OSTCBFreeList := 2\<rparr>)"

definition OS_EVENT_clr :: OS_EVENT where
  "OS_EVENT_clr = \<lparr>OSEventType = 0, OSEventPtr = NULL, OSEventCnt = 0, OSEventGrp = 0, OSEventTbl = (\<lambda>_. 0), OSEventName = []\<rparr>"

primrec event_init_link :: "nat \<Rightarrow> (ptr \<Rightarrow> OS_EVENT) \<Rightarrow> (ptr \<Rightarrow> OS_EVENT)" where
  "event_init_link 0 tbl = tbl"
| "event_init_link (Suc ix) tbl =
     (let tbl1 = event_init_link ix tbl
      in tbl1(ix + 1 := (tbl1 (ix + 1))\<lparr>OSEventType := OS_EVENT_TYPE_UNUSED, OSEventPtr := ix + 2, OSEventName := ''?''\<rparr>))"

definition OS_InitEventList :: "os_state \<Rightarrow> os_state" where
  "OS_InitEventList s =
     (let tbl = event_init_link (OS_MAX_EVENTS - 1) (\<lambda>_. OS_EVENT_clr)
      in s\<lparr>OSEvents := tbl(OS_MAX_EVENTS := (tbl OS_MAX_EVENTS)\<lparr>OSEventType := OS_EVENT_TYPE_UNUSED, OSEventPtr := NULL,
             OSEventName := ''?''\<rparr>), OSEventFreeList := 1\<rparr>)"

subsection \<open>The system tasks\<close>

definition OS_InitTaskIdle :: "boot_env \<Rightarrow> os_state \<Rightarrow> os_state" where
  "OS_InitTaskIdle env s =
     snd (OSTaskNameSet OS_TASK_IDLE_PRIO (Some ''uC/OS-II Idle'')
       (snd (OSTaskCreateExt (ret_fn env) (idle_fn env) 0 (idle_stk env + 4 * (OS_TASK_IDLE_STK_SIZE - 1)) OS_TASK_IDLE_PRIO
          OS_TASK_IDLE_ID (idle_stk env) (of_nat OS_TASK_IDLE_STK_SIZE) NULL (OS_TASK_OPT_STK_CHK OR OS_TASK_OPT_STK_CLR) s)))"

definition OS_InitTaskStat :: "boot_env \<Rightarrow> os_state \<Rightarrow> os_state" where
  "OS_InitTaskStat env s =
     snd (OSTaskNameSet OS_TASK_STAT_PRIO (Some ''uC/OS-II Stat'')
       (snd (OSTaskCreateExt (ret_fn env) (stat_fn env) 0 (stat_stk env + 4 * (OS_TASK_STAT_STK_SIZE - 1)) OS_TASK_STAT_PRIO
          OS_TASK_STAT_ID (stat_stk env) (of_nat OS_TASK_STAT_STK_SIZE) NULL (OS_TASK_OPT_STK_CHK OR OS_TASK_OPT_STK_CLR) s)))"

definition OSTmr_InitTask :: "boot_env \<Rightarrow> os_state \<Rightarrow> os_state" where
  "OSTmr_InitTask env s =
     snd (OSTaskNameSet OS_TASK_TMR_PRIO (Some ''uC/OS-II Tmr'')
       (snd (OSTaskCreateExt (ret_fn env) (tmr_fn env) 0 (tmr_stk env + 4 * (OS_TASK_TMR_STK_SIZE - 1)) OS_TASK_TMR_PRIO
          OS_TASK_TMR_ID (tmr_stk env) (of_nat OS_TASK_TMR_STK_SIZE) NULL (OS_TASK_OPT_STK_CHK OR OS_TASK_OPT_STK_CLR) s)))"

definition OSTmr_Init :: "boot_env \<Rightarrow> os_state \<Rightarrow> os_state" where
  "OSTmr_Init env s =
     (let (sem, s1) = OSSemCreate 1 (OSTmr_InitPool s);
          s2 = s1\<lparr>OSTmrSem := sem\<rparr>;
          (signal, s3) = OSSemCreate 0 s2;
          s4 = s3\<lparr>OSTmrSemSignal := signal\<rparr>;
          s5 = snd (OSEventNameSet (OSTmrSem s4) (Some ''uC/OS-II TmrLock'') s4);
          s6 = snd (OSEventNameSet (OSTmrSemSignal s5) (Some ''uC/OS-II TmrSignal'') s5)
      in OSTmr_InitTask env s6)"

text \<open>The two loops over bytes that the kernel brings along; it uses the first to clear its tables.\<close>

primrec mem_clr_loop :: "nat \<Rightarrow> ptr \<Rightarrow> (ptr \<Rightarrow> INT8U) \<Rightarrow> (ptr \<Rightarrow> INT8U)" where
  "mem_clr_loop 0 pdest m = m"
| "mem_clr_loop (Suc n) pdest m = mem_clr_loop n (pdest + 1) (m(pdest := 0))"

definition OS_MemClr :: "ptr \<Rightarrow> INT16U \<Rightarrow> (ptr \<Rightarrow> INT8U) \<Rightarrow> (ptr \<Rightarrow> INT8U)" where
  "OS_MemClr pdest sz m = mem_clr_loop (unat sz) pdest m"

primrec mem_copy_loop :: "nat \<Rightarrow> ptr \<Rightarrow> ptr \<Rightarrow> (ptr \<Rightarrow> INT8U) \<Rightarrow> (ptr \<Rightarrow> INT8U)" where
  "mem_copy_loop 0 pdest psrc m = m"
| "mem_copy_loop (Suc n) pdest psrc m = mem_copy_loop n (pdest + 1) (psrc + 1) (m(pdest := m psrc))"

definition OS_MemCopy :: "ptr \<Rightarrow> ptr \<Rightarrow> INT16U \<Rightarrow> (ptr \<Rightarrow> INT8U) \<Rightarrow> (ptr \<Rightarrow> INT8U)" where
  "OS_MemCopy pdest psrc sz m = mem_copy_loop (unat sz) pdest psrc m"

lemma OS_MemClr_eq: "OS_MemClr pdest sz m a = (if pdest \<le> a \<and> a < pdest + unat sz then 0 else m a)"
proof -
  have "mem_clr_loop n pdest m a = (if pdest \<le> a \<and> a < pdest + n then 0 else m a)" for n pdest m
    by (induction n arbitrary: pdest m) auto
  then show ?thesis by (simp add: OS_MemClr_def)
qed

text \<open>The copy is right unless the destination starts inside the source.\<close>

lemma OS_MemCopy_eq:
  assumes "pdest \<le> psrc \<or> psrc + unat sz \<le> pdest"
  shows "OS_MemCopy pdest psrc sz m a = (if pdest \<le> a \<and> a < pdest + unat sz then m (psrc + (a - pdest)) else m a)"
proof -
  have "mem_copy_loop n pdest psrc m a = (if pdest \<le> a \<and> a < pdest + n then m (psrc + (a - pdest)) else m a)"
    if "pdest \<le> psrc \<or> psrc + n \<le> pdest" for n pdest psrc m
    using that
  proof (induction n arbitrary: pdest psrc m)
    case (Suc n)
    have "mem_copy_loop (Suc n) pdest psrc m a = (if pdest + 1 \<le> a \<and> a < pdest + 1 + n
        then (m(pdest := m psrc)) (psrc + 1 + (a - (pdest + 1))) else (m(pdest := m psrc)) a)"
      unfolding mem_copy_loop.simps by (rule Suc.IH) (use Suc.prems in linarith)
    also have "\<dots> = (if pdest \<le> a \<and> a < pdest + Suc n then m (psrc + (a - pdest)) else m a)"
    proof -
      have "psrc + 1 + (a - (pdest + 1)) = psrc + (a - pdest)" if "pdest + 1 \<le> a" using that by linarith
      moreover have "psrc + (a - pdest) \<noteq> pdest" if "pdest + 1 \<le> a" "a < pdest + 1 + n" using that Suc.prems by linarith
      ultimately show ?thesis by auto
    qed
    finally show ?case .
  qed auto
  then show ?thesis using assms by (simp add: OS_MemCopy_def)
qed

definition OSVersion :: INT16U where
  "OSVersion = 292"

definition OSInit :: "boot_env \<Rightarrow> os_state \<Rightarrow> os_state" where
  "OSInit env s =
     OSTmr_Init env (OS_InitTaskStat env (OS_InitTaskIdle env
       (OS_QInit (OS_MemInit (OS_FlagInit
         (OS_InitEventList (OS_InitTCBList (OS_InitRdyList (OS_InitMisc (OSInitHookBegin env s))))))))))"

subsection \<open>The idle and the statistics task\<close>

text \<open>One iteration of the loop of \<open>OS_TaskIdle\<close>; its hook is empty.\<close>

definition OS_TaskIdle :: "os_state \<Rightarrow> os_state" where
  "OS_TaskIdle s = s\<lparr>OSIdleCtr := OSIdleCtr s + 1\<rparr>"

text \<open>\<open>OS_TaskStatStkChk\<close>: the loop over the priorities, \<open>None\<close> when a stack check does not end.\<close>

definition stat_stk_chk :: "nat \<Rightarrow> os_state \<Rightarrow> os_state option" where
  "stat_stk_chk prio s =
     (case OSTaskStkChk prio 1 s of
        None \<Rightarrow> None
      | Some (err, data) \<Rightarrow>
          (case data of
             None \<Rightarrow> Some s
           | Some d \<Rightarrow>
               if err = OS_ERR_NONE
               then (let ptcb = OSTCBPrioTbl s prio
                     in if ptcb \<noteq> NULL
                        then if ptcb \<noteq> OS_TCB_RESERVED
                             then Some (upd_tcb ptcb (\<lambda>t. t\<lparr>OSTCBStkBase := OSTCBStkBottom t + 4 * unat (OSTCBStkSize t),
                                    OSTCBStkUsed := OSUsed d\<rparr>) s)
                             else Some s
                        else Some s)
               else Some s))"

primrec stat_chk_loop :: "nat \<Rightarrow> os_state \<Rightarrow> os_state option" where
  "stat_chk_loop 0 s = Some s"
| "stat_chk_loop (Suc n) s = (case stat_chk_loop n s of None \<Rightarrow> None | Some s1 \<Rightarrow> stat_stk_chk n s1)"

definition OS_TaskStatStkChk :: "os_state \<Rightarrow> os_state option" where
  "OS_TaskStatStkChk s = stat_chk_loop (OS_TASK_IDLE_PRIO + 1) s"

text \<open>
  The statistics task: one iteration of the loop that waits for \<open>OSStatRdy\<close> (\<open>None\<close>: it is set), what
  follows it (\<open>Inl\<close>: there was no idle time to measure and the task has suspended itself; if it were
  resumed it would divide by zero), and one iteration of the main loop.
\<close>

definition OS_TaskStat_wait :: "os_state \<Rightarrow> os_state option" where
  "OS_TaskStat_wait s = (if \<not> OSStatRdy s then Some (OSTimeDly (2 * OS_TICKS_PER_SEC div 10) s) else None)"

definition OS_TaskStat_start :: "os_state \<Rightarrow> os_state + os_state" where
  "OS_TaskStat_start s =
     (let s1 = s\<lparr>OSIdleCtrMax := OSIdleCtrMax s div 100\<rparr>
      in if OSIdleCtrMax s1 = 0 then Inl (snd (OSTaskSuspend OS_PRIO_SELF (s1\<lparr>OSCPUUsage := 0\<rparr>)))
         else Inr (s1\<lparr>OSIdleCtr := OSIdleCtrMax s1 * 100\<rparr>))"

definition OS_TaskStat_usage :: "os_state \<Rightarrow> os_state" where
  "OS_TaskStat_usage s =
     (let s1 = s\<lparr>OSIdleCtrRun := OSIdleCtr s, OSIdleCtr := 0\<rparr>
      in s1\<lparr>OSCPUUsage := ucast (100 - OSIdleCtrRun s1 div OSIdleCtrMax s1)\<rparr>)"

definition OS_TaskStat :: "os_state \<Rightarrow> os_state option" where
  "OS_TaskStat s = map_option (OSTimeDly (OS_TICKS_PER_SEC div 10)) (OS_TaskStatStkChk (OS_TaskStat_usage s))"

text \<open>\<open>OSStatInit\<close> in three parts, separated by its two delays.\<close>

definition OSStatInit_begin :: "os_state \<Rightarrow> os_state" where
  "OSStatInit_begin s = OSTimeDly 2 s"

definition OSStatInit_count :: "os_state \<Rightarrow> os_state" where
  "OSStatInit_count s = OSTimeDly (OS_TICKS_PER_SEC div 10) (s\<lparr>OSIdleCtr := 0\<rparr>)"

definition OSStatInit_end :: "os_state \<Rightarrow> os_state" where
  "OSStatInit_end s = s\<lparr>OSIdleCtrMax := OSIdleCtr s, OSStatRdy := True\<rparr>"

subsection \<open>Before multitasking starts\<close>

text \<open>
  The kernel between two steps of the initialisation: \<open>ps\<close> are the tasks besides the idle task, the
  newest first, \<open>xs\<close> and \<open>es\<close> the free task and event blocks.
\<close>

definition boot_ok :: "os_state \<Rightarrow> nat list \<Rightarrow> ptr list \<Rightarrow> ptr list \<Rightarrow> bool" where
  "boot_ok s ps xs es \<longleftrightarrow> kinv s \<and> tcb_list s ps \<and> free_tcbs s xs \<and> free_events s es
     \<and> OSIntNesting s = 0 \<and> OSLockNesting s = 0 \<and> \<not> OSRunning s"

text \<open>Creating a task writes these fields only.\<close>

definition task_only :: "os_state \<Rightarrow> os_state \<Rightarrow> bool" where
  "task_only s' s \<longleftrightarrow> s' = s\<lparr>OSRdyGrp := OSRdyGrp s', OSRdyTbl := OSRdyTbl s', OSTaskCtr := OSTaskCtr s',
     OSTCBFreeList := OSTCBFreeList s', OSTCBList := OSTCBList s', OSTCBPrioTbl := OSTCBPrioTbl s',
     OSTCBTbl := OSTCBTbl s', stk_words := stk_words s'\<rparr>"

lemma task_onlyI: "s' = s\<lparr>OSRdyGrp := a, OSRdyTbl := b, OSTaskCtr := c, OSTCBFreeList := d, OSTCBList := e,
    OSTCBPrioTbl := f, OSTCBTbl := g, stk_words := h\<rparr> \<Longrightarrow> task_only s' s"
  by (simp add: task_only_def)

lemma task_only_trans: "task_only s'' s' \<Longrightarrow> task_only s' s \<Longrightarrow> task_only s'' s"
  unfolding task_only_def
proof -
  assume a: "s'' = s'\<lparr>OSRdyGrp := OSRdyGrp s'', OSRdyTbl := OSRdyTbl s'', OSTaskCtr := OSTaskCtr s'',
     OSTCBFreeList := OSTCBFreeList s'', OSTCBList := OSTCBList s'', OSTCBPrioTbl := OSTCBPrioTbl s'',
     OSTCBTbl := OSTCBTbl s'', stk_words := stk_words s''\<rparr>"
    and b: "s' = s\<lparr>OSRdyGrp := OSRdyGrp s', OSRdyTbl := OSRdyTbl s', OSTaskCtr := OSTaskCtr s',
     OSTCBFreeList := OSTCBFreeList s', OSTCBList := OSTCBList s', OSTCBPrioTbl := OSTCBPrioTbl s',
     OSTCBTbl := OSTCBTbl s', stk_words := stk_words s'\<rparr>"
  show "s'' = s\<lparr>OSRdyGrp := OSRdyGrp s'', OSRdyTbl := OSRdyTbl s'', OSTaskCtr := OSTaskCtr s'',
     OSTCBFreeList := OSTCBFreeList s'', OSTCBList := OSTCBList s'', OSTCBPrioTbl := OSTCBPrioTbl s'',
     OSTCBTbl := OSTCBTbl s'', stk_words := stk_words s''\<rparr>"
    by (subst a, subst b) simp
qed

lemma task_onlyD:
  assumes "task_only s' s"
  shows "OSEvents s' = OSEvents s" "OSEventFreeList s' = OSEventFreeList s" "OSIntNesting s' = OSIntNesting s"
    "OSLockNesting s' = OSLockNesting s" "OSRunning s' = OSRunning s" "tmr_same s' s"
    "OSFlagTbl s' = OSFlagTbl s" "OSFlagFreeList s' = OSFlagFreeList s" "OSMemTbl s' = OSMemTbl s"
    "OSMemFreeParts s' = OSMemFreeParts s" "OSQTbl s' = OSQTbl s" "OSQFreeList s' = OSQFreeList s"
    "OSTmrSem s' = OSTmrSem s" "OSTmrSemSignal s' = OSTmrSemSignal s" "OSTime s' = OSTime s"
    "OSPrioCur s' = OSPrioCur s" "OSTCBCur s' = OSTCBCur s"
proof -
  obtain a b c d e f g h where eq: "s' = s\<lparr>OSRdyGrp := a, OSRdyTbl := b, OSTaskCtr := c, OSTCBFreeList := d, OSTCBList := e,
    OSTCBPrioTbl := f, OSTCBTbl := g, stk_words := h\<rparr>" using assms unfolding task_only_def by blast
  show "OSEvents s' = OSEvents s" "OSEventFreeList s' = OSEventFreeList s" "OSIntNesting s' = OSIntNesting s"
    "OSLockNesting s' = OSLockNesting s" "OSRunning s' = OSRunning s" "tmr_same s' s"
    "OSFlagTbl s' = OSFlagTbl s" "OSFlagFreeList s' = OSFlagFreeList s" "OSMemTbl s' = OSMemTbl s"
    "OSMemFreeParts s' = OSMemFreeParts s" "OSQTbl s' = OSQTbl s" "OSQFreeList s' = OSQFreeList s"
    "OSTmrSem s' = OSTmrSem s" "OSTmrSemSignal s' = OSTmrSemSignal s" "OSTime s' = OSTime s"
    "OSPrioCur s' = OSPrioCur s" "OSTCBCur s' = OSTCBCur s"
    by (simp_all add: eq tmr_same_def)
qed

lemma OS_TCBInit_only:
  assumes "OS_TCBInit p ptos pbos ident sz pext opt s = (err, s')"
  shows "task_only s' s"
proof -
  have s': "s' = snd (OS_TCBInit p ptos pbos ident sz pext opt s)" using assms by simp
  show ?thesis
    unfolding s' OS_TCBInit_def tcb_alloc_def Let_def tcb_rdy_def set_rdy_map_def upd_tcb_def
    by (cases "OSTCBFreeList s = NULL"; cases "OSTCBList s = NULL") (simp_all add: task_only_def)
qed

lemma stk_clear_only: "\<exists>w. stk_clear n pbos s = s\<lparr>stk_words := w\<rparr>"
proof (induction n arbitrary: pbos s)
  case 0
  have "s = s\<lparr>stk_words := stk_words s\<rparr>" by simp
  then show ?case by (metis stk_clear.simps(1))
next
  case (Suc n)
  obtain w where "stk_clear n (pbos + 4) (s\<lparr>stk_words := (stk_words s)(pbos := 0)\<rparr>)
      = (s\<lparr>stk_words := (stk_words s)(pbos := 0)\<rparr>)\<lparr>stk_words := w\<rparr>" using Suc by blast
  then show ?case by auto
qed

lemma OS_TaskStkClr_words: "\<exists>w. OS_TaskStkClr pbos sz opt s = s\<lparr>stk_words := w\<rparr>"
proof -
  have "s = s\<lparr>stk_words := stk_words s\<rparr>" by simp
  then show ?thesis using stk_clear_only [of "unat sz" pbos s] by (metis OS_TaskStkClr_def)
qed

text \<open>Both creation services initialise the control block in a state that differs from the caller's in the
  reserved entry of the priority table and in stack words.\<close>

lemma create_eq:
  assumes "p \<le> OS_LOWEST_PRIO" and "OSTCBPrioTbl s p = NULL" and "OSIntNesting s = 0" and "\<not> OSRunning s"
  obtains w psp e3 s3 where
    "OS_TCBInit p psp pbos ident sz pext opt (s\<lparr>OSTCBPrioTbl := (OSTCBPrioTbl s)(p := OS_TCB_RESERVED), stk_words := w\<rparr>) = (e3, s3)"
    and "OSTaskCreateExt ret task arg ptos p ident pbos sz pext opt s =
      (e3, if e3 = OS_ERR_NONE then s3 else s3\<lparr>OSTCBPrioTbl := (OSTCBPrioTbl s3)(p := NULL)\<rparr>)"
proof -
  define s1 where "s1 = s\<lparr>OSTCBPrioTbl := (OSTCBPrioTbl s)(p := OS_TCB_RESERVED)\<rparr>"
  obtain w1 where w1: "OS_TaskStkClr pbos sz opt s1 = s1\<lparr>stk_words := w1\<rparr>" using OS_TaskStkClr_words by blast
  obtain psp s2 where i: "OSTaskStkInit ret task arg ptos (s1\<lparr>stk_words := w1\<rparr>) = (psp, s2)" by fastforce
  obtain w2 where w2: "s2 = s1\<lparr>stk_words := w2\<rparr>"
    using OSTaskStkInit_words [of ret task arg ptos "s1\<lparr>stk_words := w1\<rparr>"] i by auto
  obtain e3 s3 where t: "OS_TCBInit p psp pbos ident sz pext opt s2 = (e3, s3)" by fastforce
  have "\<not> OSRunning s3" using task_onlyD(5) [OF OS_TCBInit_only [OF t]] assms(4) by (simp add: w2 s1_def)
  then have "OSTaskCreateExt ret task arg ptos p ident pbos sz pext opt s =
      (e3, if e3 = OS_ERR_NONE then s3 else s3\<lparr>OSTCBPrioTbl := (OSTCBPrioTbl s3)(p := NULL)\<rparr>)"
    using assms w1 i t unfolding OSTaskCreateExt_def by (simp add: Let_def s1_def)
  then show ?thesis using that [of psp w2 e3 s3] t by (simp add: w2 s1_def)
qed

lemma boot_create:
  assumes ok: "boot_ok s ps (x # xs) es" and p: "p < OS_LOWEST_PRIO" "OSTCBPrioTbl s p = NULL"
    and r: "OSTaskCreateExt ret task arg ptos p ident pbos sz pext opt s = (err, s')"
  shows "err = OS_ERR_NONE" and "boot_ok s' (p # ps) xs es" and "\<And>q. rdy s' q \<longleftrightarrow> q = p \<or> rdy s q"
    and "\<And>q. q \<noteq> p \<Longrightarrow> OSTCBPrioTbl s' q = OSTCBPrioTbl s q" and "task_only s' s" and "OSTaskCtr s' = OSTaskCtr s + 1"
proof -
  have inv: "kinv s" and tl: "tcb_list s ps" and fr: "free_tcbs s (x # xs)" and fe: "free_events s es"
    and nest: "OSIntNesting s = 0" "OSLockNesting s = 0" "\<not> OSRunning s"
    using ok by (simp_all add: boot_ok_def)
  have nt: "\<not> is_task s p" using p(2) by (simp add: is_task_def)
  obtain w psp e3 s3 where
    t: "OS_TCBInit p psp pbos ident sz pext opt (s\<lparr>OSTCBPrioTbl := (OSTCBPrioTbl s)(p := OS_TCB_RESERVED), stk_words := w\<rparr>) = (e3, s3)"
    and c: "OSTaskCreateExt ret task arg ptos p ident pbos sz pext opt s =
      (e3, if e3 = OS_ERR_NONE then s3 else s3\<lparr>OSTCBPrioTbl := (OSTCBPrioTbl s3)(p := NULL)\<rparr>)"
    using create_eq [OF _ p(2) nest(1,3)] p(1) by (metis less_imp_le_nat)
  define s2 where "s2 = s\<lparr>OSTCBPrioTbl := (OSTCBPrioTbl s)(p := OS_TCB_RESERVED), stk_words := w\<rparr>"
  note t = t [folded s2_def]
  have tasks2: "is_task s2 q = is_task s q" for q using p(2) by (simp add: is_task_def s2_def)
  have pt2: "OSTCBPrioTbl s2 q = OSTCBPrioTbl s q" if "is_task s q" for q using that nt by (auto simp: s2_def)
  have f2: "OSTCBTbl s2 = OSTCBTbl s" "OSEvents s2 = OSEvents s" "rdy_map s2 = rdy_map s" "OSTCBList s2 = OSTCBList s"
    "OSTCBFreeList s2 = OSTCBFreeList s" "OSEventFreeList s2 = OSEventFreeList s"
    by (simp_all add: s2_def rdy_map_def)
  have inv2: "kinv s2" using inv kinv_PrioTbl_cong [OF tasks2 pt2 f2(1,2,3)] by simp
  have tl2: "tcb_list s2 ps" using tl tcb_list_cong [OF f2(4) pt2 tasks2] by (simp add: f2)
  have fr2: "free_tcbs s2 (x # xs)"
    using fr pt2 unfolding free_tcbs_def tasks2 tcb_pool_def f2 by (auto simp: f2)
  have nt2: "\<not> is_task s2 p" using nt tasks2 by simp
  note I = OS_TCBInit_ok [OF inv2 nt2 p(1) tl2 fr2 t]
  have e: "err = OS_ERR_NONE" "s' = s3" using r c I(1) by simp_all
  show "err = OS_ERR_NONE" by (fact e(1))
  have "task_only s2 s" by (simp add: task_only_def s2_def)
  then show to: "task_only s' s" unfolding e(2) using task_only_trans [OF OS_TCBInit_only [OF t]] by blast
  have "free_events s' es" using fe task_onlyD [OF to] by (simp add: free_events_def)
  then show "boot_ok s' (p # ps) xs es"
    using I(2,3,4) task_onlyD(3,4,5) [OF to] nest by (simp add: boot_ok_def e(2))
  show "rdy s' q \<longleftrightarrow> q = p \<or> rdy s q" for q by (simp add: e I(6)) (simp add: rdy_def f2)
  show "OSTCBPrioTbl s' q = OSTCBPrioTbl s q" if "q \<noteq> p" for q using that by (simp add: e I(7)) (simp add: s2_def)
  show "OSTaskCtr s' = OSTaskCtr s + 1" by (simp add: e I(19)) (simp add: s2_def)
qed

lemma boot_cong:
  assumes ok: "boot_ok s ps xs es" and same: "kernel_same s' s"
    and links: "tcb_next s' = tcb_next s" "tcb_prev s' = tcb_prev s" "OSTCBList s' = OSTCBList s" "OSTCBFreeList s' = OSTCBFreeList s"
    and ev: "free_events s' es' = free_events s es" 
    and nest: "OSIntNesting s' = OSIntNesting s" "OSLockNesting s' = OSLockNesting s" "OSRunning s' = OSRunning s"
  shows "boot_ok s' ps xs es'"
proof -
  have pt: "OSTCBPrioTbl s' = OSTCBPrioTbl s" using same by (simp add: kernel_same_def)
  have "tcb_list s' ps = tcb_list s ps"
    unfolding tcb_list_def links kernel_same_simps(1) [OF same] pt ..
  moreover have "free_tcbs s' xs = free_tcbs s xs"
    unfolding free_tcbs_def tcb_pool_def links kernel_same_simps(1) [OF same] pt ..
  ultimately show ?thesis using ok ev nest kinv_cong [OF same] by (simp add: boot_ok_def)
qed

lemma boot_tmr_pool: "boot_ok s ps xs es \<Longrightarrow> boot_ok (OSTmr_InitPool s) ps xs es"
  by (erule boot_cong) (simp_all add: OSTmr_InitPool_def Let_def kernel_same_def rdy_map_def free_events_def)

lemma boot_name:
  assumes "boot_ok s ps xs es"
  shows "boot_ok (snd (OSTaskNameSet p nm s)) ps xs es"
proof (rule boot_cong [OF assms])
  let ?s = "snd (OSTaskNameSet p nm s)"
  have or: "?s = s \<or> (\<exists>t n. ?s = upd_tcb t (\<lambda>t. t\<lparr>OSTCBTaskName := n\<rparr>) s)"
    by (auto simp: OSTaskNameSet_def Let_def split: option.split)
  then show "kernel_same ?s s" "free_events ?s es = free_events s es" "OSTCBList ?s = OSTCBList s" "OSTCBFreeList ?s = OSTCBFreeList s"
    "OSIntNesting ?s = OSIntNesting s" "OSLockNesting ?s = OSLockNesting s" "OSRunning ?s = OSRunning s"
    by (auto simp: kernel_same_def tcb_same_def free_events_def)
  show "tcb_next ?s = tcb_next s" "tcb_prev ?s = tcb_prev s" using or by auto
qed

lemma task_only_name: "task_only (snd (OSTaskNameSet p nm s)) s"
  by (auto simp: OSTaskNameSet_def Let_def task_only_def upd_tcb_def split: option.split)

lemma name_prios [simp]:
  "OSTCBPrioTbl (snd (OSTaskNameSet p nm s)) = OSTCBPrioTbl s" "rdy (snd (OSTaskNameSet p nm s)) q = rdy s q"
  "OSTaskCtr (snd (OSTaskNameSet p nm s)) = OSTaskCtr s"
  by (auto simp: OSTaskNameSet_def Let_def rdy_def split: option.split)

subsection \<open>The idle task\<close>

text \<open>A kernel without tasks and without used events.\<close>

definition boot_blank :: "os_state \<Rightarrow> ptr list \<Rightarrow> ptr list \<Rightarrow> bool" where
  "boot_blank s xs es \<longleftrightarrow> (\<forall>p. OSTCBPrioTbl s p = NULL) \<and> rdy_map s = bm_empty
     \<and> (\<forall>e. event_map (OSEvents s e) = bm_empty) \<and> OSTCBList s = NULL \<and> tcb_pool s xs \<and> OS_TCB_RESERVED \<notin> set xs
     \<and> free_events s es \<and> OSIntNesting s = 0 \<and> OSLockNesting s = 0 \<and> \<not> OSRunning s"

lemma OS_TCBInit_idle:
  assumes pt: "OSTCBPrioTbl s = (\<lambda>_. NULL)(OS_TASK_IDLE_PRIO := OS_TCB_RESERVED)" and rm: "rdy_map s = bm_empty"
    and ev: "\<And>e. event_map (OSEvents s e) = bm_empty" and l: "OSTCBList s = NULL"
    and pool: "tcb_pool s (x # xs)" and res: "OS_TCB_RESERVED \<notin> set (x # xs)"
    and r: "OS_TCBInit OS_TASK_IDLE_PRIO ptos pbos ident sz pext opt s = (err, s')"
  shows "err = OS_ERR_NONE" and "kinv s'" and "tcb_list s' []" and "free_tcbs s' xs"
    and "OSTCBPrioTbl s' = (\<lambda>_. NULL)(OS_TASK_IDLE_PRIO := x)" and "\<And>q. rdy s' q \<longleftrightarrow> q = OS_TASK_IDLE_PRIO"
    and "OSTaskCtr s' = OSTaskCtr s + 1"
proof -
  have x: "OSTCBFreeList s = x" "x \<noteq> 0" "x \<notin> set xs" "distinct xs" and px: "path (tcb_next s) (tcb_next s x) xs" and xr: "x \<noteq> OS_TCB_RESERVED"
    using pool res by (auto simp: tcb_pool_def)
  let ?p = "OS_TASK_IDLE_PRIO"
  define T where "T = (OSTCBTbl s x)\<lparr>OSTCBStkPtr := ptos, OSTCBPrio := ?p, OSTCBStat := OS_STAT_RDY,
                          OSTCBStatPend := OS_STAT_PEND_OK, OSTCBDly := 0, OSTCBExtPtr := pext,
                          OSTCBStkSize := sz, OSTCBStkBottom := pbos, OSTCBOpt := opt, OSTCBId := ident,
                          OSTCBDelReq := OS_ERR_NONE, OSTCBY := ?p div 8, OSTCBX := ?p mod 8,
                          OSTCBBitY := 2 ^ (?p div 8), OSTCBBitX := 2 ^ (?p mod 8),
                          OSTCBEventPtr := NULL, OSTCBEventMultiPtr := None, OSTCBFlagNode := NULL,
                          OSTCBMsg := NULL, OSTCBCtxSwCtr := 0, OSTCBCyclesStart := 0, OSTCBCyclesTot := 0,
                          OSTCBStkBase := NULL, OSTCBStkUsed := 0, OSTCBTaskName := ''?'',
                          OSTCBRegTbl := (OSTCBRegTbl (OSTCBTbl s x))(0 := 0), OSTCBNext := NULL, OSTCBPrev := NULL\<rparr>"
  have tprio: "tcb_prio_ok ?p T" by (simp add: T_def tcb_prio_ok_def prio_bitx_def prio_bity_def)
  define s6 where "s6 = s\<lparr>OSTCBFreeList := tcb_next s x, OSTCBPrioTbl := (OSTCBPrioTbl s)(?p := x),
    OSTCBTbl := (OSTCBTbl s)(x := T), OSTCBList := x\<rparr>"
  have e: "err = OS_ERR_NONE" "s' = (tcb_rdy x s6)\<lparr>OSTaskCtr := OSTaskCtr (tcb_rdy x s6) + 1\<rparr>"
    using r x(1,2) l unfolding OS_TCBInit_def tcb_alloc_def s6_def T_def by (simp_all add: Let_def upd_tcb_def)
  have "tcb_rdy x s6 = set_rdy_map (bm_ins ?p (rdy_map s6)) s6"
    using tprio by (intro tcb_rdy_eq) (simp add: s6_def)
  moreover have "rdy_map s6 = bm_empty" using rm by (simp add: s6_def rdy_map_def)
  ultimately have rd: "tcb_rdy x s6 = set_rdy_map (bm_ins ?p bm_empty) s6" by simp
  have f: "OSTCBTbl s' = (OSTCBTbl s)(x := T)" "OSTCBPrioTbl s' = (\<lambda>_. NULL)(?p := x)" "rdy_map s' = bm_ins ?p bm_empty"
    "OSTCBFreeList s' = tcb_next s x" "OSTCBList s' = x" "OSEvents s' = OSEvents s"
    by (simp_all add: e rd rdy_map_def) (simp_all add: s6_def set_rdy_map_def pt)
  show "err = OS_ERR_NONE" by (fact e(1))
  show "OSTCBPrioTbl s' = (\<lambda>_. NULL)(?p := x)" by (fact f(2))
  show "OSTaskCtr s' = OSTaskCtr s + 1" by (simp add: e rd) (simp add: s6_def)
  have tasks: "is_task s' q \<longleftrightarrow> q = ?p" for q using x(2) xr by (simp add: is_task_def f)
  show rdys: "rdy s' q \<longleftrightarrow> q = ?p" for q by (simp add: rdy_def f bm_mem_ins)
  have at_p: "task_at s' ?p = T" by (simp add: task_at_def f)
  have nw: "\<not> waits s' e q" for e q by (simp add: waits_def f ev)
  have "prio_inv s' q" for q
    unfolding prio_inv_def tasks rdys using tprio nw at_p by (auto simp: T_def tcb_runnable_def)
  moreover have "bm_ok (rdy_map s')" by (simp add: f bm_ok_ins)
  ultimately show "kinv s'" unfolding kinv_local rdys by (intro conjI allI) (simp_all add: f(6) ev)
  show "tcb_list s' []" unfolding tcb_list_def tasks using x(2) by (simp add: f T_def)
  have "path (tcb_next s') (tcb_next s x) xs = path (tcb_next s) (tcb_next s x) xs"
    using x by (intro path_cong) (auto simp: f)
  then show "free_tcbs s' xs"
    using px x res by (auto simp: free_tcbs_def tcb_pool_def f tasks)
qed

lemma boot_idle:
  assumes b: "boot_blank s (x # xs) es"
  shows "boot_ok (OS_InitTaskIdle env s) [] xs es" and "\<And>q. rdy (OS_InitTaskIdle env s) q \<longleftrightarrow> q = OS_TASK_IDLE_PRIO"
    and "\<And>q. q \<noteq> OS_TASK_IDLE_PRIO \<Longrightarrow> OSTCBPrioTbl (OS_InitTaskIdle env s) q = NULL" and "task_only (OS_InitTaskIdle env s) s"
    and "OSTaskCtr (OS_InitTaskIdle env s) = OSTaskCtr s + 1"
proof -
  let ?p = "OS_TASK_IDLE_PRIO"
  have nest: "OSIntNesting s = 0" "OSLockNesting s = 0" "\<not> OSRunning s" and p0: "OSTCBPrioTbl s = (\<lambda>_. NULL)"
    and rm: "rdy_map s = bm_empty" and ev: "\<And>e. event_map (OSEvents s e) = bm_empty" and l: "OSTCBList s = NULL"
    and pool: "tcb_pool s (x # xs)" and res: "OS_TCB_RESERVED \<notin> set (x # xs)" and fe: "free_events s es"
    using b by (simp_all add: boot_blank_def fun_eq_iff)
  have p0': "OSTCBPrioTbl s ?p = NULL" by (simp add: p0)
  obtain w psp e3 s3 where
    t: "OS_TCBInit ?p psp (idle_stk env) OS_TASK_IDLE_ID (of_nat OS_TASK_IDLE_STK_SIZE) NULL (OS_TASK_OPT_STK_CHK OR OS_TASK_OPT_STK_CLR)
          (s\<lparr>OSTCBPrioTbl := (OSTCBPrioTbl s)(?p := OS_TCB_RESERVED), stk_words := w\<rparr>) = (e3, s3)"
    and c: "OSTaskCreateExt (ret_fn env) (idle_fn env) 0 (idle_stk env + 4 * (OS_TASK_IDLE_STK_SIZE - 1)) ?p
          OS_TASK_IDLE_ID (idle_stk env) (of_nat OS_TASK_IDLE_STK_SIZE) NULL (OS_TASK_OPT_STK_CHK OR OS_TASK_OPT_STK_CLR) s =
      (e3, if e3 = OS_ERR_NONE then s3 else s3\<lparr>OSTCBPrioTbl := (OSTCBPrioTbl s3)(?p := NULL)\<rparr>)"
    using create_eq [OF order_refl p0' nest(1,3)] by metis
  define s2 where "s2 = s\<lparr>OSTCBPrioTbl := (OSTCBPrioTbl s)(?p := OS_TCB_RESERVED), stk_words := w\<rparr>"
  note t = t [folded s2_def]
  have I: "e3 = OS_ERR_NONE" "kinv s3" "tcb_list s3 []" "free_tcbs s3 xs" "OSTCBPrioTbl s3 = (\<lambda>_. NULL)(?p := x)"
    "\<And>q. rdy s3 q \<longleftrightarrow> q = ?p" "OSTaskCtr s3 = OSTaskCtr s2 + 1"
    by (rule OS_TCBInit_idle [OF _ _ _ _ _ res t];
        use rm ev l pool in \<open>simp add: s2_def p0 rdy_map_def tcb_pool_def\<close>)+
  have "task_only s2 s" by (simp add: task_only_def s2_def)
  then have to3: "task_only s3 s" using task_only_trans [OF OS_TCBInit_only [OF t]] by blast
  have eq: "OS_InitTaskIdle env s = snd (OSTaskNameSet ?p (Some ''uC/OS-II Idle'') s3)"
    using c I(1) by (simp add: OS_InitTaskIdle_def)
  have "boot_ok s3 [] xs es"
    using I(2,3,4) fe task_onlyD [OF to3] nest by (simp add: boot_ok_def free_events_def)
  then show "boot_ok (OS_InitTaskIdle env s) [] xs es" unfolding eq by (rule boot_name)
  show "rdy (OS_InitTaskIdle env s) q \<longleftrightarrow> q = ?p" for q by (simp add: eq I(6))
  show "OSTCBPrioTbl (OS_InitTaskIdle env s) q = NULL" if "q \<noteq> ?p" for q using that by (simp add: eq I(5))
  show "task_only (OS_InitTaskIdle env s) s" unfolding eq using task_only_trans [OF task_only_name to3] .
  show "OSTaskCtr (OS_InitTaskIdle env s) = OSTaskCtr s + 1" by (simp add: eq I(7) s2_def)
qed

text \<open>\<open>OSTaskCreate\<close> is \<open>OSTaskCreateExt\<close> without a stack to clear.\<close>

lemma OSTaskCreate_Ext: "OSTaskCreate ret task arg ptos p s = OSTaskCreateExt ret task arg ptos p 0 NULL 0 NULL 0 s"
  by (simp add: OSTaskCreate_def OSTaskCreateExt_def OS_TaskStkClr_def Let_def)

subsection \<open>The tables after their initialisation\<close>

lemma tcb_init_link_at:
  "tcb_init_link n tbl a = (if 2 \<le> a \<and> a < n + 2 then (tbl a)\<lparr>OSTCBNext := a + 1, OSTCBTaskName := ''?''\<rparr> else tbl a)"
  by (induction n) (auto simp: Let_def less_Suc_eq)

lemma event_init_link_at:
  "event_init_link n tbl a = (if 1 \<le> a \<and> a < n + 1
     then (tbl a)\<lparr>OSEventType := OS_EVENT_TYPE_UNUSED, OSEventPtr := a + 1, OSEventName := ''?''\<rparr> else tbl a)"
  by (induction n) (auto simp: Let_def less_Suc_eq)

lemma OS_InitTCBList_pool: "tcb_pool (OS_InitTCBList s) [2..<24]"
proof -
  have "path (tcb_next (OS_InitTCBList s)) 2 [2..<Suc 23]"
    by (rule path_upt) (auto simp: OS_InitTCBList_def Let_def tcb_init_link_at OS_TCB_clr_def)
  then show ?thesis by (simp add: tcb_pool_def OS_InitTCBList_def Let_def)
qed

lemma OS_InitEventList_free:
  "free_events (OS_InitEventList s) [1..<11]" "event_map (OSEvents (OS_InitEventList s) e) = bm_empty"
proof -
  have ev: "OSEvents (OS_InitEventList s) a = (if 1 \<le> a \<and> a \<le> 10
      then OS_EVENT_clr\<lparr>OSEventPtr := (if a = 10 then NULL else a + 1), OSEventName := ''?''\<rparr> else OS_EVENT_clr)" for a
    by (auto simp: OS_InitEventList_def Let_def event_init_link_at OS_EVENT_clr_def)
  have "path (\<lambda>e. OSEventPtr (OSEvents (OS_InitEventList s) e)) 1 [1..<Suc 10]"
    by (rule path_upt) (auto simp: ev)
  then show "free_events (OS_InitEventList s) [1..<11]"
    by (simp add: free_events_def) (simp add: ev OS_EVENT_clr_def, simp add: OS_InitEventList_def Let_def)
  show "event_map (OSEvents (OS_InitEventList s) e) = bm_empty"
    by (simp add: ev event_map_def OS_EVENT_clr_def bm_empty_def)
qed

definition tables_init :: "boot_env \<Rightarrow> os_state \<Rightarrow> os_state" where
  "tables_init env s = OS_QInit (OS_MemInit (OS_FlagInit
     (OS_InitEventList (OS_InitTCBList (OS_InitRdyList (OS_InitMisc (OSInitHookBegin env s)))))))"

lemma tables_init_blank: "boot_blank (tables_init env s) [2..<24] [1..<11]"
proof -
  let ?m = "OS_InitRdyList (OS_InitMisc (OSInitHookBegin env s))"
  have q: "OSTCBPrioTbl (tables_init env s) = (\<lambda>_. NULL)" "rdy_map (tables_init env s) = bm_empty" "OSTCBList (tables_init env s) = NULL"
    "OSIntNesting (tables_init env s) = 0" "OSLockNesting (tables_init env s) = 0" "\<not> OSRunning (tables_init env s)"
    "OSTCBTbl (tables_init env s) = OSTCBTbl (OS_InitTCBList ?m)" "OSTCBFreeList (tables_init env s) = OSTCBFreeList (OS_InitTCBList ?m)"
    "OSEvents (tables_init env s) = OSEvents (OS_InitEventList (OS_InitTCBList ?m))"
    "OSEventFreeList (tables_init env s) = OSEventFreeList (OS_InitEventList (OS_InitTCBList ?m))"
    by (simp_all add: tables_init_def OS_QInit_def OS_MemInit_def OS_FlagInit_def OS_InitEventList_def OS_InitTCBList_def
        OS_InitRdyList_def OS_InitMisc_def rdy_map_def bm_empty_def Let_def)
  have "tcb_pool (tables_init env s) [2..<24]" using OS_InitTCBList_pool [of ?m] by (simp add: tcb_pool_def q)
  moreover have "free_events (tables_init env s) [1..<11]" using OS_InitEventList_free(1) [of "OS_InitTCBList ?m"]
    by (simp add: free_events_def q)
  moreover have "OS_TCB_RESERVED \<notin> set [2..<24]" by simp
  ultimately show ?thesis unfolding boot_blank_def using q OS_InitEventList_free(2) [of "OS_InitTCBList ?m"] by simp
qed

lemma tables_init_free:
  "free_queues (tables_init env s) [1, 2, 3, 4]" "free_parts (tables_init env s) [1, 2, 3, 4, 5]"
  "free_flags (tables_init env s) [1, 2, 3, 4, 5]" "OSTime (tables_init env s) = 0" "OSTaskCtr (tables_init env s) = 0"
proof -
  let ?e = "OS_InitEventList (OS_InitTCBList (OS_InitRdyList (OS_InitMisc (OSInitHookBegin env s))))"
  show "free_queues (tables_init env s) [1, 2, 3, 4]" using OS_QInit_free by (simp add: tables_init_def)
  show "free_parts (tables_init env s) [1, 2, 3, 4, 5]"
    using OS_MemInit_free [of "OS_FlagInit ?e"] by (simp add: tables_init_def free_parts_def OS_QInit_def Let_def)
  show "free_flags (tables_init env s) [1, 2, 3, 4, 5]"
    using OS_FlagInit_free [of ?e] by (simp add: tables_init_def free_flags_def OS_QInit_def OS_MemInit_def Let_def)
  show "OSTime (tables_init env s) = 0" "OSTaskCtr (tables_init env s) = 0"
    by (simp_all add: tables_init_def OS_QInit_def OS_MemInit_def OS_FlagInit_def OS_InitEventList_def OS_InitTCBList_def
        OS_InitRdyList_def OS_InitMisc_def Let_def)
qed

subsection \<open>The semaphores of the timer task\<close>

text \<open>Creating a semaphore and naming it write these fields only.\<close>

definition event_only :: "os_state \<Rightarrow> os_state \<Rightarrow> bool" where
  "event_only s' s \<longleftrightarrow> (\<exists>a b c d. s' = s\<lparr>OSEventFreeList := a, OSEvents := b, OSTmrSem := c, OSTmrSemSignal := d\<rparr>)"

lemma event_only_trans: "event_only s'' s' \<Longrightarrow> event_only s' s \<Longrightarrow> event_only s'' s"
  unfolding event_only_def by (elim exE) (simp, blast)

lemma event_onlyD:
  assumes "event_only s' s"
  shows "OSTCBPrioTbl s' = OSTCBPrioTbl s" "rdy s' q = rdy s q" "tmr_same s' s" "OSTaskCtr s' = OSTaskCtr s" "OSTime s' = OSTime s"
    "OSFlagTbl s' = OSFlagTbl s" "OSFlagFreeList s' = OSFlagFreeList s" "OSMemTbl s' = OSMemTbl s"
    "OSMemFreeParts s' = OSMemFreeParts s" "OSQTbl s' = OSQTbl s" "OSQFreeList s' = OSQFreeList s"
  using assms unfolding event_only_def by (auto simp: tmr_same_def rdy_def rdy_map_def)

lemma boot_sem:
  assumes ok: "boot_ok s ps xs (e # es)"
  obtains s' where "OSSemCreate cnt s = (e, s')" and "boot_ok s' ps xs es" and "event_only s' s"
    and "is_sem s' e" and "sem_abs s' e = (unat cnt, {})" and "\<And>x. x \<noteq> e \<Longrightarrow> OSEvents s' x = OSEvents s x"
    and "OSTmrSem s' = OSTmrSem s" and "OSTmrSemSignal s' = OSTmrSemSignal s"
proof -
  have inv: "kinv s" and fe: "free_events s (e # es)" and nest: "OSIntNesting s = 0"
    using ok by (simp_all add: boot_ok_def)
  have e: "OSEventFreeList s = e" "e \<noteq> NULL" "e \<notin> set es" and ty: "OSEventType (OSEvents s e) = OS_EVENT_TYPE_UNUSED"
    and px: "path (\<lambda>e. OSEventPtr (OSEvents s e)) (OSEventPtr (OSEvents s e)) es" using fe by (auto simp: free_events_def)
  let ?f = "\<lambda>ev. set_event_map bm_empty (ev\<lparr>OSEventType := OS_EVENT_TYPE_SEM, OSEventCnt := cnt, OSEventPtr := NULL, OSEventName := ''?''\<rparr>)"
  let ?s = "upd_event e ?f (s\<lparr>OSEventFreeList := OSEventPtr (OSEvents s e)\<rparr>)"
  have cr: "OSSemCreate cnt s = (e, ?s)"
    using nest e by (simp add: OSSemCreate_def event_alloc_def Let_def OS_EventWaitListInit_def upd_event_def)
  have W: "waiters s e = {}" using waitsD(5) [OF inv, of e] ty by (auto simp: waiters_def event_stat_def)
  have k: "kinv ?s" by (rule kinv_event_change [OF inv W]) (simp_all add: rdy_map_def)
  have "path (\<lambda>x. OSEventPtr (OSEvents ?s x)) (OSEventPtr (OSEvents s e)) es
      = path (\<lambda>x. OSEventPtr (OSEvents s x)) (OSEventPtr (OSEvents s e)) es"
    using e by (intro path_cong) auto
  then have f': "free_events ?s es" using px fe e(3) by (auto simp: free_events_def)
  have t: "is_task ?s q = is_task s q" for q by (simp add: is_task_def)
  have "boot_ok ?s ps xs es"
    using ok k f' by (simp add: boot_ok_def tcb_list_def t free_tcbs_def tcb_pool_def)
  moreover have "event_only ?s s"
    unfolding event_only_def
    by (intro exI [of _ "OSEventPtr (OSEvents s e)"] exI [of _ "OSEvents ?s"] exI [of _ "OSTmrSem s"] exI [of _ "OSTmrSemSignal s"])
       (simp add: upd_event_def)
  moreover have "is_sem ?s e" "sem_abs ?s e = (unat cnt, {})"
    using e by (auto simp: is_sem_def sem_abs_def waiters_def waits_def)
  ultimately show ?thesis using that [OF cr] by simp
qed

lemma boot_event_name:
  assumes ok: "boot_ok s ps xs es"
  shows "boot_ok (snd (OSEventNameSet e nm s)) ps xs es" and "event_only (snd (OSEventNameSet e nm s)) s"
    and "is_sem (snd (OSEventNameSet e nm s)) x = is_sem s x" and "sem_abs (snd (OSEventNameSet e nm s)) x = sem_abs s x"
    and "OSTmrSem (snd (OSEventNameSet e nm s)) = OSTmrSem s" and "OSTmrSemSignal (snd (OSEventNameSet e nm s)) = OSTmrSemSignal s"
proof -
  let ?s = "snd (OSEventNameSet e nm s)"
  have "?s = s \<or> (\<exists>n. ?s = upd_event e (\<lambda>ev. ev\<lparr>OSEventName := n\<rparr>) s)"
    by (auto simp: OSEventNameSet_def split: option.split)
  then consider "?s = s" | n where "?s = upd_event e (\<lambda>ev. ev\<lparr>OSEventName := n\<rparr>) s" by blast
  then have "boot_ok ?s ps xs es \<and> event_only ?s s \<and> is_sem ?s x = is_sem s x \<and> sem_abs ?s x = sem_abs s x
    \<and> OSTmrSem ?s = OSTmrSem s \<and> OSTmrSemSignal ?s = OSTmrSemSignal s"
  proof cases
    case 1
    moreover have "event_only s s" unfolding event_only_def
      by (intro exI [of _ "OSEventFreeList s"] exI [of _ "OSEvents s"] exI [of _ "OSTmrSem s"] exI [of _ "OSTmrSemSignal s"]) simp
    ultimately show ?thesis using ok by simp
  next
    case (2 n)
    have "(\<lambda>x. OSEventPtr (OSEvents ?s x)) = (\<lambda>x. OSEventPtr (OSEvents s x))"
      and "(\<lambda>x. OSEventType (OSEvents ?s x)) = (\<lambda>x. OSEventType (OSEvents s x))" by (auto simp: 2)
    then have "free_events ?s es = free_events s es" unfolding free_events_def by (simp add: 2 fun_eq_iff)
    then have "boot_ok ?s ps xs es"
      by (intro boot_cong [OF ok]) (auto simp: 2 kernel_same_def)
    moreover have "event_only ?s s" unfolding event_only_def 2
      by (intro exI [of _ "OSEventFreeList s"] exI [of _ "OSEvents (upd_event e (\<lambda>ev. ev\<lparr>OSEventName := n\<rparr>) s)"]
          exI [of _ "OSTmrSem s"] exI [of _ "OSTmrSemSignal s"]) (simp add: upd_event_def)
    ultimately show ?thesis by (simp add: 2 is_sem_def sem_abs_def waiters_def waits_def)
  qed
  then show "boot_ok ?s ps xs es" "event_only ?s s" "is_sem ?s x = is_sem s x" "sem_abs ?s x = sem_abs s x"
    "OSTmrSem ?s = OSTmrSem s" "OSTmrSemSignal ?s = OSTmrSemSignal s" by blast+
qed

subsection \<open>Starting multitasking\<close>

lemma OSStart_ok:
  assumes ok: "boot_ok s ps xs es"
  shows "kernel_ok (OSStart s)" and "OSPrioCur (OSStart s) = bm_high (rdy_map s)" and "tcb_list (OSStart s) ps"
    and "free_tcbs (OSStart s) xs" and "free_events (OSStart s) es" and "OSRunning (OSStart s)"
    and "OSIntNesting (OSStart s) = 0" and "OSLockNesting (OSStart s) = 0" and "kernel_same (OSStart s) s"
    and "OSEvents (OSStart s) = OSEvents s" and "OSTmrSemSignal (OSStart s) = OSTmrSemSignal s" and "tmr_same (OSStart s) s"
proof -
  let ?s = "OSStart s"
  have inv: "kinv s" and fe: "free_events s es" and nest: "OSIntNesting s = 0" "OSLockNesting s = 0" "\<not> OSRunning s"
    using ok by (simp_all add: boot_ok_def)
  let ?h = "bm_high (rdy_map s)"
  have f: "?s = s\<lparr>OSPrioHighRdy := ?h, OSPrioCur := ?h, OSTCBHighRdy := OSTCBPrioTbl s ?h,
      OSTCBCur := OSTCBPrioTbl s ?h, OSRunning := True\<rparr>"
    using nest(3) by (simp add: OSStart_def OSStartHighRdy_def PendSV_Handler_def OS_SchedNew_def Let_def)
  show same: "kernel_same ?s s" by (simp add: f kernel_same_def rdy_map_def)
  note K = kernel_same_simps [OF same]
  show "OSPrioCur ?s = ?h" "OSRunning ?s" "OSIntNesting ?s = 0" "OSLockNesting ?s = 0" "OSEvents ?s = OSEvents s"
    "OSTmrSemSignal ?s = OSTmrSemSignal s" "tmr_same ?s s"
    using nest by (simp_all add: f tmr_same_def)
  show fe': "free_events ?s es" using fe by (simp add: f free_events_def)
  have "boot_ok (?s\<lparr>OSRunning := False\<rparr>) ps xs es"
    by (rule boot_cong [OF ok]) (use nest in \<open>simp_all add: f kernel_same_def rdy_map_def free_events_def\<close>)
  then show "tcb_list ?s ps" "free_tcbs ?s xs" by (simp_all add: boot_ok_def tcb_list_def free_tcbs_def tcb_pool_def is_task_def)
  have inv': "kinv ?s" using inv kinv_cong [OF same] by simp
  have task: "is_task s ?h" by (rule rdy_task [OF inv rdy_high(1) [OF inv]])
  then have cur: "cur_ok ?s" unfolding cur_ok_def K(1) by (simp add: f)
  have "rdy s ?h" "\<And>q. rdy s q \<Longrightarrow> ?h \<le> q" using rdy_high [OF inv] by auto
  then have "sched_ok ?s" using cur unfolding sched_ok_def K(2) by (simp add: f)
  then show "kernel_ok ?s" using inv' cur fe' by (auto simp: kernel_ok_def data_ok_def events_ok_def)
qed

lemma boot_timer:
  fixes env s
  assumes ok: "boot_ok s ps (x # xs) (e1 # e2 # es)" and free: "OSTCBPrioTbl s OS_TASK_TMR_PRIO = NULL"
  defines "s' \<equiv> OSTmr_Init env s"
  shows "boot_ok s' (OS_TASK_TMR_PRIO # ps) xs es" and "\<And>q. rdy s' q \<longleftrightarrow> q = OS_TASK_TMR_PRIO \<or> rdy s q"
    and "\<And>q. q \<noteq> OS_TASK_TMR_PRIO \<Longrightarrow> OSTCBPrioTbl s' q = OSTCBPrioTbl s q"
    and "OSTmrSem s' = e1" and "OSTmrSemSignal s' = e2" and "is_sem s' e1" and "is_sem s' e2"
    and "sem_abs s' e1 = (1, {})" and "sem_abs s' e2 = (0, {})" and "tmr_inv s' [1..<17] (\<lambda>_. [])"
    and "OSTaskCtr s' = OSTaskCtr s + 1" and "OSTime s' = OSTime s"
    and "OSFlagTbl s' = OSFlagTbl s" "OSFlagFreeList s' = OSFlagFreeList s" "OSMemTbl s' = OSMemTbl s"
      "OSMemFreeParts s' = OSMemFreeParts s" "OSQTbl s' = OSQTbl s" "OSQFreeList s' = OSQFreeList s"
proof -
  let ?p = "OSTmr_InitPool s"
  have okp: "boot_ok ?p ps (x # xs) (e1 # e2 # es)" by (rule boot_tmr_pool [OF ok])
  have ne: "e1 \<noteq> e2" using ok by (auto simp: boot_ok_def free_events_def)
  obtain s1 where c1: "OSSemCreate 1 ?p = (e1, s1)" and ok1: "boot_ok s1 ps (x # xs) (e2 # es)" and o1: "event_only s1 ?p"
    and sem1: "is_sem s1 e1" "sem_abs s1 e1 = (unat (1 :: 16 word), {})"
    by (rule boot_sem [OF okp])
  define s2 where "s2 = s1\<lparr>OSTmrSem := e1\<rparr>"
  have ok2: "boot_ok s2 ps (x # xs) (e2 # es)"
    by (rule boot_cong [OF ok1]) (simp_all add: s2_def kernel_same_def rdy_map_def free_events_def)
  have o2: "event_only s2 s1" unfolding event_only_def s2_def
    by (intro exI [of _ "OSEventFreeList s1"] exI [of _ "OSEvents s1"] exI [of _ e1] exI [of _ "OSTmrSemSignal s1"]) simp
  obtain s3 where c3: "OSSemCreate 0 s2 = (e2, s3)" and ok3: "boot_ok s3 ps (x # xs) es" and o3: "event_only s3 s2"
    and sem3: "is_sem s3 e2" "sem_abs s3 e2 = (unat (0 :: 16 word), {})" and ev3: "\<And>x. x \<noteq> e2 \<Longrightarrow> OSEvents s3 x = OSEvents s2 x"
    and t3: "OSTmrSem s3 = OSTmrSem s2"
    using boot_sem [OF ok2, of 0] by metis
  define s4 where "s4 = s3\<lparr>OSTmrSemSignal := e2\<rparr>"
  have ok4: "boot_ok s4 ps (x # xs) es"
    by (rule boot_cong [OF ok3]) (simp_all add: s4_def kernel_same_def rdy_map_def free_events_def)
  have o4: "event_only s4 s3" unfolding event_only_def s4_def
    by (intro exI [of _ "OSEventFreeList s3"] exI [of _ "OSEvents s3"] exI [of _ "OSTmrSem s3"] exI [of _ e2]) simp
  have sem1': "is_sem s4 e1" "sem_abs s4 e1 = (1, {})"
    using sem1 ev3 [OF ne] by (simp_all add: s4_def s2_def is_sem_def sem_abs_def waiters_def waits_def)
  have sem3': "is_sem s4 e2" "sem_abs s4 e2 = (0, {})"
    using sem3 by (simp_all add: s4_def is_sem_def sem_abs_def waiters_def waits_def)
  define s5 where "s5 = snd (OSEventNameSet (OSTmrSem s4) (Some ''uC/OS-II TmrLock'') s4)"
  note n5 = boot_event_name [OF ok4, of "OSTmrSem s4" "Some ''uC/OS-II TmrLock''", folded s5_def]
  define s6 where "s6 = snd (OSEventNameSet (OSTmrSemSignal s5) (Some ''uC/OS-II TmrSignal'') s5)"
  note n6 = boot_event_name [OF n5(1), of "OSTmrSemSignal s5" "Some ''uC/OS-II TmrSignal''", folded s6_def]
  have o6: "event_only s6 ?p"
    using n6(2) n5(2) o4 o3 o2 o1 by (blast intro: event_only_trans)
  note E = event_onlyD [OF o6]
  have s': "s' = OSTmr_InitTask env s6"
    unfolding s'_def OSTmr_Init_def c1 Let_def split s2_def [symmetric] c3 s4_def [symmetric] s5_def [symmetric] s6_def [symmetric] ..
  have pool: "OSTCBPrioTbl ?p = OSTCBPrioTbl s" "rdy ?p q = rdy s q" "OSTaskCtr ?p = OSTaskCtr s" "OSTime ?p = OSTime s"
    "OSFlagTbl ?p = OSFlagTbl s" "OSFlagFreeList ?p = OSFlagFreeList s" "OSMemTbl ?p = OSMemTbl s"
    "OSMemFreeParts ?p = OSMemFreeParts s" "OSQTbl ?p = OSQTbl s" "OSQFreeList ?p = OSQFreeList s" for q
    by (simp_all add: OSTmr_InitPool_def Let_def rdy_def rdy_map_def)
  have p6: "OSTCBPrioTbl s6 OS_TASK_TMR_PRIO = NULL" using free E(1) pool(1) by simp
  obtain err s7 where c7: "OSTaskCreateExt (ret_fn env) (tmr_fn env) 0 (tmr_stk env + 4 * (OS_TASK_TMR_STK_SIZE - 1)) OS_TASK_TMR_PRIO
          OS_TASK_TMR_ID (tmr_stk env) (of_nat OS_TASK_TMR_STK_SIZE) NULL (OS_TASK_OPT_STK_CHK OR OS_TASK_OPT_STK_CLR) s6 = (err, s7)"
    by fastforce
  note B = boot_create [OF n6(1) _ p6 c7]
  have s'7: "s' = snd (OSTaskNameSet OS_TASK_TMR_PRIO (Some ''uC/OS-II Tmr'') s7)" by (simp only: s' OSTmr_InitTask_def c7 snd_conv)
  have to: "task_only s' s6" unfolding s'7 using task_only_trans [OF task_only_name] B(5) by simp
  note T = task_onlyD [OF to]
  show "boot_ok s' (OS_TASK_TMR_PRIO # ps) xs es" unfolding s'7 by (rule boot_name) (use B(2) in simp)
  show "rdy s' q \<longleftrightarrow> q = OS_TASK_TMR_PRIO \<or> rdy s q" for q using B(3) by (simp add: s'7 E(2) pool)
  show "OSTCBPrioTbl s' q = OSTCBPrioTbl s q" if "q \<noteq> OS_TASK_TMR_PRIO" for q using B(4) that by (simp add: s'7 E(1) pool)
  show "OSTmrSem s' = e1" "OSTmrSemSignal s' = e2" using T(13,14) n5 n6 t3 by (simp_all add: s4_def s2_def)
  show "is_sem s' e1" "is_sem s' e2" "sem_abs s' e1 = (1, {})" "sem_abs s' e2 = (0, {})"
  proof -
    have "is_sem s' x = is_sem s6 x" "sem_abs s' x = sem_abs s6 x" for x
      using T(1) by (simp_all add: is_sem_def sem_abs_def waiters_def waits_def)
    then show "is_sem s' e1" "is_sem s' e2" "sem_abs s' e1 = (1, {})" "sem_abs s' e2 = (0, {})"
      using n5(3,4) n6(3,4) sem1' sem3' by simp_all
  qed
  have "tmr_same s' ?p" using T(6) E(3) tmr_same_trans by blast
  then show "tmr_inv s' [1..<17] (\<lambda>_. [])" using OSTmr_InitPool_inv tmr_inv_cong by blast
  show "OSTaskCtr s' = OSTaskCtr s + 1" using B(6) by (simp add: s'7 E pool)
  show "OSTime s' = OSTime s" "OSFlagTbl s' = OSFlagTbl s" "OSFlagFreeList s' = OSFlagFreeList s" "OSMemTbl s' = OSMemTbl s"
    "OSMemFreeParts s' = OSMemFreeParts s" "OSQTbl s' = OSQTbl s" "OSQFreeList s' = OSQFreeList s"
    using T E pool by simp_all
qed

lemma boot_stat:
  assumes ok: "boot_ok s ps (x # xs) es" and free: "OSTCBPrioTbl s OS_TASK_STAT_PRIO = NULL"
  shows "boot_ok (OS_InitTaskStat env s) (OS_TASK_STAT_PRIO # ps) xs es"
    and "\<And>q. rdy (OS_InitTaskStat env s) q \<longleftrightarrow> q = OS_TASK_STAT_PRIO \<or> rdy s q"
    and "\<And>q. q \<noteq> OS_TASK_STAT_PRIO \<Longrightarrow> OSTCBPrioTbl (OS_InitTaskStat env s) q = OSTCBPrioTbl s q"
    and "task_only (OS_InitTaskStat env s) s" and "OSTaskCtr (OS_InitTaskStat env s) = OSTaskCtr s + 1"
proof -
  let ?s = "OS_InitTaskStat env s"
  obtain err s1 where c: "OSTaskCreateExt (ret_fn env) (stat_fn env) 0 (stat_stk env + 4 * (OS_TASK_STAT_STK_SIZE - 1)) OS_TASK_STAT_PRIO
          OS_TASK_STAT_ID (stat_stk env) (of_nat OS_TASK_STAT_STK_SIZE) NULL (OS_TASK_OPT_STK_CHK OR OS_TASK_OPT_STK_CLR) s = (err, s1)"
    by fastforce
  note B = boot_create [OF ok _ free c]
  have eq: "?s = snd (OSTaskNameSet OS_TASK_STAT_PRIO (Some ''uC/OS-II Stat'') s1)" by (simp only: OS_InitTaskStat_def c snd_conv)
  show "boot_ok ?s (OS_TASK_STAT_PRIO # ps) xs es" unfolding eq by (rule boot_name) (use B(2) in simp)
  show "rdy ?s q \<longleftrightarrow> q = OS_TASK_STAT_PRIO \<or> rdy s q" for q using B(3) by (simp add: eq)
  show "OSTCBPrioTbl ?s q = OSTCBPrioTbl s q" if "q \<noteq> OS_TASK_STAT_PRIO" for q using B(4) that by (simp add: eq)
  show "task_only ?s s" unfolding eq using task_only_trans [OF task_only_name] B(5) by simp
  show "OSTaskCtr ?s = OSTaskCtr s + 1" using B(6) by (simp add: eq)
qed

lemma OSInit_ok:
  fixes env s
  defines "s' \<equiv> OSInit env s"
  shows "boot_ok s' [OS_TASK_TMR_PRIO, OS_TASK_STAT_PRIO] [5..<24] [3..<11]"
    and "\<And>q. rdy s' q \<longleftrightarrow> q \<in> {OS_TASK_TMR_PRIO, OS_TASK_STAT_PRIO, OS_TASK_IDLE_PRIO}"
    and "\<And>q. q \<notin> {OS_TASK_TMR_PRIO, OS_TASK_STAT_PRIO, OS_TASK_IDLE_PRIO} \<Longrightarrow> OSTCBPrioTbl s' q = NULL"
    and "OSTmrSem s' = 1" and "OSTmrSemSignal s' = 2" and "is_sem s' 1" and "is_sem s' 2"
    and "sem_abs s' 1 = (1, {})" and "sem_abs s' 2 = (0, {})" and "tmr_inv s' [1..<17] (\<lambda>_. [])"
    and "OSTaskCtr s' = 3" and "OSTime s' = 0" and "free_flags s' [1, 2, 3, 4, 5]" and "free_parts s' [1, 2, 3, 4, 5]"
    and "free_queues s' [1, 2, 3, 4]"
proof -
  have xs: "[2..<24] = 2 # 3 # 4 # [5..<24::nat]" and es: "[1..<11] = 1 # 2 # [3..<11::nat]" by (simp_all add: upt_rec)
  define s1 where "s1 = tables_init env s"
  define s2 where "s2 = OS_InitTaskIdle env s1"
  define s3 where "s3 = OS_InitTaskStat env s2"
  have s': "s' = OSTmr_Init env s3" by (simp add: s'_def OSInit_def s3_def s2_def s1_def tables_init_def)
  note I = boot_idle [OF tables_init_blank [where env = env and s = s, unfolded xs es], where env = env, folded s1_def, folded s2_def]
  have p2: "OSTCBPrioTbl s2 OS_TASK_STAT_PRIO = NULL" by (rule I(3)) simp
  note S = boot_stat [OF I(1) p2, where env = env, folded s3_def]
  have p3: "OSTCBPrioTbl s3 OS_TASK_TMR_PRIO = NULL" using S(3) I(3) by simp
  have S1: "boot_ok s3 [OS_TASK_STAT_PRIO] (4 # [5..<24]) (1 # 2 # [3..<11])" using S(1) by simp
  note M = boot_timer [OF S1 p3, where env = env, folded s']
  show "boot_ok s' [OS_TASK_TMR_PRIO, OS_TASK_STAT_PRIO] [5..<24] [3..<11]" by (fact M(1))
  show "rdy s' q \<longleftrightarrow> q \<in> {OS_TASK_TMR_PRIO, OS_TASK_STAT_PRIO, OS_TASK_IDLE_PRIO}" for q
    using M(2) [of q] S(2) I(2) by simp
  show "OSTCBPrioTbl s' q = NULL" if "q \<notin> {OS_TASK_TMR_PRIO, OS_TASK_STAT_PRIO, OS_TASK_IDLE_PRIO}" for q
    using M(3) [of q] S(3) I(3) that by simp
  show "OSTmrSem s' = 1" "OSTmrSemSignal s' = 2" "is_sem s' 1" "is_sem s' 2" "sem_abs s' 1 = (1, {})" "sem_abs s' 2 = (0, {})"
    "tmr_inv s' [1..<17] (\<lambda>_. [])" by (fact M)+
  note to = task_only_trans [OF S(4) I(4)]
  note F = tables_init_free [where env = env and s = s, folded s1_def]
  show "OSTaskCtr s' = 3" using M(11) S(5) I(5) F(5) by simp
  show "OSTime s' = 0" using M(12) task_onlyD(15) [OF to] F(4) by simp
  show "free_flags s' [1, 2, 3, 4, 5]" using F(3) M(13,14) task_onlyD(7,8) [OF to] by (simp add: free_flags_def)
  show "free_parts s' [1, 2, 3, 4, 5]" using F(2) M(15,16) task_onlyD(9,10) [OF to] by (simp add: free_parts_def)
  show "free_queues s' [1, 2, 3, 4]" using F(1) M(17,18) task_onlyD(11,12) [OF to] by (simp add: free_queues_def)
qed

text \<open>
  C15 Whatever the memory holds before, \<open>OSInit\<close> builds a consistent kernel: the idle, statistics and
  timer tasks are the tasks and are ready, 19 task blocks, 8 event blocks and all flag groups, queues,
  partitions and timers are free, the timer semaphores are created, and \<open>OSStart\<close> then runs the
  timer task, with the kernel invariant established.
\<close>

theorem OSInit_correct:
  "\<exists>s'. s' = OSInit env s \<and> kinv s' \<and> tcb_list s' [OS_TASK_TMR_PRIO, OS_TASK_STAT_PRIO]
     \<and> {q. rdy s' q} = {OS_TASK_TMR_PRIO, OS_TASK_STAT_PRIO, OS_TASK_IDLE_PRIO}
     \<and> free_tcbs s' [5..<24] \<and> free_events s' [3..<11] \<and> free_flags s' [1, 2, 3, 4, 5] \<and> free_parts s' [1, 2, 3, 4, 5]
     \<and> free_queues s' [1, 2, 3, 4] \<and> tmr_inv s' [1..<17] (\<lambda>_. [])
     \<and> is_sem s' (OSTmrSem s') \<and> sem_abs s' (OSTmrSem s') = (1, {})
     \<and> is_sem s' (OSTmrSemSignal s') \<and> sem_abs s' (OSTmrSemSignal s') = (0, {})
     \<and> kernel_ok (OSStart s') \<and> OSRunning (OSStart s') \<and> OSPrioCur (OSStart s') = OS_TASK_TMR_PRIO"
proof -
  note I = OSInit_ok [where env = env and s = s]
  note St = OSStart_ok [OF I(1)]
  have "OSPrioCur (OSStart (OSInit env s)) = OS_TASK_TMR_PRIO"
    using rdy_high(2) [of "OSInit env s" OS_TASK_TMR_PRIO] I(1,2) St(2) by (simp add: boot_ok_def)
  then show ?thesis using I St by (auto simp: boot_ok_def)
qed

end
