(* ===== verification/C_Float.thy ===== *)
theory C_Float
  imports Prelude Complex_Main "HOL-Library.Log_Nat"
begin

text \<open>
  The floating-point arithmetic the application uses: \<open>float\<close> is IEEE-754 binary32, \<open>double\<close> is
  binary64, rounding is to nearest, ties to even.  A finite value is the rational number it
  stands for; the two zeros are not told apart.  A conversion to an integer type whose value is
  out of range is undefined in C and is \<open>None\<close> here.
\<close>

datatype c_float = Fin rat | PInf | NInf | NaN

text \<open>A format: the precision, the exponent of the smallest positive value, the exponent at which
  values overflow.\<close>

type_synonym f_format = "nat \<times> int \<times> int"

definition f32 :: f_format where
  "f32 = (24, - 149, 128)"

definition f64 :: f_format where
  "f64 = (53, - 1074, 1024)"

subsection \<open>Rounding\<close>

definition ilog2 :: "rat \<Rightarrow> int" where
  "ilog2 x = (let (a, b) = quotient_of x;
                  e = int (floorlog 2 (nat a)) - int (floorlog 2 (nat b))
              in if x < 2 powi e then e - 1 else e)"

definition round_even :: "rat \<Rightarrow> int" where
  "round_even x = (let n = \<lfloor>x\<rfloor>; d = x - of_int n
                   in if d < 1 / 2 then n else if d > 1 / 2 then n + 1
                      else if even n then n else n + 1)"

definition f_rnd :: "nat \<Rightarrow> int \<Rightarrow> rat \<Rightarrow> rat" where
  "f_rnd p emin x =
     (if x = 0 then 0
      else (let u = 2 powi (max (ilog2 \<bar>x\<bar> - int p + 1) emin) in of_int (round_even (x / u)) * u))"

definition f_round :: "f_format \<Rightarrow> rat \<Rightarrow> c_float" where
  "f_round fmt x =
     (let (p, emin, emax) = fmt; y = f_rnd p emin x
      in if y = 0 \<or> ilog2 \<bar>y\<bar> < emax then Fin y else if y > 0 then PInf else NInf)"

subsection \<open>Operations\<close>

fun f_neg :: "c_float \<Rightarrow> c_float" where
  "f_neg (Fin x) = Fin (- x)"
| "f_neg PInf = NInf"
| "f_neg NInf = PInf"
| "f_neg NaN = NaN"

fun f_add :: "f_format \<Rightarrow> c_float \<Rightarrow> c_float \<Rightarrow> c_float" where
  "f_add fmt (Fin x) (Fin y) = f_round fmt (x + y)"
| "f_add fmt PInf (Fin y) = PInf"
| "f_add fmt NInf (Fin y) = NInf"
| "f_add fmt (Fin x) b = b"
| "f_add fmt PInf PInf = PInf"
| "f_add fmt NInf NInf = NInf"
| "f_add fmt a b = NaN"

definition f_sub :: "f_format \<Rightarrow> c_float \<Rightarrow> c_float \<Rightarrow> c_float" where
  "f_sub fmt a b = f_add fmt a (f_neg b)"

definition f_inf :: "bool \<Rightarrow> c_float" where
  "f_inf neg = (if neg then NInf else PInf)"

fun f_mul :: "f_format \<Rightarrow> c_float \<Rightarrow> c_float \<Rightarrow> c_float" where
  "f_mul fmt (Fin x) (Fin y) = f_round fmt (x * y)"
| "f_mul fmt NaN b = NaN"
| "f_mul fmt a NaN = NaN"
| "f_mul fmt (Fin x) PInf = (if x = 0 then NaN else f_inf (x < 0))"
| "f_mul fmt (Fin x) NInf = (if x = 0 then NaN else f_inf (x > 0))"
| "f_mul fmt PInf (Fin y) = (if y = 0 then NaN else f_inf (y < 0))"
| "f_mul fmt NInf (Fin y) = (if y = 0 then NaN else f_inf (y > 0))"
| "f_mul fmt PInf PInf = PInf"
| "f_mul fmt NInf NInf = PInf"
| "f_mul fmt a b = NInf"

fun f_div :: "f_format \<Rightarrow> c_float \<Rightarrow> c_float \<Rightarrow> c_float" where
  "f_div fmt (Fin x) (Fin y) =
     (if y = 0 then (if x = 0 then NaN else f_inf (x < 0)) else f_round fmt (x / y))"
| "f_div fmt (Fin x) PInf = Fin 0"
| "f_div fmt (Fin x) NInf = Fin 0"
| "f_div fmt PInf (Fin y) = f_inf (y < 0)"
| "f_div fmt NInf (Fin y) = f_inf (y \<ge> 0)"
| "f_div fmt a b = NaN"

fun f_less :: "c_float \<Rightarrow> c_float \<Rightarrow> bool" where
  "f_less (Fin x) (Fin y) = (x < y)"
| "f_less NInf (Fin y) = True"
| "f_less NInf PInf = True"
| "f_less (Fin x) PInf = True"
| "f_less a b = False"

fun f_le :: "c_float \<Rightarrow> c_float \<Rightarrow> bool" where
  "f_le (Fin x) (Fin y) = (x \<le> y)"
| "f_le NInf b = (b \<noteq> NaN)"
| "f_le a PInf = (a \<noteq> NaN)"
| "f_le a b = False"

subsection \<open>Conversions\<close>

definition f_of_int :: "f_format \<Rightarrow> int \<Rightarrow> c_float" where
  "f_of_int fmt n = f_round fmt (of_int n)"

fun f_cvt :: "f_format \<Rightarrow> c_float \<Rightarrow> c_float" where
  "f_cvt fmt (Fin x) = f_round fmt x"
| "f_cvt fmt a = a"

text \<open>A conversion to an integer type with the range from \<open>lo\<close> to \<open>hi\<close> discards the fraction.\<close>

fun f_to_int :: "int \<Rightarrow> int \<Rightarrow> c_float \<Rightarrow> int option" where
  "f_to_int lo hi (Fin x) =
     (let n = (if x < 0 then \<lceil>x\<rceil> else \<lfloor>x\<rfloor>) in if lo \<le> n \<and> n \<le> hi then Some n else None)"
| "f_to_int lo hi a = None"

abbreviation (input) f_to_s16 :: "c_float \<Rightarrow> int option" where
  "f_to_s16 \<equiv> f_to_int (- 32768) 32767"

abbreviation (input) f_to_s32 :: "c_float \<Rightarrow> int option" where
  "f_to_s32 \<equiv> f_to_int (- 2147483648) 2147483647"

abbreviation (input) f_to_u32 :: "c_float \<Rightarrow> int option" where
  "f_to_u32 \<equiv> f_to_int 0 4294967295"

subsection \<open>Facts on rounding\<close>

lemma pow_nat: "0 < k \<Longrightarrow> (2::rat) powi (int k - 1) = 2 ^ (k - 1)"
  by (metis One_nat_def Suc_leI of_nat_1 of_nat_diff power_int_of_nat)

lemma ilog2_bounds:
  assumes "x > 0"
  shows "2 powi (ilog2 x) \<le> x \<and> x < 2 powi (ilog2 x + 1)"
proof -
  obtain a b where q: "quotient_of x = (a, b)" by fastforce
  have b: "b > 0" using q quotient_of_denom_pos by blast
  have x: "x = of_int a / of_int b" using q quotient_of_div by blast
  with assms b have a: "a > 0" by (simp add: zero_less_divide_iff)
  define k l where "k = floorlog 2 (nat a)" and "l = floorlog 2 (nat b)"
  have k: "2 ^ (k - 1) \<le> nat a \<and> nat a < 2 ^ k" and l: "2 ^ (l - 1) \<le> nat b \<and> nat b < 2 ^ l"
    using floorlog_bounds [of "nat a" 2] floorlog_bounds [of "nat b" 2] a b by (simp_all add: k_def l_def)
  have kl: "0 < k" "0 < l" using a b by (auto simp: k_def l_def floorlog_eq_zero_iff intro: Nat.gr0I)
  have cast: "n \<le> nat c \<Longrightarrow> (of_nat n::rat) \<le> of_int c" "nat c < n \<Longrightarrow> of_int c < (of_nat n::rat)"
    if "c > 0" for c :: int and n
    using that of_nat_le_iff [of n "nat c", where 'a = rat] of_nat_less_iff [of "nat c" n, where 'a = rat]
    by simp_all
  have A: "(2::rat) powi (int k - 1) \<le> of_int a \<and> of_int a < (2::rat) powi (int k)"
    using cast [OF a] k pow_nat [OF kl(1)] by (metis of_nat_numeral of_nat_power power_int_of_nat)
  have B: "(2::rat) powi (int l - 1) \<le> of_int b \<and> of_int b < (2::rat) powi (int l)"
    using cast [OF b] l pow_nat [OF kl(2)] by (metis of_nat_numeral of_nat_power power_int_of_nat)
  define e where "e = int k - int l"
  have up: "x < (2::rat) powi (e + 1)"
  proof -
    have "x * (2::rat) powi (int l - 1) \<le> x * of_int b" using B assms by simp
    also have "\<dots> = of_int a" using x b by simp
    also have "\<dots> < 2 powi (int k)" using A by simp
    also have "\<dots> = 2 powi (e + 1) * 2 powi (int l - 1)"
      by (subst power_int_add [symmetric]) (simp_all add: e_def)
    finally show ?thesis by simp
  qed
  have lo: "(2::rat) powi (e - 1) \<le> x"
  proof -
    have "(2::rat) powi (e - 1) * of_int b \<le> 2 powi (e - 1) * 2 powi (int l)"
      using B by (intro mult_left_mono) auto
    also have "\<dots> = 2 powi (int k - 1)"
      by (subst power_int_add [symmetric]) (simp_all add: e_def)
    also have "\<dots> \<le> of_int a" using A by simp
    also have "\<dots> = x * of_int b" using x b by simp
    finally show ?thesis using b by simp
  qed
  have "ilog2 x = (if x < 2 powi e then e - 1 else e)"
    by (simp add: ilog2_def q e_def k_def l_def)
  then show ?thesis using up lo by (simp split: if_splits)
qed

lemma ilog2_eq:
  assumes "2 powi e \<le> x" and "x < 2 powi (e + 1)"
  shows "ilog2 x = e"
proof -
  have "x > 0" using assms(1) zero_less_power_int [of "2::rat" e] by linarith
  note B = ilog2_bounds [OF this]
  have "(2::rat) powi e < 2 powi (ilog2 x + 1)" "(2::rat) powi ilog2 x < 2 powi (e + 1)"
    using B assms by linarith+
  then have "\<not> ilog2 x + 1 \<le> e" "\<not> e + 1 \<le> ilog2 x"
    using power_int_increasing [of "ilog2 x + 1" e "2::rat"] power_int_increasing [of "e + 1" "ilog2 x" "2::rat"]
    by auto
  then show ?thesis by simp
qed

lemma round_even_int [simp]: "round_even (of_int n) = n"
  by (simp add: round_even_def)

lemma ilog2_less:
  assumes "0 < x" and "x < 2 powi n"
  shows "ilog2 x < n"
proof (rule ccontr)
  assume "\<not> ilog2 x < n"
  then have "(2::rat) powi n \<le> 2 powi (ilog2 x)" by (intro power_int_increasing) auto
  with ilog2_bounds [OF assms(1)] assms(2) show False by linarith
qed

text \<open>A value with at most \<open>p\<close> significant bits is not changed by rounding.\<close>

lemma f_rnd_exact:
  assumes x: "x = of_int m * 2 powi k" and m: "\<bar>m\<bar> < 2 ^ p" and k: "emin \<le> k"
  shows "f_rnd p emin x = x"
proof (cases "m = 0")
  case True
  then show ?thesis by (simp add: x f_rnd_def)
next
  case False
  define e where "e = ilog2 \<bar>x\<bar>"
  define j where "j = max (e - int p + 1) emin"
  have x0: "0 < \<bar>x\<bar>" using False by (simp add: x)
  have "\<bar>x\<bar> = of_int \<bar>m\<bar> * 2 powi k" by (simp add: x abs_mult)
  also have "\<dots> < 2 ^ p * 2 powi k"
    using m by (simp flip: of_int_less_iff [where 'a = rat])
  also have "\<dots> = 2 powi (k + int p)" by (simp add: power_int_add)
  finally have "e < k + int p" unfolding e_def by (rule ilog2_less [OF x0])
  with k have jk: "j \<le> k" by (auto simp: j_def)
  have "2 powi k = (2::rat) ^ nat (k - j) * 2 powi j"
    using jk by (simp flip: power_int_add power_int_of_nat)
  then have "x / 2 powi j = of_int (m * 2 ^ nat (k - j))" by (simp add: x)
  then have "of_int (round_even (x / 2 powi j)) * 2 powi j = x / 2 powi j * 2 powi j"
    by (simp only: round_even_int)
  then show ?thesis
    using x0 by (simp add: f_rnd_def Let_def flip: e_def j_def)
qed

lemma f_round_exact:
  assumes "x = of_int m * 2 powi k" and "\<bar>m\<bar> < 2 ^ p" and "emin \<le> k" and "k + int p \<le> emax"
  shows "f_round (p, emin, emax) x = Fin x"
proof -
  have "ilog2 \<bar>x\<bar> < emax" if "x \<noteq> 0"
  proof (rule ilog2_less)
    have "\<bar>x\<bar> = of_int \<bar>m\<bar> * 2 powi k" by (simp add: assms(1) abs_mult)
    also have "\<dots> < 2 ^ p * 2 powi k" using assms(2) by (simp flip: of_int_less_iff [where 'a = rat])
    also have "\<dots> = 2 powi (k + int p)" by (simp add: power_int_add)
    also have "\<dots> \<le> 2 powi emax" using assms(4) by (intro power_int_increasing) auto
    finally show "\<bar>x\<bar> < 2 powi emax" .
  qed (use that in simp)
  then show ?thesis using f_rnd_exact [OF assms(1-3)] by (cases "x = 0") (simp_all add: f_round_def)
qed

lemma f_round_int: "\<bar>n\<bar> < 2 ^ 24 \<Longrightarrow> f_round f32 (of_int n) = Fin (of_int n)"
  unfolding f32_def by (rule f_round_exact [where k = 0 and m = n]) auto

lemma f_of_int_32: "\<bar>n\<bar> < 2 ^ 24 \<Longrightarrow> f_of_int f32 n = Fin (of_int n)"
  by (simp add: f_of_int_def f_round_int)

lemma f_to_int_of_int: "f_to_int lo hi (Fin (of_int n)) = (if lo \<le> n \<and> n \<le> hi then Some n else None)"
  by (simp add: Let_def)

text \<open>Rounding picks the nearest integer, and the even one of two.\<close>

lemma round_even_near: "\<bar>2 * x - 2 * of_int n\<bar> < 1 \<or> \<bar>2 * x - 2 * of_int n\<bar> = 1 \<and> even n \<Longrightarrow> round_even x = n"
proof -
  assume a: "\<bar>2 * x - 2 * of_int n\<bar> < 1 \<or> \<bar>2 * x - 2 * of_int n\<bar> = 1 \<and> even n"
  show ?thesis
  proof (cases "of_int n \<le> x")
    case True
    with a have "\<lfloor>x\<rfloor> = n" by (intro floor_unique) auto
    with True a show ?thesis by (auto simp: round_even_def Let_def)
  next
    case False
    with a have "\<lfloor>x\<rfloor> = n - 1" by (intro floor_unique) auto
    with False a show ?thesis by (auto simp: round_even_def Let_def)
  qed
qed

lemma round_even_dist: "\<bar>2 * x - 2 * of_int (round_even x)\<bar> \<le> 1"
  using of_int_floor_le [of x] floor_correct [of x] by (auto simp: round_even_def Let_def)

text \<open>Rounding to binary32 does not cross a small integer.\<close>

lemma round_even_mono_int: "x \<le> of_int n \<Longrightarrow> round_even x \<le> n" "of_int n \<le> x \<Longrightarrow> n \<le> round_even x"
  by (auto simp: round_even_def Let_def floor_less_iff le_floor_iff, linarith+)

lemma f_rnd_bound:
  assumes x: "\<bar>x\<bar> \<le> of_int M" and M: "0 \<le> M" "M < 2 ^ 24"
  shows "\<bar>f_rnd 24 (- 149) x\<bar> \<le> of_int M"
proof (cases "x = 0")
  case True
  then show ?thesis using M by (simp add: f_rnd_def)
next
  case False
  then have x0: "0 < \<bar>x\<bar>" by simp
  define j where "j = max (ilog2 \<bar>x\<bar> - 23) (- 149)"
  have "(of_int M::rat) < of_int (2 ^ 24)" using M(2) by (simp only: of_int_less_iff)
  with x have "\<bar>x\<bar> < 2 powi 24" by simp
  from ilog2_less [OF x0 this] have j: "j \<le> 0" by (simp add: j_def)
  define P where "P = (2::int) ^ nat (- j)"
  have P: "(2::rat) powi j * of_int P = 1"
    using j by (simp add: P_def power_int_def power_inverse [symmetric] flip: power_mult_distrib)
  have Ppos: "0 < (2::rat) powi j" by simp
  have q: "z / 2 powi j = z * of_int P" for z :: rat
    using P Ppos by (simp add: field_simps)
  have "x / 2 powi j \<le> of_int (M * P)" "of_int (- (M * P)) \<le> x / 2 powi j"
    using x mult_right_mono [of x "of_int M" "of_int P"] mult_right_mono [of "- of_int M" x "of_int P"]
    by (auto simp: q P_def abs_le_iff)
  then have "round_even (x / 2 powi j) \<le> M * P" "- (M * P) \<le> round_even (x / 2 powi j)"
    using round_even_mono_int by blast+
  then have "\<bar>round_even (x / 2 powi j)\<bar> \<le> M * P" by simp
  then have "of_int \<bar>round_even (x / 2 powi j)\<bar> \<le> (of_int (M * P)::rat)" by (simp only: of_int_le_iff)
  then have "of_int \<bar>round_even (x / 2 powi j)\<bar> * 2 powi j \<le> (of_int (M * P)::rat) * 2 powi j"
    using Ppos by (intro mult_right_mono) auto
  also have "(of_int (M * P)::rat) * 2 powi j = of_int M" using P by (simp add: mult_ac)
  finally show ?thesis using False Ppos by (simp add: f_rnd_def Let_def abs_mult flip: j_def)
qed

lemma f_round_bound:
  assumes x: "\<bar>x\<bar> \<le> of_int M" and M: "0 \<le> M" "M < 2 ^ 24"
  obtains y where "f_round f32 x = Fin y" "\<bar>y\<bar> \<le> of_int M"
proof -
  define y where "y = f_rnd 24 (- 149) x"
  have y: "\<bar>y\<bar> \<le> of_int M" unfolding y_def by (rule f_rnd_bound [OF assms])
  have "(of_int M::rat) < of_int (2 ^ 24)" using M(2) by (simp only: of_int_less_iff)
  with y have lt: "\<bar>y\<bar> < 2 powi 128" by simp
  have "f_round f32 x = Fin y"
    using ilog2_less [OF _ lt] by (cases "y = 0") (simp_all add: f_round_def f32_def flip: y_def)
  with y that show ?thesis by blast
qed

lemma f_to_int_bound:
  assumes "\<bar>y\<bar> \<le> of_int M" and "lo \<le> - M" and "M \<le> hi"
  obtains n where "f_to_int lo hi (Fin y) = Some n" "\<bar>n\<bar> \<le> M"
proof -
  define n where "n = (if y < 0 then \<lceil>y\<rceil> else \<lfloor>y\<rfloor>)"
  have "\<bar>n\<bar> \<le> M"
    using assms(1) by (auto simp: n_def abs_le_iff ceiling_le_iff le_floor_iff floor_le_iff le_ceiling_iff) linarith+
  moreover from this have "f_to_int lo hi (Fin y) = Some n" using assms(2,3) by (simp add: Let_def abs_le_iff flip: n_def)
  ultimately show ?thesis using that by blast
qed

text \<open>
  Dividing a small integer by ten and multiplying the quotient by ten gives the integer back,
  although the quotient is rounded.
\<close>

lemma ten_rounds:
  fixes N m :: int
  assumes N: "16 dvd N" and m: "m = round_even (of_int N / 10)"
  shows "\<bar>10 * m - N\<bar> \<le> 4"
proof -
  have "\<bar>2 * (of_int N / 10) - 2 * of_int m\<bar> \<le> (1::rat)" unfolding m by (rule round_even_dist)
  then have "\<bar>of_int (2 * N - 20 * m)\<bar> \<le> (of_int 10::rat)" by (simp add: abs_le_iff field_simps)
  then have "\<bar>2 * N - 20 * m\<bar> \<le> 10" by (simp only: of_int_abs [symmetric] of_int_le_iff)
  moreover obtain c where "N = 16 * c" using N by blast
  moreover define j where "j = 5 * m - 8 * c"
  ultimately have "\<bar>4 * j\<bar> \<le> 10" and e: "10 * m - N = 2 * j" by (simp_all add: abs_le_iff)
  then have "\<bar>j\<bar> \<le> 2" by linarith
  then show ?thesis unfolding e by linarith
qed

lemma f_rnd_32:
  assumes "2 powi e \<le> x" and "x < 2 powi (e + 1)" and "- 126 \<le> e"
  shows "f_rnd 24 (- 149) x = of_int (round_even (x / 2 powi (e - 23))) * 2 powi (e - 23)"
proof -
  have "0 < x" using assms(1) zero_less_power_int [of "2::rat" e] by linarith
  moreover from this have "ilog2 \<bar>x\<bar> = e" using ilog2_eq [OF assms(1,2)] by simp
  moreover have "max (e - int 24 + 1) (- 149) = e - 23" using assms(3) by simp
  ultimately show ?thesis by (simp add: f_rnd_def Let_def)
qed

lemma f_rnd_back:
  fixes N m k :: int
  assumes N: "16 dvd N" and d: "\<bar>10 * m - N\<bar> \<le> 4" and m: "2 ^ 23 \<le> m" "m \<le> 2 ^ 24" and k: "- 100 \<le> k"
  shows "f_rnd 24 (- 149) (of_int (10 * m) * 2 powi (k - 23)) = of_int N * 2 powi (k - 23)"
proof -
  define z :: rat where "z = of_int (10 * m) * 2 powi (k - 23)"
  have lo: "of_int (10 * 2 ^ 23) * 2 powi (k - 23) \<le> z" unfolding z_def using m(1) by (intro mult_right_mono) auto
  have hi: "z \<le> of_int (10 * 2 ^ 24) * 2 powi (k - 23)" unfolding z_def using m(2) by (intro mult_right_mono) auto
  have p: "(2::rat) powi (k + i) = 2 ^ nat (i + 23) * 2 powi (k - 23)" if "- 23 \<le> i" for i
  proof -
    have "(2::rat) powi (k + i) = 2 powi (i + 23) * 2 powi (k - 23)" by (subst power_int_add [symmetric]) (simp_all add: add.commute)
    also have "(2::rat) powi (i + 23) = 2 ^ nat (i + 23)" using that by (simp add: power_int_def)
    finally show ?thesis .
  qed
  have "of_int \<bar>10 * m - N\<bar> \<le> (of_int 4::rat)" using d by (simp only: of_int_le_iff)
  then have abs: "\<bar>of_int (10 * m - N)\<bar> \<le> (4::rat)" by simp
  obtain c where c: "N = 16 * c" using N by blast
  show ?thesis
  proof (cases "z < 2 powi (k + 4)")
    case True
    have "2 powi (k + 3) \<le> z" by (rule order_trans [OF _ lo]) (simp add: p)
    then have "f_rnd 24 (- 149) z = of_int (round_even (z / 2 powi (k - 20))) * 2 powi (k - 20)"
      using f_rnd_32 [of "k + 3" z] True k by (simp add: add.commute)
    moreover have "z / 2 powi (k - 20) = of_int (10 * m) / 8" using p [of "- 20"] by (simp add: z_def)
    moreover have "round_even (of_int (10 * m) / 8) = 2 * c"
      using abs by (intro round_even_near) (auto simp: c abs_le_iff abs_less_iff abs_if)
    ultimately show ?thesis
      using p [of "- 20"] by (simp add: z_def c)
  next
    case False
    have "z < 2 powi (k + 5)" by (rule le_less_trans [OF hi]) (simp add: p)
    then have "f_rnd 24 (- 149) z = of_int (round_even (z / 2 powi (k - 19))) * 2 powi (k - 19)"
      using f_rnd_32 [of "k + 4" z] False k by (simp add: add.commute)
    moreover have "z / 2 powi (k - 19) = of_int (10 * m) / 16" using p [of "- 19"] by (simp add: z_def)
    moreover have "round_even (of_int (10 * m) / 16) = c"
      using abs by (intro round_even_near) (auto simp: c abs_le_iff abs_less_iff)
    ultimately show ?thesis
      using p [of "- 19"] by (simp add: z_def c)
  qed
qed

lemma ten_round_trip:
  assumes "0 \<le> n" and "n < 2 ^ 23"
  shows "f_mul f32 (f_div f32 (f_of_int f32 n) (f_of_int f32 10)) (f_of_int f32 10) = Fin (of_int n)"
proof (cases "n = 0")
  case True
  then show ?thesis by (simp add: f_of_int_32) (simp add: f_round_def f_rnd_def f32_def)
next
  case False
  define y :: rat where "y = of_int n / 10"
  define k where "k = ilog2 y"
  have y0: "0 < y" using False assms(1) by (simp add: y_def)
  have kb: "2 powi k \<le> y" "y < 2 powi (k + 1)" using ilog2_bounds [OF y0] by (simp_all add: k_def)
  have k19: "k < 20"
    unfolding k_def
  proof (rule ilog2_less [OF y0])
    have "(of_int n::rat) < of_int (2 ^ 23)" using assms(2) by (simp only: of_int_less_iff)
    then show "y < 2 powi 20" by (simp add: y_def)
  qed
  have k4: "- 4 \<le> k"
  proof (rule ccontr)
    assume "\<not> - 4 \<le> k"
    then have "(2::rat) powi (k + 1) \<le> 2 powi (- 4)" by (intro power_int_increasing) auto
    also have "\<dots> = 1 / 16" by (simp add: power_int_def power_one_over field_simps)
    finally have "10 * y < 1" using kb(2) by simp
    with False assms(1) show False by (simp add: y_def)
  qed
  define N where "N = n * 2 ^ nat (23 - k)"
  have "(16::int) dvd 2 ^ nat (23 - k)" using k19 le_imp_power_dvd [of 4 "nat (23 - k)" "2::int"] by simp
  then have N: "16 dvd N" by (simp add: N_def)
  have pk: "(2::rat) powi (23 - k) = 2 ^ nat (23 - k)" using k19 by (simp add: power_int_def)
  have pk1: "(2::rat) powi (23 - k) * 2 powi (k - 23) = 1" by (subst power_int_add [symmetric]) simp_all
  have nN: "(of_int n::rat) = of_int N * 2 powi (k - 23)" using pk pk1 by (simp add: N_def)
  define m where "m = round_even (of_int N / 10)"
  have d: "\<bar>10 * m - N\<bar> \<le> 4" by (rule ten_rounds [OF N m_def])
  have yN: "y / 2 powi (k - 23) = of_int N / 10" by (simp add: y_def nN)
  have f: "f_rnd 24 (- 149) y = of_int m * 2 powi (k - 23)"
    using f_rnd_32 [OF kb] k4 by (simp add: yN m_def)
  have "2 powi (23::int) \<le> y * 2 powi (23 - k)" "y * 2 powi (23 - k) < 2 powi (24::int)"
    using mult_right_mono [OF kb(1), of "2 powi (23 - k)"] mult_strict_right_mono [OF kb(2), of "2 powi (23 - k)"]
    by (simp_all del: power_int_numeral flip: power_int_add)
  moreover have "y * 2 powi (23 - k) = of_int N / 10" by (simp add: y_def N_def pk)
  ultimately have "(of_int (10 * 2 ^ 23)::rat) \<le> of_int N" "(of_int N::rat) < of_int (10 * 2 ^ 24)" by simp_all
  then have Nb: "10 * 2 ^ 23 \<le> N" "N < 10 * 2 ^ 24" by (simp_all only: of_int_le_iff of_int_less_iff)
  from Nb d have m: "2 ^ 23 \<le> m" "m \<le> 2 ^ 24" by (simp_all add: abs_le_iff)
  have big: "(2::rat) powi (k - 23) \<le> 1"
    using k19 power_int_increasing [of "k - 23" 0 "2::rat"] by simp
  have fpos: "0 < (of_int m::rat) * 2 powi (k - 23)" using m by simp
  have "(of_int m::rat) * 2 powi (k - 23) \<le> of_int (2 ^ 24) * 1"
    using m big by (intro mult_mono) (simp_all only: of_int_le_iff, simp_all)
  then have "of_int m * 2 powi (k - 23) < (2::rat) powi 128" by simp
  from ilog2_less [OF fpos this] have q: "f_div f32 (Fin (of_int n)) (Fin 10) = Fin (of_int m * 2 powi (k - 23))"
    using fpos f by (simp add: f_round_def f32_def y_def)
  have n0: "0 < (of_int n::rat)" using False assms(1) by simp
  have "(of_int n::rat) < of_int (2 ^ 23)" using assms(2) by (simp only: of_int_less_iff)
  then have "(of_int n::rat) < 2 powi 128" by simp
  note l = ilog2_less [OF n0 this]
  have "f_rnd 24 (- 149) (of_int m * 2 powi (k - 23) * 10) = of_int n"
    using f_rnd_back [OF N d m] k4 by (simp add: nN mult_ac)
  with l n0 have "f_mul f32 (Fin (of_int m * 2 powi (k - 23))) (Fin 10) = Fin (of_int n)"
    by (simp add: f_round_def f32_def)
  then show ?thesis using q assms by (simp add: f_of_int_32 [of 10, simplified] f_of_int_32 [of n])
qed

lemma f_to_int_range: "f_to_int lo hi a = Some n \<Longrightarrow> lo \<le> n \<and> n \<le> hi"
  by (cases a) (auto simp: Let_def split: if_splits)

end
