(* ===== verification/App_Flash.thy ===== *)
theory App_Flash
  imports C_Float
begin

text \<open>
  The settings of the car and their copy in the flash memory (\<open>FLASHUI/FlashUI.c\<close>).  The registers
  of the flash controller and the flash are a record, the flash one byte per address.  What the
  controller does when a command is launched is not code of the repository: it is the argument
  \<open>hw\<close>, which takes the command registers and the flash and gives the status register at the end
  of the command and the new flash.  \<open>ftfl_doc\<close> states the documented behaviour of the two
  commands on the sector the program uses.
\<close>

record PID =
  pid_p :: c_float
  pid_i :: c_float
  pid_d :: c_float

record settings =
  streepid :: PID
  speedpid :: PID
  linepid :: PID
  set_speed :: int

record ftfl =
  FCCOB :: "nat \<Rightarrow> 8 word"
  FSTAT :: "8 word"
  flash_mem :: "nat \<Rightarrow> 8 word"

type_synonym ftfl_hw = "(nat \<Rightarrow> 8 word) \<Rightarrow> (nat \<Rightarrow> 8 word) \<Rightarrow> 8 word \<times> (nat \<Rightarrow> 8 word)"

abbreviation (input) FLASH_SECTOR_SIZE :: nat where "FLASH_SECTOR_SIZE \<equiv> 2048"
abbreviation (input) SECTOR_NUM :: nat where "SECTOR_NUM \<equiv> 255"
abbreviation (input) PGM4 :: "8 word" where "PGM4 \<equiv> 0x06"
abbreviation (input) ERSSCR :: "8 word" where "ERSSCR \<equiv> 0x09"

subsection \<open>Commands\<close>

definition flash_cmd :: "ftfl_hw \<Rightarrow> ftfl \<Rightarrow> 8 word \<times> ftfl" where
  "flash_cmd hw f =
     (let (stat, mem) = hw (FCCOB f) (flash_mem f)
      in (if stat AND (0x20 OR 0x40 OR 0x10 OR 0x01) \<noteq> 0 then 0 else 1,
          f\<lparr>FSTAT := stat, flash_mem := mem\<rparr>))"

text \<open>Byte \<open>k\<close> of a 32-bit word in memory order.\<close>

definition word_byte :: "nat \<Rightarrow> 32 word \<Rightarrow> 8 word" where
  "word_byte k w = ucast (drop_bit (8 * k) w)"

definition set_addr :: "32 word \<Rightarrow> ftfl \<Rightarrow> ftfl" where
  "set_addr addr f = f\<lparr>FCCOB := (FCCOB f)(1 := word_byte 2 addr, 2 := word_byte 1 addr, 3 := word_byte 0 addr)\<rparr>"

definition flash_write :: "ftfl_hw \<Rightarrow> nat \<Rightarrow> nat \<Rightarrow> 32 word \<Rightarrow> ftfl \<Rightarrow> 8 word \<times> ftfl" where
  "flash_write hw sector_num offset data f =
     (let addr = of_nat (sector_num * FLASH_SECTOR_SIZE + offset);
          f1 = set_addr addr f;
          f2 = f1\<lparr>FCCOB := (FCCOB f1)(4 := word_byte 3 data, 5 := word_byte 2 data,
                                      6 := word_byte 1 data, 7 := word_byte 0 data)\<rparr>;
          f3 = f2\<lparr>FCCOB := (FCCOB f2)(0 := PGM4)\<rparr>;
          (ret, f4) = flash_cmd hw f3
      in if ret = 0 then (0, f4) else (1, f4))"

definition flash_erase_sector :: "ftfl_hw \<Rightarrow> nat \<Rightarrow> ftfl \<Rightarrow> 8 word \<times> ftfl" where
  "flash_erase_sector hw sector_num f =
     (let addr = of_nat (sector_num * FLASH_SECTOR_SIZE);
          f1 = set_addr addr (f\<lparr>FCCOB := (FCCOB f)(0 := ERSSCR)\<rparr>);
          (ret, f2) = flash_cmd hw f1
      in if ret = 0 then (0, f2)
         else if sector_num = 0 then flash_write hw sector_num 0x40C 0xFFFFFFFE f2
         else (1, f2))"

definition flash_read :: "nat \<Rightarrow> nat \<Rightarrow> ftfl \<Rightarrow> 32 word" where
  "flash_read sector_num offset f =
     (let a = sector_num * FLASH_SECTOR_SIZE + offset
      in ucast (flash_mem f a) OR push_bit 8 (ucast (flash_mem f (a + 1)))
         OR push_bit 16 (ucast (flash_mem f (a + 2))) OR push_bit 24 (ucast (flash_mem f (a + 3))))"

subsection \<open>Saving and loading the settings\<close>

text \<open>\<open>(u32)(x * 10)\<close>: undefined when the product is out of range.\<close>

definition tenths :: "c_float \<Rightarrow> 32 word option" where
  "tenths x = map_option word_of_int (f_to_u32 (f_mul f32 x (f_of_int f32 10)))"

definition from_tenths :: "32 word \<Rightarrow> c_float" where
  "from_tenths w = f_div f32 (f_of_int f32 (uint w)) (f_of_int f32 10)"

fun write_tenths :: "ftfl_hw \<Rightarrow> (nat \<times> c_float) list \<Rightarrow> ftfl \<Rightarrow> ftfl option" where
  "write_tenths hw [] f = Some f"
| "write_tenths hw ((ofs, x) # xs) f =
     (case tenths x of None \<Rightarrow> None | Some w \<Rightarrow> write_tenths hw xs (snd (flash_write hw SECTOR_NUM ofs w f)))"

definition Falsh_Reserve :: "ftfl_hw \<Rightarrow> settings \<Rightarrow> ftfl \<Rightarrow> ftfl option" where
  "Falsh_Reserve hw st f =
     map_option (\<lambda>f'. snd (flash_write hw SECTOR_NUM 24 (word_of_int (set_speed st)) f'))
       (write_tenths hw
          [(0, pid_p (speedpid st)), (4, pid_i (speedpid st)), (8, pid_d (speedpid st)),
           (12, pid_p (streepid st)), (16, pid_i (streepid st)), (20, pid_d (streepid st))]
          (snd (flash_erase_sector hw SECTOR_NUM f)))"

definition Flash_Read :: "ftfl \<Rightarrow> settings \<Rightarrow> settings" where
  "Flash_Read f st =
     st\<lparr>speedpid := \<lparr>pid_p = from_tenths (flash_read SECTOR_NUM 0 f),
                      pid_i = from_tenths (flash_read SECTOR_NUM 4 f),
                      pid_d = from_tenths (flash_read SECTOR_NUM 8 f)\<rparr>,
        streepid := \<lparr>pid_p = from_tenths (flash_read SECTOR_NUM 12 f),
                      pid_i = from_tenths (flash_read SECTOR_NUM 16 f),
                      pid_d = from_tenths (flash_read SECTOR_NUM 20 f)\<rparr>,
        set_speed := sint (flash_read SECTOR_NUM 24 f)\<rparr>"

subsection \<open>The flash controller as documented\<close>

definition cmd_addr :: "(nat \<Rightarrow> 8 word) \<Rightarrow> nat" where
  "cmd_addr r = unat (r 1) * 65536 + unat (r 2) * 256 + unat (r 3)"

text \<open>
  Programming can only clear bits; erasing sets every bit of the sector.  Both are stated for
  the sector the program uses, which is not write-protected.
\<close>

definition ftfl_doc :: "ftfl_hw \<Rightarrow> bool" where
  "ftfl_doc hw \<longleftrightarrow>
     (\<forall>r m. cmd_addr r div FLASH_SECTOR_SIZE = SECTOR_NUM \<longrightarrow>
        (r 0 = PGM4 \<and> cmd_addr r mod 4 = 0 \<longrightarrow>
           hw r m = (0x80, \<lambda>a. if cmd_addr r \<le> a \<and> a < cmd_addr r + 4 then m a AND r (7 - (a - cmd_addr r)) else m a))
      \<and> (r 0 = ERSSCR \<longrightarrow> hw r m = (0x80, \<lambda>a. if a div FLASH_SECTOR_SIZE = SECTOR_NUM then - 1 else m a)))"

lemma ftfl_program:
  "ftfl_doc hw \<Longrightarrow> cmd_addr r div FLASH_SECTOR_SIZE = SECTOR_NUM \<Longrightarrow> r 0 = PGM4 \<Longrightarrow> cmd_addr r mod 4 = 0 \<Longrightarrow>
   hw r m = (0x80, \<lambda>a. if cmd_addr r \<le> a \<and> a < cmd_addr r + 4 then m a AND r (7 - (a - cmd_addr r)) else m a)"
  by (simp add: ftfl_doc_def)

lemma ftfl_erase:
  "ftfl_doc hw \<Longrightarrow> cmd_addr r div FLASH_SECTOR_SIZE = SECTOR_NUM \<Longrightarrow> r 0 = ERSSCR \<Longrightarrow>
   hw r m = (0x80, \<lambda>a. if a div FLASH_SECTOR_SIZE = SECTOR_NUM then - 1 else m a)"
  by (simp add: ftfl_doc_def)

subsection \<open>Commands on the settings sector\<close>

lemma unat_word_byte: "unat (word_byte k w) = unat w div 2 ^ (8 * k) mod 256"
  by (simp add: word_byte_def unsigned_ucast_eq unsigned_drop_bit_eq)
    (use unsigned_less [of w, where 'a = nat] in \<open>simp add: take_bit_eq_mod drop_bit_eq_div\<close>)

lemma word_bytes:
  "ucast (word_byte 0 w) OR push_bit 8 (ucast (word_byte 1 w)) OR push_bit 16 (ucast (word_byte 2 w))
    OR push_bit 24 (ucast (word_byte 3 w)) = w"
proof (rule bit_word_eqI)
  fix n assume "n < LENGTH(32)"
  then show "bit (ucast (word_byte 0 w) OR push_bit 8 (ucast (word_byte 1 w)) OR push_bit 16 (ucast (word_byte 2 w))
      OR push_bit 24 (ucast (word_byte 3 w)) :: 32 word) n = bit w n"
    by (cases "n < 24"; cases "n < 16") (auto simp: word_byte_def bit_simps)
qed

lemma byte_split: "(n::nat) < 16777216 \<Longrightarrow> n div 65536 mod 256 * 65536 + n div 256 mod 256 * 256 + n mod 256 = n"
proof -
  assume "n < 16777216"
  then have "n div 65536 mod 256 = n div 65536" by (simp add: less_mult_imp_div_less)
  moreover have "n div 65536 = n div 256 div 256" by (simp add: div_mult2_eq [symmetric])
  moreover have "n div 256 = n div 256 div 256 * 256 + n div 256 mod 256" by (rule div_mult_mod_eq [symmetric])
  moreover have "n = n div 256 * 256 + n mod 256" by (rule div_mult_mod_eq [symmetric])
  ultimately show ?thesis by linarith
qed

lemma cmd_addr_set:
  assumes "n < 16777216"
  shows "cmd_addr (FCCOB (set_addr (of_nat n) f)) = n"
  using assms byte_split [OF assms]
  by (simp add: cmd_addr_def set_addr_def unat_word_byte unat_of_nat take_bit_eq_mod)

lemma flash_write_mem:
  assumes hw: "ftfl_doc hw" and o: "ofs mod 4 = 0" "ofs + 4 \<le> FLASH_SECTOR_SIZE"
  shows "fst (flash_write hw SECTOR_NUM ofs w f) = 1"
    and "flash_mem (snd (flash_write hw SECTOR_NUM ofs w f)) =
      (\<lambda>a. if 522240 + ofs \<le> a \<and> a < 522240 + ofs + 4
           then flash_mem f a AND word_byte (a - (522240 + ofs)) w else flash_mem f a)"
proof -
  define f1 where "f1 = set_addr (of_nat (SECTOR_NUM * FLASH_SECTOR_SIZE + ofs)) f"
  define r where "r = (FCCOB f1)(4 := word_byte 3 w, 5 := word_byte 2 w, 6 := word_byte 1 w, 7 := word_byte 0 w, 0 := PGM4)"
  have "cmd_addr r = cmd_addr (FCCOB f1)" by (simp add: cmd_addr_def r_def)
  then have ca: "cmd_addr r = 522240 + ofs" using o by (simp add: f1_def cmd_addr_set del: of_nat_add)
  have r0: "r 0 = PGM4" by (simp add: r_def)
  have "(522240 + ofs) div 2048 = 255" using o by (intro div_nat_eqI) simp_all
  moreover have "(522240 + ofs) mod 4 = 0" using o(1) mod_add_eq [of 522240 4 ofs] by simp
  ultimately have h: "hw r (flash_mem f) = (0x80, \<lambda>a. if 522240 + ofs \<le> a \<and> a < 522240 + ofs + 4
      then flash_mem f a AND r (7 - (a - (522240 + ofs))) else flash_mem f a)"
    using ftfl_program [OF hw, of r "flash_mem f", unfolded ca] r0 by simp
  have by7: "r (7 - k) = word_byte k w" if lt: "k < 4" for k
  proof -
    consider "k = 0" | "k = 1" | "k = 2" | "k = 3" using lt by linarith
    then show ?thesis by cases (simp_all add: r_def)
  qed
  have eq: "flash_write hw SECTOR_NUM ofs w f = (1, f1\<lparr>FCCOB := r, FSTAT := 0x80, flash_mem := snd (hw r (flash_mem f))\<rparr>)"
    unfolding flash_write_def Let_def f1_def [symmetric] using h
    by (simp add: flash_cmd_def r_def f1_def set_addr_def)
  show "fst (flash_write hw SECTOR_NUM ofs w f) = 1" by (simp add: eq)
  show "flash_mem (snd (flash_write hw SECTOR_NUM ofs w f)) =
      (\<lambda>a. if 522240 + ofs \<le> a \<and> a < 522240 + ofs + 4
           then flash_mem f a AND word_byte (a - (522240 + ofs)) w else flash_mem f a)"
  proof (rule ext)
    fix a
    have "522240 + ofs \<le> a \<Longrightarrow> a < 522240 + ofs + 4 \<Longrightarrow> a - (522240 + ofs) < 4" by linarith
    from by7 [OF this] show "flash_mem (snd (flash_write hw SECTOR_NUM ofs w f)) a =
        (if 522240 + ofs \<le> a \<and> a < 522240 + ofs + 4
         then flash_mem f a AND word_byte (a - (522240 + ofs)) w else flash_mem f a)"
      by (simp add: eq h)
  qed
qed

lemma flash_erase_mem:
  assumes hw: "ftfl_doc hw"
  shows "flash_mem (snd (flash_erase_sector hw SECTOR_NUM f)) =
      (\<lambda>a. if a div FLASH_SECTOR_SIZE = SECTOR_NUM then - 1 else flash_mem f a)"
proof -
  define f1 where "f1 = set_addr (of_nat (SECTOR_NUM * FLASH_SECTOR_SIZE)) (f\<lparr>FCCOB := (FCCOB f)(0 := ERSSCR)\<rparr>)"
  have m: "flash_mem f1 = flash_mem f" and r0: "FCCOB f1 0 = ERSSCR" by (simp_all add: f1_def set_addr_def)
  have "cmd_addr (FCCOB f1) = 522240"
    unfolding f1_def by (subst cmd_addr_set) simp_all
  then have "hw (FCCOB f1) (flash_mem f) = (0x80, \<lambda>a. if a div FLASH_SECTOR_SIZE = SECTOR_NUM then - 1 else flash_mem f a)"
    using ftfl_erase [OF hw, of "FCCOB f1" "flash_mem f"] r0 by simp
  then show ?thesis
    unfolding flash_erase_sector_def Let_def f1_def [symmetric] by (simp add: flash_cmd_def m)
qed

text \<open>Words of the settings sector.\<close>

definition blank :: "ftfl \<Rightarrow> nat \<Rightarrow> bool" where
  "blank f ofs \<longleftrightarrow> (\<forall>k<4. flash_mem f (522240 + ofs + k) = - 1)"

lemma blank_erase: "ftfl_doc hw \<Longrightarrow> ofs + 4 \<le> FLASH_SECTOR_SIZE \<Longrightarrow> blank (snd (flash_erase_sector hw SECTOR_NUM f)) ofs"
  by (auto simp: blank_def flash_erase_mem)

lemma blank_write:
  assumes "ftfl_doc hw" and "ofs mod 4 = 0" and "ofs + 4 \<le> FLASH_SECTOR_SIZE"
    and "ofs' mod 4 = 0" and "ofs' \<noteq> ofs" and "blank f ofs'"
  shows "blank (snd (flash_write hw SECTOR_NUM ofs w f)) ofs'"
proof -
  have "ofs' + k < ofs \<or> ofs + 4 \<le> ofs' + k" if "k < 4" for k using assms(2,4,5) that by presburger
  then show ?thesis using assms(6) by (force simp: blank_def flash_write_mem [OF assms(1-3)])
qed

lemma read_write_same:
  assumes "ftfl_doc hw" and "ofs mod 4 = 0" and "ofs + 4 \<le> FLASH_SECTOR_SIZE" and "blank f ofs"
  shows "flash_read SECTOR_NUM ofs (snd (flash_write hw SECTOR_NUM ofs w f)) = w"
proof -
  have b: "flash_mem f (522240 + ofs + k) = - 1" if "k < 4" for k using assms(4) that by (simp add: blank_def)
  show ?thesis
    using b [of 0] b [of 1] b [of 2] b [of 3] word_bytes [of w]
    by (simp add: flash_read_def flash_write_mem [OF assms(1-3)] Let_def)
qed

lemma read_write_other:
  assumes "ftfl_doc hw" and "ofs mod 4 = 0" and "ofs + 4 \<le> FLASH_SECTOR_SIZE"
    and "ofs' mod 4 = 0" and "ofs' \<noteq> ofs"
  shows "flash_read SECTOR_NUM ofs' (snd (flash_write hw SECTOR_NUM ofs w f)) = flash_read SECTOR_NUM ofs' f"
proof -
  have "ofs' + 3 < ofs \<or> ofs + 4 \<le> ofs'" using assms(2,4,5) by presburger
  then show ?thesis by (auto simp: flash_read_def flash_write_mem [OF assms(1-3)] Let_def)
qed

subsection \<open>The settings survive a power cycle\<close>

text \<open>The gains the flash can hold: a number of tenths below \<open>2 ^ 23\<close>.\<close>

definition gain_ok :: "c_float \<Rightarrow> bool" where
  "gain_ok x \<longleftrightarrow> (\<exists>n. 0 \<le> n \<and> n < 2 ^ 23 \<and> x = f_div f32 (f_of_int f32 n) (f_of_int f32 10))"

definition pid_ok :: "PID \<Rightarrow> bool" where
  "pid_ok x \<longleftrightarrow> gain_ok (pid_p x) \<and> gain_ok (pid_i x) \<and> gain_ok (pid_d x)"

definition settings_ok :: "settings \<Rightarrow> bool" where
  "settings_ok st \<longleftrightarrow> pid_ok (speedpid st) \<and> pid_ok (streepid st)
     \<and> - (2 ^ 31) \<le> set_speed st \<and> set_speed st < 2 ^ 31"

lemma gain_tenths:
  assumes "gain_ok x"
  shows "\<exists>w. tenths x = Some w \<and> from_tenths w = x"
proof -
  obtain n where n: "0 \<le> n" "n < 2 ^ 23" and x: "x = f_div f32 (f_of_int f32 n) (f_of_int f32 10)"
    using assms by (auto simp: gain_ok_def)
  have "tenths x = Some (word_of_int n)"
    using ten_round_trip [OF n] n by (simp add: tenths_def x f_to_int_of_int del: f_to_int.simps)
  moreover have "uint (word_of_int n :: 32 word) = n" using n by (simp add: uint_word_of_int)
  ultimately show ?thesis by (auto simp: from_tenths_def x)
qed

lemma flash_offsets: "ofs \<in> {0, 4, 8, 12, 16, 20, 24} \<Longrightarrow> ofs mod 4 = 0 \<and> ofs + 4 \<le> FLASH_SECTOR_SIZE"
  by auto

lemma write_tenths_spec:
  assumes hw: "ftfl_doc hw"
  shows "\<forall>(ofs, x) \<in> set xs. ofs \<in> {0, 4, 8, 12, 16, 20, 24} \<and> gain_ok x \<and> blank f ofs \<Longrightarrow> distinct (map fst xs) \<Longrightarrow>
    \<exists>f'. write_tenths hw xs f = Some f'
      \<and> (\<forall>(ofs, x) \<in> set xs. from_tenths (flash_read SECTOR_NUM ofs f') = x)
      \<and> (\<forall>ofs \<in> {0, 4, 8, 12, 16, 20, 24} - fst ` set xs.
           flash_read SECTOR_NUM ofs f' = flash_read SECTOR_NUM ofs f \<and> (blank f ofs \<longrightarrow> blank f' ofs))"
proof (induction xs arbitrary: f)
  case Nil
  then show ?case by simp
next
  case (Cons a xs)
  obtain ofs x where a: "a = (ofs, x)" by fastforce
  have ofs: "ofs \<in> {0, 4, 8, 12, 16, 20, 24}" and gx: "gain_ok x" and bl: "blank f ofs" using Cons.prems(1) a by auto
  obtain w where w: "tenths x = Some w" "from_tenths w = x" using gain_tenths [OF gx] by blast
  define f1 where "f1 = snd (flash_write hw SECTOR_NUM ofs w f)"
  note o = conjunct1 [OF flash_offsets [OF ofs]] conjunct2 [OF flash_offsets [OF ofs]]
  have same: "flash_read SECTOR_NUM ofs f1 = w" unfolding f1_def by (rule read_write_same [OF hw o bl])
  have other: "flash_read SECTOR_NUM o' f1 = flash_read SECTOR_NUM o' f \<and> (blank f o' \<longrightarrow> blank f1 o')"
    if "o' \<in> {0, 4, 8, 12, 16, 20, 24}" "o' \<noteq> ofs" for o'
    unfolding f1_def
    using read_write_other [OF hw o, of o' w f] blank_write [OF hw o, of o' f w] flash_offsets [OF that(1)] that(2)
    by simp
  have nin: "ofs \<notin> fst ` set xs" using Cons.prems(2) a by auto
  have pre: "\<forall>(ofs, x) \<in> set xs. ofs \<in> {0, 4, 8, 12, 16, 20, 24} \<and> gain_ok x \<and> blank f1 ofs"
  proof (clarify)
    fix o' x' assume i: "(o', x') \<in> set xs"
    then have "o' \<in> {0, 4, 8, 12, 16, 20, 24} \<and> gain_ok x' \<and> blank f o'" using Cons.prems(1) by auto
    moreover have "o' \<noteq> ofs" using nin i by force
    ultimately show "o' \<in> {0, 4, 8, 12, 16, 20, 24} \<and> gain_ok x' \<and> blank f1 o'" using other by blast
  qed
  have "distinct (map fst xs)" using Cons.prems(2) by simp
  from Cons.IH [OF pre this] obtain f' where f': "write_tenths hw xs f1 = Some f'"
      "\<forall>(ofs, x) \<in> set xs. from_tenths (flash_read SECTOR_NUM ofs f') = x"
      "\<forall>ofs \<in> {0, 4, 8, 12, 16, 20, 24} - fst ` set xs.
         flash_read SECTOR_NUM ofs f' = flash_read SECTOR_NUM ofs f1 \<and> (blank f1 ofs \<longrightarrow> blank f' ofs)"
    by blast
  have "write_tenths hw (a # xs) f = Some f'" using f'(1) w by (simp add: a f1_def)
  moreover have "flash_read SECTOR_NUM ofs f' = w" using f'(3) ofs nin same by blast
  moreover have "\<forall>o' \<in> {0, 4, 8, 12, 16, 20, 24} - fst ` set (a # xs).
      flash_read SECTOR_NUM o' f' = flash_read SECTOR_NUM o' f \<and> (blank f o' \<longrightarrow> blank f' o')"
  proof
    fix o' assume i: "o' \<in> {0, 4, 8, 12, 16, 20, 24} - fst ` set (a # xs)"
    then have "o' \<in> {0, 4, 8, 12, 16, 20, 24} - fst ` set xs" "o' \<noteq> ofs" by (auto simp: a)
    with f'(3) other [of o'] show "flash_read SECTOR_NUM o' f' = flash_read SECTOR_NUM o' f \<and> (blank f o' \<longrightarrow> blank f' o')"
      by (metis DiffD1)
  qed
  ultimately show ?case using f'(2) w(2) a by auto
qed

text \<open>
  C28 Saving the settings and loading them back gives the same settings: every gain that is a number
  of tenths, and the speed, survive a power cycle (through binary32 arithmetic, the bytes of the
  command registers and the flash, which is erased first).
\<close>

theorem Falsh_Reserve_Flash_Read:
  assumes hw: "ftfl_doc hw" and st: "settings_ok st"
  shows "\<exists>f'. Falsh_Reserve hw st f = Some f' \<and> (\<forall>st0. linepid st0 = linepid st \<longrightarrow> Flash_Read f' st0 = st)"
proof -
  define xs where "xs = [(0 :: nat, pid_p (speedpid st)), (4, pid_i (speedpid st)), (8, pid_d (speedpid st)),
           (12, pid_p (streepid st)), (16, pid_i (streepid st)), (20, pid_d (streepid st))]"
  define f0 where "f0 = snd (flash_erase_sector hw SECTOR_NUM f)"
  have bl: "blank f0 ofs" if "ofs \<in> {0, 4, 8, 12, 16, 20, 24}" for ofs
    unfolding f0_def using blank_erase [OF hw] flash_offsets [OF that] by blast
  have "\<forall>(ofs, x) \<in> set xs. ofs \<in> {0, 4, 8, 12, 16, 20, 24} \<and> gain_ok x \<and> blank f0 ofs"
    using st bl by (simp add: xs_def settings_ok_def pid_ok_def)
  moreover have "distinct (map fst xs)" by (simp add: xs_def)
  ultimately obtain f1 where f1: "write_tenths hw xs f0 = Some f1"
      "\<forall>(ofs, x) \<in> set xs. from_tenths (flash_read SECTOR_NUM ofs f1) = x"
      "\<forall>ofs \<in> {0, 4, 8, 12, 16, 20, 24} - fst ` set xs.
         flash_read SECTOR_NUM ofs f1 = flash_read SECTOR_NUM ofs f0 \<and> (blank f0 ofs \<longrightarrow> blank f1 ofs)"
    using write_tenths_spec [OF hw, of xs f0] by blast
  define f' where "f' = snd (flash_write hw SECTOR_NUM 24 (word_of_int (set_speed st)) f1)"
  have ok: "Falsh_Reserve hw st f = Some f'" using f1(1) by (simp add: Falsh_Reserve_def f'_def xs_def f0_def)
  have b24: "blank f1 24" using f1(3) bl by (simp add: xs_def)
  have "flash_read SECTOR_NUM 24 f' = word_of_int (set_speed st)"
    unfolding f'_def by (rule read_write_same [OF hw _ _ b24]) simp_all
  then have sp: "sint (flash_read SECTOR_NUM 24 f') = set_speed st"
    using st by (simp add: settings_ok_def signed_of_int signed_take_bit_int_eq_self)
  have rd: "flash_read SECTOR_NUM ofs f' = flash_read SECTOR_NUM ofs f1" if "ofs \<in> {0, 4, 8, 12, 16, 20}" for ofs
    unfolding f'_def using that by (intro read_write_other [OF hw]) auto
  have "Flash_Read f' st0 = st" if "linepid st0 = linepid st" for st0
    using f1(2) sp that by (simp add: Flash_Read_def rd xs_def)
  with ok show ?thesis by blast
qed

definition ftfl_ideal :: ftfl_hw where
  "ftfl_ideal r m =
     (if r 0 = PGM4 \<and> cmd_addr r mod 4 = 0
      then (0x80, \<lambda>a. if cmd_addr r \<le> a \<and> a < cmd_addr r + 4 then m a AND r (7 - (a - cmd_addr r)) else m a)
      else if r 0 = ERSSCR
      then (0x80, \<lambda>a. if a div FLASH_SECTOR_SIZE = cmd_addr r div FLASH_SECTOR_SIZE then - 1 else m a)
      else (0xA0, m))"

definition ex_gain :: "int \<Rightarrow> c_float" where
  "ex_gain n = f_div f32 (f_of_int f32 n) (f_of_int f32 10)"

definition ex_settings :: settings where
  "ex_settings = \<lparr>streepid = \<lparr>pid_p = ex_gain 120, pid_i = ex_gain 0, pid_d = ex_gain 57\<rparr>,
     speedpid = \<lparr>pid_p = ex_gain 23, pid_i = ex_gain 5, pid_d = ex_gain 1\<rparr>,
     linepid = \<lparr>pid_p = Fin 0, pid_i = Fin 0, pid_d = Fin 0\<rparr>, set_speed = 75\<rparr>"

lemma ex_gain_ok: "0 \<le> n \<Longrightarrow> n < 2 ^ 23 \<Longrightarrow> gain_ok (ex_gain n)"
  by (auto simp: gain_ok_def ex_gain_def)

theorem Falsh_Reserve_Flash_Read_witness:
  "\<exists>f'. Falsh_Reserve ftfl_ideal ex_settings \<lparr>FCCOB = \<lambda>_. 0, FSTAT = 0, flash_mem = \<lambda>_. 0\<rparr> = Some f'
     \<and> Flash_Read f' ex_settings = ex_settings"
proof -
  have "ftfl_doc ftfl_ideal" by (simp add: ftfl_doc_def ftfl_ideal_def)
  moreover have "settings_ok ex_settings"
    by (simp add: settings_ok_def pid_ok_def ex_settings_def ex_gain_ok)
  ultimately show ?thesis using Falsh_Reserve_Flash_Read by blast
qed

end
