(* ===== verification/App_Sensors.thy ===== *)
theory App_Sensors
  imports C_Float "HOL-Library.Signed_Division"
begin

text \<open>
  The four sensor channels (\<open>AD/ad.c\<close>) and the body of the sampling task (\<open>AdStartTask\<close> of
  \<open>app.c\<close>).  What \<open>ADC_QuickReadValue\<close> returns for the four channels is an argument.  The
  buffers hold 12-bit samples, so the sums stay far from the bounds of \<open>int\<close>, which is modelled
  as an unbounded integer; the C division truncates.
\<close>

record sensors =
  ad1 :: int
  ad2 :: int
  ad3 :: int
  ad4 :: int
  avg_ad1 :: "nat \<Rightarrow> int"
  avg_ad2 :: "nat \<Rightarrow> int"
  avg_ad3 :: "nat \<Rightarrow> int"
  avg_ad4 :: "nat \<Rightarrow> int"
  ad3_max :: int
  ad3_min :: int
  ad4_max :: c_float
  ad4_min :: c_float
  guiyi_ad1 :: c_float
  guiyi_ad3 :: c_float
  sum_diff :: c_float

text \<open>Values at reset (\<open>ad.c\<close> lines 7 to 36, \<open>app.c\<close> line 42).\<close>

definition sensors_init :: sensors where
  "sensors_init = \<lparr>ad1 = 0, ad2 = 0, ad3 = 0, ad4 = 0, avg_ad1 = \<lambda>_. 0, avg_ad2 = \<lambda>_. 0, avg_ad3 = \<lambda>_. 0,
     avg_ad4 = \<lambda>_. 0, ad3_max = 0, ad3_min = 900, ad4_max = Fin 0, ad4_min = Fin 900,
     guiyi_ad1 = Fin 0, guiyi_ad3 = Fin 0, sum_diff = Fin 0\<rparr>"

subsection \<open>Sampling\<close>

definition avg_shift :: "(nat \<Rightarrow> int) \<Rightarrow> nat \<Rightarrow> int" where
  "avg_shift b = (let b1 = b(4 := b 3); b2 = b1(3 := b1 2); b3 = b2(2 := b2 1) in b3(1 := b3 0))"

definition avg_sum :: "(nat \<Rightarrow> int) \<Rightarrow> int" where
  "avg_sum b = (b 4 + b 3 + b 2 + b 1 + b 0) sdiv 5"

definition ad :: "int \<times> int \<times> int \<times> int \<Rightarrow> sensors \<Rightarrow> sensors" where
  "ad samples s =
     (let (x1, x2, x3, x4) = samples;
          s = s\<lparr>avg_ad1 := (avg_ad1 s)(0 := x1)\<rparr>;
          s = s\<lparr>avg_ad2 := (avg_ad2 s)(0 := x2)\<rparr>;
          s = s\<lparr>avg_ad3 := (avg_ad3 s)(0 := x3)\<rparr>;
          s = s\<lparr>avg_ad4 := (avg_ad4 s)(0 := x4)\<rparr>;
          s = s\<lparr>avg_ad1 := avg_shift (avg_ad1 s)\<rparr>;
          s = s\<lparr>ad1 := avg_sum (avg_ad1 s)\<rparr>;
          s = s\<lparr>avg_ad2 := avg_shift (avg_ad2 s)\<rparr>;
          s = s\<lparr>ad2 := avg_sum (avg_ad2 s)\<rparr>;
          s = s\<lparr>avg_ad3 := avg_shift (avg_ad3 s)\<rparr>;
          s = s\<lparr>ad3 := avg_sum (avg_ad3 s)\<rparr>;
          s = s\<lparr>avg_ad4 := avg_shift (avg_ad4 s)\<rparr>
      in s\<lparr>ad4 := avg_sum (avg_ad4 s)\<rparr>)"

definition guiyi :: "sensors \<Rightarrow> sensors" where
  "guiyi s =
     (let i32 = f_of_int f32;
          s = s\<lparr>guiyi_ad3 := f_mul f32 (f_div f32 (i32 (ad4 s)) (f_sub f32 (ad4_max s) (ad4_min s))) (i32 800)\<rparr>
      in s\<lparr>guiyi_ad1 := f_mul f32 (f_div f32 (i32 (ad3 s)) (f_sub f32 (i32 (ad3_max s)) (i32 (ad3_min s)))) (i32 800)\<rparr>)"

definition max_min :: "sensors \<Rightarrow> sensors" where
  "max_min s =
     (let s = (if ad3_max s \<le> ad3 s then s\<lparr>ad3_max := ad3 s\<rparr> else s);
          s = (if f_le (ad4_max s) (f_of_int f32 (ad4 s)) then s\<lparr>ad4_max := f_of_int f32 (ad4 s)\<rparr> else s);
          s = (if ad3_min s \<ge> ad3 s then s\<lparr>ad3_min := ad3 s\<rparr> else s)
      in if f_le (f_of_int f32 (ad4 s)) (ad4_min s) then s\<lparr>ad4_min := f_of_int f32 (ad4 s)\<rparr> else s)"

definition AdStartTask_body :: "int \<times> int \<times> int \<times> int \<Rightarrow> sensors \<Rightarrow> sensors" where
  "AdStartTask_body samples s =
     (let s = guiyi (ad samples s);
          s = s\<lparr>sum_diff := f_mul f32 (f_div f32 (f_sub f32 (guiyi_ad1 s) (guiyi_ad3 s))
                                              (f_add f32 (guiyi_ad1 s) (guiyi_ad3 s))) (f_of_int f32 1000)\<rparr>
      in s\<lparr>sum_diff := f_of_int f32 (ad3 s - ad4 s)\<rparr>)"

subsection \<open>The filter\<close>

lemma sdiv_between:
  assumes "5 * lo \<le> a" and "a \<le> 5 * hi" and "0 \<le> lo"
  shows "lo \<le> a sdiv 5 \<and> a sdiv 5 \<le> (hi::int)"
proof -
  have "0 \<le> a" using assms by linarith
  then have "a sdiv 5 = a div 5" by (simp add: signed_divide_int_def sgn_if)
  with assms show ?thesis by presburger
qed

definition filtered :: "int \<Rightarrow> int \<Rightarrow> int \<Rightarrow> int \<Rightarrow> int" where
  "filtered a b c d = (2 * d + c + b + a) sdiv 5"

lemma avg_four:
  "avg_sum (avg_shift ((avg_shift ((avg_shift ((avg_shift (b0(0 := a)))(0 := b)))(0 := c)))(0 := d))) = filtered a b c d"
  by (simp add: avg_sum_def avg_shift_def Let_def filtered_def algebra_simps)

lemma filtered_between:
  assumes "0 \<le> a" "0 \<le> b" "0 \<le> c" "0 \<le> d"
  shows "filtered a b c d \<in> {Min {a, b, c, d}..Max {a, b, c, d}}"
proof -
  have "Min {a, b, c, d} \<le> filtered a b c d \<and> filtered a b c d \<le> Max {a, b, c, d}"
    unfolding filtered_def using assms by (intro sdiv_between) (auto simp: min_def max_def)
  then show ?thesis by simp
qed

lemma ad_eq:
  "ad (x1, x2, x3, x4) s =
     (let b1 = avg_shift ((avg_ad1 s)(0 := x1)); b2 = avg_shift ((avg_ad2 s)(0 := x2));
          b3 = avg_shift ((avg_ad3 s)(0 := x3)); b4 = avg_shift ((avg_ad4 s)(0 := x4))
      in s\<lparr>avg_ad1 := b1, avg_ad2 := b2, avg_ad3 := b3, avg_ad4 := b4,
           ad1 := avg_sum b1, ad2 := avg_sum b2, ad3 := avg_sum b3, ad4 := avg_sum b4\<rparr>)"
  by (simp add: ad_def Let_def)

text \<open>
  Whatever the buffers held, after four samples the value of a channel is the sum of these four
  samples with the newest counted twice, divided by five; it lies between the smallest and the
  largest of them, so a change of the light reaches the steering within four periods.
\<close>

lemma ad_filter:
  assumes s': "s' = ad (d1, d2, d3, d4) (ad (c1, c2, c3, c4) (ad (b1, b2, b3, b4) (ad (a1, a2, a3, a4) s)))"
    and nn: "0 \<le> a1" "0 \<le> b1" "0 \<le> c1" "0 \<le> d1" "0 \<le> a2" "0 \<le> b2" "0 \<le> c2" "0 \<le> d2"
      "0 \<le> a3" "0 \<le> b3" "0 \<le> c3" "0 \<le> d3" "0 \<le> a4" "0 \<le> b4" "0 \<le> c4" "0 \<le> d4"
  shows "ad1 s' = (2 * d1 + c1 + b1 + a1) sdiv 5 \<and> ad1 s' \<in> {Min {a1, b1, c1, d1}..Max {a1, b1, c1, d1}}
    \<and> ad2 s' = (2 * d2 + c2 + b2 + a2) sdiv 5 \<and> ad2 s' \<in> {Min {a2, b2, c2, d2}..Max {a2, b2, c2, d2}}
    \<and> ad3 s' = (2 * d3 + c3 + b3 + a3) sdiv 5 \<and> ad3 s' \<in> {Min {a3, b3, c3, d3}..Max {a3, b3, c3, d3}}
    \<and> ad4 s' = (2 * d4 + c4 + b4 + a4) sdiv 5 \<and> ad4 s' \<in> {Min {a4, b4, c4, d4}..Max {a4, b4, c4, d4}}"
proof -
  have "ad1 s' = filtered a1 b1 c1 d1" "ad2 s' = filtered a2 b2 c2 d2"
    "ad3 s' = filtered a3 b3 c3 d3" "ad4 s' = filtered a4 b4 c4 d4"
    by (simp_all add: s' ad_eq Let_def avg_four)
  moreover note filtered_between [OF nn(1-4)] filtered_between [OF nn(5-8)]
    filtered_between [OF nn(9-12)] filtered_between [OF nn(13-16)]
  ultimately show ?thesis by (simp only: filtered_def)
qed

lemma ad_filter_example:
  "ad3 (ad (0, 0, 500, 0) (ad (0, 0, 80, 0) (ad (0, 0, 90, 0) (ad (0, 0, 100, 0) sensors_init)))) = 254"
  using ad_filter [where s = sensors_init and ?a1.0 = 0 and ?a2.0 = 0 and ?a3.0 = 100 and ?a4.0 = 0
      and ?b1.0 = 0 and ?b2.0 = 0 and ?b3.0 = 90 and ?b4.0 = 0 and ?c1.0 = 0 and ?c2.0 = 0 and ?c3.0 = 80 and ?c4.0 = 0
      and ?d1.0 = 0 and ?d2.0 = 0 and ?d3.0 = 500 and ?d4.0 = 0, OF refl] by simp

subsection \<open>The extremes\<close>

text \<open>The calibration page keeps the extremes of channel 3 over all readings since it was entered.\<close>

lemma max_min_ad3:
  "ad3_max (max_min s) = max (ad3_max s) (ad3 s)" "ad3_min (max_min s) = min (ad3_min s) (ad3 s)"
  "ad3 (max_min s) = ad3 s"
  by (auto simp: max_min_def Let_def max_def min_def)

end
