(* ===== verification/FTM_Driver.thy ===== *)
theory FTM_Driver
  imports Prelude
begin

text \<open>
  The driver of the FlexTimer modules (\<open>drivers/K/src/ftm.c\<close>) for the K60 of the car (three modules), the
  pin functions of \<open>gpio.c\<close> it calls and the start-up of motor and steering (\<open>work/PWM/pwm.c\<close>).  The
  registers of a module are a record, masks and field positions are those of \<open>MK60D10.h\<close>.  The bus clock
  is a parameter; so is \<open>z\<close>, what a division by zero yields: C leaves it undefined, and
  \<open>FTM_PWM_QuickInit\<close> divides by zero at every frequency above 1/65535 of the clock.
\<close>

record ftm =
  FTM_SC :: "32 word"
  FTM_CNT :: "32 word"
  FTM_MOD :: "32 word"
  FTM_CNTIN :: "32 word"
  FTM_MODE :: "32 word"
  FTM_SYNC :: "32 word"
  FTM_COMBINE :: "32 word"
  FTM_QDCTRL :: "32 word"
  FTM_PWMLOAD :: "32 word"
  FTM_CnSC :: "nat \<Rightarrow> 32 word"
  FTM_CnV :: "nat \<Rightarrow> 32 word"

record ftm_state =
  FTMS :: "nat \<Rightarrow> ftm"
  SIM_SCGC3 :: "32 word"
  SIM_SCGC5 :: "32 word"
  SIM_SCGC6 :: "32 word"
  PORT_PCR :: "nat \<Rightarrow> nat \<Rightarrow> 32 word"
  FTM_CallBackTable :: "nat \<Rightarrow> ptr"
  NVIC_FTM :: "nat \<Rightarrow> bool"

definition upd_ftm :: "nat \<Rightarrow> (ftm \<Rightarrow> ftm) \<Rightarrow> ftm_state \<Rightarrow> ftm_state" where
  "upd_ftm i f s = s\<lparr>FTMS := (FTMS s)(i := f (FTMS s i))\<rparr>"

text \<open>\<open>r |= m\<close> and \<open>r &= ~m\<close>.\<close>

definition bits_on :: "32 word \<Rightarrow> 32 word \<Rightarrow> 32 word" where
  "bits_on m r = r OR m"

definition bits_off :: "32 word \<Rightarrow> 32 word \<Rightarrow> 32 word" where
  "bits_off m r = r AND NOT m"

definition bits_set :: "bool \<Rightarrow> 32 word \<Rightarrow> 32 word \<Rightarrow> 32 word" where
  "bits_set b m r = (if b then bits_on m r else bits_off m r)"

definition sc :: "(32 word \<Rightarrow> 32 word) \<Rightarrow> nat \<Rightarrow> ftm_state \<Rightarrow> ftm_state" where
  "sc f i = upd_ftm i (\<lambda>r. r\<lparr>FTM_SC := f (FTM_SC r)\<rparr>)"

definition mode_reg :: "(32 word \<Rightarrow> 32 word) \<Rightarrow> nat \<Rightarrow> ftm_state \<Rightarrow> ftm_state" where
  "mode_reg f i = upd_ftm i (\<lambda>r. r\<lparr>FTM_MODE := f (FTM_MODE r)\<rparr>)"

definition qdctrl :: "(32 word \<Rightarrow> 32 word) \<Rightarrow> nat \<Rightarrow> ftm_state \<Rightarrow> ftm_state" where
  "qdctrl f i = upd_ftm i (\<lambda>r. r\<lparr>FTM_QDCTRL := f (FTM_QDCTRL r)\<rparr>)"

definition cnsc :: "nat \<Rightarrow> (32 word \<Rightarrow> 32 word) \<Rightarrow> nat \<Rightarrow> ftm_state \<Rightarrow> ftm_state" where
  "cnsc chl f i = upd_ftm i (\<lambda>r. r\<lparr>FTM_CnSC := (FTM_CnSC r)(chl := f (FTM_CnSC r chl))\<rparr>)"

subsection \<open>Pins\<close>

definition gpio_clock :: "nat \<Rightarrow> ftm_state \<Rightarrow> ftm_state" where
  "gpio_clock instn s = s\<lparr>SIM_SCGC5 := bits_on (push_bit instn 0x200) (SIM_SCGC5 s)\<rparr>"

definition upd_pcr :: "nat \<Rightarrow> nat \<Rightarrow> (32 word \<Rightarrow> 32 word) \<Rightarrow> ftm_state \<Rightarrow> ftm_state" where
  "upd_pcr instn pin f s =
     s\<lparr>PORT_PCR := (PORT_PCR s)(instn := (PORT_PCR s instn)(pin := f (PORT_PCR s instn pin)))\<rparr>"

definition PORT_PinMuxConfig :: "nat \<Rightarrow> nat \<Rightarrow> nat \<Rightarrow> ftm_state \<Rightarrow> ftm_state" where
  "PORT_PinMuxConfig instn pin pinMux s =
     upd_pcr instn pin (bits_on (push_bit 8 (of_nat pinMux) AND 0x700))
       (upd_pcr instn pin (bits_off 0x700) (gpio_clock instn s))"

datatype PORT_Pull_Type = kPullDisabled | kPullUp | kPullDown

definition PORT_PinPullConfig :: "nat \<Rightarrow> nat \<Rightarrow> PORT_Pull_Type \<Rightarrow> ftm_state \<Rightarrow> ftm_state" where
  "PORT_PinPullConfig instn pin pull s =
     (let s = gpio_clock instn s
      in case pull of
           kPullDisabled \<Rightarrow> upd_pcr instn pin (bits_off 0x2) s
         | kPullUp \<Rightarrow> upd_pcr instn pin (bits_on 0x1) (upd_pcr instn pin (bits_on 0x2) s)
         | kPullDown \<Rightarrow> upd_pcr instn pin (bits_off 0x1) (upd_pcr instn pin (bits_on 0x2) s))"

definition PORT_PinOpenDrainConfig :: "nat \<Rightarrow> nat \<Rightarrow> bool \<Rightarrow> ftm_state \<Rightarrow> ftm_state" where
  "PORT_PinOpenDrainConfig instn pin status s = upd_pcr instn pin (bits_set status 0x20) (gpio_clock instn s)"

text \<open>The word that names a timer channel and its pins.\<close>

record map_t =
  map_ip :: nat
  map_io :: nat
  map_mux :: nat
  map_pin_start :: nat
  map_pin_cnt :: nat
  map_chl :: nat

definition map_field :: "nat \<Rightarrow> nat \<Rightarrow> 32 word \<Rightarrow> nat" where
  "map_field off n w = unat (take_bit n (drop_bit off w))"

definition map_of_word :: "32 word \<Rightarrow> map_t" where
  "map_of_word w =
     \<lparr>map_ip = map_field 0 3 w, map_io = map_field 3 3 w, map_mux = map_field 6 3 w,
      map_pin_start = map_field 9 5 w, map_pin_cnt = map_field 14 5 w, map_chl = map_field 19 5 w\<rparr>"

definition mux_pins :: "map_t \<Rightarrow> ftm_state \<Rightarrow> ftm_state" where
  "mux_pins pq s = fold (\<lambda>i. PORT_PinMuxConfig (map_io pq) (map_pin_start pq + i) (map_mux pq)) [0..<map_pin_cnt pq] s"

subsection \<open>Modes\<close>

text \<open>The clock gates: modules 0 and 1 in \<open>SCGC6\<close>, module 2 in \<open>SCGC3\<close>.\<close>

definition ftm_clock :: "nat \<Rightarrow> ftm_state \<Rightarrow> ftm_state" where
  "ftm_clock instn s =
     (if instn = 0 then s\<lparr>SIM_SCGC6 := bits_on 0x1000000 (SIM_SCGC6 s)\<rparr>
      else if instn = 1 then s\<lparr>SIM_SCGC6 := bits_on 0x2000000 (SIM_SCGC6 s)\<rparr>
      else s\<lparr>SIM_SCGC3 := bits_on 0x1000000 (SIM_SCGC3 s)\<rparr>)"

definition FTM_InitBasic :: "nat \<Rightarrow> 32 word \<Rightarrow> ftm_state \<Rightarrow> ftm_state" where
  "FTM_InitBasic instn md s =
     upd_ftm instn (\<lambda>r. r\<lparr>FTM_CNT := 0, FTM_CNTIN := 0, FTM_MOD := md, FTM_PWMLOAD := 0xFFFFFFFF\<rparr>)
       (mode_reg (bits_on 0x4) instn (sc (\<lambda>_. 0) instn (ftm_clock instn s)))"

definition get_chl_pair_index :: "nat \<Rightarrow> nat" where
  "get_chl_pair_index chl =
     (if chl = 0 \<or> chl = 1 then 0 else if chl = 2 \<or> chl = 3 then 1 else if chl = 4 \<or> chl = 5 then 2 else 3)"

datatype FTM_DualChlConfig_Type =
  kFTM_Combine | kFTM_Complementary | kFTM_DualEdgeCapture | kFTM_DeadTime | kFTM_Sync | kFTM_FaultControl

fun dual_mask :: "FTM_DualChlConfig_Type \<Rightarrow> 32 word" where
  "dual_mask kFTM_Combine = 0x1"
| "dual_mask kFTM_Complementary = 0x2"
| "dual_mask kFTM_DualEdgeCapture = 0x4"
| "dual_mask kFTM_DeadTime = 0x10"
| "dual_mask kFTM_Sync = 0x20"
| "dual_mask kFTM_FaultControl = 0x40"

definition FTM_DualChlConfig :: "nat \<Rightarrow> nat \<Rightarrow> FTM_DualChlConfig_Type \<Rightarrow> bool \<Rightarrow> ftm_state \<Rightarrow> ftm_state" where
  "FTM_DualChlConfig instn chl mode newState =
     upd_ftm instn (\<lambda>r. r\<lparr>FTM_COMBINE :=
       bits_set newState (push_bit (get_chl_pair_index chl * 8) (dual_mask mode)) (FTM_COMBINE r)\<rparr>)"

definition FTM_PWM_InvertPolarity :: "nat \<Rightarrow> nat \<Rightarrow> 32 word \<Rightarrow> ftm_state \<Rightarrow> ftm_state" where
  "FTM_PWM_InvertPolarity instn chl config s =
     (if config = 0 then cnsc chl (bits_on 0x8) instn (cnsc chl (bits_off 0x4) instn s)
      else if config = 1 then cnsc chl (bits_off 0x8) instn (cnsc chl (bits_on 0x4) instn s)
      else s)"

text \<open>The six settings of a pair of channels, in the order in which every mode makes them.\<close>

definition dual_all :: "nat \<Rightarrow> nat \<Rightarrow> bool \<Rightarrow> bool \<Rightarrow> bool \<Rightarrow> ftm_state \<Rightarrow> ftm_state" where
  "dual_all instn chl comb compl sync s =
     FTM_DualChlConfig instn chl kFTM_FaultControl False
       (FTM_DualChlConfig instn chl kFTM_Sync sync
         (FTM_DualChlConfig instn chl kFTM_DeadTime False
           (FTM_DualChlConfig instn chl kFTM_DualEdgeCapture False
             (FTM_DualChlConfig instn chl kFTM_Complementary compl
               (FTM_DualChlConfig instn chl kFTM_Combine comb s)))))"

datatype FTM_Mode_Type =
  kFTM_Mode_EdgeAligned | kFTM_Mode_CenterAligned | kFTM_Mode_Combine | kFTM_Mode_Complementary
  | kFTM_Mode_InputCapture | kFTM_Mode_QuadratureDecoder

definition sync_on :: "nat \<Rightarrow> ftm_state \<Rightarrow> ftm_state" where
  "sync_on instn = upd_ftm instn (\<lambda>r. r\<lparr>FTM_SYNC := bits_on 0x80 (0x1 OR 0x2)\<rparr>)"

fun FTM_SetMode :: "nat \<Rightarrow> nat \<Rightarrow> FTM_Mode_Type \<Rightarrow> ftm_state \<Rightarrow> ftm_state" where
  "FTM_SetMode instn chl kFTM_Mode_EdgeAligned s =
     dual_all instn chl False False False
       (FTM_PWM_InvertPolarity instn chl 0
         (cnsc chl (bits_on (0x20 OR 0x10)) instn
           (sc (bits_off 0x20) instn (qdctrl (bits_off 0x1) instn (mode_reg (bits_off 0x1) instn s)))))"
| "FTM_SetMode instn chl kFTM_Mode_CenterAligned s =
     dual_all instn chl False False False
       (sc (bits_on 0x20) instn (qdctrl (bits_off 0x1) instn (mode_reg (bits_off 0x1) instn s)))"
| "FTM_SetMode instn chl kFTM_Mode_InputCapture s =
     dual_all instn chl False False False
       (cnsc chl (bits_off (0x20 OR 0x10)) instn
         (sc (bits_off 0x20) instn (mode_reg (bits_off 0x1) instn (qdctrl (bits_off 0x1) instn s))))"
| "FTM_SetMode instn chl kFTM_Mode_Complementary s =
     sync_on instn
       (FTM_PWM_InvertPolarity instn chl 0
         (cnsc chl (bits_on (0x20 OR 0x10)) instn
           (dual_all instn chl True True True
             (mode_reg (bits_on 0x1) instn (mode_reg (bits_on 0x4) instn
               (sc (bits_off 0x20) instn (qdctrl (bits_off 0x1) instn s)))))))"
| "FTM_SetMode instn chl kFTM_Mode_Combine s =
     sync_on instn
       (FTM_PWM_InvertPolarity instn chl 0
         (cnsc chl (bits_on (0x20 OR 0x10)) instn
           (dual_all instn chl True False True
             (mode_reg (bits_on 0x1) instn (mode_reg (bits_on 0x4) instn
               (sc (bits_off 0x20) instn (qdctrl (bits_off 0x1) instn s)))))))"
| "FTM_SetMode instn chl kFTM_Mode_QuadratureDecoder s =
     dual_all instn chl True False False
       (mode_reg (bits_on 0x1) instn (mode_reg (bits_on 0x4) instn
         (sc (bits_off 0x20) instn (qdctrl (bits_on 0x1) instn s))))"

subsection \<open>Quadrature decoding\<close>

datatype FTM_QD_PolarityMode_Type = kFTM_QD_NormalPolarity | kFTM_QD_InvertedPolarity
datatype FTM_QD_Mode_Type = kQD_PHABEncoding | kQD_CountDirectionEncoding

definition qd_pins :: "map_t \<Rightarrow> ftm_state \<Rightarrow> ftm_state" where
  "qd_pins pq s =
     fold (\<lambda>i s. PORT_PinOpenDrainConfig (map_io pq) (map_pin_start pq + i) True
                   (PORT_PinPullConfig (map_io pq) (map_pin_start pq + i) kPullUp
                     (PORT_PinMuxConfig (map_io pq) (map_pin_start pq + i) (map_mux pq) s)))
       [0..<map_pin_cnt pq] s"

definition FTM_QD_QuickInit ::
  "32 word \<Rightarrow> FTM_QD_PolarityMode_Type \<Rightarrow> FTM_QD_Mode_Type \<Rightarrow> ftm_state \<Rightarrow> nat \<times> ftm_state" where
  "FTM_QD_QuickInit MAP polarity mode s =
     (let pq = map_of_word MAP; i = map_ip pq;
          s = FTM_SetMode i 0 kFTM_Mode_QuadratureDecoder (FTM_InitBasic i 0xFFFF s);
          s = (case polarity of
                 kFTM_QD_NormalPolarity \<Rightarrow> qdctrl (bits_off 0x10) i (qdctrl (bits_off 0x20) i s)
               | kFTM_QD_InvertedPolarity \<Rightarrow> qdctrl (bits_on 0x10) i (qdctrl (bits_on 0x20) i s));
          s = (case mode of
                 kQD_PHABEncoding \<Rightarrow> qdctrl (bits_off 0x8) i s
               | kQD_CountDirectionEncoding \<Rightarrow> qdctrl (bits_on 0x8) i s)
      in (i, qd_pins pq s))"

text \<open>Value and direction.\<close>

definition FTM_QD_GetData :: "nat \<Rightarrow> ftm_state \<Rightarrow> int \<times> 8 word" where
  "FTM_QD_GetData instn s =
     (uint (FTM_CNT (FTMS s instn) AND 0xFFFF), ucast (drop_bit 2 (FTM_QDCTRL (FTMS s instn)) AND 1))"

definition FTM_QD_ClearCount :: "nat \<Rightarrow> ftm_state \<Rightarrow> ftm_state" where
  "FTM_QD_ClearCount instn = upd_ftm instn (\<lambda>r. r\<lparr>FTM_CNT := 0\<rparr>)"

subsection \<open>PWM\<close>

abbreviation (input) FTM_COMBINE_MASK :: "32 word" where "FTM_COMBINE_MASK \<equiv> 0x01010101"

definition FTM_PWM_ChangeDuty :: "nat \<Rightarrow> nat \<Rightarrow> 32 word \<Rightarrow> (nat \<Rightarrow> ftm) \<Rightarrow> nat \<Rightarrow> ftm" where
  "FTM_PWM_ChangeDuty instn chl pwmDuty F =
     (let r = F instn;
          cv = (FTM_MOD r * pwmDuty) div 10000
      in F(instn :=
           if FTM_COMBINE r AND FTM_COMBINE_MASK \<noteq> 0
           then (if odd chl
                 then r\<lparr>FTM_CnV := (FTM_CnV r)(chl - 1 := 0, chl := cv), FTM_PWMLOAD := 0xFFFFFFFF\<rparr>
                 else r\<lparr>FTM_CnV := (FTM_CnV r)(chl := 0, chl + 1 := cv), FTM_PWMLOAD := 0xFFFFFFFF\<rparr>)
           else r\<lparr>FTM_CnV := (FTM_CnV r)(chl := cv)\<rparr>))"

definition udiv :: "32 word \<Rightarrow> 32 word \<Rightarrow> 32 word \<Rightarrow> 32 word" where
  "udiv z a b = (if b = 0 then z else a div b)"

text \<open>The division of the clock that brings the period under 65536 counts.\<close>

definition pwm_pres :: "32 word \<Rightarrow> 32 word \<Rightarrow> 32 word \<Rightarrow> 32 word" where
  "pwm_pres z clock req =
     (let pres = udiv z clock req div 0xFFFF
      in if udiv z (udiv z clock req) pres > 0xFFFF then pres + 1 else pres)"

text \<open>The power of two for it: the nearest of the first seven, then one more when that is too small.\<close>

definition pwm_ps :: "32 word \<Rightarrow> nat" where
  "pwm_ps pres =
     (let p = sint pres;
          ps = fst (fold (\<lambda>i (ps, min_val :: 32 word).
                 if word_of_int \<bar>p - 2 ^ i\<bar> < min_val then (i, word_of_int \<bar>p - 2 ^ i\<bar>) else (ps, min_val))
                 [0..<7] (0, 0xFFFF));
          ps = (if p > 2 ^ ps then ps + 1 else ps)
      in if ps > 7 then 7 else ps)"

datatype FTM_PWM_Mode_Type = kPWM_EdgeAligned | kPWM_Combine | kPWM_Complementary

fun pwm_mode :: "FTM_PWM_Mode_Type \<Rightarrow> FTM_Mode_Type" where
  "pwm_mode kPWM_EdgeAligned = kFTM_Mode_EdgeAligned"
| "pwm_mode kPWM_Combine = kFTM_Mode_Combine"
| "pwm_mode kPWM_Complementary = kFTM_Mode_Complementary"

definition FTM_PWM_QuickInit ::
  "32 word \<Rightarrow> 32 word \<Rightarrow> 32 word \<Rightarrow> FTM_PWM_Mode_Type \<Rightarrow> 32 word \<Rightarrow> ftm_state \<Rightarrow> nat \<times> ftm_state" where
  "FTM_PWM_QuickInit z clock MAP mode req s =
     (let pq = map_of_word MAP; i = map_ip pq;
          s = mux_pins pq s;
          ps = pwm_ps (pwm_pres z clock req);
          md = udiv z (clock div 2 ^ ps) req - 1;
          s = FTM_InitBasic i md s;
          s = FTM_SetMode i (map_chl pq) (pwm_mode mode) s;
          s = s\<lparr>FTMS := FTM_PWM_ChangeDuty i (map_chl pq) 5000 (FTMS s)\<rparr>;
          s = sc (bits_on (push_bit 3 1 AND 0x18)) i (sc (bits_off 0x18) i s);
          s = sc (bits_on (of_nat ps AND 0x7)) i (sc (bits_off 0x7) i s)
      in (i, s))"

text \<open>Start-up of the motor (timer 0, channels 3 and 2) and of the steering servo (timer 1, channel 1).\<close>

abbreviation (input) FTM0_CH3_PC04 :: "32 word" where "FTM0_CH3_PC04 \<equiv> 0x184910"
abbreviation (input) FTM0_CH2_PC03 :: "32 word" where "FTM0_CH2_PC03 \<equiv> 0x104710"
abbreviation (input) FTM1_CH1_PA09 :: "32 word" where "FTM1_CH1_PA09 \<equiv> 0x852c1"

definition speedInit :: "32 word \<Rightarrow> 32 word \<Rightarrow> ftm_state \<Rightarrow> ftm_state" where
  "speedInit z clock s =
     (let s = snd (FTM_PWM_QuickInit z clock FTM0_CH3_PC04 kPWM_EdgeAligned 10000 s);
          s = snd (FTM_PWM_QuickInit z clock FTM0_CH2_PC03 kPWM_EdgeAligned 10000 s);
          s = snd (FTM_PWM_QuickInit z clock FTM1_CH1_PA09 kPWM_EdgeAligned 300 s);
          s = s\<lparr>FTMS := FTM_PWM_ChangeDuty 0 3 0 (FTMS s)\<rparr>;
          s = s\<lparr>FTMS := FTM_PWM_ChangeDuty 0 2 0 (FTMS s)\<rparr>
      in s\<lparr>FTMS := FTM_PWM_ChangeDuty 1 1 2000 (FTMS s)\<rparr>)"

subsection \<open>Input capture, interrupts\<close>

text \<open>The prescaler asked for is ignored; it is always 4.\<close>

definition FTM_IC_QuickInit :: "32 word \<Rightarrow> 32 word \<Rightarrow> ftm_state \<Rightarrow> ftm_state" where
  "FTM_IC_QuickInit MAP ps s =
     (let pq = map_of_word MAP; i = map_ip pq;
          s = FTM_InitBasic i 0xFFFF (mux_pins pq s);
          s = sc (bits_on (push_bit 3 1 AND 0x18)) i (sc (bits_off 0x18) i s);
          s = sc (bits_on (2 AND 0x7)) i (sc (bits_off 0x7) i s)
      in FTM_SetMode i (map_chl pq) kFTM_Mode_InputCapture s)"

datatype FTM_IC_Mode_Type = kFTM_IC_FallingEdge | kFTM_IC_RisingEdge | kFTM_IC_RisingFallingEdge

definition FTM_IC_SetTriggerMode :: "nat \<Rightarrow> nat \<Rightarrow> FTM_IC_Mode_Type \<Rightarrow> ftm_state \<Rightarrow> ftm_state" where
  "FTM_IC_SetTriggerMode instn chl mode s =
     (let s = cnsc chl (bits_off (0x8 OR 0x4)) instn s
      in case mode of
           kFTM_IC_FallingEdge \<Rightarrow> cnsc chl (bits_on 0x4) instn (cnsc chl (bits_off 0x8) instn s)
         | kFTM_IC_RisingEdge \<Rightarrow> cnsc chl (bits_off 0x4) instn (cnsc chl (bits_on 0x8) instn s)
         | kFTM_IC_RisingFallingEdge \<Rightarrow> cnsc chl (bits_on (0x8 OR 0x4)) instn s)"

definition FTM_GetChlCounter :: "nat \<Rightarrow> nat \<Rightarrow> ftm_state \<Rightarrow> 32 word" where
  "FTM_GetChlCounter instn chl s = FTM_CnV (FTMS s instn) chl"

definition FTM_SetMoudleCounter :: "nat \<Rightarrow> 32 word \<Rightarrow> ftm_state \<Rightarrow> ftm_state" where
  "FTM_SetMoudleCounter instn v = upd_ftm instn (\<lambda>r. r\<lparr>FTM_CNT := v\<rparr>)"

definition FTM_CallbackInstall :: "nat \<Rightarrow> ptr \<Rightarrow> ftm_state \<Rightarrow> ftm_state" where
  "FTM_CallbackInstall instn f s =
     (if f \<noteq> 0 then s\<lparr>FTM_CallBackTable := (FTM_CallBackTable s)(instn := f)\<rparr> else s)"

text \<open>\<open>config\<close>: 0 the overflow interrupt, 1 to 8 the channel interrupts, 9 to 16 the channel requests for DMA.\<close>

definition FTM_ITDMAConfig :: "nat \<Rightarrow> nat \<Rightarrow> bool \<Rightarrow> ftm_state \<Rightarrow> ftm_state" where
  "FTM_ITDMAConfig instn config flag s =
     (let s = (if config = 0 then sc (bits_set flag 0x40) instn s
               else if 1 \<le> config \<and> config \<le> 8 then cnsc (config - 1) (bits_set flag 0x40) instn s
               else if 9 \<le> config \<and> config \<le> 16
               then cnsc (config - 1 - 8) (bits_set flag 0x1) instn (cnsc (config - 1 - 8) (bits_set flag 0x40) instn s)
               else s)
      in s\<lparr>NVIC_FTM := (NVIC_FTM s)(instn := True)\<rparr>)"

definition FTM_IsChnInterupt :: "nat \<Rightarrow> nat \<Rightarrow> ftm_state \<Rightarrow> bool" where
  "FTM_IsChnInterupt instn chl s \<longleftrightarrow> drop_bit 7 (FTM_CnSC (FTMS s instn) chl AND 0x80) \<noteq> 0"

definition FTM_ChlMaxTable :: "nat list" where
  "FTM_ChlMaxTable = [8, 2, 2]"

text \<open>The callback (an argument: what the installed function does), then the flags are cleared.\<close>

definition FTM_IRQHandler :: "(ptr \<Rightarrow> ftm_state \<Rightarrow> ftm_state) \<Rightarrow> nat \<Rightarrow> ftm_state \<Rightarrow> ftm_state" where
  "FTM_IRQHandler callback instn s =
     (let s = (if FTM_CallBackTable s instn \<noteq> 0 then callback (FTM_CallBackTable s instn) s else s);
          s = (if FTM_SC (FTMS s instn) AND (0x80 OR 0x40) \<noteq> 0 then sc (bits_off 0x80) instn s else s)
      in fold (\<lambda>i s. if FTM_CnSC (FTMS s instn) i AND (0x40 OR 0x80) \<noteq> 0 then cnsc i (bits_off 0x80) instn s else s)
           [0..<FTM_ChlMaxTable ! instn] s)"

subsection \<open>What the operations leave alone\<close>

lemmas ftm_defs = upd_ftm_def sc_def mode_reg_def qdctrl_def cnsc_def

named_theorems ftm_frame "registers an operation of the timer driver does not change"

lemma FTMS_pins [ftm_frame]: "FTMS (PORT_PinMuxConfig a b c s) = FTMS s" "FTMS (ftm_clock i s) = FTMS s"
  by (simp_all add: PORT_PinMuxConfig_def upd_pcr_def gpio_clock_def ftm_clock_def)

lemma FTMS_mux_pins [ftm_frame]: "FTMS (mux_pins pq s) = FTMS s"
proof -
  have "FTMS (fold (\<lambda>i. PORT_PinMuxConfig (map_io pq) (map_pin_start pq + i) (map_mux pq)) is s) = FTMS s" for "is"
    by (induction "is" arbitrary: s) (simp_all add: ftm_frame)
  then show ?thesis by (simp add: mux_pins_def)
qed

lemma dual_frame [ftm_frame]:
  "FTM_MOD (FTMS (dual_all i c a b d s) j) = FTM_MOD (FTMS s j)"
  "FTM_CnV (FTMS (dual_all i c a b d s) j) = FTM_CnV (FTMS s j)"
  "j \<noteq> i \<Longrightarrow> FTMS (dual_all i c a b d s) j = FTMS s j"
  by (simp_all add: dual_all_def FTM_DualChlConfig_def upd_ftm_def)

lemma sc_frame [ftm_frame]:
  "FTM_MOD (FTMS (sc f i s) j) = FTM_MOD (FTMS s j)" "FTM_CnV (FTMS (sc f i s) j) = FTM_CnV (FTMS s j)"
  "FTM_COMBINE (FTMS (sc f i s) j) = FTM_COMBINE (FTMS s j)" "j \<noteq> i \<Longrightarrow> FTMS (sc f i s) j = FTMS s j"
  "FTM_SC (FTMS (sc f i s) i) = f (FTM_SC (FTMS s i))"
  by (simp_all add: sc_def upd_ftm_def)

lemma SetMode_frame [ftm_frame]:
  "FTM_MOD (FTMS (FTM_SetMode i c m s) j) = FTM_MOD (FTMS s j)"
  "FTM_CnV (FTMS (FTM_SetMode i c m s) j) = FTM_CnV (FTMS s j)"
  "j \<noteq> i \<Longrightarrow> FTMS (FTM_SetMode i c m s) j = FTMS s j"
  by (cases m; simp add: ftm_frame ftm_defs FTM_PWM_InvertPolarity_def sync_on_def)+

declare FTM_SetMode.simps [simp del]

lemma ChangeDuty_frame [ftm_frame]:
  "FTM_MOD (FTM_PWM_ChangeDuty i c d F j) = FTM_MOD (F j)"
  "FTM_SC (FTM_PWM_ChangeDuty i c d F j) = FTM_SC (F j)"
  "FTM_COMBINE (FTM_PWM_ChangeDuty i c d F j) = FTM_COMBINE (F j)"
  "j \<noteq> i \<Longrightarrow> FTM_PWM_ChangeDuty i c d F j = F j"
  by (simp_all add: FTM_PWM_ChangeDuty_def Let_def)

lemma InitBasic_regs:
  "FTM_MOD (FTMS (FTM_InitBasic i md s) i) = md"
  "FTM_CnV (FTMS (FTM_InitBasic i md s) j) = FTM_CnV (FTMS s j)"
  "FTM_COMBINE (FTMS (FTM_InitBasic i md s) j) = FTM_COMBINE (FTMS s j)"
  "j \<noteq> i \<Longrightarrow> FTMS (FTM_InitBasic i md s) j = FTMS s j"
  by (simp_all add: FTM_InitBasic_def ftm_defs ftm_frame)

subsection \<open>The frequency of a PWM output\<close>

text \<open>The search for the nearest power on integers.\<close>

fun nearest :: "int \<Rightarrow> nat list \<Rightarrow> nat \<times> int \<Rightarrow> nat \<times> int" where
  "nearest p [] b = b"
| "nearest p (i # is) (ps, m) = nearest p is (if \<bar>p - 2 ^ i\<bar> < m then (i, \<bar>p - 2 ^ i\<bar>) else (ps, m))"

lemma nearest_word:
  assumes "0 \<le> p" and "p \<le> 128"
  shows "0 \<le> m \<Longrightarrow> m \<le> 65535 \<Longrightarrow> \<forall>i\<in>set is. i < 7 \<Longrightarrow>
    fold (\<lambda>i (ps, min_val :: 32 word).
        if word_of_int \<bar>p - 2 ^ i\<bar> < min_val then (i, word_of_int \<bar>p - 2 ^ i\<bar>) else (ps, min_val)) is (ps, word_of_int m)
      = (fst (nearest p is (ps, m)), word_of_int (snd (nearest p is (ps, m))))"
proof (induction "is" arbitrary: ps m)
  case Nil
  then show ?case by simp
next
  case (Cons i "is")
  have "(2 :: int) ^ i \<le> 2 ^ 7" using Cons.prems(3) by (intro power_increasing) auto
  then have "(2 :: int) ^ i \<le> 128" by simp
  moreover have "(0 :: int) < 2 ^ i" by simp
  ultimately have "p - 2 ^ i \<le> 65535" "2 ^ i - p \<le> 65535" using assms by linarith+
  then have d: "\<bar>p - 2 ^ i\<bar> \<le> 65535" by linarith
  then have "word_of_int \<bar>p - 2 ^ i\<bar> < (word_of_int m :: 32 word) \<longleftrightarrow> \<bar>p - 2 ^ i\<bar> < m"
    using Cons.prems(1,2) by (simp add: word_less_def uint_word_of_int)
  with Cons d show ?case by simp
qed

lemma pwm_ps_least:
  assumes "p \<le> 128"
  shows "pwm_ps (of_nat p) \<le> 7 \<and> p \<le> 2 ^ pwm_ps (of_nat p)
    \<and> (pwm_ps (of_nat p) = 0 \<or> 2 ^ (pwm_ps (of_nat p) - 1) < p)"
proof -
  define f where "f = (\<lambda>p :: int. let ps = fst (nearest p [0, 1, 2, 3, 4, 5, 6] (0, 65535));
    ps = (if p > 2 ^ ps then ps + 1 else ps) in if ps > 7 then 7 else ps)"
  have all: "list_all (\<lambda>p. f p \<le> 7 \<and> p \<le> 2 ^ f p \<and> (f p = 0 \<or> 2 ^ (f p - 1) < p)) [0..128]"
    unfolding f_def by code_simp
  have "int p \<in> set [0..128]" using assms by simp
  with all have f: "f (int p) \<le> 7 \<and> int p \<le> 2 ^ f (int p) \<and> (f (int p) = 0 \<or> 2 ^ (f (int p) - 1) < int p)"
    unfolding list_all_iff by blast
  have sp: "sint (of_nat p :: 32 word) = int p"
    using assms by (simp add: signed_of_nat signed_take_bit_int_eq_self)
  have u: "[0..<7] = [0, 1, 2, 3, 4, 5, 6 :: nat]" by (simp add: upt_rec)
  have w: "(0xFFFF :: 32 word) = word_of_int 65535" by simp
  have W: "fold (\<lambda>i (ps, min_val :: 32 word).
        if word_of_int \<bar>int p - 2 ^ i\<bar> < min_val then (i, word_of_int \<bar>int p - 2 ^ i\<bar>) else (ps, min_val))
        [0, 1, 2, 3, 4, 5, 6] (0, word_of_int 65535)
      = (fst (nearest (int p) [0, 1, 2, 3, 4, 5, 6] (0, 65535)),
         word_of_int (snd (nearest (int p) [0, 1, 2, 3, 4, 5, 6] (0, 65535))))"
    by (rule nearest_word) (use assms in auto)
  have "pwm_ps (of_nat p) = f (int p)"
    unfolding pwm_ps_def f_def Let_def sp u w W fst_conv by (rule refl)
  with f show ?thesis by simp
qed

lemma pwm_pres_bounds:
  fixes z clock req :: "32 word"
  defines "N \<equiv> unat clock div unat req" and "K \<equiv> unat (pwm_pres z clock req)"
  assumes req: "req \<noteq> 0" and N: "N \<le> 128 * 65535"
  shows "K \<le> 128" and "K \<le> p \<Longrightarrow> 0 < p \<Longrightarrow> N div p \<le> 65535"
    and "0 < j \<Longrightarrow> j < K \<Longrightarrow> 65535 < N div j"
proof -
  define n where "n = udiv z clock req"
  have n: "unat n = N" using req by (simp add: n_def udiv_def N_def unat_div)
  define q where "q = N div 65535"
  define w where "w = n div 0xFFFF"
  have w: "unat w = q" by (simp add: w_def q_def unat_div n)
  have q128: "q \<le> 128" using N by (simp add: q_def)
  have q1: "unat (w + 1) = q + 1" using q128 w by (simp add: unat_word_ariths)
  have lt: "N < 65535 * (q + 1)" unfolding q_def by (simp add: dividend_less_div_times add.commute)
  have ge: "65535 * q \<le> N" by (simp add: q_def)
  have K: "K = (if udiv z n w > 0xFFFF then q + 1 else q)"
    by (simp add: K_def pwm_pres_def Let_def w q1 flip: n_def w_def)
  have test: "udiv z n w > 0xFFFF \<longleftrightarrow> 65535 < N div q" if "q \<noteq> 0"
  proof -
    have "w \<noteq> 0" using that w by auto
    then show ?thesis by (simp add: udiv_def word_less_nat_alt unat_div n w)
  qed
  have small: "N div q \<le> 65535" if "q = 128"
    using N that by (simp add: div_le_mono)
  show K128: "K \<le> 128"
  proof (cases "q = 128")
    case True
    with test small show ?thesis by (simp add: K)
  next
    case False
    with q128 show ?thesis by (simp add: K)
  qed
  show "N div p \<le> 65535" if p: "K \<le> p" "0 < p"
  proof (cases "q + 1 \<le> p")
    case True
    then have "N div p \<le> N div (q + 1)" by (rule div_le_mono2 [rotated]) simp
    also have "\<dots> < 65535 + 1" using lt by (intro less_mult_imp_div_less) simp
    finally show ?thesis by simp
  next
    case False
    with p K have "p = q" "\<not> udiv z n w > 0xFFFF" by (auto split: if_splits)
    with test p(2) show ?thesis by auto
  qed
  show "65535 < N div j" if j: "0 < j" "j < K"
  proof (cases "q = 0")
    case True
    with j K show ?thesis by (simp split: if_splits)
  next
    case False
    show ?thesis
    proof (cases "udiv z n w > 0xFFFF")
      case True
      with K j have "j \<le> q" by simp
      then have "N div q \<le> N div j" using j(1) by (rule div_le_mono2 [rotated])
      with test False True show ?thesis by simp
    next
      case f: False
      with K j have "j + 1 \<le> q" by simp
      have "65536 * j \<le> 65535 * (j + 1)" using \<open>j + 1 \<le> q\<close> q128 by simp
      also have "\<dots> \<le> 65535 * q" using \<open>j + 1 \<le> q\<close> by simp
      also note ge
      finally have "65536 \<le> N div j" using j(1) by (simp add: less_eq_div_iff_mult_less_eq mult.commute)
      then show ?thesis by simp
    qed
  qed
qed

lemma pwm_divider:
  fixes z clock req :: "32 word"
  defines "N \<equiv> unat clock div unat req" and "ps \<equiv> pwm_ps (pwm_pres z clock req)"
  assumes req: "req \<noteq> 0" and N: "0 < N" "N \<le> 128 * 65535"
  shows "ps \<le> 7" and "unat (udiv z (clock div 2 ^ ps) req - 1) + 1 = N div 2 ^ ps"
    and "0 < N div 2 ^ ps" and "N div 2 ^ ps \<le> 65535" and "ps = 0 \<or> 65535 < N div 2 ^ (ps - 1)"
proof -
  define K where "K = unat (pwm_pres z clock req)"
  note B = pwm_pres_bounds [OF req, where clock = clock and z = z, folded N_def K_def, OF N(2)]
  have ps: "ps = pwm_ps (of_nat K)" by (simp add: ps_def K_def)
  note L = pwm_ps_least [OF B(1), folded ps]
  show ps7: "ps \<le> 7" using L by simp
  show "N div 2 ^ ps \<le> 65535" using B(2) L by simp
  show least: "ps = 0 \<or> 65535 < N div 2 ^ (ps - 1)" using L B(3) by auto
  show pos: "0 < N div 2 ^ ps"
  proof (cases ps)
    case 0
    with N(1) show ?thesis by simp
  next
    case (Suc k)
    with least have "65535 < N div 2 ^ k" by simp
    then have "0 < N div 2 ^ k div 2" by simp
    then show ?thesis by (simp add: Suc div_mult2_eq [symmetric] mult.commute)
  qed
  have two: "unat (2 ^ ps :: 32 word) = 2 ^ ps"
  proof -
    have "(2 :: nat) ^ ps \<le> 2 ^ 7" using ps7 by (intro power_increasing) auto
    moreover have "unat (of_nat n :: 32 word) = n" if "n \<le> 2 ^ 7" for n using that by (simp add: unat_of_nat)
    ultimately have "unat (of_nat (2 ^ ps) :: 32 word) = 2 ^ ps" by blast
    then show ?thesis by simp
  qed
  have "unat (udiv z (clock div 2 ^ ps) req) = N div 2 ^ ps"
    using req by (simp add: udiv_def unat_div two N_def div_mult2_eq [symmetric] mult.commute)
  moreover from this pos have "udiv z (clock div 2 ^ ps) req \<noteq> 0" by auto
  ultimately show "unat (udiv z (clock div 2 ^ ps) req - 1) + 1 = N div 2 ^ ps"
    using pos by (simp add: unat_word_pred)
qed

lemma low_bits: "n \<le> 7 \<Longrightarrow> bits_on (of_nat n AND 0x7) (bits_off 0x7 x) AND 0x7 = (of_nat n :: 32 word)"
proof -
  assume "n \<le> 7"
  then have "n \<in> {0, 1, 2, 3, 4, 5, 6, 7}" by auto
  then have n: "(of_nat n :: 32 word) AND 0x7 = of_nat n" by (elim insertE emptyE) simp_all
  have "bits_on (a AND m) (bits_off m x) AND m = a AND m" for a m
    by (rule bit_eqI) (auto simp: bits_on_def bits_off_def bit_and_iff bit_or_iff bit_not_iff)
  with n show ?thesis by metis
qed

text \<open>The registers that determine the output after a set-up.\<close>

lemma QuickInit_regs:
  fixes z clock req :: "32 word"
  assumes "FTM_PWM_QuickInit z clock MAP mode req s = (i, s')"
  defines "ps \<equiv> pwm_ps (pwm_pres z clock req)"
  shows "i = map_ip (map_of_word MAP)"
    and "FTM_MOD (FTMS s' i) = udiv z (clock div 2 ^ ps) req - 1"
    and "ps \<le> 7 \<Longrightarrow> FTM_SC (FTMS s' i) AND 0x7 = of_nat ps"
    and "j \<noteq> i \<Longrightarrow> FTMS s' j = FTMS s j"
  using assms(1)
  by (auto simp: FTM_PWM_QuickInit_def Let_def ftm_frame InitBasic_regs low_bits ps_def)

lemma QuickInit_fits:
  fixes z clock req :: "32 word"
  assumes init: "FTM_PWM_QuickInit z clock MAP mode req s = (i, s')"
    and req: "0 < req" "req \<le> clock" "unat clock div unat req \<le> 128 * 65535"
  shows "unat (FTM_MOD (FTMS s' i)) < 65535"
proof -
  have r0: "req \<noteq> 0" and "0 < unat req" using req(1) by (auto simp: word_gt_0 word_less_nat_alt)
  then have "0 < unat clock div unat req" using req(2) by (simp add: word_le_nat_alt div_greater_zero_iff)
  note D = pwm_divider [OF r0 this req(3), where z = z]
  show ?thesis using D(2,4) QuickInit_regs(2) [OF init] by simp
qed

text \<open>
  C32 The timer runs at the frequency that was asked for: for every frequency from the clock down to
  1/8388480 of it, the prescaler is the smallest with which the period fits the sixteen-bit counter, the
  period is the longest that is not longer than asked for, and what a division by zero yields does not
  matter.
\<close>

theorem FTM_PWM_QuickInit_period:
  fixes z clock req :: "32 word"
  assumes init: "FTM_PWM_QuickInit z clock MAP mode req s = (i, s')"
    and req: "0 < req" "req \<le> clock" "unat clock div unat req \<le> 128 * 65535"
  shows "\<exists>ps\<le>7. FTM_SC (FTMS s' i) AND 0x7 = of_nat ps
    \<and> (unat (FTM_MOD (FTMS s' i)) + 1) * 2 ^ ps * unat req \<le> unat clock
    \<and> unat clock < (unat (FTM_MOD (FTMS s' i)) + 2) * 2 ^ ps * unat req
    \<and> unat (FTM_MOD (FTMS s' i)) < 65535
    \<and> (ps = 0 \<or> 65535 < unat clock div unat req div 2 ^ (ps - 1))"
proof -
  define ps where "ps = pwm_ps (pwm_pres z clock req)"
  define N where "N = unat clock div unat req"
  have r0: "req \<noteq> 0" and ru: "0 < unat req" using req(1) by (auto simp: word_gt_0 word_less_nat_alt)
  have N: "0 < N" "N \<le> 128 * 65535"
    using req ru by (simp_all add: N_def word_le_nat_alt div_greater_zero_iff)
  note D = pwm_divider [OF r0, where clock = clock and z = z, folded N_def ps_def, OF N]
  note R = QuickInit_regs [OF init, folded ps_def]
  have md: "unat (FTM_MOD (FTMS s' i)) + 1 = N div 2 ^ ps" using R(2) D(2) by simp
  have "N div 2 ^ ps = unat clock div (2 ^ ps * unat req)"
    by (simp add: N_def div_mult2_eq [symmetric] mult.commute)
  then have q: "unat clock div (2 ^ ps * unat req) = unat (FTM_MOD (FTMS s' i)) + 1" using md by simp
  have lo: "(unat (FTM_MOD (FTMS s' i)) + 1) * (2 ^ ps * unat req) \<le> unat clock"
    unfolding q [symmetric] by (rule div_times_less_eq_dividend)
  have "unat clock < (unat clock div (2 ^ ps * unat req) + 1) * (2 ^ ps * unat req)"
    using ru dividend_less_div_times [of "2 ^ ps * unat req" "unat clock"] by (simp add: add.commute)
  then have hi: "unat clock < (unat (FTM_MOD (FTMS s' i)) + 2) * (2 ^ ps * unat req)" unfolding q by simp
  show ?thesis
  proof (intro exI [of _ ps] conjI)
    show "ps \<le> 7" "FTM_SC (FTMS s' i) AND 0x7 = of_nat ps" using D(1) R(3) by simp_all
    show "(unat (FTM_MOD (FTMS s' i)) + 1) * 2 ^ ps * unat req \<le> unat clock" using lo by (simp only: mult.assoc)
    show "unat clock < (unat (FTM_MOD (FTMS s' i)) + 2) * 2 ^ ps * unat req" using hi by (simp only: mult.assoc)
    show "unat (FTM_MOD (FTMS s' i)) < 65535" using md D(4) by linarith
    show "ps = 0 \<or> 65535 < unat clock div unat req div 2 ^ (ps - 1)" using D(5) by (simp only: N_def)
  qed
qed

text \<open>The servo of the car: 300 Hz from a bus clock of 48 MHz divides by 4 and counts to 39999.\<close>

definition ex_ftm :: ftm_state where
  "ex_ftm = \<lparr>FTMS = \<lambda>_. \<lparr>FTM_SC = 0, FTM_CNT = 0, FTM_MOD = 0, FTM_CNTIN = 0, FTM_MODE = 4, FTM_SYNC = 0,
     FTM_COMBINE = 0, FTM_QDCTRL = 0, FTM_PWMLOAD = 0, FTM_CnSC = \<lambda>_. 0, FTM_CnV = \<lambda>_. 0\<rparr>,
     SIM_SCGC3 = 0, SIM_SCGC5 = 0, SIM_SCGC6 = 0, PORT_PCR = \<lambda>_ _. 0, FTM_CallBackTable = \<lambda>_. 0, NVIC_FTM = \<lambda>_. False\<rparr>"

theorem FTM_PWM_QuickInit_period_witness:
  "\<exists>s' ps. FTM_PWM_QuickInit 0 48000000 0x852c1 kPWM_EdgeAligned 300 ex_ftm = (1, s')
     \<and> (unat (FTM_MOD (FTMS s' 1)) + 1) * 2 ^ ps * 300 \<le> 48000000
     \<and> 48000000 < (unat (FTM_MOD (FTMS s' 1)) + 2) * 2 ^ ps * 300"
proof -
  obtain i s' where e: "FTM_PWM_QuickInit 0 48000000 0x852c1 kPWM_EdgeAligned 300 ex_ftm = (i, s')" by fastforce
  have "map_ip (map_of_word 0x852c1) = 1" by (simp add: map_of_word_def map_field_def)
  with QuickInit_regs(1) [OF e] e have s': "FTM_PWM_QuickInit 0 48000000 0x852c1 kPWM_EdgeAligned 300 ex_ftm = (1, s')" by simp
  from FTM_PWM_QuickInit_period [OF this] s' show ?thesis by auto
qed

subsection \<open>Start-up of motor and servo\<close>

lemma bits_off_and: "x AND m = 0 \<Longrightarrow> bits_off k x AND m = 0"
proof -
  assume x: "x AND m = 0"
  have "bits_off k x AND m = (x AND m) AND NOT k" by (simp add: bits_off_def ac_simps)
  with x show ?thesis by simp
qed

lemma SetMode_edge_combine:
  assumes "FTM_COMBINE (FTMS s i) AND m = 0"
  shows "FTM_COMBINE (FTMS (FTM_SetMode i c kFTM_Mode_EdgeAligned s) i) AND m = 0"
  using assms
  by (simp add: FTM_SetMode.simps dual_all_def FTM_DualChlConfig_def bits_set_def ftm_defs FTM_PWM_InvertPolarity_def bits_off_and)

lemma QuickInit_edge_combine:
  assumes "FTM_PWM_QuickInit z clock MAP kPWM_EdgeAligned req s = (i, s')" and "FTM_COMBINE (FTMS s i) AND m = 0"
  shows "FTM_COMBINE (FTMS s' i) AND m = 0"
  using assms
  by (auto simp: FTM_PWM_QuickInit_def Let_def ftm_frame InitBasic_regs intro!: SetMode_edge_combine)

lemma ChangeDuty_single:
  assumes "FTM_COMBINE (F i) AND FTM_COMBINE_MASK = 0"
  shows "FTM_CnV (FTM_PWM_ChangeDuty i c d F i) = (FTM_CnV (F i))(c := FTM_MOD (F i) * d div 10000)"
  using assms by (simp add: FTM_PWM_ChangeDuty_def Let_def)

lemma map_ip_bits: "map_ip (map_of_word w) = unat (take_bit 3 w)"
  by (simp add: map_of_word_def map_field_def)

lemma map_ips: "map_ip (map_of_word FTM0_CH3_PC04) = 0" "map_ip (map_of_word FTM0_CH2_PC03) = 0"
  "map_ip (map_of_word FTM1_CH1_PA09) = 1"
  unfolding map_ip_bits by simp_all

text \<open>After the start-up the motor is off, and both timers count to less than 65536.\<close>

lemma speedInit_regs:
  assumes clock: "10000 \<le> clock" "clock \<le> 200000000"
    and reset: "FTM_COMBINE (FTMS s 0) AND FTM_COMBINE_MASK = 0" "FTM_COMBINE (FTMS s 1) AND FTM_COMBINE_MASK = 0"
  shows "FTM_CnV (FTMS (speedInit z clock s) 0) 2 = 0 \<and> FTM_CnV (FTMS (speedInit z clock s) 0) 3 = 0
    \<and> FTM_COMBINE (FTMS (speedInit z clock s) 0) AND FTM_COMBINE_MASK = 0
    \<and> unat (FTM_MOD (FTMS (speedInit z clock s) 0)) < 65535
    \<and> FTM_CnV (FTMS (speedInit z clock s) 1) 1 = FTM_MOD (FTMS (speedInit z clock s) 1) * 2000 div 10000
    \<and> FTM_COMBINE (FTMS (speedInit z clock s) 1) AND FTM_COMBINE_MASK = 0
    \<and> unat (FTM_MOD (FTMS (speedInit z clock s) 1)) < 65535"
proof -
  obtain i1 s1 where 1: "FTM_PWM_QuickInit z clock FTM0_CH3_PC04 kPWM_EdgeAligned 10000 s = (i1, s1)" by fastforce
  obtain i2 s2 where 2: "FTM_PWM_QuickInit z clock FTM0_CH2_PC03 kPWM_EdgeAligned 10000 s1 = (i2, s2)" by fastforce
  obtain i3 s3 where 3: "FTM_PWM_QuickInit z clock FTM1_CH1_PA09 kPWM_EdgeAligned 300 s2 = (i3, s3)" by fastforce
  have i: "i1 = 0" "i2 = 0" "i3 = 1"
    using QuickInit_regs(1) [OF 1] QuickInit_regs(1) [OF 2] QuickInit_regs(1) [OF 3] map_ips by simp_all
  note 1 = 1 [unfolded i] and 2 = 2 [unfolded i] and 3 = 3 [unfolded i]
  have c: "10000 \<le> unat clock" "unat clock \<le> 200000000" using clock by (simp_all add: word_le_nat_alt)
  have N: "unat clock div unat (10000 :: 32 word) \<le> 128 * 65535" "unat clock div unat (300 :: 32 word) \<le> 128 * 65535"
    "(300 :: 32 word) \<le> clock"
    using c by (simp_all add: word_le_nat_alt)
  have "unat (FTM_MOD (FTMS s2 0)) < 65535" "unat (FTM_MOD (FTMS s3 1)) < 65535"
    using QuickInit_fits [OF 2 _ clock(1) N(1)] QuickInit_fits [OF 3 _ N(3) N(2)] by simp_all
  moreover have "FTM_COMBINE (FTMS s3 0) AND FTM_COMBINE_MASK = 0"
    using QuickInit_edge_combine [OF 2] QuickInit_edge_combine [OF 1] reset(1) QuickInit_regs(4) [OF 3, of 0] by simp
  moreover have "FTM_COMBINE (FTMS s3 1) AND FTM_COMBINE_MASK = 0"
    using QuickInit_edge_combine [OF 3] QuickInit_regs(4) [OF 2, of 1] QuickInit_regs(4) [OF 1, of 1] reset(2) by simp
  moreover have "FTMS s3 0 = FTMS s2 0" using QuickInit_regs(4) [OF 3, of 0] by simp
  moreover have "FTMS (speedInit z clock s)
      = FTM_PWM_ChangeDuty 1 1 2000 (FTM_PWM_ChangeDuty 0 2 0 (FTM_PWM_ChangeDuty 0 3 0 (FTMS s3)))"
    by (simp add: speedInit_def 1 2 3)
  ultimately show ?thesis
    by (simp add: ftm_frame ChangeDuty_single)
qed

end
