(* ===== verification/App_Control.thy ===== *)
theory App_Control
  imports App_Flash App_Sensors FTM_Driver "HOL-Library.Monad_Syntax"
begin

text \<open>
  Speed and steering control (\<open>CTRL/ctrl.c\<close>), which ends in a write of the duty cycle
  (\<open>FTM_PWM_ChangeDuty\<close> of \<open>FTM_Driver\<close>), and the bodies of the two control tasks of \<open>app.c\<close>.
  \<open>int16_t\<close> variables hold integers of their range and wrap on assignment; a conversion of a
  float that is out of range, or an \<open>int\<close> sum that overflows, is \<open>None\<close>.
\<close>

record ctrl_state =
  ctrl_result :: int
  LastSpeedCut0 :: int
  LastSpeedCut1 :: int
  LastSpeedCut2 :: int
  SpeedLastPWMK :: int
  spe :: int
  MEDIAN :: int
  resultturn :: int
  old_resulturn :: int
  ctrl_error :: "nat \<Rightarrow> c_float"
  ENCODE :: int
  FTM :: "nat \<Rightarrow> ftm"

definition s16 :: "int \<Rightarrow> int" where
  "s16 n = sint (word_of_int n :: 16 word)"

definition chk32 :: "int \<Rightarrow> int option" where
  "chk32 n = (if - (2 ^ 31) \<le> n \<and> n < 2 ^ 31 then Some n else None)"

abbreviation (input) i32 :: "int \<Rightarrow> c_float" where "i32 \<equiv> f_of_int f32"

subsection \<open>The PWM outputs\<close>

definition set_duty :: "nat \<Rightarrow> nat \<Rightarrow> 32 word \<Rightarrow> ctrl_state \<Rightarrow> ctrl_state" where
  "set_duty instn chl duty c = c\<lparr>FTM := FTM_PWM_ChangeDuty instn chl duty (FTM c)\<rparr>"

subsection \<open>Speed\<close>

definition clamp :: "int \<Rightarrow> int \<Rightarrow> int \<Rightarrow> int" where
  "clamp lo hi x = (if x > hi then hi else if x < lo then lo else x)"

text \<open>The three differences of the incremental controller, with their wrap-around.\<close>

definition speed_errors :: "settings \<Rightarrow> 32 word \<Rightarrow> ctrl_state \<Rightarrow> int \<times> int \<times> int" where
  "speed_errors st nowValue c =
     (let cut0 = s16 (uint nowValue); DSpeed = s16 (set_speed st)
      in (s16 (DSpeed - cut0), s16 (cut0 - LastSpeedCut1 c),
          s16 (LastSpeedCut2 c + cut0 - 2 * LastSpeedCut1 c)))"

definition speedPID :: "settings \<Rightarrow> 32 word \<Rightarrow> ctrl_state \<Rightarrow> ctrl_state option" where
  "speedPID st nowValue c =
     (let cut0 = s16 (uint nowValue);
          (d0, d1, d2) = speed_errors st nowValue c;
          c = c\<lparr>LastSpeedCut0 := cut0, LastSpeedCut2 := LastSpeedCut1 c\<rparr>;
          c = c\<lparr>LastSpeedCut1 := cut0\<rparr>
      in do {
        kp \<leftarrow> f_to_s16 (f_mul f32 (pid_p (speedpid st)) (i32 d0));
        let kp = clamp (- 190) 190 kp;
        ki \<leftarrow> f_to_s16 (f_mul f32 (pid_i (speedpid st)) (i32 d1));
        let ki = clamp (- 190) 190 ki;
        kd \<leftarrow> f_to_s16 (f_mul f32 (pid_d (speedpid st)) (i32 d2));
        let kd = clamp (- 190) 190 kd;
        let k = clamp (- 190) 190 (s16 (kd - ki + kp));
        let out = clamp 0 5000 (s16 (SpeedLastPWMK c + k));
        Some (c\<lparr>SpeedLastPWMK := out, ctrl_result := out\<rparr>)
      })"

definition speedCtrl :: "settings \<Rightarrow> ctrl_state \<Rightarrow> ctrl_state option" where
  "speedCtrl st c =
     do {
       c \<leftarrow> speedPID st (word_of_int (ENCODE c)) c;
       let duty = 0 + word_of_int (ctrl_result c);
       let duty = (if duty > 5000 then 5000 else duty);
       Some (set_duty 0 2 0 (set_duty 0 3 duty c))
     }"

text \<open>One period of \<open>speedStartTask\<close>: \<open>count\<close> is what the DMA channel still had to transfer.\<close>

definition speedStartTask_body :: "settings \<Rightarrow> bool \<Rightarrow> int \<Rightarrow> ctrl_state \<Rightarrow> ctrl_state option" where
  "speedStartTask_body st speedswitch count c =
     (let c = c\<lparr>ENCODE := 0x7FFF - count\<rparr>
      in if speedswitch then speedCtrl st c else Some c)"

subsection \<open>Steering\<close>

definition c_lit :: "rat \<Rightarrow> c_float" where
  "c_lit q = f_cvt f32 (f_round f64 q)"

definition hundredth :: "c_float \<Rightarrow> c_float" where
  "hundredth x = f_cvt f32 (f_mul f64 x (f_round f64 (1 / 100)))"

definition streePID :: "settings \<Rightarrow> int \<Rightarrow> ctrl_state \<Rightarrow> ctrl_state option" where
  "streePID st nowValue c =
     (let stree_p = hundredth (pid_p (streepid st));
          stree_d = hundredth (pid_d (streepid st));
          p1 = c_lit (- 2492 / 10000); p2 = c_lit (9905 / 10000);
          p3 = c_lit (1248 / 10); p4 = c_lit (- 4071 / 100);
          n = i32 nowValue;
          q1 = f_mul f32 (f_mul f32 (f_mul f32 (f_mul f32 p1 n) n) n) n;
          q2 = f_mul f32 (f_mul f32 (f_mul f32 p2 n) n) n;
          q3 = f_mul f32 (f_mul f32 p3 n) n
      in do {
        x \<leftarrow> f_to_s32 (f_add f32 (f_add f32 (f_add f32 q1 q2) q3) p4);
        let e0 = i32 x;
        Kpvalue \<leftarrow> f_to_s32 (f_mul f32 stree_p e0);
        Kdvalue \<leftarrow> f_to_s32 (f_mul f32 stree_d (f_sub f32 e0 (ctrl_error c 1)));
        t \<leftarrow> chk32 (MEDIAN c + Kpvalue);
        t \<leftarrow> chk32 (t + Kdvalue);
        Some (c\<lparr>resultturn := t, ctrl_error := (ctrl_error c)(0 := e0, 1 := e0)\<rparr>)
      })"

definition linePID :: "settings \<Rightarrow> int \<Rightarrow> ctrl_state \<Rightarrow> ctrl_state option" where
  "linePID st nowValue c =
     (let stree_p = pid_p (linepid st); stree_i = pid_i (linepid st); stree_d = pid_d (linepid st);
          e0 = i32 nowValue; e1 = ctrl_error c 1
      in do {
        pid_errsum \<leftarrow> f_to_s32 (f_add f32 (i32 0) (f_mul f32 e1 stree_i));
        t \<leftarrow> f_to_s32 (f_mul f32 stree_p e1);
        t \<leftarrow> chk32 (t + pid_errsum);
        t \<leftarrow> f_to_s32 (f_add f32 (i32 t) (f_mul f32 stree_d (f_sub f32 e1 e0)));
        Some (c\<lparr>resultturn := t, ctrl_error := (ctrl_error c)(0 := e0, 1 := e0)\<rparr>)
      })"

text \<open>The flag \<open>spe\<close> remembers on which side the line was lost.\<close>

definition line_lost :: "int \<Rightarrow> int \<Rightarrow> int \<Rightarrow> int" where
  "line_lost a3 a4 f =
     (let f = (if a3 \<ge> 200 \<and> a4 \<ge> 200 then 0 else f);
          f = (if a3 < 60 then (if f = 0 then 1 else f) else f)
      in if a4 < 60 then (if f = 0 then 2 else f) else f)"

definition ctrl :: "settings \<Rightarrow> sensors \<Rightarrow> ctrl_state \<Rightarrow> ctrl_state option" where
  "ctrl st s c =
     do {
       c \<leftarrow> (if ad3 s \<ge> 50 \<and> ad4 s \<ge> 50
            then do { n \<leftarrow> f_to_s32 (sum_diff s); streePID st n c } else Some c);
       let c = c\<lparr>spe := line_lost (ad3 s) (ad4 s) (spe c)\<rparr>;
       c \<leftarrow> (if spe c = 1 then do { t \<leftarrow> chk32 (MEDIAN c - 900); Some (c\<lparr>resultturn := t\<rparr>) }
            else if spe c = 2 then do { t \<leftarrow> chk32 (MEDIAN c + 1000); Some (c\<lparr>resultturn := t\<rparr>) }
            else Some c);
       let c = set_duty 1 1 (word_of_int (resultturn c)) c;
       Some (c\<lparr>old_resulturn := resultturn c\<rparr>)
     }"

subsection \<open>The speed controller\<close>

lemma s16_range: "- 32768 \<le> s16 n \<and> s16 n \<le> 32767"
  using sint_greater_eq [of "word_of_int n :: 16 word"] sint_less [of "word_of_int n :: 16 word"]
  by (simp add: s16_def)

lemma s16_abs: "\<bar>s16 n\<bar> < 2 ^ 24"
  using s16_range [of n] by (simp add: abs_less_iff)

lemma s16_id: "- 32768 \<le> n \<Longrightarrow> n \<le> 32767 \<Longrightarrow> s16 n = n"
  by (simp add: s16_def signed_of_int signed_take_bit_int_eq_self)

lemma clamp_range: "lo \<le> hi \<Longrightarrow> lo \<le> clamp lo hi x \<and> clamp lo hi x \<le> hi"
  by (simp add: clamp_def)

lemma clamp_abs: "0 \<le> m \<Longrightarrow> \<bar>clamp (- m) m x\<bar> \<le> m"
  by (auto simp: clamp_def abs_le_iff)

lemma clamp_near: "lo \<le> a \<Longrightarrow> a \<le> hi \<Longrightarrow> \<bar>clamp lo hi (a + k) - a\<bar> \<le> \<bar>k\<bar>"
  by (auto simp: clamp_def)

text \<open>The controller with its conversions resolved.\<close>

definition speed_out :: "int \<Rightarrow> int \<Rightarrow> int \<Rightarrow> int \<Rightarrow> int" where
  "speed_out lst kp ki kd = clamp 0 5000 (lst + clamp (- 190) 190 (clamp (- 190) 190 kd - clamp (- 190) 190 ki + clamp (- 190) 190 kp))"

lemma speed_out_range:
  assumes "0 \<le> lst" "lst \<le> 5000"
  shows "0 \<le> speed_out lst kp ki kd \<and> speed_out lst kp ki kd \<le> 5000 \<and> \<bar>speed_out lst kp ki kd - lst\<bar> \<le> 190"
proof -
  define k where "k = clamp (- 190) 190 (clamp (- 190) 190 kd - clamp (- 190) 190 ki + clamp (- 190) 190 kp)"
  have "\<bar>k\<bar> \<le> 190" unfolding k_def by (rule clamp_abs) simp
  then show ?thesis
    using clamp_near [of 0 lst 5000 k] clamp_range [of 0 5000 "lst + k"] assms by (simp add: speed_out_def flip: k_def)
qed

lemma speedPID_eq:
  assumes last: "0 \<le> SpeedLastPWMK c" "SpeedLastPWMK c \<le> 5000"
    and d: "speed_errors st now c = (d0, d1, d2)"
    and kp: "f_to_s16 (f_mul f32 (pid_p (speedpid st)) (i32 d0)) = Some kp"
    and ki: "f_to_s16 (f_mul f32 (pid_i (speedpid st)) (i32 d1)) = Some ki"
    and kd: "f_to_s16 (f_mul f32 (pid_d (speedpid st)) (i32 d2)) = Some kd"
  shows "speedPID st now c = Some (c\<lparr>LastSpeedCut0 := s16 (uint now), LastSpeedCut2 := LastSpeedCut1 c,
    LastSpeedCut1 := s16 (uint now), SpeedLastPWMK := speed_out (SpeedLastPWMK c) kp ki kd,
    ctrl_result := speed_out (SpeedLastPWMK c) kp ki kd\<rparr>)"
proof -
  define a where "a = clamp (- 190) 190 kd - clamp (- 190) 190 ki + clamp (- 190) 190 kp"
  have "\<bar>a\<bar> \<le> 570" using clamp_abs [of 190 kd] clamp_abs [of 190 ki] clamp_abs [of 190 kp] by (simp add: a_def)
  then have 1: "s16 a = a" by (intro s16_id) auto
  have "\<bar>clamp (- 190) 190 a\<bar> \<le> 190" by (rule clamp_abs) simp
  then have 2: "s16 (SpeedLastPWMK c + clamp (- 190) 190 a) = SpeedLastPWMK c + clamp (- 190) 190 a"
    using last by (intro s16_id) auto
  show ?thesis
    using 1 2 by (simp add: speedPID_def d kp ki kd Let_def speed_out_def flip: a_def)
qed

text \<open>A product of a gain and a difference that stays within \<open>int16_t\<close>.\<close>

definition fits16 :: "c_float \<Rightarrow> int \<Rightarrow> bool" where
  "fits16 k d \<longleftrightarrow> (\<exists>x. k = Fin x \<and> \<bar>x * of_int d\<bar> \<le> of_int 32767)"

lemma fits16I: "\<bar>x * of_int d\<bar> \<le> of_int 32767 \<Longrightarrow> fits16 (Fin x) d"
  by (simp add: fits16_def)

lemma fits16_to_s16:
  assumes k: "fits16 k d" and d: "\<bar>d\<bar> < 2 ^ 24"
  obtains n where "f_to_s16 (f_mul f32 k (i32 d)) = Some n"
proof -
  obtain x where x: "k = Fin x" "\<bar>x * of_int d\<bar> \<le> of_int 32767" using k by (auto simp: fits16_def)
  obtain y where y: "f_round f32 (x * of_int d) = Fin y" "\<bar>y\<bar> \<le> of_int 32767"
    by (rule f_round_bound [OF x(2)]) auto
  obtain n where "f_to_s16 (Fin y) = Some n" using f_to_int_bound [OF y(2), of "- 32768" 32767] by auto
  with that y(1) x(1) d show ?thesis by (simp add: f_of_int_32 del: f_to_int.simps)
qed

text \<open>
  C24 One step of the speed controller, with gains whose products with the differences stay within
  \<open>int16_t\<close>: it is defined, the output is between 0 and 5000 and changes by at most 190.
\<close>

theorem speedPID_bounded:
  assumes lst: "0 \<le> SpeedLastPWMK c" "SpeedLastPWMK c \<le> 5000"
    and d: "speed_errors st now c = (d0, d1, d2)"
    and fit: "fits16 (pid_p (speedpid st)) d0" "fits16 (pid_i (speedpid st)) d1" "fits16 (pid_d (speedpid st)) d2"
  shows "\<exists>c'. speedPID st now c = Some c' \<and> ctrl_result c' = SpeedLastPWMK c'
    \<and> 0 \<le> SpeedLastPWMK c' \<and> SpeedLastPWMK c' \<le> 5000 \<and> \<bar>SpeedLastPWMK c' - SpeedLastPWMK c\<bar> \<le> 190
    \<and> LastSpeedCut1 c' = s16 (uint now) \<and> LastSpeedCut2 c' = LastSpeedCut1 c"
proof -
  have r: "\<bar>d0\<bar> < 2 ^ 24" "\<bar>d1\<bar> < 2 ^ 24" "\<bar>d2\<bar> < 2 ^ 24"
    using d s16_abs by (auto simp: speed_errors_def Let_def simp del: power_numeral)
  obtain kp ki kd where "f_to_s16 (f_mul f32 (pid_p (speedpid st)) (i32 d0)) = Some kp"
      "f_to_s16 (f_mul f32 (pid_i (speedpid st)) (i32 d1)) = Some ki"
      "f_to_s16 (f_mul f32 (pid_d (speedpid st)) (i32 d2)) = Some kd"
    using fits16_to_s16 [OF fit(1) r(1)] fits16_to_s16 [OF fit(2) r(2)] fits16_to_s16 [OF fit(3) r(3)] by metis
  from speedPID_eq [OF lst d this] speed_out_range [OF lst, of kp ki kd] show ?thesis by simp
qed

text \<open>A controller at rest with zero output, and gains 10, 0.5 and 0.\<close>

definition ex_ctrl :: ctrl_state where
  "ex_ctrl = \<lparr>ctrl_result = 0, LastSpeedCut0 = 0, LastSpeedCut1 = 0, LastSpeedCut2 = 0, SpeedLastPWMK = 0,
     spe = 0, MEDIAN = 4600, resultturn = 0, old_resulturn = 0, ctrl_error = \<lambda>_. Fin 0, ENCODE = 0,
     FTM = \<lambda>_. \<lparr>FTM_SC = 0, FTM_CNT = 0, FTM_MOD = 60000, FTM_CNTIN = 0, FTM_MODE = 4, FTM_SYNC = 0, FTM_COMBINE = 0,
       FTM_QDCTRL = 0, FTM_PWMLOAD = 0, FTM_CnSC = \<lambda>_. 0, FTM_CnV = \<lambda>_. 0\<rparr>\<rparr>"

definition ex_gains :: "rat \<Rightarrow> settings" where
  "ex_gains p = ex_settings\<lparr>speedpid := \<lparr>pid_p = Fin p, pid_i = Fin (1 / 2), pid_d = Fin 0\<rparr>, set_speed := 700\<rparr>"

lemma ex_speed_errors: "speed_errors (ex_gains p) 100 ex_ctrl = (600, 100, 100)"
  by (simp add: speed_errors_def ex_gains_def ex_ctrl_def ex_settings_def s16_id)

theorem speedPID_bounded_witness:
  "\<exists>c'. speedPID (ex_gains 10) 100 ex_ctrl = Some c' \<and> SpeedLastPWMK c' \<le> 190"
proof -
  have "fits16 (pid_p (speedpid (ex_gains 10))) 600" "fits16 (pid_i (speedpid (ex_gains 10))) 100"
    "fits16 (pid_d (speedpid (ex_gains 10))) 100"
    by (simp_all add: fits16I ex_gains_def)
  from speedPID_bounded [OF _ _ ex_speed_errors this] show ?thesis by (force simp: ex_ctrl_def)
qed

text \<open>
  The clamps come after the conversion to \<open>int16_t\<close>, so they do not guard it: with the gain 60
  and the speed 600 below its target, both within what the menu accepts, the product 36000 is out
  of range and the conversion undefined.
\<close>

lemma speedPID_overflow: "speedPID (ex_gains 60) 100 ex_ctrl = None"
proof -
  have "f_round f32 36000 = Fin 36000" using f_round_int [of 36000] by simp
  then have "f_to_s16 (f_mul f32 (pid_p (speedpid (ex_gains 60))) (i32 600)) = None"
    using f_of_int_32 [of 600] by (simp add: ex_gains_def)
  then show ?thesis by (simp add: speedPID_def ex_speed_errors Let_def)
qed

subsection \<open>The motor outputs\<close>

fun speed_run :: "settings \<Rightarrow> (bool \<times> int) list \<Rightarrow> ctrl_state \<Rightarrow> ctrl_state option" where
  "speed_run st [] c = Some c"
| "speed_run st ((sw, count) # xs) c = do { c \<leftarrow> speedStartTask_body st sw count c; speed_run st xs c }"

text \<open>Channel 2 of the motor timer is off and channel 3 is on for at most half the period.\<close>

definition motor_safe :: "ctrl_state \<Rightarrow> bool" where
  "motor_safe c \<longleftrightarrow> FTM_CnV (FTM c 0) 2 = 0 \<and> 2 * uint (FTM_CnV (FTM c 0) 3) \<le> uint (FTM_MOD (FTM c 0))
     \<and> FTM_COMBINE (FTM c 0) AND FTM_COMBINE_MASK = 0 \<and> uint (FTM_MOD (FTM c 0)) < 65536"

text \<open>The start-up of the timers ends in such a state.\<close>

lemma speedInit_motor_safe:
  assumes "10000 \<le> clock" "clock \<le> 200000000"
    and "FTM_COMBINE (FTMS s 0) AND FTM_COMBINE_MASK = 0" "FTM_COMBINE (FTMS s 1) AND FTM_COMBINE_MASK = 0"
    and "FTM c = FTMS (speedInit z clock s)"
  shows "motor_safe c"
proof -
  have off: "FTM_CnV (FTM c 0) 2 = 0" "FTM_CnV (FTM c 0) 3 = 0" "FTM_COMBINE (FTM c 0) AND FTM_COMBINE_MASK = 0"
    and md: "unat (FTM_MOD (FTM c 0)) < 65535"
    using speedInit_regs [OF assms(1-4), of z, folded assms(5)] by blast+
  have "uint (FTM_MOD (FTM c 0)) < 65536" using md uint_nat [of "FTM_MOD (FTM c 0)"] by linarith
  with off show ?thesis by (simp add: motor_safe_def)
qed

lemma duty_half:
  assumes m: "uint (m :: 32 word) < 65536" and d: "d \<le> (5000 :: 32 word)"
  shows "2 * uint (m * d div 10000) \<le> uint m"
proof -
  have d': "uint d \<le> 5000" using d by (simp add: word_le_def)
  have "uint m * uint d \<le> 65535 * 5000" using m d' by (intro mult_mono) auto
  then have "uint (m * d) = uint m * uint d" by (simp add: uint_word_ariths)
  then have "uint (m * d div 10000) = uint m * uint d div 10000" by (simp add: uint_div)
  moreover have "uint m * uint d \<le> uint m * 5000" using d' by (intro mult_left_mono) auto
  ultimately show ?thesis by linarith
qed

lemma speedCtrl_safe:
  assumes "motor_safe c" and "speedCtrl st c = Some c'"
  shows "motor_safe c'"
proof -
  obtain c1 where c1: "speedPID st (word_of_int (ENCODE c)) c = Some c1" using assms(2)
    by (auto simp: speedCtrl_def split: bind_splits)
  then have F: "FTM c1 = FTM c"
    by (auto simp: speedPID_def Let_def split: bind_splits prod.splits)
  define duty :: "32 word" where "duty = (if 0 + word_of_int (ctrl_result c1) > (5000 :: 32 word) then 5000 else 0 + word_of_int (ctrl_result c1))"
  have d: "duty \<le> 5000" by (simp add: duty_def not_less)
  have c': "c' = set_duty 0 2 0 (set_duty 0 3 duty c1)"
    using assms(2) c1 by (auto simp: speedCtrl_def duty_def Let_def)
  show ?thesis
    using assms(1) duty_half [OF _ d] by (simp add: motor_safe_def c' set_duty_def FTM_PWM_ChangeDuty_def F Let_def)
qed



subsection \<open>Losing the line\<close>

fun ctrl_run :: "settings \<Rightarrow> sensors list \<Rightarrow> ctrl_state \<Rightarrow> ctrl_state option" where
  "ctrl_run st [] c = Some c"
| "ctrl_run st (s # ss) c = do { c \<leftarrow> ctrl st s c; ctrl_run st ss c }"

lemma line_lost_range: "f \<in> {0, 1, 2} \<Longrightarrow> line_lost a3 a4 f \<in> {0, 1, 2}"
  by (auto simp: line_lost_def Let_def)

lemma line_lost_zero: "line_lost a3 a4 f = 0 \<longleftrightarrow> a3 \<ge> 60 \<and> a4 \<ge> 60 \<and> (a3 \<ge> 200 \<and> a4 \<ge> 200 \<or> f = 0)"
  by (auto simp: line_lost_def Let_def)

definition lost_side :: "int \<Rightarrow> int \<Rightarrow> int" where
  "lost_side a3 f = (if f \<noteq> 0 then f else if a3 < 60 then 1 else 2)"

text \<open>Full lock to the remembered side.\<close>

definition lost_turn :: "int \<Rightarrow> int" where
  "lost_turn f = (if f = 1 then 3700 else 5600)"

lemma ctrl_lost_step:
  assumes med: "MEDIAN c = 4600" and f: "spe c \<in> {0, 1, 2}" and lost: "ad3 s < 50 \<or> ad4 s < 50"
  shows "\<exists>c'. ctrl st s c = Some c' \<and> MEDIAN c' = 4600 \<and> spe c' = lost_side (ad3 s) (spe c)
    \<and> resultturn c' = lost_turn (spe c') \<and> old_resulturn c' = resultturn c'
    \<and> FTM c' = FTM_PWM_ChangeDuty 1 1 (word_of_int (lost_turn (spe c'))) (FTM c)"
proof -
  have n: "\<not> (50 \<le> ad3 s \<and> 50 \<le> ad4 s)" using lost by auto
  have l: "line_lost (ad3 s) (ad4 s) (spe c) = lost_side (ad3 s) (spe c)"
    using lost by (auto simp: line_lost_def lost_side_def Let_def)
  then have "lost_side (ad3 s) (spe c) = 1 \<or> lost_side (ad3 s) (spe c) = 2"
    using f by (auto simp: lost_side_def)
  then show ?thesis
    using n med by (auto simp: ctrl_def l Let_def chk32_def lost_turn_def set_duty_def)
qed

text \<open>
  C26 While one of the two sensors has lost the line the steering holds full lock: the controller
  returns, keeps the side on which the line was lost first, and writes the lock of that side to
  the servo in every period, whatever the other readings are.
\<close>

theorem ctrl_line_lost:
  assumes med: "MEDIAN c = 4600" and f: "spe c \<in> {0, 1, 2}"
    and lost: "\<forall>s \<in> set (s0 # ss). ad3 s < 50 \<or> ad4 s < 50"
  shows "\<exists>c'. ctrl_run st (s0 # ss) c = Some c' \<and> spe c' = lost_side (ad3 s0) (spe c)
    \<and> resultturn c' = lost_turn (spe c')
    \<and> (FTM_COMBINE (FTM c 1) AND FTM_COMBINE_MASK = 0 \<longrightarrow>
         FTM_CnV (FTM c' 1) 1 = FTM_MOD (FTM c 1) * word_of_int (lost_turn (spe c')) div 10000)"
  using med f lost
proof (induction ss arbitrary: s0 c)
  case Nil
  then obtain c' where "ctrl st s0 c = Some c'" "spe c' = lost_side (ad3 s0) (spe c)"
      "resultturn c' = lost_turn (spe c')" "FTM c' = FTM_PWM_ChangeDuty 1 1 (word_of_int (lost_turn (spe c'))) (FTM c)"
    using ctrl_lost_step by force
  then show ?case by (auto simp: FTM_PWM_ChangeDuty_def Let_def)
next
  case (Cons s1 ss)
  obtain c1 where c1: "ctrl st s0 c = Some c1" "MEDIAN c1 = 4600" "spe c1 = lost_side (ad3 s0) (spe c)"
      "FTM c1 = FTM_PWM_ChangeDuty 1 1 (word_of_int (lost_turn (spe c1))) (FTM c)"
    using ctrl_lost_step [OF Cons.prems(1,2)] Cons.prems(3) by force
  have "spe c1 \<in> {0, 1, 2}" using c1(3) Cons.prems(2) by (auto simp: lost_side_def)
  moreover have "\<forall>s \<in> set (s1 # ss). ad3 s < 50 \<or> ad4 s < 50" using Cons.prems(3) by simp
  ultimately obtain c' where c': "ctrl_run st (s1 # ss) c1 = Some c'" "spe c' = lost_side (ad3 s1) (spe c1)"
      "resultturn c' = lost_turn (spe c')"
      "FTM_COMBINE (FTM c1 1) AND FTM_COMBINE_MASK = 0 \<longrightarrow>
         FTM_CnV (FTM c' 1) 1 = FTM_MOD (FTM c1 1) * word_of_int (lost_turn (spe c')) div 10000"
    using Cons.IH [OF c1(2)] by blast
  have "spe c1 \<noteq> 0" using c1(3) by (auto simp: lost_side_def)
  then have "spe c' = lost_side (ad3 s0) (spe c)" using c'(2) c1(3) by (simp add: lost_side_def)
  moreover have "FTM_COMBINE (FTM c1 1) = FTM_COMBINE (FTM c 1)" "FTM_MOD (FTM c1 1) = FTM_MOD (FTM c 1)"
    unfolding c1(4) by (simp_all add: FTM_PWM_ChangeDuty_def Let_def)
  ultimately show ?case using c' c1(1) by simp
qed

theorem ctrl_line_lost_witness:
  "\<exists>c'. ctrl_run (ex_gains 10) [sensors_init\<lparr>ad3 := 30, ad4 := 400\<rparr>, sensors_init\<lparr>ad3 := 150, ad4 := 20\<rparr>] ex_ctrl = Some c'
     \<and> spe c' = 1 \<and> resultturn c' = 3700"
proof -
  have "\<forall>s \<in> set [sensors_init\<lparr>ad3 := 30, ad4 := 400\<rparr>, sensors_init\<lparr>ad3 := 150, ad4 := 20\<rparr>]. ad3 s < 50 \<or> ad4 s < 50"
    by (simp add: sensors_init_def)
  from ctrl_line_lost [OF _ _ this, of ex_ctrl "ex_gains 10"] show ?thesis
    by (auto simp: ex_ctrl_def lost_side_def lost_turn_def sensors_init_def)
qed

end
