(* ===== verification/App_Boot.thy ===== *)
theory App_Boot
  imports OS_Init App_Control
begin

text \<open>
  The program from reset to its running tasks: \<open>main\<close> (\<open>src/src/main.c\<close>), the start task
  \<open>AppStartTast\<close> with the five tasks it creates, and the bodies of the steering and Bluetooth tasks
  (\<open>app.c\<close>).  The addresses of the task functions and of the stacks, and the state of the memory at
  reset, are arguments.  The set-up of the hardware in \<open>allInit\<close> and of the tick interrupt writes
  registers only and is left out.
\<close>

subsection \<open>The start task\<close>

abbreviation (input) TASK_STK_SIZE :: nat where "TASK_STK_SIZE \<equiv> 128"
abbreviation (input) UI_STK_SIZE :: nat where "UI_STK_SIZE \<equiv> 2048"
abbreviation (input) KEY_STK_SIZE :: nat where "KEY_STK_SIZE \<equiv> 128"
abbreviation (input) AD_STK_SIZE :: nat where "AD_STK_SIZE \<equiv> 128"
abbreviation (input) SPEED_STK_SIZE :: nat where "SPEED_STK_SIZE \<equiv> 128"
abbreviation (input) TURN_STK_SIZE :: nat where "TURN_STK_SIZE \<equiv> 128"

abbreviation (input) APP_START_TASK_PRIO :: nat where "APP_START_TASK_PRIO \<equiv> 4"
abbreviation (input) APP_UI_PRIO :: nat where "APP_UI_PRIO \<equiv> 9"
abbreviation (input) APP_KEY_PRIO :: nat where "APP_KEY_PRIO \<equiv> 8"
abbreviation (input) APP_AD_PRIO :: nat where "APP_AD_PRIO \<equiv> 5"
abbreviation (input) APP_SPEED_PRIO :: nat where "APP_SPEED_PRIO \<equiv> 6"
abbreviation (input) APP_TURN_PRIO :: nat where "APP_TURN_PRIO \<equiv> 7"

record app_env = boot_env +
  start_fn :: INT32U
  ui_fn :: INT32U
  key_fn :: INT32U
  ad_fn :: INT32U
  speed_fn :: INT32U
  turn_fn :: INT32U
  APP_START_STK :: ptr
  APP_UI_STK :: ptr
  APP_KEY_STK :: ptr
  APP_AD_STK :: ptr
  APP_SPEED_STK :: ptr
  APP_TURN_STK :: ptr

text \<open>The address of the last element of an array of words.\<close>

definition last_elem :: "ptr \<Rightarrow> nat \<Rightarrow> ptr" where
  "last_elem stk n = stk + 4 * (n - 1)"

definition AppStartTast_create :: "app_env \<Rightarrow> os_state \<Rightarrow> os_state" where
  "AppStartTast_create env s =
     (let ret = ret_fn env;
          s = snd (OSTaskCreate ret (ui_fn env) 0 (last_elem (APP_UI_STK env) UI_STK_SIZE) APP_UI_PRIO s);
          s = snd (OSTaskCreate ret (key_fn env) 0 (last_elem (APP_KEY_STK env) KEY_STK_SIZE) APP_KEY_PRIO s);
          s = snd (OSTaskCreate ret (ad_fn env) 0 (last_elem (APP_AD_STK env) AD_STK_SIZE) APP_AD_PRIO s);
          s = snd (OSTaskCreate ret (speed_fn env) 0 (last_elem (APP_SPEED_STK env) SPEED_STK_SIZE) APP_SPEED_PRIO s)
      in snd (OSTaskCreate ret (turn_fn env) 0 (last_elem (APP_TURN_STK env) TURN_STK_SIZE) APP_TURN_PRIO s))"

text \<open>One turn of the loop at the end of the start task.\<close>

definition AppStartTast_loop :: "os_state \<Rightarrow> os_state" where
  "AppStartTast_loop s = snd (OSTaskSuspend APP_START_TASK_PRIO s)"

definition AppStartTast :: "app_env \<Rightarrow> os_state \<Rightarrow> os_state" where
  "AppStartTast env s = AppStartTast_loop (AppStartTast_create env s)"

definition main :: "app_env \<Rightarrow> os_state \<Rightarrow> os_state" where
  "main env s =
     (let s = OSInit (boot_env.truncate env) s;
          s = snd (OSTaskCreate (ret_fn env) (start_fn env) 0 (last_elem (APP_START_STK env) TASK_STK_SIZE)
                APP_START_TASK_PRIO s)
      in OSStart s)"

subsection \<open>The steering and the Bluetooth task\<close>

definition TurnStartTask_body :: "settings \<Rightarrow> sensors \<Rightarrow> ctrl_state \<Rightarrow> os_state \<Rightarrow> (ctrl_state \<times> os_state) option" where
  "TurnStartTask_body cfg sen c s = map_option (\<lambda>c'. (c', snd (OSTimeDlyHMSM 0 0 0 5 s))) (ctrl cfg sen c)"

text \<open>The packet of twelve bytes; a conversion to \<open>unsigned char\<close> keeps the low eight bits.\<close>

definition bt_packet :: "sensors \<Rightarrow> nat \<Rightarrow> 8 word" where
  "bt_packet sen =
     (let num0 = ad1 sen; num1 = ad3 sen; num2 = (0::int); num3 = (0::int)
      in (\<lambda>_. 0)(0 := 0x53,
           1 := of_int (num0 div 2 ^ 8), 2 := of_int num0, 3 := of_int (num1 div 2 ^ 8), 4 := of_int num1,
           5 := of_int (num2 div 2 ^ 8), 6 := of_int num2, 7 := of_int (num3 div 2 ^ 8), 8 := of_int num3))"

definition bt_verify :: "(nat \<Rightarrow> 8 word) \<Rightarrow> 8 word" where
  "bt_verify buf = foldl (\<lambda>v i. if buf i \<noteq> 0 then push_bit 1 v OR 1 else push_bit 1 v OR 0) 0 [1..<9]"

text \<open>One turn of the task: the packet, the byte written to the serial line, the delay.\<close>

definition BluetoothStartTask_body :: "(nat \<Rightarrow> 8 word) \<Rightarrow> os_state \<Rightarrow> 8 word \<times> (nat \<Rightarrow> 8 word) \<times> os_state" where
  "BluetoothStartTask_body buf s =
     (let verify1 = bt_verify buf; verify2 = bt_verify buf;
          buf = buf(9 := verify1, 10 := verify1, 11 := 0x45)
      in (buf 9, buf, snd (OSTimeDlyHMSM 0 0 0 10 s)))"

subsection \<open>Creating a task while the kernel runs\<close>

definition run_ok :: "os_state \<Rightarrow> nat list \<Rightarrow> ptr list \<Rightarrow> bool" where
  "run_ok s ps xs \<longleftrightarrow> kernel_ok s \<and> tcb_list s ps \<and> free_tcbs s xs
     \<and> OSRunning s \<and> OSIntNesting s = 0 \<and> OSLockNesting s = 0"

lemma run_ok_cur:
  assumes ok: "run_ok s ps xs" and m: "rdy s m" "\<And>q. rdy s q \<Longrightarrow> m \<le> q"
  shows "OSPrioCur s = m"
proof -
  have "rdy s (OSPrioCur s)" "OSPrioCur s \<le> m"
    using ok m(1) kernel_okD(4) [of s] by (auto simp: run_ok_def sched_ok_def)
  with m(2) [of "OSPrioCur s"] show ?thesis by simp
qed

lemma OS_TCBInit_prios:
  assumes "OS_TCBInit p ptos pbos ident sz pext opt s = (err, s')" and "q \<noteq> p"
  shows "OSTCBPrioTbl s' q = OSTCBPrioTbl s q"
  using assms
  by (auto simp: OS_TCBInit_def tcb_alloc_def Let_def tcb_rdy_def upd_tcb_def set_rdy_map_def split: if_splits)

lemma run_create:
  fixes ret task arg ptos
  assumes ok: "run_ok s ps (x # xs)" and p: "p < OS_LOWEST_PRIO" "OSTCBPrioTbl s p = NULL"
  defines "s' \<equiv> snd (OSTaskCreate ret task arg ptos p s)"
  shows "run_ok s' (p # ps) xs" and "\<And>q. rdy s' q \<longleftrightarrow> q = p \<or> rdy s q"
    and "\<And>q. q \<noteq> p \<Longrightarrow> OSTCBPrioTbl s' q = OSTCBPrioTbl s q" and "OSTaskCtr s' = OSTaskCtr s + 1"
    and "OSTCBStkPtr (task_at s' p) = ptos - 60"
proof -
  note R = ok [unfolded run_ok_def]
  obtain err where c: "OSTaskCreate ret task arg ptos p s = (err, s')" unfolding s'_def by (metis prod.collapse)
  have C: "err = OS_ERR_NONE" "kernel_ok s'" "tcb_list s' (p # ps)" "free_tcbs s' xs" "OSTaskCtr s' = OSTaskCtr s + 1"
      "\<And>q. rdy s' q \<longleftrightarrow> q = p \<or> rdy s q" "OSTCBStkPtr (task_at s' p) = ptos - 60"
    using OSTaskCreate_ok [OF _ _ _ _ p _ c] R by blast+
  obtain psp s2 where i: "OSTaskStkInit ret task arg ptos (s\<lparr>OSTCBPrioTbl := (OSTCBPrioTbl s)(p := OS_TCB_RESERVED)\<rparr>) = (psp, s2)"
    by fastforce
  obtain w where s2: "s2 = s\<lparr>OSTCBPrioTbl := (OSTCBPrioTbl s)(p := OS_TCB_RESERVED), stk_words := w\<rparr>"
    using OSTaskStkInit_words [of ret task arg ptos "s\<lparr>OSTCBPrioTbl := (OSTCBPrioTbl s)(p := OS_TCB_RESERVED)\<rparr>"] i by auto
  obtain e3 s3 where t: "OS_TCBInit p psp NULL 0 0 NULL 0 s2 = (e3, s3)" by fastforce
  note T = task_onlyD [OF OS_TCBInit_only [OF t]]
  have e: "s' = OS_Sched s3"
    using c p i t T(5) R C(1) unfolding OSTaskCreate_def by (auto simp: Let_def s2 split: if_splits)
  show "run_ok s' (p # ps) xs" using C(2,3,4) R T by (simp add: run_ok_def e s2)
  show "rdy s' q \<longleftrightarrow> q = p \<or> rdy s q" for q by (rule C(6))
  show "OSTCBPrioTbl s' q = OSTCBPrioTbl s q" if "q \<noteq> p" for q
    using OS_TCBInit_prios [OF t that] that by (simp add: e s2)
  show "OSTaskCtr s' = OSTaskCtr s + 1" "OSTCBStkPtr (task_at s' p) = ptos - 60" by (rule C(5), rule C(7))
qed

subsection \<open>Blocking and suspending keep the task list\<close>

lemma run_frame:
  assumes ok: "run_ok s ps xs" and k: "kernel_ok s'" and pt: "OSTCBPrioTbl s' = OSTCBPrioTbl s"
    and l: "\<And>t. OSTCBNext (OSTCBTbl s' t) = OSTCBNext (OSTCBTbl s t) \<and> OSTCBPrev (OSTCBTbl s' t) = OSTCBPrev (OSTCBTbl s t)"
    and h: "OSTCBList s' = OSTCBList s" "OSTCBFreeList s' = OSTCBFreeList s"
    and n: "OSRunning s' = OSRunning s" "OSIntNesting s' = OSIntNesting s" "OSLockNesting s' = OSLockNesting s"
  shows "run_ok s' ps xs"
proof -
  have "tcb_list s' ps = tcb_list s ps" by (rule tcb_list_cong) (simp_all add: pt is_task_def l h)
  moreover have "free_tcbs s' xs = free_tcbs s xs" by (simp add: free_tcbs_def tcb_pool_def is_task_def pt l h)
  ultimately show ?thesis using ok k n by (simp add: run_ok_def)
qed

lemma run_sem_wait:
  assumes ok: "run_ok s ps xs" and uc: "user_code s" and sem: "is_sem s e" and cnt: "OSEventCnt (OSEvents s e) = 0"
  obtains s' where "OSSemPend e timeout s = (None, s')" and "run_ok s' ps xs"
    and "\<And>q. rdy s' q \<longleftrightarrow> q \<noteq> OSPrioCur s \<and> rdy s q" and "OSTCBPrioTbl s' = OSTCBPrioTbl s"
    and "OSTaskCtr s' = OSTaskCtr s"
proof -
  note R = ok [unfolded run_ok_def]
  have cur: "is_task s (OSPrioCur s)" "OSTCBCur s = OSTCBPrioTbl s (OSPrioCur s)"
    using R kernel_okD(3) [of s] by (auto simp: cur_ok_def)
  have p: "tcb_prio_ok (OSPrioCur s) (OSTCBTbl s (OSTCBCur s))" "OSPrioCur s < 64"
    using task_prio_ok [OF kernel_okD(2) cur(1)] R cur(2) by (auto simp: task_at_def)
  define s1 where "s1 = event_block OS_STAT_SEM e timeout s"
  note eq = event_block_eq [OF p(1), of OS_STAT_SEM e timeout, folded s1_def]
  have pd: "OSSemPend e timeout s = (None, OS_Sched s1)"
    using is_semD [OF sem] R cnt by (simp add: OSSemPend_def s1_def)
  have k: "kernel_ok (OS_Sched s1)" by (rule sem_pend_refines(1) [OF _ uc _ sem pd]) (use R in simp_all)
  show ?thesis
  proof (rule that [OF pd])
    show "run_ok (OS_Sched s1) ps xs"
      by (rule run_frame [OF ok k]) (auto simp: tcb_links_Sched eq upd_tcb_def upd_event_def set_rdy_map_def)
    show "rdy (OS_Sched s1) q \<longleftrightarrow> q \<noteq> OSPrioCur s \<and> rdy s q" for q
      using p(2) by (simp add: rdy_Sched) (simp add: eq rdy_def bm_mem_del)
    show "OSTCBPrioTbl (OS_Sched s1) = OSTCBPrioTbl s" "OSTaskCtr (OS_Sched s1) = OSTaskCtr s"
      by (simp_all add: eq upd_tcb_def upd_event_def set_rdy_map_def)
  qed
qed

lemma run_suspend:
  assumes ok: "run_ok s ps xs" and t: "is_task s p" and p: "p < OS_LOWEST_PRIO"
  defines "s' \<equiv> snd (OSTaskSuspend p s)"
  shows "run_ok s' ps xs" and "\<And>q. rdy s' q \<longleftrightarrow> q \<noteq> p \<and> rdy s q"
    and "OSTCBStat (task_at s' p) = OSTCBStat (task_at s p) OR OS_STAT_SUSPEND" and "OSTaskCtr s' = OSTaskCtr s"
proof -
  note R = ok [unfolded run_ok_def]
  obtain err where c: "OSTaskSuspend p s = (err, s')" unfolding s'_def by (metis prod.collapse)
  note S = OSTaskSuspend_ok [OF _ t p c]
  define s1 where "s1 = upd_tcb (OSTCBPrioTbl s p) (\<lambda>t. t\<lparr>OSTCBStat := OSTCBStat t OR OS_STAT_SUSPEND\<rparr>) (tcb_unrdy (OSTCBPrioTbl s p) s)"
  have e: "s' = s1 \<or> s' = OS_Sched s1"
    using c t p unfolding OSTaskSuspend_def is_task_def s1_def by (auto simp: Let_def split: if_splits)
  have f1: "OSTCBPrioTbl s1 = OSTCBPrioTbl s" "OSTCBList s1 = OSTCBList s" "OSTCBFreeList s1 = OSTCBFreeList s"
    "OSRunning s1 = OSRunning s" "OSIntNesting s1 = OSIntNesting s" "OSLockNesting s1 = OSLockNesting s"
    "OSTCBNext (OSTCBTbl s1 a) = OSTCBNext (OSTCBTbl s a)" "OSTCBPrev (OSTCBTbl s1 a) = OSTCBPrev (OSTCBTbl s a)"
    "OSTaskCtr s1 = OSTaskCtr s" for a
    by (simp_all add: s1_def upd_tcb_def tcb_unrdy_def set_rdy_map_def Let_def)
  show "run_ok s' ps xs"
    by (rule run_frame [OF ok]) (use S R e in \<open>auto simp: f1 tcb_links_Sched\<close>)
  show "rdy s' q \<longleftrightarrow> q \<noteq> p \<and> rdy s q" for q using S R by (cases "q = p") blast+
  show "OSTCBStat (task_at s' p) = OSTCBStat (task_at s p) OR OS_STAT_SUSPEND" using S R by blast
  show "OSTaskCtr s' = OSTaskCtr s" using e by (auto simp: f1)
qed

subsection \<open>From reset to the running tasks\<close>

lemma create_ext_events:
  fixes ret task arg ptos p ident pbos sz pext opt s
  defines "s' \<equiv> snd (OSTaskCreateExt ret task arg ptos p ident pbos sz pext opt s)"
  shows "OSEvents s' = OSEvents s" and "OSTickStepState s' = OSTickStepState s"
proof -
  let ?s1 = "s\<lparr>OSTCBPrioTbl := (OSTCBPrioTbl s)(p := OS_TCB_RESERVED)\<rparr>"
  obtain w where c: "OS_TaskStkClr pbos sz opt ?s1 = ?s1\<lparr>stk_words := w\<rparr>" using OS_TaskStkClr_words by blast
  obtain psp s2 where i: "OSTaskStkInit ret task arg ptos (?s1\<lparr>stk_words := w\<rparr>) = (psp, s2)" by fastforce
  obtain w2 where s2: "s2 = ?s1\<lparr>stk_words := w2\<rparr>"
    using OSTaskStkInit_words [of ret task arg ptos "?s1\<lparr>stk_words := w\<rparr>"] i by auto
  obtain e3 s3 where t: "OS_TCBInit p psp pbos ident sz pext opt s2 = (e3, s3)" by fastforce
  have e: "OSEvents s3 = OSEvents s" using task_onlyD(1) [OF OS_TCBInit_only [OF t]] by (simp add: s2)
  have "OSTickStepState s3 = OSTickStepState s2" by (subst OS_TCBInit_only [OF t, unfolded task_only_def]) simp
  then have k: "OSTickStepState s3 = OSTickStepState s" by (simp add: s2)
  have sch: "OSTickStepState (OS_Sched s) = OSTickStepState s" for s
    by (simp add: OS_Sched_def OS_SchedNew_def PendSV_Handler_def Let_def)
  show "OSEvents s' = OSEvents s" "OSTickStepState s' = OSTickStepState s"
    using c i t e k sch by (simp_all del: One_nat_def add: s'_def OSTaskCreateExt_def Let_def)
qed

lemma stk_clear_tick: "OSTickStepState (stk_clear n b s) = OSTickStepState s"
  by (induction n arbitrary: b s) simp_all

lemma name_events:
  "OSEvents (snd (OSTaskNameSet p nm s)) = OSEvents s"
  "waits (snd (OSEventNameSet e nm s)) x q = waits s x q"
  "OSTickStepState (snd (OSTaskNameSet p nm s)) = OSTickStepState s"
  "OSTickStepState (snd (OSEventNameSet e nm s)) = OSTickStepState s"
  by (auto simp: OSTaskNameSet_def OSEventNameSet_def Let_def waits_def split: option.split)

lemma sem_create_waits: "waits (snd (OSSemCreate cnt s)) x q \<Longrightarrow> waits s x q"
  by (auto simp: OSSemCreate_def event_alloc_def OS_EventWaitListInit_def Let_def waits_def split: if_splits)

lemma sem_create_tick: "OSTickStepState (snd (OSSemCreate cnt s)) = OSTickStepState s"
  by (auto simp: OSSemCreate_def event_alloc_def OS_EventWaitListInit_def Let_def upd_event_def)

lemma OSInit_tick: "OSTickStepState (OSInit env s) = OSTickStepState s"
proof -
  have sem: "OSTickStepState s' = OSTickStepState s" if "OSSemCreate cnt s = (e, s')" for cnt e s s'
    using sem_create_tick [of cnt s] that by simp
  have tmr: "OSTickStepState (OSTmr_Init env s) = OSTickStepState s" for s
    by (auto simp: OSTmr_Init_def OSTmr_InitTask_def OSTmr_InitPool_def Let_def name_events create_ext_events dest!: sem split: prod.split)
  show ?thesis
    by (simp add: OSInit_def tmr OS_InitTaskStat_def OS_InitTaskIdle_def name_events create_ext_events OS_QInit_def OS_MemInit_def
        OS_FlagInit_def OS_InitEventList_def OS_InitTCBList_def OS_InitRdyList_def OS_InitMisc_def OSInitHookBegin_def Let_def
        stk_clear_tick)
qed

lemma main_tick: "OSTickStepState (main env s) = OSTickStepState s"
proof -
  have start: "OSTickStepState (OSStart s) = OSTickStepState s" for s
    by (simp add: OSStart_def OSStartHighRdy_def PendSV_Handler_def OS_SchedNew_def Let_def)
  show ?thesis by (simp add: main_def Let_def start OSTaskCreate_Ext create_ext_events OSInit_tick)
qed

lemma OSInit_no_waits: "\<not> waits (OSInit env s) e q"
proof -
  define s1 where "s1 = OS_InitTaskStat env (OS_InitTaskIdle env (tables_init env s))"
  have "\<not> waits (tables_init env s) x q" for x using tables_init_blank [of env s] by (simp add: boot_blank_def waits_def)
  then have "\<not> waits s1 x q" for x
    by (simp add: s1_def OS_InitTaskStat_def OS_InitTaskIdle_def name_events create_ext_events waits_def)
  moreover have "waits (OSTmr_InitPool s1) x q = waits s1 x q" for x by (simp add: OSTmr_InitPool_def Let_def waits_def)
  ultimately have n: "\<not> waits (OSTmr_InitPool s1) x q" for x by simp
  obtain a s2 where c2: "OSSemCreate 1 (OSTmr_InitPool s1) = (a, s2)" by fastforce
  obtain b s3 where c3: "OSSemCreate 0 (s2\<lparr>OSTmrSem := a\<rparr>) = (b, s3)" by fastforce
  have "\<not> waits s2 x q" for x using sem_create_waits [of 1 "OSTmr_InitPool s1"] n c2 by auto
  then have "\<not> waits (s2\<lparr>OSTmrSem := a\<rparr>) x q" for x by (simp add: waits_def)
  then have "\<not> waits s3 x q" for x using sem_create_waits [of 0 "s2\<lparr>OSTmrSem := a\<rparr>"] c3 by auto
  moreover have "waits (s3\<lparr>OSTmrSemSignal := b\<rparr>) x q = waits s3 x q" for x by (simp add: waits_def)
  moreover have "OSInit env s = OSTmr_Init env s1" by (simp add: OSInit_def s1_def tables_init_def)
  moreover have "waits (snd (OSTaskNameSet p nm s)) e q = waits s e q" for p nm s by (simp add: waits_def name_events)
  moreover have "waits (snd (OSTaskCreateExt ret task arg ptos p ident pbos sz pext opt s)) e q = waits s e q"
    for ret task arg ptos p ident pbos sz pext opt s by (simp add: waits_def create_ext_events)
  ultimately show ?thesis by (simp add: OSTmr_Init_def OSTmr_InitTask_def c2 c3 Let_def name_events)
qed

lemma main_ok:
  fixes env s
  defines "s' \<equiv> main env s"
  shows "run_ok s' [4, OS_TASK_TMR_PRIO, OS_TASK_STAT_PRIO] [6..<24]"
    and "\<And>q. rdy s' q \<longleftrightarrow> q \<in> {4, OS_TASK_TMR_PRIO, OS_TASK_STAT_PRIO, OS_TASK_IDLE_PRIO}"
    and "\<And>q. q \<notin> {4, OS_TASK_TMR_PRIO, OS_TASK_STAT_PRIO, OS_TASK_IDLE_PRIO} \<Longrightarrow> OSTCBPrioTbl s' q = NULL"
    and "OSTaskCtr s' = 4" and "is_sem s' (OSTmrSemSignal s')" and "OSEventCnt (OSEvents s' (OSTmrSemSignal s')) = 0"
    and "OSPrioCur s' = OS_TASK_TMR_PRIO" and "\<And>e. \<not> waits s' e OS_TASK_TMR_PRIO"
    and "tmr_inv s' [1..<17] (\<lambda>_. [])"
proof -
  let ?b = "boot_env.truncate env"
  define s1 where "s1 = OSInit ?b s"
  note I = OSInit_ok [where env = ?b and s = s, folded s1_def]
  let ?ptos = "last_elem (APP_START_STK env) TASK_STK_SIZE"
  have pool: "[5..<24] = 5 # [6..<24]" by (rule upt_rec [THEN trans]) simp
  have free: "OSTCBPrioTbl s1 4 = NULL" by (rule I(3)) simp
  obtain err s2 where c: "OSTaskCreateExt (ret_fn env) (start_fn env) 0 ?ptos 4 0 NULL 0 NULL 0 s1 = (err, s2)" by fastforce
  note B = boot_create [OF I(1) [unfolded pool] _ free c]
  note T = task_onlyD [OF B(5)]
  have s': "s' = OSStart s2" by (simp add: s'_def main_def s1_def [symmetric] OSTaskCreate_Ext c)
  note S = OSStart_ok [OF B(2), folded s', simplified]
  have same: "rdy s' q = rdy s2 q" "OSTCBPrioTbl s' = OSTCBPrioTbl s2" for q
    using S(9) by (simp_all add: kernel_same_def rdy_def)
  show run: "run_ok s' [4, OS_TASK_TMR_PRIO, OS_TASK_STAT_PRIO] [6..<24]" using S by (simp add: run_ok_def)
  show rd: "rdy s' q \<longleftrightarrow> q \<in> {4, OS_TASK_TMR_PRIO, OS_TASK_STAT_PRIO, OS_TASK_IDLE_PRIO}" for q
    using B(3) I(2) by (auto simp: same)
  show "OSTCBPrioTbl s' q = NULL" if "q \<notin> {4, OS_TASK_TMR_PRIO, OS_TASK_STAT_PRIO, OS_TASK_IDLE_PRIO}" for q
    using B(4) I(3) that by (simp add: same)
  show "OSTaskCtr s' = 4" using B(6) I(11) 
    unfolding s' by (simp add: OSStart_def OSStartHighRdy_def PendSV_Handler_def OS_SchedNew_def Let_def)
  have ev: "OSEvents s' = OSEvents s1" "OSTmrSemSignal s' = 2" using S(10,11) T(1,14) I(5) by simp_all
  have sem: "is_sem s' x = is_sem s1 x" "sem_abs s' x = sem_abs s1 x" "waits s' x q = waits s1 x q" for x q
    by (simp_all add: ev is_sem_def sem_abs_def waiters_def waits_def)
  show "is_sem s' (OSTmrSemSignal s')" using I(7) by (simp add: sem ev)
  show "OSEventCnt (OSEvents s' (OSTmrSemSignal s')) = 0" using I(9) by (simp add: sem_abs_def ev unat_eq_0)
  show cur: "OSPrioCur s' = OS_TASK_TMR_PRIO" by (rule run_ok_cur [OF run]) (auto simp: rd)
  show "\<not> waits s' e OS_TASK_TMR_PRIO" for e using OSInit_no_waits by (simp add: sem s1_def)
  have "tmr_same s' s1" using S(12) T(6) tmr_same_trans [of s' s2 s1] by simp
  then show "tmr_inv s' [1..<17] (\<lambda>_. [])" using I(10) tmr_inv_cong by blast
qed

lemma AppStartTast_ok:
  fixes env s
  assumes ok: "run_ok s ps [6..<24]" and rd: "\<And>q. rdy s q \<longleftrightarrow> q \<in> {4, OS_TASK_STAT_PRIO, OS_TASK_IDLE_PRIO}"
    and free: "\<And>q. q \<in> {5..9} \<Longrightarrow> OSTCBPrioTbl s q = NULL" and ctr: "OSTaskCtr s = 4"
  defines "s' \<equiv> AppStartTast_create env s"
  shows "run_ok s' (7 # 6 # 5 # 8 # 9 # ps) [11..<24]"
    and "\<And>q. rdy s' q \<longleftrightarrow> q \<in> {4, 5, 6, 7, 8, 9, OS_TASK_STAT_PRIO, OS_TASK_IDLE_PRIO}"
    and "OSTaskCtr s' = 9" and "OSPrioCur s' = 4"
proof -
  have xs: "[6..<24] = 6 # 7 # 8 # 9 # 10 # [11..<24::nat]" by (simp add: upt_rec)
  let ?ret = "ret_fn env"
  define s1 where "s1 = snd (OSTaskCreate ?ret (ui_fn env) 0 (last_elem (APP_UI_STK env) UI_STK_SIZE) APP_UI_PRIO s)"
  define s2 where "s2 = snd (OSTaskCreate ?ret (key_fn env) 0 (last_elem (APP_KEY_STK env) KEY_STK_SIZE) APP_KEY_PRIO s1)"
  define s3 where "s3 = snd (OSTaskCreate ?ret (ad_fn env) 0 (last_elem (APP_AD_STK env) AD_STK_SIZE) APP_AD_PRIO s2)"
  define s4 where "s4 = snd (OSTaskCreate ?ret (speed_fn env) 0 (last_elem (APP_SPEED_STK env) SPEED_STK_SIZE) APP_SPEED_PRIO s3)"
  have s': "s' = snd (OSTaskCreate ?ret (turn_fn env) 0 (last_elem (APP_TURN_STK env) TURN_STK_SIZE) APP_TURN_PRIO s4)"
    by (simp only: s'_def AppStartTast_create_def Let_def s1_def s2_def s3_def s4_def)
  note C1 = run_create [OF ok [unfolded xs], of 9, where ret = ?ret and task = "ui_fn env" and arg = 0
      and ptos = "last_elem (APP_UI_STK env) UI_STK_SIZE", folded s1_def]
  have f: "OSTCBPrioTbl s 9 = NULL" by (rule free) simp
  note C1 = C1 [OF _ f]
  have f: "OSTCBPrioTbl s1 8 = NULL" using C1(3) free by simp
  note C2 = run_create [OF C1(1) _ f, where ret = ?ret and task = "key_fn env" and arg = 0
      and ptos = "last_elem (APP_KEY_STK env) KEY_STK_SIZE", folded s2_def, simplified]
  have f: "OSTCBPrioTbl s2 5 = NULL" using C2(3) C1(3) free by simp
  note C3 = run_create [OF C2(1) _ f, where ret = ?ret and task = "ad_fn env" and arg = 0
      and ptos = "last_elem (APP_AD_STK env) AD_STK_SIZE", folded s3_def, simplified]
  have f: "OSTCBPrioTbl s3 6 = NULL" using C3(3) C2(3) C1(3) free by simp
  note C4 = run_create [OF C3(1) _ f, where ret = ?ret and task = "speed_fn env" and arg = 0
      and ptos = "last_elem (APP_SPEED_STK env) SPEED_STK_SIZE", folded s4_def, simplified]
  have f: "OSTCBPrioTbl s4 7 = NULL" using C4(3) C3(3) C2(3) C1(3) free by simp
  note C5 = run_create [OF C4(1) _ f, where ret = ?ret and task = "turn_fn env" and arg = 0
      and ptos = "last_elem (APP_TURN_STK env) TURN_STK_SIZE", folded s', simplified]
  show run: "run_ok s' (7 # 6 # 5 # 8 # 9 # ps) [11..<24]" using C5(1) by simp
  show rd': "rdy s' q \<longleftrightarrow> q \<in> {4, 5, 6, 7, 8, 9, OS_TASK_STAT_PRIO, OS_TASK_IDLE_PRIO}" for q
    unfolding C5(2) C4(2) C3(2) C2(2) C1(2) [simplified] rd by blast
  show "OSTaskCtr s' = 9" using C5(4) C4(4) C3(4) C2(4) C1(4) ctr by simp
  show "OSPrioCur s' = 4" by (rule run_ok_cur [OF run]) (auto simp: rd')
qed

text \<open>
  C2 From reset to the running program, for every memory content and every placement of the tasks and
  stacks: \<open>main\<close> starts multitasking with the timer task; it waits for the signal of the tick and the
  start task runs; that task creates the five application tasks and suspends itself, and then the
  sampling task runs.  The kernel invariant holds throughout, nine tasks exist and are linked, and
  exactly the five application tasks, the statistics task and the idle task are ready.
\<close>

theorem system_boot:
  "\<exists>s1 s2 s3. main env s = s1 \<and> kernel_ok s1 \<and> OSPrioCur s1 = OS_TASK_TMR_PRIO
     \<and> OSTmr_Task_wait s1 = (None, s2) \<and> kernel_ok s2 \<and> OSPrioCur s2 = APP_START_TASK_PRIO
     \<and> AppStartTast env s2 = s3 \<and> kernel_ok s3 \<and> OSPrioCur s3 = APP_AD_PRIO
     \<and> {q. rdy s3 q} = {APP_AD_PRIO, APP_SPEED_PRIO, APP_TURN_PRIO, APP_KEY_PRIO, APP_UI_PRIO,
                         OS_TASK_STAT_PRIO, OS_TASK_IDLE_PRIO}
     \<and> tcb_list s3 [APP_TURN_PRIO, APP_SPEED_PRIO, APP_AD_PRIO, APP_KEY_PRIO, APP_UI_PRIO,
                      APP_START_TASK_PRIO, OS_TASK_TMR_PRIO, OS_TASK_STAT_PRIO]
     \<and> OSTCBStat (task_at s3 APP_START_TASK_PRIO) AND OS_STAT_SUSPEND = OS_STAT_SUSPEND \<and> OSTaskCtr s3 = 9"
proof -
  define s1 where "s1 = main env s"
  note M = main_ok [where env = env and s = s, folded s1_def]
  have uc: "user_code s1" using M(1,7,8) by (simp add: user_code_def run_ok_def)
  obtain s2 where w: "OSSemPend (OSTmrSemSignal s1) 0 s1 = (None, s2)" and run2: "run_ok s2 [4, OS_TASK_TMR_PRIO, OS_TASK_STAT_PRIO] [6..<24]"
    and rd2: "\<And>q. rdy s2 q \<longleftrightarrow> q \<noteq> OSPrioCur s1 \<and> rdy s1 q" and pt2: "OSTCBPrioTbl s2 = OSTCBPrioTbl s1"
    and ctr2: "OSTaskCtr s2 = OSTaskCtr s1"
    by (rule run_sem_wait [OF M(1) uc M(5,6)]) blast
  have rd: "rdy s2 q \<longleftrightarrow> q \<in> {4, OS_TASK_STAT_PRIO, OS_TASK_IDLE_PRIO}" for q using rd2 M(2,7) by auto
  have cur2: "OSPrioCur s2 = 4" by (rule run_ok_cur [OF run2]) (auto simp: rd)
  note A = AppStartTast_ok [where env = env, OF run2 rd]
  define s3 where "s3 = AppStartTast_create env s2"
  have A: "run_ok s3 [7, 6, 5, 8, 9, 4, OS_TASK_TMR_PRIO, OS_TASK_STAT_PRIO] [11..<24]"
    "\<And>q. rdy s3 q \<longleftrightarrow> q \<in> {4, 5, 6, 7, 8, 9, OS_TASK_STAT_PRIO, OS_TASK_IDLE_PRIO}" "OSTaskCtr s3 = 9"
    using A [folded s3_def] M(3,4) pt2 ctr2 by simp_all
  have "kinv s3" using A(1) kernel_okD(2) by (simp add: run_ok_def)
  then have t: "is_task s3 4" using rdy_task [of s3 4] A(2) by simp
  define s4 where "s4 = snd (OSTaskSuspend APP_START_TASK_PRIO s3)"
  note S = run_suspend [OF A(1) t, folded s4_def, simplified]
  have rd4: "rdy s4 q \<longleftrightarrow> q \<in> {5, 6, 7, 8, 9, OS_TASK_STAT_PRIO, OS_TASK_IDLE_PRIO}" for q
    unfolding S(2) A(2) by auto
  have cur4: "OSPrioCur s4 = 5" by (rule run_ok_cur [OF S(1)], unfold rd4) auto
  have stat: "OSTCBStat (task_at s4 4) AND OS_STAT_SUSPEND = OS_STAT_SUSPEND"
    by (simp add: S(3) bit.conj_disj_distrib2)
  have e: "AppStartTast env s2 = s4" by (simp add: AppStartTast_def AppStartTast_loop_def s3_def s4_def)
  have "{q. rdy s4 q} = {5, 6, 7, 8, 9, OS_TASK_STAT_PRIO, OS_TASK_IDLE_PRIO}" using rd4 by blast
  moreover have "kernel_ok s1" "kernel_ok s2" "kernel_ok s4" "tcb_list s4 [7, 6, 5, 8, 9, 4, OS_TASK_TMR_PRIO, OS_TASK_STAT_PRIO]"
    using M(1) run2 S(1) by (simp_all only: run_ok_def)
  moreover have "OSTmr_Task_wait s1 = (None, s2)" using w by (simp only: OSTmr_Task_wait_def)
  moreover have "OSTaskCtr s4 = 9" using S(4) A(3) by (simp only:)
  ultimately show ?thesis using M(7) cur2 e cur4 stat s1_def by blast
qed

end
