(* ===== verification/OS_Mbox.thy ===== *)
theory OS_Mbox
  imports Event_Services Example_System
begin

text \<open>
  Mailboxes (\<open>os_mbox.c\<close>): one message slot and a wait list.  The abstract mailbox is the content
  of the slot (null: empty) and the set of the priorities that wait for a message.
\<close>

record OS_MBOX_DATA =
  OSMsg :: ptr
  OSMboxEventTbl :: "8 word list"
  OSMboxEventGrp :: "8 word"

definition OSMboxAccept :: "ptr \<Rightarrow> os_state \<Rightarrow> ptr \<times> os_state" where
  "OSMboxAccept pevent s =
     (if pevent = NULL then (NULL, s)
      else if OSEventType (OSEvents s pevent) \<noteq> OS_EVENT_TYPE_MBOX then (NULL, s)
      else (OSEventPtr (OSEvents s pevent), upd_event pevent (\<lambda>ev. ev\<lparr>OSEventPtr := NULL\<rparr>) s))"

definition OSMboxCreate :: "ptr \<Rightarrow> os_state \<Rightarrow> ptr \<times> os_state" where
  "OSMboxCreate pmsg s =
     (if OSIntNesting s > 0 then (NULL, s)
      else (let (pevent, s1) = event_alloc s
            in (pevent,
                if pevent \<noteq> NULL
                then OS_EventWaitListInit pevent
                       (upd_event pevent (\<lambda>ev. ev\<lparr>OSEventType := OS_EVENT_TYPE_MBOX, OSEventCnt := 0,
                          OSEventPtr := pmsg, OSEventName := ''?''\<rparr>) s1)
                else s1)))"

definition OSMboxDel :: "ptr \<Rightarrow> INT8U \<Rightarrow> os_state \<Rightarrow> (ptr \<times> INT8U \<times> os_state) option" where
  "OSMboxDel pevent opt s =
     (if pevent = NULL then Some (pevent, OS_ERR_PEVENT_NULL, s)
      else if OSEventType (OSEvents s pevent) \<noteq> OS_EVENT_TYPE_MBOX then Some (pevent, OS_ERR_EVENT_TYPE, s)
      else if OSIntNesting s > 0 then Some (pevent, OS_ERR_DEL_ISR, s)
      else event_del OS_STAT_MBOX pevent opt s)"

definition OSMboxPend :: "ptr \<Rightarrow> INT32U \<Rightarrow> os_state \<Rightarrow> (ptr \<times> INT8U) option \<times> os_state" where
  "OSMboxPend pevent timeout s =
     (if pevent = NULL then (Some (NULL, OS_ERR_PEVENT_NULL), s)
      else if OSEventType (OSEvents s pevent) \<noteq> OS_EVENT_TYPE_MBOX then (Some (NULL, OS_ERR_EVENT_TYPE), s)
      else if OSIntNesting s > 0 then (Some (NULL, OS_ERR_PEND_ISR), s)
      else if OSLockNesting s > 0 then (Some (NULL, OS_ERR_PEND_LOCKED), s)
      else (let pmsg = OSEventPtr (OSEvents s pevent)
            in if pmsg \<noteq> NULL
               then (Some (pmsg, OS_ERR_NONE), upd_event pevent (\<lambda>ev. ev\<lparr>OSEventPtr := NULL\<rparr>) s)
               else (None, OS_Sched (event_block OS_STAT_MBOX pevent timeout s))))"

definition OSMboxPend_resume :: "ptr \<Rightarrow> os_state \<Rightarrow> ptr \<times> INT8U \<times> os_state" where
  "OSMboxPend_resume pevent s =
     (let msg = OSTCBMsg (OSTCBTbl s (OSTCBCur s));
          (perr, s1) = event_pend_end pevent s
      in (if perr = OS_ERR_NONE then msg else NULL, perr,
          upd_tcb (OSTCBCur s1) (\<lambda>t. t\<lparr>OSTCBMsg := NULL\<rparr>) s1))"

definition OSMboxPendAbort :: "ptr \<Rightarrow> INT8U \<Rightarrow> os_state \<Rightarrow> (INT8U \<times> INT8U \<times> os_state) option" where
  "OSMboxPendAbort pevent opt s =
     (if pevent = NULL then Some (0, OS_ERR_PEVENT_NULL, s)
      else if OSEventType (OSEvents s pevent) \<noteq> OS_EVENT_TYPE_MBOX then Some (0, OS_ERR_EVENT_TYPE, s)
      else event_pend_abort OS_STAT_MBOX pevent opt s)"

definition OSMboxPost :: "ptr \<Rightarrow> ptr \<Rightarrow> os_state \<Rightarrow> INT8U \<times> os_state" where
  "OSMboxPost pevent pmsg s =
     (if pevent = NULL then (OS_ERR_PEVENT_NULL, s)
      else if pmsg = NULL then (OS_ERR_POST_NULL_PTR, s)
      else if OSEventType (OSEvents s pevent) \<noteq> OS_EVENT_TYPE_MBOX then (OS_ERR_EVENT_TYPE, s)
      else if OSEventGrp (OSEvents s pevent) \<noteq> 0
      then (OS_ERR_NONE, OS_Sched (snd (OS_EventTaskRdy pevent pmsg OS_STAT_MBOX OS_STAT_PEND_OK s)))
      else if OSEventPtr (OSEvents s pevent) \<noteq> NULL then (OS_ERR_MBOX_FULL, s)
      else (OS_ERR_NONE, upd_event pevent (\<lambda>ev. ev\<lparr>OSEventPtr := pmsg\<rparr>) s))"

definition OSMboxPostOpt :: "ptr \<Rightarrow> ptr \<Rightarrow> INT8U \<Rightarrow> os_state \<Rightarrow> (INT8U \<times> os_state) option" where
  "OSMboxPostOpt pevent pmsg opt s =
     (if pevent = NULL then Some (OS_ERR_PEVENT_NULL, s)
      else if pmsg = NULL then Some (OS_ERR_POST_NULL_PTR, s)
      else if OSEventType (OSEvents s pevent) \<noteq> OS_EVENT_TYPE_MBOX then Some (OS_ERR_EVENT_TYPE, s)
      else if OSEventGrp (OSEvents s pevent) \<noteq> 0
      then (case if opt AND OS_POST_OPT_BROADCAST \<noteq> 0
                 then OS_EventTaskRdyAll pevent pmsg OS_STAT_MBOX OS_STAT_PEND_OK 0 s
                 else Some (0, snd (OS_EventTaskRdy pevent pmsg OS_STAT_MBOX OS_STAT_PEND_OK s)) of
              None \<Rightarrow> None
            | Some (n, s1) \<Rightarrow>
                Some (OS_ERR_NONE, if opt AND OS_POST_OPT_NO_SCHED = 0 then OS_Sched s1 else s1))
      else if OSEventPtr (OSEvents s pevent) \<noteq> NULL then Some (OS_ERR_MBOX_FULL, s)
      else Some (OS_ERR_NONE, upd_event pevent (\<lambda>ev. ev\<lparr>OSEventPtr := pmsg\<rparr>) s))"

definition OSMboxQuery :: "ptr \<Rightarrow> ptr \<Rightarrow> os_state \<Rightarrow> INT8U \<times> OS_MBOX_DATA option" where
  "OSMboxQuery pevent p_mbox_data s =
     (if pevent = NULL then (OS_ERR_PEVENT_NULL, None)
      else if p_mbox_data = NULL then (OS_ERR_PDATA_NULL, None)
      else if OSEventType (OSEvents s pevent) \<noteq> OS_EVENT_TYPE_MBOX then (OS_ERR_EVENT_TYPE, None)
      else (OS_ERR_NONE, Some \<lparr>OSMsg = OSEventPtr (OSEvents s pevent),
              OSMboxEventTbl = map (OSEventTbl (OSEvents s pevent)) [0..<8],
              OSMboxEventGrp = OSEventGrp (OSEvents s pevent)\<rparr>))"

subsection \<open>The abstract mailbox\<close>

type_synonym mbox = "ptr \<times> nat set"

definition mbox_abs :: "os_state \<Rightarrow> ptr \<Rightarrow> mbox" where
  "mbox_abs s e = (OSEventPtr (OSEvents s e), waiters s e)"

definition mbox_inv :: "mbox \<Rightarrow> bool" where
  "mbox_inv x \<longleftrightarrow> (fst x \<noteq> NULL \<longrightarrow> snd x = {})"

definition mbox_post :: "ptr \<Rightarrow> mbox \<Rightarrow> mbox" where
  "mbox_post m x = (if snd x \<noteq> {} then (fst x, snd x - {Min (snd x)})
                    else if fst x = NULL then (m, snd x) else x)"

definition mbox_pend :: "nat \<Rightarrow> mbox \<Rightarrow> mbox" where
  "mbox_pend p x = (if fst x \<noteq> NULL then (NULL, snd x) else (fst x, insert p (snd x)))"

lemma mbox_post_inv: "mbox_inv x \<Longrightarrow> mbox_inv (mbox_post m x)"
  by (auto simp: mbox_inv_def mbox_post_def)

lemma mbox_pend_inv: "mbox_inv x \<Longrightarrow> mbox_inv (mbox_pend p x)"
  by (auto simp: mbox_inv_def mbox_pend_def)

definition is_mbox :: "os_state \<Rightarrow> ptr \<Rightarrow> bool" where
  "is_mbox s e \<longleftrightarrow> e \<noteq> NULL \<and> OSEventType (OSEvents s e) = OS_EVENT_TYPE_MBOX"

lemma is_mboxD: "is_mbox s e \<Longrightarrow> e \<noteq> NULL \<and> OSEventType (OSEvents s e) = OS_EVENT_TYPE_MBOX
    \<and> event_stat (OSEventType (OSEvents s e)) = OS_STAT_MBOX"
  by (simp add: is_mbox_def)

lemma mbox_upd_ptr:
  assumes "is_mbox s e" and "kernel_ok s"
  shows "kernel_ok (upd_event e (\<lambda>ev. ev\<lparr>OSEventPtr := m\<rparr>) s)"
    and "mbox_abs (upd_event e (\<lambda>ev. ev\<lparr>OSEventPtr := m\<rparr>) s) e = (m, waiters s e)"
  using assms by (auto simp: is_mbox_def mbox_abs_def waiters_def waits_def intro: kernel_ok_upd_event)

subsection \<open>Correctness of the services\<close>

lemma OSMboxPost_ok:
  assumes ok: "kernel_ok s" and mb: "is_mbox s e" and m: "m \<noteq> NULL"
    and post: "OSMboxPost e m s = (err, s')"
  shows "kernel_ok s' \<and> mbox_abs s' e = mbox_post m (mbox_abs s e)
    \<and> err = (if waiters s e = {} \<and> fst (mbox_abs s e) \<noteq> NULL then OS_ERR_MBOX_FULL else OS_ERR_NONE)
    \<and> (waiters s e \<noteq> {} \<longrightarrow> OSTCBMsg (task_at s' (Min (waiters s e))) = m
         \<and> OSTCBStatPend (task_at s' (Min (waiters s e))) = OS_STAT_PEND_OK)"
proof (cases "waiters s e = {}")
  case True
  have grp: "OSEventGrp (OSEvents s e) = 0" using waiters_grp [OF kernel_okD(2) [OF ok], of e] True by simp
  have eq: "(err, s') = (if OSEventPtr (OSEvents s e) \<noteq> NULL then (OS_ERR_MBOX_FULL, s)
      else (OS_ERR_NONE, upd_event e (\<lambda>ev. ev\<lparr>OSEventPtr := m\<rparr>) s))"
    using post m is_mboxD [OF mb] grp by (simp add: OSMboxPost_def)
  show ?thesis
  proof (cases "OSEventPtr (OSEvents s e) = NULL")
    case null: True
    with eq mbox_upd_ptr [OF mb ok, of m] True show ?thesis
      by (simp add: mbox_post_def) (simp add: mbox_abs_def)
  next
    case False
    with eq ok True show ?thesis by (simp add: mbox_post_def mbox_abs_def)
  qed
next
  case False
  note D = is_mboxD [OF mb]
  have grp: "OSEventGrp (OSEvents s e) \<noteq> 0" using waiters_grp [OF kernel_okD(2) [OF ok], of e] False by simp
  note R = event_rdy_ok [OF kernel_okD(1) [OF ok] False _ refl refl, where msk = OS_STAT_MBOX and m = m
      and st = OS_STAT_PEND_OK]
  from post D m grp have "err = OS_ERR_NONE"
    and "s' = OS_Sched (snd (OS_EventTaskRdy e m OS_STAT_MBOX OS_STAT_PEND_OK s))"
    by (auto simp: OSMboxPost_def)
  then show ?thesis
    using R D False kernel_ok_Sched [OF R(1)]
    by (simp add: mbox_abs_def mbox_post_def task_at_Sched)
qed

text \<open>
  A post hands the message to the waiter with the highest priority, which leaves the wait list
  with it; else it fills the empty slot, else reports that the slot is full.  The slot and the wait
  list change as specified, and the kernel invariant is kept.
\<close>

lemma OSMboxPost_correct:
  assumes ok: "kernel_ok s" and mb: "is_mbox s e" and m: "m \<noteq> NULL"
    and post: "OSMboxPost e m s = (err, s')"
  shows "kernel_ok s' \<and> mbox_abs s' e = mbox_post m (mbox_abs s e)
    \<and> err = (if waiters s e = {} \<and> fst (mbox_abs s e) \<noteq> NULL then OS_ERR_MBOX_FULL else OS_ERR_NONE)
    \<and> (waiters s e \<noteq> {} \<longrightarrow> OSTCBMsg (task_at s' (Min (waiters s e))) = m
         \<and> OSTCBStatPend (task_at s' (Min (waiters s e))) = OS_STAT_PEND_OK)"
  by (rule OSMboxPost_ok [OF assms])

lemma ex_is_mbox: "is_mbox (ex_state ep) 2"
  by (simp add: is_mbox_def ex_state_def)

lemma OSMboxPost_correct_example:
  "fst (OSMboxPost 2 77 (ex_state 0)) = OS_ERR_NONE \<and> mbox_abs (snd (OSMboxPost 2 77 (ex_state 0))) 2 = (77, {})"
proof -
  have "mbox_abs (ex_state 0) 2 = (0, {})" by (simp add: mbox_abs_def ex_waiters) (simp add: ex_state_simps)
  then show ?thesis
    using OSMboxPost_correct [OF ex_kernel_ok ex_is_mbox _ surjective_pairing, of 77 0]
    by (simp add: mbox_post_def)
qed

lemma OSMboxPend_ok:
  assumes ok: "kernel_ok s" and uc: "user_code s" and lock: "OSLockNesting s = 0" and mb: "is_mbox s e"
    and pd: "OSMboxPend e timeout s = (res, s')"
  shows "kernel_ok s' \<and> mbox_abs s' e = mbox_pend (OSPrioCur s) (mbox_abs s e)
    \<and> res = (if fst (mbox_abs s e) \<noteq> NULL then Some (fst (mbox_abs s e), OS_ERR_NONE) else None)
    \<and> (res = None \<longrightarrow> \<not> rdy s' (OSPrioCur s) \<and> OSPrioCur s' \<noteq> OSPrioCur s)"
proof -
  have nest: "OSIntNesting s = 0" using uc by (simp add: user_code_def)
  note D = is_mboxD [OF mb]
  note blk = event_block_ok [OF ok uc lock _ _ _ refl, where e = e and b = OS_STAT_MBOX and timeout = timeout]
  have eq: "(res, s') = (if OSEventPtr (OSEvents s e) \<noteq> NULL
      then (Some (OSEventPtr (OSEvents s e), OS_ERR_NONE), upd_event e (\<lambda>ev. ev\<lparr>OSEventPtr := NULL\<rparr>) s)
      else (None, OS_Sched (event_block OS_STAT_MBOX e timeout s)))"
    using pd D nest lock by (simp add: OSMboxPend_def Let_def)
  show ?thesis
  proof (cases "OSEventPtr (OSEvents s e) = NULL")
    case True
    with eq blk D show ?thesis by (simp add: mbox_abs_def mbox_pend_def)
  next
    case False
    with eq mbox_upd_ptr [OF mb ok, of NULL] show ?thesis
      by (simp add: mbox_pend_def) (simp add: mbox_abs_def)
  qed
qed

text \<open>
  When the caller of a mailbox pend runs again it gets the message that was handed to it, or a
  null message with the reason (abort, timeout); it has left the wait list and is ready.
\<close>

lemma OSMboxPend_resume_correct:
  assumes ok: "kernel_ok s" and nest: "OSIntNesting s = 0" and lock: "OSLockNesting s = 0"
    and ep: "OSTCBEventPtr (task_at s (OSPrioCur s)) = e"
    and res: "OSMboxPend_resume e s = (msg, perr, s')"
  shows "kernel_ok s' \<and> (\<forall>e'. \<not> waits s' e' (OSPrioCur s)) \<and> OSPrioCur s' = OSPrioCur s
    \<and> OSTCBStat (task_at s' (OSPrioCur s)) = OS_STAT_RDY
    \<and> perr = (if OSTCBStatPend (task_at s (OSPrioCur s)) = OS_STAT_PEND_OK then OS_ERR_NONE
              else if OSTCBStatPend (task_at s (OSPrioCur s)) = OS_STAT_PEND_ABORT then OS_ERR_PEND_ABORT
              else OS_ERR_TIMEOUT)
    \<and> msg = (if perr = OS_ERR_NONE then OSTCBMsg (task_at s (OSPrioCur s)) else NULL)"
proof -
  obtain s1 where en: "event_pend_end e s = (perr, s1)"
    and s': "s' = upd_tcb (OSTCBCur s1) (\<lambda>t. t\<lparr>OSTCBMsg := NULL\<rparr>) s1"
    and msg: "msg = (if perr = OS_ERR_NONE then OSTCBMsg (OSTCBTbl s (OSTCBCur s)) else NULL)"
    using res by (auto simp: OSMboxPend_resume_def Let_def split: prod.splits)
  note E = event_pend_end_ok [OF ok nest lock ep en]
  have same: "kernel_same s' s1" by (simp add: s' kernel_same_def tcb_same_def)
  have ev: "events_ok s'"
    by (rule events_ok_cong [OF _ _ kernel_okD(5) [OF E(1)]]) (auto simp: s')
  have k: "kernel_ok s'"
    by (rule kernel_ok_cong [OF E(1) same ev]) (simp_all add: s')
  have st: "OSTCBStat (task_at s' (OSPrioCur s)) = OSTCBStat (task_at s1 (OSPrioCur s))"
    by (simp add: s' task_at_def)
  have cp: "OSTCBTbl s (OSTCBCur s) = task_at s (OSPrioCur s)"
    using kernel_okD(3) [OF ok] by (simp add: cur_ok_def task_at_def)
  have cur: "OSPrioCur s' = OSPrioCur s" using E(7) by (simp add: s')
  show ?thesis
    using k E(2,3,4) kernel_same_simps(3) [OF same] st cur unfolding msg cp by simp
qed

lemma OSMboxPend_resume_correct_example:
  "fst (snd (OSMboxPend_resume 2 (ex_state 2))) = OS_ERR_NONE \<and> kernel_ok (snd (snd (OSMboxPend_resume 2 (ex_state 2))))"
proof -
  have "OSIntNesting (ex_state 2) = 0" and "OSLockNesting (ex_state 2) = 0"
    and "OSPrioCur (ex_state 2) = 4"
    by (simp_all add: ex_state_simps)
  moreover obtain msg perr s' where r: "OSMboxPend_resume 2 (ex_state 2) = (msg, perr, s')"
    by (cases "OSMboxPend_resume 2 (ex_state 2)")
  ultimately show ?thesis
    using OSMboxPend_resume_correct [OF ex_kernel_ok _ _ _ r] by (simp add: ex_at) (simp add: ex_task_def ex_tcb_def)
qed

lemma OSMboxAccept_ok:
  assumes "kernel_ok s" and "is_mbox s e"
  shows "kernel_ok (snd (OSMboxAccept e s))" and "fst (OSMboxAccept e s) = fst (mbox_abs s e)"
    and "mbox_abs (snd (OSMboxAccept e s)) e = (NULL, waiters s e)"
  using assms mbox_upd_ptr [OF assms(2,1), of NULL] is_mboxD [OF assms(2)]
  by (simp_all add: OSMboxAccept_def) (simp add: mbox_abs_def)

text \<open>
  A broadcast post gives the message to every waiter and empties the wait list; the loop ends.
  Without the \<open>OS_POST_OPT_NO_SCHED\<close> option the task with the highest priority runs afterwards.
\<close>

lemma OSMboxPostOpt_broadcast:
  assumes ok: "kernel_ok s" and mb: "is_mbox s e" and m: "m \<noteq> NULL" and W: "waiters s e \<noteq> {}"
    and opt: "opt AND OS_POST_OPT_BROADCAST \<noteq> 0"
  shows "\<exists>s'. OSMboxPostOpt e m opt s = Some (OS_ERR_NONE, s') \<and> data_ok s' \<and> waiters s' e = {}
      \<and> (\<forall>p \<in> waiters s e. OSTCBMsg (task_at s' p) = m \<and> OSTCBStatPend (task_at s' p) = OS_STAT_PEND_OK)
      \<and> (opt AND OS_POST_OPT_NO_SCHED = 0 \<longrightarrow> kernel_ok s')"
proof -
  note D = is_mboxD [OF mb]
  have grp: "OSEventGrp (OSEvents s e) \<noteq> 0" using waiters_grp [OF kernel_okD(2) [OF ok], of e] W by simp
  obtain r where r: "OS_EventTaskRdyAll e m OS_STAT_MBOX OS_STAT_PEND_OK 0 s
      = Some (0 + of_nat (card (waiters s e)), wake_all e m OS_STAT_MBOX OS_STAT_PEND_OK r s)"
    and rok: "data_ok (wake_all e m OS_STAT_MBOX OS_STAT_PEND_OK r s)"
    using data_ok_RdyAll [OF kernel_okD(1) [OF ok], of OS_STAT_MBOX e m OS_STAT_PEND_OK 0] D by metis
  let ?s1 = "wake_all e m OS_STAT_MBOX OS_STAT_PEND_OK r s"
  have woken: "OSTCBMsg (task_at ?s1 p) = m \<and> OSTCBStatPend (task_at ?s1 p) = OS_STAT_PEND_OK"
    if "p \<in> waiters s e" for p
    using that by (auto simp: wake_all_def task_at_def wake_def)
  have k: "kernel_ok (OS_Sched ?s1)" by (rule kernel_ok_Sched [OF rok])
  show ?thesis
    using D m grp opt r rok woken k kernel_okD(1) [OF k]
    by (cases "opt AND OS_POST_OPT_NO_SCHED = 0") (simp_all add: OSMboxPostOpt_def task_at_Sched)
qed


lemma OSMboxPend_type: "OSEventType (OSEvents (snd (OSMboxPend e timeout s)) x) = OSEventType (OSEvents s x)"
  by (simp add: OSMboxPend_def event_block_def OS_EventTaskWait_def event_wait_set_def Let_def tcb_unrdy_def
      upd_event_def)

lemma OSMboxPostOpt_broadcast_example:
  "\<exists>s s'. waiters s 2 = {4} \<and> OSMboxPostOpt 2 77 OS_POST_OPT_BROADCAST s = Some (OS_ERR_NONE, s')
     \<and> kernel_ok s' \<and> waiters s' 2 = {} \<and> OSTCBMsg (task_at s' 4) = 77"
proof -
  obtain res s where pd: "OSMboxPend 2 0 (ex_state 0) = (res, s)" by fastforce
  have "OSEventPtr (OSEvents (ex_state 0) 2) = 0" "OSLockNesting (ex_state 0) = 0" "OSPrioCur (ex_state 0) = 4"
    by (simp_all add: ex_state_simps)
  moreover have "waiters (ex_state 0) 2 = {}" by (simp add: ex_waiters)
  moreover note OSMboxPend_ok [OF ex_kernel_ok ex_user_code _ ex_is_mbox pd]
  ultimately have P: "kernel_ok s" "waiters s 2 = {4}" by (simp_all add: mbox_abs_def mbox_pend_def)
  have "is_mbox s 2" using OSMboxPend_type [of 2 0 "ex_state 0" 2] ex_is_mbox [of 0] by (simp add: is_mbox_def pd)
  then show ?thesis
    using OSMboxPostOpt_broadcast [OF P(1), of 2 77 OS_POST_OPT_BROADCAST] P by auto
qed

end
