(* ===== verification/Kernel_Frame.thy ===== *)
theory Kernel_Frame
  imports App_Boot OS_Mbox OS_Queue OS_Mem
begin

text \<open>
  For the kernel as a whole: what the services for events, queues, partitions and time do not touch
  (the list of the tasks, the pool of free task blocks and the control flags), and that each of them,
  whatever its arguments, returns and keeps the kernel invariant.
\<close>

subsection \<open>What the event and time services do not touch\<close>

definition links :: "os_state \<Rightarrow> (nat \<Rightarrow> ptr) \<times> ptr \<times> ptr \<times> (ptr \<Rightarrow> ptr) \<times> (ptr \<Rightarrow> ptr) \<times> bool \<times> INT8U" where
  "links s = (OSTCBPrioTbl s, OSTCBList s, OSTCBFreeList s, (\<lambda>t. OSTCBNext (OSTCBTbl s t)),
     (\<lambda>t. OSTCBPrev (OSTCBTbl s t)), OSRunning s, OSTickStepState s)"

named_theorems links

lemma links_upd [links]:
  "links (upd_event e f s) = links s" "links (set_rdy_map b s) = links s"
  "(\<And>t. OSTCBNext (g t) = OSTCBNext t \<and> OSTCBPrev (g t) = OSTCBPrev t) \<Longrightarrow> links (upd_tcb p g s) = links s"
  by (auto simp: links_def fun_eq_iff)

lemma links_fields [links]:
  "links (s\<lparr>OSIntNesting := n\<rparr>) = links s" "links (s\<lparr>OSLockNesting := n\<rparr>) = links s" "links (s\<lparr>OSTime := t\<rparr>) = links s"
  "links (s\<lparr>OSTmrCtr := c\<rparr>) = links s" "links (s\<lparr>OSEventFreeList := e\<rparr>) = links s"
  by (simp_all add: links_def)

lemma links_Sched [links]: "links (OS_Sched s) = links s"
proof -
  have "OSTickStepState (OS_Sched s) = OSTickStepState s"
    by (simp add: OS_Sched_def OS_SchedNew_def PendSV_Handler_def Let_def)
  then show ?thesis by (simp add: links_def tcb_links_Sched)
qed

lemma links_same:
  assumes "links s' = links s"
  shows "tcb_list s' ps = tcb_list s ps" and "free_tcbs s' xs = free_tcbs s xs" and "OSRunning s' = OSRunning s"
    and "OSTickStepState s' = OSTickStepState s"
proof -
  have l: "OSTCBPrioTbl s' = OSTCBPrioTbl s" "OSTCBList s' = OSTCBList s" "OSTCBFreeList s' = OSTCBFreeList s"
    "(\<lambda>t. OSTCBNext (OSTCBTbl s' t)) = (\<lambda>t. OSTCBNext (OSTCBTbl s t))"
    "(\<lambda>t. OSTCBPrev (OSTCBTbl s' t)) = (\<lambda>t. OSTCBPrev (OSTCBTbl s t))"
    "OSRunning s' = OSRunning s" "OSTickStepState s' = OSTickStepState s"
    using assms by (simp_all add: links_def)
  show "tcb_list s' ps = tcb_list s ps" by (rule tcb_list_cong) (simp_all add: l is_task_def fun_cong [OF l(4)] fun_cong [OF l(5)])
  show "free_tcbs s' xs = free_tcbs s xs" by (simp add: free_tcbs_def tcb_pool_def is_task_def l)
  show "OSRunning s' = OSRunning s" "OSTickStepState s' = OSTickStepState s" by (fact l)+
qed

lemma links_event [links]:
  "links (OS_EventTaskRemove t e s) = links s"
  "links (event_wait_clr_multi y a b es s) = links s"
  "links (OS_EventTaskWait e s) = links s"
  "links (OS_EventWaitListInit e s) = links s"
  "links (snd (event_alloc s)) = links s" "links (event_free e s) = links s"
proof -
  show "links (event_wait_clr_multi y a b es s) = links s"
    by (induction es arbitrary: s) (simp_all add: event_wait_clr_def links)
qed (simp_all add: OS_EventTaskRemove_def event_wait_clr_def OS_EventTaskWait_def event_wait_set_def tcb_unrdy_def
      OS_EventWaitListInit_def event_alloc_def event_free_def Let_def links)

lemma links_rdy [links]: "links (snd (OS_EventTaskRdy e m msk st s)) = links s"
  by (simp add: OS_EventTaskRdy_def Let_def OS_EventTaskRemoveMulti_def tcb_rdy_def links split: option.splits)

lemma links_rdy_all: "OS_EventTaskRdyAll e m msk st n s = Some (k, s') \<Longrightarrow> links s' = links s"
proof -
  assume r: "OS_EventTaskRdyAll e m msk st n s = Some (k, s')"
  have "links (snd (k, s')) = links s"
  proof (rule OS_EventTaskRdyAll.raw_induct [where P = "\<lambda>e m msk st n s r. links (snd r) = links s", OF _ r], goal_cases)
    case (1 f e m msk st n s r)
    show ?case using 1(2) 1(1) [of e m msk st "n + 1" "snd (OS_EventTaskRdy e m msk st s)" r]
      by (auto simp: links split: if_splits)
  qed
  then show ?thesis by simp
qed

lemma links_services [links]:
  "links (event_block b e timeout s) = links s" "links (snd (event_pend_end e s)) = links s"
  "links (snd (OSSemPost e s)) = links s" "links (snd (OSSemPend e timeout s)) = links s"
  "links (snd (OSSemAccept e s)) = links s" "links (snd (OSSemSet e c s)) = links s" "links (snd (OSSemCreate c s)) = links s"
  "links (snd (OSMboxPost e m s)) = links s" "links (snd (OSMboxPend e timeout s)) = links s"
  "links (snd (snd (OSMboxPend_resume e s))) = links s" "links (snd (OSMboxAccept e s)) = links s"
proof -
  show block: "links (event_block b e timeout s) = links s" for b e timeout s by (simp add: event_block_def links)
  show pend: "links (snd (event_pend_end e s)) = links s" for e s
    by (simp add: event_pend_end_def event_unblock_def Let_def links)
  show "links (snd (OSSemPost e s)) = links s" by (simp add: OSSemPost_def links)
  show "links (snd (OSSemPend e timeout s)) = links s" by (simp add: OSSemPend_def block links)
  show "links (snd (OSSemAccept e s)) = links s" "links (snd (OSSemSet e c s)) = links s"
    by (simp_all add: OSSemAccept_def OSSemSet_def Let_def links)
  show "links (snd (OSSemCreate c s)) = links s"
    using links_event(5) [of s] by (cases "event_alloc s") (auto simp: OSSemCreate_def links)
  show "links (snd (OSMboxPost e m s)) = links s" "links (snd (OSMboxPend e timeout s)) = links s"
    "links (snd (OSMboxAccept e s)) = links s"
    by (simp_all add: OSMboxPost_def OSMboxPend_def OSMboxAccept_def Let_def block links)
  show "links (snd (snd (OSMboxPend_resume e s))) = links s"
    using pend [of e s] by (cases "event_pend_end e s") (simp add: OSMboxPend_resume_def links)
qed

lemma links_del: "event_del st e opt s = Some (r, err, s') \<Longrightarrow> links s' = links s"
  by (auto simp: event_del_def Let_def links links_rdy_all split: if_splits option.splits prod.splits)

lemma links_abort: "event_pend_abort st e opt s = Some (n, err, s') \<Longrightarrow> links s' = links s"
  by (auto simp: event_pend_abort_def links links_rdy_all split: if_splits option.splits prod.splits)

lemma links_time [links]:
  "links (dly_expire t s) = links s" "links (OSTimeDly n s) = links s" "links (snd (OSTimeDlyResume p s)) = links s"
  "links (OSSchedLock s) = links s" "links (OSSchedUnlock s) = links s" "links (OSIntEnter s) = links s"
  "links (OSTimeTickHook s) = links s" "links (tick_tcb t s) = links s"
proof -
  show dly: "links (dly_expire t s) = links s" for t s by (simp add: dly_expire_def Let_def tcb_rdy_def links)
  show "links (OSTimeDly n s) = links s" "links (snd (OSTimeDlyResume p s)) = links s" "links (tick_tcb t s) = links s"
    by (simp_all add: OSTimeDly_def OSTimeDlyResume_def tick_tcb_def tcb_unrdy_def Let_def dly links)
  show "links (OSSchedLock s) = links s" "links (OSSchedUnlock s) = links s" "links (OSIntEnter s) = links s"
    "links (OSTimeTickHook s) = links s"
    by (simp_all add: OSSchedLock_def OSSchedUnlock_def OSIntEnter_def OSTimeTickHook_def OSTmrSignal_def Let_def links)
qed

lemma links_IntExit [links]: "links (OSIntExit s) = links s"
  by (simp add: OSIntExit_eq links)

lemma links_tick_loop: "tick_loop t s = Some s' \<Longrightarrow> links s' = links s"
proof (rule tick_loop.raw_induct [where P = "\<lambda>t s s'. links s' = links s"], goal_cases)
  case (1 f t s r)
  show ?case using 1(3) 1(2) [of "OSTCBNext (OSTCBTbl (tick_tcb t s) t)" "tick_tcb t s" r]
    by (auto simp: links split: if_splits)
qed

lemma links_tick:
  assumes t: "SysTick_Handler s = Some s'" and step: "OSTickStepState s = OS_TICK_STEP_DIS"
  shows "links s' = links s"
proof -
  obtain s1 where s1: "OSTimeTick (OSIntEnter s) = Some s1" "s' = OSIntExit s1"
    using t by (auto simp: SysTick_Handler_def split: option.splits)
  define h where "h = (OSTimeTickHook (OSIntEnter s))\<lparr>OSTime := OSTime (OSTimeTickHook (OSIntEnter s)) + 1\<rparr>"
  have h: "links h = links s" by (simp add: h_def links)
  then have "OSTickStepState h = OS_TICK_STEP_DIS" using step by (simp add: links_def)
  then have "links s1 = links h"
    using s1(1) links_tick_loop [of "OSTCBList h" h s1] unfolding OSTimeTick_def Let_def h_def [symmetric] by (auto split: if_splits)
  then show ?thesis by (simp add: s1(2) links h)
qed

lemma links_task [links]:
  "links (snd (OSTaskSuspend p s)) = links s" "links (snd (OSTaskResume p s)) = links s"
  by (auto simp: OSTaskSuspend_def OSTaskResume_def tcb_unrdy_def tcb_rdy_def Let_def links split: if_splits)

subsection \<open>Every call keeps the invariant\<close>

text \<open>A call with an argument that the service refuses changes nothing.\<close>

lemma kernel_ok_sem:
  assumes ok: "kernel_ok s"
  shows "user_code s \<Longrightarrow> kernel_ok (snd (OSSemPend e timeout s))" and "kernel_ok (snd (OSSemAccept e s))"
    and "kernel_ok (snd (OSSemSet e c s))" and "kernel_ok (snd (OSSemCreate c s))"
proof -
  show "kernel_ok (snd (OSSemPend e timeout s))" if uc: "user_code s"
  proof (cases "is_sem s e \<and> OSLockNesting s = 0")
    case True
    then show ?thesis using sem_pend_refines(1) [OF ok uc _ _ surjective_pairing] by simp
  next
    case False
    then show ?thesis using ok by (auto simp: OSSemPend_def is_sem_def word_gt_0)
  qed
  show "kernel_ok (snd (OSSemAccept e s))" "kernel_ok (snd (OSSemSet e c s))"
    using OSSemAccept_ok(1) [OF ok, of e] OSSemSet_ok(1) [OF ok, of e c] ok
    by (cases "is_sem s e"; auto simp: OSSemAccept_def OSSemSet_def is_sem_def)+
  show "kernel_ok (snd (OSSemCreate c s))" by (rule OSSemCreate_ok(1) [OF ok surjective_pairing])
qed

text \<open>The loops of the delete and abort services end.\<close>

lemma event_loops_ok:
  assumes ok: "kernel_ok s" and e: "e \<noteq> NULL" and st: "stat = event_stat (OSEventType (OSEvents s e))" "stat \<noteq> 0"
  shows "\<exists>r err s'. event_del stat e opt s = Some (r, err, s') \<and> kernel_ok s' \<and> links s' = links s"
    and "\<exists>n err s'. event_pend_abort stat e opt s = Some (n, err, s') \<and> kernel_ok s' \<and> links s' = links s"
proof -
  obtain r err s' where d: "event_del stat e opt s = Some (r, err, s')" "kernel_ok s'"
    using event_del_ok [OF ok st e, of opt] by auto
  with links_del [OF d(1)] show "\<exists>r err s'. event_del stat e opt s = Some (r, err, s') \<and> kernel_ok s' \<and> links s' = links s" by auto
  obtain n err s' where d: "event_pend_abort stat e opt s = Some (n, err, s')" "kernel_ok s'"
    using event_pend_abort_ok [OF ok st(1), of opt] by auto
  with links_abort [OF d(1)] show "\<exists>n err s'. event_pend_abort stat e opt s = Some (n, err, s') \<and> kernel_ok s' \<and> links s' = links s" by auto
qed

lemma sem_loops_ok:
  assumes ok: "kernel_ok s"
  shows "\<exists>r err s'. OSSemDel e opt s = Some (r, err, s') \<and> kernel_ok s' \<and> links s' = links s"
    and "\<exists>n err s'. OSSemPendAbort e opt s = Some (n, err, s') \<and> kernel_ok s' \<and> links s' = links s"
  using event_loops_ok [OF ok, of e OS_STAT_SEM opt] ok
  by (cases "e \<noteq> NULL \<and> OSEventType (OSEvents s e) = OS_EVENT_TYPE_SEM"; auto simp: OSSemDel_def OSSemPendAbort_def)+

lemma kernel_ok_mbox:
  assumes ok: "kernel_ok s"
  shows "kernel_ok (snd (OSMboxPost e m s))" and "user_code s \<Longrightarrow> kernel_ok (snd (OSMboxPend e timeout s))"
    and "kernel_ok (snd (OSMboxAccept e s))" and "kernel_ok (snd (OSMboxCreate m s))"
proof -
  show "kernel_ok (snd (OSMboxPost e m s))"
  proof (cases "is_mbox s e \<and> m \<noteq> NULL")
    case True
    then show ?thesis using OSMboxPost_ok [OF ok _ _ surjective_pairing] by blast
  next
    case False
    then show ?thesis using ok by (auto simp: OSMboxPost_def is_mbox_def)
  qed
  show "kernel_ok (snd (OSMboxPend e timeout s))" if uc: "user_code s"
  proof (cases "is_mbox s e \<and> OSLockNesting s = 0")
    case True
    then show ?thesis using OSMboxPend_ok [OF ok uc _ _ surjective_pairing] by blast
  next
    case False
    then show ?thesis using ok by (auto simp: OSMboxPend_def is_mbox_def word_gt_0)
  qed
  show "kernel_ok (snd (OSMboxAccept e s))"
    using OSMboxAccept_ok(1) [OF ok, of e] ok by (cases "is_mbox s e") (auto simp: OSMboxAccept_def is_mbox_def)
  show "kernel_ok (snd (OSMboxCreate m s))"
  proof (cases "OSIntNesting s = 0 \<and> fst (event_alloc s) \<noteq> NULL")
    case True
    obtain e s1 where al: "event_alloc s = (e, s1)" by fastforce
    show ?thesis using kernel_ok_event_new(3) [OF ok al, where ty = OS_EVENT_TYPE_MBOX and c = 0 and m = m and nm = "''?''"] True
      by (simp add: OSMboxCreate_def al OS_EventWaitListInit_def upd_event_def)
  next
    case False
    then have "snd (OSMboxCreate m s) = s"
      by (auto simp: OSMboxCreate_def event_alloc_def Let_def word_neq_0_conv)
    then show ?thesis using ok by simp
  qed
qed

lemma kernel_ok_time:
  assumes ok: "kernel_ok s"
  shows "user_code s \<Longrightarrow> kernel_ok (OSTimeDly n s)" and "kernel_ok (snd (OSTimeDlyResume p s))"
    and "kernel_ok (OSSchedLock s)" and "kernel_ok (OSSchedUnlock s)" and "kernel_ok (OSIntEnter s)" and "OSRunning s \<Longrightarrow> kernel_ok (OSIntExit s)"
proof -
  show "kernel_ok (OSTimeDly n s)" if uc: "user_code s"
    using OSTimeDly_ok [OF ok uc, of n] ok
    by (cases "OSLockNesting s = 0 \<and> n > 0") (auto simp: OSTimeDly_def word_neq_0_conv)
  show "kernel_ok (snd (OSTimeDlyResume p s))"
  proof (cases "is_task s p \<and> p < OS_LOWEST_PRIO")
    case True
    then show ?thesis using OSTimeDlyResume_correct [OF ok, of p] by auto
  next
    case False
    then show ?thesis using ok by (auto simp: OSTimeDlyResume_def is_task_def Let_def)
  qed
  have lock: "data_ok (s\<lparr>OSLockNesting := n\<rparr>)" for n
    by (rule data_ok_cong [OF kernel_okD(1) [OF ok]]) (auto intro: events_ok_cong [OF _ _ kernel_okD(5) [OF ok]])
  have lock0: "kernel_ok (s\<lparr>OSLockNesting := n\<rparr>)" if "n \<noteq> 0" for n using lock [of n] that by (simp add: kernel_ok_def sched_ok_def)
  have "OSLockNesting s + 1 \<noteq> 0" if "OSLockNesting s < 255"
    using that by (auto simp: eq_neg_iff_add_eq_0 [symmetric])
  then show "kernel_ok (OSSchedLock s)" using ok lock0 by (auto simp: OSSchedLock_def)
  show "kernel_ok (OSSchedUnlock s)" using ok lock0 kernel_ok_Sched [OF lock] by (auto simp: OSSchedUnlock_def Let_def)
  show "kernel_ok (OSIntExit s)" if "OSRunning s" by (rule OSIntExit_ok [OF kernel_okD(1) [OF ok] that])
  have "OSIntNesting s + 1 \<noteq> 0" if "OSIntNesting s < 255"
    using that by (auto simp: eq_neg_iff_add_eq_0 [symmetric])
  then show "kernel_ok (OSIntEnter s)"
    using ok data_ok_upd_nest [OF kernel_okD(1) [OF ok], of "OSIntNesting s + 1"]
    by (auto simp: OSIntEnter_def kernel_ok_def sched_ok_def)
qed

text \<open>A loop that wakes waiters ends, and rescheduling restores the invariant.\<close>

lemma rdy_opt_ok:
  assumes ok: "kernel_ok s" and W: "OSEventGrp (OSEvents s e) \<noteq> 0" and msk: "msk = event_stat (OSEventType (OSEvents s e))"
  shows "\<exists>n s1. (if all then OS_EventTaskRdyAll e m msk OS_STAT_PEND_OK 0 s
                 else Some (0, snd (OS_EventTaskRdy e m msk OS_STAT_PEND_OK s))) = Some (n, s1)
      \<and> kernel_ok (OS_Sched s1) \<and> links s1 = links s"
proof (cases all)
  case True
  obtain n s1 where r: "OS_EventTaskRdyAll e m msk OS_STAT_PEND_OK 0 s = Some (n, s1)" "data_ok s1"
    using data_ok_RdyAll [OF kernel_okD(1) [OF ok] msk, of m OS_STAT_PEND_OK 0] by auto
  then show ?thesis using True kernel_ok_Sched [OF r(2)] links_rdy_all [OF r(1)] by auto
next
  case False
  then show ?thesis using kernel_ok_Sched [OF data_ok_EventTaskRdy [OF kernel_okD(1) [OF ok] W msk]] by (simp add: links)
qed

lemma mbox_loops_ok:
  assumes ok: "kernel_ok s"
  shows "\<exists>r err s'. OSMboxDel e opt s = Some (r, err, s') \<and> kernel_ok s' \<and> links s' = links s"
    and "\<exists>n err s'. OSMboxPendAbort e opt s = Some (n, err, s') \<and> kernel_ok s' \<and> links s' = links s"
    and "opt AND OS_POST_OPT_NO_SCHED = 0 \<Longrightarrow> \<exists>err s'. OSMboxPostOpt e m opt s = Some (err, s') \<and> kernel_ok s' \<and> links s' = links s"
proof -
  show "\<exists>r err s'. OSMboxDel e opt s = Some (r, err, s') \<and> kernel_ok s' \<and> links s' = links s"
    "\<exists>n err s'. OSMboxPendAbort e opt s = Some (n, err, s') \<and> kernel_ok s' \<and> links s' = links s"
    using event_loops_ok [OF ok, of e OS_STAT_MBOX opt] ok
    by (cases "e \<noteq> NULL \<and> OSEventType (OSEvents s e) = OS_EVENT_TYPE_MBOX"; auto simp: OSMboxDel_def OSMboxPendAbort_def)+
  assume opt: "opt AND OS_POST_OPT_NO_SCHED = 0"
  show "\<exists>err s'. OSMboxPostOpt e m opt s = Some (err, s') \<and> kernel_ok s' \<and> links s' = links s"
  proof (cases "is_mbox s e \<and> m \<noteq> NULL")
    case False
    then show ?thesis using ok by (auto simp: OSMboxPostOpt_def is_mbox_def)
  next
    case True
    show ?thesis
    proof (cases "OSEventGrp (OSEvents s e) = 0")
      case g: True
      then have "OSMboxPostOpt e m opt s = Some (OSMboxPost e m s)" using True by (simp add: OSMboxPostOpt_def OSMboxPost_def is_mbox_def)
      then show ?thesis using kernel_ok_mbox(1) [OF ok, of e m] links_services(8) [of e m s] by (cases "OSMboxPost e m s") simp
    next
      case g: False
      obtain n s1 where r: "(if opt AND OS_POST_OPT_BROADCAST \<noteq> 0 then OS_EventTaskRdyAll e m OS_STAT_MBOX OS_STAT_PEND_OK 0 s
          else Some (0, snd (OS_EventTaskRdy e m OS_STAT_MBOX OS_STAT_PEND_OK s))) = Some (n, s1)" "kernel_ok (OS_Sched s1)" "links s1 = links s"
        using rdy_opt_ok [OF ok g, of OS_STAT_MBOX "opt AND OS_POST_OPT_BROADCAST \<noteq> 0" m] True by (auto simp: is_mbox_def)
      then have "OSMboxPostOpt e m opt s = Some (OS_ERR_NONE, OS_Sched s1)"
        using True g opt by (simp only: OSMboxPostOpt_def is_mbox_def if_False if_True) simp
      then show ?thesis using r by (simp add: links)
    qed
  qed
qed

lemma links_queue [links]:
  "links (set_queue e r s) = links s" "links (q_free pq s) = links s" "links (snd (q_alloc s)) = links s"
  "links (queue_free e s) = links s"
  by (simp_all add: links_def set_queue_def q_free_def q_alloc_def Let_def queue_free_def event_free_def)

lemma OSQPend_resume_eq: "OSQPend_resume = OSMboxPend_resume"
  by (intro ext) (simp add: OSQPend_resume_def OSMboxPend_resume_def)

lemma rdy_one_ok:
  assumes "kernel_ok s" and "OSEventGrp (OSEvents s e) \<noteq> 0" and "msk = event_stat (OSEventType (OSEvents s e))"
  shows "kernel_ok (OS_Sched (snd (OS_EventTaskRdy e m msk OS_STAT_PEND_OK s)))"
  using rdy_opt_ok [OF assms, of False m] by simp

lemma kernel_ok_queue:
  assumes ok: "kernel_ok s"
  shows "kernel_ok (snd (OSQPost e m s)) \<and> links (snd (OSQPost e m s)) = links s"
    and "kernel_ok (snd (OSQPostFront e m s)) \<and> links (snd (OSQPostFront e m s)) = links s"
    and "user_code s \<Longrightarrow> kernel_ok (snd (OSQPend e timeout s)) \<and> links (snd (OSQPend e timeout s)) = links s"
    and "kernel_ok (snd (snd (OSQAccept e s))) \<and> links (snd (snd (OSQAccept e s))) = links s"
    and "kernel_ok (snd (OSQFlush e s)) \<and> links (snd (OSQFlush e s)) = links s"
proof -
  note q = kernel_ok_set_queue [OF ok]
  have rdy: "OSEventType (OSEvents s e) = OS_EVENT_TYPE_Q \<Longrightarrow> OSEventGrp (OSEvents s e) \<noteq> 0 \<Longrightarrow>
      kernel_ok (OS_Sched (snd (OS_EventTaskRdy e m OS_STAT_Q OS_STAT_PEND_OK s)))"
    using rdy_one_ok [OF ok, of e OS_STAT_Q m] by simp
  show "kernel_ok (snd (OSQPost e m s)) \<and> links (snd (OSQPost e m s)) = links s"
    using ok q rdy by (simp add: OSQPost_def links)
  show "kernel_ok (snd (OSQPostFront e m s)) \<and> links (snd (OSQPostFront e m s)) = links s"
    using ok q rdy by (simp add: OSQPostFront_def links)
  show "kernel_ok (snd (snd (OSQAccept e s))) \<and> links (snd (snd (OSQAccept e s))) = links s"
    "kernel_ok (snd (OSQFlush e s)) \<and> links (snd (OSQFlush e s)) = links s"
    using ok q by (simp_all add: OSQAccept_def OSQFlush_def links case_prod_beta Let_def)
  show "kernel_ok (snd (OSQPend e timeout s)) \<and> links (snd (OSQPend e timeout s)) = links s" if uc: "user_code s"
  proof (cases "e \<noteq> NULL \<and> OSEventType (OSEvents s e) = OS_EVENT_TYPE_Q \<and> OSLockNesting s = 0")
    case True
    then have "kernel_ok (OS_Sched (event_block OS_STAT_Q e timeout s))"
      using event_block_ok(1) [OF ok uc, of e OS_STAT_Q, OF _ _ _ _ refl] by simp
    then show ?thesis using True q uc by (simp add: OSQPend_def links case_prod_beta Let_def user_code_def)
  next
    case False
    then have "snd (OSQPend e timeout s) = s" using uc by (auto simp: OSQPend_def user_code_def word_neq_0_conv)
    then show ?thesis using ok by simp
  qed
qed

lemma queue_create_ok:
  assumes ok: "kernel_ok s"
  shows "kernel_ok (snd (OSQCreate start sz s)) \<and> links (snd (OSQCreate start sz s)) = links s"
proof (cases "OSIntNesting s = 0 \<and> OSEventFreeList s \<noteq> NULL")
  case False
  then have "snd (OSQCreate start sz s) = s" by (auto simp: OSQCreate_def event_alloc_def Let_def word_neq_0_conv)
  then show ?thesis using ok by simp
next
  case True
  let ?e = "OSEventFreeList s"
  obtain s1 where al: "event_alloc s = (?e, s1)" and s1: "s1 = s\<lparr>OSEventFreeList := OSEventPtr (OSEvents s ?e)\<rparr>"
    using True by (simp add: event_alloc_def Let_def)
  show ?thesis
  proof (cases "OSQFreeList s = NULL")
    case none: True
    have "(OSEvents s)(?e := OSEvents s ?e) = OSEvents s" by (rule fun_upd_triv)
    then have "upd_event ?e (\<lambda>ev. ev\<lparr>OSEventPtr := OSEventFreeList s1\<rparr>) s1\<lparr>OSEventFreeList := ?e\<rparr> = s"
      by (simp add: s1 upd_event_def)
    then have "snd (OSQCreate start sz s) = s" using True none by (simp add: OSQCreate_def al q_alloc_def Let_def s1)
    then show ?thesis using ok by simp
  next
    case some: False
    define s2 where "s2 = (snd (q_alloc s1))\<lparr>OSQTbl := (OSQTbl (snd (q_alloc s1)))(OSQFreeList s := (OSQTbl s (OSQFreeList s))\<lparr>OSQStart := start,
        OSQEnd := start + unat sz, OSQIn := start, OSQOut := start, OSQSize := sz, OSQEntries := 0\<rparr>)\<rparr>"
    define f where "f ev = set_event_map bm_empty (ev\<lparr>OSEventType := OS_EVENT_TYPE_Q, OSEventCnt := 0,
        OSEventPtr := OSQFreeList s, OSEventName := ''?''\<rparr>)" for ev
    have s': "snd (OSQCreate start sz s) = upd_event ?e f s2"
      using True some by (simp add: OSQCreate_def al q_alloc_def Let_def s1 s2_def OS_EventWaitListInit_def f_def [abs_def])
    have k1: "kernel_ok (upd_event ?e f s1)"
      using kernel_ok_event_new(3) [OF ok al, where ty = OS_EVENT_TYPE_Q and c = 0 and m = "OSQFreeList s" and nm = "''?''"] True by (simp add: f_def [abs_def])
    have k: "kernel_ok (upd_event ?e f s2)"
      by (rule kernel_ok_cong [OF k1])
        (auto simp: s2_def q_alloc_def Let_def kernel_same_def rdy_map_def upd_event_def
          intro: events_ok_cong [OF _ _ kernel_okD(5) [OF k1]])
    have "links s2 = links s" by (simp add: s2_def q_alloc_def Let_def s1 links_def)
    then have "links (upd_event ?e f s2) = links s" by (simp add: links)
    with k show ?thesis unfolding s' by blast
  qed
qed

lemma kernel_ok_queue_free:
  assumes "data_ok s" and "waiters s e = {}" and "e \<noteq> NULL" and "OSEventType (OSEvents s e) \<noteq> OS_EVENT_TYPE_UNUSED"
  shows "data_ok (queue_free e s)"
proof -
  have d: "data_ok (q_free pq s)" for pq
    by (rule data_ok_cong [OF assms(1)])
      (auto simp: q_free_def kernel_same_def rdy_map_def intro: events_ok_cong [OF _ _ data_okD(3) [OF assms(1)]])
  show ?thesis unfolding queue_free_def
    by (rule data_ok_event_free [OF d]) (use assms in \<open>simp_all add: q_free_def waiters_def waits_def\<close>)
qed

lemma queue_loops_ok:
  assumes ok: "kernel_ok s"
  shows "\<exists>r err s'. OSQDel e opt s = Some (r, err, s') \<and> kernel_ok s' \<and> links s' = links s"
    and "\<exists>n err s'. OSQPendAbort e opt s = Some (n, err, s') \<and> kernel_ok s' \<and> links s' = links s"
    and "opt AND OS_POST_OPT_NO_SCHED = 0 \<Longrightarrow> \<exists>err s'. OSQPostOpt e m opt s = Some (err, s') \<and> kernel_ok s' \<and> links s' = links s"
proof -
  note inv = kernel_okD(2) [OF ok]
  show "\<exists>r err s'. OSQDel e opt s = Some (r, err, s') \<and> kernel_ok s' \<and> links s' = links s"
  proof (cases "e \<noteq> NULL \<and> OSEventType (OSEvents s e) = OS_EVENT_TYPE_Q \<and> OSIntNesting s = 0")
    case False
    then show ?thesis using ok by (auto simp: OSQDel_def word_neq_0_conv)
  next
    case True
    obtain r where r: "OS_EventTaskRdyAll e NULL OS_STAT_Q OS_STAT_PEND_OK 0 s
        = Some (of_nat (card (waiters s e)), wake_all e NULL OS_STAT_Q OS_STAT_PEND_OK r s)"
      and rok: "data_ok (wake_all e NULL OS_STAT_Q OS_STAT_PEND_OK r s)"
      using data_ok_RdyAll [OF kernel_okD(1) [OF ok], of OS_STAT_Q e NULL OS_STAT_PEND_OK 0] True by auto
    define w where "w = wake_all e NULL OS_STAT_Q OS_STAT_PEND_OK r s"
    have lw: "links w = links s" using links_rdy_all [OF r] by (simp add: w_def)
    have W: "waiters w e = {}" "OSEventType (OSEvents w e) = OS_EVENT_TYPE_Q" using True by (simp_all add: w_def)
    have qf: "kernel_ok (OS_Sched (queue_free e w))"
      using kernel_ok_queue_free [of w e] rok W True by (intro kernel_ok_Sched) (simp_all add: w_def [symmetric])
    have free: "kernel_ok (queue_free e s)" if none: "waiters s e = {}"
    proof -
      have d: "data_ok (queue_free e s)" using kernel_ok_queue_free [OF kernel_okD(1) [OF ok] none] True by simp
      have "sched_ok (queue_free e s) = sched_ok s"
        by (rule sched_ok_cong) (simp_all add: queue_free_def q_free_def event_free_def Let_def rdy_map_def)
      with d kernel_okD(4) [OF ok] show ?thesis by (simp add: kernel_ok_def)
    qed
    show ?thesis
    proof (cases "waiters s e = {}")
      case none: True
      then have g: "OSEventGrp (OSEvents s e) = 0" using waiters_grp [OF inv, of e] by simp
      then have "OS_EventTaskRdyAll e NULL OS_STAT_Q OS_STAT_PEND_OK 0 s = Some (0, s)" by (simp add: OS_EventTaskRdyAll.simps)
      with g free [OF none] True ok show ?thesis by (simp add: OSQDel_def links)
    next
      case some: False
      then have g: "OSEventGrp (OSEvents s e) \<noteq> 0" using waiters_grp [OF inv, of e] by simp
      show ?thesis using g True ok r qf lw by (simp add: OSQDel_def w_def [symmetric] Let_def links)
    qed
  qed
  show "\<exists>n err s'. OSQPendAbort e opt s = Some (n, err, s') \<and> kernel_ok s' \<and> links s' = links s"
    using event_loops_ok(2) [OF ok, of e OS_STAT_Q opt] ok
    by (cases "e \<noteq> NULL \<and> OSEventType (OSEvents s e) = OS_EVENT_TYPE_Q") (auto simp: OSQPendAbort_def)
  assume opt: "opt AND OS_POST_OPT_NO_SCHED = 0"
  show "\<exists>err s'. OSQPostOpt e m opt s = Some (err, s') \<and> kernel_ok s' \<and> links s' = links s"
  proof (cases "e \<noteq> NULL \<and> OSEventType (OSEvents s e) = OS_EVENT_TYPE_Q")
    case False
    then show ?thesis using ok by (auto simp: OSQPostOpt_def)
  next
    case True
    show ?thesis
    proof (cases "OSEventGrp (OSEvents s e) = 0")
      case g: True
      show ?thesis using True g ok kernel_ok_set_queue [OF ok] by (simp add: OSQPostOpt_def links)
    next
      case g: False
      obtain n s1 where r: "(if opt AND OS_POST_OPT_BROADCAST \<noteq> 0 then OS_EventTaskRdyAll e m OS_STAT_Q OS_STAT_PEND_OK 0 s
          else Some (0, snd (OS_EventTaskRdy e m OS_STAT_Q OS_STAT_PEND_OK s))) = Some (n, s1)" "kernel_ok (OS_Sched s1)" "links s1 = links s"
        using rdy_opt_ok [OF ok g, of OS_STAT_Q "opt AND OS_POST_OPT_BROADCAST \<noteq> 0" m] True by auto
      then have "OSQPostOpt e m opt s = Some (OS_ERR_NONE, OS_Sched s1)"
        using True g opt by (simp only: OSQPostOpt_def if_False if_True) simp
      then show ?thesis using r by (simp add: links)
    qed
  qed
qed

lemma post_opt_returns:
  assumes ok: "kernel_ok s"
  shows "\<exists>x. OSMboxPostOpt e m opt s = Some x" and "\<exists>x. OSQPostOpt e m opt s = Some x"
proof -
  have r: "\<exists>n s1. (if all then OS_EventTaskRdyAll e m msk OS_STAT_PEND_OK 0 s
                 else Some (0, snd (OS_EventTaskRdy e m msk OS_STAT_PEND_OK s))) = Some (n, s1)"
    if "OSEventGrp (OSEvents s e) \<noteq> 0" "msk = event_stat (OSEventType (OSEvents s e))" for all msk
    using rdy_opt_ok [OF ok that] by blast
  show "\<exists>x. OSMboxPostOpt e m opt s = Some x"
    using r [of OS_STAT_MBOX "opt AND OS_POST_OPT_BROADCAST \<noteq> 0"] by (auto simp: OSMboxPostOpt_def split: option.splits)
  show "\<exists>x. OSQPostOpt e m opt s = Some x"
    using r [of OS_STAT_Q "opt AND OS_POST_OPT_BROADCAST \<noteq> 0"] by (auto simp: OSQPostOpt_def split: option.splits)
qed

text \<open>Partitions and names are outside the invariant.\<close>

definition side_same :: "os_state \<Rightarrow> os_state \<Rightarrow> bool" where
  "side_same s' s \<longleftrightarrow> OSEvents s' = OSEvents s \<and> OSEventFreeList s' = OSEventFreeList s \<and> OSTCBTbl s' = OSTCBTbl s
     \<and> OSTCBPrioTbl s' = OSTCBPrioTbl s \<and> rdy_map s' = rdy_map s \<and> OSTCBCur s' = OSTCBCur s \<and> OSPrioCur s' = OSPrioCur s
     \<and> OSIntNesting s' = OSIntNesting s \<and> OSLockNesting s' = OSLockNesting s"

lemma side_same_ok:
  assumes ok: "kernel_ok s" and e: "side_same s' s"
  shows "kernel_ok s'"
  by (rule kernel_ok_cong [OF ok])
    (use e in \<open>auto simp: side_same_def kernel_same_def intro: events_ok_cong [OF _ _ kernel_okD(5) [OF ok]]\<close>)

lemma side_services:
  "side_same (snd (snd (OSMemGet pm s))) s \<and> links (snd (snd (OSMemGet pm s))) = links s"
  "side_same (snd (OSMemPut pm blk s)) s \<and> links (snd (OSMemPut pm blk s)) = links s"
  "side_same (snd (snd (OSMemCreate addr nblks blksize s))) s \<and> links (snd (snd (OSMemCreate addr nblks blksize s))) = links s"
  "side_same (snd (OSMemNameSet pm nm s)) s \<and> links (snd (OSMemNameSet pm nm s)) = links s"
  by (auto simp: side_same_def links_def OSMemGet_def OSMemPut_def OSMemCreate_def OSMemNameSet_def mem_alloc_def
      set_part_def rdy_map_def Let_def split: prod.splits option.splits)

end
