(* ===== verification/Task_Prio.thy ===== *)
theory Task_Prio
  imports Task_Life
begin

text \<open>
  The change of a priority, which is the identity of a task: its bit moves in the ready list and in
  the wait list of the event it waits on.  The code reads that event from \<open>OSTCBEventPtr\<close>, which
  is cleared by the woken task itself, when it runs, and not by the task that wakes it.
\<close>

lemma rdy_move_eq:
  assumes ok: "tcb_prio_ok p (OSTCBTbl s t)"
  shows "rdy_move t q s = (if rdy s p then set_rdy_map (bm_ins q (bm_del p (rdy_map s))) s else s)"
proof -
  have "OSRdyTbl s (p div 8) AND 2 ^ (p mod 8) \<noteq> 0 \<longleftrightarrow> rdy s p"
    by (simp add: and_exp_neq_0 rdy_def bm_mem_def rdy_map_def)
  then show ?thesis
    using ok by (simp add: rdy_move_def Let_def tcb_prio_ok_def bm_ins_def bm_del_def prio_bitx_def prio_bity_def)
qed

lemma set_event_map_twice: "set_event_map b (set_event_map a ev) = set_event_map b ev"
  by (simp add: set_event_map_def)

lemma event_move_eq:
  assumes ok: "tcb_prio_ok p (OSTCBTbl s t)"
  shows "event_move t q e s = upd_event e (\<lambda>ev. set_event_map (bm_ins q (bm_del p (event_map ev))) ev) s"
  using ok by (simp add: event_move_def Let_def event_wait_set_def event_wait_clr_def tcb_prio_ok_def bm_ins_def bm_del_def
      prio_bitx_def prio_bity_def upd_event_def set_event_map_twice)

text \<open>
  The move of a task from priority \<open>p\<close> to \<open>q\<close>, with its bit in the wait list of \<open>e\<close> (none when
  \<open>e\<close> is null); \<open>hole\<close> is what the old entry of the priority table becomes.
\<close>

definition tcb_set_prio :: "ptr \<Rightarrow> nat \<Rightarrow> os_state \<Rightarrow> os_state" where
  "tcb_set_prio t q = upd_tcb t (\<lambda>t. t\<lparr>OSTCBPrio := q, OSTCBY := q div 8, OSTCBX := q mod 8,
     OSTCBBitY := 2 ^ (q div 8), OSTCBBitX := 2 ^ (q mod 8)\<rparr>)"

definition prio_moved :: "ptr \<Rightarrow> ptr \<Rightarrow> nat \<Rightarrow> nat \<Rightarrow> os_state \<Rightarrow> os_state" where
  "prio_moved hole e p q s =
     (let t = OSTCBPrioTbl s p;
          s1 = s\<lparr>OSTCBPrioTbl := (OSTCBPrioTbl s)(p := hole, q := t)\<rparr>;
          s2 = (if rdy s p then set_rdy_map (bm_ins q (bm_del p (rdy_map s))) s1 else s1);
          s3 = (if e \<noteq> NULL then upd_event e (\<lambda>ev. set_event_map (bm_ins q (bm_del p (event_map ev))) ev) s2 else s2)
      in tcb_set_prio t q s3)"

lemma prio_moved_frame:
  fixes hole e p q s
  defines "s' \<equiv> prio_moved hole e p q s"
  shows "OSTCBPrioTbl s' = (OSTCBPrioTbl s)(p := hole, q := OSTCBPrioTbl s p)"
    and "rdy_map s' = (if rdy s p then bm_ins q (bm_del p (rdy_map s)) else rdy_map s)"
    and "event_map (OSEvents s' x) = (if e \<noteq> NULL \<and> x = e then bm_ins q (bm_del p (event_map (OSEvents s x)))
           else event_map (OSEvents s x))"
    and "OSEventType (OSEvents s' x) = OSEventType (OSEvents s x)"
    and "OSEventPtr (OSEvents s' x) = OSEventPtr (OSEvents s x)"
    and "OSTCBTbl s' = (OSTCBTbl s)(OSTCBPrioTbl s p := (task_at s p)\<lparr>OSTCBPrio := q, OSTCBY := q div 8,
           OSTCBX := q mod 8, OSTCBBitY := 2 ^ (q div 8), OSTCBBitX := 2 ^ (q mod 8)\<rparr>)"
    and "OSEventFreeList s' = OSEventFreeList s" and "OSTCBCur s' = OSTCBCur s"
    and "OSPrioCur s' = OSPrioCur s" and "OSIntNesting s' = OSIntNesting s"
    and "OSLockNesting s' = OSLockNesting s" and "OSRunning s' = OSRunning s"
    and "OSTCBList s' = OSTCBList s" and "OSEventCnt (OSEvents s' x) = OSEventCnt (OSEvents s x)"
proof -
  show "rdy_map s' = (if rdy s p then bm_ins q (bm_del p (rdy_map s)) else rdy_map s)"
    by (simp add: s'_def prio_moved_def tcb_set_prio_def Let_def) (simp add: rdy_map_def)
qed (simp_all add: s'_def prio_moved_def tcb_set_prio_def Let_def task_at_def upd_event_def)

text \<open>The move keeps the invariant when \<open>e\<close> is exactly what the task waits on.\<close>

lemma prio_moved_ok:
  fixes hole e p q s
  assumes inv: "kinv s" and task: "is_task s p" and p: "p < OS_LOWEST_PRIO" and q: "q < OS_LOWEST_PRIO" and nq: "\<not> is_task s q"
    and hole: "hole = NULL \<or> hole = OS_TCB_RESERVED" and w_p: "\<And>x. waits s x p \<longleftrightarrow> x \<noteq> NULL \<and> x = e"
  defines "s1 \<equiv> prio_moved hole e p q s"
  shows "kinv s1" and "\<And>u. is_task s1 u \<longleftrightarrow> u = q \<or> u \<noteq> p \<and> is_task s u"
    and "\<And>u. rdy s1 u \<longleftrightarrow> (if u = q then rdy s p else u \<noteq> p \<and> rdy s u)"
    and "\<And>x u. waits s1 x u \<longleftrightarrow> (if u = q then waits s x p else u \<noteq> p \<and> waits s x u)"
    and "task_at s1 q = (task_at s p)\<lparr>OSTCBPrio := q, OSTCBY := q div 8, OSTCBX := q mod 8,
           OSTCBBitY := 2 ^ (q div 8), OSTCBBitX := 2 ^ (q mod 8)\<rparr>"
    and "\<And>u. is_task s u \<Longrightarrow> u \<noteq> p \<Longrightarrow> task_at s1 u = task_at s u"
    and "events_ok s1 = events_ok s"
proof -
  note p64 = task_prio_ok [OF inv task]
  note F = prio_moved_frame [of hole e p q s, folded s1_def]
  have pq: "p \<noteq> q" using task nq by auto
  have nrq: "\<not> rdy s q" "\<not> waits s x q" for x
    using nq rdy_task [OF inv, of q] waitsD(1) [OF inv, of x q] by auto
  show tasks: "is_task s1 u \<longleftrightarrow> u = q \<or> u \<noteq> p \<and> is_task s u" for u
    using task pq hole by (auto simp: is_task_def F)
  show rdys: "rdy s1 u \<longleftrightarrow> (if u = q then rdy s p else u \<noteq> p \<and> rdy s u)" for u
    using p64 q pq nrq(1) by (auto simp: rdy_def F bm_mem_ins bm_mem_del)
  show waits1: "waits s1 x u \<longleftrightarrow> (if u = q then waits s x p else u \<noteq> p \<and> waits s x u)" for x u
    using p64 q pq nrq(2) w_p [of x] by (auto simp: waits_def F bm_mem_ins bm_mem_del)
  show at_q: "task_at s1 q = (task_at s p)\<lparr>OSTCBPrio := q, OSTCBY := q div 8, OSTCBX := q mod 8,
           OSTCBBitY := 2 ^ (q div 8), OSTCBBitX := 2 ^ (q mod 8)\<rparr>"
    by (simp add: task_at_def F)
  show at_u: "task_at s1 u = task_at s u" if "is_task s u" "u \<noteq> p" for u
    using that task_inj [OF inv that(1) task] nq by (auto simp: task_at_def F)
  have old_inv: "prio_inv s u" for u using inv by (simp add: kinv_local)
  have "prio_inv s1 u" for u
  proof -
    consider "u = p" | "u = q" | "u \<noteq> p" "u \<noteq> q" by blast
    then show ?thesis
    proof cases
      case 1
      then show ?thesis using pq by (intro prio_inv_none) (simp_all add: tasks rdys waits1)
    next
      case 2
      have b: "tcb_prio_ok q (task_at s1 q)" by (simp add: at_q tcb_prio_ok_def prio_bitx_def prio_bity_def)
      have c: "tcb_runnable (task_at s1 q) = tcb_runnable (task_at s p)" "wait_stat_ok (task_at s1 q) st = wait_stat_ok (task_at s p) st"
        "OSTCBEventMultiPtr (task_at s1 q) = OSTCBEventMultiPtr (task_at s p)" "OSTCBStat (task_at s1 q) = OSTCBStat (task_at s p)"
        "OSTCBEventPtr (task_at s1 q) = OSTCBEventPtr (task_at s p)" for st
        by (simp_all add: at_q tcb_runnable_def wait_stat_ok_def)
      show ?thesis
        using old_inv [of p] q task b unfolding 2 prio_inv_def c tasks rdys waits1 F(4) by simp
    next
      case 3
      then have "prio_inv s1 u = prio_inv s u"
        using at_u by (intro prio_inv_cong) (simp_all add: tasks rdys waits1 F)
      then show ?thesis using old_inv by simp
    qed
  qed
  moreover have "bm_ok (rdy_map s1)" using bm_ok_rdy [OF inv] p64 q by (simp add: F bm_ok_ins bm_ok_del)
  moreover have "bm_ok (event_map (OSEvents s1 x))" for x
    using bm_ok_event [OF inv] p64 q by (simp add: F bm_ok_ins bm_ok_del)
  moreover have "rdy s1 OS_TASK_IDLE_PRIO" using inv p q by (simp add: rdys kinv_def)
  ultimately show "kinv s1" unfolding kinv_local by blast
  show "events_ok s1 = events_ok s" by (simp add: events_ok_def free_events_def F)
qed

text \<open>The state before the scheduler is called.\<close>

definition prio_changed :: "nat \<Rightarrow> nat \<Rightarrow> os_state \<Rightarrow> os_state" where
  "prio_changed p q s = prio_moved NULL (OSTCBEventPtr (task_at s p)) p q s"

lemmas prio_changed_frame = prio_moved_frame [of NULL "OSTCBEventPtr (task_at s p)" p q s for p q s, folded prio_changed_def]

lemma OSTaskChangePrio_eq:
  assumes inv: "kinv s" and task: "is_task s p" and p: "p < OS_LOWEST_PRIO" and q: "q < OS_LOWEST_PRIO" "OSTCBPrioTbl s q = NULL"
    and old: "old = p \<or> old = OS_PRIO_SELF \<and> p = OSTCBPrio (OSTCBTbl s (OSTCBCur s))" and run: "OSRunning s"
  shows "OSTaskChangePrio old q s = (OS_ERR_NONE, OS_Sched (prio_changed p q s))"
proof -
  let ?t = "OSTCBPrioTbl s p"
  have tp: "tcb_prio_ok p (OSTCBTbl s ?t)" using task_prio_ok [OF inv task] by (simp add: task_at_def)
  have multi: "OSTCBEventMultiPtr (OSTCBTbl s ?t) = None"
    using inv task by (simp add: kinv_def tcbs_ok_def task_at_def)
  let ?s1 = "s\<lparr>OSTCBPrioTbl := (OSTCBPrioTbl s)(p := NULL, q := ?t)\<rparr>"
  have rd1: "rdy ?s1 p = rdy s p" "rdy_map ?s1 = rdy_map s" by (simp_all add: rdy_def rdy_map_def)
  have m1: "rdy_move ?t q ?s1 = (if rdy s p then set_rdy_map (bm_ins q (bm_del p (rdy_map s))) ?s1 else ?s1)"
    using rdy_move_eq [of p ?s1 ?t q] tp unfolding rd1 by simp
  define s2 where "s2 = rdy_move ?t q ?s1"
  have s2: "OSTCBTbl s2 = OSTCBTbl s" "OSRunning s2" using run by (simp_all add: s2_def m1)
  have m2: "event_move ?t q e s2 = upd_event e (\<lambda>ev. set_event_map (bm_ins q (bm_del p (event_map ev))) ev) s2" for e
    by (rule event_move_eq) (simp add: s2 tp)
  have ti: "?t \<noteq> NULL" "?t \<noteq> OS_TCB_RESERVED" using task by (auto simp: is_task_def)
  have g: "\<not> (old \<ge> OS_LOWEST_PRIO \<and> old \<noteq> OS_PRIO_SELF)"
    and oldp: "(if old = OS_PRIO_SELF then OSTCBPrio (OSTCBTbl s (OSTCBCur s)) else old) = p"
    using old p by auto
  show ?thesis
    unfolding OSTaskChangePrio_def Let_def oldp s2_def [symmetric] m2
    using g q ti multi s2
    by (simp add: prio_changed_def prio_moved_def tcb_set_prio_def Let_def s2_def [unfolded m1] task_at_def)
qed

text \<open>The task whose priority changes has no pointer to an event it no longer waits on.\<close>

definition settled :: "os_state \<Rightarrow> nat \<Rightarrow> bool" where
  "settled s p \<longleftrightarrow> OSTCBEventPtr (task_at s p) = NULL \<or> waits s (OSTCBEventPtr (task_at s p)) p"

lemma OSTaskChangePrio_kernel:
  assumes ok: "kernel_ok s" and task: "is_task s p" and p: "p < OS_LOWEST_PRIO" and q: "q < OS_LOWEST_PRIO" "OSTCBPrioTbl s q = NULL"
    and old: "old = p \<or> old = OS_PRIO_SELF \<and> p = OSPrioCur s" and run: "OSRunning s"
    and nest: "OSIntNesting s = 0" "OSLockNesting s = 0" and settled: "settled s p"
  shows "OSTaskChangePrio old q s = (OS_ERR_NONE, OS_Sched (prio_changed p q s))"
    and "kernel_ok (OS_Sched (prio_changed p q s))"
    and "\<And>u. is_task (prio_changed p q s) u \<longleftrightarrow> u = q \<or> u \<noteq> p \<and> is_task s u"
    and "\<And>u. rdy (prio_changed p q s) u \<longleftrightarrow> (if u = q then rdy s p else u \<noteq> p \<and> rdy s u)"
    and "\<And>x u. waits (prio_changed p q s) x u \<longleftrightarrow> (if u = q then waits s x p else u \<noteq> p \<and> waits s x u)"
    and "task_at (prio_changed p q s) q = (task_at s p)\<lparr>OSTCBPrio := q, OSTCBY := q div 8, OSTCBX := q mod 8,
           OSTCBBitY := 2 ^ (q div 8), OSTCBBitX := 2 ^ (q mod 8)\<rparr>"
    and "\<And>u. is_task s u \<Longrightarrow> u \<noteq> p \<Longrightarrow> task_at (prio_changed p q s) u = task_at s u"
proof -
  note inv = kernel_okD(2) [OF ok] and cur = kernel_okD(3) [OF ok]
  have cp: "OSTCBPrio (OSTCBTbl s (OSTCBCur s)) = OSPrioCur s"
    using cur task_prio [OF inv, of "OSPrioCur s"] by (auto simp: cur_ok_def task_at_def)
  define s1 where "s1 = prio_changed p q s"
  note F = prio_changed_frame [of p q s, folded s1_def]
  show "OSTaskChangePrio old q s = (OS_ERR_NONE, OS_Sched (prio_changed p q s))"
    using OSTaskChangePrio_eq [OF inv task p q _ run, of old] old unfolding cp by auto
  have nq: "\<not> is_task s q" using q(2) by (simp add: is_task_def)
  then have pq: "p \<noteq> q" using task by auto
  have w_p: "waits s x p \<longleftrightarrow> x \<noteq> NULL \<and> x = OSTCBEventPtr (task_at s p)" for x
    using settled waitsD(2,4) [OF inv, of x p] by (auto simp: settled_def)
  note M = prio_moved_ok [OF inv task p q(1) nq disjI1 [OF refl] w_p, folded prio_changed_def]
  note M1 = M [folded s1_def]
  have ev: "events_ok s1" using M1(7) kernel_okD(5) [OF ok] by simp
  show "kernel_ok (OS_Sched (prio_changed p q s))"
  proof (cases "p = OSPrioCur s")
    case True
    show ?thesis unfolding s1_def [symmetric]
      by (rule kernel_ok_switch [OF M1(1) ev]) (use nest pq True in \<open>simp_all add: M1(3) F\<close>)
  next
    case False
    have "OSPrioCur s \<noteq> q" using cur nq by (auto simp: cur_ok_def)
    then have "cur_ok s1" using cur False unfolding cur_ok_def by (simp add: M1(2) F)
    then show ?thesis unfolding s1_def [symmetric] using M1(1) ev by (intro kernel_ok_Sched) (simp add: data_ok_def)
  qed
  fix u x
  show "is_task (prio_changed p q s) u \<longleftrightarrow> u = q \<or> u \<noteq> p \<and> is_task s u"
    and "rdy (prio_changed p q s) u \<longleftrightarrow> (if u = q then rdy s p else u \<noteq> p \<and> rdy s u)"
    and "waits (prio_changed p q s) x u \<longleftrightarrow> (if u = q then waits s x p else u \<noteq> p \<and> waits s x u)"
    and "task_at (prio_changed p q s) q = (task_at s p)\<lparr>OSTCBPrio := q, OSTCBY := q div 8, OSTCBX := q mod 8,
           OSTCBBitY := 2 ^ (q div 8), OSTCBBitX := 2 ^ (q mod 8)\<rparr>"
    by (fact M(2) M(3) M(4) M(5))+
  show "task_at (prio_changed p q s) u = task_at s u" if "is_task s u" "u \<noteq> p" by (fact M(6) [OF that])
qed

text \<open>
  C11 Changing the priority of a task whose wait (if any) is still pending renames it: its ready bit
  and its place in a wait list move to the new priority, the old priority is free, its status and all
  other tasks are as before, and the highest ready task runs, also when the caller changes its own priority.
\<close>

theorem OSTaskChangePrio_correct:
  assumes ok: "kernel_ok s" and task: "is_task s p" and p: "p < OS_LOWEST_PRIO" and q: "q < OS_LOWEST_PRIO" "OSTCBPrioTbl s q = NULL"
    and old: "old = p \<or> old = OS_PRIO_SELF \<and> p = OSPrioCur s" and run: "OSRunning s"
    and nest: "OSIntNesting s = 0" "OSLockNesting s = 0"
    and settled: "OSTCBEventPtr (task_at s p) = NULL \<or> waits s (OSTCBEventPtr (task_at s p)) p"
    and r: "OSTaskChangePrio old q s = (err, s')"
  shows "err = OS_ERR_NONE \<and> kernel_ok s' \<and> OSTCBPrioTbl s' p = NULL \<and> OSTCBPrioTbl s' q = OSTCBPrioTbl s p
    \<and> rdy s' q = rdy s p \<and> (\<forall>e. waits s' e q = waits s e p)
    \<and> OSTCBStat (task_at s' q) = OSTCBStat (task_at s p) \<and> OSTCBDly (task_at s' q) = OSTCBDly (task_at s p)
    \<and> (\<forall>u. u \<noteq> p \<and> u \<noteq> q \<longrightarrow> rdy s' u = rdy s u \<and> is_task s' u = is_task s u \<and> (\<forall>e. waits s' e u = waits s e u)
         \<and> (is_task s u \<longrightarrow> tcb_same (task_at s' u) (task_at s u)))"
proof -
  have st: "settled s p" using settled by (simp add: settled_def)
  note K = OSTaskChangePrio_kernel [OF ok task p q old run nest st]
  define s1 where "s1 = prio_changed p q s"
  note F = prio_changed_frame [of p q s, folded s1_def]
  have e: "err = OS_ERR_NONE" "s' = OS_Sched s1" using r K(1) by (simp_all add: s1_def)
  have pq: "p \<noteq> q" using task q(2) by (auto simp: is_task_def)
  note tasks = K(3) [folded s1_def] and rdys = K(4) [folded s1_def] and waits1 = K(5) [folded s1_def]
    and at_q = K(6) [folded s1_def] and at_u = K(7) [folded s1_def]
  have k: "kernel_ok s'" using K(2) by (simp add: e s1_def)
  have S: "is_task s' u = is_task s1 u" "rdy s' u = rdy s1 u" "waits s' e u = waits s1 e u"
    "tcb_same (task_at s' u) (task_at s1 u)" for u e
    unfolding e by (rule kernel_same_simps [OF OS_Sched_same])+
  have "OSTCBPrioTbl s' = OSTCBPrioTbl s1" by (simp add: e)
  then have "OSTCBPrioTbl s' p = NULL" "OSTCBPrioTbl s' q = OSTCBPrioTbl s p" using pq by (simp_all add: F)
  moreover have "OSTCBStat (task_at s' q) = OSTCBStat (task_at s p) \<and> OSTCBDly (task_at s' q) = OSTCBDly (task_at s p)"
    using S(4) [of q] by (simp add: tcb_same_def at_q)
  moreover have "tcb_same (task_at s' u) (task_at s u)" if "is_task s u" "u \<noteq> p" for u
    using S(4) [of u] by (simp add: at_u that)
  ultimately show ?thesis using e(1) k unfolding S tasks rdys waits1 by auto
qed

theorem OSTaskChangePrio_correct_witness:
  "waiters (snd (OSTaskChangePrio 10 20 (ex_state 0))) 1 = {20} \<and> kernel_ok (snd (OSTaskChangePrio OS_PRIO_SELF 30 (ex_state 0)))
     \<and> rdy (snd (OSTaskChangePrio OS_PRIO_SELF 30 (ex_state 0))) 30"
proof -
  have st: "OSRunning (ex_state 0)" "OSIntNesting (ex_state 0) = 0" "OSLockNesting (ex_state 0) = 0"
    "OSPrioCur (ex_state 0) = 4" "OSTCBPrioTbl (ex_state 0) 20 = NULL" "OSTCBPrioTbl (ex_state 0) 30 = NULL"
    "OSTCBEventPtr (task_at (ex_state 0) 4) = NULL" "OSTCBEventPtr (task_at (ex_state 0) 10) = 1"
    by (simp_all add: ex_at) (simp_all add: ex_state_simps)
  note C = OSTaskChangePrio_correct [OF ex_kernel_ok _ _ _ _ _ st(1,2,3) _ surjective_pairing]
  have "waits (snd (OSTaskChangePrio 10 20 (ex_state 0))) 1 u \<longleftrightarrow> u = 20" for u
  proof -
    have A: "\<forall>e. waits (snd (OSTaskChangePrio 10 20 (ex_state 0))) e 20 = waits (ex_state 0) e 10"
      "kernel_ok (snd (OSTaskChangePrio 10 20 (ex_state 0)))" "OSTCBPrioTbl (snd (OSTaskChangePrio 10 20 (ex_state 0))) 10 = NULL"
      "u \<noteq> 10 \<and> u \<noteq> 20 \<longrightarrow> (\<forall>e. waits (snd (OSTaskChangePrio 10 20 (ex_state 0))) e u = waits (ex_state 0) e u)"
      using C [of 10 20 10] st(5,8) ex_waits [of 0] ex_tasks [of 0] by auto
    have "\<not> waits (snd (OSTaskChangePrio 10 20 (ex_state 0))) 1 10"
      using waitsD(1) [OF kernel_okD(2) [OF A(2)]] A(3) by (metis is_task_def)
    then show ?thesis using A(1,4) ex_waits [of 0 1] by (cases "u = 10"; cases "u = 20") auto
  qed
  moreover have "kernel_ok (snd (OSTaskChangePrio OS_PRIO_SELF 30 (ex_state 0)))
      \<and> rdy (snd (OSTaskChangePrio OS_PRIO_SELF 30 (ex_state 0))) 30 = rdy (ex_state 0) 4"
    using C [of 4 30 OS_PRIO_SELF] st(4,6,7) ex_tasks [of 0] by simp
  ultimately show ?thesis by (auto simp: waiters_def ex_rdy)
qed

lemma EventTaskRdy_cnt: "OSEventCnt (OSEvents (snd (OS_EventTaskRdy e m msk st s)) x) = OSEventCnt (OSEvents s x)"
proof -
  have rem: "OSEventCnt (OSEvents (OS_EventTaskRemove t e s) x) = OSEventCnt (OSEvents s x)" for t e s
    by (simp add: OS_EventTaskRemove_def event_wait_clr_def upd_event_def)
  have multi: "OSEventCnt (OSEvents (event_wait_clr_multi y a b es s) x) = OSEventCnt (OSEvents s x)" for y a b es s
    by (induction es arbitrary: s) (simp_all add: event_wait_clr_def upd_event_def)
  show ?thesis
    by (simp add: OS_EventTaskRdy_def Let_def rem multi OS_EventTaskRemoveMulti_def tcb_rdy_def split: option.splits)
qed

text \<open>
  A task that was woken but has not run yet keeps its \<open>OSTCBEventPtr\<close>; when its priority is changed
  then, it is put back into the wait list although it is ready and waits for nothing, and the next post
  of a token goes to it and is lost.
\<close>

lemma OSTaskChangePrio_phantom:
  assumes ok: "kernel_ok s" and ready: "rdy s p" and p: "p < OS_LOWEST_PRIO" and q: "q < OS_LOWEST_PRIO" "OSTCBPrioTbl s q = NULL"
    and run: "OSRunning s" and e: "OSTCBEventPtr (task_at s p) = e" "e \<noteq> NULL"
    and woken: "OSTCBStatPend (task_at s p) = OS_STAT_PEND_OK"
    and sem: "OSEventType (OSEvents s e) = OS_EVENT_TYPE_SEM" and none: "waiters s e = {}"
  shows "rdy (snd (OSTaskChangePrio p q s)) q \<and> waiters (snd (OSTaskChangePrio p q s)) e = {q}
    \<and> \<not> kinv (snd (OSTaskChangePrio p q s))
    \<and> OSEventCnt (OSEvents (snd (OSSemPost e (snd (OSTaskChangePrio p q s)))) e) = OSEventCnt (OSEvents s e)"
proof -
  note inv = kernel_okD(2) [OF ok]
  have task: "is_task s p" by (rule rdy_task [OF inv ready])
  note p64 = task_prio_ok [OF inv task]
  define s1 where "s1 = prio_changed p q s"
  note F = prio_changed_frame [of p q s, folded s1_def]
  have c: "snd (OSTaskChangePrio p q s) = OS_Sched s1"
    using OSTaskChangePrio_eq [OF inv task p q _ run, of p] by (simp add: s1_def)
  have pq: "p \<noteq> q" using task q(2) by (auto simp: is_task_def)
  have r: "rdy s1 q" using ready p64 q(1) by (simp add: rdy_def F bm_mem_ins bm_mem_del)
  have w: "waits s1 e u \<longleftrightarrow> u = q" for u
    using none e p64 q(1) by (auto simp: waiters_def waits_def F bm_mem_ins bm_mem_del)
  have W: "waiters (OS_Sched s1) e = {q}" unfolding waiters_Sched unfolding waiters_def w by simp
  have at_q: "OSTCBStat (task_at s1 q) = OSTCBStat (task_at s p)" "OSTCBDly (task_at s1 q) = OSTCBDly (task_at s p)"
    by (simp_all add: task_at_def F)
  have run_p: "tcb_runnable (task_at s p)" using rdy_iff [OF inv] ready by simp
  have "\<not> kinv (OS_Sched s1)"
  proof
    assume "kinv (OS_Sched s1)"
    then have k1: "kinv s1" by simp
    have "wait_stat_ok (task_at s1 q) OS_STAT_SEM"
      using waitsD(6) [OF k1, of e q] w sem by (simp add: F)
    moreover have "OSTCBStat (task_at s1 q) AND OS_STAT_PEND_ANY = 0"
      using run_p stat_mask_or_zero unfolding at_q tcb_runnable_def by blast
    ultimately have "OSTCBStatPend (task_at s p) = OS_STAT_PEND_TO"
      by (auto simp: wait_stat_ok_def task_at_def F)
    then show False using woken by simp
  qed
  moreover have "OSEventGrp (OSEvents (OS_Sched s1) e) \<noteq> 0"
  proof -
    have "bm_ok (event_map (OSEvents s1 e))" using bm_ok_event [OF inv] p64 q(1) by (simp add: F bm_ok_ins bm_ok_del)
    then show ?thesis using bm_some_iff [of "event_map (OSEvents s1 e)"] w by (auto simp: waits_def)
  qed
  then have "OSEventCnt (OSEvents (snd (OSSemPost e (OS_Sched s1))) e) = OSEventCnt (OSEvents (OS_Sched s1) e)"
    using sem e(2) by (simp add: OSSemPost_def EventTaskRdy_cnt F)
  moreover have "OSEventCnt (OSEvents (OS_Sched s1) e) = OSEventCnt (OSEvents s e)"
    by (simp add: F)
  ultimately show ?thesis using r W by (simp add: c)
qed

lemma OSTaskChangePrio_phantom_example:
  "\<exists>s. kernel_ok s \<and> waiters s 4 = {} \<and> waiters (snd (OSTaskChangePrio 4 7 s)) 4 = {7}
     \<and> OSEventCnt (OSEvents (snd (OSSemPost 4 (snd (OSTaskChangePrio 4 7 s)))) 4) = 2"
proof -
  have st: "OSRunning (ex_state 4)" "OSTCBPrioTbl (ex_state 4) 7 = NULL" "OSTCBEventPtr (task_at (ex_state 4) 4) = 4"
    "OSTCBStatPend (task_at (ex_state 4) 4) = OS_STAT_PEND_OK" "OSEventType (OSEvents (ex_state 4) 4) = OS_EVENT_TYPE_SEM"
    "OSEventCnt (OSEvents (ex_state 4) 4) = 2"
    by (simp_all add: ex_at) (simp_all add: ex_state_simps)
  then show ?thesis
    using OSTaskChangePrio_phantom [OF ex_kernel_ok, of 4 4 7 4]
    by (intro exI [of _ "ex_state 4"]) (simp add: ex_rdy ex_waiters ex_kernel_ok)
qed

end
