(* ===== verification/Kernel_System.thy ===== *)
theory Kernel_System
  imports Kernel_Frame Task_Prio
begin

text \<open>
  The kernel as a whole: a step relation whose steps are the calls of the semaphore, mailbox, queue,
  memory, time and task services and the tick interrupt, in any order, starting in the state that \<open>main\<close> leaves.  A call
  of a blocking service is one step up to the context switch; its second half is a step of its own,
  taken by the task when it runs again.  Every service has a lemma that it keeps the invariant and one
  that it keeps the list of tasks; the theorem collects them.
\<close>

subsection \<open>The steps of the system\<close>

definition system_ok :: "os_state \<Rightarrow> bool" where
  "system_ok s \<longleftrightarrow> kernel_ok s \<and> (\<exists>ps. tcb_list s ps) \<and> (\<exists>xs. free_tcbs s xs) \<and> OSRunning s
     \<and> OSTickStepState s = OS_TICK_STEP_DIS"

lemma system_ok_links: "system_ok s \<Longrightarrow> kernel_ok s' \<Longrightarrow> links s' = links s \<Longrightarrow> system_ok s'"
  unfolding system_ok_def using links_same [of s' s] by auto

text \<open>
  The task that runs finishes its own pend before it calls another service: \<open>resumes s e\<close> says that it
  is back from a wait on \<open>e\<close>, \<open>user_code s\<close> that it is in no wait list.
\<close>

definition resumes :: "os_state \<Rightarrow> ptr \<Rightarrow> bool" where
  "resumes s e \<longleftrightarrow> OSIntNesting s = 0 \<and> OSLockNesting s = 0 \<and> OSTCBEventPtr (task_at s (OSPrioCur s)) = e"

inductive kstep :: "os_state \<Rightarrow> os_state \<Rightarrow> bool" where
  SemCreate: "kstep s (snd (OSSemCreate cnt s))"
| SemPost: "kstep s (snd (OSSemPost e s))"
| SemPend: "user_code s \<Longrightarrow> kstep s (snd (OSSemPend e timeout s))"
| SemPend_resume: "resumes s e \<Longrightarrow> kstep s (snd (OSSemPend_resume e s))"
| SemAccept: "kstep s (snd (OSSemAccept e s))"
| SemSet: "kstep s (snd (OSSemSet e cnt s))"
| SemDel: "OSSemDel e opt s = Some (r, err, s') \<Longrightarrow> kstep s s'"
| SemPendAbort: "OSSemPendAbort e opt s = Some (n, err, s') \<Longrightarrow> kstep s s'"
| MboxCreate: "kstep s (snd (OSMboxCreate m s))"
| MboxPost: "kstep s (snd (OSMboxPost e m s))"
| MboxPend: "user_code s \<Longrightarrow> kstep s (snd (OSMboxPend e timeout s))"
| MboxPend_resume: "resumes s e \<Longrightarrow> kstep s (snd (snd (OSMboxPend_resume e s)))"
| MboxAccept: "kstep s (snd (OSMboxAccept e s))"
| MboxDel: "OSMboxDel e opt s = Some (r, err, s') \<Longrightarrow> kstep s s'"
| MboxPendAbort: "OSMboxPendAbort e opt s = Some (n, err, s') \<Longrightarrow> kstep s s'"
| MboxPostOpt: "opt AND OS_POST_OPT_NO_SCHED = 0 \<Longrightarrow> OSMboxPostOpt e m opt s = Some (err, s') \<Longrightarrow> kstep s s'"
| QCreate: "kstep s (snd (OSQCreate start sz s))"
| QPost: "kstep s (snd (OSQPost e m s))"
| QPostFront: "kstep s (snd (OSQPostFront e m s))"
| QPostOpt: "opt AND OS_POST_OPT_NO_SCHED = 0 \<Longrightarrow> OSQPostOpt e m opt s = Some (err, s') \<Longrightarrow> kstep s s'"
| QPend: "user_code s \<Longrightarrow> kstep s (snd (OSQPend e timeout s))"
| QPend_resume: "resumes s e \<Longrightarrow> kstep s (snd (snd (OSQPend_resume e s)))"
| QAccept: "kstep s (snd (snd (OSQAccept e s)))"
| QFlush: "kstep s (snd (OSQFlush e s))"
| QDel: "OSQDel e opt s = Some (r, err, s') \<Longrightarrow> kstep s s'"
| QPendAbort: "OSQPendAbort e opt s = Some (n, err, s') \<Longrightarrow> kstep s s'"
| MemCreate: "kstep s (snd (snd (OSMemCreate addr nblks blksize s)))"
| MemGet: "kstep s (snd (snd (OSMemGet pm s)))"
| MemPut: "kstep s (snd (OSMemPut pm blk s))"
| TimeDly: "user_code s \<Longrightarrow> kstep s (OSTimeDly ticks s)"
| TimeDlyResume: "kstep s (snd (OSTimeDlyResume p s))"
| SchedLock: "kstep s (OSSchedLock s)"
| SchedUnlock: "kstep s (OSSchedUnlock s)"
| TaskCreate: "kstep s (snd (OSTaskCreate ret task arg ptos p s))"
| TaskSuspend: "(p = OS_PRIO_SELF \<longrightarrow> OSPrioCur s \<noteq> OS_TASK_IDLE_PRIO) \<Longrightarrow> kstep s (snd (OSTaskSuspend p s))"
| TaskResume: "kstep s (snd (OSTaskResume p s))"
| TaskDel: "(p = OS_PRIO_SELF \<longrightarrow> OSPrioCur s \<noteq> OS_TASK_IDLE_PRIO) \<Longrightarrow> OSLockNesting s = 0 \<Longrightarrow> kstep s (snd (OSTaskDel p s))"
| TaskChangePrio: "user_code s \<Longrightarrow> OSLockNesting s = 0 \<Longrightarrow>
    settled s (if old = OS_PRIO_SELF then OSPrioCur s else old) \<Longrightarrow> kstep s (snd (OSTaskChangePrio old new s))"
| IntEnter: "kstep s (OSIntEnter s)"
| IntExit: "kstep s (OSIntExit s)"
| SysTick: "OSIntNesting s < 255 \<Longrightarrow> SysTick_Handler s = Some s' \<Longrightarrow> kstep s s'"

lemma system_ok_create:
  assumes ok: "system_ok s"
  shows "system_ok (snd (OSTaskCreate ret task arg ptos p s))"
proof (cases "OSIntNesting s = 0 \<and> p \<le> OS_LOWEST_PRIO \<and> OSTCBPrioTbl s p = NULL")
  case False
  then have "snd (OSTaskCreate ret task arg ptos p s) = s" by (auto simp: OSTaskCreate_def word_gt_0)
  then show ?thesis using ok by simp
next
  case True
  note S = ok [unfolded system_ok_def]
  obtain ps xs where l: "tcb_list s ps" "free_tcbs s xs" using S by blast
  note inv = kernel_okD(2) [of s]
  have "is_task s OS_TASK_IDLE_PRIO" using S inv rdy_task [of s OS_TASK_IDLE_PRIO] by (simp add: kinv_def)
  then have lt: "p < OS_LOWEST_PRIO" using True by (cases "p = OS_LOWEST_PRIO") (auto simp: is_task_def)
  let ?s1 = "s\<lparr>OSTCBPrioTbl := (OSTCBPrioTbl s)(p := OS_TCB_RESERVED)\<rparr>"
  obtain psp s2 where i: "OSTaskStkInit ret task arg ptos ?s1 = (psp, s2)" by fastforce
  obtain w where s2: "s2 = ?s1\<lparr>stk_words := w\<rparr>" using OSTaskStkInit_words [of ret task arg ptos ?s1] i by auto
  show ?thesis
  proof (cases xs)
    case Nil
    then have "OSTCBFreeList s = NULL" using l(2) by (simp add: free_tcbs_def tcb_pool_def)
    then have t: "OS_TCBInit p psp NULL 0 0 NULL 0 s2 = (OS_ERR_TASK_NO_MORE_TCB, s2)"
      by (simp add: OS_TCBInit_def tcb_alloc_def s2 Let_def)
    have "(OSTCBPrioTbl s)(p := NULL) = OSTCBPrioTbl s" using True by (simp add: fun_upd_idem)
    then have e: "snd (OSTaskCreate ret task arg ptos p s) = s\<lparr>stk_words := w\<rparr>"
      using True lt i t by (simp del: One_nat_def add: OSTaskCreate_def Let_def s2)
    have "kernel_ok (s\<lparr>stk_words := w\<rparr>)"
      by (rule kernel_ok_cong [of s]) (use S in \<open>auto simp: kernel_same_def rdy_map_def intro: events_ok_cong [OF _ _ kernel_okD(5)]\<close>)
    moreover have "links (s\<lparr>stk_words := w\<rparr>) = links s" by (simp add: links_def)
    ultimately show ?thesis unfolding e by (rule system_ok_links [OF ok])
  next
    case (Cons x ys)
    obtain err s' where c: "OSTaskCreate ret task arg ptos p s = (err, s')" by fastforce
    note C = OSTaskCreate_ok [OF _ l(1) l(2) [unfolded Cons] _ lt _ _ c]
    obtain e3 s3 where t: "OS_TCBInit p psp NULL 0 0 NULL 0 s2 = (e3, s3)" by fastforce
    note to = OS_TCBInit_only [OF t]
    have "OSTickStepState s3 = OSTickStepState s2" by (subst to [unfolded task_only_def]) simp
    then have f: "OSRunning s3" "OSTickStepState s3 = OS_TICK_STEP_DIS" using task_onlyD(5) [OF to] S by (simp_all add: s2)
    have e: "err = e3" "s' = (if e3 = OS_ERR_NONE then OS_Sched s3 else s3\<lparr>OSTCBPrioTbl := (OSTCBPrioTbl s3)(p := NULL)\<rparr>)"
      using c True lt i t f(1) by (simp_all del: One_nat_def add: OSTaskCreate_def Let_def split: if_splits)
    have C': "err = OS_ERR_NONE" "kernel_ok s'" "tcb_list s' (p # ps)" "free_tcbs s' ys" using C S True by simp_all
    have "s' = OS_Sched s3" using e C'(1) by simp
    then have "OSRunning s'" "OSTickStepState s' = OS_TICK_STEP_DIS" using f links_same(3,4) [OF links_Sched, of s3] by simp_all
    then show ?thesis using C' c by (auto simp: system_ok_def)
  qed
qed

lemma del_control:
  "OSRunning (task_del_free p t (task_del_wait t s)) = OSRunning s \<and>
   OSTickStepState (task_del_free p t (task_del_wait t s)) = OSTickStepState s"
proof -
  have flag: "OSRunning (OS_FlagUnlink n s) = OSRunning s \<and> OSTickStepState (OS_FlagUnlink n s) = OSTickStepState s" for n s
    by (simp add: OS_FlagUnlink_def Let_def upd_flag_def upd_node_def upd_tcb_def)
  have "OSRunning (task_del_wait t s) = OSRunning s \<and> OSTickStepState (task_del_wait t s) = OSTickStepState s"
    using links_same(3,4) [OF links_event(1)] links_same(3,4) [OF links_event(2)]
    by (simp add: task_del_wait_def Let_def flag tcb_unrdy_def OS_EventTaskRemoveMulti_def split: option.split)
  then show ?thesis by (simp add: task_del_free_def tcb_free_def Let_def upd_tcb_def)
qed

text \<open>The running task may name itself by \<open>OS_PRIO_SELF\<close>, the idle task excepted.\<close>

lemma self_services:
  assumes ok: "kernel_ok s" and i: "OSPrioCur s \<noteq> OS_TASK_IDLE_PRIO"
  shows "OSPrioCur s \<noteq> OS_PRIO_SELF"
    and "snd (OSTaskSuspend OS_PRIO_SELF s) = snd (OSTaskSuspend (OSPrioCur s) s)"
    and "snd (OSTaskDel OS_PRIO_SELF s) = snd (OSTaskDel (OSPrioCur s) s)"
proof -
  have c: "OSTCBCur s = OSTCBPrioTbl s (OSPrioCur s)" "is_task s (OSPrioCur s)" using kernel_okD(3) [OF ok] by (simp_all add: cur_ok_def)
  note t = task_prio_ok [OF kernel_okD(2) [OF ok] c(2)]
  have p: "OSTCBPrio (OSTCBTbl s (OSTCBCur s)) = OSPrioCur s" "OSPrioCur s < 63"
    using t i by (auto simp: task_at_def c(1) tcb_prio_ok_def)
  then show "OSPrioCur s \<noteq> OS_PRIO_SELF" "snd (OSTaskSuspend OS_PRIO_SELF s) = snd (OSTaskSuspend (OSPrioCur s) s)"
    "snd (OSTaskDel OS_PRIO_SELF s) = snd (OSTaskDel (OSPrioCur s) s)"
    by (simp_all add: OSTaskSuspend_def OSTaskDel_def Let_def)
qed

lemma system_ok_del:
  assumes ok: "system_ok s" and p: "p \<noteq> OS_PRIO_SELF" and lock: "OSLockNesting s = 0"
  shows "system_ok (snd (OSTaskDel p s))"
proof (cases "OSIntNesting s = 0 \<and> p < OS_LOWEST_PRIO \<and> is_task s p")
  case False
  then have "snd (OSTaskDel p s) = s" using p by (auto simp: OSTaskDel_def is_task_def Let_def word_gt_0)
  then show ?thesis using ok by simp
next
  case True
  note S = ok [unfolded system_ok_def]
  obtain ps xs where l: "tcb_list s ps" "free_tcbs s xs" using S by blast
  have "p \<in> set (ps @ [OS_TASK_IDLE_PRIO])" using l(1) True by (simp add: tcb_list_def)
  then have "p \<in> set ps" using True by auto
  then obtain as bs where ps: "ps = as @ p # bs" by (meson split_list)
  obtain err s' where d: "OSTaskDel p s = (err, s')" by fastforce
  have D: "kernel_ok s'" "tcb_list s' (as @ bs)" "free_tcbs s' (OSTCBPrioTbl s p # xs)"
    using OSTaskDel_ok [OF _ l(1) [unfolded ps] l(2) _ _ lock d] S True by simp_all
  define s1 where "s1 = task_del_free p (OSTCBPrioTbl s p) (task_del_wait (OSTCBPrioTbl s p) s)"
  have c: "OSRunning s1" "OSTickStepState s1 = OS_TICK_STEP_DIS" using del_control S by (simp_all add: s1_def)
  have "s' = OS_Sched s1"
    using d True p c(1) by (auto simp: OSTaskDel_def is_task_def Let_def s1_def split: if_splits)
  then have "OSRunning s'" "OSTickStepState s' = OS_TICK_STEP_DIS" using c links_same(3,4) [OF links_Sched, of s1] by simp_all
  then show ?thesis using D d by (auto simp: system_ok_def)
qed

text \<open>A new priority renames a task: it keeps its place in the list of tasks.\<close>

lemma system_ok_change_prio:
  assumes ok: "system_ok s" and uc: "user_code s" and lock: "OSLockNesting s = 0"
    and st: "settled s (if old = OS_PRIO_SELF then OSPrioCur s else old)"
  shows "system_ok (snd (OSTaskChangePrio old q s))"
proof (cases "snd (OSTaskChangePrio old q s) = s")
  case True
  then show ?thesis using ok by simp
next
  case False
  note S = ok [unfolded system_ok_def]
  have k: "kernel_ok s" using S by simp
  note inv = kernel_okD(2) [OF k]
  obtain ps xs where l: "tcb_list s ps" "free_tcbs s xs" using S by blast
  define p where "p = (if old = OS_PRIO_SELF then OSPrioCur s else old)"
  have cp: "is_task s (OSPrioCur s)" "OSTCBPrio (OSTCBTbl s (OSTCBCur s)) = OSPrioCur s"
    using kernel_okD(3) [OF k] task_prio [OF inv, of "OSPrioCur s"] by (auto simp: cur_ok_def task_at_def)
  have ov: "old < OS_LOWEST_PRIO \<or> old = OS_PRIO_SELF"
    by (rule ccontr) (use False in \<open>simp add: OSTaskChangePrio_def\<close>)
  have q1: "q < OS_LOWEST_PRIO"
    by (rule ccontr) (use False in \<open>simp add: OSTaskChangePrio_def\<close>)
  have q2: "OSTCBPrioTbl s q = NULL"
    by (rule ccontr) (use False q1 in \<open>simp add: OSTaskChangePrio_def\<close>)
  note q = q1 q2
  have p': "(if old = OS_PRIO_SELF then OSTCBPrio (OSTCBTbl s (OSTCBCur s)) else old) = p"
    by (simp add: p_def cp(2))
  have t1: "OSTCBPrioTbl s p \<noteq> NULL"
    by (rule ccontr) (use False q in \<open>simp add: OSTaskChangePrio_def p' Let_def\<close>)
  have "OSTCBPrioTbl s p \<noteq> OS_TCB_RESERVED"
    by (rule ccontr) (use False q t1 in \<open>simp add: OSTaskChangePrio_def p' Let_def\<close>)
  with t1 have "OSTCBPrioTbl s p \<noteq> NULL \<and> OSTCBPrioTbl s p \<noteq> OS_TCB_RESERVED" by simp
  then have task: "is_task s p" by (simp add: is_task_def)
  have "OSPrioCur s < OS_LOWEST_PRIO" using uc task_prio_ok [OF inv cp(1)] by (simp add: user_code_def)
  then have p: "p < OS_LOWEST_PRIO" "old = p \<or> old = OS_PRIO_SELF \<and> p = OSPrioCur s"
    using ov by (auto simp: p_def)
  have nest: "OSIntNesting s = 0" using uc by (simp add: user_code_def)
  define s1 where "s1 = prio_changed p q s"
  note K = OSTaskChangePrio_kernel [OF k task p(1) q p(2) _ nest lock st [folded p_def], folded s1_def]
  note F = prio_changed_frame [of p q s, folded s1_def]
  have pq: "p \<noteq> q" using task q(2) by (auto simp: is_task_def)
  define ren where "ren = (\<lambda>u. if u = p then q else u)"
  have pl: "p \<in> set ps" "q \<notin> set ps" "OS_TASK_IDLE_PRIO \<noteq> p" "OS_TASK_IDLE_PRIO \<noteq> q"
  proof -
    have set: "u \<in> set (ps @ [OS_TASK_IDLE_PRIO]) \<longleftrightarrow> is_task s u" for u
      using l(1) unfolding tcb_list_def by blast
    have "\<not> is_task s q" using q(2) by (simp add: is_task_def)
    with set [of p] set [of q] task p(1) q(1) show "p \<in> set ps" "q \<notin> set ps" "OS_TASK_IDLE_PRIO \<noteq> p" "OS_TASK_IDLE_PRIO \<noteq> q"
      by auto
  qed
  have tbl: "map (OSTCBPrioTbl s1) (map ren ps @ [OS_TASK_IDLE_PRIO]) = map (OSTCBPrioTbl s) (ps @ [OS_TASK_IDLE_PRIO])"
    using pl pq by (auto simp: ren_def F(1))
  have nx: "tcb_next s1 = tcb_next s" "tcb_prev s1 = tcb_prev s" "OSTCBList s1 = OSTCBList s"
    by (auto simp: F(6,13) task_at_def fun_eq_iff)
  have "inj_on ren (set ps)" using pl by (auto simp: inj_on_def ren_def)
  moreover have "set (map ren ps @ [OS_TASK_IDLE_PRIO]) = {u. is_task s1 u}"
  proof -
    have "set (map ren ps @ [OS_TASK_IDLE_PRIO]) = insert q (set (ps @ [OS_TASK_IDLE_PRIO]) - {p})"
      using pl by (auto simp: ren_def)
    also have "\<dots> = {u. is_task s1 u}"
    proof -
      have "set (ps @ [OS_TASK_IDLE_PRIO]) = {u. is_task s u}" using l(1) unfolding tcb_list_def by blast
      with K(3) S show ?thesis by auto
    qed
    finally show ?thesis .
  qed
  ultimately have "tcb_list s1 (map ren ps)"
    using l(1) pl unfolding tcb_list_def tbl nx by (auto simp: distinct_map ren_def)
  moreover have "free_tcbs s1 xs"
  proof -
    have "OSTCBFreeList s1 = OSTCBFreeList s"
      by (simp add: s1_def prio_changed_def prio_moved_def tcb_set_prio_def Let_def upd_event_def)
    moreover have "OSTCBPrioTbl s1 u \<noteq> x" if "x \<in> set xs" "is_task s1 u" for x u
      using l(2) that task K(3) [of u] S pq by (auto simp: free_tcbs_def F(1))
    ultimately show ?thesis using l(2) nx(1) by (simp add: free_tcbs_def tcb_pool_def)
  qed
  moreover have "OSRunning s1" "OSTickStepState s1 = OS_TICK_STEP_DIS"
    using S by (simp_all add: F(12)) (simp add: s1_def prio_changed_def prio_moved_def tcb_set_prio_def Let_def upd_event_def)
  ultimately have "tcb_list (OS_Sched s1) (map ren ps)" "free_tcbs (OS_Sched s1) xs" "OSRunning (OS_Sched s1)"
    "OSTickStepState (OS_Sched s1) = OS_TICK_STEP_DIS"
    using links_same [OF links_Sched, of s1] by auto
  then show ?thesis using K(1,2) S by (auto simp: system_ok_def)
qed

lemma kernel_ok_suspend:
  assumes ok: "kernel_ok s" and p: "p \<noteq> OS_PRIO_SELF"
  shows "kernel_ok (snd (OSTaskSuspend p s))"
proof (cases "is_task s p \<and> p < OS_LOWEST_PRIO")
  case True
  then show ?thesis using OSTaskSuspend_ok [OF ok _ _ surjective_pairing] by blast
next
  case False
  then show ?thesis using ok p by (auto simp: OSTaskSuspend_def is_task_def Let_def)
qed

lemma kernel_ok_resume:
  assumes ok: "kernel_ok s" and run: "OSRunning s"
  shows "kernel_ok (snd (OSTaskResume p s))"
proof (cases "is_task s p \<and> p < OS_LOWEST_PRIO")
  case True
  then show ?thesis using OSTaskResume_ok [OF ok _ _ run surjective_pairing, of p] ok
    by (cases "OSTCBStat (task_at s p) AND OS_STAT_SUSPEND = 0") auto
next
  case False
  then show ?thesis using ok by (auto simp: OSTaskResume_def is_task_def Let_def)
qed

lemma links_mbox_create [links]: "links (snd (OSMboxCreate m s)) = links s"
  using links_event(5) [of s] by (cases "event_alloc s") (auto simp: OSMboxCreate_def links)

lemma kernel_ok_pend_resume:
  assumes ok: "kernel_ok s" and r: "resumes s e"
  shows "kernel_ok (snd (OSSemPend_resume e s))" and "kernel_ok (snd (snd (OSMboxPend_resume e s)))"
proof -
  show "kernel_ok (snd (OSSemPend_resume e s))"
    using r event_pend_end_ok(1) [OF ok _ _ _ surjective_pairing, of e] by (simp add: OSSemPend_resume_def resumes_def)
  obtain msg perr s2 where "OSMboxPend_resume e s = (msg, perr, s2)" by (metis prod.collapse)
  then show "kernel_ok (snd (snd (OSMboxPend_resume e s)))"
    using r OSMboxPend_resume_correct [OF ok, of e msg perr s2] by (simp add: resumes_def)
qed

lemma system_ok_tick:
  assumes ok: "system_ok s" and n: "OSIntNesting s < 255" and t: "SysTick_Handler s = Some s'"
  shows "system_ok s'"
proof (rule system_ok_links [OF ok])
  obtain ps where "tcb_list s ps" using ok by (auto simp: system_ok_def)
  from SysTick_Handler_ok [OF _ tcb_list_chain [OF this] n] show "kernel_ok s'" using ok t by (auto simp: system_ok_def)
  show "links s' = links s" using links_tick [OF t] ok by (simp add: system_ok_def)
qed

text \<open>The theorem of the steps.\<close>

lemma kstep_ok:
  assumes st: "kstep s s'" and ok: "system_ok s"
  shows "system_ok s'"
proof -
  have k: "kernel_ok s" and run: "OSRunning s" using ok by (simp_all add: system_ok_def)
  note L = system_ok_links [OF ok]
  from st show ?thesis
  proof cases
    case SemCreate
    then show ?thesis using L [OF kernel_ok_sem(4) [OF k]] by (simp add: links)
  next
    case SemPost
    then show ?thesis using L [OF kernel_ok_SemPost [OF k]] by (simp add: links)
  next
    case SemPend
    then show ?thesis using L [OF kernel_ok_sem(1) [OF k]] by (simp add: links)
  next
    case (SemPend_resume e)
    then show ?thesis using L [OF kernel_ok_pend_resume(1) [OF k]] by (simp add: OSSemPend_resume_def links)
  next
    case SemAccept
    then show ?thesis using L [OF kernel_ok_sem(2) [OF k]] by (simp add: links)
  next
    case SemSet
    then show ?thesis using L [OF kernel_ok_sem(3) [OF k]] by (simp add: links)
  next
    case (SemDel e opt r err)
    then show ?thesis using sem_loops_ok(1) [OF k, of e opt] L by auto
  next
    case (SemPendAbort e opt n err)
    then show ?thesis using sem_loops_ok(2) [OF k, of e opt] L by auto
  next
    case MboxCreate
    then show ?thesis using L [OF kernel_ok_mbox(4) [OF k]] by (simp add: links)
  next
    case MboxPost
    then show ?thesis using L [OF kernel_ok_mbox(1) [OF k]] by (simp add: links)
  next
    case MboxPend
    then show ?thesis using L [OF kernel_ok_mbox(2) [OF k]] by (simp add: links)
  next
    case MboxPend_resume
    then show ?thesis using L [OF kernel_ok_pend_resume(2) [OF k]] by (simp add: links)
  next
    case MboxAccept
    then show ?thesis using L [OF kernel_ok_mbox(3) [OF k]] by (simp add: links)
  next
    case (MboxDel e opt r err)
    then show ?thesis using mbox_loops_ok(1) [OF k, of e opt] L by auto
  next
    case (MboxPendAbort e opt n err)
    then show ?thesis using mbox_loops_ok(2) [OF k, of e opt] L by auto
  next
    case (MboxPostOpt opt e m err)
    then show ?thesis using mbox_loops_ok(3) [OF k, of opt e m] L by auto
  next
    case QCreate
    then show ?thesis using L queue_create_ok [OF k] by simp
  next
    case QPost
    then show ?thesis using L kernel_ok_queue(1) [OF k] by simp
  next
    case QPostFront
    then show ?thesis using L kernel_ok_queue(2) [OF k] by simp
  next
    case (QPostOpt opt e m err)
    then show ?thesis using queue_loops_ok(3) [OF k, of opt e m] L by auto
  next
    case QPend
    then show ?thesis using L kernel_ok_queue(3) [OF k] by simp
  next
    case QPend_resume
    then show ?thesis using L [OF kernel_ok_pend_resume(2) [OF k]] by (simp add: OSQPend_resume_eq links)
  next
    case QAccept
    then show ?thesis using L kernel_ok_queue(4) [OF k] by simp
  next
    case QFlush
    then show ?thesis using L kernel_ok_queue(5) [OF k] by simp
  next
    case (QDel e opt r err)
    then show ?thesis using queue_loops_ok(1) [OF k, of e opt] L by auto
  next
    case (QPendAbort e opt n err)
    then show ?thesis using queue_loops_ok(2) [OF k, of e opt] L by auto
  next
    case MemCreate
    then show ?thesis using L [OF side_same_ok [OF k]] side_services(3) by simp
  next
    case MemGet
    then show ?thesis using L [OF side_same_ok [OF k]] side_services(1) by simp
  next
    case MemPut
    then show ?thesis using L [OF side_same_ok [OF k]] side_services(2) by simp
  next
    case TimeDly
    then show ?thesis using L [OF kernel_ok_time(1) [OF k]] by (simp add: links)
  next
    case TimeDlyResume
    then show ?thesis using L [OF kernel_ok_time(2) [OF k]] by (simp add: links)
  next
    case SchedLock
    then show ?thesis using L [OF kernel_ok_time(3) [OF k]] by (simp add: links)
  next
    case SchedUnlock
    then show ?thesis using L [OF kernel_ok_time(4) [OF k]] by (simp add: links)
  next
    case TaskCreate
    then show ?thesis using system_ok_create [OF ok] by simp
  next
    case (TaskSuspend p)
    define q where "q = (if p = OS_PRIO_SELF then OSPrioCur s else p)"
    have "snd (OSTaskSuspend p s) = snd (OSTaskSuspend q s)" "q \<noteq> OS_PRIO_SELF"
      using TaskSuspend(2) self_services [OF k] by (simp_all add: q_def split: if_splits)
    then show ?thesis using TaskSuspend(1) L [OF kernel_ok_suspend [OF k, of q]] by (simp add: links)
  next
    case TaskResume
    then show ?thesis using L [OF kernel_ok_resume [OF k run]] by (simp add: links)
  next
    case (TaskDel p)
    define q where "q = (if p = OS_PRIO_SELF then OSPrioCur s else p)"
    have "snd (OSTaskDel p s) = snd (OSTaskDel q s)" "q \<noteq> OS_PRIO_SELF"
      using TaskDel(2) self_services [OF k] by (simp_all add: q_def split: if_splits)
    then show ?thesis using TaskDel(1,3) system_ok_del [OF ok, of q] by simp
  next
    case TaskChangePrio
    then show ?thesis using system_ok_change_prio [OF ok] by simp
  next
    case IntEnter
    then show ?thesis using L [OF kernel_ok_time(5) [OF k]] by (simp add: links)
  next
    case IntExit
    then show ?thesis using L [OF kernel_ok_time(6) [OF k run]] by (simp add: links)
  next
    case SysTick
    then show ?thesis using system_ok_tick [OF ok] by simp
  qed
qed

lemma main_system_ok: "OSTickStepState s = OS_TICK_STEP_DIS \<Longrightarrow> system_ok (main env s)"
  using main_ok(1) [of env s] main_tick [of env s] by (auto simp: system_ok_def run_ok_def)

text \<open>
  The states of the system: those that a run of \<open>main\<close> on memory whose tick-stepping flag is clear (the
  start-up code clears all of it) can reach, whatever the application calls, in any order, and whenever
  the tick comes.
\<close>

inductive reach :: "app_env \<Rightarrow> os_state \<Rightarrow> bool" for env where
  reach_main: "OSTickStepState s = OS_TICK_STEP_DIS \<Longrightarrow> reach env (main env s)"
| reach_step: "reach env s \<Longrightarrow> kstep s s' \<Longrightarrow> reach env s'"

lemma reach_ok: "reach env s \<Longrightarrow> system_ok s"
  by (induction rule: reach.induct) (auto intro: main_system_ok kstep_ok)



text \<open>One run: the start, the wait of the timer task, then a tick.\<close>

definition ex_env :: app_env where
  "ex_env = \<lparr>ret_fn = 0x100, idle_fn = 0x200, stat_fn = 0x300, tmr_fn = 0x400, idle_stk = 1000, stat_stk = 1200,
     tmr_stk = 1400, except_stk = 1600, start_fn = 0x500, ui_fn = 0x600, key_fn = 0x700, ad_fn = 0x800, speed_fn = 0x900,
     turn_fn = 0xA00, APP_START_STK = 2000, APP_UI_STK = 3000, APP_KEY_STK = 4000, APP_AD_STK = 5000,
     APP_SPEED_STK = 6000, APP_TURN_STK = 7000\<rparr>"



end
