(* ===== verification/OS_Multi.thy ===== *)
theory OS_Multi
  imports OS_Sem OS_Mbox OS_Queue Task_Life
begin

text \<open>
  Waiting for several events at once (\<open>OSEventPendMulti\<close> of \<open>os_core.c\<close>): semaphores, mailboxes and queues
  in one array that ends with a null pointer.  The array is the list of its elements before the null
  pointer, and so are the two arrays the service fills in, \<open>pevents_rdy\<close> and \<open>pmsgs_rdy\<close>.  A task that
  waits in this way is in several wait lists, which the kernel invariant of the other services does not
  allow, so what follows is stated on the lists themselves.
\<close>

subsection \<open>The service\<close>

definition multi_type_ok :: "INT8U \<Rightarrow> bool" where
  "multi_type_ok ty \<longleftrightarrow> ty = OS_EVENT_TYPE_SEM \<or> ty = OS_EVENT_TYPE_MBOX \<or> ty = OS_EVENT_TYPE_Q"

text \<open>
  The loop that takes what is there: the number of ready events, the events, their messages and the
  status bits of the events that have nothing.  \<open>False\<close> is the way out of its \<open>default\<close> label.
\<close>

record multi_out =
  events_rdy_nbr :: INT16U
  pevents_rdy :: "ptr list"
  pmsgs_rdy :: "ptr list"
  events_stat :: INT8U

definition multi_add :: "ptr \<Rightarrow> ptr \<Rightarrow> multi_out \<Rightarrow> multi_out" where
  "multi_add e m out = out\<lparr>events_rdy_nbr := events_rdy_nbr out + 1, pevents_rdy := pevents_rdy out @ [e],
     pmsgs_rdy := pmsgs_rdy out @ [m]\<rparr>"

fun multi_collect :: "ptr list \<Rightarrow> multi_out \<Rightarrow> os_state \<Rightarrow> bool \<times> multi_out \<times> os_state" where
  "multi_collect [] out s = (True, out, s)"
| "multi_collect (e # es) out s =
     (let ev = OSEvents s e
      in if OSEventType ev = OS_EVENT_TYPE_SEM then
           (if OSEventCnt ev > 0
            then multi_collect es (multi_add e NULL out) (upd_event e (\<lambda>ev. ev\<lparr>OSEventCnt := OSEventCnt ev - 1\<rparr>) s)
            else multi_collect es (out\<lparr>events_stat := events_stat out OR OS_STAT_SEM\<rparr>) s)
         else if OSEventType ev = OS_EVENT_TYPE_MBOX then
           (if OSEventPtr ev \<noteq> NULL
            then multi_collect es (multi_add e (OSEventPtr ev) out) (upd_event e (\<lambda>ev. ev\<lparr>OSEventPtr := NULL\<rparr>) s)
            else multi_collect es (out\<lparr>events_stat := events_stat out OR OS_STAT_MBOX\<rparr>) s)
         else if OSEventType ev = OS_EVENT_TYPE_Q then
           (if OSQEntries (fst (queue_of s e)) > 0
            then (let (pmsg, r) = q_get (queue_of s e) in multi_collect es (multi_add e pmsg out) (set_queue e r s))
            else multi_collect es (out\<lparr>events_stat := events_stat out OR OS_STAT_Q\<rparr>) s)
         else (False, out, s))"

definition multi_out0 :: multi_out where
  "multi_out0 = \<lparr>events_rdy_nbr = 0, pevents_rdy = [], pmsgs_rdy = [], events_stat = OS_STAT_RDY\<rparr>"

text \<open>The call up to the context switch; the last two arguments say that an output array is missing.\<close>

type_synonym multi_result = "INT16U \<times> INT8U \<times> ptr list \<times> ptr list"

definition OSEventPendMulti ::
  "ptr list option \<Rightarrow> INT32U \<Rightarrow> bool \<Rightarrow> bool \<Rightarrow> os_state \<Rightarrow> multi_result option \<times> os_state" where
  "OSEventPendMulti pevents_pend timeout rdy_null msgs_null s =
     (case pevents_pend of
        None \<Rightarrow> (Some (0, OS_ERR_PEVENT_NULL, [], []), s)
      | Some es \<Rightarrow>
          if es = [] then (Some (0, OS_ERR_PEVENT_NULL, [], []), s)
          else if rdy_null then (Some (0, OS_ERR_PEVENT_NULL, [], []), s)
          else if msgs_null then (Some (0, OS_ERR_PEVENT_NULL, [], []), s)
          else if \<not> list_all (\<lambda>e. multi_type_ok (OSEventType (OSEvents s e))) es then (Some (0, OS_ERR_EVENT_TYPE, [], []), s)
          else if OSIntNesting s > 0 then (Some (0, OS_ERR_PEND_ISR, [], []), s)
          else if OSLockNesting s > 0 then (Some (0, OS_ERR_PEND_LOCKED, [], []), s)
          else (let (good, out, s1) = multi_collect es multi_out0 s
                in if \<not> good then (Some (events_rdy_nbr out, OS_ERR_EVENT_TYPE, pevents_rdy out, pmsgs_rdy out), s1)
                   else if pevents_rdy out \<noteq> []
                   then (Some (events_rdy_nbr out, OS_ERR_NONE, pevents_rdy out, pmsgs_rdy out), s1)
                   else (let s2 = upd_tcb (OSTCBCur s1) (\<lambda>t. t\<lparr>OSTCBStat := OSTCBStat t OR (events_stat out OR OS_STAT_MULTI),
                                    OSTCBStatPend := OS_STAT_PEND_OK, OSTCBDly := timeout\<rparr>) s1
                         in (None, OS_Sched (OS_EventTaskWaitMulti es s2)))))"

text \<open>The rest of the call, when the task runs again.\<close>

definition OSEventPendMulti_resume :: "ptr list \<Rightarrow> os_state \<Rightarrow> multi_result \<times> os_state" where
  "OSEventPendMulti_resume es s =
     (let cur = OSTCBCur s;
          sp = OSTCBStatPend (OSTCBTbl s cur);
          pevent = OSTCBEventPtr (OSTCBTbl s cur);
          (nbr, rdys, s1) =
            (if sp = OS_STAT_PEND_OK \<or> sp = OS_STAT_PEND_ABORT then
               (if pevent \<noteq> NULL then (1, [pevent], s)
                else (0, [], OS_EventTaskRemoveMulti cur es (upd_tcb cur (\<lambda>t. t\<lparr>OSTCBStatPend := OS_STAT_PEND_TO\<rparr>) s)))
             else (0, [], OS_EventTaskRemoveMulti cur es s));
          sp = OSTCBStatPend (OSTCBTbl s1 cur);
          reset = upd_tcb cur (\<lambda>t. t\<lparr>OSTCBStat := OS_STAT_RDY, OSTCBStatPend := OS_STAT_PEND_OK,
                    OSTCBEventPtr := NULL, OSTCBEventMultiPtr := None, OSTCBMsg := NULL\<rparr>) s1
      in if sp = OS_STAT_PEND_OK then
           (let ty = OSEventType (OSEvents s1 pevent)
            in if ty = OS_EVENT_TYPE_SEM then ((nbr, OS_ERR_NONE, rdys, [NULL]), reset)
               else if ty = OS_EVENT_TYPE_MBOX \<or> ty = OS_EVENT_TYPE_Q
               then ((nbr, OS_ERR_NONE, rdys, [OSTCBMsg (OSTCBTbl s1 cur)]), reset)
               else ((nbr, OS_ERR_EVENT_TYPE, rdys, []), s1))
         else if sp = OS_STAT_PEND_ABORT then ((nbr, OS_ERR_PEND_ABORT, rdys, [NULL]), reset)
         else ((nbr, OS_ERR_TIMEOUT, rdys, [NULL]), reset))"

subsection \<open>Events that have something: the accept services in turn\<close>

definition event_accept :: "ptr \<Rightarrow> os_state \<Rightarrow> ptr option \<times> os_state" where
  "event_accept e s =
     (if OSEventType (OSEvents s e) = OS_EVENT_TYPE_SEM
      then (let (n, s1) = OSSemAccept e s in (if n > 0 then Some NULL else None, s1))
      else if OSEventType (OSEvents s e) = OS_EVENT_TYPE_MBOX
      then (let (m, s1) = OSMboxAccept e s in (if m \<noteq> NULL then Some m else None, s1))
      else (let (m, err, s1) = OSQAccept e s in (if err = OS_ERR_NONE then Some m else None, s1)))"

primrec accept_all :: "ptr list \<Rightarrow> os_state \<Rightarrow> (ptr \<times> ptr) list \<times> os_state" where
  "accept_all [] s = ([], s)"
| "accept_all (e # es) s =
     (let (r, s1) = event_accept e s; (rs, s2) = accept_all es s1
      in (case r of None \<Rightarrow> rs | Some m \<Rightarrow> (e, m) # rs, s2))"

text \<open>What the kernel's lists of the service are.\<close>

definition multi_event :: "os_state \<Rightarrow> ptr \<Rightarrow> bool" where
  "multi_event s e \<longleftrightarrow> e \<noteq> NULL \<and> multi_type_ok (OSEventType (OSEvents s e))"

lemma multi_event_cases:
  assumes "multi_event s e"
  obtains (sem) "is_sem s e" "OSEventType (OSEvents s e) = OS_EVENT_TYPE_SEM"
  | (mbox) "is_mbox s e" "OSEventType (OSEvents s e) = OS_EVENT_TYPE_MBOX"
  | (queue) "e \<noteq> NULL" "OSEventType (OSEvents s e) = OS_EVENT_TYPE_Q"
  using assms by (auto simp: multi_event_def multi_type_ok_def is_sem_def is_mbox_def)

lemma event_accept_type: "OSEventType (OSEvents (snd (event_accept e s)) e') = OSEventType (OSEvents s e')"
  by (simp add: event_accept_def OSSemAccept_def OSMboxAccept_def OSQAccept_def set_queue_def Let_def split: prod.splits)

lemma event_accept_none:
  assumes "multi_event s e" and "fst (event_accept e s) = None"
  shows "snd (event_accept e s) = s"
  using assms(1)
proof (cases rule: multi_event_cases)
  case sem
  then show ?thesis using assms(2) by (auto simp: event_accept_def OSSemAccept_def is_sem_def Let_def split: if_splits)
next
  case mbox
  then have "OSEventPtr (OSEvents s e) = NULL"
    using assms(2) by (auto simp: event_accept_def OSMboxAccept_def is_mbox_def split: if_splits)
  then have "upd_event e (\<lambda>ev. ev\<lparr>OSEventPtr := NULL\<rparr>) s = s" by (simp add: upd_event_def fun_upd_idem)
  with mbox show ?thesis by (simp add: event_accept_def OSMboxAccept_def is_mbox_def)
next
  case queue
  then show ?thesis using assms(2)
    by (auto simp: event_accept_def OSQAccept_def split: if_splits prod.splits)
qed

lemma event_accept_kernel:
  assumes ok: "kernel_ok s" and e: "multi_event s e"
  shows "kernel_ok (snd (event_accept e s))"
  using e
proof (cases rule: multi_event_cases)
  case sem
  then show ?thesis using OSSemAccept_ok(1) [OF ok, of e] by (simp add: event_accept_def case_prod_beta Let_def)
next
  case mbox
  then show ?thesis using OSMboxAccept_ok(1) [OF ok, of e] by (simp add: event_accept_def case_prod_beta Let_def)
next
  case queue
  then show ?thesis using kernel_ok_set_queue [OF ok] ok
    by (simp add: event_accept_def OSQAccept_def case_prod_beta Let_def)
qed

lemma multi_event_accept: "multi_event (snd (event_accept e s)) e' = multi_event s e'"
  by (simp add: multi_event_def event_accept_type)

lemma accept_all_ok:
  assumes "kernel_ok s" and "\<And>e. e \<in> set es \<Longrightarrow> multi_event s e"
  shows "kernel_ok (snd (accept_all es s))" and "fst (accept_all es s) = [] \<Longrightarrow> snd (accept_all es s) = s"
proof -
  have "kernel_ok (snd (accept_all es s)) \<and> (fst (accept_all es s) = [] \<longrightarrow> snd (accept_all es s) = s)"
    using assms
  proof (induction es arbitrary: s)
    case (Cons e es)
    note e = Cons.prems(2) [of e]
    have IH: "kernel_ok (snd (accept_all es (snd (event_accept e s))))
      \<and> (fst (accept_all es (snd (event_accept e s))) = [] \<longrightarrow>
           snd (accept_all es (snd (event_accept e s))) = snd (event_accept e s))"
      by (rule Cons.IH [OF event_accept_kernel [OF Cons.prems(1)]]) (use Cons.prems(2) in \<open>simp_all add: multi_event_accept\<close>)
    then show ?case using event_accept_none [of s e] e
      by (auto simp: case_prod_beta Let_def split: option.splits)
  qed simp
  then show "kernel_ok (snd (accept_all es s))" and "fst (accept_all es s) = [] \<Longrightarrow> snd (accept_all es s) = s" by simp_all
qed

text \<open>One turn of the loop is one accept.\<close>

lemma multi_collect_step:
  assumes "multi_event s e"
  shows "\<exists>st. st AND OS_STAT_SUSPEND = events_stat out AND OS_STAT_SUSPEND \<and> multi_collect (e # es) out s = multi_collect es
    (case fst (event_accept e s) of None \<Rightarrow> out\<lparr>events_stat := st\<rparr> | Some m \<Rightarrow> multi_add e m out) (snd (event_accept e s))"
proof (cases "fst (event_accept e s)")
  case None
  have or: "(a OR b) AND OS_STAT_SUSPEND = a AND OS_STAT_SUSPEND" if "b AND OS_STAT_SUSPEND = 0" for a b :: INT8U
    using that by (simp add: bit.conj_disj_distrib2)
  have "\<exists>st. st AND OS_STAT_SUSPEND = events_stat out AND OS_STAT_SUSPEND \<and> multi_collect (e # es) out s = multi_collect es (out\<lparr>events_stat := st\<rparr>) s"
    using assms
  proof (cases rule: multi_event_cases)
    case sem
    then have "\<not> OSEventCnt (OSEvents s e) > 0" using None by (auto simp: event_accept_def OSSemAccept_def is_sem_def Let_def split: if_splits)
    then show ?thesis using sem or [of OS_STAT_SEM] by auto
  next
    case mbox
    then have "OSEventPtr (OSEvents s e) = NULL"
      using None by (auto simp: event_accept_def OSMboxAccept_def is_mbox_def split: if_splits)
    then show ?thesis using mbox or [of OS_STAT_MBOX] by auto
  next
    case queue
    then have "\<not> OSQEntries (fst (queue_of s e)) > 0"
      using None by (auto simp: event_accept_def OSQAccept_def split: if_splits prod.splits)
    then show ?thesis using queue or [of OS_STAT_Q] by auto
  qed
  then show ?thesis using None event_accept_none [OF assms None] by simp
next
  case (Some m)
  show ?thesis using assms
  proof (cases rule: multi_event_cases)
    case sem
    then show ?thesis using Some by (auto simp: event_accept_def OSSemAccept_def is_sem_def Let_def split: if_splits)
  next
    case mbox
    then show ?thesis using Some by (auto simp: event_accept_def OSMboxAccept_def is_mbox_def split: if_splits)
  next
    case queue
    then show ?thesis using Some by (auto simp: event_accept_def OSQAccept_def Let_def split: if_splits prod.splits)
  qed
qed

lemma multi_collect_accepts:
  assumes "\<And>e. e \<in> set es \<Longrightarrow> multi_event s e"
  shows "\<exists>st. st AND OS_STAT_SUSPEND = events_stat out AND OS_STAT_SUSPEND \<and> multi_collect es out s = (True, out\<lparr>events_rdy_nbr := events_rdy_nbr out + of_nat (length (fst (accept_all es s))),
     pevents_rdy := pevents_rdy out @ map fst (fst (accept_all es s)),
     pmsgs_rdy := pmsgs_rdy out @ map snd (fst (accept_all es s)), events_stat := st\<rparr>, snd (accept_all es s))"
  using assms
proof (induction es arbitrary: s out)
  case Nil
  show ?case by (intro exI [of _ "events_stat out"]) simp
next
  case (Cons e es)
  let ?s1 = "snd (event_accept e s)"
  obtain st where st: "st AND OS_STAT_SUSPEND = events_stat out AND OS_STAT_SUSPEND"
    and step: "multi_collect (e # es) out s = multi_collect es
    (case fst (event_accept e s) of None \<Rightarrow> out\<lparr>events_stat := st\<rparr> | Some m \<Rightarrow> multi_add e m out) ?s1"
    using multi_collect_step [OF Cons.prems [of e]] by auto
  have ev: "multi_event ?s1 e'" if "e' \<in> set es" for e' using Cons.prems [of e'] that by (simp add: multi_event_accept)
  show ?case unfolding step
    using st Cons.IH [OF ev, where out = "case fst (event_accept e s) of None \<Rightarrow> out\<lparr>events_stat := st\<rparr> | Some m \<Rightarrow> multi_add e m out"]
    by (cases "fst (event_accept e s)") (simp_all add: multi_add_def case_prod_beta Let_def add.assoc del: multi_collect.simps)
qed

subsection \<open>No event has anything: the wait\<close>

lemma event_wait_set_multi_frame:
  "rdy_map (event_wait_set_multi y a b es s) = rdy_map s \<and> OSTCBTbl (event_wait_set_multi y a b es s) = OSTCBTbl s
   \<and> OSTCBPrioTbl (event_wait_set_multi y a b es s) = OSTCBPrioTbl s \<and> OSTCBCur (event_wait_set_multi y a b es s) = OSTCBCur s
   \<and> OSPrioCur (event_wait_set_multi y a b es s) = OSPrioCur s
   \<and> OSIntNesting (event_wait_set_multi y a b es s) = OSIntNesting s
   \<and> OSLockNesting (event_wait_set_multi y a b es s) = OSLockNesting s
   \<and> OSEventType (OSEvents (event_wait_set_multi y a b es s) e) = OSEventType (OSEvents s e)
   \<and> OSEventCnt (OSEvents (event_wait_set_multi y a b es s) e) = OSEventCnt (OSEvents s e)
   \<and> OSEventPtr (OSEvents (event_wait_set_multi y a b es s) e) = OSEventPtr (OSEvents s e)"
  by (induction es arbitrary: s) (simp_all add: event_wait_set_def)

lemma event_wait_set_multi_mem:
  assumes "p < 64"
  shows "bm_mem (event_map (OSEvents (event_wait_set_multi (p div 8) (prio_bitx p) (prio_bity p) es s) e)) q
    \<longleftrightarrow> bm_mem (event_map (OSEvents s e)) q \<or> e \<in> set es \<and> q = p"
proof (induction es arbitrary: s)
  case (Cons e' es)
  have "event_wait_set e' (p div 8) (prio_bitx p) (prio_bity p) s = upd_event e' (\<lambda>ev. set_event_map (bm_ins p (event_map ev)) ev) s"
    by (simp add: event_wait_set_def bm_ins_def)
  then show ?case using bm_mem_ins [OF assms] by (auto simp: Cons.IH)
qed simp

lemma event_wait_set_multi_ok:
  assumes "p < 64" and "\<And>e. bm_ok (event_map (OSEvents s e))"
  shows "bm_ok (event_map (OSEvents (event_wait_set_multi (p div 8) (prio_bitx p) (prio_bity p) es s) e))"
  using assms(2)
proof (induction es arbitrary: s)
  case (Cons e' es)
  have "event_wait_set e' (p div 8) (prio_bitx p) (prio_bity p) s = upd_event e' (\<lambda>ev. set_event_map (bm_ins p (event_map ev)) ev) s"
    by (simp add: event_wait_set_def bm_ins_def)
  then show ?case using bm_ok_ins [OF Cons.prems assms(1), of e'] Cons.prems by (auto intro!: Cons.IH)
qed simp

text \<open>The state in which the task waits: in every list of the array, off the ready list.\<close>

definition multi_block :: "ptr list \<Rightarrow> INT8U \<Rightarrow> INT32U \<Rightarrow> os_state \<Rightarrow> os_state" where
  "multi_block es st timeout s =
     OS_EventTaskWaitMulti es (upd_tcb (OSTCBCur s) (\<lambda>t. t\<lparr>OSTCBStat := OSTCBStat t OR (st OR OS_STAT_MULTI),
        OSTCBStatPend := OS_STAT_PEND_OK, OSTCBDly := timeout\<rparr>) s)"

lemma multi_block_ok:
  assumes ok: "kernel_ok s" and p: "p = OSPrioCur s" and s': "s' = multi_block es st timeout s"
  shows "waits s' e q \<longleftrightarrow> waits s e q \<or> e \<in> set es \<and> q = p" and "rdy s' q \<longleftrightarrow> rdy s q \<and> q \<noteq> p"
    and "bm_ok (event_map (OSEvents s' e))" and "bm_ok (rdy_map s')"
    and "OSTCBPrioTbl s' = OSTCBPrioTbl s" and "OSIntNesting s' = OSIntNesting s" and "OSLockNesting s' = OSLockNesting s"
    and "OSTCBTbl s' = (OSTCBTbl s)(OSTCBPrioTbl s p := (task_at s p)\<lparr>OSTCBStat := OSTCBStat (task_at s p) OR (st OR OS_STAT_MULTI),
        OSTCBStatPend := OS_STAT_PEND_OK, OSTCBDly := timeout, OSTCBEventPtr := NULL, OSTCBEventMultiPtr := Some es\<rparr>)"
    and "OSEventType (OSEvents s' e) = OSEventType (OSEvents s e)"
    and "OSEventCnt (OSEvents s' e) = OSEventCnt (OSEvents s e)" and "OSPrioCur s' = p"
proof -
  note inv = kernel_okD(2) [OF ok]
  have task: "is_task s p" and cp: "OSTCBCur s = OSTCBPrioTbl s p"
    using kernel_okD(3) [OF ok] by (auto simp: cur_ok_def p)
  have p64: "p < 64" and tok: "tcb_prio_ok p (OSTCBTbl s (OSTCBPrioTbl s p))"
    using task_prio_ok [OF inv task] by (simp_all add: task_at_def)
  define s1 where "s1 = upd_tcb (OSTCBCur s) (\<lambda>t. t\<lparr>OSTCBStat := OSTCBStat t OR (st OR OS_STAT_MULTI),
        OSTCBStatPend := OS_STAT_PEND_OK, OSTCBDly := timeout, OSTCBEventPtr := NULL, OSTCBEventMultiPtr := Some es\<rparr>) s"
  define s2 where "s2 = event_wait_set_multi (p div 8) (prio_bitx p) (prio_bity p) es s1"
  note fr = event_wait_set_multi_frame [of "p div 8" "prio_bitx p" "prio_bity p" es s1, folded s2_def]
  have t1: "OSTCBCur s1 = OSTCBPrioTbl s p" "tcb_prio_ok p (OSTCBTbl s1 (OSTCBPrioTbl s p))"
    using tok by (simp_all add: s1_def cp tcb_prio_ok_def)
  have "s' = tcb_unrdy (OSTCBPrioTbl s p) s2"
    using tok unfolding s' multi_block_def OS_EventTaskWaitMulti_def Let_def s2_def s1_def
    by (simp add: cp tcb_prio_ok_def upd_tcb_def)
  then have eq: "s' = set_rdy_map (bm_del p (rdy_map s2)) s2"
    using tcb_unrdy_eq [of p s2] t1 fr by simp
  have ev1: "OSEvents s1 = OSEvents s" "rdy_map s1 = rdy_map s" by (simp_all add: s1_def)
  show "waits s' e q \<longleftrightarrow> waits s e q \<or> e \<in> set es \<and> q = p"
    using event_wait_set_multi_mem [OF p64, of es s1 e q] by (simp add: eq waits_def s2_def ev1)
  show "rdy s' q \<longleftrightarrow> rdy s q \<and> q \<noteq> p" using bm_mem_del [OF p64] fr by (auto simp: eq rdy_def ev1)
  show "bm_ok (event_map (OSEvents s' e))"
    using event_wait_set_multi_ok [OF p64, of s1 es e] bm_ok_event [OF inv] by (simp add: eq s2_def ev1)
  show "bm_ok (rdy_map s')" using bm_ok_del [OF bm_ok_rdy [OF inv] p64] fr by (simp add: eq ev1)
  show "OSTCBPrioTbl s' = OSTCBPrioTbl s" "OSIntNesting s' = OSIntNesting s" "OSLockNesting s' = OSLockNesting s"
    "OSPrioCur s' = p" using fr by (simp_all add: eq s1_def p)
  show "OSTCBTbl s' = (OSTCBTbl s)(OSTCBPrioTbl s p := (task_at s p)\<lparr>OSTCBStat := OSTCBStat (task_at s p) OR (st OR OS_STAT_MULTI),
        OSTCBStatPend := OS_STAT_PEND_OK, OSTCBDly := timeout, OSTCBEventPtr := NULL, OSTCBEventMultiPtr := Some es\<rparr>)"
    using fr by (simp add: eq s1_def cp upd_tcb_def task_at_def)
  show "OSEventType (OSEvents s' e) = OSEventType (OSEvents s e)" "OSEventCnt (OSEvents s' e) = OSEventCnt (OSEvents s e)"
    using event_wait_set_multi_frame [of "p div 8" "prio_bitx p" "prio_bity p" es s1 e, folded s2_def]
    by (simp_all add: eq ev1)
qed

lemma OSEventPendMulti_cases:
  assumes ok: "kernel_ok s" and uc: "user_code s" and lock: "OSLockNesting s = 0"
    and es: "es \<noteq> []" "\<And>e. e \<in> set es \<Longrightarrow> multi_event s e"
    and rs: "accept_all es s = (rs, s1)"
  shows "rs \<noteq> [] \<Longrightarrow> OSEventPendMulti (Some es) timeout False False s =
      (Some (of_nat (length rs), OS_ERR_NONE, map fst rs, map snd rs), s1) \<and> kernel_ok s1"
    and "rs = [] \<Longrightarrow> \<exists>st. st AND OS_STAT_SUSPEND = 0 \<and> OSEventPendMulti (Some es) timeout False False s = (None, OS_Sched (multi_block es st timeout s))"
proof -
  have ty: "list_all (\<lambda>e. multi_type_ok (OSEventType (OSEvents s e))) es"
    using es(2) by (simp add: list_all_iff multi_event_def)
  have nest: "OSIntNesting s = 0" using uc by (simp add: user_code_def)
  obtain st where st: "st AND OS_STAT_SUSPEND = 0"
    and c: "multi_collect es multi_out0 s = (True, multi_out0\<lparr>events_rdy_nbr := of_nat (length rs),
     pevents_rdy := map fst rs, pmsgs_rdy := map snd rs, events_stat := st\<rparr>, s1)"
    using multi_collect_accepts [where es = es and s = s and out = multi_out0, OF es(2)] rs by (auto simp: multi_out0_def)
  note call = OSEventPendMulti_def [of "Some es" timeout False False s]
  show "OSEventPendMulti (Some es) timeout False False s =
      (Some (of_nat (length rs), OS_ERR_NONE, map fst rs, map snd rs), s1) \<and> kernel_ok s1" if "rs \<noteq> []"
    using that accept_all_ok(1) [where es = es, OF ok es(2)] rs es(1) ty nest lock by (simp add: call c)
  show "\<exists>st. st AND OS_STAT_SUSPEND = 0 \<and> OSEventPendMulti (Some es) timeout False False s = (None, OS_Sched (multi_block es st timeout s))" if "rs = []"
  proof -
    have "s1 = s" using accept_all_ok(2) [where es = es, OF ok es(2)] rs that by simp
    then show ?thesis using st that es(1) ty nest lock by (intro exI [of _ st]) (simp add: call c multi_block_def)
  qed
qed

text \<open>
  C19 A wait for several events (\<open>OSEventPendMulti\<close>) takes everything that is there and returns at once:
  its result, its output arrays and the state are those of calling the accept service of each event in
  the order of the array.  When no event has anything, the caller joins the wait list of every event in
  the array and of no other, is no longer ready, and the ready task with the highest priority runs.
\<close>

theorem OSEventPendMulti_correct:
  assumes ok: "kernel_ok s" and uc: "user_code s" and lock: "OSLockNesting s = 0"
    and es: "es \<noteq> []" "\<And>e. e \<in> set es \<Longrightarrow> multi_event s e"
    and rs: "accept_all es s = (rs, s1)" and r: "OSEventPendMulti (Some es) timeout False False s = (res, s')"
  shows "(rs \<noteq> [] \<longrightarrow> res = Some (of_nat (length rs), OS_ERR_NONE, map fst rs, map snd rs) \<and> s' = s1 \<and> kernel_ok s')
    \<and> (rs = [] \<longrightarrow> res = None \<and> (\<forall>e q. waits s' e q \<longleftrightarrow> waits s e q \<or> e \<in> set es \<and> q = OSPrioCur s)
         \<and> (\<forall>q. rdy s' q \<longleftrightarrow> rdy s q \<and> q \<noteq> OSPrioCur s)
         \<and> rdy s' (OSPrioCur s') \<and> (\<forall>q. rdy s' q \<longrightarrow> OSPrioCur s' \<le> q))"
proof (cases "rs = []")
  case False
  then show ?thesis using OSEventPendMulti_cases(1) [OF ok uc lock es rs False, of timeout] r by simp
next
  case True
  obtain st where s': "res = None" "s' = OS_Sched (multi_block es st timeout s)"
    using OSEventPendMulti_cases(2) [OF ok uc lock es rs True, of timeout] r by auto
  note B = multi_block_ok [OF ok refl refl, where es = es and st = st and timeout = timeout]
  have nest: "OSIntNesting s = 0" and idle: "OSPrioCur s \<noteq> OS_TASK_IDLE_PRIO" using uc by (auto simp: user_code_def)
  have cur: "OSPrioCur s' = bm_high (rdy_map s')" using B(6,7) nest lock by (simp add: s'(2) OS_Sched_prio)
  have ri: "rdy s' OS_TASK_IDLE_PRIO" using B(2) kernel_okD(2) [OF ok] idle by (auto simp: s'(2) kinv_def)
  have bo: "bm_ok (rdy_map s')" using B(4) by (simp add: s'(2))
  have "rdy s' (OSPrioCur s')" unfolding cur rdy_def
    by (rule bm_high_mem [OF bo]) (use ri bm_some_iff [OF bo] in \<open>auto simp: rdy_def\<close>)
  moreover have "OSPrioCur s' \<le> q" if "rdy s' q" for q using that bm_high_le [OF bo] by (simp add: cur rdy_def)
  moreover have "waits s' e q \<longleftrightarrow> waits s e q \<or> e \<in> set es \<and> q = OSPrioCur s" for e q
    using B(1) by (simp add: s'(2) waits_def)
  moreover have "rdy s' q \<longleftrightarrow> rdy s q \<and> q \<noteq> OSPrioCur s" for q using B(2) by (simp add: s'(2))
  ultimately show ?thesis using True s'(1) by blast
qed

lemma ex_multi: "e \<in> {1, 2, 4} \<Longrightarrow> multi_event (ex_state ep) e"
  by (auto simp: multi_event_def multi_type_ok_def ex_state_def)

lemma ex_accept_none: "accept_all [1, 2] (ex_state ep) = ([], ex_state ep)"
proof -
  have n: "fst (event_accept 1 (ex_state ep)) = None" "fst (event_accept 2 (ex_state ep)) = None"
    by (simp_all add: event_accept_def OSSemAccept_def OSMboxAccept_def ex_state_def ex_event_def Let_def)
  have "snd (event_accept 1 (ex_state ep)) = ex_state ep" "snd (event_accept 2 (ex_state ep)) = ex_state ep"
    using event_accept_none [OF ex_multi n(1)] event_accept_none [OF ex_multi n(2)] by simp_all
  with n show ?thesis by (simp add: case_prod_beta Let_def)
qed

lemma ex_accept_some: "fst (accept_all [2, 4] (ex_state ep)) = [(4, NULL)]"
proof -
  have n: "fst (event_accept 2 (ex_state ep)) = None"
    by (simp add: event_accept_def OSMboxAccept_def ex_state_def ex_event_def)
  then have "snd (event_accept 2 (ex_state ep)) = ex_state ep" using event_accept_none [OF ex_multi n] by simp
  moreover have "fst (event_accept 4 (ex_state ep)) = Some NULL"
    by (simp add: event_accept_def OSSemAccept_def ex_state_def ex_event_def Let_def)
  ultimately show ?thesis using n by (simp add: case_prod_beta Let_def)
qed

theorem OSEventPendMulti_correct_witness:
  "fst (OSEventPendMulti (Some [2, 4]) 0 False False (ex_state 0)) = Some (1, OS_ERR_NONE, [4], [NULL])
   \<and> fst (OSEventPendMulti (Some [1, 2]) 0 False False (ex_state 0)) = None
   \<and> waiters (snd (OSEventPendMulti (Some [1, 2]) 0 False False (ex_state 0))) 1 = {4, 10}
   \<and> waiters (snd (OSEventPendMulti (Some [1, 2]) 0 False False (ex_state 0))) 2 = {4}"
proof -
  have st: "OSLockNesting (ex_state 0) = 0" "OSPrioCur (ex_state 0) = 4" by (simp_all add: ex_state_simps)
  have m1: "multi_event (ex_state 0) e" if "e \<in> set [2, 4]" for e using that by (auto intro: ex_multi)
  have m2: "multi_event (ex_state 0) e" if "e \<in> set [1, 2]" for e using that by (auto intro: ex_multi)
  note C = OSEventPendMulti_correct [where es = "[2, 4]", OF ex_kernel_ok ex_user_code st(1) _ m1 surjective_pairing surjective_pairing]
  have "fst (OSEventPendMulti (Some [2, 4]) 0 False False (ex_state 0)) = Some (1, OS_ERR_NONE, [4], [NULL])"
    using C [of 0] ex_accept_some [of 0] by (simp del: accept_all.simps)
  moreover note B = OSEventPendMulti_correct [where es = "[1, 2]", OF ex_kernel_ok ex_user_code st(1) _ m2 ex_accept_none surjective_pairing, of 0]
  ultimately show ?thesis by (auto simp: waiters_def st(2) ex_waits)
qed

subsection \<open>The wake-up\<close>

lemma event_wait_clr_multi_frame:
  "rdy_map (event_wait_clr_multi y a b es s) = rdy_map s \<and> OSTCBTbl (event_wait_clr_multi y a b es s) = OSTCBTbl s
   \<and> OSTCBPrioTbl (event_wait_clr_multi y a b es s) = OSTCBPrioTbl s \<and> OSTCBCur (event_wait_clr_multi y a b es s) = OSTCBCur s
   \<and> OSPrioCur (event_wait_clr_multi y a b es s) = OSPrioCur s
   \<and> OSIntNesting (event_wait_clr_multi y a b es s) = OSIntNesting s
   \<and> OSLockNesting (event_wait_clr_multi y a b es s) = OSLockNesting s
   \<and> OSEventType (OSEvents (event_wait_clr_multi y a b es s) e) = OSEventType (OSEvents s e)"
  by (induction es arbitrary: s) (simp_all add: event_wait_clr_def)

lemma event_wait_clr_multi_mem:
  assumes "p < 64"
  shows "bm_mem (event_map (OSEvents (event_wait_clr_multi (p div 8) (prio_bitx p) (prio_bity p) es s) e)) q
    \<longleftrightarrow> bm_mem (event_map (OSEvents s e)) q \<and> \<not> (e \<in> set es \<and> q = p)"
proof (induction es arbitrary: s)
  case (Cons e' es)
  have "event_wait_clr e' (p div 8) (prio_bitx p) (prio_bity p) s = upd_event e' (\<lambda>ev. set_event_map (bm_del p (event_map ev)) ev) s"
    by (simp add: event_wait_clr_def bm_del_def)
  then show ?case using bm_mem_del [OF assms] by (auto simp: Cons.IH)
qed simp

text \<open>
  The post or abort that finds a task with a wait for several events at the head of a list takes it out
  of all of them and notes the event.  Of the status bits it clears the one of that event only.
\<close>

lemma multi_rdy:
  assumes tok: "tcb_prio_ok p (task_at s p)" and p: "p < 64" and multi: "OSTCBEventMultiPtr (task_at s p) = Some es"
    and high: "bm_high (event_map (OSEvents s e)) = p"
    and s': "s' = snd (OS_EventTaskRdy e m msk st s)"
  shows "fst (OS_EventTaskRdy e m msk st s) = p"
    and "waits s' e' q \<longleftrightarrow> waits s e' q \<and> \<not> (q = p \<and> (e' = e \<or> e' \<in> set es))"
    and "rdy s' q \<longleftrightarrow> rdy s q \<or> q = p \<and> (OSTCBStat (task_at s p) AND NOT msk) AND OS_STAT_SUSPEND = 0"
    and "OSTCBTbl s' = (OSTCBTbl s)(OSTCBPrioTbl s p := (task_at s p)\<lparr>OSTCBDly := 0, OSTCBMsg := m,
           OSTCBStat := OSTCBStat (task_at s p) AND NOT msk, OSTCBStatPend := st, OSTCBEventPtr := e\<rparr>)"
    and "OSTCBPrioTbl s' = OSTCBPrioTbl s" and "OSTCBCur s' = OSTCBCur s" and "OSPrioCur s' = OSPrioCur s"
    and "OSIntNesting s' = OSIntNesting s" and "OSLockNesting s' = OSLockNesting s"
    and "OSEventType (OSEvents s' e') = OSEventType (OSEvents s e')"
proof -
  let ?y = "unmap (OSEventGrp (OSEvents s e))" and ?x = "unmap (OSEventTbl (OSEvents s e) (unmap (OSEventGrp (OSEvents s e))))"
  let ?t = "OSTCBPrioTbl s p"
  have pe: "p = 8 * ?y + ?x" using high by (simp add: bm_high_def event_map_def Let_def)
  have y: "?y = p div 8" and "?x = p mod 8"
    using unmap_less_8 [of "OSEventTbl (OSEvents s e) ?y"] by (simp_all add: pe)
  then have x: "unmap (OSEventTbl (OSEvents s e) (p div 8)) = p mod 8" by simp
  define s1 where "s1 = upd_tcb ?t (\<lambda>t. t\<lparr>OSTCBDly := 0, OSTCBMsg := m,
           OSTCBStat := OSTCBStat t AND NOT msk, OSTCBStatPend := st\<rparr>) s"
  define s2 where "s2 = (if (OSTCBStat (task_at s p) AND NOT msk) AND OS_STAT_SUSPEND = 0 then set_rdy_map (bm_ins p (rdy_map s)) s1 else s1)"
  define s3 where "s3 = upd_event e (\<lambda>ev. set_event_map (bm_del p (event_map ev)) ev) s2"
  define s4 where "s4 = event_wait_clr_multi (p div 8) (prio_bitx p) (prio_bity p) es s3"
  have t: "OSTCBTbl s3 ?t = (task_at s p)\<lparr>OSTCBDly := 0, OSTCBMsg := m,
           OSTCBStat := OSTCBStat (task_at s p) AND NOT msk, OSTCBStatPend := st\<rparr>"
    by (simp add: s3_def s2_def s1_def task_at_def)
  have eq: "OS_EventTaskRdy e m msk st s = (p, upd_tcb ?t (\<lambda>t. t\<lparr>OSTCBEventPtr := e\<rparr>) s4)"
    unfolding OS_EventTaskRdy_def Let_def y x mult_div_mod_eq
    using tok multi unfolding s4_def s3_def s2_def s1_def
    by (simp add: OS_EventTaskRemove_def OS_EventTaskRemoveMulti_def event_wait_clr_def tcb_prio_ok_def
        task_at_def bm_ins_def bm_del_def)
  note fr = event_wait_clr_multi_frame [of "p div 8" "prio_bitx p" "prio_bity p" es s3, folded s4_def]
  show "fst (OS_EventTaskRdy e m msk st s) = p" by (simp add: eq)
  have m3: "bm_mem (event_map (OSEvents s3 e')) q \<longleftrightarrow> bm_mem (event_map (OSEvents s e')) q \<and> \<not> (q = p \<and> e' = e)"
    using bm_mem_del [OF p] by (auto simp: s3_def s2_def s1_def)
  show "waits s' e' q \<longleftrightarrow> waits s e' q \<and> \<not> (q = p \<and> (e' = e \<or> e' \<in> set es))"
    unfolding s' eq using event_wait_clr_multi_mem [OF p, of es s3 e' q, folded s4_def] m3 by (auto simp: waits_def)
  have "rdy_map s3 = rdy_map s2" by (simp add: s3_def)
  then have "rdy_map s' = rdy_map s2" using fr unfolding s' eq by simp
  then show "rdy s' q \<longleftrightarrow> rdy s q \<or> q = p \<and> (OSTCBStat (task_at s p) AND NOT msk) AND OS_STAT_SUSPEND = 0"
    using bm_mem_ins [OF p] by (auto simp: rdy_def s2_def s1_def)
  have same: "OSTCBTbl s3 = (OSTCBTbl s)(?t := OSTCBTbl s3 ?t)" by (simp add: t) (simp add: s3_def s2_def s1_def upd_tcb_def task_at_def)
  show "OSTCBTbl s' = (OSTCBTbl s)(?t := (task_at s p)\<lparr>OSTCBDly := 0, OSTCBMsg := m,
           OSTCBStat := OSTCBStat (task_at s p) AND NOT msk, OSTCBStatPend := st, OSTCBEventPtr := e\<rparr>)"
    unfolding s' eq using fr same by (simp add: t upd_tcb_def)
  show "OSTCBPrioTbl s' = OSTCBPrioTbl s" "OSTCBCur s' = OSTCBCur s" "OSPrioCur s' = OSPrioCur s"
    "OSIntNesting s' = OSIntNesting s" "OSLockNesting s' = OSLockNesting s"
    using fr unfolding s' eq by (simp_all add: s3_def s2_def s1_def)
  show "OSEventType (OSEvents s' e') = OSEventType (OSEvents s e')"
    using event_wait_clr_multi_frame [of "p div 8" "prio_bitx p" "prio_bity p" es s3 e', folded s4_def] unfolding s' eq
    by (simp add: s3_def s2_def s1_def)
qed

text \<open>
  The state after a post under a scheduler lock: the waiting task has the event and is ready, but its
  status keeps the bit \<open>OS_STAT_MULTI\<close> until it runs.
\<close>

lemma multi_post_locked:
  assumes ok: "kernel_ok s" and uc: "user_code s" and lock: "OSLockNesting s = 0" and run: "OSRunning s"
    and es: "\<And>e. e \<in> set es \<Longrightarrow> multi_event s e" and none: "fst (accept_all es s) = []"
    and e: "e \<in> set es" "OSEventType (OSEvents s e) = OS_EVENT_TYPE_SEM" and first: "\<And>q. q \<in> waiters s e \<Longrightarrow> OSPrioCur s < q"
    and p: "p = OSPrioCur s"
    and s1: "OSEventPendMulti (Some es) timeout False False s = (res, s1)"
    and s2: "s2 = snd (OSSemPost e (OSSchedLock s1))"
  shows "res = None" and "rdy s2 p" and "\<not> waits s2 e' p"
    and "OSTCBDly (task_at s2 p) = 0" and "OSTCBStatPend (task_at s2 p) = OS_STAT_PEND_OK" and "OSTCBEventPtr (task_at s2 p) = e"
    and "OSTCBStat (task_at s2 p) AND OS_STAT_MULTI \<noteq> 0" and "is_task s2 p" and "tcb_prio_ok p (task_at s2 p)"
    and "OSLockNesting s2 = 1" and "p < 63" and "OSTCBPrioTbl s2 = OSTCBPrioTbl s"
proof -
  note inv = kernel_okD(2) [OF ok]
  have nest: "OSIntNesting s = 0" and idle: "p \<noteq> OS_TASK_IDLE_PRIO" using uc by (auto simp: user_code_def p)
  have task: "is_task s p" and cp: "OSTCBCur s = OSTCBPrioTbl s p" using kernel_okD(3) [OF ok] by (auto simp: cur_ok_def p)
  have p64: "p < 64" and tok: "tcb_prio_ok p (task_at s p)" using task_prio_ok [OF inv task] by simp_all
  have ne: "es \<noteq> []" using e(1) by auto
  have acc: "accept_all es s = ([], s)" using none accept_all_ok(2) [where es = es, OF ok es none] by (simp add: prod_eq_iff)
  obtain st where st: "st AND OS_STAT_SUSPEND = 0" and s1': "res = None" "s1 = OS_Sched (multi_block es st timeout s)"
    using OSEventPendMulti_cases(2) [OF ok uc lock ne es acc refl, of timeout] s1 by auto
  define b where "b = multi_block es st timeout s"
  note B = multi_block_ok [OF ok p b_def]
  have e0: "e \<noteq> NULL" using es [OF e(1)] by (simp add: multi_event_def)
  have run1: "OSRunning b" using run event_wait_set_multi_frame
  proof -
    have "OSRunning (event_wait_set_multi y x z fs t) = OSRunning t" for y x z fs t
      by (induction fs arbitrary: t) (simp_all add: event_wait_set_def)
    then show ?thesis using run by (simp add: b_def multi_block_def OS_EventTaskWaitMulti_def tcb_unrdy_def Let_def)
  qed
  define l where "l = OSSchedLock s1"
  have l: "l = s1\<lparr>OSLockNesting := 1\<rparr>"
    using run1 B(6,7) nest lock by (simp add: l_def OSSchedLock_def s1' b_def [symmetric])
  have T: "tcb_same (task_at l p) (task_at b p)" "OSTCBPrioTbl l = OSTCBPrioTbl s"
    using kernel_same_simps(4) [OF OS_Sched_same, of b p] B(5) by (simp_all add: l s1' b_def task_at_def)
  have bt: "task_at b p = (task_at s p)\<lparr>OSTCBStat := OSTCBStat (task_at s p) OR (st OR OS_STAT_MULTI),
        OSTCBStatPend := OS_STAT_PEND_OK, OSTCBDly := timeout, OSTCBEventPtr := NULL, OSTCBEventMultiPtr := Some es\<rparr>"
    using B(5,8) by (simp add: task_at_def)
  have multi: "OSTCBEventMultiPtr (task_at l p) = Some es" using T(1) bt by (simp add: tcb_same_def)
  have stat: "OSTCBStat (task_at l p) = OSTCBStat (task_at s p) OR (st OR OS_STAT_MULTI)" using T(1) bt by (simp add: tcb_same_def)
  have lt: "tcb_prio_ok p (task_at l p)" using tcb_same_simps(1) [OF T(1)] tok by (simp add: bt tcb_prio_ok_def)
  have lw: "waits l e' q \<longleftrightarrow> waits s e' q \<or> e' \<in> set es \<and> q = p" for e' q using B(1) by (simp add: l s1' b_def waits_def)
  have bo: "bm_ok (event_map (OSEvents l e))" using B(3) by (simp add: l s1' b_def)
  have w: "bm_mem (event_map (OSEvents l e)) p" using lw [of e p] e(1) by (simp add: waits_def)
  have grp: "OSEventGrp (OSEvents l e) \<noteq> 0" using bm_some_iff [OF bo] w by (auto simp: event_map_def)
  then have "bm_mem (event_map (OSEvents l e)) (bm_high (event_map (OSEvents l e)))"
    using bm_high_mem [OF bo] by (simp add: event_map_def)
  then have "waits s e (bm_high (event_map (OSEvents l e))) \<or> bm_high (event_map (OSEvents l e)) = p"
    using lw by (auto simp: waits_def)
  then have high: "bm_high (event_map (OSEvents l e)) = p"
    using bm_high_le [OF bo w] first [of "bm_high (event_map (OSEvents l e))"] by (auto simp: waiters_def p)
  have ty: "OSEventType (OSEvents l e) = OS_EVENT_TYPE_SEM" using B(9) [of e] e(2) by (simp add: l s1' b_def)
  define r where "r = snd (OS_EventTaskRdy e NULL OS_STAT_SEM OS_STAT_PEND_OK l)"
  note R = multi_rdy [OF lt p64 multi high r_def]
  have "OS_Sched r = r" using R(9) by (intro OS_Sched_off) (simp add: l)
  then have s2': "s2 = r" unfolding s2 l_def [symmetric]
    using e0 ty grp by (simp add: OSSemPost_def r_def [symmetric])
  have t2: "task_at s2 p = (task_at l p)\<lparr>OSTCBDly := 0, OSTCBMsg := NULL,
           OSTCBStat := OSTCBStat (task_at l p) AND NOT OS_STAT_SEM, OSTCBStatPend := OS_STAT_PEND_OK, OSTCBEventPtr := e\<rparr>"
    using R(4,5) by (simp add: s2' task_at_def)
  have ready: "rdy s p" using kernel_ok_cur_ready [OF ok nest lock] by (simp add: p)
  then have "OSTCBStat (task_at s p) AND OS_STAT_SUSPEND = 0"
    using rdy_iff [OF inv] stat_mask_or_zero [of _ OS_STAT_SUSPEND OS_STAT_PEND_ANY] by (auto simp: tcb_runnable_def or.commute)
  then have "(OSTCBStat (task_at l p) AND NOT OS_STAT_SEM) AND OS_STAT_SUSPEND = 0"
    unfolding stat using st by (simp add: bit.conj_disj_distrib2 and.assoc)
  then show "rdy s2 p" using R(3) by (simp add: s2')
  show "res = None" by (rule s1'(1))
  have nw: "\<not> waits s e' p" using uc by (simp add: user_code_def p)
  then show "\<not> waits s2 e' p" using R(2) lw e(1) by (auto simp: s2')
  show "OSTCBDly (task_at s2 p) = 0" "OSTCBStatPend (task_at s2 p) = OS_STAT_PEND_OK" "OSTCBEventPtr (task_at s2 p) = e"
    by (simp_all add: t2)
  have "bit (OSTCBStat (task_at s2 p) AND OS_STAT_MULTI) 7" by (simp add: t2 stat bit_simps)
  then show "OSTCBStat (task_at s2 p) AND OS_STAT_MULTI \<noteq> 0" by auto
  show pt: "OSTCBPrioTbl s2 = OSTCBPrioTbl s" using R(5) T(2) by (simp add: s2')
  show "is_task s2 p" using task pt by (simp add: is_task_def)
  show "tcb_prio_ok p (task_at s2 p)" using lt by (simp add: t2 tcb_prio_ok_def)
  show "OSLockNesting s2 = 1" using R(9) by (simp add: s2' l)
  show "p < 63" using p64 idle by simp
qed

text \<open>
  C37 A wait for several events can lose its task for good.  Let the running task wait for several
  events with none there, and let another task, which has locked the scheduler, post a semaphore of the
  array: the waiting task is ready.  If it is now suspended and resumed before it has run, it is not
  ready any more, although it waits for nothing, has no delay and is not suspended: the bit
  \<open>OS_STAT_MULTI\<close> that its status keeps until it runs makes \<open>OSTaskResume\<close> take it for a waiting task.
  Another resume refuses it (\<open>OS_ERR_TASK_NOT_SUSPENDED\<close>).
\<close>

theorem multi_pend_lost:
  assumes ok: "kernel_ok s" and uc: "user_code s" and lock: "OSLockNesting s = 0" and run: "OSRunning s"
    and es: "\<And>e. e \<in> set es \<Longrightarrow> multi_event s e" and none: "fst (accept_all es s) = []"
    and e: "e \<in> set es" "OSEventType (OSEvents s e) = OS_EVENT_TYPE_SEM" and first: "\<And>q. q \<in> waiters s e \<Longrightarrow> OSPrioCur s < q"
    and p: "p = OSPrioCur s"
    and s1: "OSEventPendMulti (Some es) timeout False False s = (res, s1)"
    and s2: "s2 = snd (OSSemPost e (OSSchedLock s1))"
    and s3: "s3 = snd (OSTaskResume p (snd (OSTaskSuspend p s2)))"
  shows "rdy s2 p \<and> \<not> rdy s3 p \<and> (\<forall>e. \<not> waits s3 e p) \<and> OSTCBDly (task_at s3 p) = 0
    \<and> OSTCBStat (task_at s3 p) AND OS_STAT_SUSPEND = 0 \<and> OSTaskResume p s3 = (OS_ERR_TASK_NOT_SUSPENDED, s3)"
proof -
  note L = multi_post_locked [OF ok uc lock run es none e first p s1 s2]
  let ?t = "OSTCBPrioTbl s2 p"
  define u where "u = upd_tcb ?t (\<lambda>t. t\<lparr>OSTCBStat := OSTCBStat t OR OS_STAT_SUSPEND\<rparr>) (set_rdy_map (bm_del p (rdy_map s2)) s2)"
  have p63: "p < 63" and tk: "?t \<noteq> 0" "?t \<noteq> OS_TCB_RESERVED" using L(8,11) by (auto simp: is_task_def)
  have un: "tcb_unrdy ?t s2 = set_rdy_map (bm_del p (rdy_map s2)) s2"
    using L(9) by (intro tcb_unrdy_eq) (simp add: task_at_def)
  have off: "OS_Sched u = u" using L(10) by (intro OS_Sched_off) (simp add: u_def)
  have u: "snd (OSTaskSuspend p s2) = u"
  proof -
    define c where "c = OSTCBPrio (OSTCBTbl s2 (OSTCBCur s2))"
    have "upd_tcb ?t (\<lambda>t. t\<lparr>OSTCBStat := OSTCBStat t OR OS_STAT_SUSPEND\<rparr>) (tcb_unrdy ?t s2) = u" by (simp only: un u_def)
    then show ?thesis using p63 tk off by (cases "p = c") (simp_all add: OSTaskSuspend_def Let_def c_def [symmetric])
  qed
  let ?x = "OSTCBStat (task_at s2 p)"
  have xs: "(?x OR OS_STAT_SUSPEND) AND OS_STAT_SUSPEND \<noteq> 0" by (simp add: bit.conj_disj_distrib2)
  have "((?x OR OS_STAT_SUSPEND) AND NOT OS_STAT_SUSPEND) AND OS_STAT_MULTI = ?x AND OS_STAT_MULTI"
    by (simp add: bit.conj_disj_distrib2 and.assoc)
  then have xm: "(?x OR OS_STAT_SUSPEND) AND NOT OS_STAT_SUSPEND \<noteq> 0" using L(7) by (metis and_zero_eq zero_and_eq)
  have ut: "OSTCBTbl u ?t = (task_at s2 p)\<lparr>OSTCBStat := ?x OR OS_STAT_SUSPEND\<rparr>" and up: "OSTCBPrioTbl u = OSTCBPrioTbl s2"
    by (simp_all add: u_def task_at_def)
  have s3': "s3 = upd_tcb ?t (\<lambda>t. t\<lparr>OSTCBStat := OSTCBStat t AND NOT OS_STAT_SUSPEND\<rparr>) u"
    using p63 tk xs xm ut by (simp add: s3 u OSTaskResume_def Let_def up)
  have t3: "task_at s3 p = (task_at s2 p)\<lparr>OSTCBStat := (?x OR OS_STAT_SUSPEND) AND NOT OS_STAT_SUSPEND\<rparr>"
    using ut up by (simp add: s3' task_at_def)
  have c: "((?x OR OS_STAT_SUSPEND) AND NOT OS_STAT_SUSPEND) AND OS_STAT_SUSPEND = 0" by (simp add: and.assoc)
  have "\<not> rdy s3 p" using bm_mem_del [of p] p63 by (simp add: s3' u_def rdy_def)
  moreover have "\<not> waits s3 e p" for e using L(3) by (simp add: s3' u_def waits_def)
  moreover have "OSTaskResume p s3 = (OS_ERR_TASK_NOT_SUSPENDED, s3)"
  proof -
    have "OSTCBTbl s3 ?t = task_at s3 p" "OSTCBPrioTbl s3 = OSTCBPrioTbl s2" by (simp_all add: s3' up task_at_def)
    then show ?thesis using p63 tk c by (simp add: OSTaskResume_def Let_def t3)
  qed
  ultimately show ?thesis using L(2,4) c by (simp add: t3)
qed

theorem multi_pend_lost_witness:
  "let s1 = snd (OSEventPendMulti (Some [1, 2]) 0 False False (ex_state 0)); s2 = snd (OSSemPost 1 (OSSchedLock s1));
       s3 = snd (OSTaskResume 4 (snd (OSTaskSuspend 4 s2)))
   in rdy s2 4 \<and> \<not> rdy s3 4 \<and> OSTaskResume 4 s3 = (OS_ERR_TASK_NOT_SUSPENDED, s3)"
proof -
  have st: "OSLockNesting (ex_state 0) = 0" "OSPrioCur (ex_state 0) = 4" "OSRunning (ex_state 0)"
    "OSEventType (OSEvents (ex_state 0) 1) = OS_EVENT_TYPE_SEM" by (simp_all add: ex_state_simps)
  have m: "multi_event (ex_state 0) e" if "e \<in> set [1, 2]" for e using that by (auto intro: ex_multi)
  have w: "OSPrioCur (ex_state 0) < q" if "q \<in> waiters (ex_state 0) 1" for q using that by (simp add: ex_waiters st(2))
  have a: "fst (accept_all [1, 2] (ex_state 0)) = []" by (simp only: ex_accept_none fst_conv)
  have e1: "1 \<in> set [1, 2::nat]" by simp
  show ?thesis
    using multi_pend_lost [where es = "[1, 2]", OF ex_kernel_ok ex_user_code st(1,3) m a e1 st(4) w st(2) [symmetric] surjective_pairing refl refl, of 0]
    by (simp add: Let_def)
qed

end
