(* ===== verification/OS_Mutex.thy ===== *)
theory OS_Mutex
  imports Task_Prio
begin

text \<open>
  Mutual exclusion semaphores (\<open>os_mutex.c\<close>).  \<open>OSEventCnt\<close> holds the ceiling priority in its upper
  and the priority of the owner in its lower byte, \<open>OSEventPtr\<close> the control block of the owner.  When
  a task of higher priority waits, the owner moves to the ceiling priority; its own entry of the
  priority table stays, so two entries point to one control block until the owner releases the mutex.
\<close>

subsection \<open>The services\<close>

abbreviation (input) OS_MUTEX_KEEP_LOWER_8 :: INT16U where "OS_MUTEX_KEEP_LOWER_8 \<equiv> 0x00FF"
abbreviation (input) OS_MUTEX_KEEP_UPPER_8 :: INT16U where "OS_MUTEX_KEEP_UPPER_8 \<equiv> 0xFF00"
abbreviation (input) OS_MUTEX_AVAILABLE :: INT16U where "OS_MUTEX_AVAILABLE \<equiv> 0x00FF"

record OS_MUTEX_DATA =
  OSMutexEventTbl :: "8 word list"
  OSMutexEventGrp :: "8 word"
  OSValue :: bool
  OSOwnerPrio :: nat
  OSMutexPCP :: nat

text \<open>The two bytes of the count.\<close>

definition mutex_pcp :: "OS_EVENT \<Rightarrow> nat" where
  "mutex_pcp ev = unat (drop_bit 8 (OSEventCnt ev))"

definition mutex_prio :: "OS_EVENT \<Rightarrow> nat" where
  "mutex_prio ev = unat (OSEventCnt ev AND OS_MUTEX_KEEP_LOWER_8)"

definition mutex_available :: "OS_EVENT \<Rightarrow> bool" where
  "mutex_available ev \<longleftrightarrow> OSEventCnt ev AND OS_MUTEX_KEEP_LOWER_8 = OS_MUTEX_AVAILABLE"

text \<open>The mutex becomes the property of a task.\<close>

definition mutex_give :: "ptr \<Rightarrow> nat \<Rightarrow> ptr \<Rightarrow> os_state \<Rightarrow> os_state" where
  "mutex_give pevent prio ptcb s =
     upd_event pevent (\<lambda>ev. ev\<lparr>OSEventCnt := (OSEventCnt ev AND OS_MUTEX_KEEP_UPPER_8) OR of_nat prio, OSEventPtr := ptcb\<rparr>) s"

definition mutex_take :: "ptr \<Rightarrow> os_state \<Rightarrow> INT8U \<times> os_state" where
  "mutex_take pevent s =
     (let pcp = mutex_pcp (OSEvents s pevent);
          prio = OSTCBPrio (OSTCBTbl s (OSTCBCur s));
          s1 = mutex_give pevent prio (OSTCBCur s) s
      in (if pcp \<noteq> OS_PRIO_MUTEX_CEIL_DIS \<and> prio \<le> pcp then OS_ERR_PCP_LOWER else OS_ERR_NONE, s1))"

definition OSMutexAccept :: "ptr \<Rightarrow> os_state \<Rightarrow> bool \<times> INT8U \<times> os_state" where
  "OSMutexAccept pevent s =
     (if pevent = NULL then (False, OS_ERR_PEVENT_NULL, s)
      else if OSEventType (OSEvents s pevent) \<noteq> OS_EVENT_TYPE_MUTEX then (False, OS_ERR_EVENT_TYPE, s)
      else if OSIntNesting s > 0 then (False, OS_ERR_PEND_ISR, s)
      else if mutex_available (OSEvents s pevent) then (True, mutex_take pevent s)
      else (False, OS_ERR_NONE, s))"

definition OSMutexCreate :: "nat \<Rightarrow> os_state \<Rightarrow> ptr \<times> INT8U \<times> os_state" where
  "OSMutexCreate prio s =
     (if prio \<noteq> OS_PRIO_MUTEX_CEIL_DIS \<and> prio \<ge> OS_LOWEST_PRIO then (NULL, OS_ERR_PRIO_INVALID, s)
      else if OSIntNesting s > 0 then (NULL, OS_ERR_CREATE_ISR, s)
      else if prio \<noteq> OS_PRIO_MUTEX_CEIL_DIS \<and> OSTCBPrioTbl s prio \<noteq> NULL then (NULL, OS_ERR_PRIO_EXIST, s)
      else (let s1 = (if prio \<noteq> OS_PRIO_MUTEX_CEIL_DIS
                      then s\<lparr>OSTCBPrioTbl := (OSTCBPrioTbl s)(prio := OS_TCB_RESERVED)\<rparr> else s);
                (pevent, s2) = event_alloc s1
            in if pevent = NULL
               then (pevent, OS_ERR_PEVENT_NULL,
                     if prio \<noteq> OS_PRIO_MUTEX_CEIL_DIS
                     then s2\<lparr>OSTCBPrioTbl := (OSTCBPrioTbl s2)(prio := NULL)\<rparr> else s2)
               else (pevent, OS_ERR_NONE,
                     OS_EventWaitListInit pevent
                       (upd_event pevent (\<lambda>ev. ev\<lparr>OSEventType := OS_EVENT_TYPE_MUTEX,
                          OSEventCnt := push_bit 8 (of_nat prio) OR OS_MUTEX_AVAILABLE,
                          OSEventPtr := NULL, OSEventName := ''?''\<rparr>) s2))))"

definition OSMutex_RdyAtPrio :: "ptr \<Rightarrow> nat \<Rightarrow> os_state \<Rightarrow> os_state" where
  "OSMutex_RdyAtPrio ptcb prio s =
     (let s1 = tcb_unrdy ptcb s;
          s2 = upd_tcb ptcb (\<lambda>t. t\<lparr>OSTCBPrio := prio\<rparr>) s1;
          s3 = s2\<lparr>OSPrioCur := prio\<rparr>;
          s4 = upd_tcb ptcb (\<lambda>t. t\<lparr>OSTCBY := prio div 8 mod 8, OSTCBX := prio mod 8,
                 OSTCBBitY := 2 ^ (prio div 8 mod 8), OSTCBBitX := 2 ^ (prio mod 8)\<rparr>) s3;
          s5 = tcb_rdy ptcb s4
      in s5\<lparr>OSTCBPrioTbl := (OSTCBPrioTbl s5)(prio := ptcb)\<rparr>)"

definition mutex_unreserve :: "ptr \<Rightarrow> os_state \<Rightarrow> os_state" where
  "mutex_unreserve pevent s =
     (let pcp = mutex_pcp (OSEvents s pevent)
      in if pcp \<noteq> OS_PRIO_MUTEX_CEIL_DIS then s\<lparr>OSTCBPrioTbl := (OSTCBPrioTbl s)(pcp := NULL)\<rparr> else s)"

definition OSMutexDel :: "ptr \<Rightarrow> INT8U \<Rightarrow> os_state \<Rightarrow> (ptr \<times> INT8U \<times> os_state) option" where
  "OSMutexDel pevent opt s =
     (if pevent = NULL then Some (pevent, OS_ERR_PEVENT_NULL, s)
      else if OSEventType (OSEvents s pevent) \<noteq> OS_EVENT_TYPE_MUTEX then Some (pevent, OS_ERR_EVENT_TYPE, s)
      else if OSIntNesting s > 0 then Some (pevent, OS_ERR_DEL_ISR, s)
      else (let tasks_waiting = (OSEventGrp (OSEvents s pevent) \<noteq> 0)
            in if opt = OS_DEL_NO_PEND
               then if \<not> tasks_waiting then Some (NULL, OS_ERR_NONE, event_free pevent (mutex_unreserve pevent s))
                    else Some (pevent, OS_ERR_TASK_WAITING, s)
               else if opt = OS_DEL_ALWAYS
               then (let pcp = mutex_pcp (OSEvents s pevent);
                         prio = mutex_prio (OSEvents s pevent);
                         ptcb = OSEventPtr (OSEvents s pevent);
                         s1 = (if pcp \<noteq> OS_PRIO_MUTEX_CEIL_DIS \<and> ptcb \<noteq> NULL \<and> OSTCBPrio (OSTCBTbl s ptcb) = pcp
                               then OSMutex_RdyAtPrio ptcb prio s else s)
                     in case OS_EventTaskRdyAll pevent NULL OS_STAT_MUTEX OS_STAT_PEND_OK 0 s1 of
                          None \<Rightarrow> None
                        | Some (n, s2) \<Rightarrow>
                            (let s3 = event_free pevent (mutex_unreserve pevent s2)
                             in Some (NULL, OS_ERR_NONE, if tasks_waiting then OS_Sched s3 else s3)))
               else Some (pevent, OS_ERR_INVALID_OPT, s)))"

text \<open>The owner moves to the ceiling priority, in the ready list or in the wait list of its event.\<close>

definition mutex_boost :: "ptr \<Rightarrow> nat \<Rightarrow> os_state \<Rightarrow> os_state" where
  "mutex_boost ptcb pcp s =
     (let t = OSTCBTbl s ptcb;
          rdy = (OSRdyTbl s (OSTCBY t) AND OSTCBBitX t \<noteq> 0);
          pevent2 = OSTCBEventPtr t;
          s1 = (if rdy then tcb_unrdy ptcb s
                else if pevent2 \<noteq> NULL then event_wait_clr pevent2 (OSTCBY t) (OSTCBBitX t) (OSTCBBitY t) s
                else s);
          s2 = upd_tcb ptcb (\<lambda>t. t\<lparr>OSTCBPrio := pcp, OSTCBY := pcp div 8, OSTCBX := pcp mod 8,
                 OSTCBBitY := 2 ^ (pcp div 8), OSTCBBitX := 2 ^ (pcp mod 8)\<rparr>) s1;
          t = OSTCBTbl s2 ptcb;
          s3 = (if rdy then tcb_rdy ptcb s2
                else if OSTCBEventPtr t \<noteq> NULL
                then event_wait_set (OSTCBEventPtr t) (OSTCBY t) (OSTCBBitX t) (OSTCBBitY t) s2 else s2)
      in s3\<lparr>OSTCBPrioTbl := (OSTCBPrioTbl s3)(pcp := ptcb)\<rparr>)"

definition OSMutexPend :: "ptr \<Rightarrow> INT32U \<Rightarrow> os_state \<Rightarrow> INT8U option \<times> os_state" where
  "OSMutexPend pevent timeout s =
     (if pevent = NULL then (Some OS_ERR_PEVENT_NULL, s)
      else if OSEventType (OSEvents s pevent) \<noteq> OS_EVENT_TYPE_MUTEX then (Some OS_ERR_EVENT_TYPE, s)
      else if OSIntNesting s > 0 then (Some OS_ERR_PEND_ISR, s)
      else if OSLockNesting s > 0 then (Some OS_ERR_PEND_LOCKED, s)
      else if mutex_available (OSEvents s pevent) then (let (err, s1) = mutex_take pevent s in (Some err, s1))
      else (let pcp = mutex_pcp (OSEvents s pevent);
                mprio = mutex_prio (OSEvents s pevent);
                ptcb = OSEventPtr (OSEvents s pevent);
                s1 = (if pcp \<noteq> OS_PRIO_MUTEX_CEIL_DIS \<and> OSTCBPrio (OSTCBTbl s ptcb) > pcp
                         \<and> mprio > OSTCBPrio (OSTCBTbl s (OSTCBCur s))
                      then mutex_boost ptcb pcp s else s)
            in (None, OS_Sched (event_block OS_STAT_MUTEX pevent timeout s1))))"

definition OSMutexPend_resume :: "ptr \<Rightarrow> os_state \<Rightarrow> INT8U \<times> os_state" where
  "OSMutexPend_resume pevent s = event_pend_end pevent s"

text \<open>The end of a post: the waiting task with the highest priority gets the mutex.\<close>

definition mutex_pass :: "ptr \<Rightarrow> nat \<Rightarrow> os_state \<Rightarrow> INT8U \<times> os_state" where
  "mutex_pass pevent pcp s =
     (if OSEventGrp (OSEvents s pevent) \<noteq> 0
      then (let (prio, s1) = OS_EventTaskRdy pevent NULL OS_STAT_MUTEX OS_STAT_PEND_OK s;
                s2 = mutex_give pevent prio (OSTCBPrioTbl s1 prio) s1
            in (if pcp \<noteq> OS_PRIO_MUTEX_CEIL_DIS \<and> prio \<le> pcp then OS_ERR_PCP_LOWER else OS_ERR_NONE, OS_Sched s2))
      else (OS_ERR_NONE,
            upd_event pevent (\<lambda>ev. ev\<lparr>OSEventCnt := OSEventCnt ev OR OS_MUTEX_AVAILABLE, OSEventPtr := NULL\<rparr>) s))"

definition OSMutexPost :: "ptr \<Rightarrow> os_state \<Rightarrow> INT8U \<times> os_state" where
  "OSMutexPost pevent s =
     (if OSIntNesting s > 0 then (OS_ERR_POST_ISR, s)
      else if pevent = NULL then (OS_ERR_PEVENT_NULL, s)
      else if OSEventType (OSEvents s pevent) \<noteq> OS_EVENT_TYPE_MUTEX then (OS_ERR_EVENT_TYPE, s)
      else (let pcp = mutex_pcp (OSEvents s pevent);
                prio = mutex_prio (OSEvents s pevent)
            in if OSTCBCur s \<noteq> OSEventPtr (OSEvents s pevent) then (OS_ERR_NOT_MUTEX_OWNER, s)
               else mutex_pass pevent pcp
                 (if pcp \<noteq> OS_PRIO_MUTEX_CEIL_DIS
                  then (let s1 = (if OSTCBPrio (OSTCBTbl s (OSTCBCur s)) = pcp
                                  then OSMutex_RdyAtPrio (OSTCBCur s) prio s else s)
                        in s1\<lparr>OSTCBPrioTbl := (OSTCBPrioTbl s1)(pcp := OS_TCB_RESERVED)\<rparr>)
                  else s)))"

definition OSMutexQuery :: "ptr \<Rightarrow> ptr \<Rightarrow> os_state \<Rightarrow> INT8U \<times> OS_MUTEX_DATA option" where
  "OSMutexQuery pevent p_mutex_data s =
     (if OSIntNesting s > 0 then (OS_ERR_QUERY_ISR, None)
      else if pevent = NULL then (OS_ERR_PEVENT_NULL, None)
      else if p_mutex_data = NULL then (OS_ERR_PDATA_NULL, None)
      else if OSEventType (OSEvents s pevent) \<noteq> OS_EVENT_TYPE_MUTEX then (OS_ERR_EVENT_TYPE, None)
      else (OS_ERR_NONE, Some \<lparr>OSMutexEventTbl = map (OSEventTbl (OSEvents s pevent)) [0..<8],
              OSMutexEventGrp = OSEventGrp (OSEvents s pevent),
              OSValue = (mutex_prio (OSEvents s pevent) = 0xFF),
              OSOwnerPrio = mutex_prio (OSEvents s pevent), OSMutexPCP = mutex_pcp (OSEvents s pevent)\<rparr>))"

subsection \<open>The two bytes of the count\<close>

lemma mutex_cnt_bytes:
  fixes c :: "16 word"
  assumes "p < 256"
  shows "drop_bit 8 ((c AND 0xFF00) OR of_nat p) = drop_bit 8 c" and "((c AND 0xFF00) OR of_nat p) AND 0xFF = of_nat p"
proof -
  have m: "(0xFF :: 16 word) = mask 8" "(0xFF00 :: 16 word) = push_bit 8 (mask 8)"
    by (simp_all add: mask_eq_exp_minus_1 push_bit_eq_mult)
  have hi: "i < 8" if "bit p i" for i
  proof -
    have "take_bit 8 p = p" using assms by (simp add: take_bit_nat_eq_self)
    then show ?thesis using that by (metis bit_take_bit_iff)
  qed
  have p: "of_nat p = (ucast (of_nat p :: 8 word) :: 16 word)"
    by (rule bit_word_eqI) (use hi in \<open>auto simp: bit_simps\<close>)
  show "drop_bit 8 ((c AND 0xFF00) OR of_nat p) = drop_bit 8 c"
    unfolding m p by (rule bit_word_eqI) (auto simp: bit_simps dest: bit_imp_le_length)
  show "((c AND 0xFF00) OR of_nat p) AND 0xFF = of_nat p"
    unfolding m p by (rule bit_word_eqI) (auto simp: bit_simps)
qed

lemma byte_available: "p < 255 \<Longrightarrow> (of_nat p :: 16 word) \<noteq> 0xFF"
  by (auto simp: word_unat_eq_iff unat_of_nat take_bit_nat_eq_self)

definition is_mutex :: "os_state \<Rightarrow> ptr \<Rightarrow> bool" where
  "is_mutex s e \<longleftrightarrow> e \<noteq> NULL \<and> OSEventType (OSEvents s e) = OS_EVENT_TYPE_MUTEX"

text \<open>The mutex belongs to the task whose own priority is \<open>m\<close>.\<close>

definition mutex_held :: "os_state \<Rightarrow> ptr \<Rightarrow> nat \<Rightarrow> bool" where
  "mutex_held s e m \<longleftrightarrow> is_mutex s e \<and> mutex_prio (OSEvents s e) = m \<and> m < OS_LOWEST_PRIO
     \<and> is_task s m \<and> OSEventPtr (OSEvents s e) = OSTCBPrioTbl s m"

lemma mutex_held_taken: "mutex_held s e m \<Longrightarrow> \<not> mutex_available (OSEvents s e)"
  by (auto simp: mutex_held_def mutex_prio_def mutex_available_def)

lemma mutex_give_bytes:
  fixes e p t s
  assumes "p < 255"
  defines "ev' \<equiv> OSEvents (mutex_give e p t s) e"
  shows "mutex_pcp ev' = mutex_pcp (OSEvents s e)" and "mutex_prio ev' = p"
    and "OSEventPtr ev' = t" and "\<not> mutex_available ev'"
proof -
  have p: "p < 256" using assms by simp
  note B = mutex_cnt_bytes [OF p]
  have u: "unat (of_nat p :: 16 word) = p" using p by (simp add: unat_of_nat take_bit_nat_eq_self)
  have cnt: "OSEventCnt ev' = (OSEventCnt (OSEvents s e) AND OS_MUTEX_KEEP_UPPER_8) OR of_nat p"
    unfolding ev'_def mutex_give_def by simp
  show "mutex_pcp ev' = mutex_pcp (OSEvents s e)" unfolding mutex_pcp_def cnt B ..
  show "mutex_prio ev' = p" unfolding mutex_prio_def cnt B u ..
  show "\<not> mutex_available ev'" unfolding mutex_available_def cnt B by (rule byte_available [OF assms(1)])
qed (simp add: ev'_def mutex_give_def)

lemma mutex_give_ok:
  assumes "kernel_ok s" and "is_mutex s e"
  shows "kernel_ok (mutex_give e p t s)"
  unfolding mutex_give_def using assms by (intro kernel_ok_upd_event) (auto simp: is_mutex_def)

subsection \<open>Two entries for one task\<close>

text \<open>The entry \<open>m\<close> of the priority table points to \<open>t\<close> as well.\<close>

definition prio_alias :: "nat \<Rightarrow> ptr \<Rightarrow> os_state \<Rightarrow> os_state" where
  "prio_alias m t s = s\<lparr>OSTCBPrioTbl := (OSTCBPrioTbl s)(m := t)\<rparr>"

lemma prio_alias_simps [simp]:
  "OSTCBPrioTbl (prio_alias m t s) = (OSTCBPrioTbl s)(m := t)" "OSTCBTbl (prio_alias m t s) = OSTCBTbl s"
  "OSEvents (prio_alias m t s) = OSEvents s" "rdy_map (prio_alias m t s) = rdy_map s" "OSTCBCur (prio_alias m t s) = OSTCBCur s"
  "OSPrioCur (prio_alias m t s) = OSPrioCur s" "OSIntNesting (prio_alias m t s) = OSIntNesting s"
  "OSLockNesting (prio_alias m t s) = OSLockNesting s"
  by (simp_all add: prio_alias_def rdy_map_def)

lemma prio_alias_Sched:
  assumes "bm_high (rdy_map s) \<noteq> m"
  shows "OS_Sched (prio_alias m t s) = prio_alias m t (OS_Sched s)"
proof -
  have r: "rdy_map (s\<lparr>OSTCBPrioTbl := f\<rparr>) = rdy_map s" for f by (simp add: rdy_map_def)
  show ?thesis using assms
    by (simp add: OS_Sched_def OS_SchedNew_def PendSV_Handler_def prio_alias_def r Let_def upd_tcb_def)
qed

lemma prio_alias_block:
  "event_block b e to (prio_alias m t s) = prio_alias m t (event_block b e to s)"
  by (simp add: event_block_def OS_EventTaskWait_def event_wait_set_def tcb_unrdy_def Let_def prio_alias_def
      upd_tcb_def upd_event_def set_rdy_map_def rdy_map_def)

subsection \<open>Priority inheritance\<close>

text \<open>
  The owner of priority \<open>m\<close> is in a settled state: ready and in no wait list, or not ready and in the
  wait list of the event that its control block names, if any.
\<close>

definition settled :: "os_state \<Rightarrow> nat \<Rightarrow> bool" where
  "settled s m \<longleftrightarrow> (if rdy s m then \<forall>x. \<not> waits s x m
     else OSTCBEventPtr (task_at s m) = NULL \<or> waits s (OSTCBEventPtr (task_at s m)) m)"

definition wait_event :: "os_state \<Rightarrow> nat \<Rightarrow> ptr" where
  "wait_event s m = (if rdy s m then NULL else OSTCBEventPtr (task_at s m))"

lemma settled_waits: "kinv s \<Longrightarrow> settled s m \<Longrightarrow> waits s x m \<longleftrightarrow> x \<noteq> NULL \<and> x = wait_event s m"
  using waitsD(2,4) [of s x m] by (auto simp: settled_def wait_event_def split: if_splits)

lemma mutex_boost_eq:
  assumes inv: "kinv s" and task: "is_task s m" and ne: "m \<noteq> q"
  defines "t \<equiv> OSTCBPrioTbl s m"
  shows "mutex_boost t q s = prio_alias m t (prio_moved OS_TCB_RESERVED (wait_event s m) m q s)"
proof -
  have tp: "tcb_prio_ok m (OSTCBTbl s t)" using task_prio_ok [OF inv task] by (simp add: task_at_def t_def)
  have r: "OSRdyTbl s (OSTCBY (OSTCBTbl s t)) AND OSTCBBitX (OSTCBTbl s t) \<noteq> 0 \<longleftrightarrow> rdy s m"
    using tp by (simp add: tcb_prio_ok_def prio_bitx_def and_exp_neq_0 rdy_def bm_mem_def rdy_map_def)
  note tp' = tp [unfolded tcb_prio_ok_def]
  define S where "S = (\<lambda>t. t\<lparr>OSTCBPrio := q, OSTCBY := q div 8, OSTCBX := q mod 8,
                 OSTCBBitY := 2 ^ (q div 8), OSTCBBitX := 2 ^ (q mod 8)\<rparr> :: OS_TCB)"
  consider "rdy s m" | "\<not> rdy s m" "OSTCBEventPtr (OSTCBTbl s t) = NULL"
    | e where "\<not> rdy s m" "OSTCBEventPtr (OSTCBTbl s t) = e" "e \<noteq> NULL" by blast
  then show ?thesis
  proof cases
    case 1
    then show ?thesis using ne unfolding mutex_boost_def Let_def r wait_event_def prio_moved_def tcb_set_prio_def
      by (simp add: tcb_unrdy_eq [OF tp [unfolded t_def]] tcb_rdy_def prio_alias_def bm_ins_def prio_bitx_def prio_bity_def
          upd_tcb_def set_rdy_map_def rdy_map_def t_def fun_upd_twist)
  next
    case 2
    then show ?thesis using ne unfolding mutex_boost_def Let_def r wait_event_def prio_moved_def tcb_set_prio_def
      by (simp add: prio_alias_def upd_tcb_def t_def task_at_def fun_upd_twist)
  next
    case (3 e)
    then show ?thesis using ne tp' unfolding mutex_boost_def Let_def r wait_event_def prio_moved_def tcb_set_prio_def
      by (simp add: prio_alias_def upd_tcb_def t_def task_at_def fun_upd_twist event_wait_clr_def event_wait_set_def
          upd_event_def bm_ins_def bm_del_def prio_bitx_def prio_bity_def set_event_map_twice)
  qed
qed

text \<open>What a task of higher priority leaves behind when it waits for the mutex.\<close>

lemma OSMutexPend_inherit:
  assumes ok: "kernel_ok s" and uc: "user_code s" and lock: "OSLockNesting s = 0" and held: "mutex_held s e m"
    and pcp: "pcp = mutex_pcp (OSEvents s e)" "pcp < m" "OSTCBPrioTbl s pcp = OS_TCB_RESERVED"
    and p: "p = OSPrioCur s" "p < m" and settled: "settled s m"
  obtains v where "OSMutexPend e timeout s = (None, prio_alias m (OSTCBPrioTbl s m) v)" and "kernel_ok v"
    and "OSTCBPrioTbl v = (OSTCBPrioTbl s)(m := OS_TCB_RESERVED, pcp := OSTCBPrioTbl s m)"
    and "rdy v pcp = rdy s m" and "\<not> rdy v p" and "\<And>u. u \<notin> {p, m, pcp} \<Longrightarrow> rdy v u = rdy s u"
    and "waiters v e = insert p (if m \<in> waiters s e then insert pcp (waiters s e - {m}) else waiters s e)"
    and "is_mutex v e" and "OSEventCnt (OSEvents v e) = OSEventCnt (OSEvents s e)"
    and "OSEventPtr (OSEvents v e) = OSEventPtr (OSEvents s e)"
    and "pcp < p \<and> rdy s m \<Longrightarrow> OSPrioCur v = pcp" and "OSIntNesting v = 0" and "OSLockNesting v = 0"
    and "\<not> rdy v m" and "OSTCBStat (task_at v pcp) = OSTCBStat (task_at s m)" and "OSTCBDly (task_at v pcp) = OSTCBDly (task_at s m)"
    and "OSTCBStat (task_at v p) = OSTCBStat (task_at s p) OR OS_STAT_MUTEX" and "\<And>x. x \<noteq> e \<Longrightarrow> waits v x pcp = waits s x m"
proof -
  let ?t = "OSTCBPrioTbl s m"
  note inv = kernel_okD(2) [OF ok]
  have nest: "OSIntNesting s = 0" using uc by (simp add: user_code_def)
  have H: "is_mutex s e" "mutex_prio (OSEvents s e) = m" "m < OS_LOWEST_PRIO" "is_task s m" "OSEventPtr (OSEvents s e) = ?t"
    using held by (simp_all add: mutex_held_def)
  have cur: "is_task s p" "OSTCBCur s = OSTCBPrioTbl s p" using kernel_okD(3) [OF ok] by (auto simp: cur_ok_def p)
  have pr: "OSTCBPrio (OSTCBTbl s (OSTCBCur s)) = p" using task_prio [OF inv cur(1)] by (simp add: cur task_at_def)
  have mpr: "OSTCBPrio (OSTCBTbl s ?t) = m" using task_prio [OF inv H(4)] by (simp add: task_at_def)
  have nt: "\<not> is_task s pcp" using pcp(3) by (simp add: is_task_def)
  then have ne: "p \<noteq> pcp" "m \<noteq> pcp" "p \<noteq> m" using cur(1) H(4) p(2) by auto
  have pq: "pcp < OS_LOWEST_PRIO" using pcp(2) H(3) by simp
  define b where "b = prio_moved OS_TCB_RESERVED (wait_event s m) m pcp s"
  note F = prio_moved_frame [of OS_TCB_RESERVED "wait_event s m" m pcp s, folded b_def]
  note M = prio_moved_ok [OF inv H(4,3) pq nt disjI2 [OF refl] settled_waits [OF inv settled], folded b_def]
  have ready: "rdy s p" using kernel_ok_cur_ready [OF ok nest lock] by (simp add: p)
  have "cur_ok b" using cur ne by (simp add: cur_ok_def F M(2) flip: p(1))
  then have db: "data_ok b" using M(1,7) kernel_okD(5) [OF ok] by (simp add: data_ok_def)
  have rb: "rdy b (OSPrioCur b)" using ready ne by (simp add: M(3) F flip: p(1))
  have ub: "user_code b" using uc ne by (simp add: user_code_def F M(4) flip: p(1))
  define w where "w = event_block OS_STAT_MUTEX e timeout b"
  define v where "v = OS_Sched w"
  have ev: "event_stat (OSEventType (OSEvents b e)) = OS_STAT_MUTEX" "e \<noteq> NULL" using H(1) by (simp_all add: is_mutex_def F)
  note B = event_block_data [OF db rb ub _ ev(1) _ ev(2) v_def [unfolded w_def]]
  have lb: "OSLockNesting b = 0" using lock by (simp add: F)
  note B = B [OF lb]
  have tok: "tcb_prio_ok p (OSTCBTbl b (OSTCBCur b))"
    using task_prio_ok [OF M(1), of p] cur ne by (simp add: M(2) F task_at_def)
  note eq = event_block_eq [OF tok, of OS_STAT_MUTEX e timeout, folded w_def]
  have p64: "p < 64" using task_prio_ok [OF inv cur(1)] by simp
  have rv: "rdy v u \<longleftrightarrow> u \<noteq> p \<and> rdy b u" for u
    using p64 by (simp add: v_def rdy_Sched) (simp add: eq rdy_def bm_mem_del)
  have kv: "kernel_ok v" by (rule B(1)) simp
  have nv: "OSIntNesting v = 0" "OSLockNesting v = 0" using nest lock by (simp_all add: v_def eq F)
  have high: "bm_high (rdy_map w) \<noteq> m"
  proof -
    have "kinv w" using kernel_okD(2) [OF kv] by (simp add: v_def)
    then have "rdy w (bm_high (rdy_map w))" by (rule rdy_high(1))
    moreover have "\<not> rdy w m" using rv [of m] ne by (simp add: v_def rdy_Sched M(3))
    ultimately show ?thesis by metis
  qed
  have "OSMutexPend e timeout s = (None, OS_Sched (event_block OS_STAT_MUTEX e timeout (mutex_boost ?t pcp s)))"
    using H nest lock mutex_held_taken [OF held] pcp p(2) pq
    unfolding OSMutexPend_def Let_def pr pcp(1) [symmetric] by (simp add: is_mutex_def mpr)
  also have "\<dots> = (None, prio_alias m ?t v)"
    unfolding mutex_boost_eq [OF inv H(4) ne(2)] prio_alias_block b_def [symmetric] w_def [symmetric]
    using prio_alias_Sched [OF high] by (simp add: v_def)
  finally have res: "OSMutexPend e timeout s = (None, prio_alias m ?t v)" .
  have cnt: "OSEventCnt (OSEvents v e) = OSEventCnt (OSEvents s e)" "OSEventPtr (OSEvents v e) = OSEventPtr (OSEvents s e)"
    "OSEventType (OSEvents v e) = OSEventType (OSEvents s e)"
    by (simp_all add: v_def eq F)
  have prv: "OSTCBPrioTbl v = OSTCBPrioTbl b" by (simp add: v_def eq)
  show thesis
  proof (rule that [OF res kv])
    show "OSTCBPrioTbl v = (OSTCBPrioTbl s)(m := OS_TCB_RESERVED, pcp := ?t)" by (simp add: prv F)
    show "OSTCBStat (task_at v p) = OSTCBStat (task_at s p) OR OS_STAT_MUTEX"
    proof -
      have "tcb_same (task_at v p) (task_at w p)" unfolding v_def by (rule kernel_same_simps [OF OS_Sched_same])
      moreover have "OSTCBPrioTbl w p = OSTCBCur b" using ne cur by (simp add: eq F)
      then have "OSTCBStat (task_at w p) = OSTCBStat (task_at b p) OR OS_STAT_MUTEX"
        using ne cur by (simp add: task_at_def eq F)
      ultimately show ?thesis using M(6) [of p] cur(1) ne by (simp add: tcb_same_def)
    qed
    show "rdy v pcp = rdy s m" "\<not> rdy v p" "\<not> rdy v m" using ne by (simp_all add: rv M(3))
    show "rdy v u = rdy s u" if "u \<notin> {p, m, pcp}" for u using that by (simp add: rv M(3))
    show "waiters v e = insert p (if m \<in> waiters s e then insert pcp (waiters s e - {m}) else waiters s e)"
      using B(2) nt ne waitsD(1) [OF inv, of e pcp] by (auto simp: F waiters_def M(4) p(1) split: if_splits)
    show "is_mutex v e" using H(1) cnt by (simp add: is_mutex_def)
    show "OSPrioCur v = pcp" if "pcp < p \<and> rdy s m"
    proof -
      have hi: "rdy v (OSPrioCur v)" "\<And>u. rdy v u \<Longrightarrow> OSPrioCur v \<le> u"
        using kernel_okD(4) [OF kv] nv by (auto simp: sched_ok_def)
      have "p \<le> u" if "rdy s u" for u using kernel_okD(4) [OF ok] nest lock that by (simp add: sched_ok_def p)
      then have "pcp \<le> u" if "rdy s u" for u using that \<open>pcp < p \<and> rdy s m\<close> by (meson less_imp_le order_trans)
      then have "pcp \<le> OSPrioCur v" using hi(1) by (auto simp: rv M(3) split: if_splits)
      moreover have "OSPrioCur v \<le> pcp" using that ne by (intro hi(2)) (simp add: rv M(3))
      ultimately show ?thesis by simp
    qed
    show "OSTCBStat (task_at v pcp) = OSTCBStat (task_at s m)" "OSTCBDly (task_at v pcp) = OSTCBDly (task_at s m)"
    proof -
      have "tcb_same (task_at v pcp) (task_at w pcp)" unfolding v_def by (rule kernel_same_simps [OF OS_Sched_same])
      moreover have "task_at w pcp = task_at b pcp" using ne task_inj [OF M(1), of p pcp] cur by (simp add: eq task_at_def M(2) F)
      ultimately show "OSTCBStat (task_at v pcp) = OSTCBStat (task_at s m)" "OSTCBDly (task_at v pcp) = OSTCBDly (task_at s m)"
        by (simp_all add: tcb_same_def M(5))
    qed
    show "waits v x pcp = waits s x m" if "x \<noteq> e" for x
      using B(3) [OF _ that] ne by (simp add: waits_def) (simp add: M(4) flip: waits_def)
  qed (fact cnt nv)+
qed

subsection \<open>Release\<close>

lemma mutex_pass_none:
  assumes ok: "data_ok s" and mtx: "is_mutex s e" and none: "waiters s e = {}"
  defines "s' \<equiv> upd_event e (\<lambda>ev. ev\<lparr>OSEventCnt := OSEventCnt ev OR OS_MUTEX_AVAILABLE, OSEventPtr := NULL\<rparr>) s"
  shows "mutex_pass e pcp s = (OS_ERR_NONE, s')" and "data_ok s'" and "mutex_available (OSEvents s' e)"
    and "mutex_pcp (OSEvents s' e) = mutex_pcp (OSEvents s e)"
proof -
  show "mutex_pass e pcp s = (OS_ERR_NONE, s')"
    using none waiters_grp [OF data_okD(1) [OF ok], of e] by (simp add: mutex_pass_def s'_def)
  have e: "OSEventType (OSEvents s e) \<noteq> OS_EVENT_TYPE_UNUSED" using mtx by (simp add: is_mutex_def)
  have "kernel_same s' s" by (simp add: s'_def kernel_same_def)
  moreover have "events_ok s'" unfolding s'_def using e by (intro events_ok_cong [OF _ _ data_okD(3) [OF ok]]) auto
  moreover have "OSTCBCur s' = OSTCBCur s" "OSPrioCur s' = OSPrioCur s" by (simp_all add: s'_def)
  ultimately show "data_ok s'" using data_ok_cong [OF ok] by blast
  show "mutex_available (OSEvents s' e)" by (simp add: s'_def mutex_available_def bit.conj_disj_distrib2)
  show "mutex_pcp (OSEvents s' e) = mutex_pcp (OSEvents s e)" by (simp add: s'_def mutex_pcp_def)
qed

lemma EventTaskRdy_prios:
  fixes e m msk st s
  defines "s' \<equiv> snd (OS_EventTaskRdy e m msk st s)"
  shows "OSTCBPrioTbl s' = OSTCBPrioTbl s" and "OSIntNesting s' = OSIntNesting s" and "OSLockNesting s' = OSLockNesting s"
    and "OSEventFreeList s' = OSEventFreeList s" and "OSPrioCur s' = OSPrioCur s"
proof -
  define F where "F = (\<lambda>s :: os_state. (OSTCBPrioTbl s, OSIntNesting s, OSLockNesting s, OSEventFreeList s, OSPrioCur s))"
  have upd: "F (upd_event x f s) = F s" "F (upd_tcb x g s) = F s" "F (set_rdy_map c s) = F s" for x f g c s
    by (simp_all add: F_def)
  have rem: "F (OS_EventTaskRemove t e s) = F s" for t e s
    by (simp add: OS_EventTaskRemove_def event_wait_clr_def upd)
  have multi: "F (event_wait_clr_multi y a b es s) = F s" for y a b es s
    by (induction es arbitrary: s) (simp_all add: event_wait_clr_def upd)
  have "F s' = F s" unfolding s'_def
    by (simp add: OS_EventTaskRdy_def Let_def rem multi OS_EventTaskRemoveMulti_def tcb_rdy_def upd split: option.splits)
  then show "OSTCBPrioTbl s' = OSTCBPrioTbl s" "OSIntNesting s' = OSIntNesting s" "OSLockNesting s' = OSLockNesting s"
    "OSEventFreeList s' = OSEventFreeList s" "OSPrioCur s' = OSPrioCur s" by (simp_all add: F_def)
qed

lemma mutex_pass_some:
  assumes ok: "data_ok s" and mtx: "is_mutex s e" and some: "waiters s e \<noteq> {}" and idle: "OS_TASK_IDLE_PRIO \<notin> waiters s e"
    and h: "h = Min (waiters s e)" and r: "mutex_pass e pcp s = (err, s')"
  shows "err = (if pcp \<noteq> OS_PRIO_MUTEX_CEIL_DIS \<and> h \<le> pcp then OS_ERR_PCP_LOWER else OS_ERR_NONE)"
    and "kernel_ok s'" and "mutex_held s' e h" and "mutex_pcp (OSEvents s' e) = mutex_pcp (OSEvents s e)"
    and "waiters s' e = waiters s e - {h}" and "OSTCBPrioTbl s' = OSTCBPrioTbl s"
    and "OSTCBStatPend (task_at s' h) = OS_STAT_PEND_OK"
    and "rdy s' h \<longleftrightarrow> OSTCBStat (task_at s h) AND OS_STAT_SUSPEND = 0"
    and "\<And>u. u \<noteq> h \<Longrightarrow> rdy s' u = rdy s u"
    and "OSIntNesting s' = OSIntNesting s" and "OSLockNesting s' = OSLockNesting s"
proof -
  note inv = data_okD(1) [OF ok]
  define s1 where "s1 = snd (OS_EventTaskRdy e NULL OS_STAT_MUTEX OS_STAT_PEND_OK s)"
  have msk: "OS_STAT_MUTEX = event_stat (OSEventType (OSEvents s e))" using mtx by (simp add: is_mutex_def)
  note R = event_rdy_ok [OF ok some msk s1_def h]
  have hw: "h \<in> waiters s e" using some h Min_in [OF finite_waiters [OF inv]] by simp
  then have ht: "is_task s h" "h < 64" using waitsD(1,3) [OF inv] by (auto simp: waiters_def)
  then have hl: "h < OS_LOWEST_PRIO" using hw idle by (cases "h = OS_TASK_IDLE_PRIO") auto
  define s2 where "s2 = mutex_give e h (OSTCBPrioTbl s1 h) s1"
  have eq: "err = (if pcp \<noteq> OS_PRIO_MUTEX_CEIL_DIS \<and> h \<le> pcp then OS_ERR_PCP_LOWER else OS_ERR_NONE)" "s' = OS_Sched s2"
    using r some waiters_grp [OF inv, of e] R(2)
    by (simp_all add: mutex_pass_def s2_def s1_def case_prod_unfold Let_def)
  show "err = (if pcp \<noteq> OS_PRIO_MUTEX_CEIL_DIS \<and> h \<le> pcp then OS_ERR_PCP_LOWER else OS_ERR_NONE)" by (rule eq(1))
  have mtx1: "is_mutex s1 e" using mtx by (simp add: is_mutex_def R(10))
  have "kernel_ok (OS_Sched s1)" by (rule kernel_ok_Sched) (rule R(1))
  have d2: "data_ok s2"
  proof -
    have "kernel_same s2 s1" by (simp add: s2_def mutex_give_def kernel_same_def)
    moreover have "events_ok s2" unfolding s2_def mutex_give_def
      using mtx1 by (intro events_ok_cong [OF _ _ data_okD(3) [OF R(1)]]) (auto simp: is_mutex_def)
    moreover have "OSTCBCur s2 = OSTCBCur s1" "OSPrioCur s2 = OSPrioCur s1" by (simp_all add: s2_def mutex_give_def)
    ultimately show ?thesis using data_ok_cong [OF R(1)] by blast
  qed
  then show "kernel_ok s'" unfolding eq(2) by (rule kernel_ok_Sched)
  note G = mutex_give_bytes [of h e "OSTCBPrioTbl s1 h" s1, folded s2_def]
  have pt1: "OSTCBPrioTbl s1 = OSTCBPrioTbl s" by (simp add: s1_def EventTaskRdy_prios)
  have pt: "OSTCBPrioTbl s' = OSTCBPrioTbl s" by (simp add: eq(2) s2_def mutex_give_def pt1)
  then show "OSTCBPrioTbl s' = OSTCBPrioTbl s" .
  have e': "OSEvents s' = OSEvents s2" "OSEventType (OSEvents s2 e) = OS_EVENT_TYPE_MUTEX"
    using mtx1 by (simp_all add: eq(2) s2_def mutex_give_def is_mutex_def)
  show "mutex_held s' e h"
    using mtx G(2,3) hl ht e' unfolding mutex_held_def is_mutex_def is_task_def pt by (simp add: pt1)
  show "mutex_pcp (OSEvents s' e) = mutex_pcp (OSEvents s e)" using G(1) hl R(9) by (simp add: e' mutex_pcp_def)
  have w2: "waiters s2 e = waiters s1 e" by (simp add: s2_def mutex_give_def waiters_def waits_def)
  show "waiters s' e = waiters s e - {h}" by (simp add: eq(2) waiters_Sched w2 R(3))
  have t2: "task_at s2 u = task_at s1 u" "rdy s2 u = rdy s1 u" for u by (simp_all add: s2_def mutex_give_def task_at_def rdy_def)
  show "OSIntNesting s' = OSIntNesting s" "OSLockNesting s' = OSLockNesting s"
    by (simp_all add: eq(2) s2_def mutex_give_def s1_def EventTaskRdy_prios)
  show "OSTCBStatPend (task_at s' h) = OS_STAT_PEND_OK"
    using R(5) by (simp add: eq(2) task_at_Sched t2)
  show "rdy s' h \<longleftrightarrow> OSTCBStat (task_at s h) AND OS_STAT_SUSPEND = 0" by (simp add: eq(2) rdy_Sched t2 R(7))
  show "rdy s' u = rdy s u" if "u \<noteq> h" for u
    using event_rdy_other [OF inv some] that by (simp add: eq(2) rdy_Sched t2 s1_def h)
qed

text \<open>The owner that was raised to the ceiling goes back to its own priority.\<close>

lemma mutex_lower_eq:
  assumes inv: "kinv v" and task: "is_task v q" and ready: "rdy v q" and m: "m < OS_LOWEST_PRIO" "m \<noteq> q"
  defines "t \<equiv> OSTCBPrioTbl v q"
  defines "s1 \<equiv> OSMutex_RdyAtPrio t m (prio_alias m t v)"
  shows "s1\<lparr>OSTCBPrioTbl := (OSTCBPrioTbl s1)(q := OS_TCB_RESERVED)\<rparr>
    = (prio_moved OS_TCB_RESERVED NULL q m v)\<lparr>OSPrioCur := m\<rparr>"
proof -
  have tp: "tcb_prio_ok q (OSTCBTbl (prio_alias m t v) t)" using task_prio_ok [OF inv task] by (simp add: task_at_def t_def)
  have m8: "m div 8 mod 8 = m div 8" using m(1) by simp
  show ?thesis using ready m(2)
    unfolding s1_def OSMutex_RdyAtPrio_def Let_def tcb_unrdy_eq [OF tp] m8 prio_moved_def tcb_set_prio_def
    by (simp add: tcb_rdy_def upd_tcb_def set_rdy_map_def rdy_map_def prio_alias_def bm_ins_def prio_bitx_def prio_bity_def
        t_def fun_upd_twist)
qed

text \<open>
  \<open>lent s e m v\<close>: in \<open>s\<close> the mutex \<open>e\<close> belongs to a task of own priority \<open>m\<close> that was raised to the
  ceiling; \<open>v\<close> is \<open>s\<close> without the second entry of the priority table.
\<close>

definition lent :: "os_state \<Rightarrow> ptr \<Rightarrow> nat \<Rightarrow> os_state \<Rightarrow> bool" where
  "lent s e m v \<longleftrightarrow> kernel_ok v \<and> is_mutex v e \<and> mutex_prio (OSEvents v e) = m \<and> m < OS_LOWEST_PRIO
     \<and> OSTCBPrioTbl v m = OS_TCB_RESERVED \<and> mutex_pcp (OSEvents v e) < m \<and> is_task v (mutex_pcp (OSEvents v e))
     \<and> OSEventPtr (OSEvents v e) = OSTCBPrioTbl v (mutex_pcp (OSEvents v e))
     \<and> s = prio_alias m (OSEventPtr (OSEvents v e)) v"

lemma mutex_released:
  assumes lent: "lent s e m v" and q: "q = mutex_pcp (OSEvents v e)" "OSPrioCur v = q" and uc: "user_code v" and lock: "OSLockNesting v = 0"
  defines "b \<equiv> (prio_moved OS_TCB_RESERVED NULL q m v)\<lparr>OSPrioCur := m\<rparr>"
  shows "OSMutexPost e s = mutex_pass e q b" and "data_ok b" and "is_mutex b e" and "waiters b e = waiters v e"
    and "mutex_pcp (OSEvents b e) = q" and "\<And>u. rdy b u \<longleftrightarrow> (if u = m then True else u \<noteq> q \<and> rdy v u)"
    and "OSTCBPrioTbl b = (OSTCBPrioTbl v)(q := OS_TCB_RESERVED, m := OSTCBPrioTbl v q)" and "OSPrioCur b = m"
    and "OSIntNesting b = 0" and "OSLockNesting b = 0" and "\<And>u. is_task v u \<Longrightarrow> u \<noteq> q \<Longrightarrow> task_at b u = task_at v u"
proof -
  note L = lent [unfolded lent_def, folded q(1)]
  let ?t = "OSTCBPrioTbl v q"
  have k: "kernel_ok v" and mt: "is_task v q" using L by blast+
  note inv = kernel_okD(2) [OF k]
  have nest: "OSIntNesting v = 0" and nw: "\<And>x. \<not> waits v x q" using uc q(2) by (auto simp: user_code_def)
  have ready: "rdy v q" using kernel_ok_cur_ready [OF k nest lock] q(2) by simp
  have cur: "OSTCBCur v = ?t" using kernel_okD(3) [OF k] by (simp add: cur_ok_def q(2))
  have s: "s = prio_alias m ?t v" and ne: "m \<noteq> q" and ql: "q < OS_LOWEST_PRIO" and ml: "m < OS_LOWEST_PRIO" using L by auto
  have nm: "\<not> is_task v m" using L by (simp add: is_task_def)
  define b0 where "b0 = prio_moved OS_TCB_RESERVED NULL q m v"
  note F = prio_moved_frame [of OS_TCB_RESERVED NULL q m v, folded b0_def]
  have bb: "b = b0\<lparr>OSPrioCur := m\<rparr>" by (simp only: b_def b0_def)
  note M = prio_moved_ok [OF inv mt ql ml nm disjI2 [OF refl], of NULL]
  have w0: "waits v x q \<longleftrightarrow> x \<noteq> NULL \<and> x = NULL" for x using nw by auto
  note M = M [OF w0, folded b0_def]
  have b: "rdy b u = rdy b0 u" "waits b x u = waits b0 x u"
    "task_at b u = task_at b0 u" "is_task b u = is_task b0 u"
    "OSEvents b = OSEvents b0" for u x
    by (simp_all add: bb rdy_def waits_def task_at_def is_task_def rdy_map_def)
  have L5: "is_mutex v e" "mutex_prio (OSEvents v e) = m" "mutex_pcp (OSEvents v e) = q" "OSEventPtr (OSEvents v e) = ?t"
    using L q(1) by blast+
  have pr: "OSTCBPrio (OSTCBTbl s (OSTCBCur s)) = q" using task_prio [OF inv mt] by (simp add: s cur task_at_def)
  have q255: "q \<noteq> OS_PRIO_MUTEX_CEIL_DIS" using ql by simp
  have "OSMutexPost e s = mutex_pass e q (let s1 = OSMutex_RdyAtPrio ?t m s
      in s1\<lparr>OSTCBPrioTbl := (OSTCBPrioTbl s1)(q := OS_TCB_RESERVED)\<rparr>)"
  proof -
    have g: "OSIntNesting s = 0" "e \<noteq> NULL" "OSEventType (OSEvents s e) = OS_EVENT_TYPE_MUTEX" "OSTCBCur s = ?t"
      "OSEventPtr (OSEvents s e) = ?t" "mutex_pcp (OSEvents s e) = q" "mutex_prio (OSEvents s e) = m"
      using L5 nest by (simp_all add: s cur is_mutex_def)
    show ?thesis using q255 pr [unfolded g] g(1-3) unfolding OSMutexPost_def Let_def g by simp
  qed
  then show "OSMutexPost e s = mutex_pass e q b"
    unfolding bb b0_def Let_def s mutex_lower_eq [OF inv mt ready ml ne] .
  have "kinv b" using M(1) kinv_cong [of b b0]
    by (simp add: bb kernel_same_def rdy_map_def)
  moreover have "cur_ok b" unfolding cur_ok_def b(4) using M(2) by (simp add: bb F cur)
  moreover have "events_ok b" using M(7) kernel_okD(5) [OF k] by (simp add: bb events_ok_def free_events_def)
  ultimately show "data_ok b" by (simp add: data_ok_def)
  show "is_mutex b e" using L by (simp add: is_mutex_def b(5) F)
  show "waiters b e = waiters v e" using nw nm waitsD(1) [OF inv, of e m] by (auto simp: waiters_def b(2) M(4))
  show "mutex_pcp (OSEvents b e) = q" by (simp add: b(5) mutex_pcp_def F) (simp add: q(1) mutex_pcp_def)
  show "rdy b u \<longleftrightarrow> (if u = m then True else u \<noteq> q \<and> rdy v u)" for u using ready by (simp add: b(1) M(3))
  show "task_at b u = task_at v u" if "is_task v u" "u \<noteq> q" for u using M(6) that by (simp add: b(3))
  show "OSTCBPrioTbl b = (OSTCBPrioTbl v)(q := OS_TCB_RESERVED, m := OSTCBPrioTbl v q)" "OSPrioCur b = m"
    "OSIntNesting b = 0" "OSLockNesting b = 0" using nest lock by (simp_all add: bb F)
qed

subsection \<open>Creation\<close>

lemma kernel_ok_reserve:
  assumes ok: "kernel_ok s" and p: "OSTCBPrioTbl s p = NULL"
  shows "kernel_ok (s\<lparr>OSTCBPrioTbl := (OSTCBPrioTbl s)(p := OS_TCB_RESERVED)\<rparr>)"
proof -
  let ?s = "s\<lparr>OSTCBPrioTbl := (OSTCBPrioTbl s)(p := OS_TCB_RESERVED)\<rparr>"
  have t: "is_task ?s q = is_task s q" for q using p by (simp add: is_task_def)
  have r: "rdy_map ?s = rdy_map s" "rdy ?s q = rdy s q" for q by (simp_all add: rdy_map_def rdy_def)
  have n: "\<not> is_task s p" using p by (simp add: is_task_def)
  have "kinv ?s = kinv s" using n by (intro kinv_PrioTbl_cong t) (auto simp: rdy_map_def)
  moreover have "cur_ok ?s" using kernel_okD(3) [OF ok] n unfolding cur_ok_def t by auto
  moreover have "sched_ok ?s" using kernel_okD(4) [OF ok] calculation(2) unfolding sched_ok_def r by simp
  moreover have "events_ok ?s" using kernel_okD(5) [OF ok] by (simp add: events_ok_def free_events_def)
  ultimately show ?thesis using kernel_okD(2) [OF ok] by (simp add: kernel_ok_def data_ok_def)
qed

lemma OSMutexCreate_ok:
  assumes ok: "kernel_ok s" and nest: "OSIntNesting s = 0" and p: "p < OS_LOWEST_PRIO" "OSTCBPrioTbl s p = NULL"
    and fr: "OSEventFreeList s = e" "e \<noteq> NULL"
  obtains s' where "OSMutexCreate p s = (e, OS_ERR_NONE, s')" and "kernel_ok s'" and "is_mutex s' e"
    and "mutex_available (OSEvents s' e)" and "mutex_pcp (OSEvents s' e) = p" and "waiters s' e = {}"
    and "OSTCBPrioTbl s' = (OSTCBPrioTbl s)(p := OS_TCB_RESERVED)" and "\<And>u. rdy s' u = rdy s u"
    and "\<And>x. x \<noteq> e \<Longrightarrow> OSEvents s' x = OSEvents s x"
    and "OSPrioCur s' = OSPrioCur s" and "OSIntNesting s' = 0" and "OSLockNesting s' = OSLockNesting s" and "OSTCBTbl s' = OSTCBTbl s"
proof -
  let ?s1 = "s\<lparr>OSTCBPrioTbl := (OSTCBPrioTbl s)(p := OS_TCB_RESERVED)\<rparr>"
  let ?c = "push_bit 8 (of_nat p) OR OS_MUTEX_AVAILABLE :: 16 word"
  obtain s2 where al: "event_alloc ?s1 = (e, s2)" using fr by (simp add: event_alloc_def Let_def)
  then have s2: "s2 = ?s1\<lparr>OSEventFreeList := OSEventPtr (OSEvents s e)\<rparr>" using fr by (auto simp: event_alloc_def Let_def)
  note new = kernel_ok_event_new [OF kernel_ok_reserve [OF ok p(2)] al fr(2)]
  define s' where "s' = upd_event e (\<lambda>ev. set_event_map bm_empty
      (ev\<lparr>OSEventType := OS_EVENT_TYPE_MUTEX, OSEventCnt := ?c, OSEventPtr := NULL, OSEventName := ''?''\<rparr>)) s2"
  have res: "OSMutexCreate p s = (e, OS_ERR_NONE, s')"
    using p nest fr al by (simp add: OSMutexCreate_def s'_def OS_EventWaitListInit_def upd_event_def)
  have c: "OSEventCnt (OSEvents s' e) = ?c" by (simp add: s'_def)
  show thesis
  proof (rule that [OF res])
    show "kernel_ok s'" unfolding s'_def by (rule new(3)) simp
    show "is_mutex s' e" using fr by (simp add: is_mutex_def s'_def)
    show "mutex_available (OSEvents s' e)" unfolding mutex_available_def c by (simp add: bit.conj_disj_distrib2)
    show "mutex_pcp (OSEvents s' e) = p"
    proof -
      have "take_bit 8 p = p" using p(1) by (simp add: take_bit_nat_eq_self)
      then have hi: "i < 8" if "bit p i" for i using that by (metis bit_take_bit_iff)
      have "drop_bit 8 ?c = of_nat p" by (rule bit_word_eqI) (use hi in \<open>auto simp: bit_simps\<close>)
      then show ?thesis unfolding mutex_pcp_def c using p(1) by (simp add: unat_of_nat take_bit_nat_eq_self)
    qed
    show "waiters s' e = {}" by (simp add: s'_def waiters_def waits_def)
    show "rdy s' u = rdy s u" for u by (simp add: s'_def s2 rdy_def rdy_map_def upd_event_def)
    show "OSEvents s' x = OSEvents s x" if "x \<noteq> e" for x using that by (simp add: s'_def s2)
    show "OSTCBPrioTbl s' = (OSTCBPrioTbl s)(p := OS_TCB_RESERVED)" "OSPrioCur s' = OSPrioCur s" "OSIntNesting s' = 0"
      "OSLockNesting s' = OSLockNesting s" "OSTCBTbl s' = OSTCBTbl s" using nest by (simp_all add: s'_def s2)
  qed
qed

text \<open>A free mutex is taken at once; an owner that was not raised passes it on with no change of priorities.\<close>

lemma OSMutexPend_take:
  assumes ok: "kernel_ok s" and mtx: "is_mutex s e" "mutex_available (OSEvents s e)" and nest: "OSIntNesting s = 0" "OSLockNesting s = 0"
    and p: "p = OSPrioCur s" "p < OS_LOWEST_PRIO" and r: "OSMutexPend e timeout s = (res, s')"
  defines "pcp \<equiv> mutex_pcp (OSEvents s e)"
  shows "res = Some (if pcp \<noteq> OS_PRIO_MUTEX_CEIL_DIS \<and> p \<le> pcp then OS_ERR_PCP_LOWER else OS_ERR_NONE)"
    and "kernel_ok s'" and "mutex_held s' e p" and "mutex_pcp (OSEvents s' e) = pcp"
    and "OSMutexAccept e s = (True, the res, s')"
proof -
  have cur: "is_task s p" "OSTCBCur s = OSTCBPrioTbl s p" using kernel_okD(3) [OF ok] by (auto simp: cur_ok_def p)
  have pr: "OSTCBPrio (OSTCBTbl s (OSTCBCur s)) = p" using task_prio [OF kernel_okD(2) [OF ok] cur(1)] by (simp add: cur task_at_def)
  have mt: "mutex_take e s = (if pcp \<noteq> OS_PRIO_MUTEX_CEIL_DIS \<and> p \<le> pcp then OS_ERR_PCP_LOWER else OS_ERR_NONE,
      mutex_give e p (OSTCBCur s) s)" unfolding mutex_take_def Let_def pr pcp_def ..
  have eq: "res = Some (if pcp \<noteq> OS_PRIO_MUTEX_CEIL_DIS \<and> p \<le> pcp then OS_ERR_PCP_LOWER else OS_ERR_NONE)"
    "s' = mutex_give e p (OSTCBCur s) s"
    using r mtx nest by (simp_all add: OSMutexPend_def is_mutex_def mt)
  show "res = Some (if pcp \<noteq> OS_PRIO_MUTEX_CEIL_DIS \<and> p \<le> pcp then OS_ERR_PCP_LOWER else OS_ERR_NONE)" by (rule eq(1))
  show "OSMutexAccept e s = (True, the res, s')" using mtx nest by (simp add: OSMutexAccept_def is_mutex_def mt eq)
  show "kernel_ok s'" unfolding eq by (rule mutex_give_ok [OF ok mtx(1)])
  have p255: "p < 255" using p(2) by simp
  note G = mutex_give_bytes [OF p255, of e "OSTCBCur s" s, folded eq(2)]
  have "is_mutex s' e" "OSTCBPrioTbl s' = OSTCBPrioTbl s" using mtx(1) by (simp_all add: eq(2) is_mutex_def mutex_give_def)
  then show "mutex_held s' e p" using G(2,3) p(2) cur by (simp add: mutex_held_def is_task_def)
  show "mutex_pcp (OSEvents s' e) = pcp" by (simp add: G(1) pcp_def)
qed

lemma OSMutexPost_plain:
  assumes ok: "kernel_ok s" and held: "mutex_held s e m" and m: "m = OSPrioCur s" and nest: "OSIntNesting s = 0"
    and pcp: "pcp = mutex_pcp (OSEvents s e)" "pcp = OS_PRIO_MUTEX_CEIL_DIS \<or> pcp \<noteq> m \<and> OSTCBPrioTbl s pcp = OS_TCB_RESERVED"
  shows "OSMutexPost e s = mutex_pass e pcp s"
proof -
  have H: "is_mutex s e" "is_task s m" "OSEventPtr (OSEvents s e) = OSTCBPrioTbl s m" "m < OS_LOWEST_PRIO" using held by (simp_all add: mutex_held_def)
  have cur: "OSTCBCur s = OSTCBPrioTbl s m" using kernel_okD(3) [OF ok] by (simp add: cur_ok_def m)
  have pr: "OSTCBPrio (OSTCBTbl s (OSTCBCur s)) = m" using task_prio [OF kernel_okD(2) [OF ok] H(2)] by (simp add: cur task_at_def)
  have own: "OSTCBCur s = OSEventPtr (OSEvents s e)" by (simp add: cur H(3))
  have same: "s\<lparr>OSTCBPrioTbl := (OSTCBPrioTbl s)(pcp := OS_TCB_RESERVED)\<rparr> = s" if "OSTCBPrioTbl s pcp = OS_TCB_RESERVED"
    unfolding fun_upd_idem [of "OSTCBPrioTbl s", OF that] by simp
  have t: "OSEventType (OSEvents s e) = OS_EVENT_TYPE_MUTEX" "e \<noteq> NULL" using H(1) by (simp_all add: is_mutex_def)
  have a: "(if pcp \<noteq> OS_PRIO_MUTEX_CEIL_DIS
      then (if m = pcp then OSMutex_RdyAtPrio (OSTCBCur s) (mutex_prio (OSEvents s e)) s else s)\<lparr>OSTCBPrioTbl :=
        (OSTCBPrioTbl (if m = pcp then OSMutex_RdyAtPrio (OSTCBCur s) (mutex_prio (OSEvents s e)) s else s))(pcp := OS_TCB_RESERVED)\<rparr>
      else s) = s"
  proof (cases "pcp = OS_PRIO_MUTEX_CEIL_DIS")
    case False
    then have "m \<noteq> pcp" "OSTCBPrioTbl s pcp = OS_TCB_RESERVED" using pcp(2) by auto
    then show ?thesis using False by (simp only: if_not_P same simp_thms if_True)
  qed simp
  have g: "\<not> OSIntNesting s > 0" "e \<noteq> NULL" using nest t by simp_all
  show ?thesis
    unfolding OSMutexPost_def Let_def pr pcp(1) [symmetric] a
    by (simp only: g t(1) own [symmetric] simp_thms if_False)
qed

subsection \<open>Priority inversion\<close>

lemma inherit_lent:
  assumes ok: "kernel_ok s" and uc: "user_code s" and lock: "OSLockNesting s = 0" and held: "mutex_held s e m"
    and pcp: "pcp = mutex_pcp (OSEvents s e)" "pcp < m" "OSTCBPrioTbl s pcp = OS_TCB_RESERVED"
    and p: "p = OSPrioCur s" "p < m" and settled: "settled s m"
  obtains v where "OSMutexPend e timeout s = (None, prio_alias m (OSTCBPrioTbl s m) v)"
    and "lent (prio_alias m (OSTCBPrioTbl s m) v) e m v" and "mutex_pcp (OSEvents v e) = pcp"
    and "OSTCBPrioTbl v = (OSTCBPrioTbl s)(m := OS_TCB_RESERVED, pcp := OSTCBPrioTbl s m)"
    and "rdy v pcp = rdy s m" and "\<not> rdy v p" and "\<And>u. u \<notin> {p, m, pcp} \<Longrightarrow> rdy v u = rdy s u"
    and "waiters v e = insert p (if m \<in> waiters s e then insert pcp (waiters s e - {m}) else waiters s e)"
    and "pcp < p \<and> rdy s m \<Longrightarrow> OSPrioCur v = pcp" and "OSIntNesting v = 0" and "OSLockNesting v = 0"
    and "OSTCBStat (task_at v p) = OSTCBStat (task_at s p) OR OS_STAT_MUTEX" and "\<And>x. x \<noteq> e \<Longrightarrow> waits v x pcp = waits s x m"
proof (rule OSMutexPend_inherit [OF assms, of timeout], goal_cases)
  case (1 v)
  have H: "m < OS_LOWEST_PRIO" "is_task s m" "OSEventPtr (OSEvents s e) = OSTCBPrioTbl s m" "mutex_prio (OSEvents s e) = m"
    using held by (simp_all add: mutex_held_def)
  have b: "mutex_pcp (OSEvents v e) = pcp" "mutex_prio (OSEvents v e) = m"
    using 1(10) pcp(1) H(4) by (simp_all add: mutex_pcp_def mutex_prio_def)
  have "lent (prio_alias m (OSTCBPrioTbl s m) v) e m v"
    unfolding lent_def b 1(11) H(3) using 1(3,9,4) pcp(2) H(1,2) by (simp add: is_task_def)
  then show ?thesis using that [OF 1(2)] b(1) 1(4-8,12-14,18,19) by blast
qed



text \<open>
  C36 When the raised owner posts the mutex and no task waits any more (the wait of the task that raised
  it timed out), its priority is lowered but the scheduler is not called: a ready task of higher
  priority does not run although no interrupt is served and nothing is locked, and the owner goes on.
\<close>

theorem OSMutexPost_no_resched:
  assumes lent: "lent s e m v" and cur: "OSPrioCur v = mutex_pcp (OSEvents v e)" and uc: "user_code v"
    and lock: "OSLockNesting v = 0" and none: "waiters v e = {}" and u: "rdy v u" "mutex_pcp (OSEvents v e) < u" "u < m"
    and r: "OSMutexPost e s = (err, s')"
  shows "err = OS_ERR_NONE \<and> data_ok s' \<and> mutex_available (OSEvents s' e) \<and> OSIntNesting s' = 0 \<and> OSLockNesting s' = 0
    \<and> rdy s' u \<and> u < OSPrioCur s' \<and> \<not> kernel_ok s'"
proof -
  note R = mutex_released [OF lent refl cur uc lock]
  define b where "b = (prio_moved OS_TCB_RESERVED NULL (mutex_pcp (OSEvents v e)) m v)\<lparr>OSPrioCur := m\<rparr>"
  note R = R [folded b_def]
  have Wb: "waiters b e = {}" using R(4) none by simp
  note P = mutex_pass_none [OF R(2,3) Wb]
  define s2 where "s2 = upd_event e (\<lambda>ev. ev\<lparr>OSEventCnt := OSEventCnt ev OR OS_MUTEX_AVAILABLE, OSEventPtr := NULL\<rparr>) b"
  have e: "err = OS_ERR_NONE" "s' = s2" using r R(1) P(1) by (simp_all add: s2_def)
  have f: "OSIntNesting s2 = 0" "OSLockNesting s2 = 0" "OSPrioCur s2 = m" "rdy s2 u = rdy b u"
    using R(8,9,10) by (simp_all add: s2_def rdy_def)
  have "rdy s2 u" using f(4) R(6) u by simp
  moreover from this have "\<not> kernel_ok s2" using f u kernel_okD(4) [of s2] by (fastforce simp: sched_ok_def)
  moreover have "data_ok s2" "mutex_available (OSEvents s2 e)" using P(2,3) by (simp_all only: s2_def)
  ultimately show ?thesis using f u(3) by (simp add: e)
qed

text \<open>
  Deleting a mutex whose raised owner is not the caller corrupts the scheduler's idea of the running
  task: the owner is put into the ready list whatever it waits for, and \<open>OSPrioCur\<close> becomes the
  priority of the owner while the caller goes on.
\<close>

lemma OSMutexDel_wrong_current:
  assumes lent: "lent s e m v" and nest: "OSIntNesting v = 0" and other: "OSPrioCur v \<noteq> mutex_pcp (OSEvents v e)"
    and none: "waiters v e = {}"
  shows "\<exists>s'. OSMutexDel e OS_DEL_ALWAYS s = Some (NULL, OS_ERR_NONE, s') \<and> rdy s' m \<and> OSPrioCur s' = m
    \<and> OSTCBCur s' = OSTCBCur v \<and> OSTCBPrioTbl s' m \<noteq> OSTCBCur s' \<and> \<not> cur_ok s'"
proof -
  let ?q = "mutex_pcp (OSEvents v e)"
  let ?t = "OSTCBPrioTbl v ?q"
  have L: "kernel_ok v" "is_mutex v e" "mutex_prio (OSEvents v e) = m" "m < OS_LOWEST_PRIO" "?q < m" "is_task v ?q"
    "OSEventPtr (OSEvents v e) = ?t" "s = prio_alias m ?t v" using lent by (simp_all add: lent_def)
  note inv = kernel_okD(2) [OF L(1)]
  have cur: "OSTCBCur v = OSTCBPrioTbl v (OSPrioCur v)" "is_task v (OSPrioCur v)" using kernel_okD(3) [OF L(1)] by (simp_all add: cur_ok_def)
  have tne: "OSTCBCur v \<noteq> ?t" using task_inj [OF inv cur(2) L(6)] other cur(1) by auto
  have tp: "tcb_prio_ok ?q (OSTCBTbl s ?t)" using task_prio_ok [OF inv L(6)] by (simp add: task_at_def L(8))
  define s1 where "s1 = OSMutex_RdyAtPrio ?t m s"
  have m64: "m < 64" "m div 8 mod 8 = m div 8" using L(4) by simp_all
  have rd: "rdy_map s1 = bm_ins m (bm_del ?q (rdy_map v))"
    unfolding s1_def OSMutex_RdyAtPrio_def Let_def tcb_unrdy_eq [OF tp] m64(2)
    by (simp add: tcb_rdy_def upd_tcb_def set_rdy_map_def rdy_map_def bm_ins_def prio_bitx_def prio_bity_def
        L(8) prio_alias_def)
  have f: "OSEvents s1 = OSEvents v" "OSPrioCur s1 = m" "OSTCBCur s1 = OSTCBCur v" "OSTCBPrioTbl s1 m = ?t" "OSIntNesting s1 = 0"
    unfolding s1_def OSMutex_RdyAtPrio_def Let_def using nest by (simp_all add: tcb_unrdy_def tcb_rdy_def L(8))
  have grp: "OSEventGrp (OSEvents v e) = 0" using none waiters_grp [OF inv, of e] by simp
  have q: "?q \<noteq> OS_PRIO_MUTEX_CEIL_DIS" "?q \<noteq> m" using L(4,5) by auto
  have all: "OS_EventTaskRdyAll e NULL OS_STAT_MUTEX OS_STAT_PEND_OK 0 s1 = Some (0, s1)"
    by (subst OS_EventTaskRdyAll.simps) (simp add: f grp)
  define s2 where "s2 = event_free e (mutex_unreserve e s1)"
  have pr: "OSTCBPrio (OSTCBTbl s ?t) = ?q" using tp by (simp add: tcb_prio_ok_def)
  have g: "OSIntNesting s = 0" "e \<noteq> NULL" "OSEventType (OSEvents s e) = OS_EVENT_TYPE_MUTEX" "OSEvents s = OSEvents v" "?t \<noteq> NULL"
    using L(2,6) nest by (simp_all add: L(8) is_mutex_def is_task_def)
  have "OSMutexDel e OS_DEL_ALWAYS s = Some (NULL, OS_ERR_NONE, s2)"
    using g(1,2,3,5) pr q all grp L(3,7)
    unfolding OSMutexDel_def Let_def g(4) by (simp add: s1_def [symmetric] s2_def [symmetric])
  moreover have "rdy_map s2 = rdy_map s1"
    by (simp add: s2_def event_free_def mutex_unreserve_def Let_def rdy_map_def upd_event_def)
  then have "rdy s2 m" using m64 by (simp add: rdy_def rd bm_mem_ins)
  moreover have "OSPrioCur s2 = m" "OSTCBCur s2 = OSTCBCur v" "OSTCBPrioTbl s2 m = ?t"
    using q f by (simp_all add: s2_def event_free_def mutex_unreserve_def Let_def)
  ultimately show ?thesis using tne by (auto simp: cur_ok_def)
qed

subsection \<open>An example\<close>

text \<open>
  The example system, with the task of priority 10 woken (\<open>ex_woken\<close>) or still waiting, and a
  mutex made of the event 5: its count and owner are arguments, the priority \<open>q\<close> is reserved.
\<close>

definition ex_woken :: os_state where
  "ex_woken = OS_Sched (snd (OS_EventTaskRdy 1 NULL OS_STAT_SEM OS_STAT_PEND_OK (ex_state 0)))"

lemma ex_woken:
  "kernel_ok ex_woken" "rdy ex_woken u \<longleftrightarrow> u \<in> {4, 10, 63}" "\<not> waits ex_woken x u"
  "OSTCBPrioTbl ex_woken = OSTCBPrioTbl (ex_state 0)" "OSIntNesting ex_woken = 0" "OSLockNesting ex_woken = 0"
  "OSEventFreeList ex_woken = 5" "OSPrioCur ex_woken = 4"
proof -
  note R = event_rdy_ok [OF kernel_okD(1) [OF ex_kernel_ok], of 0 1 OS_STAT_SEM _ NULL OS_STAT_PEND_OK, OF _ _ refl refl]
  have pre: "waiters (ex_state 0) 1 \<noteq> {}" "OS_STAT_SEM = event_stat (OSEventType (OSEvents (ex_state 0) 1))" "Min (waiters (ex_state 0) 1) = 10"
    by (simp_all add: ex_waiters) (simp_all add: ex_state_simps event_stat_def)
  note R = R [OF pre(1,2), unfolded pre(3)]
  note P = EventTaskRdy_prios [of 1 NULL OS_STAT_SEM OS_STAT_PEND_OK "ex_state 0"]
  show k: "kernel_ok ex_woken" unfolding ex_woken_def by (rule kernel_ok_Sched) (rule R(1))
  show n: "OSTCBPrioTbl ex_woken = OSTCBPrioTbl (ex_state 0)" "OSIntNesting ex_woken = 0" "OSLockNesting ex_woken = 0"
    "OSEventFreeList ex_woken = 5"
    by (simp_all only: ex_woken_def OS_Sched_frame P) (simp_all add: ex_state_simps)
  have "OSTCBStat (task_at (ex_state 0) 10) AND OS_STAT_SUSPEND = 0" by (simp add: ex_at)
  then have r10: "rdy ex_woken 10" using R(7) by (simp add: ex_woken_def rdy_Sched)
  show rd: "rdy ex_woken u \<longleftrightarrow> u \<in> {4, 10, 63}" for u
  proof (cases "u = 10")
    case False
    then show ?thesis using event_rdy_other [OF kernel_okD(2) [OF ex_kernel_ok] pre(1), of u] pre(3)
      by (simp add: ex_woken_def rdy_Sched ex_rdy)
  qed (use r10 in simp)
  show "\<not> waits ex_woken x u"
  proof (cases "x = 1")
    case True
    have "waiters ex_woken 1 = waiters (ex_state 0) 1 - {10}" unfolding ex_woken_def waiters_Sched by (rule R(3))
    then show ?thesis by (auto simp: True waiters_def ex_waits)
  next
    case False
    have "waiters ex_woken x = waiters (ex_state 0) x" unfolding ex_woken_def waiters_Sched by (rule R(11) [OF False])
    then show ?thesis using False by (auto simp: waiters_def ex_waits)
  qed
  show "OSPrioCur ex_woken = 4" using kernel_okD(4) [OF k] by (fastforce simp: sched_ok_def n rd)
qed

definition ex_mutex :: "nat \<Rightarrow> 16 word \<Rightarrow> ptr \<Rightarrow> os_state \<Rightarrow> os_state" where
  "ex_mutex q c t b = upd_event 5 (\<lambda>ev. ev\<lparr>OSEventCnt := c, OSEventPtr := t\<rparr>) (snd (snd (OSMutexCreate q b)))"

lemma ex_mutex:
  fixes c t
  assumes ok: "kernel_ok b" and n: "OSIntNesting b = 0" and q: "q < OS_LOWEST_PRIO" "OSTCBPrioTbl b q = NULL" and fr: "OSEventFreeList b = 5"
    and w: "\<And>u. \<not> waits b 5 u"
  defines "s \<equiv> ex_mutex q c t b"
  shows "kernel_ok s" and "is_mutex s 5" and "OSEventCnt (OSEvents s 5) = c" and "OSEventPtr (OSEvents s 5) = t"
    and "\<And>x u. waits s x u = waits b x u" and "rdy s u = rdy b u" and "OSPrioCur s = OSPrioCur b"
    and "OSTCBPrioTbl s = (OSTCBPrioTbl b)(q := OS_TCB_RESERVED)" and "OSIntNesting s = 0" and "OSLockNesting s = OSLockNesting b"
proof -
  obtain s' where c: "OSMutexCreate q b = (5, OS_ERR_NONE, s')" and k: "kernel_ok s'" and mx: "is_mutex s' 5"
    and wt: "waiters s' 5 = {}" and pt: "OSTCBPrioTbl s' = (OSTCBPrioTbl b)(q := OS_TCB_RESERVED)" and rd: "\<And>u. rdy s' u = rdy b u"
    and ev: "\<And>x. x \<noteq> 5 \<Longrightarrow> OSEvents s' x = OSEvents b x" and f: "OSPrioCur s' = OSPrioCur b" "OSIntNesting s' = 0"
      "OSLockNesting s' = OSLockNesting b"
    by (rule OSMutexCreate_ok [OF ok n q fr]) auto
  have s: "s = upd_event 5 (\<lambda>ev. ev\<lparr>OSEventCnt := c, OSEventPtr := t\<rparr>) s'" by (simp add: s_def ex_mutex_def c)
  show "kernel_ok s" unfolding s by (rule kernel_ok_upd_event [OF k]) (use mx in \<open>simp_all add: is_mutex_def\<close>)
  show "is_mutex s 5" using mx by (simp add: s is_mutex_def)
  show "waits s x u = waits b x u" for x u
    using wt w [of u] ev [of x] by (cases "x = 5") (auto simp: s waits_def waiters_def)
  show "rdy s u = rdy b u" using rd by (simp add: s rdy_def)
  show "OSEventCnt (OSEvents s 5) = c" "OSEventPtr (OSEvents s 5) = t" "OSPrioCur s = OSPrioCur b"
    "OSTCBPrioTbl s = (OSTCBPrioTbl b)(q := OS_TCB_RESERVED)" "OSIntNesting s = 0" "OSLockNesting s = OSLockNesting b"
    by (simp_all add: s pt f)
qed

lemma ex_held:
  defines "s \<equiv> ex_mutex 2 0x020A 4 ex_woken"
  shows "kernel_ok s" and "user_code s" and "OSLockNesting s = 0" and "mutex_held s 5 10" and "2 = mutex_pcp (OSEvents s 5)"
    and "OSTCBPrioTbl s 2 = OS_TCB_RESERVED" and "4 = OSPrioCur s" and "rdy s 10" and "\<forall>x. \<not> waits s x 10" and "waiters s 5 = {}"
proof -
  have pt: "OSTCBPrioTbl (ex_state 0) = (\<lambda>_. 0)(4 := 3, 10 := 4, 63 := 2)" by (simp add: ex_state_simps)
  note M = ex_mutex [OF ex_woken(1,5), of 2 "0x020A" 4, folded s_def]
  have "OSTCBPrioTbl ex_woken 2 = NULL" by (simp add: ex_woken(4) pt)
  note M = M [OF _ this ex_woken(7,3)]
  show "kernel_ok s" "OSLockNesting s = 0" "OSTCBPrioTbl s 2 = OS_TCB_RESERVED" "4 = OSPrioCur s" "rdy s 10"
    using M ex_woken by simp_all
  show "\<forall>x. \<not> waits s x 10" "waiters s 5 = {}" using M(5) ex_woken(3) by (simp_all add: waiters_def)
  show "user_code s" using M ex_woken by (simp add: user_code_def)
  show "2 = mutex_pcp (OSEvents s 5)" using M(3) by (simp add: mutex_pcp_def drop_bit_eq_div)
  have "mutex_prio (OSEvents s 5) = 10" using M(3) by (simp add: mutex_prio_def)
  then show "mutex_held s 5 10" using M(2,4,8) by (simp add: mutex_held_def is_task_def ex_woken(4) pt)
qed



lemma ex_lent:
  assumes b: "kernel_ok b" "OSIntNesting b = 0" "OSEventFreeList b = 5" "\<And>u. \<not> waits b 5 u"
    and pt: "OSTCBPrioTbl b = (\<lambda>_. 0)(4 := 3, 10 := 4, 63 := 2)"
    and q: "(q, t) \<in> {(4, 3), (10, 4)}"
  defines "v \<equiv> ex_mutex 20 (push_bit 8 (of_nat q) OR 20) t b"
  shows "lent (prio_alias 20 t v) 5 20 v" and "mutex_pcp (OSEvents v 5) = q" and "waiters v 5 = {}" and "rdy v u = rdy b u"
    and "OSPrioCur v = OSPrioCur b" and "OSIntNesting v = 0" and "OSLockNesting v = OSLockNesting b" and "waits v x u = waits b x u"
proof -
  have "OSTCBPrioTbl b 20 = NULL" by (simp add: pt)
  note M = ex_mutex [OF b(1,2) _ this b(3,4), of "push_bit 8 (of_nat q) OR 20" t, folded v_def]
  show q': "mutex_pcp (OSEvents v 5) = q" using M(3) q by (auto simp: mutex_pcp_def drop_bit_eq_div)
  have "mutex_prio (OSEvents v 5) = 20" using M(3) q by (auto simp: mutex_prio_def)
  then show "lent (prio_alias 20 t v) 5 20 v" unfolding lent_def q' using M(1,2,4,8) q by (auto simp: is_task_def pt)
  show "waiters v 5 = {}" using M(5) b(4) by (simp add: waiters_def)
qed (use ex_mutex [OF b(1,2) _ _ b(3,4), of 20 "push_bit 8 (of_nat q) OR 20" t, folded v_def] pt in simp_all)

theorem OSMutexPost_no_resched_witness:
  "\<exists>s s'. OSMutexPost 5 s = (OS_ERR_NONE, s') \<and> rdy s' 10 \<and> OSPrioCur s' > 10 \<and> \<not> kernel_ok s'"
proof -
  have pt: "OSTCBPrioTbl ex_woken = (\<lambda>_. 0)(4 := 3, 10 := 4, 63 := 2)" by (simp add: ex_woken(4)) (simp add: ex_state_simps)
  have q: "(4, 3) \<in> {(4, 3), (10 :: nat, 4 :: nat)}" by simp
  note E = ex_lent [OF ex_woken(1,5,7,3) pt q]
  define v where "v = ex_mutex 20 (push_bit 8 (of_nat 4) OR 20) 3 ex_woken"
  note E = E [folded v_def]
  have "user_code v" using E(5,6,8) ex_woken(3,8) by (simp add: user_code_def)
  moreover have "OSPrioCur v = mutex_pcp (OSEvents v 5)" "OSLockNesting v = 0" "rdy v 10" using E ex_woken by simp_all
  moreover have "mutex_pcp (OSEvents v 5) < 10" using E(2) by simp
  ultimately have "fst (OSMutexPost 5 (prio_alias 20 3 v)) = OS_ERR_NONE \<and> rdy (snd (OSMutexPost 5 (prio_alias 20 3 v))) 10
      \<and> OSPrioCur (snd (OSMutexPost 5 (prio_alias 20 3 v))) > 10 \<and> \<not> kernel_ok (snd (OSMutexPost 5 (prio_alias 20 3 v)))"
    using OSMutexPost_no_resched [OF E(1) _ _ _ E(3) _ _ _ surjective_pairing, of 10] by simp
  then show ?thesis by (metis prod.collapse)
qed

lemma OSMutexDel_wrong_current_example:
  "\<exists>s s'. OSMutexDel 5 OS_DEL_ALWAYS s = Some (NULL, OS_ERR_NONE, s') \<and> rdy s' 20 \<and> \<not> cur_ok s'"
proof -
  have b: "OSIntNesting (ex_state 0) = 0" "OSEventFreeList (ex_state 0) = 5" "\<not> waits (ex_state 0) 5 u"
    "OSTCBPrioTbl (ex_state 0) = (\<lambda>_. 0)(4 := 3, 10 := 4, 63 := 2)" "OSPrioCur (ex_state 0) = 4" for u
    by (simp_all add: ex_waits) (simp_all add: ex_state_simps)
  have q: "(10, 4) \<in> {(4, 3), (10 :: nat, 4 :: nat)}" by simp
  note E = ex_lent [OF ex_kernel_ok b(1,2,3,4) q]
  show ?thesis using OSMutexDel_wrong_current [OF E(1) E(6)] E(2,3,5) b(5) by fastforce
qed

end
