(* ===== verification/Task_Stack.thy ===== *)
theory Task_Stack
  imports Task_Life
begin

text \<open>
  The stack check: \<open>OSTaskCreateExt\<close> clears a stack and builds the initial frame at its top,
  \<open>OSTaskStkChk\<close> counts the words at its bottom that are still zero.
\<close>

lemma stk_free_count:
  assumes "\<And>i. i < k \<Longrightarrow> stk_words s (b + 4 * i) = 0" and "stk_words s (b + 4 * k) \<noteq> 0"
  shows "stk_free b n s = Some (n + of_nat k)"
  using assms
proof (induction k arbitrary: b n)
  case 0
  then show ?case by (simp add: stk_free.simps)
next
  case (Suc k)
  have "stk_words s (b + 4 + 4 * i) = 0" if "i < k" for i using Suc.prems(1) [of "Suc i"] that by (simp add: algebra_simps)
  moreover have "stk_words s (b + 4 + 4 * k) \<noteq> 0" using Suc.prems(2) by (simp add: algebra_simps)
  ultimately have "stk_free (b + 4) (n + 1) s = Some (n + 1 + of_nat k)" by (rule Suc.IH)
  then show ?case using Suc.prems(1) [of 0] by (simp add: stk_free.simps [of b] algebra_simps)
qed

lemma stk_clear_words:
  "stk_words (stk_clear n b s) a = (if \<exists>i<n. a = b + 4 * i then 0 else stk_words s a)"
proof (induction n arbitrary: b s)
  case (Suc n)
  have "(\<exists>i<Suc n. a = b + 4 * i) \<longleftrightarrow> a = b \<or> (\<exists>i<n. a = b + 4 + 4 * i)"
    by (auto simp: less_Suc_eq_0_disj)
  then show ?case by (auto simp: Suc)
qed simp

lemma stk_clear_frame: "\<exists>w. stk_clear n b s = s\<lparr>stk_words := w\<rparr>"
proof (induction n arbitrary: b s)
  case 0
  have "s = s\<lparr>stk_words := stk_words s\<rparr>" by simp
  then show ?case by (metis stk_clear.simps(1))
next
  case (Suc n)
  then obtain w where "stk_clear n (b + 4) (s\<lparr>stk_words := (stk_words s)(b := 0)\<rparr>)
      = (s\<lparr>stk_words := (stk_words s)(b := 0)\<rparr>)\<lparr>stk_words := w\<rparr>" by blast
  then show ?case by auto
qed

lemma stk_push_below:
  "a + 4 * length ws < stk \<Longrightarrow> stk_words (snd (stk_push ws stk s)) a = stk_words s a"
  by (induction ws arbitrary: stk s) auto

lemma stk_push_last:
  "ws \<noteq> [] \<Longrightarrow> 4 * length ws \<le> stk \<Longrightarrow> stk_words (snd (stk_push ws stk s)) (stk - 4 * length ws) = last ws"
proof (induction ws arbitrary: stk s)
  case (Cons w ws)
  show ?case
  proof (cases "ws = []")
    case False
    have "stk - 4 * length (w # ws) = stk - 4 - 4 * length ws" by simp
    then show ?thesis using Cons.IH [OF False, of "stk - 4"] Cons.prems False by simp
  qed simp
qed simp

lemma OSTaskStkInit_below: "a + 60 < ptos \<Longrightarrow> stk_words (snd (OSTaskStkInit ret task arg ptos s)) a = stk_words s a"
  unfolding OSTaskStkInit_def by (subst stk_push_below) auto

lemma OSTaskStkInit_last:
  "60 \<le> ptos \<Longrightarrow> stk_words (snd (OSTaskStkInit ret task arg ptos s)) (ptos - 60) = 0x04040404"
  unfolding OSTaskStkInit_def
  using stk_push_last [of "[task, ret, 0x12121212, 0x03030303, 0x02020202, 0x01010101, arg,
               0x11111111, 0x10101010, 0x09090909, 0x08080808, 0x07070707, 0x06060606, 0x05050505, 0x04040404]" ptos]
  by simp

lemma OS_Sched_stk [simp]: "stk_words (OS_Sched s) = stk_words s"
  by (simp add: OS_Sched_def OS_SchedNew_def PendSV_Handler_def Let_def upd_tcb_def)

lemma TCBInit_stk: "stk_words (snd (OS_TCBInit p ptos pbos ident sz pext opt s)) = stk_words s"
  by (simp add: OS_TCBInit_def tcb_alloc_def Let_def tcb_rdy_def upd_tcb_def set_rdy_map_def)

text \<open>
  A task created with stack checking and clearing has, before it runs, exactly the sixteen words of
  its initial frame in use: the check ends and reports all other words as free, whatever the stack held before.
\<close>

lemma OSTaskStkChk_after_create:
  assumes ok: "kernel_ok s" and tl: "tcb_list s ps" and fr: "free_tcbs s (x # xs)" and run: "OSRunning s"
    and p: "p < OS_LOWEST_PRIO" "OSTCBPrioTbl s p = NULL" and nest: "OSIntNesting s = 0"
    and sz: "sz > 16" and top: "ptos = pbos + 4 * (unat sz - 1)"
    and opt: "opt AND OS_TASK_OPT_STK_CHK \<noteq> 0" "opt AND OS_TASK_OPT_STK_CLR \<noteq> 0" and d: "d \<noteq> NULL"
  shows "fst (OSTaskCreateExt ret task arg ptos p ident pbos sz pext opt s) = OS_ERR_NONE
    \<and> OSTaskStkChk p d (snd (OSTaskCreateExt ret task arg ptos p ident pbos sz pext opt s))
        = Some (OS_ERR_NONE, Some \<lparr>OSFree = sz - 16, OSUsed = 16\<rparr>)"
proof -
  note inv = kernel_okD(2) [OF ok]
  have nt: "\<not> is_task s p" using p(2) by (simp add: is_task_def)
  define n where "n = unat sz"
  have n: "16 < n" using sz by (simp add: n_def word_less_nat_alt)
  define s1 where "s1 = s\<lparr>OSTCBPrioTbl := (OSTCBPrioTbl s)(p := OS_TCB_RESERVED)\<rparr>"
  define s1a where "s1a = stk_clear n pbos s1"
  have clr: "OS_TaskStkClr pbos sz opt s1 = s1a" using opt by (simp add: OS_TaskStkClr_def s1a_def n_def)
  obtain psp s2 where i: "OSTaskStkInit ret task arg ptos s1a = (psp, s2)" by fastforce
  obtain w where "s2 = s1a\<lparr>stk_words := w\<rparr>" using OSTaskStkInit_words [of ret task arg ptos s1a] i by auto
  moreover obtain w' where "s1a = s1\<lparr>stk_words := w'\<rparr>" using stk_clear_frame unfolding s1a_def by blast
  ultimately have s2: "s2 = s1\<lparr>stk_words := w\<rparr>" by simp
  have f2: "OSTCBPrioTbl s2 = (OSTCBPrioTbl s)(p := OS_TCB_RESERVED)" "OSTCBTbl s2 = OSTCBTbl s" "OSEvents s2 = OSEvents s"
    "rdy_map s2 = rdy_map s" "OSTCBList s2 = OSTCBList s" "OSTCBFreeList s2 = OSTCBFreeList s" "OSRunning s2 = OSRunning s"
    by (simp_all add: s2 s1_def rdy_map_def)
  have tasks2: "is_task s2 q = is_task s q" for q using p(2) by (simp add: is_task_def f2)
  have pt2: "OSTCBPrioTbl s2 q = OSTCBPrioTbl s q" if "is_task s q" for q using that nt by (auto simp: f2)
  have inv2: "kinv s2" using inv kinv_PrioTbl_cong [OF tasks2 pt2 f2(2,3,4)] by simp
  have tl2: "tcb_list s2 ps" using tl tcb_list_cong [OF f2(5) pt2 tasks2] by (simp add: f2)
  have fr2: "free_tcbs s2 (x # xs)" using fr pt2 unfolding free_tcbs_def tasks2 tcb_pool_def f2 by (auto simp: f2)
  have nt2: "\<not> is_task s2 p" using nt tasks2 by simp
  obtain e3 s3 where t: "OS_TCBInit p psp pbos ident sz pext opt s2 = (e3, s3)" by fastforce
  note I = OS_TCBInit_ok [OF inv2 nt2 p(1) tl2 fr2 t]
  let ?c = "OSTaskCreateExt ret task arg ptos p ident pbos sz pext opt s"
  have c: "?c = (OS_ERR_NONE, OS_Sched s3)"
    using p nest i t I(1,18) run f2(7) clr unfolding OSTaskCreateExt_def by (simp add: Let_def s1_def)
  define s' where "s' = OS_Sched s3"
  have "is_task s' p" using I(5) by (simp add: s'_def is_task_def)
  then have pt: "OSTCBPrioTbl s' p \<noteq> NULL" "OSTCBPrioTbl s' p \<noteq> OS_TCB_RESERVED" by (simp_all add: is_task_def)
  have tcb: "OSTCBStkBottom (task_at s' p) = pbos" "OSTCBStkSize (task_at s' p) = sz" "OSTCBOpt (task_at s' p) = opt"
    using I(10,11,12) OS_Sched_tcb [of s3 "OSTCBPrioTbl s3 p"] by (auto simp: s'_def task_at_def)
  have words: "stk_words s' = stk_words s2" using TCBInit_stk [of p psp pbos ident sz pext opt s2] t by (simp add: s'_def)
  have pt60: "60 \<le> ptos" "ptos - 60 = pbos + 4 * (n - 16)" using n by (simp_all add: top n_def [symmetric])
  have "stk_words s' (pbos + 4 * j) = 0" if "j < n - 16" for j
  proof -
    have "pbos + 4 * j + 60 < ptos" using that n by (simp add: top n_def [symmetric])
    then have "stk_words s2 (pbos + 4 * j) = stk_words s1a (pbos + 4 * j)"
      using OSTaskStkInit_below [of "pbos + 4 * j" ptos ret task arg s1a] i by simp
    moreover have "stk_words s1a (pbos + 4 * j) = 0" using that by (auto simp: s1a_def stk_clear_words)
    ultimately show ?thesis by (simp add: words)
  qed
  moreover have "stk_words s' (pbos + 4 * (n - 16)) = 0x04040404"
    using OSTaskStkInit_last [OF pt60(1), of ret task arg s1a] i pt60(2) by (simp add: words)
  ultimately have "stk_free pbos 0 s' = Some (of_nat (n - 16))" using stk_free_count [of "n - 16" s' pbos 0] by simp
  moreover have "of_nat (n - 16) = sz - 16" using n by (simp add: n_def of_nat_diff)
  ultimately have "stk_free pbos 0 s' = Some (sz - 16)" by simp
  then have "OSTaskStkChk p d s' = Some (OS_ERR_NONE, Some \<lparr>OSFree = sz - 16, OSUsed = sz - (sz - 16)\<rparr>)"
    using p(1) d pt tcb opt(1) by (simp add: OSTaskStkChk_def Let_def self_prio_def task_at_def)
  then show ?thesis by (simp add: c s'_def)
qed

lemma OSTaskStkChk_after_create_example:
  "OSTaskStkChk 7 1 (snd (OSTaskCreateExt 9 8 6 1508 7 0 1000 128 0 3 (ex_state 0)))
     = Some (OS_ERR_NONE, Some \<lparr>OSFree = 112, OSUsed = 16\<rparr>)"
proof -
  have "OSRunning (ex_state 0)" "OSTCBPrioTbl (ex_state 0) 7 = NULL" "OSIntNesting (ex_state 0) = 0"
    by (simp_all add: ex_state_simps)
  then show ?thesis
    using OSTaskStkChk_after_create [OF ex_kernel_ok ex_tcb_list ex_free_tcbs, of 0 7 128 1508 1000 3 1] by simp
qed

end
