(* ===== verification/App_Key.thy ===== *)
theory App_Key
  imports OS_Mbox OS_Time
begin

text \<open>
  The keys: \<open>key_check\<close> (\<open>KEY/key.c\<close>) and one period of \<open>KeyStartTask\<close> (\<open>app.c\<close>), which scans the
  keys and posts a key to the mailbox \<open>msg_key\<close> when it is released and repeatedly while it is held.
  The level of a pin at the two reads of \<open>key_check\<close> is an argument.  The five branches of the
  switch over \<open>keysave\<close> have the same text.
\<close>

record key_task =
  key_T :: "16 word"
  key_Ti :: "16 word"
  keysave :: "8 word"

abbreviation (input) LongPressTime :: "16 word" where "LongPressTime \<equiv> 20"
abbreviation (input) LongPressSpeed :: "16 word" where "LongPressSpeed \<equiv> 2"

type_synonym pins = "nat \<Rightarrow> bool \<times> bool"

definition key_check :: "pins \<Rightarrow> nat \<Rightarrow> os_state \<Rightarrow> 8 word \<times> os_state" where
  "key_check pins k s =
     (if fst (pins k)
      then (let s1 = OSTimeDly 0 s in if snd (pins k) then (0, s1) else (1, s1))
      else (1, s))"

definition key_scan :: "pins \<Rightarrow> os_state \<Rightarrow> 8 word \<times> os_state" where
  "key_scan pins s =
     (let (r, s) = key_check pins 13 s in if r = 1 then (1, s)
      else let (r, s) = key_check pins 10 s in if r = 1 then (2, s)
      else let (r, s) = key_check pins 11 s in if r = 1 then (4, s)
      else let (r, s) = key_check pins 14 s in if r = 1 then (3, s)
      else let (r, s) = key_check pins 12 s in if r = 1 then (5, s)
      else (0, s))"

text \<open>One branch of the switch: the message to post, if any, and the new counters.\<close>

definition key_case :: "8 word \<Rightarrow> key_task \<Rightarrow> 8 word option \<times> key_task" where
  "key_case key t =
     (if key \<noteq> keysave t then (Some (keysave t), t\<lparr>key_T := 0, key_Ti := 0\<rparr>)
      else (let (p, t) = (if key_T t > LongPressTime
                          then (let t = t\<lparr>key_T := LongPressTime\<rparr>;
                                    (p, t) = (if key_Ti t > LongPressSpeed then (Some (keysave t), t\<lparr>key_Ti := 0\<rparr>)
                                              else (None, t))
                                in (p, t\<lparr>key_Ti := key_Ti t + 1\<rparr>))
                          else (None, t))
            in (p, t\<lparr>key_T := key_T t + 1\<rparr>)))"

definition key_switch :: "8 word \<Rightarrow> key_task \<Rightarrow> 8 word option \<times> key_task" where
  "key_switch key t = (if keysave t \<in> {1, 2, 3, 4, 5} then key_case key t else (None, t))"

definition KeyStartTask_body :: "ptr \<Rightarrow> pins \<Rightarrow> key_task \<Rightarrow> os_state \<Rightarrow> key_task \<times> os_state" where
  "KeyStartTask_body msg_key pins t s =
     (let (key, s) = key_scan pins s;
          (p, t) = key_switch key t;
          s = (case p of None \<Rightarrow> s | Some k \<Rightarrow> snd (OSMboxPost msg_key (unat k) s));
          t = t\<lparr>keysave := key\<rparr>
      in (t, snd (OSTimeDlyHMSM 0 0 0 10 s)))"

subsection \<open>Scanning\<close>

lemma OSTimeDly_0 [simp]: "OSTimeDly 0 s = s"
  by (simp add: OSTimeDly_def)

definition pressed :: "pins \<Rightarrow> nat \<Rightarrow> bool" where
  "pressed pins k \<longleftrightarrow> \<not> (fst (pins k) \<and> snd (pins k))"

lemma key_check_eq: "key_check pins k s = (if pressed pins k then 1 else 0, s)"
  by (simp add: key_check_def pressed_def Let_def)

lemma key_scan_eq:
  "key_scan pins s = (if pressed pins 13 then 1 else if pressed pins 10 then 2 else if pressed pins 11 then 4
     else if pressed pins 14 then 3 else if pressed pins 12 then 5 else 0, s)"
  by (simp add: key_scan_def key_check_eq)

subsection \<open>The messages of a sequence of scans\<close>

fun key_run :: "key_task \<Rightarrow> 8 word list \<Rightarrow> 8 word list \<times> key_task" where
  "key_run t [] = ([], t)"
| "key_run t (k # ks) =
     (let (p, t1) = key_switch k t; (ps, t2) = key_run (t1\<lparr>keysave := k\<rparr>) ks
      in (case p of None \<Rightarrow> ps | Some m \<Rightarrow> m # ps, t2))"

text \<open>
  The reference: a sequence of scans is a list of keys with the number of times each is seen again;
  key 0 stands for no key.  The first scan of the first key has been seen before.
\<close>

fun scans :: "(8 word \<times> nat) list \<Rightarrow> 8 word list" where
  "scans [] = []"
| "scans [(k, n)] = replicate n k"
| "scans ((k, n) # (k', n') # rs) = replicate n k @ k' # scans ((k', n') # rs)"

definition is_key :: "8 word \<Rightarrow> bool" where
  "is_key k \<longleftrightarrow> k \<in> {1, 2, 3, 4, 5}"

lemma key_switch_eq: "key_switch key t = (if is_key (keysave t) then key_case key t else (None, t))"
  by (simp add: key_switch_def is_key_def)

definition press_msgs :: "8 word \<times> nat \<Rightarrow> 8 word list" where
  "press_msgs r = (if is_key (fst r) then replicate (1 + (snd r - 22) div 3) (fst r) else [])"

text \<open>The counters after a key was seen again \<open>n\<close> times.\<close>

definition held :: "8 word \<Rightarrow> nat \<Rightarrow> key_task" where
  "held k n = \<lparr>key_T = (if is_key k then of_nat (min n 21) else 0),
     key_Ti = (if is_key k \<and> n \<ge> 22 then of_nat ((n - 22) mod 3 + 1) else 0), keysave = k\<rparr>"

definition repeat_due :: "8 word \<Rightarrow> nat \<Rightarrow> bool" where
  "repeat_due k n \<longleftrightarrow> is_key k \<and> n \<ge> 24 \<and> (n - 22) mod 3 = 2"

lemma held_other: "\<not> is_key k \<Longrightarrow> held k n = held k m"
  by (simp add: held_def)

lemma word16_small: "n \<le> 20 \<Longrightarrow> \<not> (of_nat n :: 16 word) > 20"
  by (simp add: word_less_nat_alt unat_of_nat take_bit_nat_eq_self)

lemma diff_21: "22 \<le> n \<Longrightarrow> n - 21 = Suc (n - 22)"
  by simp

lemma key_switch_same:
  "key_switch k (held k n) = (if repeat_due k n then Some k else None, held k (n + 1))"
proof (cases "is_key k")
  case False
  then show ?thesis using held_other [OF False, of n "n + 1"]
    by (simp add: key_switch_eq repeat_due_def) (simp add: held_def)
next
  case True
  then have sw: "key_switch k (held k n) = key_case k (held k n)" by (simp add: key_switch_eq held_def)
  consider "n \<le> 20" | "n = 21" | "n \<ge> 22" "(n - 22) mod 3 = 0" | "n \<ge> 22" "(n - 22) mod 3 = 1" | "n \<ge> 22" "(n - 22) mod 3 = 2"
    by linarith
  then show ?thesis
  proof cases
    case 1
    then show ?thesis using True word16_small [OF 1] unfolding sw
      by (simp add: key_case_def held_def repeat_due_def min_def)
  next
    case 2
    then show ?thesis using True unfolding sw by (simp add: key_case_def held_def repeat_due_def)
  next
    case 3
    then have "(n + 1 - 22) mod 3 = 1" by (simp add: diff_21 mod_Suc)
    with 3 True show ?thesis unfolding sw by (simp add: key_case_def held_def repeat_due_def min_def)
  next
    case 4
    then have "(n + 1 - 22) mod 3 = 2" by (simp add: diff_21 mod_Suc)
    with 4 True show ?thesis unfolding sw by (simp add: key_case_def held_def repeat_due_def min_def)
  next
    case 5
    then have "(n + 1 - 22) mod 3 = 0" by (simp add: diff_21 mod_Suc)
    moreover have "24 \<le> n" using 5 by (cases "n = 22"; cases "n = 23") auto
    ultimately show ?thesis using 5 True unfolding sw by (simp add: key_case_def held_def repeat_due_def min_def)
  qed
qed

lemma key_switch_other:
  "k' \<noteq> k \<Longrightarrow> key_switch k' (held k n) = (if is_key k then Some k else None, (held k 0)\<lparr>key_T := 0, key_Ti := 0\<rparr>)"
  by (auto simp: key_switch_eq key_case_def held_def)

lemma keysave_held [simp]: "(held k n)\<lparr>keysave := k\<rparr> = held k n" "(held k n)\<lparr>key_T := 0, key_Ti := 0, keysave := k'\<rparr> = held k' 0"
  by (simp_all add: held_def)

lemma key_run_append:
  "key_run t (xs @ ys) = (let (ps, t1) = key_run t xs; (qs, t2) = key_run t1 ys in (ps @ qs, t2))"
  by (induction xs arbitrary: t) (auto simp: Let_def split: prod.splits option.splits)

text \<open>A key that stays is repeated every third scan once it has been seen 24 times.\<close>

lemma due_count: "length (filter (repeat_due k) [0..<n]) = (if is_key k then (n - 22) div 3 else 0)"
proof (induction n)
  case 0
  then show ?case by simp
next
  case (Suc n)
  show ?case
  proof (cases "n < 22")
    case True
    with Suc show ?thesis by (auto simp: repeat_due_def)
  next
    case False
    then have "n \<ge> 24 \<or> (n - 22) mod 3 \<noteq> 2" by (cases "n = 22"; cases "n = 23") auto
    moreover have "Suc (n - 22) div 3 = (if (n - 22) mod 3 = 2 then Suc ((n - 22) div 3) else (n - 22) div 3)"
      by (subst div_Suc, subst mod_Suc) auto
    ultimately show ?thesis using Suc False by (auto simp: repeat_due_def diff_21)
  qed
qed

lemma key_run_held:
  "key_run (held k n) (replicate m k) = (replicate (length (filter (repeat_due k) [n..<n + m])) k, held k (n + m))"
proof (induction m arbitrary: n)
  case 0
  then show ?case by simp
next
  case (Suc m)
  have "[n..<n + Suc m] = n # [Suc n..<Suc n + m]" by (simp add: upt_conv_Cons del: upt_Suc)
  with Suc.IH [of "Suc n"] key_switch_same [of k n] show ?case by (simp add: Let_def del: upt_Suc)
qed

lemma key_run_hold: "key_run (held k 0) (replicate n k) = (replicate (if is_key k then (n - 22) div 3 else 0) k, held k n)"
  using key_run_held [of k 0 n] due_count [of k n] by simp

lemma key_run_press:
  "k' \<noteq> k \<Longrightarrow> key_run (held k 0) (replicate n k @ k' # ks) =
    (let (ps, t) = key_run (held k' 0) ks in (press_msgs (k, n) @ ps, t))"
proof -
  assume k: "k' \<noteq> k"
  have "held k n = (held k n)\<lparr>keysave := k\<rparr>" by simp
  have "key_run (held k n) (k' # ks) =
      (let (ps, t) = key_run (held k' 0) ks in ((if is_key k then k # ps else ps), t))"
    using key_switch_other [OF k, of n] by (simp add: Let_def split: prod.split)
  then show ?thesis
    by (auto simp: key_run_append key_run_hold press_msgs_def Let_def replicate_append_same split: prod.splits)
qed

fun changing :: "(8 word \<times> nat) list \<Rightarrow> bool" where
  "changing ((k, n) # (k', n') # rs) \<longleftrightarrow> k \<noteq> k' \<and> changing ((k', n') # rs)"
| "changing rs \<longleftrightarrow> True"

text \<open>
  C23 The key task agrees with its reference on every sequence of scans: each press of a key posts
  the key once when it is released, and once more for every third scan after the first 24 while it
  is held; no other message is posted.
\<close>

theorem key_run_correct:
  assumes "changing ((k, n) # rs @ [(k', m)])" and "m < 25"
  shows "key_run (held k 0) (scans ((k, n) # rs @ [(k', m)])) = (concat (map press_msgs ((k, n) # rs)), held k' m)"
  using assms(1)
proof (induction rs arbitrary: k n)
  case Nil
  then have "k' \<noteq> k" by simp
  from key_run_press [OF this, of n "replicate m k'"] key_run_hold [of k' m] assms(2)
  show ?case by simp
next
  case (Cons r rs)
  obtain k2 n2 where r: "r = (k2, n2)" by fastforce
  with Cons.prems have k2: "k2 \<noteq> k" and ch: "changing ((k2, n2) # rs @ [(k', m)])" by auto
  have "scans ((k, n) # r # rs @ [(k', m)]) = replicate n k @ k2 # scans ((k2, n2) # rs @ [(k', m)])"
    by (simp add: r)
  with key_run_press [OF k2] Cons.IH [OF ch] show ?case by (simp add: r)
qed

text \<open>Key 1 held for 30 periods, then key 3 pressed shortly: four messages.\<close>

theorem key_run_correct_witness:
  "fst (key_run (held 0 0) (scans [(0, 4), (1, 29), (0, 2), (3, 5), (0, 0)])) = [1, 1, 1, 3]"
proof -
  have "key_run (held 0 0) (scans ((0, 4) # [(1, 29), (0, 2), (3, 5)] @ [(0, 0)])) =
      (concat (map press_msgs ((0, 4) # [(1, 29), (0, 2), (3, 5)])), held 0 0)"
    by (rule key_run_correct) simp_all
  then have "fst (key_run (held 0 0) (scans [(0, 4), (1, 29), (0, 2), (3, 5), (0, 0)])) =
      concat (map press_msgs [(0, 4), (1, 29), (0, 2), (3, 5)])"
    by (simp only: fst_conv append.simps)
  also have "\<dots> = [1, 1, 1, 3]" by (simp add: press_msgs_def is_key_def)
  finally show ?thesis .
qed

subsection \<open>The key task in the kernel\<close>

lemma key_switch_msg: "fst (key_switch key t) = Some k \<Longrightarrow> k = keysave t \<and> is_key k"
  by (auto simp: key_switch_eq key_case_def Let_def split: if_splits)

text \<open>A post to a mailbox on which only tasks of lower priority wait does not preempt the caller.\<close>

lemma OSMboxPost_stay:
  assumes ok: "kernel_ok s" and uc: "user_code s" and lock: "OSLockNesting s = 0" and mb: "is_mbox s e"
    and low: "\<forall>p \<in> waiters s e. OSPrioCur s < p"
  shows "OSPrioCur (snd (OSMboxPost e m s)) = OSPrioCur s" and "user_code (snd (OSMboxPost e m s))"
    and "OSLockNesting (snd (OSMboxPost e m s)) = 0"
proof -
  let ?s' = "snd (OSMboxPost e m s)"
  note inv = kernel_okD(2) [OF ok]
  note D = is_mboxD [OF mb]
  have nest: "OSIntNesting s = 0" using uc by (simp add: user_code_def)
  have "OSPrioCur ?s' = OSPrioCur s \<and> user_code ?s' \<and> OSLockNesting ?s' = 0"
  proof (cases "m = NULL \<or> waiters s e = {}")
    case True
    then have "?s' = s \<or> ?s' = upd_event e (\<lambda>ev. ev\<lparr>OSEventPtr := m\<rparr>) s"
      using D waiters_grp [OF inv, of e] by (auto simp: OSMboxPost_def)
    moreover have "waits (upd_event e (\<lambda>ev. ev\<lparr>OSEventPtr := m\<rparr>) s) x q = waits s x q" for x q
      by (simp add: waits_def upd_event_def event_map_def)
    ultimately show ?thesis using uc lock by (auto simp: user_code_def)
  next
    case False
    then have W: "waiters s e \<noteq> {}" by simp
    define s1 where "s1 = snd (OS_EventTaskRdy e m OS_STAT_MBOX OS_STAT_PEND_OK s)"
    define h where "h = Min (waiters s e)"
    have hw: "h \<in> waiters s e" unfolding h_def using finite_waiters [OF inv] W by simp
    note R = event_rdy_ok [OF kernel_okD(1) [OF ok] W _ s1_def h_def]
    have s': "?s' = OS_Sched s1"
      using False D waiters_grp [OF inv, of e] by (simp add: OSMboxPost_def s1_def)
    have grp: "OSEventGrp (OSEvents s e) \<noteq> 0" using waiters_grp [OF inv] W by simp
    note eq = OS_EventTaskRdy_eq [OF inv grp refl]
    have fr: "OSIntNesting s1 = 0" "OSLockNesting s1 = 0" using nest lock by (simp_all add: s1_def eq)
    have inv1: "kinv s1" using R(1) D by (simp add: data_ok_def)
    have cur: "rdy s (OSPrioCur s)" by (rule kernel_ok_cur_ready [OF ok nest lock])
    have top: "OSPrioCur s \<le> q" if "rdy s q" for q
      using kernel_okD(4) [OF ok] nest lock that by (simp add: sched_ok_def)
    have ne: "OSPrioCur s \<noteq> h" using low hw by auto
    have r1: "rdy s1 (OSPrioCur s)"
      using event_rdy_other [OF inv W, of "OSPrioCur s"] ne cur by (simp add: s1_def h_def)
    have l1: "OSPrioCur s \<le> q" if "rdy s1 q" for q
    proof (cases "q = h")
      case True
      then show ?thesis using low hw by auto
    next
      case False
      then show ?thesis using event_rdy_other [OF inv W, of q] that top by (simp add: s1_def h_def)
    qed
    have high: "bm_high (rdy_map s1) = OSPrioCur s"
      using rdy_high(1) [OF inv1] rdy_high(2) [OF inv1 r1] l1 by (meson le_antisym)
    then have cur': "OSPrioCur ?s' = OSPrioCur s" by (simp add: s' OS_Sched_prio fr)
    have "waits ?s' x q \<Longrightarrow> waits s x q" for x q
    proof -
      have w: "waiters s1 x \<subseteq> waiters s x" using R(3) R(11) [of x] D by (cases "x = e") auto
      assume "waits ?s' x q"
      then have "q \<in> waiters s1 x" unfolding s' by (simp add: waiters_def waits_def)
      with w show ?thesis by (auto simp: waiters_def)
    qed
    then show ?thesis using uc cur' fr by (auto simp: user_code_def s')
  qed
  then show "OSPrioCur ?s' = OSPrioCur s" "user_code ?s'" "OSLockNesting ?s' = 0" by auto
qed

lemma mbox_abs_OSTimeDly [simp]: "mbox_abs (OSTimeDly n s) e = mbox_abs s e"
  by (simp add: mbox_abs_def OSTimeDly_def waiters_def waits_def tcb_unrdy_def Let_def)

lemma ms10: "hmsm_ticks 0 0 0 10 = 1"
  by (simp add: hmsm_ticks_def)

text \<open>
  One period of the key task in the kernel, when only tasks of lower priority wait for keys: the
  message of the key automaton reaches the mailbox, or the waiting task, and the key task sleeps
  for one tick while the next task in priority runs.
\<close>

lemma KeyStartTask_correct:
  assumes ok: "kernel_ok s" and uc: "user_code s" and lock: "OSLockNesting s = 0" and mb: "is_mbox s e"
    and low: "\<forall>p \<in> waiters s e. OSPrioCur s < p"
    and key: "key = fst (key_scan pins s)" and body: "KeyStartTask_body e pins t s = (t', s')"
  shows "kernel_ok s' \<and> keysave t' = key
    \<and> mbox_abs s' e = (case fst (key_switch key t) of None \<Rightarrow> mbox_abs s e
         | Some k \<Rightarrow> mbox_post (unat k) (mbox_abs s e))
    \<and> \<not> rdy s' (OSPrioCur s) \<and> OSTCBDly (task_at s' (OSPrioCur s)) = 1 \<and> OSPrioCur s' \<noteq> OSPrioCur s"
proof -
  define s1 where "s1 = (case fst (key_switch key t) of None \<Rightarrow> s | Some k \<Rightarrow> snd (OSMboxPost e (unat k) s))"
  have k0: "k \<noteq> 0" if "fst (key_switch key t) = Some k" for k
    using key_switch_msg [OF that] by (auto simp: is_key_def)
  have "kernel_ok s1 \<and> mbox_abs s1 e = (case fst (key_switch key t) of None \<Rightarrow> mbox_abs s e
         | Some k \<Rightarrow> mbox_post (unat k) (mbox_abs s e))"
  proof (cases "fst (key_switch key t)")
    case None
    then show ?thesis using ok by (simp add: s1_def)
  next
    case (Some k)
    have "unat k \<noteq> NULL" using k0 [OF Some] by (simp add: unat_eq_0)
    from OSMboxPost_ok [OF ok mb this surjective_pairing] Some show ?thesis by (simp add: s1_def)
  qed
  note ok1 = conjunct1 [OF this] conjunct2 [OF this]
  have st: "OSPrioCur s1 = OSPrioCur s" "user_code s1" "OSLockNesting s1 = 0"
    using OSMboxPost_stay [OF ok uc lock mb low] uc lock by (auto simp: s1_def split: option.split)
  have nest: "OSIntNesting s1 = 0" using st(2) by (simp add: user_code_def)
  obtain p t1 where sw: "key_switch key t = (p, t1)" by fastforce
  have sc: "key_scan pins s = (key, s)" by (simp add: key key_scan_eq)
  have "KeyStartTask_body e pins t s = (t1\<lparr>keysave := key\<rparr>, snd (OSTimeDlyHMSM 0 0 0 10 s1))"
    by (simp add: KeyStartTask_body_def sc sw s1_def)
  moreover have "snd (OSTimeDlyHMSM 0 0 0 10 s1) = OSTimeDly 1 s1"
    using nest st(3) by (simp add: OSTimeDlyHMSM_def ms10)
  ultimately have s': "s' = OSTimeDly 1 s1" and t': "keysave t' = key" using body by auto
  show ?thesis
    using OSTimeDly_ok [OF ok1(1) st(2,3), of 1] ok1(2) st(1) t' by (simp add: s')
qed

text \<open>A press of the key 3 just released: the message reaches the empty mailbox 2.\<close>

lemma KeyStartTask_correct_example:
  "mbox_abs (snd (KeyStartTask_body 2 (\<lambda>_. (True, True)) (held 3 4) (ex_state 0))) 2 = (3, {})
    \<and> \<not> rdy (snd (KeyStartTask_body 2 (\<lambda>_. (True, True)) (held 3 4) (ex_state 0))) 4"
proof -
  have m: "mbox_abs (ex_state 0) 2 = (0, {})" by (simp add: mbox_abs_def ex_waiters) (simp add: ex_state_simps)
  have c: "OSLockNesting (ex_state 0) = 0" "OSPrioCur (ex_state 0) = 4" by (simp_all add: ex_state_simps)
  have k: "fst (key_scan (\<lambda>_. (True, True)) (ex_state 0)) = 0" by (simp add: key_scan_eq pressed_def)
  have sw: "key_switch 0 (held 3 4) = (Some 3, (held 3 0)\<lparr>key_T := 0, key_Ti := 0\<rparr>)"
    using key_switch_other [of 0 3 4] by (simp add: is_key_def)
  have w: "\<forall>p \<in> waiters (ex_state 0) 2. OSPrioCur (ex_state 0) < p" by (simp add: ex_waiters)
  from KeyStartTask_correct [OF ex_kernel_ok ex_user_code c(1) ex_is_mbox w k [symmetric] surjective_pairing, of "held 3 4"]
  show ?thesis by (simp add: sw m c(2) mbox_post_def)
qed

end
