(* ===== verification/App_UI.thy ===== *)
theory App_UI
  imports App_Control
begin

text \<open>
  The screens of the menu (\<open>UI/ui.c\<close>) and the task that runs them (\<open>UiStartTask\<close> of \<open>app.c\<close>).
  A screen is a loop that waits for keys; the values of its successive \<open>OSMboxPend\<close> calls are a list
  of keys (0 for a time-out), and a screen that has used them up is waiting.  What is sent to the
  display is a list of commands.  Undefined arithmetic and a string that does not fit its buffer
  end in \<open>Undef\<close>.
\<close>

datatype oled_cmd =
    Cmd_CLS
  | Cmd_P6x8Str nat nat string
  | Cmd_Write_Number nat nat int

record ui_state =
  Arrow :: "8 word"
  SetArrow :: "8 word"
  Page :: "8 word"
  Item :: "8 word"
  oled :: "oled_cmd list"
  ui_settings :: settings
  ui_ctrl :: ctrl_state
  ui_sensors :: sensors
  ui_flash :: ftfl
  speedswitch :: bool

datatype screen = Returns "8 word" "8 word list" ui_state | Waits ui_state | Undef

datatype 'l iter = Leave "8 word" ui_state | Again 'l ui_state | Undefined

text \<open>From one \<open>OSMboxPend\<close> to the next.\<close>

fun wait_loop :: "(8 word \<Rightarrow> 'l \<Rightarrow> ui_state \<Rightarrow> 'l iter) \<Rightarrow> 8 word list \<Rightarrow> 'l \<Rightarrow> ui_state \<Rightarrow> screen" where
  "wait_loop body [] l s = Waits s"
| "wait_loop body (k # ks) l s =
     (case body k l s of Leave r s' \<Rightarrow> Returns r ks s' | Again l' s' \<Rightarrow> wait_loop body ks l' s' | Undefined \<Rightarrow> Undef)"

definition show_cmds :: "oled_cmd list \<Rightarrow> ui_state \<Rightarrow> ui_state" where
  "show_cmds cs s = s\<lparr>oled := oled s @ cs\<rparr>"

definition pwm :: "nat \<Rightarrow> 32 word \<Rightarrow> ui_state \<Rightarrow> ui_state" where
  "pwm chl duty s = s\<lparr>ui_ctrl := set_duty 0 chl duty (ui_ctrl s)\<rparr>"

abbreviation (input) Menu_UI_ID :: "8 word" where "Menu_UI_ID \<equiv> 0"
abbreviation (input) Run_UI_ID :: "8 word" where "Run_UI_ID \<equiv> 1"
abbreviation (input) State_UI_ID :: "8 word" where "State_UI_ID \<equiv> 2"
abbreviation (input) Set_UI_ID :: "8 word" where "Set_UI_ID \<equiv> 3"
abbreviation (input) Record_UI_ID :: "8 word" where "Record_UI_ID \<equiv> 4"
abbreviation (input) Read_UI_ID :: "8 word" where "Read_UI_ID \<equiv> 5"

subsection \<open>The main menu\<close>

definition menu_pwm :: "ui_state \<Rightarrow> ui_state" where
  "menu_pwm s = pwm 2 500 (pwm 3 500 s)"

definition Menu_UI_body :: "8 word \<Rightarrow> unit \<Rightarrow> ui_state \<Rightarrow> unit iter" where
  "Menu_UI_body key l s =
     (if key = 1
      then (let s = show_cmds [Cmd_P6x8Str 23 (unat (Arrow s)) ''  ''] s;
                s = s\<lparr>Arrow := Arrow s - 1\<rparr>;
                s = (if Arrow s < 3 then s\<lparr>Arrow := 7\<rparr> else s)
            in Again () (menu_pwm (show_cmds [Cmd_P6x8Str 23 (unat (Arrow s)) ''->''] s)))
      else if key = 2
      then (let s = show_cmds [Cmd_P6x8Str 23 (unat (Arrow s)) ''  ''] s;
                s = s\<lparr>Arrow := Arrow s + 1\<rparr>;
                s = (if Arrow s > 7 then s\<lparr>Arrow := 3\<rparr> else s)
            in Again () (menu_pwm (show_cmds [Cmd_P6x8Str 23 (unat (Arrow s)) ''->''] s)))
      else if key = 3
      then (if Arrow s = 3 then Leave Run_UI_ID s
            else if Arrow s = 4 then Leave State_UI_ID s
            else if Arrow s = 5 then Leave Set_UI_ID s
            else if Arrow s = 6 then Leave Record_UI_ID s
            else if Arrow s = 7 then Leave Read_UI_ID s
            else Again () (menu_pwm s))
      else if key = 4 then Leave Menu_UI_ID s
      else Again () (menu_pwm s))"

definition Menu_UI :: "8 word list \<Rightarrow> ui_state \<Rightarrow> screen" where
  "Menu_UI keys s =
     wait_loop Menu_UI_body keys ()
       (menu_pwm (show_cmds
          [Cmd_CLS, Cmd_P6x8Str 0 0 ''  Menu neusoft Juju'', Cmd_P6x8Str 0 1 ''---------------------'',
           Cmd_P6x8Str 0 3 ''      Run'', Cmd_P6x8Str 0 4 ''      Car State'',
           Cmd_P6x8Str 0 5 ''      Set Variable'', Cmd_P6x8Str 0 6 ''      Plan Record'',
           Cmd_P6x8Str 0 7 ''      Read'', Cmd_P6x8Str 23 (unat (Arrow s)) ''->''] s))"

subsection \<open>Running, state, plan and read screens\<close>

definition ui_speedPID :: "ui_state \<Rightarrow> ui_state option" where
  "ui_speedPID s = map_option (\<lambda>c. s\<lparr>ui_ctrl := c\<rparr>) (speedPID (ui_settings s) (word_of_int (ENCODE (ui_ctrl s))) (ui_ctrl s))"

definition Run_UI_body :: "8 word \<Rightarrow> unit \<Rightarrow> ui_state \<Rightarrow> unit iter" where
  "Run_UI_body key l s =
     (if key = 3
      then (case ui_speedPID s of None \<Rightarrow> Undefined
            | Some s \<Rightarrow> Again () (show_cmds [Cmd_P6x8Str 0 2 ''RUNING''] (s\<lparr>speedswitch := True\<rparr>)))
      else if key = 4
      then (case ui_speedPID (s\<lparr>speedswitch := False\<rparr>) of None \<Rightarrow> Undefined
            | Some s \<Rightarrow> Leave Menu_UI_ID (pwm 2 0 (pwm 3 0 s)))
      else Again () s)"

definition Run_UI :: "8 word list \<Rightarrow> ui_state \<Rightarrow> screen" where
  "Run_UI keys s =
     wait_loop Run_UI_body keys ()
       (show_cmds [Cmd_CLS, Cmd_P6x8Str 0 0 ''Launching  Bett:'', Cmd_P6x8Str 0 1 ''---------------------'',
                   Cmd_P6x8Str 0 2 '' STOP '', Cmd_Write_Number 95 0 0] s)"

definition State_UI_body :: "8 word \<Rightarrow> unit \<Rightarrow> ui_state \<Rightarrow> unit iter" where
  "State_UI_body key l s =
     (let s = s\<lparr>ui_sensors := max_min (ui_sensors s)\<rparr>
      in if key = 4 then Leave Menu_UI_ID (pwm 2 0 (pwm 3 0 s)) else Again () s)"

definition State_UI :: "8 word list \<Rightarrow> ui_state \<Rightarrow> screen" where
  "State_UI keys s =
     wait_loop State_UI_body keys ()
       (show_cmds [Cmd_CLS, Cmd_P6x8Str 0 0 ''Reading:'', Cmd_P6x8Str 0 1 ''---------------------''] s)"

definition Record_UI :: "8 word list \<Rightarrow> ui_state \<Rightarrow> screen" where
  "Record_UI keys s =
     Returns 0 keys
       (show_cmds [Cmd_CLS, Cmd_P6x8Str 0 0 ''         Plan:'', Cmd_P6x8Str 0 1 ''---------------------'',
          Cmd_P6x8Str 0 2 ''    Plan_1 = '', Cmd_P6x8Str 0 3 ''    Plan_2 = '', Cmd_P6x8Str 0 4 ''    Plan_3 = '',
          Cmd_P6x8Str 0 5 ''    Plan_4 = '', Cmd_P6x8Str 0 6 ''    Plan_5 = '', Cmd_P6x8Str 0 7 ''    Plan_6 = ''] s)"

definition Read_UI_body :: "int \<Rightarrow> 8 word \<Rightarrow> unit \<Rightarrow> ui_state \<Rightarrow> unit iter" where
  "Read_UI_body ad_all key l s =
     (let d = ui_sensors s
      in case f_to_s32 (sum_diff d) of None \<Rightarrow> Undefined
         | Some diff \<Rightarrow>
           (let s = show_cmds
                  [Cmd_Write_Number 70 2 (ad1 d), Cmd_Write_Number 70 3 (ad3 d), Cmd_Write_Number 70 4 (ad2 d),
                   Cmd_Write_Number 70 5 (ad4 d), Cmd_Write_Number 70 6 ad_all, Cmd_Write_Number 70 7 diff,
                   Cmd_P6x8Str 10 2 ''ad1'', Cmd_P6x8Str 10 3 ''ad3'', Cmd_P6x8Str 10 4 ''ad2'',
                   Cmd_P6x8Str 10 5 ''ad4''] s
            in if key = 4 then Leave Menu_UI_ID s else Again () s))"

definition Read_UI :: "int \<Rightarrow> 8 word list \<Rightarrow> ui_state \<Rightarrow> screen" where
  "Read_UI ad_all keys s =
     wait_loop (Read_UI_body ad_all) keys ()
       (show_cmds [Cmd_CLS, Cmd_P6x8Str 0 0 ''Reading:'', Cmd_P6x8Str 0 1 ''---------------------''] s)"

subsection \<open>The settings screen\<close>

abbreviation (input) SetOptionsNum :: "8 word" where "SetOptionsNum \<equiv> 7"

text \<open>Locals: the cursor mode, the row of the cursor as drawn, the seven lines of 19 characters.\<close>

record set_ui =
  SaveSetArrow :: "8 word"
  ArrowState :: "16 word"
  SS :: "string list"

fun dec_digits :: "nat \<Rightarrow> string" where
  "dec_digits n = (if n < 10 then [char_of (48 + n)] else dec_digits (n div 10) @ [char_of (48 + n mod 10)])"

declare dec_digits.simps [simp del]

definition dec_string :: "int \<Rightarrow> string" where
  "dec_string n = (if n < 0 then CHR ''-'' # dec_digits (nat (- n)) else dec_digits (nat n))"

text \<open>\<open>sprintf(text, "%4d", n)\<close>: the buffer \<open>text\<close> has five bytes, one for the final zero.\<close>

definition sprintf4 :: "int \<Rightarrow> string option" where
  "sprintf4 n =
     (let d = dec_string n; t = replicate (4 - length d) (CHR '' '') @ d
      in if length t + 1 \<le> 5 then Some t else None)"

definition AddNumString :: "string \<Rightarrow> string \<Rightarrow> string" where
  "AddNumString ss n = (fold (\<lambda>i ss. ss[14 + i := n ! i]) [0..<4] ss)[18 := CHR 0x00]"

definition embed :: "nat \<Rightarrow> int option \<Rightarrow> string list \<Rightarrow> string list option" where
  "embed k v lines = do { n \<leftarrow> v; t \<leftarrow> sprintf4 n; Some (lines[k := AddNumString (lines ! k) t]) }"

definition times10 :: "c_float \<Rightarrow> int option" where
  "times10 x = f_to_s32 (f_mul f32 x (f_of_int f32 10))"

definition embed_all :: "settings \<Rightarrow> string list \<Rightarrow> string list option" where
  "embed_all st l =
     do {
       l \<leftarrow> embed 0 (times10 (pid_p (speedpid st))) l;
       l \<leftarrow> embed 1 (times10 (pid_i (speedpid st))) l;
       l \<leftarrow> embed 2 (times10 (pid_d (speedpid st))) l;
       l \<leftarrow> embed 3 (times10 (pid_p (streepid st))) l;
       l \<leftarrow> embed 4 (times10 (pid_i (streepid st))) l;
       l \<leftarrow> embed 5 (times10 (pid_d (streepid st))) l;
       embed 6 (Some (set_speed st)) l
     }"

text \<open>\<open>x += 0.1\<close> and \<open>x -= 0.1\<close>: the sum is a double, the variable a float.\<close>

definition add_tenth :: "c_float \<Rightarrow> c_float" where
  "add_tenth x = f_cvt f32 (f_add f64 x (f_round f64 (1 / 10)))"

definition sub_tenth :: "c_float \<Rightarrow> c_float" where
  "sub_tenth x = f_cvt f32 (f_sub f64 x (f_round f64 (1 / 10)))"

definition edit_gain :: "8 word \<Rightarrow> c_float \<Rightarrow> c_float" where
  "edit_gain key x = (let x = (if key = 1 then add_tenth x else x) in if key = 2 then sub_tenth x else x)"

definition edit_speed_gain :: "8 word \<Rightarrow> c_float \<Rightarrow> c_float" where
  "edit_speed_gain key x = (let x = edit_gain key x in if f_less (f_round f64 (999 / 10)) x then Fin 0 else x)"

definition edit_speed :: "8 word \<Rightarrow> int \<Rightarrow> int" where
  "edit_speed key v =
     (let v = (if key = 1 then v + 1 else v); v = (if key = 2 then v - 1 else v)
      in if v > 999 then 0 else v)"

text \<open>The value the cursor edits; \<open>None\<close> for an item that does not exist.\<close>

definition edit_item :: "8 word \<Rightarrow> 8 word \<Rightarrow> settings \<Rightarrow> settings option" where
  "edit_item item key st =
     (if item = 1 then Some (st\<lparr>speedpid := (speedpid st)\<lparr>pid_p := edit_speed_gain key (pid_p (speedpid st))\<rparr>\<rparr>)
      else if item = 2 then Some (st\<lparr>speedpid := (speedpid st)\<lparr>pid_i := edit_speed_gain key (pid_i (speedpid st))\<rparr>\<rparr>)
      else if item = 3 then Some (st\<lparr>speedpid := (speedpid st)\<lparr>pid_d := edit_speed_gain key (pid_d (speedpid st))\<rparr>\<rparr>)
      else if item = 4 then Some (st\<lparr>streepid := (streepid st)\<lparr>pid_p := edit_gain key (pid_p (streepid st))\<rparr>\<rparr>)
      else if item = 5 then Some (st\<lparr>streepid := (streepid st)\<lparr>pid_i := edit_gain key (pid_i (streepid st))\<rparr>\<rparr>)
      else if item = 6 then Some (st\<lparr>streepid := (streepid st)\<lparr>pid_d := edit_gain key (pid_d (streepid st))\<rparr>\<rparr>)
      else if item = 7 then Some (st\<lparr>set_speed := edit_speed key (set_speed st)\<rparr>)
      else None)"

definition cursor_up :: "ui_state \<Rightarrow> ui_state" where
  "cursor_up s =
     (let s = s\<lparr>SetArrow := SetArrow s - 1, Item := Item s - 1\<rparr>;
          s = (if Item s < 1 then s\<lparr>Item := SetOptionsNum\<rparr> else s)
      in if SetArrow s < 2
         then (if Page s = 0 then s\<lparr>Page := 1, SetArrow := 7\<rparr> else s\<lparr>SetArrow := 2, Page := Page s - 1\<rparr>)
         else s)"

definition cursor_down :: "ui_state \<Rightarrow> ui_state" where
  "cursor_down s =
     (let s = s\<lparr>SetArrow := SetArrow s + 1, Item := Item s + 1\<rparr>;
          s = (if Item s > SetOptionsNum then s\<lparr>Item := 1\<rparr> else s)
      in if SetArrow s > 7
         then (if Page s = 1 then s\<lparr>Page := 0, SetArrow := 2\<rparr> else s\<lparr>SetArrow := 7, Page := Page s + 1\<rparr>)
         else s)"

text \<open>The switch over the key: \<open>Inl\<close> when the screen returns.\<close>

definition set_key :: "ftfl_hw \<Rightarrow> 8 word \<Rightarrow> set_ui \<Rightarrow> ui_state \<Rightarrow> (ui_state + set_ui \<times> ui_state) option" where
  "set_key hw key l s =
     (if key = 1 then Some (Inr (l, if ArrowState l = 0 then cursor_up s else s))
      else if key = 2 then Some (Inr (l, if ArrowState l = 0 then cursor_down s else s))
      else if key = 3 then Some (Inr (if ArrowState l = 0 then l\<lparr>ArrowState := 1\<rparr> else l\<lparr>ArrowState := 0\<rparr>, s))
      else if key = 4
      then (case Falsh_Reserve hw (ui_settings s) (ui_flash s) of None \<Rightarrow> None
            | Some f \<Rightarrow> (let s = s\<lparr>ui_flash := f\<rparr>
                         in Some (if ArrowState l = 1 then Inr (l\<lparr>ArrowState := 0\<rparr>, s) else Inl s)))
      else Some (Inr (l, s)))"

definition set_edit :: "8 word \<Rightarrow> set_ui \<Rightarrow> ui_state \<Rightarrow> set_ui \<times> ui_state" where
  "set_edit key l s =
     (if ArrowState l \<noteq> 0
      then (case edit_item (Item s) key (ui_settings s) of
              Some st \<Rightarrow> (l, s\<lparr>ui_settings := st\<rparr>)
            | None \<Rightarrow> (l\<lparr>ArrowState := 0\<rparr>, s))
      else (l, s))"

text \<open>A C string ends at its first zero.\<close>

definition c_string :: "string \<Rightarrow> string" where
  "c_string t = takeWhile (\<lambda>c. c \<noteq> CHR 0x00) t"

definition set_draw :: "set_ui \<Rightarrow> ui_state \<Rightarrow> set_ui \<times> ui_state" where
  "set_draw l s =
     (let s = show_cmds (map (\<lambda>i. Cmd_P6x8Str 0 i (c_string (SS l ! (unat (Page s) + i - 2)))) [2..<8]) s
      in if ArrowState l = 0
         then (l\<lparr>SaveSetArrow := SetArrow s\<rparr>,
               show_cmds [Cmd_P6x8Str 24 (unat (SaveSetArrow l)) ''  '', Cmd_P6x8Str 24 (unat (SetArrow s)) ''->''] s)
         else (l, show_cmds [Cmd_P6x8Str 24 (unat (SaveSetArrow l)) ''- ''] s))"

definition Set_UI_body :: "ftfl_hw \<Rightarrow> 8 word \<Rightarrow> set_ui \<Rightarrow> ui_state \<Rightarrow> set_ui iter" where
  "Set_UI_body hw key l s =
     (case set_key hw key l s of
        None \<Rightarrow> Undefined
      | Some (Inl s) \<Rightarrow> Leave Menu_UI_ID s
      | Some (Inr (l, s)) \<Rightarrow>
          (let (l, s) = set_edit key l s
           in case embed_all (ui_settings s) (SS l) of
                None \<Rightarrow> Undefined
              | Some lines \<Rightarrow> (let (l, s) = set_draw (l\<lparr>SS := lines\<rparr>) s in Again l s)))"

definition set_line :: "string \<Rightarrow> string" where
  "set_line t = t @ replicate (19 - length t) (CHR 0x00)"

definition set_lines :: "string list" where
  "set_lines = map set_line
     [''      Speed_P:    '', ''      Spedd_I:    '', ''      Spedd_D:    '', ''      Turn__P:    '',
      ''      Turn__I:    '', ''      Turn__D:    '', ''      Speed:    '']"

text \<open>The first pass of the loop runs with \<open>key = 0\<close>, before any key is awaited.\<close>

definition Set_UI :: "ftfl_hw \<Rightarrow> 8 word list \<Rightarrow> ui_state \<Rightarrow> screen" where
  "Set_UI hw keys s =
     wait_loop (Set_UI_body hw) (0 # keys) \<lparr>SaveSetArrow = 2, ArrowState = 0, SS = set_lines\<rparr>
       (show_cmds [Cmd_CLS, Cmd_P6x8Str 0 0 ''Set Variable Bett:'', Cmd_P6x8Str 0 1 ''---------------------'',
                   Cmd_Write_Number 95 0 0] s)"

subsection \<open>The task\<close>

text \<open>The table of screens has eleven entries, of which the last five are null.\<close>

definition FunctionPointer :: "ftfl_hw \<Rightarrow> int \<Rightarrow> 8 word \<Rightarrow> (8 word list \<Rightarrow> ui_state \<Rightarrow> screen) option" where
  "FunctionPointer hw ad_all i =
     (if i = 0 then Some Menu_UI else if i = 1 then Some Run_UI else if i = 2 then Some State_UI
      else if i = 3 then Some (Set_UI hw) else if i = 4 then Some Record_UI
      else if i = 5 then Some (Read_UI ad_all) else None)"

datatype ui_end = UI_waiting ui_state | UI_undefined | UI_null_call

lemma wait_loop_keys: "wait_loop body ks l s = Returns r ks' s' \<Longrightarrow> length ks' < length ks"
proof (induction ks arbitrary: l s)
  case Nil
  then show ?case by simp
next
  case (Cons k ks)
  then show ?case by (force split: iter.splits)
qed

lemma wait_loop_leave:
  assumes "wait_loop body ks l s = Returns r ks' s'"
  obtains k l0 s0 where "body k l0 s0 = Leave r s'"
  using assms
proof (induction ks arbitrary: l s)
  case Nil
  then show ?case by simp
next
  case (Cons k ks)
  then show ?case by (force split: iter.splits)
qed

text \<open>A screen other than the plan screen uses up a key before it returns.\<close>

lemma screen_keys:
  assumes "FunctionPointer hw ad_all i = Some scr" and "scr ks s = Returns r ks' s'"
  shows "length ks' < length ks \<or> (ks' = ks \<and> i = Record_UI_ID \<and> r = 0)"
proof (cases "i = 3")
  case True
  define l0 where "l0 = \<lparr>SaveSetArrow = 2, ArrowState = 0, SS = set_lines\<rparr>"
  from True assms obtain s0 where w: "wait_loop (Set_UI_body hw) (0 # ks) l0 s0 = Returns r ks' s'"
    by (auto simp: FunctionPointer_def Set_UI_def simp flip: l0_def simp del: wait_loop.simps)
  have "(\<exists>l s1. Set_UI_body hw 0 l0 s0 = Again l s1) \<or> Set_UI_body hw 0 l0 s0 = Undefined"
    by (auto simp: Set_UI_body_def set_key_def Let_def split: option.split prod.split)
  then show ?thesis
  proof (elim disjE exE)
    fix l s1 assume "Set_UI_body hw 0 l0 s0 = Again l s1"
    with w have "wait_loop (Set_UI_body hw) ks l s1 = Returns r ks' s'" by simp
    from wait_loop_keys [OF this] show ?thesis by simp
  qed (use w in simp)
next
  case False
  with assms show ?thesis
    using wait_loop_keys
    by (force simp: FunctionPointer_def Menu_UI_def Run_UI_def State_UI_def Record_UI_def Read_UI_def split: if_splits)
qed

function UiStartTask :: "ftfl_hw \<Rightarrow> int \<Rightarrow> 8 word \<Rightarrow> 8 word list \<Rightarrow> ui_state \<Rightarrow> ui_end" where
  "UiStartTask hw ad_all i ks s =
     (case FunctionPointer hw ad_all i of
        None \<Rightarrow> UI_null_call
      | Some scr \<Rightarrow> (case scr ks s of
            Waits s' \<Rightarrow> UI_waiting s'
          | Undef \<Rightarrow> UI_undefined
          | Returns r ks' s' \<Rightarrow> UiStartTask hw ad_all r ks' s'))"
  by pat_completeness auto

termination
proof (relation "measures [\<lambda>(hw, ad_all, i, ks, s). length ks, \<lambda>(hw, ad_all, i, ks, s). if i = Record_UI_ID then 1 else 0]", simp)
  fix hw ad_all i ks s scr r ks' s'
  assume "FunctionPointer hw ad_all i = Some scr" and "scr ks s = Returns r ks' s'"
  from screen_keys [OF this]
  show "((hw, ad_all, r, ks', s'), hw, ad_all, i, ks, s) \<in> measures [\<lambda>(hw, ad_all, i, ks, s). length ks, \<lambda>(hw, ad_all, i, ks, s). if i = Record_UI_ID then 1 else 0]"
    by auto
qed

declare UiStartTask.simps [simp del]

subsection \<open>The cursor\<close>

text \<open>The cursor row and the first line shown determine the item that is edited.\<close>

definition cursor_ok :: "ui_state \<Rightarrow> bool" where
  "cursor_ok s \<longleftrightarrow> SetArrow s \<in> {2, 3, 4, 5, 6, 7} \<and> Page s \<in> {0, 1} \<and> Item s = Page s + SetArrow s - 1"

definition ui_inv :: "ui_state \<Rightarrow> bool" where
  "ui_inv s \<longleftrightarrow> cursor_ok s \<and> Arrow s \<in> {3, 4, 5, 6, 7}"

lemma cursor_okD:
  assumes "cursor_ok s"
  shows "Item s \<in> {1, 2, 3, 4, 5, 6, 7}" and "unat (Page s) + unat (SetArrow s) - 2 = unat (Item s) - 1"
    and "i < 8 \<Longrightarrow> unat (Page s) + i - 2 < 7"
  using assms by (auto simp: cursor_ok_def)

lemma cursor_up_ok:
  "cursor_ok s \<Longrightarrow> cursor_ok (cursor_up s) \<and> Item (cursor_up s) = (if Item s = 1 then 7 else Item s - 1)
     \<and> Arrow (cursor_up s) = Arrow s"
  by (auto simp: cursor_ok_def cursor_up_def Let_def)

lemma cursor_down_ok:
  "cursor_ok s \<Longrightarrow> cursor_ok (cursor_down s) \<and> Item (cursor_down s) = (if Item s = 7 then 1 else Item s + 1)
     \<and> Arrow (cursor_down s) = Arrow s"
  by (auto simp: cursor_ok_def cursor_down_def Let_def)

lemma cursor_ok_cong: "SetArrow s' = SetArrow s \<Longrightarrow> Page s' = Page s \<Longrightarrow> Item s' = Item s \<Longrightarrow> cursor_ok s' = cursor_ok s"
  by (simp add: cursor_ok_def)

lemma ui_inv_cong:
  "SetArrow s' = SetArrow s \<Longrightarrow> Page s' = Page s \<Longrightarrow> Item s' = Item s \<Longrightarrow> Arrow s' = Arrow s \<Longrightarrow> ui_inv s' = ui_inv s"
  by (simp add: ui_inv_def cursor_ok_def)

lemma ui_inv_show [simp]: "ui_inv (show_cmds cs s) = ui_inv s"
  by (rule ui_inv_cong) (simp_all add: show_cmds_def)

lemma ui_inv_pwm [simp]: "ui_inv (pwm chl d s) = ui_inv s"
  by (rule ui_inv_cong) (simp_all add: pwm_def)

lemma ui_inv_menu_pwm [simp]: "ui_inv (menu_pwm s) = ui_inv s"
  by (simp add: menu_pwm_def)

text \<open>What the body of a screen may do: keep the invariant, and return the number of a screen.\<close>

definition screen_ids :: "8 word set" where
  "screen_ids = {0, 1, 2, 3, 4, 5}"

definition body_ok :: "(8 word \<Rightarrow> 'l \<Rightarrow> ui_state \<Rightarrow> 'l iter) \<Rightarrow> bool" where
  "body_ok body \<longleftrightarrow> (\<forall>k l s. ui_inv s \<longrightarrow>
     (case body k l s of Leave r s' \<Rightarrow> r \<in> screen_ids \<and> ui_inv s' | Again l' s' \<Rightarrow> ui_inv s' | Undefined \<Rightarrow> True))"

definition screen_ok :: "screen \<Rightarrow> bool" where
  "screen_ok x = (case x of Returns r ks s \<Rightarrow> r \<in> screen_ids \<and> ui_inv s | Waits s \<Rightarrow> ui_inv s | Undef \<Rightarrow> True)"

lemma wait_loop_ok: "body_ok body \<Longrightarrow> ui_inv s \<Longrightarrow> screen_ok (wait_loop body ks l s)"
proof (induction ks arbitrary: l s)
  case Nil
  then show ?case by (simp add: screen_ok_def)
next
  case (Cons k ks)
  then have "case body k l s of Leave r s' \<Rightarrow> r \<in> screen_ids \<and> ui_inv s' | Again l' s' \<Rightarrow> ui_inv s' | Undefined \<Rightarrow> True"
    by (simp add: body_ok_def)
  with Cons show ?case by (auto simp: screen_ok_def split: iter.splits)
qed

lemma show_cmds_simps [simp]: "Arrow (show_cmds cs s) = Arrow s" "cursor_ok (show_cmds cs s) = cursor_ok s"
  by (simp_all add: show_cmds_def cursor_ok_def)

lemma ui_inv_Arrow [simp]: "ui_inv (s\<lparr>Arrow := a\<rparr>) \<longleftrightarrow> cursor_ok s \<and> a \<in> {3, 4, 5, 6, 7}"
  by (simp add: ui_inv_def cursor_ok_def)

lemma Menu_body_ok: "body_ok Menu_UI_body"
  unfolding body_ok_def
proof (intro allI impI)
  fix k l s assume inv: "ui_inv s"
  then have c: "cursor_ok s" and a: "Arrow s = 3 \<or> Arrow s = 4 \<or> Arrow s = 5 \<or> Arrow s = 6 \<or> Arrow s = 7"
    by (auto simp: ui_inv_def)
  from a show "case Menu_UI_body k l s of Leave r s' \<Rightarrow> r \<in> screen_ids \<and> ui_inv s' | Again l' s' \<Rightarrow> ui_inv s' | Undefined \<Rightarrow> True"
    using inv c by (elim disjE) (simp_all add: Menu_UI_body_def Let_def screen_ids_def)
qed

lemma simple_bodies_ok: "body_ok Run_UI_body" "body_ok State_UI_body" "body_ok (Read_UI_body ad_all)"
proof -
  have pid: "ui_inv s' = ui_inv s" if "ui_speedPID (s\<lparr>speedswitch := b\<rparr>) = Some s'" for s s' b
    using that by (intro ui_inv_cong) (auto simp: ui_speedPID_def)
  have pid0: "ui_inv s' = ui_inv s" if "ui_speedPID s = Some s'" for s s'
    using that by (intro ui_inv_cong) (auto simp: ui_speedPID_def)
  have sw: "ui_inv (s\<lparr>speedswitch := b\<rparr>) = ui_inv s" "ui_inv (s\<lparr>ui_sensors := d\<rparr>) = ui_inv s" for s b d
    by (rule ui_inv_cong; simp)+
  show "body_ok Run_UI_body"
    by (auto simp: body_ok_def Run_UI_body_def screen_ids_def pid pid0 sw split: option.split)
  show "body_ok State_UI_body" "body_ok (Read_UI_body ad_all)"
    by (auto simp: body_ok_def State_UI_body_def Read_UI_body_def Let_def screen_ids_def sw split: option.split)
qed

lemma Set_body_ok: "body_ok (Set_UI_body hw)"
  unfolding body_ok_def
proof (intro allI impI)
  fix k l s assume inv: "ui_inv s"
  have upd: "ui_inv (s\<lparr>ui_flash := f\<rparr>) = ui_inv s" "ui_inv (s\<lparr>ui_settings := t\<rparr>) = ui_inv s" for s f t
    by (rule ui_inv_cong; simp)+
  have cur: "ui_inv (cursor_up s)" "ui_inv (cursor_down s)"
    using inv cursor_up_ok [of s] cursor_down_ok [of s] by (simp_all add: ui_inv_def)
  have key: "case x of Inl s' \<Rightarrow> ui_inv s' | Inr (l', s') \<Rightarrow> ui_inv s'" if "set_key hw k l s = Some x" for x
    using that inv cur by (auto simp: set_key_def Let_def upd split: if_splits option.splits)
  have edit: "ui_inv (snd (set_edit k l1 s1)) = ui_inv s1" for l1 s1
    by (auto simp: set_edit_def upd split: option.split)
  have draw: "ui_inv (snd (set_draw l1 s1)) = ui_inv s1" for l1 s1
    by (auto simp: set_draw_def Let_def)
  show "case Set_UI_body hw k l s of Leave r s' \<Rightarrow> r \<in> screen_ids \<and> ui_inv s' | Again l' s' \<Rightarrow> ui_inv s' | Undefined \<Rightarrow> True"
  proof (cases "set_key hw k l s")
    case None
    then show ?thesis by (simp add: Set_UI_body_def)
  next
    case (Some x)
    show ?thesis
    proof (cases x)
      case (Inl s1)
      then show ?thesis using key [OF Some] Some by (simp add: Set_UI_body_def screen_ids_def)
    next
      case (Inr y)
      obtain l1 s1 where y: "y = (l1, s1)" by fastforce
      obtain l2 s2 where e: "set_edit k l1 s1 = (l2, s2)" by fastforce
      have "ui_inv s2" using edit [of l1 s1] key [OF Some] Inr y e by simp
      then show ?thesis
        using draw by (auto simp: Set_UI_body_def Some Inr y e split: option.split prod.split)
          (metis snd_conv)
    qed
  qed
qed

lemma screens_ok:
  assumes "FunctionPointer hw ad_all i = Some scr" and "ui_inv s"
  shows "screen_ok (scr ks s)"
  using assms wait_loop_ok [OF Menu_body_ok] wait_loop_ok [OF simple_bodies_ok(1)]
    wait_loop_ok [OF simple_bodies_ok(2)] wait_loop_ok [OF simple_bodies_ok(3)] wait_loop_ok [OF Set_body_ok]
  by (auto simp: FunctionPointer_def Menu_UI_def Run_UI_def State_UI_def Set_UI_def Read_UI_def Record_UI_def
      screen_ok_def screen_ids_def simp del: wait_loop.simps split: if_splits)

lemma length_set_lines: "length set_lines = 7"
  by (simp add: set_lines_def)

text \<open>
  The user interface task never calls through a null entry of its table of screens and always
  comes back to waiting for a key, whatever keys are pressed (unless a setting makes the arithmetic
  undefined); the cursor of the settings screen stays on the line of the item it edits, and every
  line shown exists.
\<close>

lemma UiStartTask_safe:
  assumes inv: "ui_inv s" and i: "i \<in> {0, 1, 2, 3, 4, 5}"
  shows "case UiStartTask hw ad_all i ks s of
      UI_waiting s' \<Rightarrow> ui_inv s' \<and> unat (Page s') + unat (SetArrow s') - 2 = unat (Item s') - 1
        \<and> (\<forall>r<8. unat (Page s') + r - 2 < length set_lines)
    | UI_undefined \<Rightarrow> True
    | UI_null_call \<Rightarrow> False"
  using assms
proof (induction hw ad_all i ks s rule: UiStartTask.induct)
  case (1 hw ad_all i ks s)
  then obtain scr where scr: "FunctionPointer hw ad_all i = Some scr" by (force simp: FunctionPointer_def)
  have ok: "screen_ok (scr ks s)" by (rule screens_ok [OF scr "1.prems"(1)])
  show ?case
  proof (cases "scr ks s")
    case (Returns r ks' s')
    with ok have "ui_inv s'" "r \<in> {0, 1, 2, 3, 4, 5}" by (auto simp: screen_ok_def screen_ids_def)
    with "1.IH" [OF scr Returns] show ?thesis by (simp add: UiStartTask.simps [of hw ad_all i] scr Returns)
  next
    case (Waits s')
    with ok have "cursor_ok s'" by (auto simp: screen_ok_def ui_inv_def)
    with ok Waits cursor_okD [OF this] show ?thesis
      by (simp add: UiStartTask.simps [of hw ad_all i] scr screen_ok_def length_set_lines)
  next
    case Undef
    then show ?thesis by (simp add: UiStartTask.simps [of hw ad_all i] scr)
  qed
qed

text \<open>Power-up state of the user interface.\<close>

definition ex_ui :: ui_state where
  "ex_ui = \<lparr>Arrow = 3, SetArrow = 2, Page = 0, Item = 1, oled = [], ui_settings = ex_gains 10, ui_ctrl = ex_ctrl,
     ui_sensors = sensors_init, ui_flash = \<lparr>FCCOB = \<lambda>_. 0, FSTAT = 0, flash_mem = \<lambda>_. 0\<rparr>, speedswitch = False\<rparr>"

lemma ex_ui_inv: "ui_inv ex_ui"
  by (simp add: ui_inv_def cursor_ok_def ex_ui_def)

text \<open>Down, down, up and select opens the state page; key 4 leaves it and the menu waits again.\<close>

lemma UiStartTask_safe_example:
  "\<exists>s'. UiStartTask ftfl_ideal 0 0 [2, 2, 1, 3, 0, 4, 0] ex_ui = UI_waiting s' \<and> ui_inv s'"
proof -
  obtain s' where "UiStartTask ftfl_ideal 0 0 [2, 2, 1, 3, 0, 4, 0] ex_ui = UI_waiting s'"
    by (simp add: UiStartTask.simps FunctionPointer_def Menu_UI_def Menu_UI_body_def State_UI_def State_UI_body_def
        Let_def show_cmds_def menu_pwm_def pwm_def ex_ui_def)
  with UiStartTask_safe [OF ex_ui_inv, of 0 ftfl_ideal 0 "[2, 2, 1, 3, 0, 4, 0]"] show ?thesis by simp
qed

text \<open>
  The cursor of the settings screen visits the seven items in a circle, in both directions.
\<close>

lemma cursor_circle:
  assumes "cursor_ok s"
  shows "cursor_ok (cursor_down s) \<and> Item (cursor_down s) = (if Item s = 7 then 1 else Item s + 1)
    \<and> cursor_ok (cursor_up s) \<and> Item (cursor_up s) = (if Item s = 1 then 7 else Item s - 1)
    \<and> Item (cursor_up (cursor_down s)) = Item s"
  using cursor_up_ok [OF assms] cursor_down_ok [OF assms] cursor_up_ok [of "cursor_down s"]
    cursor_okD(1) [OF assms] by auto

lemma cursor_circle_example:
  "Item (cursor_down (ex_ui\<lparr>SetArrow := 7, Page := 1, Item := 7\<rparr>)) = 1"
proof -
  have "cursor_ok (ex_ui\<lparr>SetArrow := 7, Page := 1, Item := 7\<rparr>)" by (simp add: cursor_ok_def)
  from cursor_circle [OF this] show ?thesis by simp
qed

text \<open>
  The speed setting has no lower bound: one step below -999 its decimal notation no longer fits
  the five bytes of the text buffer.
\<close>

lemma Set_UI_text_overflow:
  assumes "Item s = 7" and "set_speed (ui_settings s) = - 999" and "ArrowState l = 1"
  shows "Set_UI_body hw 2 l s = Undefined"
proof -
  have "sprintf4 (- 1000) = None" by (simp add: sprintf4_def dec_string_def dec_digits.simps)
  then have "embed_all (st\<lparr>set_speed := - 1000\<rparr>) lines = None" for st lines
    by (simp add: embed_all_def embed_def split: bind_split)
  then show ?thesis
    using assms by (simp add: Set_UI_body_def set_key_def set_edit_def edit_item_def edit_speed_def)
qed

lemma Set_UI_text_overflow_example:
  "Set_UI_body ftfl_ideal 2 \<lparr>SaveSetArrow = 7, ArrowState = 1, SS = set_lines\<rparr>
     (ex_ui\<lparr>SetArrow := 7, Page := 1, Item := 7, ui_settings := (ex_gains 10)\<lparr>set_speed := - 999\<rparr>\<rparr>) = Undefined"
  by (rule Set_UI_text_overflow) simp_all

end
