(* ===== verification/OLED_Font.thy ===== *)
theory OLED_Font
  imports Prelude
begin

text \<open>
  The fonts of the display driver (\<open>OLED/OLED.c\<close>), one column of eight pixels per byte, the lowest bit on
  top: letters of six columns, letters of two rows of eight columns, and twenty Chinese characters of
  two rows of fourteen columns with the list of their codes (GBK, two bytes each, and the final zero of
  the string).
\<close>

definition F6x8 :: "8 word list list" where
  "F6x8 =
  [[0, 0, 0, 0, 0, 0],
   [0, 0, 0, 47, 0, 0],
   [0, 0, 7, 0, 7, 0],
   [0, 20, 127, 20, 127, 20],
   [0, 36, 42, 127, 42, 18],
   [0, 98, 100, 8, 19, 35],
   [0, 54, 73, 85, 34, 80],
   [0, 0, 5, 3, 0, 0],
   [0, 0, 28, 34, 65, 0],
   [0, 0, 65, 34, 28, 0],
   [0, 20, 8, 62, 8, 20],
   [0, 8, 8, 62, 8, 8],
   [0, 0, 0, 160, 96, 0],
   [0, 8, 8, 8, 8, 8],
   [0, 0, 96, 96, 0, 0],
   [0, 32, 16, 8, 4, 2],
   [0, 62, 81, 73, 69, 62],
   [0, 0, 66, 127, 64, 0],
   [0, 66, 97, 81, 73, 70],
   [0, 33, 65, 69, 75, 49],
   [0, 24, 20, 18, 127, 16],
   [0, 39, 69, 69, 69, 57],
   [0, 60, 74, 73, 73, 48],
   [0, 1, 113, 9, 5, 3],
   [0, 54, 73, 73, 73, 54],
   [0, 6, 73, 73, 41, 30],
   [0, 0, 54, 54, 0, 0],
   [0, 0, 86, 54, 0, 0],
   [0, 8, 20, 34, 65, 0],
   [0, 20, 20, 20, 20, 20],
   [0, 0, 65, 34, 20, 8],
   [0, 2, 1, 81, 9, 6],
   [0, 50, 73, 89, 81, 62],
   [0, 124, 18, 17, 18, 124],
   [0, 127, 73, 73, 73, 54],
   [0, 62, 65, 65, 65, 34],
   [0, 127, 65, 65, 34, 28],
   [0, 127, 73, 73, 73, 65],
   [0, 127, 9, 9, 9, 1],
   [0, 62, 65, 73, 73, 122],
   [0, 127, 8, 8, 8, 127],
   [0, 0, 65, 127, 65, 0],
   [0, 32, 64, 65, 63, 1],
   [0, 127, 8, 20, 34, 65],
   [0, 127, 64, 64, 64, 64],
   [0, 127, 2, 12, 2, 127],
   [0, 127, 4, 8, 16, 127],
   [0, 62, 65, 65, 65, 62],
   [0, 127, 9, 9, 9, 6],
   [0, 62, 65, 81, 33, 94],
   [0, 127, 9, 25, 41, 70],
   [0, 70, 73, 73, 73, 49],
   [0, 1, 1, 127, 1, 1],
   [0, 63, 64, 64, 64, 63],
   [0, 31, 32, 64, 32, 31],
   [0, 63, 64, 56, 64, 63],
   [0, 99, 20, 8, 20, 99],
   [0, 7, 8, 112, 8, 7],
   [0, 97, 81, 73, 69, 67],
   [0, 0, 127, 65, 65, 0],
   [0, 85, 42, 85, 42, 85],
   [0, 0, 65, 65, 127, 0],
   [0, 4, 2, 1, 2, 4],
   [0, 64, 64, 64, 64, 64],
   [0, 0, 1, 2, 4, 0],
   [0, 32, 84, 84, 84, 120],
   [0, 127, 72, 68, 68, 56],
   [0, 56, 68, 68, 68, 32],
   [0, 56, 68, 68, 72, 127],
   [0, 56, 84, 84, 84, 24],
   [0, 8, 126, 9, 1, 2],
   [0, 24, 164, 164, 164, 124],
   [0, 127, 8, 4, 4, 120],
   [0, 0, 68, 125, 64, 0],
   [0, 64, 128, 132, 125, 0],
   [0, 127, 16, 40, 68, 0],
   [0, 0, 65, 127, 64, 0],
   [0, 124, 4, 24, 4, 120],
   [0, 124, 8, 4, 4, 120],
   [0, 56, 68, 68, 68, 56],
   [0, 252, 36, 36, 36, 24],
   [0, 24, 36, 36, 24, 252],
   [0, 124, 8, 4, 4, 8],
   [0, 72, 84, 84, 84, 32],
   [0, 4, 63, 68, 64, 32],
   [0, 60, 64, 64, 32, 124],
   [0, 28, 32, 64, 32, 28],
   [0, 60, 64, 48, 64, 60],
   [0, 68, 40, 16, 40, 68],
   [0, 28, 160, 160, 160, 124],
   [0, 68, 100, 84, 76, 68],
   [20, 20, 20, 20, 20, 20]]"

definition F14x16_Idx :: "8 word list" where
  "F14x16_Idx =
  [180, 243, 193, 172, 182, 171, 200, 237, 208, 197, 207, 162, 209, 167, 212, 186, 181, 231, 215, 211,
   185, 164, 179, 204, 207, 181, 205, 211, 194, 221, 210, 199, 188, 211, 203, 217, 182, 200, 188, 198,
   0]"

definition F14x16 :: "8 word list" where
  "F14x16 =
  [32, 32, 32, 32, 32, 160, 126, 160, 32, 32, 32, 32, 32, 0,
   64, 64, 32, 16, 12, 3, 0, 3, 12, 16, 32, 64, 64, 0,
   128, 132, 152, 0, 136, 232, 152, 142, 232, 136, 136, 136, 0, 0,
   64, 32, 31, 32, 68, 68, 68, 68, 127, 68, 68, 68, 68, 0,
   0, 8, 200, 168, 152, 142, 232, 136, 136, 136, 136, 8, 0, 0,
   32, 16, 12, 0, 64, 64, 127, 0, 0, 4, 8, 48, 0, 0,
   136, 232, 152, 238, 136, 136, 128, 96, 30, 144, 16, 80, 48, 0,
   8, 8, 8, 127, 4, 4, 64, 32, 24, 7, 24, 32, 64, 0,
   64, 32, 248, 6, 8, 168, 168, 170, 172, 168, 168, 168, 8, 0,
   0, 0, 127, 0, 0, 126, 34, 34, 34, 34, 34, 126, 0, 0,
   0, 0, 248, 168, 172, 170, 168, 168, 168, 168, 248, 0, 0, 0,
   64, 48, 3, 58, 66, 66, 70, 90, 66, 98, 3, 8, 48, 0,
   112, 16, 146, 148, 144, 146, 148, 144, 152, 148, 18, 16, 112, 0,
   4, 4, 4, 4, 68, 68, 126, 6, 5, 4, 4, 4, 4, 0,
   252, 4, 100, 156, 0, 24, 72, 72, 74, 76, 72, 72, 24, 0,
   127, 8, 8, 7, 64, 34, 18, 14, 2, 2, 62, 66, 98, 0,
   0, 240, 144, 144, 144, 144, 254, 144, 144, 144, 144, 240, 0, 0,
   0, 15, 4, 4, 4, 4, 63, 68, 68, 68, 68, 71, 112, 0,
   128, 130, 130, 130, 130, 130, 194, 162, 146, 138, 134, 130, 128, 0,
   0, 0, 0, 0, 64, 64, 127, 0, 0, 0, 0, 0, 0, 0,
   0, 4, 4, 4, 4, 4, 252, 4, 4, 4, 4, 4, 0, 0,
   32, 32, 32, 32, 32, 32, 63, 32, 32, 32, 32, 32, 32, 0,
   72, 72, 248, 68, 68, 0, 60, 36, 36, 36, 36, 60, 0, 0,
   8, 6, 127, 1, 2, 64, 73, 73, 127, 73, 73, 73, 64, 0,
   0, 4, 68, 100, 84, 204, 68, 66, 34, 146, 2, 0, 0, 0,
   0, 34, 18, 11, 67, 66, 126, 2, 2, 10, 19, 38, 0, 0,
   254, 2, 34, 218, 6, 32, 216, 8, 9, 14, 8, 136, 40, 24,
   255, 8, 16, 8, 7, 0, 63, 68, 68, 66, 65, 64, 120, 0,
   248, 8, 255, 8, 248, 0, 62, 170, 106, 62, 42, 170, 62, 0,
   99, 33, 31, 17, 57, 72, 41, 9, 141, 251, 9, 8, 44, 88,
   128, 96, 248, 7, 0, 28, 224, 1, 6, 0, 224, 30, 0, 0,
   0, 0, 255, 0, 128, 64, 32, 19, 12, 19, 32, 64, 128, 128,
   16, 16, 255, 16, 16, 240, 0, 0, 248, 8, 8, 8, 248, 0,
   64, 48, 15, 64, 128, 127, 0, 0, 127, 32, 32, 32, 127, 0,
   64, 66, 204, 0, 4, 244, 148, 148, 255, 148, 148, 244, 4, 0,
   64, 32, 31, 32, 72, 68, 66, 65, 95, 65, 66, 68, 72, 64,
   0, 252, 36, 36, 36, 252, 37, 38, 36, 252, 36, 36, 36, 4,
   48, 143, 128, 132, 76, 85, 37, 37, 37, 85, 76, 128, 128, 128,
   64, 66, 204, 0, 64, 64, 64, 64, 255, 64, 64, 64, 64, 64,
   0, 0, 127, 32, 16, 0, 0, 0, 255, 0, 0, 0, 0, 0]"

definition F8X16 :: "8 word list" where
  "F8X16 =
  [0, 0, 0, 0, 0, 0, 0, 0, 0, 0, 0, 0, 0, 0, 0, 0,
   0, 0, 0, 248, 0, 0, 0, 0, 0, 0, 0, 51, 48, 0, 0, 0,
   0, 16, 12, 6, 16, 12, 6, 0, 0, 0, 0, 0, 0, 0, 0, 0,
   64, 192, 120, 64, 192, 120, 64, 0, 4, 63, 4, 4, 63, 4, 4, 0,
   0, 112, 136, 252, 8, 48, 0, 0, 0, 24, 32, 255, 33, 30, 0, 0,
   240, 8, 240, 0, 224, 24, 0, 0, 0, 33, 28, 3, 30, 33, 30, 0,
   0, 240, 8, 136, 112, 0, 0, 0, 30, 33, 35, 36, 25, 39, 33, 16,
   16, 22, 14, 0, 0, 0, 0, 0, 0, 0, 0, 0, 0, 0, 0, 0,
   0, 0, 0, 224, 24, 4, 2, 0, 0, 0, 0, 7, 24, 32, 64, 0,
   0, 2, 4, 24, 224, 0, 0, 0, 0, 64, 32, 24, 7, 0, 0, 0,
   64, 64, 128, 240, 128, 64, 64, 0, 2, 2, 1, 15, 1, 2, 2, 0,
   0, 0, 0, 240, 0, 0, 0, 0, 1, 1, 1, 31, 1, 1, 1, 0,
   0, 0, 0, 0, 0, 0, 0, 0, 128, 176, 112, 0, 0, 0, 0, 0,
   0, 0, 0, 0, 0, 0, 0, 0, 0, 1, 1, 1, 1, 1, 1, 1,
   0, 0, 0, 0, 0, 0, 0, 0, 0, 48, 48, 0, 0, 0, 0, 0,
   0, 0, 0, 0, 128, 96, 24, 4, 0, 96, 24, 6, 1, 0, 0, 0,
   0, 224, 16, 8, 8, 16, 224, 0, 0, 15, 16, 32, 32, 16, 15, 0,
   0, 16, 16, 248, 0, 0, 0, 0, 0, 32, 32, 63, 32, 32, 0, 0,
   0, 112, 8, 8, 8, 136, 112, 0, 0, 48, 40, 36, 34, 33, 48, 0,
   0, 48, 8, 136, 136, 72, 48, 0, 0, 24, 32, 32, 32, 17, 14, 0,
   0, 0, 192, 32, 16, 248, 0, 0, 0, 7, 4, 36, 36, 63, 36, 0,
   0, 248, 8, 136, 136, 8, 8, 0, 0, 25, 33, 32, 32, 17, 14, 0,
   0, 224, 16, 136, 136, 24, 0, 0, 0, 15, 17, 32, 32, 17, 14, 0,
   0, 56, 8, 8, 200, 56, 8, 0, 0, 0, 0, 63, 0, 0, 0, 0,
   0, 112, 136, 8, 8, 136, 112, 0, 0, 28, 34, 33, 33, 34, 28, 0,
   0, 224, 16, 8, 8, 16, 224, 0, 0, 0, 49, 34, 34, 17, 15, 0,
   0, 0, 0, 192, 192, 0, 0, 0, 0, 0, 0, 48, 48, 0, 0, 0,
   0, 0, 0, 128, 0, 0, 0, 0, 0, 0, 128, 96, 0, 0, 0, 0,
   0, 0, 128, 64, 32, 16, 8, 0, 0, 1, 2, 4, 8, 16, 32, 0,
   64, 64, 64, 64, 64, 64, 64, 0, 4, 4, 4, 4, 4, 4, 4, 0,
   0, 8, 16, 32, 64, 128, 0, 0, 0, 32, 16, 8, 4, 2, 1, 0,
   0, 112, 72, 8, 8, 8, 240, 0, 0, 0, 0, 48, 54, 1, 0, 0,
   192, 48, 200, 40, 232, 16, 224, 0, 7, 24, 39, 36, 35, 20, 11, 0,
   0, 0, 192, 56, 224, 0, 0, 0, 32, 60, 35, 2, 2, 39, 56, 32,
   8, 248, 136, 136, 136, 112, 0, 0, 32, 63, 32, 32, 32, 17, 14, 0,
   192, 48, 8, 8, 8, 8, 56, 0, 7, 24, 32, 32, 32, 16, 8, 0,
   8, 248, 8, 8, 8, 16, 224, 0, 32, 63, 32, 32, 32, 16, 15, 0,
   8, 248, 136, 136, 232, 8, 16, 0, 32, 63, 32, 32, 35, 32, 24, 0,
   8, 248, 136, 136, 232, 8, 16, 0, 32, 63, 32, 0, 3, 0, 0, 0,
   192, 48, 8, 8, 8, 56, 0, 0, 7, 24, 32, 32, 34, 30, 2, 0,
   8, 248, 8, 0, 0, 8, 248, 8, 32, 63, 33, 1, 1, 33, 63, 32,
   0, 8, 8, 248, 8, 8, 0, 0, 0, 32, 32, 63, 32, 32, 0, 0,
   0, 0, 8, 8, 248, 8, 8, 0, 192, 128, 128, 128, 127, 0, 0, 0,
   8, 248, 136, 192, 40, 24, 8, 0, 32, 63, 32, 1, 38, 56, 32, 0,
   8, 248, 8, 0, 0, 0, 0, 0, 32, 63, 32, 32, 32, 32, 48, 0,
   8, 248, 248, 0, 248, 248, 8, 0, 32, 63, 0, 63, 0, 63, 32, 0,
   8, 248, 48, 192, 0, 8, 248, 8, 32, 63, 32, 0, 7, 24, 63, 0,
   224, 16, 8, 8, 8, 16, 224, 0, 15, 16, 32, 32, 32, 16, 15, 0,
   8, 248, 8, 8, 8, 8, 240, 0, 32, 63, 33, 1, 1, 1, 0, 0,
   224, 16, 8, 8, 8, 16, 224, 0, 15, 24, 36, 36, 56, 80, 79, 0,
   8, 248, 136, 136, 136, 136, 112, 0, 32, 63, 32, 0, 3, 12, 48, 32,
   0, 112, 136, 8, 8, 8, 56, 0, 0, 56, 32, 33, 33, 34, 28, 0,
   24, 8, 8, 248, 8, 8, 24, 0, 0, 0, 32, 63, 32, 0, 0, 0,
   8, 248, 8, 0, 0, 8, 248, 8, 0, 31, 32, 32, 32, 32, 31, 0,
   8, 120, 136, 0, 0, 200, 56, 8, 0, 0, 7, 56, 14, 1, 0, 0,
   248, 8, 0, 248, 0, 8, 248, 0, 3, 60, 7, 0, 7, 60, 3, 0,
   8, 24, 104, 128, 128, 104, 24, 8, 32, 48, 44, 3, 3, 44, 48, 32,
   8, 56, 200, 0, 200, 56, 8, 0, 0, 0, 32, 63, 32, 0, 0, 0,
   16, 8, 8, 8, 200, 56, 8, 0, 32, 56, 38, 33, 32, 32, 24, 0,
   0, 0, 0, 254, 2, 2, 2, 0, 0, 0, 0, 127, 64, 64, 64, 0,
   0, 12, 48, 192, 0, 0, 0, 0, 0, 0, 0, 1, 6, 56, 192, 0,
   0, 2, 2, 2, 254, 0, 0, 0, 0, 64, 64, 64, 127, 0, 0, 0,
   0, 0, 4, 2, 2, 2, 4, 0, 0, 0, 0, 0, 0, 0, 0, 0,
   0, 0, 0, 0, 0, 0, 0, 0, 128, 128, 128, 128, 128, 128, 128, 128,
   0, 2, 2, 4, 0, 0, 0, 0, 0, 0, 0, 0, 0, 0, 0, 0,
   0, 0, 128, 128, 128, 128, 0, 0, 0, 25, 36, 34, 34, 34, 63, 32,
   8, 248, 0, 128, 128, 0, 0, 0, 0, 63, 17, 32, 32, 17, 14, 0,
   0, 0, 0, 128, 128, 128, 0, 0, 0, 14, 17, 32, 32, 32, 17, 0,
   0, 0, 0, 128, 128, 136, 248, 0, 0, 14, 17, 32, 32, 16, 63, 32,
   0, 0, 128, 128, 128, 128, 0, 0, 0, 31, 34, 34, 34, 34, 19, 0,
   0, 128, 128, 240, 136, 136, 136, 24, 0, 32, 32, 63, 32, 32, 0, 0,
   0, 0, 128, 128, 128, 128, 128, 0, 0, 107, 148, 148, 148, 147, 96, 0,
   8, 248, 0, 128, 128, 128, 0, 0, 32, 63, 33, 0, 0, 32, 63, 32,
   0, 128, 152, 152, 0, 0, 0, 0, 0, 32, 32, 63, 32, 32, 0, 0,
   0, 0, 0, 128, 152, 152, 0, 0, 0, 192, 128, 128, 128, 127, 0, 0,
   8, 248, 0, 0, 128, 128, 128, 0, 32, 63, 36, 2, 45, 48, 32, 0,
   0, 8, 8, 248, 0, 0, 0, 0, 0, 32, 32, 63, 32, 32, 0, 0,
   128, 128, 128, 128, 128, 128, 128, 0, 32, 63, 32, 0, 63, 32, 0, 63,
   128, 128, 0, 128, 128, 128, 0, 0, 32, 63, 33, 0, 0, 32, 63, 32,
   0, 0, 128, 128, 128, 128, 0, 0, 0, 31, 32, 32, 32, 32, 31, 0,
   128, 128, 0, 128, 128, 0, 0, 0, 128, 255, 161, 32, 32, 17, 14, 0,
   0, 0, 0, 128, 128, 128, 128, 0, 0, 14, 17, 32, 32, 160, 255, 128,
   128, 128, 128, 0, 128, 128, 128, 0, 32, 32, 63, 33, 32, 0, 1, 0,
   0, 0, 128, 128, 128, 128, 128, 0, 0, 51, 36, 36, 36, 36, 25, 0,
   0, 128, 128, 224, 128, 128, 0, 0, 0, 0, 0, 31, 32, 32, 0, 0,
   128, 128, 0, 0, 0, 128, 128, 0, 0, 31, 32, 32, 32, 16, 63, 32,
   128, 128, 128, 0, 0, 128, 128, 128, 0, 1, 14, 48, 8, 6, 1, 0,
   128, 128, 0, 128, 0, 128, 128, 128, 15, 48, 12, 3, 12, 48, 15, 0,
   0, 128, 128, 0, 128, 128, 128, 0, 0, 32, 49, 46, 14, 49, 32, 0,
   128, 128, 128, 0, 0, 128, 128, 128, 128, 129, 142, 112, 24, 6, 1, 0,
   0, 128, 128, 128, 128, 128, 128, 0, 0, 33, 48, 44, 34, 33, 48, 0,
   0, 0, 0, 0, 128, 124, 2, 2, 0, 0, 0, 0, 0, 63, 64, 64,
   0, 0, 0, 0, 255, 0, 0, 0, 0, 0, 0, 0, 255, 0, 0, 0,
   0, 2, 2, 124, 128, 0, 0, 0, 0, 64, 64, 63, 0, 0, 0, 0,
   0, 6, 1, 1, 2, 2, 4, 4, 0, 0, 0, 0, 0, 0, 0, 0]"

lemma F6x8_length [simp]: "length F6x8 = 92"
  by (simp add: F6x8_def)

lemma F14x16_Idx_length [simp]: "length F14x16_Idx = 41"
  by (simp add: F14x16_Idx_def)

lemma F14x16_length [simp]: "length F14x16 = 560"
  by (simp add: F14x16_def)

lemma F8X16_length [simp]: "length F8X16 = 1520"
  by (simp add: F8X16_def)

lemma F6x8_rows: "list_all (\<lambda>g. length g = 6) F6x8"
  by (simp add: F6x8_def)

end
