(* ===== verification/OLED_Driver.thy ===== *)
theory OLED_Driver
  imports OLED_Font
begin

text \<open>
  The display driver (\<open>OLED/OLED.c\<close>).  A drawing operation is the list of what it does to the pins of the
  display, in order: clock, data, data/command select, chip select, reset, and the empty loops that
  wait.  An operation that reads a string, a font or a picture past its end is \<open>Out_Of_Array\<close>; a loop
  over a \<open>u8\<close> counter may never end, then the operation is \<open>None\<close>.

  The second half reads the pins back: \<open>receive\<close> is the serial interface of the display (one bit at
  each rising clock edge, eight bits a byte, the highest first), \<open>sends\<close> says which bytes a list of
  pin events carries, and \<open>page_panel\<close> is what the driver relies on of the display controller, which is
  not code of the repository: it is an argument of the theorems.
\<close>

datatype pin_event =
    SCL bool
  | SDA bool
  | DC bool
  | CS bool
  | RST bool
  | Pin_Output nat
  | Spin nat

type_synonym pins = "pin_event list"

datatype drawn = Out_Of_Array | Drawn pins

subsection \<open>Bytes\<close>

fun shift_out :: "nat \<Rightarrow> 8 word \<Rightarrow> pins" where
  "shift_out 0 d = []"
| "shift_out (Suc i) d =
     (if d AND 0x80 \<noteq> 0 then SDA True else SDA False) # SCL True # SCL False # shift_out i (push_bit 1 d)"

definition OLED_WrDat :: "8 word \<Rightarrow> pins" where
  "OLED_WrDat d = DC True # SCL False # shift_out 8 d"

definition OLED_WrCmd :: "8 word \<Rightarrow> pins" where
  "OLED_WrCmd c = DC False # SCL False # shift_out 8 c"

definition OLED_Set_Pos :: "8 word \<Rightarrow> 8 word \<Rightarrow> pins" where
  "OLED_Set_Pos x y =
     OLED_WrCmd (0xb0 + y) @ OLED_WrCmd (drop_bit 4 (x AND 0xf0) OR 0x10) @ OLED_WrCmd ((x AND 0x0f) OR 0x01)"

definition fill_page :: "8 word \<Rightarrow> nat \<Rightarrow> pins" where
  "fill_page b y =
     OLED_WrCmd (0xb0 + of_nat y) @ OLED_WrCmd 0x01 @ OLED_WrCmd 0x10 @ concat (replicate 128 (OLED_WrDat b))"

definition OLED_Fill :: "8 word \<Rightarrow> pins" where
  "OLED_Fill bmp_data = concat (map (fill_page bmp_data) [0..<8])"

definition OLED_CLS :: pins where
  "OLED_CLS = concat (map (fill_page 0) [0..<8])"

text \<open>Waiting: the number of turns of the inner loop.  \<open>Dly_ms\<close> multiplies in sixteen bits.\<close>

definition Dly_ms :: "16 word \<Rightarrow> pins" where
  "Dly_ms ms = (let ms = (if ms < 1 then 1 else ms) * 12 in [Spin (unat ms * 1335)])"

definition OLED_DLY_ms :: "16 word \<Rightarrow> pins" where
  "OLED_DLY_ms ms = [Spin (unat ms * 16000)]"

definition init_commands :: "8 word list" where
  "init_commands =
     [0xae, 0x00, 0x10, 0x40, 0x81, 0xcf, 0xa1, 0xc8, 0xa6, 0xa8, 0x3f, 0xd3, 0x00, 0xd5, 0x80, 0xd9, 0xf1,
      0xda, 0x12, 0xdb, 0x40, 0x20, 0x02, 0x8d, 0x14, 0xa4, 0xa6, 0xaf]"

definition OLED_Init :: pins where
  "OLED_Init =
     map Pin_Output [28, 27, 26, 25, 24] @ [SCL True, CS False, RST False] @ OLED_DLY_ms 50 @ [RST True]
     @ concat (map OLED_WrCmd init_commands) @ OLED_Fill 0x00 @ OLED_Set_Pos 0 0"

subsection \<open>Points, rectangles and pictures\<close>

definition OLED_PutPixel :: "8 word \<Rightarrow> 8 word \<Rightarrow> pins" where
  "OLED_PutPixel x y =
     OLED_Set_Pos x y @ OLED_WrCmd (0xb0 + drop_bit 3 y) @ OLED_WrCmd (drop_bit 4 (x AND 0xf0) OR 0x10)
     @ OLED_WrCmd ((x AND 0x0f) OR 0x00) @ OLED_WrDat (push_bit (unat y mod 8) 0x01)"

text \<open>One side of a rectangle; the counter is a \<open>u8\<close>, so a side that reaches 255 never ends.\<close>

partial_function (option) rectangle_side ::
  "8 word \<Rightarrow> 8 word \<Rightarrow> 8 word \<Rightarrow> 8 word \<Rightarrow> 16 word \<Rightarrow> pins \<Rightarrow> pins option" where
  "rectangle_side n x2 b gif ms out =
     (if n \<le> x2
      then rectangle_side (n + 1) x2 b gif ms (out @ OLED_WrDat b @ (if gif = 1 then OLED_DLY_ms ms else []))
      else Some out)"

definition OLED_Rectangle :: "8 word \<Rightarrow> 8 word \<Rightarrow> 8 word \<Rightarrow> 8 word \<Rightarrow> 8 word \<Rightarrow> drawn option" where
  "OLED_Rectangle x1 y1 x2 y2 gif =
     (case rectangle_side x1 x2 (push_bit (unat y1 mod 8) 0x01) gif 50 (OLED_Set_Pos x1 (drop_bit 3 y1)) of
        None \<Rightarrow> None
      | Some out \<Rightarrow>
          map_option Drawn
            (rectangle_side x1 x2 (push_bit (unat y2 mod 8) 0x01) gif 5 (out @ OLED_Set_Pos x1 (drop_bit 3 y2))))"

text \<open>A picture: the page counter runs to \<open>y1\<close> itself, the index into the picture is a \<open>u16\<close>.\<close>

partial_function (option) bmp_pages ::
  "8 word \<Rightarrow> 8 word \<Rightarrow> 8 word \<Rightarrow> 8 word list \<Rightarrow> 16 word \<Rightarrow> 8 word \<Rightarrow> pins \<Rightarrow> drawn option" where
  "bmp_pages x0 x1 y1 bmp ii y out =
     (if y \<le> y1
      then (let is = map (\<lambda>k. unat (ii + of_nat k)) [0..<unat x1 - unat x0]
            in if list_all (\<lambda>i. i < length bmp) is
               then bmp_pages x0 x1 y1 bmp (ii + of_nat (length is)) (y + 1)
                      (out @ OLED_Set_Pos x0 y @ concat (map (\<lambda>i. OLED_WrDat (bmp ! i)) is))
               else Some Out_Of_Array)
      else Some (Drawn out))"

definition Draw_BMP :: "8 word \<Rightarrow> 8 word \<Rightarrow> 8 word \<Rightarrow> 8 word \<Rightarrow> 8 word list \<Rightarrow> drawn option" where
  "Draw_BMP x0 y0 x1 y1 bmp = bmp_pages x0 x1 y1 bmp 0 y0 []"

subsection \<open>Text\<close>

text \<open>A string is the array that holds it, final zero included; \<open>j\<close> is a \<open>u8\<close>.\<close>

partial_function (option) p6x8_loop ::
  "8 word list \<Rightarrow> 8 word \<Rightarrow> 8 word \<Rightarrow> 8 word \<Rightarrow> pins \<Rightarrow> drawn option" where
  "p6x8_loop ch x y j out =
     (if unat j < length ch
      then (if ch ! unat j = 0 then Some (Drawn out)
            else (let c = ch ! unat j - 32; y = (if x > 126 then y + 1 else y); x = (if x > 126 then 0 else x)
                  in if unat c < length F6x8
                     then p6x8_loop ch (x + 6) y (j + 1)
                            (out @ OLED_Set_Pos x y @ concat (map (\<lambda>i. OLED_WrDat (F6x8 ! unat c ! i)) [0..<6]))
                     else Some Out_Of_Array))
      else Some Out_Of_Array)"

definition OLED_P6x8Str :: "8 word \<Rightarrow> 8 word \<Rightarrow> 8 word list \<Rightarrow> drawn option" where
  "OLED_P6x8Str x y ch = p6x8_loop ch x y 0 []"

definition half_glyph :: "8 word list \<Rightarrow> nat \<Rightarrow> nat \<Rightarrow> pins" where
  "half_glyph font k n = concat (map (\<lambda>i. OLED_WrDat (font ! (k + i))) [0..<n])"

partial_function (option) p8x16_loop ::
  "8 word list \<Rightarrow> 8 word \<Rightarrow> 8 word \<Rightarrow> 8 word \<Rightarrow> pins \<Rightarrow> drawn option" where
  "p8x16_loop ch x y j out =
     (if unat j < length ch
      then (if ch ! unat j = 0 then Some (Drawn out)
            else (let c = ch ! unat j - 32; y = (if x > 120 then y + 1 else y); x = (if x > 120 then 0 else x)
                  in if unat c * 16 + 15 < length F8X16
                     then p8x16_loop ch (x + 8) y (j + 1)
                            (out @ OLED_Set_Pos x y @ half_glyph F8X16 (unat c * 16) 8
                                 @ OLED_Set_Pos x (y + 1) @ half_glyph F8X16 (unat c * 16 + 8) 8)
                     else Some Out_Of_Array))
      else Some Out_Of_Array)"

definition OLED_P8x16Str :: "8 word \<Rightarrow> 8 word \<Rightarrow> 8 word list \<Rightarrow> drawn option" where
  "OLED_P8x16Str x y ch = p8x16_loop ch x y 0 []"

definition LCD_Write_String :: "8 word \<Rightarrow> 8 word \<Rightarrow> 8 word list \<Rightarrow> drawn option" where
  "LCD_Write_String x y ch = p8x16_loop ch x y 0 []"

text \<open>
  The index of a Chinese character in the font, 1 for a character that is not there; the second byte
  is read only when the first agrees.
\<close>

function f14_find :: "8 word list \<Rightarrow> 8 word \<Rightarrow> nat \<Rightarrow> 16 word option" where
  "f14_find ch ii wm =
     (if wm + 1 < length F14x16_Idx \<and> F14x16_Idx ! wm > 127
      then (if F14x16_Idx ! wm = ch ! unat ii
            then (if unat ii + 1 < length ch
                  then (if F14x16_Idx ! (wm + 1) = ch ! (unat ii + 1) then Some (of_nat (wm * 14))
                        else f14_find ch ii (wm + 2))
                  else None)
            else f14_find ch ii (wm + 2))
      else Some 1)"
  by pat_completeness auto

termination
  by (relation "measure (\<lambda>(ch, ii, wm). length F14x16_Idx - wm)") auto

declare f14_find.simps [simp del]

text \<open>A character that is not in the font is drawn as a blank, and the index then moves by three.\<close>

partial_function (option) p14x16_loop ::
  "8 word list \<Rightarrow> 8 word \<Rightarrow> 8 word \<Rightarrow> 8 word \<Rightarrow> pins \<Rightarrow> drawn option" where
  "p14x16_loop ch x y ii out =
     (if unat ii < length ch
      then (if ch ! unat ii = 0 then Some (Drawn out)
            else (case f14_find ch ii 0 of
                    None \<Rightarrow> Some Out_Of_Array
                  | Some adder \<Rightarrow>
                      (let y = (if x > 118 then y + 1 else y); x = (if x > 118 then 0 else x);
                           out = out @ OLED_Set_Pos x y
                       in if adder \<noteq> 1
                          then (if unat adder + 27 < length F14x16
                                then p14x16_loop ch (x + 14) y (ii + 2)
                                       (out @ OLED_Set_Pos x y @ half_glyph F14x16 (unat adder) 14
                                            @ OLED_Set_Pos x (y + 1) @ half_glyph F14x16 (unat adder + 14) 14)
                                else Some Out_Of_Array)
                          else p14x16_loop ch (x + 14) y (ii + 1 + 2)
                                 (out @ OLED_Set_Pos x y @ concat (replicate 16 (OLED_WrDat 0))
                                      @ OLED_Set_Pos x (y + 1) @ concat (replicate 16 (OLED_WrDat 0))))))
      else Some Out_Of_Array)"

definition OLED_P14x16Str :: "8 word \<Rightarrow> 8 word \<Rightarrow> 8 word list \<Rightarrow> drawn option" where
  "OLED_P14x16Str x y ch = p14x16_loop ch x y 0 []"

text \<open>Mixed text: each character is copied to the array \<open>ch2\<close> of three bytes and drawn by its own call.\<close>

partial_function (option) print_loop ::
  "8 word list \<Rightarrow> 8 word \<Rightarrow> 8 word \<Rightarrow> 8 word \<Rightarrow> pins \<Rightarrow> drawn option" where
  "print_loop ch x y ii out =
     (if unat ii < length ch
      then (if ch ! unat ii = 0 then Some (Drawn out)
            else if ch ! unat ii > 127
            then (if unat ii + 1 < length ch
                  then (case OLED_P14x16Str x y [ch ! unat ii, ch ! (unat ii + 1), 0] of
                          None \<Rightarrow> None
                        | Some Out_Of_Array \<Rightarrow> Some Out_Of_Array
                        | Some (Drawn o2) \<Rightarrow> print_loop ch (x + 14) y (ii + 2) (out @ o2))
                  else Some Out_Of_Array)
            else (case OLED_P8x16Str x y [ch ! unat ii, 0] of
                    None \<Rightarrow> None
                  | Some Out_Of_Array \<Rightarrow> Some Out_Of_Array
                  | Some (Drawn o2) \<Rightarrow> print_loop ch (x + 8) y (ii + 1) (out @ o2)))
      else Some Out_Of_Array)"

definition OLED_Print :: "8 word \<Rightarrow> 8 word \<Rightarrow> 8 word list \<Rightarrow> drawn option" where
  "OLED_Print x y ch = print_loop ch x y 0 []"

text \<open>\<open>sprintf(num, "%5d", number)\<close>: the argument is read as a signed number.\<close>

fun digits10 :: "nat \<Rightarrow> 8 word list" where
  "digits10 n = (if n < 10 then [of_nat (48 + n)] else digits10 (n div 10) @ [of_nat (48 + n mod 10)])"

declare digits10.simps [simp del]

definition number_text :: "int \<Rightarrow> 8 word list" where
  "number_text n =
     (let d = (if n < 0 then 45 # digits10 (nat (- n)) else digits10 (nat n)) in replicate (5 - length d) 32 @ d)"

definition sprintf5 :: "int \<Rightarrow> 8 word list" where
  "sprintf5 n = number_text n @ [0]"

definition LCD_Write_Number :: "8 word \<Rightarrow> 8 word \<Rightarrow> 32 word \<Rightarrow> drawn option" where
  "LCD_Write_Number X Y number = OLED_P6x8Str X Y (sprintf5 (sint number))"

subsection \<open>The serial line, read back\<close>

text \<open>
  The receiver: the levels of the three lines, the shift register and the number of bits in it.  A byte
  comes with the level of the data/command line.
\<close>

record receiver =
  rx_scl :: bool
  rx_sda :: bool
  rx_dc :: bool
  rx_reg :: "8 word"
  rx_count :: nat

type_synonym received = "(bool \<times> 8 word) list"

definition rx_bit :: "receiver \<Rightarrow> receiver \<times> received" where
  "rx_bit r =
     (let b = push_bit 1 (rx_reg r) OR (if rx_sda r then 1 else 0)
      in if rx_count r = 7 then (r\<lparr>rx_scl := True, rx_reg := b, rx_count := 0\<rparr>, [(rx_dc r, b)])
         else (r\<lparr>rx_scl := True, rx_reg := b, rx_count := rx_count r + 1\<rparr>, []))"

fun rx_event :: "pin_event \<Rightarrow> receiver \<Rightarrow> receiver \<times> received" where
  "rx_event (SCL l) r = (if l \<and> \<not> rx_scl r then rx_bit r else (r\<lparr>rx_scl := l\<rparr>, []))"
| "rx_event (SDA l) r = (r\<lparr>rx_sda := l\<rparr>, [])"
| "rx_event (DC l) r = (r\<lparr>rx_dc := l\<rparr>, [])"
| "rx_event e r = (r, [])"

fun receive :: "pins \<Rightarrow> receiver \<Rightarrow> receiver \<times> received" where
  "receive [] r = (r, [])"
| "receive (e # es) r = (let (r, b) = rx_event e r; (r, bs) = receive es r in (r, b @ bs))"

lemma receive_append:
  "receive (es @ fs) r = (let (r', b) = receive es r; (r'', bs) = receive fs r' in (r'', b @ bs))"
  by (induction es arbitrary: r) (auto simp: Let_def split: prod.splits)

text \<open>Between two bytes: the register empty.  What a list of events carries.\<close>

definition sends :: "pins \<Rightarrow> received \<Rightarrow> bool" where
  "sends out bs \<longleftrightarrow>
     (\<forall>r. rx_count r = 0 \<longrightarrow> snd (receive out r) = bs \<and> rx_count (fst (receive out r)) = 0)"

named_theorems oled_sends "the bytes an operation of the driver sends"

lemma sends_Nil [oled_sends]: "sends [] []"
  by (simp add: sends_def)

lemma sends_append [oled_sends]: "sends out bs \<Longrightarrow> sends out' bs' \<Longrightarrow> sends (out @ out') (bs @ bs')"
  by (auto simp: sends_def receive_append Let_def split: prod.splits) (metis fst_conv snd_conv)+

lemma sends_concat:
  "(\<And>x. x \<in> set xs \<Longrightarrow> sends (f x) (g x)) \<Longrightarrow> sends (concat (map f xs)) (concat (map g xs))"
  by (induction xs) (auto intro: oled_sends)

lemma sends_spin [oled_sends]: "sends [Spin n] []"
  by (simp add: sends_def)

text \<open>One byte goes out bit by bit, the highest first.\<close>

definition shift_in :: "bool list \<Rightarrow> 8 word \<Rightarrow> 8 word" where
  "shift_in bs reg = fold (\<lambda>b reg. push_bit 1 reg OR (if b then 1 else 0)) bs reg"

lemma bit_word8_times2: "bit ((w :: 8 word) * 2) k \<longleftrightarrow> 0 < k \<and> k < 8 \<and> bit w (k - 1)"
  using bit_push_bit_iff [of 1 w k] by (auto simp: possible_bit_word)

lemma shift_in_bit:
  "k < 8 \<Longrightarrow> bit (shift_in bs reg) k
     = (if k < length bs then bs ! (length bs - 1 - k) else bit reg (k - length bs))"
proof (induction bs arbitrary: k rule: rev_induct)
  case Nil
  then show ?case by (simp add: shift_in_def)
next
  case (snoc b bs)
  then show ?case
    by (cases k) (auto simp: shift_in_def bit_or_iff bit_word8_times2 bit_1_iff nth_append)
qed

lemma top_bit: "(d :: 8 word) AND 0x80 \<noteq> 0 \<longleftrightarrow> bit d 7"
  using and_exp_neq_0 [of d 7] by simp

lemma receive_shift:
  "rx_count r + i \<le> 8 \<Longrightarrow> 0 < i \<Longrightarrow> \<not> rx_scl r \<Longrightarrow>
     rx_reg (fst (receive (shift_out i d) r)) = shift_in (map (\<lambda>k. bit d (7 - k)) [0..<i]) (rx_reg r)
     \<and> rx_count (fst (receive (shift_out i d) r)) = (if rx_count r + i = 8 then 0 else rx_count r + i)
     \<and> snd (receive (shift_out i d) r)
         = (if rx_count r + i = 8 then [(rx_dc r, shift_in (map (\<lambda>k. bit d (7 - k)) [0..<i]) (rx_reg r))] else [])"
proof (induction i arbitrary: d r)
  case 0
  then show ?case by simp
next
  case (Suc i)
  define b where "b = bit d 7"
  define r' where "r' = r\<lparr>rx_sda := b, rx_reg := push_bit 1 (rx_reg r) OR (if b then 1 else 0),
    rx_count := if rx_count r = 7 then 0 else rx_count r + 1, rx_scl := False\<rparr>"
  have step: "receive (shift_out (Suc i) d) r
    = (let (r'', bs) = receive (shift_out i (push_bit 1 d)) r'
       in (r'', (if rx_count r = 7 then [(rx_dc r, rx_reg r')] else []) @ bs))"
    using Suc.prems by (simp add: top_bit r'_def b_def rx_bit_def Let_def split: prod.split)
  show ?case
  proof (cases i)
    case 0
    with Suc.prems show ?thesis
      unfolding step by (auto simp: shift_in_def r'_def b_def)
  next
    case (Suc j)
    have bits: "map (\<lambda>k. bit (push_bit 1 d) (7 - k)) [0..<i] = map (\<lambda>k. bit d (7 - Suc k)) [0..<i]"
      using Suc.prems Suc by (auto simp: bit_word8_times2 intro!: map_cong)
    have upt: "[0..<Suc i] = 0 # map Suc [0..<i]"
      by (simp add: upt_conv_Cons map_Suc_upt)
    have sh: "shift_in (map (\<lambda>k. bit d (7 - k)) [0..<Suc i]) (rx_reg r)
        = shift_in (map (\<lambda>k. bit (push_bit 1 d) (7 - k)) [0..<i]) (rx_reg r')"
      unfolding bits unfolding upt by (simp add: shift_in_def r'_def b_def comp_def)
    have "rx_count r \<noteq> 7" "rx_count r' = rx_count r + 1" "\<not> rx_scl r'" "rx_dc r' = rx_dc r"
      using Suc.prems Suc by (auto simp: r'_def)
    with Suc.IH [of r' "push_bit 1 d"] Suc.prems Suc show ?thesis
      unfolding step sh by (auto split: prod.split)
  qed
qed

lemma shift_in_byte: "shift_in (map (\<lambda>k. bit d (7 - k)) [0..<8]) reg = d"
proof (rule bit_eqI)
  fix k assume "possible_bit TYPE(8 word) k"
  then have k: "k < 8" by (simp add: possible_bit_word)
  then have "[0..<8] ! (7 - k) = 7 - k" by (subst nth_upt) auto
  with k show "bit (shift_in (map (\<lambda>k. bit d (7 - k)) [0..<8]) reg) k = bit d k"
    by (simp add: shift_in_bit del: upt_rec_numeral)
qed

lemma sends_byte: "sends (DC l # SCL False # shift_out 8 d) [(l, d)]"
proof (unfold sends_def, intro allI impI)
  fix r :: receiver assume "rx_count r = 0"
  with receive_shift [of "r\<lparr>rx_dc := l, rx_scl := False\<rparr>" 8 d]
  show "snd (receive (DC l # SCL False # shift_out 8 d) r) = [(l, d)]
    \<and> rx_count (fst (receive (DC l # SCL False # shift_out 8 d) r)) = 0"
    by (auto simp: shift_in_byte simp del: upt_rec_numeral split: prod.splits)
qed

lemma sends_WrDat [oled_sends]: "sends (OLED_WrDat d) [(True, d)]"
  unfolding OLED_WrDat_def by (rule sends_byte)

lemma sends_WrCmd [oled_sends]: "sends (OLED_WrCmd c) [(False, c)]"
  unfolding OLED_WrCmd_def by (rule sends_byte)

end
