(* ===== verification/OLED_Text.thy ===== *)
theory OLED_Text
  imports OLED_Driver
begin

text \<open>
  What the driver shows: the bytes its operations send, the display controller in page addressing mode as
  the driver relies on it (\<open>page_panel\<close>), and the memory of the panel after a text, a number and a
  clear; then the texts and coordinates for which the driver goes wrong.
\<close>

definition pos_bytes :: "8 word \<Rightarrow> 8 word \<Rightarrow> received" where
  "pos_bytes x y =
     [(False, 0xb0 + y), (False, drop_bit 4 (x AND 0xf0) OR 0x10), (False, (x AND 0x0f) OR 0x01)]"

lemma sends_Set_Pos [oled_sends]: "sends (OLED_Set_Pos x y) (pos_bytes x y)"
proof -
  have "sends (OLED_Set_Pos x y)
      ([(False, 0xb0 + y)] @ [(False, drop_bit 4 (x AND 0xf0) OR 0x10)] @ [(False, (x AND 0x0f) OR 0x01)])"
    unfolding OLED_Set_Pos_def by (intro oled_sends)
  then show ?thesis by (simp add: pos_bytes_def)
qed

definition fill_bytes :: "8 word \<Rightarrow> nat \<Rightarrow> received" where
  "fill_bytes b y = [(False, 0xb0 + of_nat y), (False, 0x01), (False, 0x10)] @ replicate 128 (True, b)"

lemma sends_replicate: "sends out bs \<Longrightarrow> sends (concat (replicate n out)) (concat (replicate n bs))"
  by (induction n) (auto intro: oled_sends)

lemma concat_replicate_single: "concat (replicate n [x]) = replicate n x"
  by (induction n) auto

lemma sends_fill_page: "sends (fill_page b y) (fill_bytes b y)"
proof -
  have "sends (fill_page b y)
      ([(False, 0xb0 + of_nat y)] @ [(False, 0x01)] @ [(False, 0x10)] @ concat (replicate 128 [(True, b)]))"
    unfolding fill_page_def by (intro oled_sends sends_replicate)
  then show ?thesis by (simp only: fill_bytes_def concat_replicate_single) simp
qed

lemma sends_Fill [oled_sends]: "sends (OLED_Fill b) (concat (map (fill_bytes b) [0..<8]))"
  unfolding OLED_Fill_def by (rule sends_concat) (rule sends_fill_page)

lemma sends_CLS [oled_sends]: "sends OLED_CLS (concat (map (fill_bytes 0) [0..<8]))"
  unfolding OLED_CLS_def by (rule sends_concat) (rule sends_fill_page)

subsection \<open>The panel\<close>

text \<open>
  The controller: what a command and a data byte do to it, its page and column registers and its
  memory, one byte per page and column.
\<close>

record 'p panel =
  on_cmd :: "8 word \<Rightarrow> 'p \<Rightarrow> 'p"
  on_dat :: "8 word \<Rightarrow> 'p \<Rightarrow> 'p"
  page_of :: "'p \<Rightarrow> nat"
  col_of :: "'p \<Rightarrow> nat"
  cell_of :: "'p \<Rightarrow> nat \<Rightarrow> nat \<Rightarrow> 8 word"

text \<open>
  Page addressing mode: commands 0xb0 to 0xb7 set the page, 0x00 to 0x0f the low half of the column,
  0x10 to 0x17 its high half; a data byte is stored and the column moves on, from 127 to 0.
\<close>

definition page_panel :: "'p panel \<Rightarrow> bool" where
  "page_panel P \<longleftrightarrow>
     (\<forall>p. col_of P p < 128)
     \<and> (\<forall>p y. y < 8 \<longrightarrow> page_of P (on_cmd P (0xb0 + of_nat y) p) = y
          \<and> col_of P (on_cmd P (0xb0 + of_nat y) p) = col_of P p
          \<and> cell_of P (on_cmd P (0xb0 + of_nat y) p) = cell_of P p)
     \<and> (\<forall>p n. n < 16 \<longrightarrow> page_of P (on_cmd P (of_nat n) p) = page_of P p
          \<and> col_of P (on_cmd P (of_nat n) p) = col_of P p div 16 * 16 + n
          \<and> cell_of P (on_cmd P (of_nat n) p) = cell_of P p)
     \<and> (\<forall>p n. n < 8 \<longrightarrow> page_of P (on_cmd P (0x10 + of_nat n) p) = page_of P p
          \<and> col_of P (on_cmd P (0x10 + of_nat n) p) = n * 16 + col_of P p mod 16
          \<and> cell_of P (on_cmd P (0x10 + of_nat n) p) = cell_of P p)
     \<and> (\<forall>p d. page_of P (on_dat P d p) = page_of P p
          \<and> col_of P (on_dat P d p) = (col_of P p + 1) mod 128
          \<and> cell_of P (on_dat P d p)
              = (\<lambda>r k. if r = page_of P p \<and> k = col_of P p then d else cell_of P p r k))"

definition panel_run :: "'p panel \<Rightarrow> received \<Rightarrow> 'p \<Rightarrow> 'p" where
  "panel_run P bs p = fold (\<lambda>(l, b). if l then on_dat P b else on_cmd P b) bs p"

text \<open>What a display shows after a list of pin events.\<close>

definition shows_after :: "'p panel \<Rightarrow> pins \<Rightarrow> receiver \<Rightarrow> 'p \<Rightarrow> nat \<Rightarrow> nat \<Rightarrow> 8 word" where
  "shows_after P out r p = cell_of P (panel_run P (snd (receive out r)) p)"

lemma panel_run_Nil [simp]: "panel_run P [] p = p"
  by (simp add: panel_run_def)

lemma panel_run_append [simp]: "panel_run P (bs @ bs') p = panel_run P bs' (panel_run P bs p)"
  by (simp add: panel_run_def)

lemma panel_run_Cons [simp]:
  "panel_run P ((l, b) # bs) p = panel_run P bs (if l then on_dat P b p else on_cmd P b p)"
  by (simp add: panel_run_def)

definition write_row :: "nat \<Rightarrow> nat \<Rightarrow> 8 word list \<Rightarrow> (nat \<Rightarrow> nat \<Rightarrow> 8 word) \<Rightarrow> nat \<Rightarrow> nat \<Rightarrow> 8 word" where
  "write_row y c ds m = (\<lambda>r k. if r = y \<and> c \<le> k \<and> k < c + length ds then ds ! (k - c) else m r k)"

lemma write_row_Nil [simp]: "write_row y c [] m = m"
  by (auto simp: write_row_def fun_eq_iff)

lemma write_row_append:
  "write_row y (c + length a) b (write_row y c a m) = write_row y c (a @ b) m"
  by (auto simp: write_row_def fun_eq_iff nth_append)

lemma write_row_app:
  "write_row y c (a @ b) m = write_row y (c + length a) b (write_row y c a m)"
  by (rule write_row_append [symmetric])

definition text_col :: "8 word \<Rightarrow> nat" where
  "text_col x = unat x div 2 * 2 + 1"

text \<open>The column that \<open>OLED_Set_Pos\<close> selects is always odd.\<close>

lemma pos_commands:
  assumes "unat (x :: 8 word) < 128"
  shows "drop_bit 4 (x AND 0xf0) OR 0x10 = 0x10 + of_nat (unat x div 16)" (is ?A)
    and "(x AND 0x0f) OR 0x01 = of_nat (unat x mod 16 div 2 * 2 + 1)" (is ?B)
proof -
  have all: "list_all (\<lambda>n. drop_bit 4 ((of_nat n :: 8 word) AND 0xf0) OR 0x10 = 0x10 + of_nat (n div 16)
      \<and> ((of_nat n :: 8 word) AND 0x0f) OR 0x01 = of_nat (n mod 16 div 2 * 2 + 1)) [0..<128]"
    by code_simp
  from assms have "unat x \<in> set [0..<128]" by simp
  with all have "drop_bit 4 ((of_nat (unat x) :: 8 word) AND 0xf0) OR 0x10 = 0x10 + of_nat (unat x div 16)
      \<and> ((of_nat (unat x) :: 8 word) AND 0x0f) OR 0x01 = of_nat (unat x mod 16 div 2 * 2 + 1)"
    unfolding list_all_iff by blast
  then show ?A ?B by simp_all
qed

lemma panel_page:
  assumes "page_panel P" and "y < 8"
  shows "page_of P (on_cmd P (0xb0 + of_nat y) p) = y"
    and "cell_of P (on_cmd P (0xb0 + of_nat y) p) = cell_of P p"
  using assms by (simp_all only: page_panel_def)

lemma panel_low:
  assumes "page_panel P" and "n < 16"
  shows "page_of P (on_cmd P (of_nat n) p) = page_of P p"
    and "col_of P (on_cmd P (of_nat n) p) = col_of P p div 16 * 16 + n"
    and "cell_of P (on_cmd P (of_nat n) p) = cell_of P p"
  using assms by (simp_all only: page_panel_def)

lemma panel_high:
  assumes "page_panel P" and "n < 8"
  shows "page_of P (on_cmd P (0x10 + of_nat n) p) = page_of P p"
    and "col_of P (on_cmd P (0x10 + of_nat n) p) = n * 16 + col_of P p mod 16"
    and "cell_of P (on_cmd P (0x10 + of_nat n) p) = cell_of P p"
  using assms by (simp_all only: page_panel_def)

lemma run_pos:
  assumes P: "page_panel P" and y: "unat y < 8" and x: "unat x < 128"
  shows "page_of P (panel_run P (pos_bytes x y) p) = unat y"
    and "col_of P (panel_run P (pos_bytes x y) p) = text_col x"
    and "cell_of P (panel_run P (pos_bytes x y) p) = cell_of P p"
proof -
  define p1 where "p1 = on_cmd P (0xb0 + of_nat (unat y)) p"
  define p2 where "p2 = on_cmd P (0x10 + of_nat (unat x div 16)) p1"
  define n where "n = unat x mod 16 div 2 * 2 + 1"
  have run: "panel_run P (pos_bytes x y) p = on_cmd P (of_nat n) p2"
    by (simp only: pos_bytes_def panel_run_Cons pos_commands [OF x] p1_def p2_def n_def) simp
  from x have h: "unat x div 16 < 8" by simp
  have n: "n < 16" unfolding n_def by presburger
  note p1 = panel_page [OF P y, of p, folded p1_def]
  note p2 = panel_high [OF P h, of p1, folded p2_def]
  note p3 = panel_low [OF P n, of p2]
  have split: "b div 16 * 16 + b mod 16 div 2 * 2 = b div 2 * 2" for b :: nat
    by presburger
  have "(unat x div 16 * 16 + col_of P p1 mod 16) div 16 = unat x div 16" by simp
  with split [of "unat x"] have c: "col_of P p2 div 16 * 16 + n = text_col x"
    by (simp add: p2(2) n_def text_col_def)
  from c show "page_of P (panel_run P (pos_bytes x y) p) = unat y"
    "col_of P (panel_run P (pos_bytes x y) p) = text_col x"
    "cell_of P (panel_run P (pos_bytes x y) p) = cell_of P p"
    unfolding run by (simp_all add: p1 p2 p3)
qed

lemma run_dat1:
  assumes "page_panel P"
  shows "page_of P (on_dat P d p) = page_of P p" and "col_of P (on_dat P d p) = (col_of P p + 1) mod 128"
    and "cell_of P (on_dat P d p) = write_row (page_of P p) (col_of P p) [d] (cell_of P p)"
  using assms by (auto simp: page_panel_def write_row_def fun_eq_iff)

text \<open>Data that does not reach the end of the row.\<close>

lemma run_data:
  assumes P: "page_panel P" and "col_of P p + length ds \<le> 128"
  shows "cell_of P (panel_run P (map (Pair True) ds) p) = write_row (page_of P p) (col_of P p) ds (cell_of P p)"
  using assms(2)
proof (induction ds arbitrary: p)
  case Nil
  then show ?case by simp
next
  case (Cons d ds)
  show ?case
  proof (cases ds)
    case Nil
    then show ?thesis by (simp add: run_dat1 [OF P])
  next
    case (Cons d' ds')
    with Cons.prems have c: "col_of P (on_dat P d p) = col_of P p + 1"
      by (simp add: run_dat1 [OF P])
    with Cons.prems have "col_of P (on_dat P d p) + length ds \<le> 128" by simp
    from Cons.IH [OF this] c show ?thesis
      using write_row_append [of "page_of P p" "col_of P p" "[d]" ds "cell_of P p"]
      by (simp add: run_dat1 [OF P])
  qed
qed

text \<open>Data that fills a whole row, wherever it starts.\<close>

lemma run_fill:
  assumes P: "page_panel P"
  shows "page_of P (panel_run P (replicate n (True, b)) p) = page_of P p
    \<and> col_of P (panel_run P (replicate n (True, b)) p) mod 128 = (col_of P p + n) mod 128
    \<and> cell_of P (panel_run P (replicate n (True, b)) p)
      = (\<lambda>r k. if r = page_of P p \<and> (\<exists>j<n. k = (col_of P p + j) mod 128) then b else cell_of P p r k)"
proof (induction n)
  case 0
  then show ?case by simp
next
  case (Suc n)
  let ?q = "panel_run P (replicate n (True, b)) p"
  have run: "panel_run P (replicate (Suc n) (True, b)) p = on_dat P b ?q"
  proof -
    have "replicate (Suc n) (True, b) = replicate n (True, b) @ [(True, b)]" by (simp add: replicate_append_same)
    then show ?thesis by (simp only: panel_run_append) simp
  qed
  have lt: "col_of P ?q < 128" using P by (simp add: page_panel_def)
  with Suc.IH have c: "col_of P ?q = (col_of P p + n) mod 128" by simp
  from P have d: "cell_of P (on_dat P b ?q) = (\<lambda>r k. if r = page_of P ?q \<and> k = col_of P ?q then b else cell_of P ?q r k)"
    unfolding page_panel_def by blast
  show ?case
    unfolding run using Suc.IH
    by (auto simp: d c run_dat1(1,2) [OF P] less_Suc_eq mod_simps fun_eq_iff)
qed

subsection \<open>Clearing\<close>

definition clear_rows :: "nat set \<Rightarrow> 8 word \<Rightarrow> (nat \<Rightarrow> nat \<Rightarrow> 8 word) \<Rightarrow> nat \<Rightarrow> nat \<Rightarrow> 8 word" where
  "clear_rows rs b m = (\<lambda>r k. if r \<in> rs \<and> k < 128 then b else m r k)"

lemma all_columns: "(\<exists>j<128. k = (c + j) mod 128) \<longleftrightarrow> k < (128 :: nat)"
proof
  assume k: "k < 128"
  define m where "m = c mod 128"
  define j where "j = (if m \<le> k then k - m else k + 128 - m)"
  have m: "m < 128" by (simp add: m_def)
  with k have j: "j < 128" "m + j = k \<or> m + j = k + 128" by (auto simp: j_def)
  have "(c + j) mod 128 = (m + j) mod 128" by (simp add: m_def mod_simps)
  with j(2) k have "k = (c + j) mod 128" by auto
  with j(1) show "\<exists>j<128. k = (c + j) mod 128" by blast
qed auto

lemma run_fill_page:
  assumes P: "page_panel P" and y: "y < 8"
  shows "cell_of P (panel_run P (fill_bytes b y) p) = clear_rows {y} b (cell_of P p)"
proof -
  define p1 where "p1 = on_cmd P (0xb0 + of_nat y) p"
  define p3 where "p3 = on_cmd P 0x10 (on_cmd P 0x01 p1)"
  note p1 = panel_page [OF P y, of p, folded p1_def]
  have p3: "page_of P p3 = y" "cell_of P p3 = cell_of P p"
    using panel_low [OF P, of 1] panel_high [OF P, of 0] by (simp_all add: p3_def p1)
  have "panel_run P (fill_bytes b y) p = panel_run P (replicate 128 (True, b)) p3"
    by (simp add: fill_bytes_def p1_def p3_def del: replicate.simps)
  with run_fill [OF P, of 128 b p3] show ?thesis
    by (simp add: p3 all_columns clear_rows_def fun_eq_iff)
qed

lemma run_fill_pages:
  assumes P: "page_panel P" and "\<forall>y\<in>set ys. y < 8"
  shows "cell_of P (panel_run P (concat (map (fill_bytes b) ys)) p) = clear_rows (set ys) b (cell_of P p)"
  using assms(2)
proof (induction ys arbitrary: p)
  case Nil
  then show ?case by (simp add: clear_rows_def)
next
  case (Cons y ys)
  then show ?case
    by (simp add: run_fill_page [OF P]) (auto simp: clear_rows_def fun_eq_iff)
qed

lemma OLED_Fill_fills:
  assumes P: "page_panel P" and r: "rx_count r = 0"
  shows "shows_after P (OLED_Fill b) r p = clear_rows {0..<8} b (cell_of P p)"
  using sends_Fill [of b] r run_fill_pages [OF P, of "[0..<8]" b p]
  by (simp add: sends_def shows_after_def del: upt_rec_numeral)

lemma OLED_CLS_clears:
  assumes P: "page_panel P" and r: "rx_count r = 0"
  shows "shows_after P OLED_CLS r p = clear_rows {0..<8} 0 (cell_of P p)"
  using OLED_Fill_fills [OF assms, of 0] by (simp add: OLED_CLS_def OLED_Fill_def)

subsection \<open>A line of text\<close>

definition glyph6 :: "8 word \<Rightarrow> 8 word list" where
  "glyph6 c = F6x8 ! unat (c - 32)"

definition printable :: "8 word \<Rightarrow> bool" where
  "printable c \<longleftrightarrow> 32 \<le> unat c \<and> unat c < 124"

definition fits6 :: "8 word \<Rightarrow> 8 word \<Rightarrow> 8 word list \<Rightarrow> bool" where
  "fits6 x y t \<longleftrightarrow> unat y < 8 \<and> unat x + 6 * length t \<le> 127 \<and> list_all printable t"

lemma printable_index: "printable c \<Longrightarrow> c \<noteq> 0 \<and> unat (c - 32) < 92"
  by (auto simp: printable_def unat_sub word_le_nat_alt)

lemma glyph6_length: "printable c \<Longrightarrow> length (glyph6 c) = 6"
  using F6x8_rows printable_index [of c] by (simp add: glyph6_def list_all_length)

fun text_bytes :: "8 word \<Rightarrow> 8 word \<Rightarrow> 8 word list \<Rightarrow> received" where
  "text_bytes x y [] = []"
| "text_bytes x y (c # t) = pos_bytes x y @ map (Pair True) (glyph6 c) @ text_bytes (x + 6) y t"

lemma unat_plus6: "unat (x :: 8 word) \<le> 121 \<Longrightarrow> unat (x + 6) = unat x + 6"
  by (simp add: unat_word_ariths)

lemma sends_glyph:
  assumes "printable c"
  shows "sends (concat (map (\<lambda>i. OLED_WrDat (F6x8 ! unat (c - 32) ! i)) [0..<6])) (map (Pair True) (glyph6 c))"
proof -
  have "sends (concat (map (\<lambda>i. OLED_WrDat (F6x8 ! unat (c - 32) ! i)) [0..<6]))
      (concat (map (\<lambda>i. [(True, F6x8 ! unat (c - 32) ! i)]) [0..<6]))"
    by (rule sends_concat) (rule oled_sends)
  also have "concat (map (\<lambda>i. [(True, F6x8 ! unat (c - 32) ! i)]) [0..<6]) = map (Pair True) (map ((!) (glyph6 c)) [0..<6])"
    by (simp add: glyph6_def)
  also have "map ((!) (glyph6 c)) [0..<6] = glyph6 c"
    using map_nth [of "glyph6 c"] glyph6_length [OF assms] by simp
  finally show ?thesis .
qed

lemma p6x8_loop_text:
  assumes "unat y < 8" and "unat x + 6 * length t \<le> 127" and "list_all printable t" and "length pre + length t < 256"
  shows "\<exists>o2. p6x8_loop (pre @ t @ [0]) x y (of_nat (length pre)) out = Some (Drawn (out @ o2))
    \<and> sends o2 (text_bytes x y t)"
  using assms
proof (induction t arbitrary: pre x out)
  case Nil
  then have "unat (of_nat (length pre) :: 8 word) = length pre" by (simp add: unat_of_nat)
  then show ?case
    by (subst p6x8_loop.simps) (auto intro: oled_sends)
next
  case (Cons c t)
  let ?j = "of_nat (length pre) :: 8 word"
  let ?g = "OLED_Set_Pos x y @ concat (map (\<lambda>i. OLED_WrDat (F6x8 ! unat (c - 32) ! i)) [0..<6])"
  from Cons.prems have j: "unat ?j = length pre" by (simp add: unat_of_nat)
  from Cons.prems have c: "printable c" by simp
  from Cons.prems have x: "unat x \<le> 121" by simp
  then have x': "\<not> x > 126" by (simp add: word_less_nat_alt)
  have step: "p6x8_loop (pre @ (c # t) @ [0]) x y ?j out = p6x8_loop (pre @ (c # t) @ [0]) (x + 6) y (?j + 1) (out @ ?g)"
    using printable_index [OF c] x'
    by (subst p6x8_loop.simps) (simp add: j Let_def del: upt_rec_numeral)
  have "\<exists>o2. p6x8_loop ((pre @ [c]) @ t @ [0]) (x + 6) y (of_nat (length (pre @ [c]))) (out @ ?g) = Some (Drawn ((out @ ?g) @ o2))
      \<and> sends o2 (text_bytes (x + 6) y t)"
    using Cons.prems unat_plus6 [OF x] by (intro Cons.IH) auto
  then obtain o2 where rest: "p6x8_loop (pre @ (c # t) @ [0]) (x + 6) y (?j + 1) (out @ ?g) = Some (Drawn (out @ ?g @ o2))"
      and s: "sends o2 (text_bytes (x + 6) y t)"
    by (auto simp: add.commute)
  have "sends (OLED_Set_Pos x y @ concat (map (\<lambda>i. OLED_WrDat (F6x8 ! unat (c - 32) ! i)) [0..<6]) @ o2)
      (pos_bytes x y @ map (Pair True) (glyph6 c) @ text_bytes (x + 6) y t)"
    by (intro sends_append sends_Set_Pos sends_glyph [OF c] s)
  with step rest show ?case
    by (intro exI [of _ "?g @ o2"]) simp
qed

lemma OLED_P6x8Str_sends:
  assumes "fits6 x y t"
  obtains out where "OLED_P6x8Str x y (t @ [0]) = Some (Drawn out)" and "sends out (text_bytes x y t)"
  using p6x8_loop_text [of y x t "[]" "[]"] assms by (auto simp: fits6_def OLED_P6x8Str_def)

lemma run_text:
  assumes P: "page_panel P"
  shows "unat y < 8 \<Longrightarrow> unat x + 6 * length t \<le> 127 \<Longrightarrow> list_all printable t \<Longrightarrow>
    cell_of P (panel_run P (text_bytes x y t) p)
      = write_row (unat y) (text_col x) (concat (map glyph6 t)) (cell_of P p)"
proof (induction t arbitrary: x p)
  case Nil
  then show ?case by simp
next
  case (Cons c t)
  let ?p1 = "panel_run P (pos_bytes x y) p"
  let ?p2 = "panel_run P (map (Pair True) (glyph6 c)) ?p1"
  from Cons.prems have x: "unat x < 128" "unat x \<le> 121" and c: "printable c" by auto
  note pos = run_pos [OF P \<open>unat y < 8\<close> x(1), of p]
  have "col_of P ?p1 + length (glyph6 c) \<le> 128"
    using x(2) by (simp add: pos glyph6_length [OF c] text_col_def)
  from run_data [OF P this] have p2: "cell_of P ?p2 = write_row (unat y) (text_col x) (glyph6 c) (cell_of P p)"
    by (simp add: pos)
  have col: "text_col (x + 6) = text_col x + length (glyph6 c)"
    unfolding text_col_def unat_plus6 [OF x(2)] glyph6_length [OF c] by presburger
  have "cell_of P (panel_run P (text_bytes (x + 6) y t) ?p2)
      = write_row (unat y) (text_col (x + 6)) (concat (map glyph6 t)) (cell_of P ?p2)"
    using Cons.prems unat_plus6 [OF x(2)] by (intro Cons.IH) auto
  then show ?case
    by (simp add: p2 col write_row_app)
qed


text \<open>A panel: its page, its column and its memory; other commands do nothing.\<close>

definition ex_panel :: "(nat \<times> nat \<times> (nat \<Rightarrow> nat \<Rightarrow> 8 word)) panel" where
  "ex_panel = \<lparr>
     on_cmd = (\<lambda>c (r, k, m).
       if unat c < 16 then (r, k mod 128 div 16 * 16 + unat c, m)
       else if unat c < 24 then (r, (unat c - 16) * 16 + k mod 16, m)
       else if 176 \<le> unat c \<and> unat c < 184 then (unat c - 176, k, m)
       else (r, k, m)),
     on_dat = (\<lambda>d (r, k, m). (r, (k + 1) mod 128, \<lambda>r' k'. if r' = r \<and> k' = k mod 128 then d else m r' k')),
     page_of = fst, col_of = (\<lambda>(r, k, m). k mod 128), cell_of = (\<lambda>(r, k, m). m)\<rparr>"

lemma ex_panel_ok: "page_panel ex_panel"
proof -
  have b: "unat (0xb0 + of_nat n :: 8 word) = 176 + n" if "n < 8" for n
    using that by (simp add: unat_word_ariths unat_of_nat)
  have h: "unat (0x10 + of_nat n :: 8 word) = 16 + n" if "n < 8" for n
    using that by (simp add: unat_word_ariths unat_of_nat)
  have l: "unat (of_nat n :: 8 word) = n" if "n < 16" for n
    using that by (simp add: unat_of_nat)
  have k: "(k mod 128 div 16 * 16 + n) mod 128 = k mod 128 div 16 * 16 + n" if "n < 16" for k n :: nat
  proof (rule mod_less)
    have "k mod 128 div 16 < 8" by (rule less_mult_imp_div_less) simp
    with that show "k mod 128 div 16 * 16 + n < 128" by linarith
  qed
  show ?thesis
    unfolding page_panel_def by (auto simp: ex_panel_def b h l k mod_simps mod_mod_cancel fun_eq_iff)
qed

definition ex_receiver :: receiver where
  "ex_receiver = \<lparr>rx_scl = True, rx_sda = False, rx_dc = False, rx_reg = 0, rx_count = 0\<rparr>"


subsection \<open>Numbers\<close>

lemma digits10_printable: "list_all printable (digits10 n)"
proof (induction n rule: digits10.induct)
  case (1 n)
  have "printable (of_nat (48 + k))" if "k < 10" for k :: nat
    using that by (simp add: printable_def unat_of_nat del: of_nat_add)
  with 1 show ?case
    by (subst digits10.simps) (simp del: of_nat_add)
qed

lemma digits10_length: "n < 10 ^ k \<Longrightarrow> 0 < k \<Longrightarrow> length (digits10 n) \<le> k"
proof (induction k arbitrary: n)
  case 0
  then show ?case by simp
next
  case (Suc k)
  show ?case
  proof (cases "n < 10")
    case True
    then show ?thesis by (subst digits10.simps) simp
  next
    case False
    have "n div 10 < 10 ^ k" using Suc.prems by (simp add: less_mult_imp_div_less mult.commute)
    moreover from this False have "0 < k" by (cases k) auto
    ultimately have "length (digits10 (n div 10)) \<le> k" by (rule Suc.IH)
    with False show ?thesis by (subst digits10.simps) simp
  qed
qed

lemma number_text_printable: "list_all printable (number_text n)"
proof -
  have "printable 32" "printable 45" by (simp_all add: printable_def)
  then show ?thesis
    using digits10_printable by (auto simp: number_text_def Let_def list_all_iff)
qed

lemma number_text_length:
  assumes "- (10 ^ k) < n" and "n < 10 ^ Suc k" and "4 \<le> k"
  shows "length (number_text n) \<le> Suc k"
proof (cases "n < 0")
  case True
  with assms(1) have "nat (- n) < 10 ^ k" by (simp add: nat_less_iff)
  with digits10_length [of "nat (- n)" k] assms(3) True show ?thesis
    by (simp add: number_text_def Let_def)
next
  case False
  with assms(2) have "nat n < 10 ^ Suc k" by (simp add: nat_less_iff)
  with digits10_length [of "nat n" "Suc k"] assms(3) False show ?thesis
    by (simp add: number_text_def Let_def)
qed

text \<open>A number shown at column 70 fits when it has at most nine characters.\<close>

lemma number_fits:
  assumes "unat y < 8" and "unat x \<le> 73" and "- (10 ^ 8) < n" and "n < 10 ^ 9"
  shows "fits6 x y (number_text n)"
  using assms number_text_length [of 8 n] number_text_printable [of n] by (simp add: fits6_def)

lemma sint_of_int32: "- (2 ^ 31) \<le> n \<Longrightarrow> n < 2 ^ 31 \<Longrightarrow> sint (word_of_int n :: 32 word) = n"
  by (simp add: sint_sbintrunc' signed_take_bit_int_eq_self)

lemma Write_Number_text:
  assumes "- (2 ^ 31) \<le> n" and "n < 2 ^ 31"
  shows "LCD_Write_Number x y (word_of_int n) = OLED_P6x8Str x y (number_text n @ [0])"
  using sint_of_int32 [OF assms] by (simp add: LCD_Write_Number_def sprintf5_def)

subsection \<open>Where the driver goes wrong\<close>

text \<open>
  The test for the end of a row, \<open>x > 126\<close>, is that of a font of one column: a letter at column 126 has
  one column on the right edge and five at the left edge of the same row.
\<close>

lemma letter_wraps:
  assumes P: "page_panel P" and c: "printable c" and y: "unat y < 8"
  shows "cell_of P (panel_run P (text_bytes 126 y [c]) p)
    = write_row (unat y) 0 (tl (glyph6 c)) (write_row (unat y) 127 [hd (glyph6 c)] (cell_of P p))"
proof -
  let ?p1 = "panel_run P (pos_bytes 126 y) p"
  have "unat (126 :: 8 word) < 128" by simp
  note pos = run_pos [OF P y this, of p]
  obtain d ds where g: "glyph6 c = d # ds" "length ds = 5"
    using glyph6_length [OF c] by (cases "glyph6 c") auto
  have p2: "page_of P (on_dat P d ?p1) = unat y" "col_of P (on_dat P d ?p1) = 0"
    "cell_of P (on_dat P d ?p1) = write_row (unat y) 127 [d] (cell_of P p)"
    by (simp_all add: run_dat1 [OF P] pos text_col_def)
  then show ?thesis
    using run_data [OF P, of "on_dat P d ?p1" ds] g by simp
qed

text \<open>A side of a rectangle that reaches column 255, and a picture whose last page is 255, never end.\<close>

lemma rectangle_side_255: "rectangle_side n 255 b gif ms out = None"
proof -
  have "x2 \<noteq> 255" if "rectangle_side n x2 b gif ms out = Some o2" for x2 o2
  proof (rule rectangle_side.raw_induct [where P = "\<lambda>n x2 b gif ms out o2. x2 \<noteq> 255", OF _ that])
    fix rec and n x2 b gif :: "8 word" and ms out o2
    assume IH: "\<And>n x2 b gif ms out o2. rec n x2 b gif ms out = Some o2 \<Longrightarrow> x2 \<noteq> (255 :: 8 word)"
      and o2: "(if n \<le> x2
        then rec (n + 1) x2 b gif ms (out @ OLED_WrDat b @ (if gif = 1 then OLED_DLY_ms ms else []))
        else Some out) = Some o2"
    show "x2 \<noteq> 255"
    proof
      assume x2: "x2 = 255"
      have "n \<le> 255" using unat_less_256 [of n] by (simp add: word_le_nat_alt)
      with o2 x2 have "rec (n + 1) x2 b gif ms (out @ OLED_WrDat b @ (if gif = 1 then OLED_DLY_ms ms else [])) = Some o2"
        by simp
      from IH [OF this] x2 show False by simp
    qed
  qed
  then show ?thesis by (cases "rectangle_side n 255 b gif ms out") auto
qed

text \<open>The index into a string is a \<open>u8\<close>: a text of 256 letters or more is drawn for ever.\<close>

lemma P6x8Str_never_ends:
  assumes "256 \<le> length ch" and "\<forall>i < 256. printable (ch ! i)"
  shows "OLED_P6x8Str x y ch = None"
proof -
  have ends: "\<not> (256 \<le> length ch \<and> (\<forall>i < 256. printable (ch ! i)))"
    if "p6x8_loop ch x y j out = Some res" for ch x y j out res
  proof (rule p6x8_loop.raw_induct [where P = "\<lambda>ch x y j out res. \<not> (256 \<le> length ch \<and> (\<forall>i < 256. printable (ch ! i)))"
        and xa = "((((ch, x), y), j), out)" and ya = res, unfolded prod.case, OF _ that])
    fix rec and ch :: "8 word list" and x y j :: "8 word" and out res
    assume IH: "\<And>ch x y j out res. rec ch x y j out = Some res \<Longrightarrow>
        \<not> (256 \<le> length ch \<and> (\<forall>i < 256. printable (ch ! i)))"
      and body: "(if unat j < length ch
          then (if ch ! unat j = 0 then Some (Drawn out)
                else (let c = ch ! unat j - 32; y = (if x > 126 then y + 1 else y); x = (if x > 126 then 0 else x)
                      in if unat c < length F6x8
                         then rec ch (x + 6) y (j + 1)
                                (out @ OLED_Set_Pos x y @ concat (map (\<lambda>i. OLED_WrDat (F6x8 ! unat c ! i)) [0..<6]))
                         else Some Out_Of_Array))
          else Some Out_Of_Array) = Some res"
    show "\<not> (256 \<le> length ch \<and> (\<forall>i < 256. printable (ch ! i)))"
    proof
      assume asm: "256 \<le> length ch \<and> (\<forall>i < 256. printable (ch ! i))"
      then have "printable (ch ! unat j)" using unat_less_256 [of j] by simp
      from printable_index [OF this] asm unat_less_256 [of j] body obtain x' y' out' where
        "rec ch x' y' (j + 1) out' = Some res"
        by (auto simp: Let_def simp del: upt_rec_numeral)
      from IH [OF this] asm show False by simp
    qed
  qed
  show ?thesis
    unfolding OLED_P6x8Str_def using ends [of ch x y 0 "[]"] assms by (cases "p6x8_loop ch x y 0 []") auto
qed

text \<open>A character that is not in the font: the index moves by three, past the end of the array of the call.\<close>

lemma f14_find_absent:
  assumes "ch ! unat ii = hi" and "\<forall>j < 20. F14x16_Idx ! (2 * j) \<noteq> hi"
  shows "f14_find ch ii (2 * j) = Some 1"
proof (induction "20 - j" arbitrary: j)
  case 0
  then have "\<not> 2 * j + 1 < length F14x16_Idx" by simp
  then show ?case by (subst f14_find.simps) simp
next
  case (Suc m)
  have "f14_find ch ii (2 * j + 2) = Some 1" using Suc.hyps(1) [of "Suc j"] Suc.hyps(2) by simp
  with assms Suc.hyps(2) show ?case by (subst f14_find.simps) simp
qed

lemma P14x16Str_unknown:
  assumes "hi \<noteq> 0" and "\<forall>j < 20. F14x16_Idx ! (2 * j) \<noteq> hi"
  shows "OLED_P14x16Str x y [hi, lo, 0] = Some Out_Of_Array"
  using assms f14_find_absent [of "[hi, lo, 0]" 0 hi 0]
  by (simp add: OLED_P14x16Str_def p14x16_loop.simps [of _ _ _ 0] p14x16_loop.simps [of _ _ _ 3] Let_def)

lemma OLED_Print_unknown:
  assumes "hi > 127" and "\<forall>j < 20. F14x16_Idx ! (2 * j) \<noteq> hi"
  shows "OLED_Print x y (hi # lo # t) = Some Out_Of_Array"
proof -
  from assms(1) have "hi \<noteq> 0" by auto
  with P14x16Str_unknown [OF this assms(2), of x y lo] assms(1) show ?thesis
    by (simp add: OLED_Print_def print_loop.simps [of _ _ _ 0])
qed

text \<open>The product of \<open>Dly_ms\<close> overflows: 5462 milliseconds are two thirds of one.\<close>

lemma Dly_ms_wraps: "Dly_ms 5462 = [Spin (8 * 1335)]"
  by (simp add: Dly_ms_def)

text \<open>The first command of \<open>OLED_PutPixel\<close> takes the row of pixels for a page: row 35 is the command that shifts the picture.\<close>

lemma PutPixel_first_command:
  "sends (OLED_PutPixel x 35)
     ([(False, 0xd3), (False, drop_bit 4 (x AND 0xf0) OR 0x10), (False, (x AND 0x0f) OR 0x01)]
      @ [(False, 0xb4)] @ [(False, drop_bit 4 (x AND 0xf0) OR 0x10)] @ [(False, (x AND 0x0f) OR 0x00)] @ [(True, 0x08)])"
proof -
  have "sends (OLED_PutPixel x 35)
      (pos_bytes x 35 @ [(False, 0xb0 + drop_bit 3 35)] @ [(False, drop_bit 4 (x AND 0xf0) OR 0x10)]
       @ [(False, (x AND 0x0f) OR 0x00)] @ [(True, push_bit (unat (35 :: 8 word) mod 8) 0x01)])"
    unfolding OLED_PutPixel_def by (intro oled_sends)
  then show ?thesis by (simp add: pos_bytes_def)
qed

end
