(* ===== verification/OLED_Screens.thy ===== *)
theory OLED_Screens
  imports App_UI OLED_Text
begin

text \<open>
  The screens of the menu on the display: the calls of the driver that the screens make
  (\<open>App_UI\<close>), run by the driver (\<open>OLED_Driver\<close>), against what the panel is to show.  The strings and
  numbers that the screens draw fit their lines, so the panel shows all of them.
\<close>

definition chars :: "string \<Rightarrow> 8 word list" where
  "chars s = map of_char s"

fun oled_exec :: "oled_cmd \<Rightarrow> drawn option" where
  "oled_exec Cmd_CLS = Some (Drawn OLED_CLS)"
| "oled_exec (Cmd_P6x8Str x y s) = OLED_P6x8Str (of_nat x) (of_nat y) (chars s @ [0])"
| "oled_exec (Cmd_Write_Number x y n) = LCD_Write_Number (of_nat x) (of_nat y) (word_of_int n)"

text \<open>One call after another.\<close>

fun oled_run :: "oled_cmd list \<Rightarrow> drawn option" where
  "oled_run [] = Some (Drawn [])"
| "oled_run (c # cs) =
     (case oled_exec c of
        None \<Rightarrow> None
      | Some Out_Of_Array \<Rightarrow> Some Out_Of_Array
      | Some (Drawn out) \<Rightarrow>
          (case oled_run cs of
             None \<Rightarrow> None
           | Some Out_Of_Array \<Rightarrow> Some Out_Of_Array
           | Some (Drawn out') \<Rightarrow> Some (Drawn (out @ out'))))"

subsection \<open>What the panel is to show\<close>

definition text_at :: "nat \<Rightarrow> nat \<Rightarrow> 8 word list \<Rightarrow> (nat \<Rightarrow> nat \<Rightarrow> 8 word) \<Rightarrow> nat \<Rightarrow> nat \<Rightarrow> 8 word" where
  "text_at x y t = write_row y (x div 2 * 2 + 1) (concat (map glyph6 t))"

fun cmd_shows :: "oled_cmd \<Rightarrow> (nat \<Rightarrow> nat \<Rightarrow> 8 word) \<Rightarrow> nat \<Rightarrow> nat \<Rightarrow> 8 word" where
  "cmd_shows Cmd_CLS = clear_rows {0..<8} 0"
| "cmd_shows (Cmd_P6x8Str x y s) = text_at x y (chars s)"
| "cmd_shows (Cmd_Write_Number x y n) = text_at x y (number_text n)"

definition cmds_show :: "oled_cmd list \<Rightarrow> (nat \<Rightarrow> nat \<Rightarrow> 8 word) \<Rightarrow> nat \<Rightarrow> nat \<Rightarrow> 8 word" where
  "cmds_show cs = fold cmd_shows cs"

text \<open>A text of a command fits: printable characters, on a row of the panel, up to its last column.\<close>

definition text_fits :: "nat \<Rightarrow> nat \<Rightarrow> 8 word list \<Rightarrow> bool" where
  "text_fits x y t \<longleftrightarrow> y < 8 \<and> x + 6 * length t \<le> 127 \<and> list_all printable t"

fun cmd_fits :: "oled_cmd \<Rightarrow> bool" where
  "cmd_fits Cmd_CLS = True"
| "cmd_fits (Cmd_P6x8Str x y s) = text_fits x y (chars s)"
| "cmd_fits (Cmd_Write_Number x y n) = (text_fits x y (number_text n) \<and> - (2 ^ 31) \<le> n \<and> n < 2 ^ 31)"

lemma text_fits_fits6:
  assumes "text_fits x y t"
  shows "fits6 (of_nat x) (of_nat y) t" and "unat (of_nat x :: 8 word) = x" and "unat (of_nat y :: 8 word) = y"
  using assms by (auto simp: text_fits_def fits6_def unat_of_nat)

lemma text_shows:
  assumes P: "page_panel P" and fits: "text_fits x y t"
  obtains out bs where "OLED_P6x8Str (of_nat x) (of_nat y) (t @ [0]) = Some (Drawn out)" and "sends out bs"
    and "\<And>p. cell_of P (panel_run P bs p) = text_at x y t (cell_of P p)"
proof -
  note f = text_fits_fits6 [OF fits]
  obtain out where out: "OLED_P6x8Str (of_nat x) (of_nat y) (t @ [0]) = Some (Drawn out)"
      "sends out (text_bytes (of_nat x) (of_nat y) t)"
    by (rule OLED_P6x8Str_sends [OF f(1)])
  have "cell_of P (panel_run P (text_bytes (of_nat x) (of_nat y) t) p) = text_at x y t (cell_of P p)" for p
  proof -
    from f(1) have y: "unat (of_nat y :: 8 word) < 8" and x: "unat (of_nat x :: 8 word) + 6 * length t \<le> 127"
      and t: "list_all printable t"
      unfolding fits6_def by simp_all
    show ?thesis
      unfolding run_text [OF P y x t] text_at_def text_col_def f(2) f(3) by (rule refl)
  qed
  with out show ?thesis by (rule that)
qed

lemma cmd_shown:
  assumes P: "page_panel P" and fits: "cmd_fits c"
  shows "\<exists>out bs. oled_exec c = Some (Drawn out) \<and> sends out bs
    \<and> (\<forall>p. cell_of P (panel_run P bs p) = cmd_shows c (cell_of P p))"
proof (cases c)
  case Cmd_CLS
  have "cell_of P (panel_run P (concat (map (fill_bytes 0) [0..<8])) p) = clear_rows {0..<8} 0 (cell_of P p)" for p
    using run_fill_pages [OF P, of "[0..<8]" 0 p] by (simp del: upt_rec_numeral)
  with sends_CLS show ?thesis unfolding Cmd_CLS oled_exec.simps cmd_shows.simps by blast
next
  case (Cmd_P6x8Str x y s)
  with fits have "text_fits x y (chars s)" by simp
  from text_shows [OF P this] show ?thesis unfolding Cmd_P6x8Str oled_exec.simps cmd_shows.simps by metis
next
  case (Cmd_Write_Number x y n)
  with fits have f: "text_fits x y (number_text n)" and n: "- (2 ^ 31) \<le> n" "n < 2 ^ 31" by simp_all
  from text_shows [OF P f] show ?thesis
    unfolding Cmd_Write_Number oled_exec.simps cmd_shows.simps Write_Number_text [OF n] by metis
qed

lemma cmds_shown:
  assumes P: "page_panel P"
  shows "list_all cmd_fits cs \<Longrightarrow>
    \<exists>out bs. oled_run cs = Some (Drawn out) \<and> sends out bs
      \<and> (\<forall>p. cell_of P (panel_run P bs p) = cmds_show cs (cell_of P p))"
proof (induction cs)
  case Nil
  have "sends [] []" by (rule oled_sends)
  then show ?case by (auto simp: cmds_show_def intro!: exI [of _ "[]"])
next
  case (Cons c cs)
  have "cmd_fits c" using Cons by simp
  from cmd_shown [OF P this] obtain o1 b1 where c: "oled_exec c = Some (Drawn o1)" "sends o1 b1"
      "\<And>p. cell_of P (panel_run P b1 p) = cmd_shows c (cell_of P p)"
    by auto
  from Cons obtain o2 b2 where cs: "oled_run cs = Some (Drawn o2)" "sends o2 b2"
      "\<And>p. cell_of P (panel_run P b2 p) = cmds_show cs (cell_of P p)"
    by auto
  have "sends (o1 @ o2) (b1 @ b2)" by (rule sends_append [OF c(2) cs(2)])
  with c cs show ?case
    by (intro exI [of _ "o1 @ o2"] exI [of _ "b1 @ b2"]) (simp add: cmds_show_def)
qed

lemma cmds_shows_after:
  assumes "page_panel P" and "list_all cmd_fits cs"
  shows "\<exists>out. oled_run cs = Some (Drawn out)
    \<and> (\<forall>r p. rx_count r = 0 \<longrightarrow> shows_after P out r p = cmds_show cs (cell_of P p))"
  using cmds_shown [OF assms] by (auto simp: shows_after_def sends_def)

subsection \<open>Every screen fits\<close>

definition number_shown :: "int \<Rightarrow> bool" where
  "number_shown n \<longleftrightarrow> - (10 ^ 8) < n \<and> n < 10 ^ 9"

definition sensors_shown :: "int \<Rightarrow> sensors \<Rightarrow> bool" where
  "sensors_shown ad_all d \<longleftrightarrow>
     number_shown (ad1 d) \<and> number_shown (ad2 d) \<and> number_shown (ad3 d) \<and> number_shown (ad4 d)
     \<and> number_shown ad_all \<and> pred_option number_shown (f_to_s32 (sum_diff d))"

definition draws_fit :: "int \<Rightarrow> ui_state \<Rightarrow> bool" where
  "draws_fit ad_all s \<longleftrightarrow> list_all cmd_fits (oled s) \<and> sensors_shown ad_all (ui_sensors s)"

lemma draws_fit_show [simp]: "draws_fit a (show_cmds cs s) \<longleftrightarrow> draws_fit a s \<and> list_all cmd_fits cs"
  by (auto simp: draws_fit_def show_cmds_def)

lemma draws_fit_cong: "oled s' = oled s \<Longrightarrow> ui_sensors s' = ui_sensors s \<Longrightarrow> draws_fit a s' = draws_fit a s"
  by (simp add: draws_fit_def)

lemma draws_fit_simps [simp]:
  "draws_fit a (s\<lparr>Arrow := w\<rparr>) = draws_fit a s" "draws_fit a (s\<lparr>speedswitch := b\<rparr>) = draws_fit a s"
  "draws_fit a (s\<lparr>ui_flash := f\<rparr>) = draws_fit a s" "draws_fit a (s\<lparr>ui_settings := st\<rparr>) = draws_fit a s"
  "draws_fit a (pwm chl d s) = draws_fit a s" "draws_fit a (menu_pwm s) = draws_fit a s"
  "draws_fit a (cursor_up s) = draws_fit a s" "draws_fit a (cursor_down s) = draws_fit a s"
  by (rule draws_fit_cong; simp add: pwm_def menu_pwm_def cursor_up_def cursor_down_def Let_def)+

lemma draws_fit_max_min [simp]: "draws_fit a (s\<lparr>ui_sensors := max_min (ui_sensors s)\<rparr>) = draws_fit a s"
  by (simp add: draws_fit_def sensors_shown_def max_min_def Let_def)

lemma ui_speedPID_fit: "ui_speedPID s = Some s' \<Longrightarrow> draws_fit a s' = draws_fit a s"
  by (rule draws_fit_cong) (auto simp: ui_speedPID_def)

text \<open>A body keeps it, with an invariant of its own on the locals.\<close>

definition body_draws :: "int \<Rightarrow> ('l \<Rightarrow> bool) \<Rightarrow> (8 word \<Rightarrow> 'l \<Rightarrow> ui_state \<Rightarrow> 'l iter) \<Rightarrow> bool" where
  "body_draws a I body \<longleftrightarrow> (\<forall>k l s. ui_inv s \<and> I l \<and> draws_fit a s \<longrightarrow>
     (case body k l s of Leave r s' \<Rightarrow> draws_fit a s' | Again l' s' \<Rightarrow> I l' \<and> draws_fit a s' | Undefined \<Rightarrow> True))"

definition screen_draws :: "int \<Rightarrow> screen \<Rightarrow> bool" where
  "screen_draws a x = (case x of Returns r ks s \<Rightarrow> draws_fit a s | Waits s \<Rightarrow> draws_fit a s | Undef \<Rightarrow> True)"

lemma wait_loop_draws:
  "body_ok body \<Longrightarrow> body_draws a I body \<Longrightarrow> ui_inv s \<Longrightarrow> I l \<Longrightarrow> draws_fit a s \<Longrightarrow>
     screen_draws a (wait_loop body ks l s)"
proof (induction ks arbitrary: l s)
  case Nil
  then show ?case by (simp add: screen_draws_def)
next
  case (Cons k ks)
  from Cons.prems have "case body k l s of Leave r s' \<Rightarrow> draws_fit a s' | Again l' s' \<Rightarrow> I l' \<and> draws_fit a s' | Undefined \<Rightarrow> True"
    by (simp add: body_draws_def)
  moreover from Cons.prems have "case body k l s of Leave r s' \<Rightarrow> r \<in> screen_ids \<and> ui_inv s' | Again l' s' \<Rightarrow> ui_inv s' | Undefined \<Rightarrow> True"
    by (simp add: body_ok_def)
  ultimately show ?case using Cons.IH Cons.prems(1,2) by (auto simp: screen_draws_def split: iter.splits)
qed

lemmas fits_simps = text_fits_def chars_def printable_def

lemma number_cmd_fits:
  assumes "number_shown n" and "y < 8"
  shows "cmd_fits (Cmd_Write_Number 70 y n)"
proof -
  have "fits6 70 (of_nat y) (number_text n)"
    using assms by (intro number_fits) (simp_all add: number_shown_def unat_of_nat)
  with assms show ?thesis
    by (simp add: fits6_def text_fits_def number_shown_def unat_of_nat)
qed

lemma zero_cmd_fits: "cmd_fits (Cmd_Write_Number 95 0 0)"
  by (auto simp: fits_simps number_text_def digits10.simps list_all_iff)

lemma Menu_draws: "body_draws a (\<lambda>_. True) Menu_UI_body"
  unfolding body_draws_def
proof (intro allI impI)
  fix k l s assume "ui_inv s \<and> True \<and> draws_fit a s"
  then have d: "draws_fit a s" and "Arrow s = 3 \<or> Arrow s = 4 \<or> Arrow s = 5 \<or> Arrow s = 6 \<or> Arrow s = 7"
    by (auto simp: ui_inv_def)
  then show "case Menu_UI_body k l s of Leave r s' \<Rightarrow> draws_fit a s' | Again l' s' \<Rightarrow> True \<and> draws_fit a s' | Undefined \<Rightarrow> True"
    by (elim disjE) (simp_all add: Menu_UI_body_def Let_def fits_simps)
qed

lemma Run_draws: "body_draws a (\<lambda>_. True) Run_UI_body"
  by (auto simp: body_draws_def Run_UI_body_def ui_speedPID_fit fits_simps split: option.split)

lemma State_draws: "body_draws a (\<lambda>_. True) State_UI_body"
  by (simp add: body_draws_def State_UI_body_def Let_def)

lemma Read_draws: "body_draws a (\<lambda>_. True) (Read_UI_body a)"
  unfolding body_draws_def
proof (intro allI impI)
  fix k l s assume "ui_inv s \<and> True \<and> draws_fit a s"
  then have d: "draws_fit a s" and n: "sensors_shown a (ui_sensors s)" by (simp_all add: draws_fit_def)
  have "list_all cmd_fits [Cmd_P6x8Str 10 2 ''ad1'', Cmd_P6x8Str 10 3 ''ad3'', Cmd_P6x8Str 10 4 ''ad2'', Cmd_P6x8Str 10 5 ''ad4'']"
    by (simp add: fits_simps)
  with d n show "case Read_UI_body a k l s of Leave r s' \<Rightarrow> draws_fit a s' | Again l' s' \<Rightarrow> True \<and> draws_fit a s' | Undefined \<Rightarrow> True"
    by (auto simp: Read_UI_body_def Let_def sensors_shown_def number_cmd_fits simp del: cmd_fits.simps split: option.split)
qed

text \<open>The lines of the settings screen: nineteen printable characters, some of them the final zero.\<close>

definition char_ok :: "char \<Rightarrow> bool" where
  "char_ok c \<longleftrightarrow> c = CHR 0x00 \<or> printable (of_char c)"

definition lines_ok :: "string list \<Rightarrow> bool" where
  "lines_ok ls \<longleftrightarrow> length ls = 7 \<and> list_all (\<lambda>t. length t = 19 \<and> list_all char_ok t) ls"

definition set_ok :: "set_ui \<Rightarrow> bool" where
  "set_ok l \<longleftrightarrow> lines_ok (SS l) \<and> unat (SaveSetArrow l) < 8"

lemma list_all_update: "list_all Q xs \<Longrightarrow> Q x \<Longrightarrow> list_all Q (xs[i := x])"
  using set_update_subset_insert [of xs i x] by (auto simp: list_all_iff)

lemma dec_digits_ok: "list_all char_ok (dec_digits n)"
proof (induction n rule: dec_digits.induct)
  case (1 n)
  have all: "list_all (\<lambda>k. char_ok (char_of (48 + k :: nat))) [0..<10]" by code_simp
  have "char_ok (char_of (48 + k))" if "k < 10" for k :: nat
  proof -
    from that have "k \<in> set [0..<10]" by simp
    with all show ?thesis unfolding list_all_iff by blast
  qed
  with 1 show ?case by (subst dec_digits.simps) simp
qed

lemma sprintf4_ok: "sprintf4 n = Some t \<Longrightarrow> length t = 4 \<and> list_all char_ok t"
proof -
  have "char_ok (CHR '' '')" "char_ok (CHR ''-'')" by (simp_all add: char_ok_def printable_def)
  then have "list_all char_ok (dec_string n)" for n
    using dec_digits_ok by (simp add: dec_string_def)
  then show "sprintf4 n = Some t \<Longrightarrow> length t = 4 \<and> list_all char_ok t"
    using \<open>char_ok (CHR '' '')\<close> by (auto simp: sprintf4_def Let_def list_all_iff split: if_splits)
qed

lemma AddNumString_ok:
  assumes "length t = 4 \<and> list_all char_ok t" and "length l = 19 \<and> list_all char_ok l"
  shows "length (AddNumString l t) = 19 \<and> list_all char_ok (AddNumString l t)"
proof -
  have char: "char_ok (t ! i)" if "i < 4" for i
    using assms(1) that by (simp add: list_all_length)
  have "char_ok (CHR 0x00)" by (simp add: char_ok_def)
  moreover have "list_all char_ok (fold (\<lambda>i ss. ss[14 + i := t ! i]) is ss)
      \<and> length (fold (\<lambda>i ss. ss[14 + i := t ! i]) is ss) = length ss"
    if "\<forall>i\<in>set is. i < 4" "list_all char_ok ss" for "is" ss
    using that by (induction "is" arbitrary: ss) (simp_all add: list_all_update char)
  ultimately show ?thesis
    using assms(2) by (simp add: AddNumString_def list_all_update del: upt_rec_numeral)
qed

lemma embed_ok: "embed k v ls = Some ls' \<Longrightarrow> k < 7 \<longrightarrow> lines_ok ls \<longrightarrow> lines_ok ls'"
proof (intro impI)
  assume e: "embed k v ls = Some ls'" and k: "k < 7" and l: "lines_ok ls"
  from e obtain n t where t: "sprintf4 n = Some t" and ls': "ls' = ls[k := AddNumString (ls ! k) t]"
    by (auto simp: embed_def split: bind_splits)
  from k l have "length (ls ! k) = 19 \<and> list_all char_ok (ls ! k)" by (simp add: lines_ok_def list_all_length)
  from AddNumString_ok [OF sprintf4_ok [OF t] this] l show "lines_ok ls'"
    unfolding ls' lines_ok_def by (simp add: list_all_update)
qed

lemma embed_all_ok: "lines_ok ls \<Longrightarrow> embed_all st ls = Some ls' \<Longrightarrow> lines_ok ls'"
  by (auto simp: embed_all_def split: bind_splits dest!: embed_ok)

lemma line_fits:
  assumes "lines_ok ls" and "k < 7" and "y < 8"
  shows "cmd_fits (Cmd_P6x8Str 0 y (c_string (ls ! k)))"
proof -
  from assms have l: "length (ls ! k) = 19" "list_all char_ok (ls ! k)" by (auto simp: lines_ok_def list_all_length)
  then have "length (c_string (ls ! k)) \<le> 19" using length_takeWhile_le [of _ "ls ! k"] by (simp add: c_string_def)
  moreover have "list_all printable (map of_char (c_string (ls ! k)))"
    using l(2) by (auto simp: list_all_iff c_string_def char_ok_def dest: set_takeWhileD)
  ultimately show ?thesis using assms(3) by (simp add: text_fits_def chars_def)
qed

lemma set_lines_ok: "lines_ok set_lines"
  by code_simp

lemma cursor_row: "cursor_ok s \<Longrightarrow> unat (SetArrow s) < 8"
  by (auto simp: cursor_ok_def)

lemma SetArrow_show [simp]: "SetArrow (show_cmds cs s) = SetArrow s"
  by (simp add: show_cmds_def)

lemma Set_draw_fits:
  assumes "ui_inv s" and "set_ok l" and "draws_fit a s"
  shows "set_ok (fst (set_draw l s)) \<and> draws_fit a (snd (set_draw l s))"
proof -
  from assms(1) have c: "cursor_ok s" by (simp add: ui_inv_def)
  have "list_all cmd_fits (map (\<lambda>i. Cmd_P6x8Str 0 i (c_string (SS l ! (unat (Page s) + i - 2)))) [2..<8])"
    unfolding list_all_iff set_map set_upt
  proof (intro ballI, elim imageE)
    fix c i assume i: "i \<in> {2..<8}" and x: "c = Cmd_P6x8Str 0 i (c_string (SS l ! (unat (Page s) + i - 2)))"
    from i have "i < 8" by simp
    with line_fits [of "SS l" "unat (Page s) + i - 2" i] cursor_okD(3) [OF c this] assms(2)
    show "cmd_fits c" unfolding x set_ok_def by blast
  qed
  moreover have "cmd_fits (Cmd_P6x8Str 24 y ''  '') \<and> cmd_fits (Cmd_P6x8Str 24 y ''->'') \<and> cmd_fits (Cmd_P6x8Str 24 y ''- '')"
    if "y < 8" for y
    using that by (simp add: fits_simps)
  ultimately show ?thesis
    using assms(2,3) cursor_row [OF c] by (auto simp: set_draw_def Let_def set_ok_def simp del: cmd_fits.simps upt_rec_numeral)
qed

lemma Set_draws: "body_draws a set_ok (Set_UI_body hw)"
  unfolding body_draws_def
proof (intro allI impI)
  fix k l s assume asm: "ui_inv s \<and> set_ok l \<and> draws_fit a s"
  have cur: "ui_inv (cursor_up s)" "ui_inv (cursor_down s)"
    using asm cursor_up_ok [of s] cursor_down_ok [of s] by (auto simp: ui_inv_def)
  have upd: "ui_inv (s\<lparr>ui_flash := f\<rparr>) = ui_inv s" "ui_inv (s\<lparr>ui_settings := t\<rparr>) = ui_inv s" for s f t
    by (rule ui_inv_cong; simp)+
  have key: "case x of Inl s' \<Rightarrow> draws_fit a s' | Inr (l', s') \<Rightarrow> ui_inv s' \<and> set_ok l' \<and> draws_fit a s'"
    if "set_key hw k l s = Some x" for x
    using that asm cur by (auto simp: set_key_def Let_def upd set_ok_def split: if_splits option.splits)
  have edit: "ui_inv (snd (set_edit k l1 s1)) = ui_inv s1" "draws_fit a (snd (set_edit k l1 s1)) = draws_fit a s1"
    "set_ok (fst (set_edit k l1 s1)) = set_ok l1" for l1 s1
    by (auto simp: set_edit_def upd set_ok_def split: option.split)
  show "case Set_UI_body hw k l s of Leave r s' \<Rightarrow> draws_fit a s' | Again l' s' \<Rightarrow> set_ok l' \<and> draws_fit a s' | Undefined \<Rightarrow> True"
  proof (cases "set_key hw k l s")
    case None
    then show ?thesis by (simp add: Set_UI_body_def)
  next
    case (Some x)
    show ?thesis
    proof (cases x)
      case (Inl s1)
      then show ?thesis using key [OF Some] Some by (simp add: Set_UI_body_def)
    next
      case (Inr y)
      obtain l1 s1 where y: "y = (l1, s1)" by fastforce
      obtain l2 s2 where e: "set_edit k l1 s1 = (l2, s2)" by fastforce
      have 2: "ui_inv s2" "draws_fit a s2" "set_ok l2"
        using edit [of l1 s1] key [OF Some] Inr y e by auto
      show ?thesis
      proof (cases "embed_all (ui_settings s2) (SS l2)")
        case None
        then show ?thesis by (simp add: Set_UI_body_def Some Inr y e)
      next
        case (Some lines)
        with 2(3) have "set_ok (l2\<lparr>SS := lines\<rparr>)" using embed_all_ok by (auto simp: set_ok_def)
        from Set_draw_fits [OF 2(1) this 2(2)] show ?thesis
          by (cases "set_draw (l2\<lparr>SS := lines\<rparr>) s2")
            (simp add: Set_UI_body_def \<open>set_key hw k l s = Some x\<close> Inr y e Some)
      qed
    qed
  qed
qed

lemma title_fits:
  "list_all cmd_fits
     [Cmd_CLS, Cmd_P6x8Str 0 0 ''  Menu neusoft Juju'', Cmd_P6x8Str 0 1 ''---------------------'',
      Cmd_P6x8Str 0 3 ''      Run'', Cmd_P6x8Str 0 4 ''      Car State'', Cmd_P6x8Str 0 5 ''      Set Variable'',
      Cmd_P6x8Str 0 6 ''      Plan Record'', Cmd_P6x8Str 0 7 ''      Read'', Cmd_P6x8Str 0 0 ''Launching  Bett:'',
      Cmd_P6x8Str 0 2 '' STOP '', Cmd_P6x8Str 0 0 ''Reading:'', Cmd_P6x8Str 0 0 ''         Plan:'',
      Cmd_P6x8Str 0 2 ''    Plan_1 = '', Cmd_P6x8Str 0 3 ''    Plan_2 = '', Cmd_P6x8Str 0 4 ''    Plan_3 = '',
      Cmd_P6x8Str 0 5 ''    Plan_4 = '', Cmd_P6x8Str 0 6 ''    Plan_5 = '', Cmd_P6x8Str 0 7 ''    Plan_6 = '',
      Cmd_P6x8Str 0 0 ''Set Variable Bett:'']"
  by code_simp

lemma arrow_fits: "ui_inv s \<Longrightarrow> cmd_fits (Cmd_P6x8Str 23 (unat (Arrow s)) ''->'')"
  by (auto simp: ui_inv_def fits_simps)

lemma screens_draw:
  assumes "FunctionPointer hw a i = Some scr" and "ui_inv s" and "draws_fit a s"
  shows "screen_draws a (scr ks s)"
proof -
  have set0: "set_ok \<lparr>SaveSetArrow = 2, ArrowState = 0, SS = set_lines\<rparr>"
    using set_lines_ok by (simp add: set_ok_def)
  note loops = wait_loop_draws [OF Menu_body_ok Menu_draws] wait_loop_draws [OF simple_bodies_ok(1) Run_draws]
    wait_loop_draws [OF simple_bodies_ok(2) State_draws] wait_loop_draws [OF simple_bodies_ok(3) Read_draws]
    wait_loop_draws [OF Set_body_ok Set_draws]
  from assms title_fits arrow_fits [OF assms(2)] zero_cmd_fits set0 show ?thesis
    by (auto simp: FunctionPointer_def Menu_UI_def Run_UI_def State_UI_def Set_UI_def Read_UI_def Record_UI_def
        intro!: loops split: if_splits simp del: wait_loop.simps cmd_fits.simps)
      (simp_all add: screen_draws_def del: cmd_fits.simps)
qed

lemma UiStartTask_draws:
  "ui_inv s \<Longrightarrow> i \<in> {0, 1, 2, 3, 4, 5} \<Longrightarrow> draws_fit a s \<Longrightarrow>
     (case UiStartTask hw a i ks s of UI_waiting s' \<Rightarrow> draws_fit a s' | UI_undefined \<Rightarrow> True | UI_null_call \<Rightarrow> False)"
proof (induction hw a i ks s rule: UiStartTask.induct)
  case (1 hw a i ks s)
  then obtain scr where scr: "FunctionPointer hw a i = Some scr" by (force simp: FunctionPointer_def)
  have ok: "screen_ok (scr ks s)" by (rule screens_ok [OF scr "1.prems"(1)])
  have dr: "screen_draws a (scr ks s)" by (rule screens_draw [OF scr "1.prems"(1,3)])
  show ?case
  proof (cases "scr ks s")
    case (Returns r ks' s')
    with ok dr have "ui_inv s'" "r \<in> {0, 1, 2, 3, 4, 5}" "draws_fit a s'"
      by (auto simp: screen_ok_def screen_ids_def screen_draws_def)
    with "1.IH" [OF scr Returns] show ?thesis by (simp add: UiStartTask.simps [of hw a i] scr Returns)
  next
    case (Waits s')
    with dr show ?thesis by (simp add: UiStartTask.simps [of hw a i] scr screen_draws_def)
  next
    case Undef
    then show ?thesis by (simp add: UiStartTask.simps [of hw a i] scr)
  qed
qed


lemma ex_ui_draws: "draws_fit 0 ex_ui"
  by (simp add: draws_fit_def ex_ui_def sensors_shown_def sensors_init_def number_shown_def)

lemma ex_ui_run: "\<exists>s'. UiStartTask ftfl_ideal 0 0 [2, 2, 1, 3, 0, 4, 0] ex_ui = UI_waiting s'"
  by (simp add: UiStartTask.simps FunctionPointer_def Menu_UI_def Menu_UI_body_def State_UI_def State_UI_body_def
      Let_def show_cmds_def menu_pwm_def pwm_def ex_ui_def)


end
