(* ===== verification/Boot_Loader.thy ===== *)
theory Boot_Loader
  imports App_Flash OS_State
begin

text \<open>
  The boot loader of the package (\<open>utilities/kboot/bl_core.c\<close>, for the flash controller FTFL of the car's
  processor and the settings of \<open>bl_cfg_template.h\<close>): a serial protocol of framed packets with a check
  sum, and commands that erase and program the flash.  Bytes come from a list (\<open>bl_hw_if_read_byte\<close> waits
  for the next one) and go to a list (\<open>bl_hw_if_write\<close>).  The flash and its controller are those of
  \<open>App_Flash\<close>.  A function stops early when it has to wait for a byte, when it writes outside
  \<open>s_readPacket\<close>, on a reset and on the jump to the application.
\<close>

subsection \<open>Constants and state\<close>

abbreviation (input) kFramingPacketStartByte :: INT8U where "kFramingPacketStartByte \<equiv> 0x5A"
abbreviation (input) kFramingPacketType_Ack :: INT8U where "kFramingPacketType_Ack \<equiv> 0xA1"
abbreviation (input) kFramingPacketType_Nak :: INT8U where "kFramingPacketType_Nak \<equiv> 0xA2"
abbreviation (input) kFramingPacketType_AckAbort :: INT8U where "kFramingPacketType_AckAbort \<equiv> 0xA3"
abbreviation (input) kFramingPacketType_Command :: INT8U where "kFramingPacketType_Command \<equiv> 0xA4"
abbreviation (input) kFramingPacketType_Data :: INT8U where "kFramingPacketType_Data \<equiv> 0xA5"
abbreviation (input) kFramingPacketType_Ping :: INT8U where "kFramingPacketType_Ping \<equiv> 0xA6"
abbreviation (input) kFramingPacketType_PingResponse :: INT8U where "kFramingPacketType_PingResponse \<equiv> 0xA7"

abbreviation (input) kPacketState_StartByte :: nat where "kPacketState_StartByte \<equiv> 0"
abbreviation (input) kPacketState_PacketTye :: nat where "kPacketState_PacketTye \<equiv> 1"
abbreviation (input) kPacketState_Length :: nat where "kPacketState_Length \<equiv> 2"
abbreviation (input) kPacketState_CRC :: nat where "kPacketState_CRC \<equiv> 3"
abbreviation (input) kPacketState_Payload :: nat where "kPacketState_Payload \<equiv> 4"

abbreviation (input) kPacket_MaxPayloadSize :: nat where "kPacket_MaxPayloadSize \<equiv> 32"

type_synonym status_t = "32 word"

abbreviation (input) kStatus_Success :: status_t where "kStatus_Success \<equiv> 0"
abbreviation (input) kStatus_Fail :: status_t where "kStatus_Fail \<equiv> 1"
abbreviation (input) kStatus_Busy :: status_t where "kStatus_Busy \<equiv> 15"
abbreviation (input) kStatus_FlashAlignmentError :: status_t where "kStatus_FlashAlignmentError \<equiv> 101"
abbreviation (input) kStatus_FlashAccessError :: status_t where "kStatus_FlashAccessError \<equiv> 103"
abbreviation (input) kStatus_FlashProtectionViolation :: status_t where "kStatus_FlashProtectionViolation \<equiv> 104"
abbreviation (input) kStatus_FlashCommandFailure :: status_t where "kStatus_FlashCommandFailure \<equiv> 105"
abbreviation (input) kStatusMemoryRangeInvalid :: status_t where "kStatusMemoryRangeInvalid \<equiv> 10200"
abbreviation (input) kStatus_UnknownProperty :: status_t where "kStatus_UnknownProperty \<equiv> 10300"

abbreviation (input) APPLICATION_BASE :: "32 word" where "APPLICATION_BASE \<equiv> 0x5000"
abbreviation (input) TARGET_FLASH_SIZE :: "32 word" where "TARGET_FLASH_SIZE \<equiv> 0x100000"
abbreviation (input) TARGET_FLASH_SECTOR_SIZE :: "32 word" where "TARGET_FLASH_SECTOR_SIZE \<equiv> 2048"
abbreviation (input) TARGET_RAM_START :: "32 word" where "TARGET_RAM_START \<equiv> 0x1FFF0000"
abbreviation (input) TARGET_RAM_SIZE :: "32 word" where "TARGET_RAM_SIZE \<equiv> 0x40000"

record serial_packet =
  startByte :: INT8U
  packetType :: INT8U
  lengthInBytes :: "nat \<Rightarrow> INT8U"
  crc16_field :: "nat \<Rightarrow> INT8U"
  payload :: "nat \<Rightarrow> INT8U"

datatype command_state = kCommandPhase_Command | kCommandPhase_Data

text \<open>
  The variables of the loader: the statics of \<open>serial_packet_read\<close>, the two packets, the fields of
  \<open>s_serialContext\<close> and \<open>bl_ctx\<close> the code uses (the phase is \<open>bl_ctx.state\<close>), the line in and out, the flash.
\<close>

record bl_state =
  s_packetState :: nat
  s_stateCnt :: nat
  s_readPacket :: serial_packet
  s_writePacket :: serial_packet
  isAckNeeded :: bool
  isAckAbortNeeded :: bool
  bl_phase :: command_state
  isActive :: bool
  bl_address :: "32 word"
  bl_count :: "32 word"
  bl_in :: "INT8U list"
  bl_out :: "INT8U list"
  bl_flash :: ftfl

datatype bl_stop = Need_Byte | Out_Of_Bounds | Endless | System_Reset | Jump "32 word" "32 word"

type_synonym 'a bl = "bl_stop \<times> bl_state + 'a \<times> bl_state"

text \<open>A 16-bit and a 32-bit number in memory, low byte first.\<close>

definition get16 :: "(nat \<Rightarrow> INT8U) \<Rightarrow> INT16U" where
  "get16 m = ucast (m 0) OR push_bit 8 (ucast (m 1))"

definition put16 :: "INT16U \<Rightarrow> nat \<Rightarrow> INT8U" where
  "put16 w = (\<lambda>_. 0)(0 := ucast w, 1 := ucast (drop_bit 8 w))"

definition get32 :: "(nat \<Rightarrow> INT8U) \<Rightarrow> nat \<Rightarrow> 32 word" where
  "get32 m a = ucast (m a) OR push_bit 8 (ucast (m (a + 1))) OR push_bit 16 (ucast (m (a + 2))) OR push_bit 24 (ucast (m (a + 3)))"

definition put32 :: "nat \<Rightarrow> 32 word \<Rightarrow> (nat \<Rightarrow> INT8U) \<Rightarrow> nat \<Rightarrow> INT8U" where
  "put32 a w m = m(a := word_byte 0 w, a + 1 := word_byte 1 w, a + 2 := word_byte 2 w, a + 3 := word_byte 3 w)"

definition bl_write :: "INT8U list \<Rightarrow> bl_state \<Rightarrow> bl_state" where
  "bl_write bs s = s\<lparr>bl_out := bl_out s @ bs\<rparr>"

definition read_byte :: "bl_state \<Rightarrow> INT8U bl" where
  "read_byte s = (case bl_in s of [] \<Rightarrow> Inl (Need_Byte, s) | b # bs \<Rightarrow> Inr (b, s\<lparr>bl_in := bs\<rparr>))"

definition s_pingPacket :: "INT8U list" where
  "s_pingPacket = [kFramingPacketStartByte, kFramingPacketType_PingResponse, 0, 2, 1, 0x50, 0, 0, 0xAA, 0xEA]"

definition s_packet_ack :: "INT8U list" where "s_packet_ack = [kFramingPacketStartByte, kFramingPacketType_Ack]"
definition s_packet_nak :: "INT8U list" where "s_packet_nak = [kFramingPacketStartByte, kFramingPacketType_Nak]"
definition s_packet_abort :: "INT8U list" where "s_packet_abort = [kFramingPacketStartByte, kFramingPacketType_AckAbort]"

subsection \<open>The check sum\<close>

text \<open>The inner loop works on 32 bits and does not mask; the result is cut to 16 bits at the end.\<close>

primrec crc_bits :: "nat \<Rightarrow> 32 word \<Rightarrow> 32 word" where
  "crc_bits 0 crc = crc"
| "crc_bits (Suc i) crc =
     crc_bits i (let temp = push_bit 1 crc in if crc AND 0x8000 \<noteq> 0 then temp XOR 0x1021 else temp)"

definition crc16_update :: "INT16U \<Rightarrow> INT8U list \<Rightarrow> INT16U" where
  "crc16_update crc src = ucast (foldl (\<lambda>crc byte. crc_bits 8 (crc XOR push_bit 8 (ucast byte))) (ucast crc :: 32 word) src)"

definition calculate_crc :: "serial_packet \<Rightarrow> INT16U" where
  "calculate_crc packet =
     (let crc_val = crc16_update 0 [startByte packet, packetType packet, lengthInBytes packet 0, lengthInBytes packet 1]
      in crc16_update crc_val (map (payload packet) [0..<unat (get16 (lengthInBytes packet))]))"

subsection \<open>Reading a packet\<close>

text \<open>
  The switch over the state: one byte; \<open>True\<close> when the packet is complete, \<open>None\<close> for a write outside
  the 32 bytes of the payload.
\<close>

definition packet_byte :: "INT8U \<Rightarrow> INT8U \<Rightarrow> bl_state \<Rightarrow> (bool \<times> bl_state) option" where
  "packet_byte ptype tmp s =
     (let p = s_readPacket s
      in if s_packetState s = kPacketState_StartByte then
           Some (False, if tmp = kFramingPacketStartByte
             then s\<lparr>s_readPacket := p\<lparr>startByte := kFramingPacketStartByte\<rparr>, s_packetState := kPacketState_PacketTye\<rparr> else s)
         else if s_packetState s = kPacketState_PacketTye then
           Some (False,
             if tmp = kFramingPacketType_Ping then (bl_write s_pingPacket s)\<lparr>s_packetState := kPacketState_StartByte\<rparr>
             else if tmp = ptype
             then s\<lparr>s_readPacket := p\<lparr>packetType := ptype\<rparr>, s_packetState := kPacketState_Length, s_stateCnt := 0\<rparr>
             else s\<lparr>s_packetState := unat kFramingPacketStartByte\<rparr>)
         else if s_packetState s = kPacketState_Length then
           (let s = s\<lparr>s_readPacket := p\<lparr>lengthInBytes := (lengthInBytes p)(s_stateCnt s := tmp)\<rparr>, s_stateCnt := s_stateCnt s + 1\<rparr>
            in Some (False,
              if s_stateCnt s \<ge> 2
              then (let s = s\<lparr>s_packetState := kPacketState_CRC, s_stateCnt := 0\<rparr>; w = s_writePacket s
                    in if unat (get16 (lengthInBytes w)) > kPacket_MaxPayloadSize
                       then s\<lparr>s_writePacket := w\<lparr>lengthInBytes := put16 (of_nat kPacket_MaxPayloadSize)\<rparr>\<rparr> else s)
              else s))
         else if s_packetState s = kPacketState_CRC then
           (let s = s\<lparr>s_readPacket := p\<lparr>crc16_field := (crc16_field p)(s_stateCnt s := tmp)\<rparr>, s_stateCnt := s_stateCnt s + 1\<rparr>
            in Some (False, if s_stateCnt s \<ge> 2 then s\<lparr>s_packetState := kPacketState_Payload, s_stateCnt := 0\<rparr> else s))
         else if s_packetState s = kPacketState_Payload then
           (if s_stateCnt s \<ge> 32 then None
            else (let s = s\<lparr>s_readPacket := p\<lparr>payload := (payload p)(s_stateCnt s := tmp)\<rparr>, s_stateCnt := s_stateCnt s + 1\<rparr>
                  in Some (if s_stateCnt s \<ge> unat (get16 (lengthInBytes (s_readPacket s)))
                           then (True, s\<lparr>s_packetState := kPacketState_StartByte\<rparr>) else (False, s))))
         else Some (False, s))"

definition packet_check :: "bl_state \<Rightarrow> status_t \<times> bl_state" where
  "packet_check s =
     (let calculatedCrc = calculate_crc (s_readPacket s);
          receivedCrc = get16 (crc16_field (s_readPacket s))
      in if calculatedCrc = receivedCrc then (kStatus_Success, s\<lparr>isAckNeeded := True\<rparr>)
         else (kStatus_Fail, bl_write s_packet_nak s))"

definition serial_packet_read :: "INT8U \<Rightarrow> bl_state \<Rightarrow> status_t bl" where
  "serial_packet_read ptype s =
     (let s = (if isAckNeeded s then bl_write s_packet_ack (s\<lparr>isAckNeeded := False\<rparr>) else s)
      in case read_byte s of
           Inl e \<Rightarrow> Inl e
         | Inr (tmp, s) \<Rightarrow>
             (case packet_byte ptype tmp s of
                None \<Rightarrow> Inl (Out_Of_Bounds, s)
              | Some (isPacketComplete, s) \<Rightarrow> Inr (if isPacketComplete then packet_check s else (kStatus_Busy, s))))"

subsection \<open>Writing a packet\<close>

definition serial_packet_write :: "bl_state \<Rightarrow> status_t bl" where
  "serial_packet_write s =
     (let s = (if isAckNeeded s then bl_write s_packet_ack (s\<lparr>isAckNeeded := False\<rparr>) else s);
          s = (if isAckAbortNeeded s then bl_write s_packet_abort (s\<lparr>isAckAbortNeeded := False\<rparr>) else s);
          w = s_writePacket s;
          packetLength = (1 + ucast (payload w 3)) * 4 :: INT16U;
          w = w\<lparr>startByte := kFramingPacketStartByte, packetType := kFramingPacketType_Command, lengthInBytes := put16 packetLength\<rparr>;
          w = w\<lparr>crc16_field := put16 (calculate_crc w)\<rparr>;
          s = s\<lparr>s_writePacket := w\<rparr>;
          s = bl_write [startByte w, packetType w, lengthInBytes w 0, lengthInBytes w 1, crc16_field w 0, crc16_field w 1] s;
          s = bl_write (map (payload w) [0..<unat packetLength]) s
      in case read_byte s of
           Inl e \<Rightarrow> Inl e
         | Inr (start_byte, s) \<Rightarrow>
             (case read_byte s of
                Inl e \<Rightarrow> Inl e
              | Inr (packet_type, s) \<Rightarrow>
                  Inr (if start_byte = kFramingPacketStartByte \<and> packet_type = kFramingPacketType_Ack
                       then kStatus_Success else kStatus_Fail, s)))"

text \<open>The payload bytes of an outgoing packet, from its first on.\<close>

definition set_payload :: "(nat \<Rightarrow> INT8U) \<Rightarrow> bl_state \<Rightarrow> bl_state" where
  "set_payload m s = s\<lparr>s_writePacket := (s_writePacket s)\<lparr>payload := m\<rparr>\<rparr>"

definition send_generic_response :: "32 word \<Rightarrow> status_t \<Rightarrow> bl_state \<Rightarrow> status_t bl" where
  "send_generic_response commandTag status s =
     (let m = (payload (s_writePacket s))(0 := 0xA0, 1 := 0, 2 := 0, 3 := 2)
      in serial_packet_write (set_payload (put32 4 status (put32 8 commandTag m)) s))"

subsection \<open>The flash\<close>

definition flash_command_sequence :: "ftfl_hw \<Rightarrow> ftfl \<Rightarrow> status_t \<times> ftfl" where
  "flash_command_sequence hw f =
     (let (fstat, mem) = hw (FCCOB f) (flash_mem f);
          f = f\<lparr>FSTAT := fstat, flash_mem := mem\<rparr>
      in (if fstat AND 0x20 \<noteq> 0 then kStatus_FlashAccessError
          else if fstat AND 0x10 \<noteq> 0 then kStatus_FlashProtectionViolation
          else if fstat AND 0x01 \<noteq> 0 then kStatus_FlashCommandFailure
          else kStatus_Success, f))"

text \<open>The registers as words, \<open>kFCCOBx[i] = w\<close>: the low byte of a word goes to the register with the highest number.\<close>

definition set_kFCCOBx :: "nat \<Rightarrow> 32 word \<Rightarrow> ftfl \<Rightarrow> ftfl" where
  "set_kFCCOBx i w f = f\<lparr>FCCOB := (FCCOB f)(4 * i + 3 := word_byte 0 w, 4 * i + 2 := word_byte 1 w,
     4 * i + 1 := word_byte 2 w, 4 * i := word_byte 3 w)\<rparr>"

definition set_FCCOB0 :: "8 word \<Rightarrow> ftfl \<Rightarrow> ftfl" where
  "set_FCCOB0 cmd f = f\<lparr>FCCOB := (FCCOB f)(0 := cmd)\<rparr>"

definition align_down :: "32 word \<Rightarrow> 32 word \<Rightarrow> 32 word" where
  "align_down data base = data AND NOT (base - 1)"

definition align_up :: "32 word \<Rightarrow> 32 word \<Rightarrow> 32 word" where
  "align_up data base = align_down (data + base - 1) base"

definition is_valid_memory_range :: "32 word \<Rightarrow> 32 word \<Rightarrow> bool" where
  "is_valid_memory_range start len \<longleftrightarrow> \<not> (start < APPLICATION_BASE \<or> start + len < APPLICATION_BASE)"

partial_function (option) flash_erase_loop :: "ftfl_hw \<Rightarrow> 32 word \<Rightarrow> 32 word \<Rightarrow> ftfl \<Rightarrow> (status_t \<times> ftfl) option" where
  "flash_erase_loop hw alignedStart alignedLength f =
     (if alignedLength \<noteq> 0
      then (let (status, f1) = flash_command_sequence hw (set_FCCOB0 ERSSCR (set_kFCCOBx 0 alignedStart f))
            in if status \<noteq> kStatus_Success then Some (status, f1)
               else flash_erase_loop hw (alignedStart + TARGET_FLASH_SECTOR_SIZE)
                      (alignedLength - drop_bit 2 TARGET_FLASH_SECTOR_SIZE) f1)
      else Some (kStatus_Success, f))"

definition flash_erase :: "ftfl_hw \<Rightarrow> 32 word \<Rightarrow> 32 word \<Rightarrow> ftfl \<Rightarrow> (status_t \<times> ftfl) option" where
  "flash_erase hw start len f =
     (let alignedStart = align_down start TARGET_FLASH_SECTOR_SIZE;
          alignedLength = drop_bit 2 (align_up (start - alignedStart + len) TARGET_FLASH_SECTOR_SIZE)
      in flash_erase_loop hw alignedStart alignedLength f)"

text \<open>\<open>for (i = length; i < alignmentSize; i++) byteSrcStart[i] = 0xFF;\<close> with \<open>src\<close> the offset in the payload.\<close>

definition pad_word :: "nat \<Rightarrow> 32 word \<Rightarrow> (nat \<Rightarrow> INT8U) \<Rightarrow> nat \<Rightarrow> INT8U" where
  "pad_word src len m = (\<lambda>a. if src + unat len \<le> a \<and> a < src + 4 then 0xFF else m a)"

lemma chunk_less: "(len::32 word) \<noteq> 0 \<Longrightarrow> unat (len - (if len > 4 then 4 else len)) < unat len"
  by (auto simp: unat_sub word_less_nat_alt word_le_nat_alt unat_gt_0)

function flash_program_loop ::
  "ftfl_hw \<Rightarrow> 32 word \<Rightarrow> nat \<Rightarrow> 32 word \<Rightarrow> (nat \<Rightarrow> INT8U) \<Rightarrow> ftfl \<Rightarrow> status_t \<times> (nat \<Rightarrow> INT8U) \<times> ftfl" where
  "flash_program_loop hw start src len m f =
     (if len \<noteq> 0
      then (let m = (if len < 4 then pad_word src len m else m);
                f = set_FCCOB0 PGM4 (set_kFCCOBx 1 (get32 m src) (set_kFCCOBx 0 start f));
                (status, f) = flash_command_sequence hw f
            in if status \<noteq> kStatus_Success then (status, m, f)
               else flash_program_loop hw (start + 4) (src + 4) (len - (if len > 4 then 4 else len)) m f)
      else (kStatus_Success, m, f))"
  by pat_completeness auto

termination
  by (relation "measure (\<lambda>(hw, start, src, len, m, f). unat len)") (use chunk_less in auto)

declare flash_program_loop.simps [simp del]

definition flash_program :: "ftfl_hw \<Rightarrow> 32 word \<Rightarrow> nat \<Rightarrow> 32 word \<Rightarrow> (nat \<Rightarrow> INT8U) \<Rightarrow> ftfl \<Rightarrow> status_t \<times> (nat \<Rightarrow> INT8U) \<times> ftfl" where
  "flash_program hw start src len m f =
     (if start AND (4 - 1) \<noteq> 0 then (kStatus_FlashAlignmentError, m, f)
      else if \<not> is_valid_memory_range start len then (kStatusMemoryRangeInvalid, m, f)
      else flash_program_loop hw start src len m f)"

subsection \<open>The commands\<close>

text \<open>\<open>sdid\<close> is the device identification register.\<close>

definition handle_get_property :: "32 word \<Rightarrow> bl_state \<Rightarrow> status_t bl" where
  "handle_get_property sdid s =
     (let tag = get32 (payload (s_readPacket s)) 4;
          m = (payload (s_writePacket s))(0 := 0xA7, 1 := 0, 3 := 1);
          m = put32 4 kStatus_Success m;
          one = (\<lambda>v. (1, put32 8 v m));
          (propertySize, m) =
            (if tag = 0x01 then one 0x4B010300
             else if tag = 0x02 then one 0x01
             else if tag = 0x03 then one 0x00
             else if tag = 0x04 then one TARGET_FLASH_SIZE
             else if tag = 0x05 then one TARGET_FLASH_SECTOR_SIZE
             else if tag = 0x07 then one (0x02 OR 0x04 OR 0x07 OR 0x0B)
             else if tag = 0x0B then one (of_nat kPacket_MaxPayloadSize)
             else if tag = 0x0C then (4, put32 20 0x200003FF (put32 16 0x20000000 (put32 12 0xFFF (put32 8 0 m))))
             else if tag = 0x0D then one 1
             else if tag = 0x0E then one TARGET_RAM_START
             else if tag = 0x0F then one TARGET_RAM_SIZE
             else if tag = 0x10 then one sdid
             else if tag = 0x11 then one 0
             else (0, put32 4 kStatus_UnknownProperty m))
      in serial_packet_write (set_payload (m(3 := m 3 + propertySize)) s))"

definition handle_flash_erase_region :: "ftfl_hw \<Rightarrow> bl_state \<Rightarrow> status_t bl" where
  "handle_flash_erase_region hw s =
     (let start = get32 (payload (s_readPacket s)) 4;
          len = get32 (payload (s_readPacket s)) 8
      in if \<not> is_valid_memory_range start len then send_generic_response 0x02 kStatusMemoryRangeInvalid s
         else (case flash_erase hw start len (bl_flash s) of
                 None \<Rightarrow> Inl (Endless, s)
               | Some (status, f) \<Rightarrow> send_generic_response 0x02 status (s\<lparr>bl_flash := f\<rparr>)))"

definition handle_write_memory :: "bl_state \<Rightarrow> status_t bl" where
  "handle_write_memory s =
     send_generic_response 0x04 kStatus_Success
       (s\<lparr>bl_address := get32 (payload (s_readPacket s)) 4, bl_count := get32 (payload (s_readPacket s)) 8\<rparr>)"

definition handle_reset :: "bl_state \<Rightarrow> status_t bl" where
  "handle_reset s =
     (case send_generic_response 0x0B kStatus_Success s of Inl e \<Rightarrow> Inl e | Inr (st, s) \<Rightarrow> Inl (System_Reset, s))"

definition handle_execute :: "bl_state \<Rightarrow> status_t bl" where
  "handle_execute s =
     (case send_generic_response 0x09 kStatus_Success s of
        Inl e \<Rightarrow> Inl e
      | Inr (st, s) \<Rightarrow> Inl (Jump (get32 (payload (s_readPacket s)) 12) (get32 (payload (s_readPacket s)) 4), s))"

definition finalize_data_phase :: "status_t \<Rightarrow> bl_state \<Rightarrow> status_t bl" where
  "finalize_data_phase status s = send_generic_response 0x04 status s"

definition data_phase_abort :: "bl_state \<Rightarrow> bl_state" where
  "data_phase_abort s = s\<lparr>isAckAbortNeeded := True, isAckNeeded := False\<rparr>"

text \<open>The result is \<open>hasMoreData\<close>; the status is always a success.\<close>

definition handle_data_phase :: "ftfl_hw \<Rightarrow> bl_state \<Rightarrow> bool bl" where
  "handle_data_phase hw s =
     (let packetLength = get16 (lengthInBytes (s_readPacket s)) in
      if bl_count s \<noteq> 0
      then (let writeLength = (if ucast packetLength < bl_count s then ucast packetLength else bl_count s);
                (status, m, f) = flash_program hw (bl_address s) 0 writeLength (payload (s_readPacket s)) (bl_flash s);
                s = s\<lparr>s_readPacket := (s_readPacket s)\<lparr>payload := m\<rparr>, bl_flash := f\<rparr>
            in if status \<noteq> kStatus_Success
               then (case finalize_data_phase status (data_phase_abort s) of
                       Inl e \<Rightarrow> Inl e | Inr (st, s) \<Rightarrow> Inr (False, s))
               else (let s = s\<lparr>bl_count := bl_count s - writeLength, bl_address := bl_address s + writeLength\<rparr>
                     in if bl_count s \<noteq> 0 then Inr (True, s)
                        else (case finalize_data_phase status s of Inl e \<Rightarrow> Inl e | Inr (st, s) \<Rightarrow> Inr (False, s))))
      else (case finalize_data_phase kStatus_Success s of Inl e \<Rightarrow> Inl e | Inr (st, s) \<Rightarrow> Inr (False, s)))"

subsection \<open>The loop\<close>

definition bl_command :: "ftfl_hw \<Rightarrow> 32 word \<Rightarrow> bl_state \<Rightarrow> bl_stop \<times> bl_state + bl_state" where
  "bl_command hw sdid s =
     (let tag = payload (s_readPacket s) 0;
          keep = case_sum Inl (\<lambda>(st, s). Inr s)
      in if tag = 0x07 then keep (handle_get_property sdid s)
         else if tag = 0x02 then keep (handle_flash_erase_region hw s)
         else if tag = 0x04
         then case_sum Inl (\<lambda>(st, s). Inr (s\<lparr>bl_phase := kCommandPhase_Data\<rparr>)) (handle_write_memory s)
         else if tag = 0x09 then keep (handle_execute s)
         else if tag = 0x0B then keep (handle_reset s)
         else Inr s)"

definition bootloader_step :: "ftfl_hw \<Rightarrow> 32 word \<Rightarrow> bl_state \<Rightarrow> bl_stop \<times> bl_state + bl_state" where
  "bootloader_step hw sdid s =
     (let ptype = (if bl_phase s = kCommandPhase_Command then kFramingPacketType_Command else kFramingPacketType_Data)
      in case serial_packet_read ptype s of
           Inl e \<Rightarrow> Inl e
         | Inr (status, s) \<Rightarrow>
             if status \<noteq> kStatus_Success then Inr s
             else (let s = s\<lparr>isActive := True\<rparr>
                   in (case bl_phase s of
                         kCommandPhase_Command \<Rightarrow> bl_command hw sdid s
                       | kCommandPhase_Data \<Rightarrow>
                           case_sum Inl (\<lambda>(hasMoreData, s). Inr (if \<not> hasMoreData then s\<lparr>bl_phase := kCommandPhase_Command\<rparr> else s))
                             (handle_data_phase hw s))))"

definition IsAppAddrValidate :: "(nat \<Rightarrow> INT8U) \<Rightarrow> bool" where
  "IsAppAddrValidate mem =
     (let pc = get32 mem (unat APPLICATION_BASE + 4) in \<not> (pc < APPLICATION_BASE \<or> pc > TARGET_FLASH_SIZE))"

text \<open>Every turn of the loop takes a byte, so the loop ends when the input does.\<close>

definition in_le :: "bl_state \<Rightarrow> 'a bl \<Rightarrow> bool" where
  "in_le s r \<longleftrightarrow> (case r of Inl e \<Rightarrow> True | Inr (x, s') \<Rightarrow> length (bl_in s') \<le> length (bl_in s))"

lemma bl_write_in [simp]: "bl_in (bl_write bs s) = bl_in s"
  by (simp add: bl_write_def)

lemma set_payload_in [simp]: "bl_in (set_payload m s) = bl_in s"
  by (simp add: set_payload_def)

lemma serial_packet_write_in: "bl_in s = bl_in s0 \<Longrightarrow> in_le s0 (serial_packet_write s)"
  by (auto simp: in_le_def serial_packet_write_def read_byte_def Let_def split: list.splits)

lemma send_generic_response_in: "bl_in s = bl_in s0 \<Longrightarrow> in_le s0 (send_generic_response tag st s)"
  by (simp add: send_generic_response_def serial_packet_write_in)

lemma packet_byte_in: "packet_byte ptype tmp s = Some (c, s') \<Longrightarrow> bl_in s' = bl_in s"
  by (auto simp: packet_byte_def Let_def split: if_splits)

lemma serial_packet_read_in: "serial_packet_read ptype s = Inr (st, s') \<Longrightarrow> length (bl_in s') < length (bl_in s)"
proof -
  define t where "t = (if isAckNeeded s then bl_write s_packet_ack (s\<lparr>isAckNeeded := False\<rparr>) else s)"
  have t: "bl_in t = bl_in s" by (simp add: t_def)
  assume "serial_packet_read ptype s = Inr (st, s')"
  then obtain b bs c u where b: "bl_in t = b # bs" and u: "packet_byte ptype b (t\<lparr>bl_in := bs\<rparr>) = Some (c, u)"
    and s': "s' = snd (if c then packet_check u else (kStatus_Busy, u))"
    unfolding serial_packet_read_def Let_def t_def [symmetric]
    by (auto simp: read_byte_def split: list.splits option.splits)
  have "bl_in s' = bl_in u" by (auto simp: s' packet_check_def Let_def)
  with packet_byte_in [OF u] b t show ?thesis by simp
qed

lemma handlers_in:
  "in_le s (handle_get_property sdid s)" "in_le s (handle_flash_erase_region hw s)" "in_le s (handle_write_memory s)"
  "in_le s (handle_execute s)" "in_le s (handle_reset s)" "in_le s (handle_data_phase hw s)"
proof -
  show "in_le s (handle_get_property sdid s)"
    unfolding handle_get_property_def Let_def case_prod_beta by (rule serial_packet_write_in) simp
  show "in_le s (handle_flash_erase_region hw s)"
    by (simp add: handle_flash_erase_region_def Let_def send_generic_response_in split: option.split) (simp add: in_le_def)
  show "in_le s (handle_write_memory s)" by (simp add: handle_write_memory_def send_generic_response_in)
  show "in_le s (handle_execute s)" "in_le s (handle_reset s)"
    by (auto simp: handle_execute_def handle_reset_def in_le_def split: sum.splits prod.splits)
  have c: "in_le s (case finalize_data_phase st u of Inl e \<Rightarrow> Inl e | Inr (st, s) \<Rightarrow> Inr (False, s))" if "bl_in u = bl_in s" for st u
    using send_generic_response_in [OF that, of 4 st] by (auto simp: in_le_def finalize_data_phase_def split: sum.splits)
  have a: "bl_in (data_phase_abort u) = bl_in u" for u by (simp add: data_phase_abort_def)
  show "in_le s (handle_data_phase hw s)"
    by (auto simp: handle_data_phase_def Let_def case_prod_beta a intro!: c) (simp add: in_le_def)
qed

lemma in_leD: "in_le s r \<Longrightarrow> r = Inr (x, s') \<Longrightarrow> length (bl_in s') \<le> length (bl_in s)"
  by (simp add: in_le_def)

lemmas handlers_inD = handlers_in [THEN in_leD]

lemma bl_command_in: "bl_command hw sdid s = Inr s' \<Longrightarrow> length (bl_in s') \<le> length (bl_in s)"
  by (auto simp: bl_command_def Let_def dest!: handlers_inD split: if_splits sum.splits)

lemma bootloader_step_in:
  assumes "bootloader_step hw sdid s = Inr s'"
  shows "length (bl_in s') < length (bl_in s)"
proof -
  define ptype where "ptype = (if bl_phase s = kCommandPhase_Command then kFramingPacketType_Command else kFramingPacketType_Data)"
  obtain st t where t: "serial_packet_read ptype s = Inr (st, t)"
    using assms by (auto simp: bootloader_step_def Let_def ptype_def [symmetric] split: sum.splits)
  note lt = serial_packet_read_in [OF t]
  define u where "u = t\<lparr>isActive := True\<rparr>"
  have "length (bl_in s') \<le> length (bl_in t)"
  proof (cases "st = kStatus_Success")
    case False
    then show ?thesis using assms by (simp add: bootloader_step_def Let_def ptype_def [symmetric] t)
  next
    case True
    have r: "(case bl_phase u of kCommandPhase_Command \<Rightarrow> bl_command hw sdid u
        | kCommandPhase_Data \<Rightarrow> case_sum Inl (\<lambda>(hasMoreData, s). Inr (if \<not> hasMoreData then s\<lparr>bl_phase := kCommandPhase_Command\<rparr> else s))
             (handle_data_phase hw u)) = Inr s'"
      using assms True unfolding u_def by (simp add: bootloader_step_def Let_def ptype_def [symmetric] t)
    show ?thesis
      using r bl_command_in [of hw sdid u s'] handlers_inD(6) [of hw u]
      by (cases "bl_phase u") (auto simp: u_def split: sum.splits)
  qed
  with lt show ?thesis by simp
qed

function bootloader_loop :: "ftfl_hw \<Rightarrow> 32 word \<Rightarrow> bl_state \<Rightarrow> bl_stop \<times> bl_state" where
  "bootloader_loop hw sdid s =
     (case bootloader_step hw sdid s of Inl e \<Rightarrow> e | Inr s' \<Rightarrow> bootloader_loop hw sdid s')"
  by pat_completeness auto
termination
  by (relation "measure (\<lambda>(hw, sdid, s). length (bl_in s))") (auto dest: bootloader_step_in)

declare bootloader_loop.simps [simp del]

definition bootloader_run :: "ftfl_hw \<Rightarrow> 32 word \<Rightarrow> bl_state \<Rightarrow> bl_stop \<times> bl_state" where
  "bootloader_run hw sdid s = bootloader_loop hw sdid (s\<lparr>isActive := False\<rparr>)"

subsection \<open>The check sum is CRC-16/XMODEM\<close>

text \<open>The reference: a 16-bit shift register with the polynomial \<open>x^16 + x^12 + x^5 + 1\<close>.\<close>

definition crc_shift :: "16 word \<Rightarrow> 16 word" where
  "crc_shift c = (if bit c 15 then push_bit 1 c XOR 0x1021 else push_bit 1 c)"

definition xmodem :: "16 word \<Rightarrow> 8 word list \<Rightarrow> 16 word" where
  "xmodem = foldl (\<lambda>c b. (crc_shift ^^ 8) (c XOR push_bit 8 (ucast b)))"

lemma ucast_push: "(ucast (push_bit n c :: 32 word) :: 16 word) = push_bit n (ucast c)"
  by (rule bit_word_eqI) (auto simp: bit_simps)

lemma crc_bits_shift: "(ucast (crc_bits n c) :: 16 word) = (crc_shift ^^ n) (ucast c)"
proof (induction n arbitrary: c)
  case (Suc n)
  have "c AND 0x8000 \<noteq> 0 \<longleftrightarrow> bit c 15"
  proof -
    have e: "(0x8000 :: 32 word) = push_bit 15 1" by simp
    have "c AND push_bit 15 1 \<noteq> 0 \<longleftrightarrow> bit c 15"
      using and_exp_eq_0_iff_not_bit [of c 15] by (simp add: push_bit_eq_mult)
    then show ?thesis unfolding e .
  qed
  moreover have "(ucast (push_bit 1 c XOR 0x1021) :: 16 word) = push_bit 1 (ucast c) XOR 0x1021"
    unfolding ucast_push [symmetric] by (rule bit_word_eqI) (auto simp: bit_simps)
  moreover have "bit (ucast c :: 16 word) 15 \<longleftrightarrow> bit c 15" by (simp add: bit_simps)
  ultimately have "(ucast (if c AND 0x8000 \<noteq> 0 then push_bit 1 c XOR 0x1021 else push_bit 1 c) :: 16 word) = crc_shift (ucast c)"
    using ucast_push [of 1 c] by (simp add: crc_shift_def)
  then show ?case by (simp only: crc_bits.simps Let_def Suc.IH funpow_Suc_right o_apply)
qed simp

text \<open>
  C33 The check sum of the boot loader, whose loop runs on 32 bits without masking, is the 16-bit
  CRC-16/XMODEM of the bytes, from any start value.
\<close>

theorem crc16_update_xmodem: "crc16_update crc src = xmodem crc src"
proof -
  have "ucast (foldl (\<lambda>crc byte. crc_bits 8 (crc XOR push_bit 8 (ucast byte))) c src) = xmodem (ucast c) src" for c :: "32 word"
  proof (induction src arbitrary: c)
    case (Cons b src)
    have "(ucast (c XOR push_bit 8 (ucast b :: 32 word)) :: 16 word) = ucast c XOR push_bit 8 (ucast b)"
      by (rule bit_word_eqI) (auto simp: bit_simps)
    then show ?case by (simp add: Cons.IH xmodem_def crc_bits_shift del: funpow.simps)
  qed (simp add: xmodem_def)
  note this [of "ucast crc"] moreover have "(ucast (ucast crc :: 32 word) :: 16 word) = crc"
    by (rule bit_word_eqI) (auto simp: bit_simps)
  ultimately show ?thesis by (simp add: crc16_update_def)
qed

subsection \<open>A packet read is the packet written\<close>

text \<open>The calls of \<open>serial_packet_read\<close> until one of them is not busy, \<open>n\<close> at most.\<close>

primrec packet_loop :: "INT8U \<Rightarrow> nat \<Rightarrow> bl_state \<Rightarrow> status_t bl" where
  "packet_loop ptype 0 s = Inr (kStatus_Busy, s)"
| "packet_loop ptype (Suc n) s =
     (case serial_packet_read ptype s of
        Inl e \<Rightarrow> Inl e
      | Inr (st, s') \<Rightarrow> if st = kStatus_Busy then packet_loop ptype n s' else Inr (st, s'))"

definition frame_crc :: "INT8U \<Rightarrow> INT16U \<Rightarrow> INT8U list \<Rightarrow> INT16U" where
  "frame_crc ptype len pl = crc16_update (crc16_update 0 [kFramingPacketStartByte, ptype, put16 len 0, put16 len 1]) pl"

definition frame :: "INT8U \<Rightarrow> INT8U list \<Rightarrow> INT8U list" where
  "frame ptype pl =
     (let len = of_nat (length pl); crc = frame_crc ptype len pl
      in [kFramingPacketStartByte, ptype, put16 len 0, put16 len 1, put16 crc 0, put16 crc 1] @ pl)"

lemma get16_put16: "m 0 = put16 w 0 \<Longrightarrow> m 1 = put16 w 1 \<Longrightarrow> get16 m = w"
proof -
  assume m: "m 0 = put16 w 0" "m 1 = put16 w 1"
  show ?thesis unfolding get16_def m
    by (rule bit_word_eqI) (auto simp: put16_def bit_simps)
qed

definition clamp_write :: "serial_packet \<Rightarrow> serial_packet" where
  "clamp_write w = (if unat (get16 (lengthInBytes w)) > kPacket_MaxPayloadSize
     then w\<lparr>lengthInBytes := put16 (of_nat kPacket_MaxPayloadSize)\<rparr> else w)"

definition header_read :: "INT8U \<Rightarrow> INT8U \<Rightarrow> INT8U \<Rightarrow> INT8U \<Rightarrow> INT8U \<Rightarrow> INT8U list \<Rightarrow> bl_state \<Rightarrow> bl_state" where
  "header_read ptype a b c d rest s =
     s\<lparr>s_readPacket := (s_readPacket s)\<lparr>startByte := kFramingPacketStartByte, packetType := ptype,
         lengthInBytes := (lengthInBytes (s_readPacket s))(0 := a, 1 := b),
         crc16_field := (crc16_field (s_readPacket s))(0 := c, 1 := d)\<rparr>,
       s_packetState := kPacketState_Payload, s_stateCnt := 0, s_writePacket := clamp_write (s_writePacket s), bl_in := rest\<rparr>"

lemma read_header:
  assumes st: "s_packetState s = kPacketState_StartByte" "\<not> isAckNeeded s" and pt: "ptype \<noteq> kFramingPacketType_Ping"
    and inp: "bl_in s = [kFramingPacketStartByte, ptype, a, b, c, d] @ rest"
  shows "packet_loop ptype (6 + n) s = packet_loop ptype n (header_read ptype a b c d rest s)"
proof -
  have six: "6 + n = Suc (Suc (Suc (Suc (Suc (Suc n)))))" by simp
  show ?thesis unfolding six
    using st pt inp by (simp add: serial_packet_read_def read_byte_def packet_byte_def Let_def header_read_def clamp_write_def)
      (auto intro!: arg_cong [where f = "packet_loop ptype n"] bl_state.equality)
qed

definition put_bytes :: "nat \<Rightarrow> INT8U list \<Rightarrow> bl_state \<Rightarrow> bl_state" where
  "put_bytes k pl s =
     s\<lparr>s_readPacket := (s_readPacket s)\<lparr>payload := (\<lambda>a. if k \<le> a \<and> a < k + length pl then pl ! (a - k) else payload (s_readPacket s) a)\<rparr>\<rparr>"

lemma put_bytes_Cons:
  "put_bytes (Suc k) pl (s\<lparr>s_readPacket := (s_readPacket s)\<lparr>payload := (payload (s_readPacket s))(k := b)\<rparr>\<rparr>) = put_bytes k (b # pl) s"
proof -
  have "(if Suc k \<le> a \<and> a < Suc k + length pl then pl ! (a - Suc k) else ((payload (s_readPacket s))(k := b)) a)
      = (if k \<le> a \<and> a < k + length (b # pl) then (b # pl) ! (a - k) else payload (s_readPacket s) a)" for a
    by (cases "a = k") (auto simp: nth_Cons' not_le)
  then show ?thesis by (auto simp: put_bytes_def fun_eq_iff intro!: bl_state.equality serial_packet.equality)
qed

text \<open>The bytes of the payload, the last one included or not.\<close>

lemma read_payload_byte:
  assumes st: "s_packetState s = kPacketState_Payload" "\<not> isAckNeeded s" and inp: "bl_in s = b # rest" and k: "s_stateCnt s < 32"
  shows "serial_packet_read ptype s =
    (let t = s\<lparr>bl_in := rest, s_readPacket := (s_readPacket s)\<lparr>payload := (payload (s_readPacket s))(s_stateCnt s := b)\<rparr>,
           s_stateCnt := s_stateCnt s + 1\<rparr>
     in Inr (if s_stateCnt s + 1 \<ge> unat (get16 (lengthInBytes (s_readPacket s)))
             then packet_check (t\<lparr>s_packetState := kPacketState_StartByte\<rparr>) else (kStatus_Busy, t)))"
  using assms by (simp add: serial_packet_read_def read_byte_def packet_byte_def Let_def)

lemma packet_check_not_busy: "fst (packet_check s) \<noteq> kStatus_Busy"
  by (simp add: packet_check_def Let_def)

lemma read_payload:
  assumes "s_packetState s = kPacketState_Payload" and "\<not> isAckNeeded s" and "bl_in s = pl @ rest" and "pl \<noteq> []"
    and "s_stateCnt s + length pl = unat (get16 (lengthInBytes (s_readPacket s)))" and "s_stateCnt s + length pl \<le> 32"
  shows "packet_loop ptype (length pl + n) s =
    Inr (packet_check ((put_bytes (s_stateCnt s) pl s)\<lparr>s_packetState := kPacketState_StartByte, bl_in := rest,
       s_stateCnt := s_stateCnt s + length pl\<rparr>))"
  using assms
proof (induction pl arbitrary: s)
  case (Cons b pl)
  let ?p = "(s_readPacket s)\<lparr>payload := (payload (s_readPacket s))(s_stateCnt s := b)\<rparr>"
  define t where "t = s\<lparr>bl_in := pl @ rest, s_readPacket := ?p, s_stateCnt := s_stateCnt s + 1\<rparr>"
  note r = read_payload_byte [where ptype = ptype, OF Cons.prems(1,2) Cons.prems(3) [simplified], unfolded Let_def, folded t_def]
  show ?case
  proof (cases "pl = []")
    case True
    have "t\<lparr>s_packetState := kPacketState_StartByte\<rparr> = (put_bytes (s_stateCnt s) [b] s)\<lparr>s_packetState := kPacketState_StartByte, bl_in := rest,
       s_stateCnt := s_stateCnt s + 1\<rparr>"
      by (auto simp: t_def True put_bytes_def fun_eq_iff intro!: bl_state.equality serial_packet.equality)
    moreover obtain st u where c: "packet_check (t\<lparr>s_packetState := kPacketState_StartByte\<rparr>) = (st, u)" by fastforce
    moreover have "st \<noteq> kStatus_Busy" using packet_check_not_busy [of "t\<lparr>s_packetState := kPacketState_StartByte\<rparr>"] c by simp
    moreover have "serial_packet_read ptype s = Inr (st, u)" using True Cons.prems(5,6) r c by simp
    ultimately show ?thesis by (simp add: True)
  next
    case False
    have b: "serial_packet_read ptype s = Inr (kStatus_Busy, t)"
      using r False Cons.prems(5,6) by (cases pl) simp_all
    have "packet_loop ptype (length pl + n) t = Inr (packet_check ((put_bytes (s_stateCnt t) pl t)\<lparr>s_packetState := kPacketState_StartByte, bl_in := rest,
       s_stateCnt := s_stateCnt t + length pl\<rparr>))"
      by (rule Cons.IH) (use Cons.prems False in \<open>simp_all add: t_def\<close>)
    moreover have "(put_bytes (s_stateCnt t) pl t)\<lparr>s_packetState := kPacketState_StartByte, bl_in := rest, s_stateCnt := s_stateCnt t + length pl\<rparr>
      = (put_bytes (s_stateCnt s) (b # pl) s)\<lparr>s_packetState := kPacketState_StartByte, bl_in := rest, s_stateCnt := s_stateCnt s + length (b # pl)\<rparr>"
      unfolding put_bytes_Cons [of "s_stateCnt s" pl s b, symmetric]
      by (auto simp: t_def put_bytes_def cong: if_cong intro!: bl_state.equality)
    ultimately show ?thesis using b by simp
  qed
qed simp

text \<open>What the writer puts on the line: pending acknowledgements, then a frame.\<close>

definition out_length :: "bl_state \<Rightarrow> nat" where
  "out_length s = 4 * (1 + unat (payload (s_writePacket s) 3))"

definition acks :: "bl_state \<Rightarrow> INT8U list" where
  "acks s = (if isAckNeeded s then s_packet_ack else []) @ (if isAckAbortNeeded s then s_packet_abort else [])"

lemma calculate_crc_frame:
  assumes "startByte p = kFramingPacketStartByte" and "get16 (lengthInBytes p) = of_nat (length pl)" and "length pl < 65536"
    and "lengthInBytes p 0 = put16 (of_nat (length pl)) 0" and "lengthInBytes p 1 = put16 (of_nat (length pl)) 1"
    and "map (payload p) [0..<length pl] = pl"
  shows "calculate_crc p = frame_crc (packetType p) (of_nat (length pl)) pl"
proof -
  have "unat (of_nat (length pl) :: 16 word) = length pl" using assms(3) by (simp add: unat_of_nat take_bit_eq_mod)
  then show ?thesis using assms by (simp add: calculate_crc_def frame_crc_def Let_def)
qed

lemma serial_packet_write_frame:
  assumes pc: "out_length s \<le> 32" and pl: "pl = map (payload (s_writePacket s)) [0..<out_length s]"
    and inp: "bl_in s = b # c # rest"
  shows "\<exists>st s'. serial_packet_write s = Inr (st, s') \<and> bl_out s' = bl_out s @ acks s @ frame kFramingPacketType_Command pl
    \<and> (st = kStatus_Success \<longleftrightarrow> b = kFramingPacketStartByte \<and> c = kFramingPacketType_Ack) \<and> bl_in s' = rest"
proof -
  let ?w = "s_writePacket s"
  have len: "length pl = out_length s" by (simp add: pl)
  have u: "unat (payload ?w 3) < 8" using pc by (simp add: out_length_def)
  have l16: "(1 + ucast (payload ?w 3)) * 4 = (of_nat (length pl) :: 16 word)"
  proof -
    have "of_nat (unat (payload ?w 3)) = (ucast (payload ?w 3) :: 16 word)" by (simp add: unsigned_ucast_eq)
    then show ?thesis by (simp add: len out_length_def algebra_simps)
  qed
  have ul: "unat (of_nat (length pl) :: 16 word) = length pl" using pc by (simp add: len unat_of_nat take_bit_eq_mod)
  define w where "w = ?w\<lparr>startByte := kFramingPacketStartByte, packetType := kFramingPacketType_Command, lengthInBytes := put16 (of_nat (length pl))\<rparr>"
  have crc: "calculate_crc w = frame_crc kFramingPacketType_Command (of_nat (length pl)) pl"
    using calculate_crc_frame [of w pl] pc by (simp add: w_def get16_put16 len) (simp add: pl)
  have m: "map (payload ?w) [0..<length pl] = pl" unfolding len by (rule pl [symmetric])
  define s1 where "s1 = (if isAckNeeded s then bl_write s_packet_ack (s\<lparr>isAckNeeded := False\<rparr>) else s)"
  define s2 where "s2 = (if isAckAbortNeeded s1 then bl_write s_packet_abort (s1\<lparr>isAckAbortNeeded := False\<rparr>) else s1)"
  have s2: "s_writePacket s2 = ?w" "bl_in s2 = bl_in s" "bl_out s2 = bl_out s @ acks s"
    by (auto simp: s2_def s1_def bl_write_def acks_def)
  have e: "serial_packet_write s =
    (let s = s2\<lparr>s_writePacket := w\<lparr>crc16_field := put16 (calculate_crc w)\<rparr>\<rparr>;
         w = s_writePacket s;
         s = bl_write [startByte w, packetType w, lengthInBytes w 0, lengthInBytes w 1, crc16_field w 0, crc16_field w 1] s;
         s = bl_write (map (payload w) [0..<length pl]) s
     in case read_byte s of
          Inl e \<Rightarrow> Inl e
        | Inr (start_byte, s) \<Rightarrow>
            (case read_byte s of
               Inl e \<Rightarrow> Inl e
             | Inr (packet_type, s) \<Rightarrow>
                 Inr (if start_byte = kFramingPacketStartByte \<and> packet_type = kFramingPacketType_Ack
                      then kStatus_Success else kStatus_Fail, s)))"
    unfolding serial_packet_write_def Let_def s1_def [symmetric] s2_def [symmetric] s2(1) l16 ul w_def by simp
  show ?thesis
    unfolding e crc using inp s2 m
    by (simp add: read_byte_def bl_write_def frame_def Let_def w_def)
qed

lemma packet_accepted:
  assumes st: "s_packetState s = kPacketState_StartByte" "\<not> isAckNeeded s" and pt: "ptype \<noteq> kFramingPacketType_Ping"
    and pl: "pl \<noteq> []" "length pl \<le> kPacket_MaxPayloadSize" and inp: "bl_in s = frame ptype pl @ rest"
  shows "\<exists>s'. packet_loop ptype (length (frame ptype pl)) s = Inr (kStatus_Success, s')
    \<and> s_packetState s' = kPacketState_StartByte \<and> isAckNeeded s' \<and> bl_in s' = rest \<and> bl_out s' = bl_out s
    \<and> packetType (s_readPacket s') = ptype \<and> get16 (lengthInBytes (s_readPacket s')) = of_nat (length pl)
    \<and> map (payload (s_readPacket s')) [0..<length pl] = pl"
proof -
  define n where "n = length pl"
  define crc where "crc = frame_crc ptype (of_nat n) pl"
  define h where "h = header_read ptype (put16 (of_nat n) 0) (put16 (of_nat n) 1) (put16 crc 0) (put16 crc 1) (pl @ rest) s"
  define u where "u = (put_bytes (s_stateCnt h) pl h)\<lparr>s_packetState := kPacketState_StartByte, bl_in := rest, s_stateCnt := s_stateCnt h + n\<rparr>"
  have un: "unat (of_nat n :: 16 word) = n" using pl(2) by (simp add: n_def unat_of_nat take_bit_eq_mod)
  have hl: "get16 (lengthInBytes (s_readPacket h)) = of_nat n"
    by (simp add: h_def header_read_def get16_put16)
  have len: "length (frame ptype pl) = 6 + n" by (simp add: frame_def Let_def n_def)
  have "packet_loop ptype (length (frame ptype pl)) s = packet_loop ptype n h"
    unfolding len h_def
    by (rule read_header [OF st pt]) (use inp in \<open>simp add: frame_def Let_def n_def crc_def\<close>)
  also have "\<dots> = packet_loop ptype (length pl + 0) h" by (simp add: n_def)
  also have "\<dots> = Inr (packet_check u)"
    unfolding u_def n_def
    by (rule read_payload) (use st pl un hl in \<open>simp_all add: n_def\<close>, simp_all add: h_def header_read_def)
  finally have loop: "packet_loop ptype (length (frame ptype pl)) s = Inr (packet_check u)" .
  have rp: "s_readPacket u = (s_readPacket h)\<lparr>payload := payload (s_readPacket u)\<rparr>"
    by (simp add: u_def put_bytes_def)
  have m: "map (payload (s_readPacket u)) [0..<n] = pl"
    by (rule nth_equalityI) (simp_all add: u_def put_bytes_def n_def h_def header_read_def)
  have ul: "get16 (lengthInBytes (s_readPacket u)) = of_nat n" using hl rp by (metis serial_packet.select_convs(3) serial_packet.surjective serial_packet.update_convs(5))
  have uh: "startByte (s_readPacket u) = kFramingPacketStartByte" "packetType (s_readPacket u) = ptype"
      "lengthInBytes (s_readPacket u) 0 = put16 (of_nat n) 0" "lengthInBytes (s_readPacket u) 1 = put16 (of_nat n) 1"
      "crc16_field (s_readPacket u) 0 = put16 crc 0" "crc16_field (s_readPacket u) 1 = put16 crc 1"
    by (simp_all add: u_def put_bytes_def h_def header_read_def)
  have "calculate_crc (s_readPacket u) = crc"
    using calculate_crc_frame [of "s_readPacket u" pl] uh ul m pl(2) by (simp add: n_def crc_def)
  moreover have "get16 (crc16_field (s_readPacket u)) = crc" by (rule get16_put16 [OF uh(5,6)])
  ultimately have c: "packet_check u = (kStatus_Success, u\<lparr>isAckNeeded := True\<rparr>)" by (simp add: packet_check_def)
  show ?thesis
    unfolding loop c using ul m uh(2)
    by (simp add: n_def) (simp add: u_def put_bytes_def h_def header_read_def)
qed

text \<open>
  C31 Packets round trip: what \<open>serial_packet_write\<close> puts on the line after its pending acknowledgements
  is a frame that the reader of the other side, waiting for a packet, takes with a success, as the same payload
  bytes, with an acknowledgement due and everything after the frame left in the line; and the writer reports a
  success just when the two bytes that answer it are an acknowledgement.
\<close>

theorem packet_roundtrip:
  assumes "out_length a \<le> kPacket_MaxPayloadSize" and "bl_in a = x # y # tail"
  shows "\<exists>st a' fr. serial_packet_write a = Inr (st, a') \<and> bl_in a' = tail
    \<and> (st = kStatus_Success \<longleftrightarrow> [x, y] = s_packet_ack) \<and> bl_out a' = bl_out a @ acks a @ fr
    \<and> (\<forall>s rest. s_packetState s = kPacketState_StartByte \<and> \<not> isAckNeeded s \<and> bl_in s = fr @ rest \<longrightarrow>
         (\<exists>s'. packet_loop kFramingPacketType_Command (length fr) s = Inr (kStatus_Success, s')
            \<and> s_packetState s' = kPacketState_StartByte \<and> isAckNeeded s' \<and> bl_in s' = rest \<and> bl_out s' = bl_out s
            \<and> get16 (lengthInBytes (s_readPacket s')) = of_nat (out_length a)
            \<and> map (payload (s_readPacket s')) [0..<out_length a] = map (payload (s_writePacket a)) [0..<out_length a]))"
proof -
  define pl where "pl = map (payload (s_writePacket a)) [0..<out_length a]"
  define fr where "fr = frame kFramingPacketType_Command pl"
  obtain st a' where w: "serial_packet_write a = Inr (st, a')" "bl_out a' = bl_out a @ acks a @ fr"
      "st = kStatus_Success \<longleftrightarrow> [x, y] = s_packet_ack" "bl_in a' = tail"
    using serial_packet_write_frame [OF assms(1) pl_def assms(2)] by (auto simp: s_packet_ack_def fr_def)
  have l: "length pl = out_length a" by (simp add: pl_def)
  have ne: "pl \<noteq> []" by (simp add: pl_def out_length_def)
  have "\<exists>s'. packet_loop kFramingPacketType_Command (length fr) s = Inr (kStatus_Success, s')
      \<and> s_packetState s' = kPacketState_StartByte \<and> isAckNeeded s' \<and> bl_in s' = rest \<and> bl_out s' = bl_out s
      \<and> get16 (lengthInBytes (s_readPacket s')) = of_nat (out_length a)
      \<and> map (payload (s_readPacket s')) [0..<out_length a] = pl"
    if "s_packetState s = kPacketState_StartByte" "\<not> isAckNeeded s" "bl_in s = fr @ rest" for s rest
    using packet_accepted [OF that(1,2) _ ne _ that(3) [unfolded fr_def]] assms(1) unfolding l fr_def by auto
  with w show ?thesis unfolding pl_def [symmetric] by blast
qed

definition ex_packet :: serial_packet where
  "ex_packet = \<lparr>startByte = 0, packetType = 0, lengthInBytes = (\<lambda>_. 0), crc16_field = (\<lambda>_. 0), payload = (\<lambda>_. 0)\<rparr>"

definition ex_bl :: "INT8U list \<Rightarrow> bl_state" where
  "ex_bl inp = \<lparr>s_packetState = 0, s_stateCnt = 0, s_readPacket = ex_packet, s_writePacket = ex_packet, isAckNeeded = False,
     isAckAbortNeeded = False, bl_phase = kCommandPhase_Command, isActive = False, bl_address = 0, bl_count = 0,
     bl_in = inp, bl_out = [], bl_flash = \<lparr>FCCOB = (\<lambda>_. 0), FSTAT = 0, flash_mem = (\<lambda>_. - 1)\<rparr>\<rparr>"

theorem packet_roundtrip_witness:
  "\<exists>st a' fr s'. serial_packet_write (ex_bl s_packet_ack) = Inr (st, a') \<and> st = kStatus_Success \<and> bl_out a' = fr
    \<and> packet_loop kFramingPacketType_Command (length fr) (ex_bl (fr @ [1, 2])) = Inr (kStatus_Success, s') \<and> bl_in s' = [1, 2]
    \<and> map (payload (s_readPacket s')) [0..<4] = [0, 0, 0, 0]"
proof -
  let ?a = "ex_bl s_packet_ack"
  have o: "out_length ?a = 4" "bl_in ?a = [0x5A, 0xA1]" "bl_out ?a = []" "acks ?a = []"
    and p: "map (payload (s_writePacket ?a)) [0..<4] = [0, 0, 0, 0]"
    by (simp_all add: out_length_def ex_bl_def ex_packet_def s_packet_ack_def acks_def upt_rec)
  have ack: "[0x5A, 0xA1] = s_packet_ack" by (simp add: s_packet_ack_def)
  have "out_length ?a \<le> kPacket_MaxPayloadSize" by (simp add: o)
  from packet_roundtrip [OF this o(2), unfolded o append_Nil p]
  obtain st a' fr where w: "serial_packet_write ?a = Inr (st, a')" "st = kStatus_Success" "bl_out a' = fr"
      and r: "\<forall>s rest. s_packetState s = kPacketState_StartByte \<and> \<not> isAckNeeded s \<and> bl_in s = fr @ rest \<longrightarrow>
         (\<exists>s'. packet_loop kFramingPacketType_Command (length fr) s = Inr (kStatus_Success, s')
            \<and> s_packetState s' = kPacketState_StartByte \<and> isAckNeeded s' \<and> bl_in s' = rest \<and> bl_out s' = bl_out s
            \<and> get16 (lengthInBytes (s_readPacket s')) = of_nat 4 \<and> map (payload (s_readPacket s')) [0..<4] = [0, 0, 0, 0])"
    by (elim exE conjE) (rule that, assumption, erule iffD2, rule ack, assumption, assumption)
  have "s_packetState (ex_bl (fr @ [1, 2])) = kPacketState_StartByte \<and> \<not> isAckNeeded (ex_bl (fr @ [1, 2]))
    \<and> bl_in (ex_bl (fr @ [1, 2])) = fr @ [1, 2]" by (simp add: ex_bl_def)
  from r [rule_format, OF this] obtain s' where h: "bl_in s' = [1, 2]" "map (payload (s_readPacket s')) [0..<4] = [0, 0, 0, 0]"
      "packet_loop kFramingPacketType_Command (length fr) (ex_bl (fr @ [1, 2])) = Inr (kStatus_Success, s')"
    by (elim exE conjE) (rule that)
  show ?thesis
    by (rule exI [of _ st], rule exI [of _ a'], rule exI [of _ fr], rule exI [of _ s']) (simp only: w h)
qed

subsection \<open>The loader and its flash\<close>

text \<open>A command of the flash controller changes the sector it erases or the word it programs, no other byte.\<close>

definition hw_local :: "ftfl_hw \<Rightarrow> bool" where
  "hw_local hw \<longleftrightarrow> (\<forall>r m a.
     (r 0 = ERSSCR \<and> a div 2048 \<noteq> cmd_addr r div 2048 \<longrightarrow> snd (hw r m) a = m a)
   \<and> (r 0 = PGM4 \<and> a div 4 \<noteq> cmd_addr r div 4 \<longrightarrow> snd (hw r m) a = m a))"

lemma hw_localD:
  "hw_local hw \<Longrightarrow> r 0 = ERSSCR \<Longrightarrow> a div 2048 \<noteq> cmd_addr r div 2048 \<Longrightarrow> snd (hw r m) a = m a"
  "hw_local hw \<Longrightarrow> r 0 = PGM4 \<Longrightarrow> a div 4 \<noteq> cmd_addr r div 4 \<Longrightarrow> snd (hw r m) a = m a"
  by (simp_all add: hw_local_def)

lemma boot_cmd_addr:
  assumes "unat a < 16777216"
  shows "cmd_addr (FCCOB (set_FCCOB0 c (set_kFCCOBx 0 a f))) = unat a"
    and "cmd_addr (FCCOB (set_FCCOB0 c (set_kFCCOBx 1 w (set_kFCCOBx 0 a f)))) = unat a"
proof -
  have "unat a div 65536 mod 256 = unat a div 65536" using assms by (simp add: less_mult_imp_div_less)
  from byte_split [OF assms, unfolded this]
  show "cmd_addr (FCCOB (set_FCCOB0 c (set_kFCCOBx 0 a f))) = unat a"
    and "cmd_addr (FCCOB (set_FCCOB0 c (set_kFCCOBx 1 w (set_kFCCOBx 0 a f)))) = unat a"
    using \<open>unat a div 65536 mod 256 = unat a div 65536\<close>
    by (simp_all add: cmd_addr_def set_FCCOB0_def set_kFCCOBx_def unat_word_byte)
qed

lemma flash_command_mem: "flash_mem (snd (flash_command_sequence hw f)) = snd (hw (FCCOB f) (flash_mem f))"
  by (simp add: flash_command_sequence_def Let_def split: prod.splits)

lemma regs_mem [simp]: "flash_mem (set_FCCOB0 c f) = flash_mem f" "flash_mem (set_kFCCOBx i w f) = flash_mem f"
  by (simp_all add: set_FCCOB0_def set_kFCCOBx_def)

lemma regs_0 [simp]: "FCCOB (set_FCCOB0 c f) 0 = c"
  by (simp add: set_FCCOB0_def)

lemma align_down_2048: "unat (align_down a TARGET_FLASH_SECTOR_SIZE) = unat a - unat a mod 2048"
proof -
  have m: "TARGET_FLASH_SECTOR_SIZE - 1 = (mask 11 :: 32 word)" by (simp add: mask_eq_exp_minus_1)
  have "align_down a TARGET_FLASH_SECTOR_SIZE = push_bit 11 (drop_bit 11 a)"
    unfolding align_down_def m by (rule bit_word_eqI) (auto simp: bit_simps)
  also have "unat \<dots> = unat a div 2048 * 2048 mod 2 ^ 32"
    by (simp add: unsigned_push_bit_eq unsigned_drop_bit_eq take_bit_eq_mod push_bit_eq_mult drop_bit_eq_div unat_word_ariths unat_div_distrib mod_simps)
  also have "\<dots> = unat a div 2048 * 2048"
    using div_times_less_eq_dividend [of "unat a" 2048] unsigned_less [of a, where 'a = nat] by (intro mod_less) simp
  also have "\<dots> = unat a - unat a mod 2048" by (rule minus_mod_eq_div_mult [symmetric])
  finally show ?thesis .
qed

lemma unat_of_nat_id: "n < 2 ^ LENGTH('a::len) \<Longrightarrow> unat (of_nat n :: 'a word) = n"
  by (simp add: unat_of_nat take_bit_eq_mod)

lemma flash_erase_loop_above:
  assumes hw: "hw_local hw"
  shows "unat start mod 2048 = 0 \<Longrightarrow> 0x5000 \<le> unat start \<Longrightarrow> unat start + 2048 * k \<le> 16777216 \<Longrightarrow>
    \<exists>st f'. flash_erase_loop hw start (of_nat (512 * k)) f = Some (st, f') \<and> (\<forall>a < 0x5000. flash_mem f' a = flash_mem f a)"
proof (induction k arbitrary: start f)
  case (Suc k)
  define g where "g = set_FCCOB0 ERSSCR (set_kFCCOBx 0 start f)"
  obtain st f1 where c: "flash_command_sequence hw g = (st, f1)" by fastforce
  have n: "of_nat (512 * Suc k) \<noteq> (0 :: 32 word)" "of_nat (512 * Suc k) - drop_bit 2 TARGET_FLASH_SECTOR_SIZE = (of_nat (512 * k) :: 32 word)"
  proof -
    have "unat (of_nat (512 * Suc k) :: 32 word) = 512 * Suc k"
      by (rule unat_of_nat_id) (use Suc.prems(3) in simp)
    then show "of_nat (512 * Suc k) \<noteq> (0 :: 32 word)" by (metis unat_0 mult_eq_0_iff nat.distinct(1) zero_neq_numeral)
    show "of_nat (512 * Suc k) - drop_bit 2 TARGET_FLASH_SECTOR_SIZE = (of_nat (512 * k) :: 32 word)" by simp
  qed
  have f1: "flash_mem f1 a = flash_mem f a" if a: "a < 0x5000" for a
  proof -
    have "a div 2048 < unat start div 2048" 
      using less_mult_imp_div_less [of a 10 2048] a div_le_mono [OF Suc.prems(2), of 2048] by simp
    moreover have "cmd_addr (FCCOB g) = unat start" unfolding g_def using Suc.prems(3) by (intro boot_cmd_addr) simp
    ultimately have "snd (hw (FCCOB g) (flash_mem g)) a = flash_mem g a"
      by (intro hw_localD(1) [OF hw]) (simp_all add: g_def)
    then show ?thesis using flash_command_mem [of hw g] c by (simp add: g_def)
  qed
  have u: "unat (start + TARGET_FLASH_SECTOR_SIZE) = unat start + 2048"
    using Suc.prems(3) by (simp add: unat_word_ariths)
  show ?case
  proof (cases "st = kStatus_Success")
    case False
    then show ?thesis
      using f1 n(1) c by (subst flash_erase_loop.simps) (simp add: g_def del: of_nat_mult of_nat_Suc mult_Suc_right)
  next
    case True
    have "(unat start + 2048) mod 2048 = 0" using Suc.prems(1) by simp
    then obtain st' f' where i: "flash_erase_loop hw (start + TARGET_FLASH_SECTOR_SIZE) (of_nat (512 * k)) f1 = Some (st', f')"
        "\<forall>a < 0x5000. flash_mem f' a = flash_mem f1 a"
      using Suc.IH [of "start + TARGET_FLASH_SECTOR_SIZE" f1] Suc.prems(2,3) unfolding u by auto
    have "flash_erase_loop hw start (of_nat (512 * Suc k)) f = Some (st', f')"
      by (subst flash_erase_loop.simps) (use n c True i(1) in \<open>simp only: Let_def g_def [symmetric] prod.case not_True_eq_False if_False if_True simp_thms\<close>)
    then show ?thesis using i(2) f1 by auto
  qed
qed (simp add: flash_erase_loop.simps)

lemma flash_erase_above:
  assumes hw: "hw_local hw" and v: "APPLICATION_BASE \<le> start" and fit: "unat start + unat len + 2047 \<le> 16777216"
  shows "\<exists>st f'. flash_erase hw start len f = Some (st, f') \<and> (\<forall>a < 0x5000. flash_mem f' a = flash_mem f a)"
proof -
  define b where "b = align_down start TARGET_FLASH_SECTOR_SIZE"
  define k where "k = (unat start mod 2048 + unat len + 2047) div 2048"
  have b: "unat b = unat start - unat start mod 2048" by (simp add: b_def align_down_2048)
  have s: "0x5000 \<le> unat start" using v by (simp add: word_le_nat_alt)
  have x: "unat (start - b + len + TARGET_FLASH_SECTOR_SIZE - 1) = unat start mod 2048 + unat len + 2047"
  proof -
    have "start - b = of_nat (unat start mod 2048)"
      by (subst word_unat_eq_iff) (use b mod_less_eq_dividend [of "unat start" 2048] in \<open>simp add: unat_sub word_le_nat_alt unat_of_nat take_bit_eq_mod\<close>)
    then have e: "start - b + len + TARGET_FLASH_SECTOR_SIZE - 1 = of_nat (unat start mod 2048 + unat len + 2047)" by simp
    have "unat start mod 2048 \<le> unat start" by simp
    then have "unat start mod 2048 + unat len + 2047 < 2 ^ LENGTH(32)" using fit by simp
    then show ?thesis unfolding e by (rule unat_of_nat_id)
  qed
  have "unat (align_up (start - b + len) TARGET_FLASH_SECTOR_SIZE) = 4 * (512 * k)"
    unfolding align_up_def align_down_2048 x minus_mod_eq_div_mult k_def by simp
  then have "unat (drop_bit 2 (align_up (start - b + len) TARGET_FLASH_SECTOR_SIZE)) = 512 * k"
    by (simp add: drop_bit_eq_div unat_div_distrib)
  then have al: "drop_bit 2 (align_up (start - b + len) TARGET_FLASH_SECTOR_SIZE) = of_nat (512 * k)"
    by (metis of_nat_unat ucast_id)
  have "2048 * k \<le> unat start mod 2048 + unat len + 2047" by (simp add: k_def)
  then have "unat b + 2048 * k \<le> 16777216" using fit b mod_less_eq_dividend [of "unat start" 2048] by linarith
  moreover have b': "unat b = unat start div 2048 * 2048" using b by (simp add: minus_mod_eq_div_mult)
  moreover have "0x5000 \<le> unat b" using div_le_mono [OF s, of 2048] b' by simp
  moreover have "unat b mod 2048 = 0" by (simp add: b')
  ultimately show ?thesis
    unfolding flash_erase_def Let_def b_def [symmetric] al using flash_erase_loop_above [OF hw, of b k f] by simp
qed

lemma flash_program_loop_above:
  "hw_local hw \<Longrightarrow> unat start mod 4 = 0 \<Longrightarrow> 0x5000 \<le> unat start \<Longrightarrow> unat start + unat len \<le> 16777216 \<Longrightarrow>
    a < 0x5000 \<Longrightarrow> flash_mem (snd (snd (flash_program_loop hw start src len m f))) a = flash_mem f a"
proof (induction hw start src len m f rule: flash_program_loop.induct)
  case (1 hw start src len m f)
  show ?case
  proof (cases "len = 0")
    case True
    then show ?thesis by (simp add: flash_program_loop.simps)
  next
    case False
    define m' where "m' = (if len < 4 then pad_word src len m else m)"
    define g where "g = set_FCCOB0 PGM4 (set_kFCCOBx 1 (get32 m' src) (set_kFCCOBx 0 start f))"
    obtain st f1 where c: "flash_command_sequence hw g = (st, f1)" by fastforce
    have l: "unat len > 0" using False by (simp add: unat_gt_0)
    have f1: "flash_mem f1 a = flash_mem f a"
    proof -
      have "a div 4 < unat start div 4" using "1.prems"(2,3,5) by presburger
      moreover have "cmd_addr (FCCOB g) = unat start" unfolding g_def using "1.prems"(4) l by (intro boot_cmd_addr) simp
      ultimately have "snd (hw (FCCOB g) (flash_mem g)) a = flash_mem g a"
        by (intro hw_localD(2) [OF "1.prems"(1)]) (simp_all add: g_def)
      then show ?thesis using flash_command_mem [of hw g] c by (simp add: g_def)
    qed
    define len' where "len' = len - (if len > 4 then 4 else len)"
    have rec: "flash_program_loop hw start src len m f =
        (if st \<noteq> kStatus_Success then (st, m', f1) else flash_program_loop hw (start + 4) (src + 4) len' m' f1)"
      using False c by (subst flash_program_loop.simps) (simp add: Let_def m'_def [symmetric] g_def [symmetric] len'_def del: One_nat_def)
    show ?thesis
    proof (cases "st = kStatus_Success \<and> len' \<noteq> 0")
      case False
      then show ?thesis using rec f1 by (auto simp: flash_program_loop.simps)
    next
      case True
      then have "len > 4" by (auto simp: len'_def split: if_splits)
      then have l4: "unat len' = unat len - 4" "unat len > 4" by (simp_all add: len'_def unat_sub word_less_nat_alt word_le_nat_alt)
      have s4: "unat (start + 4) = unat start + 4" using "1.prems"(4) l4 by (simp add: unat_word_ariths)
      have "flash_mem (snd (snd (flash_program_loop hw (start + 4) (src + 4) len' m' f1))) a = flash_mem f1 a"
        by (rule "1.IH" [OF False m'_def g_def c [symmetric], folded len'_def])
          (use True "1.prems" l4 s4 in simp_all)
      then show ?thesis using rec True f1 by simp
    qed
  qed
qed


text \<open>A controller in which every command succeeds.\<close>

definition ftfl_plain :: ftfl_hw where
  "ftfl_plain r m = (0x80, if r 0 = ERSSCR then (\<lambda>a. if a div 2048 = cmd_addr r div 2048 then - 1 else m a)
     else (\<lambda>a. if a div 4 = cmd_addr r div 4 then m a AND r (7 - a mod 4) else m a))"

lemma ftfl_plain_local: "hw_local ftfl_plain"
  by (simp add: hw_local_def ftfl_plain_def)


text \<open>
  The range check looks at 32 bits, the command registers hold 24: an erase at \<open>0x01000000\<close> passes the check
  and erases the first sector, where the loader's own vectors are.
\<close>

lemma erase_wraps:
  "is_valid_memory_range 0x01000000 2048"
  "\<exists>f'. flash_erase ftfl_plain 0x01000000 2048 f = Some (kStatus_Success, f') \<and> (\<forall>a < 2048. flash_mem f' a = - 1)"
proof -
  show "is_valid_memory_range 0x01000000 2048" by (simp add: is_valid_memory_range_def)
  define g where "g = set_FCCOB0 ERSSCR (set_kFCCOBx 0 0x01000000 f)"
  have c0: "cmd_addr (FCCOB g) = 0" by (simp add: g_def cmd_addr_def set_FCCOB0_def set_kFCCOBx_def unat_word_byte)
  obtain f1 where c: "flash_command_sequence ftfl_plain g = (kStatus_Success, f1)" and m: "\<forall>a < 2048. flash_mem f1 a = - 1"
    using c0 by (simp add: flash_command_sequence_def ftfl_plain_def g_def)
  have "align_down 0x01000000 2048 = 0x01000000" "align_up 2048 2048 = 2048" by (simp_all add: align_up_def align_down_def)
  then have "flash_erase ftfl_plain 0x01000000 2048 f = flash_erase_loop ftfl_plain 0x01000000 512 f"
    by (simp add: flash_erase_def Let_def)
  also have "\<dots> = flash_erase_loop ftfl_plain 0x01000800 0 f1"
    by (subst flash_erase_loop.simps) (simp add: Let_def g_def [symmetric] c)
  also have "\<dots> = Some (kStatus_Success, f1)" by (simp add: flash_erase_loop.simps)
  finally show "\<exists>f'. flash_erase ftfl_plain 0x01000000 2048 f = Some (kStatus_Success, f') \<and> (\<forall>a < 2048. flash_mem f' a = - 1)"
    using m by blast
qed

subsection \<open>Errors of the protocol\<close>

text \<open>
  The length of the incoming packet is not checked: the test after it looks at (and cuts) the length of the outgoing
  packet.  A header with a length above 32 and 33 bytes after it write past the buffer.
\<close>

lemma payload_overflow:
  assumes "s_packetState s = kPacketState_Payload" "\<not> isAckNeeded s" "s_stateCnt s \<le> 32"
    and "32 < unat (get16 (lengthInBytes (s_readPacket s)))" and "33 \<le> s_stateCnt s + length (bl_in s)"
  shows "\<exists>u. packet_loop ptype (33 - s_stateCnt s) s = Inl (Out_Of_Bounds, u)"
  using assms
proof (induction "33 - s_stateCnt s" arbitrary: s)
  case (Suc n)
  obtain b bs where b: "bl_in s = b # bs" using Suc.prems(3,5) by (cases "bl_in s") auto
  show ?case
  proof (cases "s_stateCnt s = 32")
    case True
    then have "serial_packet_read ptype s = Inl (Out_Of_Bounds, s\<lparr>bl_in := bs\<rparr>)"
      using Suc.prems(1,2) b by (simp add: serial_packet_read_def read_byte_def packet_byte_def Let_def)
    moreover have "33 - s_stateCnt s = Suc 0" using True by simp
    ultimately show ?thesis by simp
  next
    case False
    define t where "t = s\<lparr>bl_in := bs, s_readPacket := (s_readPacket s)\<lparr>payload := (payload (s_readPacket s))(s_stateCnt s := b)\<rparr>,
      s_stateCnt := s_stateCnt s + 1\<rparr>"
    have lt: "s_stateCnt s < 32" using False Suc.prems(3) by simp
    then have "serial_packet_read ptype s = Inr (kStatus_Busy, t)"
      using read_payload_byte [where ptype = ptype, OF Suc.prems(1,2) b lt, unfolded Let_def, folded t_def] Suc.prems(4) by simp
    moreover have "\<exists>u. packet_loop ptype (33 - s_stateCnt t) t = Inl (Out_Of_Bounds, u)"
      by (rule Suc.hyps(1)) (use Suc.hyps(2) Suc.prems lt b in \<open>simp_all add: t_def\<close>)
    moreover have "33 - s_stateCnt s = Suc (33 - s_stateCnt t)" using lt by (simp add: t_def)
    ultimately show ?thesis by simp
  qed
qed simp

lemma stuck_step:
  assumes "s_packetState s > 4"
  shows "bootloader_step hw sdid s = (case bl_in s of
      [] \<Rightarrow> Inl (Need_Byte, s\<lparr>isAckNeeded := False, bl_out := bl_out s @ (if isAckNeeded s then s_packet_ack else [])\<rparr>)
    | b # bs \<Rightarrow> Inr (s\<lparr>isAckNeeded := False, bl_out := bl_out s @ (if isAckNeeded s then s_packet_ack else []), bl_in := bs\<rparr>))"
  using assms
  by (cases "bl_in s"; cases "isAckNeeded s")
    (auto simp: bootloader_step_def serial_packet_read_def read_byte_def packet_byte_def bl_write_def Let_def intro!: bl_state.equality)

lemma stuck_loop:
  "s_packetState s > 4 \<Longrightarrow> bootloader_loop hw sdid s = (Need_Byte, s\<lparr>isAckNeeded := False,
     bl_out := bl_out s @ (if isAckNeeded s then s_packet_ack else []), bl_in := []\<rparr>)"
proof (induction "bl_in s" arbitrary: s)
  case Nil
  then show ?case by (subst bootloader_loop.simps) (auto simp: stuck_step intro!: bl_state.equality)
next
  case (Cons b bs)
  show ?case
    by (subst bootloader_loop.simps, simp only: stuck_step [OF Cons.prems] Cons.hyps(2) [symmetric] list.case sum.case, subst Cons.hyps(1))
      (use Cons.prems in \<open>auto intro!: bl_state.equality\<close>)
qed

text \<open>
  C39 A single wrong byte silences the loader for ever: a byte after the start byte that is neither a ping nor
  the expected packet type puts the reader in a state no case handles, and whatever is sent from then on is read and
  dropped: no command is executed, no answer is given (but the acknowledgement that was due before), the flash stays as it is.
\<close>

theorem bootloader_stuck:
  assumes "s_packetState s = kPacketState_PacketTye" and "bl_in s = b # bs" and "b \<noteq> kFramingPacketType_Ping"
    and "b \<noteq> (if bl_phase s = kCommandPhase_Command then kFramingPacketType_Command else kFramingPacketType_Data)"
  shows "bootloader_run hw sdid s = (Need_Byte, s\<lparr>isActive := False, s_packetState := 0x5A, isAckNeeded := False,
    bl_out := bl_out s @ (if isAckNeeded s then s_packet_ack else []), bl_in := []\<rparr>)"
proof -
  define t where "t = s\<lparr>isActive := False, s_packetState := 0x5A, isAckNeeded := False,
    bl_out := bl_out s @ (if isAckNeeded s then s_packet_ack else []), bl_in := bs\<rparr>"
  have "bootloader_step hw sdid (s\<lparr>isActive := False\<rparr>) = Inr t"
    using assms by (cases "isAckNeeded s")
      (auto simp: t_def bootloader_step_def serial_packet_read_def read_byte_def packet_byte_def bl_write_def Let_def intro!: bl_state.equality)
  then have "bootloader_run hw sdid s = bootloader_loop hw sdid t"
    unfolding bootloader_run_def by (subst bootloader_loop.simps) simp
  also have "\<dots> = (Need_Byte, t\<lparr>bl_in := []\<rparr>)"
    using stuck_loop [of t hw sdid] by (auto simp: t_def intro!: bl_state.equality)
  finally show ?thesis by (simp add: t_def)
qed

theorem bootloader_stuck_witness:
  "fst (bootloader_run ftfl_plain 0 ((ex_bl (0xA5 # frame kFramingPacketType_Command [7, 0, 0, 1, 1, 0, 0, 0]))\<lparr>s_packetState := 1\<rparr>)) = Need_Byte"
  by (subst bootloader_stuck) (simp_all add: ex_bl_def, simp_all add: word_eq_iff_unsigned)

end
