(* ===== verification/Shell_Edit.thy ===== *)
theory Shell_Edit
  imports Prelude "HOL-Library.Monad_Syntax"
begin

text \<open>
  The line editor and the history of the command shell (\<open>utilities/shell/shell.c\<close>, with the settings of
  \<open>shell_config.h_templete\<close>: buffer of 128 characters, ten lines of history, automatic completion, output by
  \<open>sh_putc\<close>).  An array is a list of characters, an access outside it is \<open>None\<close>; the terminal receives the list
  \<open>sh_out\<close>.  The counters of the editor are \<open>uint8_t\<close> in the code; \<open>line_ok\<close> bounds them by 128, so they are natural
  numbers here.  The completion of the tab key is an argument (it is in \<open>Shell_Cmd\<close>).
\<close>

subsection \<open>State\<close>

abbreviation (input) SHELL_CB_SIZE :: nat where "SHELL_CB_SIZE \<equiv> 128"
abbreviation (input) HIST_MAX :: nat where "HIST_MAX \<equiv> 10"
abbreviation (input) NUL :: char where "NUL \<equiv> CHR 0x00"
abbreviation (input) CTL_BACKSPACE :: char where "CTL_BACKSPACE \<equiv> CHR 0x08"
abbreviation (input) BEL :: char where "BEL \<equiv> CHR 0x07"
abbreviation (input) ESC :: char where "ESC \<equiv> CHR 0x1B"
abbreviation (input) CREAD_HIST_CHAR :: char where "CREAD_HIST_CHAR \<equiv> CHR ''!''"

record shell =
  hist_max :: int
  hist_add_idx :: int
  hist_cur :: int
  hist_num :: "8 word"
  hist_list :: "nat \<Rightarrow> char list"
  console_buffer :: "char list"
  initted :: bool
  sh_out :: "char list"

text \<open>The locals of \<open>cread_line\<close>; \<open>buf\<close> is \<open>console_buffer\<close>.\<close>

record line =
  buf :: "char list"
  num :: nat
  eol_num :: nat
  insert_mode :: bool
  esc_len :: nat
  esc_save :: "char list"

subsection \<open>C arrays and strings\<close>

definition buf_set :: "nat \<Rightarrow> char \<Rightarrow> char list \<Rightarrow> char list option" where
  "buf_set i c b = (if i < length b then Some (b[i := c]) else None)"

definition slice :: "nat \<Rightarrow> nat \<Rightarrow> char list \<Rightarrow> char list option" where
  "slice i n b = (if i + n \<le> length b then Some (take n (drop i b)) else None)"

definition memmove :: "nat \<Rightarrow> nat \<Rightarrow> nat \<Rightarrow> char list \<Rightarrow> char list option" where
  "memmove dst src n b =
     (if dst + n \<le> length b \<and> src + n \<le> length b
      then Some (take dst b @ take n (drop src b) @ drop (dst + n) b) else None)"

definition c_string :: "char list \<Rightarrow> char list" where
  "c_string b = takeWhile (\<lambda>c. c \<noteq> NUL) b"

definition strcpy :: "char list \<Rightarrow> char list \<Rightarrow> char list option" where
  "strcpy dst s = (if length s < length dst then Some (s @ NUL # drop (length s + 1) dst) else None)"

subsection \<open>Output\<close>

definition putnstr :: "char list \<Rightarrow> shell \<Rightarrow> shell" where
  "putnstr str s = s\<lparr>sh_out := sh_out s @ str\<rparr>"

definition sputc :: "char \<Rightarrow> shell \<Rightarrow> shell" where
  "sputc c s = putnstr [c] s"

definition shell_beep :: "shell \<Rightarrow> shell" where
  "shell_beep s = sputc BEL s"

definition backspaces :: "nat \<Rightarrow> shell \<Rightarrow> shell" where
  "backspaces n s = putnstr (replicate n CTL_BACKSPACE) s"

text \<open>
  The formatted text goes through a buffer of 128 bytes, which keeps 127 of them and a null; \<open>putnstr\<close> takes the
  length of the whole text, cut to 8 bits, and may read past what was written.
\<close>

definition shell_printf :: "char list \<Rightarrow> shell \<Rightarrow> shell option" where
  "shell_printf text s =
     (let printbuffer = take (SHELL_CB_SIZE - 1) text @ [NUL]; n = length text mod 256
      in if n \<le> length printbuffer then Some (putnstr (take n printbuffer) s) else None)"

subsection \<open>History\<close>

definition hist_init :: "shell \<Rightarrow> shell" where
  "hist_init s = s\<lparr>hist_max := 0, hist_add_idx := 0, hist_cur := - 1, hist_num := 0,
     hist_list := (\<lambda>i. if i < HIST_MAX then (hist_list s i)[0 := NUL] else hist_list s i)\<rparr>"

definition cread_add_to_hist :: "char list \<Rightarrow> shell \<Rightarrow> shell option" where
  "cread_add_to_hist line s = do {
     l \<leftarrow> strcpy (hist_list s (nat (hist_add_idx s))) line;
     let s = s\<lparr>hist_list := (hist_list s)(nat (hist_add_idx s) := l)\<rparr>;
     let s = s\<lparr>hist_add_idx := hist_add_idx s + 1\<rparr>;
     let s = (if hist_add_idx s \<ge> int HIST_MAX then s\<lparr>hist_add_idx := 0\<rparr> else s);
     let s = (if hist_add_idx s > hist_max s then s\<lparr>hist_max := hist_add_idx s\<rparr> else s);
     Some (s\<lparr>hist_num := hist_num s + 1\<rparr>)
   }"

definition hist_prev :: "shell \<Rightarrow> char list option \<times> shell" where
  "hist_prev s =
     (if hist_cur s < 0 then (None, s)
      else (let old_cur = hist_cur s;
                s = s\<lparr>hist_cur := hist_cur s - 1\<rparr>;
                s = (if hist_cur s < 0 then s\<lparr>hist_cur := hist_max s\<rparr> else s)
            in if hist_cur s = hist_add_idx s then (None, s\<lparr>hist_cur := old_cur\<rparr>)
               else (Some (c_string (hist_list s (nat (hist_cur s)))), s)))"

definition hist_next :: "shell \<Rightarrow> char list option \<times> shell" where
  "hist_next s =
     (if hist_cur s < 0 then (None, s)
      else if hist_cur s = hist_add_idx s then (None, s)
      else (let s = s\<lparr>hist_cur := hist_cur s + 1\<rparr>;
                s = (if hist_cur s > hist_max s then s\<lparr>hist_cur := 0\<rparr> else s)
            in if hist_cur s = hist_add_idx s then (Some [], s)
               else (Some (c_string (hist_list s (nat (hist_cur s)))), s)))"

subsection \<open>Editing\<close>

type_synonym edit = "(line \<times> shell) option"

text \<open>\<open>while (--wlen)\<close> would not end soon for \<open>wlen = 0\<close>: \<open>None\<close>.\<close>

definition cread_add_char :: "char \<Rightarrow> nat \<Rightarrow> line \<Rightarrow> shell \<Rightarrow> edit" where
  "cread_add_char ichar len ln s =
     (let grow = (insert_mode ln \<or> num ln = eol_num ln)
      in if grow \<and> int (eol_num ln) > int len - 1 then Some (ln, shell_beep s)
         else (let ln = (if grow then ln\<lparr>eol_num := eol_num ln + 1\<rparr> else ln) in
           if insert_mode ln then do {
             let wlen = eol_num ln - num ln;
             b \<leftarrow> (if wlen > 1 then memmove (num ln + 1) (num ln) (wlen - 1) (buf ln) else Some (buf ln));
             b \<leftarrow> buf_set (num ln) ichar b;
             str \<leftarrow> slice (num ln) wlen b;
             if wlen = 0 then None
             else Some (ln\<lparr>buf := b, num := num ln + 1\<rparr>, backspaces (wlen - 1) (putnstr str s))
           }
           else do {
             b \<leftarrow> buf_set (num ln) ichar (buf ln);
             str \<leftarrow> slice (num ln) 1 b;
             Some (ln\<lparr>buf := b, num := num ln + 1\<rparr>, putnstr str s)
           }))"

fun cread_add_str :: "char list \<Rightarrow> nat \<Rightarrow> line \<Rightarrow> shell \<Rightarrow> edit" where
  "cread_add_str [] len ln s = Some (ln, s)"
| "cread_add_str (c # cs) len ln s = do { (ln, s) \<leftarrow> cread_add_char c len ln s; cread_add_str cs len ln s }"

definition BEGINNING_OF_LINE :: "line \<Rightarrow> shell \<Rightarrow> line \<times> shell" where
  "BEGINNING_OF_LINE ln s = (ln\<lparr>num := 0\<rparr>, backspaces (num ln) s)"

definition ERASE_TO_EOL :: "line \<Rightarrow> shell \<Rightarrow> edit" where
  "ERASE_TO_EOL ln s =
     (if num ln < eol_num ln then do {
        s \<leftarrow> shell_printf (replicate (eol_num ln - num ln) CHR '' '') s;
        Some (ln\<lparr>eol_num := num ln\<rparr>, backspaces (eol_num ln - num ln) s)
      } else Some (ln, s))"

definition REFRESH_TO_EOL :: "line \<Rightarrow> shell \<Rightarrow> edit" where
  "REFRESH_TO_EOL ln s =
     (if num ln < eol_num ln then do {
        str \<leftarrow> slice (num ln) (eol_num ln - num ln) (buf ln);
        Some (ln\<lparr>num := eol_num ln\<rparr>, putnstr str s)
      } else Some (ln, s))"

definition CTL_CH :: "char \<Rightarrow> char" where
  "CTL_CH c = char_of (of_char c - of_char (CHR ''a'') + 1 :: nat)"

datatype key_result = K_More | K_Enter | K_Interrupt

text \<open>The character under the cursor (control D), the one before it (the two deletes), a line of the history.\<close>

definition key_delete :: "line \<Rightarrow> shell \<Rightarrow> edit" where
  "key_delete ln s =
     (if num ln < eol_num ln then do {
        let wlen = eol_num ln - num ln - 1;
        (b, s) \<leftarrow> (if wlen > 0 then do {
                     b \<leftarrow> memmove (num ln) (num ln + 1) wlen (buf ln);
                     str \<leftarrow> slice (num ln) wlen b;
                     Some (b, putnstr str s)
                   } else Some (buf ln, s));
        Some (ln\<lparr>buf := b, eol_num := eol_num ln - 1\<rparr>, backspaces (wlen + 1) (sputc CHR '' '' s))
      } else Some (ln, s))"

definition key_backspace :: "line \<Rightarrow> shell \<Rightarrow> edit" where
  "key_backspace ln s =
     (if num ln > 0 then do {
        let wlen = eol_num ln - num ln;
        let ln = ln\<lparr>num := num ln - 1\<rparr>;
        b \<leftarrow> memmove (num ln) (num ln + 1) wlen (buf ln);
        str \<leftarrow> slice (num ln) wlen b;
        Some (ln\<lparr>buf := b, eol_num := eol_num ln - 1\<rparr>,
              backspaces (wlen + 1) (sputc CHR '' '' (putnstr str (sputc CTL_BACKSPACE s))))
      } else Some (ln, s))"

definition key_history :: "bool \<Rightarrow> line \<Rightarrow> shell \<Rightarrow> edit" where
  "key_history up ln s =
     (let ln = ln\<lparr>esc_len := 0\<rparr>; (hline, s) = (if up then hist_prev s else hist_next s)
      in case hline of
           None \<Rightarrow> Some (ln, shell_beep s)
         | Some h \<Rightarrow> do {
             let (ln, s) = BEGINNING_OF_LINE ln s;
             (ln, s) \<leftarrow> ERASE_TO_EOL ln s;
             b \<leftarrow> strcpy (buf ln) h;
             let ln = ln\<lparr>buf := b, eol_num := length (c_string b) mod 256\<rparr>;
             REFRESH_TO_EOL ln s
           })"

text \<open>The completion works on the buffer, its first \<open>num\<close> characters.\<close>

type_synonym completer = "char list \<Rightarrow> nat \<Rightarrow> shell \<Rightarrow> (bool \<times> char list \<times> nat \<times> shell) option"

definition key_tab :: "completer \<Rightarrow> line \<Rightarrow> shell \<Rightarrow> edit" where
  "key_tab complete ln s =
     (if num ln < eol_num ln then Some (ln, shell_beep s)
      else do {
        b \<leftarrow> buf_set (num ln) NUL (buf ln);
        (r, b, num2, s) \<leftarrow> complete b (num ln) s;
        let col = (num2 - num ln) mod 256;
        Some (if r then ln\<lparr>buf := b, num := num ln + col, eol_num := eol_num ln + col\<rparr> else ln\<lparr>buf := b\<rparr>, s)
      })"

text \<open>The second switch of the loop, and its first for a character inside an escape sequence.\<close>

definition go_on :: "edit \<Rightarrow> (key_result \<times> line \<times> shell) option" where
  "go_on = map_option (\<lambda>x. (K_More, x))"

definition cread_switch :: "completer \<Rightarrow> nat \<Rightarrow> char \<Rightarrow> line \<Rightarrow> shell \<Rightarrow> (key_result \<times> line \<times> shell) option" where
  "cread_switch complete len ichar ln s =
     (if ichar = ESC then
        (if esc_len ln = 0 then do { e \<leftarrow> buf_set 0 ichar (esc_save ln); go_on (Some (ln\<lparr>esc_save := e, esc_len := 1\<rparr>, s)) }
         else go_on (map_option (\<lambda>s. (ln\<lparr>esc_len := 0\<rparr>, s)) (shell_printf ''impossible condition #876\<newline>'' s)))
      else if ichar = CTL_CH CHR ''a'' then go_on (Some (BEGINNING_OF_LINE ln s))
      else if ichar = CTL_CH CHR ''c'' then do { b \<leftarrow> buf_set 0 NUL (buf ln); Some (K_Interrupt, ln\<lparr>buf := b\<rparr>, s) }
      else if ichar = CTL_CH CHR ''f'' then
        go_on (if num ln < eol_num ln
              then do { str \<leftarrow> slice (num ln) 1 (buf ln); Some (ln\<lparr>num := num ln + 1\<rparr>, putnstr str s) } else Some (ln, s))
      else if ichar = CTL_CH CHR ''b'' then
        go_on (Some (if num ln > 0 then (ln\<lparr>num := num ln - 1\<rparr>, sputc CTL_BACKSPACE s) else (ln, s)))
      else if ichar = CTL_CH CHR ''d'' then go_on (key_delete ln s)
      else if ichar = CTL_CH CHR ''k'' then go_on (ERASE_TO_EOL ln s)
      else if ichar = CTL_CH CHR ''e'' then go_on (REFRESH_TO_EOL ln s)
      else if ichar = CTL_CH CHR ''o'' then go_on (Some (ln\<lparr>insert_mode := \<not> insert_mode ln\<rparr>, s))
      else if ichar = CTL_CH CHR ''x'' \<or> ichar = CTL_CH CHR ''u'' then
        go_on (let (ln, s) = BEGINNING_OF_LINE ln s in ERASE_TO_EOL ln s)
      else if ichar = CHR 0xFF \<or> ichar = CHR 0x7F \<or> ichar = CHR 0x08 then go_on (key_backspace ln s)
      else if ichar = CTL_CH CHR ''p'' \<or> ichar = CTL_CH CHR ''n'' then go_on (key_history (ichar = CTL_CH CHR ''p'') ln s)
      else if ichar = CHR 0x09 then go_on (key_tab complete ln s)
      else go_on (cread_add_char ichar len ln s))"

definition cread_key :: "completer \<Rightarrow> nat \<Rightarrow> char \<Rightarrow> line \<Rightarrow> shell \<Rightarrow> (key_result \<times> line \<times> shell) option" where
  "cread_key complete len ichar ln s =
     (if ichar = NUL then Some (K_More, ln, s)
      else if ichar = CHR 0x0A \<or> ichar = CHR 0x0D then Some (K_Enter, ln, putnstr [CHR 0x0D, CHR 0x0A] s)
      else if esc_len ln = 0 then cread_switch complete len ichar ln s
      else if esc_len ln = 1 then
        (if ichar = CHR ''['' then do { e \<leftarrow> buf_set 1 ichar (esc_save ln); go_on (Some (ln\<lparr>esc_save := e, esc_len := 2\<rparr>, s)) }
         else do { str \<leftarrow> slice 0 (esc_len ln) (esc_save ln);
                   (ln, s) \<leftarrow> cread_add_str str len ln s; go_on (Some (ln\<lparr>esc_len := 0\<rparr>, s)) })
      else (case map_of [(CHR ''D'', CHR ''b''), (CHR ''C'', CHR ''f''), (CHR ''H'', CHR ''a''), (CHR ''A'', CHR ''p''),
                         (CHR ''B'', CHR ''n'')] ichar of
              Some c \<Rightarrow> cread_switch complete len (CTL_CH c) (ln\<lparr>esc_len := 0\<rparr>) s
            | None \<Rightarrow> do {
                e \<leftarrow> buf_set (esc_len ln) ichar (esc_save ln);
                str \<leftarrow> slice 0 (esc_len ln + 1) e;
                (ln, s) \<leftarrow> cread_add_str str len (ln\<lparr>esc_save := e, esc_len := esc_len ln + 1\<rparr>) s;
                go_on (Some (ln\<lparr>esc_len := 0\<rparr>, s)) }))"

text \<open>The loop over the characters received; \<open>K_More\<close> at the end: it waits for the next one.\<close>

fun cread_loop :: "completer \<Rightarrow> nat \<Rightarrow> char list \<Rightarrow> line \<Rightarrow> shell \<Rightarrow> (key_result \<times> line \<times> shell \<times> char list) option" where
  "cread_loop complete len [] ln s = Some (K_More, ln, s, [])"
| "cread_loop complete len (c # cs) ln s = do {
     (k, ln, s) \<leftarrow> cread_key complete len c ln s;
     if k = K_More then cread_loop complete len cs ln s else Some (k, ln, s, cs)
   }"

text \<open>After the loop: the result code, the length, and the buffer back in \<open>console_buffer\<close>.\<close>

definition cread_finish :: "line \<Rightarrow> shell \<Rightarrow> shell option" where
  "cread_finish ln s = do {
     b \<leftarrow> buf_set (eol_num ln) NUL (buf ln);
     let s = s\<lparr>console_buffer := b\<rparr>;
     c \<leftarrow> slice 0 1 b;
     s \<leftarrow> (if hd c \<noteq> NUL \<and> hd c \<noteq> CREAD_HIST_CHAR then cread_add_to_hist (c_string b) s else Some s);
     Some (s\<lparr>hist_cur := hist_add_idx s\<rparr>)
   }"

definition line_start :: "char list \<Rightarrow> line" where
  "line_start b = \<lparr>buf = b, num = 0, eol_num = 0, insert_mode = True, esc_len = 0, esc_save = replicate 8 NUL\<rparr>"

definition cread_line :: "completer \<Rightarrow> nat \<Rightarrow> char list \<Rightarrow> shell \<Rightarrow> (key_result \<times> nat \<times> shell \<times> char list) option" where
  "cread_line complete len inp s = do {
     let init = c_string (console_buffer s);
     (ln, s) \<leftarrow> cread_add_str init len (line_start (console_buffer s)) s;
     (k, ln, s, rest) \<leftarrow> cread_loop complete len inp ln s;
     if k = K_Enter then do { s \<leftarrow> cread_finish ln s; Some (k, eol_num ln, s, rest) }
     else Some (k, len, s\<lparr>console_buffer := buf ln\<rparr>, rest)
   }"

text \<open>
  The greeting goes to \<open>printf\<close>, not to the terminal of the shell.  \<open>None\<close> as a result: it still waits for input.
\<close>

definition readline :: "completer \<Rightarrow> char list \<Rightarrow> char list \<Rightarrow> shell \<Rightarrow> (int option \<times> shell \<times> char list) option" where
  "readline complete prompt inp s = do {
     b \<leftarrow> buf_set 0 NUL (console_buffer s);
     let s = s\<lparr>console_buffer := b\<rparr>;
     let s = (if initted s then s else (hist_init s)\<lparr>initted := True\<rparr>);
     let s = putnstr prompt s;
     (k, len, s, rest) \<leftarrow> cread_line complete SHELL_CB_SIZE inp s;
     Some (case k of K_More \<Rightarrow> None | K_Enter \<Rightarrow> Some (int len) | K_Interrupt \<Rightarrow> Some (- 1), s, rest)
   }"

end
