(* ===== verification/Shell_Screen.thy ===== *)
theory Shell_Screen
  imports Shell_Edit
begin

text \<open>
  What the line editor of \<open>Shell_Edit\<close> does: it refines an editor of two lists, the text before and the text
  after the cursor, with a history that is the list of the past lines; and the characters it sends keep a
  terminal showing the text with the cursor at its place.
\<close>

subsection \<open>The history as a list of lines\<close>

record history =
  past :: "char list list"
  here :: "nat option"

definition h_prev :: "history \<Rightarrow> char list option \<times> history" where
  "h_prev h = (case here h of
       Some p \<Rightarrow> if p < min (length (past h)) (HIST_MAX - 1) then (Some (past h ! p), h\<lparr>here := Some (p + 1)\<rparr>) else (None, h)
     | None \<Rightarrow> (None, h))"

definition h_next :: "history \<Rightarrow> char list option \<times> history" where
  "h_next h = (case here h of
       Some (Suc p) \<Rightarrow> (Some (if p = 0 then [] else past h ! (p - 1)), h\<lparr>here := Some p\<rparr>)
     | _ \<Rightarrow> (None, h))"

definition h_add :: "char list \<Rightarrow> history \<Rightarrow> history" where
  "h_add l h = h\<lparr>past := (if l \<noteq> [] \<and> hd l \<noteq> CREAD_HIST_CHAR then l # past h else past h), here := Some 0\<rparr>"

text \<open>A line fits the buffer and holds no null.\<close>

definition plain :: "char list \<Rightarrow> bool" where
  "plain l \<longleftrightarrow> length l \<le> SHELL_CB_SIZE \<and> NUL \<notin> set l"

definition hist_ok :: "history \<Rightarrow> shell \<Rightarrow> bool" where
  "hist_ok h s \<longleftrightarrow>
     (let n = int (length (past h)) in
      hist_max s = min n 9 \<and> hist_add_idx s = n mod 10
    \<and> (case here h of None \<Rightarrow> hist_cur s = - 1 | Some p \<Rightarrow> int p \<le> min n 9 \<and> hist_cur s = (n - int p) mod 10)
    \<and> (\<forall>i. int i < min n 10 \<longrightarrow> c_string (hist_list s (nat ((n - 1 - int i) mod 10))) = past h ! i)
    \<and> (\<forall>i < 10. length (hist_list s i) = SHELL_CB_SIZE + 1)
    \<and> (\<forall>l \<in> set (past h). plain l))"

lemma hist_ok_entry:
  "hist_ok h s \<Longrightarrow> int i < min (int (length (past h))) 10 \<Longrightarrow> m = int (length (past h)) - 1 - int i \<Longrightarrow>
   c_string (hist_list s (nat (m mod 10))) = past h ! i"
  by (simp add: hist_ok_def Let_def)

lemma hist_ok_lines: "hist_ok h s \<Longrightarrow> i < 10 \<Longrightarrow> length (hist_list s i) = SHELL_CB_SIZE + 1"
    "hist_ok h s \<Longrightarrow> l \<in> set (past h) \<Longrightarrow> plain l"
  by (simp_all add: hist_ok_def Let_def)

lemma c_string_prefix: "NUL \<notin> set l \<Longrightarrow> c_string (l @ NUL # r) = l"
  unfolding c_string_def by (subst takeWhile_append2) auto

lemma strcpy_plain:
  "plain l \<Longrightarrow> length b = SHELL_CB_SIZE + 1 \<Longrightarrow> \<exists>b'. strcpy b l = Some b' \<and> length b' = SHELL_CB_SIZE + 1 \<and> c_string b' = l
     \<and> take (length l) b' = l"
  by (auto simp: strcpy_def plain_def c_string_prefix)

text \<open>Arithmetic of the ring of ten lines.\<close>

lemma succ_mod10: "(if 9 < (x :: int) mod 10 + 1 then 0 else x mod 10 + 1) = (x + 1) mod 10"
proof -
  define r where "r = x mod 10"
  have r: "0 \<le> r" "r < 10" by (simp_all add: r_def)
  have "(x + 1) mod 10 = (r + 1) mod 10" unfolding r_def by (rule mod_add_left_eq [symmetric])
  also have "\<dots> = (if 9 < r + 1 then 0 else r + 1)"
  proof (cases "r = 9")
    case False
    with r show ?thesis by (simp add: mod_pos_pos_trivial)
  qed simp
  finally show ?thesis by (simp add: r_def)
qed

lemma pred_mod10: "(if (x :: int) mod 10 - 1 < 0 then 9 else x mod 10 - 1) = (x - 1) mod 10"
proof -
  define r where "r = x mod 10"
  have r: "0 \<le> r" "r < 10" by (simp_all add: r_def)
  have "(x - 1) mod 10 = (r - 1) mod 10" unfolding r_def by (rule mod_diff_left_eq [symmetric])
  also have "\<dots> = (if r - 1 < 0 then 9 else r - 1)"
  proof (cases "r = 0")
    case False
    with r show ?thesis by (simp add: mod_pos_pos_trivial)
  qed simp
  finally show ?thesis by (simp add: r_def)
qed

lemma mod10_neq:
  fixes n k :: int
  assumes "0 < k" and "k < 10"
  shows "(n - k) mod 10 \<noteq> n mod 10"
proof
  assume "(n - k) mod 10 = n mod 10"
  then have "10 dvd k" by (simp add: mod_eq_dvd_iff)
  then show False using zdvd_not_zless [OF assms] by blast
qed

lemma ring_prev:
  fixes n p :: int
  assumes "0 \<le> p" and "p < min n 9"
  shows "(if (n - p) mod 10 - 1 < 0 then min n 9 else (n - p) mod 10 - 1) = (n - 1 - p) mod 10"
    and "(n - 1 - p) mod 10 \<noteq> n mod 10"
proof -
  show "(if (n - p) mod 10 - 1 < 0 then min n 9 else (n - p) mod 10 - 1) = (n - 1 - p) mod 10"
  proof (cases "n \<le> 9")
    case True
    then show ?thesis using assms by (simp add: mod_pos_pos_trivial)
  next
    case False
    then have "min n 9 = 9" by simp
    moreover have "n - 1 - p = (n - p) - 1" by simp
    ultimately show ?thesis by (simp only: pred_mod10)
  qed
  have "n - 1 - p = n - (p + 1)" by simp
  then show "(n - 1 - p) mod 10 \<noteq> n mod 10" using mod10_neq [of "p + 1" n] assms by (simp only:) simp
qed

lemma ring_oldest:
  fixes n :: int
  assumes "0 \<le> n" and "p = min n 9"
  shows "(if (n - p) mod 10 - 1 < 0 then min n 9 else (n - p) mod 10 - 1) = n mod 10"
proof (cases "n \<le> 9")
  case True
  then show ?thesis using assms by (simp add: mod_pos_pos_trivial)
next
  case False
  then have m: "min n 9 = 9" by simp
  have p: "p = 9" using assms(2) m by simp
  have "(n - 9 - 1) mod 10 = n mod 10" by (simp add: mod_eq_dvd_iff)
  then show ?thesis unfolding m p pred_mod10 .
qed

lemma ring_next:
  fixes n p :: int
  assumes "1 \<le> p" and "p \<le> min n 9"
  shows "(if min n 9 < (n - p) mod 10 + 1 then 0 else (n - p) mod 10 + 1) = (n - (p - 1)) mod 10"
    and "(n - (p - 1)) mod 10 = n mod 10 \<longleftrightarrow> p = 1" and "(n - p) mod 10 \<noteq> n mod 10"
proof -
  show "(if min n 9 < (n - p) mod 10 + 1 then 0 else (n - p) mod 10 + 1) = (n - (p - 1)) mod 10"
  proof (cases "n \<le> 9")
    case True
    then show ?thesis using assms by (simp add: mod_pos_pos_trivial)
  next
    case False
    then have "min n 9 = 9" by simp
    moreover have "n - (p - 1) = (n - p) + 1" by simp
    ultimately show ?thesis by (simp only: succ_mod10)
  qed
  show "(n - (p - 1)) mod 10 = n mod 10 \<longleftrightarrow> p = 1"
    using mod10_neq [of "p - 1" n] assms by (cases "p = 1") simp_all
  show "(n - p) mod 10 \<noteq> n mod 10" using mod10_neq [of p n] assms by simp
qed

lemma ring_add:
  fixes n :: int
  assumes "0 \<le> n"
  shows "(if min n 9 < (n + 1) mod 10 then (n + 1) mod 10 else min n 9) = min (n + 1) 9"
proof (cases "n \<le> 8")
  case True
  then show ?thesis using assms by (simp add: mod_pos_pos_trivial min_def)
next
  case False
  then have m: "min n 9 = 9" "min (n + 1) 9 = 9" by simp_all
  have "(n + 1) mod 10 < 10" by (rule pos_mod_bound) simp
  then have "\<not> 9 < (n + 1) mod 10" by linarith
  then show ?thesis by (simp only: m if_False)
qed

lemma hist_prev_ok:
  assumes h: "hist_ok h s"
  shows "fst (hist_prev s) = fst (h_prev h)" and "snd (hist_prev s) = s\<lparr>hist_cur := hist_cur (snd (hist_prev s))\<rparr>"
    and "hist_ok (snd (h_prev h)) (snd (hist_prev s))"
proof -
  let ?n = "int (length (past h))"
  show "snd (hist_prev s) = s\<lparr>hist_cur := hist_cur (snd (hist_prev s))\<rparr>"
    by (simp add: hist_prev_def Let_def)
  have "fst (hist_prev s) = fst (h_prev h) \<and> hist_ok (snd (h_prev h)) (snd (hist_prev s))"
  proof (cases "here h")
    case None
    then show ?thesis using h by (simp add: hist_prev_def h_prev_def hist_ok_def Let_def)
  next
    case (Some p)
    have c: "hist_cur s = (?n - int p) mod 10" "int p \<le> min ?n 9" "hist_max s = min ?n 9" "hist_add_idx s = ?n mod 10"
      using h Some by (simp_all add: hist_ok_def Let_def)
    have c0: "\<not> hist_cur s < 0" by (simp add: c(1) not_less)
    define d where "d = (if hist_cur s - 1 < 0 then hist_max s else hist_cur s - 1)"
    have e: "hist_prev s = (if d = hist_add_idx s then (None, s) else (Some (c_string (hist_list s (nat d))), s\<lparr>hist_cur := d\<rparr>))"
      using c0 by (simp add: hist_prev_def Let_def d_def)
    show ?thesis
    proof (cases "p < min (length (past h)) 9")
      case True
      then have "int p < min ?n 9" by simp
      then have d: "d = (?n - 1 - int p) mod 10" "d \<noteq> hist_add_idx s"
        unfolding d_def c using ring_prev [of "int p" ?n] by simp_all
      have "c_string (hist_list s (nat ((?n - 1 - int p) mod 10))) = past h ! p"
        using h True by (simp add: hist_ok_def Let_def)
      moreover have "hist_ok (h\<lparr>here := Some (p + 1)\<rparr>) (s\<lparr>hist_cur := d\<rparr>)"
        using h True d(1) by (simp add: hist_ok_def Let_def algebra_simps)
      ultimately show ?thesis using True d by (simp add: e h_prev_def Some)
    next
      case False
      then have "int p = min ?n 9" using c(2) by linarith
      then have "d = hist_add_idx s" unfolding d_def c by (intro ring_oldest) simp_all
      then show ?thesis using False h by (simp add: e h_prev_def Some)
    qed
  qed
  then show "fst (hist_prev s) = fst (h_prev h)" "hist_ok (snd (h_prev h)) (snd (hist_prev s))" by simp_all
qed

lemma hist_next_ok:
  assumes h: "hist_ok h s"
  shows "fst (hist_next s) = fst (h_next h)" and "snd (hist_next s) = s\<lparr>hist_cur := hist_cur (snd (hist_next s))\<rparr>"
    and "hist_ok (snd (h_next h)) (snd (hist_next s))"
proof -
  let ?n = "int (length (past h))"
  show "snd (hist_next s) = s\<lparr>hist_cur := hist_cur (snd (hist_next s))\<rparr>"
    by (simp add: hist_next_def Let_def)
  have "fst (hist_next s) = fst (h_next h) \<and> hist_ok (snd (h_next h)) (snd (hist_next s))"
  proof (cases "here h")
    case None
    then show ?thesis using h by (simp add: hist_next_def h_next_def hist_ok_def Let_def)
  next
    case (Some p)
    have c: "hist_cur s = (?n - int p) mod 10" "int p \<le> min ?n 9" "hist_max s = min ?n 9" "hist_add_idx s = ?n mod 10"
      using h Some by (simp_all add: hist_ok_def Let_def)
    show ?thesis
    proof (cases p)
      case 0
      then show ?thesis using h c by (simp add: hist_next_def h_next_def Some)
    next
      case (Suc q)
      define d where "d = (if hist_max s < hist_cur s + 1 then 0 else hist_cur s + 1)"
      have d: "d = (?n - int q) mod 10" "d = hist_add_idx s \<longleftrightarrow> q = 0" and ne: "hist_cur s \<noteq> hist_add_idx s"
        unfolding d_def c using ring_next [of "int p" ?n] c(2) Suc by simp_all
      have e: "hist_next s = (if d = hist_add_idx s then (Some [], s\<lparr>hist_cur := d\<rparr>)
          else (Some (c_string (hist_list s (nat d))), s\<lparr>hist_cur := d\<rparr>))"
        using c(1) ne by (simp add: hist_next_def Let_def d_def)
      have "hist_ok (h\<lparr>here := Some q\<rparr>) (s\<lparr>hist_cur := d\<rparr>)"
        using h d(1) c(2) Suc by (simp add: hist_ok_def Let_def)
      moreover have "c_string (hist_list s (nat d)) = past h ! (q - 1)" if "q > 0"
      proof -
        have m: "?n - int q = ?n - 1 - int (q - 1)" and lt: "int (q - 1) < min ?n 10" using that c(2) Suc by simp_all
        show ?thesis unfolding d(1) by (rule hist_ok_entry [OF h lt m])
      qed
      ultimately show ?thesis using d(2) by (cases "q = 0") (simp_all add: e h_next_def Some Suc)
    qed
  qed
  then show "fst (hist_next s) = fst (h_next h)" "hist_ok (snd (h_next h)) (snd (hist_next s))" by simp_all
qed

lemma cread_add_to_hist_ok:
  assumes h: "hist_ok h s" and l: "plain l"
  shows "\<exists>s'. cread_add_to_hist l s = Some s' \<and> sh_out s' = sh_out s \<and> console_buffer s' = console_buffer s \<and> initted s' = initted s
    \<and> hist_ok (h\<lparr>past := l # past h, here := Some 0\<rparr>) (s'\<lparr>hist_cur := hist_add_idx s'\<rparr>)"
proof -
  let ?n = "int (length (past h))"
  have c: "hist_max s = min ?n 9" "hist_add_idx s = ?n mod 10" using h by (simp_all add: hist_ok_def Let_def)
  let ?i = "nat (hist_add_idx s)"
  have i: "?i < 10" by (simp add: c)
  then have "length (hist_list s ?i) = SHELL_CB_SIZE + 1" using h by (simp add: hist_ok_def Let_def)
  then obtain b where b: "strcpy (hist_list s ?i) l = Some b" "length b = SHELL_CB_SIZE + 1" "c_string b = l"
    using strcpy_plain [OF l] by blast
  define a where "a = (if 9 < hist_add_idx s + 1 then 0 else hist_add_idx s + 1)"
  define m where "m = (if hist_max s < a then a else hist_max s)"
  have am: "a = (?n + 1) mod 10" "m = min (?n + 1) 9"
    using ring_add [of ?n] by (simp_all only: a_def m_def c succ_mod10 of_nat_0_le_iff simp_thms)
  define s' where "s' = s\<lparr>hist_list := (hist_list s)(?i := b), hist_add_idx := a, hist_max := m, hist_num := hist_num s + 1\<rparr>"
  have e: "cread_add_to_hist l s = Some s'"
    using b(1) by (auto simp: cread_add_to_hist_def Let_def s'_def a_def m_def intro!: shell.equality)
  have entry: "c_string (hist_list s' (nat ((?n - int j) mod 10))) = (l # past h) ! j" if j: "int j < min (?n + 1) 10" for j
  proof (cases j)
    case 0
    then show ?thesis using b(3) by (simp add: s'_def c)
  next
    case (Suc k)
    have "(?n - int j) mod 10 \<noteq> ?n mod 10" using mod10_neq [of "int j" ?n] j Suc by simp
    then have "nat ((?n - int j) mod 10) \<noteq> ?i" unfolding c by (simp add: eq_nat_nat_iff)
    moreover have nj: "?n - int j = ?n - 1 - int k" using Suc by simp
    moreover have "c_string (hist_list s (nat ((?n - 1 - int k) mod 10))) = past h ! k"
      using j Suc by (intro hist_ok_entry [OF h]) simp_all
    ultimately show ?thesis using Suc by (simp only: nj) (simp add: s'_def)
  qed
  have n1: "int (length (l # past h)) = ?n + 1" by simp
  have "hist_max s' = min (?n + 1) 9" "hist_add_idx s' = (?n + 1) mod 10" by (simp_all add: s'_def am)
  moreover have "length (hist_list s' i) = SHELL_CB_SIZE + 1" if "i < 10" for i
    using hist_ok_lines(1) [OF h that] b(2) by (simp add: s'_def)
  moreover have "plain x" if "x \<in> set (l # past h)" for x using hist_ok_lines(2) [OF h] l that by auto
  moreover have "c_string (hist_list s' (nat ((?n + 1 - 1 - int j) mod 10))) = (l # past h) ! j" if "int j < min (?n + 1) 10" for j
    using entry [OF that] by simp
  ultimately have "hist_ok (h\<lparr>past := l # past h, here := Some 0\<rparr>) (s'\<lparr>hist_cur := hist_add_idx s'\<rparr>)"
    unfolding hist_ok_def Let_def by (simp only: history.simps shell.simps n1 option.case) (auto, simp add: add.commute)
  then show ?thesis unfolding e by (auto simp: s'_def)
qed

subsection \<open>A terminal\<close>

text \<open>
  A row of cells and the column of the cursor: a backspace moves it left, the bell and the null do nothing, any
  other character fills the cell and moves right.
\<close>

type_synonym screen = "(nat \<Rightarrow> char) \<times> nat"

definition term_putc :: "char \<Rightarrow> screen \<Rightarrow> screen" where
  "term_putc c sc =
     (if c = CTL_BACKSPACE then (fst sc, snd sc - 1)
      else if c = BEL \<or> c = NUL then sc
      else ((fst sc)(snd sc := c), snd sc + 1))"

definition term_puts :: "char list \<Rightarrow> screen \<Rightarrow> screen" where
  "term_puts = fold term_putc"

definition shown :: "char \<Rightarrow> bool" where
  "shown c \<longleftrightarrow> c \<noteq> CTL_BACKSPACE \<and> c \<noteq> BEL \<and> c \<noteq> NUL"

text \<open>The text from column \<open>b\<close> on, blanks after it, the cursor \<open>c\<close> characters into it; before it the row \<open>base\<close>.\<close>

definition display :: "(nat \<Rightarrow> char) \<Rightarrow> nat \<Rightarrow> char list \<Rightarrow> nat \<Rightarrow> screen" where
  "display base b tx c = (\<lambda>i. if i < b then base i else if i < b + length tx then tx ! (i - b) else CHR '' '', b + c)"

lemma term_puts_append [simp]: "term_puts (v @ w) sc = term_puts w (term_puts v sc)"
  by (simp add: term_puts_def)

lemma term_puts_Nil [simp]: "term_puts [] sc = sc"
  by (simp add: term_puts_def)

lemma term_putc_display:
  assumes "shown x" and "c \<le> length tx"
  shows "term_putc x (display base b tx c) = display base b (take c tx @ x # drop (c + 1) tx) (c + 1)"
proof -
  have eq: "(if i < b then base i else if i < b + length tx then tx ! (i - b) else CHR '' '')
      = (if i < b then base i else if i < b + length (take c tx @ x # drop (c + 1) tx)
           then (take c tx @ x # drop (c + 1) tx) ! (i - b) else CHR '' '')" if "i \<noteq> b + c" for i
  proof (cases "i < b + c")
    case True
    then show ?thesis using assms(2) by (auto simp: nth_append)
  next
    case False
    then have "b + c < i" using that by simp
    then obtain k where k: "i = Suc (b + c + k)" using less_imp_Suc_add by blast
    show ?thesis
    proof (cases "c + Suc k < length tx")
      case True
      then have "length (take c tx @ x # drop (c + 1) tx) = length tx" by simp
      moreover have "i - b = c + Suc k" "i < b + length tx" using k True by simp_all
      moreover have "(take c tx @ x # drop (c + 1) tx) ! (c + Suc k) = tx ! (c + Suc k)"
        using True by (simp add: nth_append)
      ultimately show ?thesis by simp
    next
      case False
      then have "\<not> k < length tx - Suc c" by simp
      with False show ?thesis using assms(2) by (simp add: k)
    qed
  qed
  have "(take c tx @ x # drop (c + 1) tx) ! c = x" using assms(2) by (simp add: nth_append)
  have "(\<lambda>i. if i < b then base i else if i < b + length tx then tx ! (i - b) else CHR '' '')(b + c := x)
      = (\<lambda>i. if i < b then base i else if i < b + length (take c tx @ x # drop (c + 1) tx)
           then (take c tx @ x # drop (c + 1) tx) ! (i - b) else CHR '' '')" (is "?f(b + c := x) = ?g")
  proof (intro ext)
    fix i show "(?f(b + c := x)) i = ?g i"
      using \<open>(take c tx @ x # drop (c + 1) tx) ! c = x\<close> assms(2) eq [of i] by (cases "i = b + c") simp_all
  qed
  then show ?thesis using assms(1) by (simp add: display_def term_putc_def shown_def add.assoc del: One_nat_def)
qed

lemma term_write:
  "list_all shown w \<Longrightarrow> c \<le> length tx \<Longrightarrow>
   term_puts w (display base b tx c) = display base b (take c tx @ w @ drop (c + length w) tx) (c + length w)"
proof (induction w arbitrary: c tx)
  case (Cons x w)
  have "term_puts (x # w) (display base b tx c) = term_puts w (display base b (take c tx @ x # drop (c + 1) tx) (c + 1))"
    using Cons.prems by (simp add: term_puts_def term_putc_display)
  also have "\<dots> = display base b (take c tx @ (x # w) @ drop (c + length (x # w)) tx) (c + length (x # w))"
    using Cons.prems by (subst Cons.IH) (auto simp: min_def add.commute)
  finally show ?case .
qed simp

lemma term_back: "n \<le> c \<Longrightarrow> term_puts (replicate n CTL_BACKSPACE) (display base b tx c) = display base b tx (c - n)"
proof (induction n arbitrary: c)
  case (Suc n)
  have "term_putc CTL_BACKSPACE (display base b tx c) = display base b tx (c - 1)"
    using Suc.prems by (simp add: term_putc_def display_def)
  then show ?case using Suc.IH [of "c - 1"] Suc.prems by (simp add: term_puts_def)
qed simp

lemma display_blanks: "display base b (tx @ replicate n CHR '' '') c = display base b tx c"
  by (auto simp: display_def fun_eq_iff nth_append)

lemma shown_blank [simp]: "shown CHR '' ''" "shown ESC" "shown CHR ''[''"
  by (simp_all add: shown_def)

lemma shown_blanks [simp]: "list_all shown (replicate n CHR '' '')"
  by (simp add: list_all_iff)

lemma term_bell [simp]: "term_puts [BEL] sc = sc"
  by (simp add: term_puts_def term_putc_def)

subsection \<open>The editor of two lists\<close>

record editor =
  left :: "char list"
  right :: "char list"
  ins :: bool
  esc :: "char list"
  hst :: history

definition ed_text :: "editor \<Rightarrow> char list" where
  "ed_text e = left e @ right e"

definition ed_char :: "char \<Rightarrow> editor \<Rightarrow> editor" where
  "ed_char c e =
     (if ins e \<or> right e = [] then if length (ed_text e) < SHELL_CB_SIZE then e\<lparr>left := left e @ [c]\<rparr> else e
      else e\<lparr>left := left e @ [c], right := tl (right e)\<rparr>)"

definition ed_history :: "char list option \<times> history \<Rightarrow> editor \<Rightarrow> editor" where
  "ed_history r e = (case fst r of None \<Rightarrow> e\<lparr>hst := snd r\<rparr> | Some l \<Rightarrow> e\<lparr>left := l, right := [], hst := snd r\<rparr>)"

definition ed_command :: "char \<Rightarrow> editor \<Rightarrow> key_result \<times> editor" where
  "ed_command c e =
     (if c = CTL_CH CHR ''c'' then (K_Interrupt, e)
      else (K_More,
        if c = ESC then e\<lparr>esc := [ESC]\<rparr>
        else if c = CTL_CH CHR ''a'' then e\<lparr>left := [], right := ed_text e\<rparr>
        else if c = CTL_CH CHR ''f'' then (case right e of [] \<Rightarrow> e | x # r \<Rightarrow> e\<lparr>left := left e @ [x], right := r\<rparr>)
        else if c = CTL_CH CHR ''b'' then
          (if left e = [] then e else e\<lparr>left := butlast (left e), right := last (left e) # right e\<rparr>)
        else if c = CTL_CH CHR ''d'' then e\<lparr>right := tl (right e)\<rparr>
        else if c = CTL_CH CHR ''k'' then e\<lparr>right := []\<rparr>
        else if c = CTL_CH CHR ''e'' then e\<lparr>left := ed_text e, right := []\<rparr>
        else if c = CTL_CH CHR ''o'' then e\<lparr>ins := \<not> ins e\<rparr>
        else if c = CTL_CH CHR ''x'' \<or> c = CTL_CH CHR ''u'' then e\<lparr>left := [], right := []\<rparr>
        else if c = CHR 0xFF \<or> c = CHR 0x7F \<or> c = CHR 0x08 then e\<lparr>left := butlast (left e)\<rparr>
        else if c = CTL_CH CHR ''p'' then ed_history (h_prev (hst e)) e
        else if c = CTL_CH CHR ''n'' then ed_history (h_next (hst e)) e
        else ed_char c e))"

definition ed_key :: "char \<Rightarrow> editor \<Rightarrow> key_result \<times> editor" where
  "ed_key c e =
     (if c = NUL then (K_More, e)
      else if c = CHR 0x0A \<or> c = CHR 0x0D then (K_Enter, e)
      else if esc e = [] then ed_command c e
      else if esc e = [ESC] then
        (K_More, if c = CHR ''['' then e\<lparr>esc := [ESC, CHR ''['']\<rparr> else (ed_char ESC e)\<lparr>esc := []\<rparr>)
      else (case map_of [(CHR ''D'', CHR ''b''), (CHR ''C'', CHR ''f''), (CHR ''H'', CHR ''a''), (CHR ''A'', CHR ''p''),
                         (CHR ''B'', CHR ''n'')] c of
              Some k \<Rightarrow> ed_command (CTL_CH k) (e\<lparr>esc := []\<rparr>)
            | None \<Rightarrow> (K_More, (ed_char c (ed_char CHR ''['' (ed_char ESC e)))\<lparr>esc := []\<rparr>)))"

fun ed_run :: "char list \<Rightarrow> editor \<Rightarrow> key_result \<times> editor \<times> char list" where
  "ed_run [] e = (K_More, e, [])"
| "ed_run (c # cs) e = (let (k, e') = ed_key c e in if k = K_More then ed_run cs e' else (k, e', cs))"

text \<open>The line keeps below the size of the buffer after every key.\<close>

fun ed_fits :: "char list \<Rightarrow> editor \<Rightarrow> bool" where
  "ed_fits [] e = (length (ed_text e) < SHELL_CB_SIZE)"
| "ed_fits (c # cs) e = (length (ed_text e) < SHELL_CB_SIZE
     \<and> (let (k, e') = ed_key c e in if k = K_More then ed_fits cs e' else length (ed_text e') < SHELL_CB_SIZE))"

subsection \<open>The buffer and the two lists\<close>

definition line_rel :: "editor \<Rightarrow> line \<Rightarrow> bool" where
  "line_rel e ln \<longleftrightarrow>
     (\<exists>rest. buf ln = left e @ right e @ rest \<and> length (buf ln) = SHELL_CB_SIZE + 1)
   \<and> plain (ed_text e) \<and> num ln = length (left e) \<and> eol_num ln = length (ed_text e) \<and> insert_mode ln = ins e
   \<and> esc_len ln = length (esc e) \<and> take (length (esc e)) (esc_save ln) = esc e \<and> length (esc_save ln) = 8"

definition esc_ok :: "editor \<Rightarrow> bool" where
  "esc_ok e \<longleftrightarrow> esc e \<in> {[], [ESC], [ESC, CHR ''['']}"

text \<open>
  A step of the editor: what it returns, what the history is after it, and (if \<open>ok\<close>) what the terminal shows.
\<close>

definition edits :: "bool \<Rightarrow> editor \<Rightarrow> shell \<Rightarrow> editor \<Rightarrow> edit \<Rightarrow> bool" where
  "edits ok e s e' r \<longleftrightarrow>
     (\<exists>ln' out c. r = Some (ln', putnstr out (s\<lparr>hist_cur := c\<rparr>)) \<and> line_rel e' ln' \<and> hist_ok (hst e') (s\<lparr>hist_cur := c\<rparr>)
        \<and> (ok \<longrightarrow> (\<forall>base b. term_puts out (display base b (ed_text e) (length (left e)))
                          = display base b (ed_text e') (length (left e')))))"

lemma editsI:
  assumes "r = Some (ln', putnstr out s)" and "line_rel e' ln'" and "hist_ok (hst e') s"
    and "ok \<Longrightarrow> (\<And>base b. term_puts out (display base b (ed_text e) (length (left e))) = display base b (ed_text e') (length (left e')))"
  shows "edits ok e s e' r"
  unfolding edits_def using assms by (intro exI [of _ ln'] exI [of _ out] exI [of _ "hist_cur s"]) simp

lemma hist_ok_out [simp]: "hist_ok h (putnstr out s) = hist_ok h s"
  by (simp add: hist_ok_def putnstr_def Let_def cong: option.case_cong)

lemma putnstr_putnstr [simp]: "putnstr w (putnstr v s) = putnstr (v @ w) s"
  by (simp add: putnstr_def)

lemma putnstr_hist_cur [simp]: "(putnstr out s)\<lparr>hist_cur := c\<rparr> = putnstr out (s\<lparr>hist_cur := c\<rparr>)"
  by (simp add: putnstr_def)

subsection \<open>Characters\<close>

lemma plain_snoc: "plain (l @ r) \<Longrightarrow> c \<noteq> NUL \<Longrightarrow> length (l @ r) < SHELL_CB_SIZE \<Longrightarrow> plain (l @ c # r)"
  by (simp add: plain_def)

lemma line_relE:
  assumes "line_rel e ln"
  obtains rest where "buf ln = left e @ right e @ rest" and "length (left e) + length (right e) + length rest = SHELL_CB_SIZE + 1"
    and "plain (left e @ right e)" and "num ln = length (left e)" and "eol_num ln = length (left e) + length (right e)"
    and "insert_mode ln = ins e"
  using assms by (auto simp: line_rel_def ed_text_def)

text \<open>A step that changes only the two lists and the buffer.\<close>

lemma line_rel_upd:
  assumes "line_rel e ln" and "buf ln' = l @ r @ rest" and "length l + length r + length rest = SHELL_CB_SIZE + 1" and "plain (l @ r)"
    and "num ln' = length l" and "eol_num ln' = length l + length r" and "insert_mode ln' = insert_mode ln"
    and "esc_len ln' = esc_len ln" and "esc_save ln' = esc_save ln" and "e' = e\<lparr>left := l, right := r, hst := h\<rparr>"
  shows "line_rel e' ln'"
  using assms by (simp add: line_rel_def ed_text_def)

lemma memmove_up:
  "rest \<noteq> [] \<Longrightarrow> memmove (length l + 1) (length l) (length r) (l @ r @ rest) = Some (l @ hd (r @ rest) # r @ tl rest)"
  by (cases rest; cases r) (auto simp: memmove_def)

lemma insert_buffer:
  assumes "rest \<noteq> []"
  shows "\<exists>b. (if length r + 1 > 1 then memmove (length l + 1) (length l) (length r + 1 - 1) (l @ r @ rest) else Some (l @ r @ rest)) = Some b
    \<and> buf_set (length l) c b = Some (l @ c # r @ tl rest)"
proof (cases "r = []")
  case True
  then show ?thesis using assms by (cases rest) (auto simp: buf_set_def list_update_append)
next
  case False
  then show ?thesis using memmove_up [OF assms, of l r] by (simp add: buf_set_def list_update_append)
qed

lemma slice_mid: "slice (length l) (length r) (l @ r @ rest) = Some r"
  by (simp add: slice_def)

text \<open>What the three cases send to the terminal.\<close>

lemma screen_insert:
  "shown c \<Longrightarrow> list_all shown r \<Longrightarrow>
   term_puts (c # r @ replicate (length r) CTL_BACKSPACE) (display base k (l @ r) (length l)) = display base k (l @ c # r) (length l + 1)"
proof -
  assume "shown c" "list_all shown r"
  then have "term_puts (c # r) (display base k (l @ r) (length l)) = display base k (l @ c # r) (length l + 1 + length r)"
    by (subst term_write) (auto simp: add.commute)
  then show ?thesis
    using term_back [of "length r" "length l + 1 + length r" base k "l @ c # r"] term_puts_append [of "c # r"] by simp
qed

lemma screen_replace:
  "shown c \<Longrightarrow> term_puts [c] (display base k (l @ r) (length l)) = display base k (l @ c # tl r) (length l + 1)"
  by (subst term_write) (auto simp: drop_Suc)

definition tidy :: "editor \<Rightarrow> bool" where
  "tidy e \<longleftrightarrow> list_all shown (ed_text e) \<and> (\<forall>l \<in> set (past (hst e)). list_all shown l)"

lemma add_char_insert:
  assumes "insert_mode ln" and "eol_num ln < len"
  shows "cread_add_char c len ln s = do {
     b \<leftarrow> (if eol_num ln + 1 - num ln > 1 then memmove (num ln + 1) (num ln) (eol_num ln + 1 - num ln - 1) (buf ln) else Some (buf ln));
     b \<leftarrow> buf_set (num ln) c b;
     str \<leftarrow> slice (num ln) (eol_num ln + 1 - num ln) b;
     if eol_num ln + 1 - num ln = 0 then None
     else Some (ln\<lparr>eol_num := eol_num ln + 1, buf := b, num := num ln + 1\<rparr>, backspaces (eol_num ln + 1 - num ln - 1) (putnstr str s)) }"
  using assms by (simp add: cread_add_char_def Let_def cong: if_cong)

lemma add_char_replace:
  assumes "\<not> insert_mode ln" and "num ln = eol_num ln \<longrightarrow> eol_num ln < len"
  shows "cread_add_char c len ln s = do {
     b \<leftarrow> buf_set (num ln) c (buf ln);
     str \<leftarrow> slice (num ln) 1 b;
     Some (ln\<lparr>eol_num := (if num ln = eol_num ln then eol_num ln + 1 else eol_num ln), buf := b, num := num ln + 1\<rparr>, putnstr str s) }"
  using assms by (cases "num ln = eol_num ln") (simp_all add: cread_add_char_def Let_def cong: if_cong)

lemma cread_add_char_edits:
  assumes rel: "line_rel e ln" and h: "hist_ok (hst e) s" and c: "c \<noteq> NUL"
  shows "edits (shown c \<and> tidy e) e s (ed_char c e) (cread_add_char c SHELL_CB_SIZE ln s)"
proof -
  obtain rest where b: "buf ln = left e @ right e @ rest" "length (left e) + length (right e) + length rest = SHELL_CB_SIZE + 1"
      and p: "plain (left e @ right e)" and n: "num ln = length (left e)" "eol_num ln = length (left e) + length (right e)"
      "insert_mode ln = ins e"
    using rel by (rule line_relE)
  have grow: "insert_mode ln \<or> num ln = eol_num ln \<longleftrightarrow> ins e \<or> right e = []" using n by auto
  show ?thesis
  proof (cases "(ins e \<or> right e = []) \<and> \<not> length (ed_text e) < SHELL_CB_SIZE")
    case True
    then have "cread_add_char c SHELL_CB_SIZE ln s = Some (ln, putnstr [BEL] s)" "ed_char c e = e"
      using grow n by (auto simp: cread_add_char_def ed_char_def shell_beep_def sputc_def ed_text_def)
    then show ?thesis using rel h by (intro editsI [where ln' = ln and out = "[BEL]"]) auto
  next
    case short: False
    then have rest: "rest \<noteq> []" using b(2) p by (auto simp: ed_text_def plain_def)
    show ?thesis
    proof (cases "ins e")
      case True
      then have len: "eol_num ln < SHELL_CB_SIZE" using short n by (simp add: ed_text_def)
      have e': "ed_char c e = e\<lparr>left := left e @ [c], right := right e, hst := hst e\<rparr>" using True short by (simp add: ed_char_def)
      have w: "eol_num ln + 1 - length (left e) = length (right e) + 1" using n by simp
      have sl: "slice (length (left e)) (length (right e) + 1) (left e @ c # right e @ tl rest) = Some (c # right e)"
        using slice_mid [of "left e" "c # right e" "tl rest"] by simp
      obtain b1 where b1: "(if length (right e) + 1 > 1 then memmove (length (left e) + 1) (length (left e)) (length (right e) + 1 - 1) (buf ln)
            else Some (buf ln)) = Some b1" "buf_set (length (left e)) c b1 = Some (left e @ c # right e @ tl rest)"
        using insert_buffer [OF rest, of "right e" "left e" c] unfolding b(1) by blast
      define ln' where "ln' = ln\<lparr>eol_num := eol_num ln + 1, buf := left e @ c # right e @ tl rest, num := num ln + 1\<rparr>"
      have r: "cread_add_char c SHELL_CB_SIZE ln s = Some (ln', putnstr (c # right e @ replicate (length (right e)) CTL_BACKSPACE) s)"
        unfolding add_char_insert [OF True [folded n(3)] len] w n(1) b1(1) Option.bind.bind_lunit b1(2) sl ln'_def
        by (simp add: backspaces_def n)
      have "line_rel (ed_char c e) ln'"
        by (rule line_rel_upd [OF rel _ _ _ _ _ _ _ _ e', where rest = "tl rest"])
          (use b(2) rest p c len n in \<open>auto simp: plain_def ln'_def\<close>)
      then show ?thesis
        by (rule editsI [OF r]) (use h in \<open>auto simp: e' ed_text_def tidy_def screen_insert simp del: replicate.simps\<close>)
    next
      case False
      have len: "num ln = eol_num ln \<longrightarrow> eol_num ln < SHELL_CB_SIZE" using short n by (auto simp: ed_text_def)
      have e': "ed_char c e = e\<lparr>left := left e @ [c], right := tl (right e), hst := hst e\<rparr>" using False short by (auto simp: ed_char_def)
      obtain x y where xy: "right e @ rest = x # y" "y = tl (right e) @ (if right e = [] then tl rest else rest)"
        using rest by (cases "right e"; cases rest) auto
      have bs: "buf_set (length (left e)) c (buf ln) = Some (left e @ c # y)"
        unfolding b(1) xy(1) by (simp add: buf_set_def list_update_append)
      have sl: "slice (length (left e)) 1 (left e @ c # y) = Some [c]" by (simp add: slice_def)
      define ln' where "ln' = ln\<lparr>eol_num := (if num ln = eol_num ln then eol_num ln + 1 else eol_num ln), buf := left e @ c # y, num := num ln + 1\<rparr>"
      have r: "cread_add_char c SHELL_CB_SIZE ln s = Some (ln', putnstr [c] s)"
        unfolding add_char_replace [OF False [folded n(3)] len] n(1) bs Option.bind.bind_lunit sl ln'_def by (simp add: n)
      have f: "length (left e @ [c]) + length (tl (right e)) + length (if right e = [] then tl rest else rest) = SHELL_CB_SIZE + 1"
        using b(2) rest by (cases "right e"; cases rest) auto
      have p2: "plain ((left e @ [c]) @ tl (right e))" using p c len n by (cases "right e") (auto simp: plain_def)
      have bl: "buf ln' = (left e @ [c]) @ tl (right e) @ (if right e = [] then tl rest else rest)"
        and en: "eol_num ln' = length (left e @ [c]) + length (tl (right e))"
        using n by (cases "right e", simp_all add: ln'_def xy(2))
      have "line_rel (ed_char c e) ln'"
        by (rule line_rel_upd [OF rel bl f p2 _ en _ _ _ e']) (simp_all add: ln'_def n)
      then show ?thesis
        by (rule editsI [OF r]) (use h in \<open>auto simp: e' ed_text_def screen_replace\<close>)
    qed
  qed
qed

subsection \<open>Commands\<close>

lemma ctl_keys:
  "CTL_CH CHR ''a'' = CHR 0x01" "CTL_CH CHR ''b'' = CHR 0x02" "CTL_CH CHR ''c'' = CHR 0x03" "CTL_CH CHR ''d'' = CHR 0x04"
  "CTL_CH CHR ''e'' = CHR 0x05" "CTL_CH CHR ''f'' = CHR 0x06" "CTL_CH CHR ''k'' = CHR 0x0B" "CTL_CH CHR ''n'' = CHR 0x0E"
  "CTL_CH CHR ''o'' = CHR 0x0F" "CTL_CH CHR ''p'' = CHR 0x10" "CTL_CH CHR ''u'' = CHR 0x15" "CTL_CH CHR ''x'' = CHR 0x18"
  by code_simp+

lemma edits_mono: "edits ok e s e' r \<Longrightarrow> (ok' \<Longrightarrow> ok) \<Longrightarrow> edits ok' e s e' r"
  unfolding edits_def by blast

lemma edits_bind:
  assumes "edits ok1 e s e1 r" and "\<And>ln1 s1. line_rel e1 ln1 \<Longrightarrow> hist_ok (hst e1) s1 \<Longrightarrow> edits ok2 e1 s1 e2 (f ln1 s1)"
  shows "edits (ok1 \<and> ok2) e s e2 (r \<bind> (\<lambda>(ln, s). f ln s))"
proof -
  obtain ln1 o1 c1 where r: "r = Some (ln1, putnstr o1 (s\<lparr>hist_cur := c1\<rparr>))" and 1: "line_rel e1 ln1"
      "hist_ok (hst e1) (s\<lparr>hist_cur := c1\<rparr>)"
      "ok1 \<longrightarrow> (\<forall>base b. term_puts o1 (display base b (ed_text e) (length (left e))) = display base b (ed_text e1) (length (left e1)))"
    using assms(1) unfolding edits_def by blast
  have h1: "hist_ok (hst e1) (putnstr o1 (s\<lparr>hist_cur := c1\<rparr>))" using 1(2) by simp
  obtain ln2 o2 c2 where f: "f ln1 (putnstr o1 (s\<lparr>hist_cur := c1\<rparr>)) = Some (ln2, putnstr o2 (putnstr o1 (s\<lparr>hist_cur := c1\<rparr>)\<lparr>hist_cur := c2\<rparr>))"
      and 2: "line_rel e2 ln2" "hist_ok (hst e2) (putnstr o1 (s\<lparr>hist_cur := c1\<rparr>)\<lparr>hist_cur := c2\<rparr>)"
      "ok2 \<longrightarrow> (\<forall>base b. term_puts o2 (display base b (ed_text e1) (length (left e1))) = display base b (ed_text e2) (length (left e2)))"
    using assms(2) [OF 1(1) h1] unfolding edits_def by blast
  have "r \<bind> (\<lambda>(ln, s). f ln s) = Some (ln2, putnstr (o1 @ o2) (s\<lparr>hist_cur := c2\<rparr>))" using f by (simp add: r)
  moreover have "hist_ok (hst e2) (s\<lparr>hist_cur := c2\<rparr>)" using 2(2) by simp
  ultimately show ?thesis unfolding edits_def using 1(3) 2(1,3) by (intro exI [of _ ln2] exI [of _ "o1 @ o2"] exI [of _ c2]) simp
qed

lemma beginning_edits:
  assumes "line_rel e ln" and "hist_ok (hst e) s"
  shows "edits True e s (e\<lparr>left := [], right := ed_text e\<rparr>) (Some (BEGINNING_OF_LINE ln s))"
proof (rule editsI)
  show "Some (BEGINNING_OF_LINE ln s) = Some (ln\<lparr>num := 0\<rparr>, putnstr (replicate (length (left e)) CTL_BACKSPACE) s)"
    using assms(1) by (simp add: BEGINNING_OF_LINE_def backspaces_def line_rel_def)
qed (use assms in \<open>auto simp: line_rel_def ed_text_def term_back\<close>)

lemma printf_blanks:
  "n \<le> 128 \<Longrightarrow> \<exists>w. shell_printf (replicate n CHR '' '') s = Some (putnstr w s) \<and> (n < 128 \<longrightarrow> w = replicate n CHR '' '')"
  by (cases "n = 128") (auto simp: shell_printf_def Let_def)

lemma erase_edits:
  assumes rel: "line_rel e ln" and h: "hist_ok (hst e) s"
  shows "edits (length (ed_text e) < SHELL_CB_SIZE) e s (e\<lparr>right := []\<rparr>) (ERASE_TO_EOL ln s)"
proof -
  obtain rest where b: "buf ln = left e @ right e @ rest" "length (left e) + length (right e) + length rest = SHELL_CB_SIZE + 1"
      and p: "plain (left e @ right e)" and n: "num ln = length (left e)" "eol_num ln = length (left e) + length (right e)"
      "insert_mode ln = ins e"
    using rel by (rule line_relE)
  let ?ln = "ln\<lparr>eol_num := num ln\<rparr>"
  have rel': "line_rel (e\<lparr>right := []\<rparr>) ?ln"
    by (rule line_rel_upd [OF rel, where l = "left e" and r = "[]" and rest = "right e @ rest" and h = "hst e"])
      (use b n p in \<open>auto simp: plain_def\<close>)
  show ?thesis
  proof (cases "right e = []")
    case True
    then have "ERASE_TO_EOL ln s = Some (?ln, putnstr [] s)" using n by (simp add: ERASE_TO_EOL_def putnstr_def)
    then show ?thesis using rel' by (rule editsI) (use h True in \<open>simp_all add: ed_text_def\<close>)
  next
    case False
    have "length (right e) \<le> 128" using p by (simp add: plain_def)
    then obtain w where w: "shell_printf (replicate (length (right e)) CHR '' '') s = Some (putnstr w s)"
        "length (right e) < 128 \<longrightarrow> w = replicate (length (right e)) CHR '' ''"
      using printf_blanks by blast
    have r: "ERASE_TO_EOL ln s = Some (?ln, putnstr (w @ replicate (length (right e)) CTL_BACKSPACE) s)"
      using False n w(1) by (simp add: ERASE_TO_EOL_def backspaces_def)
    show ?thesis
    proof (rule editsI [OF r rel'])
      show "hist_ok (hst (e\<lparr>right := []\<rparr>)) s" using h by simp
    next
      fix base k assume "length (ed_text e) < SHELL_CB_SIZE"
      then have "w = replicate (length (right e)) CHR '' ''" using w(2) by (simp add: ed_text_def)
      then have "term_puts w (display base k (ed_text e) (length (left e))) = display base k (left e) (length (left e) + length (right e))"
        by (simp add: term_write ed_text_def display_blanks)
      then show "term_puts (w @ replicate (length (right e)) CTL_BACKSPACE) (display base k (ed_text e) (length (left e)))
          = display base k (ed_text (e\<lparr>right := []\<rparr>)) (length (left (e\<lparr>right := []\<rparr>)))"
        by (simp add: term_back ed_text_def)
    qed
  qed
qed

lemma refresh_edits:
  assumes rel: "line_rel e ln" and h: "hist_ok (hst e) s"
  shows "edits (tidy e) e s (e\<lparr>left := ed_text e, right := []\<rparr>) (REFRESH_TO_EOL ln s)"
proof -
  obtain rest where b: "buf ln = left e @ right e @ rest" "length (left e) + length (right e) + length rest = SHELL_CB_SIZE + 1"
      and p: "plain (left e @ right e)" and n: "num ln = length (left e)" "eol_num ln = length (left e) + length (right e)"
      "insert_mode ln = ins e"
    using rel by (rule line_relE)
  have "REFRESH_TO_EOL ln s = Some (ln\<lparr>num := eol_num ln\<rparr>, putnstr (right e) s)"
    using n b(1) slice_mid [of "left e" "right e" rest] by (simp add: REFRESH_TO_EOL_def putnstr_def)
  moreover have "line_rel (e\<lparr>left := ed_text e, right := []\<rparr>) (ln\<lparr>num := eol_num ln\<rparr>)"
    by (rule line_rel_upd [OF rel, where l = "ed_text e" and r = "[]" and rest = rest and h = "hst e"])
      (use b n p in \<open>auto simp: plain_def ed_text_def\<close>)
  ultimately show ?thesis
    by (rule editsI) (use h in \<open>auto simp: ed_text_def term_write tidy_def\<close>)
qed

lemma memmove_down:
  "memmove (length l) (length l + 1) (length r) (l @ x # r @ rest) = Some (l @ r @ last (x # r) # rest)"
proof -
  have "drop (length l + length r) (l @ x # r @ rest) = last (x # r) # rest"
    by (induction r arbitrary: x) auto
  then show ?thesis by (simp add: memmove_def)
qed

text \<open>The tail is written again with a blank behind it, and the cursor goes back.\<close>

lemma screen_close_gap:
  assumes "list_all shown r"
  shows "term_puts (r @ CHR '' '' # replicate (length r + 1) CTL_BACKSPACE) (display base k (l @ x # r) (length l)) = display base k (l @ r) (length l)"
proof -
  have "term_puts (r @ [CHR '' '']) (display base k (l @ x # r) (length l)) = display base k ((l @ r) @ replicate 1 CHR '' '') (length l + length r + 1)"
    using assms by (subst term_write) auto
  then have "term_puts ((r @ [CHR '' '']) @ replicate (length r + 1) CTL_BACKSPACE) (display base k (l @ x # r) (length l)) = display base k (l @ r) (length l)"
    unfolding term_puts_append [of "r @ [CHR '' '']"] display_blanks
    by (simp only:) (subst term_back, simp_all)
  then show ?thesis by simp
qed

lemma screen_close_gap':
  "list_all shown r \<Longrightarrow> term_puts (CHR '' '' # replicate (Suc (length r)) CTL_BACKSPACE)
     (term_puts r (display base k (l @ x # r) (length l))) = display base k (l @ r) (length l)"
  using screen_close_gap [of r base k l x] by (simp del: replicate.simps)

lemma delete_edits:
  assumes rel: "line_rel e ln" and h: "hist_ok (hst e) s"
  shows "edits (tidy e) e s (e\<lparr>right := tl (right e)\<rparr>) (key_delete ln s)"
proof -
  obtain rest where b: "buf ln = left e @ right e @ rest" "length (left e) + length (right e) + length rest = SHELL_CB_SIZE + 1"
      and p: "plain (left e @ right e)" and n: "num ln = length (left e)" "eol_num ln = length (left e) + length (right e)"
      "insert_mode ln = ins e"
    using rel by (rule line_relE)
  show ?thesis
  proof (cases "right e")
    case Nil
    then have "key_delete ln s = Some (ln, putnstr [] s)" using n by (simp add: key_delete_def putnstr_def)
    moreover have "e\<lparr>right := tl (right e)\<rparr> = e" by (simp add: Nil)
    ultimately show ?thesis using rel h by (intro editsI) auto
  next
    case (Cons x r)
    have mm: "memmove (length (left e)) (length (left e) + 1) (length r) (buf ln) = Some (left e @ r @ last (x # r) # rest)"
      unfolding b(1) Cons append_Cons by (rule memmove_down)
    define bb where "bb = (if r = [] then buf ln else left e @ r @ last (x # r) # rest)"
    have bb: "bb = left e @ r @ last (x # r) # rest" using b(1) Cons by (simp add: bb_def)
    have sl: "slice (length (left e)) (length r) bb = Some r" unfolding bb by (rule slice_mid)
    define ln' where "ln' = ln\<lparr>buf := bb, eol_num := eol_num ln - 1\<rparr>"
    have w: "eol_num ln - num ln - 1 = length r" "num ln < eol_num ln" using n Cons by simp_all
    have kd: "key_delete ln s = Some (ln', putnstr (r @ CHR '' '' # replicate (length r + 1) CTL_BACKSPACE) s)"
      unfolding key_delete_def Let_def w(1)
      using w(2) mm sl n by (cases "r = []") (simp_all add: bb_def ln'_def backspaces_def sputc_def)
    have "line_rel (e\<lparr>right := tl (right e)\<rparr>) ln'"
      by (rule line_rel_upd [OF rel, where l = "left e" and r = r and rest = "last (x # r) # rest" and h = "hst e"])
        (use b p n Cons bb in \<open>auto simp: ln'_def plain_def\<close>)
    with kd show ?thesis
      by (rule editsI) (use h Cons in \<open>simp_all add: ed_text_def tidy_def screen_close_gap' del: replicate.simps append.simps\<close>)
  qed
qed

lemma backspace_edits:
  assumes rel: "line_rel e ln" and h: "hist_ok (hst e) s"
  shows "edits (tidy e) e s (e\<lparr>left := butlast (left e)\<rparr>) (key_backspace ln s)"
proof -
  obtain rest where b: "buf ln = left e @ right e @ rest" "length (left e) + length (right e) + length rest = SHELL_CB_SIZE + 1"
      and p: "plain (left e @ right e)" and n: "num ln = length (left e)" "eol_num ln = length (left e) + length (right e)"
      "insert_mode ln = ins e"
    using rel by (rule line_relE)
  let ?r = "right e"
  show ?thesis
  proof (cases "left e" rule: rev_cases)
    case Nil
    then have "key_backspace ln s = Some (ln, putnstr [] s)" using n by (simp add: key_backspace_def putnstr_def)
    moreover have "e\<lparr>left := butlast (left e)\<rparr> = e" by (simp add: Nil)
    ultimately show ?thesis using rel h by (intro editsI) auto
  next
    case (snoc l x)
    have mm: "memmove (length l) (length l + 1) (length ?r) (buf ln) = Some (l @ ?r @ last (x # ?r) # rest)"
      unfolding b(1) snoc append.assoc append_Cons append_Nil by (rule memmove_down)
    have sl: "slice (length l) (length ?r) (l @ ?r @ last (x # ?r) # rest) = Some ?r" by (rule slice_mid)
    define ln' where "ln' = ln\<lparr>num := num ln - 1, buf := l @ ?r @ last (x # ?r) # rest, eol_num := eol_num ln - 1\<rparr>"
    have w: "eol_num ln - num ln = length ?r" "0 < num ln" "num ln - 1 = length l" using n snoc by simp_all
    have kb: "key_backspace ln s = Some (ln', putnstr ([CTL_BACKSPACE] @ ?r @ CHR '' '' # replicate (length ?r + 1) CTL_BACKSPACE) s)"
      unfolding key_backspace_def Let_def using w mm sl by (simp add: ln'_def backspaces_def sputc_def)
    have rel': "line_rel (e\<lparr>left := butlast (left e)\<rparr>) ln'"
      by (rule line_rel_upd [OF rel, where l = l and r = ?r and rest = "last (x # ?r) # rest" and h = "hst e"])
        (use b p n snoc in \<open>auto simp: ln'_def plain_def\<close>)
    show ?thesis
    proof (rule editsI [OF kb rel'])
      show "hist_ok (hst (e\<lparr>left := butlast (left e)\<rparr>)) s" using h by simp
    next
      fix base k assume "tidy e"
      then have "list_all shown ?r" by (simp add: tidy_def ed_text_def)
      moreover have "term_puts [CTL_BACKSPACE] (display base k (ed_text e) (length (left e))) = display base k (l @ x # ?r) (length l)"
        using term_back [of 1 "length l + 1" base k "l @ x # ?r"] by (simp add: ed_text_def snoc)
      ultimately show "term_puts ([CTL_BACKSPACE] @ ?r @ CHR '' '' # replicate (length ?r + 1) CTL_BACKSPACE)
          (display base k (ed_text e) (length (left e)))
          = display base k (ed_text (e\<lparr>left := butlast (left e)\<rparr>)) (length (left (e\<lparr>left := butlast (left e)\<rparr>)))"
        unfolding term_puts_append [of "[CTL_BACKSPACE]"] by (simp add: screen_close_gap' ed_text_def snoc del: replicate.simps)
    qed
  qed
qed

text \<open>The whole line at once, after a line of the history was copied to the buffer.\<close>

lemma load_edits:
  assumes rel: "line_rel e ln" and e: "left e = []" "right e = []" and h: "hist_ok (hst e) s" and l: "plain l"
  shows "edits (list_all shown l) e s (e\<lparr>left := l\<rparr>)
    (do { b \<leftarrow> strcpy (buf ln) l; let ln = ln\<lparr>buf := b, eol_num := length (c_string b) mod 256\<rparr>; REFRESH_TO_EOL ln s })"
proof -
  have n: "num ln = 0" "length (buf ln) = SHELL_CB_SIZE + 1" using rel e by (auto simp: line_rel_def)
  obtain b where b: "strcpy (buf ln) l = Some b" "length b = SHELL_CB_SIZE + 1" "c_string b = l" "take (length l) b = l"
    using strcpy_plain [OF l n(2)] by blast
  have len: "length l mod 256 = length l" "length l \<le> 128" using l by (simp_all add: plain_def)
  define ln' where "ln' = ln\<lparr>buf := b, num := length l, eol_num := length l\<rparr>"
  have r: "(do { b \<leftarrow> strcpy (buf ln) l; let ln = ln\<lparr>buf := b, eol_num := length (c_string b) mod 256\<rparr>; REFRESH_TO_EOL ln s })
      = Some (ln', putnstr l s)"
    unfolding b(1) Option.bind.bind_lunit Let_def b(3) len(1)
    using n(1) b(2,4) len by (cases "l = []") (simp_all add: REFRESH_TO_EOL_def slice_def ln'_def putnstr_def)
  have b2: "buf ln' = l @ [] @ drop (length l) b" using append_take_drop_id [of "length l" b] b(4) by (simp add: ln'_def)
  have "line_rel (e\<lparr>left := l\<rparr>) ln'"
    by (rule line_rel_upd [OF rel, where l = l and r = "[]" and rest = "drop (length l) b" and h = "hst e"])
      (use b2 b(2) e l len in \<open>simp_all add: ln'_def\<close>)
  with r show ?thesis
    by (rule editsI) (use h e in \<open>auto simp: ed_text_def term_write\<close>)
qed

text \<open>A line of the history.\<close>

lemma edits_shift:
  assumes "edits ok e1 (s\<lparr>hist_cur := c\<rparr>) e' r" and "left e1 = left e" and "right e1 = right e"
  shows "edits ok e s e' r"
  using assms unfolding edits_def by (simp add: ed_text_def)

lemma h_lines: "fst (h_prev h) = Some l \<Longrightarrow> l \<in> set (past h)" "fst (h_next h) = Some l \<Longrightarrow> hist_ok h s \<Longrightarrow> l = [] \<or> l \<in> set (past h)"
  by (auto simp: h_prev_def h_next_def hist_ok_def Let_def split: option.splits nat.splits if_splits)

lemma h_past [simp]: "past (snd (h_prev h)) = past h" "past (snd (h_next h)) = past h"
  by (auto simp: h_prev_def h_next_def split: option.splits nat.splits)

lemma history_edits:
  assumes rel: "line_rel e ln" and h: "hist_ok (hst e) s" and esc: "esc e = []"
  shows "edits (length (ed_text e) < SHELL_CB_SIZE \<and> tidy e) e s
    (ed_history (if up then h_prev (hst e) else h_next (hst e)) e) (key_history up ln s)"
proof -
  define hr where "hr = (if up then h_prev (hst e) else h_next (hst e))"
  define cr where "cr = (if up then hist_prev s else hist_next s)"
  define c where "c = hist_cur (snd cr)"
  have f: "fst cr = fst hr" and s1: "snd cr = s\<lparr>hist_cur := c\<rparr>" and h1: "hist_ok (snd hr) (s\<lparr>hist_cur := c\<rparr>)"
    using hist_prev_ok [OF h] hist_next_ok [OF h] by (auto simp: hr_def cr_def c_def split: if_splits)
  have ln: "ln\<lparr>esc_len := 0\<rparr> = ln" using rel esc by (simp add: line_rel_def)
  have cr: "cr = (fst hr, s\<lparr>hist_cur := c\<rparr>)" using f s1 by (simp add: prod_eq_iff)
  have kh: "key_history up ln s = (case fst hr of
       None \<Rightarrow> Some (ln, shell_beep (s\<lparr>hist_cur := c\<rparr>))
     | Some l \<Rightarrow> Some (BEGINNING_OF_LINE ln (s\<lparr>hist_cur := c\<rparr>)) \<bind> (\<lambda>(ln, s). ERASE_TO_EOL ln s) \<bind> (\<lambda>(ln, s).
         do { b \<leftarrow> strcpy (buf ln) l; let ln = ln\<lparr>buf := b, eol_num := length (c_string b) mod 256\<rparr>; REFRESH_TO_EOL ln s }))"
    unfolding key_history_def Let_def cr_def [symmetric] cr ln
    by (simp add: case_prod_beta split: option.split)
  define e1 where "e1 = e\<lparr>hst := snd hr\<rparr>"
  have rel1: "line_rel e1 ln" using rel by (simp add: line_rel_def ed_text_def e1_def)
  have h1': "hist_ok (hst e1) (s\<lparr>hist_cur := c\<rparr>)" using h1 by (simp add: e1_def)
  show ?thesis
  proof (cases "fst hr")
    case None
    have "edits True e1 (s\<lparr>hist_cur := c\<rparr>) e1 (key_history up ln s)"
      by (rule editsI [OF _ rel1 h1', where out = "[BEL]"]) (simp_all add: kh None shell_beep_def sputc_def)
    then have "edits True e s e1 (key_history up ln s)" by (rule edits_shift) (simp_all add: e1_def)
    moreover have "ed_history hr e = e1" using None by (simp add: ed_history_def e1_def)
    ultimately show ?thesis unfolding hr_def [symmetric] by (auto intro: edits_mono)
  next
    case (Some l)
    have lp: "l = [] \<or> l \<in> set (past (hst e))"
      using Some h_lines(1) [of "hst e" l] h_lines(2) [of "hst e" l s] h by (auto simp: hr_def split: if_splits)
    then have pl: "plain l" using hist_ok_lines(2) [OF h] by (auto simp: plain_def)
    have sl: "list_all shown l" if "tidy e" using lp that by (auto simp: tidy_def)
    define e2 where "e2 = e1\<lparr>left := [], right := ed_text e1\<rparr>"
    define e3 where "e3 = e2\<lparr>right := []\<rparr>"
    have "edits (True \<and> length (ed_text e2) < SHELL_CB_SIZE) e1 (s\<lparr>hist_cur := c\<rparr>) e3
        (Some (BEGINNING_OF_LINE ln (s\<lparr>hist_cur := c\<rparr>)) \<bind> (\<lambda>(ln, s). ERASE_TO_EOL ln s))"
      unfolding e3_def by (rule edits_bind [OF beginning_edits [OF rel1 h1', folded e2_def]]) (rule erase_edits)
    then have "edits ((True \<and> length (ed_text e2) < SHELL_CB_SIZE) \<and> list_all shown l) e1 (s\<lparr>hist_cur := c\<rparr>) (e3\<lparr>left := l\<rparr>) (key_history up ln s)"
      unfolding kh Some option.case by (rule edits_bind) (rule load_edits, simp_all add: e3_def e2_def pl)
    then have "edits ((True \<and> length (ed_text e2) < SHELL_CB_SIZE) \<and> list_all shown l) e s (e3\<lparr>left := l\<rparr>) (key_history up ln s)"
      by (rule edits_shift) (simp_all add: e1_def)
    moreover have "ed_history hr e = e3\<lparr>left := l\<rparr>" by (simp add: ed_history_def Some e3_def e2_def e1_def)
    moreover have "length (ed_text e2) = length (ed_text e)" by (simp add: e2_def e1_def ed_text_def)
    ultimately show ?thesis unfolding hr_def [symmetric] by (metis (no_types, lifting) edits_mono sl)
  qed
qed

text \<open>The two switches.\<close>

definition key_edits :: "bool \<Rightarrow> editor \<Rightarrow> shell \<Rightarrow> key_result \<times> editor \<Rightarrow> (key_result \<times> line \<times> shell) option \<Rightarrow> bool" where
  "key_edits ok e s ke r \<longleftrightarrow> (case fst ke of
       K_More \<Rightarrow> \<exists>q. r = go_on q \<and> edits ok e s (snd ke) q
     | K_Enter \<Rightarrow> snd ke = e \<and> (\<exists>ln'. r = Some (K_Enter, ln', putnstr [CHR 0x0D, CHR 0x0A] s) \<and> line_rel e ln')
     | K_Interrupt \<Rightarrow> (\<exists>ln'. r = Some (K_Interrupt, ln', s) \<and> length (buf ln') = SHELL_CB_SIZE + 1) \<and> ed_text (snd ke) = ed_text e
         \<and> left (snd ke) = left e \<and> hst (snd ke) = hst e)"

lemma key_editsI: "edits ok e s e' q \<Longrightarrow> (ok' \<Longrightarrow> ok) \<Longrightarrow> key_edits ok' e s (K_More, e') (go_on q)"
  by (auto simp: key_edits_def intro: edits_mono)

lemma esc_edits:
  assumes rel: "line_rel e ln" and h: "hist_ok (hst e) s" and c: "esc e = [] \<and> c = ESC \<or> esc e = [ESC] \<and> c = CHR ''[''"
  shows "edits True e s (e\<lparr>esc := esc e @ [c]\<rparr>)
    (do { x \<leftarrow> buf_set (length (esc e)) c (esc_save ln); Some (ln\<lparr>esc_save := x, esc_len := length (esc e) + 1\<rparr>, s) })"
proof -
  have es: "length (esc_save ln) = 8" "take (length (esc e)) (esc_save ln) = esc e" using rel by (auto simp: line_rel_def)
  then have b: "buf_set (length (esc e)) c (esc_save ln) = Some ((esc_save ln)[length (esc e) := c])"
    using c by (auto simp: buf_set_def)
  show ?thesis
    unfolding b Option.bind.bind_lunit
    by (rule editsI [where out = "[]"])
      (use rel h c es in \<open>auto simp: putnstr_def line_rel_def ed_text_def take_Suc_conv_app_nth\<close>)
qed

lemma move_edits:
  assumes rel: "line_rel e ln" and h: "hist_ok (hst e) s"
  shows "edits (tidy e) e s (case right e of [] \<Rightarrow> e | x # r \<Rightarrow> e\<lparr>left := left e @ [x], right := r\<rparr>)
      (if num ln < eol_num ln then do { str \<leftarrow> slice (num ln) 1 (buf ln); Some (ln\<lparr>num := num ln + 1\<rparr>, putnstr str s) } else Some (ln, s))"
    and "edits True e s (if left e = [] then e else e\<lparr>left := butlast (left e), right := last (left e) # right e\<rparr>)
      (Some (if num ln > 0 then (ln\<lparr>num := num ln - 1\<rparr>, sputc CTL_BACKSPACE s) else (ln, s)))"
proof -
  obtain rest where b: "buf ln = left e @ right e @ rest" "length (left e) + length (right e) + length rest = SHELL_CB_SIZE + 1"
      and p: "plain (left e @ right e)" and n: "num ln = length (left e)" "eol_num ln = length (left e) + length (right e)"
      "insert_mode ln = ins e"
    using rel by (rule line_relE)
  have same: "edits True e s e (Some (ln, s))" using rel h by (intro editsI [where out = "[]"]) (simp_all add: putnstr_def)
  show "edits (tidy e) e s (case right e of [] \<Rightarrow> e | x # r \<Rightarrow> e\<lparr>left := left e @ [x], right := r\<rparr>)
      (if num ln < eol_num ln then do { str \<leftarrow> slice (num ln) 1 (buf ln); Some (ln\<lparr>num := num ln + 1\<rparr>, putnstr str s) } else Some (ln, s))"
  proof (cases "right e")
    case Nil
    then show ?thesis using same n by (auto intro: edits_mono)
  next
    case (Cons x r)
    have sl: "slice (num ln) 1 (buf ln) = Some [x]" by (simp add: slice_def n b(1) Cons)
    have "line_rel (e\<lparr>left := left e @ [x], right := r\<rparr>) (ln\<lparr>num := num ln + 1\<rparr>)"
      by (rule line_rel_upd [OF rel, where l = "left e @ [x]" and r = r and rest = rest and h = "hst e"])
        (use b p n Cons in \<open>auto simp: plain_def\<close>)
    then show ?thesis
      unfolding Cons list.case sl Option.bind.bind_lunit using n Cons
      by (simp, intro editsI [where out = "[x]"]) (use h Cons in \<open>auto simp: ed_text_def term_write tidy_def\<close>)
  qed
  show "edits True e s (if left e = [] then e else e\<lparr>left := butlast (left e), right := last (left e) # right e\<rparr>)
      (Some (if num ln > 0 then (ln\<lparr>num := num ln - 1\<rparr>, sputc CTL_BACKSPACE s) else (ln, s)))"
  proof (cases "left e" rule: rev_cases)
    case Nil
    then show ?thesis using same n by simp
  next
    case (snoc l x)
    have "line_rel (e\<lparr>left := l, right := x # right e\<rparr>) (ln\<lparr>num := num ln - 1\<rparr>)"
      by (rule line_rel_upd [OF rel, where l = l and r = "x # right e" and rest = rest and h = "hst e"])
        (use b p n snoc in \<open>auto simp: plain_def\<close>)
    moreover have "term_puts [CTL_BACKSPACE] (display base k (l @ x # right e) (Suc (length l))) = display base k (l @ x # right e) (length l)" for base k
      using term_back [of 1 "Suc (length l)" base k] by simp
    ultimately show ?thesis
      using n snoc h by (simp, intro editsI [where out = "[CTL_BACKSPACE]"]) (simp_all add: sputc_def ed_text_def)
  qed
qed

lemma toggle_edits:
  "line_rel e ln \<Longrightarrow> hist_ok (hst e) s \<Longrightarrow>
   edits True e s (e\<lparr>ins := \<not> ins e\<rparr>) (Some (ln\<lparr>insert_mode := \<not> insert_mode ln\<rparr>, s))"
  by (rule editsI [where out = "[]"]) (auto simp: putnstr_def line_rel_def ed_text_def)

lemma clear_edits:
  assumes "line_rel e ln" and "hist_ok (hst e) s"
  shows "edits (length (ed_text e) < SHELL_CB_SIZE) e s (e\<lparr>left := [], right := []\<rparr>)
    (let (ln, s) = BEGINNING_OF_LINE ln s in ERASE_TO_EOL ln s)"
proof -
  let ?e1 = "e\<lparr>left := [], right := ed_text e\<rparr>"
  have a: "edits (True \<and> length (ed_text ?e1) < SHELL_CB_SIZE) e s (?e1\<lparr>right := []\<rparr>)
      (Some (BEGINNING_OF_LINE ln s) \<bind> (\<lambda>(ln, s). ERASE_TO_EOL ln s))"
    by (rule edits_bind [OF beginning_edits [OF assms]]) (rule erase_edits)
  have b: "(Some (BEGINNING_OF_LINE ln s) \<bind> (\<lambda>(ln, s). ERASE_TO_EOL ln s)) = (let (ln, s) = BEGINNING_OF_LINE ln s in ERASE_TO_EOL ln s)"
    unfolding Option.bind.bind_lunit Let_def ..
  have c: "?e1\<lparr>right := []\<rparr> = e\<lparr>left := [], right := []\<rparr>" by simp
  show ?thesis using a unfolding b c by (rule edits_mono) (simp add: ed_text_def)
qed

lemma cread_switch_edits:
  assumes rel: "line_rel e ln" and h: "hist_ok (hst e) s" and esc: "esc e = []" and c: "c \<noteq> NUL" "c \<noteq> CHR 0x09"
  shows "key_edits (length (ed_text e) < SHELL_CB_SIZE \<and> tidy e \<and> c \<noteq> BEL) e s (ed_command c e)
    (cread_switch complete SHELL_CB_SIZE c ln s)"
proof -
  note defs = cread_switch_def ed_command_def ctl_keys
  have el: "esc_len ln = 0" using rel esc by (simp add: line_rel_def)
  have "c = ESC \<or> c = CHR 0x01 \<or> c = CHR 0x03 \<or> c = CHR 0x06 \<or> c = CHR 0x02 \<or> c = CHR 0x04 \<or> c = CHR 0x0B \<or> c = CHR 0x05
      \<or> c = CHR 0x0F \<or> c = CHR 0x18 \<or> c = CHR 0x15 \<or> c = CHR 0xFF \<or> c = CHR 0x7F \<or> c = CHR 0x08 \<or> c = CHR 0x10 \<or> c = CHR 0x0E
      \<or> c \<notin> {ESC, CHR 0x01, CHR 0x03, CHR 0x06, CHR 0x02, CHR 0x04, CHR 0x0B, CHR 0x05, CHR 0x0F, CHR 0x18, CHR 0x15, CHR 0xFF, CHR 0x7F, CHR 0x08, CHR 0x10, CHR 0x0E}"
    by (simp only: insert_iff empty_iff) satx
  then show ?thesis
  proof (elim disjE)
    assume 1: "c = ESC"
    have q: "cread_switch complete SHELL_CB_SIZE c ln s
        = go_on (do { x \<leftarrow> buf_set (length (esc e)) c (esc_save ln); Some (ln\<lparr>esc_save := x, esc_len := length (esc e) + 1\<rparr>, s) })"
      using rel el by (simp add: defs 1 esc buf_set_def line_rel_def go_on_def)
    show ?thesis
      unfolding q using key_editsI [OF esc_edits [OF rel h, of c]] esc by (simp add: defs 1)
  next
    assume "c = CHR 0x01"
    then show ?thesis using key_editsI [OF beginning_edits [OF rel h]] by (simp add: defs)
  next
    assume "c = CHR 0x03"
    then show ?thesis using rel by (simp add: defs key_edits_def buf_set_def line_rel_def)
  next
    assume "c = CHR 0x06"
    then show ?thesis using key_editsI [OF move_edits(1) [OF rel h]] by (simp add: defs)
  next
    assume "c = CHR 0x02"
    then show ?thesis using key_editsI [OF move_edits(2) [OF rel h]] by (simp add: defs)
  next
    assume "c = CHR 0x04"
    then show ?thesis using key_editsI [OF delete_edits [OF rel h]] by (simp add: defs)
  next
    assume "c = CHR 0x0B"
    then show ?thesis using key_editsI [OF erase_edits [OF rel h]] by (simp add: defs)
  next
    assume "c = CHR 0x05"
    then show ?thesis using key_editsI [OF refresh_edits [OF rel h]] by (simp add: defs)
  next
    assume "c = CHR 0x0F"
    then show ?thesis using key_editsI [OF toggle_edits [OF rel h]] by (simp add: defs)
  next
    assume "c = CHR 0x18"
    then show ?thesis using key_editsI [OF clear_edits [OF rel h]] by (auto simp: defs)
  next
    assume "c = CHR 0x15"
    then show ?thesis using key_editsI [OF clear_edits [OF rel h]] by (auto simp: defs)
  next
    assume "c = CHR 0xFF"
    then show ?thesis using key_editsI [OF backspace_edits [OF rel h]] by (auto simp: defs)
  next
    assume "c = CHR 0x7F"
    then show ?thesis using key_editsI [OF backspace_edits [OF rel h]] by (auto simp: defs)
  next
    assume "c = CHR 0x08"
    then show ?thesis using key_editsI [OF backspace_edits [OF rel h]] by (auto simp: defs)
  next
    assume "c = CHR 0x10"
    then show ?thesis using key_editsI [OF history_edits [OF rel h esc, of True]] by (simp add: defs)
  next
    assume "c = CHR 0x0E"
    then show ?thesis using key_editsI [OF history_edits [OF rel h esc, of False]] by (simp add: defs)
  next
    assume "c \<notin> {ESC, CHR 0x01, CHR 0x03, CHR 0x06, CHR 0x02, CHR 0x04, CHR 0x0B, CHR 0x05, CHR 0x0F, CHR 0x18, CHR 0x15, CHR 0xFF, CHR 0x7F, CHR 0x08, CHR 0x10, CHR 0x0E}"
    then show ?thesis
      using key_editsI [OF cread_add_char_edits [OF rel h c(1)], of "length (ed_text e) < SHELL_CB_SIZE \<and> tidy e \<and> c \<noteq> BEL"] c
      by (simp add: defs shown_def)
  qed
qed

lemma end_esc_edits:
  assumes "edits ok e s e' q" and "ok' \<Longrightarrow> ok" and "left e0 = left e" and "right e0 = right e"
  shows "key_edits ok' e0 s (K_More, e'\<lparr>esc := []\<rparr>) (q \<bind> (\<lambda>(ln, s). go_on (Some (ln\<lparr>esc_len := 0\<rparr>, s))))"
proof -
  obtain ln' out c where q: "q = Some (ln', putnstr out (s\<lparr>hist_cur := c\<rparr>))" "line_rel e' ln'" "hist_ok (hst e') (s\<lparr>hist_cur := c\<rparr>)"
      "ok \<longrightarrow> (\<forall>base b. term_puts out (display base b (ed_text e) (length (left e))) = display base b (ed_text e') (length (left e')))"
    using assms(1) unfolding edits_def by blast
  have "line_rel (e'\<lparr>esc := []\<rparr>) (ln'\<lparr>esc_len := 0\<rparr>)" using q(2) by (auto simp: line_rel_def ed_text_def)
  then have "edits ok' e0 s (e'\<lparr>esc := []\<rparr>) (Some (ln'\<lparr>esc_len := 0\<rparr>, putnstr out (s\<lparr>hist_cur := c\<rparr>)))"
    unfolding edits_def using q assms(2-4)
    by (intro exI [of _ "ln'\<lparr>esc_len := 0\<rparr>"] exI [of _ out] exI [of _ c]) (simp add: ed_text_def)
  then show ?thesis by (auto simp: q(1) key_edits_def)
qed

subsection \<open>One key\<close>

lemma ed_char_tidy: "tidy e \<Longrightarrow> shown c \<Longrightarrow> tidy (ed_char c e)"
  by (cases "right e") (auto simp: tidy_def ed_char_def ed_text_def)

lemma ed_char_simps [simp]: "esc (ed_char c e) = esc e" "hst (ed_char c e) = hst e" "ins (ed_char c e) = ins e"
  by (simp_all add: ed_char_def)

lemma add_str_Nil: "r \<bind> (\<lambda>(ln, s). cread_add_str [] len ln s) = r"
  by (cases r) auto

lemma add_str_1: "cread_add_str [a] len ln s = cread_add_char a len ln s"
  by (simp only: cread_add_str.simps(2) add_str_Nil)

lemma add_str_3:
  "cread_add_str [a, b, c] len ln s = cread_add_char a len ln s \<bind> (\<lambda>(ln, s). cread_add_char b len ln s)
     \<bind> (\<lambda>(ln, s). cread_add_char c len ln s)"
proof (cases "cread_add_char a len ln s")
  case (Some x)
  then show ?thesis by (cases x; cases "cread_add_char b len (fst x) (snd x)") (auto simp: add_str_Nil)
qed simp

lemma add_str_3_edits:
  assumes "line_rel e ln" and "hist_ok (hst e) s" and "c \<noteq> NUL"
  shows "edits (tidy e \<and> shown c) e s (ed_char c (ed_char CHR ''['' (ed_char ESC e))) (cread_add_str [ESC, CHR ''['', c] SHELL_CB_SIZE ln s)"
proof -
  let ?e1 = "ed_char ESC e" and ?e2 = "ed_char CHR ''['' (ed_char ESC e)"
  have 1: "edits (shown ESC \<and> tidy e) e s ?e1 (cread_add_char ESC SHELL_CB_SIZE ln s)"
    by (rule cread_add_char_edits [OF assms(1,2)]) simp
  have 2: "edits ((shown ESC \<and> tidy e) \<and> shown CHR ''['' \<and> tidy ?e1) e s ?e2
      (cread_add_char ESC SHELL_CB_SIZE ln s \<bind> (\<lambda>(ln, s). cread_add_char CHR ''['' SHELL_CB_SIZE ln s))"
    by (rule edits_bind [OF 1]) (rule cread_add_char_edits, simp_all)
  have 3: "edits (((shown ESC \<and> tidy e) \<and> shown CHR ''['' \<and> tidy ?e1) \<and> shown c \<and> tidy ?e2) e s (ed_char c ?e2)
      (cread_add_str [ESC, CHR ''['', c] SHELL_CB_SIZE ln s)"
    unfolding add_str_3 by (rule edits_bind [OF 2]) (rule cread_add_char_edits, simp_all add: assms(3))
  show ?thesis by (rule edits_mono [OF 3]) (simp add: ed_char_tidy)
qed

lemma ed_char_esc: "ed_char c (e\<lparr>esc := x\<rparr>) = (ed_char c e)\<lparr>esc := x\<rparr>"
  by (simp add: ed_char_def ed_text_def)

lemma tidy_esc [simp]: "tidy (e\<lparr>esc := x\<rparr>) = tidy e"
  by (simp add: tidy_def ed_text_def)

lemma ed_command_not_enter: "fst (ed_command c e) \<noteq> K_Enter"
  by (simp add: ed_command_def)

lemma key_edits_esc:
  "key_edits ok (e\<lparr>esc := x\<rparr>) s (ed_command c e1) r \<Longrightarrow> key_edits ok e s (ed_command c e1) r"
  using ed_command_not_enter [of c e1] by (auto simp: key_edits_def edits_def ed_text_def split: key_result.splits)

lemma key_edits_mono: "key_edits ok e s ke r \<Longrightarrow> (ok' \<Longrightarrow> ok) \<Longrightarrow> key_edits ok' e s ke r"
  by (auto simp: key_edits_def intro: edits_mono split: key_result.splits)

lemma cread_key_edits:
  assumes rel: "line_rel e ln" and h: "hist_ok (hst e) s" and esc: "esc_ok e" and c: "c \<noteq> CHR 0x09"
  shows "key_edits (length (ed_text e) < SHELL_CB_SIZE \<and> tidy e \<and> c \<noteq> BEL \<and> c \<noteq> CTL_BACKSPACE) e s (ed_key c e)
    (cread_key complete SHELL_CB_SIZE c ln s)"
proof -
  have same: "edits True e s e (Some (ln, s))" using rel h by (intro editsI [where out = "[]"]) (simp_all add: putnstr_def)
  have el: "esc_len ln = length (esc e)" using rel by (simp add: line_rel_def)
  have es: "length (esc_save ln) = 8" "take (length (esc e)) (esc_save ln) = esc e" using rel by (auto simp: line_rel_def)
  show ?thesis
  proof (cases "c = NUL \<or> c = CHR 0x0A \<or> c = CHR 0x0D")
    case True
    then show ?thesis
    proof (elim disjE)
      assume "c = NUL"
      then show ?thesis using key_editsI [OF same] by (simp add: cread_key_def ed_key_def go_on_def)
    qed (use rel in \<open>auto simp: cread_key_def ed_key_def key_edits_def\<close>)
  next
    case False
    then have nn: "c \<noteq> NUL" and ck: "cread_key complete SHELL_CB_SIZE c ln s =
        (if esc_len ln = 0 then cread_switch complete SHELL_CB_SIZE c ln s
         else if esc_len ln = 1 then
           (if c = CHR ''['' then do { e \<leftarrow> buf_set 1 c (esc_save ln); go_on (Some (ln\<lparr>esc_save := e, esc_len := 2\<rparr>, s)) }
            else do { str \<leftarrow> slice 0 (esc_len ln) (esc_save ln);
                      (ln, s) \<leftarrow> cread_add_str str SHELL_CB_SIZE ln s; go_on (Some (ln\<lparr>esc_len := 0\<rparr>, s)) })
         else (case map_of [(CHR ''D'', CHR ''b''), (CHR ''C'', CHR ''f''), (CHR ''H'', CHR ''a''), (CHR ''A'', CHR ''p''),
                            (CHR ''B'', CHR ''n'')] c of
                 Some k \<Rightarrow> cread_switch complete SHELL_CB_SIZE (CTL_CH k) (ln\<lparr>esc_len := 0\<rparr>) s
               | None \<Rightarrow> do {
                   e \<leftarrow> buf_set (esc_len ln) c (esc_save ln);
                   str \<leftarrow> slice 0 (esc_len ln + 1) e;
                   (ln, s) \<leftarrow> cread_add_str str SHELL_CB_SIZE (ln\<lparr>esc_save := e, esc_len := esc_len ln + 1\<rparr>) s;
                   go_on (Some (ln\<lparr>esc_len := 0\<rparr>, s)) }))"
      by (simp_all add: cread_key_def)
    from esc consider "esc e = []" | "esc e = [ESC]" "c = CHR ''[''" | "esc e = [ESC]" "c \<noteq> CHR ''[''" | "esc e = [ESC, CHR ''['']"
      unfolding esc_ok_def by blast
    then show ?thesis
    proof cases
      case 1
      then have "cread_key complete SHELL_CB_SIZE c ln s = cread_switch complete SHELL_CB_SIZE c ln s" "ed_key c e = ed_command c e"
        using False el by (simp_all add: ck ed_key_def)
      then show ?thesis using cread_switch_edits [OF rel h 1 nn c, of complete] by (auto simp: key_edits_def intro: edits_mono split: key_result.splits)
    next
      case 2
      have "cread_key complete SHELL_CB_SIZE c ln s
          = go_on (do { x \<leftarrow> buf_set (length (esc e)) c (esc_save ln); Some (ln\<lparr>esc_save := x, esc_len := length (esc e) + 1\<rparr>, s) })"
        unfolding ck using el es(1) 2 by (simp add: buf_set_def go_on_def)
      then show ?thesis using key_editsI [OF esc_edits [OF rel h, of c]] 2 by (simp add: ed_key_def)
    next
      case 3
      have sl: "slice 0 (esc_len ln) (esc_save ln) = Some [ESC]" using es 3 el by (simp add: slice_def)
      have ek: "ed_key c e = (K_More, (ed_char ESC e)\<lparr>esc := []\<rparr>)" using False 3 by (simp add: ed_key_def)
      have k: "cread_key complete SHELL_CB_SIZE c ln s =
          cread_add_char ESC SHELL_CB_SIZE ln s \<bind> (\<lambda>(ln, s). go_on (Some (ln\<lparr>esc_len := 0\<rparr>, s)))"
        unfolding ck sl using el 3 by (simp add: add_str_1 del: cread_add_str.simps)
      have "edits (shown ESC \<and> tidy e) e s (ed_char ESC e) (cread_add_char ESC SHELL_CB_SIZE ln s)"
        by (rule cread_add_char_edits [OF rel h]) simp
      then show ?thesis unfolding ek k by (rule end_esc_edits) simp_all
    next
      case 4
      define k where "k = map_of [(CHR ''D'', CHR ''b''), (CHR ''C'', CHR ''f''), (CHR ''H'', CHR ''a''), (CHR ''A'', CHR ''p''),
        (CHR ''B'', CHR ''n'')] c"
      show ?thesis
      proof (cases k)
        case None
        define x where "x = (esc_save ln)[2 := c]"
        have bs: "buf_set (esc_len ln) c (esc_save ln) = Some x" using es el 4 by (simp add: buf_set_def x_def numeral_2_eq_2)
        have tx: "take 3 x = [ESC, CHR ''['', c]"
        proof -
          obtain y ys where d: "drop 2 (esc_save ln) = y # ys" using es(1) by (cases "drop 2 (esc_save ln)") auto
          have "esc_save ln = [ESC, CHR ''[''] @ y # ys"
            using es(2) 4 d append_take_drop_id [of 2 "esc_save ln"] by (simp add: numeral_2_eq_2)
          then show ?thesis by (simp add: x_def numeral_2_eq_2 numeral_3_eq_3)
        qed
        have sl: "slice 0 (esc_len ln + 1) x = Some [ESC, CHR ''['', c]" using tx es el 4 by (simp add: slice_def x_def numeral_3_eq_3)
        let ?ln = "ln\<lparr>esc_save := x, esc_len := esc_len ln + 1\<rparr>"
        have ek: "ed_key c e = (K_More, (ed_char c (ed_char CHR ''['' (ed_char ESC e)))\<lparr>esc := []\<rparr>)"
          using False 4 None by (simp add: ed_key_def k_def del: map_of.simps)
        have kk: "cread_key complete SHELL_CB_SIZE c ln s =
            cread_add_str [ESC, CHR ''['', c] SHELL_CB_SIZE ?ln s \<bind> (\<lambda>(ln, s). go_on (Some (ln\<lparr>esc_len := 0\<rparr>, s)))"
          unfolding ck k_def [symmetric] None option.case bs Option.bind.bind_lunit sl using el 4 by simp
        have rel0: "line_rel (e\<lparr>esc := [ESC, CHR ''['', c]\<rparr>) ?ln"
          using rel tx 4 by (simp add: line_rel_def ed_text_def x_def numeral_3_eq_3)
        have "edits (tidy e \<and> shown c) (e\<lparr>esc := [ESC, CHR ''['', c]\<rparr>) s
            ((ed_char c (ed_char CHR ''['' (ed_char ESC e)))\<lparr>esc := [ESC, CHR ''['', c]\<rparr>)
            (cread_add_str [ESC, CHR ''['', c] SHELL_CB_SIZE ?ln s)"
          using add_str_3_edits [OF rel0 _ nn] h by (simp add: ed_char_esc del: cread_add_str.simps)
        then have "key_edits (length (ed_text e) < SHELL_CB_SIZE \<and> tidy e \<and> c \<noteq> BEL \<and> c \<noteq> CTL_BACKSPACE) e s
            (K_More, (ed_char c (ed_char CHR ''['' (ed_char ESC e)))\<lparr>esc := [ESC, CHR ''['', c]\<rparr>\<lparr>esc := []\<rparr>)
            (cread_key complete SHELL_CB_SIZE c ln s)"
          unfolding kk by (rule end_esc_edits) (use nn in \<open>simp_all add: shown_def\<close>)
        then show ?thesis by (simp add: ek)
      next
        case (Some m)
        have m: "CTL_CH m \<noteq> NUL" "CTL_CH m \<noteq> CHR 0x09" "CTL_CH m \<noteq> BEL"
          using Some by (auto simp: k_def ctl_keys split: if_splits)
        have rel0: "line_rel (e\<lparr>esc := []\<rparr>) (ln\<lparr>esc_len := 0\<rparr>)" using rel by (auto simp: line_rel_def ed_text_def)
        have ek: "ed_key c e = ed_command (CTL_CH m) (e\<lparr>esc := []\<rparr>)"
          using False 4 Some by (simp add: ed_key_def k_def del: map_of.simps)
        have kk: "cread_key complete SHELL_CB_SIZE c ln s = cread_switch complete SHELL_CB_SIZE (CTL_CH m) (ln\<lparr>esc_len := 0\<rparr>) s"
          unfolding ck k_def [symmetric] Some option.case using el 4 by simp
        have "key_edits (length (ed_text (e\<lparr>esc := []\<rparr>)) < SHELL_CB_SIZE \<and> tidy (e\<lparr>esc := []\<rparr>) \<and> CTL_CH m \<noteq> BEL) (e\<lparr>esc := []\<rparr>) s
            (ed_key c e) (cread_key complete SHELL_CB_SIZE c ln s)"
          unfolding ek kk by (rule cread_switch_edits [OF rel0 _ _ m(1,2)]) (use h in simp_all)
        then show ?thesis
          unfolding ek by (rule key_edits_mono [OF key_edits_esc]) (simp add: ed_text_def m(3))
      qed
    qed
  qed
qed

subsection \<open>A line\<close>

lemma tidy_subset: "tidy e \<Longrightarrow> set (ed_text e') \<subseteq> set (ed_text e) \<Longrightarrow> past (hst e') = past (hst e) \<Longrightarrow> tidy e'"
  by (auto simp: tidy_def list_all_iff)

lemma ed_history_tidy: "tidy e \<Longrightarrow> hist_ok (hst e) s \<Longrightarrow> r = h_prev (hst e) \<or> r = h_next (hst e) \<Longrightarrow> tidy (ed_history r e)"
  using h_lines(1) [of "hst e"] h_lines(2) [of "hst e" _ s]
  by (auto simp: tidy_def ed_history_def ed_text_def split: option.split)

lemma tl_subset: "set (tl xs) \<subseteq> set xs"
  by (cases xs) auto

lemma butlast_subset: "set (butlast xs) \<subseteq> set xs"
  by (auto dest: in_set_butlastD)

lemma ed_command_tidy:
  assumes "tidy e" and "c \<noteq> BEL" and "c \<noteq> NUL" and "hist_ok (hst e) s"
  shows "tidy (snd (ed_command c e))"
proof -
  have sub: "tidy e'" if "set (ed_text e') \<subseteq> set (ed_text e)" "past (hst e') = past (hst e)" for e'
    using assms(1) that by (rule tidy_subset)
  have cc: "tidy (ed_char c e)" if "c \<noteq> CTL_BACKSPACE" using ed_char_tidy [OF assms(1)] assms that by (simp add: shown_def)
  have 1: "tidy (e\<lparr>esc := [ESC]\<rparr>)" "tidy (e\<lparr>left := [], right := ed_text e\<rparr>)" "tidy (e\<lparr>right := tl (right e)\<rparr>)" "tidy (e\<lparr>right := []\<rparr>)"
      "tidy (e\<lparr>left := ed_text e, right := []\<rparr>)" "tidy (e\<lparr>ins := \<not> ins e\<rparr>)" "tidy (e\<lparr>left := [], right := []\<rparr>)"
      "tidy (e\<lparr>left := butlast (left e)\<rparr>)"
    using assms(1) tl_subset [of "right e"] butlast_subset [of "left e"] by (auto intro!: sub simp: ed_text_def)
  have 2: "tidy (case right e of [] \<Rightarrow> e | x # r \<Rightarrow> e\<lparr>left := left e @ [x], right := r\<rparr>)"
    by (rule sub) (auto simp: ed_text_def split: list.split)
  have 3: "tidy (if left e = [] then e else e\<lparr>left := butlast (left e), right := last (left e) # right e\<rparr>)"
    by (rule sub) (auto simp: ed_text_def dest: in_set_butlastD)
  have 4: "tidy (ed_history (h_prev (hst e)) e)" "tidy (ed_history (h_next (hst e)) e)"
    using ed_history_tidy [OF assms(1,4)] by simp_all
  show ?thesis using 1 2 3 4 cc assms(1) by (simp add: ed_command_def del: split_paired_All)
qed

lemma ed_key_tidy:
  assumes "tidy e" and "c \<noteq> BEL" and "c \<noteq> CTL_BACKSPACE" and "hist_ok (hst e) s"
  shows "tidy (snd (ed_key c e))"
proof -
  have "CTL_CH k \<noteq> BEL \<and> CTL_CH k \<noteq> NUL" if "map_of [(CHR ''D'', CHR ''b''), (CHR ''C'', CHR ''f''), (CHR ''H'', CHR ''a''), (CHR ''A'', CHR ''p''),
      (CHR ''B'', CHR ''n'')] c = Some k" for k
    using that by (auto simp: ctl_keys split: if_splits)
  moreover have "tidy (ed_char c (ed_char CHR ''['' (ed_char ESC e)))" if "c \<noteq> NUL"
    using that assms by (intro ed_char_tidy) (simp_all add: shown_def)
  ultimately show ?thesis
    using assms ed_char_tidy [of e ESC] ed_command_tidy [of e c s] ed_command_tidy [of "e\<lparr>esc := []\<rparr>" _ s]
    by (auto simp: ed_key_def simp del: map_of.simps split: option.split)
qed

lemma esc_unchanged:
  "esc (ed_history r e) = esc e" "esc (case right e of [] \<Rightarrow> e | x # xs \<Rightarrow> e\<lparr>left := left e @ [x], right := xs\<rparr>) = esc e"
  by (auto simp: ed_history_def split: option.split list.split)

lemma ed_command_esc: "esc (snd (ed_command c e)) = (if c = ESC then [ESC] else esc e)"
  by (simp add: ed_command_def ctl_keys esc_unchanged if_distrib [of esc] cong: if_cong)

lemma ed_key_esc: "esc_ok e \<Longrightarrow> esc_ok (snd (ed_key c e))"
  by (auto simp: ed_key_def esc_ok_def ed_command_esc simp del: map_of.simps split: option.split)

definition shows_line :: "char list \<Rightarrow> editor \<Rightarrow> editor \<Rightarrow> bool" where
  "shows_line out e e' \<longleftrightarrow>
     (\<forall>base b. term_puts out (display base b (ed_text e) (length (left e))) = display base b (ed_text e') (length (left e')))"

definition typed :: "char list \<Rightarrow> editor \<Rightarrow> bool" where
  "typed cs e \<longleftrightarrow> ed_fits cs e \<and> tidy e \<and> BEL \<notin> set cs \<and> CTL_BACKSPACE \<notin> set cs"

definition crlf :: "key_result \<Rightarrow> char list" where
  "crlf k = (if k = K_Enter then [CHR 0x0D, CHR 0x0A] else [])"

lemma shows_trans: "shows_line o1 e e1 \<Longrightarrow> shows_line o2 e1 e2 \<Longrightarrow> shows_line (o1 @ o2) e e2"
  by (simp add: shows_line_def)

lemma typed_step:
  assumes "typed (c # cs) e" and "hist_ok (hst e) s" and "ed_key c e = (K_More, e1)"
  shows "typed cs e1"
  using assms ed_key_tidy [of e c s] by (auto simp: typed_def)

lemma cread_loop_edits:
  assumes "line_rel e ln" and "hist_ok (hst e) s" and "esc_ok e" and "CHR 0x09 \<notin> set cs" and "ed_run cs e = (k, e', rest)"
  shows "\<exists>ln' out c. cread_loop complete SHELL_CB_SIZE cs ln s = Some (k, ln', putnstr (out @ crlf k) (s\<lparr>hist_cur := c\<rparr>), rest)
    \<and> length (buf ln') = SHELL_CB_SIZE + 1 \<and> (k \<noteq> K_Interrupt \<longrightarrow> line_rel e' ln') \<and> hist_ok (hst e') (s\<lparr>hist_cur := c\<rparr>)
    \<and> (typed cs e \<longrightarrow> shows_line out e e')"
  using assms
proof (induction cs arbitrary: e ln s)
  case Nil
  then have "cread_loop complete SHELL_CB_SIZE [] ln s = Some (k, ln, putnstr ([] @ crlf k) (s\<lparr>hist_cur := hist_cur s\<rparr>), rest)"
    by (simp add: putnstr_def crlf_def)
  then show ?case using Nil by (intro exI [of _ ln] exI [of _ "[]"] exI [of _ "hist_cur s"]) (auto simp: line_rel_def shows_line_def)
next
  case (Cons c cs)
  obtain k1 e1 where ke: "ed_key c e = (k1, e1)" by fastforce
  have key: "key_edits (length (ed_text e) < SHELL_CB_SIZE \<and> tidy e \<and> c \<noteq> BEL \<and> c \<noteq> CTL_BACKSPACE) e s (k1, e1)
      (cread_key complete SHELL_CB_SIZE c ln s)"
    using cread_key_edits [OF Cons.prems(1-3), of c complete] Cons.prems(4) by (auto simp: ke)
  show ?case
  proof (cases k1)
    case K_More
    obtain q ln1 o1 c1 where q: "cread_key complete SHELL_CB_SIZE c ln s = go_on q" "q = Some (ln1, putnstr o1 (s\<lparr>hist_cur := c1\<rparr>))"
        and r1: "line_rel e1 ln1" and h1: "hist_ok (hst e1) (s\<lparr>hist_cur := c1\<rparr>)"
        and d1: "typed (c # cs) e \<longrightarrow> shows_line o1 e e1"
    proof -
      obtain q where q: "cread_key complete SHELL_CB_SIZE c ln s = go_on q"
          "edits (length (ed_text e) < SHELL_CB_SIZE \<and> tidy e \<and> c \<noteq> BEL \<and> c \<noteq> CTL_BACKSPACE) e s e1 q"
        using key K_More by (auto simp: key_edits_def)
      have "length (ed_text e) < SHELL_CB_SIZE \<and> tidy e \<and> c \<noteq> BEL \<and> c \<noteq> CTL_BACKSPACE" if "typed (c # cs) e"
        using that by (auto simp: typed_def)
      with q that show thesis unfolding edits_def shows_line_def by blast
    qed
    let ?s1 = "putnstr o1 (s\<lparr>hist_cur := c1\<rparr>)"
    have run: "ed_run cs e1 = (k, e', rest)" using Cons.prems(5) by (simp add: ke K_More)
    have ck: "cread_key complete SHELL_CB_SIZE c ln s = Some (K_More, ln1, ?s1)" using q by (simp add: go_on_def)
    have esc1: "esc_ok e1" using ed_key_esc [OF Cons.prems(3), of c] by (simp add: ke)
    obtain ln2 o2 c2 where 2: "cread_loop complete SHELL_CB_SIZE cs ln1 ?s1 = Some (k, ln2, putnstr (o2 @ crlf k) (?s1\<lparr>hist_cur := c2\<rparr>), rest)"
        "length (buf ln2) = SHELL_CB_SIZE + 1" "k \<noteq> K_Interrupt \<longrightarrow> line_rel e' ln2" "hist_ok (hst e') (?s1\<lparr>hist_cur := c2\<rparr>)"
        "typed cs e1 \<longrightarrow> shows_line o2 e1 e'"
      using Cons.IH [OF r1 _ esc1 _ run, of ?s1] h1 Cons.prems(4) by auto
    have "typed (c # cs) e \<longrightarrow> shows_line (o1 @ o2) e e'"
      using d1 2(5) typed_step [OF _ Cons.prems(2)] ke K_More shows_trans by blast
    with 2 ck show ?thesis by (intro exI [of _ ln2] exI [of _ "o1 @ o2"] exI [of _ c2]) simp
  next
    case K_Enter
    then obtain ln' where "cread_key complete SHELL_CB_SIZE c ln s = Some (K_Enter, ln', putnstr [CHR 0x0D, CHR 0x0A] s)" "line_rel e ln'" "e1 = e"
      using key by (auto simp: key_edits_def)
    then show ?thesis using Cons.prems ke K_Enter
      by (intro exI [of _ ln'] exI [of _ "[]"] exI [of _ "hist_cur s"]) (auto simp: crlf_def line_rel_def shows_line_def)
  next
    case K_Interrupt
    then obtain ln' where "cread_key complete SHELL_CB_SIZE c ln s = Some (K_Interrupt, ln', s)" "length (buf ln') = SHELL_CB_SIZE + 1"
        "ed_text e1 = ed_text e" "left e1 = left e" "hst e1 = hst e"
      using key by (auto simp: key_edits_def)
    then show ?thesis using Cons.prems ke K_Interrupt
      by (intro exI [of _ ln'] exI [of _ "[]"] exI [of _ "hist_cur s"]) (auto simp: crlf_def putnstr_def shows_line_def)
  qed
qed

lemma cread_finish_ok:
  assumes rel: "line_rel e ln" and h: "hist_ok (hst e) s"
  shows "\<exists>s'. cread_finish ln s = Some s' \<and> sh_out s' = sh_out s \<and> initted s' = initted s
    \<and> length (console_buffer s') = SHELL_CB_SIZE + 1 \<and> c_string (console_buffer s') = ed_text e \<and> hist_ok (h_add (ed_text e) (hst e)) s'"
proof -
  obtain rest where b: "buf ln = ed_text e @ rest" "length (ed_text e) + length rest = SHELL_CB_SIZE + 1"
      and p: "plain (ed_text e)" and n: "eol_num ln = length (ed_text e)"
    using rel by (auto simp: line_rel_def ed_text_def)
  have "rest \<noteq> []" using b(2) p by (auto simp: plain_def)
  then obtain x xs where x: "rest = x # xs" by (cases rest) auto
  define b1 where "b1 = ed_text e @ NUL # xs"
  have bs: "buf_set (eol_num ln) NUL (buf ln) = Some b1" by (simp add: buf_set_def n b(1) x b1_def list_update_append)
  have cs: "c_string b1 = ed_text e" using p by (simp add: b1_def c_string_prefix plain_def)
  have l1: "length b1 = SHELL_CB_SIZE + 1" using b(2) x by (simp add: b1_def)
  define c where "c = (if ed_text e = [] then NUL else hd (ed_text e))"
  have sl: "slice 0 1 b1 = Some [c]" by (cases "ed_text e") (simp_all add: slice_def b1_def c_def)
  have cn: "c \<noteq> NUL \<and> c \<noteq> CREAD_HIST_CHAR \<longleftrightarrow> ed_text e \<noteq> [] \<and> hd (ed_text e) \<noteq> CREAD_HIST_CHAR"
    using p by (cases "ed_text e") (auto simp: c_def plain_def)
  let ?s1 = "s\<lparr>console_buffer := b1\<rparr>"
  have h1: "hist_ok (hst e) ?s1" using h by (simp add: hist_ok_def Let_def cong: option.case_cong)
  have eq: "cread_finish ln s = (if ed_text e \<noteq> [] \<and> hd (ed_text e) \<noteq> CREAD_HIST_CHAR then cread_add_to_hist (ed_text e) ?s1 else Some ?s1)
      \<bind> (\<lambda>s. Some (s\<lparr>hist_cur := hist_add_idx s\<rparr>))"
    unfolding cread_finish_def bs Option.bind.bind_lunit Let_def sl list.sel cn cs by (rule refl)
  show ?thesis
  proof (cases "ed_text e \<noteq> [] \<and> hd (ed_text e) \<noteq> CREAD_HIST_CHAR")
    case True
    obtain s' where s': "cread_add_to_hist (ed_text e) ?s1 = Some s'" "sh_out s' = sh_out s" "console_buffer s' = b1" "initted s' = initted s"
        "hist_ok ((hst e)\<lparr>past := ed_text e # past (hst e), here := Some 0\<rparr>) (s'\<lparr>hist_cur := hist_add_idx s'\<rparr>)"
      using cread_add_to_hist_ok [OF h1 p] by auto
    have "h_add (ed_text e) (hst e) = (hst e)\<lparr>past := ed_text e # past (hst e), here := Some 0\<rparr>"
      using True by (simp add: h_add_def)
    then show ?thesis unfolding eq using True s' cs l1 by simp
  next
    case False
    have "h_add (ed_text e) (hst e) = (hst e)\<lparr>here := Some 0\<rparr>" using False by (auto simp: h_add_def)
    moreover have "hist_ok ((hst e)\<lparr>here := Some 0\<rparr>) (?s1\<lparr>hist_cur := hist_add_idx ?s1\<rparr>)"
      using h by (simp add: hist_ok_def Let_def)
    ultimately show ?thesis unfolding eq using False cs l1 by auto
  qed
qed

subsection \<open>Reading a line\<close>

definition shell_ok :: "history \<Rightarrow> shell \<Rightarrow> bool" where
  "shell_ok h s \<longleftrightarrow> length (console_buffer s) = SHELL_CB_SIZE + 1
     \<and> (if initted s then hist_ok h s
        else h = \<lparr>past = [], here = None\<rparr> \<and> (\<forall>i < HIST_MAX. length (hist_list s i) = SHELL_CB_SIZE + 1))"

definition ed_start :: "history \<Rightarrow> editor" where
  "ed_start h = \<lparr>left = [], right = [], ins = True, esc = [], hst = h\<rparr>"

definition line_result :: "key_result \<Rightarrow> editor \<Rightarrow> int option" where
  "line_result k e = (case k of K_More \<Rightarrow> None | K_Enter \<Rightarrow> Some (int (length (ed_text e))) | K_Interrupt \<Rightarrow> Some (- 1))"

lemma readline_ok:
  assumes s: "shell_ok h s" and tab: "CHR 0x09 \<notin> set inp" and run: "ed_run inp (ed_start h) = (k, e, rest)"
  shows "\<exists>s' out. readline complete prompt inp s = Some (line_result k e, s', rest)
    \<and> sh_out s' = sh_out s @ prompt @ out @ crlf k
    \<and> (k = K_Enter \<longrightarrow> c_string (console_buffer s') = ed_text e \<and> shell_ok (h_add (ed_text e) (hst e)) s')
    \<and> (k = K_Interrupt \<longrightarrow> shell_ok (hst e) s')
    \<and> (typed inp (ed_start h) \<longrightarrow> shows_line out (ed_start h) e)"
proof -
  define b where "b = (console_buffer s)[0 := NUL]"
  have lb: "length b = SHELL_CB_SIZE + 1" using s by (simp add: b_def shell_ok_def)
  have cb: "c_string b = []" using lb by (cases "console_buffer s") (simp_all add: c_string_def b_def)
  define s1 where "s1 = (if initted s then s\<lparr>console_buffer := b\<rparr> else (hist_init (s\<lparr>console_buffer := b\<rparr>))\<lparr>initted := True\<rparr>)"
  define s2 where "s2 = putnstr prompt s1"
  have s2: "console_buffer s2 = b" "initted s2" "sh_out s2 = sh_out s @ prompt"
    by (simp_all add: s2_def s1_def putnstr_def hist_init_def)
  have h2: "hist_ok h s2"
  proof (cases "initted s")
    case True
    then have "hist_ok h s" using s by (simp add: shell_ok_def)
    then have "hist_ok h (s\<lparr>console_buffer := b\<rparr>)" by (simp add: hist_ok_def Let_def cong: option.case_cong)
    then show ?thesis using True by (simp add: s2_def s1_def)
  next
    case False
    then show ?thesis using s by (simp add: s2_def s1_def shell_ok_def) (simp add: hist_ok_def hist_init_def)
  qed
  have bs: "buf_set 0 NUL (console_buffer s) = Some b" using s by (simp add: buf_set_def b_def shell_ok_def)
  have rel: "line_rel (ed_start h) (line_start b)"
    using lb by (simp add: line_rel_def ed_start_def line_start_def ed_text_def plain_def)
  have hs: "hist_ok (hst (ed_start h)) s2" "esc_ok (ed_start h)" using h2 by (simp_all add: ed_start_def esc_ok_def)
  obtain ln' out c where l: "cread_loop complete SHELL_CB_SIZE inp (line_start b) s2
        = Some (k, ln', putnstr (out @ crlf k) (s2\<lparr>hist_cur := c\<rparr>), rest)"
      "length (buf ln') = SHELL_CB_SIZE + 1" "k \<noteq> K_Interrupt \<longrightarrow> line_rel e ln'" "hist_ok (hst e) (s2\<lparr>hist_cur := c\<rparr>)"
      "typed inp (ed_start h) \<longrightarrow> shows_line out (ed_start h) e"
    using cread_loop_edits [OF rel hs tab run, of complete] by blast
  let ?s3 = "putnstr (out @ crlf k) (s2\<lparr>hist_cur := c\<rparr>)"
  have s3: "sh_out ?s3 = sh_out s @ prompt @ out @ crlf k" "initted ?s3" using s2 by (simp_all add: putnstr_def)
  have rl: "readline complete prompt inp s = (if k = K_Enter then do { s \<leftarrow> cread_finish ln' ?s3; Some (k, eol_num ln', s, rest) }
        else Some (k, SHELL_CB_SIZE, ?s3\<lparr>console_buffer := buf ln'\<rparr>, rest))
      \<bind> (\<lambda>(k, len, s, rest). Some (case k of K_More \<Rightarrow> None | K_Enter \<Rightarrow> Some (int len) | K_Interrupt \<Rightarrow> Some (- 1), s, rest))"
    unfolding readline_def bs Option.bind.bind_lunit Let_def cread_line_def
    using l(1) cb s2(1) by (simp add: s1_def s2_def)
  show ?thesis
  proof (cases k)
    case K_Enter
    then have r: "line_rel e ln'" using l(3) by simp
    obtain s' where s': "cread_finish ln' ?s3 = Some s'" "sh_out s' = sh_out ?s3" "initted s'"
        "length (console_buffer s') = SHELL_CB_SIZE + 1" "c_string (console_buffer s') = ed_text e" "hist_ok (h_add (ed_text e) (hst e)) s'"
      using cread_finish_ok [OF r, of ?s3] l(4) s3(2) by auto
    have "readline complete prompt inp s = Some (line_result k e, s', rest)"
      using s'(1) r K_Enter unfolding rl by (simp add: line_result_def line_rel_def)
    then show ?thesis using s' s3 l(5) K_Enter by (intro exI [of _ s'] exI [of _ out]) (simp add: shell_ok_def)
  next
    case K_Interrupt
    have "hist_ok (hst e) (?s3\<lparr>console_buffer := buf ln'\<rparr>)"
      using l(4) by (simp add: hist_ok_def putnstr_def Let_def cong: option.case_cong)
    then show ?thesis using rl s3 l(2,5) K_Interrupt
      by (intro exI [of _ "?s3\<lparr>console_buffer := buf ln'\<rparr>"] exI [of _ out]) (simp add: shell_ok_def line_result_def)
  next
    case K_More
    then show ?thesis using rl s3 l(5)
      by (intro exI [of _ "?s3\<lparr>console_buffer := buf ln'\<rparr>"] exI [of _ out]) (simp add: line_result_def)
  qed
qed

text \<open>
  C21 The line editor is the editor of two lists: whatever is typed (the tab key apart), \<open>readline\<close> makes no
  access outside its arrays, takes exactly the characters up to the end of the line, returns the length of the text the
  abstract editor holds (or \<open>-1\<close> after control C), leaves this text in \<open>console_buffer\<close>, and its ring of lines is again the
  list of past lines, with the new one in front unless it is empty or begins with an exclamation mark.
\<close>

theorem readline_refines:
  assumes "shell_ok h s" and "CHR 0x09 \<notin> set inp"
  shows "case ed_run inp (ed_start h) of (k, e, rest) \<Rightarrow>
    \<exists>s'. readline complete prompt inp s = Some (line_result k e, s', rest)
      \<and> (k = K_Enter \<longrightarrow> c_string (console_buffer s') = ed_text e \<and> shell_ok (h_add (ed_text e) (hst e)) s')
      \<and> (k = K_Interrupt \<longrightarrow> shell_ok (hst e) s')"
  using readline_ok [OF assms] by (cases "ed_run inp (ed_start h)") fast

text \<open>
  C22 What the user sees is what the buffer holds: while the line stays below the size of the buffer, the
  characters sent to the terminal after the prompt always leave it showing the text from the prompt on, blanks behind it, and
  the cursor where the next character goes, whatever keys were used: insertion, overwriting, deletions, cursor keys, recalled
  lines.  (Typed bells and backspaces are excluded, the two delete keys are not.)
\<close>

theorem readline_screen:
  assumes "shell_ok h s" and "CHR 0x09 \<notin> set inp" and "typed inp (ed_start h)" and "ed_run inp (ed_start h) = (k, e, rest)"
  shows "\<exists>s' out. readline complete prompt inp s = Some (line_result k e, s', rest) \<and> sh_out s' = sh_out s @ prompt @ out @ crlf k
    \<and> (\<forall>base b. term_puts out (display base b [] 0) = display base b (ed_text e) (length (left e)))"
proof -
  obtain s' out where "readline complete prompt inp s = Some (line_result k e, s', rest)" "sh_out s' = sh_out s @ prompt @ out @ crlf k"
      "shows_line out (ed_start h) e"
    using readline_ok [OF assms(1,2,4)] assms(3) by blast
  then show ?thesis
    unfolding shows_line_def by (intro exI [of _ s'] exI [of _ out]) (simp add: ed_start_def ed_text_def)
qed

definition ex_shell :: shell where
  "ex_shell = \<lparr>hist_max = 0, hist_add_idx = 0, hist_cur = 0, hist_num = 0, hist_list = (\<lambda>_. replicate 129 NUL),
     console_buffer = replicate 129 NUL, initted = False, sh_out = []\<rparr>"

lemma ex_shell_ok: "shell_ok \<lparr>past = [], here = None\<rparr> ex_shell"
  by (simp add: shell_ok_def ex_shell_def)

text \<open>The keys: \<open>ad\<close>, cursor left by its escape sequence, \<open>bc\<close>, delete to the left, return.\<close>

definition ex_keys :: "char list" where
  "ex_keys = ''ad'' @ [ESC, CHR ''['', CHR ''D''] @ ''bc'' @ [CHR 0x7F, CHR 0x0D]"

lemma ex_run: "ed_run ex_keys (ed_start \<lparr>past = [], here = None\<rparr>) =
    (K_Enter, \<lparr>left = ''ab'', right = ''d'', ins = True, esc = [], hst = \<lparr>past = [], here = None\<rparr>\<rparr>, [])"
  by code_simp

theorem readline_refines_witness:
  "\<exists>s'. readline (\<lambda>_ _ _. None) ''>'' ex_keys ex_shell = Some (Some 3, s', []) \<and> c_string (console_buffer s') = ''abd''
     \<and> shell_ok \<lparr>past = [''abd''], here = Some 0\<rparr> s'"
proof -
  have t: "CHR 0x09 \<notin> set ex_keys" by (simp add: ex_keys_def)
  show ?thesis
    using readline_refines [OF ex_shell_ok t, of "\<lambda>_ _ _. None" "''>''", unfolded ex_run]
    by (auto simp: line_result_def ed_text_def h_add_def)
qed

theorem readline_screen_witness:
  "\<exists>s' out. readline (\<lambda>_ _ _. None) ''>'' ex_keys ex_shell = Some (Some 3, s', []) \<and> sh_out s' = ''>'' @ out @ [CHR 0x0D, CHR 0x0A]
     \<and> (\<forall>base b. term_puts out (display base b [] 0) = display base b ''abd'' 2)"
proof -
  have t: "CHR 0x09 \<notin> set ex_keys" by (simp add: ex_keys_def)
  have ty: "typed ex_keys (ed_start \<lparr>past = [], here = None\<rparr>)"
    by code_simp
  show ?thesis
    using readline_screen [OF ex_shell_ok t ty ex_run, of "\<lambda>_ _ _. None" "''>''"]
    by (auto simp: line_result_def ed_text_def crlf_def ex_shell_def numeral_2_eq_2)
qed

text \<open>
  On a full line of 128 characters the bound of \<open>readline_screen\<close> matters: erasing it from the beginning prints 127
  blanks and a null instead of 128 blanks, so the last cell keeps its character and the cursor ends one column too far left.
\<close>

lemma erase_full_line:
  "shell_printf (replicate 128 CHR '' '') s = Some (putnstr (replicate 127 CHR '' '' @ [NUL]) s)"
  by (simp add: shell_printf_def Let_def)

end
