(* ===== verification/Shell_Cmd.thy ===== *)
theory Shell_Cmd
  imports Shell_Screen
begin

text \<open>
  The command half of the shell: the table of commands, splitting a line into arguments, completion
  (\<open>shell_autocomplete.c\<close>), the commands \<open>help\<close> and \<open>history\<close>, and the main loop.  An argument \<open>argv[i]\<close>, a pointer
  into the line in the code, is its offset; the table of commands between the two section symbols is a list.
\<close>

subsection \<open>The table\<close>

abbreviation (input) SHELL_MAX_ARGS :: nat where "SHELL_MAX_ARGS \<equiv> 8"
abbreviation (input) CMD_RET_SUCCESS :: int where "CMD_RET_SUCCESS \<equiv> 0"
abbreviation (input) CMD_RET_USAGE :: int where "CMD_RET_USAGE \<equiv> - 1"

text \<open>
  A command gets the strings of its arguments and the state of the shell; \<open>None\<close> as its result is undefined
  behaviour.  A completion function returns a number and the array \<open>cmdv\<close> of at most \<open>maxv\<close> strings.
\<close>

record cmd_tbl =
  cmd_name :: "char list"
  maxargs :: nat
  repeatable :: nat
  cmd_fun :: "(char list list \<Rightarrow> shell \<Rightarrow> (int \<times> shell) option) option"
  usage :: "char list option"
  cmd_help :: "char list option"
  cmd_complete :: "(char list list \<Rightarrow> char \<Rightarrow> int \<Rightarrow> int \<times> char list list) option"

type_synonym table = "cmd_tbl list"

definition shell_find_command :: "table \<Rightarrow> char list \<Rightarrow> cmd_tbl option" where
  "shell_find_command tbl cmd = List.find (\<lambda>c. cmd_name c = cmd) tbl"

subsection \<open>Splitting a line\<close>

definition isblank :: "char \<Rightarrow> bool" where
  "isblank c \<longleftrightarrow> c = CHR '' '' \<or> c = CHR 0x09"

text \<open>The two inner loops: the first position from \<open>i\<close> on that is not blank, or that is blank or the end.\<close>

definition skip_blank :: "char list \<Rightarrow> nat \<Rightarrow> nat" where
  "skip_blank b i = i + length (takeWhile isblank (drop i b))"

definition skip_word :: "char list \<Rightarrow> nat \<Rightarrow> nat" where
  "skip_word b i = i + length (takeWhile (\<lambda>c. c \<noteq> NUL \<and> \<not> isblank c) (drop i b))"

text \<open>Reading past the end of the buffer, or writing past the end of \<open>argv\<close>, is \<open>None\<close>.\<close>

definition buf_get :: "nat \<Rightarrow> char list \<Rightarrow> char option" where
  "buf_get i b = (if i < length b then Some (b ! i) else None)"

datatype split_end = Line_End | Too_Many

text \<open>
  The common loop of \<open>parse_line\<close> and \<open>make_argv\<close>: at most \<open>n\<close> more arguments; an array of \<open>size\<close> pointers gets the
  terminating null pointer at the place after the last argument.
\<close>

fun split_args :: "nat \<Rightarrow> nat \<Rightarrow> nat list \<Rightarrow> nat \<Rightarrow> char list \<Rightarrow> (split_end \<times> nat list \<times> char list) option" where
  "split_args 0 slots argv i b = Some (Too_Many, argv, b)"
| "split_args (Suc n) slots argv i b =
     (let i = skip_blank b i in do {
        c \<leftarrow> buf_get i b;
        if c = NUL then (if length argv < slots then Some (Line_End, argv, b) else None)
        else if \<not> length argv < slots then None
        else do {
          let argv = argv @ [i];
          let i = skip_word b i;
          c \<leftarrow> buf_get i b;
          if c = NUL then (if length argv < slots then Some (Line_End, argv, b) else None)
          else split_args n slots argv (i + 1) (b[i := NUL])
        }
      })"

definition arg_strings :: "nat list \<Rightarrow> char list \<Rightarrow> char list list" where
  "arg_strings argv b = map (\<lambda>i. c_string (drop i b)) argv"

definition parse_line :: "char list \<Rightarrow> shell \<Rightarrow> (char list list \<times> char list \<times> shell) option" where
  "parse_line line s = do {
     (r, argv, line) \<leftarrow> split_args SHELL_MAX_ARGS SHELL_MAX_ARGS [] 0 line;
     case r of
       Line_End \<Rightarrow> Some (arg_strings argv line, line, s)
     | Too_Many \<Rightarrow> do {
         s \<leftarrow> shell_printf (''** Too many args (max. 8) **'' @ [CHR 0x0D, CHR 0x0A]) s;
         Some (arg_strings argv line, line, s)
       }
   }"

definition make_argv :: "char list \<Rightarrow> nat \<Rightarrow> char list list option" where
  "make_argv str argvsz = map_option (\<lambda>(r, argv, b). arg_strings argv b) (split_args (argvsz - 1) argvsz [] 0 str)"

subsection \<open>Completion\<close>

text \<open>The names that begin with the first argument, \<open>maxv - 2\<close> of them and an ellipsis at most.\<close>

fun collect_names :: "(cmd_tbl \<Rightarrow> bool) \<Rightarrow> nat \<Rightarrow> char list list \<Rightarrow> table \<Rightarrow> char list list" where
  "collect_names p lim found [] = found"
| "collect_names p lim found (c # tbl) =
     (if \<not> p c then collect_names p lim found tbl
      else if length found \<ge> lim then found @ [''...'']
      else collect_names p lim (found @ [cmd_name c]) tbl)"

definition is_prefix :: "char list \<Rightarrow> char list \<Rightarrow> bool" where
  "is_prefix p s \<longleftrightarrow> \<not> length s < length p \<and> take (length p) s = p"

text \<open>With no argument the break at the limit stores the ellipsis without counting it.\<close>

definition complete_cmdv :: "table \<Rightarrow> char list list \<Rightarrow> char \<Rightarrow> nat \<Rightarrow> int \<times> char list list" where
  "complete_cmdv tbl argv last_char maxv =
     (if maxv < 2 then (- 2, [])
      else if argv = [] then (int (min (length tbl) (maxv - 2)), collect_names (\<lambda>_. True) (maxv - 2) [] tbl)
      else if length argv > 1 \<or> last_char = NUL \<or> isblank last_char then
        (case shell_find_command tbl (argv ! 0) of
           None \<Rightarrow> (0, [])
         | Some c \<Rightarrow> (case cmd_complete c of None \<Rightarrow> (0, []) | Some f \<Rightarrow> f argv last_char (int maxv)))
      else (let found = collect_names (\<lambda>c. is_prefix (argv ! 0) (cmd_name c)) (maxv - 2) [] tbl in (int (length found), found)))"

text \<open>
  The common prefix: the loop moves both pointers before it compares, so it never compares the first characters; a
  string is read up to its null, here the end of the list.
\<close>

definition char_at :: "char list \<Rightarrow> nat \<Rightarrow> char" where
  "char_at s i = (if i < length s then s ! i else NUL)"

fun prefix_scan :: "nat \<Rightarrow> nat \<Rightarrow> char list \<Rightarrow> char list \<Rightarrow> nat" where
  "prefix_scan 0 i anchor t = i"
| "prefix_scan (Suc n) i anchor t =
     (let i = i + 1 in if char_at t i \<noteq> char_at anchor i then i else prefix_scan n i anchor t)"

definition find_common_prefix :: "char list list \<Rightarrow> nat" where
  "find_common_prefix argv = (case argv of
       [] \<Rightarrow> 0
     | anchor # _ \<Rightarrow> fold (\<lambda>t len. prefix_scan len 0 anchor t) argv (length anchor))"

text \<open>Text printed as a format: undefined when it has a percent sign.\<close>

definition printf_fmt :: "char list \<Rightarrow> shell \<Rightarrow> shell option" where
  "printf_fmt str s = (if CHR ''%'' \<in> set str then None else shell_printf str s)"

fun print_items :: "char list \<Rightarrow> char list \<Rightarrow> int \<Rightarrow> nat \<Rightarrow> char list list \<Rightarrow> shell \<Rightarrow> shell option" where
  "print_items leader sep linemax i [] s = Some s"
| "print_items leader sep linemax i (a # argv) s =
     (let len = (length a + length sep) mod 256 in do {
        (s, i) \<leftarrow> (if int i + int len \<ge> linemax then do {
                     s \<leftarrow> shell_printf [CHR 0x0D, CHR 0x0A] s;
                     s \<leftarrow> printf_fmt leader s;
                     Some (s, nat ((int (length leader) - int (length sep)) mod 256))
                   } else do { s \<leftarrow> printf_fmt sep s; Some (s, i) });
        s \<leftarrow> printf_fmt a s;
        print_items leader sep linemax ((i + len) mod 256) argv s
      })"

definition print_argv :: "char list \<Rightarrow> char list \<Rightarrow> int \<Rightarrow> char list list \<Rightarrow> shell \<Rightarrow> shell option" where
  "print_argv leader sep linemax argv s = do {
     s \<leftarrow> print_items leader sep linemax (nat (linemax mod 256)) argv s;
     shell_printf [CHR 0x0D, CHR 0x0A] s
   }"

definition write_at :: "nat \<Rightarrow> char list \<Rightarrow> char list \<Rightarrow> char list option" where
  "write_at i str b = (if i + length str \<le> length b then Some (take i b @ str @ drop (i + length str) b) else None)"

text \<open>
  \<open>readline\<close> has advanced its pointer \<open>prompt\<close> to the end of the prompt when it printed it, so the prompt this function
  prints again is empty.  \<open>tmp_buf\<close> has one byte less than the buffer of the line, \<open>cmdv\<close> has 20 entries: more is undefined.
\<close>

definition cmd_auto_complete :: "table \<Rightarrow> completer" where
  "cmd_auto_complete tbl bf n s =
     (let str = c_string bf; cnt = length str mod 256;
          last_char = (if cnt \<ge> 1 then bf ! (cnt - 1) else NUL)
      in if length str \<ge> SHELL_CB_SIZE then None
         else do {
           argv \<leftarrow> make_argv (str @ [NUL]) 21;
           let (i, cmdv) = complete_cmdv tbl argv last_char 20;
           if length cmdv > 20 then None
           else if argv = [] then Some (True, bf, n, s)
           else if i = 0 then (if length argv > 1 then Some (False, bf, n, s) else Some (True, bf, n, shell_beep s))
           else do {
             let cmds = take (nat (i mod 256)) cmdv;
             let k = length (argv ! (length argv - 1));
             let j = int (find_common_prefix cmds) - int k;
             case (if i = 1 then Some (drop k (cmdv ! 0), '' '')
                   else if i > 1 \<and> find_common_prefix cmds \<noteq> 0 \<and> j > 0 then Some (take (nat j) (drop k (cmdv ! 0)), [])
                   else None) of
               Some (ext, sep) \<Rightarrow>
                 (let k' = length ext + length sep
                  in if k > length (cmdv ! 0) then None
                     else if n + k' \<ge> SHELL_CB_SIZE - 2 then Some (True, bf, n, shell_beep s)
                     else do {
                       bf \<leftarrow> write_at cnt (ext @ sep @ [NUL]) bf;
                       s \<leftarrow> printf_fmt (ext @ sep) s;
                       Some (True, bf, (n + k') mod 256, if sep = [] then shell_beep s else s)
                     })
             | None \<Rightarrow> do {
                 s \<leftarrow> print_argv '' '' '' '' 78 cmds s;
                 s \<leftarrow> printf_fmt [] s;
                 s \<leftarrow> printf_fmt str s;
                 Some (True, bf, n, s)
               }
           }
         })"

subsection \<open>The commands \<open>help\<close> and \<open>history\<close>\<close>

fun decimal :: "nat \<Rightarrow> char list" where
  "decimal n = (if n < 10 then [char_of (48 + n)] else decimal (n div 10) @ [char_of (48 + n mod 10)])"

declare decimal.simps [simp del]

abbreviation (input) crnl :: "char list" where "crnl \<equiv> [CHR 0x0D, CHR 0x0A]"

definition pad8 :: "char list \<Rightarrow> char list" where
  "pad8 str = str @ replicate (8 - length str) CHR '' ''"

text \<open>A null pointer for \<open>%s\<close> is undefined.\<close>

fun help_list :: "nat \<Rightarrow> table \<Rightarrow> shell \<Rightarrow> shell option" where
  "help_list i [] s = Some s"
| "help_list i (c # tbl) s = do {
     u \<leftarrow> usage c;
     s \<leftarrow> shell_printf (pad8 (cmd_name c) @ ''('' @ decimal i @ '')- '' @ u @ crnl) s;
     help_list ((i + 1) mod 256) tbl s
   }"

definition DoHelp :: "table \<Rightarrow> char list list \<Rightarrow> shell \<Rightarrow> (int \<times> shell) option" where
  "DoHelp tbl argv s = do {
     s \<leftarrow> (if length argv = 1 then help_list 0 tbl s else Some s);
     s \<leftarrow> (if length argv = 2 then
             (case shell_find_command tbl (argv ! 1) of
                Some c \<Rightarrow> (case cmd_help c of
                            Some h \<Rightarrow> shell_printf (pad8 (cmd_name c) @ ''- '' @ h @ crnl) s
                          | None \<Rightarrow> shell_printf (''- No additional help available.'' @ crnl) s)
              | None \<Rightarrow> shell_printf (''- No command available.'' @ crnl) s)
           else Some s);
     Some (CMD_RET_SUCCESS, s)
   }"

definition DoHelpComplete :: "table \<Rightarrow> char list list \<Rightarrow> char \<Rightarrow> int \<Rightarrow> int \<times> char list list" where
  "DoHelpComplete tbl argv last_char maxv =
     (let str_len = length (argv ! (length argv - 1)) mod 256;
          found = (if length argv = 2
                   then map cmd_name (filter (\<lambda>c. take str_len (argv ! (length argv - 1)) = take str_len (cmd_name c)) tbl) else [])
      in (int (length found mod 256), found))"

definition shell_get_hist_data_list :: "shell \<Rightarrow> nat \<times> nat" where
  "shell_get_hist_data_list s = (nat ((hist_max s + 1) mod 256), nat (hist_cur s mod 256))"

fun hist_print :: "(nat \<Rightarrow> int) \<Rightarrow> nat list \<Rightarrow> shell \<Rightarrow> shell option" where
  "hist_print no [] s = Some s"
| "hist_print no (i # is) s = do {
     s \<leftarrow> (if c_string (hist_list s i) \<noteq> []
           then shell_printf (''('' @ decimal (nat (no i)) @ '') '' @ c_string (hist_list s i) @ crnl) s else Some s);
     hist_print no is s
   }"

definition DoHist :: "char list list \<Rightarrow> shell \<Rightarrow> (int \<times> shell) option" where
  "DoHist argv s =
     (let (num, cur_index) = shell_get_hist_data_list s in do {
        s \<leftarrow> shell_printf (''history:'' @ crnl) s;
        if cur_index \<ge> num then Some (CMD_RET_SUCCESS, s)
        else do {
          s \<leftarrow> hist_print (\<lambda>i. int i - int cur_index) [cur_index..<num] s;
          s \<leftarrow> hist_print (\<lambda>i. int num - int cur_index + int i) [0..<cur_index] s;
          Some (CMD_RET_SUCCESS, s)
        }
      })"

subsection \<open>The main loop\<close>

definition int8 :: "int \<Rightarrow> int" where
  "int8 n = (n + 128) mod 256 - 128"

text \<open>
  One turn of the loop; \<open>result\<close> keeps its value from the turn before (\<open>None\<close>: not yet assigned), reading it then
  is undefined, and so is a null \<open>cmdtp\<close>.  \<open>Wait\<close>: the input ended before the line did.
\<close>

datatype turn = Turn "int option" shell "char list" | Wait shell

definition print_usage :: "cmd_tbl option \<Rightarrow> shell \<Rightarrow> shell option" where
  "print_usage cmdtp s = do {
     c \<leftarrow> cmdtp;
     s \<leftarrow> (case usage c of None \<Rightarrow> Some s | Some u \<Rightarrow> shell_printf (cmd_name c @ '' - '' @ u @ crnl) s);
     (case cmd_help c of
        Some h \<Rightarrow> do { s \<leftarrow> shell_printf (''Usage:'' @ crnl @ cmd_name c @ '' '') s; shell_printf (h @ crnl) s }
      | None \<Rightarrow> shell_printf (''- No additional help available.'' @ crnl) s)
   }"

definition shell_dispatch :: "table \<Rightarrow> char list list \<Rightarrow> int option \<Rightarrow> shell \<Rightarrow> (int option \<times> shell) option" where
  "shell_dispatch tbl argv result s =
     (let cmdtp = shell_find_command tbl (argv ! 0) in do {
        (result, s) \<leftarrow> (case cmdtp \<bind> cmd_fun of
            Some f \<Rightarrow> if length argv > maxargs (the cmdtp) then Some (Some CMD_RET_USAGE, s)
                      else do { (r, s) \<leftarrow> f argv s; Some (Some (int8 r), s) }
          | None \<Rightarrow> do {
              s \<leftarrow> shell_printf (''Unknown command '' @ [CHR 0x27] @ argv ! 0 @ [CHR 0x27] @ '' - try '' @ [CHR 0x27] @ ''help'' @ [CHR 0x27] @ crnl) s;
              Some (result, s) });
        r \<leftarrow> result;
        s \<leftarrow> (if r = CMD_RET_USAGE then print_usage cmdtp s else Some s);
        Some (result, s)
      })"

definition shell_turn :: "table \<Rightarrow> char list \<Rightarrow> char list \<Rightarrow> int option \<Rightarrow> shell \<Rightarrow> turn option" where
  "shell_turn tbl prompt inp result s = do {
     (len, s, rest) \<leftarrow> readline (cmd_auto_complete tbl) prompt inp s;
     case len of
       None \<Rightarrow> Some (Wait s)
     | Some n \<Rightarrow>
         if int8 n > 0 then do {
           (argv, line, s) \<leftarrow> parse_line (console_buffer s) s;
           let s = s\<lparr>console_buffer := line\<rparr>;
           if argv = [] then Some (Turn result s rest)
           else do { (result, s) \<leftarrow> shell_dispatch tbl argv result s; Some (Turn result s rest) }
         }
         else if int8 n = - 1 then do { s \<leftarrow> shell_printf (''<INTERRUPT>'' @ crnl) s; Some (Turn result s rest) }
         else Some (Turn result s rest)
   }"

text \<open>Every turn takes at least one character; the loop ends when it waits for input, \<open>fuel\<close> bounds its turns.\<close>

fun shell_main_loop :: "nat \<Rightarrow> table \<Rightarrow> char list \<Rightarrow> char list \<Rightarrow> int option \<Rightarrow> shell \<Rightarrow> shell option" where
  "shell_main_loop 0 tbl prompt inp result s = None"
| "shell_main_loop (Suc fuel) tbl prompt inp result s = do {
     t \<leftarrow> shell_turn tbl prompt inp result s;
     case t of Wait s \<Rightarrow> Some s | Turn result s rest \<Rightarrow> shell_main_loop fuel tbl prompt rest result s
   }"

subsection \<open>The arguments are the words of the line\<close>

function words :: "char list \<Rightarrow> char list list" where
  "words [] = []"
| "words (c # s) = (if isblank c then words s else (c # takeWhile (\<lambda>c. \<not> isblank c) s) # words (dropWhile (\<lambda>c. \<not> isblank c) s))"
  by pat_completeness auto
termination
  by (relation "measure length") (auto simp: le_imp_less_Suc length_dropWhile_le)

definition ends_word :: "char list \<Rightarrow> bool" where
  "ends_word u \<longleftrightarrow> u \<noteq> [] \<and> \<not> isblank (last u)"

lemma words_blank: "list_all isblank bl \<Longrightarrow> words (bl @ v) = words v"
  by (induction bl) auto

lemma words_word:
  "w \<noteq> [] \<Longrightarrow> list_all (\<lambda>c. \<not> isblank c) w \<Longrightarrow> v = [] \<or> isblank (hd v) \<Longrightarrow> words (w @ v) = w # words v"
proof (cases w)
  case (Cons c cs)
  assume "list_all (\<lambda>c. \<not> isblank c) w" "v = [] \<or> isblank (hd v)"
  then have "takeWhile (\<lambda>c. \<not> isblank c) (cs @ v) = cs" "dropWhile (\<lambda>c. \<not> isblank c) (cs @ v) = v"
    using Cons by (cases v; simp add: takeWhile_append dropWhile_append list_all_iff)+
  then show ?thesis using Cons \<open>list_all (\<lambda>c. \<not> isblank c) w\<close> by simp
qed simp

lemma ends_word_words: "ends_word u \<Longrightarrow> words u \<noteq> []"
  by (induction u rule: words.induct) (auto simp: ends_word_def split: if_splits)

lemma isblank_NUL [simp]: "\<not> isblank NUL"
  by (simp add: isblank_def)

lemma skip_blank_eq: "drop i b = bl @ v @ NUL # rest \<Longrightarrow> list_all isblank bl \<Longrightarrow> v = [] \<or> \<not> isblank (hd v) \<Longrightarrow> skip_blank b i = i + length bl"
  by (cases v) (simp_all add: skip_blank_def takeWhile_append list_all_iff)

lemma skip_word_eq:
  "drop i b = w @ v @ NUL # rest \<Longrightarrow> list_all (\<lambda>c. \<not> isblank c) w \<Longrightarrow> NUL \<notin> set w \<Longrightarrow> v = [] \<or> isblank (hd v) \<Longrightarrow> skip_word b i = i + length w"
  by (cases v) (auto simp: skip_word_def takeWhile_append list_all_iff)

lemma drop_more: "drop i b = x @ y \<Longrightarrow> drop (i + length x) b = y"
  by (metis add.commute append_eq_conv_conj drop_drop)

lemma buf_get_drop: "drop i b = c # r \<Longrightarrow> buf_get i b = Some c"
  by (metis buf_get_def drop_all leI list.simps(3) nth_via_drop)

text \<open>An argument whose terminating null is in front of \<open>i\<close> does not see a write at \<open>i\<close> or after it.\<close>

definition closed_at :: "nat \<Rightarrow> char list \<Rightarrow> nat \<Rightarrow> bool" where
  "closed_at i b a \<longleftrightarrow> NUL \<in> set (drop a (take i b))"

lemma closed_string: "closed_at i b a \<Longrightarrow> c_string (drop a b) = c_string (drop a (take i b))"
proof -
  assume "closed_at i b a"
  then have n: "NUL \<in> set (drop a (take i b))" by (simp add: closed_at_def)
  then have "a < i" by (cases "a < i") auto
  then have "drop a b = drop a (take i b) @ drop i b"
    by (metis append_take_drop_id drop_append drop_eq_Nil diff_is_0_eq drop_0 length_take less_imp_le_nat min.cobounded1 n list.distinct(1) list.set_cases nat_le_linear order_trans)
  then show ?thesis using n by (simp add: c_string_def takeWhile_append1)
qed

lemma closed_update:
  assumes "closed_at i b a" and "i \<le> j"
  shows "closed_at i (b[j := c]) a" and "c_string (drop a (b[j := c])) = c_string (drop a b)"
proof -
  have "take i (b[j := c]) = take i b" using assms(2) by simp
  then show "closed_at i (b[j := c]) a" using assms(1) by (simp add: closed_at_def)
  from closed_string [OF this] closed_string [OF assms(1)] \<open>take i (b[j := c]) = take i b\<close>
  show "c_string (drop a (b[j := c])) = c_string (drop a b)" by simp
qed

lemma closed_mono: "closed_at i b a \<Longrightarrow> i \<le> j \<Longrightarrow> closed_at j b a"
proof -
  assume a: "closed_at i b a" and ij: "i \<le> j"
  have "drop a (take i b) = take (i - a) (drop a (take j b))" using ij by (simp add: drop_take min_absorb1 diff_le_mono)
  then show ?thesis using a by (auto simp: closed_at_def dest: in_set_takeD)
qed

definition split_result :: "nat \<Rightarrow> nat \<Rightarrow> nat list \<Rightarrow> char list \<Rightarrow> char list \<Rightarrow> (split_end \<times> nat list \<times> char list) option \<Rightarrow> bool" where
  "split_result n slots argv b u r \<longleftrightarrow>
     (if length (words u) < n \<or> (length (words u) = n \<and> ends_word u)
      then (if length argv + length (words u) < slots
            then \<exists>argv' b'. r = Some (Line_End, argv', b') \<and> length b' = length b \<and> arg_strings argv' b' = arg_strings argv b @ words u
            else r = None)
      else \<exists>argv' b'. r = Some (Too_Many, argv', b') \<and> length b' = length b \<and> arg_strings argv' b' = arg_strings argv b @ take n (words u))"

lemma split_args_words:
  assumes "drop i b = u @ NUL # rest" and "NUL \<notin> set u" and "\<forall>a \<in> set argv. closed_at i b a" and "length argv + n \<le> slots"
  shows "split_result n slots argv b u (split_args n slots argv i b)"
  using assms
proof (induction n arbitrary: argv i b u)
  case 0
  have "\<not> (words u = [] \<and> ends_word u)" using ends_word_words by blast
  then show ?case by (simp add: split_result_def)
next
  case (Suc n)
  define bl v where "bl = takeWhile isblank u" and "v = dropWhile isblank u"
  have u: "u = bl @ v" and bl: "list_all isblank bl"
    by (auto simp: bl_def v_def list_all_iff dest: set_takeWhileD)
  have v: "v = [] \<or> \<not> isblank (hd v)" using hd_dropWhile [of isblank u] unfolding v_def by blast
  define i1 where "i1 = i + length bl"
  have d0: "drop i b = bl @ v @ NUL # rest" using Suc.prems(1) u by simp
  have d1: "drop i1 b = v @ NUL # rest" unfolding i1_def by (rule drop_more [OF d0])
  have sb: "skip_blank b i = i1" unfolding i1_def by (rule skip_blank_eq [OF d0 bl v])
  have wu: "words u = words v" unfolding u by (rule words_blank [OF bl])
  show ?case
  proof (cases "v = []")
    case True
    then have "buf_get i1 b = Some NUL" using d1 by (simp add: buf_get_drop)
    then show ?thesis using True wu by (simp add: split_result_def sb)
  next
    case False
    then obtain c0 vs where c0: "v = c0 # vs" by (cases v) auto
    have nb: "\<not> isblank c0" "c0 \<noteq> NUL" using v c0 Suc.prems(2) u by auto
    define w x where "w = takeWhile (\<lambda>c. \<not> isblank c) v" and "x = dropWhile (\<lambda>c. \<not> isblank c) v"
    have vw: "v = w @ x" and w: "list_all (\<lambda>c. \<not> isblank c) w" and x: "x = [] \<or> isblank (hd x)" and wne: "w \<noteq> []"
      using nb(1) hd_dropWhile [of "\<lambda>c. \<not> isblank c" v] by (auto simp: w_def x_def list_all_iff c0 dest: set_takeWhileD)
    have nw: "NUL \<notin> set w" and nx: "NUL \<notin> set x" using Suc.prems(2) u vw by auto
    define i2 where "i2 = i1 + length w"
    have d1': "drop i1 b = w @ x @ NUL # rest" using d1 vw by simp
    have d2: "drop i2 b = x @ NUL # rest" unfolding i2_def by (rule drop_more [OF d1'])
    have sw: "skip_word b i1 = i2" unfolding i2_def by (rule skip_word_eq [OF d1' w nw x])
    have g1: "buf_get i1 b = Some c0" using d1 c0 by (simp add: buf_get_drop)
    have slot: "length argv < slots" using Suc.prems(4) by simp
    have wv: "words u = w # words x" unfolding wu vw by (rule words_word [OF wne w x])
    have i12: "i \<le> i1" "i1 < i2" using wne by (simp_all add: i1_def i2_def)
    show ?thesis
    proof (cases x)
      case Nil
      have g2: "buf_get i2 b = Some NUL" using d2 Nil by (simp add: buf_get_drop)
      have r: "split_args (Suc n) slots argv i b = (if length (argv @ [i1]) < slots then Some (Line_End, argv @ [i1], b) else None)"
        using nb slot by (simp add: sb g1 sw g2)
      have "c_string (drop i1 b) = w" using d1' Nil nw by (simp add: c_string_prefix)
      moreover have "ends_word u" using w wne by (auto simp: ends_word_def u vw Nil list_all_iff)
      ultimately show ?thesis unfolding r by (auto simp: split_result_def wv Nil arg_strings_def)
    next
      case (Cons y ys)
      have yb: "isblank y" using x Cons by simp
      have yn: "y \<noteq> NUL" using nx Cons by auto
      have g2: "buf_get i2 b = Some y" using d2 Cons by (simp add: buf_get_drop)
      define b1 where "b1 = b[i2 := NUL]"
      have r: "split_args (Suc n) slots argv i b = split_args n slots (argv @ [i1]) (i2 + 1) b1"
        using nb slot yn by (simp add: sb g1 sw g2 b1_def)
      have i2l: "i2 < length b" using d2 Cons by (metis append_Cons drop_all leI list.simps(3))
      have tk: "take (i2 + 1) b1 = take i2 b @ [NUL]" using i2l by (simp add: b1_def take_Suc_conv_app_nth)
      have d3: "drop (i2 + 1) b1 = ys @ NUL # rest"
        using drop_more [of i2 b "[y]" "ys @ NUL # rest"] d2 Cons by (simp add: b1_def)
      have tw: "drop i1 (take i2 b) = w"
        using d1' by (simp add: i2_def drop_take)
      have cl1: "closed_at (i2 + 1) b1 i1" using tk i12 i2l by (simp add: closed_at_def)
      have s1: "c_string (drop i1 b1) = w"
        using closed_string [OF cl1] tk tw i12 i2l nw by (simp add: c_string_prefix)
      have cl: "\<forall>a \<in> set (argv @ [i1]). closed_at (i2 + 1) b1 a"
        using Suc.prems(3) cl1 i12 closed_update(1) [of i b _ i2 NUL] closed_mono [of i b1 _ "i2 + 1"] by (auto simp: b1_def)
      have as: "arg_strings (argv @ [i1]) b1 = arg_strings argv b @ [w]"
        using Suc.prems(3) s1 i12 closed_update(2) [of i b _ i2 NUL] by (auto simp: arg_strings_def b1_def)
      have wx: "words x = words ys" using yb Cons by simp
      have ew: "ends_word u \<longleftrightarrow> ends_word ys" using yb by (auto simp: ends_word_def u vw Cons)
      have lb1: "length b1 = length b" by (simp add: b1_def)
      have nys: "NUL \<notin> set ys" using nx Cons by simp
      have "split_result n slots (argv @ [i1]) b1 ys (split_args n slots (argv @ [i1]) (i2 + 1) b1)"
        by (rule Suc.IH [OF d3 nys cl]) (use Suc.prems(4) in simp)
      then show ?thesis unfolding r
        by (simp add: split_result_def wv wx ew as lb1 cong: if_cong)
    qed
  qed
qed

lemma split_line:
  assumes "NUL \<notin> set u"
  shows "split_result 8 8 [] (u @ NUL # rest) u (split_args 8 8 [] 0 (u @ NUL # rest))"
  by (rule split_args_words [of 0 _ u rest]) (use assms in simp_all)

lemma parse_line_ok:
  assumes "NUL \<notin> set u" and "length (words u) < SHELL_MAX_ARGS"
  shows "\<exists>b. parse_line (u @ NUL # rest) s = Some (words u, b, s) \<and> length b = length u + length rest + 1"
proof -
  obtain argv b where "split_args 8 8 [] 0 (u @ NUL # rest) = Some (Line_End, argv, b)" "length b = length (u @ NUL # rest)"
      "arg_strings argv b = words u"
    using split_line [OF assms(1), of rest] assms(2) by (auto simp: split_result_def arg_strings_def)
  then show ?thesis by (simp add: parse_line_def)
qed



subsection \<open>A turn of the main loop\<close>

lemma c_string_split: "length (c_string b) < length b \<Longrightarrow> \<exists>rest. b = c_string b @ NUL # rest"
proof -
  assume l: "length (c_string b) < length b"
  have "dropWhile (\<lambda>c. c \<noteq> NUL) b \<noteq> []" using l by (auto simp: c_string_def simp del: dropWhile_eq_Nil_conv) (metis append_Nil2 less_irrefl takeWhile_dropWhile_id)
  then obtain y ys where y: "dropWhile (\<lambda>c. c \<noteq> NUL) b = y # ys" by (cases "dropWhile (\<lambda>c. c \<noteq> NUL) b") auto
  have "y = NUL" using hd_dropWhile [of "\<lambda>c. c \<noteq> NUL" b] y by simp
  moreover have "b = c_string b @ y # ys" unfolding c_string_def y [symmetric] by (rule takeWhile_dropWhile_id [symmetric])
  ultimately show ?thesis by blast
qed

lemma c_string_NUL: "NUL \<notin> set (c_string b)"
  by (auto simp: c_string_def dest: set_takeWhileD)

lemma int8_small: "0 \<le> n \<Longrightarrow> n < 128 \<Longrightarrow> int8 n = n"
  by (simp add: int8_def mod_pos_pos_trivial)

lemma hist_ok_console [simp]: "hist_ok h (s\<lparr>console_buffer := b\<rparr>) = hist_ok h s"
  by (simp add: hist_ok_def Let_def cong: option.case_cong)

lemma turn_reads:
  assumes s: "shell_ok h s" and tab: "CHR 0x09 \<notin> set inp" and run: "ed_run inp (ed_start h) = (K_Enter, e, rest)"
    and len: "0 < length (ed_text e)" "length (ed_text e) < SHELL_CB_SIZE" and w: "length (words (ed_text e)) < SHELL_MAX_ARGS"
  shows "\<exists>s1. shell_ok (h_add (ed_text e) (hst e)) s1 \<and> shell_turn tbl prompt inp result s =
    (if words (ed_text e) = [] then Some (Turn result s1 rest)
     else do { (result, s) \<leftarrow> shell_dispatch tbl (words (ed_text e)) result s1; Some (Turn result s rest) })"
proof -
  obtain s' where rl: "readline (cmd_auto_complete tbl) prompt inp s = Some (Some (int (length (ed_text e))), s', rest)"
      and c: "c_string (console_buffer s') = ed_text e" and ok: "shell_ok (h_add (ed_text e) (hst e)) s'"
    using readline_ok [OF s tab run, of "cmd_auto_complete tbl" prompt] by (auto simp: line_result_def)
  have lc: "length (console_buffer s') = SHELL_CB_SIZE + 1" using ok by (simp add: shell_ok_def)
  obtain r where r: "console_buffer s' = ed_text e @ NUL # r" using c_string_split [of "console_buffer s'"] c lc len(2) by auto
  have n: "NUL \<notin> set (ed_text e)" using c_string_NUL [of "console_buffer s'"] c by simp
  obtain b where b: "parse_line (console_buffer s') s' = Some (words (ed_text e), b, s')" "length b = SHELL_CB_SIZE + 1"
    using parse_line_ok [OF n w, of r s'] lc unfolding r by auto
  have ok1: "shell_ok (h_add (ed_text e) (hst e)) (s'\<lparr>console_buffer := b\<rparr>)"
    using ok b(2) by (auto simp: shell_ok_def)
  have i8: "int8 (int (length (ed_text e))) > 0" using len by (simp add: int8_small)
  have "shell_turn tbl prompt inp result s =
      (if words (ed_text e) = [] then Some (Turn result (s'\<lparr>console_buffer := b\<rparr>) rest)
       else do { (result, s) \<leftarrow> shell_dispatch tbl (words (ed_text e)) result (s'\<lparr>console_buffer := b\<rparr>); Some (Turn result s rest) })"
    unfolding shell_turn_def rl using i8 by (simp add: b(1))
  with ok1 show ?thesis by blast
qed

text \<open>
  C29 A typed command runs: when the line entered has fewer than eight words, fewer than 128 characters and the
  first word names a command of the table that takes that many arguments, the turn of the main loop calls its function with exactly
  the words of the line and, when the function asks for it, prints its usage; the history has the line in front.
\<close>

theorem shell_turn_command:
  assumes "shell_ok h s" and "CHR 0x09 \<notin> set inp" and "ed_run inp (ed_start h) = (K_Enter, e, rest)"
    and "length (ed_text e) < SHELL_CB_SIZE" and "words (ed_text e) = name # args" and "length args < SHELL_MAX_ARGS - 1"
    and "shell_find_command tbl name = Some c" and "cmd_fun c = Some f" and "length (name # args) \<le> maxargs c"
  shows "\<exists>s1. shell_ok (h_add (ed_text e) (hst e)) s1 \<and> shell_turn tbl prompt inp result s = do {
      (r, s2) \<leftarrow> f (name # args) s1;
      s3 \<leftarrow> (if int8 r = CMD_RET_USAGE then print_usage (Some c) s2 else Some s2);
      Some (Turn (Some (int8 r)) s3 rest) }"
proof -
  have ne: "0 < length (ed_text e)" using assms(5) by (cases "ed_text e") auto
  have w: "length (words (ed_text e)) < SHELL_MAX_ARGS" using assms(5,6) by simp
  obtain s1 where s1: "shell_ok (h_add (ed_text e) (hst e)) s1"
      and t: "shell_turn tbl prompt inp result s = (if words (ed_text e) = [] then Some (Turn result s1 rest)
        else do { (result, s) \<leftarrow> shell_dispatch tbl (words (ed_text e)) result s1; Some (Turn result s rest) })"
    using turn_reads [OF assms(1-3) ne assms(4) w, of tbl prompt result] by blast
  have "shell_turn tbl prompt inp result s = do {
      (r, s2) \<leftarrow> f (name # args) s1;
      s3 \<leftarrow> (if int8 r = CMD_RET_USAGE then print_usage (Some c) s2 else Some s2);
      Some (Turn (Some (int8 r)) s3 rest) }"
    unfolding t using assms(5,7-9)
    by (cases "f (name # args) s1") (auto simp: shell_dispatch_def Let_def case_prod_beta split: Option.bind_splits)
  with s1 show ?thesis by blast
qed


definition ex_cmd :: cmd_tbl where
  "ex_cmd = \<lparr>cmd_name = ''help'', maxargs = 8, repeatable = 0, cmd_fun = Some (DoHelp []), usage = None, cmd_help = None, cmd_complete = None\<rparr>"

lemma ex_cmd_run: "ed_run (''help a b'' @ [CHR 0x0D]) (ed_start \<lparr>past = [], here = None\<rparr>) =
    (K_Enter, \<lparr>left = ''help a b'', right = [], ins = True, esc = [], hst = \<lparr>past = [], here = None\<rparr>\<rparr>, [])"
  by code_simp

theorem shell_turn_command_witness:
  "\<exists>s1. shell_ok \<lparr>past = [''help a b''], here = Some 0\<rparr> s1
     \<and> shell_turn [ex_cmd] ''>'' (''help a b'' @ [CHR 0x0D]) None ex_shell = Some (Turn (Some 0) s1 [])"
proof -
  have t: "CHR 0x09 \<notin> set (''help a b'' @ [CHR 0x0D])" by simp
  have w: "words ''help a b'' = ''help'' # [''a'', ''b'']" by (simp add: isblank_def)
  have f: "shell_find_command [ex_cmd] ''help'' = Some ex_cmd" by (simp add: shell_find_command_def ex_cmd_def)
  show ?thesis
    using shell_turn_command [OF ex_shell_ok t ex_cmd_run, of "''help''" "[''a'', ''b'']" "[ex_cmd]" ex_cmd "DoHelp []" "''>''" None] w f
    by (simp add: ed_text_def ex_cmd_def DoHelp_def int8_def h_add_def)
qed


text \<open>A line that fills the buffer has the length 128, which is \<open>-128\<close> in the eight bits of \<open>len\<close>: it is dropped without a word.\<close>

lemma full_line_dropped:
  assumes "shell_ok h s" and "CHR 0x09 \<notin> set inp" and "ed_run inp (ed_start h) = (K_Enter, e, rest)" and "length (ed_text e) = SHELL_CB_SIZE"
  shows "\<exists>s'. shell_turn tbl prompt inp result s = Some (Turn result s' rest)"
proof -
  have i: "int8 (int (length (ed_text e))) = - 128" by (simp add: assms(4) int8_def)
  obtain s' where "readline (cmd_auto_complete tbl) prompt inp s = Some (Some (int (length (ed_text e))), s', rest)"
    using readline_ok [OF assms(1-3), of "cmd_auto_complete tbl" prompt] by (auto simp: line_result_def)
  then have "shell_turn tbl prompt inp result s = Some (Turn result s' rest)" using i by (simp add: shell_turn_def)
  then show ?thesis by blast
qed

subsection \<open>Completion\<close>

text \<open>The scan stops at the first place behind \<open>i\<close> where the strings differ, or at its bound.\<close>

lemma prefix_scan_spec:
  "0 < n \<Longrightarrow> i < prefix_scan n i anchor t \<and> prefix_scan n i anchor t \<le> i + n
    \<and> (\<forall>j. i < j \<and> j < prefix_scan n i anchor t \<longrightarrow> char_at t j = char_at anchor j)
    \<and> (prefix_scan n i anchor t < i + n \<longrightarrow> char_at t (prefix_scan n i anchor t) \<noteq> char_at anchor (prefix_scan n i anchor t))"
proof (induction n arbitrary: i)
  case (Suc n)
  show ?case
  proof (cases "char_at t (i + 1) = char_at anchor (i + 1) \<and> n \<noteq> 0")
    case True
    then have r: "prefix_scan (Suc n) i anchor t = prefix_scan n (i + 1) anchor t" by (simp add: Let_def)
    have "\<forall>j. i < j \<and> j < prefix_scan n (i + 1) anchor t \<longrightarrow> char_at t j = char_at anchor j"
    proof (intro allI impI)
      fix j assume "i < j \<and> j < prefix_scan n (i + 1) anchor t"
      then show "char_at t j = char_at anchor j" using Suc.IH [of "i + 1"] True by (cases "j = i + 1") auto
    qed
    then show ?thesis unfolding r using Suc.IH [of "i + 1"] True by auto
  next
    case False
    then have "prefix_scan (Suc n) i anchor t = i + 1" by (auto simp: Let_def)
    then show ?thesis using False by auto
  qed
qed simp

lemma take_eq_chars:
  assumes "NUL \<notin> set a" and "n \<le> length a" and "\<forall>j < n. char_at t j = char_at a j"
  shows "take n t = take n a"
proof -
  have "n \<le> length t"
  proof (rule ccontr)
    assume "\<not> n \<le> length t"
    then have "char_at t (length t) = char_at a (length t)" "length t < length a" using assms(2,3) by simp_all
    then show False using assms(1) nth_mem [of "length t" a] by (simp add: char_at_def)
  qed
  then show ?thesis using assms(2,3) by (intro nth_equalityI) (auto simp: char_at_def)
qed

definition common :: "char list \<Rightarrow> char list list \<Rightarrow> nat \<Rightarrow> bool" where
  "common anchor ts n \<longleftrightarrow> n \<le> length anchor \<and> (\<forall>t \<in> set ts. take n t = take n anchor)
     \<and> (n < length anchor \<longrightarrow> (\<exists>t \<in> set ts. char_at t n \<noteq> char_at anchor n))"

lemma common_fold:
  assumes "NUL \<notin> set anchor" and "anchor \<noteq> []"
  shows "(\<forall>t \<in> set ts. t \<noteq> [] \<and> hd t = hd anchor) \<Longrightarrow> common anchor ps n \<Longrightarrow> 0 < n \<Longrightarrow>
    common anchor (ps @ ts) (fold (\<lambda>t len. prefix_scan len 0 anchor t) ts n)"
proof (induction ts arbitrary: ps n)
  case (Cons t ts)
  let ?r = "prefix_scan n 0 anchor t"
  note sp = prefix_scan_spec [OF Cons.prems(3), of 0 anchor t]
  have n: "n \<le> length anchor" using Cons.prems(2) by (simp add: common_def)
  have zero: "char_at t 0 = char_at anchor 0" using Cons.prems(1) assms(2) by (auto simp: char_at_def hd_conv_nth)
  have eq: "char_at t j = char_at anchor j" if "j < ?r" for j using sp zero that by (cases j) auto
  have "take ?r t = take ?r anchor" using sp n eq by (intro take_eq_chars [OF assms(1)]) auto
  moreover have "take ?r x = take ?r anchor" if "x \<in> set ps" for x
  proof -
    have "take n x = take n anchor" using Cons.prems(2) that by (simp add: common_def)
    then have "take ?r (take n x) = take ?r (take n anchor)" by simp
    then show ?thesis using sp by (simp add: min_absorb1)
  qed
  moreover have "\<exists>x \<in> set (ps @ [t]). char_at x ?r \<noteq> char_at anchor ?r" if "?r < length anchor"
  proof (cases "?r < n")
    case True
    then show ?thesis using sp by simp
  next
    case False
    then have "?r = n" using sp by simp
    then show ?thesis using Cons.prems(2) that by (auto simp: common_def)
  qed
  ultimately have "common anchor (ps @ [t]) ?r" using sp n by (auto simp: common_def)
  moreover have "0 < ?r" using sp by simp
  ultimately show ?case using Cons.IH [of "ps @ [t]" ?r] Cons.prems(1) by simp
qed simp

text \<open>The length of the longest common prefix, when the first characters agree; the code does not compare them.\<close>

lemma find_common_prefix_ok:
  assumes "NUL \<notin> set anchor" and "\<forall>t \<in> set (anchor # ts). t \<noteq> [] \<and> hd t = hd anchor"
  shows "common anchor (anchor # ts) (find_common_prefix (anchor # ts))"
proof -
  have "common anchor [] (length anchor)" by (simp add: common_def)
  then show ?thesis
    using common_fold [OF assms(1) _ assms(2), of "[]" "length anchor"] assms(2) by (simp add: find_common_prefix_def)
qed

end
